(* ===== verification/AIPC_Prelude.thy ===== *)
theory AIPC_Prelude
  imports Main "HOL-Library.Multiset"
begin

text \<open>
  Shared material of the development: the C integer types of the HiSilicon headers
  (\<open>HI_S32\<close>, \<open>HI_U32\<close>, \<open>HI_U64\<close>) as \<open>int\<close> with the conversion to each width written out,
  generic facts on lists that are updated by index, and the collections the component
  theories use.

  A signed overflow is undefined in C; the target (32-bit ARM, gcc) computes it modulo
  \<open>2 ^ 32\<close>, and \<open>s32\<close> is that reduction. Where the code relies on there being no
  overflow, the properties either bound the inputs or exhibit what the wrap-around does.
\<close>

named_theorems c_arith "conversions between mathematical and machine integers"
named_theorems c_defs "definitions of small helper macros, unfolded together"

section \<open>Machine integers\<close>

type_synonym hi_s32 = int
type_synonym hi_u32 = int

definition u32 :: "int \<Rightarrow> int" where
  "u32 x = x mod 4294967296"

definition s32 :: "int \<Rightarrow> int" where
  "s32 x = (x + 2147483648) mod 4294967296 - 2147483648"

definition u64 :: "int \<Rightarrow> int" where
  "u64 x = x mod 18446744073709551616"

definition in_s32 :: "int \<Rightarrow> bool" where
  "in_s32 x \<longleftrightarrow> - 2147483648 \<le> x \<and> x < 2147483648"

definition in_u32 :: "int \<Rightarrow> bool" where
  "in_u32 x \<longleftrightarrow> 0 \<le> x \<and> x < 4294967296"

text \<open>The result code for a bad argument (hi_common.h).\<close>

definition HI_INVALID_VALUE :: int where
  "HI_INVALID_VALUE = -1"

text \<open>Division as C has it, truncating towards zero.\<close>

definition c_div :: "int \<Rightarrow> int \<Rightarrow> int" where
  "c_div a b = (if (a < 0) = (b < 0) then \<bar>a\<bar> div \<bar>b\<bar> else - (\<bar>a\<bar> div \<bar>b\<bar>))"

lemma c_div_pos: "0 \<le> a \<Longrightarrow> 0 < b \<Longrightarrow> c_div a b = a div b"
  by (simp add: c_div_def)

lemma s32_id [c_arith]: "in_s32 x \<Longrightarrow> s32 x = x"
  by (simp add: s32_def in_s32_def)

lemma u32_id [c_arith]: "in_u32 x \<Longrightarrow> u32 x = x"
  by (simp add: u32_def in_u32_def)

lemma in_s32_s32 [simp]: "in_s32 (s32 x)"
proof -
  have "0 \<le> (x + 2147483648) mod 4294967296" "(x + 2147483648) mod 4294967296 < 4294967296"
    by simp_all
  then show ?thesis by (simp add: in_s32_def s32_def)
qed

lemma in_u32_u32 [simp]: "in_u32 (u32 x)"
  by (simp add: in_u32_def u32_def)

lemma s32_s32 [simp]: "s32 (s32 x) = s32 x"
  by (simp add: s32_id)

lemma u32_u32 [simp]: "u32 (u32 x) = u32 x"
  by (simp add: u32_id)

lemma u32_nonneg [simp]: "0 \<le> u32 x"
  by (simp add: u32_def)

lemma u32_s32 [simp]: "u32 (s32 x) = u32 x"
proof -
  have "u32 (s32 x) = ((x + 2147483648) mod 4294967296 - 2147483648) mod 4294967296"
    by (simp add: u32_def s32_def)
  also have "\<dots> = x mod 4294967296"
    by (simp add: mod_diff_left_eq)
  finally show ?thesis by (simp add: u32_def)
qed

lemma u32_add [simp]: "u32 (u32 x + y) = u32 (x + y)" "u32 (x + u32 y) = u32 (x + y)"
  by (simp_all add: u32_def mod_simps)

lemma u32_mult [simp]: "u32 (u32 x * y) = u32 (x * y)" "u32 (x * u32 y) = u32 (x * y)"
  by (simp_all add: u32_def mod_simps)

lemma u32_of_s32: "in_s32 t \<Longrightarrow> u32 t = (if t < 0 then t + 4294967296 else t)"
proof -
  assume t: "in_s32 t"
  have "u32 t = u32 (t + 4294967296)" by (simp add: u32_def)
  also have "t < 0 \<Longrightarrow> u32 (t + 4294967296) = t + 4294967296"
    using t by (intro u32_id) (simp add: in_u32_def in_s32_def)
  finally show ?thesis using t by (auto simp: in_s32_def in_u32_def intro!: u32_id)
qed

section \<open>Lists updated by index\<close>

definition swap_at :: "'a list \<Rightarrow> nat \<Rightarrow> nat \<Rightarrow> 'a list" where
  "swap_at xs i j = xs[i := xs ! j, j := xs ! i]"

lemma length_swap_at [simp]: "length (swap_at xs i j) = length xs"
  by (simp add: swap_at_def)

lemma mset_swap_at [simp]:
  "i < length xs \<Longrightarrow> j < length xs \<Longrightarrow> mset (swap_at xs i j) = mset xs"
  by (simp add: swap_at_def mset_swap)

lemma nth_swap_at:
  "i < length xs \<Longrightarrow> j < length xs \<Longrightarrow> p < length xs \<Longrightarrow>
    swap_at xs i j ! p = (if p = i then xs ! j else if p = j then xs ! i else xs ! p)"
  by (simp add: swap_at_def nth_list_update)

text \<open>
  \<open>range_perm l h xs ys\<close>: \<open>ys\<close> is \<open>xs\<close> with the positions \<open>l..h\<close> (both included)
  rearranged among themselves and nothing else touched.
\<close>

definition range_perm :: "int \<Rightarrow> int \<Rightarrow> 'a list \<Rightarrow> 'a list \<Rightarrow> bool" where
  "range_perm l h xs ys \<longleftrightarrow>
     length ys = length xs \<and> mset ys = mset xs \<and>
     (\<forall>p < length xs. int p < l \<or> h < int p \<longrightarrow> ys ! p = xs ! p) \<and>
     (\<forall>p < length xs. l \<le> int p \<and> int p \<le> h \<longrightarrow>
        (\<exists>q < length xs. l \<le> int q \<and> int q \<le> h \<and> ys ! p = xs ! q))"

lemma range_perm_refl [simp]: "range_perm l h xs xs"
  by (auto simp: range_perm_def)

lemma range_perm_trans:
  assumes "range_perm l h xs ys" and "range_perm l h ys zs"
  shows "range_perm l h xs zs"
  using assms unfolding range_perm_def by metis

lemma range_perm_swap:
  assumes "l \<le> int i" "int i \<le> h" "l \<le> int j" "int j \<le> h" "i < length xs" "j < length xs"
  shows "range_perm l h xs (swap_at xs i j)"
  unfolding range_perm_def
proof (intro conjI allI impI)
  fix p assume p: "p < length xs" and "l \<le> int p \<and> int p \<le> h"
  then show "\<exists>q<length xs. l \<le> int q \<and> int q \<le> h \<and> swap_at xs i j ! p = xs ! q"
    using assms by (auto simp: nth_swap_at)
qed (use assms in \<open>auto simp: nth_swap_at\<close>)

lemma range_perm_length: "range_perm l h xs ys \<Longrightarrow> length ys = length xs"
  by (simp add: range_perm_def)

lemma range_perm_mset: "range_perm l h xs ys \<Longrightarrow> mset ys = mset xs"
  by (simp add: range_perm_def)

lemma range_perm_outside:
  "range_perm l h xs ys \<Longrightarrow> p < length xs \<Longrightarrow> int p < l \<or> h < int p \<Longrightarrow> ys ! p = xs ! p"
  by (auto simp: range_perm_def)

lemma range_perm_inside:
  assumes "range_perm l h xs ys" "p < length xs" "l \<le> int p" "int p \<le> h"
  obtains q where "q < length xs" "l \<le> int q" "int q \<le> h" "ys ! p = xs ! q"
  using assms by (auto simp: range_perm_def)

lemma three_parts:
  "length A = a \<Longrightarrow> length B = b \<Longrightarrow>
   take a (A @ B @ C) = A \<and> take b (drop a (A @ B @ C)) = B \<and> drop (a + b) (A @ B @ C) = C"
  by auto

text \<open>What one step of a loop establishes and the later steps keep.\<close>

lemma fold_preserve:
  "(\<And>t s. t \<in> set ts \<Longrightarrow> P s \<Longrightarrow> P (f t s)) \<Longrightarrow> P s \<Longrightarrow> P (fold f ts s)"
  by (induction ts arbitrary: s) auto

lemma fold_establish:
  assumes "t \<in> set ts" "\<And>s. I s \<Longrightarrow> P (f t s)"
    and "\<And>t' s. t' \<in> set ts \<Longrightarrow> I s \<Longrightarrow> P s \<Longrightarrow> P (f t' s)"
    and "\<And>t' s. t' \<in> set ts \<Longrightarrow> I s \<Longrightarrow> I (f t' s)" and "I s"
  shows "P (fold f ts s)"
proof -
  obtain as bs where ts: "ts = as @ t # bs" using assms(1) by (meson split_list)
  have "I (fold f as s)" using assms(4,5) ts by (intro fold_preserve [of _ I]) auto
  then have "P (f t (fold f as s)) \<and> I (f t (fold f as s))" using assms(1,2,4) by blast
  then have "P (fold f bs (f t (fold f as s))) \<and> I (fold f bs (f t (fold f as s)))"
    using assms(3,4) ts by (intro fold_preserve [of _ "\<lambda>s. P s \<and> I s"]) auto
  then show ?thesis by (simp add: ts)
qed

text \<open>
  A store into an array checked against its length, and a loop whose body may fail.
\<close>

definition store_at :: "nat \<Rightarrow> 'a \<Rightarrow> 'a list \<Rightarrow> 'a list option" where
  "store_at i x xs = (if i < length xs then Some (xs[i := x]) else None)"

primrec fold_opt :: "('a \<Rightarrow> 's \<Rightarrow> 's option) \<Rightarrow> 'a list \<Rightarrow> 's \<Rightarrow> 's option" where
  "fold_opt f [] s = Some s"
| "fold_opt f (t # ts) s = (case f t s of None \<Rightarrow> None | Some s' \<Rightarrow> fold_opt f ts s')"

text \<open>Where no step fails, it is the plain loop; where it ends, no step has failed.\<close>

lemma fold_opt_total:
  "(\<And>t s. t \<in> set ts \<Longrightarrow> I s \<Longrightarrow> f t s = Some (g t s) \<and> I (g t s)) \<Longrightarrow> I s \<Longrightarrow>
     fold_opt f ts s = Some (fold g ts s) \<and> I (fold g ts s)"
  by (induction ts arbitrary: s) auto

lemma fold_opt_steps:
  assumes "fold_opt f ts s = Some s'" "I s" "\<And>t u u'. t \<in> set ts \<Longrightarrow> I u \<Longrightarrow> f t u = Some u' \<Longrightarrow> I u'"
  shows "I s' \<and> (\<forall>t \<in> set ts. \<exists>u u'. I u \<and> f t u = Some u')"
  using assms
proof (induction ts arbitrary: s)
  case Nil
  then show ?case by simp
next
  case (Cons t ts)
  then obtain u where u: "f t s = Some u" "fold_opt f ts u = Some s'" by (auto split: option.splits)
  have "I u" by (rule Cons.prems(3) [OF _ Cons.prems(2) u(1)]) simp
  have "I s' \<and> (\<forall>t \<in> set ts. \<exists>u u'. I u \<and> f t u = Some u')"
    by (rule Cons.IH [OF u(2) \<open>I u\<close>]) (rule Cons.prems(3); simp)
  moreover have "\<exists>u u'. I u \<and> f t u = Some u'" using Cons.prems(2) u(1) by blast
  ultimately show ?case by simp
qed

text \<open>Lists of blocks of one length.\<close>

lemma length_concat_uniform: "(\<And>x. x \<in> set xs \<Longrightarrow> length x = n) \<Longrightarrow> length (concat xs) = n * length xs"
  by (induction xs) auto

lemma length_concat_le: "(\<And>x. x \<in> set xs \<Longrightarrow> length x \<le> n) \<Longrightarrow> length (concat xs) \<le> n * length xs"
  by (induction xs) (auto intro!: add_mono)

lemma concat_nth_uniform:
  "(\<And>x. x \<in> set xs \<Longrightarrow> length x = n) \<Longrightarrow> i < length xs \<Longrightarrow> r < n \<Longrightarrow> concat xs ! (n * i + r) = xs ! i ! r"
proof (induction xs arbitrary: i)
  case Nil
  then show ?case by simp
next
  case (Cons x xs)
  have x: "length x = n" using Cons.prems(1) by simp
  show ?case
  proof (cases i)
    case 0
    then show ?thesis using x Cons.prems by (simp add: nth_append)
  next
    case (Suc k)
    have "concat xs ! (n * k + r) = xs ! k ! r" using Suc Cons.prems by (intro Cons.IH) auto
    then show ?thesis using x Suc by (simp add: nth_append add.assoc)
  qed
qed

lemma mixed_radix:
  fixes a b :: nat
  assumes "a < n" "b < n" "n * x + a = n * y + b"
  shows "x = y \<and> a = b"
proof -
  have "(n * x + a) div n = (n * y + b) div n" "(n * x + a) mod n = (n * y + b) mod n"
    using assms(3) by simp_all
  then show ?thesis using assms(1,2) by simp
qed

end
