(* ===== verification/Nnie_TopN.thy ===== *)
theory Nnie_TopN
  imports AIPC_Prelude
begin

text \<open>
  The best classes of a classification network: \<open>SVP_NNIE_Cnn_GetTopN\<close>
  (sample_svp_nnie_software.c), a selection sort that is stopped after \<open>u32TopN\<close> rounds. The
  assist buffer is the list of its units; a read or write beyond it makes the result \<open>None\<close>.
\<close>

section \<open>The code\<close>

record topn_unit =
  u_class :: int
  u_conf :: int

text \<open>The inner loop, with \<open>k\<close> units to go, at unit \<open>j\<close>; \<open>best\<close> is the best so far.\<close>

fun best_from :: "topn_unit list \<Rightarrow> nat \<Rightarrow> nat \<Rightarrow> nat \<Rightarrow> nat" where
  "best_from tmp 0 j best = best"
| "best_from tmp (Suc k) j best =
     best_from tmp k (Suc j) (if u_conf (tmp ! best) < u_conf (tmp ! j) then j else best)"

text \<open>One round: the assist buffer afterwards and the unit written to the result.\<close>

definition topn_round :: "nat \<Rightarrow> nat \<Rightarrow> topn_unit list \<Rightarrow> topn_unit list \<times> topn_unit" where
  "topn_round classnum i tmp =
     (let best = best_from tmp (classnum - (i + 1)) (i + 1) i
      in if i \<noteq> best then (tmp[best := tmp ! i, i := tmp ! best], tmp ! best) else (tmp, tmp ! i))"

fun topn_rounds :: "nat \<Rightarrow> nat \<Rightarrow> nat \<Rightarrow> topn_unit list \<Rightarrow> (topn_unit list \<times> topn_unit list) option" where
  "topn_rounds classnum 0 i tmp = Some (tmp, [])"
| "topn_rounds classnum (Suc k) i tmp =
     (if i < length tmp then
        (let (tmp', u) = topn_round classnum i tmp
         in map_option (\<lambda>(t, us). (t, u # us)) (topn_rounds classnum k (Suc i) tmp'))
      else None)"

text \<open>One row of scores: they are copied to the assist buffer, as unsigned numbers.\<close>

definition topn_fill :: "(nat \<Rightarrow> int) \<Rightarrow> nat \<Rightarrow> topn_unit list \<Rightarrow> topn_unit list" where
  "topn_fill score classnum tmp =
     map (\<lambda>i. \<lparr>u_class = int i, u_conf = u32 (score i)\<rparr>) [0..<classnum] @ drop classnum tmp"

definition topn_row :: "(nat \<Rightarrow> int) \<Rightarrow> nat \<Rightarrow> nat \<Rightarrow> topn_unit list \<Rightarrow> (topn_unit list \<times> topn_unit list) option" where
  "topn_row score classnum topn tmp =
     (if classnum \<le> length tmp then topn_rounds classnum topn 0 (topn_fill score classnum tmp) else None)"

text \<open>
  The loop over the batch: \<open>fc\<close> gives the words of the score blob, a row starts every \<open>stride\<close>
  bytes. The result has one list per row of the batch; the code writes list \<open>n\<close> at
  \<open>n * u32TopNStride\<close>.
\<close>

fun topn_batch :: "(nat \<Rightarrow> int) \<Rightarrow> nat \<Rightarrow> nat \<Rightarrow> nat \<Rightarrow> nat \<Rightarrow> nat \<Rightarrow> topn_unit list \<Rightarrow> topn_unit list list option" where
  "topn_batch fc stride classnum topn 0 n tmp = Some []"
| "topn_batch fc stride classnum topn (Suc k) n tmp =
     (case topn_row (\<lambda>i. fc (n * stride div 4 + i)) classnum topn tmp of
        None \<Rightarrow> None
      | Some (tmp', us) \<Rightarrow> map_option ((#) us) (topn_batch fc stride classnum topn k (Suc n) tmp'))"

definition Cnn_GetTopN :: "(nat \<Rightarrow> int) \<Rightarrow> nat \<Rightarrow> nat \<Rightarrow> nat \<Rightarrow> nat \<Rightarrow> topn_unit list \<Rightarrow> topn_unit list list option" where
  "Cnn_GetTopN fc stride classnum batch topn tmp = topn_batch fc stride classnum topn batch 0 tmp"

section \<open>Selection\<close>

lemma best_from_spec:
  "best < j \<Longrightarrow> j + k \<le> length tmp \<Longrightarrow>
     best_from tmp k j best < j + k \<and> (best_from tmp k j best = best \<or> j \<le> best_from tmp k j best) \<and>
     u_conf (tmp ! best) \<le> u_conf (tmp ! best_from tmp k j best) \<and>
     (\<forall>q. j \<le> q \<and> q < j + k \<longrightarrow> u_conf (tmp ! q) \<le> u_conf (tmp ! best_from tmp k j best))"
proof (induction k arbitrary: j best)
  case 0
  then show ?case by simp
next
  case (Suc k)
  define b where "b = (if u_conf (tmp ! best) < u_conf (tmp ! j) then j else best)"
  have b: "b < Suc j" "b = best \<or> b = j" "u_conf (tmp ! best) \<le> u_conf (tmp ! b)" "u_conf (tmp ! j) \<le> u_conf (tmp ! b)"
    using Suc.prems by (auto simp: b_def)
  have r: "best_from tmp (Suc k) j best = best_from tmp k (Suc j) b" by (simp add: b_def)
  have "Suc j + k \<le> length tmp" using Suc.prems by simp
  note IH = Suc.IH [OF b(1) this]
  have "u_conf (tmp ! q) \<le> u_conf (tmp ! best_from tmp k (Suc j) b)" if "j \<le> q" "q < j + Suc k" for q
    using IH b(4) that by (cases "q = j") (auto intro: order_trans)
  then show ?case unfolding r using IH b by (auto intro: order_trans)
qed

text \<open>One round moves a best unit of the rest to position \<open>i\<close>.\<close>

lemma topn_round_spec:
  assumes "i < classnum" "classnum \<le> length tmp" "topn_round classnum i tmp = (tmp', u)"
  shows "\<exists>b. i \<le> b \<and> b < classnum \<and> tmp' = swap_at tmp i b \<and> u = tmp ! b \<and>
     (\<forall>q. i \<le> q \<and> q < classnum \<longrightarrow> u_conf (tmp ! q) \<le> u_conf u)"
proof -
  define b where "b = best_from tmp (classnum - (i + 1)) (i + 1) i"
  note B = best_from_spec [of i "i + 1" "classnum - (i + 1)" tmp, folded b_def]
  have "i + 1 + (classnum - (i + 1)) = classnum" using assms(1) by simp
  then have b: "b < classnum" "i \<le> b" "u_conf (tmp ! i) \<le> u_conf (tmp ! b)"
    "\<forall>q. i + 1 \<le> q \<and> q < classnum \<longrightarrow> u_conf (tmp ! q) \<le> u_conf (tmp ! b)"
    using B assms by auto
  have "u_conf (tmp ! q) \<le> u_conf (tmp ! b)" if "i \<le> q" "q < classnum" for q
    using b(3,4) that by (cases "q = i") auto
  moreover have "tmp' = swap_at tmp i b \<and> u = tmp ! b"
    using assms(3) unfolding topn_round_def Let_def b_def [symmetric]
    by (cases "i = b") (auto simp: swap_at_def list_update_swap)
  ultimately show ?thesis using b by blast
qed

text \<open>After \<open>k\<close> rounds from position \<open>i\<close>: the rest of the buffer is permuted, the chosen units lead it, best first.\<close>

lemma topn_rounds_spec:
  "i + k \<le> classnum \<Longrightarrow> classnum \<le> length tmp \<Longrightarrow>
   \<exists>tmp' us. topn_rounds classnum k i tmp = Some (tmp', us) \<and> length tmp' = length tmp \<and> length us = k \<and>
     take i tmp' = take i tmp \<and> mset (take classnum tmp') = mset (take classnum tmp) \<and>
     us = take k (drop i tmp') \<and>
     sorted_wrt (\<lambda>a b. u_conf b \<le> u_conf a) us \<and>
     (\<forall>u \<in> set us. \<forall>q. i + k \<le> q \<and> q < classnum \<longrightarrow> u_conf (tmp' ! q) \<le> u_conf u)"
proof (induction k arbitrary: i tmp)
  case 0
  then show ?case by auto
next
  case (Suc k)
  obtain tmp1 u where s: "topn_round classnum i tmp = (tmp1, u)" by fastforce
  have i: "i < classnum" "i < length tmp" using Suc.prems by simp_all
  obtain b where b: "i \<le> b" "b < classnum" "tmp1 = swap_at tmp i b" "u = tmp ! b"
    "\<forall>q. i \<le> q \<and> q < classnum \<longrightarrow> u_conf (tmp ! q) \<le> u_conf u"
    using topn_round_spec [OF i(1) Suc.prems(2) s] by blast
  have bl: "b < length tmp" using b(2) Suc.prems by simp
  have len: "length tmp1 = length tmp" by (simp add: b(3))
  have at: "tmp1 ! i = u" using i(2) bl by (simp add: b(3,4) nth_swap_at)
  have le: "u_conf (tmp1 ! q) \<le> u_conf u" if "i \<le> q" "q < classnum" for q
    using b(1,2,5) i bl that Suc.prems(2) by (simp add: b(3) nth_swap_at)
  have t1: "take i tmp1 = take i tmp" using b(1) by (simp add: b(3) swap_at_def)
  have "take classnum tmp1 = swap_at (take classnum tmp) i b"
    using i(1) b(2) by (simp add: b(3) swap_at_def take_update_swap)
  then have m1: "mset (take classnum tmp1) = mset (take classnum tmp)"
    using i(1) b(2) Suc.prems(2) by simp
  have "Suc i + k \<le> classnum" "classnum \<le> length tmp1" using Suc.prems len by simp_all
  from Suc.IH [OF this] obtain tmp' us where r: "topn_rounds classnum k (Suc i) tmp1 = Some (tmp', us)"
    "length tmp' = length tmp1" "length us = k" "take (Suc i) tmp' = take (Suc i) tmp1"
    "mset (take classnum tmp') = mset (take classnum tmp1)" "us = take k (drop (Suc i) tmp')"
    "sorted_wrt (\<lambda>a b. u_conf b \<le> u_conf a) us"
    "\<forall>u \<in> set us. \<forall>q. Suc i + k \<le> q \<and> q < classnum \<longrightarrow> u_conf (tmp' ! q) \<le> u_conf u" by blast
  have ti: "take i tmp' = take i tmp" using arg_cong [OF r(4), of "take i"] t1 by (simp add: min_def)
  have ui: "tmp' ! i = u" using arg_cong [OF r(4), of "\<lambda>xs. xs ! i"] at by simp
  have "mset (drop i (take classnum tmp')) = mset (drop i (take classnum tmp1))"
  proof -
    have "take classnum ys = take i ys @ drop i (take classnum ys)" for ys :: "topn_unit list"
      using i(1) by (metis append_take_drop_id min.absorb1 less_imp_le take_take)
    then have "mset (take i tmp') + mset (drop i (take classnum tmp')) =
        mset (take i tmp1) + mset (drop i (take classnum tmp1))"
      using r(5) by (metis mset_append)
    then show ?thesis using ti t1 by simp
  qed
  then have "set (drop i (take classnum tmp')) = set (drop i (take classnum tmp1))" by (metis set_mset_mset)
  moreover have "x \<in> set (drop i (take classnum tmp1)) \<Longrightarrow> u_conf x \<le> u_conf u" for x
    using le Suc.prems(2) len by (auto simp: in_set_conv_nth)
  ultimately have top: "x \<in> set (drop i (take classnum tmp')) \<Longrightarrow> u_conf x \<le> u_conf u" for x by simp
  have d: "take (Suc k) (drop i tmp') = u # us"
    using ui r(2,6) len i(2) by (simp add: Cons_nth_drop_Suc [symmetric])
  have q: "u_conf (tmp' ! q) \<le> u_conf u" if "i \<le> q" "q < classnum" for q
  proof -
    have "drop i (take classnum tmp') ! (q - i) = tmp' ! q" "q - i < length (drop i (take classnum tmp'))"
      using that Suc.prems(2) r(2) len by simp_all
    then show ?thesis using top by (metis nth_mem)
  qed
  have "set us \<subseteq> (\<lambda>q. tmp' ! q) ` {i..<classnum}"
  proof
    fix x assume "x \<in> set us"
    then obtain p where "p < k" "x = tmp' ! (Suc i + p)"
      using r(2,3,6) len Suc.prems by (auto simp: in_set_conv_nth)
    then show "x \<in> (\<lambda>q. tmp' ! q) ` {i..<classnum}" using Suc.prems(1) by (intro image_eqI) auto
  qed
  then have "\<forall>x \<in> set us. u_conf x \<le> u_conf u" using q by auto
  then have "sorted_wrt (\<lambda>a b. u_conf b \<le> u_conf a) (u # us)" using r(7) by simp
  moreover have "\<forall>x \<in> set (u # us). \<forall>q. i + Suc k \<le> q \<and> q < classnum \<longrightarrow> u_conf (tmp' ! q) \<le> u_conf x"
    using r(8) q by auto
  ultimately show ?case
    using r ti m1 d len s i(2) by (intro exI [of _ tmp'] exI [of _ "u # us"]) simp
qed

definition topn_units :: "(nat \<Rightarrow> int) \<Rightarrow> nat \<Rightarrow> topn_unit list" where
  "topn_units score classnum = map (\<lambda>i. \<lparr>u_class = int i, u_conf = u32 (score i)\<rparr>) [0..<classnum]"

text \<open>What one row of the result is: \<open>topn\<close> different classes, best first, and nothing better is left out.\<close>

definition topn_ok :: "(nat \<Rightarrow> int) \<Rightarrow> nat \<Rightarrow> nat \<Rightarrow> topn_unit list \<Rightarrow> bool" where
  "topn_ok score classnum topn us \<longleftrightarrow>
     length us = topn \<and> sorted_wrt (\<lambda>a b. u_conf b \<le> u_conf a) us \<and>
     (\<exists>rest. mset us + mset rest = mset (topn_units score classnum) \<and>
        (\<forall>u \<in> set us. \<forall>r \<in> set rest. u_conf r \<le> u_conf u))"

lemma topn_row_ok:
  assumes "topn \<le> classnum" "classnum \<le> length tmp"
  shows "\<exists>tmp' us. topn_row score classnum topn tmp = Some (tmp', us) \<and> length tmp' = length tmp \<and>
     topn_ok score classnum topn us"
proof -
  let ?t = "topn_fill score classnum tmp"
  have t: "length ?t = length tmp" "take classnum ?t = topn_units score classnum"
    using assms(2) by (simp_all add: topn_fill_def topn_units_def)
  have "0 + topn \<le> classnum" "classnum \<le> length ?t" using assms t(1) by simp_all
  from topn_rounds_spec [OF this] obtain tmp' us where r: "topn_rounds classnum topn 0 ?t = Some (tmp', us)"
    "length tmp' = length ?t" "length us = topn" "mset (take classnum tmp') = mset (topn_units score classnum)"
    "us = take topn tmp'" "sorted_wrt (\<lambda>a b. u_conf b \<le> u_conf a) us"
    "\<forall>u \<in> set us. \<forall>q. topn \<le> q \<and> q < classnum \<longrightarrow> u_conf (tmp' ! q) \<le> u_conf u"
    using t(2) by auto
  define rest where "rest = drop topn (take classnum tmp')"
  have "take classnum tmp' = us @ rest"
    using assms(1) unfolding r(5) rest_def by (metis append_take_drop_id min.absorb1 take_take)
  then have "mset us + mset rest = mset (topn_units score classnum)" using r(4) by simp
  moreover have "\<forall>u \<in> set us. \<forall>x \<in> set rest. u_conf x \<le> u_conf u"
  proof (intro ballI)
    fix u x assume u: "u \<in> set us" and "x \<in> set rest"
    then obtain p where p: "p < length rest" "x = rest ! p" by (auto simp: in_set_conv_nth)
    then have "x = tmp' ! (topn + p)" "topn + p < classnum"
      using assms r(2) t(1) by (simp_all add: rest_def)
    then show "u_conf x \<le> u_conf u" using r(7) u by simp
  qed
  ultimately have "topn_ok score classnum topn us" using r(3,6) unfolding topn_ok_def by blast
  then show ?thesis using assms(2) r(1,2) t(1) by (simp add: topn_row_def)
qed

lemma topn_batch_ok:
  assumes "topn \<le> classnum"
  shows "classnum \<le> length tmp \<Longrightarrow>
    \<exists>rows. topn_batch fc stride classnum topn k n tmp = Some rows \<and> length rows = k \<and>
      (\<forall>i < k. topn_ok (\<lambda>c. fc ((n + i) * stride div 4 + c)) classnum topn (rows ! i))"
proof (induction k arbitrary: n tmp)
  case 0
  then show ?case by simp
next
  case (Suc k)
  let ?score = "\<lambda>c. fc (n * stride div 4 + c)"
  obtain tmp' us where r: "topn_row ?score classnum topn tmp = Some (tmp', us)" "length tmp' = length tmp"
    "topn_ok ?score classnum topn us" using topn_row_ok [OF assms Suc.prems, of ?score] by blast
  have "classnum \<le> length tmp'" using r(2) Suc.prems by simp
  from Suc.IH [OF this, of "Suc n"] obtain rows where
    rows: "topn_batch fc stride classnum topn k (Suc n) tmp' = Some rows" "length rows = k"
      "\<forall>i < k. topn_ok (\<lambda>c. fc ((Suc n + i) * stride div 4 + c)) classnum topn (rows ! i)" by blast
  have "topn_ok (\<lambda>c. fc ((n + i) * stride div 4 + c)) classnum topn ((us # rows) ! i)" if "i < Suc k" for i
    using rows(3) r(3) that by (cases i) simp_all
  then show ?case using r(1) rows(1,2) by (intro exI [of _ "us # rows"]) simp
qed

text \<open>
  C8. \<open>SVP_NNIE_Cnn_GetTopN\<close>, when not more classes are asked for than there are and the assist
  buffer has a unit for each: for every row of the batch it returns \<open>u32TopN\<close> different classes
  with their scores, best first, and no class left out has a better one (scores compared as
  unsigned numbers).
\<close>

theorem Cnn_GetTopN_correct:
  assumes "topn \<le> classnum" "classnum \<le> length tmp"
  shows "\<exists>rows. Cnn_GetTopN fc stride classnum batch topn tmp = Some rows \<and> length rows = batch \<and>
    (\<forall>n < batch. topn_ok (\<lambda>c. fc (n * stride div 4 + c)) classnum topn (rows ! n))"
  using topn_batch_ok [OF assms, of fc stride batch 0] by (simp add: Cnn_GetTopN_def)

lemma Cnn_GetTopN_correct_witness:
  "\<exists>rows. Cnn_GetTopN (\<lambda>i. int (i * i) mod 7) 32 5 2 3 (replicate 6 \<lparr>u_class = 0, u_conf = 0\<rparr>) = Some rows \<and> length rows = 2"
  using Cnn_GetTopN_correct [of 3 5 "replicate 6 \<lparr>u_class = 0, u_conf = 0\<rparr>" "\<lambda>i. int (i * i) mod 7" 32 2] by auto

text \<open>
  A negative score is compared as an unsigned number and ranks first: with the scores 4096
  and -1, class 1 is reported as the best one.
\<close>

lemma Cnn_GetTopN_negative_first:
  "Cnn_GetTopN (\<lambda>i. if i = 0 then 4096 else - 1) 8 2 1 1 [\<lparr>u_class = 0, u_conf = 0\<rparr>, \<lparr>u_class = 0, u_conf = 0\<rparr>]
     = Some [[\<lparr>u_class = 1, u_conf = 4294967295\<rparr>]]"
  by (simp add: Cnn_GetTopN_def topn_row_def topn_fill_def topn_round_def u32_def numeral_2_eq_2 Let_def)

end
