(* ===== verification/Watchdog.thy ===== *)
theory Watchdog
  imports AIPC_Prelude "HOL-Library.Word"
begin

text \<open>
  The watchdog driver (src/wdt/hi_wdt.c, Linux branches). The static variables of the file are
  a record; what the driver does to the device is the list \<open>w_io\<close> of its accesses, oldest
  first: taking and releasing the spin lock, register reads and register writes. The device
  answers a read as a function \<open>hw\<close> of all accesses made so far, a parameter of every
  operation that reads. What the kernel services called by \<open>watchdog_init\<close> return is the
  record \<open>wdt_env\<close>.

  \<open>unsigned long\<close> has 32 bits on this target, so \<open>~0x0UL / rate\<close> is 1431.
\<close>

unbundle bit_operations_syntax

section \<open>State and device accesses\<close>

datatype wdt_event = Spin_lock | Spin_unlock | Rd int | Wr int int

record wdt =
  default_margin :: int
  cur_margin :: int
  hidog_state :: int
  options :: int
  driver_open :: int
  nodeamon :: bool
  task_hidog_deamon :: bool
  w_mapped :: bool
  w_atomic :: bool
  w_spin :: bool
  w_dev :: bool
  w_registered :: bool
  w_io :: "wdt_event list"

definition HIWDT_LOAD :: int where "HIWDT_LOAD = 0x000"
definition HIWDT_VALUE :: int where "HIWDT_VALUE = 0x004"
definition HIWDT_CTRL :: int where "HIWDT_CTRL = 0x008"
definition HIWDT_INTCLR :: int where "HIWDT_INTCLR = 0x00C"
definition HIWDT_RIS :: int where "HIWDT_RIS = 0x010"
definition HIWDT_LOCK :: int where "HIWDT_LOCK = 0xC00"
definition HIWDT_UNLOCK_VAL :: int where "HIWDT_UNLOCK_VAL = 0x1ACCE551"

definition HIDOG_TIMER_MARGIN :: int where "HIDOG_TIMER_MARGIN = 60"
definition HIDOG_EXIT :: int where "HIDOG_EXIT = 0"
definition HIDOG_SELFCLR :: int where "HIDOG_SELFCLR = 1"
definition HIDOG_EXTCLR :: int where "HIDOG_EXTCLR = 2"
definition WDIOS_DISABLECARD :: int where "WDIOS_DISABLECARD = 1"
definition WDIOS_ENABLECARD :: int where "WDIOS_ENABLECARD = 2"
definition WDIOS_UNKNOWN :: int where "WDIOS_UNKNOWN = -1"

definition rate :: int where "rate = 3 * (1000 * 1000)"

definition max_cnt :: int where "max_cnt = 4294967295 div rate"

lemmas wdt_regs [c_defs] = HIWDT_LOAD_def HIWDT_VALUE_def HIWDT_CTRL_def HIWDT_INTCLR_def
  HIWDT_RIS_def HIWDT_LOCK_def HIWDT_UNLOCK_VAL_def

lemmas wdt_consts [c_defs] = HIDOG_TIMER_MARGIN_def HIDOG_EXIT_def HIDOG_SELFCLR_def
  HIDOG_EXTCLR_def WDIOS_DISABLECARD_def WDIOS_ENABLECARD_def WDIOS_UNKNOWN_def rate_def

lemma max_cnt [c_defs]: "max_cnt = 1431"
  by (simp add: max_cnt_def rate_def)

definition emit :: "wdt_event list \<Rightarrow> wdt \<Rightarrow> wdt" where
  "emit evs s = s\<lparr>w_io := w_io s @ evs\<rparr>"

section \<open>The operations\<close>

definition hidog_set_timeout :: "int \<Rightarrow> wdt \<Rightarrow> wdt" where
  "hidog_set_timeout nr s =
     (let cnt = (if nr = 0 \<or> max_cnt < nr then 4294967295 else u32 (nr * rate))
      in emit [Spin_lock, Wr HIWDT_LOCK HIWDT_UNLOCK_VAL, Wr HIWDT_LOAD cnt, Wr HIWDT_VALUE cnt,
               Wr HIWDT_LOCK 0, Spin_unlock] s)"

definition hidog_feed :: "(wdt_event list \<Rightarrow> int) \<Rightarrow> wdt \<Rightarrow> wdt" where
  "hidog_feed hw s =
     (let s1 = emit [Rd HIWDT_RIS] s
      in if hw (w_io s1) AND 1 = 0 then s1
         else emit [Spin_lock, Wr HIWDT_LOCK HIWDT_UNLOCK_VAL, Wr HIWDT_INTCLR 0, Wr HIWDT_LOCK 0,
                    Spin_unlock] s1)"

text \<open>The comparison \<open>t > cnt\<close> is unsigned, so a negative \<open>t\<close> is out of range.\<close>

definition hidog_set_heartbeat :: "(wdt_event list \<Rightarrow> int) \<Rightarrow> int \<Rightarrow> wdt \<Rightarrow> int \<times> wdt" where
  "hidog_set_heartbeat hw t s =
     (let (t', ret) = (if t = 0 then (cur_margin s, 1)
                       else if max_cnt < u32 t then (max_cnt, -1)
                       else (t, 0));
          s1 = s\<lparr>cur_margin := t'\<rparr>;
          s2 = hidog_set_timeout (u32 t') s1
      in (ret, hidog_feed hw s2))"

definition hidog_keepalive :: "(wdt_event list \<Rightarrow> int) \<Rightarrow> wdt \<Rightarrow> int \<times> wdt" where
  "hidog_keepalive hw s = (0, hidog_feed hw s)"

definition hidog_start :: "wdt \<Rightarrow> wdt" where
  "hidog_start s =
     (emit [Spin_lock, Wr HIWDT_LOCK HIWDT_UNLOCK_VAL, Wr HIWDT_CTRL 0, Wr HIWDT_INTCLR 0,
            Wr HIWDT_CTRL 3, Wr HIWDT_LOCK 0, Spin_unlock] s)\<lparr>options := WDIOS_ENABLECARD\<rparr>"

definition hidog_stop :: "wdt \<Rightarrow> wdt" where
  "hidog_stop s =
     (let s1 = emit [Spin_lock, Wr HIWDT_LOCK HIWDT_UNLOCK_VAL, Wr HIWDT_CTRL 0, Wr HIWDT_INTCLR 0,
                     Wr HIWDT_LOCK 0, Spin_unlock] s
      in (hidog_set_timeout 0 s1)\<lparr>options := WDIOS_DISABLECARD\<rparr>)"

definition hidog_open :: "(wdt_event list \<Rightarrow> int) \<Rightarrow> wdt \<Rightarrow> int \<times> wdt" where
  "hidog_open hw s =
     (let s1 = s\<lparr>driver_open := driver_open s - 1\<rparr>
      in if driver_open s1 \<noteq> 0 then (-1, s1\<lparr>driver_open := driver_open s1 + 1\<rparr>)
         else (0, snd (hidog_keepalive hw (s1\<lparr>hidog_state := HIDOG_EXTCLR\<rparr>))))"

definition hidog_release :: "(wdt_event list \<Rightarrow> int) \<Rightarrow> wdt \<Rightarrow> int \<times> wdt" where
  "hidog_release hw s =
     (let s1 = s\<lparr>driver_open := driver_open s + 1\<rparr>
      in if driver_open s1 \<noteq> 1 then (0, s1\<lparr>driver_open := driver_open s1 - 1\<rparr>)
         else (0, snd (hidog_set_heartbeat hw (cur_margin s1) (s1\<lparr>hidog_state := HIDOG_SELFCLR\<rparr>))))"

text \<open>The requests of \<open>hidog_ioctl\<close>; those that read the user's word carry it.\<close>

datatype wdt_cmd =
    WDIOC_GETSUPPORT | WDIOC_GETSTATUS | WDIOC_GETBOOTSTATUS | WDIOC_KEEPALIVE
  | WDIOC_SETTIMEOUT int | WDIOC_GETTIMEOUT | WDIOC_SETOPTIONS int | WDIOC_other int

text \<open>What the request writes back through the user's pointer.\<close>

datatype wdt_out = No_out | Out_ident | Out_int int

definition hidog_ioctl ::
    "(wdt_event list \<Rightarrow> int) \<Rightarrow> wdt_cmd \<Rightarrow> wdt \<Rightarrow> int \<times> wdt_out \<times> wdt" where
  "hidog_ioctl hw cmd s =
     (case cmd of
        WDIOC_GETSUPPORT \<Rightarrow> (0, Out_ident, s)
      | WDIOC_GETSTATUS \<Rightarrow> (0, Out_int (options s), s)
      | WDIOC_GETBOOTSTATUS \<Rightarrow> (0, Out_int (options s), s)
      | WDIOC_KEEPALIVE \<Rightarrow> (0, No_out, snd (hidog_keepalive hw s))
      | WDIOC_SETTIMEOUT new_margin \<Rightarrow>
          (let (ret, s1) = hidog_set_heartbeat hw new_margin s
           in if ret \<noteq> 0 then (-1, No_out, s1) else (0, No_out, snd (hidog_keepalive hw s1)))
      | WDIOC_GETTIMEOUT \<Rightarrow> (0, Out_int (cur_margin s), s)
      | WDIOC_SETOPTIONS new_options \<Rightarrow>
          (if new_options AND WDIOS_ENABLECARD \<noteq> 0 then
             (0, No_out, snd (hidog_set_heartbeat hw (cur_margin s) (hidog_start s)))
           else if new_options AND WDIOS_DISABLECARD \<noteq> 0 then (0, No_out, hidog_stop s)
           else (- WDIOS_UNKNOWN, No_out, s))
      | WDIOC_other _ \<Rightarrow> (-1, No_out, s))"

text \<open>
  One turn of the loop of \<open>hidog_deamon\<close>, and how long it then sleeps (in milliseconds).
  The loop ends when a turn starts in the state \<open>HIDOG_EXIT\<close>.
\<close>

definition hidog_deamon_turn :: "(wdt_event list \<Rightarrow> int) \<Rightarrow> wdt \<Rightarrow> wdt" where
  "hidog_deamon_turn hw s =
     (if hidog_state s = HIDOG_SELFCLR \<and> options s AND WDIOS_ENABLECARD \<noteq> 0 then hidog_feed hw s
      else s)"

definition hidog_deamon_sleep :: "wdt \<Rightarrow> int" where
  "hidog_deamon_sleep s = s32 (c_div (s32 (default_margin s * 1000)) 2 + 10)"

section \<open>Start and stop of the module\<close>

text \<open>What the services called during initialisation return.\<close>

record wdt_env =
  e_atomic_ret :: int
  e_spin_ret :: int
  e_ioremap_ok :: bool
  e_createdev_ok :: bool
  e_register_ret :: int
  e_kthread_ok :: bool

definition hidog_init :: "wdt_env \<Rightarrow> wdt \<Rightarrow> int \<times> wdt" where
  "hidog_init e s =
     (let s1 = (hidog_start s)\<lparr>hidog_state := HIDOG_SELFCLR\<rparr>
      in if \<not> nodeamon s1 then
           (if e_kthread_ok e then (0, s1\<lparr>task_hidog_deamon := True\<rparr>) else (-1, s1))
         else (0, s1))"

text \<open>The labels \<open>watchdog_init_err0\<close> .. \<open>watchdog_init_err6\<close>, each falling into the next lower.\<close>

definition watchdog_init_err0 :: "wdt \<Rightarrow> int \<times> wdt" where
  "watchdog_init_err0 s = (-1, s\<lparr>w_atomic := False\<rparr>)"

definition watchdog_init_err1 :: "wdt \<Rightarrow> int \<times> wdt" where
  "watchdog_init_err1 s = watchdog_init_err0 (s\<lparr>w_spin := False\<rparr>)"

definition watchdog_init_err5 :: "wdt \<Rightarrow> int \<times> wdt" where
  "watchdog_init_err5 s = watchdog_init_err1 (s\<lparr>w_dev := False\<rparr>)"

definition watchdog_init_err6 :: "wdt \<Rightarrow> int \<times> wdt" where
  "watchdog_init_err6 s = watchdog_init_err5 (s\<lparr>w_registered := False\<rparr>)"

definition init_margin :: "(wdt_event list \<Rightarrow> int) \<Rightarrow> wdt \<Rightarrow> wdt" where
  "init_margin hw s =
     (let s1 = s\<lparr>cur_margin := default_margin s\<rparr>;
          (ret, s2) = hidog_set_heartbeat hw (default_margin s1) s1
      in if ret \<noteq> 0
         then snd (hidog_set_heartbeat hw HIDOG_TIMER_MARGIN (s2\<lparr>default_margin := HIDOG_TIMER_MARGIN\<rparr>))
         else s2)"

definition watchdog_init :: "(wdt_event list \<Rightarrow> int) \<Rightarrow> wdt_env \<Rightarrow> wdt \<Rightarrow> int \<times> wdt" where
  "watchdog_init hw e s =
     (if e_atomic_ret e \<noteq> 0 then (-1, s)
      else let s1 = s\<lparr>w_atomic := True, driver_open := 1\<rparr>
      in if e_spin_ret e \<noteq> 0 then watchdog_init_err0 s1
      else let s2 = s1\<lparr>w_spin := True\<rparr>
      in if \<not> w_mapped s2 \<and> \<not> e_ioremap_ok e then watchdog_init_err1 s2
      else let s3 = init_margin hw (s2\<lparr>w_mapped := True\<rparr>)
      in if \<not> e_createdev_ok e then watchdog_init_err1 s3
      else let s4 = s3\<lparr>w_dev := True\<rparr>
      in if e_register_ret e \<noteq> 0 then watchdog_init_err5 s4
      else let (ret, s5) = hidog_init e (s4\<lparr>w_registered := True\<rparr>)
      in if ret \<noteq> 0 then watchdog_init_err6 s5 else (0, s5))"

definition hidog_exit :: "wdt \<Rightarrow> wdt" where
  "hidog_exit s =
     (let s1 = (hidog_stop (hidog_set_timeout 0 s))\<lparr>hidog_state := HIDOG_EXIT\<rparr>
      in s1\<lparr>task_hidog_deamon := False\<rparr>)"

definition watchdog_exit :: "wdt \<Rightarrow> wdt" where
  "watchdog_exit s =
     (hidog_exit s)\<lparr>w_registered := False, w_dev := False, w_spin := False, w_atomic := False\<rparr>"

text \<open>The variables as the module is loaded, with the module parameters it is given.\<close>

definition wdt_loaded :: "int \<Rightarrow> bool \<Rightarrow> wdt" where
  "wdt_loaded margin nod =
     \<lparr>default_margin = margin, cur_margin = HIDOG_TIMER_MARGIN, hidog_state = HIDOG_EXIT,
      options = WDIOS_ENABLECARD, driver_open = 0, nodeamon = nod, task_hidog_deamon = False,
      w_mapped = False, w_atomic = False, w_spin = False, w_dev = False, w_registered = False,
      w_io = []\<rparr>"

section \<open>Access discipline\<close>

text \<open>
  Replaying the accesses: \<open>sp\<close> says that the spin lock is held, \<open>ul\<close> that the device is
  unlocked. A register is written only with the lock held, and any register but the lock
  register only while the device is unlocked; the lock is released only with the device
  locked again.
\<close>

fun disc :: "bool \<times> bool \<Rightarrow> wdt_event list \<Rightarrow> (bool \<times> bool) option" where
  "disc st [] = Some st"
| "disc (sp, ul) (Spin_lock # es) = (if \<not> sp \<and> \<not> ul then disc (True, False) es else None)"
| "disc (sp, ul) (Spin_unlock # es) = (if sp \<and> \<not> ul then disc (False, False) es else None)"
| "disc (sp, ul) (Rd r # es) = disc (sp, ul) es"
| "disc (sp, ul) (Wr r v # es) =
     (if \<not> sp then None
      else if r = HIWDT_LOCK then disc (sp, v = HIWDT_UNLOCK_VAL) es
      else if ul then disc (sp, ul) es else None)"

definition disciplined :: "wdt_event list \<Rightarrow> bool" where
  "disciplined es \<longleftrightarrow> disc (False, False) es = Some (False, False)"

lemma disc_append: "disc st (xs @ ys) = Option.bind (disc st xs) (\<lambda>st'. disc st' ys)"
  by (induction st xs rule: disc.induct) auto

lemma disciplined_append: "disciplined xs \<Longrightarrow> disciplined ys \<Longrightarrow> disciplined (xs @ ys)"
  by (simp add: disciplined_def disc_append)

text \<open>The value a register was last written with.\<close>

definition last_write :: "int \<Rightarrow> wdt_event list \<Rightarrow> int option" where
  "last_write r es = fold (\<lambda>e acc. case e of Wr r' v \<Rightarrow> if r' = r then Some v else acc | _ \<Rightarrow> acc) es None"

lemma last_write_snoc:
  "last_write r (es @ [e]) = (case e of Wr r' v \<Rightarrow> if r' = r then Some v else last_write r es | _ \<Rightarrow> last_write r es)"
  by (cases e) (simp_all add: last_write_def)

lemma last_write_append:
  "last_write r (xs @ ys) = (case last_write r ys of None \<Rightarrow> last_write r xs | Some v \<Rightarrow> Some v)"
  by (induction ys rule: rev_induct)
     (auto simp: last_write_snoc simp flip: append_assoc split: wdt_event.splits, simp add: last_write_def)

lemma last_write_evs [simp]:
  "last_write r [] = None"
  "last_write r (Spin_lock # es) = last_write r es"
  "last_write r (Spin_unlock # es) = last_write r es"
  "last_write r (Rd a # es) = last_write r es"
  "last_write r (Wr a v # es) =
     (case last_write r es of None \<Rightarrow> if a = r then Some v else None | Some w \<Rightarrow> Some w)"
proof -
  show "last_write r [] = None" by (simp add: last_write_def)
  have c: "last_write r ([e] @ es) = (case last_write r es of None \<Rightarrow> last_write r [e] | Some v \<Rightarrow> Some v)" for e
    by (rule last_write_append)
  show "last_write r (Spin_lock # es) = last_write r es"
    "last_write r (Spin_unlock # es) = last_write r es"
    "last_write r (Rd a # es) = last_write r es"
    "last_write r (Wr a v # es) =
      (case last_write r es of None \<Rightarrow> if a = r then Some v else None | Some w \<Rightarrow> Some w)"
    using c [of Spin_lock] c [of Spin_unlock] c [of "Rd a"] c [of "Wr a v"]
    by (auto simp: last_write_def split: option.splits)
qed

section \<open>The invariant of the running driver\<close>

text \<open>
  The device accesses are disciplined; the timer is enabled exactly when the driver reports
  so; the period is in range, and the device is loaded with it unless the driver has stopped;
  the device file is open once or not at all, and the daemon feeds the dog exactly when it is
  not.
\<close>

definition wdt_ok :: "wdt \<Rightarrow> bool" where
  "wdt_ok s \<longleftrightarrow> disciplined (w_io s) \<and>
     (options s = WDIOS_ENABLECARD \<and> last_write HIWDT_CTRL (w_io s) = Some 3 \<or>
      options s = WDIOS_DISABLECARD \<and> last_write HIWDT_CTRL (w_io s) = Some 0) \<and>
     1 \<le> cur_margin s \<and> cur_margin s \<le> max_cnt \<and>
     1 \<le> default_margin s \<and> default_margin s \<le> max_cnt \<and>
     (last_write HIWDT_LOAD (w_io s) = Some (cur_margin s * rate) \<or>
      options s = WDIOS_DISABLECARD \<and> last_write HIWDT_LOAD (w_io s) = Some 4294967295) \<and>
     (driver_open s = 0 \<and> hidog_state s = HIDOG_EXTCLR \<or>
      driver_open s = 1 \<and> hidog_state s = HIDOG_SELFCLR)"

lemma emit_sel [simp]:
  "w_io (emit evs s) = w_io s @ evs" "options (emit evs s) = options s"
  "cur_margin (emit evs s) = cur_margin s" "default_margin (emit evs s) = default_margin s"
  "driver_open (emit evs s) = driver_open s" "hidog_state (emit evs s) = hidog_state s"
  "nodeamon (emit evs s) = nodeamon s" "task_hidog_deamon (emit evs s) = task_hidog_deamon s"
  "w_mapped (emit evs s) = w_mapped s" "w_atomic (emit evs s) = w_atomic s"
  "w_spin (emit evs s) = w_spin s" "w_dev (emit evs s) = w_dev s" "w_registered (emit evs s) = w_registered s"
  by (simp_all add: emit_def)

text \<open>What the operations leave of the fields other than the accesses.\<close>

definition same_vars :: "wdt \<Rightarrow> wdt \<Rightarrow> bool" where
  "same_vars s t \<longleftrightarrow> s\<lparr>w_io := []\<rparr> = t\<lparr>w_io := []\<rparr>"

lemma same_vars_refl [simp]: "same_vars s s"
  by (simp add: same_vars_def)

lemma same_vars_emit [simp]: "same_vars s (emit evs t) = same_vars s t"
  by (simp add: same_vars_def emit_def)

lemma same_vars_timeout [simp]: "same_vars s (hidog_set_timeout nr t) = same_vars s t"
  by (simp add: hidog_set_timeout_def Let_def)

lemma same_vars_feed [simp]: "same_vars s (hidog_feed hw t) = same_vars s t"
  by (simp add: hidog_feed_def Let_def)

lemma same_vars_sel:
  assumes "same_vars s t"
  shows "options t = options s" "cur_margin t = cur_margin s" "default_margin t = default_margin s"
    "driver_open t = driver_open s" "hidog_state t = hidog_state s" "nodeamon t = nodeamon s"
    "task_hidog_deamon t = task_hidog_deamon s" "w_mapped t = w_mapped s" "w_atomic t = w_atomic s"
    "w_spin t = w_spin s" "w_dev t = w_dev s" "w_registered t = w_registered s"
  using assms by (cases s; cases t; simp add: same_vars_def)+

lemmas feed_vars [simp] = same_vars_sel [OF same_vars_feed [THEN iffD2, OF same_vars_refl]]
lemmas timeout_vars [simp] = same_vars_sel [OF same_vars_timeout [THEN iffD2, OF same_vars_refl]]

lemma timeout_io:
  "w_io (hidog_set_timeout nr s) =
     w_io s @ [Spin_lock, Wr HIWDT_LOCK HIWDT_UNLOCK_VAL,
       Wr HIWDT_LOAD (if nr = 0 \<or> max_cnt < nr then 4294967295 else u32 (nr * rate)),
       Wr HIWDT_VALUE (if nr = 0 \<or> max_cnt < nr then 4294967295 else u32 (nr * rate)),
       Wr HIWDT_LOCK 0, Spin_unlock]"
  by (simp add: hidog_set_timeout_def Let_def)

lemma feed_disciplined [simp]: "disciplined (w_io s) \<Longrightarrow> disciplined (w_io (hidog_feed hw s))"
  by (simp add: hidog_feed_def Let_def disciplined_def disc_append wdt_regs)

lemma timeout_disciplined [simp]: "disciplined (w_io s) \<Longrightarrow> disciplined (w_io (hidog_set_timeout nr s))"
  by (simp add: timeout_io disciplined_def disc_append wdt_regs)

lemma feed_last_write [simp]:
  "last_write HIWDT_CTRL (w_io (hidog_feed hw s)) = last_write HIWDT_CTRL (w_io s)"
  "last_write HIWDT_LOAD (w_io (hidog_feed hw s)) = last_write HIWDT_LOAD (w_io s)"
  by (simp_all add: hidog_feed_def Let_def last_write_append wdt_regs)

lemma timeout_last_write [simp]:
  "last_write HIWDT_CTRL (w_io (hidog_set_timeout nr s)) = last_write HIWDT_CTRL (w_io s)"
  "last_write HIWDT_LOAD (w_io (hidog_set_timeout nr s)) =
     Some (if nr = 0 \<or> max_cnt < nr then 4294967295 else u32 (nr * rate))"
  by (simp_all add: timeout_io last_write_append wdt_regs)

lemma heartbeat_margin:
  assumes "in_s32 t" "t \<noteq> 0 \<or> 1 \<le> cur_margin s \<and> cur_margin s \<le> max_cnt"
    "hidog_set_heartbeat hw t s = (ret, s')"
  shows "1 \<le> cur_margin s' \<and> cur_margin s' \<le> max_cnt"
    "last_write HIWDT_LOAD (w_io s') = Some (cur_margin s' * rate)"
proof -
  define t' where "t' = (if t = 0 then cur_margin s else if max_cnt < u32 t then max_cnt else t)"
  have t': "1 \<le> t'" "t' \<le> max_cnt"
    using assms(1,2) by (auto simp: t'_def max_cnt u32_of_s32 in_s32_def split: if_splits)
  have s': "s' = hidog_feed hw (hidog_set_timeout (u32 t') (s\<lparr>cur_margin := t'\<rparr>))"
    using assms(3) by (auto simp: hidog_set_heartbeat_def Let_def t'_def split: if_splits)
  show "1 \<le> cur_margin s' \<and> cur_margin s' \<le> max_cnt" using t' by (simp add: s')
  show "last_write HIWDT_LOAD (w_io s') = Some (cur_margin s' * rate)"
    using t' by (auto simp: s' max_cnt u32_def rate_def)
qed

lemma heartbeat_keeps:
  assumes "hidog_set_heartbeat hw t s = (ret, s')"
  shows "disciplined (w_io s) \<Longrightarrow> disciplined (w_io s')"
    "last_write HIWDT_CTRL (w_io s') = last_write HIWDT_CTRL (w_io s)"
    "options s' = options s" "default_margin s' = default_margin s"
    "driver_open s' = driver_open s" "hidog_state s' = hidog_state s" "nodeamon s' = nodeamon s"
    "task_hidog_deamon s' = task_hidog_deamon s"
    "w_mapped s' = w_mapped s" "w_atomic s' = w_atomic s" "w_spin s' = w_spin s" "w_dev s' = w_dev s"
    "w_registered s' = w_registered s"
  using assms by (auto simp: hidog_set_heartbeat_def Let_def split: if_splits)

lemma start_stop_io:
  "disciplined (w_io s) \<Longrightarrow> disciplined (w_io (hidog_start s))"
  "disciplined (w_io s) \<Longrightarrow> disciplined (w_io (hidog_stop s))"
  "last_write HIWDT_CTRL (w_io (hidog_start s)) = Some 3"
  "last_write HIWDT_CTRL (w_io (hidog_stop s)) = Some 0"
  "last_write HIWDT_LOAD (w_io (hidog_stop s)) = Some 4294967295"
  "options (hidog_start s) = WDIOS_ENABLECARD" "options (hidog_stop s) = WDIOS_DISABLECARD"
  by (simp_all add: hidog_start_def hidog_stop_def Let_def disciplined_def disc_append last_write_append
      timeout_io wdt_regs)

lemma start_stop_vars [simp]:
  "cur_margin (hidog_start s) = cur_margin s" "default_margin (hidog_start s) = default_margin s"
  "driver_open (hidog_start s) = driver_open s" "hidog_state (hidog_start s) = hidog_state s"
  "cur_margin (hidog_stop s) = cur_margin s" "default_margin (hidog_stop s) = default_margin s"
  "driver_open (hidog_stop s) = driver_open s" "hidog_state (hidog_stop s) = hidog_state s"
  "nodeamon (hidog_start s) = nodeamon s" "task_hidog_deamon (hidog_start s) = task_hidog_deamon s"
  "w_mapped (hidog_start s) = w_mapped s" "w_atomic (hidog_start s) = w_atomic s"
  "w_spin (hidog_start s) = w_spin s" "w_dev (hidog_start s) = w_dev s" "w_registered (hidog_start s) = w_registered s"
  "w_mapped (hidog_stop s) = w_mapped s" "w_mapped (hidog_set_timeout t s) = w_mapped s"
  by (simp_all add: hidog_start_def hidog_stop_def hidog_set_timeout_def Let_def)

lemma feed_ok: "wdt_ok s \<Longrightarrow> wdt_ok (hidog_feed hw s)"
  by (simp add: wdt_ok_def)

lemma heartbeat_ok:
  assumes "wdt_ok s" "in_s32 t"
  shows "wdt_ok (snd (hidog_set_heartbeat hw t s))"
proof -
  obtain ret s' where s': "hidog_set_heartbeat hw t s = (ret, s')" by fastforce
  have "t \<noteq> 0 \<or> 1 \<le> cur_margin s \<and> cur_margin s \<le> max_cnt" using assms(1) by (simp add: wdt_ok_def)
  from heartbeat_margin [OF assms(2) this s'] heartbeat_keeps [OF s'] assms(1)
  show ?thesis by (auto simp: s' wdt_ok_def)
qed

lemma open_ok: "wdt_ok s \<Longrightarrow> wdt_ok (snd (hidog_open hw s))"
  by (auto simp: hidog_open_def hidog_keepalive_def Let_def wdt_ok_def)

lemma wdt_ok_margin: "wdt_ok s \<Longrightarrow> in_s32 (cur_margin s)"
  by (auto simp: wdt_ok_def max_cnt in_s32_def)

lemma release_ok:
  assumes "wdt_ok s"
  shows "wdt_ok (snd (hidog_release hw s))"
proof (cases "driver_open s = 0")
  case True
  then have "wdt_ok (s\<lparr>driver_open := 1, hidog_state := HIDOG_SELFCLR\<rparr>)"
    using assms by (auto simp: wdt_ok_def)
  from heartbeat_ok [OF this wdt_ok_margin [OF assms], of hw] True show ?thesis
    by (simp add: hidog_release_def Let_def)
qed (use assms in \<open>simp add: hidog_release_def Let_def\<close>)

text \<open>The user's words have type \<open>int\<close>.\<close>

definition cmd_ok :: "wdt_cmd \<Rightarrow> bool" where
  "cmd_ok cmd \<longleftrightarrow> (case cmd of WDIOC_SETTIMEOUT t \<Rightarrow> in_s32 t | WDIOC_SETOPTIONS o' \<Rightarrow> in_s32 o' | _ \<Rightarrow> True)"

lemma start_heartbeat_ok:
  assumes "wdt_ok s"
  shows "wdt_ok (snd (hidog_set_heartbeat hw (cur_margin s) (hidog_start s)))"
proof -
  obtain ret s' where s': "hidog_set_heartbeat hw (cur_margin s) (hidog_start s) = (ret, s')" by fastforce
  have "cur_margin s \<noteq> 0 \<or> 1 \<le> cur_margin (hidog_start s) \<and> cur_margin (hidog_start s) \<le> max_cnt"
    using assms by (simp add: wdt_ok_def)
  from heartbeat_margin [OF wdt_ok_margin [OF assms] this s'] heartbeat_keeps [OF s'] start_stop_io [of s] assms
  show ?thesis by (auto simp: s' wdt_ok_def)
qed

lemma stop_ok: "wdt_ok s \<Longrightarrow> wdt_ok (hidog_stop s)"
  using start_stop_io [of s] by (auto simp: wdt_ok_def)

lemma ioctl_ok:
  assumes "wdt_ok s" "cmd_ok cmd"
  shows "wdt_ok (snd (snd (hidog_ioctl hw cmd s)))"
proof (cases cmd)
  case (WDIOC_SETTIMEOUT t)
  obtain ret s' where s': "hidog_set_heartbeat hw t s = (ret, s')" by fastforce
  have "wdt_ok s'" using heartbeat_ok [of s t hw] assms WDIOC_SETTIMEOUT s' by (simp add: cmd_ok_def)
  then show ?thesis
    using s' by (simp add: hidog_ioctl_def WDIOC_SETTIMEOUT hidog_keepalive_def feed_ok)
next
  case (WDIOC_SETOPTIONS o')
  then show ?thesis using assms by (simp add: hidog_ioctl_def start_heartbeat_ok stop_ok)
qed (use assms in \<open>auto simp: hidog_ioctl_def hidog_keepalive_def feed_ok\<close>)

lemma deamon_ok: "wdt_ok s \<Longrightarrow> wdt_ok (hidog_deamon_turn hw s)"
  by (simp add: hidog_deamon_turn_def feed_ok)

section \<open>Executions\<close>

inductive wdt_step :: "(wdt_event list \<Rightarrow> int) \<Rightarrow> wdt \<Rightarrow> wdt \<Rightarrow> bool" for hw where
  step_open: "wdt_step hw s (snd (hidog_open hw s))"
| step_release: "wdt_step hw s (snd (hidog_release hw s))"
| step_ioctl: "cmd_ok cmd \<Longrightarrow> wdt_step hw s (snd (snd (hidog_ioctl hw cmd s)))"
| step_deamon: "\<not> nodeamon s \<Longrightarrow> wdt_step hw s (hidog_deamon_turn hw s)"

inductive_cases wdt_stepE: "wdt_step hw s s'"

inductive wdt_reach :: "(wdt_event list \<Rightarrow> int) \<Rightarrow> wdt \<Rightarrow> bool" for hw where
  reach_init: "in_s32 margin \<Longrightarrow> watchdog_init hw e (wdt_loaded margin nod) = (0, s) \<Longrightarrow> wdt_reach hw s"
| reach_step: "wdt_reach hw s \<Longrightarrow> wdt_step hw s s' \<Longrightarrow> wdt_reach hw s'"

lemma init_margin_ok:
  assumes "in_s32 (default_margin s)" "disciplined (w_io s)" "init_margin hw s = s'"
  shows "1 \<le> default_margin s' \<and> default_margin s' \<le> max_cnt" "cur_margin s' = default_margin s'"
    "disciplined (w_io s')" "last_write HIWDT_LOAD (w_io s') = Some (cur_margin s' * rate)"
    "options s' = options s" "driver_open s' = driver_open s"
    "nodeamon s' = nodeamon s" "task_hidog_deamon s' = task_hidog_deamon s" "w_mapped s' = w_mapped s"
    "w_atomic s' = w_atomic s" "w_spin s' = w_spin s" "w_dev s' = w_dev s" "w_registered s' = w_registered s"
proof -
  let ?m = "default_margin s"
  let ?s1 = "s\<lparr>cur_margin := ?m\<rparr>"
  obtain ret s2 where s2: "hidog_set_heartbeat hw ?m ?s1 = (ret, s2)" by fastforce
  have keep: "disciplined (w_io s2)" "default_margin s2 = ?m"
    using heartbeat_keeps [OF s2] assms(2) by simp_all
  have "1 \<le> default_margin s' \<and> default_margin s' \<le> max_cnt \<and> cur_margin s' = default_margin s' \<and>
    disciplined (w_io s') \<and> last_write HIWDT_LOAD (w_io s') = Some (cur_margin s' * rate)"
  proof (cases "ret = 0")
    case True
    then have r: "s' = s2" "cur_margin s2 = ?m" "?m \<noteq> 0"
      using assms(3) s2 by (auto simp: init_margin_def hidog_set_heartbeat_def Let_def split: if_splits)
    then show ?thesis using heartbeat_margin [OF assms(1) _ s2] keep by auto
  next
    case False
    obtain ret3 s3 where s3: "hidog_set_heartbeat hw HIDOG_TIMER_MARGIN
        (s2\<lparr>default_margin := HIDOG_TIMER_MARGIN\<rparr>) = (ret3, s3)" by fastforce
    have "s' = s3" using assms(3) s2 s3 False by (simp add: init_margin_def)
    moreover have "cur_margin s3 = 60"
      using s3 by (auto simp: hidog_set_heartbeat_def Let_def HIDOG_TIMER_MARGIN_def max_cnt u32_def)
    moreover have "in_s32 HIDOG_TIMER_MARGIN" "HIDOG_TIMER_MARGIN \<noteq> 0"
      by (simp_all add: HIDOG_TIMER_MARGIN_def in_s32_def)
    ultimately show ?thesis
      using heartbeat_margin [OF _ _ s3] heartbeat_keeps [OF s3] keep
      by (simp add: max_cnt HIDOG_TIMER_MARGIN_def)
  qed
  then show "1 \<le> default_margin s' \<and> default_margin s' \<le> max_cnt" "cur_margin s' = default_margin s'"
    "disciplined (w_io s')" "last_write HIWDT_LOAD (w_io s') = Some (cur_margin s' * rate)" by blast+
  show "options s' = options s" "driver_open s' = driver_open s"
    "nodeamon s' = nodeamon s" "task_hidog_deamon s' = task_hidog_deamon s" "w_mapped s' = w_mapped s"
    "w_atomic s' = w_atomic s" "w_spin s' = w_spin s" "w_dev s' = w_dev s" "w_registered s' = w_registered s"
    using assms(3) by (auto simp: init_margin_def hidog_set_heartbeat_def Let_def split: if_splits)
qed

lemma init_margin_vars [simp]:
  "options (init_margin hw s) = options s" "driver_open (init_margin hw s) = driver_open s"
  "nodeamon (init_margin hw s) = nodeamon s" "task_hidog_deamon (init_margin hw s) = task_hidog_deamon s"
  "w_mapped (init_margin hw s) = w_mapped s" "w_atomic (init_margin hw s) = w_atomic s"
  "w_spin (init_margin hw s) = w_spin s" "w_dev (init_margin hw s) = w_dev s"
  "w_registered (init_margin hw s) = w_registered s" "hidog_state (init_margin hw s) = hidog_state s"
  by (auto simp: init_margin_def hidog_set_heartbeat_def Let_def split: prod.split)

lemmas init_errs = watchdog_init_err0_def watchdog_init_err1_def watchdog_init_err5_def watchdog_init_err6_def

text \<open>
  The resources of the driver: the atomic variable, the spin lock, the mapping of the registers, the
  device, its registration and the daemon task.
\<close>

definition held :: "wdt \<Rightarrow> bool list" where
  "held s = [w_atomic s, w_spin s, w_mapped s, w_dev s, w_registered s, task_hidog_deamon s]"

text \<open>
  C6. \<open>watchdog_init\<close>, on the variables of a freshly loaded module, returns 0 or -1, and 0 exactly
  when every service it calls succeeded. On 0
  it holds every resource (the daemon task unless \<open>nodeamon\<close>). On -1 it has given back the atomic
  variable, the spin lock, the device, its registration and the daemon, whichever it took, but
  not the mapping of the registers: that stays exactly when the mapping had succeeded, so on every failure behind
  it (the calls of \<open>osal_iounmap\<close> are commented out).
\<close>

theorem watchdog_init_unwinds:
  assumes "watchdog_init hw e (wdt_loaded margin nod) = (ret, s)"
  shows "(ret = 0 \<and> held s = [True, True, True, True, True, \<not> nod] \<or>
          ret = -1 \<and> held s = [False, False, e_atomic_ret e = 0 \<and> e_spin_ret e = 0 \<and> e_ioremap_ok e, False, False, False]) \<and>
    (ret = 0 \<longleftrightarrow> e_atomic_ret e = 0 \<and> e_spin_ret e = 0 \<and> e_ioremap_ok e \<and> e_createdev_ok e \<and>
       e_register_ret e = 0 \<and> (nod \<or> e_kthread_ok e))"
  using assms
  by (auto simp: watchdog_init_def init_errs hidog_init_def Let_def held_def wdt_loaded_def
      split: if_splits)

definition env_ok :: wdt_env where
  "env_ok = \<lparr>e_atomic_ret = 0, e_spin_ret = 0, e_ioremap_ok = True, e_createdev_ok = True,
     e_register_ret = 0, e_kthread_ok = True\<rparr>"

lemma watchdog_init_unwinds_witness:
  "held (snd (watchdog_init (\<lambda>_. 0) (env_ok\<lparr>e_register_ret := 5\<rparr>) (wdt_loaded 60 False)))
     = [False, False, True, False, False, False]"
proof -
  obtain ret s where r: "watchdog_init (\<lambda>_. 0) (env_ok\<lparr>e_register_ret := 5\<rparr>) (wdt_loaded 60 False) = (ret, s)"
    by fastforce
  from watchdog_init_unwinds [OF r] r show ?thesis by (auto simp: env_ok_def)
qed

lemma watchdog_init_success:
  assumes "watchdog_init hw e (wdt_loaded margin nod) = (0, s)" "in_s32 margin"
  shows "wdt_ok s \<and> cur_margin s = default_margin s"
proof -
  define s2 where "s2 = (wdt_loaded margin nod)\<lparr>w_atomic := True, driver_open := 1,
        w_spin := True, w_mapped := True\<rparr>"
  define s3 where "s3 = init_margin hw s2"
  have "in_s32 (default_margin s2)" "disciplined (w_io s2)"
    using assms(2) by (simp_all add: s2_def wdt_loaded_def disciplined_def)
  note I = init_margin_ok [OF this s3_def [symmetric]]
  have d: "driver_open s3 = 1" using I by (simp add: s2_def)
  define s4 where "s4 = hidog_start (s3\<lparr>w_dev := True, w_registered := True\<rparr>)"
  have s: "\<exists>b. s = s4\<lparr>hidog_state := HIDOG_SELFCLR, task_hidog_deamon := b\<rparr>"
    using assms(1) unfolding watchdog_init_def Let_def
    by (auto simp: s4_def s3_def s2_def init_errs hidog_init_def Let_def wdt_loaded_def
        split: if_splits intro!: exI [of _ "task_hidog_deamon s"])
  have dis: "disciplined (w_io s4)" unfolding s4_def by (rule start_stop_io) (simp add: I)
  have ctrl: "last_write HIWDT_CTRL (w_io s4) = Some 3" "options s4 = WDIOS_ENABLECARD"
    unfolding s4_def by (rule start_stop_io)+
  have load: "last_write HIWDT_LOAD (w_io s4) = last_write HIWDT_LOAD (w_io s3)"
    by (simp add: s4_def hidog_start_def last_write_append wdt_regs)
  have "cur_margin s4 = cur_margin s3" "default_margin s4 = default_margin s3" "driver_open s4 = 1"
    using d by (simp_all add: s4_def)
  then show ?thesis using s dis ctrl load I(1-4) by (auto simp: wdt_ok_def)
qed

lemma wdt_step_ok: "wdt_step hw s s' \<Longrightarrow> wdt_ok s \<Longrightarrow> wdt_ok s'"
  by (induction rule: wdt_step.induct) (auto intro: open_ok release_ok ioctl_ok deamon_ok)

lemma wdt_reach_inv: "wdt_reach hw s \<Longrightarrow> wdt_ok s"
  by (induction rule: wdt_reach.induct) (auto dest: watchdog_init_success wdt_step_ok)

text \<open>
  C5. Whatever the users, the daemon and the device do, from a successful \<open>watchdog_init\<close> on: a
  device register is only ever written with the spin lock held and the device unlocked, and both
  are given back; the timer is enabled exactly when the driver reports it; the period stays in
  1..1431 seconds and is what the device is loaded with; the file is open at most once, and the
  daemon feeds the dog exactly while it is closed.
\<close>

theorem wdt_reach_ok:
  assumes "wdt_reach hw s"
  shows "wdt_ok s"
  using assms by (rule wdt_reach_inv)

lemma wdt_reach_ok_witness:
  "\<exists>s. wdt_reach (\<lambda>_. 1) s \<and> wdt_ok s \<and> driver_open s = 0 \<and> cur_margin s = 5"
proof -
  let ?s0 = "snd (watchdog_init (\<lambda>_. 1) env_ok (wdt_loaded 60 False))"
  let ?s1 = "snd (hidog_open (\<lambda>_. 1) ?s0)"
  let ?s2 = "snd (snd (hidog_ioctl (\<lambda>_. 1) (WDIOC_SETTIMEOUT 5) ?s1))"
  have "fst (watchdog_init (\<lambda>_. 1) env_ok (wdt_loaded 60 False)) = 0" by code_simp
  then have "watchdog_init (\<lambda>_. 1) env_ok (wdt_loaded 60 False) = (0, ?s0)" by (metis prod.collapse)
  then have "wdt_reach (\<lambda>_. 1) ?s0" by (rule wdt_reach.reach_init [rotated]) (simp add: in_s32_def)
  then have "wdt_reach (\<lambda>_. 1) ?s1" by (rule wdt_reach.reach_step) (rule wdt_step.step_open)
  then have r: "wdt_reach (\<lambda>_. 1) ?s2"
    by (rule wdt_reach.reach_step) (rule wdt_step.step_ioctl, simp add: cmd_ok_def in_s32_def)
  have "driver_open ?s2 = 0 \<and> cur_margin ?s2 = 5" by code_simp
  then show ?thesis using r wdt_reach_ok [OF r] by blast
qed

text \<open>
  The timeout request: a period of 1..1431 seconds is accepted and loaded into the device;
  0 is refused and changes nothing but refreshes the device; any other value, negative ones
  included, is refused with -1 and yet takes effect as 1431 seconds.
\<close>

lemma settimeout_effect:
  assumes "wdt_ok s" "in_s32 t" "hidog_ioctl hw (WDIOC_SETTIMEOUT t) s = (ret, out, s')"
  shows "(ret, cur_margin s') =
      (if 1 \<le> t \<and> t \<le> 1431 then (0, t) else if t = 0 then (-1, cur_margin s) else (-1, 1431)) \<and>
    last_write HIWDT_LOAD (w_io s') = Some (cur_margin s' * 3000000)"
proof -
  obtain r1 s1 where r1: "hidog_set_heartbeat hw t s = (r1, s1)" by fastforce
  have s': "cur_margin s' = cur_margin s1" "ret = (if r1 = 0 then 0 else -1)"
    "last_write HIWDT_LOAD (w_io s') = last_write HIWDT_LOAD (w_io s1)"
    using assms(3) by (auto simp: hidog_ioctl_def r1 hidog_keepalive_def split: if_splits)
  have r: "(r1, cur_margin s1) =
      (if 1 \<le> t \<and> t \<le> 1431 then (0, t) else if t = 0 then (1, cur_margin s) else (-1, 1431))"
    using r1 u32_of_s32 [OF assms(2)] assms(2)
    by (auto simp: hidog_set_heartbeat_def Let_def max_cnt in_s32_def split: if_splits)
  have l: "last_write HIWDT_LOAD (w_io s1) = Some (cur_margin s1 * 3000000)"
    using heartbeat_margin [OF assms(2) _ r1] assms(1) by (simp add: wdt_ok_def rate_def)
  show ?thesis unfolding s' l using r by (simp split: if_splits)
qed

lemma settimeout_effect_witness:
  "let s = snd (watchdog_init (\<lambda>_. 0) env_ok (wdt_loaded 60 False));
       (ret, out, s') = hidog_ioctl (\<lambda>_. 0) (WDIOC_SETTIMEOUT (-3)) s
   in ret = -1 \<and> cur_margin s' = 1431"
proof -
  define s where "s = snd (watchdog_init (\<lambda>_. 0) env_ok (wdt_loaded 60 False))"
  have "fst (watchdog_init (\<lambda>_. 0) env_ok (wdt_loaded 60 False)) = 0" by code_simp
  then have "watchdog_init (\<lambda>_. 0) env_ok (wdt_loaded 60 False) = (0, s)"
    unfolding s_def by (metis prod.collapse)
  from watchdog_init_success [OF this] have ok: "wdt_ok s" by (simp add: in_s32_def)
  obtain ret out s' where r: "hidog_ioctl (\<lambda>_. 0) (WDIOC_SETTIMEOUT (-3)) s = (ret, out, s')"
    by (metis prod_cases3)
  have "ret = -1 \<and> cur_margin s' = 1431"
    using settimeout_effect [OF ok _ r] by (simp add: in_s32_def)
  then show ?thesis by (simp add: s_def [symmetric] r)
qed

text \<open>
  When the daemon cannot be created, \<open>watchdog_init\<close> fails and gives all but the register mapping back, but
  the device it has already started keeps counting: nothing is left that could feed it.
\<close>

lemma init_failure_leaves_timer_running:
  "let (ret, s) = watchdog_init (\<lambda>_. 0) (env_ok\<lparr>e_kthread_ok := False\<rparr>) (wdt_loaded 60 False)
   in ret = -1 \<and> held s = [False, False, True, False, False, False] \<and>
      last_write HIWDT_CTRL (w_io s) = Some 3 \<and> last_write HIWDT_LOAD (w_io s) = Some (60 * rate)"
  by code_simp

text \<open>
  Closing the device hands it back to the daemon with the period the user had set: after
  setting 5 seconds and closing, the device still counts 5 seconds, but the daemon looks at it
  every 30.01 seconds only, more than twice the period.
\<close>

lemma release_keeps_user_margin:
  "let hw = (\<lambda>_. 0);
       s0 = snd (watchdog_init hw env_ok (wdt_loaded 60 False));
       s1 = snd (hidog_open hw s0);
       s2 = snd (snd (hidog_ioctl hw (WDIOC_SETTIMEOUT 5) s1));
       s3 = snd (hidog_release hw s2)
   in hidog_state s3 = HIDOG_SELFCLR \<and> driver_open s3 = 1 \<and>
      last_write HIWDT_LOAD (w_io s3) = Some (5 * rate) \<and>
      2 * (5 * 1000) < hidog_deamon_sleep s3 \<and> hidog_deamon_sleep s3 = 30010"
  by code_simp

definition hidog_deamon_in_time :: "wdt \<Rightarrow> bool" where
  "hidog_deamon_in_time s \<longleftrightarrow> hidog_deamon_sleep s < cur_margin s * 1000"

text \<open>
  C7. While nobody has changed the period since the module was loaded, the daemon's sleep is
  about half of it: it looks at the device at least once per period whenever that is at least
  1 second.
\<close>

theorem deamon_in_time_initially:
  assumes "in_s32 margin" "watchdog_init hw e (wdt_loaded margin nod) = (0, s)"
  shows "hidog_deamon_in_time s"
proof -
  from watchdog_init_success [OF assms(2,1)]
  have m: "1 \<le> default_margin s" "default_margin s \<le> 1431" "cur_margin s = default_margin s"
    by (simp_all add: wdt_ok_def max_cnt)
  have "hidog_deamon_sleep s = default_margin s * 500 + 10"
    using m by (simp add: hidog_deamon_sleep_def s32_id in_s32_def c_div_pos)
  then show ?thesis using m by (simp add: hidog_deamon_in_time_def)
qed

lemma deamon_in_time_initially_witness:
  "hidog_deamon_in_time (snd (watchdog_init (\<lambda>_. 0) env_ok (wdt_loaded 1 False)))"
proof -
  have "fst (watchdog_init (\<lambda>_. 0) env_ok (wdt_loaded 1 False)) = 0" by code_simp
  then have "watchdog_init (\<lambda>_. 0) env_ok (wdt_loaded 1 False) =
      (0, snd (watchdog_init (\<lambda>_. 0) env_ok (wdt_loaded 1 False)))" by (metis prod.collapse)
  from deamon_in_time_initially [OF _ this] show ?thesis by (simp add: in_s32_def)
qed

section \<open>Concurrent users\<close>

text \<open>
  \<open>hidog_open\<close> and \<open>hidog_release\<close> test the counter with one atomic operation and, when the
  test fails, undo it with a second one; another thread can come between the two. \<open>c_owners\<close>
  counts the successful opens that have not been released, \<open>c_losing\<close> the threads in
  \<open>hidog_open\<close> and \<open>c_closing\<close> those in \<open>hidog_release\<close> between the two operations.
\<close>

record wdt_conc =
  c_wdt :: wdt
  c_owners :: nat
  c_losing :: nat
  c_closing :: nat

abbreviation bump :: "int \<Rightarrow> wdt \<Rightarrow> wdt" where
  "bump d s \<equiv> s\<lparr>driver_open := driver_open s + d\<rparr>"

inductive conc_step :: "(wdt_event list \<Rightarrow> int) \<Rightarrow> wdt_conc \<Rightarrow> wdt_conc \<Rightarrow> bool" for hw where
  open_wins: "driver_open (c_wdt c) - 1 = 0 \<Longrightarrow>
    conc_step hw c (c\<lparr>c_wdt := snd (hidog_open hw (c_wdt c)), c_owners := Suc (c_owners c)\<rparr>)"
| open_loses: "driver_open (c_wdt c) - 1 \<noteq> 0 \<Longrightarrow>
    conc_step hw c (c\<lparr>c_wdt := bump (-1) (c_wdt c), c_losing := Suc (c_losing c)\<rparr>)"
| open_undone: "0 < c_losing c \<Longrightarrow>
    conc_step hw c (c\<lparr>c_wdt := bump 1 (c_wdt c), c_losing := c_losing c - 1\<rparr>)"
| release_wins: "0 < c_owners c \<Longrightarrow> driver_open (c_wdt c) + 1 = 1 \<Longrightarrow>
    conc_step hw c (c\<lparr>c_wdt := snd (hidog_release hw (c_wdt c)), c_owners := c_owners c - 1\<rparr>)"
| release_loses: "0 < c_owners c \<Longrightarrow> driver_open (c_wdt c) + 1 \<noteq> 1 \<Longrightarrow>
    conc_step hw c (c\<lparr>c_wdt := bump 1 (c_wdt c), c_owners := c_owners c - 1, c_closing := Suc (c_closing c)\<rparr>)"
| release_undone: "0 < c_closing c \<Longrightarrow>
    conc_step hw c (c\<lparr>c_wdt := bump (-1) (c_wdt c), c_closing := c_closing c - 1\<rparr>)"
| deamon: "conc_step hw c (c\<lparr>c_wdt := hidog_deamon_turn hw (c_wdt c)\<rparr>)"

text \<open>Nobody has the file open, yet the counter and the state say that somebody has.\<close>

definition locked_out :: "wdt_conc \<Rightarrow> bool" where
  "locked_out c \<longleftrightarrow> c_owners c = 0 \<and> c_closing c = 0 \<and>
     driver_open (c_wdt c) + int (c_losing c) = 0 \<and> hidog_state (c_wdt c) = HIDOG_EXTCLR"

lemma deamon_turn_vars [simp]:
  "driver_open (hidog_deamon_turn hw s) = driver_open s" "hidog_state (hidog_deamon_turn hw s) = hidog_state s"
  by (simp_all add: hidog_deamon_turn_def)

lemma locked_out_step: "conc_step hw c c' \<Longrightarrow> locked_out c \<Longrightarrow> locked_out c'"
  by (induction rule: conc_step.induct) (auto simp: locked_out_def)

lemma locked_out_forever: "(conc_step hw)\<^sup>*\<^sup>* c c' \<Longrightarrow> locked_out c \<Longrightarrow> locked_out c'"
  by (induction rule: rtranclp_induct) (auto intro: locked_out_step)

text \<open>
  The counter is not race free. One thread opens the file, a second one tries to and has
  just found it open when the first one closes it: the close takes the counter for that of
  a nested open and does nothing. From then on nobody has the file open, every later attempt
  to open it fails, and the daemon never feeds the dog again.
\<close>

lemma open_release_race:
  assumes "wdt_ok s" "driver_open s = 1"
  shows "\<exists>c. (conc_step hw)\<^sup>*\<^sup>* \<lparr>c_wdt = s, c_owners = 0, c_losing = 0, c_closing = 0\<rparr> c \<and>
     c_owners c = 0 \<and> c_losing c = 0 \<and> c_closing c = 0 \<and>
     (\<forall>c'. (conc_step hw)\<^sup>*\<^sup>* c c' \<longrightarrow> c_owners c' = 0 \<and> hidog_state (c_wdt c') = HIDOG_EXTCLR)"
proof -
  let ?c0 = "\<lparr>c_wdt = s, c_owners = 0, c_losing = 0, c_closing = 0\<rparr>"
  define s1 where "s1 = snd (hidog_open hw s)"
  have s1: "driver_open s1 = 0" "hidog_state s1 = HIDOG_EXTCLR"
    using assms(2) by (simp_all add: s1_def hidog_open_def hidog_keepalive_def Let_def)
  let ?c1 = "\<lparr>c_wdt = s1, c_owners = 1, c_losing = 0, c_closing = 0\<rparr>"
  let ?c2 = "\<lparr>c_wdt = bump (-1) s1, c_owners = 1, c_losing = 1, c_closing = 0\<rparr>"
  let ?c3 = "\<lparr>c_wdt = bump 1 (bump (-1) s1), c_owners = 0, c_losing = 1, c_closing = 1\<rparr>"
  let ?c4 = "\<lparr>c_wdt = bump (-1) (bump 1 (bump (-1) s1)), c_owners = 0, c_losing = 1, c_closing = 0\<rparr>"
  let ?c5 = "\<lparr>c_wdt = bump 1 (bump (-1) (bump 1 (bump (-1) s1))), c_owners = 0, c_losing = 0, c_closing = 0\<rparr>"
  have 1: "conc_step hw ?c0 ?c1" using conc_step.open_wins [of ?c0 hw] assms(2) by (simp add: s1_def)
  have 2: "conc_step hw ?c1 ?c2" using conc_step.open_loses [of ?c1 hw] s1 by simp
  have 3: "conc_step hw ?c2 ?c3" using conc_step.release_loses [of ?c2 hw] s1 by simp
  have 4: "conc_step hw ?c3 ?c4" using conc_step.release_undone [of ?c3 hw] by simp
  have 5: "conc_step hw ?c4 ?c5" using conc_step.open_undone [of ?c4 hw] by simp
  have run: "(conc_step hw)\<^sup>*\<^sup>* ?c0 ?c5"
    by (blast intro: converse_rtranclp_into_rtranclp [where r = "conc_step hw"] 1 2 3 4 5)
  have "locked_out ?c5" using s1 by (simp add: locked_out_def)
  then have "c_owners c' = 0 \<and> hidog_state (c_wdt c') = HIDOG_EXTCLR" if "(conc_step hw)\<^sup>*\<^sup>* ?c5 c'" for c'
    using locked_out_forever [OF that] by (simp add: locked_out_def)
  with run show ?thesis by (intro exI [of _ ?c5]) auto
qed

lemma open_release_race_witness:
  "\<exists>c. (conc_step (\<lambda>_. 0))\<^sup>*\<^sup>*
       \<lparr>c_wdt = snd (watchdog_init (\<lambda>_. 0) env_ok (wdt_loaded 60 False)), c_owners = 0, c_losing = 0,
        c_closing = 0\<rparr> c \<and> c_owners c = 0 \<and> hidog_state (c_wdt c) = HIDOG_EXTCLR"
proof -
  let ?s = "snd (watchdog_init (\<lambda>_. 0) env_ok (wdt_loaded 60 False))"
  have "fst (watchdog_init (\<lambda>_. 0) env_ok (wdt_loaded 60 False)) = 0" by code_simp
  then have "watchdog_init (\<lambda>_. 0) env_ok (wdt_loaded 60 False) = (0, ?s)" by (metis prod.collapse)
  from watchdog_init_success [OF this] have ok: "wdt_ok ?s" by (simp add: in_s32_def)
  have "driver_open ?s = 1" by code_simp
  from open_release_race [OF ok this, of "\<lambda>_. 0"] show ?thesis by blast
qed

text \<open>
  \<open>watchdog_exit\<close> stops the timer and gives every resource but the register mapping back, in
  disciplined accesses.
\<close>

lemma watchdog_exit_stops:
  assumes "wdt_reach hw s" "s' = watchdog_exit s"
  shows "disciplined (w_io s') \<and> last_write HIWDT_CTRL (w_io s') = Some 0 \<and>
    options s' = WDIOS_DISABLECARD \<and> hidog_state s' = HIDOG_EXIT \<and>
    held s' = [False, False, w_mapped s, False, False, False]"
proof -
  have "wdt_ok s" using assms(1) by (rule wdt_reach_inv)
  then show ?thesis
    using start_stop_io [of "hidog_set_timeout 0 s"]
    by (simp add: assms(2) watchdog_exit_def hidog_exit_def Let_def held_def wdt_ok_def)
qed

lemma watchdog_exit_stops_witness:
  "held (watchdog_exit (snd (watchdog_init (\<lambda>_. 0) env_ok (wdt_loaded 60 False)))) =
     [False, False, True, False, False, False]"
proof -
  let ?s = "snd (watchdog_init (\<lambda>_. 0) env_ok (wdt_loaded 60 False))"
  have "fst (watchdog_init (\<lambda>_. 0) env_ok (wdt_loaded 60 False)) = 0" by code_simp
  then have "watchdog_init (\<lambda>_. 0) env_ok (wdt_loaded 60 False) = (0, ?s)" by (metis prod.collapse)
  then have "wdt_reach (\<lambda>_. 0) ?s" by (rule wdt_reach.reach_init [rotated]) (simp add: in_s32_def)
  moreover have "w_mapped ?s" by code_simp
  ultimately show ?thesis using watchdog_exit_stops [of "\<lambda>_. 0" ?s] by simp
qed

text \<open>
  The mapping is never released: whoever removes the module after a failed or a successful start
  leaves it behind, and the next load maps the registers again.
\<close>

lemma watchdog_mapping_stays:
  assumes "watchdog_init hw e (wdt_loaded margin nod) = (ret, s)" "e_atomic_ret e = 0" "e_spin_ret e = 0" "e_ioremap_ok e"
  shows "w_mapped s" "w_mapped (watchdog_exit s)"
proof -
  show "w_mapped s" using assms
    by (auto simp: watchdog_init_def init_errs hidog_init_def Let_def split: if_splits)
  then show "w_mapped (watchdog_exit s)"
    by (simp add: watchdog_exit_def hidog_exit_def Let_def)
qed

lemma watchdog_mapping_stays_witness:
  "let (ret, s) = watchdog_init (\<lambda>_. 0) (env_ok\<lparr>e_createdev_ok := False\<rparr>) (wdt_loaded 60 False)
   in ret = -1 \<and> w_mapped s"
  by code_simp

end
