(* ===== verification/Svp_Mem.thy ===== *)
theory Svp_Mem
  imports AIPC_Prelude
begin

text \<open>
  Media memory and the image and buffer helpers over it (common/sdk2v0/sample_comm_svp.c).

  \<open>HI_MPI_SYS_MmzAlloc\<close> and \<open>HI_MPI_SYS_MmzFree\<close> belong to the vendor's library. What the code
  does with them is a list of events, oldest first; what an allocation returns is a parameter
  \<open>mmz\<close>, a function of the events so far and the size: the return code, the physical and the
  virtual address. The documented behaviour of the allocator that proofs use is \<open>mmz_sound\<close>.
  A virtual address has 32 bits on this target; it is stored in 64-bit fields, whose upper half
  is zero.
\<close>

section \<open>The allocator\<close>

datatype mmz_event = Mmz_alloc int int int | Mmz_free int int

type_synonym mmz_trace = "mmz_event list"
type_synonym mmz = "mmz_trace \<Rightarrow> int \<Rightarrow> int \<times> int \<times> int"

text \<open>
  The blocks that are allocated and not yet freed, newest first, as triples of the two
  addresses and the size. Freeing something that is not the address pair of a live block is
  an error.
\<close>

fun live_blocks :: "mmz_trace \<Rightarrow> (int \<times> int \<times> int) list \<Rightarrow> (int \<times> int \<times> int) list option" where
  "live_blocks [] bs = Some bs"
| "live_blocks (Mmz_alloc p v n # es) bs = live_blocks es ((p, v, n) # bs)"
| "live_blocks (Mmz_free p v # es) bs =
     (case filter (\<lambda>(p', v', n). p' = p \<and> v' = v) bs of
        [] \<Rightarrow> None
      | b # _ \<Rightarrow> live_blocks es (remove1 b bs))"

definition live :: "mmz_trace \<Rightarrow> (int \<times> int \<times> int) list option" where
  "live tr = live_blocks tr []"

lemma live_blocks_append:
  "live_blocks (xs @ ys) bs = Option.bind (live_blocks xs bs) (live_blocks ys)"
  by (induction xs bs rule: live_blocks.induct) (auto split: list.split)

lemma live_append: "live (xs @ ys) = Option.bind (live xs) (live_blocks ys)"
  by (simp add: live_def live_blocks_append)

text \<open>A successful allocation returns two addresses that are not null and do not wrap.\<close>

definition mmz_sound :: "mmz \<Rightarrow> bool" where
  "mmz_sound mmz \<longleftrightarrow> (\<forall>tr n p v. mmz tr n = (0, p, v) \<longrightarrow>
     0 < p \<and> 0 < v \<and> p + n < 9223372036854775808 \<and> v + n < 4294967296)"

text \<open>An allocator for the witnesses: consecutive blocks from a fixed start.\<close>

definition bump_mmz :: mmz where
  "bump_mmz tr n =
     (let used = sum_list (map (\<lambda>e. case e of Mmz_alloc _ _ k \<Rightarrow> max k 0 | _ \<Rightarrow> 0) tr)
      in if used + max n 0 < 16777216 then (0, 4096 + used, 8192 + used) else (-1, 0, 0))"

lemma bump_mmz_sound: "mmz_sound bump_mmz"
proof -
  have "0 < p \<and> 0 < v \<and> p + n < 9223372036854775808 \<and> v + n < 4294967296"
    if "bump_mmz tr n = (0, p, v)" for tr n p v
  proof -
    define used where "used = sum_list (map (\<lambda>e. case e of Mmz_alloc _ _ k \<Rightarrow> max k 0 | _ \<Rightarrow> 0) tr)"
    have "0 \<le> used" unfolding used_def by (intro sum_list_nonneg) (auto split: mmz_event.splits)
    moreover have "p = 4096 + used" "v = 8192 + used" "used + max n 0 < 16777216"
      using that by (auto simp: bump_mmz_def used_def Let_def split: if_splits)
    ultimately show ?thesis by linarith
  qed
  then show ?thesis by (simp add: mmz_sound_def)
qed

definition MmzAlloc :: "mmz \<Rightarrow> int \<Rightarrow> mmz_trace \<Rightarrow> (int \<times> int \<times> int) \<times> mmz_trace" where
  "MmzAlloc mmz n tr =
     (let (ret, p, v) = mmz tr n
      in ((ret, p, v), if ret = 0 then tr @ [Mmz_alloc p v n] else tr))"

text \<open>The macro \<open>SAMPLE_SVP_MMZ_FREE\<close>: frees and clears the two variables.\<close>

definition MMZ_FREE :: "int \<Rightarrow> int \<Rightarrow> mmz_trace \<Rightarrow> int \<times> int \<times> mmz_trace" where
  "MMZ_FREE phy vir tr = (if phy \<noteq> 0 \<and> vir \<noteq> 0 then (0, 0, tr @ [Mmz_free phy vir]) else (phy, vir, tr))"

section \<open>Buffers\<close>

record svp_mem_info =
  m_phy :: int
  m_vir :: int
  m_size :: int

definition Svp_Align :: "int \<Rightarrow> int \<Rightarrow> int" where
  "Svp_Align n a = u32 (n + (a - n mod a) mod a)"

definition CreateMemInfo ::
    "mmz \<Rightarrow> svp_mem_info \<Rightarrow> int \<Rightarrow> int \<Rightarrow> mmz_trace \<Rightarrow> int \<times> svp_mem_info \<times> mmz_trace" where
  "CreateMemInfo mmz mem n off tr =
     (let tmp = u32 (n + off);
          mem1 = mem\<lparr>m_size := n\<rparr>;
          ((ret, p, v), tr1) = MmzAlloc mmz tmp tr
      in if ret \<noteq> 0 then (ret, mem1, tr1)
         else (ret, mem1\<lparr>m_phy := u64 (p + off), m_vir := u64 (v + off)\<rparr>, tr1))"

definition DestroyMemInfo :: "svp_mem_info \<Rightarrow> int \<Rightarrow> mmz_trace \<Rightarrow> svp_mem_info \<times> mmz_trace" where
  "DestroyMemInfo mem off tr =
     (\<lparr>m_phy = 0, m_vir = 0, m_size = 0\<rparr>,
      if m_vir mem \<noteq> 0 \<and> m_phy mem \<noteq> 0
      then tr @ [Mmz_free (u64 (m_phy mem - off)) (u32 (m_vir mem - off))] else tr)"

definition MallocMem :: "mmz \<Rightarrow> int \<Rightarrow> mmz_trace \<Rightarrow> (int \<times> int \<times> int) \<times> mmz_trace" where
  "MallocMem mmz n tr = MmzAlloc mmz n tr"

text \<open>\<open>SAMPLE_COMM_SVP_MallocCached\<close>; the cached allocator has the same interface.\<close>

definition MallocCached :: "mmz \<Rightarrow> int \<Rightarrow> mmz_trace \<Rightarrow> (int \<times> int \<times> int) \<times> mmz_trace" where
  "MallocCached mmz n tr = MmzAlloc mmz n tr"

section \<open>Images\<close>

datatype svp_image_type =
    U8C1 | S8C1 | YUV420SP | YUV422SP | YUV420P | YUV422P | S8C2_PACKAGE | S8C2_PLANAR
  | S16C1 | U16C1 | U8C3_PACKAGE | U8C3_PLANAR | S32C1 | U32C1 | S64C1 | U64C1 | IMAGE_TYPE_BUTT

record svp_image =
  im_phy :: "int list"
  im_vir :: "int list"
  im_stride :: "int list"
  im_width :: int
  im_height :: int
  im_type :: svp_image_type

text \<open>
  The allocation every case of \<open>SAMPLE_COMM_SVP_CreateImage\<close> makes: the block goes to plane 0,
  advanced by the offset the caller keeps for itself.
\<close>

definition image_alloc ::
    "mmz \<Rightarrow> int \<Rightarrow> int \<Rightarrow> svp_image \<Rightarrow> mmz_trace \<Rightarrow> int \<times> svp_image \<times> mmz_trace" where
  "image_alloc mmz n off img tr =
     (let ((ret, p, v), tr1) = MmzAlloc mmz n tr
      in if ret \<noteq> 0 then (ret, img, tr1)
         else (0, img\<lparr>im_phy := (im_phy img)[0 := u64 (p + off)],
                      im_vir := (im_vir img)[0 := u64 (v + off)]\<rparr>, tr1))"

text \<open>Plane \<open>k\<close> starts \<open>d\<close> bytes after plane \<open>k - 1\<close>.\<close>

definition next_plane :: "nat \<Rightarrow> int \<Rightarrow> svp_image \<Rightarrow> svp_image" where
  "next_plane k d img =
     img\<lparr>im_phy := (im_phy img)[k := u64 (im_phy img ! (k - 1) + d)],
         im_vir := (im_vir img)[k := u64 (im_vir img ! (k - 1) + d)]\<rparr>"

definition set_stride :: "nat \<Rightarrow> int \<Rightarrow> svp_image \<Rightarrow> svp_image" where
  "set_stride k s img = img\<lparr>im_stride := (im_stride img)[k := s]\<rparr>"

definition on_ok :: "(svp_image \<Rightarrow> svp_image) \<Rightarrow> int \<times> svp_image \<times> mmz_trace \<Rightarrow> int \<times> svp_image \<times> mmz_trace" where
  "on_ok f r = (case r of (ret, img, tr) \<Rightarrow> if ret = 0 then (ret, f img, tr) else r)"

definition CreateImage ::
    "mmz \<Rightarrow> svp_image \<Rightarrow> svp_image_type \<Rightarrow> int \<Rightarrow> int \<Rightarrow> int \<Rightarrow> mmz_trace
      \<Rightarrow> int \<times> svp_image \<times> mmz_trace" where
  "CreateImage mmz img ty w h off tr =
     (let s0 = Svp_Align w 16;
          s1 = Svp_Align (w div 2) 16;
          img0 = set_stride 0 s0 (img\<lparr>im_type := ty, im_width := w, im_height := h\<rparr>)
      in case ty of
        U8C1 \<Rightarrow> image_alloc mmz (u32 (s0 * h + off)) off img0 tr
      | S8C1 \<Rightarrow> image_alloc mmz (u32 (s0 * h + off)) off img0 tr
      | YUV420SP \<Rightarrow>
          on_ok (\<lambda>i. next_plane 1 (u32 (s0 * h)) (set_stride 1 s0 i))
            (image_alloc mmz (u32 (u32 (s0 * h * 3) div 2 + off)) off img0 tr)
      | YUV422SP \<Rightarrow>
          on_ok (\<lambda>i. next_plane 1 (u32 (s0 * h)) (set_stride 1 s0 i))
            (image_alloc mmz (u32 (s0 * h * 2 + off)) off img0 tr)
      | YUV420P \<Rightarrow>
          on_ok (\<lambda>i. next_plane 2 (u32 (s1 * h) div 2) (next_plane 1 (u32 (s0 * h)) i))
            (image_alloc mmz (u32 (s0 * h + s1 * h + off)) off (set_stride 2 s1 (set_stride 1 s1 img0)) tr)
      | YUV422P \<Rightarrow>
          on_ok (\<lambda>i. next_plane 2 (u32 (s1 * h)) (next_plane 1 (u32 (s0 * h)) i))
            (image_alloc mmz (u32 (s0 * h + s1 * h * 2 + off)) off (set_stride 2 s1 (set_stride 1 s1 img0)) tr)
      | S8C2_PACKAGE \<Rightarrow>
          on_ok (\<lambda>i. next_plane 1 1 (set_stride 1 s0 i))
            (image_alloc mmz (u32 (s0 * h * 2 + off)) off img0 tr)
      | S8C2_PLANAR \<Rightarrow>
          on_ok (\<lambda>i. next_plane 1 (u32 (s0 * h)) (set_stride 1 s0 i))
            (image_alloc mmz (u32 (s0 * h * 2 + off)) off img0 tr)
      | S16C1 \<Rightarrow> image_alloc mmz (u32 (s0 * h * 2 + off)) off img0 tr
      | U16C1 \<Rightarrow> image_alloc mmz (u32 (s0 * h * 2 + off)) off img0 tr
      | U8C3_PACKAGE \<Rightarrow>
          on_ok (\<lambda>i. next_plane 2 1 (next_plane 1 1 (set_stride 2 s0 (set_stride 1 s0 i))))
            (image_alloc mmz (u32 (s0 * h * 3 + off)) off img0 tr)
      | U8C3_PLANAR \<Rightarrow>
          on_ok (\<lambda>i. next_plane 2 (s0 * h) (next_plane 1 (s0 * h) (set_stride 2 s0 (set_stride 1 s0 i))))
            (image_alloc mmz (u32 (s0 * h * 3 + off)) off img0 tr)
      | S32C1 \<Rightarrow> image_alloc mmz (u32 (s0 * h * 4 + off)) off img0 tr
      | U32C1 \<Rightarrow> image_alloc mmz (u32 (s0 * h * 4 + off)) off img0 tr
      | S64C1 \<Rightarrow> image_alloc mmz (u32 (s0 * h * 8 + off)) off img0 tr
      | U64C1 \<Rightarrow> image_alloc mmz (u32 (s0 * h * 8 + off)) off img0 tr
      | IMAGE_TYPE_BUTT \<Rightarrow> (0, img0, tr))"

definition zero_image :: svp_image where
  "zero_image = \<lparr>im_phy = [0, 0, 0], im_vir = [0, 0, 0], im_stride = [0, 0, 0], im_width = 0,
     im_height = 0, im_type = U8C1\<rparr>"

definition DestroyImage :: "svp_image \<Rightarrow> int \<Rightarrow> mmz_trace \<Rightarrow> svp_image \<times> mmz_trace" where
  "DestroyImage img off tr =
     (zero_image,
      if im_vir img ! 0 \<noteq> 0 \<and> im_phy img ! 0 \<noteq> 0
      then tr @ [Mmz_free (u64 (im_phy img ! 0 - off)) (u32 (im_vir img ! 0 - off))] else tr)"

section \<open>What the helpers guarantee\<close>

lemma Svp_Align_ge:
  assumes "0 \<le> n" "0 < a" "n + a \<le> 4294967296"
  shows "n \<le> Svp_Align n a" "Svp_Align n a < n + a" "a dvd Svp_Align n a"
proof -
  define r where "r = (a - n mod a) mod a"
  have r: "0 \<le> r" "r < a" using assms(2) by (simp_all add: r_def)
  then have e: "Svp_Align n a = n + r"
    using assms unfolding Svp_Align_def r_def [symmetric] by (intro u32_id) (simp add: in_u32_def)
  show "n \<le> Svp_Align n a" "Svp_Align n a < n + a" using e r by simp_all
  have "(n + r) mod a = (n + (a - n)) mod a" unfolding r_def by (metis mod_add_right_eq mod_diff_right_eq)
  then show "a dvd Svp_Align n a" unfolding e by (simp add: mod_eq_0_iff_dvd)
qed

lemma live_alloc_free:
  assumes "live tr = Some bs"
  shows "live (tr @ [Mmz_alloc p v n, Mmz_free p v]) = Some bs"
  using assms by (simp add: live_append)

lemma CreateMemInfo_cases:
  assumes "CreateMemInfo mmz mem n off tr = (ret, mem', tr')"
  shows "ret \<noteq> 0 \<and> tr' = tr \<or>
    ret = 0 \<and> (\<exists>p v. mmz tr (u32 (n + off)) = (0, p, v) \<and> tr' = tr @ [Mmz_alloc p v (u32 (n + off))] \<and>
      mem' = \<lparr>m_phy = u64 (p + off), m_vir = u64 (v + off), m_size = n\<rparr>)"
  using assms by (auto simp: CreateMemInfo_def MmzAlloc_def Let_def split: prod.splits if_splits)

text \<open>The addresses of a block plus an offset inside it come back when the offset is taken off.\<close>

lemma address_back:
  assumes "0 < p" "0 < v" "0 \<le> off" "p + off < 18446744073709551616" "v + off < 4294967296"
  shows "u64 (u64 (p + off) - off) = p" "u32 (u64 (v + off) - off) = v" "u64 (p + off) \<noteq> 0" "u64 (v + off) \<noteq> 0"
  using assms by (simp_all add: u64_def u32_def)

text \<open>
  A buffer that \<open>SAMPLE_COMM_SVP_CreateMemInfo\<close> created is given back by
  \<open>SAMPLE_COMM_SVP_DestroyMemInfo\<close> with the same offset: exactly the block that was allocated
  is freed, nothing else, and the descriptor no longer points to it.
\<close>

lemma mem_info_create_destroy:
  assumes "mmz_sound mmz" "live tr = Some bs" "0 \<le> n" "0 \<le> off" "n + off < 4294967296"
    and "CreateMemInfo mmz mem n off tr = (0, mem', tr')" "DestroyMemInfo mem' off tr' = (mem'', tr'')"
  shows "live tr'' = Some bs \<and> m_phy mem'' = 0 \<and> m_vir mem'' = 0 \<and>
    (\<exists>p v. live tr' = Some ((p, v, n + off) # bs) \<and> m_phy mem' = p + off \<and> m_vir mem' = v + off)"
proof -
  have e: "u32 (n + off) = n + off" using assms(3-5) by (simp add: u32_id in_u32_def)
  from CreateMemInfo_cases [OF assms(6)] obtain p v where pv: "mmz tr (n + off) = (0, p, v)"
    "tr' = tr @ [Mmz_alloc p v (n + off)]" "mem' = \<lparr>m_phy = u64 (p + off), m_vir = u64 (v + off), m_size = n\<rparr>"
    by (auto simp: e)
  have s: "0 < p" "0 < v" "p + off < 18446744073709551616" "v + off < 4294967296"
    using assms(1,3) pv(1) unfolding mmz_sound_def by fastforce+
  note a = address_back [OF s(1,2) assms(4) s(3,4)]
  have "tr'' = tr @ [Mmz_alloc p v (n + off), Mmz_free p v]" "m_phy mem'' = 0" "m_vir mem'' = 0"
    using assms(7) a by (auto simp: DestroyMemInfo_def pv)
  then show ?thesis using live_alloc_free [OF assms(2)] assms(2,4) s pv
    by (auto simp: live_append u64_def)
qed

lemma mem_info_create_destroy_witness:
  "\<exists>mem' tr' mem'' tr''. CreateMemInfo bump_mmz \<lparr>m_phy = 0, m_vir = 0, m_size = 0\<rparr> 100 16 [] = (0, mem', tr') \<and>
     DestroyMemInfo mem' 16 tr' = (mem'', tr'') \<and> live tr'' = Some []"
proof -
  obtain mem' tr' where c: "CreateMemInfo bump_mmz \<lparr>m_phy = 0, m_vir = 0, m_size = 0\<rparr> 100 16 [] = (0, mem', tr')"
    by (simp add: CreateMemInfo_def MmzAlloc_def bump_mmz_def u32_def Let_def)
  obtain mem'' tr'' where d: "DestroyMemInfo mem' 16 tr' = (mem'', tr'')" by fastforce
  have "live tr'' = Some []"
    using mem_info_create_destroy [OF bump_mmz_sound _ _ _ _ c d, of "[]"] by (simp add: live_def)
  then show ?thesis using c d by blast
qed

text \<open>
  The bytes the planes of an image of each type take: the plane, and its length for the strides
  \<open>s0\<close>, \<open>s1\<close> and \<open>h\<close> rows. Packed types have one block.
\<close>

definition plane_bytes :: "svp_image_type \<Rightarrow> int \<Rightarrow> int \<Rightarrow> int \<Rightarrow> (nat \<times> int) list" where
  "plane_bytes ty s0 s1 h =
     (case ty of
        U8C1 \<Rightarrow> [(0, s0 * h)] | S8C1 \<Rightarrow> [(0, s0 * h)]
      | YUV420SP \<Rightarrow> [(0, s0 * h), (1, s0 * (h div 2))]
      | YUV422SP \<Rightarrow> [(0, s0 * h), (1, s0 * h)]
      | YUV420P \<Rightarrow> [(0, s0 * h), (1, s1 * (h div 2)), (2, s1 * (h div 2))]
      | YUV422P \<Rightarrow> [(0, s0 * h), (1, s1 * h), (2, s1 * h)]
      | S8C2_PACKAGE \<Rightarrow> [(0, 2 * (s0 * h))]
      | S8C2_PLANAR \<Rightarrow> [(0, s0 * h), (1, s0 * h)]
      | S16C1 \<Rightarrow> [(0, 2 * (s0 * h))] | U16C1 \<Rightarrow> [(0, 2 * (s0 * h))]
      | U8C3_PACKAGE \<Rightarrow> [(0, 3 * (s0 * h))]
      | U8C3_PLANAR \<Rightarrow> [(0, s0 * h), (1, s0 * h), (2, s0 * h)]
      | S32C1 \<Rightarrow> [(0, 4 * (s0 * h))] | U32C1 \<Rightarrow> [(0, 4 * (s0 * h))]
      | S64C1 \<Rightarrow> [(0, 8 * (s0 * h))] | U64C1 \<Rightarrow> [(0, 8 * (s0 * h))]
      | IMAGE_TYPE_BUTT \<Rightarrow> [])"

text \<open>Consecutive extents that do not overlap, from \<open>lo\<close> up to at most \<open>hi\<close>.\<close>

fun fits :: "int \<Rightarrow> (int \<times> int) list \<Rightarrow> int \<Rightarrow> bool" where
  "fits lo [] hi \<longleftrightarrow> lo \<le> hi"
| "fits lo ((a, n) # es) hi \<longleftrightarrow> lo \<le> a \<and> 0 \<le> n \<and> fits (a + n) es hi"

definition image_extents :: "int list \<Rightarrow> (nat \<times> int) list \<Rightarrow> (int \<times> int) list" where
  "image_extents addrs ps = map (\<lambda>(k, n). (addrs ! k, n)) ps"

text \<open>The size of the block and the starts of the planes, for \<open>A = s0 * h\<close> and \<open>B = s1 * h\<close>.\<close>

definition image_size :: "svp_image_type \<Rightarrow> int \<Rightarrow> int \<Rightarrow> int" where
  "image_size ty A B =
     (case ty of
        YUV420SP \<Rightarrow> A * 3 div 2 | YUV422SP \<Rightarrow> A * 2 | YUV420P \<Rightarrow> A + B
      | YUV422P \<Rightarrow> A + B * 2 | S8C2_PACKAGE \<Rightarrow> A * 2 | S8C2_PLANAR \<Rightarrow> A * 2
      | S16C1 \<Rightarrow> A * 2 | U16C1 \<Rightarrow> A * 2 | U8C3_PACKAGE \<Rightarrow> A * 3 | U8C3_PLANAR \<Rightarrow> A * 3
      | S32C1 \<Rightarrow> A * 4 | U32C1 \<Rightarrow> A * 4 | S64C1 \<Rightarrow> A * 8 | U64C1 \<Rightarrow> A * 8
      | _ \<Rightarrow> A)"

definition img_shape :: "svp_image \<Rightarrow> bool" where
  "img_shape i \<longleftrightarrow> length (im_phy i) = 3 \<and> length (im_vir i) = 3 \<and> length (im_stride i) = 3"

definition plane_starts :: "svp_image_type \<Rightarrow> int \<Rightarrow> int \<Rightarrow> int list" where
  "plane_starts ty A B =
     (case ty of
        YUV420SP \<Rightarrow> [0, A] | YUV422SP \<Rightarrow> [0, A] | S8C2_PLANAR \<Rightarrow> [0, A]
      | YUV420P \<Rightarrow> [0, A, A + B div 2] | YUV422P \<Rightarrow> [0, A, A + B]
      | S8C2_PACKAGE \<Rightarrow> [0, 1] | U8C3_PACKAGE \<Rightarrow> [0, 1, 2] | U8C3_PLANAR \<Rightarrow> [0, A, A + A]
      | _ \<Rightarrow> [0])"

lemma on_ok_zero: "on_ok f r = (0, i, tr) \<longleftrightarrow> (\<exists>j. r = (0, j, tr) \<and> i = f j)"
  by (auto simp: on_ok_def split: prod.splits if_splits)

lemma image_alloc_zero:
  "image_alloc mmz n off img tr = (0, i, tr') \<longleftrightarrow>
     (\<exists>p v. mmz tr n = (0, p, v) \<and> tr' = tr @ [Mmz_alloc p v n] \<and>
        i = img\<lparr>im_phy := (im_phy img)[0 := u64 (p + off)], im_vir := (im_vir img)[0 := u64 (v + off)]\<rparr>)"
  by (auto simp: image_alloc_def MmzAlloc_def Let_def split: prod.splits if_splits)

lemma length_3_cases: "length xs = 3 \<Longrightarrow> \<exists>a b c. xs = [a, b, c]"
  by (auto simp: numeral_3_eq_3 length_Suc_conv)

lemmas plane_defs = next_plane_def set_stride_def

text \<open>
  \<open>CreateImage\<close> in three parts: the strides set before the allocation, the size, and the
  planes set after it.
\<close>

definition image_pre :: "svp_image_type \<Rightarrow> int \<Rightarrow> svp_image \<Rightarrow> svp_image" where
  "image_pre ty s1 i = (if ty = YUV420P \<or> ty = YUV422P then set_stride 2 s1 (set_stride 1 s1 i) else i)"

definition image_planes :: "svp_image_type \<Rightarrow> int \<Rightarrow> int \<Rightarrow> int \<Rightarrow> int \<Rightarrow> svp_image \<Rightarrow> svp_image" where
  "image_planes ty s0 A A' B i =
     (case ty of
        YUV420SP \<Rightarrow> next_plane 1 A (set_stride 1 s0 i)
      | YUV422SP \<Rightarrow> next_plane 1 A (set_stride 1 s0 i)
      | YUV420P \<Rightarrow> next_plane 2 (B div 2) (next_plane 1 A i)
      | YUV422P \<Rightarrow> next_plane 2 B (next_plane 1 A i)
      | S8C2_PACKAGE \<Rightarrow> next_plane 1 1 (set_stride 1 s0 i)
      | S8C2_PLANAR \<Rightarrow> next_plane 1 A (set_stride 1 s0 i)
      | U8C3_PACKAGE \<Rightarrow> next_plane 2 1 (next_plane 1 1 (set_stride 2 s0 (set_stride 1 s0 i)))
      | U8C3_PLANAR \<Rightarrow> next_plane 2 A' (next_plane 1 A' (set_stride 2 s0 (set_stride 1 s0 i)))
      | _ \<Rightarrow> i)"

lemma on_ok_id [simp]: "on_ok (\<lambda>i. i) r = r"
  by (simp add: on_ok_def split: prod.split)

lemma image_size_bounds:
  assumes "0 \<le> A" "0 \<le> B"
  shows "A \<le> image_size ty A B" "image_size ty A B \<le> 8 * A + 2 * B"
  using assms by (cases ty; simp add: image_size_def; linarith)+

lemma CreateImage_parts:
  assumes "ty \<noteq> IMAGE_TYPE_BUTT" and s: "s0 = Svp_Align w 16" "s1 = Svp_Align (w div 2) 16"
    and u: "u32 (s0 * h * 3) = s0 * h * 3"
  shows "CreateImage mmz img ty w h off tr =
    on_ok (image_planes ty s0 (u32 (s0 * h)) (s0 * h) (u32 (s1 * h)))
      (image_alloc mmz (u32 (image_size ty (s0 * h) (s1 * h) + off)) off
        (image_pre ty s1 (set_stride 0 s0 (img\<lparr>im_type := ty, im_width := w, im_height := h\<rparr>))) tr)"
  using assms(1) u unfolding CreateImage_def s [symmetric] Let_def
  by (cases ty) (simp_all add: image_size_def image_planes_def [abs_def] image_pre_def)

lemma u64_id: "0 \<le> x \<Longrightarrow> x < 18446744073709551616 \<Longrightarrow> u64 x = x"
  by (simp add: u64_def)

lemma image_planes_addrs:
  assumes "im_phy i = [P, b, c]" "im_vir i = [V, b', c']" "0 \<le> A" "0 \<le> B" "0 \<le> P" "0 \<le> V"
    "P + image_size ty A B < 18446744073709551614" "V + image_size ty A B < 18446744073709551614"
  shows "take (length (plane_starts ty A B)) (im_phy (image_planes ty s0 A A B i)) = map ((+) P) (plane_starts ty A B)"
    "take (length (plane_starts ty A B)) (im_vir (image_planes ty s0 A A B i)) = map ((+) V) (plane_starts ty A B)"
proof -
  have P: "u64 (P + d) = P + d" "u64 (V + d) = V + d" if "0 \<le> d" "d \<le> image_size ty A B + 2" for d
    using that assms by (auto intro!: u64_id)
  have P2: "u64 (P + d + e) = P + (d + e)" "u64 (V + d + e) = V + (d + e)" if "0 \<le> d + e" "d + e \<le> image_size ty A B + 2" for d e
    using P [OF that] by (simp_all add: add.assoc)
  have P3: "u64 (d + P) = P + d" "u64 (d + V) = V + d" if "0 \<le> d" "d \<le> image_size ty A B + 2" for d
    using P [OF that] by (simp_all add: add.commute)
  show "take (length (plane_starts ty A B)) (im_phy (image_planes ty s0 A A B i)) = map ((+) P) (plane_starts ty A B)"
    using assms(1,3,4)
    by (cases ty) (simp_all add: image_planes_def plane_defs plane_starts_def image_size_def P P2 P3 numeral_2_eq_2)
  show "take (length (plane_starts ty A B)) (im_vir (image_planes ty s0 A A B i)) = map ((+) V) (plane_starts ty A B)"
    using assms(2,3,4)
    by (cases ty) (simp_all add: image_planes_def plane_defs plane_starts_def image_size_def P P2 P3 numeral_2_eq_2)
qed

lemma fits_planes:
  assumes "0 \<le> s0" "0 \<le> s1" "0 \<le> h"
    "take (length (plane_starts ty (s0 * h) (s1 * h))) addrs = map ((+) P) (plane_starts ty (s0 * h) (s1 * h))"
    "ty \<noteq> IMAGE_TYPE_BUTT"
  shows "fits P (image_extents addrs (plane_bytes ty s0 s1 h)) (P + image_size ty (s0 * h) (s1 * h))"
proof -
  define A where "A = s0 * h"
  define B where "B = s1 * h"
  define A2 where "A2 = s0 * (h div 2)"
  define B2 where "B2 = s1 * (h div 2)"
  have half: "0 \<le> x * (h div 2) \<and> 2 * (x * (h div 2)) \<le> x * h" if "0 \<le> x" for x
  proof -
    have "x * (2 * (h div 2)) \<le> x * h" using that by (intro mult_left_mono) auto
    then show ?thesis using that assms(3) by (simp add: algebra_simps)
  qed
  have h: "0 \<le> A" "0 \<le> B" "0 \<le> A2" "0 \<le> B2" "2 * A2 \<le> A" "2 * B2 \<le> B"
    using half [OF assms(1)] half [OF assms(2)] assms(1-3) by (simp_all add: A_def B_def A2_def B2_def)
  have nth: "addrs ! k = P + plane_starts ty A B ! k" if "k < length (plane_starts ty A B)" for k
  proof -
    have "addrs ! k = take (length (plane_starts ty A B)) addrs ! k" using that by simp
    also have "\<dots> = P + plane_starts ty A B ! k"
      using assms(4) that by (simp add: A_def B_def)
    finally show ?thesis .
  qed
  have n0: "addrs ! 0 = P + plane_starts ty A B ! 0" by (rule nth) (cases ty; simp add: plane_starts_def)
  have d: "A + A2 \<le> A * 3 div 2" "B2 \<le> B div 2" "B div 2 + B2 \<le> B" using h by presburger+
  show ?thesis
    using h d n0 nth [of 1] nth [of 2] assms(5)
    unfolding plane_bytes_def A_def [symmetric] B_def [symmetric] A2_def [symmetric] B2_def [symmetric]
    by (cases ty; simp add: image_extents_def image_size_def plane_starts_def)
qed

lemma CreateImage_ok:
  assumes c: "CreateImage mmz img ty w h off tr = (0, i, tr')" and ty: "ty \<noteq> IMAGE_TYPE_BUTT"
    and sh: "img_shape img" and s: "s0 = Svp_Align w 16" "s1 = Svp_Align (w div 2) 16"
    and pos: "0 \<le> s0 * h" "0 \<le> s1 * h" "0 \<le> off"
    and small: "8 * (s0 * h) + 2 * (s1 * h) + off < 4294967296" and snd: "mmz_sound mmz"
  shows "\<exists>p v. mmz tr (image_size ty (s0 * h) (s1 * h) + off) = (0, p, v) \<and>
      tr' = tr @ [Mmz_alloc p v (image_size ty (s0 * h) (s1 * h) + off)] \<and>
      take (length (plane_starts ty (s0 * h) (s1 * h))) (im_phy i) = map ((+) (p + off)) (plane_starts ty (s0 * h) (s1 * h)) \<and>
      take (length (plane_starts ty (s0 * h) (s1 * h))) (im_vir i) = map ((+) (v + off)) (plane_starts ty (s0 * h) (s1 * h))"
proof -
  define A where "A = s0 * h"
  define B where "B = s1 * h"
  let ?n = "image_size ty A B"
  have A: "0 \<le> A" "0 \<le> B" "8 * A + 2 * B + off < 4294967296" using pos small by (simp_all add: A_def B_def)
  note n = image_size_bounds [OF A(1,2), of ty]
  have u: "u32 (A * 3) = A * 3" "u32 A = A" "u32 B = B" "u32 (?n + off) = ?n + off"
    using A n pos(3) by (auto intro!: u32_id simp: in_u32_def)
  define i0 where "i0 = image_pre ty s1 (set_stride 0 s0 (img\<lparr>im_type := ty, im_width := w, im_height := h\<rparr>))"
  have l: "\<exists>a b c. im_phy i0 = [a, b, c]" "\<exists>a b c. im_vir i0 = [a, b, c]"
    by (rule length_3_cases, use sh in \<open>simp add: i0_def image_pre_def set_stride_def img_shape_def\<close>)+
  have "on_ok (image_planes ty s0 A A B) (image_alloc mmz (?n + off) off i0 tr) = (0, i, tr')"
    using c u unfolding CreateImage_parts [OF ty s u(1) [unfolded A_def]] A_def [symmetric] B_def [symmetric] i0_def [symmetric]
    by simp
  then obtain p v where pv: "mmz tr (?n + off) = (0, p, v)" "tr' = tr @ [Mmz_alloc p v (?n + off)]"
    "i = image_planes ty s0 A A B (i0\<lparr>im_phy := (im_phy i0)[0 := u64 (p + off)], im_vir := (im_vir i0)[0 := u64 (v + off)]\<rparr>)"
    by (auto simp: on_ok_zero image_alloc_zero)
  have b: "0 < p" "0 < v" "p + (?n + off) < 18446744073709551614" "v + (?n + off) < 4294967296"
  proof -
    show "0 < p" "0 < v" "v + (?n + off) < 4294967296"
      using snd pv(1) unfolding mmz_sound_def by blast+
    show "p + (?n + off) < 18446744073709551614"
      using snd pv(1) unfolding mmz_sound_def by fastforce
  qed
  have u6: "u64 (p + off) = p + off" "u64 (v + off) = v + off"
    using b n A pos(3) by (auto intro!: u64_id)
  show ?thesis
    using l image_planes_addrs [of "i0\<lparr>im_phy := (im_phy i0)[0 := p + off], im_vir := (im_vir i0)[0 := v + off]\<rparr>"
        "p + off" _ _ "v + off" _ _ A B ty s0] A b pos(3) pv
    unfolding A_def [symmetric] B_def [symmetric] u6 by auto
qed

text \<open>
  An image that \<open>SAMPLE_COMM_SVP_CreateImage\<close> created, of any type, has its planes one after
  the other inside the block that was allocated for it, in both address spaces, and never
  overlapping, as long as the size computation stays below 32 bits; \<open>SAMPLE_COMM_SVP_DestroyImage\<close>
  with the same offset then frees exactly that block.
\<close>

lemma image_planes_inside:
  assumes "CreateImage mmz img ty w h off tr = (0, i, tr')" "ty \<noteq> IMAGE_TYPE_BUTT" "img_shape img"
    and "mmz_sound mmz" "live tr = Some bs" "0 \<le> w" "w < 4294967279" "0 \<le> h" "0 \<le> off"
    and "10 * (Svp_Align w 16 * h) + off < 4294967296"
  shows "\<exists>p v n. live tr' = Some ((p, v, n) # bs) \<and>
      fits (p + off) (image_extents (im_phy i) (plane_bytes ty (Svp_Align w 16) (Svp_Align (w div 2) 16) h)) (p + n) \<and>
      fits (v + off) (image_extents (im_vir i) (plane_bytes ty (Svp_Align w 16) (Svp_Align (w div 2) 16) h)) (v + n) \<and>
      live (snd (DestroyImage i off tr')) = Some bs"
proof -
  let ?s0 = "Svp_Align w 16" and ?s1 = "Svp_Align (w div 2) 16"
  have s0: "0 \<le> ?s0" "w \<le> ?s0" using Svp_Align_ge [of w 16] assms(6,7) by simp_all
  have s1: "0 \<le> ?s1" "?s1 < w div 2 + 16" "16 dvd ?s1" "16 dvd ?s0"
  proof -
    have h: "0 \<le> w div 2" "w div 2 + 16 \<le> 4294967296" using assms(6,7) by auto
    show "0 \<le> ?s1" "?s1 < w div 2 + 16" "16 dvd ?s1" using Svp_Align_ge [OF h(1) _ h(2)] h(1) by auto
    show "16 dvd ?s0" using Svp_Align_ge [of w 16] assms(6,7) by simp
  qed
  have "?s1 \<le> ?s0" using s0 s1 assms(6) by (auto elim!: dvdE)
  then have B: "?s1 * h \<le> ?s0 * h" "0 \<le> ?s1 * h" "0 \<le> ?s0 * h"
    using assms(8) s0 s1 by (auto intro: mult_right_mono)
  let ?n = "image_size ty (?s0 * h) (?s1 * h)"
  have small: "8 * (?s0 * h) + 2 * (?s1 * h) + off < 4294967296" using B assms(10) by linarith
  obtain p v where pv: "mmz tr (?n + off) = (0, p, v)" "tr' = tr @ [Mmz_alloc p v (?n + off)]"
    "take (length (plane_starts ty (?s0 * h) (?s1 * h))) (im_phy i) = map ((+) (p + off)) (plane_starts ty (?s0 * h) (?s1 * h))"
    "take (length (plane_starts ty (?s0 * h) (?s1 * h))) (im_vir i) = map ((+) (v + off)) (plane_starts ty (?s0 * h) (?s1 * h))"
    using CreateImage_ok [OF assms(1-3) refl refl B(3,2) assms(9) small assms(4)] by blast
  have f: "fits (p + off) (image_extents (im_phy i) (plane_bytes ty ?s0 ?s1 h)) (p + off + ?n)"
    "fits (v + off) (image_extents (im_vir i) (plane_bytes ty ?s0 ?s1 h)) (v + off + ?n)"
    using fits_planes [OF s0(1) s1(1) assms(8) pv(3) assms(2)] fits_planes [OF s0(1) s1(1) assms(8) pv(4) assms(2)] .
  have b: "0 < p" "0 < v" "p + (?n + off) < 9223372036854775808" "v + (?n + off) < 4294967296"
    using assms(4) pv(1) unfolding mmz_sound_def by blast+
  have n0: "0 \<le> ?n" using image_size_bounds [OF B(3,2), of ty] B by linarith
  have hd: "im_phy i ! 0 = p + off" "im_vir i ! 0 = v + off"
  proof -
    have s: "\<exists>xs. plane_starts ty (?s0 * h) (?s1 * h) = 0 # xs" by (cases ty) (simp_all add: plane_starts_def)
    then show "im_phy i ! 0 = p + off" "im_vir i ! 0 = v + off"
      using pv(3,4) by (cases "im_phy i"; cases "im_vir i"; auto)+
  qed
  have "u64 (p + off - off) = p" "u32 (v + off - off) = v"
    using b n0 assms(9) by (simp_all add: u64_def u32_def)
  then have "snd (DestroyImage i off tr') = tr @ [Mmz_alloc p v (?n + off), Mmz_free p v]"
    using hd b assms(9) pv(2) by (simp add: DestroyImage_def)
  then have "live (snd (DestroyImage i off tr')) = Some bs"
    using live_alloc_free [OF assms(5)] by simp
  moreover have "live tr' = Some ((p, v, ?n + off) # bs)" using assms(5) pv(2) by (simp add: live_append)
  moreover have "p + off + ?n = p + (?n + off)" "v + off + ?n = v + (?n + off)" by simp_all
  ultimately show ?thesis using f by metis
qed

lemma image_planes_inside_witness:
  "\<exists>i tr'. CreateImage bump_mmz zero_image YUV420SP 100 10 16 [] = (0, i, tr') \<and>
     live (snd (DestroyImage i 16 tr')) = Some []"
proof -
  obtain ret i tr' where r: "CreateImage bump_mmz zero_image YUV420SP 100 10 16 [] = (ret, i, tr')"
    by (metis prod_cases3)
  have "fst (CreateImage bump_mmz zero_image YUV420SP 100 10 16 []) = 0" by code_simp
  then have r0: "CreateImage bump_mmz zero_image YUV420SP 100 10 16 [] = (0, i, tr')" using r by simp
  have "live (snd (DestroyImage i 16 tr')) = Some []"
    using image_planes_inside [OF r0 _ _ bump_mmz_sound, of "[]"]
    by (auto simp: live_def img_shape_def zero_image_def Svp_Align_def u32_def)
  then show ?thesis using r0 by blast
qed

end
