(* ===== verification/Svp_Gen.thy ===== *)
theory Svp_Gen
  imports Svp_Mem
begin

text \<open>
  Test pictures and the start of the media system (common/sdk2v0/sample_comm_svp.c):
  \<open>SAMPLE_COMM_SVP_GenRandS32\<close>, \<open>SAMPLE_COMM_SVP_GenImage\<close>, \<open>SAMPLE_COMM_SVP_CheckSysInit\<close>, \<open>_CheckSysExit\<close>.

  \<open>rand\<close> of the C library is a parameter: \<open>rnd k\<close> is what its \<open>k\<close>-th call returns. Where one
  expression calls it more than once, the calls are taken from left to right. A picture is the list of
  stores in program order: the address, the bytes of the element, the value. Pointers have 32 bits.
\<close>

section \<open>Random pixels\<close>

definition GenRandS32 :: "int \<Rightarrow> int \<Rightarrow> int \<Rightarrow> int" where
  "GenRandS32 r mx mn =
     (if 0 \<le> mn then s32 (mn + u32 r mod u32 (mx - mn + 1))
      else let t = s32 (u32 r mod u32 (mx - mn + 1)) in if mx < t then mx - t else t)"

type_synonym pixel_gen = "(nat \<Rightarrow> int) \<Rightarrow> nat \<Rightarrow> int \<times> nat"

definition gen_u8 :: pixel_gen where
  "gen_u8 rnd k = (GenRandS32 (rnd k) 255 0 mod 256, k + 1)"

definition gen_s8 :: pixel_gen where
  "gen_s8 rnd k = ((GenRandS32 (rnd k) 127 (-128) + 128) mod 256 - 128, k + 1)"

definition gen_u16 :: pixel_gen where
  "gen_u16 rnd k = (GenRandS32 (rnd k) 65535 0 mod 65536, k + 1)"

definition gen_s16 :: pixel_gen where
  "gen_s16 rnd k = ((GenRandS32 (rnd k) 32767 (-32768) + 32768) mod 65536 - 32768, k + 1)"

definition gen_s32 :: pixel_gen where
  "gen_s32 rnd k = (GenRandS32 (rnd k) 2147483646 (-2147483647), k + 1)"

definition gen_u32 :: pixel_gen where
  "gen_u32 rnd k = (u32 (GenRandS32 (rnd k) 65535 0 * GenRandS32 (rnd (k + 1)) 65535 0), k + 2)"

definition gen_s64 :: pixel_gen where
  "gen_s64 rnd k =
     (s32 (GenRandS32 (rnd k) 2147483646 (-2147483647) * GenRandS32 (rnd (k + 1)) 65535 0 * GenRandS32 (rnd (k + 2)) 65535 0), k + 3)"

definition gen_u64 :: pixel_gen where
  "gen_u64 rnd k =
     (u64 (GenRandS32 (rnd k) 65535 0 * GenRandS32 (rnd (k + 1)) 65535 0 * GenRandS32 (rnd (k + 2)) 65535 0
        * GenRandS32 (rnd (k + 3)) 65535 0), k + 4)"

section \<open>Pictures\<close>

type_synonym stores = "(int \<times> int \<times> int) list"

fun gen_line :: "(nat \<Rightarrow> int \<times> nat) \<Rightarrow> int \<Rightarrow> int \<Rightarrow> nat \<Rightarrow> nat \<Rightarrow> stores \<times> nat" where
  "gen_line g esz a 0 k = ([], k)"
| "gen_line g esz a (Suc n) k =
     (let (v, k1) = g k; (ws, k2) = gen_line g esz (u32 (a + esz)) n k1 in ((a, esz, v) # ws, k2))"

fun gen_rows :: "(nat \<Rightarrow> int \<times> nat) \<Rightarrow> int \<Rightarrow> int \<Rightarrow> nat \<Rightarrow> int \<Rightarrow> nat \<Rightarrow> nat \<Rightarrow> stores \<times> nat" where
  "gen_rows g esz step w a 0 k = ([], k)"
| "gen_rows g esz step w a (Suc h) k =
     (let (ws1, k1) = gen_line g esz a w k; (ws2, k2) = gen_rows g esz step w (u32 (a + step)) h k1 in (ws1 @ ws2, k2))"

text \<open>The planes one after the other: the address, the bytes to the next line, the elements of a line, the lines.\<close>

fun gen_planes :: "(nat \<Rightarrow> int \<times> nat) \<Rightarrow> int \<Rightarrow> (int \<times> int \<times> int \<times> int) list \<Rightarrow> nat \<Rightarrow> stores \<times> nat" where
  "gen_planes g esz [] k = ([], k)"
| "gen_planes g esz ((a, step, w, h) # ps) k =
     (let (ws1, k1) = gen_rows g esz step (nat w) a (nat h) k; (ws2, k2) = gen_planes g esz ps k1 in (ws1 @ ws2, k2))"

definition GenImage :: "(nat \<Rightarrow> int) \<Rightarrow> int list \<Rightarrow> int list \<Rightarrow> svp_image_type \<Rightarrow> int \<Rightarrow> int \<Rightarrow> stores" where
  "GenImage rnd buf st ty w h =
     (let b0 = u32 (buf ! 0); b1 = u32 (buf ! 1); b2 = u32 (buf ! 2); s0 = st ! 0; s1 = st ! 1; s2 = st ! 2
      in fst (case ty of
        U8C1 \<Rightarrow> gen_planes (gen_u8 rnd) 1 [(b0, s0, w, h)] 0
      | S8C1 \<Rightarrow> gen_planes (gen_s8 rnd) 1 [(b0, s0, w, h)] 0
      | YUV420SP \<Rightarrow> gen_planes (gen_u8 rnd) 1 [(b0, s0, w, h), (b1, s1, w, h div 2)] 0
      | YUV422SP \<Rightarrow> gen_planes (gen_u8 rnd) 1 [(b0, s0, w, h), (b1, s1, w, h)] 0
      | YUV420P \<Rightarrow> gen_planes (gen_u8 rnd) 1
          [(b0, s0, w, h), (b1, s1, w div 2, h div 2), (b2, s2, w div 2, h div 2)] 0
      | YUV422P \<Rightarrow> gen_planes (gen_u8 rnd) 1 [(b0, s0, w, h), (b1, s1, w div 2, h), (b2, s2, w div 2, h)] 0
      | S8C2_PACKAGE \<Rightarrow> gen_planes (gen_s8 rnd) 1 [(b0, s0, u32 (w + w), h)] 0
      | S8C2_PLANAR \<Rightarrow> gen_planes (gen_s8 rnd) 1 [(b0, s0, w, h), (b1, s1, w, h)] 0
      | S16C1 \<Rightarrow> gen_planes (gen_s16 rnd) 2 [(b0, s0, w, h)] 0
      | U16C1 \<Rightarrow> gen_planes (gen_u16 rnd) 2 [(b0, s0, w, h)] 0
      | U8C3_PACKAGE \<Rightarrow> gen_planes (gen_u8 rnd) 1 [(b0, s0, u32 (w * 3), h)] 0
      | U8C3_PLANAR \<Rightarrow> gen_planes (gen_u8 rnd) 1 [(b0, s0, w, h), (b1, s1, w, h), (b2, s2, w, h)] 0
      | S32C1 \<Rightarrow> gen_planes (gen_s32 rnd) 4 [(b0, s0 * 4, w, h)] 0
      | U32C1 \<Rightarrow> gen_planes (gen_u32 rnd) 4 [(b0, s0 * 4, w, h)] 0
      | S64C1 \<Rightarrow> gen_planes (gen_s64 rnd) 8 [(b0, s0 * 8, w, h)] 0
      | U64C1 \<Rightarrow> gen_planes (gen_u64 rnd) 8 [(b0, s0 * 8, w, h)] 0
      | IMAGE_TYPE_BUTT \<Rightarrow> ([], 0)))"

section \<open>Starting and leaving the media system\<close>

text \<open>
  The calls of the media library; \<open>mpi\<close> is what a call returns, given all calls up to and including
  it. \<open>None\<close>: the process has exited.
\<close>

datatype sys_call = Sys_exit | Vb_exit | Vb_set_config | Vb_init | Sys_init

definition SysInit :: "(sys_call list \<Rightarrow> int) \<Rightarrow> sys_call list \<Rightarrow> int \<times> sys_call list" where
  "SysInit mpi tr =
     (let tr1 = tr @ [Sys_exit, Vb_exit, Vb_set_config]
      in if mpi tr1 \<noteq> 0 then (mpi tr1, tr1)
         else let tr2 = tr1 @ [Vb_init]
         in if mpi tr2 \<noteq> 0 then (mpi tr2, tr2)
         else let tr3 = tr2 @ [Sys_init] in (mpi tr3, tr3))"

definition SysExit :: "(sys_call list \<Rightarrow> int) \<Rightarrow> sys_call list \<Rightarrow> int \<times> sys_call list" where
  "SysExit mpi tr =
     (let tr1 = tr @ [Sys_exit]
      in if mpi tr1 \<noteq> 0 then (mpi tr1, tr1)
         else let tr2 = tr1 @ [Vb_exit] in (mpi tr2, tr2))"

definition CheckSysInit :: "(sys_call list \<Rightarrow> int) \<Rightarrow> bool \<times> sys_call list \<Rightarrow> (bool \<times> sys_call list) option" where
  "CheckSysInit mpi s =
     (case s of (started, tr) \<Rightarrow>
        if started then Some s
        else let (ret, tr1) = SysInit mpi tr in if ret \<noteq> 0 then None else Some (True, tr1))"

definition CheckSysExit :: "(sys_call list \<Rightarrow> int) \<Rightarrow> bool \<times> sys_call list \<Rightarrow> bool \<times> sys_call list" where
  "CheckSysExit mpi s =
     (case s of (started, tr) \<Rightarrow> if started then (False, snd (SysExit mpi tr)) else s)"

section \<open>What is drawn, and where\<close>

lemma gen_line_at:
  assumes "0 < esz" "0 \<le> a" "a + int n * esz < 4294967296"
  shows "map (\<lambda>(b, e, v). (b, e)) (fst (gen_line g esz a n k)) = map (\<lambda>j. (a + int j * esz, esz)) [0..<n]"
  using assms
proof (induction n arbitrary: a k)
  case 0
  then show ?case by simp
next
  case (Suc n)
  have le: "0 \<le> int n * esz" using Suc.prems(1) by simp
  have s: "a + esz + int n * esz < 4294967296" using Suc.prems(3) by (simp add: algebra_simps)
  then have u: "u32 (a + esz) = a + esz" using Suc.prems(1,2) le by (intro u32_id) (unfold in_u32_def, linarith)
  have "map (\<lambda>j. (a + int j * esz, esz)) [0..<Suc n] = (a, esz) # map (\<lambda>j. (a + esz + int j * esz, esz)) [0..<n]"
    unfolding upt_conv_Cons [OF zero_less_Suc] map_Suc_upt [symmetric] by (simp add: algebra_simps comp_def del: upt_Suc)
  moreover obtain v k1 where g: "g k = (v, k1)" by fastforce
  moreover obtain ws k2 where "gen_line g esz (a + esz) n k1 = (ws, k2)" by fastforce
  ultimately show ?case using Suc.IH [of "a + esz" k1] Suc.prems(1,2) s by (simp add: u del: upt_Suc)
qed

text \<open>The places of the elements of a plane, line by line.\<close>

definition cells :: "int \<Rightarrow> int \<times> int \<times> int \<times> int \<Rightarrow> (int \<times> int) list" where
  "cells esz p = (case p of (a, step, w, h) \<Rightarrow>
     concat (map (\<lambda>i. map (\<lambda>j. (a + int i * step + int j * esz, esz)) [0..<nat w]) [0..<nat h]))"

text \<open>The end of the last line.\<close>

definition plane_end :: "int \<Rightarrow> int \<times> int \<times> int \<times> int \<Rightarrow> int" where
  "plane_end esz p = (case p of (a, step, w, h) \<Rightarrow> if h \<le> 0 then a else a + (h - 1) * step + w * esz)"

lemma gen_rows_at:
  assumes "0 < esz" "0 \<le> a" "0 \<le> step" "0 < h \<Longrightarrow> a + (int h - 1) * step + int w * esz < 4294967296"
  shows "map (\<lambda>(b, e, v). (b, e)) (fst (gen_rows g esz step w a h k)) =
    concat (map (\<lambda>i. map (\<lambda>j. (a + int i * step + int j * esz, esz)) [0..<w]) [0..<h])"
  using assms
proof (induction h arbitrary: a k)
  case 0
  then show ?case by simp
next
  case (Suc h)
  have le: "0 \<le> int h * step" "0 \<le> int w * esz" using Suc.prems(1,3) by simp_all
  have e: "a + int h * step + int w * esz < 4294967296" using Suc.prems(4) by simp
  then have l: "a + int w * esz < 4294967296" using le by linarith
  obtain ws1 k1 where r1: "gen_line g esz a w k = (ws1, k1)" by fastforce
  obtain ws2 k2 where r2: "gen_rows g esz step w (u32 (a + step)) h k1 = (ws2, k2)" by fastforce
  have ws2: "map (\<lambda>(b, e, v). (b, e)) ws2 =
      concat (map (\<lambda>i. map (\<lambda>j. (a + step + int i * step + int j * esz, esz)) [0..<w]) [0..<h])"
  proof (cases "h = 0")
    case True
    then show ?thesis using r2 by simp
  next
    case False
    then have "0 \<le> (int h - 1) * step" using Suc.prems(3) by simp
    moreover have s: "a + step + (int h - 1) * step + int w * esz < 4294967296" using e by (simp add: algebra_simps)
    ultimately have u: "u32 (a + step) = a + step"
      using Suc.prems(2,3) le by (intro u32_id) (unfold in_u32_def, linarith)
    show ?thesis using Suc.IH [of "a + step" k1] Suc.prems(1-3) s r2 by (simp add: u)
  qed
  have c: "concat (map (\<lambda>i. map (\<lambda>j. (a + int i * step + int j * esz, esz)) [0..<w]) [0..<Suc h]) =
      map (\<lambda>j. (a + int j * esz, esz)) [0..<w] @
      concat (map (\<lambda>i. map (\<lambda>j. (a + step + int i * step + int j * esz, esz)) [0..<w]) [0..<h])"
    unfolding upt_conv_Cons [OF zero_less_Suc, of h] map_Suc_upt [symmetric] by (simp add: algebra_simps comp_def del: upt_Suc)
  show ?case using gen_line_at [OF Suc.prems(1,2) l, of g k] ws2 unfolding c by (simp add: r1 r2)
qed

lemma gen_planes_at:
  assumes "0 < esz" "list_all (\<lambda>(a, step, w, h). 0 \<le> a \<and> 0 \<le> step \<and> 0 \<le> w) ps"
    and "list_all (\<lambda>p. plane_end esz p < 4294967296) ps"
  shows "map (\<lambda>(b, e, v). (b, e)) (fst (gen_planes g esz ps k)) = concat (map (cells esz) ps)"
  using assms(2,3)
proof (induction ps arbitrary: k)
  case Nil
  then show ?case by simp
next
  case (Cons p ps)
  obtain a step w h where p: "p = (a, step, w, h)" by (metis prod_cases4)
  obtain ws1 k1 where r1: "gen_rows g esz step (nat w) a (nat h) k = (ws1, k1)" by fastforce
  obtain ws2 k2 where r2: "gen_planes g esz ps k1 = (ws2, k2)" by fastforce
  have "a + (int (nat h) - 1) * step + int (nat w) * esz < 4294967296" if "0 < nat h"
    using that Cons.prems by (simp add: p plane_end_def)
  then show ?case
    using gen_rows_at [OF assms(1), of a step "nat h" "nat w" g k] Cons.IH [of k1] Cons.prems
    by (simp add: p r1 r2 cells_def)
qed

lemma cells_inside:
  assumes "0 < esz" "0 \<le> step" "lo \<le> a" "plane_end esz (a, step, w, h) \<le> hi"
  shows "list_all (\<lambda>(b, e). lo \<le> b \<and> b + e \<le> hi) (cells esz (a, step, w, h))"
proof -
  have "lo \<le> a + int i * step + int j * esz \<and> a + int i * step + int j * esz + esz \<le> hi" if "i < nat h" "j < nat w" for i j
  proof -
    have "int i * step \<le> (h - 1) * step" using that assms(2) by (intro mult_right_mono) auto
    moreover have "int j * esz + esz \<le> w * esz"
    proof -
      have "(int j + 1) * esz \<le> w * esz" using that assms(1) by (intro mult_right_mono) auto
      then show ?thesis by (simp add: algebra_simps)
    qed
    moreover have "a + (h - 1) * step + w * esz \<le> hi" using assms(4) that by (auto simp: plane_end_def split: if_splits)
    moreover have "0 \<le> int i * step" "0 \<le> int j * esz" using assms(1,2) by simp_all
    ultimately show ?thesis using assms(3) by linarith
  qed
  then show ?thesis by (auto simp: cells_def list_all_iff)
qed

text \<open>The range of the random numbers.\<close>

lemma GenRandS32_range:
  assumes "0 \<le> mn" "mn \<le> mx" "mx < 2147483647"
  shows "mn \<le> GenRandS32 r mx mn \<and> GenRandS32 r mx mn \<le> mx"
proof -
  have u: "u32 (mx - mn + 1) = mx - mn + 1" using assms by (intro u32_id) (simp add: in_u32_def)
  define t where "t = u32 r mod (mx - mn + 1)"
  have "0 < mx - mn + 1" using assms by simp
  then have t: "0 \<le> t" "t < mx - mn + 1" unfolding t_def by (rule pos_mod_sign, rule pos_mod_bound)
  then have "s32 (mn + t) = mn + t" using assms by (intro s32_id) (unfold in_s32_def, linarith)
  then have "GenRandS32 r mx mn = mn + t" using assms(1) by (simp add: GenRandS32_def u t_def)
  then show ?thesis using t by linarith
qed

lemma GenRandS32_signed_range:
  assumes "0 \<le> mx" "mx < 1073741824" "mn = - mx - 1"
  shows "mn \<le> GenRandS32 r mx mn \<and> GenRandS32 r mx mn \<le> mx"
proof -
  have u: "u32 (mx - mn + 1) = 2 * mx + 2" using assms by (subst u32_id) (simp_all add: in_u32_def)
  define t where "t = u32 r mod (2 * mx + 2)"
  have t: "0 \<le> t" "t < 2 * mx + 2" using assms by (simp_all add: t_def)
  then have "s32 t = t" using assms by (intro s32_id) (unfold in_s32_def, linarith)
  then have "GenRandS32 r mx mn = (if mx < t then mx - t else t)"
    using assms(1,3) unfolding GenRandS32_def Let_def u t_def [symmetric] by simp
  then show ?thesis using t assms by auto
qed

text \<open>
  The widest signed pixels: the size of the range overflows, and the function returns what \<open>rand\<close>
  returned, or -1. Other negative numbers never occur.
\<close>

lemma gen_s32_almost_never_negative:
  assumes "0 \<le> r" "r < 2147483648"
  shows "GenRandS32 r 2147483646 (-2147483647) = (if r = 2147483647 then -1 else r)"
proof -
  have "u32 r = r" "s32 r = r" "r mod 4294967294 = r" using assms by (simp_all add: u32_id s32_id in_u32_def in_s32_def)
  then show ?thesis using assms by (simp add: GenRandS32_def Let_def u32_def)
qed

text \<open>The values of a type that are stored.\<close>

definition pixel_range :: "svp_image_type \<Rightarrow> int \<times> int" where
  "pixel_range ty = (case ty of
     S8C1 \<Rightarrow> (-128, 127) | S8C2_PACKAGE \<Rightarrow> (-128, 127) | S8C2_PLANAR \<Rightarrow> (-128, 127)
   | S16C1 \<Rightarrow> (-32768, 32767) | U16C1 \<Rightarrow> (0, 65535) | S32C1 \<Rightarrow> (-2147483648, 2147483647)
   | U32C1 \<Rightarrow> (0, 4294967295) | S64C1 \<Rightarrow> (-2147483648, 2147483647) | U64C1 \<Rightarrow> (0, 18446744073709551615)
   | _ \<Rightarrow> (0, 255))"

definition pixel_gen_of :: "svp_image_type \<Rightarrow> pixel_gen" where
  "pixel_gen_of ty = (case ty of
     S8C1 \<Rightarrow> gen_s8 | S8C2_PACKAGE \<Rightarrow> gen_s8 | S8C2_PLANAR \<Rightarrow> gen_s8 | S16C1 \<Rightarrow> gen_s16 | U16C1 \<Rightarrow> gen_u16
   | S32C1 \<Rightarrow> gen_s32 | U32C1 \<Rightarrow> gen_u32 | S64C1 \<Rightarrow> gen_s64 | U64C1 \<Rightarrow> gen_u64 | _ \<Rightarrow> gen_u8)"

definition pixel_size :: "svp_image_type \<Rightarrow> int" where
  "pixel_size ty = (case ty of S16C1 \<Rightarrow> 2 | U16C1 \<Rightarrow> 2 | S32C1 \<Rightarrow> 4 | U32C1 \<Rightarrow> 4 | S64C1 \<Rightarrow> 8 | U64C1 \<Rightarrow> 8 | _ \<Rightarrow> 1)"

text \<open>
  The planes as the function draws them: the start, the bytes from line to line, the elements of a
  line, the lines. Whether they are the planes of the image is the question of C13.
\<close>

definition drawn_planes :: "svp_image_type \<Rightarrow> int list \<Rightarrow> int list \<Rightarrow> int \<Rightarrow> int \<Rightarrow> (int \<times> int \<times> int \<times> int) list" where
  "drawn_planes ty b s w h = (case ty of
     YUV420SP \<Rightarrow> [(b ! 0, s ! 0, w, h), (b ! 1, s ! 1, w, h div 2)]
   | YUV422SP \<Rightarrow> [(b ! 0, s ! 0, w, h), (b ! 1, s ! 1, w, h)]
   | YUV420P \<Rightarrow> [(b ! 0, s ! 0, w, h), (b ! 1, s ! 1, w div 2, h div 2), (b ! 2, s ! 2, w div 2, h div 2)]
   | YUV422P \<Rightarrow> [(b ! 0, s ! 0, w, h), (b ! 1, s ! 1, w div 2, h), (b ! 2, s ! 2, w div 2, h)]
   | S8C2_PACKAGE \<Rightarrow> [(b ! 0, s ! 0, 2 * w, h)]
   | S8C2_PLANAR \<Rightarrow> [(b ! 0, s ! 0, w, h), (b ! 1, s ! 1, w, h)]
   | U8C3_PACKAGE \<Rightarrow> [(b ! 0, s ! 0, 3 * w, h)]
   | U8C3_PLANAR \<Rightarrow> [(b ! 0, s ! 0, w, h), (b ! 1, s ! 1, w, h), (b ! 2, s ! 2, w, h)]
   | S32C1 \<Rightarrow> [(b ! 0, 4 * s ! 0, w, h)] | U32C1 \<Rightarrow> [(b ! 0, 4 * s ! 0, w, h)]
   | S64C1 \<Rightarrow> [(b ! 0, 8 * s ! 0, w, h)] | U64C1 \<Rightarrow> [(b ! 0, 8 * s ! 0, w, h)]
   | IMAGE_TYPE_BUTT \<Rightarrow> []
   | _ \<Rightarrow> [(b ! 0, s ! 0, w, h)])"

lemma GenImage_planes:
  assumes "0 \<le> w" "3 * w < 4294967296"
  shows "GenImage rnd b s ty w h =
    fst (gen_planes (pixel_gen_of ty rnd) (pixel_size ty) (drawn_planes ty [u32 (b ! 0), u32 (b ! 1), u32 (b ! 2)] s w h) 0)"
proof -
  have "u32 (w + w) = 2 * w" "u32 (w * 3) = 3 * w" using assms by (auto simp: in_u32_def intro: u32_id [THEN trans])
  then show ?thesis
    by (cases ty) (simp_all add: GenImage_def pixel_gen_of_def pixel_size_def drawn_planes_def mult.commute)
qed

text \<open>The values.\<close>

definition in_pixel :: "svp_image_type \<Rightarrow> int \<Rightarrow> bool" where
  "in_pixel ty x \<longleftrightarrow> fst (pixel_range ty) \<le> x \<and> x \<le> snd (pixel_range ty)"

lemma in_pixel_gen: "in_pixel ty (fst (pixel_gen_of ty rnd k))"
proof -
  have s: "in_s32 (GenRandS32 r 2147483646 (-2147483647))" for r
  proof -
    have "in_s32 (2147483646 - s32 t)" if "2147483646 < s32 t" for t
      using that in_s32_s32 [of t] unfolding in_s32_def by linarith
    then show ?thesis by (simp add: GenRandS32_def Let_def)
  qed
  have r: "0 \<le> t mod n \<and> t mod n \<le> n - 1" if "0 < n" for t n :: int using pos_mod_bound [OF that, of t] that by simp
  have m: "0 \<le> t mod 256 \<and> t mod 256 \<le> 255" "0 \<le> t mod 65536 \<and> t mod 65536 \<le> 65535"
    "- 128 \<le> (t + 128) mod 256 - 128 \<and> (t + 128) mod 256 - 128 \<le> 127"
    "- 32768 \<le> (t + 32768) mod 65536 - 32768 \<and> (t + 32768) mod 65536 - 32768 \<le> 32767"
    "0 \<le> t mod 4294967296 \<and> t mod 4294967296 \<le> 4294967295"
    "0 \<le> t mod 18446744073709551616 \<and> t mod 18446744073709551616 \<le> 18446744073709551615" for t :: int
    using r [of 256 t] r [of 65536 t] r [of 256 "t + 128"] r [of 65536 "t + 32768"] r [of 4294967296 t]
      r [of 18446744073709551616 t] by simp_all
  have s': "- 2147483648 \<le> t \<and> t \<le> 2147483647" if "in_s32 t" for t using that unfolding in_s32_def by linarith
  have g: "0 \<le> fst (gen_u8 rnd k) \<and> fst (gen_u8 rnd k) \<le> 255" "- 128 \<le> fst (gen_s8 rnd k) \<and> fst (gen_s8 rnd k) \<le> 127"
    "0 \<le> fst (gen_u16 rnd k) \<and> fst (gen_u16 rnd k) \<le> 65535" "- 32768 \<le> fst (gen_s16 rnd k) \<and> fst (gen_s16 rnd k) \<le> 32767"
    "0 \<le> fst (gen_u32 rnd k) \<and> fst (gen_u32 rnd k) \<le> 4294967295"
    "0 \<le> fst (gen_u64 rnd k) \<and> fst (gen_u64 rnd k) \<le> 18446744073709551615"
    "- 2147483648 \<le> fst (gen_s32 rnd k) \<and> fst (gen_s32 rnd k) \<le> 2147483647"
    "- 2147483648 \<le> fst (gen_s64 rnd k) \<and> fst (gen_s64 rnd k) \<le> 2147483647"
    unfolding gen_u8_def gen_s8_def gen_u16_def gen_s16_def gen_u32_def gen_u64_def gen_s32_def gen_s64_def fst_conv
    by (unfold u32_def u64_def) (intro m s s' in_s32_s32)+
  show ?thesis
    by (cases ty) (simp_all only: in_pixel_def pixel_range_def pixel_gen_of_def svp_image_type.case fst_conv snd_conv g simp_thms)
qed

lemma gen_line_values:
  "(\<And>k. P (fst (g k))) \<Longrightarrow> list_all (\<lambda>(a, e, v). P v) (fst (gen_line g esz a n k))"
  by (induction n arbitrary: a k) (simp_all split: prod.split, metis fst_conv)

lemma gen_rows_values:
  "(\<And>k. P (fst (g k))) \<Longrightarrow> list_all (\<lambda>(a, e, v). P v) (fst (gen_rows g esz step w a h k))"
  by (induction h arbitrary: a k) (simp_all split: prod.split, metis fst_conv gen_line_values)

lemma gen_planes_values:
  "(\<And>k. P (fst (g k))) \<Longrightarrow> list_all (\<lambda>(a, e, v). P v) (fst (gen_planes g esz ps k))"
proof (induction ps arbitrary: k)
  case (Cons p ps)
  obtain a step w h where p: "p = (a, step, w, h)" by (metis prod_cases4)
  obtain ws1 k1 where r1: "gen_rows g esz step (nat w) a (nat h) k = (ws1, k1)" by fastforce
  obtain ws2 k2 where r2: "gen_planes g esz ps k1 = (ws2, k2)" by fastforce
  show ?case using gen_rows_values [of P g esz step "nat w" a "nat h" k] Cons.IH [of k1] Cons.prems by (simp add: p r1 r2)
qed simp

lemma plane_end_le:
  assumes "0 \<le> step" "1 \<le> m" "w * esz \<le> m * step" "0 \<le> h"
  shows "plane_end esz (a, step, w, h) \<le> a + m * (step * h)"
proof (cases "h \<le> 0")
  case True
  then show ?thesis using assms by (simp add: plane_end_def)
next
  case False
  have "0 \<le> ((m - 1) * (h - 1)) * step" using False assms by simp
  then have "(h - 1) * step + m * step \<le> m * (step * h)" by (simp add: algebra_simps)
  then show ?thesis using False assms(3) by (simp add: plane_end_def)
qed

text \<open>The strides of an image, and that the pixels fit the block.\<close>

definition plane_strides :: "svp_image_type \<Rightarrow> int \<Rightarrow> int \<Rightarrow> int list" where
  "plane_strides ty s0 s1 =
     (case ty of
        YUV420SP \<Rightarrow> [s0, s0] | YUV422SP \<Rightarrow> [s0, s0] | S8C2_PLANAR \<Rightarrow> [s0, s0] | S8C2_PACKAGE \<Rightarrow> [s0, s0]
      | YUV420P \<Rightarrow> [s0, s1, s1] | YUV422P \<Rightarrow> [s0, s1, s1] | U8C3_PACKAGE \<Rightarrow> [s0, s0, s0] | U8C3_PLANAR \<Rightarrow> [s0, s0, s0]
      | _ \<Rightarrow> [s0])"

lemma image_planes_strides:
  assumes "im_stride i = [a, b, c]" "ty \<noteq> IMAGE_TYPE_BUTT"
  shows "take (length (plane_strides ty s0 s1)) (im_stride (image_planes ty s0 A A' B (image_pre ty s1 (set_stride 0 s0 i)))) = plane_strides ty s0 s1"
  using assms by (cases ty) (simp_all add: image_planes_def image_pre_def plane_defs plane_strides_def numeral_2_eq_2)

lemma image_planes_upd:
  "im_stride (image_planes ty s0 A A' B (i\<lparr>im_phy := p, im_vir := v\<rparr>)) = im_stride (image_planes ty s0 A A' B i)"
  by (cases ty) (simp_all add: image_planes_def plane_defs)

lemma CreateImage_strides:
  assumes c: "CreateImage mmz img ty w h off tr = (0, i, tr')" and ty: "ty \<noteq> IMAGE_TYPE_BUTT"
    and sh: "img_shape img" and s: "s0 = Svp_Align w 16" "s1 = Svp_Align (w div 2) 16"
    and u: "u32 (s0 * h * 3) = s0 * h * 3"
  shows "take (length (plane_strides ty s0 s1)) (im_stride i) = plane_strides ty s0 s1"
proof -
  let ?i = "img\<lparr>im_type := ty, im_width := w, im_height := h\<rparr>"
  obtain a b c' where l: "im_stride ?i = [a, b, c']" using sh length_3_cases by (fastforce simp: img_shape_def)
  obtain p v where "i = image_planes ty s0 (u32 (s0 * h)) (s0 * h) (u32 (s1 * h))
      ((image_pre ty s1 (set_stride 0 s0 ?i))\<lparr>im_phy := p, im_vir := v\<rparr>)"
    using c unfolding CreateImage_parts [OF ty s u] by (auto simp: on_ok_zero image_alloc_zero)
  then show ?thesis using image_planes_strides [OF l ty] by (simp only: image_planes_upd)
qed

lemma planes_fit:
  assumes "0 \<le> w" "w \<le> s0" "w div 2 \<le> s1" "0 \<le> h" "A = s0 * h" "B = s1 * h" "ty \<noteq> IMAGE_TYPE_BUTT"
    and b: "\<And>k. k < length (plane_starts ty A B) \<Longrightarrow> buf ! k = P + plane_starts ty A B ! k"
    and st: "\<And>k. k < length (plane_strides ty s0 s1) \<Longrightarrow> st ! k = plane_strides ty s0 s1 ! k"
  shows "list_all (\<lambda>(a, step, w', h'). P \<le> a \<and> 0 \<le> step \<and> 0 \<le> w' \<and>
    plane_end (pixel_size ty) (a, step, w', h') \<le> P + image_size ty A B) (drawn_planes ty buf st w h)"
proof -
  define A2 where "A2 = s0 * (h div 2)"
  define B2 where "B2 = s1 * (h div 2)"
  have half: "0 \<le> x * (h div 2) \<and> 2 * (x * (h div 2)) \<le> x * h" if "0 \<le> x" for x
  proof -
    have "x * (2 * (h div 2)) \<le> x * h" using that by (intro mult_left_mono) auto
    then show ?thesis using that assms(4) by (simp add: algebra_simps)
  qed
  have s: "0 \<le> s0" "0 \<le> s1" "0 \<le> w div 2" "0 \<le> h div 2" using assms(1-4) by auto
  have h: "0 \<le> A" "0 \<le> B" "0 \<le> A2" "0 \<le> B2" "2 * A2 \<le> A" "2 * B2 \<le> B"
    using half [OF s(1)] half [OF s(2)] s assms(4) by (simp_all add: assms(5,6) A2_def B2_def)
  have d: "A + A2 \<le> A * 3 div 2" "B2 \<le> B div 2" "B div 2 + B2 \<le> B" using h by presburger+
  have e: "plane_end 1 (a, s0, w, h) \<le> a + A" "plane_end 1 (a, s0, w, h div 2) \<le> a + A2"
    "plane_end 1 (a, s1, w div 2, h div 2) \<le> a + B2" "plane_end 1 (a, s1, w div 2, h) \<le> a + B"
    "plane_end 1 (a, s0, 2 * w, h) \<le> a + 2 * A" "plane_end 1 (a, s0, 3 * w, h) \<le> a + 3 * A"
    "plane_end 2 (a, s0, w, h) \<le> a + 2 * A" "plane_end 4 (a, 4 * s0, w, h) \<le> a + 4 * A"
    "plane_end 8 (a, 8 * s0, w, h) \<le> a + 8 * A" for a
    using plane_end_le [of s0 1 w 1 h a] plane_end_le [of s0 1 w 1 "h div 2" a] plane_end_le [of s1 1 "w div 2" 1 "h div 2" a]
      plane_end_le [of s1 1 "w div 2" 1 h a] plane_end_le [of s0 2 "2 * w" 1 h a] plane_end_le [of s0 3 "3 * w" 1 h a]
      plane_end_le [of s0 2 w 2 h a] plane_end_le [of "4 * s0" 1 w 4 h a] plane_end_le [of "8 * s0" 1 w 8 h a] s assms(1-4)
    by (simp_all add: assms(5,6) A2_def B2_def)
  have b0: "buf ! 0 = P" by (subst b; cases ty; simp add: plane_starts_def)
  have st0: "st ! 0 = s0" by (subst st; cases ty; simp add: plane_strides_def)
  show ?thesis
    by (insert b [of 1] b [of 2] st [of 1] st [of 2] assms(7) h(1-4), cases ty;
        simp add: drawn_planes_def pixel_size_def plane_starts_def plane_strides_def image_size_def b0 st0 s assms(1);
        (intro conjI)?; (rule order_trans, rule e, use h d in linarith))
qed

lemma list_all_map_prj: "list_all (\<lambda>(a, e, v). R a e) ws \<longleftrightarrow> list_all (\<lambda>(a, e). R a e) (map (\<lambda>(a, e, v). (a, e)) ws)"
  by (induction ws) auto

lemma list_all_pixel:
  "list_all (\<lambda>(a, e, v). R a e) ws \<Longrightarrow> list_all (\<lambda>(a, e, v). Q v) ws \<Longrightarrow> list_all (\<lambda>(a, e, v). R a e \<and> Q v) ws"
  by (induction ws) auto

text \<open>The entries that hold the start of a plane.\<close>

definition plane_entry :: "svp_image_type \<Rightarrow> nat \<Rightarrow> bool" where
  "plane_entry ty k \<longleftrightarrow> k < length (plane_starts ty 0 0) \<and> (k = 0 \<or> ty \<noteq> S8C2_PACKAGE \<and> ty \<noteq> U8C3_PACKAGE)"

lemma plane_entry_less: "plane_entry ty k \<Longrightarrow> k < length (plane_starts ty A B)"
  by (cases ty) (simp_all add: plane_entry_def plane_starts_def)

lemma drawn_planes_cong:
  assumes "\<And>k. plane_entry ty k \<Longrightarrow> buf' ! k = buf ! k"
  shows "drawn_planes ty buf' st w h = drawn_planes ty buf st w h"
  using assms [of 0] assms [of 1] assms [of 2] by (cases ty) (simp_all add: drawn_planes_def plane_entry_def plane_starts_def)

lemma plane_entry_range:
  assumes "0 \<le> A" "0 \<le> B" "plane_entry ty k"
  shows "0 \<le> plane_starts ty A B ! k" "plane_starts ty A B ! k \<le> image_size ty A B"
proof -
  have d: "A \<le> A * 3 div 2" "B div 2 \<le> B" "0 \<le> B div 2" using assms(1,2) by presburger+
  have "0 \<le> plane_starts ty A B ! k \<and> plane_starts ty A B ! k \<le> image_size ty A B"
    using assms d by (cases ty) (auto simp: plane_entry_def plane_starts_def image_size_def less_Suc_eq)
  then show "0 \<le> plane_starts ty A B ! k" "plane_starts ty A B ! k \<le> image_size ty A B" by simp_all
qed

lemma nth_of_take: "take n xs = ys \<Longrightarrow> n = length ys \<Longrightarrow> k < length ys \<Longrightarrow> xs ! k = ys ! k"
  by (metis nth_take)

text \<open>The line of the half width is at most that of the width.\<close>

lemma half_stride:
  assumes "0 \<le> w" "w < 1431655765"
  shows "0 \<le> Svp_Align (w div 2) 16" "w div 2 \<le> Svp_Align (w div 2) 16" "Svp_Align (w div 2) 16 \<le> Svp_Align w 16"
proof -
  have a: "0 \<le> w div 2" "w div 2 + 16 \<le> 4294967296" using assms by auto
  show "0 \<le> Svp_Align (w div 2) 16" "w div 2 \<le> Svp_Align (w div 2) 16" using Svp_Align_ge [OF a(1) _ a(2)] a(1) by auto
  have "16 dvd Svp_Align (w div 2) 16" "Svp_Align (w div 2) 16 < w div 2 + 16" "16 dvd Svp_Align w 16" "w \<le> Svp_Align w 16"
    using Svp_Align_ge [OF a(1) _ a(2)] Svp_Align_ge [of w 16] assms by auto
  then show "Svp_Align (w div 2) 16 \<le> Svp_Align w 16" using assms by (auto elim!: dvdE)
qed

lemma cells_of_planes_inside:
  assumes "0 < sz" "list_all (\<lambda>(a, step, w, h). lo \<le> a \<and> 0 \<le> step \<and> 0 \<le> w \<and> plane_end sz (a, step, w, h) \<le> hi) ps"
  shows "list_all (\<lambda>(a, e). lo \<le> a \<and> a + e \<le> hi) (concat (map (cells sz) ps))"
proof -
  have "list_all (\<lambda>(a, e). lo \<le> a \<and> a + e \<le> hi) (cells sz q)" if "q \<in> set ps" for q
  proof -
    obtain a step w h where q: "q = (a, step, w, h)" by (metis prod_cases4)
    show ?thesis using bspec [OF assms(2) [unfolded list_all_iff] that] unfolding q prod.case by (intro cells_inside [OF assms(1)]) simp_all
  qed
  then show ?thesis by (auto simp: list_all_iff)
qed

section \<open>The layout of an image\<close>

text \<open>
  The bytes of an image, from its type alone: a pixel takes \<open>pixel_bytes\<close> (all its channels, in a
  packed type), a line \<open>stride\<close> pixels, and the chroma planes of the YUV types have fewer columns and lines.
\<close>

definition pixel_bytes :: "svp_image_type \<Rightarrow> int" where
  "pixel_bytes ty = (case ty of
     S8C2_PACKAGE \<Rightarrow> 2 | S16C1 \<Rightarrow> 2 | U16C1 \<Rightarrow> 2 | U8C3_PACKAGE \<Rightarrow> 3
   | S32C1 \<Rightarrow> 4 | U32C1 \<Rightarrow> 4 | S64C1 \<Rightarrow> 8 | U64C1 \<Rightarrow> 8 | _ \<Rightarrow> 1)"

definition plane_count :: "svp_image_type \<Rightarrow> nat" where
  "plane_count ty = (case ty of
     YUV420SP \<Rightarrow> 2 | YUV422SP \<Rightarrow> 2 | S8C2_PLANAR \<Rightarrow> 2 | YUV420P \<Rightarrow> 3 | YUV422P \<Rightarrow> 3 | U8C3_PLANAR \<Rightarrow> 3
   | IMAGE_TYPE_BUTT \<Rightarrow> 0 | _ \<Rightarrow> 1)"

definition plane_width :: "svp_image_type \<Rightarrow> nat \<Rightarrow> int \<Rightarrow> int" where
  "plane_width ty k w = (if k \<noteq> 0 \<and> ty \<in> {YUV420P, YUV422P} then w div 2 else w)"

definition plane_lines :: "svp_image_type \<Rightarrow> nat \<Rightarrow> int \<Rightarrow> int" where
  "plane_lines ty k h = (if k \<noteq> 0 \<and> ty \<in> {YUV420P, YUV420SP} then h div 2 else h)"

definition line_bytes :: "int \<Rightarrow> int \<Rightarrow> int \<Rightarrow> int \<Rightarrow> int list" where
  "line_bytes a step n h = concat (map (\<lambda>i. map (\<lambda>j. a + int i * step + int j) [0..<nat n]) [0..<nat h])"

definition image_bytes :: "svp_image_type \<Rightarrow> int list \<Rightarrow> int list \<Rightarrow> int \<Rightarrow> int \<Rightarrow> int list" where
  "image_bytes ty vir stride w h =
     concat (map (\<lambda>k. line_bytes (vir ! k) (stride ! k * pixel_bytes ty) (plane_width ty k w * pixel_bytes ty) (plane_lines ty k h))
       [0..<plane_count ty])"

text \<open>
  It is the layout of \<open>CreateImage\<close>: the lines of a plane, at their strides, fill the bytes it
  gives to the plane, and the starts differ by these.
\<close>

lemma image_layout:
  assumes "ty \<noteq> IMAGE_TYPE_BUTT"
  shows "plane_bytes ty s0 s1 h =
    map (\<lambda>k. (k, plane_strides ty s0 s1 ! k * pixel_bytes ty * plane_lines ty k h)) [0..<plane_count ty]"
  using assms by (cases ty) (simp_all add: plane_bytes_def plane_strides_def pixel_bytes_def plane_lines_def plane_count_def
      upt_rec numeral_2_eq_2)

text \<open>The types for which the step from line to line is not that of the image.\<close>

definition short_step :: "svp_image_type \<Rightarrow> bool" where
  "short_step ty \<longleftrightarrow> ty \<in> {S16C1, U16C1, S8C2_PACKAGE, U8C3_PACKAGE}"

text \<open>The bytes that stores write, in their order.\<close>

definition bytes_at :: "int \<times> int \<Rightarrow> int list" where
  "bytes_at p = map (\<lambda>j. fst p + int j) [0..<nat (snd p)]"

definition stored_bytes :: "stores \<Rightarrow> int list" where
  "stored_bytes ws = concat (map (\<lambda>(a, e, x). bytes_at (a, e)) ws)"

lemma stored_bytes_places: "stored_bytes ws = concat (map bytes_at (map (\<lambda>(a, e, x). (a, e)) ws))"
  unfolding stored_bytes_def by (induction ws) auto

lemma line_of_elements:
  assumes "0 < esz"
  shows "concat (map bytes_at (map (\<lambda>j. (a + int j * esz, esz)) [0..<n])) = map (\<lambda>j. a + int j) [0..<n * nat esz]"
proof (induction n)
  case 0
  then show ?case by simp
next
  case (Suc n)
  have e: "int (n * nat esz) = int n * esz" using assms by simp
  have "[0..<Suc n * nat esz] = [0..<n * nat esz] @ map (\<lambda>j. j + n * nat esz) [0..<nat esz]"
    using upt_add_eq_append [of 0 "n * nat esz" "nat esz"] unfolding map_add_upt by (simp add: add.commute)
  moreover have "bytes_at (a + int n * esz, esz) = map (\<lambda>j. a + int j) (map (\<lambda>j. j + n * nat esz) [0..<nat esz])"
    using e by (simp add: bytes_at_def)
  ultimately show ?case using Suc.IH by simp
qed

lemma cells_bytes:
  assumes "0 < esz" "0 \<le> w"
  shows "concat (map bytes_at (cells esz (a, step, w, h))) = line_bytes a step (w * esz) h"
proof -
  have "concat (map bytes_at (concat (map (\<lambda>i. map (\<lambda>j. (a + int i * step + int j * esz, esz)) [0..<nat w]) is))) =
      concat (map (\<lambda>i. map (\<lambda>j. a + int i * step + int j) [0..<nat w * nat esz]) is)" for "is"
    by (induction "is") (simp_all add: line_of_elements [OF assms(1)] del: map_map)
  then show ?thesis using assms by (simp add: cells_def line_bytes_def nat_mult_distrib)
qed

lemma drawn_bytes:
  assumes "0 \<le> w" "ty \<noteq> IMAGE_TYPE_BUTT"
  shows "concat (map bytes_at (concat (map (cells (pixel_size ty)) (drawn_planes ty b s w h)))) =
    (if short_step ty then line_bytes (b ! 0) (s ! 0) (w * pixel_bytes ty) h else image_bytes ty b s w h)"
proof -
  have "0 \<le> w div 2" using assms(1) by simp
  note c = cells_bytes [OF _ assms(1)] cells_bytes [OF _ this] cells_bytes [of _ "w * 2"] cells_bytes [of _ "w * 3"]
  show ?thesis
    using assms by (cases ty)
      (simp_all add: drawn_planes_def pixel_size_def c short_step_def image_bytes_def pixel_bytes_def plane_count_def
        plane_width_def plane_lines_def upt_rec numeral_2_eq_2 mult.commute)
qed

text \<open>
  C13. A test picture drawn into an image that \<open>SAMPLE_COMM_SVP_CreateImage\<close> created, of any type: every store is inside
  the block that was allocated for the image and every value is one of the pixel type, with the pointers of the code
  never wrapping around. For all types but four, the bytes stored are exactly the bytes of the pixels of the image,
  as its type and its strides lay it out, plane by plane and line by line. For the 16-bit and the packed types they
  are not: the lines have the length of the image's but are one stride of bytes apart instead of one stride of pixels
  (see \<open>gen_u16_lines_overlap\<close>).
\<close>

theorem GenImage_inside:
  assumes c: "CreateImage mmz img ty w h off tr = (0, i, tr')" and ty: "ty \<noteq> IMAGE_TYPE_BUTT" and sh: "img_shape img"
    and snd: "mmz_sound mmz" and w: "0 \<le> w" "w < 1431655765" and h: "0 \<le> h" "0 \<le> off"
    and small: "10 * (Svp_Align w 16 * h) + off < 4294967296"
  shows "\<exists>p v n. tr' = tr @ [Mmz_alloc p v n] \<and> im_stride i ! 0 = Svp_Align w 16 \<and>
    stored_bytes (GenImage rnd (im_vir i) (im_stride i) ty w h) =
      (if short_step ty then line_bytes (im_vir i ! 0) (im_stride i ! 0) (w * pixel_bytes ty) h
       else image_bytes ty (im_vir i) (im_stride i) w h) \<and>
    list_all (\<lambda>(a, e, x). v + off \<le> a \<and> a + e \<le> v + n \<and> in_pixel ty x) (GenImage rnd (im_vir i) (im_stride i) ty w h)"
proof -
  let ?s0 = "Svp_Align w 16" and ?s1 = "Svp_Align (w div 2) 16"
  let ?A = "?s0 * h" and ?B = "?s1 * h"
  have s0: "0 \<le> ?s0" "w \<le> ?s0" using Svp_Align_ge [of w 16] w by simp_all
  note s1 = half_stride [OF w]
  have B: "?B \<le> ?A" "0 \<le> ?B" "0 \<le> ?A" using h s0 s1 by (auto intro: mult_right_mono)
  have sm: "8 * ?A + 2 * ?B + off < 4294967296" using B small by linarith
  obtain p v where pv: "mmz tr (image_size ty ?A ?B + off) = (0, p, v)" "tr' = tr @ [Mmz_alloc p v (image_size ty ?A ?B + off)]"
    "take (length (plane_starts ty ?A ?B)) (im_vir i) = map ((+) (v + off)) (plane_starts ty ?A ?B)"
    using CreateImage_ok [OF c ty sh refl refl B(3,2) h(2) sm snd] by blast
  have u: "u32 (?A * 3) = ?A * 3" using B small h by (intro u32_id) (unfold in_u32_def, linarith)
  have st: "im_stride i ! k = plane_strides ty ?s0 ?s1 ! k" if "k < length (plane_strides ty ?s0 ?s1)" for k
    using nth_of_take [OF CreateImage_strides [OF c ty sh refl refl u] refl that] .
  have b: "im_vir i ! k = (v + off) + plane_starts ty ?A ?B ! k" if "k < length (plane_starts ty ?A ?B)" for k
    using nth_of_take [OF pv(3)] that by simp
  have v: "0 < v" "v + (image_size ty ?A ?B + off) < 4294967296" using snd pv(1) unfolding mmz_sound_def by blast+
  have fit: "list_all (\<lambda>(a, step, w', h'). v + off \<le> a \<and> 0 \<le> step \<and> 0 \<le> w' \<and>
      plane_end (pixel_size ty) (a, step, w', h') \<le> v + off + image_size ty ?A ?B) (drawn_planes ty (im_vir i) (im_stride i) w h)"
    by (rule planes_fit [OF w(1) s0(2) s1(2) h(1) refl refl ty b st])
  let ?b = "[u32 (im_vir i ! 0), u32 (im_vir i ! 1), u32 (im_vir i ! 2)]"
  have eq: "?b ! k = im_vir i ! k" if k: "plane_entry ty k" for k
  proof -
    have "k < 3" using k by (cases ty) (auto simp: plane_entry_def plane_starts_def)
    moreover have "u32 (im_vir i ! k) = im_vir i ! k"
      using plane_entry_range [OF B(3,2) k] b [OF plane_entry_less [OF k]] v h(2) by (intro u32_id) (unfold in_u32_def, linarith)
    ultimately show ?thesis by (auto simp: less_Suc_eq numeral_3_eq_3 numeral_2_eq_2)
  qed
  define ps where "ps = drawn_planes ty (im_vir i) (im_stride i) w h"
  have g: "GenImage rnd (im_vir i) (im_stride i) ty w h = fst (gen_planes (pixel_gen_of ty rnd) (pixel_size ty) ps 0)"
    using GenImage_planes [of w rnd "im_vir i" "im_stride i" ty h] w drawn_planes_cong [of ty ?b "im_vir i", OF eq] by (simp add: ps_def)
  have fit': "list_all (\<lambda>(a, step, w', h'). v + off \<le> a \<and> 0 \<le> step \<and> 0 \<le> w' \<and>
      plane_end (pixel_size ty) (a, step, w', h') \<le> v + off + image_size ty ?A ?B) ps"
    using fit unfolding ps_def .
  have esz: "0 < pixel_size ty" by (cases ty) (simp_all add: pixel_size_def)
  have ok: "list_all (\<lambda>(a, step, w, h). 0 \<le> a \<and> 0 \<le> step \<and> 0 \<le> w) ps" "list_all (\<lambda>p. plane_end (pixel_size ty) p < 4294967296) ps"
    using fit' v h(2) by (fastforce elim!: list.pred_mono_strong)+
  note at = gen_planes_at [OF esz ok, of "pixel_gen_of ty rnd" 0]
  have "list_all (\<lambda>(a, e). v + off \<le> a \<and> a + e \<le> v + (image_size ty ?A ?B + off)) (concat (map (cells (pixel_size ty)) ps))"
    using fit' by (intro cells_of_planes_inside [OF esz]) (simp add: algebra_simps)
  then have "list_all (\<lambda>(a, e, x). v + off \<le> a \<and> a + e \<le> v + (image_size ty ?A ?B + off)) (GenImage rnd (im_vir i) (im_stride i) ty w h)"
    unfolding g list_all_map_prj at .
  moreover have "list_all (\<lambda>(a, e, x). in_pixel ty x) (GenImage rnd (im_vir i) (im_stride i) ty w h)"
    unfolding g by (rule gen_planes_values) (rule in_pixel_gen)
  ultimately have "list_all (\<lambda>(a, e, x). (v + off \<le> a \<and> a + e \<le> v + (image_size ty ?A ?B + off)) \<and> in_pixel ty x)
      (GenImage rnd (im_vir i) (im_stride i) ty w h)"
    by (rule list_all_pixel)
  moreover have "stored_bytes (GenImage rnd (im_vir i) (im_stride i) ty w h) =
      (if short_step ty then line_bytes (im_vir i ! 0) (im_stride i ! 0) (w * pixel_bytes ty) h
       else image_bytes ty (im_vir i) (im_stride i) w h)"
    unfolding g stored_bytes_places at unfolding ps_def by (rule drawn_bytes [OF w(1) ty])
  moreover have "im_stride i ! 0 = ?s0" using st [of 0] by (cases ty) (simp_all add: plane_strides_def)
  ultimately show ?thesis using pv(2) unfolding conj_assoc by (intro exI conjI)
qed

theorem GenImage_inside_witness:
  "\<exists>i p v n. CreateImage bump_mmz zero_image YUV420SP 4 2 16 [] = (0, i, [Mmz_alloc p v n]) \<and>
     stored_bytes (GenImage (\<lambda>k. 100 * int k) (im_vir i) (im_stride i) YUV420SP 4 2) = image_bytes YUV420SP (im_vir i) (im_stride i) 4 2 \<and>
     list_all (\<lambda>(a, e, x). v + 16 \<le> a \<and> a + e \<le> v + n \<and> in_pixel YUV420SP x) (GenImage (\<lambda>k. 100 * int k) (im_vir i) (im_stride i) YUV420SP 4 2)"
proof -
  obtain ret i tr' where r: "CreateImage bump_mmz zero_image YUV420SP 4 2 16 [] = (ret, i, tr')" by (metis prod_cases3)
  have "fst (CreateImage bump_mmz zero_image YUV420SP 4 2 16 []) = 0" by code_simp
  then have r0: "CreateImage bump_mmz zero_image YUV420SP 4 2 16 [] = (0, i, tr')" using r by simp
  have "\<not> short_step YUV420SP" by (simp add: short_step_def)
  then show ?thesis
    using GenImage_inside [OF r0 _ _ bump_mmz_sound, of "\<lambda>k. 100 * int k"] r0
    by (auto simp: img_shape_def zero_image_def Svp_Align_def u32_def)
qed

text \<open>
  The lines of a picture of 16-bit pixels are one stride of bytes apart although they take two: the second half
  of each line is drawn over by the next one, and the bytes of the last half of the image are never drawn (here
  two lines of 16 pixels: bytes 16 to 31 are stored twice, bytes 48 to 63 never). Packed types have the same flaw.
\<close>

lemma gen_u16_lines_overlap:
  "line_bytes 8192 16 (16 * pixel_bytes U16C1) 2 = [8192..8223] @ [8208..8239] \<and>
   image_bytes U16C1 [8192, 0, 0] [16, 0, 0] 16 2 = [8192..8223] @ [8224..8255] \<and> image_size U16C1 (16 * 2) B = 64"
proof -
  have "image_bytes U16C1 [8192, 0, 0] [16, 0, 0] 16 2 = [8192..8223] @ [8224..8255]" by code_simp
  moreover have "line_bytes 8192 16 (16 * pixel_bytes U16C1) 2 = [8192..8223] @ [8208..8239]" by code_simp
  ultimately show ?thesis by (simp add: image_size_def)
qed

text \<open>The system is started once, whoever asks first, and is started again only after it was left.\<close>

lemma CheckSysInit_once:
  assumes "CheckSysInit mpi (False, tr) = Some s"
  shows "s = (True, tr @ [Sys_exit, Vb_exit, Vb_set_config, Vb_init, Sys_init])" "CheckSysInit mpi s = Some s"
    "\<not> fst (CheckSysExit mpi s)" "CheckSysExit mpi (CheckSysExit mpi s) = CheckSysExit mpi s"
  using assms by (auto simp: CheckSysInit_def CheckSysExit_def SysInit_def Let_def split: if_splits prod.splits)

end
