(* ===== verification/Vo_Tables.thy ===== *)
theory Vo_Tables
  imports Main
begin

text \<open>
  Tables of the video output (mpp/sdk2v0/sample_comm_vo.c): the size and rate of each display timing (\<open>SAMPLE_COMM_VO_GetWH\<close>) and the
  HDMI format announced for it (\<open>SAMPLE_COMM_VO_HdmiConvertSync\<close>).
\<close>

datatype (plugins only: code size) vo_sync =
    VO_OUTPUT_PAL | VO_OUTPUT_NTSC | VO_OUTPUT_1080P24 | VO_OUTPUT_1080P25 | VO_OUTPUT_1080P30 | VO_OUTPUT_720P50 | VO_OUTPUT_720P60
  | VO_OUTPUT_1080I50 | VO_OUTPUT_1080I60 | VO_OUTPUT_1080P50 | VO_OUTPUT_1080P60 | VO_OUTPUT_576P50 | VO_OUTPUT_480P60
  | VO_OUTPUT_800x600_60 | VO_OUTPUT_1024x768_60 | VO_OUTPUT_1280x1024_60 | VO_OUTPUT_1366x768_60 | VO_OUTPUT_1440x900_60
  | VO_OUTPUT_1280x800_60 | VO_OUTPUT_1600x1200_60 | VO_OUTPUT_1680x1050_60 | VO_OUTPUT_1920x1200_60 | VO_OUTPUT_640x480_60
  | VO_OUTPUT_960H_PAL | VO_OUTPUT_960H_NTSC | VO_OUTPUT_1920x2160_30 | VO_OUTPUT_2560x1440_30 | VO_OUTPUT_2560x1440_60
  | VO_OUTPUT_2560x1600_60 | VO_OUTPUT_3840x2160_24 | VO_OUTPUT_3840x2160_25 | VO_OUTPUT_3840x2160_30 | VO_OUTPUT_3840x2160_50
  | VO_OUTPUT_3840x2160_60 | VO_OUTPUT_4096x2160_24 | VO_OUTPUT_4096x2160_25 | VO_OUTPUT_4096x2160_30 | VO_OUTPUT_4096x2160_50
  | VO_OUTPUT_4096x2160_60 | VO_OUTPUT_320x240_60 | VO_OUTPUT_320x240_50 | VO_OUTPUT_240x320_50 | VO_OUTPUT_240x320_60
  | VO_OUTPUT_800x600_50 | VO_OUTPUT_720x1280_60 | VO_OUTPUT_1080x1920_60 | VO_OUTPUT_7680x4320_30 | VO_OUTPUT_USER
  | VO_OUTPUT_BUTT

fun GetWH :: "vo_sync \<Rightarrow> (int \<times> int \<times> int) option" where
  "GetWH VO_OUTPUT_PAL = Some (720, 576, 25)"
| "GetWH VO_OUTPUT_NTSC = Some (720, 480, 30)"
| "GetWH VO_OUTPUT_1080P24 = Some (1920, 1080, 24)"
| "GetWH VO_OUTPUT_1080P25 = Some (1920, 1080, 25)"
| "GetWH VO_OUTPUT_1080P30 = Some (1920, 1080, 30)"
| "GetWH VO_OUTPUT_720P50 = Some (1280, 720, 50)"
| "GetWH VO_OUTPUT_720P60 = Some (1280, 720, 60)"
| "GetWH VO_OUTPUT_1080I50 = Some (1920, 1080, 50)"
| "GetWH VO_OUTPUT_1080I60 = Some (1920, 1080, 60)"
| "GetWH VO_OUTPUT_1080P50 = Some (1920, 1080, 50)"
| "GetWH VO_OUTPUT_1080P60 = Some (1920, 1080, 60)"
| "GetWH VO_OUTPUT_576P50 = Some (720, 576, 50)"
| "GetWH VO_OUTPUT_480P60 = Some (720, 480, 60)"
| "GetWH VO_OUTPUT_800x600_60 = Some (800, 600, 60)"
| "GetWH VO_OUTPUT_1024x768_60 = Some (1024, 768, 60)"
| "GetWH VO_OUTPUT_1280x1024_60 = Some (1280, 1024, 60)"
| "GetWH VO_OUTPUT_1366x768_60 = Some (1366, 768, 60)"
| "GetWH VO_OUTPUT_1440x900_60 = Some (1440, 900, 60)"
| "GetWH VO_OUTPUT_1280x800_60 = Some (1280, 800, 60)"
| "GetWH VO_OUTPUT_1600x1200_60 = Some (1600, 1200, 60)"
| "GetWH VO_OUTPUT_1680x1050_60 = Some (1680, 1050, 60)"
| "GetWH VO_OUTPUT_1920x1200_60 = Some (1920, 1200, 60)"
| "GetWH VO_OUTPUT_640x480_60 = Some (640, 480, 60)"
| "GetWH VO_OUTPUT_960H_PAL = Some (960, 576, 50)"
| "GetWH VO_OUTPUT_960H_NTSC = Some (960, 480, 60)"
| "GetWH VO_OUTPUT_1920x2160_30 = Some (1920, 2160, 30)"
| "GetWH VO_OUTPUT_2560x1440_30 = Some (2560, 1440, 30)"
| "GetWH VO_OUTPUT_2560x1600_60 = Some (2560, 1600, 60)"
| "GetWH VO_OUTPUT_3840x2160_30 = Some (3840, 2160, 30)"
| "GetWH VO_OUTPUT_3840x2160_60 = Some (3840, 2160, 60)"
| "GetWH VO_OUTPUT_320x240_60 = Some (320, 240, 60)"
| "GetWH VO_OUTPUT_320x240_50 = Some (320, 240, 50)"
| "GetWH VO_OUTPUT_240x320_50 = Some (240, 320, 50)"
| "GetWH VO_OUTPUT_240x320_60 = Some (240, 320, 60)"
| "GetWH VO_OUTPUT_800x600_50 = Some (800, 600, 50)"
| "GetWH VO_OUTPUT_720x1280_60 = Some (720, 1280, 60)"
| "GetWH VO_OUTPUT_1080x1920_60 = Some (1080, 1920, 60)"
| "GetWH VO_OUTPUT_7680x4320_30 = Some (7680, 4320, 30)"
| "GetWH VO_OUTPUT_USER = Some (800, 1280, 60)"
| "GetWH _ = None"

datatype (plugins only: code size) hdmi_fmt =
    FMT_1080P_24 | FMT_1080P_25 | FMT_1080P_30 | FMT_1080P_50 | FMT_1080P_60 | FMT_1080i_50 | FMT_1080i_60 | FMT_1920x2160_30 | FMT_2560x1440_30 | FMT_2560x1600_60 | FMT_3840X2160P_30 | FMT_3840X2160P_60 | FMT_480P_60 | FMT_576P_50 | FMT_720P_50 | FMT_720P_60 | FMT_NTSC | FMT_PAL | FMT_VESA_1024X768_60 | FMT_VESA_1280X1024_60 | FMT_VESA_1280X800_60 | FMT_VESA_1366X768_60 | FMT_VESA_1440X900_60 | FMT_VESA_1600X1200_60 | FMT_VESA_1920X1200_60 | FMT_VESA_800X600_60

fun HdmiConvertSync :: "vo_sync \<Rightarrow> hdmi_fmt" where
  "HdmiConvertSync VO_OUTPUT_PAL = FMT_PAL"
| "HdmiConvertSync VO_OUTPUT_NTSC = FMT_NTSC"
| "HdmiConvertSync VO_OUTPUT_1080P24 = FMT_1080P_24"
| "HdmiConvertSync VO_OUTPUT_1080P25 = FMT_1080P_25"
| "HdmiConvertSync VO_OUTPUT_1080P30 = FMT_1080P_30"
| "HdmiConvertSync VO_OUTPUT_720P50 = FMT_720P_50"
| "HdmiConvertSync VO_OUTPUT_720P60 = FMT_720P_60"
| "HdmiConvertSync VO_OUTPUT_1080I50 = FMT_1080i_50"
| "HdmiConvertSync VO_OUTPUT_1080I60 = FMT_1080i_60"
| "HdmiConvertSync VO_OUTPUT_1080P50 = FMT_1080P_50"
| "HdmiConvertSync VO_OUTPUT_1080P60 = FMT_1080P_60"
| "HdmiConvertSync VO_OUTPUT_576P50 = FMT_576P_50"
| "HdmiConvertSync VO_OUTPUT_480P60 = FMT_480P_60"
| "HdmiConvertSync VO_OUTPUT_800x600_60 = FMT_VESA_800X600_60"
| "HdmiConvertSync VO_OUTPUT_1024x768_60 = FMT_VESA_1024X768_60"
| "HdmiConvertSync VO_OUTPUT_1280x1024_60 = FMT_VESA_1280X1024_60"
| "HdmiConvertSync VO_OUTPUT_1366x768_60 = FMT_VESA_1366X768_60"
| "HdmiConvertSync VO_OUTPUT_1440x900_60 = FMT_VESA_1440X900_60"
| "HdmiConvertSync VO_OUTPUT_1280x800_60 = FMT_VESA_1280X800_60"
| "HdmiConvertSync VO_OUTPUT_1920x2160_30 = FMT_1920x2160_30"
| "HdmiConvertSync VO_OUTPUT_1600x1200_60 = FMT_VESA_1600X1200_60"
| "HdmiConvertSync VO_OUTPUT_1920x1200_60 = FMT_VESA_1920X1200_60"
| "HdmiConvertSync VO_OUTPUT_2560x1440_30 = FMT_2560x1440_30"
| "HdmiConvertSync VO_OUTPUT_2560x1600_60 = FMT_2560x1600_60"
| "HdmiConvertSync VO_OUTPUT_3840x2160_30 = FMT_3840X2160P_30"
| "HdmiConvertSync VO_OUTPUT_3840x2160_60 = FMT_3840X2160P_60"
| "HdmiConvertSync _ = FMT_1080P_60"

end
