(* ===== verification/Media_Types.thy ===== *)
theory Media_Types
  imports Main
begin

text \<open>Types of the media headers that several parts use: rectangles, pixel formats, dynamic ranges, modes, payloads, and named picture sizes.\<close>

record rect =
  rt_x :: int
  rt_y :: int
  rt_w :: int
  rt_h :: int

text \<open>The pixel formats that the code tests or sets; \<open>PIXEL_FORMAT_OTHER\<close> are the others.\<close>

datatype pixel_format =
    RGB_BAYER_8BPP | RGB_BAYER_10BPP | RGB_BAYER_12BPP | RGB_BAYER_14BPP | RGB_BAYER_16BPP
  | YVU_SEMIPLANAR_422 | YVU_SEMIPLANAR_420 | YUV_SEMIPLANAR_422 | YUV_SEMIPLANAR_420 | YUV_400 | PIXEL_FORMAT_S16C1
  | RGB_565 | BGR_565 | RGB_888 | BGR_888 | ARGB_8888 | ABGR_8888 | ARGB_1555 | ABGR_1555 | PIXEL_FORMAT_OTHER | PIXEL_FORMAT_BUTT

text \<open>What a codec channel carries.\<close>

datatype payload_type = PT_H264 | PT_H265 | PT_JPEG | PT_MJPEG | PT_OTHER

datatype dynamic_range =
    DYNAMIC_RANGE_SDR8 | DYNAMIC_RANGE_SDR10 | DYNAMIC_RANGE_HDR10 | DYNAMIC_RANGE_HLG | DYNAMIC_RANGE_SLF | DYNAMIC_RANGE_XDR | DYNAMIC_RANGE_BUTT

datatype vi_vpss_mode =
    VI_OFFLINE_VPSS_OFFLINE | VI_OFFLINE_VPSS_ONLINE | VI_ONLINE_VPSS_OFFLINE | VI_ONLINE_VPSS_ONLINE
  | VI_PARALLEL_VPSS_OFFLINE | VI_PARALLEL_VPSS_PARALLEL

datatype pic_size =
    PIC_CIF | PIC_360P | PIC_D1_PAL | PIC_D1_NTSC | PIC_720P | PIC_1080P | PIC_2560x1440 | PIC_2592x1520 | PIC_2592x1536
  | PIC_2592x1944 | PIC_2688x1536 | PIC_2716x1524 | PIC_3840x2160 | PIC_4096x2160 | PIC_3000x3000 | PIC_4000x3000
  | PIC_7680x4320 | PIC_3840x8640 | PIC_BUTT

fun GetPicSize :: "pic_size \<Rightarrow> (int \<times> int) option" where
  "GetPicSize PIC_CIF = Some (352, 288)"
| "GetPicSize PIC_360P = Some (640, 360)"
| "GetPicSize PIC_D1_PAL = Some (720, 576)"
| "GetPicSize PIC_D1_NTSC = Some (720, 480)"
| "GetPicSize PIC_720P = Some (1280, 720)"
| "GetPicSize PIC_1080P = Some (1920, 1080)"
| "GetPicSize PIC_2592x1520 = Some (2592, 1520)"
| "GetPicSize PIC_2592x1944 = Some (2592, 1944)"
| "GetPicSize PIC_2592x1536 = Some (2592, 1536)"
| "GetPicSize PIC_2560x1440 = Some (2560, 1440)"
| "GetPicSize PIC_2716x1524 = Some (2716, 1524)"
| "GetPicSize PIC_3840x2160 = Some (3840, 2160)"
| "GetPicSize PIC_3000x3000 = Some (3000, 3000)"
| "GetPicSize PIC_4000x3000 = Some (4000, 3000)"
| "GetPicSize PIC_4096x2160 = Some (4096, 2160)"
| "GetPicSize PIC_7680x4320 = Some (7680, 4320)"
| "GetPicSize PIC_3840x8640 = Some (3840, 8640)"
| "GetPicSize PIC_2688x1536 = Some (2688, 1536)"
| "GetPicSize PIC_BUTT = None"

end
