(* ===== verification/Vi_Tables.thy ===== *)
theory Vi_Tables
  imports Media_Types Complex_Main
begin

text \<open>
  The sensors the program knows and what its tables say of them (common/sdk2v0/sample_comm_vi.c, sample_comm_isp.c): the attributes of
  the receiver, of the device, of the pipe, of the channel and of the image processor, the size and the rate.

  Left out are fields that have the same value in every table of the code. Of a device these are the working mode, the progressive
  scan, the channels of an AD converter, the sequence and timing of YUV data, the type of the data, its order and the phase; of a pipe
  \<open>VI_PIPE_BYPASS_NONE\<close>, no skipping of YUV, the 8-bit semi-planar reference of the noise reduction without compression, no sharpening, and the frame rate;
  of a channel no mirroring, no flipping, depth 0 and the frame rate. Rates are the decimal numbers of the code.
\<close>

section \<open>Sensors and attributes\<close>

datatype (plugins only: code size) sns_type =
    SONY_IMX327_MIPI_2M_30FPS_12BIT | SONY_IMX327_MIPI_2M_30FPS_12BIT_WDR2TO1 | SONY_IMX327_2L_MIPI_2M_30FPS_12BIT
  | SONY_IMX327_2L_MIPI_2M_30FPS_12BIT_WDR2TO1 | SONY_IMX307_MIPI_2M_30FPS_12BIT | SONY_IMX307_MIPI_2M_30FPS_12BIT_WDR2TO1
  | SONY_IMX307_2L_MIPI_2M_30FPS_12BIT | SONY_IMX307_2L_MIPI_2M_30FPS_12BIT_WDR2TO1 | SONY_IMX335_MIPI_5M_30FPS_12BIT
  | SONY_IMX335_MIPI_5M_30FPS_10BIT_WDR2TO1 | SONY_IMX335_MIPI_4M_30FPS_12BIT | SONY_IMX335_MIPI_4M_30FPS_10BIT_WDR2TO1
  | SONY_IMX458_MIPI_8M_30FPS_10BIT | SONY_IMX458_MIPI_12M_20FPS_10BIT | SONY_IMX458_MIPI_4M_60FPS_10BIT
  | SONY_IMX458_MIPI_4M_40FPS_10BIT | SONY_IMX458_MIPI_2M_90FPS_10BIT | SONY_IMX458_MIPI_1M_129FPS_10BIT
  | SMART_SC4210_MIPI_3M_30FPS_12BIT | SMART_SC4210_MIPI_3M_30FPS_10BIT_WDR2TO1 | PANASONIC_MN34220_LVDS_2M_30FPS_12BIT
  | OMNIVISION_OS04B10_MIPI_4M_30FPS_10BIT | OMNIVISION_OS05A_MIPI_4M_30FPS_12BIT | OMNIVISION_OS05A_MIPI_4M_30FPS_10BIT_WDR2TO1
  | OMNIVISION_OS08A10_MIPI_8M_30FPS_10BIT | GALAXYCORE_GC2053_MIPI_2M_30FPS_10BIT | OMNIVISION_OV12870_MIPI_1M_240FPS_10BIT
  | OMNIVISION_OV12870_MIPI_2M_120FPS_10BIT | OMNIVISION_OV12870_MIPI_8M_30FPS_10BIT | OMNIVISION_OV12870_MIPI_12M_30FPS_10BIT
  | SONY_IMX415_MIPI_8M_30FPS_12BIT | SONY_IMX415_MIPI_8M_20FPS_12BIT | SAMPLE_SNS_TYPE_BUTT

datatype wdr_mode =
    WDR_MODE_NONE | WDR_MODE_BUILT_IN | WDR_MODE_QUDRA | WDR_MODE_2To1_LINE | WDR_MODE_2To1_FRAME | WDR_MODE_2To1_FRAME_FULL_RATE
  | WDR_MODE_3To1_LINE | WDR_MODE_3To1_FRAME | WDR_MODE_3To1_FRAME_FULL_RATE | WDR_MODE_4To1_LINE | WDR_MODE_4To1_FRAME
  | WDR_MODE_4To1_FRAME_FULL_RATE | WDR_MODE_BUTT

datatype raw_type = DATA_TYPE_RAW_8BIT | DATA_TYPE_RAW_10BIT | DATA_TYPE_RAW_12BIT | DATA_TYPE_RAW_14BIT | DATA_TYPE_RAW_16BIT

datatype mipi_wdr = HI_MIPI_WDR_MODE_NONE | HI_MIPI_WDR_MODE_VC | HI_MIPI_WDR_MODE_DT | HI_MIPI_WDR_MODE_DOL

text \<open>The lanes of a receiver, for LVDS with the synchronisation codes of each lane.\<close>

datatype lane_attr =
    Mipi_attr raw_type mipi_wdr "int list"
  | Lvds_attr raw_type "int list" "int list list list"

datatype input_mode = INPUT_MODE_MIPI | INPUT_MODE_LVDS

datatype data_rate = DATA_RATE_X1 | DATA_RATE_X2

record combo_attr =
  ca_devno :: int
  ca_input :: input_mode
  ca_rate :: data_rate
  ca_rect :: rect
  ca_lanes :: lane_attr

datatype intf_mode = VI_MODE_MIPI | VI_MODE_LVDS

text \<open>The second size is that of the scaling in the Bayer domain.\<close>

record dev_attr =
  da_intf :: intf_mode
  da_mask :: "int \<times> int"
  da_size :: "int \<times> int"
  da_bas :: "int \<times> int"
  da_wdr :: wdr_mode
  da_cache :: int
  da_rate :: data_rate

datatype compress_mode = COMPRESS_MODE_NONE | COMPRESS_MODE_SEG | COMPRESS_MODE_TILE | COMPRESS_MODE_LINE | COMPRESS_MODE_FRAME

datatype nr_ref = VI_NR_REF_FROM_RFR | VI_NR_REF_FROM_CHN0

record pipe_attr =
  pa_isp_bypass :: bool
  pa_size :: "int \<times> int"
  pa_fmt :: pixel_format
  pa_compress :: compress_mode
  pa_bits :: int
  pa_nr :: bool
  pa_ref :: nr_ref

datatype video_format =
    VIDEO_FORMAT_LINEAR | VIDEO_FORMAT_TILE_64x16 | VIDEO_FORMAT_TILE_16x8 | VIDEO_FORMAT_LINEAR_DISCRETE

record chn_attr =
  cn_size :: "int \<times> int"
  cn_fmt :: pixel_format
  cn_range :: dynamic_range
  cn_video :: video_format
  cn_compress :: compress_mode

datatype bayer = BAYER_RGGB | BAYER_GRBG | BAYER_GBRG | BAYER_BGGR

record isp_attr =
  ia_rect :: rect
  ia_size :: "int \<times> int"
  ia_rate :: rat
  ia_bayer :: bayer
  ia_wdr :: wdr_mode
  ia_mode :: int

definition mipi_rx :: "int \<Rightarrow> int \<Rightarrow> int \<Rightarrow> int \<Rightarrow> raw_type \<Rightarrow> mipi_wdr \<Rightarrow> int list \<Rightarrow> combo_attr" where
  "mipi_rx dev y w h ty wdr lanes =
     \<lparr>ca_devno = dev, ca_input = INPUT_MODE_MIPI, ca_rate = DATA_RATE_X1, ca_rect = \<lparr>rt_x = 0, rt_y = y, rt_w = w, rt_h = h\<rparr>, ca_lanes = Mipi_attr ty wdr lanes\<rparr>"

definition vi_dev_attr :: "intf_mode \<Rightarrow> int \<Rightarrow> int \<Rightarrow> int \<Rightarrow> dev_attr" where
  "vi_dev_attr intf cm w h =
     \<lparr>da_intf = intf, da_mask = (cm, 0), da_size = (w, h), da_bas = (w, h), da_wdr = WDR_MODE_NONE, da_cache = h, da_rate = DATA_RATE_X1\<rparr>"

definition vi_pipe_attr :: "int \<Rightarrow> int \<Rightarrow> pixel_format \<Rightarrow> compress_mode \<Rightarrow> int \<Rightarrow> bool \<Rightarrow> pipe_attr" where
  "vi_pipe_attr w h fmt cmp bits nr =
     \<lparr>pa_isp_bypass = False, pa_size = (w, h), pa_fmt = fmt, pa_compress = cmp, pa_bits = bits, pa_nr = nr, pa_ref = VI_NR_REF_FROM_RFR\<rparr>"

definition vi_chn_attr :: "int \<Rightarrow> int \<Rightarrow> pixel_format \<Rightarrow> chn_attr" where
  "vi_chn_attr w h fmt =
     \<lparr>cn_size = (w, h), cn_fmt = fmt, cn_range = DYNAMIC_RANGE_SDR8, cn_video = VIDEO_FORMAT_LINEAR, cn_compress = COMPRESS_MODE_NONE\<rparr>"

definition isp_pub :: "int \<Rightarrow> int \<Rightarrow> int \<times> int \<Rightarrow> rat \<Rightarrow> bayer \<Rightarrow> wdr_mode \<Rightarrow> int \<Rightarrow> isp_attr" where
  "isp_pub w h sns rate bay wdr mode =
     \<lparr>ia_rect = \<lparr>rt_x = 0, rt_y = 0, rt_w = w, rt_h = h\<rparr>, ia_size = sns, ia_rate = rate, ia_bayer = bay, ia_wdr = wdr, ia_mode = mode\<rparr>"

section \<open>The tables\<close>

definition MIPI_4lane_CHN0_SENSOR_IMX327_12BIT_2M_NOWDR_ATTR :: combo_attr where
  "MIPI_4lane_CHN0_SENSOR_IMX327_12BIT_2M_NOWDR_ATTR = mipi_rx 0 0 1920 1080 DATA_TYPE_RAW_12BIT HI_MIPI_WDR_MODE_NONE [0, 1, 2, 3]"
definition MIPI_4lane_CHN0_SENSOR_IMX327_12BIT_2M_WDR2to1_ATTR :: combo_attr where
  "MIPI_4lane_CHN0_SENSOR_IMX327_12BIT_2M_WDR2to1_ATTR = mipi_rx 0 0 1920 1080 DATA_TYPE_RAW_12BIT HI_MIPI_WDR_MODE_DOL [0, 1, 2, 3]"
definition MIPI_2lane_CHN0_SENSOR_IMX327_12BIT_2M_NOWDR_ATTR :: combo_attr where
  "MIPI_2lane_CHN0_SENSOR_IMX327_12BIT_2M_NOWDR_ATTR = mipi_rx 0 0 1920 1080 DATA_TYPE_RAW_12BIT HI_MIPI_WDR_MODE_NONE [0, 2, -1, -1]"
definition MIPI_2lane_CHN1_SENSOR_IMX327_12BIT_2M_NOWDR_ATTR :: combo_attr where
  "MIPI_2lane_CHN1_SENSOR_IMX327_12BIT_2M_NOWDR_ATTR = mipi_rx 1 0 1920 1080 DATA_TYPE_RAW_12BIT HI_MIPI_WDR_MODE_NONE [1, 3, -1, -1]"
definition MIPI_2lane_CHN0_SENSOR_IMX327_12BIT_2M_WDR2to1_ATTR :: combo_attr where
  "MIPI_2lane_CHN0_SENSOR_IMX327_12BIT_2M_WDR2to1_ATTR = mipi_rx 0 0 1920 1080 DATA_TYPE_RAW_12BIT HI_MIPI_WDR_MODE_DOL [0, 2, -1, -1]"
definition MIPI_2lane_CHN1_SENSOR_IMX327_12BIT_2M_WDR2to1_ATTR :: combo_attr where
  "MIPI_2lane_CHN1_SENSOR_IMX327_12BIT_2M_WDR2to1_ATTR = mipi_rx 1 0 1920 1080 DATA_TYPE_RAW_12BIT HI_MIPI_WDR_MODE_DOL [1, 3, -1, -1]"
definition MIPI_4lane_CHN0_SENSOR_IMX307_12BIT_2M_NOWDR_ATTR :: combo_attr where
  "MIPI_4lane_CHN0_SENSOR_IMX307_12BIT_2M_NOWDR_ATTR = mipi_rx 0 0 1920 1080 DATA_TYPE_RAW_12BIT HI_MIPI_WDR_MODE_NONE [0, 1, 2, 3]"
definition MIPI_4lane_CHN0_SENSOR_IMX307_12BIT_2M_WDR2to1_ATTR :: combo_attr where
  "MIPI_4lane_CHN0_SENSOR_IMX307_12BIT_2M_WDR2to1_ATTR = mipi_rx 0 0 1920 1080 DATA_TYPE_RAW_12BIT HI_MIPI_WDR_MODE_DOL [0, 1, 2, 3]"
definition MIPI_2lane_CHN0_SENSOR_IMX307_12BIT_2M_NOWDR_ATTR :: combo_attr where
  "MIPI_2lane_CHN0_SENSOR_IMX307_12BIT_2M_NOWDR_ATTR = mipi_rx 0 0 1920 1080 DATA_TYPE_RAW_12BIT HI_MIPI_WDR_MODE_NONE [0, 2, -1, -1]"
definition MIPI_2lane_CHN1_SENSOR_IMX307_12BIT_2M_NOWDR_ATTR :: combo_attr where
  "MIPI_2lane_CHN1_SENSOR_IMX307_12BIT_2M_NOWDR_ATTR = mipi_rx 1 0 1920 1080 DATA_TYPE_RAW_12BIT HI_MIPI_WDR_MODE_NONE [1, 3, -1, -1]"
definition MIPI_2lane_CHN0_SENSOR_IMX307_12BIT_2M_WDR2to1_ATTR :: combo_attr where
  "MIPI_2lane_CHN0_SENSOR_IMX307_12BIT_2M_WDR2to1_ATTR = mipi_rx 0 0 1920 1080 DATA_TYPE_RAW_12BIT HI_MIPI_WDR_MODE_DOL [0, 2, -1, -1]"
definition MIPI_2lane_CHN1_SENSOR_IMX307_12BIT_2M_WDR2to1_ATTR :: combo_attr where
  "MIPI_2lane_CHN1_SENSOR_IMX307_12BIT_2M_WDR2to1_ATTR = mipi_rx 1 0 1920 1080 DATA_TYPE_RAW_12BIT HI_MIPI_WDR_MODE_DOL [1, 3, -1, -1]"
definition LVDS_4lane_CHN0_SENSOR_MN34220_12BIT_2M_NOWDR_ATTR :: combo_attr where
  "LVDS_4lane_CHN0_SENSOR_MN34220_12BIT_2M_NOWDR_ATTR = 
     \<lparr>ca_devno = 0, ca_input = INPUT_MODE_LVDS, ca_rate = DATA_RATE_X1, ca_rect = \<lparr>rt_x = 0, rt_y = 0, rt_w = 1920, rt_h = 1080\<rparr>,
      ca_lanes = Lvds_attr DATA_TYPE_RAW_12BIT [0, 2, 1, 3]
        ([[[2, 3, 0, 1], [2, 3, 0, 1], [2, 3, 0, 1], [2, 3, 0, 1]],
         [[18, 19, 16, 17], [18, 19, 16, 17], [18, 19, 16, 17], [18, 19, 16, 17]],
         [[6, 7, 4, 5], [6, 7, 4, 5], [6, 7, 4, 5], [6, 7, 4, 5]],
         [[22, 23, 20, 21], [22, 23, 20, 21], [22, 23, 20, 21], [22, 23, 20, 21]]])\<rparr>"
definition MIPI_4lane_CHN0_SENSOR_IMX335_12BIT_5M_NOWDR_ATTR :: combo_attr where
  "MIPI_4lane_CHN0_SENSOR_IMX335_12BIT_5M_NOWDR_ATTR = mipi_rx 0 0 2592 1944 DATA_TYPE_RAW_12BIT HI_MIPI_WDR_MODE_NONE [0, 1, 2, 3]"
definition MIPI_4lane_CHN0_SENSOR_IMX335_10BIT_5M_WDR2TO1_ATTR :: combo_attr where
  "MIPI_4lane_CHN0_SENSOR_IMX335_10BIT_5M_WDR2TO1_ATTR = mipi_rx 0 0 2592 1944 DATA_TYPE_RAW_10BIT HI_MIPI_WDR_MODE_VC [0, 1, 2, 3]"
definition MIPI_4lane_CHN0_SENSOR_IMX335_12BIT_4M_NOWDR_ATTR :: combo_attr where
  "MIPI_4lane_CHN0_SENSOR_IMX335_12BIT_4M_NOWDR_ATTR = mipi_rx 0 204 2592 1536 DATA_TYPE_RAW_12BIT HI_MIPI_WDR_MODE_NONE [0, 1, 2, 3]"
definition MIPI_4lane_CHN0_SENSOR_IMX335_10BIT_4M_WDR2TO1_ATTR :: combo_attr where
  "MIPI_4lane_CHN0_SENSOR_IMX335_10BIT_4M_WDR2TO1_ATTR = mipi_rx 0 204 2592 1536 DATA_TYPE_RAW_10BIT HI_MIPI_WDR_MODE_VC [0, 1, 2, 3]"
definition MIPI_4lane_CHN0_SENSOR_SC4210_12BIT_3M_NOWDR_ATTR :: combo_attr where
  "MIPI_4lane_CHN0_SENSOR_SC4210_12BIT_3M_NOWDR_ATTR = mipi_rx 0 0 2560 1440 DATA_TYPE_RAW_12BIT HI_MIPI_WDR_MODE_NONE [0, 1, 2, 3]"
definition MIPI_4lane_CHN0_SENSOR_SC4210_10BIT_3M_WDR2TO1_ATTR :: combo_attr where
  "MIPI_4lane_CHN0_SENSOR_SC4210_10BIT_3M_WDR2TO1_ATTR = mipi_rx 0 0 2560 1440 DATA_TYPE_RAW_10BIT HI_MIPI_WDR_MODE_VC [0, 1, 2, 3]"
definition MIPI_4lane_CHN0_SENSOR_IMX458_10BIT_8M_NOWDR_ATTR :: combo_attr where
  "MIPI_4lane_CHN0_SENSOR_IMX458_10BIT_8M_NOWDR_ATTR = mipi_rx 0 0 3840 2160 DATA_TYPE_RAW_10BIT HI_MIPI_WDR_MODE_NONE [0, 1, 2, 3]"
definition MIPI_4lane_CHN0_SENSOR_IMX458_10BIT_12M_NOWDR_ATTR :: combo_attr where
  "MIPI_4lane_CHN0_SENSOR_IMX458_10BIT_12M_NOWDR_ATTR = mipi_rx 0 0 4000 3000 DATA_TYPE_RAW_10BIT HI_MIPI_WDR_MODE_NONE [0, 1, 2, 3]"
definition MIPI_4lane_CHN0_SENSOR_IMX458_10BIT_4M_NOWDR_ATTR :: combo_attr where
  "MIPI_4lane_CHN0_SENSOR_IMX458_10BIT_4M_NOWDR_ATTR = mipi_rx 0 0 2716 1524 DATA_TYPE_RAW_10BIT HI_MIPI_WDR_MODE_NONE [0, 1, 2, 3]"
definition MIPI_4lane_CHN0_SENSOR_IMX458_10BIT_2M_NOWDR_ATTR :: combo_attr where
  "MIPI_4lane_CHN0_SENSOR_IMX458_10BIT_2M_NOWDR_ATTR = mipi_rx 0 0 1920 1080 DATA_TYPE_RAW_10BIT HI_MIPI_WDR_MODE_NONE [0, 1, 2, 3]"
definition MIPI_4lane_CHN0_SENSOR_IMX458_10BIT_1M_NOWDR_ATTR :: combo_attr where
  "MIPI_4lane_CHN0_SENSOR_IMX458_10BIT_1M_NOWDR_ATTR = mipi_rx 0 0 1280 720 DATA_TYPE_RAW_10BIT HI_MIPI_WDR_MODE_NONE [0, 1, 2, 3]"
definition MIPI_2lane_CHN0_SENSOR_OS04B10_10BIT_4M_NOWDR_ATTR :: combo_attr where
  "MIPI_2lane_CHN0_SENSOR_OS04B10_10BIT_4M_NOWDR_ATTR = mipi_rx 0 0 2560 1440 DATA_TYPE_RAW_10BIT HI_MIPI_WDR_MODE_NONE [0, 1, -1, -1]"
definition MIPI_4lane_CHN0_SENSOR_OS05A_12BIT_4M_NOWDR_ATTR :: combo_attr where
  "MIPI_4lane_CHN0_SENSOR_OS05A_12BIT_4M_NOWDR_ATTR = mipi_rx 0 204 2688 1536 DATA_TYPE_RAW_12BIT HI_MIPI_WDR_MODE_NONE [0, 1, 2, 3]"
definition MIPI_4lane_CHN0_SENSOR_OS05A_10BIT_4M_WDR2TO1_ATTR :: combo_attr where
  "MIPI_4lane_CHN0_SENSOR_OS05A_10BIT_4M_WDR2TO1_ATTR = mipi_rx 0 204 2688 1536 DATA_TYPE_RAW_10BIT HI_MIPI_WDR_MODE_VC [0, 1, 2, 3]"
definition MIPI_4lane_CHN0_SENSOR_OS08A10_10BIT_8M_NOWDR_ATTR :: combo_attr where
  "MIPI_4lane_CHN0_SENSOR_OS08A10_10BIT_8M_NOWDR_ATTR = mipi_rx 0 0 3840 2160 DATA_TYPE_RAW_10BIT HI_MIPI_WDR_MODE_NONE [0, 1, 2, 3]"
definition MIPI_2lane_CHN0_SENSOR_GC2053_10BIT_2M_NOWDR_ATTR :: combo_attr where
  "MIPI_2lane_CHN0_SENSOR_GC2053_10BIT_2M_NOWDR_ATTR = mipi_rx 0 0 1920 1080 DATA_TYPE_RAW_10BIT HI_MIPI_WDR_MODE_NONE [0, 1, -1, -1]"
definition MIPI_4lane_CHN0_SENSOR_OV12870_10BIT_8M_NOWDR_ATTR :: combo_attr where
  "MIPI_4lane_CHN0_SENSOR_OV12870_10BIT_8M_NOWDR_ATTR = mipi_rx 0 0 3840 2160 DATA_TYPE_RAW_10BIT HI_MIPI_WDR_MODE_NONE [0, 1, 2, 3]"
definition MIPI_4lane_CHN0_SENSOR_OV12870_10BIT_12M_NOWDR_ATTR :: combo_attr where
  "MIPI_4lane_CHN0_SENSOR_OV12870_10BIT_12M_NOWDR_ATTR = mipi_rx 0 0 4000 3000 DATA_TYPE_RAW_10BIT HI_MIPI_WDR_MODE_NONE [0, 1, 2, 3]"
definition MIPI_4lane_CHN0_SENSOR_OV12870_10BIT_2M_NOWDR_ATTR :: combo_attr where
  "MIPI_4lane_CHN0_SENSOR_OV12870_10BIT_2M_NOWDR_ATTR = mipi_rx 0 0 1920 1080 DATA_TYPE_RAW_10BIT HI_MIPI_WDR_MODE_NONE [0, 1, 2, 3]"
definition MIPI_4lane_CHN0_SENSOR_OV12870_10BIT_1M_NOWDR_ATTR :: combo_attr where
  "MIPI_4lane_CHN0_SENSOR_OV12870_10BIT_1M_NOWDR_ATTR = mipi_rx 0 0 1280 720 DATA_TYPE_RAW_10BIT HI_MIPI_WDR_MODE_NONE [0, 1, 2, 3]"
definition MIPI_4lane_CHN0_SENSOR_IMX415_12BIT_8M_NOWDR_ATTR :: combo_attr where
  "MIPI_4lane_CHN0_SENSOR_IMX415_12BIT_8M_NOWDR_ATTR = mipi_rx 0 0 3840 2160 DATA_TYPE_RAW_12BIT HI_MIPI_WDR_MODE_NONE [0, 1, 2, 3]"

definition DEV_ATTR_IMX327_2M_BASE :: dev_attr where
  "DEV_ATTR_IMX327_2M_BASE = vi_dev_attr VI_MODE_MIPI 0xFFF00000 1920 1080"
definition DEV_ATTR_IMX307_2M_BASE :: dev_attr where
  "DEV_ATTR_IMX307_2M_BASE = vi_dev_attr VI_MODE_MIPI 0xFFF00000 1920 1080"
definition DEV_ATTR_MN34220_2M_BASE :: dev_attr where
  "DEV_ATTR_MN34220_2M_BASE = vi_dev_attr VI_MODE_LVDS 0xFFF00000 1920 1080"
definition DEV_ATTR_IMX335_5M_BASE :: dev_attr where
  "DEV_ATTR_IMX335_5M_BASE = vi_dev_attr VI_MODE_MIPI 0xFFF00000 2592 1944"
definition DEV_ATTR_IMX335_4M_BASE :: dev_attr where
  "DEV_ATTR_IMX335_4M_BASE = vi_dev_attr VI_MODE_MIPI 0xFFF00000 2592 1536"
definition DEV_ATTR_SC4210_3M_BASE :: dev_attr where
  "DEV_ATTR_SC4210_3M_BASE = vi_dev_attr VI_MODE_MIPI 0xFFF00000 2560 1440"
definition DEV_ATTR_IMX458_8M_BASE :: dev_attr where
  "DEV_ATTR_IMX458_8M_BASE = vi_dev_attr VI_MODE_MIPI 0xFFC00000 3840 2160"
definition DEV_ATTR_IMX458_12M_BASE :: dev_attr where
  "DEV_ATTR_IMX458_12M_BASE = vi_dev_attr VI_MODE_MIPI 0xFFC00000 4000 3000"
definition DEV_ATTR_IMX458_4M_BASE :: dev_attr where
  "DEV_ATTR_IMX458_4M_BASE = vi_dev_attr VI_MODE_MIPI 0xFFC00000 2716 1524"
definition DEV_ATTR_IMX458_2M_BASE :: dev_attr where
  "DEV_ATTR_IMX458_2M_BASE = vi_dev_attr VI_MODE_MIPI 0xFFC00000 1920 1080"
definition DEV_ATTR_IMX458_1M_BASE :: dev_attr where
  "DEV_ATTR_IMX458_1M_BASE = vi_dev_attr VI_MODE_MIPI 0xFFC00000 1280 720"
definition DEV_ATTR_OS04B10_4M_BASE :: dev_attr where
  "DEV_ATTR_OS04B10_4M_BASE = vi_dev_attr VI_MODE_MIPI 0xFFF00000 2560 1440"
definition DEV_ATTR_OS05A_4M_BASE :: dev_attr where
  "DEV_ATTR_OS05A_4M_BASE = vi_dev_attr VI_MODE_MIPI 0xFFF00000 2688 1536"
definition DEV_ATTR_OS08A10_8M_BASE :: dev_attr where
  "DEV_ATTR_OS08A10_8M_BASE = vi_dev_attr VI_MODE_MIPI 0xFFC00000 3840 2160"
definition DEV_ATTR_GC2053_2M_BASE :: dev_attr where
  "DEV_ATTR_GC2053_2M_BASE = vi_dev_attr VI_MODE_MIPI 0xFFC00000 1920 1080"
definition DEV_ATTR_OV12870_8M_BASE :: dev_attr where
  "DEV_ATTR_OV12870_8M_BASE = vi_dev_attr VI_MODE_MIPI 0xFFC00000 3840 2160"
definition DEV_ATTR_OV12870_12M_BASE :: dev_attr where
  "DEV_ATTR_OV12870_12M_BASE = vi_dev_attr VI_MODE_MIPI 0xFFC00000 4000 3000"
definition DEV_ATTR_OV12870_2M_BASE :: dev_attr where
  "DEV_ATTR_OV12870_2M_BASE = vi_dev_attr VI_MODE_MIPI 0xFFC00000 1920 1080"
definition DEV_ATTR_OV12870_1M_BASE :: dev_attr where
  "DEV_ATTR_OV12870_1M_BASE = vi_dev_attr VI_MODE_MIPI 0xFFC00000 1280 720"
definition DEV_ATTR_IMX415_8M_BASE :: dev_attr where
  "DEV_ATTR_IMX415_8M_BASE = vi_dev_attr VI_MODE_MIPI 0xFFF00000 3840 2160"

definition PIPE_ATTR_1920x1080_RAW12_420 :: pipe_attr where
  "PIPE_ATTR_1920x1080_RAW12_420 = vi_pipe_attr 1920 1080 RGB_BAYER_12BPP COMPRESS_MODE_LINE 12 False"
definition PIPE_ATTR_1920x1080_RAW12_420_3DNR_RFR :: pipe_attr where
  "PIPE_ATTR_1920x1080_RAW12_420_3DNR_RFR = vi_pipe_attr 1920 1080 RGB_BAYER_12BPP COMPRESS_MODE_NONE 12 False"
definition PIPE_ATTR_1920x1080_RAW12_420_3DNR_CHN0 :: pipe_attr where
  "PIPE_ATTR_1920x1080_RAW12_420_3DNR_CHN0 = (vi_pipe_attr 1920 1080 RGB_BAYER_12BPP COMPRESS_MODE_LINE 12 True)\<lparr>pa_ref := VI_NR_REF_FROM_CHN0\<rparr>"
definition PIPE_ATTR_2592x1944_RAW12_420_3DNR_RFR :: pipe_attr where
  "PIPE_ATTR_2592x1944_RAW12_420_3DNR_RFR = vi_pipe_attr 2592 1944 RGB_BAYER_12BPP COMPRESS_MODE_LINE 12 False"
definition PIPE_ATTR_2592x1944_RAW10_420_3DNR_RFR :: pipe_attr where
  "PIPE_ATTR_2592x1944_RAW10_420_3DNR_RFR = vi_pipe_attr 2592 1944 RGB_BAYER_10BPP COMPRESS_MODE_LINE 10 False"
definition PIPE_ATTR_2592x1536_RAW12_420_3DNR_RFR :: pipe_attr where
  "PIPE_ATTR_2592x1536_RAW12_420_3DNR_RFR = vi_pipe_attr 2592 1536 RGB_BAYER_12BPP COMPRESS_MODE_LINE 12 False"
definition PIPE_ATTR_2592x1536_RAW10_420_3DNR_RFR :: pipe_attr where
  "PIPE_ATTR_2592x1536_RAW10_420_3DNR_RFR = vi_pipe_attr 2592 1536 RGB_BAYER_10BPP COMPRESS_MODE_LINE 10 False"
definition PIPE_ATTR_2560x1440_RAW12_420_3DNR_RFR :: pipe_attr where
  "PIPE_ATTR_2560x1440_RAW12_420_3DNR_RFR = vi_pipe_attr 2560 1440 RGB_BAYER_12BPP COMPRESS_MODE_NONE 12 False"
definition PIPE_ATTR_2560x1440_RAW10_420_3DNR_RFR :: pipe_attr where
  "PIPE_ATTR_2560x1440_RAW10_420_3DNR_RFR = vi_pipe_attr 2560 1440 RGB_BAYER_10BPP COMPRESS_MODE_NONE 10 False"
definition PIPE_ATTR_3840x2160_RAW10_420_3DNR_RFR :: pipe_attr where
  "PIPE_ATTR_3840x2160_RAW10_420_3DNR_RFR = vi_pipe_attr 3840 2160 RGB_BAYER_10BPP COMPRESS_MODE_LINE 10 True"
definition PIPE_ATTR_3840x2160_RAW12_420_3DNR_RFR :: pipe_attr where
  "PIPE_ATTR_3840x2160_RAW12_420_3DNR_RFR = vi_pipe_attr 3840 2160 RGB_BAYER_12BPP COMPRESS_MODE_LINE 12 True"
definition PIPE_ATTR_4000x3000_RAW10_420_3DNR_RFR :: pipe_attr where
  "PIPE_ATTR_4000x3000_RAW10_420_3DNR_RFR = vi_pipe_attr 4000 3000 RGB_BAYER_10BPP COMPRESS_MODE_LINE 10 True"
definition PIPE_ATTR_2716x1524_RAW10_420_3DNR_RFR :: pipe_attr where
  "PIPE_ATTR_2716x1524_RAW10_420_3DNR_RFR = vi_pipe_attr 2716 1524 RGB_BAYER_10BPP COMPRESS_MODE_LINE 10 True"
definition PIPE_ATTR_1920x1080_RAW10_420_3DNR_RFR :: pipe_attr where
  "PIPE_ATTR_1920x1080_RAW10_420_3DNR_RFR = vi_pipe_attr 1920 1080 RGB_BAYER_10BPP COMPRESS_MODE_LINE 10 True"
definition PIPE_ATTR_1280x720_RAW10_420_3DNR_RFR :: pipe_attr where
  "PIPE_ATTR_1280x720_RAW10_420_3DNR_RFR = vi_pipe_attr 1280 720 RGB_BAYER_10BPP COMPRESS_MODE_LINE 10 True"
definition PIPE_ATTR_2688x1536_RAW12_420_3DNR_RFR :: pipe_attr where
  "PIPE_ATTR_2688x1536_RAW12_420_3DNR_RFR = vi_pipe_attr 2688 1536 RGB_BAYER_12BPP COMPRESS_MODE_LINE 12 False"
definition PIPE_ATTR_2688x1536_RAW10_420_3DNR_RFR :: pipe_attr where
  "PIPE_ATTR_2688x1536_RAW10_420_3DNR_RFR = vi_pipe_attr 2688 1536 RGB_BAYER_10BPP COMPRESS_MODE_LINE 10 False"

definition CHN_ATTR_1920x1080_422_SDR8_LINEAR :: chn_attr where
  "CHN_ATTR_1920x1080_422_SDR8_LINEAR = vi_chn_attr 1920 1080 YVU_SEMIPLANAR_422"
definition CHN_ATTR_1920x1080_420_SDR8_LINEAR :: chn_attr where
  "CHN_ATTR_1920x1080_420_SDR8_LINEAR = vi_chn_attr 1920 1080 YVU_SEMIPLANAR_420"
definition CHN_ATTR_1920x1080_400_SDR8_LINEAR :: chn_attr where
  "CHN_ATTR_1920x1080_400_SDR8_LINEAR = vi_chn_attr 1920 1080 YUV_400"
definition CHN_ATTR_2592x1944_420_SDR8_LINEAR :: chn_attr where
  "CHN_ATTR_2592x1944_420_SDR8_LINEAR = vi_chn_attr 2592 1944 YVU_SEMIPLANAR_420"
definition CHN_ATTR_2592x1536_420_SDR8_LINEAR :: chn_attr where
  "CHN_ATTR_2592x1536_420_SDR8_LINEAR = vi_chn_attr 2592 1536 YVU_SEMIPLANAR_420"
definition CHN_ATTR_2560x1440_420_SDR8_LINEAR :: chn_attr where
  "CHN_ATTR_2560x1440_420_SDR8_LINEAR = vi_chn_attr 2560 1440 YVU_SEMIPLANAR_420"
definition CHN_ATTR_4000x3000_420_SDR8_LINEAR :: chn_attr where
  "CHN_ATTR_4000x3000_420_SDR8_LINEAR = vi_chn_attr 4000 3000 YVU_SEMIPLANAR_420"
definition CHN_ATTR_3840x2160_420_SDR8_LINEAR :: chn_attr where
  "CHN_ATTR_3840x2160_420_SDR8_LINEAR = vi_chn_attr 3840 2160 YVU_SEMIPLANAR_420"
definition CHN_ATTR_2716x1524_420_SDR8_LINEAR :: chn_attr where
  "CHN_ATTR_2716x1524_420_SDR8_LINEAR = vi_chn_attr 2716 1524 YVU_SEMIPLANAR_420"
definition CHN_ATTR_1280x720_420_SDR8_LINEAR :: chn_attr where
  "CHN_ATTR_1280x720_420_SDR8_LINEAR = vi_chn_attr 1280 720 YVU_SEMIPLANAR_420"
definition CHN_ATTR_2688x1536_420_SDR8_LINEAR :: chn_attr where
  "CHN_ATTR_2688x1536_420_SDR8_LINEAR = vi_chn_attr 2688 1536 YVU_SEMIPLANAR_420"

definition ISP_PUB_ATTR_IMX327_2M_30FPS :: isp_attr where
  "ISP_PUB_ATTR_IMX327_2M_30FPS = isp_pub 1920 1080 (1920, 1080) 30 BAYER_RGGB WDR_MODE_NONE 0"
definition ISP_PUB_ATTR_IMX327_MIPI_2M_30FPS_WDR2TO1_LINE :: isp_attr where
  "ISP_PUB_ATTR_IMX327_MIPI_2M_30FPS_WDR2TO1_LINE = isp_pub 1920 1080 (1920, 1080) 30 BAYER_RGGB WDR_MODE_2To1_LINE 0"
definition ISP_PUB_ATTR_IMX307_MIPI_2M_30FPS :: isp_attr where
  "ISP_PUB_ATTR_IMX307_MIPI_2M_30FPS = isp_pub 1920 1080 (1920, 1080) 30 BAYER_RGGB WDR_MODE_NONE 0"
definition ISP_PUB_ATTR_IMX307_MIPI_2M_30FPS_WDR2TO1_LINE :: isp_attr where
  "ISP_PUB_ATTR_IMX307_MIPI_2M_30FPS_WDR2TO1_LINE = isp_pub 1920 1080 (1920, 1080) 30 BAYER_RGGB WDR_MODE_2To1_LINE 0"
definition ISP_PUB_ATTR_MN34220_LVDS_2M_30FPS :: isp_attr where
  "ISP_PUB_ATTR_MN34220_LVDS_2M_30FPS = isp_pub 1920 1080 (1920, 1080) 30 BAYER_GRBG WDR_MODE_NONE 0"
definition ISP_PUB_ATTR_IMX335_MIPI_5M_30FPS :: isp_attr where
  "ISP_PUB_ATTR_IMX335_MIPI_5M_30FPS = isp_pub 2592 1944 (2592, 1944) 30 BAYER_RGGB WDR_MODE_NONE 0"
definition ISP_PUB_ATTR_IMX335_MIPI_5M_30FPS_WDR2TO1 :: isp_attr where
  "ISP_PUB_ATTR_IMX335_MIPI_5M_30FPS_WDR2TO1 = isp_pub 2592 1944 (2592, 1944) 30 BAYER_RGGB WDR_MODE_2To1_LINE 0"
definition ISP_PUB_ATTR_IMX335_MIPI_4M_30FPS :: isp_attr where
  "ISP_PUB_ATTR_IMX335_MIPI_4M_30FPS = isp_pub 2592 1536 (2592, 1944) 30 BAYER_RGGB WDR_MODE_NONE 0"
definition ISP_PUB_ATTR_IMX335_MIPI_4M_30FPS_WDR2TO1 :: isp_attr where
  "ISP_PUB_ATTR_IMX335_MIPI_4M_30FPS_WDR2TO1 = isp_pub 2592 1536 (2592, 1944) 30 BAYER_RGGB WDR_MODE_2To1_LINE 0"
definition ISP_PUB_ATTR_IMX458_MIPI_8M_30FPS :: isp_attr where
  "ISP_PUB_ATTR_IMX458_MIPI_8M_30FPS = isp_pub 3840 2160 (3840, 2160) 30 BAYER_RGGB WDR_MODE_NONE 0"
definition ISP_PUB_ATTR_SC4210_MIPI_3M_30FPS :: isp_attr where
  "ISP_PUB_ATTR_SC4210_MIPI_3M_30FPS = isp_pub 2560 1440 (2560, 1440) 30 BAYER_BGGR WDR_MODE_NONE 0"
definition ISP_PUB_ATTR_SC4210_MIPI_3M_30FPS_WDR2TO1 :: isp_attr where
  "ISP_PUB_ATTR_SC4210_MIPI_3M_30FPS_WDR2TO1 = isp_pub 2560 1440 (2560, 1440) 30 BAYER_BGGR WDR_MODE_2To1_LINE 0"
definition ISP_PUB_ATTR_IMX458_MIPI_12M_20FPS :: isp_attr where
  "ISP_PUB_ATTR_IMX458_MIPI_12M_20FPS = isp_pub 4000 3000 (4000, 3000) (1998 / 100) BAYER_RGGB WDR_MODE_NONE 0"
definition ISP_PUB_ATTR_IMX458_MIPI_4M_60FPS :: isp_attr where
  "ISP_PUB_ATTR_IMX458_MIPI_4M_60FPS = isp_pub 2716 1524 (2716, 1524) (5994 / 100) BAYER_RGGB WDR_MODE_NONE 0"
definition ISP_PUB_ATTR_IMX458_MIPI_4M_40FPS :: isp_attr where
  "ISP_PUB_ATTR_IMX458_MIPI_4M_40FPS = isp_pub 2716 1524 (2716, 1524) (4062 / 100) BAYER_RGGB WDR_MODE_NONE 1"
definition ISP_PUB_ATTR_IMX458_MIPI_2M_90FPS :: isp_attr where
  "ISP_PUB_ATTR_IMX458_MIPI_2M_90FPS = isp_pub 1920 1080 (1920, 1080) (9011 / 100) BAYER_RGGB WDR_MODE_NONE 0"
definition ISP_PUB_ATTR_IMX458_MIPI_1M_129FPS :: isp_attr where
  "ISP_PUB_ATTR_IMX458_MIPI_1M_129FPS = isp_pub 1280 720 (1280, 720) (12880 / 100) BAYER_RGGB WDR_MODE_NONE 0"
definition ISP_PUB_ATTR_OS04B10_MIPI_4M_30FPS :: isp_attr where
  "ISP_PUB_ATTR_OS04B10_MIPI_4M_30FPS = isp_pub 2560 1440 (2560, 1440) 30 BAYER_GBRG WDR_MODE_NONE 0"
definition ISP_PUB_ATTR_OS05A_MIPI_4M_30FPS :: isp_attr where
  "ISP_PUB_ATTR_OS05A_MIPI_4M_30FPS = isp_pub 2688 1536 (2688, 1944) 30 BAYER_BGGR WDR_MODE_NONE 0"
definition ISP_PUB_ATTR_OS05A_MIPI_4M_30FPS_WDR2TO1 :: isp_attr where
  "ISP_PUB_ATTR_OS05A_MIPI_4M_30FPS_WDR2TO1 = isp_pub 2688 1536 (2688, 1944) 30 BAYER_BGGR WDR_MODE_2To1_LINE 0"
definition ISP_PUB_ATTR_OS08A10_MIPI_8M_30FPS :: isp_attr where
  "ISP_PUB_ATTR_OS08A10_MIPI_8M_30FPS = isp_pub 3840 2160 (3840, 2160) 30 BAYER_BGGR WDR_MODE_NONE 0"
definition ISP_PUB_ATTR_GC2053_MIPI_2M_30FPS :: isp_attr where
  "ISP_PUB_ATTR_GC2053_MIPI_2M_30FPS = isp_pub 1920 1080 (1920, 1080) 30 BAYER_RGGB WDR_MODE_NONE 0"
definition ISP_PUB_ATTR_OV12870_MIPI_1M_240FPS :: isp_attr where
  "ISP_PUB_ATTR_OV12870_MIPI_1M_240FPS = isp_pub 1280 720 (1280, 720) 240 BAYER_BGGR WDR_MODE_NONE 0"
definition ISP_PUB_ATTR_OV12870_MIPI_2M_120FPS :: isp_attr where
  "ISP_PUB_ATTR_OV12870_MIPI_2M_120FPS = isp_pub 1920 1080 (1920, 1080) 120 BAYER_BGGR WDR_MODE_NONE 0"
definition ISP_PUB_ATTR_OV12870_MIPI_8M_30FPS :: isp_attr where
  "ISP_PUB_ATTR_OV12870_MIPI_8M_30FPS = isp_pub 3840 2160 (3840, 2160) 30 BAYER_BGGR WDR_MODE_NONE 0"
definition ISP_PUB_ATTR_OV12870_MIPI_12M_30FPS :: isp_attr where
  "ISP_PUB_ATTR_OV12870_MIPI_12M_30FPS = isp_pub 4000 3000 (4000, 3000) 30 BAYER_BGGR WDR_MODE_NONE 0"
definition ISP_PUB_ATTR_IMX415_MIPI_8M_30FPS :: isp_attr where
  "ISP_PUB_ATTR_IMX415_MIPI_8M_30FPS = isp_pub 3840 2160 (3840, 2160) 30 BAYER_GBRG WDR_MODE_NONE 0"
definition ISP_PUB_ATTR_IMX415_MIPI_8M_20FPS :: isp_attr where
  "ISP_PUB_ATTR_IMX415_MIPI_8M_20FPS = isp_pub 3840 2160 (3840, 2160) 20 BAYER_GBRG WDR_MODE_NONE 1"

section \<open>Looking a sensor up\<close>

text \<open>For a sensor with two lanes the receiver decides; for an unknown receiver nothing is written (\<open>None\<close>).\<close>

fun GetComboAttrBySns :: "sns_type \<Rightarrow> int \<Rightarrow> combo_attr option" where
  "GetComboAttrBySns SONY_IMX327_MIPI_2M_30FPS_12BIT d = Some MIPI_4lane_CHN0_SENSOR_IMX327_12BIT_2M_NOWDR_ATTR"
| "GetComboAttrBySns SONY_IMX327_MIPI_2M_30FPS_12BIT_WDR2TO1 d = Some MIPI_4lane_CHN0_SENSOR_IMX327_12BIT_2M_WDR2to1_ATTR"
| "GetComboAttrBySns SONY_IMX327_2L_MIPI_2M_30FPS_12BIT d = (if d = 0 then Some MIPI_2lane_CHN0_SENSOR_IMX327_12BIT_2M_NOWDR_ATTR else if d = 1 then Some MIPI_2lane_CHN1_SENSOR_IMX327_12BIT_2M_NOWDR_ATTR else None)"
| "GetComboAttrBySns SONY_IMX327_2L_MIPI_2M_30FPS_12BIT_WDR2TO1 d = (if d = 0 then Some MIPI_2lane_CHN0_SENSOR_IMX327_12BIT_2M_WDR2to1_ATTR else if d = 1 then Some MIPI_2lane_CHN1_SENSOR_IMX327_12BIT_2M_WDR2to1_ATTR else None)"
| "GetComboAttrBySns SONY_IMX307_MIPI_2M_30FPS_12BIT d = Some MIPI_4lane_CHN0_SENSOR_IMX307_12BIT_2M_NOWDR_ATTR"
| "GetComboAttrBySns SONY_IMX307_MIPI_2M_30FPS_12BIT_WDR2TO1 d = Some MIPI_4lane_CHN0_SENSOR_IMX307_12BIT_2M_WDR2to1_ATTR"
| "GetComboAttrBySns SONY_IMX307_2L_MIPI_2M_30FPS_12BIT d = (if d = 0 then Some MIPI_2lane_CHN0_SENSOR_IMX307_12BIT_2M_NOWDR_ATTR else if d = 1 then Some MIPI_2lane_CHN1_SENSOR_IMX307_12BIT_2M_NOWDR_ATTR else None)"
| "GetComboAttrBySns SONY_IMX307_2L_MIPI_2M_30FPS_12BIT_WDR2TO1 d = (if d = 0 then Some MIPI_2lane_CHN0_SENSOR_IMX307_12BIT_2M_WDR2to1_ATTR else if d = 1 then Some MIPI_2lane_CHN1_SENSOR_IMX307_12BIT_2M_WDR2to1_ATTR else None)"
| "GetComboAttrBySns PANASONIC_MN34220_LVDS_2M_30FPS_12BIT d = Some LVDS_4lane_CHN0_SENSOR_MN34220_12BIT_2M_NOWDR_ATTR"
| "GetComboAttrBySns SONY_IMX335_MIPI_5M_30FPS_12BIT d = Some MIPI_4lane_CHN0_SENSOR_IMX335_12BIT_5M_NOWDR_ATTR"
| "GetComboAttrBySns SONY_IMX335_MIPI_5M_30FPS_10BIT_WDR2TO1 d = Some MIPI_4lane_CHN0_SENSOR_IMX335_10BIT_5M_WDR2TO1_ATTR"
| "GetComboAttrBySns SONY_IMX335_MIPI_4M_30FPS_12BIT d = Some MIPI_4lane_CHN0_SENSOR_IMX335_12BIT_4M_NOWDR_ATTR"
| "GetComboAttrBySns SONY_IMX335_MIPI_4M_30FPS_10BIT_WDR2TO1 d = Some MIPI_4lane_CHN0_SENSOR_IMX335_10BIT_4M_WDR2TO1_ATTR"
| "GetComboAttrBySns SMART_SC4210_MIPI_3M_30FPS_12BIT d = Some MIPI_4lane_CHN0_SENSOR_SC4210_12BIT_3M_NOWDR_ATTR"
| "GetComboAttrBySns SMART_SC4210_MIPI_3M_30FPS_10BIT_WDR2TO1 d = Some MIPI_4lane_CHN0_SENSOR_SC4210_10BIT_3M_WDR2TO1_ATTR"
| "GetComboAttrBySns SONY_IMX458_MIPI_8M_30FPS_10BIT d = Some MIPI_4lane_CHN0_SENSOR_IMX458_10BIT_8M_NOWDR_ATTR"
| "GetComboAttrBySns SONY_IMX458_MIPI_12M_20FPS_10BIT d = Some MIPI_4lane_CHN0_SENSOR_IMX458_10BIT_12M_NOWDR_ATTR"
| "GetComboAttrBySns SONY_IMX458_MIPI_4M_60FPS_10BIT d = Some MIPI_4lane_CHN0_SENSOR_IMX458_10BIT_4M_NOWDR_ATTR"
| "GetComboAttrBySns SONY_IMX458_MIPI_4M_40FPS_10BIT d = Some MIPI_4lane_CHN0_SENSOR_IMX458_10BIT_4M_NOWDR_ATTR"
| "GetComboAttrBySns SONY_IMX458_MIPI_2M_90FPS_10BIT d = Some MIPI_4lane_CHN0_SENSOR_IMX458_10BIT_2M_NOWDR_ATTR"
| "GetComboAttrBySns SONY_IMX458_MIPI_1M_129FPS_10BIT d = Some MIPI_4lane_CHN0_SENSOR_IMX458_10BIT_1M_NOWDR_ATTR"
| "GetComboAttrBySns OMNIVISION_OS04B10_MIPI_4M_30FPS_10BIT d = Some MIPI_2lane_CHN0_SENSOR_OS04B10_10BIT_4M_NOWDR_ATTR"
| "GetComboAttrBySns OMNIVISION_OS05A_MIPI_4M_30FPS_12BIT d = Some MIPI_4lane_CHN0_SENSOR_OS05A_12BIT_4M_NOWDR_ATTR"
| "GetComboAttrBySns OMNIVISION_OS05A_MIPI_4M_30FPS_10BIT_WDR2TO1 d = Some MIPI_4lane_CHN0_SENSOR_OS05A_10BIT_4M_WDR2TO1_ATTR"
| "GetComboAttrBySns OMNIVISION_OS08A10_MIPI_8M_30FPS_10BIT d = Some MIPI_4lane_CHN0_SENSOR_OS08A10_10BIT_8M_NOWDR_ATTR"
| "GetComboAttrBySns GALAXYCORE_GC2053_MIPI_2M_30FPS_10BIT d = Some MIPI_2lane_CHN0_SENSOR_GC2053_10BIT_2M_NOWDR_ATTR"
| "GetComboAttrBySns OMNIVISION_OV12870_MIPI_8M_30FPS_10BIT d = Some MIPI_4lane_CHN0_SENSOR_OV12870_10BIT_8M_NOWDR_ATTR"
| "GetComboAttrBySns OMNIVISION_OV12870_MIPI_12M_30FPS_10BIT d = Some MIPI_4lane_CHN0_SENSOR_OV12870_10BIT_12M_NOWDR_ATTR"
| "GetComboAttrBySns OMNIVISION_OV12870_MIPI_2M_120FPS_10BIT d = Some MIPI_4lane_CHN0_SENSOR_OV12870_10BIT_2M_NOWDR_ATTR"
| "GetComboAttrBySns OMNIVISION_OV12870_MIPI_1M_240FPS_10BIT d = Some MIPI_4lane_CHN0_SENSOR_OV12870_10BIT_1M_NOWDR_ATTR"
| "GetComboAttrBySns SONY_IMX415_MIPI_8M_30FPS_12BIT d = Some MIPI_4lane_CHN0_SENSOR_IMX415_12BIT_8M_NOWDR_ATTR"
| "GetComboAttrBySns SONY_IMX415_MIPI_8M_20FPS_12BIT d = Some MIPI_4lane_CHN0_SENSOR_IMX415_12BIT_8M_NOWDR_ATTR"
| "GetComboAttrBySns _ _ = Some MIPI_4lane_CHN0_SENSOR_IMX327_12BIT_2M_NOWDR_ATTR"

fun GetDevAttrBySns :: "sns_type \<Rightarrow> dev_attr" where
  "GetDevAttrBySns SONY_IMX327_MIPI_2M_30FPS_12BIT = DEV_ATTR_IMX327_2M_BASE"
| "GetDevAttrBySns SONY_IMX327_2L_MIPI_2M_30FPS_12BIT = DEV_ATTR_IMX327_2M_BASE"
| "GetDevAttrBySns SONY_IMX327_2L_MIPI_2M_30FPS_12BIT_WDR2TO1 = DEV_ATTR_IMX327_2M_BASE"
| "GetDevAttrBySns SONY_IMX327_MIPI_2M_30FPS_12BIT_WDR2TO1 = DEV_ATTR_IMX327_2M_BASE\<lparr>da_mask := (0xFFC00000, 0)\<rparr>"
| "GetDevAttrBySns SONY_IMX307_MIPI_2M_30FPS_12BIT = DEV_ATTR_IMX307_2M_BASE"
| "GetDevAttrBySns SONY_IMX307_2L_MIPI_2M_30FPS_12BIT = DEV_ATTR_IMX307_2M_BASE"
| "GetDevAttrBySns SONY_IMX307_MIPI_2M_30FPS_12BIT_WDR2TO1 = DEV_ATTR_IMX307_2M_BASE\<lparr>da_mask := (0xFFC00000, 0)\<rparr>"
| "GetDevAttrBySns SONY_IMX307_2L_MIPI_2M_30FPS_12BIT_WDR2TO1 = DEV_ATTR_IMX307_2M_BASE\<lparr>da_mask := (0xFFC00000, 0)\<rparr>"
| "GetDevAttrBySns PANASONIC_MN34220_LVDS_2M_30FPS_12BIT = DEV_ATTR_MN34220_2M_BASE"
| "GetDevAttrBySns SONY_IMX335_MIPI_5M_30FPS_12BIT = DEV_ATTR_IMX335_5M_BASE"
| "GetDevAttrBySns SONY_IMX335_MIPI_5M_30FPS_10BIT_WDR2TO1 = DEV_ATTR_IMX335_5M_BASE\<lparr>da_mask := (0xFFC00000, 0)\<rparr>"
| "GetDevAttrBySns SONY_IMX335_MIPI_4M_30FPS_12BIT = DEV_ATTR_IMX335_4M_BASE"
| "GetDevAttrBySns SONY_IMX335_MIPI_4M_30FPS_10BIT_WDR2TO1 = DEV_ATTR_IMX335_4M_BASE\<lparr>da_mask := (0xFFC00000, 0)\<rparr>"
| "GetDevAttrBySns SMART_SC4210_MIPI_3M_30FPS_12BIT = DEV_ATTR_SC4210_3M_BASE"
| "GetDevAttrBySns SMART_SC4210_MIPI_3M_30FPS_10BIT_WDR2TO1 = DEV_ATTR_SC4210_3M_BASE"
| "GetDevAttrBySns SONY_IMX458_MIPI_8M_30FPS_10BIT = DEV_ATTR_IMX458_8M_BASE"
| "GetDevAttrBySns SONY_IMX458_MIPI_12M_20FPS_10BIT = DEV_ATTR_IMX458_12M_BASE"
| "GetDevAttrBySns SONY_IMX458_MIPI_4M_60FPS_10BIT = DEV_ATTR_IMX458_4M_BASE"
| "GetDevAttrBySns SONY_IMX458_MIPI_4M_40FPS_10BIT = DEV_ATTR_IMX458_4M_BASE"
| "GetDevAttrBySns SONY_IMX458_MIPI_2M_90FPS_10BIT = DEV_ATTR_IMX458_2M_BASE"
| "GetDevAttrBySns SONY_IMX458_MIPI_1M_129FPS_10BIT = DEV_ATTR_IMX458_1M_BASE"
| "GetDevAttrBySns GALAXYCORE_GC2053_MIPI_2M_30FPS_10BIT = DEV_ATTR_GC2053_2M_BASE\<lparr>da_mask := (0xFFC00000, 0)\<rparr>"
| "GetDevAttrBySns OMNIVISION_OV12870_MIPI_8M_30FPS_10BIT = DEV_ATTR_OV12870_8M_BASE"
| "GetDevAttrBySns OMNIVISION_OV12870_MIPI_12M_30FPS_10BIT = DEV_ATTR_OV12870_12M_BASE"
| "GetDevAttrBySns OMNIVISION_OV12870_MIPI_2M_120FPS_10BIT = DEV_ATTR_OV12870_2M_BASE"
| "GetDevAttrBySns OMNIVISION_OV12870_MIPI_1M_240FPS_10BIT = DEV_ATTR_OV12870_1M_BASE"
| "GetDevAttrBySns OMNIVISION_OS04B10_MIPI_4M_30FPS_10BIT = DEV_ATTR_OS04B10_4M_BASE"
| "GetDevAttrBySns OMNIVISION_OS05A_MIPI_4M_30FPS_12BIT = DEV_ATTR_OS05A_4M_BASE"
| "GetDevAttrBySns OMNIVISION_OS05A_MIPI_4M_30FPS_10BIT_WDR2TO1 = DEV_ATTR_OS05A_4M_BASE\<lparr>da_mask := (0xFFC00000, 0)\<rparr>"
| "GetDevAttrBySns OMNIVISION_OS08A10_MIPI_8M_30FPS_10BIT = DEV_ATTR_OS08A10_8M_BASE\<lparr>da_mask := (0xFFC00000, 0)\<rparr>"
| "GetDevAttrBySns SONY_IMX415_MIPI_8M_30FPS_12BIT = DEV_ATTR_IMX415_8M_BASE"
| "GetDevAttrBySns SONY_IMX415_MIPI_8M_20FPS_12BIT = DEV_ATTR_IMX415_8M_BASE"
| "GetDevAttrBySns _ = DEV_ATTR_IMX327_2M_BASE"

fun GetPipeAttrBySns :: "sns_type \<Rightarrow> pipe_attr" where
  "GetPipeAttrBySns SONY_IMX327_MIPI_2M_30FPS_12BIT = PIPE_ATTR_1920x1080_RAW12_420_3DNR_RFR"
| "GetPipeAttrBySns SONY_IMX327_2L_MIPI_2M_30FPS_12BIT = PIPE_ATTR_1920x1080_RAW12_420_3DNR_RFR"
| "GetPipeAttrBySns SONY_IMX327_2L_MIPI_2M_30FPS_12BIT_WDR2TO1 = PIPE_ATTR_1920x1080_RAW12_420_3DNR_RFR"
| "GetPipeAttrBySns SONY_IMX327_MIPI_2M_30FPS_12BIT_WDR2TO1 = PIPE_ATTR_1920x1080_RAW12_420_3DNR_RFR\<lparr>pa_fmt := RGB_BAYER_10BPP, pa_bits := 10\<rparr>"
| "GetPipeAttrBySns SONY_IMX307_MIPI_2M_30FPS_12BIT = PIPE_ATTR_1920x1080_RAW12_420_3DNR_RFR"
| "GetPipeAttrBySns SONY_IMX307_2L_MIPI_2M_30FPS_12BIT = PIPE_ATTR_1920x1080_RAW12_420_3DNR_RFR"
| "GetPipeAttrBySns SONY_IMX307_MIPI_2M_30FPS_12BIT_WDR2TO1 = PIPE_ATTR_1920x1080_RAW12_420_3DNR_RFR\<lparr>pa_fmt := RGB_BAYER_10BPP, pa_bits := 10\<rparr>"
| "GetPipeAttrBySns SONY_IMX307_2L_MIPI_2M_30FPS_12BIT_WDR2TO1 = PIPE_ATTR_1920x1080_RAW12_420_3DNR_RFR\<lparr>pa_fmt := RGB_BAYER_10BPP, pa_bits := 10\<rparr>"
| "GetPipeAttrBySns PANASONIC_MN34220_LVDS_2M_30FPS_12BIT = PIPE_ATTR_1920x1080_RAW12_420_3DNR_RFR"
| "GetPipeAttrBySns SONY_IMX335_MIPI_5M_30FPS_12BIT = PIPE_ATTR_2592x1944_RAW12_420_3DNR_RFR"
| "GetPipeAttrBySns SONY_IMX335_MIPI_5M_30FPS_10BIT_WDR2TO1 = PIPE_ATTR_2592x1944_RAW10_420_3DNR_RFR"
| "GetPipeAttrBySns SONY_IMX335_MIPI_4M_30FPS_12BIT = PIPE_ATTR_2592x1536_RAW12_420_3DNR_RFR"
| "GetPipeAttrBySns SONY_IMX335_MIPI_4M_30FPS_10BIT_WDR2TO1 = PIPE_ATTR_2592x1536_RAW10_420_3DNR_RFR"
| "GetPipeAttrBySns SMART_SC4210_MIPI_3M_30FPS_12BIT = PIPE_ATTR_2560x1440_RAW12_420_3DNR_RFR"
| "GetPipeAttrBySns SMART_SC4210_MIPI_3M_30FPS_10BIT_WDR2TO1 = PIPE_ATTR_2560x1440_RAW10_420_3DNR_RFR"
| "GetPipeAttrBySns OMNIVISION_OS08A10_MIPI_8M_30FPS_10BIT = PIPE_ATTR_3840x2160_RAW10_420_3DNR_RFR"
| "GetPipeAttrBySns SONY_IMX458_MIPI_8M_30FPS_10BIT = PIPE_ATTR_3840x2160_RAW10_420_3DNR_RFR"
| "GetPipeAttrBySns SONY_IMX458_MIPI_12M_20FPS_10BIT = PIPE_ATTR_4000x3000_RAW10_420_3DNR_RFR"
| "GetPipeAttrBySns SONY_IMX458_MIPI_4M_60FPS_10BIT = PIPE_ATTR_2716x1524_RAW10_420_3DNR_RFR"
| "GetPipeAttrBySns SONY_IMX458_MIPI_4M_40FPS_10BIT = PIPE_ATTR_2716x1524_RAW10_420_3DNR_RFR"
| "GetPipeAttrBySns SONY_IMX458_MIPI_2M_90FPS_10BIT = PIPE_ATTR_1920x1080_RAW10_420_3DNR_RFR"
| "GetPipeAttrBySns SONY_IMX458_MIPI_1M_129FPS_10BIT = PIPE_ATTR_1280x720_RAW10_420_3DNR_RFR"
| "GetPipeAttrBySns GALAXYCORE_GC2053_MIPI_2M_30FPS_10BIT = PIPE_ATTR_1920x1080_RAW10_420_3DNR_RFR"
| "GetPipeAttrBySns OMNIVISION_OV12870_MIPI_8M_30FPS_10BIT = PIPE_ATTR_3840x2160_RAW10_420_3DNR_RFR"
| "GetPipeAttrBySns OMNIVISION_OV12870_MIPI_12M_30FPS_10BIT = PIPE_ATTR_4000x3000_RAW10_420_3DNR_RFR"
| "GetPipeAttrBySns OMNIVISION_OV12870_MIPI_2M_120FPS_10BIT = PIPE_ATTR_1920x1080_RAW10_420_3DNR_RFR"
| "GetPipeAttrBySns OMNIVISION_OV12870_MIPI_1M_240FPS_10BIT = PIPE_ATTR_1280x720_RAW10_420_3DNR_RFR"
| "GetPipeAttrBySns OMNIVISION_OS04B10_MIPI_4M_30FPS_10BIT = PIPE_ATTR_2560x1440_RAW10_420_3DNR_RFR"
| "GetPipeAttrBySns OMNIVISION_OS05A_MIPI_4M_30FPS_12BIT = PIPE_ATTR_2688x1536_RAW12_420_3DNR_RFR"
| "GetPipeAttrBySns OMNIVISION_OS05A_MIPI_4M_30FPS_10BIT_WDR2TO1 = PIPE_ATTR_2688x1536_RAW10_420_3DNR_RFR"
| "GetPipeAttrBySns SONY_IMX415_MIPI_8M_30FPS_12BIT = PIPE_ATTR_3840x2160_RAW12_420_3DNR_RFR"
| "GetPipeAttrBySns SONY_IMX415_MIPI_8M_20FPS_12BIT = PIPE_ATTR_3840x2160_RAW12_420_3DNR_RFR"
| "GetPipeAttrBySns _ = PIPE_ATTR_1920x1080_RAW12_420_3DNR_RFR"

fun GetChnAttrBySns :: "sns_type \<Rightarrow> chn_attr" where
  "GetChnAttrBySns SONY_IMX327_MIPI_2M_30FPS_12BIT = CHN_ATTR_1920x1080_420_SDR8_LINEAR"
| "GetChnAttrBySns SONY_IMX327_MIPI_2M_30FPS_12BIT_WDR2TO1 = CHN_ATTR_1920x1080_420_SDR8_LINEAR"
| "GetChnAttrBySns SONY_IMX327_2L_MIPI_2M_30FPS_12BIT = CHN_ATTR_1920x1080_420_SDR8_LINEAR"
| "GetChnAttrBySns SONY_IMX327_2L_MIPI_2M_30FPS_12BIT_WDR2TO1 = CHN_ATTR_1920x1080_420_SDR8_LINEAR"
| "GetChnAttrBySns SONY_IMX307_MIPI_2M_30FPS_12BIT = CHN_ATTR_1920x1080_420_SDR8_LINEAR"
| "GetChnAttrBySns SONY_IMX307_MIPI_2M_30FPS_12BIT_WDR2TO1 = CHN_ATTR_1920x1080_420_SDR8_LINEAR"
| "GetChnAttrBySns SONY_IMX307_2L_MIPI_2M_30FPS_12BIT = CHN_ATTR_1920x1080_420_SDR8_LINEAR"
| "GetChnAttrBySns SONY_IMX307_2L_MIPI_2M_30FPS_12BIT_WDR2TO1 = CHN_ATTR_1920x1080_420_SDR8_LINEAR"
| "GetChnAttrBySns PANASONIC_MN34220_LVDS_2M_30FPS_12BIT = CHN_ATTR_1920x1080_420_SDR8_LINEAR"
| "GetChnAttrBySns SONY_IMX335_MIPI_5M_30FPS_12BIT = CHN_ATTR_2592x1944_420_SDR8_LINEAR"
| "GetChnAttrBySns SONY_IMX335_MIPI_5M_30FPS_10BIT_WDR2TO1 = CHN_ATTR_2592x1944_420_SDR8_LINEAR"
| "GetChnAttrBySns SONY_IMX335_MIPI_4M_30FPS_12BIT = CHN_ATTR_2592x1536_420_SDR8_LINEAR"
| "GetChnAttrBySns SONY_IMX335_MIPI_4M_30FPS_10BIT_WDR2TO1 = CHN_ATTR_2592x1536_420_SDR8_LINEAR"
| "GetChnAttrBySns SMART_SC4210_MIPI_3M_30FPS_12BIT = CHN_ATTR_2560x1440_420_SDR8_LINEAR"
| "GetChnAttrBySns SMART_SC4210_MIPI_3M_30FPS_10BIT_WDR2TO1 = CHN_ATTR_2560x1440_420_SDR8_LINEAR"
| "GetChnAttrBySns OMNIVISION_OS08A10_MIPI_8M_30FPS_10BIT = CHN_ATTR_3840x2160_420_SDR8_LINEAR"
| "GetChnAttrBySns SONY_IMX458_MIPI_8M_30FPS_10BIT = CHN_ATTR_3840x2160_420_SDR8_LINEAR"
| "GetChnAttrBySns SONY_IMX458_MIPI_12M_20FPS_10BIT = CHN_ATTR_4000x3000_420_SDR8_LINEAR"
| "GetChnAttrBySns SONY_IMX458_MIPI_4M_60FPS_10BIT = CHN_ATTR_2716x1524_420_SDR8_LINEAR"
| "GetChnAttrBySns SONY_IMX458_MIPI_4M_40FPS_10BIT = CHN_ATTR_2716x1524_420_SDR8_LINEAR"
| "GetChnAttrBySns SONY_IMX458_MIPI_2M_90FPS_10BIT = CHN_ATTR_1920x1080_420_SDR8_LINEAR"
| "GetChnAttrBySns SONY_IMX458_MIPI_1M_129FPS_10BIT = CHN_ATTR_1280x720_420_SDR8_LINEAR"
| "GetChnAttrBySns GALAXYCORE_GC2053_MIPI_2M_30FPS_10BIT = CHN_ATTR_1920x1080_420_SDR8_LINEAR"
| "GetChnAttrBySns OMNIVISION_OV12870_MIPI_8M_30FPS_10BIT = CHN_ATTR_3840x2160_420_SDR8_LINEAR"
| "GetChnAttrBySns OMNIVISION_OV12870_MIPI_12M_30FPS_10BIT = CHN_ATTR_4000x3000_420_SDR8_LINEAR"
| "GetChnAttrBySns OMNIVISION_OV12870_MIPI_2M_120FPS_10BIT = CHN_ATTR_1920x1080_420_SDR8_LINEAR"
| "GetChnAttrBySns OMNIVISION_OV12870_MIPI_1M_240FPS_10BIT = CHN_ATTR_1280x720_420_SDR8_LINEAR"
| "GetChnAttrBySns OMNIVISION_OS04B10_MIPI_4M_30FPS_10BIT = CHN_ATTR_2560x1440_420_SDR8_LINEAR"
| "GetChnAttrBySns OMNIVISION_OS05A_MIPI_4M_30FPS_12BIT = CHN_ATTR_2688x1536_420_SDR8_LINEAR"
| "GetChnAttrBySns OMNIVISION_OS05A_MIPI_4M_30FPS_10BIT_WDR2TO1 = CHN_ATTR_2688x1536_420_SDR8_LINEAR"
| "GetChnAttrBySns SONY_IMX415_MIPI_8M_30FPS_12BIT = CHN_ATTR_3840x2160_420_SDR8_LINEAR"
| "GetChnAttrBySns SONY_IMX415_MIPI_8M_20FPS_12BIT = CHN_ATTR_3840x2160_420_SDR8_LINEAR"
| "GetChnAttrBySns _ = CHN_ATTR_1920x1080_420_SDR8_LINEAR"

fun GetIspAttrBySns :: "sns_type \<Rightarrow> isp_attr" where
  "GetIspAttrBySns SONY_IMX327_MIPI_2M_30FPS_12BIT = ISP_PUB_ATTR_IMX327_2M_30FPS"
| "GetIspAttrBySns SONY_IMX327_2L_MIPI_2M_30FPS_12BIT = ISP_PUB_ATTR_IMX327_2M_30FPS"
| "GetIspAttrBySns SONY_IMX327_MIPI_2M_30FPS_12BIT_WDR2TO1 = ISP_PUB_ATTR_IMX327_MIPI_2M_30FPS_WDR2TO1_LINE"
| "GetIspAttrBySns SONY_IMX327_2L_MIPI_2M_30FPS_12BIT_WDR2TO1 = ISP_PUB_ATTR_IMX327_MIPI_2M_30FPS_WDR2TO1_LINE"
| "GetIspAttrBySns SONY_IMX307_MIPI_2M_30FPS_12BIT = ISP_PUB_ATTR_IMX307_MIPI_2M_30FPS"
| "GetIspAttrBySns SONY_IMX307_2L_MIPI_2M_30FPS_12BIT = ISP_PUB_ATTR_IMX307_MIPI_2M_30FPS"
| "GetIspAttrBySns SONY_IMX307_MIPI_2M_30FPS_12BIT_WDR2TO1 = ISP_PUB_ATTR_IMX307_MIPI_2M_30FPS_WDR2TO1_LINE"
| "GetIspAttrBySns SONY_IMX307_2L_MIPI_2M_30FPS_12BIT_WDR2TO1 = ISP_PUB_ATTR_IMX307_MIPI_2M_30FPS_WDR2TO1_LINE"
| "GetIspAttrBySns SONY_IMX335_MIPI_5M_30FPS_12BIT = ISP_PUB_ATTR_IMX335_MIPI_5M_30FPS"
| "GetIspAttrBySns SONY_IMX335_MIPI_4M_30FPS_12BIT = ISP_PUB_ATTR_IMX335_MIPI_4M_30FPS"
| "GetIspAttrBySns SONY_IMX335_MIPI_5M_30FPS_10BIT_WDR2TO1 = ISP_PUB_ATTR_IMX335_MIPI_5M_30FPS_WDR2TO1"
| "GetIspAttrBySns SONY_IMX335_MIPI_4M_30FPS_10BIT_WDR2TO1 = ISP_PUB_ATTR_IMX335_MIPI_4M_30FPS_WDR2TO1"
| "GetIspAttrBySns SMART_SC4210_MIPI_3M_30FPS_12BIT = ISP_PUB_ATTR_SC4210_MIPI_3M_30FPS"
| "GetIspAttrBySns SMART_SC4210_MIPI_3M_30FPS_10BIT_WDR2TO1 = ISP_PUB_ATTR_SC4210_MIPI_3M_30FPS_WDR2TO1"
| "GetIspAttrBySns SONY_IMX458_MIPI_8M_30FPS_10BIT = ISP_PUB_ATTR_IMX458_MIPI_8M_30FPS"
| "GetIspAttrBySns SONY_IMX458_MIPI_12M_20FPS_10BIT = ISP_PUB_ATTR_IMX458_MIPI_12M_20FPS"
| "GetIspAttrBySns SONY_IMX458_MIPI_4M_60FPS_10BIT = ISP_PUB_ATTR_IMX458_MIPI_4M_60FPS"
| "GetIspAttrBySns SONY_IMX458_MIPI_4M_40FPS_10BIT = ISP_PUB_ATTR_IMX458_MIPI_4M_40FPS"
| "GetIspAttrBySns SONY_IMX458_MIPI_2M_90FPS_10BIT = ISP_PUB_ATTR_IMX458_MIPI_2M_90FPS"
| "GetIspAttrBySns SONY_IMX458_MIPI_1M_129FPS_10BIT = ISP_PUB_ATTR_IMX458_MIPI_1M_129FPS"
| "GetIspAttrBySns PANASONIC_MN34220_LVDS_2M_30FPS_12BIT = ISP_PUB_ATTR_MN34220_LVDS_2M_30FPS"
| "GetIspAttrBySns OMNIVISION_OS04B10_MIPI_4M_30FPS_10BIT = ISP_PUB_ATTR_OS04B10_MIPI_4M_30FPS"
| "GetIspAttrBySns OMNIVISION_OS05A_MIPI_4M_30FPS_12BIT = ISP_PUB_ATTR_OS05A_MIPI_4M_30FPS"
| "GetIspAttrBySns OMNIVISION_OS05A_MIPI_4M_30FPS_10BIT_WDR2TO1 = ISP_PUB_ATTR_OS05A_MIPI_4M_30FPS_WDR2TO1"
| "GetIspAttrBySns OMNIVISION_OS08A10_MIPI_8M_30FPS_10BIT = ISP_PUB_ATTR_OS08A10_MIPI_8M_30FPS"
| "GetIspAttrBySns GALAXYCORE_GC2053_MIPI_2M_30FPS_10BIT = ISP_PUB_ATTR_GC2053_MIPI_2M_30FPS"
| "GetIspAttrBySns OMNIVISION_OV12870_MIPI_1M_240FPS_10BIT = ISP_PUB_ATTR_OV12870_MIPI_1M_240FPS"
| "GetIspAttrBySns OMNIVISION_OV12870_MIPI_2M_120FPS_10BIT = ISP_PUB_ATTR_OV12870_MIPI_2M_120FPS"
| "GetIspAttrBySns OMNIVISION_OV12870_MIPI_8M_30FPS_10BIT = ISP_PUB_ATTR_OV12870_MIPI_8M_30FPS"
| "GetIspAttrBySns OMNIVISION_OV12870_MIPI_12M_30FPS_10BIT = ISP_PUB_ATTR_OV12870_MIPI_12M_30FPS"
| "GetIspAttrBySns SONY_IMX415_MIPI_8M_30FPS_12BIT = ISP_PUB_ATTR_IMX415_MIPI_8M_30FPS"
| "GetIspAttrBySns SONY_IMX415_MIPI_8M_20FPS_12BIT = ISP_PUB_ATTR_IMX415_MIPI_8M_20FPS"
| "GetIspAttrBySns _ = ISP_PUB_ATTR_IMX327_2M_30FPS"

fun GetSizeBySensor :: "sns_type \<Rightarrow> pic_size" where
  "GetSizeBySensor SONY_IMX327_MIPI_2M_30FPS_12BIT = PIC_1080P"
| "GetSizeBySensor SONY_IMX327_MIPI_2M_30FPS_12BIT_WDR2TO1 = PIC_1080P"
| "GetSizeBySensor SONY_IMX307_MIPI_2M_30FPS_12BIT = PIC_1080P"
| "GetSizeBySensor SONY_IMX307_MIPI_2M_30FPS_12BIT_WDR2TO1 = PIC_1080P"
| "GetSizeBySensor PANASONIC_MN34220_LVDS_2M_30FPS_12BIT = PIC_1080P"
| "GetSizeBySensor SONY_IMX335_MIPI_5M_30FPS_12BIT = PIC_2592x1944"
| "GetSizeBySensor SONY_IMX335_MIPI_5M_30FPS_10BIT_WDR2TO1 = PIC_2592x1944"
| "GetSizeBySensor SONY_IMX335_MIPI_4M_30FPS_12BIT = PIC_2592x1536"
| "GetSizeBySensor SONY_IMX335_MIPI_4M_30FPS_10BIT_WDR2TO1 = PIC_2592x1536"
| "GetSizeBySensor SMART_SC4210_MIPI_3M_30FPS_12BIT = PIC_2560x1440"
| "GetSizeBySensor SMART_SC4210_MIPI_3M_30FPS_10BIT_WDR2TO1 = PIC_2560x1440"
| "GetSizeBySensor OMNIVISION_OS08A10_MIPI_8M_30FPS_10BIT = PIC_3840x2160"
| "GetSizeBySensor SONY_IMX458_MIPI_8M_30FPS_10BIT = PIC_3840x2160"
| "GetSizeBySensor OMNIVISION_OV12870_MIPI_8M_30FPS_10BIT = PIC_3840x2160"
| "GetSizeBySensor SONY_IMX415_MIPI_8M_30FPS_12BIT = PIC_3840x2160"
| "GetSizeBySensor SONY_IMX415_MIPI_8M_20FPS_12BIT = PIC_3840x2160"
| "GetSizeBySensor SONY_IMX458_MIPI_12M_20FPS_10BIT = PIC_4000x3000"
| "GetSizeBySensor OMNIVISION_OV12870_MIPI_12M_30FPS_10BIT = PIC_4000x3000"
| "GetSizeBySensor SONY_IMX458_MIPI_4M_60FPS_10BIT = PIC_2716x1524"
| "GetSizeBySensor SONY_IMX458_MIPI_4M_40FPS_10BIT = PIC_2716x1524"
| "GetSizeBySensor SONY_IMX458_MIPI_2M_90FPS_10BIT = PIC_1080P"
| "GetSizeBySensor OMNIVISION_OV12870_MIPI_2M_120FPS_10BIT = PIC_1080P"
| "GetSizeBySensor SONY_IMX458_MIPI_1M_129FPS_10BIT = PIC_720P"
| "GetSizeBySensor OMNIVISION_OV12870_MIPI_1M_240FPS_10BIT = PIC_720P"
| "GetSizeBySensor OMNIVISION_OS04B10_MIPI_4M_30FPS_10BIT = PIC_2560x1440"
| "GetSizeBySensor OMNIVISION_OS05A_MIPI_4M_30FPS_12BIT = PIC_2688x1536"
| "GetSizeBySensor OMNIVISION_OS05A_MIPI_4M_30FPS_10BIT_WDR2TO1 = PIC_2688x1536"
| "GetSizeBySensor _ = PIC_1080P"

fun GetFrameRateBySensor :: "sns_type \<Rightarrow> int" where
  "GetFrameRateBySensor SONY_IMX327_MIPI_2M_30FPS_12BIT = 30"
| "GetFrameRateBySensor SONY_IMX327_MIPI_2M_30FPS_12BIT_WDR2TO1 = 30"
| "GetFrameRateBySensor SONY_IMX307_MIPI_2M_30FPS_12BIT = 30"
| "GetFrameRateBySensor SONY_IMX307_MIPI_2M_30FPS_12BIT_WDR2TO1 = 30"
| "GetFrameRateBySensor SONY_IMX335_MIPI_5M_30FPS_12BIT = 30"
| "GetFrameRateBySensor SONY_IMX335_MIPI_5M_30FPS_10BIT_WDR2TO1 = 30"
| "GetFrameRateBySensor SONY_IMX335_MIPI_4M_30FPS_12BIT = 30"
| "GetFrameRateBySensor SONY_IMX335_MIPI_4M_30FPS_10BIT_WDR2TO1 = 30"
| "GetFrameRateBySensor SMART_SC4210_MIPI_3M_30FPS_12BIT = 30"
| "GetFrameRateBySensor SMART_SC4210_MIPI_3M_30FPS_10BIT_WDR2TO1 = 30"
| "GetFrameRateBySensor PANASONIC_MN34220_LVDS_2M_30FPS_12BIT = 30"
| "GetFrameRateBySensor OMNIVISION_OS04B10_MIPI_4M_30FPS_10BIT = 30"
| "GetFrameRateBySensor OMNIVISION_OS05A_MIPI_4M_30FPS_12BIT = 30"
| "GetFrameRateBySensor OMNIVISION_OS05A_MIPI_4M_30FPS_10BIT_WDR2TO1 = 30"
| "GetFrameRateBySensor OMNIVISION_OS08A10_MIPI_8M_30FPS_10BIT = 30"
| "GetFrameRateBySensor OMNIVISION_OV12870_MIPI_12M_30FPS_10BIT = 30"
| "GetFrameRateBySensor OMNIVISION_OV12870_MIPI_8M_30FPS_10BIT = 30"
| "GetFrameRateBySensor SONY_IMX458_MIPI_8M_30FPS_10BIT = 30"
| "GetFrameRateBySensor SONY_IMX415_MIPI_8M_30FPS_12BIT = 30"
| "GetFrameRateBySensor SONY_IMX458_MIPI_12M_20FPS_10BIT = 20"
| "GetFrameRateBySensor SONY_IMX415_MIPI_8M_20FPS_12BIT = 20"
| "GetFrameRateBySensor SONY_IMX458_MIPI_4M_60FPS_10BIT = 60"
| "GetFrameRateBySensor SONY_IMX458_MIPI_4M_40FPS_10BIT = 40"
| "GetFrameRateBySensor SONY_IMX458_MIPI_2M_90FPS_10BIT = 90"
| "GetFrameRateBySensor SONY_IMX458_MIPI_1M_129FPS_10BIT = 129"
| "GetFrameRateBySensor OMNIVISION_OV12870_MIPI_2M_120FPS_10BIT = 120"
| "GetFrameRateBySensor OMNIVISION_OV12870_MIPI_1M_240FPS_10BIT = 240"
| "GetFrameRateBySensor _ = 30"

text \<open>The receiver of the sensor with index \<open>i\<close>: the second one is receiver 2 for the sensors listed in the code.\<close>

definition GetComboDevBySensor :: "sns_type \<Rightarrow> int \<Rightarrow> int" where
  "GetComboDevBySensor t i =
     (if t \<in> {SONY_IMX327_2L_MIPI_2M_30FPS_12BIT,
        SONY_IMX327_2L_MIPI_2M_30FPS_12BIT_WDR2TO1,
        SONY_IMX307_2L_MIPI_2M_30FPS_12BIT,
        SONY_IMX307_2L_MIPI_2M_30FPS_12BIT_WDR2TO1,
        GALAXYCORE_GC2053_MIPI_2M_30FPS_10BIT,
        SAMPLE_SNS_TYPE_BUTT}
      then 0 else if i = 1 then 2 else 0)"

definition IsSensorInput :: "sns_type \<Rightarrow> bool" where
  "IsSensorInput t \<longleftrightarrow> t \<noteq> SAMPLE_SNS_TYPE_BUTT"

text \<open>Every sensor is given the mode of two exposures.\<close>

definition GetWDRModeBySensor :: "sns_type \<Rightarrow> wdr_mode" where
  "GetWDRModeBySensor t =
     (if t \<in> {SONY_IMX327_MIPI_2M_30FPS_12BIT_WDR2TO1, SONY_IMX307_MIPI_2M_30FPS_12BIT_WDR2TO1, SONY_IMX335_MIPI_5M_30FPS_10BIT_WDR2TO1,
        SONY_IMX335_MIPI_4M_30FPS_10BIT_WDR2TO1, OMNIVISION_OS05A_MIPI_4M_30FPS_10BIT_WDR2TO1, SMART_SC4210_MIPI_3M_30FPS_10BIT_WDR2TO1}
      then WDR_MODE_2To1_LINE else WDR_MODE_2To1_LINE)"

definition GetPipeBySensor :: "sns_type \<Rightarrow> vi_vpss_mode \<times> int list" where
  "GetPipeBySensor t = (VI_ONLINE_VPSS_OFFLINE, [0, 1, -1, -1])"

definition GetMipiLaneDivideMode :: "sns_type \<Rightarrow> int" where
  "GetMipiLaneDivideMode t =
     (if t = SONY_IMX327_2L_MIPI_2M_30FPS_12BIT \<or> t = SONY_IMX327_2L_MIPI_2M_30FPS_12BIT_WDR2TO1 then 1 else 0)"

text \<open>The driver of a sensor, if there is one in the library.\<close>

datatype sns_obj = stSnsImx327Obj | stSnsImx327_2l_Obj | stSnsImx307Obj | stSnsImx307_2l_Obj | stSnsImx335Obj

fun GetSnsObj :: "sns_type \<Rightarrow> sns_obj option" where
  "GetSnsObj SONY_IMX327_MIPI_2M_30FPS_12BIT = Some stSnsImx327Obj"
| "GetSnsObj SONY_IMX327_MIPI_2M_30FPS_12BIT_WDR2TO1 = Some stSnsImx327Obj"
| "GetSnsObj SONY_IMX327_2L_MIPI_2M_30FPS_12BIT = Some stSnsImx327_2l_Obj"
| "GetSnsObj SONY_IMX327_2L_MIPI_2M_30FPS_12BIT_WDR2TO1 = Some stSnsImx327_2l_Obj"
| "GetSnsObj SONY_IMX307_MIPI_2M_30FPS_12BIT = Some stSnsImx307Obj"
| "GetSnsObj SONY_IMX307_MIPI_2M_30FPS_12BIT_WDR2TO1 = Some stSnsImx307Obj"
| "GetSnsObj SONY_IMX307_2L_MIPI_2M_30FPS_12BIT = Some stSnsImx307_2l_Obj"
| "GetSnsObj SONY_IMX307_2L_MIPI_2M_30FPS_12BIT_WDR2TO1 = Some stSnsImx307_2l_Obj"
| "GetSnsObj SONY_IMX335_MIPI_5M_30FPS_12BIT = Some stSnsImx335Obj"
| "GetSnsObj SONY_IMX335_MIPI_5M_30FPS_10BIT_WDR2TO1 = Some stSnsImx335Obj"
| "GetSnsObj SONY_IMX335_MIPI_4M_30FPS_12BIT = Some stSnsImx335Obj"
| "GetSnsObj SONY_IMX335_MIPI_4M_30FPS_10BIT_WDR2TO1 = Some stSnsImx335Obj"
| "GetSnsObj _ = None"

section \<open>The tables agree\<close>

lemmas attr_makers = mipi_rx_def vi_dev_attr_def vi_pipe_attr_def vi_chn_attr_def isp_pub_def

lemmas receiver_tables =
  MIPI_4lane_CHN0_SENSOR_IMX327_12BIT_2M_NOWDR_ATTR_def MIPI_4lane_CHN0_SENSOR_IMX327_12BIT_2M_WDR2to1_ATTR_def
  MIPI_2lane_CHN0_SENSOR_IMX327_12BIT_2M_NOWDR_ATTR_def MIPI_2lane_CHN1_SENSOR_IMX327_12BIT_2M_NOWDR_ATTR_def
  MIPI_2lane_CHN0_SENSOR_IMX327_12BIT_2M_WDR2to1_ATTR_def MIPI_2lane_CHN1_SENSOR_IMX327_12BIT_2M_WDR2to1_ATTR_def
  MIPI_4lane_CHN0_SENSOR_IMX307_12BIT_2M_NOWDR_ATTR_def MIPI_4lane_CHN0_SENSOR_IMX307_12BIT_2M_WDR2to1_ATTR_def
  MIPI_2lane_CHN0_SENSOR_IMX307_12BIT_2M_NOWDR_ATTR_def MIPI_2lane_CHN1_SENSOR_IMX307_12BIT_2M_NOWDR_ATTR_def
  MIPI_2lane_CHN0_SENSOR_IMX307_12BIT_2M_WDR2to1_ATTR_def MIPI_2lane_CHN1_SENSOR_IMX307_12BIT_2M_WDR2to1_ATTR_def
  LVDS_4lane_CHN0_SENSOR_MN34220_12BIT_2M_NOWDR_ATTR_def MIPI_4lane_CHN0_SENSOR_IMX335_12BIT_5M_NOWDR_ATTR_def
  MIPI_4lane_CHN0_SENSOR_IMX335_10BIT_5M_WDR2TO1_ATTR_def MIPI_4lane_CHN0_SENSOR_IMX335_12BIT_4M_NOWDR_ATTR_def
  MIPI_4lane_CHN0_SENSOR_IMX335_10BIT_4M_WDR2TO1_ATTR_def MIPI_4lane_CHN0_SENSOR_SC4210_12BIT_3M_NOWDR_ATTR_def
  MIPI_4lane_CHN0_SENSOR_SC4210_10BIT_3M_WDR2TO1_ATTR_def MIPI_4lane_CHN0_SENSOR_IMX458_10BIT_8M_NOWDR_ATTR_def
  MIPI_4lane_CHN0_SENSOR_IMX458_10BIT_12M_NOWDR_ATTR_def MIPI_4lane_CHN0_SENSOR_IMX458_10BIT_4M_NOWDR_ATTR_def
  MIPI_4lane_CHN0_SENSOR_IMX458_10BIT_2M_NOWDR_ATTR_def MIPI_4lane_CHN0_SENSOR_IMX458_10BIT_1M_NOWDR_ATTR_def
  MIPI_2lane_CHN0_SENSOR_OS04B10_10BIT_4M_NOWDR_ATTR_def MIPI_4lane_CHN0_SENSOR_OS05A_12BIT_4M_NOWDR_ATTR_def
  MIPI_4lane_CHN0_SENSOR_OS05A_10BIT_4M_WDR2TO1_ATTR_def MIPI_4lane_CHN0_SENSOR_OS08A10_10BIT_8M_NOWDR_ATTR_def
  MIPI_2lane_CHN0_SENSOR_GC2053_10BIT_2M_NOWDR_ATTR_def MIPI_4lane_CHN0_SENSOR_OV12870_10BIT_8M_NOWDR_ATTR_def
  MIPI_4lane_CHN0_SENSOR_OV12870_10BIT_12M_NOWDR_ATTR_def MIPI_4lane_CHN0_SENSOR_OV12870_10BIT_2M_NOWDR_ATTR_def
  MIPI_4lane_CHN0_SENSOR_OV12870_10BIT_1M_NOWDR_ATTR_def MIPI_4lane_CHN0_SENSOR_IMX415_12BIT_8M_NOWDR_ATTR_def

lemmas device_tables =
  DEV_ATTR_IMX327_2M_BASE_def DEV_ATTR_IMX307_2M_BASE_def DEV_ATTR_MN34220_2M_BASE_def DEV_ATTR_IMX335_5M_BASE_def DEV_ATTR_IMX335_4M_BASE_def
  DEV_ATTR_SC4210_3M_BASE_def DEV_ATTR_IMX458_8M_BASE_def DEV_ATTR_IMX458_12M_BASE_def DEV_ATTR_IMX458_4M_BASE_def DEV_ATTR_IMX458_2M_BASE_def
  DEV_ATTR_IMX458_1M_BASE_def DEV_ATTR_OS04B10_4M_BASE_def DEV_ATTR_OS05A_4M_BASE_def DEV_ATTR_OS08A10_8M_BASE_def DEV_ATTR_GC2053_2M_BASE_def
  DEV_ATTR_OV12870_8M_BASE_def DEV_ATTR_OV12870_12M_BASE_def DEV_ATTR_OV12870_2M_BASE_def DEV_ATTR_OV12870_1M_BASE_def DEV_ATTR_IMX415_8M_BASE_def

lemmas pipe_tables =
  PIPE_ATTR_1920x1080_RAW12_420_def PIPE_ATTR_1920x1080_RAW12_420_3DNR_RFR_def PIPE_ATTR_1920x1080_RAW12_420_3DNR_CHN0_def
  PIPE_ATTR_2592x1944_RAW12_420_3DNR_RFR_def PIPE_ATTR_2592x1944_RAW10_420_3DNR_RFR_def PIPE_ATTR_2592x1536_RAW12_420_3DNR_RFR_def
  PIPE_ATTR_2592x1536_RAW10_420_3DNR_RFR_def PIPE_ATTR_2560x1440_RAW12_420_3DNR_RFR_def PIPE_ATTR_2560x1440_RAW10_420_3DNR_RFR_def
  PIPE_ATTR_3840x2160_RAW10_420_3DNR_RFR_def PIPE_ATTR_3840x2160_RAW12_420_3DNR_RFR_def PIPE_ATTR_4000x3000_RAW10_420_3DNR_RFR_def
  PIPE_ATTR_2716x1524_RAW10_420_3DNR_RFR_def PIPE_ATTR_1920x1080_RAW10_420_3DNR_RFR_def PIPE_ATTR_1280x720_RAW10_420_3DNR_RFR_def
  PIPE_ATTR_2688x1536_RAW12_420_3DNR_RFR_def PIPE_ATTR_2688x1536_RAW10_420_3DNR_RFR_def

lemmas channel_tables =
  CHN_ATTR_1920x1080_422_SDR8_LINEAR_def CHN_ATTR_1920x1080_420_SDR8_LINEAR_def CHN_ATTR_1920x1080_400_SDR8_LINEAR_def
  CHN_ATTR_2592x1944_420_SDR8_LINEAR_def CHN_ATTR_2592x1536_420_SDR8_LINEAR_def CHN_ATTR_2560x1440_420_SDR8_LINEAR_def
  CHN_ATTR_4000x3000_420_SDR8_LINEAR_def CHN_ATTR_3840x2160_420_SDR8_LINEAR_def CHN_ATTR_2716x1524_420_SDR8_LINEAR_def
  CHN_ATTR_1280x720_420_SDR8_LINEAR_def CHN_ATTR_2688x1536_420_SDR8_LINEAR_def

lemmas processor_tables =
  ISP_PUB_ATTR_IMX327_2M_30FPS_def ISP_PUB_ATTR_IMX327_MIPI_2M_30FPS_WDR2TO1_LINE_def ISP_PUB_ATTR_IMX307_MIPI_2M_30FPS_def
  ISP_PUB_ATTR_IMX307_MIPI_2M_30FPS_WDR2TO1_LINE_def ISP_PUB_ATTR_MN34220_LVDS_2M_30FPS_def ISP_PUB_ATTR_IMX335_MIPI_5M_30FPS_def
  ISP_PUB_ATTR_IMX335_MIPI_5M_30FPS_WDR2TO1_def ISP_PUB_ATTR_IMX335_MIPI_4M_30FPS_def ISP_PUB_ATTR_IMX335_MIPI_4M_30FPS_WDR2TO1_def
  ISP_PUB_ATTR_IMX458_MIPI_8M_30FPS_def ISP_PUB_ATTR_SC4210_MIPI_3M_30FPS_def ISP_PUB_ATTR_SC4210_MIPI_3M_30FPS_WDR2TO1_def
  ISP_PUB_ATTR_IMX458_MIPI_12M_20FPS_def ISP_PUB_ATTR_IMX458_MIPI_4M_60FPS_def ISP_PUB_ATTR_IMX458_MIPI_4M_40FPS_def
  ISP_PUB_ATTR_IMX458_MIPI_2M_90FPS_def ISP_PUB_ATTR_IMX458_MIPI_1M_129FPS_def ISP_PUB_ATTR_OS04B10_MIPI_4M_30FPS_def
  ISP_PUB_ATTR_OS05A_MIPI_4M_30FPS_def ISP_PUB_ATTR_OS05A_MIPI_4M_30FPS_WDR2TO1_def ISP_PUB_ATTR_OS08A10_MIPI_8M_30FPS_def
  ISP_PUB_ATTR_GC2053_MIPI_2M_30FPS_def ISP_PUB_ATTR_OV12870_MIPI_1M_240FPS_def ISP_PUB_ATTR_OV12870_MIPI_2M_120FPS_def
  ISP_PUB_ATTR_OV12870_MIPI_8M_30FPS_def ISP_PUB_ATTR_OV12870_MIPI_12M_30FPS_def ISP_PUB_ATTR_IMX415_MIPI_8M_30FPS_def
  ISP_PUB_ATTR_IMX415_MIPI_8M_20FPS_def

lemmas sensor_tables = attr_makers receiver_tables device_tables pipe_tables channel_tables processor_tables

text \<open>
  C30. For every sensor the program knows, all tables speak of the same picture: the size under which the sensor is known is the size of the
  device, of its Bayer scaling, of the pipe, of the channel, of the window of the image processor and of the part the receiver cuts
  out, which lies inside of what the sensor sends; the cache has as many lines as the picture, and the rate given to
  the rest of the system is the rate of the image processor up to one frame per second.
\<close>

theorem sensor_tables_agree:
  assumes "GetComboAttrBySns t d = Some a" "GetPicSize (GetSizeBySensor t) = Some (w, h)"
  shows "da_size (GetDevAttrBySns t) = (w, h) \<and> da_bas (GetDevAttrBySns t) = (w, h) \<and> da_cache (GetDevAttrBySns t) = h \<and>
    pa_size (GetPipeAttrBySns t) = (w, h) \<and> cn_size (GetChnAttrBySns t) = (w, h) \<and>
    rt_w (ia_rect (GetIspAttrBySns t)) = w \<and> rt_h (ia_rect (GetIspAttrBySns t)) = h \<and>
    rt_w (ca_rect a) = w \<and> rt_h (ca_rect a) = h \<and> 0 \<le> rt_x (ca_rect a) \<and> 0 \<le> rt_y (ca_rect a) \<and>
    rt_x (ca_rect a) + w \<le> fst (ia_size (GetIspAttrBySns t)) \<and> rt_y (ca_rect a) + h \<le> snd (ia_size (GetIspAttrBySns t)) \<and>
    \<bar>of_int (GetFrameRateBySensor t) - ia_rate (GetIspAttrBySns t)\<bar> \<le> 1"
  using assms by (cases t) (auto simp: sensor_tables split: if_splits)

lemma sensor_tables_agree_witness:
  "GetComboAttrBySns OMNIVISION_OS05A_MIPI_4M_30FPS_12BIT 0 = Some MIPI_4lane_CHN0_SENSOR_OS05A_12BIT_4M_NOWDR_ATTR \<and>
   cn_size (GetChnAttrBySns OMNIVISION_OS05A_MIPI_4M_30FPS_12BIT) = (2688, 1536) \<and>
   rt_y (ca_rect MIPI_4lane_CHN0_SENSOR_OS05A_12BIT_4M_NOWDR_ATTR) + 1536 \<le> snd (ia_size (GetIspAttrBySns OMNIVISION_OS05A_MIPI_4M_30FPS_12BIT))"
  using sensor_tables_agree [of OMNIVISION_OS05A_MIPI_4M_30FPS_12BIT 0 MIPI_4lane_CHN0_SENSOR_OS05A_12BIT_4M_NOWDR_ATTR 2688 1536] by simp

fun raw_bits :: "raw_type \<Rightarrow> int" where
  "raw_bits DATA_TYPE_RAW_8BIT = 8"
| "raw_bits DATA_TYPE_RAW_10BIT = 10"
| "raw_bits DATA_TYPE_RAW_12BIT = 12"
| "raw_bits DATA_TYPE_RAW_14BIT = 14"
| "raw_bits DATA_TYPE_RAW_16BIT = 16"

fun lane_type :: "lane_attr \<Rightarrow> raw_type" where
  "lane_type (Mipi_attr ty m ls) = ty"
| "lane_type (Lvds_attr ty ls cs) = ty"

fun lane_ids :: "lane_attr \<Rightarrow> int list" where
  "lane_ids (Mipi_attr ty m ls) = ls"
| "lane_ids (Lvds_attr ty ls cs) = ls"

fun two_exposures :: "lane_attr \<Rightarrow> bool" where
  "two_exposures (Mipi_attr ty m ls) \<longleftrightarrow> m \<noteq> HI_MIPI_WDR_MODE_NONE"
| "two_exposures (Lvds_attr ty ls cs) \<longleftrightarrow> False"

text \<open>The mask of the upper \<open>n\<close> of 32 bits.\<close>

definition upper_bits :: "int \<Rightarrow> int" where
  "upper_bits n = 2 ^ 32 - 2 ^ (32 - nat n)"

text \<open>
  The width of a pixel and the number of exposures on the way of a picture. The pipe always has the Bayer format of its own width, and the receiver and the
  image processor agree on two exposures. The bits that the device takes are those of the pipe for all sensors but two, the
  SC4210 with two exposures and the OS04B10; what the receiver unpacks has the width of the pipe for all sensors but the
  IMX327 and IMX307 with two exposures on four lanes and the IMX307 on two.
\<close>

lemma sensor_bits:
  assumes "GetComboAttrBySns t d = Some a"
  shows "pa_fmt (GetPipeAttrBySns t) = (if pa_bits (GetPipeAttrBySns t) = 10 then RGB_BAYER_10BPP else RGB_BAYER_12BPP) \<and>
    pa_bits (GetPipeAttrBySns t) \<in> {10, 12} \<and>
    (ia_wdr (GetIspAttrBySns t) = (if two_exposures (ca_lanes a) then WDR_MODE_2To1_LINE else WDR_MODE_NONE)) \<and>
    (fst (da_mask (GetDevAttrBySns t)) = upper_bits (pa_bits (GetPipeAttrBySns t)) \<longleftrightarrow>
       t \<notin> {SMART_SC4210_MIPI_3M_30FPS_10BIT_WDR2TO1, OMNIVISION_OS04B10_MIPI_4M_30FPS_10BIT}) \<and>
    (raw_bits (lane_type (ca_lanes a)) = pa_bits (GetPipeAttrBySns t) \<longleftrightarrow>
       t \<notin> {SONY_IMX327_MIPI_2M_30FPS_12BIT_WDR2TO1, SONY_IMX307_MIPI_2M_30FPS_12BIT_WDR2TO1, SONY_IMX307_2L_MIPI_2M_30FPS_12BIT_WDR2TO1})"
  using assms by (cases t) (auto simp: sensor_tables upper_bits_def split: if_splits)

lemma sensor_bits_witness:
  "fst (da_mask (GetDevAttrBySns SONY_IMX335_MIPI_5M_30FPS_12BIT)) = upper_bits 12 \<and>
   fst (da_mask (GetDevAttrBySns OMNIVISION_OS04B10_MIPI_4M_30FPS_10BIT)) \<noteq> upper_bits (pa_bits (GetPipeAttrBySns OMNIVISION_OS04B10_MIPI_4M_30FPS_10BIT))"
  using sensor_bits [of SONY_IMX335_MIPI_5M_30FPS_12BIT 0 MIPI_4lane_CHN0_SENSOR_IMX335_12BIT_5M_NOWDR_ATTR]
    sensor_bits [of OMNIVISION_OS04B10_MIPI_4M_30FPS_10BIT 0 MIPI_2lane_CHN0_SENSOR_OS04B10_10BIT_4M_NOWDR_ATTR]
  by (simp add: sensor_tables)

text \<open>The lanes in use are different; the two receivers of a sensor on two lanes share none.\<close>

lemma lanes_distinct:
  "GetComboAttrBySns t d = Some a \<Longrightarrow> distinct (filter (\<lambda>l. l \<noteq> -1) (lane_ids (ca_lanes a)))"
  by (cases t) (auto simp: sensor_tables split: if_splits)

lemma two_lanes_apart:
  assumes "t \<in> {SONY_IMX327_2L_MIPI_2M_30FPS_12BIT, SONY_IMX327_2L_MIPI_2M_30FPS_12BIT_WDR2TO1,
      SONY_IMX307_2L_MIPI_2M_30FPS_12BIT, SONY_IMX307_2L_MIPI_2M_30FPS_12BIT_WDR2TO1}"
    and "GetComboAttrBySns t 0 = Some a" "GetComboAttrBySns t 1 = Some b"
  shows "ca_devno a = 0 \<and> ca_devno b = 1 \<and> set (lane_ids (ca_lanes a)) \<inter> set (lane_ids (ca_lanes b)) = {-1}"
  using assms by (auto simp: sensor_tables)

section \<open>What is not as meant\<close>

text \<open>Sensors with one exposure are given the mode of two, in contrast to their image processor.\<close>

lemma GetWDRModeBySensor_constant: "GetWDRModeBySensor t = WDR_MODE_2To1_LINE"
  by (simp add: GetWDRModeBySensor_def)

lemma linear_sensor_wdr: "ia_wdr (GetIspAttrBySns SONY_IMX335_MIPI_5M_30FPS_12BIT) = WDR_MODE_NONE"
  by (simp add: sensor_tables)

end
