(* ===== verification/Media_Ops.thy ===== *)
theory Media_Ops
  imports AIPC_Prelude Vo_Tables Vi_Tables
begin

text \<open>
  The calls of the media library and how the program strings them together: a call returns what the library says
  (a parameter, \<open>mpi_env\<close>), is written to the trace, and changes what the program holds of the library's resources. Sequences stop at
  the first error. On top of this, the system level of mpp/sdk2v0/sample_comm_sys.c: sizes of pictures, start and
  end of the system, binding, and mapping of registers.

  The locales at the end are the contract of a pair of operations, one that takes resources and one that gives them back, and what follows when
  the pairs are nested.
\<close>

named_theorems media_defs "operations as sequences of calls"

section \<open>Calls and resources\<close>

datatype mod_id = ID_VI | ID_VO | ID_VPSS | ID_VENC | ID_AVS | ID_VDEC

type_synonym mpp_chn = "mod_id \<times> int \<times> int"

text \<open>The timing of a display, and the attributes of an output device: interface, timing, background.\<close>

record sync_info =
  si_synm :: bool
  si_iop :: bool
  si_intfb :: int
  si_vact :: int
  si_vbb :: int
  si_vfb :: int
  si_hact :: int
  si_hbb :: int
  si_hfb :: int
  si_hmid :: int
  si_bvact :: int
  si_bvbb :: int
  si_bvfb :: int
  si_hpw :: int
  si_vpw :: int
  si_idv :: bool
  si_ihs :: bool
  si_ivs :: bool

record vo_pub =
  vp_intf :: int
  vp_sync :: vo_sync
  vp_bg :: int
  vp_timing :: sync_info

datatype hdmi_mode = YCBCR444_24BIT | YCBCR422

datatype sys_mpi =
    SYS_Init | SYS_Exit | VB_SetConfig | VB_SetSupplementConfig int | VB_Init | VB_Exit | VB_ExitModCommPool
  | SYS_SetMemConfig mpp_chn | SYS_Bind mpp_chn mpp_chn | SYS_UnBind mpp_chn mpp_chn
  | SYS_GetVIVPSSMode | SYS_SetVIVPSSMode "vi_vpss_mode list"

datatype vo_mpi =
    VO_SetPubAttr int vo_pub | VO_Enable int | VO_Disable int
  | VO_SetVideoLayerAttr int rect "int \<times> int" int | VO_EnableVideoLayer int | VO_DisableVideoLayer int
  | VO_GetVideoLayerAttr int | VO_SetChnAttr int int rect | VO_EnableChn int int | VO_DisableChn int int
  | VO_SetDisplayBufLen int int | VO_SetVideoLayerPartitionMode int | VO_GetVideoLayerCSC int | VO_SetVideoLayerCSC int

datatype hdmi_mpi =
    HDMI_Init | HDMI_Open | HDMI_GetAttr | HDMI_SetAttr hdmi_fmt hdmi_mode | HDMI_Start | HDMI_Stop | HDMI_Close | HDMI_DeInit

datatype vpss_mpi =
    VPSS_CreateGrp int | VPSS_SetChnAttr int int | VPSS_EnableChn int int | VPSS_StartGrp int
  | VPSS_DisableChn int int | VPSS_StopGrp int | VPSS_DestroyGrp int

datatype mipi_ioctl =
    MIPI_open | MIPI_close | SET_HS_MODE int | ENABLE_MIPI_CLOCK int | DISABLE_MIPI_CLOCK int | RESET_MIPI int | UNRESET_MIPI int
  | SET_DEV_ATTR combo_attr | ENABLE_SENSOR_CLOCK int | DISABLE_SENSOR_CLOCK int | RESET_SENSOR int | UNRESET_SENSOR int

datatype vi_mpi =
    VI_SetDevAttr int dev_attr | VI_EnableDev int | VI_DisableDev int | VI_SetDevBindPipe int "int list"
  | VI_CreatePipe int pipe_attr | VI_SetPipeVCNumber int int | VI_StartPipe int | VI_StopPipe int | VI_DestroyPipe int
  | VI_SetChnAttr int int chn_attr | VI_GetChnAttr int int | VI_EnableChn int int | VI_DisableChn int int

datatype isp_mpi =
    SNS_register int | SNS_unregister int | SNS_set_bus int int | AE_Register int | AE_UnRegister int
  | AWB_Register int | AWB_UnRegister int | ISP_MemInit int | ISP_SetPubAttr int isp_attr | ISP_Init int | ISP_Exit int
  | ISP_thread_create int | ISP_thread_join int | ISP_QueryInnerStateInfo int

datatype venc_mpi =
    VENC_StopRecvFrame int | VENC_DestroyChn int | VENC_thread_join

datatype mpi_call =
  Sys sys_mpi | Vo vo_mpi | Hdmi hdmi_mpi | Vpss vpss_mpi | Mipi mipi_ioctl | Vi vi_mpi | Isp isp_mpi | Venc venc_mpi

datatype media_res =
    R_vb | R_sys | R_bind mpp_chn mpp_chn | R_vo_dev int | R_layer int | R_vo_chn int int | R_hdmi_lib | R_hdmi_open | R_hdmi_on
  | R_vpss_grp int | R_vpss_chn int int | R_vpss_on int | R_mipi_fd | R_mipi_clock int | R_sns_clock int
  | R_vi_dev int | R_pipe int | R_pipe_on int | R_vi_chn int int | R_sensor int | R_ae int | R_awb int | R_isp_mem int | R_isp int
  | R_isp_thread int

text \<open>What a call that succeeds takes, and what it gives back.\<close>

fun gains :: "mpi_call \<Rightarrow> media_res set" where
  "gains (Sys VB_Init) = {R_vb}"
| "gains (Sys SYS_Init) = {R_sys}"
| "gains (Sys (SYS_Bind a b)) = {R_bind a b}"
| "gains (Vo (VO_Enable d)) = {R_vo_dev d}"
| "gains (Vo (VO_EnableVideoLayer l)) = {R_layer l}"
| "gains (Vo (VO_EnableChn l c)) = {R_vo_chn l c}"
| "gains (Hdmi HDMI_Init) = {R_hdmi_lib}"
| "gains (Hdmi HDMI_Open) = {R_hdmi_open}"
| "gains (Hdmi HDMI_Start) = {R_hdmi_on}"
| "gains (Vpss (VPSS_CreateGrp g)) = {R_vpss_grp g}"
| "gains (Vpss (VPSS_EnableChn g c)) = {R_vpss_chn g c}"
| "gains (Vpss (VPSS_StartGrp g)) = {R_vpss_on g}"
| "gains (Mipi MIPI_open) = {R_mipi_fd}"
| "gains (Mipi (ENABLE_MIPI_CLOCK d)) = {R_mipi_clock d}"
| "gains (Mipi (ENABLE_SENSOR_CLOCK d)) = {R_sns_clock d}"
| "gains (Vi (VI_EnableDev d)) = {R_vi_dev d}"
| "gains (Vi (VI_CreatePipe p a)) = {R_pipe p}"
| "gains (Vi (VI_StartPipe p)) = {R_pipe_on p}"
| "gains (Vi (VI_EnableChn p c)) = {R_vi_chn p c}"
| "gains (Isp (SNS_register p)) = {R_sensor p}"
| "gains (Isp (AE_Register p)) = {R_ae p}"
| "gains (Isp (AWB_Register p)) = {R_awb p}"
| "gains (Isp (ISP_MemInit p)) = {R_isp_mem p}"
| "gains (Isp (ISP_Init p)) = {R_isp p}"
| "gains (Isp (ISP_thread_create p)) = {R_isp_thread p}"
| "gains _ = {}"

fun drops :: "mpi_call \<Rightarrow> media_res set" where
  "drops (Sys VB_Exit) = {R_vb}"
| "drops (Sys SYS_Exit) = {R_sys}"
| "drops (Sys (SYS_UnBind a b)) = {R_bind a b}"
| "drops (Vo (VO_Disable d)) = {R_vo_dev d}"
| "drops (Vo (VO_DisableVideoLayer l)) = {R_layer l}"
| "drops (Vo (VO_DisableChn l c)) = {R_vo_chn l c}"
| "drops (Hdmi HDMI_DeInit) = {R_hdmi_lib}"
| "drops (Hdmi HDMI_Close) = {R_hdmi_open}"
| "drops (Hdmi HDMI_Stop) = {R_hdmi_on}"
| "drops (Vpss (VPSS_DestroyGrp g)) = {R_vpss_grp g}"
| "drops (Vpss (VPSS_DisableChn g c)) = {R_vpss_chn g c}"
| "drops (Vpss (VPSS_StopGrp g)) = {R_vpss_on g}"
| "drops (Mipi MIPI_close) = {R_mipi_fd}"
| "drops (Mipi (DISABLE_MIPI_CLOCK d)) = {R_mipi_clock d}"
| "drops (Mipi (DISABLE_SENSOR_CLOCK d)) = {R_sns_clock d}"
| "drops (Vi (VI_DisableDev d)) = {R_vi_dev d}"
| "drops (Vi (VI_DestroyPipe p)) = {R_pipe p}"
| "drops (Vi (VI_StopPipe p)) = {R_pipe_on p}"
| "drops (Vi (VI_DisableChn p c)) = {R_vi_chn p c}"
| "drops (Isp (SNS_unregister p)) = {R_sensor p}"
| "drops (Isp (AE_UnRegister p)) = {R_ae p}"
| "drops (Isp (AWB_UnRegister p)) = {R_awb p}"
| "drops (Isp (ISP_Exit p)) = {R_isp p, R_isp_mem p}"
| "drops (Isp (ISP_thread_join p)) = {R_isp_thread p}"
| "drops _ = {}"

text \<open>
  What the services answer, given all calls so far: the result code of the last call, and what some calls fill in: the size of a display layer, the
  modes of the pipes, whether a mode switch is done. A sensor driver may lack its callbacks. \<open>me_sns\<close> are the sensors the
  program is built for, \<open>me_junk\<close> is what a variable for receiver attributes holds before it is written.
\<close>

record mpi_env =
  me_ret :: "mpi_call list \<Rightarrow> int"
  me_layer :: "mpi_call list \<Rightarrow> int \<times> int"
  me_modes :: "mpi_call list \<Rightarrow> vi_vpss_mode list"
  me_switched :: "mpi_call list \<Rightarrow> bool"
  me_reg_cb :: bool
  me_unreg_cb :: bool
  me_bus_cb :: bool
  me_sns :: "nat \<Rightarrow> sns_type"
  me_junk :: combo_attr

text \<open>The state: the calls, what is held, and the static variables \<open>g_IspPid\<close> (a thread runs), \<open>g_au32IspSnsId\<close> and \<open>gs_stPara.bThreadStart\<close>.\<close>

record media =
  calls :: "mpi_call list"
  held :: "media_res set"
  isp_pid :: "int \<Rightarrow> bool"
  isp_sns :: "int \<Rightarrow> int"
  venc_on :: bool

type_synonym mop = "media \<Rightarrow> int \<times> media"

definition call_ok :: "mpi_call \<Rightarrow> int \<Rightarrow> bool" where
  "call_ok c r \<longleftrightarrow> (if c = (Mipi MIPI_open) then 0 \<le> r else r = 0)"

definition call :: "mpi_env \<Rightarrow> mpi_call \<Rightarrow> mop" where
  "call e c s =
     (let tr = calls s @ [c]; r = me_ret e tr
      in (r, s\<lparr>calls := tr, held := if call_ok c r then held s \<union> gains c - drops c else held s\<rparr>))"

definition ret :: "int \<Rightarrow> mop" where
  "ret r s = (r, s)"

text \<open>\<open>a\<close>; on an error the rest is \<open>h\<close> of the error, otherwise \<open>b\<close>.\<close>

definition on_error :: "mop \<Rightarrow> (int \<Rightarrow> mop) \<Rightarrow> mop \<Rightarrow> mop" where
  "on_error a h b s = (case a s of (r, s1) \<Rightarrow> if r \<noteq> 0 then h r s1 else b s1)"

definition after :: "mop \<Rightarrow> mop \<Rightarrow> mop" where
  "after a b s = b (snd (a s))"

text \<open>The first error is the result, after what \<open>u\<close> stops.\<close>

definition or_stop :: "mop \<Rightarrow> mop \<Rightarrow> mop \<Rightarrow> mop" where
  "or_stop a u b = on_error a (\<lambda>r. after u (ret r)) b"

text \<open>Calls up to the first error, for which \<open>f\<close> is the result; and calls whose results are not looked at.\<close>

fun run_all :: "mpi_env \<Rightarrow> (int \<Rightarrow> int) \<Rightarrow> mpi_call list \<Rightarrow> mop" where
  "run_all e f [] = ret 0"
| "run_all e f (c # cs) = on_error (call e c) (\<lambda>r. ret (f r)) (run_all e f cs)"

fun run_ignoring :: "mpi_env \<Rightarrow> mpi_call list \<Rightarrow> mop" where
  "run_ignoring e [] = ret 0"
| "run_ignoring e (c # cs) = after (call e c) (run_ignoring e cs)"

definition HI_FAIL :: "int \<Rightarrow> int" where
  "HI_FAIL r = -1"

definition same :: "int \<Rightarrow> int" where
  "same r = r"

section \<open>The system (sample_comm_sys.c)\<close>

text \<open>The numbers of channels are those of the hardware (hi_defines.h).\<close>

definition mem_config_chns :: "mpp_chn list" where
  "mem_config_chns =
     [(ID_VI, i, j). i \<leftarrow> [0..3], j \<leftarrow> [0..8]] @ [(ID_AVS, i, 0). i \<leftarrow> [0..31]] @ [(ID_VPSS, i, 0). i \<leftarrow> [0..15]] @
     [(ID_VENC, 0, i). i \<leftarrow> [0..15]] @ [(ID_VO, i, j). i \<leftarrow> [0], j \<leftarrow> [0..3]] @ [(ID_VDEC, 0, i). i \<leftarrow> [0..15]]"

definition SYS_MemConfig :: "mpi_env \<Rightarrow> mop" where
  "SYS_MemConfig e = run_all e HI_FAIL (map (\<lambda>c. Sys (SYS_SetMemConfig c)) mem_config_chns)"

text \<open>\<open>conf\<close>: a configuration is given. When the system does not start, the video buffers are given back by \<open>Init\<close>, but not by \<open>InitWithVbSupplement\<close>.\<close>

definition COMM_SYS_Init :: "mpi_env \<Rightarrow> bool \<Rightarrow> mop" where
  "COMM_SYS_Init e conf =
     after (run_ignoring e [Sys SYS_Exit, Sys VB_Exit])
       (if \<not> conf then ret (-1)
        else on_error (run_all e HI_FAIL [Sys VB_SetConfig, Sys VB_Init]) ret
          (on_error (call e (Sys SYS_Init)) (\<lambda>r. after (call e (Sys VB_Exit)) (ret (-1))) (ret 0)))"

definition COMM_SYS_InitWithVbSupplement :: "mpi_env \<Rightarrow> bool \<Rightarrow> int \<Rightarrow> mop" where
  "COMM_SYS_InitWithVbSupplement e conf sc =
     after (run_ignoring e [Sys SYS_Exit, Sys VB_Exit])
       (if \<not> conf then ret (-1)
        else run_all e HI_FAIL [Sys VB_SetConfig, Sys (VB_SetSupplementConfig sc), Sys VB_Init, Sys SYS_Init])"

text \<open>One layer, four channels, one device.\<close>

definition COMM_VO_Exit :: "mpi_env \<Rightarrow> mop" where
  "COMM_VO_Exit e =
     run_ignoring e ([Vo (VO_DisableChn i j). i \<leftarrow> [0], j \<leftarrow> [0..3]] @ [Vo (VO_DisableVideoLayer 0), Vo (VO_Disable 0)])"

definition COMM_SYS_Exit :: "mpi_env \<Rightarrow> mop" where
  "COMM_SYS_Exit e = after (COMM_VO_Exit e) (run_ignoring e [Sys SYS_Exit, Sys VB_ExitModCommPool, Sys VB_Exit])"

definition sys_bind :: "mpi_env \<Rightarrow> mpp_chn \<Rightarrow> mpp_chn \<Rightarrow> mop" where
  "sys_bind e a b = run_all e same [Sys (SYS_Bind a b)]"

definition sys_unbind :: "mpi_env \<Rightarrow> mpp_chn \<Rightarrow> mpp_chn \<Rightarrow> mop" where
  "sys_unbind e a b = run_all e same [Sys (SYS_UnBind a b)]"

definition VI_Bind_VO where "VI_Bind_VO e p c l vc = sys_bind e (ID_VI, p, c) (ID_VO, l, vc)"
definition VI_UnBind_VO where "VI_UnBind_VO e p c l vc = sys_unbind e (ID_VI, p, c) (ID_VO, l, vc)"
definition VI_Bind_VPSS where "VI_Bind_VPSS e p c g = sys_bind e (ID_VI, p, c) (ID_VPSS, g, 0)"
definition VI_UnBind_VPSS where "VI_UnBind_VPSS e p c g = sys_unbind e (ID_VI, p, c) (ID_VPSS, g, 0)"
definition VI_Bind_VENC where "VI_Bind_VENC e p c v = sys_bind e (ID_VI, p, c) (ID_VENC, 0, v)"
definition VI_UnBind_VENC where "VI_UnBind_VENC e p c v = sys_unbind e (ID_VI, p, c) (ID_VENC, 0, v)"
definition VPSS_Bind_AVS where "VPSS_Bind_AVS e g c a p = sys_bind e (ID_VPSS, g, c) (ID_AVS, a, p)"
definition VPSS_UnBind_AVS where "VPSS_UnBind_AVS e g c a p = sys_unbind e (ID_VPSS, g, c) (ID_AVS, a, p)"
definition VPSS_Bind_VO where "VPSS_Bind_VO e g c l vc = sys_bind e (ID_VPSS, g, c) (ID_VO, l, vc)"
definition VPSS_UnBind_VO where "VPSS_UnBind_VO e g c l vc = sys_unbind e (ID_VPSS, g, c) (ID_VO, l, vc)"
definition VPSS_Bind_VENC where "VPSS_Bind_VENC e g c v = sys_bind e (ID_VPSS, g, c) (ID_VENC, 0, v)"
definition VPSS_UnBind_VENC where "VPSS_UnBind_VENC e g c v = sys_unbind e (ID_VPSS, g, c) (ID_VENC, 0, v)"
definition AVS_Bind_AVS where "AVS_Bind_AVS e g c g2 c2 = sys_bind e (ID_AVS, g, c) (ID_AVS, g2, c2)"
definition AVS_UnBind_AVS where "AVS_UnBind_AVS e g c g2 c2 = sys_unbind e (ID_AVS, g, c) (ID_AVS, g2, c2)"
definition AVS_Bind_VPSS where "AVS_Bind_VPSS e g c g2 = sys_bind e (ID_AVS, g, c) (ID_VPSS, g2, 0)"
definition AVS_UnBind_VPSS where "AVS_UnBind_VPSS e g c g2 = sys_unbind e (ID_AVS, g, c) (ID_VPSS, g2, 0)"
definition AVS_Bind_VENC where "AVS_Bind_VENC e g c v = sys_bind e (ID_AVS, g, c) (ID_VENC, 0, v)"
definition AVS_UnBind_VENC where "AVS_UnBind_VENC e g c v = sys_unbind e (ID_AVS, g, c) (ID_VENC, 0, v)"
definition AVS_Bind_VO where "AVS_Bind_VO e g c l vc = sys_bind e (ID_AVS, g, c) (ID_VO, l, vc)"
definition AVS_UnBind_VO where "AVS_UnBind_VO e g c l vc = sys_unbind e (ID_AVS, g, c) (ID_VO, l, vc)"
definition VDEC_Bind_VPSS where "VDEC_Bind_VPSS e v g = sys_bind e (ID_VDEC, 0, v) (ID_VPSS, g, 0)"
definition VDEC_UnBind_VPSS where "VDEC_UnBind_VPSS e v g = sys_unbind e (ID_VDEC, 0, v) (ID_VPSS, g, 0)"
definition VO_Bind_VO where "VO_Bind_VO e l c l2 c2 = sys_bind e (ID_VO, l, c) (ID_VO, l2, c2)"

section \<open>Mapping registers\<close>

datatype map_event = Dev_open | Mmap int int | Reg_write int int | Reg_read int | Munmap int int

text \<open>The device's descriptor, and where \<open>mmap\<close> puts a mapping (\<open>None\<close>: it fails).\<close>

record map_env =
  mp_open :: int
  mp_map :: "int \<Rightarrow> int \<Rightarrow> int option"
  mp_unmap :: "int \<Rightarrow> int \<Rightarrow> int"
  mp_reg :: int

definition page :: "int \<Rightarrow> int" where
  "page x = x div 4096 * 4096"

definition map_len :: "int \<Rightarrow> int \<Rightarrow> int" where
  "map_len sz diff = u32 (page (u32 (u32 (sz + diff) - 1)) + 4096)"

text \<open>The pointer, the descriptor kept and the calls.\<close>

definition IOMmap :: "map_env \<Rightarrow> int \<Rightarrow> int \<Rightarrow> int \<Rightarrow> map_event list \<Rightarrow> int option \<times> int \<times> map_event list" where
  "IOMmap e phy sz fd tr =
     (let fd1 = (if fd \<le> 0 then mp_open e else fd); tr1 = (if fd \<le> 0 then tr @ [Dev_open] else tr)
      in if fd1 < 0 then (None, fd1, tr1)
         else if sz = 0 then (None, fd1, tr1)
         else let pg = page phy; diff = u32 (phy - pg); len = map_len sz diff; tr2 = tr1 @ [Mmap pg len]
         in case mp_map e pg len of None \<Rightarrow> (None, fd1, tr2) | Some p \<Rightarrow> (Some (u32 (p + diff)), fd1, tr2))"

definition IOMunmap :: "map_env \<Rightarrow> int \<Rightarrow> int \<Rightarrow> map_event list \<Rightarrow> int \<times> map_event list" where
  "IOMunmap e p sz tr =
     (let pg = page p; len = map_len sz (u32 (p - pg)) in (mp_unmap e pg len, tr @ [Munmap pg len]))"

definition SetReg :: "map_env \<Rightarrow> int \<Rightarrow> int \<Rightarrow> int \<Rightarrow> map_event list \<Rightarrow> int \<times> int \<times> map_event list" where
  "SetReg e addr v fd tr =
     (case IOMmap e addr 4 fd tr of
        (None, fd1, tr1) \<Rightarrow> (-1, fd1, tr1)
      | (Some p, fd1, tr1) \<Rightarrow> let (r, tr2) = IOMunmap e p 4 (tr1 @ [Reg_write p v]) in (r, fd1, tr2))"

text \<open>The code for a null pointer of the system module is \<open>0xA0028006\<close>.\<close>

definition HI_ERR_SYS_NULL_PTR :: int where
  "HI_ERR_SYS_NULL_PTR = s32 2684518406"

definition GetReg :: "map_env \<Rightarrow> int \<Rightarrow> bool \<Rightarrow> int \<Rightarrow> map_event list \<Rightarrow> int \<times> int option \<times> int \<times> map_event list" where
  "GetReg e addr given fd tr =
     (if \<not> given then (HI_ERR_SYS_NULL_PTR, None, fd, tr)
      else case IOMmap e addr 4 fd tr of
        (None, fd1, tr1) \<Rightarrow> (-1, None, fd1, tr1)
      | (Some p, fd1, tr1) \<Rightarrow> let (r, tr2) = IOMunmap e p 4 (tr1 @ [Reg_read p]) in (r, Some (mp_reg e), fd1, tr2))"

section \<open>What operations take and give back\<close>

definition takes :: "mop \<Rightarrow> media_res set \<Rightarrow> media_res set \<Rightarrow> bool" where
  "takes a A L \<longleftrightarrow>
     (\<forall>s. if fst (a s) = 0 then held (snd (a s)) = held s \<union> A
          else held s - A \<subseteq> held (snd (a s)) \<and> held (snd (a s)) \<subseteq> held s \<union> L)"

definition frees :: "mop \<Rightarrow> media_res set \<Rightarrow> bool" where
  "frees a A \<longleftrightarrow> (\<forall>s. held (snd (a s)) = held s - A)"

text \<open>Calls that stop or give back something succeed.\<close>

fun is_stop :: "mpi_call \<Rightarrow> bool" where
  "is_stop (Mipi MIPI_open) = True"
| "is_stop (Mipi (RESET_MIPI d)) = True"
| "is_stop (Mipi (RESET_SENSOR d)) = True"
| "is_stop c = (drops c \<noteq> {})"

definition stops_succeed :: "mpi_env \<Rightarrow> bool" where
  "stops_succeed e \<longleftrightarrow> (\<forall>tr c. is_stop c \<longrightarrow> call_ok c (me_ret e (tr @ [c])))"

text \<open>The static variables of the ISP are left alone.\<close>

definition quiet :: "mop \<Rightarrow> bool" where
  "quiet a \<longleftrightarrow> (\<forall>s. isp_pid (snd (a s)) = isp_pid s \<and> isp_sns (snd (a s)) = isp_sns s)"

named_theorems media_calc "what operations take and give back"

lemma quietI [media_calc]: "quiet (call e c)" "quiet (ret r)"
  by (simp_all add: quiet_def call_def ret_def Let_def)

lemma on_error_if: "on_error a h b s = (if fst (a s) = 0 then b (snd (a s)) else h (fst (a s)) (snd (a s)))"
  by (simp add: on_error_def split: prod.split)

lemma quiet_seq [media_calc]:
  "quiet a \<Longrightarrow> (\<And>r. quiet (h r)) \<Longrightarrow> quiet b \<Longrightarrow> quiet (on_error a h b)"
  "quiet a \<Longrightarrow> quiet b \<Longrightarrow> quiet (after a b)"
  by (simp_all add: quiet_def on_error_if after_def)

lemma quiet_run [media_calc]: "quiet (run_all e f cs)" "quiet (run_ignoring e cs)"
  by (induction cs) (simp_all add: media_calc)

lemma takes_call: "drops c = {} \<Longrightarrow> c \<noteq> Mipi MIPI_open \<Longrightarrow> takes (call e c) (gains c) {}"
  by (simp add: takes_def call_def Let_def call_ok_def)

lemma takes_ret [media_calc]: "takes (ret 0) {} {}"
  by (simp add: takes_def ret_def)

lemma takes_weaken: "takes a A L \<Longrightarrow> L \<subseteq> L' \<Longrightarrow> takes a A L'"
  unfolding takes_def by (metis Un_mono order_refl subset_trans)

text \<open>A sequence: when the second part fails, its handler gives back what the first has taken, or it stays.\<close>

lemma takes_unwind:
  assumes "takes a A LA" "takes b B LB" "frees u A" "\<And>r. r \<noteq> 0 \<Longrightarrow> f r \<noteq> 0" "\<And>r. r \<noteq> 0 \<Longrightarrow> g r \<noteq> 0"
  shows "takes (on_error a (\<lambda>r. ret (f r)) (on_error b (\<lambda>r. after u (ret (g r))) (ret 0))) (A \<union> B) (LA \<union> LB)"
  unfolding takes_def
proof (intro allI)
  fix s
  obtain r1 s1 where 1: "a s = (r1, s1)" by (metis surj_pair)
  obtain r2 s2 where 2: "b s1 = (r2, s2)" by (metis surj_pair)
  show "if fst (on_error a (\<lambda>r. ret (f r)) (on_error b (\<lambda>r. after u (ret (g r))) (ret 0)) s) = 0
        then held (snd (on_error a (\<lambda>r. ret (f r)) (on_error b (\<lambda>r. after u (ret (g r))) (ret 0)) s)) = held s \<union> (A \<union> B)
        else held s - (A \<union> B) \<subseteq> held (snd (on_error a (\<lambda>r. ret (f r)) (on_error b (\<lambda>r. after u (ret (g r))) (ret 0)) s)) \<and>
          held (snd (on_error a (\<lambda>r. ret (f r)) (on_error b (\<lambda>r. after u (ret (g r))) (ret 0)) s)) \<subseteq> held s \<union> (LA \<union> LB)"
    using assms(1) [unfolded takes_def, rule_format, of s] assms(2) [unfolded takes_def, rule_format, of s1]
      assms(3) [unfolded frees_def, rule_format, of s2] assms(4) [of r1] assms(5) [of r2] 1 2
    by (auto simp: on_error_def after_def ret_def split: if_splits)
qed

lemma takes_keep:
  assumes "takes a A LA" "takes b B LB" "\<And>r. r \<noteq> 0 \<Longrightarrow> f r \<noteq> 0"
  shows "takes (on_error a (\<lambda>r. ret (f r)) b) (A \<union> B) (LA \<union> A \<union> LB)"
  unfolding takes_def
proof (intro allI)
  fix s
  obtain r1 s1 where 1: "a s = (r1, s1)" by (metis surj_pair)
  obtain r2 s2 where 2: "b s1 = (r2, s2)" by (metis surj_pair)
  show "if fst (on_error a (\<lambda>r. ret (f r)) b s) = 0 then held (snd (on_error a (\<lambda>r. ret (f r)) b s)) = held s \<union> (A \<union> B)
        else held s - (A \<union> B) \<subseteq> held (snd (on_error a (\<lambda>r. ret (f r)) b s)) \<and>
          held (snd (on_error a (\<lambda>r. ret (f r)) b s)) \<subseteq> held s \<union> (LA \<union> A \<union> LB)"
    using assms(1) [unfolded takes_def, rule_format, of s] assms(2) [unfolded takes_def, rule_format, of s1] assms(3) [of r1] 1 2
    by (auto simp: on_error_def ret_def split: if_splits)
qed

definition gains_all :: "mpi_call list \<Rightarrow> media_res set" where
  "gains_all cs = \<Union> (gains ` set cs)"

definition starts_only :: "mpi_call list \<Rightarrow> bool" where
  "starts_only cs \<longleftrightarrow> list_all (\<lambda>c. drops c = {} \<and> c \<noteq> Mipi MIPI_open) cs"

lemma gains_all_simps [simp]: "gains_all [] = {}" "gains_all (c # cs) = gains c \<union> gains_all cs" "gains_all (cs @ ds) = gains_all cs \<union> gains_all ds"
  by (auto simp: gains_all_def)

lemma starts_only_simps [simp]: "starts_only []" "starts_only (c # cs) \<longleftrightarrow> drops c = {} \<and> c \<noteq> Mipi MIPI_open \<and> starts_only cs"
  "starts_only (cs @ ds) \<longleftrightarrow> starts_only cs \<and> starts_only ds"
  by (auto simp: starts_only_def)

text \<open>Calls up to the first error; only the last call that takes something leaves nothing behind when it fails.\<close>

lemma takes_run_all: "starts_only cs \<Longrightarrow> (\<And>r. r \<noteq> 0 \<Longrightarrow> f r \<noteq> 0) \<Longrightarrow> takes (run_all e f cs) (gains_all cs) (gains_all (butlast cs))"
proof (induction cs)
  case (Cons c cs)
  show ?case
  proof (cases "cs = []")
    case True
    then show ?thesis using Cons.prems takes_call [of c e] by (auto simp: takes_def on_error_if ret_def split: if_splits)
  next
    case False
    have "takes (call e c) (gains c) {}" "takes (run_all e f cs) (gains_all cs) (gains_all (butlast cs))"
      using Cons by (auto intro: takes_call)
    from takes_keep [OF this, of f] show ?thesis using False Cons.prems(2) by simp
  qed
qed (simp add: takes_ret)

lemma HI_FAIL_neq [simp]: "HI_FAIL r \<noteq> 0"
  by (simp add: HI_FAIL_def)

lemma frees_call: "stops_succeed e \<Longrightarrow> is_stop c \<Longrightarrow> gains c \<inter> drops c = gains c \<Longrightarrow> frees (call e c) (drops c)"
  by (auto simp: frees_def call_def Let_def stops_succeed_def)

lemma frees_ret [media_calc]: "frees (ret r) {}"
  by (simp add: frees_def ret_def)

lemma frees_after: "frees a A \<Longrightarrow> frees b B \<Longrightarrow> frees (after a b) (A \<union> B)"
  by (auto simp: frees_def after_def)

definition drops_all :: "mpi_call list \<Rightarrow> media_res set" where
  "drops_all cs = \<Union> (drops ` set cs)"

lemma drops_all_simps [simp]: "drops_all [] = {}" "drops_all (c # cs) = drops c \<union> drops_all cs" "drops_all (cs @ ds) = drops_all cs \<union> drops_all ds"
  by (auto simp: drops_all_def)

definition stops_only :: "mpi_call list \<Rightarrow> bool" where
  "stops_only cs \<longleftrightarrow> list_all (\<lambda>c. is_stop c \<and> gains c = {} \<and> c \<noteq> Mipi MIPI_open) cs"

lemma stops_only_simps [simp]: "stops_only []" "stops_only (c # cs) \<longleftrightarrow> is_stop c \<and> gains c = {} \<and> c \<noteq> Mipi MIPI_open \<and> stops_only cs"
  "stops_only (cs @ ds) \<longleftrightarrow> stops_only cs \<and> stops_only ds"
  by (auto simp: stops_only_def)

lemma stops_run_all:
  "stops_succeed e \<Longrightarrow> stops_only cs \<Longrightarrow> fst (run_all e f cs s) = 0 \<and> held (snd (run_all e f cs s)) = held s - drops_all cs"
proof (induction cs arbitrary: s)
  case (Cons c cs)
  then have "call_ok c (me_ret e (calls s @ [c]))" "c \<noteq> Mipi MIPI_open" "gains c = {}" by (auto simp: stops_succeed_def)
  then show ?case using Cons.IH [of "snd (call e c s)"] Cons.prems by (auto simp: on_error_def call_def Let_def call_ok_def)
qed (simp add: ret_def)

lemma stops_run_ignoring: "stops_succeed e \<Longrightarrow> stops_only cs \<Longrightarrow> frees (run_ignoring e cs) (drops_all cs)"
proof (induction cs)
  case (Cons c cs)
  then show ?case using frees_after [OF frees_call, of e c "run_ignoring e cs" "drops_all cs"] by simp
qed (simp add: frees_ret)

lemma frees_run_all: "stops_succeed e \<Longrightarrow> stops_only cs \<Longrightarrow> frees (run_all e f cs) (drops_all cs)"
  by (simp add: frees_def stops_run_all)

section \<open>Pairs of operations\<close>

text \<open>
  \<open>start\<close> takes \<open>A\<close>, and may leave parts of \<open>L\<close> behind when it fails; \<open>stop\<close> gives \<open>F\<close> back, which contains \<open>A\<close>. The services give
  back what they are asked to.
\<close>

locale paired =
  fixes e :: mpi_env
    and start stop :: mop
    and A F L :: "media_res set"
  assumes takes_start: "stops_succeed e \<Longrightarrow> takes start A L"
    and frees_stop: "stops_succeed e \<Longrightarrow> frees stop F"
    and taken_freed: "A \<subseteq> F"
begin

lemma started: "stops_succeed e \<Longrightarrow> fst (start s) = 0 \<Longrightarrow> held (snd (start s)) = held s \<union> A"
  using takes_start by (simp add: takes_def)

lemma failed:
  "stops_succeed e \<Longrightarrow> fst (start s) \<noteq> 0 \<Longrightarrow> held s \<inter> A = {} \<Longrightarrow> held s \<subseteq> held (snd (start s)) \<and> held (snd (start s)) \<subseteq> held s \<union> L"
  using takes_start by (auto simp: takes_def split: if_splits)

lemma start_stop:
  "stops_succeed e \<Longrightarrow> fst (start s) = 0 \<Longrightarrow> held s \<inter> F = {} \<Longrightarrow> held (snd (stop (snd (start s)))) = held s"
  using started [of s] frees_stop taken_freed by (auto simp: frees_def)

lemma stopped: "stops_succeed e \<Longrightarrow> held (snd (stop s)) \<inter> A = {}"
  using frees_stop taken_freed by (auto simp: frees_def)

end

text \<open>One pair per element of a list: when one start fails, the elements before it are stopped.\<close>

fun stop_each :: "('v \<Rightarrow> mop) \<Rightarrow> 'v list \<Rightarrow> mop" where
  "stop_each stop [] = ret 0"
| "stop_each stop (v # vs) = after (stop v) (stop_each stop vs)"

fun start_unwinding :: "('v \<Rightarrow> mop) \<Rightarrow> ('v \<Rightarrow> mop) \<Rightarrow> 'v list \<Rightarrow> 'v list \<Rightarrow> mop" where
  "start_unwinding start stop done [] = ret 0"
| "start_unwinding start stop done (v # vs) =
     or_stop (start v) (stop_each stop done) (start_unwinding start stop (done @ [v]) vs)"

locale paired_family =
  fixes e :: mpi_env
    and start stop :: "'v \<Rightarrow> mop"
    and A F L :: "'v \<Rightarrow> media_res set"
    and ok :: "'v \<Rightarrow> bool"
  assumes takes_each: "stops_succeed e \<Longrightarrow> ok v \<Longrightarrow> takes (start v) (A v) (L v)"
    and frees_each: "stops_succeed e \<Longrightarrow> frees (stop v) (F v)"
    and taken_freed_each: "A v \<subseteq> F v"
begin

lemma one: "ok v \<Longrightarrow> paired e (start v) (stop v) (A v) (F v) (L v)"
  by unfold_locales (simp_all add: takes_each frees_each taken_freed_each)

lemma frees_list: "stops_succeed e \<Longrightarrow> frees (stop_each stop vs) (\<Union> (F ` set vs))"
proof (induction vs)
  case (Cons v vs)
  then show ?case using frees_after [OF frees_each [of v], of "stop_each stop vs"] by simp
qed (simp add: frees_ret)

lemma unwinding:
  assumes "stops_succeed e" "list_all ok vs"
  shows "let s' = start_unwinding start stop done vs s; D = \<Union> (F ` set done); V = \<Union> (F ` set vs)
    in if fst s' = 0 then held (snd s') = held s \<union> \<Union> (A ` set vs)
       else held s - (D \<union> V) \<subseteq> held (snd s') \<and> held (snd s') \<subseteq> (held s - D) \<union> \<Union> (L ` set vs)"
  using assms(2)
proof (induction vs arbitrary: "done" s)
  case (Cons v vs)
  obtain r1 s1 where 1: "start v s = (r1, s1)" by (metis surj_pair)
  note p = takes_each [OF assms(1), of v, unfolded takes_def, rule_format, of s] taken_freed_each [of v]
  show ?case
  proof (cases "r1 = 0")
    case True
    then show ?thesis using Cons.IH [of "done @ [v]" s1] Cons.prems p 1
      by (auto simp: or_stop_def on_error_if Let_def split: if_splits)
  next
    case False
    have "held (snd (stop_each stop done s1)) = held s1 - \<Union> (F ` set done)"
      using frees_list [OF assms(1), of "done"] by (simp add: frees_def)
    then show ?thesis using False p 1 Cons.prems by (auto simp: or_stop_def on_error_if Let_def after_def ret_def)
  qed
qed (simp add: ret_def)

text \<open>From a state that holds nothing of the list: all, or what single starts leave behind; and stopping gives all back.\<close>

lemma all_or_leaks:
  assumes "stops_succeed e" "list_all ok vs" "held s \<inter> \<Union> (F ` set vs) = {}"
  shows "let s' = start_unwinding start stop [] vs s
    in if fst s' = 0 then held (snd s') = held s \<union> \<Union> (A ` set vs) \<and> held (snd (stop_each stop vs (snd s'))) = held s
       else held s \<subseteq> held (snd s') \<and> held (snd s') \<subseteq> held s \<union> \<Union> (L ` set vs)"
proof -
  have "\<Union> (A ` set vs) \<subseteq> \<Union> (F ` set vs)" using taken_freed_each by blast
  then show ?thesis
    using unwinding [OF assms(1,2), of "[]" s] assms(3) frees_list [OF assms(1), of vs]
    by (auto simp: Let_def frees_def split: if_splits)
qed

end

section \<open>What is mapped is unmapped\<close>

lemma map_len_covers:
  assumes "0 < sz" "0 \<le> diff" "sz + diff \<le> 4294963200"
  shows "sz + diff \<le> map_len sz diff" "map_len sz diff < sz + diff + 4096" "4096 dvd map_len sz diff"
proof -
  have u: "u32 (u32 (sz + diff) - 1) = sz + diff - 1" using assms by (simp add: u32_id in_u32_def)
  have m: "(sz + diff - 1) div 4096 * 4096 + (sz + diff - 1) mod 4096 = sz + diff - 1"
    "0 \<le> (sz + diff - 1) mod 4096" "(sz + diff - 1) mod 4096 < 4096" by simp_all
  have v: "map_len sz diff = (sz + diff - 1) div 4096 * 4096 + 4096"
    unfolding map_len_def u page_def using assms m by (intro u32_id) (unfold in_u32_def, linarith)
  then show "sz + diff \<le> map_len sz diff" "map_len sz diff < sz + diff + 4096" using m by linarith+
  show "4096 dvd map_len sz diff" unfolding v by simp
qed

lemma page_below: "page x \<le> x" "x < page x + 4096" "4096 dvd page x"
proof -
  have "x div 4096 * 4096 + x mod 4096 = x" "0 \<le> x mod 4096" "x mod 4096 < 4096" by simp_all
  then show "page x \<le> x" "x < page x + 4096" unfolding page_def by linarith+
qed (simp add: page_def)

lemma page_of: "4096 dvd p \<Longrightarrow> 0 \<le> d \<Longrightarrow> d < 4096 \<Longrightarrow> page (p + d) = p"
  by (auto simp: page_def elim!: dvdE)

text \<open>
  \<open>SAMPLE_SYS_SetReg\<close> maps whole pages around the register, writes the register through the mapping at the offset it has in
  its page, and unmaps exactly the pages it has mapped; the mapping contains the four bytes of the register even where these cross a page.
\<close>

lemma SetReg_unmaps:
  assumes "0 \<le> addr" "0 < fd \<or> 0 \<le> mp_open e" "len = map_len 4 (addr - page addr)" "mp_map e (page addr) len = Some p"
    and "4096 dvd p" "0 \<le> p" "p + len \<le> 4294967296"
  shows "SetReg e addr v fd tr =
      (mp_unmap e p len, if fd \<le> 0 then mp_open e else fd,
       (if fd \<le> 0 then tr @ [Dev_open] else tr) @ [Mmap (page addr) len, Reg_write (p + (addr - page addr)) v, Munmap p len]) \<and>
    page addr \<le> addr \<and> addr + 4 \<le> page addr + len \<and> p + (addr - page addr) + 4 \<le> p + len"
proof -
  define d where "d = addr - page addr"
  have d: "0 \<le> d" "d < 4096" "addr = page addr + d" "u32 d = d" using page_below [of addr] by (simp_all add: d_def u32_id in_u32_def)
  have l: "4 + d \<le> len" using map_len_covers [of 4 d] d assms(3) by (simp add: d_def)
  have p: "u32 (p + d) = p + d" using assms(6,7) d l by (intro u32_id) (simp add: in_u32_def)
  have pg: "page (p + d) = p" using page_of [OF assms(5) d(1,2)] .
  have map: "IOMmap e addr 4 fd tr = (Some (p + d), if fd \<le> 0 then mp_open e else fd, (if fd \<le> 0 then tr @ [Dev_open] else tr) @ [Mmap (page addr) len])"
    using assms(2,4) d(4) p unfolding IOMmap_def Let_def d_def [symmetric] assms(3) [folded d_def] by (auto simp: assms(3) [folded d_def])
  have unmap: "IOMunmap e (p + d) 4 t = (mp_unmap e p len, t @ [Munmap p len])" for t
    using d(4) by (simp add: IOMunmap_def Let_def pg assms(3) [folded d_def])
  show ?thesis unfolding SetReg_def map d_def [symmetric] using l d by (simp add: unmap)
qed

lemma SetReg_unmaps_witness:
  "SetReg \<lparr>mp_open = 3, mp_map = (\<lambda>_ _. Some 1073741824), mp_unmap = (\<lambda>_ _. 0), mp_reg = 0\<rparr> 302059519 7 (-1) [] =
    (0, 3, [Dev_open, Mmap 302055424 8192, Reg_write 1073745919 7, Munmap 1073741824 8192])"
proof -
  have "8192 = map_len 4 (302059519 - page 302059519)" by code_simp
  from SetReg_unmaps [OF _ _ this, of "-1" "\<lparr>mp_open = 3, mp_map = (\<lambda>_ _. Some 1073741824), mp_unmap = (\<lambda>_ _. 0), mp_reg = 0\<rparr>" 1073741824 7 "[]"]
  show ?thesis by (simp add: page_def)
qed

text \<open>The length wraps to zero for a size near 4 GB.\<close>

lemma map_len_wraps: "map_len 4294967295 0 = 0"
  by code_simp

section \<open>Starting the system\<close>

lemma run_all_two: "run_all e f [a, b] s = on_error (call e a) (\<lambda>r. ret (f r)) (on_error (call e b) (\<lambda>r. ret (f r)) (ret 0)) s"
  by simp

text \<open>After a successful start the system and the buffers are held; after an error neither is, when giving back succeeds.\<close>

lemma COMM_SYS_Init_unwinds:
  assumes "stops_succeed e"
  shows "if fst (COMM_SYS_Init e conf s) = 0 then conf \<and> held (snd (COMM_SYS_Init e conf s)) = held s \<union> {R_vb, R_sys}
    else held (snd (COMM_SYS_Init e conf s)) = held s - {R_vb, R_sys}"
proof -
  define s1 where "s1 = snd (run_ignoring e [Sys SYS_Exit, Sys VB_Exit] s)"
  have s1: "held s1 = held s - {R_vb, R_sys}"
    using stops_run_ignoring [OF assms, of "[Sys SYS_Exit, Sys VB_Exit]"] by (auto simp: s1_def frees_def)
  have r: "fst (call e (Sys VB_Exit) t) = 0 \<and> held (snd (call e (Sys VB_Exit) t)) = held t - {R_vb}" for t
    using assms by (auto simp: stops_succeed_def call_def Let_def call_ok_def)
  have 1: "held (snd (call e (Sys VB_SetConfig) t)) = held t" for t by (simp add: call_def Let_def)
  have 2: "held (snd (call e (Sys VB_Init) t)) = (if fst (call e (Sys VB_Init) t) = 0 then held t \<union> {R_vb} else held t)" for t
    by (simp add: call_def Let_def call_ok_def)
  have 3: "held (snd (call e (Sys SYS_Init) t)) = (if fst (call e (Sys SYS_Init) t) = 0 then held t \<union> {R_sys} else held t)" for t
    by (simp add: call_def Let_def call_ok_def)
  show ?thesis
    unfolding COMM_SYS_Init_def after_def s1_def [symmetric]
    by (auto simp: on_error_if ret_def 1 2 3 s1 r HI_FAIL_def)
qed

lemma COMM_SYS_InitWithVbSupplement_leaks:
  "\<exists>e s. stops_succeed e \<and> fst (COMM_SYS_InitWithVbSupplement e True sc s) \<noteq> 0 \<and> held s = {} \<and>
     held (snd (COMM_SYS_InitWithVbSupplement e True sc s)) = {R_vb}"
proof (intro exI conjI)
  let ?e = "\<lparr>me_ret = (\<lambda>tr. if last tr = Sys SYS_Init then 1 else 0), me_layer = \<lambda>_. (0, 0), me_modes = \<lambda>_. [], me_switched = \<lambda>_. True,
      me_reg_cb = True, me_unreg_cb = True, me_bus_cb = True,
     me_sns = \<lambda>_. SONY_IMX327_MIPI_2M_30FPS_12BIT, me_junk = MIPI_4lane_CHN0_SENSOR_IMX327_12BIT_2M_NOWDR_ATTR\<rparr>"
  let ?s = "\<lparr>calls = [], held = {}, isp_pid = \<lambda>_. False, isp_sns = \<lambda>_. 0, venc_on = False\<rparr>"
  show "stops_succeed ?e" by (auto simp: stops_succeed_def call_ok_def)
  show "fst (COMM_SYS_InitWithVbSupplement ?e True sc ?s) \<noteq> 0" "held ?s = {}" "held (snd (COMM_SYS_InitWithVbSupplement ?e True sc ?s)) = {R_vb}"
    by (simp_all add: COMM_SYS_InitWithVbSupplement_def after_def on_error_if call_def Let_def call_ok_def ret_def HI_FAIL_def)
qed

section \<open>Unwinding step by step\<close>

text \<open>
  \<open>takes_in a C A L\<close>: \<open>a\<close> runs when \<open>C\<close> has been taken before; it takes \<open>A\<close>, or fails and gives \<open>C\<close> back, leaving at most \<open>L\<close>.
\<close>

definition takes_in :: "mop \<Rightarrow> media_res set \<Rightarrow> media_res set \<Rightarrow> media_res set \<Rightarrow> bool" where
  "takes_in a C A L \<longleftrightarrow>
     (\<forall>s. if fst (a s) = 0 then held (snd (a s)) = held s \<union> A
          else held s - (C \<union> A) \<subseteq> held (snd (a s)) \<and> held (snd (a s)) \<subseteq> (held s - C) \<union> L)"

lemma takes_in_takes: "takes_in a {} A L = takes a A L"
  by (simp add: takes_in_def takes_def)

lemma takes_in_ret: "takes_in (ret 0) C {} {}"
  by (simp add: takes_in_def ret_def)

lemma takes_in_or_stop:
  assumes "takes a A LA" "frees u U" "U \<subseteq> C" "takes_in k (C \<union> A) B LB"
  shows "takes_in (or_stop a u k) C (A \<union> B) ((C - U) \<union> (LA - U) \<union> LB)"
  unfolding takes_in_def
proof
  fix s
  obtain r1 s1 where 1: "a s = (r1, s1)" by (metis surj_pair)
  show "if fst (or_stop a u k s) = 0 then held (snd (or_stop a u k s)) = held s \<union> (A \<union> B)
      else held s - (C \<union> (A \<union> B)) \<subseteq> held (snd (or_stop a u k s)) \<and>
        held (snd (or_stop a u k s)) \<subseteq> (held s - C) \<union> ((C - U) \<union> (LA - U) \<union> LB)"
    using assms(1) [unfolded takes_def, rule_format, of s] assms(4) [unfolded takes_in_def, rule_format, of s1]
      assms(2) [unfolded frees_def, rule_format, of s1] assms(3) 1
    by (auto simp: or_stop_def on_error_if after_def ret_def split: if_splits)
qed

text \<open>The same with sets to be compared by the user.\<close>

lemma takes_in_step:
  assumes "takes a A LA" "frees u U" "takes_in k (C \<union> A) B LB" "U \<subseteq> C" "A \<union> B = S" "(C - U) \<union> (LA - U) \<union> LB \<subseteq> L"
  shows "takes_in (or_stop a u k) C S L"
  using takes_in_or_stop [OF assms(1,2,4,3)] assms(5,6) unfolding takes_in_def by (smt (verit, best) Un_iff subset_iff)

lemma frees_nothing: "frees (ret 0) {}"
  by (simp add: frees_def ret_def)

lemma or_stop_nothing: "or_stop a (ret 0) k = on_error a ret k"
  by (simp add: or_stop_def after_def ret_def on_error_if fun_eq_iff)

text \<open>What comes after the last step that can fail.\<close>

lemma or_stop_then: "or_stop a u (on_error k ret t) = on_error (or_stop a u k) ret t"
  by (simp add: fun_eq_iff or_stop_def on_error_if after_def ret_def)

lemma ret_then: "on_error (ret 0) ret t = t"
  by (simp add: fun_eq_iff on_error_if ret_def)

lemma on_error_assoc: "on_error a ret (on_error k ret t) = on_error (on_error a ret k) ret t"
  by (simp add: fun_eq_iff on_error_if ret_def)

text \<open>A library in which every call succeeds, and the state before anything is started: for examples.\<close>

definition calm :: mpi_env where
  "calm = \<lparr>me_ret = \<lambda>_. 0, me_layer = \<lambda>_. (800, 1280), me_modes = \<lambda>_. replicate 4 VI_OFFLINE_VPSS_OFFLINE, me_switched = \<lambda>_. True,
     me_reg_cb = True, me_unreg_cb = True, me_bus_cb = True,
     me_sns = \<lambda>_. SONY_IMX327_MIPI_2M_30FPS_12BIT, me_junk = MIPI_4lane_CHN0_SENSOR_IMX327_12BIT_2M_NOWDR_ATTR\<rparr>"

definition nothing_started :: media where
  "nothing_started = \<lparr>calls = [], held = {}, isp_pid = \<lambda>_. False, isp_sns = \<lambda>_. 0, venc_on = False\<rparr>"

lemma calm_stops [simp]: "stops_succeed calm" "me_ret calm tr = 0"
  by (simp_all add: stops_succeed_def calm_def call_ok_def)

end
