(* ===== verification/Vo_Display.thy ===== *)
theory Vo_Display
  imports Media_Ops
begin

text \<open>
  The display (mpp/sdk2v0/sample_comm_vo.c): output device, layer, the windows of the channels, HDMI, and starting and stopping
  all of them.
\<close>

section \<open>Device and layer\<close>

definition init_timing :: sync_info where
  "init_timing = \<lparr>si_synm = True, si_iop = True, si_intfb = 0, si_vact = 1280, si_vbb = 24, si_vfb = 8, si_hact = 800, si_hbb = 43,
     si_hfb = 99, si_hmid = 1, si_bvact = 1, si_bvbb = 1, si_bvfb = 1, si_hpw = 24, si_vpw = 4, si_idv = False, si_ihs = False,
     si_ivs = False\<rparr>"

definition VO_StartDev :: "mpi_env \<Rightarrow> int \<Rightarrow> vo_pub \<Rightarrow> mop" where
  "VO_StartDev e d pub = run_all e HI_FAIL [Vo (VO_SetPubAttr d (pub\<lparr>vp_timing := init_timing\<rparr>)), Vo (VO_Enable d)]"

definition VO_StopDev :: "mpi_env \<Rightarrow> int \<Rightarrow> mop" where
  "VO_StopDev e d = run_all e HI_FAIL [Vo (VO_Disable d)]"

text \<open>The attributes of a layer: where it is displayed, the size of its image, its rate.\<close>

record layer_attr =
  la_rect :: rect
  la_image :: "int \<times> int"
  la_rate :: int

definition VO_StartLayer :: "mpi_env \<Rightarrow> int \<Rightarrow> layer_attr \<Rightarrow> mop" where
  "VO_StartLayer e l a =
     run_all e HI_FAIL [Vo (VO_SetVideoLayerAttr l (la_rect a) (la_image a) (la_rate a)), Vo (VO_EnableVideoLayer l)]"

definition VO_StopLayer :: "mpi_env \<Rightarrow> int \<Rightarrow> mop" where
  "VO_StopLayer e l = run_all e HI_FAIL [Vo (VO_DisableVideoLayer l)]"

section \<open>Windows\<close>

datatype vo_mode =
    VO_MODE_1MUX | VO_MODE_2MUX | VO_MODE_4MUX | VO_MODE_8MUX | VO_MODE_9MUX | VO_MODE_16MUX | VO_MODE_25MUX | VO_MODE_36MUX
  | VO_MODE_49MUX | VO_MODE_64MUX | VO_MODE_2X4 | VO_MODE_BUTT

text \<open>The number of windows, the columns and the rows of the grid they are placed in.\<close>

fun vo_grid :: "vo_mode \<Rightarrow> (nat \<times> int \<times> int) option" where
  "vo_grid VO_MODE_1MUX = Some (1, 1, 1)"
| "vo_grid VO_MODE_2MUX = Some (2, 2, 2)"
| "vo_grid VO_MODE_4MUX = Some (4, 2, 2)"
| "vo_grid VO_MODE_8MUX = Some (8, 3, 3)"
| "vo_grid VO_MODE_9MUX = Some (9, 3, 3)"
| "vo_grid VO_MODE_16MUX = Some (16, 4, 4)"
| "vo_grid VO_MODE_25MUX = Some (25, 5, 5)"
| "vo_grid VO_MODE_36MUX = Some (36, 6, 6)"
| "vo_grid VO_MODE_49MUX = Some (49, 7, 7)"
| "vo_grid VO_MODE_64MUX = Some (64, 8, 8)"
| "vo_grid VO_MODE_2X4 = Some (8, 2, 4)"
| "vo_grid VO_MODE_BUTT = None"

definition ALIGN_DOWN :: "int \<Rightarrow> int \<Rightarrow> int" where
  "ALIGN_DOWN x a = u32 (x div a * a)"

definition chn_rect :: "int \<Rightarrow> int \<Rightarrow> int \<Rightarrow> int \<Rightarrow> nat \<Rightarrow> rect" where
  "chn_rect w h cols rows i =
     \<lparr>rt_x = s32 (ALIGN_DOWN (u32 ((w div cols) * (int i mod cols))) 2),
      rt_y = s32 (ALIGN_DOWN (u32 ((h div rows) * (int i div cols))) 2),
      rt_w = ALIGN_DOWN (w div cols) 2, rt_h = ALIGN_DOWN (h div rows) 2\<rparr>"

definition VO_StartChn :: "mpi_env \<Rightarrow> int \<Rightarrow> vo_mode \<Rightarrow> mop" where
  "VO_StartChn e l mode =
     (case vo_grid mode of
        None \<Rightarrow> ret (-1)
      | Some (n, cols, rows) \<Rightarrow>
          on_error (call e (Vo (VO_GetVideoLayerAttr l))) (\<lambda>r. ret (-1))
            (\<lambda>s. case me_layer e (calls s) of (w, h) \<Rightarrow>
               run_all e HI_FAIL
                 (concat (map (\<lambda>i. [Vo (VO_SetChnAttr l (int i) (chn_rect w h cols rows i)), Vo (VO_EnableChn l (int i))]) [0..<n])) s))"

fun stop_windows :: "vo_mode \<Rightarrow> nat option" where
  "stop_windows VO_MODE_1MUX = Some 1"
| "stop_windows VO_MODE_2MUX = Some 2"
| "stop_windows VO_MODE_4MUX = Some 4"
| "stop_windows VO_MODE_8MUX = Some 8"
| "stop_windows _ = None"

definition VO_StopChn :: "mpi_env \<Rightarrow> int \<Rightarrow> vo_mode \<Rightarrow> mop" where
  "VO_StopChn e l mode =
     (case stop_windows mode of
        None \<Rightarrow> ret (-1)
      | Some n \<Rightarrow> run_all e HI_FAIL (map (\<lambda>i. Vo (VO_DisableChn l (int i))) [0..<n]))"

section \<open>HDMI\<close>

definition VO_HdmiStart :: "mpi_env \<Rightarrow> vo_sync \<Rightarrow> mop" where
  "VO_HdmiStart e sync =
     run_all e same [Hdmi HDMI_Init, Hdmi HDMI_Open, Hdmi HDMI_GetAttr, Hdmi (HDMI_SetAttr (HdmiConvertSync sync) YCBCR444_24BIT), Hdmi HDMI_Start]"

definition VO_HdmiStartByDyRg :: "mpi_env \<Rightarrow> vo_sync \<Rightarrow> dynamic_range \<Rightarrow> mop" where
  "VO_HdmiStartByDyRg e sync dr =
     run_all e same [Hdmi HDMI_Init, Hdmi HDMI_Open, Hdmi HDMI_GetAttr,
       Hdmi (HDMI_SetAttr (HdmiConvertSync sync) (if dr = DYNAMIC_RANGE_HDR10 then YCBCR422 else YCBCR444_24BIT)), Hdmi HDMI_Start]"

definition VO_HdmiStop :: "mpi_env \<Rightarrow> mop" where
  "VO_HdmiStop e = run_ignoring e [Hdmi HDMI_Stop, Hdmi HDMI_Close, Hdmi HDMI_DeInit]"

section \<open>All of it\<close>

definition VO_INTF_BT1120 :: int where "VO_INTF_BT1120 = 16"
definition VO_INTF_HDMI :: int where "VO_INTF_HDMI = 32"
definition VO_INTF_MIPI :: int where "VO_INTF_MIPI = 16384"

record vo_config =
  vc_dev :: int
  vc_intf :: int
  vc_sync :: vo_sync
  vc_bg :: int
  vc_rect :: rect
  vc_image :: "int \<times> int"
  vc_multi :: bool
  vc_buf_len :: int
  vc_range :: dynamic_range
  vc_mode :: vo_mode

definition full_hd :: rect where
  "full_hd = \<lparr>rt_x = 0, rt_y = 0, rt_w = 1920, rt_h = 1080\<rparr>"

text \<open>\<open>chip\<close> is the identifier of the chip.\<close>

definition VO_GetDefConfig :: "int \<Rightarrow> vo_config" where
  "VO_GetDefConfig chip =
     \<lparr>vc_dev = 0, vc_intf = (if chip = 0x3516C500 then VO_INTF_BT1120 else VO_INTF_HDMI), vc_sync = VO_OUTPUT_1080P60, vc_bg = 255, vc_rect = full_hd,
      vc_image = (1920, 1080), vc_multi = False, vc_buf_len = 3, vc_range = DYNAMIC_RANGE_SDR8, vc_mode = VO_MODE_1MUX\<rparr>"

text \<open>The panel: 800 pixels, 20 of synchronisation and 20 behind it, 872 in all; 1280 lines, 4, 6 and 8 of blanking.\<close>

definition COMM_VO_GetPubAttr :: vo_pub where
  "COMM_VO_GetPubAttr =
     (let hact = 800; hbb = 20 + 20; hfb = 872 - hact - hbb
      in \<lparr>vp_intf = 16384, vp_sync = VO_OUTPUT_USER, vp_bg = 0,
          vp_timing = \<lparr>si_synm = True, si_iop = True, si_intfb = 0, si_vact = 1280, si_vbb = 4 + 6, si_vfb = 8, si_hact = hact, si_hbb = hbb,
            si_hfb = hfb, si_hmid = 0, si_bvact = 0, si_bvbb = 0, si_bvfb = 0, si_hpw = 20, si_vpw = 4, si_idv = False, si_ihs = False,
            si_ivs = False\<rparr>\<rparr>)"

definition panel_layer :: layer_attr where
  "panel_layer = \<lparr>la_rect = \<lparr>rt_x = 0, rt_y = 0, rt_w = 800, rt_h = 1280\<rparr>, la_image = (800, 1280), la_rate = 60\<rparr>"

definition VO_StartVO :: "mpi_env \<Rightarrow> vo_config option \<Rightarrow> mop" where
  "VO_StartVO e p =
     (case p of
        None \<Rightarrow> ret (-1)
      | Some c \<Rightarrow>
        let d = vc_dev c; l = vc_dev c; stop = VO_StopDev e d
        in on_error (VO_StartDev e d COMM_VO_GetPubAttr) ret
          (or_stop (if vc_buf_len c \<noteq> 0 then call e (Vo (VO_SetDisplayBufLen l (vc_buf_len c))) else ret 0) stop
          (or_stop (if vc_multi c then call e (Vo (VO_SetVideoLayerPartitionMode l)) else ret 0) stop
          (or_stop (VO_StartLayer e l panel_layer) stop
          (or_stop (if vc_intf c = VO_INTF_MIPI then call e (Vo (VO_GetVideoLayerCSC l)) else ret 0) stop
          (or_stop (if vc_intf c = VO_INTF_MIPI then call e (Vo (VO_SetVideoLayerCSC l)) else ret 0) stop
          (or_stop (VO_StartChn e l (vc_mode c)) (after (VO_StopLayer e l) stop)
          (after (if vc_intf c = VO_INTF_HDMI then VO_HdmiStartByDyRg e (vc_sync c) (vc_range c) else ret 0) (ret 0)))))))))"

definition VO_StopVO :: "mpi_env \<Rightarrow> vo_config option \<Rightarrow> mop" where
  "VO_StopVO e p =
     (case p of
        None \<Rightarrow> ret (-1)
      | Some c \<Rightarrow>
        after (if vc_intf c = VO_INTF_HDMI then VO_HdmiStop e else ret 0)
          (after (VO_StopChn e (vc_dev c) (vc_mode c)) (after (VO_StopLayer e (vc_dev c)) (after (VO_StopDev e (vc_dev c)) (ret 0)))))"

record vo_layer_config =
  vl_layer :: int
  vl_sync :: vo_sync
  vl_rect :: rect
  vl_image :: "int \<times> int"
  vl_buf_len :: int
  vl_mode :: vo_mode

definition VO_GetDefLayerConfig :: vo_layer_config where
  "VO_GetDefLayerConfig =
     \<lparr>vl_layer = 2, vl_sync = VO_OUTPUT_1080P30, vl_rect = full_hd, vl_image = (1920, 1080), vl_buf_len = 3, vl_mode = VO_MODE_1MUX\<rparr>"

text \<open>The default rectangle and image size stand for those of the timing and of the rectangle.\<close>

definition layer_of_config :: "vo_layer_config \<Rightarrow> int \<times> int \<times> int \<Rightarrow> layer_attr" where
  "layer_of_config c wh =
     (case wh of (w, h, f) \<Rightarrow>
        let r = (if vl_rect c \<noteq> full_hd then vl_rect c else \<lparr>rt_x = 0, rt_y = 0, rt_w = w, rt_h = h\<rparr>)
        in \<lparr>la_rect = r, la_image = (if vl_image c \<noteq> (1920, 1080) then vl_image c else (rt_w r, rt_h r)), la_rate = f\<rparr>)"

definition VO_StartLayerChn :: "mpi_env \<Rightarrow> vo_layer_config option \<Rightarrow> mop" where
  "VO_StartLayerChn e p =
     (case p of
        None \<Rightarrow> ret (-1)
      | Some c \<Rightarrow>
        case GetWH (vl_sync c) of
          None \<Rightarrow> ret (-1)
        | Some wh \<Rightarrow>
          on_error (if vl_buf_len c \<noteq> 0 then call e (Vo (VO_SetDisplayBufLen (vl_layer c) (vl_buf_len c))) else ret 0) ret
            (on_error (VO_StartLayer e (vl_layer c) (layer_of_config c wh)) ret
              (or_stop (VO_StartChn e (vl_layer c) (vl_mode c)) (VO_StopLayer e (vl_layer c)) (ret 0))))"

definition VO_StopLayerChn :: "mpi_env \<Rightarrow> vo_layer_config option \<Rightarrow> mop" where
  "VO_StopLayerChn e p =
     (case p of
        None \<Rightarrow> ret (-1)
      | Some c \<Rightarrow> after (VO_StopChn e (vl_layer c) (vl_mode c)) (after (VO_StopLayer e (vl_layer c)) (ret 0)))"

section \<open>Windows do not overlap\<close>

lemma grid_cells:
  assumes "vo_grid mode = Some (n, cols, rows)"
  shows "0 < cols \<and> 0 < rows \<and> int n \<le> cols * rows"
  using assms by (cases mode) auto

lemma half_add: "(x :: int) div 2 + y div 2 \<le> (x + y) div 2"
  by presburger

text \<open>One dimension: the \<open>k\<close>-th of \<open>q\<close> cells of a line of \<open>w\<close> pixels, at even places.\<close>

lemma cell_bounds:
  fixes w q k :: int
  assumes "0 < q" "0 \<le> w" "0 \<le> k" "k < q"
  shows "0 \<le> (w div q * k) div 2 * 2" "(w div q * k) div 2 * 2 + (w div q) div 2 * 2 \<le> w"
    "k' < k \<Longrightarrow> 0 \<le> k' \<Longrightarrow> (w div q * k') div 2 * 2 + (w div q) div 2 * 2 \<le> (w div q * k) div 2 * 2"
proof -
  define c where "c = w div q"
  have c: "0 \<le> c" "c * q \<le> w"
    using assms(1,2) by (simp_all add: c_def pos_imp_zdiv_nonneg_iff minus_mod_eq_div_mult [symmetric])
  have step: "(c * j) div 2 * 2 + c div 2 * 2 \<le> (c * (j + 1)) div 2 * 2" for j
    using half_add [of "c * j" c] by (simp add: algebra_simps)
  have mono: "(c * i) div 2 * 2 \<le> (c * j) div 2 * 2" if "i \<le> j" for i j
    using that c(1) by (intro mult_right_mono zdiv_mono1 mult_left_mono) simp_all
  show "0 \<le> (w div q * k) div 2 * 2" using c(1) assms(3) by (simp add: c_def [symmetric])
  have "(c * q) div 2 * 2 \<le> w" using c(2) by presburger
  then show "(w div q * k) div 2 * 2 + (w div q) div 2 * 2 \<le> w"
    using step [of k] mono [of "k + 1" q] assms(4) by (simp add: c_def [symmetric])
  show "(w div q * k') div 2 * 2 + (w div q) div 2 * 2 \<le> (w div q * k) div 2 * 2" if "k' < k" "0 \<le> k'"
    using step [of k'] mono [of "k' + 1" k] that by (simp add: c_def [symmetric])
qed

lemma chn_rect_exact:
  assumes "vo_grid mode = Some (n, cols, rows)" "i < n" "0 \<le> w" "w < 2147483648" "0 \<le> h" "h < 2147483648"
  shows "chn_rect w h cols rows i =
    \<lparr>rt_x = (w div cols * (int i mod cols)) div 2 * 2, rt_y = (h div rows * (int i div cols)) div 2 * 2,
     rt_w = (w div cols) div 2 * 2, rt_h = (h div rows) div 2 * 2\<rparr>"
proof -
  have g: "0 < cols" "0 < rows" "int n \<le> cols * rows" using grid_cells [OF assms(1)] by simp_all
  have c: "0 \<le> int i mod cols" "int i mod cols < cols" "0 \<le> int i div cols" using g by (simp_all add: pos_imp_zdiv_nonneg_iff)
  have "int i < rows * cols" using g(3) assms(2) by (simp add: mult.commute)
  then have r: "int i div cols < rows" 
  proof -
    have "int i div cols * cols \<le> int i" using g(1) by (simp add: minus_mod_eq_div_mult [symmetric])
    moreover have "rows * cols \<le> int i div cols * cols" if "rows \<le> int i div cols" using that g(1) by (intro mult_right_mono) simp_all
    ultimately show ?thesis using \<open>int i < rows * cols\<close> by linarith
  qed
  have le: "x div q * k \<le> x" "0 \<le> x div q * k" if "0 < q" "0 \<le> x" "0 \<le> k" "k < q" for x q k :: int
    using that mult_left_mono [of k q "x div q"] by (auto simp: pos_imp_zdiv_nonneg_iff minus_mod_eq_div_mult [symmetric] intro: order_trans)
  have id: "s32 (ALIGN_DOWN (u32 x) 2) = x div 2 * 2" "ALIGN_DOWN x 2 = x div 2 * 2" if "0 \<le> x" "x < 2147483648" for x
  proof -
    have "u32 x = x" "x div 2 * 2 \<le> x" "0 \<le> x div 2 * 2" using that by (simp_all add: u32_id in_u32_def)
    then show "s32 (ALIGN_DOWN (u32 x) 2) = x div 2 * 2" "ALIGN_DOWN x 2 = x div 2 * 2"
      using that unfolding ALIGN_DOWN_def by (simp_all add: u32_id s32_id in_u32_def in_s32_def)
  qed
  have w: "w div cols * (int i mod cols) \<le> w" "0 \<le> w div cols * (int i mod cols)" using le [OF g(1) assms(3) c(1,2)] by simp_all
  have h: "h div rows * (int i div cols) \<le> h" "0 \<le> h div rows * (int i div cols)" using le [OF g(2) assms(5) c(3) r] by simp_all
  have one: "0 \<le> x div q \<and> x div q \<le> x" if "0 < q" "0 \<le> x" for x q :: int
  proof
    show "0 \<le> x div q" using that by (simp add: pos_imp_zdiv_nonneg_iff)
    then have "x div q * 1 \<le> x div q * q" using that(1) by (intro mult_left_mono) simp_all
    moreover have "x div q * q + x mod q = x" "0 \<le> x mod q" using that(1) by simp_all
    ultimately show "x div q \<le> x" by linarith
  qed
  have wh: "0 \<le> w div cols" "w div cols \<le> w" "0 \<le> h div rows" "h div rows \<le> h"
    using one [OF g(1) assms(3)] one [OF g(2) assms(5)] by simp_all
  show ?thesis
    unfolding chn_rect_def using w h wh assms(4,6) by (simp add: id)
qed


definition disjoint_rects :: "rect \<Rightarrow> rect \<Rightarrow> bool" where
  "disjoint_rects r q \<longleftrightarrow> rt_x r + rt_w r \<le> rt_x q \<or> rt_x q + rt_w q \<le> rt_x r \<or> rt_y r + rt_h r \<le> rt_y q \<or> rt_y q + rt_h q \<le> rt_y r"

text \<open>
  C28. In every mode, the windows that \<open>SAMPLE_COMM_VO_StartChn\<close> gives to the channels of a layer of up to \<open>2 ^ 31 - 1\<close> pixels in each direction lie
  inside the layer, at even places and of even size, and no two of them overlap.
\<close>

theorem windows_disjoint:
  assumes "vo_grid mode = Some (n, cols, rows)" "i < n" "j < n" "i \<noteq> j"
    and "0 \<le> w" "w < 2147483648" "0 \<le> h" "h < 2147483648" "r = chn_rect w h cols rows i" "q = chn_rect w h cols rows j"
  shows "0 \<le> rt_x r \<and> rt_x r + rt_w r \<le> w \<and> 0 \<le> rt_y r \<and> rt_y r + rt_h r \<le> h \<and>
    even (rt_x r) \<and> even (rt_y r) \<and> even (rt_w r) \<and> even (rt_h r) \<and> disjoint_rects r q"
proof -
  have g: "0 < cols" "0 < rows" "int n \<le> cols * rows" using grid_cells [OF assms(1)] by simp_all
  have cell: "0 \<le> int k mod cols" "int k mod cols < cols" "0 \<le> int k div cols" "int k div cols < rows" if "k < n" for k
  proof -
    have "int k < rows * cols" using g(3) that by (simp add: mult.commute)
    moreover have "int k div cols * cols \<le> int k" using g(1) by (simp add: minus_mod_eq_div_mult [symmetric])
    moreover have "rows * cols \<le> int k div cols * cols" if "rows \<le> int k div cols" using that g(1) by (intro mult_right_mono) simp_all
    ultimately show "int k div cols < rows" by linarith
  qed (use g in \<open>simp_all add: pos_imp_zdiv_nonneg_iff\<close>)
  have r: "r = \<lparr>rt_x = (w div cols * (int i mod cols)) div 2 * 2, rt_y = (h div rows * (int i div cols)) div 2 * 2,
     rt_w = (w div cols) div 2 * 2, rt_h = (h div rows) div 2 * 2\<rparr>"
    and q: "q = \<lparr>rt_x = (w div cols * (int j mod cols)) div 2 * 2, rt_y = (h div rows * (int j div cols)) div 2 * 2,
     rt_w = (w div cols) div 2 * 2, rt_h = (h div rows) div 2 * 2\<rparr>"
    using chn_rect_exact [OF assms(1) _ assms(5-8)] assms(2,3,9,10) by simp_all
  note ci = cell [OF assms(2)] and cj = cell [OF assms(3)]
  have "int i mod cols \<noteq> int j mod cols \<or> int i div cols \<noteq> int j div cols"
    using assms(4) by (metis mult_div_mod_eq of_nat_eq_iff)
  then consider "int i mod cols < int j mod cols" | "int j mod cols < int i mod cols" | "int i div cols < int j div cols" | "int j div cols < int i div cols"
    by linarith
  then have "disjoint_rects r q"
    unfolding disjoint_rects_def r q
    using cell_bounds(3) [OF g(1) assms(5) cj(1,2), of "int i mod cols"] cell_bounds(3) [OF g(1) assms(5) ci(1,2), of "int j mod cols"]
      cell_bounds(3) [OF g(2) assms(7) cj(3,4), of "int i div cols"] cell_bounds(3) [OF g(2) assms(7) ci(3,4), of "int j div cols"] ci(1,3) cj(1,3)
    by cases simp_all
  then show ?thesis
    using cell_bounds(1,2) [OF g(1) assms(5) ci(1,2)] cell_bounds(1,2) [OF g(2) assms(7) ci(3,4)] by (simp add: r)
qed

lemma windows_disjoint_witness:
  "chn_rect 1920 1080 2 4 5 = \<lparr>rt_x = 960, rt_y = 540, rt_w = 960, rt_h = 270\<rparr> \<and>
   disjoint_rects (chn_rect 1920 1080 2 4 5) (chn_rect 1920 1080 2 4 7)"
  using windows_disjoint [of VO_MODE_2X4 8 2 4 5 7 1920 1080, OF _ _ _ _ _ _ _ _ refl refl] by (simp add: chn_rect_def ALIGN_DOWN_def u32_def s32_def)

section \<open>Starting and stopping the display\<close>

lemma takes_StartDev: "takes (VO_StartDev e d pub) {R_vo_dev d} {}"
  using takes_run_all [of "[Vo (VO_SetPubAttr d (pub\<lparr>vp_timing := init_timing\<rparr>)), Vo (VO_Enable d)]" HI_FAIL e]
  by (simp add: VO_StartDev_def del: run_all.simps)

lemma frees_StopDev: "stops_succeed e \<Longrightarrow> frees (VO_StopDev e d) {R_vo_dev d}"
  using frees_run_all [of e "[Vo (VO_Disable d)]" HI_FAIL] by (simp add: VO_StopDev_def del: run_all.simps)

lemma takes_StartLayer: "takes (VO_StartLayer e l a) {R_layer l} {}"
  using takes_run_all [of "[Vo (VO_SetVideoLayerAttr l (la_rect a) (la_image a) (la_rate a)), Vo (VO_EnableVideoLayer l)]" HI_FAIL e]
  by (simp add: VO_StartLayer_def del: run_all.simps)

lemma frees_StopLayer: "stops_succeed e \<Longrightarrow> frees (VO_StopLayer e l) {R_layer l}"
  using frees_run_all [of e "[Vo (VO_DisableVideoLayer l)]" HI_FAIL] by (simp add: VO_StopLayer_def del: run_all.simps)

interpretation vo_dev: paired e "VO_StartDev e d pub" "VO_StopDev e d" "{R_vo_dev d}" "{R_vo_dev d}" "{}" for e d pub
  by unfold_locales (simp_all add: takes_StartDev frees_StopDev)

interpretation vo_layer: paired e "VO_StartLayer e l a" "VO_StopLayer e l" "{R_layer l}" "{R_layer l}" "{}" for e l a
  by unfold_locales (simp_all add: takes_StartLayer frees_StopLayer)

definition windows_of :: "int \<Rightarrow> nat \<Rightarrow> media_res set" where
  "windows_of l n = (\<lambda>i. R_vo_chn l (int i)) ` {..<n}"

text \<open>The windows started; when one fails, those before it stay enabled.\<close>

lemma takes_StartChn:
  assumes "vo_grid mode = Some (n, cols, rows)" "n = Suc m"
  shows "takes (VO_StartChn e l mode) (windows_of l n) (windows_of l m)"
proof -
  define cs where "cs = (\<lambda>n w h. concat (map (\<lambda>i. [Vo (VO_SetChnAttr l (int i) (chn_rect w h cols rows i)), Vo (VO_EnableChn l (int i))]) [0..<n]))"
  have g: "gains_all (cs k w h) = windows_of l k" for k w h
    by (induction k) (auto simp: cs_def windows_of_def)
  have st: "starts_only (cs k w h)" for k w h by (induction k) (auto simp: cs_def)
  have "cs n w h = cs m w h @ [Vo (VO_SetChnAttr l (int m) (chn_rect w h cols rows m)), Vo (VO_EnableChn l (int m))]" for w h
    by (simp add: cs_def assms(2))
  then have "gains_all (butlast (cs n w h)) = windows_of l m" for w h by (simp add: butlast_append g)
  then have run: "takes (run_all e HI_FAIL (cs n w h)) (windows_of l n) (windows_of l m)" for w h
    using takes_run_all [OF st, of HI_FAIL e n w h] by (simp add: g)
  have get: "takes (call e (Vo (VO_GetVideoLayerAttr l))) {} {}" using takes_call [of "Vo (VO_GetVideoLayerAttr l)" e] by simp
  have "takes (\<lambda>s. case me_layer e (calls s) of (w, h) \<Rightarrow> run_all e HI_FAIL (cs n w h) s) (windows_of l n) (windows_of l m)"
    using run unfolding takes_def by (auto split: prod.split)
  from takes_keep [OF get this, of "\<lambda>_. -1"] show ?thesis by (simp add: VO_StartChn_def assms(1) cs_def)
qed

lemma frees_StopChn:
  assumes "stop_windows mode = Some n" "stops_succeed e"
  shows "frees (VO_StopChn e l mode) (windows_of l n)"
proof -
  have "stops_only (map (\<lambda>i. Vo (VO_DisableChn l (int i))) [0..<n])" "drops_all (map (\<lambda>i. Vo (VO_DisableChn l (int i))) [0..<n]) = windows_of l n"
    by (auto simp: stops_only_def list_all_iff drops_all_def windows_of_def)
  with frees_run_all [OF assms(2), of "map (\<lambda>i. Vo (VO_DisableChn l (int i))) [0..<n]" HI_FAIL] show ?thesis
    by (simp add: VO_StopChn_def assms(1))
qed

lemma stop_windows_grid: "stop_windows mode = Some n \<Longrightarrow> \<exists>cols rows m. vo_grid mode = Some (n, cols, rows) \<and> n = Suc m"
  by (cases mode) auto

definition hdmi_set :: "media_res set" where
  "hdmi_set = {R_hdmi_lib, R_hdmi_open, R_hdmi_on}"

lemma takes_HdmiStart: "takes (VO_HdmiStart e sync) hdmi_set {R_hdmi_lib, R_hdmi_open}"
  using takes_run_all [of "[Hdmi HDMI_Init, Hdmi HDMI_Open, Hdmi HDMI_GetAttr, Hdmi (HDMI_SetAttr (HdmiConvertSync sync) YCBCR444_24BIT), Hdmi HDMI_Start]" same e]
  by (simp add: VO_HdmiStart_def hdmi_set_def same_def insert_commute del: run_all.simps)

lemma takes_HdmiStartByDyRg: "takes (VO_HdmiStartByDyRg e sync dr) hdmi_set {R_hdmi_lib, R_hdmi_open}"
  using takes_run_all [of "[Hdmi HDMI_Init, Hdmi HDMI_Open, Hdmi HDMI_GetAttr,
      Hdmi (HDMI_SetAttr (HdmiConvertSync sync) (if dr = DYNAMIC_RANGE_HDR10 then YCBCR422 else YCBCR444_24BIT)), Hdmi HDMI_Start]" same e]
  by (simp add: VO_HdmiStartByDyRg_def hdmi_set_def same_def insert_commute del: run_all.simps)

lemma frees_HdmiStop: "stops_succeed e \<Longrightarrow> frees (VO_HdmiStop e) hdmi_set"
  using stops_run_ignoring [of e "[Hdmi HDMI_Stop, Hdmi HDMI_Close, Hdmi HDMI_DeInit]"]
  by (simp add: VO_HdmiStop_def hdmi_set_def insert_commute del: run_ignoring.simps)


lemma takes_opt: "gains c = {} \<Longrightarrow> drops c = {} \<Longrightarrow> c \<noteq> Mipi MIPI_open \<Longrightarrow> takes (if b then call e c else ret 0) {} {}"
  using takes_call [of c e] takes_ret by simp

interpretation vo_hdmi: paired e "VO_HdmiStart e sync" "VO_HdmiStop e" hdmi_set hdmi_set "{R_hdmi_lib, R_hdmi_open}" for e sync
  by unfold_locales (simp_all add: takes_HdmiStart frees_HdmiStop)

definition display_set :: "vo_config \<Rightarrow> nat \<Rightarrow> media_res set" where
  "display_set c n = {R_vo_dev (vc_dev c), R_layer (vc_dev c)} \<union> windows_of (vc_dev c) n"

text \<open>Everything up to the HDMI transmitter.\<close>

definition start_display :: "mpi_env \<Rightarrow> vo_config \<Rightarrow> mop" where
  "start_display e c =
     (let d = vc_dev c; l = vc_dev c; stop = VO_StopDev e d
      in or_stop (VO_StartDev e d COMM_VO_GetPubAttr) (ret 0)
          (or_stop (if vc_buf_len c \<noteq> 0 then call e (Vo (VO_SetDisplayBufLen l (vc_buf_len c))) else ret 0) stop
          (or_stop (if vc_multi c then call e (Vo (VO_SetVideoLayerPartitionMode l)) else ret 0) stop
          (or_stop (VO_StartLayer e l panel_layer) stop
          (or_stop (if vc_intf c = VO_INTF_MIPI then call e (Vo (VO_GetVideoLayerCSC l)) else ret 0) stop
          (or_stop (if vc_intf c = VO_INTF_MIPI then call e (Vo (VO_SetVideoLayerCSC l)) else ret 0) stop
          (or_stop (VO_StartChn e l (vc_mode c)) (after (VO_StopLayer e l) stop) (ret 0))))))))"

lemma VO_StartVO_alt:
  "VO_StartVO e (Some c) = on_error (start_display e c) ret
     (after (if vc_intf c = VO_INTF_HDMI then VO_HdmiStartByDyRg e (vc_sync c) (vc_range c) else ret 0) (ret 0))"
  by (simp add: VO_StartVO_def start_display_def Let_def or_stop_then [symmetric] or_stop_nothing on_error_assoc [symmetric] ret_then)

lemma takes_start_display:
  assumes "stops_succeed e" "vo_grid (vc_mode c) = Some (n, cols, rows)" "n = Suc m"
  shows "takes (start_display e c) (display_set c n) ({R_layer (vc_dev c)} \<union> windows_of (vc_dev c) m)"
proof -
  let ?d = "vc_dev c"
  note dev = vo_dev.takes_start [OF assms(1), of ?d COMM_VO_GetPubAttr] and stop = vo_dev.frees_stop [OF assms(1), of ?d]
  have stop2: "frees (after (VO_StopLayer e ?d) (VO_StopDev e ?d)) {R_layer ?d, R_vo_dev ?d}"
    using frees_after [OF vo_layer.frees_stop [OF assms(1), of ?d] stop] by (simp add: insert_commute)
  note step = takes_in_step [where L = "{R_layer ?d} \<union> windows_of ?d m"]
  let ?C1 = "{R_vo_dev ?d}" and ?C2 = "{R_vo_dev ?d, R_layer ?d}"
  have 7: "takes_in (or_stop (VO_StartChn e ?d (vc_mode c)) (after (VO_StopLayer e ?d) (VO_StopDev e ?d)) (ret 0)) ?C2 (windows_of ?d n)
      ({R_layer ?d} \<union> windows_of ?d m)"
    by (rule step [OF takes_StartChn [OF assms(2,3)] stop2 takes_in_ret]) auto
  have 6: "takes_in (or_stop (if vc_intf c = VO_INTF_MIPI then call e (Vo (VO_SetVideoLayerCSC ?d)) else ret 0) (VO_StopDev e ?d)
      (or_stop (VO_StartChn e ?d (vc_mode c)) (after (VO_StopLayer e ?d) (VO_StopDev e ?d)) (ret 0))) ?C2 (windows_of ?d n)
      ({R_layer ?d} \<union> windows_of ?d m)" (is "takes_in ?k6 _ _ _")
    by (rule step [OF takes_opt stop, where B = "windows_of ?d n" and LB = "{R_layer ?d} \<union> windows_of ?d m"]) (use 7 in auto)
  have 5: "takes_in (or_stop (if vc_intf c = VO_INTF_MIPI then call e (Vo (VO_GetVideoLayerCSC ?d)) else ret 0) (VO_StopDev e ?d) ?k6)
      ?C2 (windows_of ?d n) ({R_layer ?d} \<union> windows_of ?d m)" (is "takes_in ?k5 _ _ _")
    by (rule step [OF takes_opt stop, where B = "windows_of ?d n" and LB = "{R_layer ?d} \<union> windows_of ?d m"]) (use 6 in auto)
  have 4: "takes_in (or_stop (VO_StartLayer e ?d panel_layer) (VO_StopDev e ?d) ?k5) ?C1 ({R_layer ?d} \<union> windows_of ?d n)
      ({R_layer ?d} \<union> windows_of ?d m)" (is "takes_in ?k4 _ _ _")
    by (rule step [OF vo_layer.takes_start [OF assms(1)] stop, where B = "windows_of ?d n" and LB = "{R_layer ?d} \<union> windows_of ?d m"]) (use 5 in \<open>auto simp: insert_commute\<close>)
  have 3: "takes_in (or_stop (if vc_multi c then call e (Vo (VO_SetVideoLayerPartitionMode ?d)) else ret 0) (VO_StopDev e ?d) ?k4) ?C1
      ({R_layer ?d} \<union> windows_of ?d n) ({R_layer ?d} \<union> windows_of ?d m)" (is "takes_in ?k3 _ _ _")
    by (rule step [OF takes_opt stop, where B = "{R_layer ?d} \<union> windows_of ?d n" and LB = "{R_layer ?d} \<union> windows_of ?d m"]) (use 4 in auto)
  have 2: "takes_in (or_stop (if vc_buf_len c \<noteq> 0 then call e (Vo (VO_SetDisplayBufLen ?d (vc_buf_len c))) else ret 0) (VO_StopDev e ?d) ?k3) ?C1
      ({R_layer ?d} \<union> windows_of ?d n) ({R_layer ?d} \<union> windows_of ?d m)" (is "takes_in ?k2 _ _ _")
    by (rule step [OF takes_opt stop, where B = "{R_layer ?d} \<union> windows_of ?d n" and LB = "{R_layer ?d} \<union> windows_of ?d m"]) (use 3 in auto)
  have "takes_in (or_stop (VO_StartDev e ?d COMM_VO_GetPubAttr) (ret 0) ?k2) {} (display_set c n) ({R_layer ?d} \<union> windows_of ?d m)"
    by (rule step [OF dev frees_nothing, where B = "{R_layer ?d} \<union> windows_of ?d n" and LB = "{R_layer ?d} \<union> windows_of ?d m"])
      (use 2 in \<open>auto simp: display_set_def\<close>)
  then show ?thesis unfolding takes_in_takes [symmetric] start_display_def Let_def .
qed

lemma on_error_after_ret:
  "fst (on_error a ret (after t (ret 0)) s) = fst (a s) \<and>
   snd (on_error a ret (after t (ret 0)) s) = (if fst (a s) = 0 then snd (t (snd (a s))) else snd (a s))"
  by (auto simp: on_error_if after_def ret_def)

text \<open>
  C29. When giving back succeeds, a display that starts (\<open>SAMPLE_COMM_VO_StartVO\<close>, up to eight windows) has its device, its layer and its windows, and
  \<open>SAMPLE_COMM_VO_StopVO\<close> gives back all it has taken, HDMI included even where HDMI did not come up; when the start fails, the device is given back and at
  most the layer and the windows before the last are left behind.
\<close>

theorem VO_start_stop:
  assumes "stops_succeed e" "stop_windows (vc_mode c) = Some n" "held s \<inter> (display_set c n \<union> hdmi_set) = {}"
    and "s1 = snd (VO_StartVO e (Some c) s)"
  shows "if fst (VO_StartVO e (Some c) s) = 0
    then held s \<union> display_set c n \<subseteq> held s1 \<and> held (snd (VO_StopVO e (Some c) s1)) = held s
    else held s \<subseteq> held s1 \<and> held s1 \<subseteq> held s \<union> {R_layer (vc_dev c)} \<union> windows_of (vc_dev c) (n - 1)"
proof -
  obtain cols rows m where g: "vo_grid (vc_mode c) = Some (n, cols, rows)" "n = Suc m" using stop_windows_grid [OF assms(2)] by blast
  note start = takes_start_display [OF assms(1) g, unfolded takes_def, rule_format, of s]
  define s0 where "s0 = snd (start_display e c s)"
  let ?h = "if vc_intf c = VO_INTF_HDMI then VO_HdmiStartByDyRg e (vc_sync c) (vc_range c) else ret 0"
  have r: "fst (VO_StartVO e (Some c) s) = fst (start_display e c s)"
    "s1 = (if fst (start_display e c s) = 0 then snd (?h s0) else s0)"
    unfolding assms(4) VO_StartVO_alt s0_def using on_error_after_ret by simp_all
  have h: "held s0 - hdmi_set \<subseteq> held (snd (?h s0))" "held (snd (?h s0)) \<subseteq> held s0 \<union> (if vc_intf c = VO_INTF_HDMI then hdmi_set else {})"
    using takes_HdmiStartByDyRg [of e "vc_sync c" "vc_range c", unfolded takes_def, rule_format, of s0]
    by (auto simp: ret_def hdmi_set_def split: if_splits)
  show ?thesis
  proof (cases "fst (start_display e c s) = 0")
    case True
    then have s0: "held s0 = held s \<union> display_set c n" using start by (simp add: s0_def)
    have hs: "held s1 = held (snd (?h s0))" using r(2) True by simp
    have stop: "frees (after (VO_StopChn e (vc_dev c) (vc_mode c)) (after (VO_StopLayer e (vc_dev c)) (after (VO_StopDev e (vc_dev c)) (ret 0)))) (display_set c n)"
      using frees_after [OF frees_StopChn [OF assms(2,1)] frees_after [OF vo_layer.frees_stop [OF assms(1)] frees_after [OF vo_dev.frees_stop [OF assms(1)] frees_nothing]],
          of "vc_dev c" "vc_dev c" "vc_dev c"]
      by (simp add: display_set_def insert_commute Un_commute)
    have "held (snd (VO_StopVO e (Some c) s1)) = held s1 - (if vc_intf c = VO_INTF_HDMI then hdmi_set else {}) - display_set c n"
      using stop frees_HdmiStop [OF assms(1)] by (simp add: VO_StopVO_def frees_def after_def ret_def)
    then show ?thesis using True h s0 hs assms(3) r(1) by (auto simp: display_set_def hdmi_set_def windows_of_def split: if_splits)
  next
    case False
    then show ?thesis using start r assms(3) g(2) by (auto simp: s0_def display_set_def)
  qed
qed

lemma VO_start_stop_witness:
  "R_vo_chn 0 0 \<in> held (snd (VO_StartVO calm (Some (VO_GetDefConfig 0)) nothing_started)) \<and>
   held (snd (VO_StopVO calm (Some (VO_GetDefConfig 0)) (snd (VO_StartVO calm (Some (VO_GetDefConfig 0)) nothing_started)))) = {}"
proof -
  let ?c = "VO_GetDefConfig 0"
  have c: "stop_windows (vc_mode ?c) = Some 1" "vc_dev ?c = 0" by (simp_all add: VO_GetDefConfig_def)
  have "held nothing_started \<inter> (display_set ?c 1 \<union> hdmi_set) = {}" by (simp add: nothing_started_def)
  from VO_start_stop [OF calm_stops(1) c(1) this refl]
  have "if fst (VO_StartVO calm (Some ?c) nothing_started) = 0
    then held nothing_started \<union> display_set ?c 1 \<subseteq> held (snd (VO_StartVO calm (Some ?c) nothing_started)) \<and>
      held (snd (VO_StopVO calm (Some ?c) (snd (VO_StartVO calm (Some ?c) nothing_started)))) = held nothing_started
    else held nothing_started \<subseteq> held (snd (VO_StartVO calm (Some ?c) nothing_started)) \<and>
      held (snd (VO_StartVO calm (Some ?c) nothing_started)) \<subseteq> held nothing_started \<union> {R_layer (vc_dev ?c)} \<union> windows_of (vc_dev ?c) (1 - 1)" .
  moreover have "fst (VO_StartVO calm (Some ?c) nothing_started) = 0"
    by (simp add: VO_StartVO_def VO_GetDefConfig_def Let_def or_stop_def on_error_if after_def ret_def call_def VO_StartDev_def VO_StartLayer_def
        VO_StartChn_def VO_INTF_HDMI_def VO_INTF_BT1120_def VO_INTF_MIPI_def split: prod.split)
  ultimately show ?thesis by (auto simp: display_set_def windows_of_def c(2) nothing_started_def)
qed

section \<open>What is not as meant\<close>

text \<open>Modes with more than eight windows, and \<open>2X4\<close>, are started but not stopped.\<close>

lemma VO_StopChn_more_windows: "stop_windows mode = None \<Longrightarrow> VO_StopChn e l mode s = (-1, s)"
  by (simp add: VO_StopChn_def ret_def)

lemma VO_MODE_9MUX_not_stopped: "vo_grid VO_MODE_9MUX = Some (9, 3, 3)" "stop_windows VO_MODE_9MUX = None"
  by simp_all

text \<open>The timing computed for the panel never reaches the device: \<open>VO_StartDev\<close> writes its own over it.\<close>

lemma VO_timing_overwritten: "VO_StartDev e d (pub\<lparr>vp_timing := t\<rparr>) = VO_StartDev e d pub"
  by (simp add: VO_StartDev_def)

lemma VO_timings_differ: "si_hfb (vp_timing COMM_VO_GetPubAttr) = 32" "si_hfb init_timing = 99" "si_hbb (vp_timing COMM_VO_GetPubAttr) = 40" "si_hbb init_timing = 43"
  by (simp_all add: COMM_VO_GetPubAttr_def init_timing_def Let_def)

text \<open>A display of 1680 by 1050 pixels is announced as 1080p.\<close>

lemma hdmi_1680x1050: "GetWH VO_OUTPUT_1680x1050_60 = Some (1680, 1050, 60)" "HdmiConvertSync VO_OUTPUT_1680x1050_60 = FMT_1080P_60"
  by simp_all

end
