(* ===== verification/Vi_Start.thy ===== *)
theory Vi_Start
  imports Media_Ops
begin

text \<open>
  Starting and stopping the video input (common/sdk2v0/sample_comm_vi.c): the MIPI receiver, the mode of the pipes, devices, pipes and channels, and what these operations take
  and give back.
\<close>

section \<open>Configurations\<close>

text \<open>One input: its sensor, its device, its four pipes (negative for none), its channel and its snapshots.\<close>

record vi_info =
  vi_sns :: sns_type
  vi_sns_id :: int
  vi_bus :: int
  vi_mipi :: int
  vi_dev :: int
  vi_wdr :: wdr_mode
  vi_pipes :: "int list"
  vi_mode :: vi_vpss_mode
  vi_multi :: bool
  vi_vc_cfged :: bool
  vi_vcs :: "int list"
  vi_isp_bypass :: bool
  vi_fmt :: pixel_format
  vi_chn :: int
  vi_chn_fmt :: pixel_format
  vi_chn_range :: dynamic_range
  vi_chn_video :: video_format
  vi_chn_compress :: compress_mode
  vi_snap :: bool
  vi_double :: bool
  vi_snap_pipe :: int
  vi_snap_mode :: vi_vpss_mode

text \<open>The inputs, and the indices of those that are used.\<close>

record vi_config =
  vg_infos :: "vi_info list"
  vg_ids :: "nat list"

definition working :: "vi_config \<Rightarrow> vi_info list" where
  "working c = map (\<lambda>i. vg_infos c ! i) (vg_ids c)"

text \<open>A null pointer is refused.\<close>

definition with_cfg :: "vi_config option \<Rightarrow> (vi_config \<Rightarrow> mop) \<Rightarrow> mop" where
  "with_cfg p f = (case p of None \<Rightarrow> ret (-1) | Some c \<Rightarrow> f c)"

section \<open>The receiver\<close>

text \<open>The device file is open during \<open>body\<close>, whose result counts.\<close>

definition with_mipi :: "mpi_env \<Rightarrow> mop \<Rightarrow> mop" where
  "with_mipi e body s =
     (case call e (Mipi MIPI_open) s of (fd, s1) \<Rightarrow>
        if fd < 0 then (-1, s1)
        else case body s1 of (r, s2) \<Rightarrow> (r, snd (call e (Mipi MIPI_close) s2)))"

definition each_mipi :: "mpi_env \<Rightarrow> (int \<Rightarrow> mipi_ioctl) \<Rightarrow> vi_config option \<Rightarrow> mop" where
  "each_mipi e io p = with_cfg p (\<lambda>c. with_mipi e (run_all e same (map (\<lambda>v. Mipi (io (vi_mipi v))) (working c))))"

definition each_sensor :: "mpi_env \<Rightarrow> (int \<Rightarrow> mipi_ioctl) \<Rightarrow> mop" where
  "each_sensor e io = with_mipi e (run_all e same [Mipi (io 0), Mipi (io 1)])"

definition ResetSns :: "mpi_env \<Rightarrow> int \<Rightarrow> mop" where
  "ResetSns e d = with_mipi e (run_all e same [Mipi (RESET_SENSOR d)])"
definition SetMipiHsMode :: "mpi_env \<Rightarrow> int \<Rightarrow> mop" where
  "SetMipiHsMode e m = with_mipi e (run_all e same [Mipi (SET_HS_MODE m)])"

definition EnableMipiClock :: "mpi_env \<Rightarrow> vi_config option \<Rightarrow> mop" where
  "EnableMipiClock e p = each_mipi e ENABLE_MIPI_CLOCK p"

definition DisableMipiClock :: "mpi_env \<Rightarrow> vi_config option \<Rightarrow> mop" where
  "DisableMipiClock e p = each_mipi e DISABLE_MIPI_CLOCK p"

definition ResetMipi :: "mpi_env \<Rightarrow> vi_config option \<Rightarrow> mop" where
  "ResetMipi e p = each_mipi e RESET_MIPI p"

definition UnresetMipi :: "mpi_env \<Rightarrow> vi_config option \<Rightarrow> mop" where
  "UnresetMipi e p = each_mipi e UNRESET_MIPI p"

definition EnableSensorClock :: "mpi_env \<Rightarrow> mop" where
  "EnableSensorClock e = each_sensor e ENABLE_SENSOR_CLOCK"

definition DisableSensorClock :: "mpi_env \<Rightarrow> mop" where
  "DisableSensorClock e = each_sensor e DISABLE_SENSOR_CLOCK"

definition ResetSensor :: "mpi_env \<Rightarrow> mop" where
  "ResetSensor e = each_sensor e RESET_SENSOR"

definition UnresetSensor :: "mpi_env \<Rightarrow> mop" where
  "UnresetSensor e = each_sensor e UNRESET_SENSOR"

text \<open>
  The attributes written for each input. The variable for them is one for all inputs, so that a sensor on two lanes with an unknown receiver gets
  those of the input before it, or what was in the variable.
\<close>

fun mipi_attrs :: "combo_attr \<Rightarrow> vi_info list \<Rightarrow> combo_attr list" where
  "mipi_attrs a [] = []"
| "mipi_attrs a (v # vs) =
     (let b = (case GetComboAttrBySns (vi_sns v) (vi_mipi v) of None \<Rightarrow> a | Some b \<Rightarrow> b)\<lparr>ca_devno := vi_mipi v\<rparr>
      in b # mipi_attrs b vs)"

definition SetMipiAttr :: "mpi_env \<Rightarrow> vi_config option \<Rightarrow> mop" where
  "SetMipiAttr e p =
     with_cfg p (\<lambda>c. with_mipi e (run_all e same (map (\<lambda>b. Mipi (SET_DEV_ATTR b)) (mipi_attrs (me_junk e) (working c)))))"

text \<open>Any error becomes \<open>-1\<close>.\<close>

definition or_fail :: "mop \<Rightarrow> mop \<Rightarrow> mop" where
  "or_fail a b = on_error a (\<lambda>r. ret (-1)) b"

text \<open>The division of the lanes is that of the first input of the configuration, used or not.\<close>

definition StartMIPI :: "mpi_env \<Rightarrow> vi_config option \<Rightarrow> mop" where
  "StartMIPI e p =
     with_cfg p (\<lambda>c.
       or_fail (SetMipiHsMode e (GetMipiLaneDivideMode (vi_sns (vg_infos c ! 0))))
       (or_fail (EnableMipiClock e p)
       (or_fail (ResetMipi e p)
       (or_fail (EnableSensorClock e)
       (or_fail (ResetSensor e)
       (or_fail (SetMipiAttr e p)
       (or_fail (UnresetMipi e p)
       (or_fail (UnresetSensor e) (ret 0)))))))))"

definition StopMIPI :: "mpi_env \<Rightarrow> vi_config option \<Rightarrow> mop" where
  "StopMIPI e p =
     with_cfg p (\<lambda>_. or_fail (ResetSensor e) (or_fail (DisableSensorClock e) (or_fail (ResetMipi e p) (or_fail (DisableMipiClock e p) (ret 0)))))"

section \<open>The modes of the pipes\<close>

text \<open>Four pipes; \<open>None\<close> is an index out of the array.\<close>

definition UpdateVIVPSSMode :: "vi_vpss_mode list \<Rightarrow> vi_vpss_mode list" where
  "UpdateVIVPSSMode ms =
     (if ms ! 0 = VI_OFFLINE_VPSS_OFFLINE
      then if VI_OFFLINE_VPSS_ONLINE \<in> set ms then replicate (length ms) VI_OFFLINE_VPSS_ONLINE else ms
      else if ms ! 0 = VI_OFFLINE_VPSS_ONLINE then replicate (length ms) (ms ! 0) else ms)"

definition set_mode :: "int \<Rightarrow> vi_vpss_mode \<Rightarrow> vi_vpss_mode list \<Rightarrow> vi_vpss_mode list option" where
  "set_mode p m ms = (if 0 \<le> p \<and> nat p < length ms then Some (ms[nat p := m]) else None)"

definition set_mode_unless :: "int \<Rightarrow> vi_vpss_mode \<Rightarrow> vi_vpss_mode list \<Rightarrow> vi_vpss_mode list option" where
  "set_mode_unless p m ms = (if p = -1 then Some ms else set_mode p m ms)"

definition vi_param_step :: "vi_info \<Rightarrow> vi_vpss_mode list \<Rightarrow> vi_vpss_mode list option" where
  "vi_param_step v ms =
     Option.bind (set_mode (vi_pipes v ! 0) (vi_mode v) ms) (\<lambda>ms1.
     Option.bind (if vi_multi v \<or> vi_mode v = VI_OFFLINE_VPSS_ONLINE
        then Option.bind (set_mode_unless (vi_pipes v ! 1) (vi_mode v) (UpdateVIVPSSMode ms1)) (\<lambda>m.
             Option.bind (set_mode_unless (vi_pipes v ! 2) (vi_mode v) m) (\<lambda>m'. set_mode_unless (vi_pipes v ! 3) (vi_mode v) m'))
        else Some ms1) (\<lambda>ms2.
     if vi_snap v \<and> vi_double v then set_mode_unless (vi_pipes v ! 1) (vi_snap_mode v) ms2 else Some ms2))"

fun vi_param :: "vi_info list \<Rightarrow> vi_vpss_mode list \<Rightarrow> vi_vpss_mode list option" where
  "vi_param [] ms = Some ms"
| "vi_param (v # vs) ms = Option.bind (vi_param_step v ms) (vi_param vs)"

definition VI_SetParam :: "mpi_env \<Rightarrow> vi_config option \<Rightarrow> media \<Rightarrow> (int \<times> media) option" where
  "VI_SetParam e p s =
     (case p of
        None \<Rightarrow> Some (-1, s)
      | Some c \<Rightarrow>
        case call e (Sys SYS_GetVIVPSSMode) s of (r, s1) \<Rightarrow>
          if r \<noteq> 0 then Some (-1, s1)
          else map_option (\<lambda>ms. or_fail (call e (Sys (SYS_SetVIVPSSMode ms))) (ret 0) s1) (vi_param (working c) (me_modes e (calls s1))))"

section \<open>Devices\<close>

definition dev_config :: "vi_info \<Rightarrow> dev_attr" where
  "dev_config v =
     (let a = (GetDevAttrBySns (vi_sns v))\<lparr>da_wdr := vi_wdr v\<rparr>
      in if vi_mode v = VI_PARALLEL_VPSS_OFFLINE \<or> vi_mode v = VI_PARALLEL_VPSS_PARALLEL then a\<lparr>da_rate := DATA_RATE_X2\<rparr> else a)"

definition VI_StartDev :: "mpi_env \<Rightarrow> vi_info \<Rightarrow> mop" where
  "VI_StartDev e v = run_all e HI_FAIL [Vi (VI_SetDevAttr (vi_dev v) (dev_config v)), Vi (VI_EnableDev (vi_dev v))]"

definition VI_StopDev :: "mpi_env \<Rightarrow> vi_info \<Rightarrow> mop" where
  "VI_StopDev e v = run_all e HI_FAIL [Vi (VI_DisableDev (vi_dev v))]"

text \<open>The pipes in use, with their places in the array of four.\<close>

definition pipes_of :: "vi_info \<Rightarrow> (nat \<times> int) list" where
  "pipes_of v = filter (\<lambda>(i, p). 0 \<le> p \<and> p < 4) (map (\<lambda>i. (i, vi_pipes v ! i)) [0..<4])"

definition BindPipeDev :: "mpi_env \<Rightarrow> vi_info \<Rightarrow> mop" where
  "BindPipeDev e v = run_all e HI_FAIL [Vi (VI_SetDevBindPipe (vi_dev v) (map snd (pipes_of v)))]"

section \<open>Pipes\<close>

text \<open>The first error ends the loop and is the result.\<close>

fun run_each :: "('v \<Rightarrow> mop) \<Rightarrow> 'v list \<Rightarrow> mop" where
  "run_each f [] = ret 0"
| "run_each f (x # xs) = on_error (f x) ret (run_each f xs)"

definition ModeSwitchCreateSingleViPipe :: "mpi_env \<Rightarrow> int \<Rightarrow> pipe_attr \<Rightarrow> mop" where
  "ModeSwitchCreateSingleViPipe e p a = run_all e HI_FAIL [Vi (VI_CreatePipe p a)]"

definition ModeSwitch_EnableSingleViPipe :: "mpi_env \<Rightarrow> int \<Rightarrow> mop" where
  "ModeSwitch_EnableSingleViPipe e p =
     on_error (call e (Vi (VI_StartPipe p))) (\<lambda>r. after (call e (Vi (VI_DestroyPipe p))) (ret (-1))) (ret 0)"

definition StopSingleViPipe :: "mpi_env \<Rightarrow> int \<Rightarrow> mop" where
  "StopSingleViPipe e p = run_all e HI_FAIL [Vi (VI_StopPipe p), Vi (VI_DestroyPipe p)]"

text \<open>After an error at place \<open>i\<close> of the array the pipes with the numbers below \<open>i\<close> are stopped, whatever the pipes before that place are.\<close>

definition stop_low :: "mpi_env \<Rightarrow> nat \<Rightarrow> mop" where
  "stop_low e i = stop_each (StopSingleViPipe e) (map int [0..<i])"

definition ModeSwitch_StartViPipe :: "mpi_env \<Rightarrow> vi_info \<Rightarrow> mop" where
  "ModeSwitch_StartViPipe e v =
     run_each (\<lambda>(i, p). or_stop (ModeSwitchCreateSingleViPipe e p (GetPipeAttrBySns (vi_sns v))) (stop_low e i) (ret 0)) (pipes_of v)"

definition ModeSwitch_EnableViPipe :: "mpi_env \<Rightarrow> vi_info \<Rightarrow> mop" where
  "ModeSwitch_EnableViPipe e v = run_each (\<lambda>(i, p). or_stop (ModeSwitch_EnableSingleViPipe e p) (stop_low e i) (ret 0)) (pipes_of v)"

text \<open>Pipes 2 and 3 are not compressed.\<close>

definition pipe_config :: "vi_info \<Rightarrow> int \<Rightarrow> pipe_attr" where
  "pipe_config v p =
     (let a = GetPipeAttrBySns (vi_sns v);
          b = (if vi_isp_bypass v then a\<lparr>pa_isp_bypass := True, pa_fmt := vi_fmt v, pa_bits := 8\<rparr> else a)
      in if p = 2 \<or> p = 3 then b\<lparr>pa_compress := COMPRESS_MODE_NONE\<rparr> else b)"

text \<open>The pipe of a snapshot is created but not started.\<close>

definition start_pipe :: "mpi_env \<Rightarrow> vi_info \<Rightarrow> nat \<times> int \<Rightarrow> mop" where
  "start_pipe e v ip =
     (case ip of (i, p) \<Rightarrow>
        let create = call e (Vi (VI_CreatePipe p (pipe_config v p))); destroy = (\<lambda>r. after (call e (Vi (VI_DestroyPipe p))) (ret (-1)))
        in if vi_snap v \<and> vi_double v \<and> p = vi_snap_pipe v then or_stop create (stop_low e i) (ret 0)
           else on_error create (\<lambda>r. ret (-1))
                 (on_error (if vi_vc_cfged v then call e (Vi (VI_SetPipeVCNumber p (vi_vcs v ! i))) else ret 0) destroy
                   (on_error (call e (Vi (VI_StartPipe p))) destroy (ret 0))))"

definition StartViPipe :: "mpi_env \<Rightarrow> vi_info \<Rightarrow> mop" where
  "StartViPipe e v = run_each (start_pipe e v) (pipes_of v)"

definition StopViPipe :: "mpi_env \<Rightarrow> vi_info \<Rightarrow> mop" where
  "StopViPipe e v = stop_each (\<lambda>(i, p). StopSingleViPipe e p) (pipes_of v)"

section \<open>Channels\<close>

text \<open>With several exposures only the first pipe has a channel. Channels are enabled when the pictures go through memory.\<close>

definition need_chn :: "vi_info \<Rightarrow> nat \<Rightarrow> bool" where
  "need_chn v i \<longleftrightarrow> vi_wdr v = WDR_MODE_NONE \<or> i = 0"

definition chn_in_memory :: "vi_info \<Rightarrow> bool" where
  "chn_in_memory v \<longleftrightarrow> vi_mode v = VI_OFFLINE_VPSS_OFFLINE \<or> vi_mode v = VI_ONLINE_VPSS_OFFLINE \<or> vi_mode v = VI_PARALLEL_VPSS_OFFLINE"

definition chn_config :: "vi_info \<Rightarrow> chn_attr" where
  "chn_config v =
     (GetChnAttrBySns (vi_sns v))\<lparr>cn_range := vi_chn_range v, cn_video := vi_chn_video v, cn_fmt := vi_chn_fmt v, cn_compress := vi_chn_compress v\<rparr>"

definition ModeSwitch_StartViChn :: "mpi_env \<Rightarrow> vi_info \<Rightarrow> mop" where
  "ModeSwitch_StartViChn e v =
     run_each (\<lambda>(i, p). if need_chn v i then run_all e HI_FAIL [Vi (VI_SetChnAttr p (vi_chn v) (chn_config v))] else ret 0) (pipes_of v)"

definition StartViChn :: "mpi_env \<Rightarrow> vi_info \<Rightarrow> mop" where
  "StartViChn e v =
     run_each (\<lambda>(i, p). if need_chn v i
       then run_all e HI_FAIL (Vi (VI_SetChnAttr p (vi_chn v) (chn_config v)) # (if chn_in_memory v then [Vi (VI_EnableChn p (vi_chn v))] else []))
       else ret 0) (pipes_of v)"

definition StopViChn :: "mpi_env \<Rightarrow> vi_info \<Rightarrow> mop" where
  "StopViChn e v =
     run_each (\<lambda>(i, p). if need_chn v i \<and> chn_in_memory v then run_all e HI_FAIL [Vi (VI_DisableChn p (vi_chn v))] else ret 0) (pipes_of v)"

section \<open>Inputs\<close>

definition CreateSingleVi :: "mpi_env \<Rightarrow> vi_info \<Rightarrow> mop" where
  "CreateSingleVi e v =
     on_error (VI_StartDev e v) (\<lambda>r. ret (-1))
       (or_stop (BindPipeDev e v) (VI_StopDev e v)
       (or_stop (StartViPipe e v) (VI_StopDev e v)
       (or_stop (StartViChn e v) (after (StopViPipe e v) (VI_StopDev e v)) (ret 0))))"

definition ModeSwitch_CreateSingleVi :: "mpi_env \<Rightarrow> vi_info \<Rightarrow> mop" where
  "ModeSwitch_CreateSingleVi e v =
     on_error (VI_StartDev e v) (\<lambda>r. ret (-1))
       (or_stop (BindPipeDev e v) (VI_StopDev e v)
       (or_stop (ModeSwitch_StartViPipe e v) (VI_StopDev e v)
       (or_stop (ModeSwitch_StartViChn e v) (after (StopViPipe e v) (VI_StopDev e v)) (ret 0))))"

definition StartPipe_Chn :: "mpi_env \<Rightarrow> vi_info \<Rightarrow> mop" where
  "StartPipe_Chn e v =
     or_stop (ModeSwitch_EnableViPipe e v) (VI_StopDev e v)
       (or_stop (StartViChn e v) (after (StopViPipe e v) (VI_StopDev e v)) (ret 0))"

definition DestroySingleVi :: "mpi_env \<Rightarrow> vi_info \<Rightarrow> mop" where
  "DestroySingleVi e v = after (StopViChn e v) (after (StopViPipe e v) (after (VI_StopDev e v) (ret 0)))"

definition DestroySinglePipe_Chn :: "mpi_env \<Rightarrow> vi_info \<Rightarrow> mop" where
  "DestroySinglePipe_Chn e v = after (StopViChn e v) (after (StopViPipe e v) (ret 0))"

definition CreateVi :: "mpi_env \<Rightarrow> vi_config option \<Rightarrow> mop" where
  "CreateVi e p = with_cfg p (\<lambda>c. start_unwinding (CreateSingleVi e) (DestroySingleVi e) [] (working c))"

definition ModeSwitch_CreateVi :: "mpi_env \<Rightarrow> vi_config option \<Rightarrow> mop" where
  "ModeSwitch_CreateVi e p = with_cfg p (\<lambda>c. start_unwinding (ModeSwitch_CreateSingleVi e) (DestroySingleVi e) [] (working c))"

definition ModeSwitch_StartPipe_Chn :: "mpi_env \<Rightarrow> vi_config option \<Rightarrow> mop" where
  "ModeSwitch_StartPipe_Chn e p = with_cfg p (\<lambda>c. start_unwinding (StartPipe_Chn e) (DestroySinglePipe_Chn e) [] (working c))"

definition DestroyVi :: "mpi_env \<Rightarrow> vi_config option \<Rightarrow> mop" where
  "DestroyVi e p = with_cfg p (\<lambda>c. stop_each (DestroySingleVi e) (working c))"

section \<open>The receiver takes and gives back\<close>

text \<open>
  Operations that open the device file on their own, between states in which it is closed: \<open>adds\<close> for those that take, \<open>clears\<close> for those
  that give back.
\<close>

definition adds :: "mop \<Rightarrow> media_res set \<Rightarrow> bool" where
  "adds a A \<longleftrightarrow>
     (\<forall>s. R_mipi_fd \<notin> held s \<longrightarrow> R_mipi_fd \<notin> held (snd (a s)) \<and> held s \<subseteq> held (snd (a s)) \<and> held (snd (a s)) \<subseteq> held s \<union> A \<and>
       (fst (a s) = 0 \<longrightarrow> held (snd (a s)) = held s \<union> A))"

definition clears :: "mop \<Rightarrow> media_res set \<Rightarrow> bool" where
  "clears a A \<longleftrightarrow>
     (\<forall>s. R_mipi_fd \<notin> held s \<longrightarrow> R_mipi_fd \<notin> held (snd (a s)) \<and> held (snd (a s)) = held s - A \<and> fst (a s) = 0)"

lemma adds_or_fail: "adds a A \<Longrightarrow> adds b B \<Longrightarrow> adds (or_fail a b) (A \<union> B)"
proof -
  assume ab: "adds a A" "adds b B"
  show "adds (or_fail a b) (A \<union> B)"
    unfolding adds_def
  proof (intro allI impI)
    fix s :: media
    assume s: "R_mipi_fd \<notin> held s"
    note 1 = ab(1) [unfolded adds_def, rule_format, OF s]
    then have "R_mipi_fd \<notin> held (snd (a s))" by blast
    note 2 = ab(2) [unfolded adds_def, rule_format, OF this]
    show "R_mipi_fd \<notin> held (snd (or_fail a b s)) \<and> held s \<subseteq> held (snd (or_fail a b s)) \<and> held (snd (or_fail a b s)) \<subseteq> held s \<union> (A \<union> B) \<and>
        (fst (or_fail a b s) = 0 \<longrightarrow> held (snd (or_fail a b s)) = held s \<union> (A \<union> B))"
      using 1 2 by (cases "fst (a s) = 0") (auto simp: or_fail_def on_error_if ret_def)
  qed
qed

lemma adds_ret: "adds (ret 0) {}"
  by (simp add: adds_def ret_def)

lemma clears_or_fail: "clears a A \<Longrightarrow> clears b B \<Longrightarrow> clears (or_fail a b) (A \<union> B)"
  unfolding clears_def or_fail_def on_error_if by auto

lemma clears_ret: "clears (ret 0) {}"
  by (simp add: clears_def ret_def)

lemma with_mipi_if:
  assumes "stops_succeed e"
  shows "with_mipi e body s = (let s1 = s\<lparr>calls := calls s @ [Mipi MIPI_open], held := held s \<union> {R_mipi_fd}\<rparr>
    in (fst (body s1), (snd (body s1))\<lparr>calls := calls (snd (body s1)) @ [Mipi MIPI_close], held := held (snd (body s1)) - {R_mipi_fd}\<rparr>))"
proof -
  have "call_ok (Mipi MIPI_open) (me_ret e (calls s @ [Mipi MIPI_open]))" "\<And>t. call_ok (Mipi MIPI_close) (me_ret e (t @ [Mipi MIPI_close]))"
    using assms by (auto simp: stops_succeed_def)
  then show ?thesis by (simp add: with_mipi_def call_def call_ok_def Let_def split: prod.split)
qed

lemma adds_with_mipi:
  assumes "stops_succeed e" "takes body A L" "L \<subseteq> A" "R_mipi_fd \<notin> A" "\<And>s. held s \<subseteq> held (snd (body s))"
  shows "adds (with_mipi e body) A"
  unfolding adds_def
proof (intro allI impI)
  fix s :: media
  define s1 where "s1 = s\<lparr>calls := calls s @ [Mipi MIPI_open], held := held s \<union> {R_mipi_fd}\<rparr>"
  define w where "w = with_mipi e body s"
  have w: "fst w = fst (body s1)" "held (snd w) = held (snd (body s1)) - {R_mipi_fd}"
    unfolding w_def with_mipi_if [OF assms(1)] Let_def s1_def by simp_all
  assume s: "R_mipi_fd \<notin> held s"
  have s1: "held s1 = insert R_mipi_fd (held s)" by (simp add: s1_def)
  have b: "fst (body s1) = 0 \<Longrightarrow> held (snd (body s1)) = held s1 \<union> A" "held s1 \<subseteq> held (snd (body s1))" "held (snd (body s1)) \<subseteq> held s1 \<union> A"
    using assms(2) [unfolded takes_def, rule_format, of s1] assms(3) assms(5) [of s1] by (auto split: if_splits)
  show "R_mipi_fd \<notin> held (snd w) \<and> held s \<subseteq> held (snd w) \<and> held (snd w) \<subseteq> held s \<union> A \<and>
    (fst w = 0 \<longrightarrow> held (snd w) = held s \<union> A)"
    unfolding w using b s assms(4) s1 by auto
qed

lemma run_all_grows: "starts_only cs \<Longrightarrow> held s \<subseteq> held (snd (run_all e f cs s))"
proof (induction cs arbitrary: s)
  case (Cons c cs)
  have "held s \<subseteq> held (snd (call e c s))" using Cons.prems by (auto simp: call_def Let_def)
  then show ?case using Cons.IH [of "snd (call e c s)"] Cons.prems by (auto simp: on_error_if ret_def)
qed (simp add: ret_def)

lemma gains_all_butlast: "gains_all (butlast cs) \<subseteq> gains_all cs"
  by (auto simp: gains_all_def dest: in_set_butlastD)

lemma adds_mipi_calls:
  assumes "stops_succeed e" "starts_only cs" "R_mipi_fd \<notin> gains_all cs" "A = gains_all cs"
  shows "adds (with_mipi e (run_all e same cs)) A"
  unfolding assms(4)
  by (rule adds_with_mipi [OF assms(1) takes_run_all gains_all_butlast assms(3) run_all_grows]) (simp_all add: assms(2) same_def)

lemma clears_mipi_calls:
  assumes "stops_succeed e" "stops_only cs" "A = drops_all cs"
  shows "clears (with_mipi e (run_all e same cs)) A"
  unfolding clears_def
proof (intro allI impI)
  fix s :: media
  define s1 where "s1 = s\<lparr>calls := calls s @ [Mipi MIPI_open], held := held s \<union> {R_mipi_fd}\<rparr>"
  define w where "w = with_mipi e (run_all e same cs) s"
  have w: "fst w = fst (run_all e same cs s1)" "held (snd w) = held (snd (run_all e same cs s1)) - {R_mipi_fd}"
    unfolding w_def with_mipi_if [OF assms(1)] Let_def s1_def by simp_all
  assume s: "R_mipi_fd \<notin> held s"
  have s1: "held s1 = insert R_mipi_fd (held s)" by (simp add: s1_def)
  show "R_mipi_fd \<notin> held (snd w) \<and> held (snd w) = held s - A \<and> fst w = 0"
    unfolding w using stops_run_all [OF assms(1,2), of same s1] s s1 assms(3) by auto
qed

definition receiver_set :: "vi_config \<Rightarrow> media_res set" where
  "receiver_set c = {R_sns_clock 0, R_sns_clock 1} \<union> (\<lambda>v. R_mipi_clock (vi_mipi v)) ` set (working c)"

lemma starts_only_map: "starts_only (map f xs) \<longleftrightarrow> list_all (\<lambda>x. drops (f x) = {} \<and> f x \<noteq> Mipi MIPI_open) xs"
  by (simp add: starts_only_def list.pred_map comp_def)

lemma stops_only_map: "stops_only (map f xs) \<longleftrightarrow> list_all (\<lambda>x. is_stop (f x) \<and> gains (f x) = {} \<and> f x \<noteq> Mipi MIPI_open) xs"
  by (simp add: stops_only_def list.pred_map comp_def)

lemma gains_all_map: "gains_all (map f xs) = \<Union> ((\<lambda>x. gains (f x)) ` set xs)"
  by (simp add: gains_all_def)

lemma drops_all_map: "drops_all (map f xs) = \<Union> ((\<lambda>x. drops (f x)) ` set xs)"
  by (simp add: drops_all_def)

lemmas mipi_ops = each_mipi_def each_sensor_def with_cfg_def SetMipiHsMode_def EnableMipiClock_def DisableMipiClock_def ResetMipi_def UnresetMipi_def
  EnableSensorClock_def DisableSensorClock_def ResetSensor_def UnresetSensor_def SetMipiAttr_def

lemma adds_StartMIPI:
  assumes "stops_succeed e"
  shows "adds (StartMIPI e (Some c)) (receiver_set c)"
proof -
  have 1: "adds (SetMipiHsMode e m) {}" for m
    unfolding mipi_ops by (rule adds_mipi_calls [OF assms]) simp_all
  have 2: "adds (EnableMipiClock e (Some c)) ((\<lambda>v. R_mipi_clock (vi_mipi v)) ` set (working c))"
    unfolding mipi_ops option.case by (rule adds_mipi_calls [OF assms]) (auto simp: starts_only_map gains_all_map list_all_iff)
  have 3: "adds (ResetMipi e (Some c)) {}" "adds (UnresetMipi e (Some c)) {}" "adds (SetMipiAttr e (Some c)) {}"
    unfolding mipi_ops option.case by (rule adds_mipi_calls [OF assms]; auto simp: starts_only_map gains_all_map list_all_iff)+
  have 4: "adds (EnableSensorClock e) {R_sns_clock 0, R_sns_clock 1}" "adds (ResetSensor e) {}" "adds (UnresetSensor e) {}"
    unfolding mipi_ops by (rule adds_mipi_calls [OF assms]; simp add: insert_commute)+
  note seq = adds_or_fail [OF 1 adds_or_fail [OF 2 adds_or_fail [OF 3(1) adds_or_fail [OF 4(1) adds_or_fail [OF 4(2)
    adds_or_fail [OF 3(3) adds_or_fail [OF 3(2) adds_or_fail [OF 4(3) adds_ret]]]]]]]]
  have "{} \<union> ((\<lambda>v. R_mipi_clock (vi_mipi v)) ` set (working c) \<union> ({} \<union> ({R_sns_clock 0, R_sns_clock 1} \<union> ({} \<union> ({} \<union> ({} \<union> ({} \<union> {}))))))) = receiver_set c"
    by (auto simp: receiver_set_def)
  with seq show ?thesis by (simp add: StartMIPI_def with_cfg_def)
qed

lemma clears_StopMIPI:
  assumes "stops_succeed e"
  shows "clears (StopMIPI e (Some c)) (receiver_set c)"
proof -
  have 1: "clears (ResetSensor e) {}" "clears (DisableSensorClock e) {R_sns_clock 0, R_sns_clock 1}"
    unfolding mipi_ops by (rule clears_mipi_calls [OF assms]; simp add: insert_commute)+
  have 2: "clears (ResetMipi e (Some c)) {}" "clears (DisableMipiClock e (Some c)) ((\<lambda>v. R_mipi_clock (vi_mipi v)) ` set (working c))"
    unfolding mipi_ops option.case by (rule clears_mipi_calls [OF assms]; auto simp: stops_only_map drops_all_map list_all_iff)+
  note seq = clears_or_fail [OF 1(1) clears_or_fail [OF 1(2) clears_or_fail [OF 2(1) clears_or_fail [OF 2(2) clears_ret]]]]
  have "{} \<union> ({R_sns_clock 0, R_sns_clock 1} \<union> ({} \<union> ((\<lambda>v. R_mipi_clock (vi_mipi v)) ` set (working c) \<union> {}))) = receiver_set c"
    by (auto simp: receiver_set_def)
  with seq show ?thesis by (simp add: StopMIPI_def with_cfg_def)
qed

section \<open>Inputs take and give back\<close>

text \<open>An operation that always succeeds and gives back \<open>F\<close>.\<close>

definition stops :: "mop \<Rightarrow> media_res set \<Rightarrow> bool" where
  "stops a F \<longleftrightarrow> (\<forall>s. fst (a s) = 0 \<and> held (snd (a s)) = held s - F)"

lemma stops_frees: "stops a F \<Longrightarrow> frees a F"
  by (simp add: stops_def frees_def)

lemma stops_ret: "stops (ret 0) {}"
  by (simp add: stops_def ret_def)

lemma stops_calls: "stops_succeed e \<Longrightarrow> stops_only cs \<Longrightarrow> F = drops_all cs \<Longrightarrow> stops (run_all e f cs) F"
  by (simp add: stops_def stops_run_all)

lemma stops_run_each: "(\<And>x. x \<in> set xs \<Longrightarrow> stops (f x) (F x)) \<Longrightarrow> stops (run_each f xs) (\<Union> (F ` set xs))"
proof (induction xs)
  case (Cons x xs)
  then have "stops (f x) (F x)" "stops (run_each f xs) (\<Union> (F ` set xs))" by simp_all
  then show ?case by (auto simp: stops_def on_error_if)
qed (simp add: stops_ret)

lemma frees_stop_each: "(\<And>x. x \<in> set xs \<Longrightarrow> frees (f x) (F x)) \<Longrightarrow> frees (stop_each f xs) (\<Union> (F ` set xs))"
proof (induction xs)
  case (Cons x xs)
  then have "frees (f x) (F x)" "frees (stop_each f xs) (\<Union> (F ` set xs))" by simp_all
  then show ?case by (auto simp: frees_def after_def)
qed (simp add: frees_ret)

lemma takes_run_each:
  "(\<And>x. x \<in> set xs \<Longrightarrow> takes (f x) (A x) {}) \<Longrightarrow> takes (run_each f xs) (\<Union> (A ` set xs)) (\<Union> (A ` set xs))"
proof (induction xs)
  case (Cons x xs)
  then have "takes (f x) (A x) {}" "takes (run_each f xs) (\<Union> (A ` set xs)) (\<Union> (A ` set xs))" by simp_all
  from takes_keep [OF this, of "\<lambda>r. r"] show ?case by simp
qed (simp add: takes_ret)

definition pipe_set :: "nat \<times> int \<Rightarrow> media_res set" where
  "pipe_set ip = {R_pipe (snd ip), R_pipe_on (snd ip)}"

definition chn_set :: "vi_info \<Rightarrow> nat \<times> int \<Rightarrow> media_res set" where
  "chn_set v ip = (if need_chn v (fst ip) \<and> chn_in_memory v then {R_vi_chn (snd ip) (vi_chn v)} else {})"

definition pipes_chns :: "vi_info \<Rightarrow> media_res set" where
  "pipes_chns v = \<Union> (pipe_set ` set (pipes_of v)) \<union> \<Union> (chn_set v ` set (pipes_of v))"

definition input_set :: "vi_info \<Rightarrow> media_res set" where
  "input_set v = {R_vi_dev (vi_dev v)} \<union> pipes_chns v"

text \<open>No pipe of its own for snapshots.\<close>

definition plain :: "vi_info \<Rightarrow> bool" where
  "plain v \<longleftrightarrow> \<not> (vi_snap v \<and> vi_double v)"

lemma takes_start_pipe:
  assumes "stops_succeed e" "plain v"
  shows "takes (start_pipe e v ip) (pipe_set ip) {}"
proof -
  obtain i p where ip: "ip = (i, p)" by (metis surj_pair)
  have des: "frees (call e (Vi (VI_DestroyPipe p))) {R_pipe p}"
    using frees_call [OF assms(1), of "Vi (VI_DestroyPipe p)"] by simp
  have vc: "takes (if vi_vc_cfged v then call e (Vi (VI_SetPipeVCNumber p (vi_vcs v ! i))) else ret 0) {} {}"
    using takes_call [of "Vi (VI_SetPipeVCNumber p (vi_vcs v ! i))" e] takes_ret by simp
  have create: "takes (call e (Vi (VI_CreatePipe p (pipe_config v p)))) {R_pipe p} {}"
    using takes_call [of "Vi (VI_CreatePipe p (pipe_config v p))" e] by simp
  have start: "takes (call e (Vi (VI_StartPipe p))) {R_pipe_on p} {}"
    using takes_call [of "Vi (VI_StartPipe p)" e] by simp
  let ?d = "\<lambda>r :: int. after (call e (Vi (VI_DestroyPipe p))) (ret (-1))"
  let ?vc = "if vi_vc_cfged v then call e (Vi (VI_SetPipeVCNumber p (vi_vcs v ! i))) else ret 0"
  define chain where "chain = on_error (call e (Vi (VI_CreatePipe p (pipe_config v p)))) (\<lambda>r. ret (-1))
      (on_error ?vc ?d (on_error (call e (Vi (VI_StartPipe p))) ?d (ret 0)))"
  have eq: "start_pipe e v ip = chain"
    using assms(2) by (auto simp: start_pipe_def ip plain_def Let_def chain_def)
  have "takes chain {R_pipe p, R_pipe_on p} {}"
    unfolding takes_def
  proof
    fix s
    define s1 where "s1 = snd (call e (Vi (VI_CreatePipe p (pipe_config v p))) s)"
    define s2 where "s2 = snd (?vc s1)"
    define s3 where "s3 = snd (call e (Vi (VI_StartPipe p)) s2)"
    note 1 = create [unfolded takes_def, rule_format, of s, folded s1_def]
    note 2 = vc [unfolded takes_def, rule_format, of s1, folded s2_def]
    note 3 = start [unfolded takes_def, rule_format, of s2, folded s3_def]
    note 4 = des [unfolded frees_def, rule_format]
    show "if fst (chain s) = 0 then held (snd (chain s)) = held s \<union> {R_pipe p, R_pipe_on p}
      else held s - {R_pipe p, R_pipe_on p} \<subseteq> held (snd (chain s)) \<and> held (snd (chain s)) \<subseteq> held s \<union> {}"
      unfolding chain_def on_error_if after_def ret_def s1_def [symmetric] s2_def [symmetric] s3_def [symmetric]
      using 1 2 3 by (auto simp: 4 split: if_splits)
  qed
  then show ?thesis unfolding eq by (simp add: ip pipe_set_def)
qed

lemma takes_StartViPipe:
  "stops_succeed e \<Longrightarrow> plain v \<Longrightarrow> takes (StartViPipe e v) (\<Union> (pipe_set ` set (pipes_of v))) (\<Union> (pipe_set ` set (pipes_of v)))"
  unfolding StartViPipe_def by (rule takes_run_each) (rule takes_start_pipe)

lemma frees_StopViPipe: "stops_succeed e \<Longrightarrow> frees (StopViPipe e v) (\<Union> (pipe_set ` set (pipes_of v)))"
  unfolding StopViPipe_def StopSingleViPipe_def
  by (rule frees_stop_each) (auto simp: pipe_set_def insert_commute simp del: run_all.simps intro!: stops_frees stops_calls split: prod.split)

lemma takes_StartViChn: "takes (StartViChn e v) (\<Union> (chn_set v ` set (pipes_of v))) (\<Union> (chn_set v ` set (pipes_of v)))"
  unfolding StartViChn_def
proof (rule takes_run_each)
  fix ip :: "nat \<times> int"
  obtain i p where ip: "ip = (i, p)" by (metis surj_pair)
  let ?set = "Vi (VI_SetChnAttr p (vi_chn v) (chn_config v))" and ?on = "Vi (VI_EnableChn p (vi_chn v))"
  have "takes (run_all e HI_FAIL [?set, ?on]) {R_vi_chn p (vi_chn v)} {}" "takes (run_all e HI_FAIL [?set]) {} {}"
    using takes_run_all [of "[?set, ?on]" HI_FAIL e] takes_run_all [of "[?set]" HI_FAIL e] by (simp_all del: run_all.simps)
  then show "takes (case ip of (i, p) \<Rightarrow> if need_chn v i
       then run_all e HI_FAIL (Vi (VI_SetChnAttr p (vi_chn v) (chn_config v)) # (if chn_in_memory v then [Vi (VI_EnableChn p (vi_chn v))] else []))
       else ret 0) (chn_set v ip) {}"
    using takes_ret by (simp add: ip chn_set_def del: run_all.simps)
qed

lemma stops_StopViChn: "stops_succeed e \<Longrightarrow> stops (StopViChn e v) (\<Union> (chn_set v ` set (pipes_of v)))"
  unfolding StopViChn_def
  by (rule stops_run_each) (auto simp: chn_set_def simp del: run_all.simps intro!: stops_calls stops_ret split: prod.split)

lemma takes_VI_StartDev: "takes (VI_StartDev e v) {R_vi_dev (vi_dev v)} {}"
  using takes_run_all [of "[Vi (VI_SetDevAttr (vi_dev v) (dev_config v)), Vi (VI_EnableDev (vi_dev v))]" HI_FAIL e]
  by (simp add: VI_StartDev_def del: run_all.simps)

lemma frees_VI_StopDev: "stops_succeed e \<Longrightarrow> frees (VI_StopDev e v) {R_vi_dev (vi_dev v)}"
  using frees_run_all [of e "[Vi (VI_DisableDev (vi_dev v))]" HI_FAIL] by (simp add: VI_StopDev_def del: run_all.simps)

lemma takes_BindPipeDev: "takes (BindPipeDev e v) {} {}"
  using takes_run_all [of "[Vi (VI_SetDevBindPipe (vi_dev v) (map snd (pipes_of v)))]" HI_FAIL e]
  by (simp add: BindPipeDev_def del: run_all.simps)

text \<open>An input that is not started leaves at most pipes and channels of its own; its device is given back.\<close>

lemma takes_CreateSingleVi:
  assumes "stops_succeed e" "plain v"
  shows "takes (CreateSingleVi e v) (input_set v) (pipes_chns v)"
proof -
  let ?D = "{R_vi_dev (vi_dev v)}" and ?P = "\<Union> (pipe_set ` set (pipes_of v))" and ?C = "\<Union> (chn_set v ` set (pipes_of v))"
  let ?k3 = "or_stop (StartViChn e v) (after (StopViPipe e v) (VI_StopDev e v)) (ret 0)"
  let ?k2 = "or_stop (StartViPipe e v) (VI_StopDev e v) ?k3"
  let ?k1 = "or_stop (BindPipeDev e v) (VI_StopDev e v) ?k2"
  note dev = frees_VI_StopDev [OF assms(1), of v]
  have 3: "takes_in ?k3 (?D \<union> ?P) ?C (pipes_chns v)"
    by (rule takes_in_step [OF takes_StartViChn frees_after [OF frees_StopViPipe [OF assms(1)] dev] takes_in_ret]) (auto simp: pipes_chns_def)
  have 2: "takes_in ?k2 ?D (pipes_chns v) (pipes_chns v)"
    by (rule takes_in_step [OF takes_StartViPipe [OF assms] dev 3]) (auto simp: pipes_chns_def)
  have 1: "takes_in ?k1 ?D (pipes_chns v) (pipes_chns v)"
    by (rule takes_in_step [OF takes_BindPipeDev dev, where B = "pipes_chns v" and LB = "pipes_chns v"]) (use 2 in auto)
  show ?thesis
    unfolding takes_def
  proof
    fix s
    obtain r1 s1 where d: "VI_StartDev e v s = (r1, s1)" by (metis surj_pair)
    show "if fst (CreateSingleVi e v s) = 0 then held (snd (CreateSingleVi e v s)) = held s \<union> input_set v
      else held s - input_set v \<subseteq> held (snd (CreateSingleVi e v s)) \<and> held (snd (CreateSingleVi e v s)) \<subseteq> held s \<union> pipes_chns v"
      using takes_VI_StartDev [of e v, unfolded takes_def, rule_format, of s] 1 [unfolded takes_in_def, rule_format, of s1] d
      by (auto simp: CreateSingleVi_def on_error_if ret_def input_set_def split: if_splits)
  qed
qed

lemma frees_DestroySingleVi:
  assumes "stops_succeed e"
  shows "frees (DestroySingleVi e v) (input_set v)"
  using frees_after [OF stops_frees [OF stops_StopViChn [OF assms, of v]] frees_after [OF frees_StopViPipe [OF assms, of v]
      frees_after [OF frees_VI_StopDev [OF assms, of v] frees_ret [of 0]]]]
  by (simp add: DestroySingleVi_def input_set_def pipes_chns_def Un_ac)

interpretation vi_inputs: paired_family e "CreateSingleVi e" "DestroySingleVi e" input_set input_set pipes_chns plain for e
  by unfold_locales (simp_all add: takes_CreateSingleVi frees_DestroySingleVi)

end
