(* ===== verification/Vi_Isp.thy ===== *)
theory Vi_Isp
  imports Vi_Start
begin

text \<open>
  The image signal processor of each pipe (common/sdk2v0/sample_comm_isp.c, sample_comm_vi.c), the start and the stop of the whole video
  input, and the switch of its mode.

  All pipe attributes have \<open>VI_PIPE_BYPASS_NONE\<close>, so that the early return of \<open>SAMPLE_COMM_VI_StartIsp\<close> for \<open>VI_PIPE_BYPASS_BE\<close> is never taken; it is left out.
\<close>

section \<open>The image signal processor (sample_comm_isp.c)\<close>

definition Aelib_Callback :: "mpi_env \<Rightarrow> int \<Rightarrow> mop" where
  "Aelib_Callback e p = run_all e same [Isp (AE_Register p)]"

definition Aelib_UnCallback :: "mpi_env \<Rightarrow> int \<Rightarrow> mop" where
  "Aelib_UnCallback e p = run_all e same [Isp (AE_UnRegister p)]"

definition Awblib_Callback :: "mpi_env \<Rightarrow> int \<Rightarrow> mop" where
  "Awblib_Callback e p = run_all e same [Isp (AWB_Register p)]"

definition Awblib_UnCallback :: "mpi_env \<Rightarrow> int \<Rightarrow> mop" where
  "Awblib_UnCallback e p = run_all e same [Isp (AWB_UnRegister p)]"

text \<open>A thread that cannot be created leaves \<open>g_IspPid\<close> as it was.\<close>

definition ISP_Run :: "mpi_env \<Rightarrow> int \<Rightarrow> mop" where
  "ISP_Run e p s =
     (case call e (Isp (ISP_thread_create p)) s of (r, s1) \<Rightarrow>
        (r, if r = 0 then s1\<lparr>isp_pid := (isp_pid s1)(p := True)\<rparr> else s1))"

text \<open>There are two sensors.\<close>

definition sensor_driver :: "mpi_env \<Rightarrow> int \<Rightarrow> sns_obj option" where
  "sensor_driver e n = GetSnsObj (me_sns e (nat n))"

definition Sensor_Regiter_callback :: "mpi_env \<Rightarrow> int \<Rightarrow> int \<Rightarrow> mop" where
  "Sensor_Regiter_callback e p n =
     (if 2 \<le> n then ret (-1)
      else if sensor_driver e n = None then ret (-1)
      else on_error (if me_reg_cb e then call e (Isp (SNS_register p)) else ret 0) ret
        (\<lambda>s. (0, s\<lparr>isp_sns := (isp_sns s)(p := n)\<rparr>)))"

definition Sensor_UnRegiter_callback :: "mpi_env \<Rightarrow> int \<Rightarrow> mop" where
  "Sensor_UnRegiter_callback e p s =
     (let n = isp_sns s p
      in if 2 \<le> n then (-1, s)
         else if sensor_driver e n = None then (-1, s)
         else if me_unreg_cb e then run_all e same [Isp (SNS_unregister p)] s else (0, s))"

definition ISP_Stop :: "mpi_env \<Rightarrow> int \<Rightarrow> mop" where
  "ISP_Stop e p s =
     (if isp_pid s p
      then after (call e (Isp (ISP_Exit p))) (after (call e (Isp (ISP_thread_join p)))
             (after (Awblib_UnCallback e p) (after (Aelib_UnCallback e p) (after (Sensor_UnRegiter_callback e p)
             (\<lambda>s. (0, s\<lparr>isp_pid := (isp_pid s)(p := False)\<rparr>)))))) s
      else (0, s))"

definition All_ISP_Stop :: "mpi_env \<Rightarrow> mop" where
  "All_ISP_Stop e = stop_each (ISP_Stop e) [0, 1, 2, 3]"

definition s8 :: "int \<Rightarrow> int" where
  "s8 x = (x + 128) mod 256 - 128"

text \<open>All sensors are on the I2C bus.\<close>

definition ISP_BindSns :: "mpi_env \<Rightarrow> int \<Rightarrow> int \<Rightarrow> int \<Rightarrow> mop" where
  "ISP_BindSns e p n bus =
     (if 2 \<le> n then ret (-1)
      else if sensor_driver e n = None then ret (-1)
      else if me_bus_cb e then run_all e same [Isp (SNS_set_bus p (s8 bus))] else ret (-1))"

section \<open>Processors of an input\<close>

text \<open>Steps up to the first error, after which the processor is stopped.\<close>

fun or_isp_stop :: "mop \<Rightarrow> mop list \<Rightarrow> mop" where
  "or_isp_stop stop [] = ret 0"
| "or_isp_stop stop (a # as) = on_error a (\<lambda>r. after stop (ret (-1))) (or_isp_stop stop as)"

definition isp_config :: "vi_info \<Rightarrow> isp_attr" where
  "isp_config v = (GetIspAttrBySns (vi_sns v))\<lparr>ia_wdr := vi_wdr v\<rparr>"

definition isp_steps :: "mpi_env \<Rightarrow> vi_info \<Rightarrow> nat \<Rightarrow> int \<Rightarrow> mop list" where
  "isp_steps e v i p =
     (let n = u32 (vi_sns_id v)
      in [Sensor_Regiter_callback e p n,
          ISP_BindSns e p n (if vi_double v \<and> vi_snap_pipe v = p \<or> vi_multi v \<and> 0 < i then -1 else vi_bus v),
          Aelib_Callback e p, Awblib_Callback e p, call e (Isp (ISP_MemInit p)), call e (Isp (ISP_SetPubAttr p (isp_config v))),
          call e (Isp (ISP_Init p)), ISP_Run e p])"

definition StartIsp :: "mpi_env \<Rightarrow> vi_info \<Rightarrow> mop" where
  "StartIsp e v = run_each (\<lambda>(i, p). if need_chn v i then or_isp_stop (ISP_Stop e p) (isp_steps e v i p) else ret 0) (pipes_of v)"

definition StopIsp :: "mpi_env \<Rightarrow> vi_info \<Rightarrow> mop" where
  "StopIsp e v = stop_each (\<lambda>(i, p). if need_chn v i then ISP_Stop e p else ret 0) (pipes_of v)"

definition CreateIsp :: "mpi_env \<Rightarrow> vi_config option \<Rightarrow> mop" where
  "CreateIsp e p = with_cfg p (\<lambda>c. or_fail (run_each (StartIsp e) (working c)) (ret 0))"

definition DestroyIsp :: "mpi_env \<Rightarrow> vi_config option \<Rightarrow> mop" where
  "DestroyIsp e p = with_cfg p (\<lambda>c. or_fail (run_each (StopIsp e) (working c)) (ret 0))"

section \<open>Everything\<close>

text \<open>\<open>None\<close>: a mode is written out of its array.\<close>

definition StartVi :: "mpi_env \<Rightarrow> vi_config option \<Rightarrow> media \<Rightarrow> (int \<times> media) option" where
  "StartVi e p s =
     (case or_fail (StartMIPI e p) (ret 0) s of (r, s1) \<Rightarrow>
        if r \<noteq> 0 then Some (r, s1)
        else case VI_SetParam e p s1 of
          None \<Rightarrow> None
        | Some (r, s2) \<Rightarrow>
          if r \<noteq> 0 then Some (-1, s2)
          else Some (or_fail (CreateVi e p) (on_error (CreateIsp e p) (\<lambda>r. after (DestroyVi e p) (ret (-1))) (ret 0)) s2))"

definition StopVi :: "mpi_env \<Rightarrow> vi_config option \<Rightarrow> mop" where
  "StopVi e p = or_fail (DestroyIsp e p) (or_fail (DestroyVi e p) (or_fail (StopMIPI e p) (ret 0)))"

section \<open>Switching the mode\<close>

text \<open>
  The inner loop counts with the variable of the outer one and leaves 4 in it, so that only the first input that is used gets its
  attributes. \<open>None\<close>: no input is used, and a null pointer is followed.
\<close>

definition switch_attrs :: "mpi_env \<Rightarrow> vi_info \<Rightarrow> mop" where
  "switch_attrs e v =
     run_each (\<lambda>(i, p). if need_chn v i
       then on_error (call e (Isp (ISP_SetPubAttr p (isp_config v)))) (\<lambda>r. after (ISP_Stop e p) (ret (-1))) (ret 0)
       else ret 0) (pipes_of v)"

text \<open>The state is queried until the switch is finished; \<open>None\<close> is a loop that does not end.\<close>

partial_function (option) wait_switch :: "mpi_env \<Rightarrow> int \<Rightarrow> media \<Rightarrow> media option" where
  "wait_switch e p s =
     (let s1 = snd (call e (Isp (ISP_QueryInnerStateInfo p)) s)
      in if me_switched e (calls s1) then Some s1 else wait_switch e p s1)"

text \<open>The pipe whose state is queried: the last one whose attributes were set.\<close>

definition switch_pipe :: "vi_info \<Rightarrow> int" where
  "switch_pipe v =
     (let ps = filter (\<lambda>(i, p). need_chn v i) (pipes_of v) in if ps = [] then 0 else snd (last ps))"

definition SwitchISPMode :: "mpi_env \<Rightarrow> vi_config option \<Rightarrow> media \<Rightarrow> (int \<times> media) option" where
  "SwitchISPMode e p s =
     (case p of
        None \<Rightarrow> Some (-1, s)
      | Some c \<Rightarrow>
        case working c of
          [] \<Rightarrow> None
        | v # _ \<Rightarrow>
          case switch_attrs e v s of (r, s1) \<Rightarrow>
            if r \<noteq> 0 then Some (r, s1)
            else case wait_switch e (switch_pipe v) s1 of
              None \<Rightarrow> None
            | Some s2 \<Rightarrow> Some (after (StartPipe_Chn e v) (ret 0) s2))"

definition SwitchMode_StopVI :: "mpi_env \<Rightarrow> vi_config option \<Rightarrow> mop" where
  "SwitchMode_StopVI e p = or_fail (DestroyVi e p) (or_fail (StopMIPI e p) (ret 0))"

definition SwitchMode :: "mpi_env \<Rightarrow> vi_config option \<Rightarrow> media \<Rightarrow> (int \<times> media) option" where
  "SwitchMode e p s =
     (case or_fail (StartMIPI e p) (or_fail (ModeSwitch_CreateVi e p) (ret 0)) s of (r, s1) \<Rightarrow>
        if r \<noteq> 0 then Some (r, s1)
        else case SwitchISPMode e p s1 of
          None \<Rightarrow> None
        | Some (r, s2) \<Rightarrow> Some (if r \<noteq> 0 then -1 else 0, s2))"

text \<open>The sensors of the build, each with its own index as sensor, bus and receiver.\<close>

definition sensor_info :: "mpi_env \<Rightarrow> nat \<Rightarrow> vi_info \<Rightarrow> vi_info" where
  "sensor_info e i v =
     v\<lparr>vi_sns := me_sns e i, vi_sns_id := int i, vi_bus := int i, vi_mipi := int i, vi_multi := False, vi_vc_cfged := False,
       vi_snap := False, vi_double := False, vi_snap_pipe := 0, vi_snap_mode := VI_OFFLINE_VPSS_OFFLINE\<rparr>"

definition GetSensorInfo :: "mpi_env \<Rightarrow> vi_config \<Rightarrow> vi_config" where
  "GetSensorInfo e c = c\<lparr>vg_infos := [sensor_info e 0 (vg_infos c ! 0), sensor_info e 1 (vg_infos c ! 1)]\<rparr>"

section \<open>Image processors take and give back\<close>

lemma run_one: "run_all e same [c] = call e c"
  by (simp add: fun_eq_iff on_error_if ret_def same_def call_def Let_def)

lemma isp_stop_idle: "\<not> isp_pid s p \<Longrightarrow> ISP_Stop e p s = (0, s)"
  by (simp add: ISP_Stop_def)

lemma call_grows: "starts_only [c] \<Longrightarrow> held (snd (call e c s)) = (if fst (call e c s) = 0 then held s \<union> gains c else held s)"
  by (simp add: call_def Let_def call_ok_def)

lemma call_statics: "isp_pid (snd (call e c s)) = isp_pid s" "isp_sns (snd (call e c s)) = isp_sns s"
  by (simp_all add: call_def Let_def)

lemma isp_calls:
  assumes "starts_only cs" "\<not> isp_pid s p" "w = or_isp_stop (ISP_Stop e p) (map (call e) cs @ [ISP_Run e p]) s"
  shows "held s \<subseteq> held (snd w) \<and> held (snd w) \<subseteq> held s \<union> (gains_all cs \<union> {R_isp_thread p}) \<and> isp_sns (snd w) = isp_sns s \<and>
    (if fst w = 0 then held (snd w) = held s \<union> (gains_all cs \<union> {R_isp_thread p}) \<and> isp_pid (snd w) = (isp_pid s)(p := True)
     else isp_pid (snd w) = isp_pid s)"
  using assms
proof (induction cs arbitrary: s)
  case Nil
  obtain r s1 where c: "call e (Isp (ISP_thread_create p)) s = (r, s1)" by (metis surj_pair)
  have "held s1 = (if r = 0 then held s \<union> {R_isp_thread p} else held s)" "isp_pid s1 = isp_pid s" "isp_sns s1 = isp_sns s"
    using call_grows [of "Isp (ISP_thread_create p)" e s] call_statics [of e "Isp (ISP_thread_create p)" s] c by simp_all
  then show ?case using Nil by (cases "r = 0") (auto simp: on_error_if after_def ret_def ISP_Run_def c isp_stop_idle)
next
  case (Cons c cs)
  obtain r s1 where c: "call e c s = (r, s1)" by (metis surj_pair)
  have 1: "held s1 = (if r = 0 then held s \<union> gains c else held s)" "isp_pid s1 = isp_pid s" "isp_sns s1 = isp_sns s"
    using call_grows [of c e s] call_statics [of e c s] c Cons.prems(1) by simp_all
  have "w = (if r \<noteq> 0 then (-1, s1) else or_isp_stop (ISP_Stop e p) (map (call e) cs @ [ISP_Run e p]) s1)"
    using Cons.prems(2,3) 1 c by (simp add: on_error_if after_def ret_def isp_stop_idle)
  then show ?case using Cons.IH [of s1] Cons.prems(1,2) 1 by (cases "r = 0") auto
qed

definition isp_set :: "mpi_env \<Rightarrow> int \<Rightarrow> media_res set" where
  "isp_set e p = (if me_reg_cb e then {R_sensor p} else {}) \<union> {R_ae p, R_awb p, R_isp_mem p, R_isp p, R_isp_thread p}"

text \<open>A processor that runs: its thread is known, and the sensor registered with it exists.\<close>

definition isp_runs :: "mpi_env \<Rightarrow> media \<Rightarrow> int \<Rightarrow> bool" where
  "isp_runs e s p \<longleftrightarrow> isp_pid s p \<and> isp_sns s p < 2 \<and> sensor_driver e (isp_sns s p) \<noteq> None"

lemma isp_start:
  assumes "\<not> isp_pid s p" "w = or_isp_stop (ISP_Stop e p) (isp_steps e v i p) s"
  shows "held s \<subseteq> held (snd w) \<and> held (snd w) \<subseteq> held s \<union> isp_set e p \<and> (\<forall>q. q \<noteq> p \<longrightarrow> isp_sns (snd w) q = isp_sns s q) \<and>
    (if fst w = 0 then held (snd w) = held s \<union> isp_set e p \<and> isp_pid (snd w) = (isp_pid s)(p := True) \<and> isp_runs e (snd w) p
     else isp_pid (snd w) = isp_pid s)"
proof -
  define n where "n = u32 (vi_sns_id v)"
  define bus where "bus = (if vi_double v \<and> vi_snap_pipe v = p \<or> vi_multi v \<and> 0 < i then -1 else vi_bus v)"
  define cs where "cs = [Isp (SNS_set_bus p (s8 bus)), Isp (AE_Register p), Isp (AWB_Register p), Isp (ISP_MemInit p),
    Isp (ISP_SetPubAttr p (isp_config v)), Isp (ISP_Init p)]"
  define bad where "bad = (2 \<le> n \<or> sensor_driver e n = None)"
  define reg where "reg = (if me_reg_cb e then call e (Isp (SNS_register p)) else ret 0)"
  obtain r s1 where r: "reg s = (r, s1)" by (metis surj_pair)
  have 1: "held s1 = (if r = 0 then held s \<union> (if me_reg_cb e then {R_sensor p} else {}) else held s)" "isp_pid s1 = isp_pid s" "isp_sns s1 = isp_sns s"
    using call_grows [of "Isp (SNS_register p)" e s] call_statics [of e "Isp (SNS_register p)" s] r
    by (simp_all add: reg_def ret_def split: if_splits)
  define s2 where "s2 = s1\<lparr>isp_sns := (isp_sns s1)(p := n)\<rparr>"
  define t where "t = or_isp_stop (ISP_Stop e p) (map (call e) cs @ [ISP_Run e p]) s2"
  have steps: "isp_steps e v i p = Sensor_Regiter_callback e p n # ISP_BindSns e p n bus # drop 1 (map (call e) cs) @ [ISP_Run e p]"
    by (simp add: isp_steps_def n_def bus_def cs_def Let_def Aelib_Callback_def Awblib_Callback_def run_one del: run_all.simps)
  have w: "w = (if bad then (-1, s) else if r \<noteq> 0 then (-1, s1) else if \<not> me_bus_cb e then (-1, s2) else t)"
    using assms(1) 1 r unfolding assms(2) steps t_def
    by (auto simp: Sensor_Regiter_callback_def ISP_BindSns_def bad_def reg_def [symmetric] on_error_if after_def ret_def isp_stop_idle s2_def
        cs_def run_one simp del: run_all.simps)
  have s2: "held s2 = held s1" "isp_pid s2 = isp_pid s" "isp_sns s2 = (isp_sns s)(p := n)" using 1 by (simp_all add: s2_def)
  have cs: "starts_only cs" "gains_all cs = {R_ae p, R_awb p, R_isp_mem p, R_isp p}" by (auto simp: cs_def)
  have t: "held s2 \<subseteq> held (snd t) \<and> held (snd t) \<subseteq> held s2 \<union> (gains_all cs \<union> {R_isp_thread p}) \<and> isp_sns (snd t) = isp_sns s2 \<and>
    (if fst t = 0 then held (snd t) = held s2 \<union> (gains_all cs \<union> {R_isp_thread p}) \<and> isp_pid (snd t) = (isp_pid s2)(p := True)
     else isp_pid (snd t) = isp_pid s2)"
    by (rule isp_calls [OF cs(1) _ t_def]) (simp add: s2 assms(1))
  consider (bad) bad | (reg) "\<not> bad" "r \<noteq> 0" | (bus) "\<not> bad" "r = 0" "\<not> me_bus_cb e" | (all) "\<not> bad" "r = 0" "me_bus_cb e" by blast
  then show ?thesis
  proof cases
    case all
    then have "w = t" using w by simp
    then show ?thesis using t s2 1 all cs(2) by (auto simp: isp_set_def isp_runs_def bad_def split: if_splits)
  qed (use w 1 s2 in \<open>auto simp: isp_set_def\<close>)
qed

lemma call_stop: "stops_succeed e \<Longrightarrow> is_stop c \<Longrightarrow> gains c = {} \<Longrightarrow> held (snd (call e c s)) = held s - drops c"
  by (auto simp: call_def Let_def stops_succeed_def)

lemma isp_stop:
  assumes "stops_succeed e" "me_reg_cb e \<Longrightarrow> me_unreg_cb e" "isp_runs e s p" "w = ISP_Stop e p s"
    and "\<not> me_reg_cb e \<Longrightarrow> R_sensor p \<notin> held s"
  shows "held (snd w) = held s - isp_set e p \<and> isp_pid (snd w) = (isp_pid s)(p := False) \<and> isp_sns (snd w) = isp_sns s \<and> fst w = 0"
proof -
  define t where "t = snd (call e (Isp (AE_UnRegister p)) (snd (call e (Isp (AWB_UnRegister p)) (snd (call e (Isp (ISP_thread_join p))
    (snd (call e (Isp (ISP_Exit p)) s)))))))"
  have t: "held t = held s - {R_isp p, R_isp_mem p, R_isp_thread p, R_awb p, R_ae p}" "isp_pid t = isp_pid s" "isp_sns t = isp_sns s"
    unfolding t_def by (auto simp: call_statics call_stop [OF assms(1)])
  define u where "u = (if me_unreg_cb e then snd (call e (Isp (SNS_unregister p)) t) else t)"
  have u: "held u = (if me_unreg_cb e then held t - {R_sensor p} else held t)" "isp_pid u = isp_pid t" "isp_sns u = isp_sns t"
    unfolding u_def by (simp_all add: call_statics call_stop [OF assms(1)])
  have n: "\<not> 2 \<le> isp_sns t p" "sensor_driver e (isp_sns t p) \<noteq> None" using assms(3) by (simp_all add: t isp_runs_def)
  have "snd (Sensor_UnRegiter_callback e p t) = u"
    unfolding Sensor_UnRegiter_callback_def u_def Let_def run_one if_not_P [OF n(1)] if_not_P [OF n(2)] by simp
  then have "w = (0, u\<lparr>isp_pid := (isp_pid u)(p := False)\<rparr>)"
    using assms(3) unfolding assms(4)
    by (simp add: ISP_Stop_def isp_runs_def after_def Awblib_UnCallback_def Aelib_UnCallback_def run_one t_def [symmetric] del: run_all.simps)
  then show ?thesis using t u assms(2,5) by (auto simp: isp_set_def)
qed

text \<open>All pipes of all inputs that need a processor, as one list.\<close>

definition isp_jobs :: "vi_info list \<Rightarrow> (vi_info \<times> nat \<times> int) list" where
  "isp_jobs vs = concat (map (\<lambda>v. map (\<lambda>ip. (v, ip)) (filter (\<lambda>(i, p). need_chn v i) (pipes_of v))) vs)"

lemma run_each_append: "run_each f (xs @ ys) = on_error (run_each f xs) ret (run_each f ys)"
  by (induction xs) (simp_all add: fun_eq_iff on_error_if ret_def)

lemma run_each_map: "run_each f (map g xs) = run_each (\<lambda>x. f (g x)) xs"
  by (induction xs) simp_all

lemma run_each_filter: "run_each (\<lambda>x. if P x then f x else ret 0) xs = run_each f (filter P xs)"
  by (induction xs) (simp_all add: fun_eq_iff on_error_if ret_def)

lemma stop_each_append: "stop_each f (xs @ ys) = after (stop_each f xs) (stop_each f ys)"
  by (induction xs) (simp_all add: fun_eq_iff after_def ret_def)

lemma stop_each_map: "stop_each f (map g xs) = stop_each (\<lambda>x. f (g x)) xs"
  by (induction xs) simp_all

lemma stop_each_filter: "stop_each (\<lambda>x. if P x then f x else ret 0) xs = stop_each f (filter P xs)"
  by (induction xs) (simp_all add: fun_eq_iff after_def ret_def)

lemma fst_stop_each: "fst (stop_each f xs s) = 0"
  by (induction xs arbitrary: s) (simp_all add: after_def ret_def)

lemma StartIsp_jobs:
  "run_each (StartIsp e) vs = run_each (\<lambda>(v, i, p). or_isp_stop (ISP_Stop e p) (isp_steps e v i p)) (isp_jobs vs)"
proof (induction vs)
  case (Cons v vs)
  have "StartIsp e v = run_each (\<lambda>ip. if (case ip of (i, p) \<Rightarrow> need_chn v i)
      then (case ip of (i, p) \<Rightarrow> or_isp_stop (ISP_Stop e p) (isp_steps e v i p)) else ret 0) (pipes_of v)"
    unfolding StartIsp_def by (rule arg_cong [where f = "\<lambda>f. run_each f (pipes_of v)"]) (auto simp: fun_eq_iff)
  also have "\<dots> = run_each (\<lambda>(v, i, p). or_isp_stop (ISP_Stop e p) (isp_steps e v i p))
      (map (\<lambda>ip. (v, ip)) (filter (\<lambda>(i, p). need_chn v i) (pipes_of v)))"
    unfolding run_each_filter run_each_map by simp
  finally show ?case by (simp add: isp_jobs_def run_each_append Cons.IH [unfolded isp_jobs_def])
qed (simp add: isp_jobs_def)

lemma stop_each_then: "on_error (stop_each f xs) ret k = after (stop_each f xs) k"
  by (simp add: fun_eq_iff on_error_if after_def fst_stop_each)

lemma StopIsp_jobs: "run_each (StopIsp e) vs = stop_each (\<lambda>(v, i, p). ISP_Stop e p) (isp_jobs vs)"
proof (induction vs)
  case (Cons v vs)
  have "StopIsp e v = stop_each (\<lambda>ip. if (case ip of (i, p) \<Rightarrow> need_chn v i)
      then (case ip of (i, p) \<Rightarrow> ISP_Stop e p) else ret 0) (pipes_of v)"
    unfolding StopIsp_def by (rule arg_cong [where f = "\<lambda>f. stop_each f (pipes_of v)"]) (auto simp: fun_eq_iff)
  also have "\<dots> = stop_each (\<lambda>(v, i, p). ISP_Stop e p) (map (\<lambda>ip. (v, ip)) (filter (\<lambda>(i, p). need_chn v i) (pipes_of v)))"
    unfolding stop_each_filter stop_each_map by simp
  finally show ?case by (simp add: isp_jobs_def stop_each_append Cons.IH [unfolded isp_jobs_def] stop_each_then)
qed (simp add: isp_jobs_def)

definition job_pipes :: "vi_info list \<Rightarrow> int list" where
  "job_pipes vs = map (\<lambda>(v, i, p). p) (isp_jobs vs)"

lemma isp_start_jobs:
  assumes "distinct (map (\<lambda>(v, i, p). p) js)" "\<forall>(v, i, p) \<in> set js. \<not> isp_pid s p"
    and "w = run_each (\<lambda>(v, i, p). or_isp_stop (ISP_Stop e p) (isp_steps e v i p)) js s"
  shows "held s \<subseteq> held (snd w) \<and> held (snd w) \<subseteq> held s \<union> \<Union> ((\<lambda>(v, i, p). isp_set e p) ` set js) \<and>
    (\<forall>q. q \<notin> (\<lambda>(v, i, p). p) ` set js \<longrightarrow> isp_pid (snd w) q = isp_pid s q \<and> isp_sns (snd w) q = isp_sns s q) \<and>
    (fst w = 0 \<longrightarrow> held (snd w) = held s \<union> \<Union> ((\<lambda>(v, i, p). isp_set e p) ` set js) \<and>
      (\<forall>q \<in> (\<lambda>(v, i, p). p) ` set js. isp_runs e (snd w) q))"
  using assms
proof (induction js arbitrary: s w)
  case Nil
  then show ?case by (simp add: ret_def)
next
  case (Cons j js)
  obtain v i p where j: "j = (v, i, p)" by (metis surj_pair)
  define w1 where "w1 = or_isp_stop (ISP_Stop e p) (isp_steps e v i p) s"
  have "\<not> isp_pid s p" using Cons.prems(2) by (simp add: j)
  note 1 = isp_start [OF this w1_def]
  have p: "p \<notin> (\<lambda>(v, i, p). p) ` set js" "distinct (map (\<lambda>(v, i, p). p) js)" using Cons.prems(1) by (simp_all add: j)
  have w: "w = (if fst w1 = 0 then run_each (\<lambda>(v, i, p). or_isp_stop (ISP_Stop e p) (isp_steps e v i p)) js (snd w1) else w1)"
    unfolding Cons.prems(3) j by (simp add: on_error_if ret_def w1_def)
  show ?case
  proof (cases "fst w1 = 0")
    case True
    then have pid: "isp_pid (snd w1) = (isp_pid s)(p := True)" "isp_runs e (snd w1) p" "held (snd w1) = held s \<union> isp_set e p" using 1 by simp_all
    have "\<forall>(v, i, q) \<in> set js. \<not> isp_pid (snd w1) q"
      using Cons.prems(2) p(1) unfolding pid by (auto simp: image_iff split: prod.splits)
    note 2 = Cons.IH [OF p(2) this refl]
    have "w = run_each (\<lambda>(v, i, p). or_isp_stop (ISP_Stop e p) (isp_steps e v i p)) js (snd w1)" using w True by simp
    note 2 = 2 [folded this]
    have "isp_runs e (snd w) p" if "fst w = 0" using 2 p(1) pid(2) by (auto simp: isp_runs_def)
    then show ?thesis using 1 2 pid by (auto simp: j)
  next
    case False
    then have "w = w1" using w by simp
    then show ?thesis using 1 False by (auto simp: j)
  qed
qed

lemma isp_stop_jobs:
  assumes "stops_succeed e" "me_reg_cb e \<Longrightarrow> me_unreg_cb e" "distinct (map (\<lambda>(v, i, p). p) js)" "\<forall>(v, i, p) \<in> set js. isp_runs e s p"
    and "\<not> me_reg_cb e \<Longrightarrow> \<forall>p. R_sensor p \<notin> held s" "w = stop_each (\<lambda>(v, i, p). ISP_Stop e p) js s"
  shows "held (snd w) = held s - \<Union> ((\<lambda>(v, i, p). isp_set e p) ` set js) \<and>
    (\<forall>q. isp_pid (snd w) q \<longleftrightarrow> isp_pid s q \<and> q \<notin> (\<lambda>(v, i, p). p) ` set js)"
  using assms(3-)
proof (induction js arbitrary: s w)
  case Nil
  then show ?case by (simp add: ret_def)
next
  case (Cons j js)
  obtain v i p where j: "j = (v, i, p)" by (metis surj_pair)
  have run: "isp_runs e s p" using Cons.prems(2) by (simp add: j)
  have sen: "\<not> me_reg_cb e \<Longrightarrow> R_sensor p \<notin> held s" using Cons.prems(3) by blast
  define s1 where "s1 = snd (ISP_Stop e p s)"
  note 1 = isp_stop [OF assms(1,2) run refl sen, folded s1_def]
  have p: "p \<notin> (\<lambda>(v, i, p). p) ` set js" "distinct (map (\<lambda>(v, i, p). p) js)" using Cons.prems(1) by (simp_all add: j)
  have w: "w = stop_each (\<lambda>(v, i, p). ISP_Stop e p) js s1" unfolding Cons.prems(4) j by (simp add: after_def s1_def)
  have "\<forall>(v, i, q) \<in> set js. isp_runs e s1 q"
  proof (clarify)
    fix v i q assume q: "(v, i, q) \<in> set js"
    then have "q \<noteq> p" using p(1) by force
    moreover have "isp_runs e s q" using Cons.prems(2) q by auto
    ultimately show "isp_runs e s1 q" using 1 by (simp add: isp_runs_def)
  qed
  moreover have "\<not> me_reg_cb e \<Longrightarrow> \<forall>p. R_sensor p \<notin> held s1" using Cons.prems(3) 1 by auto
  ultimately show ?case using Cons.IH [OF p(2) _ _ w] 1 by (auto simp: j)
qed

section \<open>The whole video input\<close>

lemma quiet_or: "quiet a \<Longrightarrow> quiet b \<Longrightarrow> quiet (or_fail a b)" "quiet a \<Longrightarrow> quiet u \<Longrightarrow> quiet b \<Longrightarrow> quiet (or_stop a u b)"
  by (simp_all add: or_fail_def or_stop_def quiet_seq quietI)

lemma quiet_run_each: "(\<And>x. quiet (f x)) \<Longrightarrow> quiet (run_each f xs)"
  by (induction xs) (simp_all add: quiet_seq quietI)

lemma quiet_stop_each: "(\<And>x. quiet (f x)) \<Longrightarrow> quiet (stop_each f xs)"
  by (induction xs) (simp_all add: quiet_seq quietI)

lemma quiet_unwinding: "(\<And>x. quiet (f x)) \<Longrightarrow> (\<And>x. quiet (g x)) \<Longrightarrow> quiet (start_unwinding f g done xs)"
  by (induction xs arbitrary: "done") (simp_all add: quiet_or quiet_stop_each quietI)

lemma quiet_with_mipi: "quiet a \<Longrightarrow> quiet (with_mipi e a)"
  by (auto simp: quiet_def with_mipi_def call_statics split: prod.split) (metis call_statics fst_conv snd_conv)+

lemma quiet_with_cfg: "(\<And>c. quiet (f c)) \<Longrightarrow> quiet (with_cfg p f)"
  by (cases p) (simp_all add: with_cfg_def quietI)

lemmas quiet_ops = quietI quiet_seq quiet_run quiet_or quiet_run_each quiet_stop_each quiet_unwinding quiet_with_mipi quiet_with_cfg

lemma quiet_MIPI: "quiet (StartMIPI e p)" "quiet (StopMIPI e p)"
  unfolding StartMIPI_def StopMIPI_def SetMipiHsMode_def EnableMipiClock_def DisableMipiClock_def ResetMipi_def UnresetMipi_def
    EnableSensorClock_def DisableSensorClock_def ResetSensor_def UnresetSensor_def SetMipiAttr_def each_mipi_def each_sensor_def
  by (intro quiet_ops)+

lemma quiet_start_pipe: "quiet (start_pipe e v ip)"
  by (auto simp: start_pipe_def stop_low_def StopSingleViPipe_def Let_def simp del: run_all.simps intro!: quiet_ops split: prod.split)

lemma quiet_StopViPipe: "quiet (StopViPipe e v)"
  unfolding StopViPipe_def StopSingleViPipe_def by (intro quiet_ops) (simp add: quiet_run split: prod.split del: run_all.simps)

lemma quiet_StartViChn: "quiet (StartViChn e v)" "quiet (StopViChn e v)"
  unfolding StartViChn_def StopViChn_def by (intro quiet_ops; auto simp: quiet_run quietI simp del: run_all.simps split: prod.split)+

lemma quiet_Vi: "quiet (CreateVi e p)" "quiet (DestroyVi e p)"
  unfolding CreateVi_def DestroyVi_def CreateSingleVi_def DestroySingleVi_def VI_StartDev_def VI_StopDev_def BindPipeDev_def StartViPipe_def
  by (intro quiet_ops quiet_start_pipe quiet_StopViPipe quiet_StartViChn)+

definition isp_all :: "mpi_env \<Rightarrow> vi_config \<Rightarrow> media_res set" where
  "isp_all e c = \<Union> ((\<lambda>(v, i, p). isp_set e p) ` set (isp_jobs (working c)))"

definition vi_all :: "mpi_env \<Rightarrow> vi_config \<Rightarrow> media_res set" where
  "vi_all e c = receiver_set c \<union> \<Union> (input_set ` set (working c)) \<union> isp_all e c"

lemma SetParam_keeps:
  assumes "VI_SetParam e (Some c) s = Some (r, s')"
  shows "held s' = held s \<and> isp_pid s' = isp_pid s \<and> isp_sns s' = isp_sns s"
proof -
  obtain r1 s1 where 1: "call e (Sys SYS_GetVIVPSSMode) s = (r1, s1)" by (metis surj_pair)
  have s1: "held s1 = held s" "isp_pid s1 = isp_pid s" "isp_sns s1 = isp_sns s"
    using call_grows [of "Sys SYS_GetVIVPSSMode" e s] call_statics [of e "Sys SYS_GetVIVPSSMode" s] 1 by (simp_all split: if_splits)
  have 2: "held (snd (or_fail (call e (Sys (SYS_SetVIVPSSMode ms))) (ret 0) s1)) = held s1"
    "isp_pid (snd (or_fail (call e (Sys (SYS_SetVIVPSSMode ms))) (ret 0) s1)) = isp_pid s1"
    "isp_sns (snd (or_fail (call e (Sys (SYS_SetVIVPSSMode ms))) (ret 0) s1)) = isp_sns s1" for ms
    using call_grows [of "Sys (SYS_SetVIVPSSMode ms)" e s1] call_statics [of e "Sys (SYS_SetVIVPSSMode ms)" s1]
    by (simp_all add: or_fail_def on_error_if ret_def split: if_splits)
  show ?thesis using assms 1 s1 2 by (auto simp: VI_SetParam_def split: if_splits; metis snd_conv)
qed

lemma receiver_apart: "receiver_set c \<inter> (\<Union> (input_set ` set vs) \<union> isp_all e c) = {}" "R_mipi_fd \<notin> \<Union> (input_set ` set vs) \<union> isp_all e c"
  by (auto simp: receiver_set_def input_set_def pipes_chns_def pipe_set_def chn_set_def isp_all_def isp_set_def split: if_splits)

lemma StopVi_after:
  assumes "stops_succeed e" "me_reg_cb e" "me_unreg_cb e" "distinct (job_pipes (working c))" "R_mipi_fd \<notin> held s"
    and "\<forall>(v, i, p) \<in> set (isp_jobs (working c)). isp_runs e s p"
  shows "fst (StopVi e (Some c) s) = 0 \<and> held (snd (StopVi e (Some c) s)) = held s - vi_all e c \<and>
    (\<forall>q. isp_pid (snd (StopVi e (Some c) s)) q \<longleftrightarrow> isp_pid s q \<and> q \<notin> set (job_pipes (working c)))"
proof -
  let ?V = "working c"
  define s1 where "s1 = snd (stop_each (\<lambda>(v, i, p). ISP_Stop e p) (isp_jobs ?V) s)"
  note 1 = isp_stop_jobs [OF assms(1) assms(3) assms(4) [unfolded job_pipes_def] assms(6) _ refl, folded s1_def]
  have 1: "held s1 = held s - isp_all e c" "\<And>q. isp_pid s1 q \<longleftrightarrow> isp_pid s q \<and> q \<notin> set (job_pipes ?V)"
    using 1 assms(2) by (auto simp: isp_all_def job_pipes_def)
  have isp: "DestroyIsp e (Some c) s = (0, s1)"
    by (simp add: DestroyIsp_def with_cfg_def or_fail_def StopIsp_jobs on_error_if fst_stop_each ret_def s1_def)
  define s2 where "s2 = snd (stop_each (DestroySingleVi e) ?V s1)"
  have 2: "held s2 = held s1 - \<Union> (input_set ` set ?V)" using vi_inputs.frees_list [OF assms(1), of ?V] by (simp add: s2_def frees_def)
  have vi: "DestroyVi e (Some c) s1 = (0, s2)"
    by (simp add: DestroyVi_def with_cfg_def s2_def prod_eq_iff fst_stop_each)
  have q2: "isp_pid s2 = isp_pid s1" using quiet_Vi(2) [of e "Some c"] vi by (simp add: quiet_def) (metis snd_conv)
  define s3 where "s3 = snd (StopMIPI e (Some c) s2)"
  have 3: "StopMIPI e (Some c) s2 = (0, s3)" "held s3 = held s2 - receiver_set c"
    using clears_StopMIPI [OF assms(1), of c, unfolded clears_def, rule_format, of s2] 1 2 assms(5) by (auto simp: s3_def prod_eq_iff)
  have q3: "isp_pid s3 = isp_pid s2" using quiet_MIPI(2) [of e "Some c"] by (simp add: quiet_def s3_def)
  have "StopVi e (Some c) s = (0, s3)"
    by (simp add: StopVi_def or_fail_def on_error_if isp vi 3 ret_def)
  then show ?thesis using 1 2 3(2) q2 q3 by (auto simp: vi_all_def)
qed

text \<open>Starting the processors after the inputs: all of them, or the inputs are given back.\<close>

lemma start_inputs:
  assumes "stops_succeed e" "list_all plain (working c)" "distinct (job_pipes (working c))"
    and "held s \<inter> (\<Union> (input_set ` set (working c)) \<union> isp_all e c) = {}" "\<forall>p. \<not> isp_pid s p"
    and "w = or_fail (CreateVi e (Some c)) (on_error (CreateIsp e (Some c)) (\<lambda>r. after (DestroyVi e (Some c)) (ret (-1))) (ret 0)) s"
  shows "if fst w = 0 then held (snd w) = held s \<union> \<Union> (input_set ` set (working c)) \<union> isp_all e c \<and>
      (\<forall>(v, i, p) \<in> set (isp_jobs (working c)). isp_runs e (snd w) p) \<and>
      (\<forall>q. q \<notin> set (job_pipes (working c)) \<longrightarrow> \<not> isp_pid (snd w) q)
    else held s \<subseteq> held (snd w) \<and> held (snd w) \<subseteq> held s \<union> \<Union> (pipes_chns ` set (working c)) \<union> isp_all e c"
proof -
  let ?V = "working c" and ?I = "\<Union> (input_set ` set (working c))"
  define c1 where "c1 = CreateVi e (Some c) s"
  have c1: "c1 = start_unwinding (CreateSingleVi e) (DestroySingleVi e) [] ?V s" by (simp add: c1_def CreateVi_def with_cfg_def)
  have hI: "held s \<inter> ?I = {}" using assms(4) by blast
  note create = vi_inputs.all_or_leaks [OF assms(1,2) hI, folded c1, unfolded Let_def]
  have pid: "isp_pid (snd c1) = isp_pid s" "isp_sns (snd c1) = isp_sns s"
    using quiet_Vi(1) [of e "Some c"] by (simp_all add: quiet_def c1_def)
  define c2 where "c2 = run_each (StartIsp e) ?V (snd c1)"
  have c2: "c2 = run_each (\<lambda>(v, i, p). or_isp_stop (ISP_Stop e p) (isp_steps e v i p)) (isp_jobs ?V) (snd c1)"
    by (simp add: c2_def StartIsp_jobs)
  have isp: "CreateIsp e (Some c) (snd c1) = (if fst c2 = 0 then 0 else -1, snd c2)"
    by (simp add: CreateIsp_def with_cfg_def or_fail_def on_error_if ret_def c2_def)
  have idle: "\<forall>(v, i, p) \<in> set (isp_jobs ?V). \<not> isp_pid (snd c1) p" using assms(5) pid by auto
  note jobs = isp_start_jobs [OF assms(3) [unfolded job_pipes_def] idle c2]
  define c3 where "c3 = DestroyVi e (Some c) (snd c2)"
  have c3: "held (snd c3) = held (snd c2) - ?I"
    using vi_inputs.frees_list [OF assms(1), of ?V] by (simp add: c3_def DestroyVi_def with_cfg_def frees_def)
  have w: "w = (if fst c1 \<noteq> 0 then (-1, snd c1) else if fst c2 \<noteq> 0 then (-1, snd c3) else (0, snd c2))"
    unfolding assms(6) by (simp add: or_fail_def on_error_if ret_def after_def c1_def [symmetric] isp c3_def)
  have isp_all: "isp_all e c = \<Union> ((\<lambda>(v, i, p). isp_set e p) ` set (isp_jobs ?V))" by (simp add: isp_all_def)
  consider (input) "fst c1 \<noteq> 0" | (isp) "fst c1 = 0" "fst c2 \<noteq> 0" | (all) "fst c1 = 0" "fst c2 = 0" by blast
  then show ?thesis
  proof cases
    case input
    then show ?thesis using w create by auto
  next
    case isp
    then have "held (snd c1) = held s \<union> ?I" "held (snd c1) \<subseteq> held (snd c2)" "held (snd c2) \<subseteq> held (snd c1) \<union> isp_all e c"
      using create jobs isp_all by auto
    then show ?thesis using isp w c3 hI by auto
  next
    case all
    then have "held (snd c1) = held s \<union> ?I" "held (snd c2) = held (snd c1) \<union> isp_all e c"
      "\<forall>q \<in> (\<lambda>(v, i, p). p) ` set (isp_jobs ?V). isp_runs e (snd c2) q"
      "\<forall>q. q \<notin> (\<lambda>(v, i, p). p) ` set (isp_jobs ?V) \<longrightarrow> isp_pid (snd c2) q = isp_pid (snd c1) q"
      using create jobs isp_all by auto
    then show ?thesis using all w assms(5) pid by (auto simp: job_pipes_def)
  qed
qed

text \<open>
  C31. Starting and stopping the video input. When giving back succeeds and the sensor drivers have their callbacks, no input takes
  double-pipe snapshots and no pipe is used twice: a start (\<open>SAMPLE_COMM_VI_StartVi\<close>) that succeeds holds the clocks of the receivers, the device, the pipes and the channels
  of every input used, and a running processor for each pipe that needs one, and \<open>SAMPLE_COMM_VI_StopVi\<close> succeeds and gives
  exactly that back, with no thread left. A start that fails leaves the device of no input behind; what can be left is clocks, pipes
  and channels, and the processors' registrations.
\<close>

theorem VI_start_stop:
  assumes "stops_succeed e" "me_reg_cb e" "me_unreg_cb e" "list_all plain (working c)" "distinct (job_pipes (working c))"
    and "held s \<inter> vi_all e c = {}" "R_mipi_fd \<notin> held s" "\<forall>p. \<not> isp_pid s p" "StartVi e (Some c) s = Some (r, s1)"
  shows "if r = 0 then held s1 = held s \<union> vi_all e c \<and> (\<forall>p. isp_pid s1 p \<longleftrightarrow> p \<in> set (job_pipes (working c))) \<and>
      fst (StopVi e (Some c) s1) = 0 \<and> held (snd (StopVi e (Some c) s1)) = held s \<and> (\<forall>p. \<not> isp_pid (snd (StopVi e (Some c) s1)) p)
    else held s \<subseteq> held s1 \<and> held s1 \<subseteq> held s \<union> receiver_set c \<union> \<Union> (pipes_chns ` set (working c)) \<union> isp_all e c"
proof -
  let ?V = "working c" and ?I = "\<Union> (input_set ` set (working c))"
  define m where "m = or_fail (StartMIPI e (Some c)) (ret 0) s"
  have "adds (or_fail (StartMIPI e (Some c)) (ret 0)) (receiver_set c)"
    using adds_or_fail [OF adds_StartMIPI [OF assms(1), of c] adds_ret] by simp
  note m = this [unfolded adds_def, rule_format, OF assms(7), folded m_def]
  have mq: "isp_pid (snd m) = isp_pid s"
    using quiet_or(1) [OF quiet_MIPI(1) [of e "Some c"] quietI(2) [of 0]] by (simp add: quiet_def m_def)
  show ?thesis
  proof (cases "fst m = 0")
    case False
    then have "r = fst m" "s1 = snd m" using assms(9) by (simp_all add: StartVi_def m_def split: prod.splits)
    then show ?thesis using m False by auto
  next
    case True
    obtain r2 s2 where 2: "VI_SetParam e (Some c) (snd m) = Some (r2, s2)"
      using assms(9) True by (auto simp: StartVi_def m_def split: prod.splits option.splits)
    have s2: "held s2 = held (snd m)" "isp_pid s2 = isp_pid s" "R_mipi_fd \<notin> held s2" "held (snd m) = held s \<union> receiver_set c"
      using SetParam_keeps [OF 2] mq m True by auto
    show ?thesis
    proof (cases "r2 = 0")
      case False
      then have "r = -1" "s1 = s2" using assms(9) True 2 by (simp_all add: StartVi_def m_def split: prod.splits)
      then show ?thesis using m s2 by auto
    next
      case r2: True
      define w where "w = or_fail (CreateVi e (Some c)) (on_error (CreateIsp e (Some c)) (\<lambda>r. after (DestroyVi e (Some c)) (ret (-1))) (ret 0)) s2"
      have w: "r = fst w" "s1 = snd w" using assms(9) True 2 r2 by (simp_all add: StartVi_def m_def w_def split: prod.splits)
      have disj: "held s2 \<inter> (?I \<union> isp_all e c) = {}"
        using receiver_apart(1) [of c ?V e] assms(6) s2 by (auto simp: vi_all_def)
      have idle: "\<forall>p. \<not> isp_pid s2 p" using s2 assms(8) by simp
      note start = start_inputs [OF assms(1,4,5) disj idle w_def, folded w]
      show ?thesis
      proof (cases "r = 0")
        case True
        then have s1: "held s1 = held s2 \<union> ?I \<union> isp_all e c" "\<forall>(v, i, p) \<in> set (isp_jobs ?V). isp_runs e s1 p"
          "\<forall>q. q \<notin> set (job_pipes ?V) \<longrightarrow> \<not> isp_pid s1 q" using start by simp_all
        have pids: "isp_pid s1 p \<longleftrightarrow> p \<in> set (job_pipes ?V)" for p
          using s1(2,3) by (auto simp: job_pipes_def isp_runs_def)
        have fd: "R_mipi_fd \<notin> held s1" using s1(1) s2(3) receiver_apart(2) [of ?V e c] by blast
        have "held s1 = held s \<union> vi_all e c" using s1(1) s2(1,4) by (auto simp: vi_all_def)
        then show ?thesis using True pids StopVi_after [OF assms(1-3,5) fd s1(2)] assms(6) by auto
      next
        case False
        then show ?thesis using start s2 by auto
      qed
    qed
  qed
qed

text \<open>One sensor on its own receiver, one pipe through memory.\<close>

definition one_sensor :: vi_config where
  "one_sensor =
     \<lparr>vg_infos = [\<lparr>vi_sns = SONY_IMX327_MIPI_2M_30FPS_12BIT, vi_sns_id = 0, vi_bus = 0, vi_mipi = 0, vi_dev = 0, vi_wdr = WDR_MODE_NONE,
        vi_pipes = [0, -1, -1, -1], vi_mode = VI_OFFLINE_VPSS_OFFLINE, vi_multi = False, vi_vc_cfged = False, vi_vcs = [0, 0, 0, 0],
        vi_isp_bypass = False, vi_fmt = YVU_SEMIPLANAR_420, vi_chn = 0, vi_chn_fmt = YVU_SEMIPLANAR_420, vi_chn_range = DYNAMIC_RANGE_SDR8,
        vi_chn_video = VIDEO_FORMAT_LINEAR, vi_chn_compress = COMPRESS_MODE_NONE, vi_snap = False, vi_double = False, vi_snap_pipe = 0,
        vi_snap_mode = VI_OFFLINE_VPSS_OFFLINE\<rparr>], vg_ids = [0]\<rparr>"

lemma one_sensor_pipes: "working one_sensor = [vg_infos one_sensor ! 0]" "pipes_of (vg_infos one_sensor ! 0) = [(0, 0)]"
  "vi_wdr (vg_infos one_sensor ! 0) = WDR_MODE_NONE" "plain (vg_infos one_sensor ! 0)"
  by (simp_all add: working_def one_sensor_def pipes_of_def plain_def upt_rec numeral_nat)

lemma calm_call: "call calm c s = (0, s\<lparr>calls := calls s @ [c], held := held s \<union> gains c - drops c\<rparr>)"
  by (simp add: call_def Let_def call_ok_def)

lemma calm_run_all: "fst (run_all calm f cs s) = 0"
  by (induction cs arbitrary: s) (simp_all add: on_error_if calm_call ret_def)

lemma calm_drivers: "me_reg_cb calm" "me_unreg_cb calm" "me_bus_cb calm" "sensor_driver calm n = Some stSnsImx327Obj"
  by (simp_all add: sensor_driver_def calm_def)

lemma calm_with_mipi: "fst (body (snd (call calm (Mipi MIPI_open) s))) = 0 \<Longrightarrow> fst (with_mipi calm body s) = 0"
  by (simp add: with_mipi_def calm_call split_beta)

lemma calm_MIPI: "fst (or_fail (StartMIPI calm (Some c)) (ret 0) s) = 0"
proof -
  have 1: "fst (SetMipiHsMode calm m t) = 0" "fst (EnableMipiClock calm (Some c) t) = 0" "fst (ResetMipi calm (Some c) t) = 0"
    "fst (EnableSensorClock calm t) = 0" "fst (ResetSensor calm t) = 0" "fst (SetMipiAttr calm (Some c) t) = 0"
    "fst (UnresetMipi calm (Some c) t) = 0" "fst (UnresetSensor calm t) = 0" for m t
    unfolding mipi_ops option.case by (rule calm_with_mipi, rule calm_run_all)+
  show ?thesis by (simp add: StartMIPI_def with_cfg_def or_fail_def on_error_if 1 ret_def)
qed

lemma one_sensor_starts: "\<exists>s1. StartVi calm (Some one_sensor) nothing_started = Some (0, s1)"
proof -
  define s0 where "s0 = snd (or_fail (StartMIPI calm (Some one_sensor)) (ret 0) nothing_started)"
  have 0: "or_fail (StartMIPI calm (Some one_sensor)) (ret 0) nothing_started = (0, s0)"
    using calm_MIPI [of one_sensor nothing_started] by (simp add: s0_def prod_eq_iff)
  have m: "vi_param (working one_sensor) (me_modes calm tr) = Some (replicate 4 VI_OFFLINE_VPSS_OFFLINE)" for tr
    by (simp add: working_def one_sensor_def calm_def vi_param_step_def set_mode_def numeral_nat)
  obtain s1 where 1: "VI_SetParam calm (Some one_sensor) s0 = Some (0, s1)"
    by (auto simp: VI_SetParam_def calm_call m or_fail_def on_error_if ret_def)
  let ?v = "vg_infos one_sensor ! 0"
  have c: "fst (start_unwinding (CreateSingleVi calm) (DestroySingleVi calm) [] [?v] t) = 0" for t
    using one_sensor_pipes(4)
    by (simp add: CreateSingleVi_def or_stop_def on_error_if ret_def VI_StartDev_def BindPipeDev_def StartViPipe_def StartViChn_def one_sensor_pipes(2)
        calm_call start_pipe_def plain_def Let_def)
  have i: "fst (run_each (StartIsp calm) [?v] t) = 0" for t
  proof -
    have "u32 (vi_sns_id ?v) = 0" by (simp add: one_sensor_def u32_def)
    then have "fst (StartIsp calm ?v t) = 0" for t
      unfolding StartIsp_def one_sensor_pipes(2)
      by (simp add: need_chn_def isp_steps_def Let_def on_error_if ret_def calm_call Sensor_Regiter_callback_def calm_drivers
          ISP_BindSns_def Aelib_Callback_def Awblib_Callback_def ISP_Run_def same_def)
    then show ?thesis by (simp add: on_error_if ret_def)
  qed
  have "fst (or_fail (CreateVi calm (Some one_sensor)) (on_error (CreateIsp calm (Some one_sensor))
      (\<lambda>r. after (DestroyVi calm (Some one_sensor)) (ret (-1))) (ret 0)) s1) = 0"
    unfolding or_fail_def on_error_if CreateVi_def CreateIsp_def with_cfg_def option.case one_sensor_pipes(1) by (simp only: c i ret_def) simp
  then show ?thesis unfolding StartVi_def 0 by (simp add: 1 prod_eq_iff)
qed

lemma VI_start_stop_witness:
  "\<exists>s1. StartVi calm (Some one_sensor) nothing_started = Some (0, s1) \<and> R_isp_thread 0 \<in> held s1 \<and> R_vi_chn 0 0 \<in> held s1 \<and>
     held (snd (StopVi calm (Some one_sensor) s1)) = {}"
proof -
  obtain s1 where 1: "StartVi calm (Some one_sensor) nothing_started = Some (0, s1)" using one_sensor_starts by blast
  have jobs: "isp_jobs (working one_sensor) = [(vg_infos one_sensor ! 0, 0, 0)]"
    by (simp add: isp_jobs_def one_sensor_pipes need_chn_def)
  have pre: "list_all plain (working one_sensor)" "distinct (job_pipes (working one_sensor))" "held nothing_started \<inter> vi_all calm one_sensor = {}"
    "R_mipi_fd \<notin> held nothing_started" "\<forall>p. \<not> isp_pid nothing_started p"
    unfolding job_pipes_def jobs nothing_started_def using one_sensor_pipes by simp_all
  have "R_isp_thread 0 \<in> isp_all calm one_sensor" unfolding isp_all_def jobs by (simp add: isp_set_def)
  moreover have "chn_in_memory (vg_infos one_sensor ! 0)" "vi_chn (vg_infos one_sensor ! 0) = 0" by (simp_all add: one_sensor_def chn_in_memory_def)
  then have "R_vi_chn 0 0 \<in> \<Union> (input_set ` set (working one_sensor))"
    by (simp add: one_sensor_pipes input_set_def pipes_chns_def chn_set_def need_chn_def)
  ultimately have "{R_isp_thread 0, R_vi_chn 0 0} \<subseteq> vi_all calm one_sensor" by (simp add: vi_all_def)
  then show ?thesis
    using VI_start_stop [OF calm_stops(1) calm_drivers(1,2) pre 1] 1 by (simp add: nothing_started_def)
qed

section \<open>What is not as meant\<close>

text \<open>Without a thread \<open>ISP_Stop\<close> does nothing, so a processor that fails before its thread runs keeps its registrations and its memory.\<close>

lemma isp_failure_leaves:
  assumes "\<not> isp_pid s p" "fst (or_isp_stop (ISP_Stop e p) (isp_steps e v i p) s) \<noteq> 0"
  shows "held s \<subseteq> held (snd (or_isp_stop (ISP_Stop e p) (isp_steps e v i p) s))"
  using isp_start [OF assms(1) refl, of e v i] by blast

lemma isp_failure_example:
  "\<exists>e s. stops_succeed e \<and> held s = {} \<and> fst (StartIsp e (vg_infos one_sensor ! 0) s) = -1 \<and>
     held (snd (StartIsp e (vg_infos one_sensor ! 0) s)) = {R_sensor 0, R_ae 0, R_awb 0}"
proof (intro exI conjI)
  let ?e = "calm\<lparr>me_ret := \<lambda>tr. if last tr = Isp (ISP_MemInit 0) then 1 else 0\<rparr>"
  show "stops_succeed ?e" by (auto simp: stops_succeed_def call_ok_def)
  have u: "u32 (vi_sns_id (vg_infos one_sensor ! 0)) = 0" by (simp add: one_sensor_def u32_def)
  have d: "me_reg_cb ?e" "me_bus_cb ?e" "sensor_driver ?e n = Some stSnsImx327Obj" for n by (simp_all add: sensor_driver_def calm_def)
  have c: "call ?e c s = (if c = Isp (ISP_MemInit 0) then 1 else 0,
      s\<lparr>calls := calls s @ [c], held := if c = Isp (ISP_MemInit 0) then held s else held s \<union> gains c - drops c\<rparr>)" for c s
    by (simp add: call_def Let_def call_ok_def)
  have run: "StartIsp ?e (vg_infos one_sensor ! 0) nothing_started =
      run_each (\<lambda>(i, p). or_isp_stop (ISP_Stop ?e p) (isp_steps ?e (vg_infos one_sensor ! 0) i p)) [(0, 0)] nothing_started"
    by (simp add: StartIsp_def one_sensor_pipes need_chn_def)
  show "fst (StartIsp ?e (vg_infos one_sensor ! 0) nothing_started) = -1" "held nothing_started = {}"
    "held (snd (StartIsp ?e (vg_infos one_sensor ! 0) nothing_started)) = {R_sensor 0, R_ae 0, R_awb 0}"
    unfolding run
    by (simp_all add: isp_steps_def u Let_def on_error_if ret_def after_def c d Sensor_Regiter_callback_def ISP_BindSns_def Aelib_Callback_def
        Awblib_Callback_def same_def isp_stop_idle nothing_started_def insert_commute del: fun_upd_apply)
qed

text \<open>When the snapshot pipe at the second place cannot be created, pipe 0 is stopped, whoever has started it.\<close>

lemma stop_low_stops_others:
  "stops_succeed e \<Longrightarrow> held (snd (stop_low e 1 s)) = held s - {R_pipe 0, R_pipe_on 0}"
  using frees_run_all [of e "[Vi (VI_StopPipe 0), Vi (VI_DestroyPipe 0)]" HI_FAIL]
  by (simp add: stop_low_def StopSingleViPipe_def frees_def after_def ret_def insert_commute del: run_all.simps)

end
