(* ===== verification/Nnie_Model.thy ===== *)
theory Nnie_Model
  imports Svp_Mem
begin

text \<open>
  Loading a network and laying out the memory of its segments
  (common/sdk2v0/sample_comm_nnie.c): \<open>SAMPLE_COMM_SVP_NNIE_LoadModel\<close>, \<open>_UnloadModel\<close>,
  \<open>_ParamInit\<close>, \<open>_ParamDeinit\<close>, their static helpers, and the drawing job \<open>_FillRect\<close>.

  Arrays of the structs are lists; the counts \<open>u32NetSegNum\<close>, \<open>u16SrcNum\<close>, \<open>u16DstNum\<close> of a model are
  the lengths of its lists. The shape and the dimension of a node share a union, whose first
  word is \<open>n_width\<close>. What the NNIE library and stdio return are parameters.
\<close>

section \<open>Data\<close>

datatype blob_type = BLOB_S32 | BLOB_U8 | BLOB_YVU420SP | BLOB_YVU422SP | BLOB_VEC_S32 | BLOB_SEQ_S32

datatype net_type = NET_CNN | NET_ROI | NET_RECURRENT

record nnie_node =
  n_name :: string
  n_type :: blob_type
  n_width :: int
  n_height :: int
  n_chn :: int

record nnie_seg =
  sg_type :: net_type
  sg_src :: "nnie_node list"
  sg_dst :: "nnie_node list"

record nnie_model =
  md_tmp_size :: int
  md_segs :: "nnie_seg list"

record svp_blob =
  b_type :: blob_type
  b_stride :: int
  b_vir :: int
  b_phy :: int
  b_num :: int
  b_width :: int
  b_height :: int
  b_chn :: int
  b_step :: int

record seg_data =
  sd_src :: "svp_blob list"
  sd_dst :: "svp_blob list"

record nnie_cfg =
  cf_max_input :: int
  cf_max_roi :: int
  cf_step_addr :: "int list"
  cf_core :: "int list"

record forward_ctrl =
  fw_nnie_id :: int
  fw_src_num :: int
  fw_dst_num :: int
  fw_proposal_num :: int
  fw_seg_id :: int
  fw_tmp :: svp_mem_info
  fw_tsk :: svp_mem_info

record nnie_param =
  pm_model :: nnie_model
  pm_task_size :: "int list"
  pm_task :: svp_mem_info
  pm_tmp :: svp_mem_info
  pm_step :: svp_mem_info
  pm_data :: "seg_data list"
  pm_ctrl :: "forward_ctrl list"
  pm_bbox_ctrl :: "forward_ctrl list"

section \<open>Releasing the parameters\<close>

definition free_mem :: "svp_mem_info \<Rightarrow> mmz_trace \<Rightarrow> svp_mem_info \<times> mmz_trace" where
  "free_mem m tr =
     (if m_phy m \<noteq> 0 \<and> m_vir m \<noteq> 0
      then let (p, v, tr1) = MMZ_FREE (m_phy m) (m_vir m) tr in (m\<lparr>m_phy := 0, m_vir := 0\<rparr>, tr1)
      else (m, tr))"

definition ParamDeinit :: "nnie_param \<Rightarrow> mmz_trace \<Rightarrow> int \<times> nnie_param \<times> mmz_trace" where
  "ParamDeinit pm tr =
     (let (task, tr1) = free_mem (pm_task pm) tr;
          (step, tr2) = free_mem (pm_step pm) tr1
      in (0, pm\<lparr>pm_task := task, pm_step := step\<rparr>, tr2))"

section \<open>Filling the forward information\<close>

definition task_slice :: "svp_mem_info \<Rightarrow> int \<Rightarrow> int \<Rightarrow> svp_mem_info" where
  "task_slice task off n = \<lparr>m_phy = u64 (m_phy task + off), m_vir = u64 (m_vir task + off), m_size = n\<rparr>"

definition fill_ctrl :: "nnie_cfg \<Rightarrow> nnie_param \<Rightarrow> nat \<Rightarrow> nnie_seg \<Rightarrow> int \<Rightarrow> forward_ctrl \<Rightarrow> forward_ctrl" where
  "fill_ctrl cfg pm i sg off c =
     c\<lparr>fw_nnie_id := cf_core cfg ! i, fw_src_num := int (length (sg_src sg)),
       fw_dst_num := int (length (sg_dst sg)), fw_seg_id := int i, fw_tmp := pm_tmp pm,
       fw_tsk := task_slice (pm_task pm) off (pm_task_size pm ! i)\<rparr>"

definition fill_blob :: "int \<Rightarrow> int \<Rightarrow> nnie_node \<Rightarrow> svp_blob \<Rightarrow> svp_blob" where
  "fill_blob num step n b =
     (if n_type n = BLOB_SEQ_S32
      then b\<lparr>b_type := n_type n, b_width := n_width n, b_num := num, b_step := step\<rparr>
      else b\<lparr>b_type := n_type n, b_chn := n_chn n, b_height := n_height n, b_width := n_width n,
             b_num := num\<rparr>)"

definition fill_blobs :: "int \<Rightarrow> int \<Rightarrow> nnie_node list \<Rightarrow> svp_blob list \<Rightarrow> svp_blob list" where
  "fill_blobs num step ns bs = map2 (fill_blob num step) ns bs @ drop (length ns) bs"

definition fill_seg :: "nnie_cfg \<Rightarrow> nat \<Rightarrow> nnie_seg \<Rightarrow> int \<Rightarrow> nnie_param \<Rightarrow> nnie_param" where
  "fill_seg cfg i sg off pm =
     (let pm1 = (if sg_type sg = NET_ROI
                 then pm\<lparr>pm_bbox_ctrl := (pm_bbox_ctrl pm)
                        [i := (fill_ctrl cfg pm i sg off (pm_bbox_ctrl pm ! i))\<lparr>fw_proposal_num := 1\<rparr>]\<rparr>
                 else pm\<lparr>pm_ctrl := (pm_ctrl pm)[i := fill_ctrl cfg pm i sg off (pm_ctrl pm ! i)]\<rparr>);
          num = (if sg_type sg = NET_ROI then u32 (cf_max_roi cfg * cf_max_input cfg) else cf_max_input cfg);
          d = pm_data pm1 ! i
      in pm1\<lparr>pm_data := (pm_data pm1)[i :=
               \<lparr>sd_src = fill_blobs (cf_max_input cfg) (cf_step_addr cfg ! (2 * i)) (sg_src sg) (sd_src d),
                sd_dst = fill_blobs num (cf_step_addr cfg ! (2 * i + 1)) (sg_dst sg) (sd_dst d)\<rparr>]\<rparr>)"

fun fill_segs :: "nnie_cfg \<Rightarrow> nnie_seg list \<Rightarrow> nat \<Rightarrow> int \<Rightarrow> nnie_param \<Rightarrow> nnie_param" where
  "fill_segs cfg [] i off pm = pm"
| "fill_segs cfg (sg # sgs) i off pm =
     fill_segs cfg sgs (Suc i) (u32 (off + pm_task_size pm ! i)) (fill_seg cfg i sg off pm)"

definition FillForwardInfo :: "nnie_cfg \<Rightarrow> nnie_param \<Rightarrow> nnie_param" where
  "FillForwardInfo cfg pm = fill_segs cfg (md_segs (pm_model pm)) 0 0 pm"

section \<open>Sizes\<close>

definition ALIGN16 :: "int \<Rightarrow> int" where
  "ALIGN16 n = u32 (u32 (n + 16 - 1) div 16 * 16)"

definition ALIGN32 :: "int \<Rightarrow> int" where
  "ALIGN32 n = u32 (u32 (n + 32 - 1) div 32 * 32)"

definition elem_size :: "blob_type \<Rightarrow> int" where
  "elem_size t = (if t = BLOB_S32 \<or> t = BLOB_VEC_S32 \<or> t = BLOB_SEQ_S32 then 4 else 1)"

definition node_stride :: "int \<Rightarrow> nnie_node \<Rightarrow> int" where
  "node_stride align n =
     (if align = 16 then ALIGN16 (u32 (n_width n * elem_size (n_type n)))
      else ALIGN32 (u32 (n_width n * elem_size (n_type n))))"

definition node_bytes :: "int \<Rightarrow> int \<Rightarrow> nnie_node \<Rightarrow> svp_blob \<Rightarrow> int" where
  "node_bytes align step n b =
     (if n_type n = BLOB_SEQ_S32 then u32 (step * node_stride align n)
      else u32 (b_num b * node_stride align n * n_height n * n_chn n))"

text \<open>The total, the blobs with their strides, the sizes. An array shorter than its nodes cannot occur.\<close>

fun GetBlobMemSize ::
    "int \<Rightarrow> int \<Rightarrow> nnie_node list \<Rightarrow> svp_blob list \<Rightarrow> int \<Rightarrow> int \<times> svp_blob list \<times> int list" where
  "GetBlobMemSize align step [] bs tot = (tot, bs, [])"
| "GetBlobMemSize align step (n # ns) [] tot = (tot, [], [])"
| "GetBlobMemSize align step (n # ns) (b # bs) tot =
     (let sz = node_bytes align step n b;
          (tot', bs', szs) = GetBlobMemSize align step ns bs (u32 (tot + sz))
      in (tot', b\<lparr>b_stride := node_stride align n\<rparr> # bs', sz # szs))"

text \<open>
  The steps of a recurrent segment: \<open>steps a j\<close> is the word \<open>j\<close> of the step buffer at address \<open>a\<close>.
\<close>

definition seg_steps :: "(int \<Rightarrow> nat \<Rightarrow> int) \<Rightarrow> nnie_seg \<Rightarrow> seg_data \<Rightarrow> int \<Rightarrow> int" where
  "seg_steps steps sg d acc =
     (if sg_type sg = NET_RECURRENT
      then fold (\<lambda>j acc. u32 (acc + steps (b_step (sd_src d ! 0)) j)) [0..<nat (b_num (sd_src d ! 0))] acc
      else acc)"

text \<open>The loop over the segments, at segment \<open>i\<close>: the total, the data, and the sizes (source, destination) of each.\<close>

fun seg_sizes ::
    "(int \<Rightarrow> nat \<Rightarrow> int) \<Rightarrow> nnie_seg list \<Rightarrow> seg_data list \<Rightarrow> nat \<Rightarrow> int \<Rightarrow> int
      \<Rightarrow> int \<times> seg_data list \<times> (int list \<times> int list) list" where
  "seg_sizes steps [] ds i step tot = (tot, ds, [])"
| "seg_sizes steps (sg # sgs) [] i step tot = (tot, [], [])"
| "seg_sizes steps (sg # sgs) (d # ds) i step tot =
     (let step' = seg_steps steps sg d step;
          (t1, src, ssz) = (if i = 0 then GetBlobMemSize 16 step' (sg_src sg) (sd_src d) tot
                            else (tot, sd_src d, []));
          (t2, dst, dsz) = GetBlobMemSize 16 step' (sg_dst sg) (sd_dst d) t1;
          (t3, ds', szs) = seg_sizes steps sgs ds (Suc i) step' t2
      in (t3, \<lparr>sd_src = src, sd_dst = dst\<rparr> # ds', (ssz, dsz) # szs))"

text \<open>
  \<open>tsk\<close> stands for \<open>HI_MPI_SVP_NNIE_GetTskBufSize\<close>: the return code and the task buffer sizes, one
  for each segment. The result is the code, the total of the task buffers, the total size, the
  parameters, the sizes.
\<close>

definition GetTaskAndBlobBufSize ::
    "(nnie_cfg \<Rightarrow> nnie_model \<Rightarrow> int \<times> int list) \<Rightarrow> (int \<Rightarrow> nat \<Rightarrow> int) \<Rightarrow> nnie_cfg \<Rightarrow> nnie_param
      \<Rightarrow> int \<times> int \<times> int \<times> nnie_param \<times> (int list \<times> int list) list" where
  "GetTaskAndBlobBufSize tsk steps cfg pm =
     (let (ret, sizes) = tsk cfg (pm_model pm);
          pm1 = pm\<lparr>pm_task_size := sizes\<rparr>
      in if ret \<noteq> 0 then (ret, 0, 0, pm1, [])
         else let task = fold (\<lambda>n acc. u32 (acc + n)) (take (length (md_segs (pm_model pm))) sizes) 0;
                  total0 = u32 (task + md_tmp_size (pm_model pm));
                  (tot, ds, szs) = seg_sizes steps (md_segs (pm_model pm)) (pm_data pm1) 0 0 total0
              in (0, task, tot, pm1\<lparr>pm_data := ds\<rparr>, szs))"

section \<open>Addresses\<close>

text \<open>
  The loop that gives each blob its address; after it the addresses point behind the last
  blob. With no blob at all, the code reads the size at index -1: \<open>None\<close>.
\<close>

fun place_blobs :: "int \<Rightarrow> int \<Rightarrow> int list \<Rightarrow> svp_blob list \<Rightarrow> (svp_blob list \<times> int \<times> int) option" where
  "place_blobs p v [] bs = None"
| "place_blobs p v (sz # szs) [] = None"
| "place_blobs p v [sz] (b # bs) =
     Some (b\<lparr>b_phy := p, b_vir := v\<rparr> # bs, u64 (p + sz), u32 (v + sz))"
| "place_blobs p v (sz # szs) (b # bs) =
     (case place_blobs (u64 (p + sz)) (u32 (v + sz)) szs bs of
        None \<Rightarrow> None
      | Some (bs', p', v') \<Rightarrow> Some (b\<lparr>b_phy := p, b_vir := v\<rparr> # bs', p', v'))"

fun place_segs ::
    "nat \<Rightarrow> int \<Rightarrow> int \<Rightarrow> (int list \<times> int list) list \<Rightarrow> seg_data list \<Rightarrow> seg_data list option" where
  "place_segs i p v [] ds = Some ds"
| "place_segs i p v (sz # szs) [] = None"
| "place_segs i p v ((ssz, dsz) # szs) (d # ds) =
     (case (if i = 0 then place_blobs p v ssz (sd_src d) else Some (sd_src d, p, v)) of
        None \<Rightarrow> None
      | Some (src, p1, v1) \<Rightarrow>
          (case place_blobs p1 v1 dsz (sd_dst d) of
             None \<Rightarrow> None
           | Some (dst, p2, v2) \<Rightarrow>
               map_option ((#) \<lparr>sd_src = src, sd_dst = dst\<rparr>) (place_segs (Suc i) p2 v2 szs ds)))"

fun place_ctrl :: "nnie_seg list \<Rightarrow> nat \<Rightarrow> int \<Rightarrow> nnie_param \<Rightarrow> nnie_param" where
  "place_ctrl [] i off pm = pm"
| "place_ctrl (sg # sgs) i off pm =
     (let tsk = task_slice (pm_task pm) off (pm_task_size pm ! i);
          f = (\<lambda>c. c\<lparr>fw_tmp := pm_tmp pm, fw_tsk := tsk\<rparr>)
      in place_ctrl sgs (Suc i) (u32 (off + pm_task_size pm ! i))
           (if sg_type sg = NET_ROI
            then pm\<lparr>pm_bbox_ctrl := (pm_bbox_ctrl pm)[i := f (pm_bbox_ctrl pm ! i)]\<rparr>
            else pm\<lparr>pm_ctrl := (pm_ctrl pm)[i := f (pm_ctrl pm ! i)]\<rparr>))"

text \<open>The static \<open>SAMPLE_SVP_NNIE_ParamInit\<close>; \<open>None\<close> is the wild read of \<open>place_blobs\<close>.\<close>

definition nnie_ParamInit ::
    "mmz \<Rightarrow> (nnie_cfg \<Rightarrow> nnie_model \<Rightarrow> int \<times> int list) \<Rightarrow> (int \<Rightarrow> nat \<Rightarrow> int) \<Rightarrow> nnie_cfg \<Rightarrow> nnie_param
      \<Rightarrow> mmz_trace \<Rightarrow> (int \<times> nnie_param \<times> mmz_trace) option" where
  "nnie_ParamInit mmz tsk steps cfg pm tr =
     (let (ret, task, tot, pm1, szs) = GetTaskAndBlobBufSize tsk steps cfg (FillForwardInfo cfg pm)
      in if ret \<noteq> 0 then Some (ret, pm1, tr)
         else let ((ret, p, v), tr1) = MallocCached mmz tot tr
              in if ret \<noteq> 0 then Some (ret, pm1, tr1)
                 else let tmp = md_tmp_size (pm_model pm);
                          pm2 = pm1\<lparr>pm_task := \<lparr>m_phy = p, m_vir = v, m_size = task\<rparr>,
                                    pm_tmp := \<lparr>m_phy = u64 (p + task), m_vir = u64 (v + task), m_size = tmp\<rparr>\<rparr>;
                          pm3 = place_ctrl (md_segs (pm_model pm2)) 0 0 pm2
                      in map_option (\<lambda>ds. (0, pm3\<lparr>pm_data := ds\<rparr>, tr1))
                           (place_segs 0 (u64 (p + task + tmp)) (u32 (v + task + tmp)) szs (pm_data pm3)))"

definition ParamInit ::
    "mmz \<Rightarrow> (nnie_cfg \<Rightarrow> nnie_model \<Rightarrow> int \<times> int list) \<Rightarrow> (int \<Rightarrow> nat \<Rightarrow> int) \<Rightarrow> nnie_cfg \<Rightarrow> nnie_param
      \<Rightarrow> mmz_trace \<Rightarrow> (int \<times> nnie_param \<times> mmz_trace) option" where
  "ParamInit mmz tsk steps cfg pm tr =
     (case nnie_ParamInit mmz tsk steps cfg pm tr of
        None \<Rightarrow> None
      | Some (ret, pm1, tr1) \<Rightarrow>
          if ret = 0 then Some (ret, pm1, tr1)
          else let (_, pm2, tr2) = ParamDeinit pm1 tr1 in Some (-1, pm2, tr2))"

section \<open>Loading a model\<close>

text \<open>
  What the calls on the model file return, and the library's loader; the file events are
  counted by \<open>ld_open\<close>: opened and not yet closed.
\<close>

record load_env =
  le_fopen :: bool
  le_fseek_end :: int
  le_ftell :: int
  le_fseek_set :: int
  le_fread :: int
  le_load :: int

record load_state =
  ld_buf :: svp_mem_info
  ld_open :: int
  ld_trace :: mmz_trace

definition UnloadModel :: "load_state \<Rightarrow> int \<times> load_state" where
  "UnloadModel s =
     (let (m, tr) = free_mem (ld_buf s) (ld_trace s) in (0, s\<lparr>ld_buf := m, ld_trace := tr\<rparr>))"

definition load_fail_0 :: "load_state \<Rightarrow> int \<times> load_state" where
  "load_fail_0 s = (-1, s\<lparr>ld_open := ld_open s - 1\<rparr>)"

definition load_fail_1 :: "load_state \<Rightarrow> int \<times> load_state" where
  "load_fail_1 s =
     (let (p, v, tr) = MMZ_FREE (m_phy (ld_buf s)) (m_vir (ld_buf s)) (ld_trace s)
      in load_fail_0 (s\<lparr>ld_buf := \<lparr>m_phy = p, m_vir = v, m_size = 0\<rparr>, ld_trace := tr\<rparr>))"

definition LoadModel :: "mmz \<Rightarrow> load_env \<Rightarrow> load_state \<Rightarrow> int \<times> load_state" where
  "LoadModel mmz e s =
     (if \<not> le_fopen e then (HI_INVALID_VALUE, s)
      else let s1 = s\<lparr>ld_open := ld_open s + 1\<rparr>
      in if le_fseek_end e = -1 then load_fail_0 s1
      else if le_ftell e \<le> 0 then load_fail_0 s1
      else if le_fseek_set e = -1 then load_fail_0 s1
      else let ((ret, p, v), tr1) = MallocMem mmz (u32 (le_ftell e)) (ld_trace s1);
               s2 = s1\<lparr>ld_trace := tr1\<rparr>
      in if ret \<noteq> 0 then load_fail_0 s2
      else let s3 = s2\<lparr>ld_buf := \<lparr>m_phy = p, m_vir = v, m_size = u32 (le_ftell e)\<rparr>\<rparr>
      in if le_fread e \<noteq> 1 then load_fail_1 s3
      else if le_load e \<noteq> 0 then load_fail_1 s3
      else (0, s3\<lparr>ld_open := ld_open s3 - 1\<rparr>))"

section \<open>Drawing the detected boxes\<close>

text \<open>
  The calls on the graphics unit; what a call returns is a function \<open>vgs\<close> of all calls up to and
  including it. A rectangle is the list of its four corner points.
\<close>

datatype vgs_call = Vgs_begin | Vgs_cover "(int \<times> int) list" | Vgs_cancel | Vgs_end

fun cover_rects ::
    "(vgs_call list \<Rightarrow> int) \<Rightarrow> (int \<times> int) list list \<Rightarrow> vgs_call list \<Rightarrow> int \<times> vgs_call list" where
  "cover_rects vgs [] tr = (0, tr)"
| "cover_rects vgs (r # rs) tr =
     (let tr1 = tr @ [Vgs_cover r]; ret = vgs tr1
      in if ret \<noteq> 0 then (ret, tr1 @ [Vgs_cancel]) else cover_rects vgs rs tr1)"

fun cover_classes ::
    "(vgs_call list \<Rightarrow> int) \<Rightarrow> (int \<times> int) list list list \<Rightarrow> vgs_call list \<Rightarrow> int \<times> vgs_call list" where
  "cover_classes vgs [] tr = (0, tr)"
| "cover_classes vgs (c # cs) tr =
     (let (ret, tr1) = cover_rects vgs c tr
      in if ret \<noteq> 0 then (ret, tr1) else cover_classes vgs cs tr1)"

definition FillRect ::
    "(vgs_call list \<Rightarrow> int) \<Rightarrow> int \<Rightarrow> (int \<times> int) list list list \<Rightarrow> vgs_call list \<Rightarrow> int \<times> vgs_call list" where
  "FillRect vgs total_num rects tr =
     (if total_num = 0 then (0, tr)
      else let tr1 = tr @ [Vgs_begin]; ret = vgs tr1
      in if ret \<noteq> 0 then (ret, tr1)
      else let (ret, tr2) = cover_classes vgs rects tr1
      in if ret \<noteq> 0 then (ret, tr2)
      else let tr3 = tr2 @ [Vgs_end]; ret = vgs tr3
      in if ret \<noteq> 0 then (ret, tr3 @ [Vgs_cancel]) else (ret, tr3))"

section \<open>The memory layout\<close>

text \<open>Extents one after the other, from an address on.\<close>

fun chain :: "int \<Rightarrow> int list \<Rightarrow> (int \<times> int) list" where
  "chain a [] = []"
| "chain a (n # ns) = (a, n) # chain (a + n) ns"

lemma chain_append: "chain a (ms @ ns) = chain a ms @ chain (a + sum_list ms) ns"
  by (induction ms arbitrary: a) (simp_all add: add.assoc)

lemma fits_chain: "\<forall>n \<in> set ns. 0 \<le> n \<Longrightarrow> a + sum_list ns \<le> hi \<Longrightarrow> fits a (chain a ns) hi"
  by (induction ns arbitrary: a) (auto simp: add.assoc)

lemma u64_id': "0 \<le> x \<Longrightarrow> x < 18446744073709551616 \<Longrightarrow> u64 x = x"
  by (rule u64_id)

lemma place_blobs_chain:
  assumes "place_blobs p v szs bs = Some (bs', p', v')" "\<forall>n \<in> set szs. 0 \<le> n" "0 \<le> p" "0 \<le> v"
    "p + sum_list szs < 18446744073709551616" "v + sum_list szs < 4294967296"
  shows "zip (map b_phy bs') szs = chain p szs \<and> zip (map b_vir bs') szs = chain v szs \<and>
    p' = p + sum_list szs \<and> v' = v + sum_list szs"
  using assms
proof (induction p v szs bs arbitrary: bs' p' v' rule: place_blobs.induct)
  case (3 p v sz b bs)
  then show ?case by (auto simp: u64_id u32_id in_u32_def)
next
  case (4 p v sz sz2 szs b bs)
  let ?szs = "sz2 # szs"
  have nn: "0 \<le> sum_list ?szs" using "4.prems"(2) by (intro sum_list_nonneg) auto
  have e: "u64 (p + sz) = p + sz" "u32 (v + sz) = v + sz"
    using "4.prems" nn by (simp_all add: u64_id u32_id in_u32_def)
  obtain bs2 where r: "place_blobs (p + sz) (v + sz) ?szs bs = Some (bs2, p', v')" "bs' = b\<lparr>b_phy := p, b_vir := v\<rparr> # bs2"
    using "4.prems"(1) by (auto simp: e split: option.splits)
  have "zip (map b_phy bs2) ?szs = chain (p + sz) ?szs \<and> zip (map b_vir bs2) ?szs = chain (v + sz) ?szs \<and>
    p' = p + sz + sum_list ?szs \<and> v' = v + sz + sum_list ?szs"
    by (rule "4.IH" [unfolded e]) (use r "4.prems" in \<open>auto simp: add.assoc\<close>)
  then show ?case by (simp add: r(2) add.assoc)
qed simp_all

text \<open>The sizes of the blobs that are placed, in the order of placement: the sources of segment 0 and all destinations.\<close>

fun placed_sizes :: "nat \<Rightarrow> (int list \<times> int list) list \<Rightarrow> int list" where
  "placed_sizes i [] = []"
| "placed_sizes i ((ssz, dsz) # szs) = (if i = 0 then ssz else []) @ dsz @ placed_sizes (Suc i) szs"

fun blob_extents :: "(svp_blob \<Rightarrow> int) \<Rightarrow> nat \<Rightarrow> (int list \<times> int list) list \<Rightarrow> seg_data list \<Rightarrow> (int \<times> int) list" where
  "blob_extents f i ((ssz, dsz) # szs) (d # ds) =
     (if i = 0 then zip (map f (sd_src d)) ssz else []) @ zip (map f (sd_dst d)) dsz @ blob_extents f (Suc i) szs ds"
| "blob_extents f i _ _ = []"

lemma place_segs_chain:
  assumes "place_segs i p v szs ds = Some ds'" "\<forall>n \<in> set (placed_sizes i szs). 0 \<le> n" "0 \<le> p" "0 \<le> v"
    "p + sum_list (placed_sizes i szs) < 18446744073709551616" "v + sum_list (placed_sizes i szs) < 4294967296"
  shows "blob_extents b_phy i szs ds' = chain p (placed_sizes i szs) \<and>
    blob_extents b_vir i szs ds' = chain v (placed_sizes i szs)"
  using assms
proof (induction i p v szs ds arbitrary: ds' rule: place_segs.induct)
  case (3 i p v ssz dsz szs d ds)
  define s1 where "s1 = (if i = 0 then ssz else [])"
  let ?rest = "placed_sizes (Suc i) szs"
  have ps: "placed_sizes i ((ssz, dsz) # szs) = s1 @ dsz @ ?rest" by (simp add: s1_def)
  have nn: "\<forall>n \<in> set s1. 0 \<le> n" "\<forall>n \<in> set dsz. 0 \<le> n" "\<forall>n \<in> set ?rest. 0 \<le> n"
    using "3.prems"(2) unfolding ps by auto
  have sums: "0 \<le> sum_list s1" "0 \<le> sum_list dsz" "0 \<le> sum_list ?rest"
    using nn by (auto intro!: sum_list_nonneg)
  have bnd: "p + (sum_list s1 + (sum_list dsz + sum_list ?rest)) < 18446744073709551616"
    "v + (sum_list s1 + (sum_list dsz + sum_list ?rest)) < 4294967296"
    using "3.prems"(5,6) unfolding ps by simp_all
  obtain src p1 v1 where src: "(if i = 0 then place_blobs p v ssz (sd_src d) else Some (sd_src d, p, v)) = Some (src, p1, v1)"
    using "3.prems"(1) by (auto split: option.splits if_splits)
  obtain dst p2 v2 where dst: "place_blobs p1 v1 dsz (sd_dst d) = Some (dst, p2, v2)"
    using "3.prems"(1) src by (auto split: option.splits)
  obtain ds2 where ds2: "place_segs (Suc i) p2 v2 szs ds = Some ds2" "ds' = \<lparr>sd_src = src, sd_dst = dst\<rparr> # ds2"
    using "3.prems"(1) src dst by (auto split: option.splits)
  have a: "p1 = p + sum_list s1 \<and> v1 = v + sum_list s1 \<and>
      zip (map b_phy src) s1 = chain p s1 \<and> zip (map b_vir src) s1 = chain v s1"
  proof (cases "i = 0")
    case True
    then have "place_blobs p v s1 (sd_src d) = Some (src, p1, v1)" using src by (simp add: s1_def)
    from place_blobs_chain [OF this nn(1) "3.prems"(3,4)] show ?thesis using sums bnd by auto
  next
    case False
    then show ?thesis using src by (simp add: s1_def)
  qed
  have b: "zip (map b_phy dst) dsz = chain p1 dsz \<and> zip (map b_vir dst) dsz = chain v1 dsz \<and>
      p2 = p1 + sum_list dsz \<and> v2 = v1 + sum_list dsz"
    by (rule place_blobs_chain [OF dst nn(2)]) (use a sums bnd "3.prems"(3,4) in auto)
  have c: "blob_extents b_phy (Suc i) szs ds2 = chain p2 ?rest \<and> blob_extents b_vir (Suc i) szs ds2 = chain v2 ?rest"
    by (rule "3.IH" [OF src refl refl dst refl refl ds2(1) nn(3)]) (use a b sums bnd "3.prems"(3,4) in auto)
  show ?case unfolding ps using a b c by (cases "i = 0") (simp_all add: ds2(2) chain_append s1_def)
qed auto

lemma GetBlobMemSize_sizes:
  "GetBlobMemSize align step ns bs tot = (tot', bs', szs) \<Longrightarrow> in_u32 tot \<Longrightarrow>
     tot' = u32 (tot + sum_list szs) \<and> (\<forall>n \<in> set szs. 0 \<le> n) \<and> in_u32 tot'"
proof (induction align step ns bs tot arbitrary: tot' bs' szs rule: GetBlobMemSize.induct)
  case (3 align step n ns b bs tot)
  let ?sz = "node_bytes align step n b"
  obtain t2 bs2 szs2 where r: "GetBlobMemSize align step ns bs (u32 (tot + ?sz)) = (t2, bs2, szs2)"
    by (metis prod_cases3)
  have "tot' = t2" "szs = ?sz # szs2" using "3.prems"(1) r by (auto simp: Let_def)
  moreover have "t2 = u32 (u32 (tot + ?sz) + sum_list szs2) \<and> (\<forall>n \<in> set szs2. 0 \<le> n) \<and> in_u32 t2"
    by (rule "3.IH" [OF refl r]) simp
  moreover have "0 \<le> ?sz" by (simp add: node_bytes_def)
  ultimately show ?case by (simp add: add.assoc)
qed (auto simp: u32_id)

lemma seg_sizes_sum:
  "seg_sizes steps sgs ds i step tot = (tot', ds', szs) \<Longrightarrow> in_u32 tot \<Longrightarrow>
     tot' = u32 (tot + sum_list (placed_sizes i szs)) \<and> (\<forall>n \<in> set (placed_sizes i szs). 0 \<le> n)"
proof (induction steps sgs ds i step tot arbitrary: tot' ds' szs rule: seg_sizes.induct)
  case (3 steps sg sgs d ds i step tot)
  define st where "st = seg_steps steps sg d step"
  obtain t1 src ssz where g1: "(if i = 0 then GetBlobMemSize 16 st (sg_src sg) (sd_src d) tot
      else (tot, sd_src d, [])) = (t1, src, ssz)" by (metis prod_cases3)
  obtain t2 dst dsz where g2: "GetBlobMemSize 16 st (sg_dst sg) (sd_dst d) t1 = (t2, dst, dsz)"
    by (metis prod_cases3)
  obtain t3 ds2 szs2 where g3: "seg_sizes steps sgs ds (Suc i) st t2 = (t3, ds2, szs2)"
    by (metis prod_cases3)
  have res: "tot' = t3" "szs = (ssz, dsz) # szs2"
    using "3.prems"(1) g1 g2 g3 by (auto simp: st_def [symmetric] Let_def)
  have a: "t1 = u32 (tot + sum_list (if i = 0 then ssz else [])) \<and>
      (\<forall>n \<in> set (if i = 0 then ssz else []). 0 \<le> n) \<and> in_u32 t1"
    using g1 GetBlobMemSize_sizes [of 16 st "sg_src sg" "sd_src d" tot t1 src ssz] "3.prems"(2)
    by (auto simp: u32_id split: if_splits)
  have b: "t2 = u32 (t1 + sum_list dsz) \<and> (\<forall>n \<in> set dsz. 0 \<le> n) \<and> in_u32 t2"
    using GetBlobMemSize_sizes [OF g2] a by blast
  have c: "t3 = u32 (t2 + sum_list (placed_sizes (Suc i) szs2)) \<and> (\<forall>n \<in> set (placed_sizes (Suc i) szs2). 0 \<le> n)"
    using "3.IH" [OF st_def g1 [symmetric] refl refl g2 [symmetric] refl refl g3] b by blast
  show ?case using a b c by (cases "i = 0") (auto simp: res add.assoc)
qed (auto simp: u32_id)

lemma fill_segs_keeps:
  "pm_model (fill_segs cfg sgs i off pm) = pm_model pm" "pm_task (fill_segs cfg sgs i off pm) = pm_task pm"
  "pm_step (fill_segs cfg sgs i off pm) = pm_step pm"
  by (induction sgs arbitrary: i off pm) (simp_all add: fill_seg_def Let_def)

lemma place_ctrl_keeps:
  "pm_model (place_ctrl sgs i off pm) = pm_model pm" "pm_task (place_ctrl sgs i off pm) = pm_task pm"
  "pm_step (place_ctrl sgs i off pm) = pm_step pm" "pm_tmp (place_ctrl sgs i off pm) = pm_tmp pm"
  "pm_data (place_ctrl sgs i off pm) = pm_data pm" "pm_task_size (place_ctrl sgs i off pm) = pm_task_size pm"
  by (induction sgs arbitrary: i off pm) (simp_all add: Let_def)

lemma fold_u32_sum: "in_u32 acc \<Longrightarrow> fold (\<lambda>n acc. u32 (acc + n)) ns acc = u32 (acc + sum_list ns)"
  by (induction ns arbitrary: acc) (simp_all add: u32_id add.assoc)

lemma GetTaskAndBlobBufSize_ok:
  assumes "GetTaskAndBlobBufSize tsk steps cfg pm = (0, task, tot, pm1, szs)"
  shows "\<exists>sizes. tsk cfg (pm_model pm) = (0, sizes) \<and> pm_task_size pm1 = sizes \<and>
      task = u32 (sum_list (take (length (md_segs (pm_model pm))) sizes)) \<and>
      tot = u32 (task + md_tmp_size (pm_model pm) + sum_list (placed_sizes 0 szs)) \<and>
      (\<forall>n \<in> set (placed_sizes 0 szs). 0 \<le> n) \<and> pm_model pm1 = pm_model pm \<and>
      pm_task pm1 = pm_task pm \<and> pm_step pm1 = pm_step pm"
proof -
  obtain sizes where tsk: "tsk cfg (pm_model pm) = (0, sizes)"
    using assms by (auto simp: GetTaskAndBlobBufSize_def Let_def split: prod.splits if_splits)
  define t0 where "t0 = fold (\<lambda>n acc. u32 (acc + n)) (take (length (md_segs (pm_model pm))) sizes) 0"
  have t0: "t0 = u32 (sum_list (take (length (md_segs (pm_model pm))) sizes))"
    unfolding t0_def by (subst fold_u32_sum) (simp_all add: in_u32_def)
  obtain tot2 ds szs2 where g: "seg_sizes steps (md_segs (pm_model pm)) (pm_data pm) 0 0
      (u32 (t0 + md_tmp_size (pm_model pm))) = (tot2, ds, szs2)" by (metis prod_cases3)
  have "task = t0" "tot = tot2" "szs = szs2" "pm1 = pm\<lparr>pm_task_size := sizes, pm_data := ds\<rparr>"
    using assms g by (auto simp: GetTaskAndBlobBufSize_def tsk t0_def Let_def)
  then show ?thesis using seg_sizes_sum [OF g] t0 tsk by (simp add: add.assoc)
qed

text \<open>
  C14. When \<open>SAMPLE_SVP_NNIE_ParamInit\<close> succeeds and the sizes add up to less than 32 bits, it has
  allocated one block, and the task buffer, the temporary buffer and the blobs of all segments
  (source blobs of the first, destination blobs of every one) lie in it one after the other
  without overlap, at consistent physical and virtual addresses.
\<close>

theorem nnie_ParamInit_layout:
  assumes "mmz_sound mmz" "live tr = Some bs"
    and sizes: "GetTaskAndBlobBufSize tsk steps cfg (FillForwardInfo cfg pm) = (0, task, tot, pm1, szs)"
    and init: "nnie_ParamInit mmz tsk steps cfg pm tr = Some (0, pm', tr')"
    and tmp: "0 \<le> md_tmp_size (pm_model pm)"
    and small: "task + md_tmp_size (pm_model pm) + sum_list (placed_sizes 0 szs) < 4294967296"
  shows "\<exists>p v. live tr' = Some ((p, v, tot) # bs) \<and>
    fits p ((m_phy (pm_task pm'), m_size (pm_task pm')) # (m_phy (pm_tmp pm'), m_size (pm_tmp pm')) #
            blob_extents b_phy 0 szs (pm_data pm')) (p + tot) \<and>
    fits v ((m_vir (pm_task pm'), m_size (pm_task pm')) # (m_vir (pm_tmp pm'), m_size (pm_tmp pm')) #
            blob_extents b_vir 0 szs (pm_data pm')) (v + tot) \<and>
    m_size (pm_task pm') = task \<and> m_size (pm_tmp pm') = md_tmp_size (pm_model pm)"
proof -
  let ?tmp = "md_tmp_size (pm_model pm)" and ?ps = "placed_sizes 0 szs"
  have m: "pm_model (FillForwardInfo cfg pm) = pm_model pm" by (simp add: FillForwardInfo_def fill_segs_keeps)
  obtain szl where G: "task = u32 (sum_list (take (length (md_segs (pm_model pm))) szl))"
    "tot = u32 (task + ?tmp + sum_list ?ps)" "\<forall>n \<in> set ?ps. 0 \<le> n" "pm_model pm1 = pm_model pm"
    using GetTaskAndBlobBufSize_ok [OF sizes] unfolding m by blast
  have s0: "0 \<le> sum_list ?ps" using G(3) by (intro sum_list_nonneg) auto
  have t0: "0 \<le> task" using G(1) by simp
  have tot: "tot = task + ?tmp + sum_list ?ps" using G(2) s0 t0 tmp small by (simp add: u32_id in_u32_def)
  obtain ret p v tr1 where al: "MallocCached mmz tot tr = ((ret, p, v), tr1)" by (metis surj_pair)
  then have ret: "ret = 0"
    using init by (auto simp: nnie_ParamInit_def sizes Let_def split: if_splits)
  have pv: "mmz tr tot = (0, p, v)" "tr1 = tr @ [Mmz_alloc p v tot]"
    using al ret by (auto simp: MallocCached_def MmzAlloc_def Let_def split: prod.splits if_splits)
  have bnd: "0 < p" "0 < v" "p + tot < 9223372036854775808" "v + tot < 4294967296"
    using assms(1) pv(1) unfolding mmz_sound_def by blast+
  have e: "u64 (p + task + ?tmp) = p + task + ?tmp" "u32 (v + task + ?tmp) = v + task + ?tmp"
    "u64 (p + task) = p + task" "u64 (v + task) = v + task"
    using bnd tot s0 t0 tmp by (auto intro!: u64_id u32_id simp: in_u32_def)
  obtain ds where ds: "place_segs 0 (p + task + ?tmp) (v + task + ?tmp) szs (pm_data pm1) = Some ds"
    and pm': "pm_data pm' = ds" "pm_task pm' = \<lparr>m_phy = p, m_vir = v, m_size = task\<rparr>"
      "pm_tmp pm' = \<lparr>m_phy = p + task, m_vir = v + task, m_size = ?tmp\<rparr>" "tr' = tr1"
    using init G(4) by (auto simp: nnie_ParamInit_def sizes al ret Let_def place_ctrl_keeps e m)
  have ch: "blob_extents b_phy 0 szs ds = chain (p + task + ?tmp) ?ps \<and>
      blob_extents b_vir 0 szs ds = chain (v + task + ?tmp) ?ps"
    by (rule place_segs_chain [OF ds G(3)]) (use bnd tot s0 t0 tmp in auto)
  have f: "fits (a + task + ?tmp) (chain (a + task + ?tmp) ?ps) (a + tot)" for a
    by (rule fits_chain [OF G(3)]) (simp add: tot)
  have "live tr' = Some ((p, v, tot) # bs)" using assms(2) pv(2) pm'(4) by (simp add: live_append)
  then show ?thesis using f t0 tmp ch by (intro exI [of _ p] exI [of _ v]) (simp add: pm')
qed

section \<open>Memory balance\<close>

lemma free_mem_block:
  assumes "live tr = Some ((p, v, n) # bs)" "m_phy m = p" "m_vir m = v" "p \<noteq> 0" "v \<noteq> 0"
  shows "live (snd (free_mem m tr)) = Some bs \<and> m_phy (fst (free_mem m tr)) = 0"
  using assms by (simp add: free_mem_def MMZ_FREE_def live_append)

lemma free_mem_null: "m_phy m = 0 \<or> m_vir m = 0 \<Longrightarrow> free_mem m tr = (m, tr)"
  by (auto simp: free_mem_def)

lemma ParamInit_owned:
  assumes "mmz_sound mmz" "live tr = Some bs" "m_phy (pm_task pm) = 0" "m_phy (pm_step pm) = 0"
    and "ParamInit mmz tsk steps cfg pm tr = Some (ret, pm', tr')"
  shows "m_phy (pm_step pm') = 0 \<and>
    (if ret = 0 then (\<exists>n. live tr' = Some ((m_phy (pm_task pm'), m_vir (pm_task pm'), n) # bs)) \<and>
       m_phy (pm_task pm') \<noteq> 0 \<and> m_vir (pm_task pm') \<noteq> 0
     else live tr' = Some bs \<and> m_phy (pm_task pm') = 0)"
proof -
  obtain r0 task tot pm1 szs where g: "GetTaskAndBlobBufSize tsk steps cfg (FillForwardInfo cfg pm) = (r0, task, tot, pm1, szs)"
    by (metis prod_cases5)
  obtain r1 p v tr1 where al: "MallocCached mmz tot tr = ((r1, p, v), tr1)" by (metis surj_pair)
  have pm1: "m_phy (pm_task pm1) = 0" "m_phy (pm_step pm1) = 0"
    using g assms(3,4)
    by (auto simp: GetTaskAndBlobBufSize_def Let_def FillForwardInfo_def fill_segs_keeps split: prod.splits if_splits)
  obtain r pm2 tr2 where i: "nnie_ParamInit mmz tsk steps cfg pm tr = Some (r, pm2, tr2)"
    using assms(5) by (auto simp: ParamInit_def split: option.splits)
  show ?thesis
  proof (cases "r0 = 0 \<and> r1 = 0")
    case False
    then have "r \<noteq> 0" "tr2 = tr" "pm2 = pm1"
      using i al by (auto simp: nnie_ParamInit_def g Let_def MallocCached_def MmzAlloc_def
          split: if_splits prod.splits)
    then show ?thesis
      using assms(2,5) i pm1 by (simp add: ParamInit_def ParamDeinit_def free_mem_null Let_def)
  next
    case True
    have pv: "mmz tr tot = (0, p, v)" "tr1 = tr @ [Mmz_alloc p v tot]"
      using al True by (auto simp: MallocCached_def MmzAlloc_def Let_def split: prod.splits if_splits)
    have nz: "0 < p" "0 < v" using assms(1) pv(1) unfolding mmz_sound_def by blast+
    have r: "r = 0" "tr2 = tr1" "m_phy (pm_task pm2) = p" "m_vir (pm_task pm2) = v" "m_phy (pm_step pm2) = 0"
      using i al True pm1(2) by (auto simp: nnie_ParamInit_def g Let_def place_ctrl_keeps)
    then have fin: "ret = 0" "pm' = pm2" "tr' = tr1" using assms(5) i by (auto simp: ParamInit_def)
    have l: "live tr' = Some ((p, v, tot) # bs)" using assms(2) by (simp add: fin pv(2) live_append)
    show ?thesis using l fin nz r(3-5) by simp
  qed
qed

text \<open>
  \<open>SAMPLE_COMM_SVP_NNIE_ParamInit\<close> on parameters that own no memory: when it fails, the live
  blocks are as before; when it succeeds, one more block is live, and
  \<open>SAMPLE_COMM_SVP_NNIE_ParamDeinit\<close> frees exactly that block.
\<close>

lemma ParamInit_balanced:
  assumes "mmz_sound mmz" "live tr = Some bs" "m_phy (pm_task pm) = 0" "m_phy (pm_step pm) = 0"
    and "ParamInit mmz tsk steps cfg pm tr = Some (ret, pm', tr')"
  shows "if ret = 0 then (\<exists>b. live tr' = Some (b # bs)) \<and> live (snd (snd (ParamDeinit pm' tr'))) = Some bs
    else live tr' = Some bs"
proof -
  note own = ParamInit_owned [OF assms]
  obtain m tr3 where fm: "free_mem (pm_task pm') tr' = (m, tr3)" by fastforce
  show ?thesis
  proof (cases "ret = 0")
    case True
    then obtain n where l: "live tr' = Some ((m_phy (pm_task pm'), m_vir (pm_task pm'), n) # bs)"
      and nz: "m_phy (pm_task pm') \<noteq> 0" "m_vir (pm_task pm') \<noteq> 0" using own by auto
    then have "live tr3 = Some bs" using free_mem_block [OF l refl refl nz] fm by simp
    then show ?thesis using l True own fm by (simp add: ParamDeinit_def free_mem_null Let_def)
  qed (use own in simp)
qed

lemma LoadModel_owned:
  assumes "mmz_sound mmz" "live (ld_trace s) = Some bs" "m_phy (ld_buf s) = 0"
    and "LoadModel mmz e s = (ret, s')"
  shows "ld_open s' = ld_open s \<and>
    (if ret = 0 then \<exists>b. live (ld_trace s') = Some (b # bs)
     else live (ld_trace s') = Some bs \<and> m_phy (ld_buf s') = 0) \<and>
    live (ld_trace (snd (UnloadModel s'))) = Some bs"
proof -
  let ?n = "u32 (le_ftell e)"
  obtain r p v where al: "mmz (ld_trace s) ?n = (r, p, v)" by (metis prod_cases3)
  have nz: "r = 0 \<Longrightarrow> p \<noteq> 0 \<and> v \<noteq> 0" using assms(1) al unfolding mmz_sound_def by fastforce
  show ?thesis
    using assms(2-4) nz
    by (auto simp: LoadModel_def load_fail_0_def load_fail_1_def MallocMem_def MmzAlloc_def al Let_def
        UnloadModel_def free_mem_def MMZ_FREE_def live_append HI_INVALID_VALUE_def split: if_splits)
qed

text \<open>
  C15. \<open>SAMPLE_COMM_SVP_NNIE_LoadModel\<close> leaves no file open, and on every error path the live blocks
  are as before and the descriptor does not point to freed memory, so that a later
  \<open>SAMPLE_COMM_SVP_NNIE_UnloadModel\<close> does nothing; on success one block is live, and unloading
  frees exactly that block.
\<close>

theorem LoadModel_balanced:
  assumes "mmz_sound mmz" "live (ld_trace s) = Some bs" "m_phy (ld_buf s) = 0"
    and "LoadModel mmz e s = (ret, s')"
  shows "ld_open s' = ld_open s \<and>
    (if ret = 0 then \<exists>b. live (ld_trace s') = Some (b # bs)
     else live (ld_trace s') = Some bs \<and> m_phy (ld_buf s') = 0) \<and>
    live (ld_trace (snd (UnloadModel s'))) = Some bs"
  using assms by (rule LoadModel_owned)

section \<open>Drawing jobs are closed\<close>

text \<open>
  Whether a job is open after a sequence of calls, when every call but the last one that failed
  took effect; \<open>None\<close> is a call outside a job, or a begin inside one.
\<close>

fun job :: "bool \<Rightarrow> vgs_call list \<Rightarrow> bool option" where
  "job op [] = Some op"
| "job op (Vgs_begin # cs) = (if op then None else job True cs)"
| "job op (Vgs_cover r # cs) = (if op then job True cs else None)"
| "job op (Vgs_cancel # cs) = (if op then job False cs else None)"
| "job op (Vgs_end # cs) = (if op then job False cs else None)"

lemma job_append: "job op (xs @ ys) = Option.bind (job op xs) (\<lambda>op'. job op' ys)"
  by (induction op xs rule: job.induct) auto

text \<open>The calls that succeeded, when the trace is the result of running against \<open>vgs\<close>.\<close>

fun effective :: "(vgs_call list \<Rightarrow> int) \<Rightarrow> vgs_call list \<Rightarrow> vgs_call list \<Rightarrow> vgs_call list" where
  "effective vgs pre [] = []"
| "effective vgs pre (c # cs) =
     (if c = Vgs_cancel \<or> vgs (pre @ [c]) = 0 then c # effective vgs (pre @ [c]) cs
      else effective vgs (pre @ [c]) cs)"

lemma effective_append:
  "effective vgs pre (xs @ ys) = effective vgs pre xs @ effective vgs (pre @ xs) ys"
  by (induction xs arbitrary: pre) auto

lemma cover_rects_job:
  "cover_rects vgs rs tr = (ret, tr') \<Longrightarrow> job False (effective vgs [] tr) = Some True \<Longrightarrow>
     job False (effective vgs [] tr') = Some (ret = 0) \<and>
     (ret = 0 \<longrightarrow> tr' = tr @ map Vgs_cover rs)"
proof (induction rs arbitrary: tr)
  case Nil
  then show ?case by auto
next
  case (Cons r rs)
  have "job False (effective vgs [] (tr @ [Vgs_cover r])) = Some True" if "vgs (tr @ [Vgs_cover r]) = 0"
    using Cons.prems(2) that by (simp add: effective_append job_append)
  with Cons.prems Cons.IH [of "tr @ [Vgs_cover r]"] show ?case
    by (cases "vgs (tr @ [Vgs_cover r]) = 0")
       (auto simp: Let_def effective_append job_append)
qed

lemma cover_classes_job:
  "cover_classes vgs cs tr = (ret, tr') \<Longrightarrow> job False (effective vgs [] tr) = Some True \<Longrightarrow>
     job False (effective vgs [] tr') = Some (ret = 0) \<and>
     (ret = 0 \<longrightarrow> tr' = tr @ map Vgs_cover (concat cs))"
proof (induction cs arbitrary: tr)
  case Nil
  then show ?case by auto
next
  case (Cons c cs)
  obtain r1 tr1 where c: "cover_rects vgs c tr = (r1, tr1)" by fastforce
  show ?case
    using Cons.prems cover_rects_job [OF c Cons.prems(2)] Cons.IH [of tr1]
    by (cases "r1 = 0") (auto simp: c)
qed

text \<open>
  \<open>SAMPLE_COMM_SVP_NNIE_FillRect\<close> never leaves a drawing job open: on every path the job that
  was begun is ended or cancelled exactly once, and when it reports success every rectangle of
  every class was drawn, in order.
\<close>

lemma FillRect_job_closed:
  assumes "FillRect vgs num rects [] = (ret, tr)"
  shows "job False (effective vgs [] tr) = Some False \<and>
    (ret = 0 \<and> num \<noteq> 0 \<longrightarrow> tr = Vgs_begin # map Vgs_cover (concat rects) @ [Vgs_end])"
proof (cases "num = 0 \<or> vgs [Vgs_begin] \<noteq> 0")
  case True
  then show ?thesis using assms by (auto simp: FillRect_def Let_def split: if_splits)
next
  case False
  obtain r1 tr1 where c: "cover_classes vgs rects [Vgs_begin] = (r1, tr1)" by fastforce
  have j: "job False (effective vgs [] tr1) = Some (r1 = 0)"
    "r1 = 0 \<Longrightarrow> tr1 = Vgs_begin # map Vgs_cover (concat rects)"
    using cover_classes_job [OF c] False by auto
  show ?thesis
    using assms False j by (auto simp: FillRect_def Let_def c effective_append job_append split: if_splits)
qed

section \<open>A small network\<close>

definition no_mem :: svp_mem_info where
  "no_mem = \<lparr>m_phy = 0, m_vir = 0, m_size = 0\<rparr>"

definition no_blob :: svp_blob where
  "no_blob = \<lparr>b_type = BLOB_S32, b_stride = 0, b_vir = 0, b_phy = 0, b_num = 0, b_width = 0, b_height = 0,
     b_chn = 0, b_step = 0\<rparr>"

definition no_ctrl :: forward_ctrl where
  "no_ctrl = \<lparr>fw_nnie_id = 0, fw_src_num = 0, fw_dst_num = 0, fw_proposal_num = 0, fw_seg_id = 0,
     fw_tmp = no_mem, fw_tsk = no_mem\<rparr>"

definition small_model :: nnie_model where
  "small_model = \<lparr>md_tmp_size = 64,
     md_segs = [\<lparr>sg_type = NET_CNN, sg_src = [\<lparr>n_name = ''data'', n_type = BLOB_U8, n_width = 10, n_height = 4, n_chn = 3\<rparr>],
                sg_dst = [\<lparr>n_name = ''prob'', n_type = BLOB_S32, n_width = 5, n_height = 1, n_chn = 1\<rparr>]\<rparr>]\<rparr>"

definition small_param :: nnie_param where
  "small_param = \<lparr>pm_model = small_model, pm_task_size = [0], pm_task = no_mem, pm_tmp = no_mem,
     pm_step = no_mem, pm_data = [\<lparr>sd_src = [no_blob, no_blob], sd_dst = [no_blob, no_blob]\<rparr>],
     pm_ctrl = [no_ctrl], pm_bbox_ctrl = [no_ctrl]\<rparr>"

definition small_cfg :: nnie_cfg where
  "small_cfg = \<lparr>cf_max_input = 1, cf_max_roi = 0, cf_step_addr = [0, 0], cf_core = [0]\<rparr>"

abbreviation small_tsk :: "nnie_cfg \<Rightarrow> nnie_model \<Rightarrow> int \<times> int list" where
  "small_tsk \<equiv> (\<lambda>_ _. (0, [32]))"

lemma small_sizes:
  "\<exists>pm1. GetTaskAndBlobBufSize small_tsk (\<lambda>_ _. 0) small_cfg (FillForwardInfo small_cfg small_param) =
     (0, 32, 320, pm1, [([192], [32])])"
proof -
  let ?r = "GetTaskAndBlobBufSize small_tsk (\<lambda>_ _. 0) small_cfg (FillForwardInfo small_cfg small_param)"
  have "(case ?r of (r, task, tot, pm1, szs) \<Rightarrow> (r, task, tot, szs)) = (0, 32, 320, [([192], [32])])"
    by code_simp
  then show ?thesis by (auto split: prod.splits)
qed

lemma small_init: "\<exists>pm' tr'. nnie_ParamInit bump_mmz small_tsk (\<lambda>_ _. 0) small_cfg small_param [] = Some (0, pm', tr')"
proof -
  let ?r = "nnie_ParamInit bump_mmz small_tsk (\<lambda>_ _. 0) small_cfg small_param []"
  have "(case ?r of None \<Rightarrow> False | Some (r, _, _) \<Rightarrow> r = 0)" by code_simp
  then show ?thesis by (auto split: option.splits prod.splits)
qed

lemma nnie_ParamInit_layout_witness:
  "\<exists>pm' tr' p v. nnie_ParamInit bump_mmz small_tsk (\<lambda>_ _. 0) small_cfg small_param [] = Some (0, pm', tr') \<and>
     live tr' = Some [(p, v, 320)] \<and>
     fits p ((m_phy (pm_task pm'), 32) # (m_phy (pm_tmp pm'), 64) #
             blob_extents b_phy 0 [([192], [32])] (pm_data pm')) (p + 320)"
proof -
  obtain pm1 where s: "GetTaskAndBlobBufSize small_tsk (\<lambda>_ _. 0) small_cfg (FillForwardInfo small_cfg small_param) =
     (0, 32, 320, pm1, [([192], [32])])" using small_sizes by blast
  obtain pm' tr' where i: "nnie_ParamInit bump_mmz small_tsk (\<lambda>_ _. 0) small_cfg small_param [] = Some (0, pm', tr')"
    using small_init by blast
  from nnie_ParamInit_layout [OF bump_mmz_sound _ s i, of "[]"] i show ?thesis
    by (auto simp: live_def small_param_def small_model_def)
qed

lemma ParamInit_balanced_witness:
  "\<exists>pm' tr'. ParamInit bump_mmz small_tsk (\<lambda>_ _. 0) small_cfg small_param [] = Some (0, pm', tr') \<and>
     live (snd (snd (ParamDeinit pm' tr'))) = Some []"
proof -
  obtain pm' tr' where "nnie_ParamInit bump_mmz small_tsk (\<lambda>_ _. 0) small_cfg small_param [] = Some (0, pm', tr')"
    using small_init by blast
  then have i: "ParamInit bump_mmz small_tsk (\<lambda>_ _. 0) small_cfg small_param [] = Some (0, pm', tr')"
    by (simp add: ParamInit_def)
  from ParamInit_balanced [OF bump_mmz_sound _ _ _ i, of "[]"] i show ?thesis
    by (auto simp: live_def small_param_def no_mem_def)
qed

lemma LoadModel_balanced_witness:
  "let e = \<lparr>le_fopen = True, le_fseek_end = 0, le_ftell = 1000, le_fseek_set = 0, le_fread = 0, le_load = 0\<rparr>;
       s = \<lparr>ld_buf = no_mem, ld_open = 0, ld_trace = []\<rparr>;
       (ret, s') = LoadModel bump_mmz e s
   in ret = -1 \<and> live (ld_trace s') = Some [] \<and> ld_open s' = 0"
proof -
  let ?e = "\<lparr>le_fopen = True, le_fseek_end = 0, le_ftell = 1000, le_fseek_set = 0, le_fread = 0, le_load = 0\<rparr>"
  let ?s = "\<lparr>ld_buf = no_mem, ld_open = 0, ld_trace = []\<rparr>"
  obtain ret s' where r: "LoadModel bump_mmz ?e ?s = (ret, s')" by fastforce
  have "fst (LoadModel bump_mmz ?e ?s) = -1" by code_simp
  then have "ret = -1" by (simp add: r)
  moreover have "live (ld_trace s') = Some [] \<and> ld_open s' = 0"
    using LoadModel_balanced [OF bump_mmz_sound _ _ r, of "[]"] calculation by (simp add: live_def no_mem_def)
  ultimately show ?thesis by (simp add: r)
qed

lemma FillRect_job_closed_witness:
  "job False (effective (\<lambda>tr. if length tr = 2 then 5 else 0) []
     (snd (FillRect (\<lambda>tr. if length tr = 2 then 5 else 0) 1 [[[(0, 0), (4, 4)]]] []))) = Some False"
proof -
  let ?vgs = "\<lambda>tr :: vgs_call list. if length tr = 2 then (5 :: int) else 0"
  obtain ret tr where r: "FillRect ?vgs 1 [[[(0, 0), (4, 4)]]] [] = (ret, tr)" by fastforce
  show ?thesis using FillRect_job_closed [OF r] by (simp add: r)
qed

section \<open>The blobs describe their nodes\<close>

text \<open>The blobs at the places of the nodes fulfil \<open>P\<close>; there may be more of them.\<close>

fun describe :: "(nnie_node \<Rightarrow> svp_blob \<Rightarrow> bool) \<Rightarrow> nnie_node list \<Rightarrow> svp_blob list \<Rightarrow> bool" where
  "describe P [] bs = True"
| "describe P (n # ns) [] = False"
| "describe P (n # ns) (b # bs) = (P n b \<and> describe P ns bs)"

fun describe_segs :: "(nat \<Rightarrow> nnie_seg \<Rightarrow> seg_data \<Rightarrow> bool) \<Rightarrow> nat \<Rightarrow> nnie_seg list \<Rightarrow> seg_data list \<Rightarrow> bool" where
  "describe_segs F i [] ds = True"
| "describe_segs F i (sg # sgs) [] = False"
| "describe_segs F i (sg # sgs) (d # ds) = (F i sg d \<and> describe_segs F (Suc i) sgs ds)"

definition blob_shape :: "nnie_node \<Rightarrow> svp_blob \<Rightarrow> bool" where
  "blob_shape n b \<longleftrightarrow> b_type b = n_type n \<and> b_width b = n_width n \<and>
     (n_type n \<noteq> BLOB_SEQ_S32 \<longrightarrow> b_height b = n_height n \<and> b_chn b = n_chn n)"

definition blob_typed :: "nnie_node \<Rightarrow> svp_blob \<Rightarrow> bool" where
  "blob_typed n b \<longleftrightarrow> blob_shape n b \<and> b_stride b = node_stride 16 n"

definition seg_room :: "nat \<Rightarrow> nnie_seg \<Rightarrow> seg_data \<Rightarrow> bool" where
  "seg_room i sg d \<longleftrightarrow> length (sg_src sg) \<le> length (sd_src d) \<and> length (sg_dst sg) \<le> length (sd_dst d)"

definition seg_shape :: "nat \<Rightarrow> nnie_seg \<Rightarrow> seg_data \<Rightarrow> bool" where
  "seg_shape i sg d \<longleftrightarrow> describe blob_shape (sg_src sg) (sd_src d) \<and> describe blob_shape (sg_dst sg) (sd_dst d)"

text \<open>Only the first segment has sources of its own.\<close>

definition seg_typed :: "nat \<Rightarrow> nnie_seg \<Rightarrow> seg_data \<Rightarrow> bool" where
  "seg_typed i sg d \<longleftrightarrow> describe (if i = 0 then blob_typed else blob_shape) (sg_src sg) (sd_src d) \<and>
     describe blob_typed (sg_dst sg) (sd_dst d)"

lemma blob_typed_stride: "blob_shape n b \<Longrightarrow> blob_typed n (b\<lparr>b_stride := node_stride 16 n\<rparr>)"
  by (simp add: blob_typed_def blob_shape_def)

lemma seg_typed_iff: "seg_typed i sg \<lparr>sd_src = src, sd_dst = dst\<rparr> \<longleftrightarrow>
    describe (if i = 0 then blob_typed else blob_shape) (sg_src sg) src \<and> describe blob_typed (sg_dst sg) dst"
  by (simp add: seg_typed_def)

lemma describe_fill: "length ns \<le> length bs \<Longrightarrow> describe blob_shape ns (fill_blobs num step ns bs)"
proof (induction ns arbitrary: bs)
  case (Cons n ns)
  then show ?case by (cases bs) (simp_all add: fill_blobs_def fill_blob_def blob_shape_def)
qed simp

lemma length_fill_segs: "length (pm_data (fill_segs cfg sgs i off pm)) = length (pm_data pm)"
  by (induction sgs arbitrary: i off pm) (simp_all add: fill_seg_def Let_def)

lemma nth_fill_segs: "j < i \<Longrightarrow> pm_data (fill_segs cfg sgs i off pm) ! j = pm_data pm ! j"
  by (induction sgs arbitrary: i off pm) (simp_all add: fill_seg_def Let_def)

lemma seg_shape_fill_seg:
  assumes "i < length (pm_data pm)" "seg_room i sg (pm_data pm ! i)"
  shows "seg_shape i sg (pm_data (fill_seg cfg i sg off pm) ! i)"
  using assms by (auto simp: fill_seg_def Let_def seg_shape_def seg_room_def intro: describe_fill)

lemma fill_segs_shape:
  "describe_segs seg_room i sgs (drop i (pm_data pm)) \<Longrightarrow> describe_segs seg_shape i sgs (drop i (pm_data (fill_segs cfg sgs i off pm)))"
proof (induction sgs arbitrary: i off pm)
  case (Cons sg sgs)
  then have i: "i < length (pm_data pm)" by (metis describe_segs.simps(2) drop_all not_le)
  note d = Cons_nth_drop_Suc [OF i, symmetric]
  let ?pm = "fill_seg cfg i sg off pm" and ?off = "u32 (off + pm_task_size pm ! i)"
  have rest: "drop (Suc i) (pm_data ?pm) = drop (Suc i) (pm_data pm)" by (simp add: fill_seg_def Let_def)
  let ?ds = "pm_data (fill_segs cfg sgs (Suc i) ?off ?pm)"
  have l: "i < length ?ds" using i by (simp add: length_fill_segs fill_seg_def Let_def)
  have "seg_shape i sg (?ds ! i)"
    using Cons.prems i by (simp add: nth_fill_segs d seg_shape_fill_seg)
  moreover have "describe_segs seg_shape (Suc i) sgs (drop (Suc i) ?ds)"
    using Cons.prems by (intro Cons.IH) (simp add: rest d)
  ultimately show ?case using Cons_nth_drop_Suc [OF l] by (simp flip: Cons_nth_drop_Suc [OF l])
qed simp

lemma describe_sizes:
  "GetBlobMemSize 16 step ns bs tot = (t, bs', szs) \<Longrightarrow> describe blob_shape ns bs \<Longrightarrow> describe blob_typed ns bs'"
proof (induction ns arbitrary: bs tot t bs' szs)
  case (Cons n ns)
  then obtain b r where b: "bs = b # r" by (cases bs) auto
  obtain t1 r' z where rec: "GetBlobMemSize 16 step ns r (u32 (tot + node_bytes 16 step n b)) = (t1, r', z)" by (metis surj_pair)
  then have "bs' = b\<lparr>b_stride := node_stride 16 n\<rparr> # r'" using Cons.prems(1) by (simp add: b Let_def)
  moreover have "describe blob_typed ns r'" using Cons.IH [OF rec] Cons.prems(2) by (simp add: b)
  ultimately show ?case using Cons.prems(2) by (simp add: b blob_typed_stride)
qed simp

lemma seg_sizes_typed:
  "seg_sizes steps sgs ds i step tot = (t, ds', szs) \<Longrightarrow> describe_segs seg_shape i sgs ds \<Longrightarrow> describe_segs seg_typed i sgs ds'"
proof (induction sgs arbitrary: ds i step tot t ds' szs)
  case (Cons sg sgs)
  then obtain d r where d: "ds = d # r" by (cases ds) auto
  let ?step = "seg_steps steps sg d step"
  obtain t1 src ssz where s: "(if i = 0 then GetBlobMemSize 16 ?step (sg_src sg) (sd_src d) tot else (tot, sd_src d, [])) = (t1, src, ssz)"
    by (metis surj_pair)
  obtain t2 dst dsz where g: "GetBlobMemSize 16 ?step (sg_dst sg) (sd_dst d) t1 = (t2, dst, dsz)" by (metis surj_pair)
  obtain t3 r' z where rec: "seg_sizes steps sgs r (Suc i) ?step t2 = (t3, r', z)" by (metis surj_pair)
  have ds': "ds' = \<lparr>sd_src = src, sd_dst = dst\<rparr> # r'" using Cons.prems(1) by (simp add: d Let_def s g rec)
  have "describe blob_typed (sg_dst sg) dst" using describe_sizes [OF g] Cons.prems(2) by (simp add: d seg_shape_def)
  moreover have "describe (if i = 0 then blob_typed else blob_shape) (sg_src sg) src"
    using s Cons.prems(2) describe_sizes by (auto simp: d seg_shape_def split: if_splits)
  ultimately show ?case using Cons.IH [OF rec] Cons.prems(2) by (simp add: ds' d seg_typed_iff)
qed simp

lemma describe_place:
  assumes "\<And>n b x y. P n (b\<lparr>b_phy := x, b_vir := y\<rparr>) = P n b"
  shows "place_blobs p v szs bs = Some (bs', p', v') \<Longrightarrow> describe P ns bs \<Longrightarrow> describe P ns bs'"
proof (induction p v szs bs arbitrary: bs' p' v' ns rule: place_blobs.induct)
  case (3 p v sz b bs)
  then show ?case using assms by (cases ns) auto
next
  case (4 p v sz sz' szs b bs)
  then obtain r p1 v1 where r: "place_blobs (u64 (p + sz)) (u32 (v + sz)) (sz' # szs) bs = Some (r, p1, v1)"
    "bs' = b\<lparr>b_phy := p, b_vir := v\<rparr> # r" by (auto split: option.splits)
  show ?case using 4(1) [OF r(1)] 4(3) assms by (cases ns) (simp_all add: r(2))
qed simp_all

lemma blob_typed_addr: "blob_typed n (b\<lparr>b_phy := x, b_vir := y\<rparr>) = blob_typed n b"
  "blob_shape n (b\<lparr>b_phy := x, b_vir := y\<rparr>) = blob_shape n b"
  by (simp_all add: blob_typed_def blob_shape_def)

lemma place_segs_typed:
  "place_segs i p v szs ds = Some ds' \<Longrightarrow> describe_segs seg_typed i sgs ds \<Longrightarrow> describe_segs seg_typed i sgs ds'"
proof (induction i p v szs ds arbitrary: ds' sgs rule: place_segs.induct)
  case (3 i p v ssz dsz szs d ds)
  from 3(2) obtain src p1 v1 dst p2 v2 r where
    s: "(if i = 0 then place_blobs p v ssz (sd_src d) else Some (sd_src d, p, v)) = Some (src, p1, v1)"
    and t: "place_blobs p1 v1 dsz (sd_dst d) = Some (dst, p2, v2)" and r: "place_segs (Suc i) p2 v2 szs ds = Some r"
    and ds': "ds' = \<lparr>sd_src = src, sd_dst = dst\<rparr> # r"
    by (auto split: option.splits)
  show ?case
  proof (cases sgs)
    case (Cons sg sgs')
    have "describe blob_typed (sg_dst sg) dst"
      using describe_place [of blob_typed, OF blob_typed_addr(1) t] 3(3) by (simp add: Cons seg_typed_def)
    moreover have "describe (if i = 0 then blob_typed else blob_shape) (sg_src sg) src"
      using s 3(3) describe_place [of blob_typed, OF blob_typed_addr(1)] by (auto simp: Cons seg_typed_def split: if_splits)
    moreover have "describe_segs seg_typed (Suc i) sgs' r" using 3(1) [OF s refl refl t refl refl r] 3(3) by (simp add: Cons)
    ultimately show ?thesis by (simp add: Cons ds' seg_typed_iff)
  qed simp
qed simp_all

lemma place_ctrl_data: "pm_data (place_ctrl sgs i off pm) = pm_data pm"
  by (induction sgs arbitrary: i off pm) (simp_all add: Let_def)

text \<open>
  C21. After a successful initialisation of the parameters every blob describes its node of the model,
  whatever the arrays held before: type, width, height and channels are the node's (of a sequence, type
  and width), and the stride is the one its size was computed with. That concerns the destinations
  of all segments and the sources of the first, whose strides are set; those of the others have the shape.
\<close>

theorem nnie_ParamInit_typed:
  assumes "describe_segs seg_room 0 (md_segs (pm_model pm)) (pm_data pm)"
    and "nnie_ParamInit mmz tsk steps cfg pm tr = Some (0, pm', tr')"
  shows "describe_segs seg_typed 0 (md_segs (pm_model pm)) (pm_data pm')"
proof -
  let ?segs = "md_segs (pm_model pm)" and ?pm = "FillForwardInfo cfg pm"
  have m: "pm_model (fill_segs cfg sgs i off q) = pm_model q" for sgs i off q
    by (induction sgs arbitrary: i off q) (simp_all add: fill_seg_def Let_def)
  have mod: "pm_model ?pm = pm_model pm" by (simp add: FillForwardInfo_def m)
  have "describe_segs seg_shape 0 ?segs (pm_data ?pm)"
    using fill_segs_shape [of 0 ?segs pm cfg 0] assms(1) by (simp add: FillForwardInfo_def)
  moreover obtain ret task tot pm1 szs where g: "GetTaskAndBlobBufSize tsk steps cfg ?pm = (ret, task, tot, pm1, szs)" by (metis surj_pair)
  ultimately have "ret = 0 \<Longrightarrow> describe_segs seg_typed 0 ?segs (pm_data pm1)"
    by (auto simp: GetTaskAndBlobBufSize_def Let_def mod split: prod.splits if_splits dest: seg_sizes_typed)
  moreover from assms(2) have "ret = 0" "\<exists>p v. place_segs 0 p v szs (pm_data pm1) = Some (pm_data pm')"
    unfolding nnie_ParamInit_def g by (auto simp: Let_def place_ctrl_data split: prod.splits if_splits) blast
  ultimately show ?thesis by (blast intro: place_segs_typed)
qed

theorem nnie_ParamInit_typed_witness:
  "\<exists>pm' tr'. nnie_ParamInit bump_mmz small_tsk (\<lambda>_ _. 0) small_cfg small_param [] = Some (0, pm', tr') \<and>
     describe_segs seg_typed 0 (md_segs small_model) (pm_data pm')"
proof -
  have m: "pm_model small_param = small_model" "describe_segs seg_room 0 (md_segs small_model) (pm_data small_param)"
    by (simp_all add: small_param_def small_model_def seg_room_def)
  show ?thesis using small_init nnie_ParamInit_typed [of small_param, unfolded m(1), OF m(2)] by blast
qed

end
