(* ===== verification/C_Float.thy ===== *)
theory C_Float
  imports Complex_Main AIPC_Prelude
begin

text \<open>
  The floating-point numbers of C on the target: \<open>float\<close> is binary32 and \<open>double\<close> binary64 of
  IEEE 754, every operation rounds its exact result to nearest, ties to even, in the format of
  its type (the target evaluates \<open>float\<close> expressions in \<open>float\<close>). A finite number is the
  rational number it stands for; the sign of a zero is not represented, nothing in the modelled
  code depends on it. A conversion to \<open>int\<close> truncates; the target's instruction saturates
  where C leaves it undefined.
\<close>

datatype cfloat = Fin rat | Pinf | Ninf | NaN

datatype fmt = F32 | F64

fun prec :: "fmt \<Rightarrow> nat" where
  "prec F32 = 24" | "prec F64 = 53"

text \<open>The exponents of the smallest and of the largest unit in the last place.\<close>

fun emin :: "fmt \<Rightarrow> int" where
  "emin F32 = -149" | "emin F64 = -1074"

fun emax :: "fmt \<Rightarrow> int" where
  "emax F32 = 104" | "emax F64 = 971"

section \<open>Rounding\<close>

definition round_even :: "rat \<Rightarrow> int" where
  "round_even m =
     (let f = \<lfloor>m\<rfloor>; d = m - of_int f
      in if d < 1/2 then f else if 1/2 < d then f + 1 else if even f then f else f + 1)"

lemma round_even_bounds: "\<bar>of_int (round_even m) - m\<bar> \<le> 1/2"
proof -
  define f where "f = \<lfloor>m\<rfloor>"
  have "of_int f \<le> m" "m < of_int f + 1" unfolding f_def by linarith+
  then show ?thesis unfolding round_even_def Let_def f_def [symmetric] by (auto simp: abs_if)
qed

lemma round_even_mono: "x \<le> y \<Longrightarrow> round_even x \<le> round_even y"
proof -
  assume le: "x \<le> y"
  have f: "\<lfloor>x\<rfloor> \<le> \<lfloor>y\<rfloor>" using le by (rule floor_mono)
  show ?thesis
  proof (cases "\<lfloor>x\<rfloor> = \<lfloor>y\<rfloor>")
    case True
    then show ?thesis using le by (auto simp: round_even_def Let_def)
  next
    case False
    then have "\<lfloor>x\<rfloor> + 1 \<le> \<lfloor>y\<rfloor>" using f by simp
    moreover have "round_even x \<le> \<lfloor>x\<rfloor> + 1" "\<lfloor>y\<rfloor> \<le> round_even y"
      by (simp_all add: round_even_def Let_def)
    ultimately show ?thesis by linarith
  qed
qed

lemma round_even_of_int [simp]: "round_even (of_int n) = n"
  by (simp add: round_even_def)

lemma round_even_le: "x \<le> of_int n \<Longrightarrow> round_even x \<le> n"
  using round_even_mono [of x "of_int n"] by simp

lemma round_even_ge: "of_int n \<le> x \<Longrightarrow> n \<le> round_even x"
  using round_even_mono [of "of_int n" x] by simp

lemma round_even_minus: "round_even (- x) = - round_even x"
proof -
  define f where "f = \<lfloor>x\<rfloor>"
  define d where "d = x - of_int f"
  have x: "x = of_int f + d" "0 \<le> d" "d < 1" unfolding d_def f_def by linarith+
  show ?thesis
  proof (cases "d = 0")
    case True
    then have "x = of_int f" using x(1) by simp
    then show ?thesis using round_even_of_int [of f] round_even_of_int [of "- f"] by simp
  next
    case False
    then have fl: "\<lfloor>- x\<rfloor> = - f - 1" using x by (intro floor_unique) auto
    have dd: "- x - of_int (- f - 1) = 1 - d" using x(1) by simp
    show ?thesis
      unfolding round_even_def Let_def fl dd f_def [symmetric] d_def [symmetric] by auto
  qed
qed

text \<open>The number of binary digits, and the exponent of a positive rational: \<open>2 ^ e \<le> x < 2 ^ (e + 1)\<close>.\<close>

function bits :: "int \<Rightarrow> nat" where
  "bits n = (if n \<le> 0 then 0 else Suc (bits (n div 2)))"
  by pat_completeness auto
termination by (relation "measure nat") auto

declare bits.simps [simp del]

lemma bits_1: "bits 1 = Suc 0"
  by (subst bits.simps, subst bits.simps) simp

lemma bits_bounds: "0 < n \<Longrightarrow> 2 ^ (bits n - 1) \<le> n \<and> n < 2 ^ bits n \<and> 0 < bits n"
proof (induction n rule: bits.induct)
  case (1 n)
  show ?case
  proof (cases "n = 1")
    case True
    then show ?thesis by (simp add: bits_1)
  next
    case False
    then have "0 < n div 2" using 1(2) by linarith
    with 1 have ih: "2 ^ (bits (n div 2) - 1) \<le> n div 2" "n div 2 < 2 ^ bits (n div 2)" "0 < bits (n div 2)"
      by simp_all
    have b: "bits n = Suc (bits (n div 2))" using 1(2) by (subst bits.simps) simp
    have "(2::int) ^ (bits n - 1) = 2 * 2 ^ (bits (n div 2) - 1)" using ih(3) b by (simp flip: power_Suc)
    also have "\<dots> \<le> 2 * (n div 2)" using ih(1) by simp
    finally have "2 ^ (bits n - 1) \<le> n" by linarith
    moreover have "n < 2 ^ bits n" using ih(2) b by simp
    ultimately show ?thesis by (simp add: b)
  qed
qed

definition rexp :: "rat \<Rightarrow> int" where
  "rexp x =
     (let (n, d) = quotient_of x; k = int (bits n) - int (bits d)
      in if 2 powi k \<le> x then k else k - 1)"

lemma rexp_bounds:
  assumes "0 < x"
  shows "2 powi rexp x \<le> x" "x < 2 powi (rexp x + 1)"
proof -
  obtain n d where q: "quotient_of x = (n, d)" by fastforce
  have d: "0 < d" using quotient_of_denom_pos [OF q] .
  have x: "x = of_int n / of_int d" using quotient_of_div [OF q] .
  have n: "0 < n" using assms d by (simp add: x zero_less_divide_iff)
  define a b where "a = bits n" and "b = bits d"
  have A: "2 ^ (a - 1) \<le> n" "n < 2 ^ a" "0 < a" using bits_bounds [of n] n by (auto simp: a_def)
  have B: "2 ^ (b - 1) \<le> d" "d < 2 ^ b" "0 < b" using bits_bounds [of d] d by (auto simp: b_def)
  have A': "(2::rat) ^ (a - 1) \<le> of_int n" "of_int n < (2::rat) ^ a"
  proof -
    have "of_int (2 ^ (a - 1)) \<le> (of_int n :: rat)" using A(1) by (simp only: of_int_le_iff)
    then show "(2::rat) ^ (a - 1) \<le> of_int n" by simp
    have "(of_int n :: rat) < of_int (2 ^ a)" using A(2) by (simp only: of_int_less_iff)
    then show "of_int n < (2::rat) ^ a" by simp
  qed
  have B': "(2::rat) ^ (b - 1) \<le> of_int d" "of_int d < (2::rat) ^ b"
  proof -
    have "of_int (2 ^ (b - 1)) \<le> (of_int d :: rat)" using B(1) by (simp only: of_int_le_iff)
    then show "(2::rat) ^ (b - 1) \<le> of_int d" by simp
    have "(of_int d :: rat) < of_int (2 ^ b)" using B(2) by (simp only: of_int_less_iff)
    then show "of_int d < (2::rat) ^ b" by simp
  qed
  define k where "k = int a - int b"
  have p: "(2::rat) powi int m = 2 ^ m" for m by simp
  have up: "x < 2 powi (k + 1)"
  proof -
    have "x < 2 ^ a / of_int d" unfolding x using A' d by (simp add: divide_strict_right_mono)
    also have "\<dots> \<le> 2 ^ a / 2 ^ (b - 1)" using B' d by (intro divide_left_mono) auto
    also have "\<dots> = 2 powi (int a - int (b - 1))" by (simp add: power_int_diff p)
    also have "int a - int (b - 1) = k + 1" using B(3) by (simp add: k_def of_nat_diff)
    finally show ?thesis .
  qed
  have lo: "2 powi (k - 1) \<le> x"
  proof -
    have "int (a - 1) - int b = k - 1" using A(3) by (simp add: k_def of_nat_diff)
    then have "2 powi (k - 1) = (2::rat) ^ (a - 1) / 2 ^ b" by (metis p power_int_diff zero_neq_numeral)
    also have "\<dots> \<le> of_int n / 2 ^ b" using A' by (intro divide_right_mono) auto
    also have "\<dots> \<le> x" unfolding x using B' d n by (intro divide_left_mono) auto
    finally show ?thesis .
  qed
  have r: "rexp x = (if 2 powi k \<le> x then k else k - 1)"
    by (simp add: rexp_def q Let_def k_def a_def b_def)
  show "2 powi rexp x \<le> x" using lo by (simp add: r)
  show "x < 2 powi (rexp x + 1)" using up by (simp add: r)
qed

definition ulp_exp :: "fmt \<Rightarrow> rat \<Rightarrow> int" where
  "ulp_exp f x = max (rexp \<bar>x\<bar> - int (prec f) + 1) (emin f)"

definition fmax :: "fmt \<Rightarrow> rat" where
  "fmax f = (2 ^ prec f - 1) * 2 powi emax f"

text \<open>The exact value rounded as if the exponent were unbounded above, and the number it becomes.\<close>

definition rnd_val :: "fmt \<Rightarrow> rat \<Rightarrow> rat" where
  "rnd_val f x =
     (if x = 0 then 0
      else let u = 2 powi ulp_exp f x in of_int (round_even (x / u)) * u)"

definition rnd :: "fmt \<Rightarrow> rat \<Rightarrow> cfloat" where
  "rnd f x = (let y = rnd_val f x in if fmax f < y then Pinf else if y < - fmax f then Ninf else Fin y)"

section \<open>Representable numbers\<close>

text \<open>The values of the format, but for the bound on the exponent.\<close>

definition repr :: "fmt \<Rightarrow> rat \<Rightarrow> bool" where
  "repr f x \<longleftrightarrow> (\<exists>m e. x = of_int m * 2 powi e \<and> \<bar>m\<bar> \<le> 2 ^ prec f \<and> emin f \<le> e)"

lemma prec_pos [simp]: "0 < prec f"
  by (cases f) auto

lemma repr_0 [simp]: "repr f 0"
  unfolding repr_def by (intro exI [of _ 0] exI [of _ "emin f"]) simp

lemma repr_minus [simp]: "repr f (- x) \<longleftrightarrow> repr f x"
proof -
  have "repr f (- x)" if r: "repr f x" for x
  proof -
    obtain m e where "x = of_int m * 2 powi e" "\<bar>m\<bar> \<le> 2 ^ prec f" "emin f \<le> e"
      using r unfolding repr_def by blast
    then show ?thesis unfolding repr_def by (intro exI [of _ "- m"] exI [of _ e]) simp
  qed
  from this [of x] this [of "- x"] show ?thesis by auto
qed

lemma repr_int: "\<bar>n\<bar> \<le> 2 ^ prec f \<Longrightarrow> repr f (of_int n)"
  unfolding repr_def by (intro exI [of _ n] exI [of _ 0]) (cases f; simp)

lemma repr_numeral_1 [simp]: "repr f 1"
  using repr_int [of 1 f] by simp

lemma powi_two_pos [simp]: "(0::rat) < 2 powi e"
  by (rule zero_less_power_int) simp

lemma powi_two_nonneg: "(0::rat) \<le> 2 powi e"
  by (rule less_imp_le) simp

lemma powi_two_mono: "a \<le> b \<Longrightarrow> (2::rat) powi a \<le> 2 powi b"
  by (rule power_int_increasing) auto

lemma powi_two_less_iff: "(2::rat) powi a < 2 powi b \<longleftrightarrow> a < b"
  by (metis linorder_not_le not_less_iff_gr_or_eq numeral_eq_one_iff one_less_numeral_iff
      power_int_strict_increasing powi_two_mono semiring_norm(76) semiring_norm(83))

lemma rexp_less: "0 < x \<Longrightarrow> x < 2 powi k \<Longrightarrow> rexp x < k"
proof -
  assume x: "0 < x" "x < 2 powi k"
  have "2 powi rexp x < (2::rat) powi k" using rexp_bounds(1) [OF x(1)] x(2) by (rule le_less_trans)
  then show "rexp x < k" by (simp only: powi_two_less_iff)
qed

lemma rexp_mono: "0 < x \<Longrightarrow> x \<le> y \<Longrightarrow> rexp x \<le> rexp y"
  using rexp_less [of x "rexp y + 1"] rexp_bounds(2) [of y] by force

lemma powi_shift: "(2::rat) powi a * 2 powi b = 2 powi (a + b)"
  by (simp add: power_int_add)

text \<open>A representable number is an integer multiple of its unit in the last place.\<close>

lemma repr_multiple:
  assumes "repr f x" "x \<noteq> 0"
  shows "\<exists>k. x = of_int k * 2 powi ulp_exp f x"
proof -
  obtain m e where me: "x = of_int m * 2 powi e" "\<bar>m\<bar> < 2 ^ prec f" "emin f \<le> e"
  proof -
    obtain m e where me: "x = of_int m * 2 powi e" "\<bar>m\<bar> \<le> 2 ^ prec f" "emin f \<le> e"
      using assms(1) unfolding repr_def by blast
    show ?thesis
    proof (cases "\<bar>m\<bar> = 2 ^ prec f")
      case False
      then show ?thesis using me that by force
    next
      case True
      have p: "(2::int) ^ prec f = 2 * 2 ^ (prec f - 1)" by (cases f) simp_all
      define m' where "m' = (if 0 \<le> m then 2 ^ (prec f - 1) else - (2 ^ (prec f - 1)) :: int)"
      have m: "m = 2 * m'" using True p by (auto simp: m'_def abs_if split: if_splits)
      have "\<bar>m'\<bar> < 2 ^ prec f" by (simp add: m'_def p)
      moreover have "x = of_int m' * 2 powi (e + 1)"
        using me(1) by (simp add: m power_int_add)
      ultimately show ?thesis using me(3) that by force
    qed
  qed
  have m0: "m \<noteq> 0" using me(1) assms(2) by auto
  have ax: "\<bar>x\<bar> = of_int \<bar>m\<bar> * 2 powi e" by (simp add: me(1) abs_mult)
  have "(of_int \<bar>m\<bar> :: rat) < of_int (2 ^ prec f)" using me(2) by (simp only: of_int_less_iff)
  then have "\<bar>x\<bar> < 2 ^ prec f * 2 powi e" unfolding ax by (intro mult_strict_right_mono) simp_all
  also have "\<dots> = 2 powi (int (prec f) + e)" by (simp add: power_int_add)
  finally have "rexp \<bar>x\<bar> < int (prec f) + e" using assms(2) by (intro rexp_less) simp_all
  then have u: "ulp_exp f x \<le> e" using me(3) by (simp add: ulp_exp_def)
  have "x = of_int m * 2 powi ((e - ulp_exp f x) + ulp_exp f x)" using me(1) by simp
  also have "\<dots> = of_int m * (2 ^ nat (e - ulp_exp f x) * 2 powi ulp_exp f x)"
    using u by (simp only: powi_shift [symmetric]) (simp add: power_int_def)
  also have "\<dots> = of_int (m * 2 ^ nat (e - ulp_exp f x)) * 2 powi ulp_exp f x" by simp
  finally show ?thesis by blast
qed

lemma rnd_val_repr [simp]:
  assumes "repr f x"
  shows "rnd_val f x = x"
proof (cases "x = 0")
  case True
  then show ?thesis by (simp add: rnd_val_def)
next
  case False
  define u :: rat where "u = 2 powi ulp_exp f x"
  obtain k where k: "x = of_int k * u" using repr_multiple [OF assms False] by (auto simp: u_def)
  have "u \<noteq> 0" by (simp add: u_def)
  then have "x / u = of_int k" using k by simp
  moreover have "rnd_val f x = of_int (round_even (x / u)) * u"
    using False by (simp add: rnd_val_def Let_def u_def)
  ultimately show ?thesis using k by simp
qed

lemma rnd_val_minus: "rnd_val f (- x) = - rnd_val f x"
  by (simp add: rnd_val_def Let_def ulp_exp_def round_even_minus)

lemma rnd_val_nonneg: "0 \<le> x \<Longrightarrow> 0 \<le> rnd_val f x"
  using round_even_ge [of 0 "x / 2 powi ulp_exp f x"] by (simp add: rnd_val_def Let_def)

lemma scaled_less: "x \<noteq> 0 \<Longrightarrow> \<bar>x\<bar> / 2 powi ulp_exp f x < of_int (2 ^ prec f)"
proof -
  assume "x \<noteq> 0"
  then have "\<bar>x\<bar> < 2 powi (rexp \<bar>x\<bar> + 1)" by (intro rexp_bounds) simp
  also have "\<dots> \<le> 2 powi (int (prec f) + ulp_exp f x)"
    by (rule powi_two_mono) (simp add: ulp_exp_def)
  also have "\<dots> = 2 ^ prec f * 2 powi ulp_exp f x" by (simp add: power_int_add)
  finally show ?thesis by (simp add: divide_less_eq)
qed

lemma repr_rnd_val: "repr f (rnd_val f x)"
proof (cases "x = 0")
  case True
  then show ?thesis by (simp add: rnd_val_def)
next
  case False
  define u where "u = ulp_exp f x"
  define z where "z = x / 2 powi u"
  have "\<bar>z\<bar> = \<bar>x\<bar> / 2 powi u" by (simp add: z_def abs_divide)
  then have "\<bar>z\<bar> < of_int (2 ^ prec f)" using scaled_less [OF False, of f] by (simp only: u_def)
  then have "z \<le> of_int (2 ^ prec f)" "of_int (- (2 ^ prec f)) \<le> z" by (auto simp: abs_less_iff)
  note zb = round_even_le [OF this(1)] round_even_ge [OF this(2)]
  then have "\<bar>round_even z\<bar> \<le> 2 ^ prec f" by linarith
  moreover have "rnd_val f x = of_int (round_even z) * 2 powi u"
    using False by (simp add: rnd_val_def Let_def u_def z_def)
  moreover have "emin f \<le> u" by (simp add: u_def ulp_exp_def)
  ultimately show ?thesis unfolding repr_def by blast
qed

lemma rnd_val_mono_pos:
  assumes "0 < x" "x \<le> y"
  shows "rnd_val f x \<le> rnd_val f y"
proof -
  define u v where "u = ulp_exp f x" and "v = ulp_exp f y"
  have uv: "u \<le> v" using rexp_mono [OF assms] assms by (simp add: u_def v_def ulp_exp_def)
  have rx: "rnd_val f x = of_int (round_even (x / 2 powi u)) * 2 powi u"
    and ry: "rnd_val f y = of_int (round_even (y / 2 powi v)) * 2 powi v"
    using assms by (simp_all add: rnd_val_def Let_def u_def v_def)
  show ?thesis
  proof (cases "u = v")
    case True
    have "x / 2 powi u \<le> y / 2 powi v" unfolding True using assms by (intro divide_right_mono) simp_all
    then have "round_even (x / 2 powi u) \<le> round_even (y / 2 powi v)" by (rule round_even_mono)
    then show ?thesis unfolding rx ry True by (intro mult_right_mono) simp_all
  next
    case False
    have "x / 2 powi u < of_int (2 ^ prec f)"
      using scaled_less [of x f] assms(1) unfolding u_def by (simp only: abs_of_pos less_imp_neq [symmetric] simp_thms)
    then have "x / 2 powi u \<le> of_int (2 ^ prec f)" by (rule less_imp_le)
    then have "round_even (x / 2 powi u) \<le> 2 ^ prec f" by (rule round_even_le)
    then have "(of_int (round_even (x / 2 powi u)) :: rat) \<le> of_int (2 ^ prec f)" by (simp only: of_int_le_iff)
    then have "rnd_val f x \<le> of_int (2 ^ prec f) * 2 powi u"
      unfolding rx by (rule mult_right_mono) (rule powi_two_nonneg)
    also have "\<dots> = 2 powi (int (prec f) + u)" by (simp add: power_int_add)
    also have "\<dots> \<le> 2 powi (int (prec f) - 1 + v)" using uv False by (intro powi_two_mono) simp
    also have "\<dots> = of_int (2 ^ (prec f - 1)) * 2 powi v"
    proof -
      have "(2::rat) powi (int (prec f - 1) + v) = of_int (2 ^ (prec f - 1)) * 2 powi v"
        by (simp add: power_int_add)
      moreover have "int (prec f) - 1 = int (prec f - 1)" by (cases f) auto
      ultimately show ?thesis by (simp only:)
    qed
    also have "\<dots> \<le> rnd_val f y"
    proof -
      have ve: "v = rexp y - int (prec f) + 1"
        using uv False assms by (auto simp: u_def v_def ulp_exp_def max_def split: if_splits)
      have "(2::rat) ^ (prec f - 1) * 2 powi v = 2 powi (int (prec f - 1) + v)" by (simp add: power_int_add)
      also have "int (prec f - 1) + v = rexp y" using ve by (cases f) auto
      also have "2 powi rexp y \<le> y" using rexp_bounds(1) [of y] assms by simp
      finally have "2 ^ (prec f - 1) * 2 powi v \<le> y" .
      then have "of_int (2 ^ (prec f - 1)) \<le> y / 2 powi v"
        by (simp only: pos_le_divide_eq [OF powi_two_pos] of_int_power of_int_numeral)
      then have "2 ^ (prec f - 1) \<le> round_even (y / 2 powi v)" by (rule round_even_ge)
      then have "(of_int (2 ^ (prec f - 1)) :: rat) \<le> of_int (round_even (y / 2 powi v))" by (simp only: of_int_le_iff)
      then show ?thesis unfolding ry by (rule mult_right_mono) (rule powi_two_nonneg)
    qed
    finally show ?thesis .
  qed
qed

lemma rnd_val_mono: "x \<le> y \<Longrightarrow> rnd_val f x \<le> rnd_val f y"
proof -
  assume le: "x \<le> y"
  consider "0 < x" | "x \<le> 0" "0 \<le> y" | "y < 0" by linarith
  then show ?thesis
  proof cases
    case 1
    then show ?thesis using le by (rule rnd_val_mono_pos)
  next
    case 2
    have "rnd_val f x \<le> 0" using rnd_val_nonneg [of "- x" f] 2 by (simp add: rnd_val_minus)
    also have "0 \<le> rnd_val f y" using 2 by (intro rnd_val_nonneg)
    finally show ?thesis .
  next
    case 3
    then have "rnd_val f (- y) \<le> rnd_val f (- x)" using le by (intro rnd_val_mono_pos) auto
    then show ?thesis by (simp add: rnd_val_minus)
  qed
qed

text \<open>Rounding stays between representable bounds.\<close>

lemma rnd_between:
  assumes "repr f a" "repr f b" "- fmax f \<le> a" "b \<le> fmax f" "a \<le> x" "x \<le> b"
  shows "\<exists>y. rnd f x = Fin y \<and> a \<le> y \<and> y \<le> b \<and> repr f y \<and> y = rnd_val f x"
proof -
  have "a \<le> rnd_val f x" "rnd_val f x \<le> b"
    using rnd_val_mono [OF assms(5), of f] rnd_val_mono [OF assms(6), of f] assms(1,2) by simp_all
  then show ?thesis using assms(3,4) repr_rnd_val [of f x] by (auto simp: rnd_def Let_def)
qed

lemma rnd_repr: "repr f x \<Longrightarrow> \<bar>x\<bar> \<le> fmax f \<Longrightarrow> rnd f x = Fin x"
  by (simp add: rnd_def Let_def abs_le_iff)

section \<open>Operations\<close>

fun fneg :: "cfloat \<Rightarrow> cfloat" where
  "fneg (Fin x) = Fin (- x)" | "fneg Pinf = Ninf" | "fneg Ninf = Pinf" | "fneg NaN = NaN"

fun fadd :: "fmt \<Rightarrow> cfloat \<Rightarrow> cfloat \<Rightarrow> cfloat" where
  "fadd f (Fin x) (Fin y) = rnd f (x + y)"
| "fadd f NaN b = NaN" | "fadd f a NaN = NaN"
| "fadd f Pinf Ninf = NaN" | "fadd f Ninf Pinf = NaN"
| "fadd f Pinf b = Pinf" | "fadd f a Pinf = Pinf"
| "fadd f Ninf b = Ninf" | "fadd f a Ninf = Ninf"

definition fsub :: "fmt \<Rightarrow> cfloat \<Rightarrow> cfloat \<Rightarrow> cfloat" where
  "fsub f a b = fadd f a (fneg b)"

text \<open>The sign of a number that is not a NaN.\<close>

fun fsgn :: "cfloat \<Rightarrow> int" where
  "fsgn (Fin x) = (if x < 0 then -1 else if 0 < x then 1 else 0)"
| "fsgn Pinf = 1" | "fsgn Ninf = -1" | "fsgn NaN = 0"

definition inf_of :: "int \<Rightarrow> cfloat" where
  "inf_of s = (if 0 < s then Pinf else if s < 0 then Ninf else NaN)"

fun fmul :: "fmt \<Rightarrow> cfloat \<Rightarrow> cfloat \<Rightarrow> cfloat" where
  "fmul f (Fin x) (Fin y) = rnd f (x * y)"
| "fmul f NaN b = NaN" | "fmul f a NaN = NaN"
| "fmul f a b = inf_of (fsgn a * fsgn b)"

text \<open>A division by zero is an infinity with the sign of the dividend, zero by zero is no number.\<close>

fun fdiv :: "fmt \<Rightarrow> cfloat \<Rightarrow> cfloat \<Rightarrow> cfloat" where
  "fdiv f (Fin x) (Fin y) = (if y = 0 then inf_of (fsgn (Fin x)) else rnd f (x / y))"
| "fdiv f NaN b = NaN" | "fdiv f a NaN = NaN"
| "fdiv f (Fin x) b = Fin 0"
| "fdiv f a (Fin y) = inf_of (fsgn a * (if y < 0 then -1 else 1))"
| "fdiv f a b = NaN"

fun flt :: "cfloat \<Rightarrow> cfloat \<Rightarrow> bool" where
  "flt NaN b = False" | "flt a NaN = False"
| "flt (Fin x) (Fin y) = (x < y)"
| "flt Pinf b = False" | "flt a Ninf = False"
| "flt a b = True"

fun fle :: "cfloat \<Rightarrow> cfloat \<Rightarrow> bool" where
  "fle NaN b = False" | "fle a NaN = False"
| "fle (Fin x) (Fin y) = (x \<le> y)"
| "fle Ninf b = True" | "fle a Pinf = True"
| "fle a b = False"

text \<open>The macros \<open>SAMPLE_SVP_NNIE_MAX\<close> and \<open>SAMPLE_SVP_NNIE_MIN\<close> on floats.\<close>

definition fMAX :: "cfloat \<Rightarrow> cfloat \<Rightarrow> cfloat" where
  "fMAX a b = (if flt b a then a else b)"

definition fMIN :: "cfloat \<Rightarrow> cfloat \<Rightarrow> cfloat" where
  "fMIN a b = (if flt a b then a else b)"

text \<open>Conversions: of an integer, between the formats, and to \<open>int\<close>.\<close>

definition of_s32 :: "fmt \<Rightarrow> int \<Rightarrow> cfloat" where
  "of_s32 f n = rnd f (of_int n)"

fun cvt :: "fmt \<Rightarrow> cfloat \<Rightarrow> cfloat" where
  "cvt f (Fin x) = rnd f x" | "cvt f a = a"

definition trunc :: "rat \<Rightarrow> int" where
  "trunc x = (if 0 \<le> x then \<lfloor>x\<rfloor> else - \<lfloor>- x\<rfloor>)"

fun to_s32 :: "cfloat \<Rightarrow> int" where
  "to_s32 (Fin x) = max (- 2147483648) (min 2147483647 (trunc x))"
| "to_s32 Pinf = 2147483647" | "to_s32 Ninf = - 2147483648" | "to_s32 NaN = 0"

text \<open>
  The square root, correctly rounded: the integer square root of the scaled argument has three
  bits more than the format, and a half stands for what lies between it and its successor.
\<close>

function isqrt :: "int \<Rightarrow> int" where
  "isqrt n = (if n \<le> 0 then 0 else let r = 2 * isqrt (n div 4) in if (r + 1) * (r + 1) \<le> n then r + 1 else r)"
  by pat_completeness auto
termination by (relation "measure nat") auto

declare isqrt.simps [simp del]

lemma isqrt_bounds: "0 \<le> n \<Longrightarrow> 0 \<le> isqrt n \<and> isqrt n * isqrt n \<le> n \<and> n < (isqrt n + 1) * (isqrt n + 1)"
proof (induction n rule: isqrt.induct)
  case (1 n)
  show ?case
  proof (cases "n = 0")
    case True
    then show ?thesis by (simp add: isqrt.simps [of 0])
  next
    case False
    define q where "q = isqrt (n div 4)"
    have ih: "0 \<le> q" "q * q \<le> n div 4" "n div 4 < (q + 1) * (q + 1)" using 1 False by (auto simp: q_def)
    have "4 * (q * q) \<le> n" "n < 4 * ((q + 1) * (q + 1))" using ih(2,3) by linarith+
    then have b: "(2 * q) * (2 * q) \<le> n" "n < (2 * q + 2) * (2 * q + 2)" by (simp_all add: algebra_simps)
    have "isqrt n = (if (2 * q + 1) * (2 * q + 1) \<le> n then 2 * q + 1 else 2 * q)"
      using False 1(2) by (subst isqrt.simps) (simp add: q_def Let_def)
    then show ?thesis using b ih(1) by (auto simp: not_le add.commute)
  qed
qed

definition sqrt_scale :: "fmt \<Rightarrow> rat \<Rightarrow> int" where
  "sqrt_scale f x = int (prec f) + 3 - rexp x div 2"

definition sqrt_val :: "fmt \<Rightarrow> rat \<Rightarrow> rat" where
  "sqrt_val f x =
     (let k = sqrt_scale f x; y = x * 4 powi k; r = isqrt \<lfloor>y\<rfloor>
      in (if of_int (r * r) = y then of_int r else of_int r + 1/2) / 2 powi k)"

fun fsqrt :: "fmt \<Rightarrow> cfloat \<Rightarrow> cfloat" where
  "fsqrt f (Fin x) = (if x < 0 then NaN else if x = 0 then Fin 0 else rnd f (sqrt_val f x))"
| "fsqrt f Pinf = Pinf" | "fsqrt f Ninf = NaN" | "fsqrt f NaN = NaN"

section \<open>Facts for the users of floats\<close>

lemma fmax_ge: "(2::rat) ^ 63 \<le> fmax f"
  by (cases f) (simp_all add: fmax_def)

lemma repr_bound: "\<bar>n\<bar> \<le> 2 ^ 24 \<Longrightarrow> repr f (of_int n)"
  by (rule repr_int) (cases f; simp)

lemma rnd_of_int: "\<bar>n\<bar> \<le> 2 ^ 24 \<Longrightarrow> rnd f (of_int n) = Fin (of_int n)"
proof (rule rnd_repr)
  assume n: "\<bar>n\<bar> \<le> 2 ^ 24"
  then show "repr f (of_int n)" by (rule repr_bound)
  have "(of_int \<bar>n\<bar> :: rat) \<le> of_int (2 ^ 24)" using n by (simp only: of_int_le_iff)
  then show "\<bar>of_int n\<bar> \<le> fmax f" using fmax_ge [of f] by simp
qed

text \<open>Rounding between two integer bounds that fit the format.\<close>

lemma rnd_in_ints:
  assumes "of_int a \<le> x" "x \<le> of_int b" "\<bar>a\<bar> \<le> 2 ^ 24" "\<bar>b\<bar> \<le> 2 ^ 24"
  shows "\<exists>y. rnd f x = Fin y \<and> of_int a \<le> y \<and> y \<le> of_int b"
proof -
  have r: "repr f (of_int a)" "repr f (of_int b)" using assms by (simp_all add: repr_bound)
  have "(of_int \<bar>a\<bar> :: rat) \<le> of_int (2 ^ 24)" "(of_int \<bar>b\<bar> :: rat) \<le> of_int (2 ^ 24)"
    using assms(3,4) by (simp_all only: of_int_le_iff)
  then have "\<bar>of_int a :: rat\<bar> \<le> 2 ^ 24" "\<bar>of_int b :: rat\<bar> \<le> 2 ^ 24" by simp_all
  then have "- fmax f \<le> of_int a" "of_int b \<le> fmax f"
    using fmax_ge [of f] by (auto simp: abs_le_iff)
  from rnd_between [OF r this assms(1,2)] show ?thesis by blast
qed

definition in_range :: "int \<Rightarrow> int \<Rightarrow> cfloat \<Rightarrow> bool" where
  "in_range a b v \<longleftrightarrow> (\<exists>y. v = Fin y \<and> of_int a \<le> y \<and> y \<le> of_int b)"

lemma in_rangeI: "of_int a \<le> y \<Longrightarrow> y \<le> of_int b \<Longrightarrow> in_range a b (Fin y)"
  by (auto simp: in_range_def)

lemma rnd_in_range:
  "of_int a \<le> x \<Longrightarrow> x \<le> of_int b \<Longrightarrow> \<bar>a\<bar> \<le> 2 ^ 24 \<Longrightarrow> \<bar>b\<bar> \<le> 2 ^ 24 \<Longrightarrow> in_range a b (rnd f x)"
  using rnd_in_ints unfolding in_range_def by metis

lemma fmul_unit: "in_range 0 1 a \<Longrightarrow> in_range 0 1 b \<Longrightarrow> in_range 0 1 (fmul f a b)"
  by (auto simp: in_range_def intro!: rnd_in_range [unfolded in_range_def, where a = 0 and b = 1, simplified] mult_le_one)

lemma fadd_unit:
  assumes "in_range 0 k a" "in_range 0 1 b" "0 \<le> k" "k < 2 ^ 24"
  shows "in_range 0 (k + 1) (fadd f a b)"
proof -
  obtain x y where xy: "a = Fin x" "b = Fin y" "0 \<le> x" "x \<le> of_int k" "0 \<le> y" "y \<le> 1"
    using assms(1,2) by (auto simp: in_range_def)
  then show ?thesis using assms(3,4) by (auto intro!: rnd_in_range)
qed

lemma trunc_bounds: "of_int a \<le> x \<Longrightarrow> x \<le> of_int b \<Longrightarrow> a \<le> trunc x \<and> trunc x \<le> b"
  unfolding trunc_def by (auto simp: le_floor_iff floor_le_iff not_le) linarith+

lemma to_s32_bounds:
  assumes "in_range a b v" "- 2147483648 \<le> a" "b \<le> 2147483647"
  shows "a \<le> to_s32 v \<and> to_s32 v \<le> b"
proof -
  obtain x where x: "v = Fin x" "of_int a \<le> x" "x \<le> of_int b" using assms(1) by (auto simp: in_range_def)
  from trunc_bounds [OF x(2,3)] assms(2,3) show ?thesis by (simp add: x(1))
qed

lemma flt_Fin [simp]: "flt (Fin x) (Fin y) \<longleftrightarrow> x < y"
  by simp

text \<open>Not a NaN and not below a bound.\<close>

definition at_least :: "rat \<Rightarrow> cfloat \<Rightarrow> bool" where
  "at_least a v \<longleftrightarrow> v = Pinf \<or> (\<exists>y \<ge> a. v = Fin y)"

lemma at_least_simps [simp]:
  "at_least a (Fin y) \<longleftrightarrow> a \<le> y" "at_least a Pinf" "\<not> at_least a Ninf" "\<not> at_least a NaN"
  by (auto simp: at_least_def)

lemma rnd_at_least:
  assumes "of_int n \<le> x" "\<bar>n\<bar> \<le> 2 ^ 24"
  shows "at_least (of_int n) (rnd f x)"
proof -
  have "of_int n \<le> rnd_val f x"
    using rnd_val_mono [OF assms(1), of f] repr_bound [OF assms(2), of f] by simp
  moreover have "- fmax f \<le> of_int n"
  proof -
    have "(of_int \<bar>n\<bar> :: rat) \<le> of_int (2 ^ 24)" using assms(2) by (simp only: of_int_le_iff)
    then show ?thesis using fmax_ge [of f] by simp
  qed
  ultimately show ?thesis by (auto simp: rnd_def Let_def at_least_def)
qed

lemma fmul_at_least_1:
  assumes "at_least 1 a" "at_least 1 b"
  shows "at_least 1 (fmul f a b)"
proof -
  have "1 \<le> x * y" if "1 \<le> x" "1 \<le> y" for x y :: rat
    using mult_mono [of 1 x 1 y] that by simp
  then have "at_least 1 (rnd f (x * y))" if "1 \<le> x" "1 \<le> y" for x y :: rat
    using rnd_at_least [of 1 "x * y" f] that by simp
  then show ?thesis using assms by (cases a; cases b) (simp_all add: inf_of_def)
qed

lemma fmul_at_least_0:
  assumes "at_least 1 a" "at_least 0 b" "b = Pinf \<or> a \<noteq> Pinf"
  shows "at_least 0 (fmul f a b)"
proof -
  have "at_least 0 (rnd f (x * y))" if "1 \<le> x" "0 \<le> y" for x y :: rat
    using rnd_at_least [of 0 "x * y" f] that by simp
  then show ?thesis using assms by (cases a; cases b) (simp_all add: inf_of_def)
qed

lemma half_at_least: "at_least 0 v \<Longrightarrow> at_least 0 (fmul f (Fin (1 / 2)) v)"
  using rnd_at_least [of 0 _ f] by (cases v) (simp_all add: inf_of_def)

lemma rnd_not_NaN [simp]: "rnd f x \<noteq> NaN" "NaN \<noteq> rnd f x"
  by (auto simp: rnd_def Let_def)

lemma repr_pow2: "repr f (2 ^ k)"
  unfolding repr_def by (intro exI [of _ 1] exI [of _ "int k"]) (cases f; simp)

lemma pow2_fmax: "k \<le> 63 \<Longrightarrow> (2::rat) ^ k \<le> fmax f"
  using power_increasing [of k 63 "2::rat"] fmax_ge [of f] by simp

lemma rnd_Fin_63:
  assumes "\<bar>x\<bar> \<le> 2 ^ 63"
  shows "\<exists>y. rnd f x = Fin y \<and> \<bar>y\<bar> \<le> 2 ^ 63"
proof -
  have "repr f (2 ^ 63)" by (rule repr_pow2)
  then have r: "repr f (- (2 ^ 63))" "repr f (2 ^ 63)" by simp_all
  from rnd_between [OF r, of x] assms fmax_ge [of f] show ?thesis by (auto simp: abs_le_iff)
qed

lemma trunc_mono: "x \<le> y \<Longrightarrow> trunc x \<le> trunc y"
proof -
  assume xy: "x \<le> y"
  consider "0 \<le> x" | "x < 0" "0 \<le> y" | "y < 0" using xy by linarith
  then show ?thesis
  proof cases
    case 1
    then show ?thesis using xy by (simp add: trunc_def floor_mono)
  next
    case 2
    have "trunc x = - \<lfloor>- x\<rfloor>" "trunc y = \<lfloor>y\<rfloor>" using 2 by (simp_all add: trunc_def)
    moreover have "0 \<le> \<lfloor>- x\<rfloor>" "0 \<le> \<lfloor>y\<rfloor>" using 2 by simp_all
    ultimately show ?thesis by linarith
  next
    case 3
    then show ?thesis using xy floor_mono [of "- y" "- x"] by (simp add: trunc_def)
  qed
qed

lemma to_s32_rnd_mono: "x \<le> y \<Longrightarrow> to_s32 (rnd f x) \<le> to_s32 (rnd f y)"
proof -
  assume "x \<le> y"
  then have v: "rnd_val f x \<le> rnd_val f y" by (rule rnd_val_mono)
  have b: "- 2147483648 \<le> to_s32 c \<and> to_s32 c \<le> 2147483647" for c by (cases c) simp_all
  have "0 \<le> fmax f" using fmax_ge [of f] by (rule order_trans [rotated]) simp
  with v trunc_mono [OF v] b show ?thesis by (auto simp: rnd_def Let_def)
qed

text \<open>A centre moved down and up by the same distance.\<close>

lemma spread_le:
  assumes "c \<noteq> NaN" "at_least 0 p"
  shows "to_s32 (fsub f c p) \<le> to_s32 (fadd f c p)"
proof -
  have "to_s32 (rnd f (x + - y)) \<le> to_s32 (rnd f (x + y))" if "0 \<le> y" for x y
    using that by (intro to_s32_rnd_mono) simp
  then show ?thesis using assms by (cases c) (auto simp: at_least_def fsub_def)
qed

text \<open>Small dyadic fractions are numbers of both formats.\<close>

lemma rnd_dyadic:
  assumes "\<bar>m\<bar> \<le> 2 ^ 24" "k \<le> 100"
  shows "rnd f (of_int m / 2 ^ k) = Fin (of_int m / 2 ^ k)"
proof (rule rnd_repr)
  have "(of_int m :: rat) / 2 ^ k = of_int m * 2 powi (- int k)"
    by (simp add: power_int_minus field_simps)
  moreover have "\<bar>m\<bar> \<le> 2 ^ prec f" "emin f \<le> - int k" using assms by (cases f; simp)+
  ultimately show "repr f (of_int m / 2 ^ k)" unfolding repr_def by blast
  have "\<bar>of_int m\<bar> / 2 ^ k \<le> (\<bar>of_int m\<bar> :: rat)"
    by (simp add: divide_le_eq mult_le_cancel_left1)
  also have "\<dots> = of_int \<bar>m\<bar>" by simp
  also have "(of_int \<bar>m\<bar> :: rat) \<le> of_int (2 ^ 24)" using assms(1) by (simp only: of_int_le_iff)
  also have "\<dots> \<le> fmax f" using pow2_fmax [of 24 f] by simp
  finally show "\<bar>of_int m / 2 ^ k\<bar> \<le> fmax f" by (simp add: abs_divide)
qed

end
