(* ===== verification/Nnie_Math.thy ===== *)
theory Nnie_Math
  imports C_Float
begin

text \<open>
  The floating-point helpers of the NNIE post-processing (sample_svp_nnie_software.c):
  \<open>SVP_NNIE_QuickExp\<close> with its table, \<open>SVP_NNIE_SoftMax\<close>, \<open>SVP_NNIE_Sigmoid\<close>,
  \<open>SVP_NNIE_SSD_SoftMax\<close> and \<open>SVP_NNIE_GetMaxVal\<close>. Arrays are lists.

  The value of \<open>exp\<close> is up to the C library: it is the parameter \<open>cexp\<close>, and \<open>exp_ok\<close> says what
  the standard promises of it.
\<close>

section \<open>The table-driven exponential\<close>

definition exp_table :: "rat list list" where
  "exp_table =
   [[1, 100024 / 10 ^ 5, 100049 / 10 ^ 5, 100073 / 10 ^ 5, 100098 / 10 ^ 5, 100122 / 10 ^ 5,
     100147 / 10 ^ 5, 100171 / 10 ^ 5, 100196 / 10 ^ 5, 10022 / 10 ^ 4, 100244 / 10 ^ 5,
     100269 / 10 ^ 5, 100293 / 10 ^ 5, 100318 / 10 ^ 5, 100342 / 10 ^ 5, 100367 / 10 ^ 5],
    [1, 100391 / 10 ^ 5, 100784 / 10 ^ 5, 101179 / 10 ^ 5, 101575 / 10 ^ 5, 101972 / 10 ^ 5,
     102371 / 10 ^ 5, 102772 / 10 ^ 5, 103174 / 10 ^ 5, 103578 / 10 ^ 5, 103984 / 10 ^ 5,
     104391 / 10 ^ 5, 104799 / 10 ^ 5, 105209 / 10 ^ 5, 105621 / 10 ^ 5, 106034 / 10 ^ 5],
    [1, 106449 / 10 ^ 5, 113315 / 10 ^ 5, 120623 / 10 ^ 5, 128403 / 10 ^ 5, 136684 / 10 ^ 5,
     145499 / 10 ^ 5, 154883 / 10 ^ 5, 164872 / 10 ^ 5, 175505 / 10 ^ 5, 186825 / 10 ^ 5,
     198874 / 10 ^ 5, 2117 / 10 ^ 3, 225353 / 10 ^ 5, 239888 / 10 ^ 5, 255359 / 10 ^ 5],
    [1, 271828 / 10 ^ 5, 738906 / 10 ^ 5, 200855 / 10 ^ 4, 545981 / 10 ^ 4, 148413 / 10 ^ 3,
     403429 / 10 ^ 3, 109663 / 10 ^ 2, 298096 / 10 ^ 2, 810308 / 10 ^ 2, 220265 / 10 ^ 1,
     598741 / 10 ^ 1, 162755, 442413, 12026 * 10 ^ 2, 326902 * 10 ^ 1],
    [1, 888611 * 10 ^ 1, 78963 * 10 ^ 9, 701674 * 10 ^ 15, 623515 * 10 ^ 22, 554062 * 10 ^ 29,
     554062 * 10 ^ 29, 554062 * 10 ^ 29, 554062 * 10 ^ 29, 554062 * 10 ^ 29, 554062 * 10 ^ 29,
     554062 * 10 ^ 29, 554062 * 10 ^ 29, 554062 * 10 ^ 29, 554062 * 10 ^ 29, 554062 * 10 ^ 29],
    [1, 999756 / 10 ^ 6, 999512 / 10 ^ 6, 999268 / 10 ^ 6, 999024 / 10 ^ 6, 99878 / 10 ^ 5,
     998536 / 10 ^ 6, 998292 / 10 ^ 6, 998049 / 10 ^ 6, 997805 / 10 ^ 6, 997562 / 10 ^ 6,
     997318 / 10 ^ 6, 997075 / 10 ^ 6, 996831 / 10 ^ 6, 996588 / 10 ^ 6, 996345 / 10 ^ 6],
    [1, 996101 / 10 ^ 6, 992218 / 10 ^ 6, 98835 / 10 ^ 5, 984496 / 10 ^ 6, 980658 / 10 ^ 6,
     976835 / 10 ^ 6, 973027 / 10 ^ 6, 969233 / 10 ^ 6, 965455 / 10 ^ 6, 961691 / 10 ^ 6,
     957941 / 10 ^ 6, 954207 / 10 ^ 6, 950487 / 10 ^ 6, 946781 / 10 ^ 6, 94309 / 10 ^ 5],
    [1, 939413 / 10 ^ 6, 882497 / 10 ^ 6, 829029 / 10 ^ 6, 778801 / 10 ^ 6, 731616 / 10 ^ 6,
     687289 / 10 ^ 6, 645649 / 10 ^ 6, 606531 / 10 ^ 6, 569783 / 10 ^ 6, 535261 / 10 ^ 6,
     502832 / 10 ^ 6, 472367 / 10 ^ 6, 443747 / 10 ^ 6, 416862 / 10 ^ 6, 391606 / 10 ^ 6],
    [1, 367879 / 10 ^ 6, 135335 / 10 ^ 6, 497871 / 10 ^ 7, 183156 / 10 ^ 7, 673795 / 10 ^ 8,
     247875 / 10 ^ 8, 911882 / 10 ^ 9, 335463 / 10 ^ 9, 12341 / 10 ^ 8, 453999 / 10 ^ 10,
     167017 / 10 ^ 10, 614421 / 10 ^ 11, 226033 / 10 ^ 11, 831529 / 10 ^ 12, 305902 / 10 ^ 12],
    [1, 112535 / 10 ^ 12, 126642 / 10 ^ 19, 142516 / 10 ^ 26, 160381 / 10 ^ 33, 180485 / 10 ^ 40,
     203048 / 10 ^ 47, 0, 0, 0, 0, 0, 0, 0, 0, 0]]"

definition s_af32ExpCoef :: "nat \<Rightarrow> nat \<Rightarrow> cfloat" where
  "s_af32ExpCoef r k = rnd F32 (exp_table ! r ! k)"

text \<open>
  The four-bit groups of the argument select one factor each; the groups above bit 20 are
  ignored. \<open>r\<close> is the first row of the table that is used.
\<close>

definition nibble :: "int \<Rightarrow> nat \<Rightarrow> nat" where
  "nibble v k = nat (v div 16 ^ k mod 16)"

definition exp_product :: "nat \<Rightarrow> int \<Rightarrow> cfloat" where
  "exp_product r v =
     fmul F32 (fmul F32 (fmul F32 (fmul F32
       (s_af32ExpCoef r (nibble v 0)) (s_af32ExpCoef (r + 1) (nibble v 1)))
       (s_af32ExpCoef (r + 2) (nibble v 2))) (s_af32ExpCoef (r + 3) (nibble v 3)))
       (s_af32ExpCoef (r + 4) (nibble v 4))"

definition QuickExp :: "int \<Rightarrow> cfloat" where
  "QuickExp v = (if v < 0 then exp_product 5 (s32 (- v)) else exp_product 0 v)"

section \<open>Softmax, sigmoid, maximum\<close>

definition SoftMax :: "cfloat list \<Rightarrow> cfloat list" where
  "SoftMax xs =
     (let mx = fold (\<lambda>x m. if flt m x then x else m) xs (Fin 0);
          es = map (\<lambda>x. QuickExp (to_s32 (fmul F32 (fsub F32 x mx) (of_s32 F32 4096)))) xs;
          sm = fold (\<lambda>e s. fadd F32 s e) es (Fin 0)
      in map (\<lambda>e. fdiv F32 e sm) es)"

text \<open>The macro \<open>SAMPLE_SVP_NNIE_SIGMOID\<close>.\<close>

definition SIGMOID :: "(cfloat \<Rightarrow> cfloat) \<Rightarrow> cfloat \<Rightarrow> cfloat" where
  "SIGMOID cexp x = cvt F32 (fdiv F64 (Fin 1) (fadd F64 (Fin 1) (cexp (cvt F64 (fneg x)))))"

definition Sigmoid :: "(cfloat \<Rightarrow> cfloat) \<Rightarrow> cfloat list \<Rightarrow> cfloat list" where
  "Sigmoid cexp xs = map (SIGMOID cexp) xs"

definition SSD_SoftMax :: "(cfloat \<Rightarrow> cfloat) \<Rightarrow> int list \<Rightarrow> int list" where
  "SSD_SoftMax cexp xs =
     (let mx = fold (\<lambda>x m. if m < x then x else m) xs 0;
          es = map (\<lambda>x. to_s32 (fmul F64 (Fin 4096)
                 (cexp (cvt F64 (fdiv F32 (of_s32 F32 (s32 (x - mx))) (of_s32 F32 4096)))))) xs;
          sm = fold (\<lambda>e s. s32 (s + e)) es 0
      in map (\<lambda>e. to_s32 (fmul F32 (fdiv F32 (of_s32 F32 e) (of_s32 F32 sm)) (of_s32 F32 4096))) es)"

text \<open>The loop from index \<open>i\<close> on: the largest value so far and where it was. The array is not empty.\<close>

fun max_from :: "cfloat list \<Rightarrow> nat \<Rightarrow> cfloat \<Rightarrow> nat \<Rightarrow> cfloat \<times> nat" where
  "max_from [] i m k = (m, k)"
| "max_from (x # xs) i m k = (if flt m x then max_from xs (Suc i) x i else max_from xs (Suc i) m k)"

definition GetMaxVal :: "cfloat list \<Rightarrow> cfloat \<times> nat" where
  "GetMaxVal xs = max_from (tl xs) 1 (hd xs) 0"

text \<open>What the C standard and its library promise of \<open>exp\<close>: its signs, bounds and special values.\<close>

definition exp_ok :: "(cfloat \<Rightarrow> cfloat) \<Rightarrow> bool" where
  "exp_ok cexp \<longleftrightarrow> cexp (Fin 0) = Fin 1 \<and> cexp Ninf = Fin 0 \<and> cexp Pinf = Pinf \<and> cexp NaN = NaN \<and>
     (\<forall>x \<le> 0. in_range 0 1 (cexp (Fin x))) \<and>
     (\<forall>x \<ge> 0. cexp (Fin x) = Pinf \<or> (\<exists>y \<ge> 1. cexp (Fin x) = Fin y))"

text \<open>An instance, for the witnesses.\<close>

fun step_exp :: "cfloat \<Rightarrow> cfloat" where
  "step_exp (Fin x) = (if x < 0 then Fin 0 else if x = 0 then Fin 1 else Pinf)"
| "step_exp Ninf = Fin 0" | "step_exp a = a"

lemma step_exp_ok: "exp_ok step_exp"
  by (auto simp: exp_ok_def in_range_def)

section \<open>Ranges\<close>

text \<open>A number of the format between 0 and 1.\<close>

definition unit_num :: "cfloat \<Rightarrow> bool" where
  "unit_num v \<longleftrightarrow> (\<exists>y. v = Fin y \<and> 0 \<le> y \<and> y \<le> 1 \<and> repr F32 y)"

lemma fmax_big: "(2::rat) ^ 24 \<le> fmax f"
  using fmax_ge [of f] by simp

lemma repr_pow24: "repr f (2 ^ 24)"
  using repr_bound [of "2 ^ 24" f] by simp

lemma rnd_unit:
  assumes "0 \<le> x" "x \<le> 1"
  shows "unit_num (rnd F32 x)"
proof -
  have "- fmax F32 \<le> 0" "1 \<le> fmax F32" using fmax_big [of F32] by simp_all
  from rnd_between [OF repr_0 repr_numeral_1 this assms] show ?thesis by (auto simp: unit_num_def)
qed

lemma unit_mult: "unit_num a \<Longrightarrow> unit_num b \<Longrightarrow> unit_num (fmul F32 a b)"
  by (auto simp: unit_num_def intro!: rnd_unit [unfolded unit_num_def] mult_le_one)

lemma exp_table_unit:
  "list_all (\<lambda>row. length row = 16 \<and> list_all (\<lambda>c. 0 \<le> c \<and> c \<le> 1) row) (drop 5 exp_table)"
  "length exp_table = 10" "list_all (\<lambda>row. row ! 0 = 1) exp_table"
  by (simp_all add: exp_table_def)

lemma nibble_less: "nibble v k < 16"
  by (simp add: nibble_def nat_less_iff)

lemma coef_unit:
  assumes "5 \<le> r" "r < 10" "k < 16"
  shows "unit_num (s_af32ExpCoef r k)"
proof -
  let ?T = "drop 5 exp_table"
  have e: "?T ! (r - 5) = exp_table ! r" "r - 5 < length ?T"
    using assms exp_table_unit(2) by simp_all
  have "\<forall>i < length ?T. length (?T ! i) = 16 \<and> list_all (\<lambda>c. 0 \<le> c \<and> c \<le> 1) (?T ! i)"
    using exp_table_unit(1) unfolding list_all_length [of _ ?T] .
  then have "length (exp_table ! r) = 16 \<and> list_all (\<lambda>c. 0 \<le> c \<and> c \<le> 1) (exp_table ! r)"
    using e by metis
  then have "0 \<le> exp_table ! r ! k \<and> exp_table ! r ! k \<le> 1" using assms(3) by (simp add: list_all_length)
  then show ?thesis unfolding s_af32ExpCoef_def by (intro rnd_unit) simp_all
qed

lemma exp_product_unit: "unit_num (exp_product 5 v)"
  unfolding exp_product_def by (intro unit_mult coef_unit nibble_less) simp_all

lemma rnd_1 [simp]: "rnd f 1 = Fin 1"
  using rnd_of_int [of 1 f] by simp

lemma rnd_0 [simp]: "rnd f 0 = Fin 0"
  using rnd_of_int [of 0 f] by simp

lemma coef_0: "r < 10 \<Longrightarrow> s_af32ExpCoef r 0 = Fin 1"
  using exp_table_unit(2,3) by (simp add: s_af32ExpCoef_def list_all_length)

lemma exp_product_0: "r < 6 \<Longrightarrow> \<forall>k < 5. nibble v k = 0 \<Longrightarrow> exp_product r v = Fin 1"
  by (simp add: exp_product_def coef_0)

lemma QuickExp_0: "QuickExp 0 = Fin 1"
  by (simp add: QuickExp_def exp_product_0 nibble_def)

lemma QuickExp_unit: "v \<le> 0 \<Longrightarrow> unit_num (QuickExp v)"
proof (cases "v = 0")
  case True
  then show ?thesis by (simp add: QuickExp_0 unit_num_def)
next
  case False
  assume "v \<le> 0"
  then show ?thesis using False by (simp add: QuickExp_def exp_product_unit)
qed

lemma exp_table_ge_1: "list_all (\<lambda>row. length row = 16 \<and> list_all (\<lambda>c. 1 \<le> c) row) (take 5 exp_table)"
  by (simp add: exp_table_def)

lemma coef_at_least_1:
  assumes "r < 5" "k < 16"
  shows "at_least 1 (s_af32ExpCoef r k)"
proof -
  have "list_all (\<lambda>c. 1 \<le> c) (exp_table ! r)" "length (exp_table ! r) = 16"
    using exp_table_ge_1 exp_table_unit(2) assms(1) by (simp_all add: list_all_length)
  then have "1 \<le> exp_table ! r ! k" using assms(2) by (simp add: list_all_length)
  then show ?thesis using rnd_at_least [of 1] by (simp add: s_af32ExpCoef_def)
qed

lemma exp_product_at_least_1: "at_least 1 (exp_product 0 v)"
  unfolding exp_product_def by (intro fmul_at_least_1 coef_at_least_1 nibble_less) simp_all

lemma QuickExp_at_least_0: "at_least 0 (QuickExp v)" "v \<ge> 0 \<Longrightarrow> at_least 1 (QuickExp v)"
  "v < 0 \<Longrightarrow> QuickExp v \<noteq> Pinf"
proof -
  have "at_least 0 (exp_product 0 v)" using exp_product_at_least_1 [of v] by (auto simp: at_least_def)
  then show "at_least 0 (QuickExp v)"
    using exp_product_unit [of "s32 (- v)"] by (auto simp: QuickExp_def unit_num_def)
  show "v \<ge> 0 \<Longrightarrow> at_least 1 (QuickExp v)" using exp_product_at_least_1 by (simp add: QuickExp_def)
  show "v < 0 \<Longrightarrow> QuickExp v \<noteq> Pinf"
    using exp_product_unit [of "s32 (- v)"] by (auto simp: QuickExp_def unit_num_def)
qed

text \<open>Not above zero, and not a NaN.\<close>

definition nonpos :: "cfloat \<Rightarrow> bool" where
  "nonpos v \<longleftrightarrow> v = Ninf \<or> (\<exists>y \<le> 0. v = Fin y)"

lemma rnd_nonpos: "x \<le> 0 \<Longrightarrow> nonpos (rnd f x)"
  using rnd_val_mono [of x 0 f] fmax_ge [of f] by (auto simp: nonpos_def rnd_def Let_def)

lemma nonpos_scale: "nonpos v \<Longrightarrow> nonpos (fmul F32 v (Fin 4096))"
proof -
  assume "nonpos v"
  then consider "v = Ninf" | y where "v = Fin y" "y * 4096 \<le> 0" by (auto simp: nonpos_def)
  then show ?thesis by cases (auto simp: rnd_nonpos, simp add: nonpos_def inf_of_def)
qed

lemma to_s32_nonpos: "nonpos v \<Longrightarrow> to_s32 v \<le> 0"
proof -
  assume "nonpos v"
  then consider "v = Ninf" | y where "v = Fin y" "trunc y \<le> 0" by (auto simp: nonpos_def trunc_def)
  then show ?thesis by cases (simp_all add: min_def max_def)
qed

lemma of_s32_4096 [simp]: "of_s32 f 4096 = Fin 4096"
  using rnd_of_int [of 4096 f] by (simp add: of_s32_def)

section \<open>Softmax\<close>

lemma fold_max_Fin:
  "\<exists>m'. fold (\<lambda>x m. if flt m x then x else m) (map Fin xs) (Fin m) = Fin m' \<and> m \<le> m' \<and>
     (\<forall>x \<in> set xs. x \<le> m') \<and> (m' = m \<or> m' \<in> set xs)"
proof (induction xs arbitrary: m)
  case Nil
  then show ?case by simp
next
  case (Cons x xs)
  obtain m' where "fold (\<lambda>x m. if flt m x then x else m) (map Fin xs) (Fin (max m x)) = Fin m'"
    "max m x \<le> m'" "\<forall>x \<in> set xs. x \<le> m'" "m' = max m x \<or> m' \<in> set xs" using Cons by blast
  moreover have "(if flt (Fin m) (Fin x) then Fin x else Fin m) = Fin (max m x)" by (simp add: max_def)
  ultimately show ?case by (auto simp: max_def split: if_splits)
qed

lemma rnd_sum:
  assumes "repr F32 x" "repr F32 y" "0 \<le> x" "0 \<le> y" "x + y \<le> 2 ^ 24"
  shows "\<exists>z. rnd F32 (x + y) = Fin z \<and> x \<le> z \<and> y \<le> z \<and> repr F32 z"
proof -
  have lim: "- fmax F32 \<le> x" "- fmax F32 \<le> y" using assms(3,4) fmax_big [of F32] by simp_all
  from rnd_between [OF assms(1) repr_pow24 lim(1) fmax_big _ assms(5)]
    rnd_between [OF assms(2) repr_pow24 lim(2) fmax_big _ assms(5)]
  show ?thesis using assms(3,4) by auto
qed

lemma rnd_sum_le:
  assumes "0 \<le> x" "x \<le> of_nat k" "0 \<le> y" "y \<le> 1" "k < 2 ^ 24" "rnd F32 (x + y) = Fin z"
  shows "z \<le> of_nat (Suc k)"
proof -
  have k: "\<bar>int (Suc k)\<bar> \<le> 2 ^ 24" using assms(5) by simp
  have "x + y \<le> of_int (int (Suc k))" "of_int 0 \<le> x + y" using assms(1-4) by simp_all
  from rnd_in_ints [OF this(2,1) _ k, of F32] assms(6) show ?thesis by auto
qed

lemma fold_sum:
  assumes "\<forall>e \<in> set es. unit_num e" "repr F32 s" "0 \<le> s" "s \<le> of_nat k" "k + length es \<le> 2 ^ 24"
  shows "\<exists>z. fold (\<lambda>e s. fadd F32 s e) es (Fin s) = Fin z \<and> s \<le> z \<and> (\<forall>y. Fin y \<in> set es \<longrightarrow> y \<le> z) \<and> repr F32 z"
  using assms
proof (induction es arbitrary: s k)
  case Nil
  then show ?case by simp
next
  case (Cons e es)
  obtain y where y: "e = Fin y" "0 \<le> y" "y \<le> 1" "repr F32 y" using Cons.prems(1) by (auto simp: unit_num_def)
  have "(of_nat (k + 1) :: rat) \<le> of_nat (2 ^ 24)" using Cons.prems(5) by (simp only: of_nat_le_iff) simp
  then have "s + y \<le> 2 ^ 24" using Cons.prems(4) y(3) by simp
  from rnd_sum [OF Cons.prems(2) y(4) Cons.prems(3) y(2) this]
  obtain z where z: "rnd F32 (s + y) = Fin z" "s \<le> z" "y \<le> z" "repr F32 z" by blast
  have "z \<le> of_nat (Suc k)"
    by (rule rnd_sum_le [OF Cons.prems(3,4) y(2,3) _ z(1)]) (use Cons.prems(5) in simp)
  then obtain w where "fold (\<lambda>e s. fadd F32 s e) es (Fin z) = Fin w" "z \<le> w"
    "\<forall>y. Fin y \<in> set es \<longrightarrow> y \<le> w" "repr F32 w"
    using Cons.IH [of z "Suc k"] Cons.prems z by auto
  then show ?case using z by (auto simp: y(1))
qed

text \<open>
  \<open>SVP_NNIE_SoftMax\<close> on finite inputs, at least one of which is not negative, yields numbers
  between 0 and 1, one for each input: no overflow, no division by zero, no NaN.
\<close>

lemma SoftMax_range:
  assumes "length xs \<le> 2 ^ 24" "\<exists>x \<in> set xs. 0 \<le> x"
  shows "list_all (in_range 0 1) (SoftMax (map Fin xs)) \<and> length (SoftMax (map Fin xs)) = length xs"
proof -
  obtain m where m: "fold (\<lambda>x m. if flt m x then x else m) (map Fin xs) (Fin 0) = Fin m" "0 \<le> m"
    "\<forall>x \<in> set xs. x \<le> m" "m = 0 \<or> m \<in> set xs" using fold_max_Fin by blast
  have min: "m \<in> set xs" using assms(2) m by force
  define g where "g = (\<lambda>x. QuickExp (to_s32 (fmul F32 (fsub F32 x (Fin m)) (of_s32 F32 4096))))"
  define es where "es = map g (map Fin xs)"
  have unit: "unit_num (g (Fin x))" if "x \<le> m" for x
    unfolding g_def using that
    by (intro QuickExp_unit to_s32_nonpos) (simp add: fsub_def nonpos_scale rnd_nonpos)
  have one: "g (Fin m) = Fin 1" by (simp add: g_def fsub_def trunc_def QuickExp_0)
  have es: "\<forall>e \<in> set es. unit_num e" "Fin 1 \<in> set es"
    using unit m(3) one min by (auto simp: es_def intro!: image_eqI [of _ _ m])
  obtain z where z: "fold (\<lambda>e s. fadd F32 s e) es (Fin 0) = Fin z" "\<forall>y. Fin y \<in> set es \<longrightarrow> y \<le> z"
    using fold_sum [OF es(1), of 0 0] assms(1) by (auto simp: es_def)
  then have z1: "1 \<le> z" using es(2) by blast
  have S: "SoftMax (map Fin xs) = map (\<lambda>e. fdiv F32 e (Fin z)) es"
    using z(1) by (simp add: SoftMax_def Let_def m(1) es_def g_def)
  have "in_range 0 1 (fdiv F32 e (Fin z))" if e: "e \<in> set es" for e
  proof -
    obtain y where y: "e = Fin y" "0 \<le> y" using es(1) e by (auto simp: unit_num_def)
    then have "y \<le> z" using z(2) e by blast
    then have "0 \<le> y / z" "y / z \<le> 1" using y z1 by simp_all
    then show ?thesis using y z1 by (auto intro!: rnd_in_range)
  qed
  then show ?thesis by (simp add: S list_all_iff es_def)
qed

lemma SoftMax_range_witness: "list_all (in_range 0 1) (SoftMax [Fin (3/2), Fin (-1), Fin 0])"
  using SoftMax_range [of "[3/2, -1, 0]"] by simp

text \<open>
  \<open>SVP_NNIE_QuickExp\<close> looks at 20 bits only: at -256.0 (in Q12) it is 1 again instead of being
  practically 0, and \<open>SVP_NNIE_SoftMax\<close> gives two scores that are 256 apart the same probability.
\<close>

lemma QuickExp_wraps:
  "QuickExp (- 1048576) = Fin 1 \<and> SoftMax [Fin 0, Fin (- 256)] = [Fin (1/2), Fin (1/2)]"
proof -
  have q: "QuickExp (- 1048576) = Fin 1"
    by (simp add: QuickExp_def s32_def exp_product_def nibble_def coef_0)
  have "rnd F32 (- 256) = Fin (- 256)" "rnd F32 (- 1048576) = Fin (- 1048576)" "rnd F32 2 = Fin 2"
    using rnd_of_int [of "- 256" F32] rnd_of_int [of "- 1048576" F32] rnd_of_int [of 2 F32] by simp_all
  moreover have "rnd F32 (1/2) = Fin (1/2)"
  proof (rule rnd_repr)
    show "repr F32 (1/2)" unfolding repr_def by (intro exI [of _ 1] exI [of _ "-1"]) (simp add: power_int_minus)
    show "\<bar>1/2\<bar> \<le> fmax F32" using fmax_big [of F32] by simp
  qed
  ultimately have "SoftMax [Fin 0, Fin (- 256)] = [Fin (1/2), Fin (1/2)]"
    by (simp add: SoftMax_def fsub_def Let_def trunc_def QuickExp_0 q)
  with q show ?thesis by simp
qed

section \<open>The integer softmax of SSD\<close>

lemma fold_max_int:
  "\<exists>m. fold (\<lambda>x m. if m < x then x else m) xs m0 = m \<and> m0 \<le> m \<and> (\<forall>x \<in> set xs. x \<le> m) \<and>
     (m = m0 \<or> m \<in> set (xs :: int list))"
proof (induction xs arbitrary: m0)
  case (Cons x xs)
  have "(if m0 < x then x else m0) = max m0 x" by simp
  then show ?case using Cons [of "max m0 x"] by auto
qed simp

lemma fold_s32_sum:
  assumes "\<forall>e \<in> set es. 0 \<le> e \<and> e \<le> 4096" "0 \<le> s" "s + 4096 * int (length es) < 2147483648"
  shows "fold (\<lambda>e s. s32 (s + e)) es s = s + sum_list es"
  using assms
proof (induction es arbitrary: s)
  case (Cons e es)
  then have "s32 (s + e) = s + e" by (intro s32_id) (auto simp: in_s32_def)
  then show ?case using Cons.IH [of "s + e"] Cons.prems by simp
qed simp

lemma nonpos_div: "nonpos v \<Longrightarrow> nonpos (fdiv F32 v (Fin 4096))"
proof -
  assume "nonpos v"
  then consider "v = Ninf" | y where "v = Fin y" "y / 4096 \<le> 0" by (auto simp: nonpos_def)
  then show ?thesis by cases (auto simp: rnd_nonpos, simp add: nonpos_def inf_of_def)
qed

lemma nonpos_cvt: "nonpos v \<Longrightarrow> nonpos (cvt f v)"
proof -
  assume "nonpos v"
  then consider "v = Ninf" | y where "v = Fin y" "y \<le> 0" by (auto simp: nonpos_def)
  then show ?thesis by cases (auto simp: rnd_nonpos, simp add: nonpos_def)
qed

lemma exp_nonpos: "exp_ok cexp \<Longrightarrow> nonpos v \<Longrightarrow> in_range 0 1 (cexp v)"
  by (auto simp: exp_ok_def nonpos_def in_range_def)

lemma scale_range:
  assumes "in_range 0 1 v"
  shows "in_range 0 4096 (fmul f (Fin 4096) v)" "in_range 0 4096 (fmul f v (Fin 4096))"
proof -
  obtain y where y: "v = Fin y" "0 \<le> y" "y \<le> 1" using assms by (auto simp: in_range_def)
  show "in_range 0 4096 (fmul f (Fin 4096) v)" "in_range 0 4096 (fmul f v (Fin 4096))"
    using y by (auto intro!: rnd_in_range)
qed

text \<open>
  \<open>SVP_NNIE_SSD_SoftMax\<close> on at most 4096 scores, one of them not negative: every result is a
  probability in Q12, between 0 and 4096.
\<close>

lemma SSD_SoftMax_range:
  assumes "exp_ok cexp" "length xs \<le> 4096" "\<forall>x \<in> set xs. \<bar>x\<bar> \<le> 1073741824" "\<exists>x \<in> set xs. 0 \<le> x"
  shows "\<forall>e \<in> set (SSD_SoftMax cexp xs). 0 \<le> e \<and> e \<le> 4096"
proof -
  obtain m where m: "fold (\<lambda>x m. if m < x then x else m) xs 0 = m" "0 \<le> m" "\<forall>x \<in> set xs. x \<le> m"
    "m = 0 \<or> m \<in> set xs" using fold_max_int by blast
  have ms: "m \<in> set xs" using m assms(4) by force
  have r4: "rnd f 4096 = Fin 4096" for f using rnd_of_int [of 4096 f] by simp
  define g where "g = (\<lambda>x. to_s32 (fmul F64 (Fin 4096)
                 (cexp (cvt F64 (fdiv F32 (of_s32 F32 (s32 (x - m))) (of_s32 F32 4096))))))"
  have diff: "- 2147483648 \<le> x - m \<and> x - m \<le> 0" if "x \<in> set xs" for x
  proof -
    have "\<bar>x\<bar> \<le> 1073741824" "\<bar>m\<bar> \<le> 1073741824" "x \<le> m" using assms(3) that ms m(3) by blast+
    then show ?thesis by linarith
  qed
  have g: "0 \<le> g x \<and> g x \<le> 4096" if "x \<in> set xs" for x
  proof -
    have "s32 (x - m) = x - m" using diff [OF that] by (intro s32_id) (simp add: in_s32_def)
    then have "nonpos (of_s32 F32 (s32 (x - m)))" using m(3) that by (simp add: of_s32_def rnd_nonpos)
    then have "in_range 0 1 (cexp (cvt F64 (fdiv F32 (of_s32 F32 (s32 (x - m))) (of_s32 F32 4096))))"
      using assms(1) by (intro exp_nonpos nonpos_cvt) (simp_all add: nonpos_div)
    from to_s32_bounds [OF scale_range(1) [OF this, of F64]] show ?thesis by (simp add: g_def)
  qed
  have gm: "g m = 4096" using assms(1) by (simp add: g_def s32_def of_s32_def exp_ok_def r4 trunc_def)
  define es where "es = map g xs"
  have es: "\<forall>e \<in> set es. 0 \<le> e \<and> e \<le> 4096" "4096 \<in> set es" using g gm ms by (auto simp: es_def)
  have le: "e \<le> sum_list es" if "e \<in> set es" for e
    using member_le_sum_list [of e es] es(1) that by simp
  have "sum_list es \<le> (\<Sum>e\<leftarrow>es. 4096)" using es(1) by (intro sum_list_mono [of es "\<lambda>e. e", simplified]) auto
  also have "\<dots> = int (length xs) * 4096" by (simp add: sum_list_triv es_def del: map_map)
  finally have lim: "sum_list es \<le> 16777216" using assms(2) by simp
  have sm: "fold (\<lambda>e s. s32 (s + e)) es 0 = sum_list es"
    using fold_s32_sum [OF es(1), of 0] assms(2) by (simp add: es_def)
  have S: "SSD_SoftMax cexp xs =
      map (\<lambda>e. to_s32 (fmul F32 (fdiv F32 (of_s32 F32 e) (of_s32 F32 (sum_list es))) (of_s32 F32 4096))) es"
    using sm unfolding SSD_SoftMax_def Let_def m(1) g_def [symmetric] es_def [symmetric] by simp
  have "0 \<le> to_s32 (fmul F32 (fdiv F32 (of_s32 F32 e) (of_s32 F32 (sum_list es))) (of_s32 F32 4096)) \<and>
      to_s32 (fmul F32 (fdiv F32 (of_s32 F32 e) (of_s32 F32 (sum_list es))) (of_s32 F32 4096)) \<le> 4096"
    if e: "e \<in> set es" for e
  proof -
    have b: "0 \<le> e" "e \<le> 4096" "e \<le> sum_list es" "4096 \<le> sum_list es" using es e le by blast+
    then have c: "of_s32 F32 e = Fin (of_int e)" "of_s32 F32 (sum_list es) = Fin (of_int (sum_list es))"
      using lim by (simp_all add: of_s32_def rnd_of_int)
    have "(of_int e :: rat) / of_int (sum_list es) \<le> 1" "0 \<le> (of_int e :: rat) / of_int (sum_list es)"
      using b by (simp_all add: divide_le_eq)
    then have "in_range 0 1 (fdiv F32 (of_s32 F32 e) (of_s32 F32 (sum_list es)))"
      using b unfolding c by (auto intro!: rnd_in_range)
    from to_s32_bounds [OF scale_range(2) [OF this, of F32]] show ?thesis by simp
  qed
  then show ?thesis by (auto simp: S)
qed

lemma SSD_SoftMax_range_witness: "list_all (\<lambda>e. 0 \<le> e \<and> e \<le> 4096) (SSD_SoftMax step_exp [4096, -100, 20])"
  using SSD_SoftMax_range [OF step_exp_ok, of "[4096, -100, 20]"] by (simp add: list_all_iff)

section \<open>The best class\<close>

lemma max_from_Fin:
  "max_from (map Fin xs) i (Fin m) k = (r, j) \<Longrightarrow>
    \<exists>v. r = Fin v \<and> m \<le> v \<and> (\<forall>x \<in> set xs. x \<le> v) \<and>
      (v = m \<and> j = k \<or> (\<exists>p < length xs. j = i + p \<and> v = xs ! p \<and> m < v \<and> (\<forall>q < p. xs ! q < v)))"
proof (induction xs arbitrary: i m k)
  case Nil
  then show ?case by auto
next
  case (Cons x xs)
  show ?case
  proof (cases "m < x")
    case True
    then have "max_from (map Fin xs) (Suc i) (Fin x) i = (r, j)" using Cons.prems by simp
    from Cons.IH [OF this] obtain v where v: "r = Fin v" "x \<le> v" "\<forall>y \<in> set xs. y \<le> v"
      "v = x \<and> j = i \<or> (\<exists>p < length xs. j = Suc i + p \<and> v = xs ! p \<and> x < v \<and> (\<forall>q < p. xs ! q < v))"
      by blast
    have "\<exists>p < length (x # xs). j = i + p \<and> v = (x # xs) ! p \<and> m < v \<and> (\<forall>q < p. (x # xs) ! q < v)"
      using v(4)
    proof
      assume "v = x \<and> j = i"
      then show ?thesis using True by (intro exI [of _ 0]) auto
    next
      assume "\<exists>p < length xs. j = Suc i + p \<and> v = xs ! p \<and> x < v \<and> (\<forall>q < p. xs ! q < v)"
      then obtain p where "p < length xs" "j = Suc i + p" "v = xs ! p" "x < v" "\<forall>q < p. xs ! q < v" by blast
      then show ?thesis using True by (intro exI [of _ "Suc p"]) (auto simp: less_Suc_eq_0_disj)
    qed
    then show ?thesis using v True by auto
  next
    case False
    then have "max_from (map Fin xs) (Suc i) (Fin m) k = (r, j)" using Cons.prems by simp
    from Cons.IH [OF this] obtain v where v: "r = Fin v" "m \<le> v" "\<forall>y \<in> set xs. y \<le> v"
      "v = m \<and> j = k \<or> (\<exists>p < length xs. j = Suc i + p \<and> v = xs ! p \<and> m < v \<and> (\<forall>q < p. xs ! q < v))"
      by blast
    have "v = m \<and> j = k \<or> (\<exists>p < length (x # xs). j = i + p \<and> v = (x # xs) ! p \<and> m < v \<and> (\<forall>q < p. (x # xs) ! q < v))"
      using v(4)
    proof
      assume "\<exists>p < length xs. j = Suc i + p \<and> v = xs ! p \<and> m < v \<and> (\<forall>q < p. xs ! q < v)"
      then obtain p where "p < length xs" "j = Suc i + p" "v = xs ! p" "m < v" "\<forall>q < p. xs ! q < v" by blast
      then show ?thesis using False by (intro disjI2 exI [of _ "Suc p"]) (auto simp: less_Suc_eq_0_disj)
    qed simp
    then show ?thesis using v False by auto
  qed
qed

lemma GetMaxVal_max:
  assumes "xs \<noteq> []" "GetMaxVal (map Fin xs) = (r, j)"
  shows "j < length xs \<and> r = Fin (xs ! j) \<and> (\<forall>q < length xs. xs ! q \<le> xs ! j) \<and> (\<forall>q < j. xs ! q < xs ! j)"
proof -
  obtain x ys where xs: "xs = x # ys" using assms(1) by (cases xs) auto
  have "max_from (map Fin ys) 1 (Fin x) 0 = (r, j)" using assms(2) by (simp add: GetMaxVal_def xs)
  from max_from_Fin [OF this] obtain v where v: "r = Fin v" "x \<le> v" "\<forall>y \<in> set ys. y \<le> v"
    "v = x \<and> j = 0 \<or> (\<exists>p < length ys. j = 1 + p \<and> v = ys ! p \<and> x < v \<and> (\<forall>q < p. ys ! q < v))" by blast
  have all: "\<forall>q < length xs. xs ! q \<le> v" using v(2,3) by (auto simp: xs less_Suc_eq_0_disj)
  have "j < length xs \<and> xs ! j = v \<and> (\<forall>q < j. xs ! q < v)"
    using v(4) by (auto simp: xs less_Suc_eq_0_disj)
  then show ?thesis using v(1) all by auto
qed

section \<open>Sigmoid\<close>

lemma SIGMOID_range:
  assumes "exp_ok cexp"
  shows "in_range 0 1 (SIGMOID cexp (Fin x))"
proof -
  define w where "w = cvt F64 (fneg (Fin x))"
  let ?e = "cexp w"
  have c: "w = Pinf \<or> w = Ninf \<or> (\<exists>y. w = Fin y)"
    by (auto simp: w_def rnd_def Let_def)
  have e: "?e = Pinf \<or> (\<exists>y \<ge> 0. ?e = Fin y)"
    using c
  proof (elim disjE exE)
    fix y assume y: "w = Fin y"
    consider "y \<le> 0" | "0 \<le> y" by linarith
    then show ?thesis
    proof cases
      case 1
      then have "in_range 0 1 (cexp (Fin y))" using assms by (simp add: exp_ok_def)
      then show ?thesis by (auto simp: y in_range_def)
    next
      case 2
      then have "cexp (Fin y) = Pinf \<or> (\<exists>z \<ge> 1. cexp (Fin y) = Fin z)" using assms by (simp add: exp_ok_def)
      then show ?thesis unfolding y by (meson order_trans zero_le_one)
    qed
  qed (use assms in \<open>auto simp: exp_ok_def\<close>)
  have "in_range 0 1 (fdiv F64 (Fin 1) (fadd F64 (Fin 1) ?e))"
    using e
  proof
    assume "?e = Pinf"
    then show ?thesis by (simp add: in_range_def)
  next
    assume "\<exists>y \<ge> 0. ?e = Fin y"
    then obtain y where y: "0 \<le> y" "?e = Fin y" by blast
    have ge: "1 \<le> rnd_val F64 (1 + y)" using rnd_val_mono [of 1 "1 + y" F64] y by simp
    show ?thesis
    proof (cases "fmax F64 < rnd_val F64 (1 + y)")
      case True
      then show ?thesis by (simp add: y rnd_def Let_def in_range_def)
    next
      case False
      then have "rnd F64 (1 + y) = Fin (rnd_val F64 (1 + y))"
        using ge fmax_ge [of F64] by (simp add: rnd_def Let_def)
      moreover have "0 \<le> 1 / rnd_val F64 (1 + y)" "1 / rnd_val F64 (1 + y) \<le> 1" using ge by simp_all
      ultimately show ?thesis using ge by (auto simp: y intro!: rnd_in_range)
    qed
  qed
  then obtain z where "fdiv F64 (Fin 1) (fadd F64 (Fin 1) ?e) = Fin z" "0 \<le> z" "z \<le> 1" by (auto simp: in_range_def)
  then show ?thesis unfolding SIGMOID_def w_def [symmetric] by (auto intro!: rnd_in_range)
qed

end
