(* ===== verification/Nnie_Sort.thy ===== *)
theory Nnie_Sort
  imports AIPC_Prelude
begin

text \<open>
  The quick sort of the NNIE post-processing (\<open>SVP_NNIE_NonRecursiveArgQuickSort\<close> and
  \<open>SVP_NNIE_Yolo_NonRecursiveArgQuickSort\<close>, sample_svp_nnie_software.c): a loop over an
  explicit stack of index ranges that sorts rows by decreasing confidence in place. The
  first variant gives up on every range that starts beyond \<open>u32MaxNum\<close>, so only a prefix
  of the array ends up sorted.

  The array is the list of its rows, the row type is a parameter and \<open>key\<close> reads the
  confidence column. The stack is the list of the slots below \<open>s32Top\<close>, topmost first; a
  push beyond the \<open>cap\<close> slots the caller's buffer has makes the result \<open>None\<close>.
\<close>

section \<open>The code\<close>

text \<open>
  The two inner loops of the partition: from the right past every row with a smaller
  confidence than the key, from the left past every row with a larger one.
\<close>

function scan_down :: "('a \<Rightarrow> int) \<Rightarrow> int \<Rightarrow> 'a list \<Rightarrow> int \<Rightarrow> int \<Rightarrow> int" where
  "scan_down key k xs i j =
     (if i < j \<and> key (xs ! nat j) < k then scan_down key k xs i (j - 1) else j)"
  by pat_completeness auto
termination
  by (relation "measure (\<lambda>(key, k, xs, i, j). nat (j - i))") auto

function scan_up :: "('a \<Rightarrow> int) \<Rightarrow> int \<Rightarrow> 'a list \<Rightarrow> int \<Rightarrow> int \<Rightarrow> int" where
  "scan_up key k xs i j =
     (if i < j \<and> k < key (xs ! nat i) then scan_up key k xs (i + 1) j else i)"
  by pat_completeness auto
termination
  by (relation "measure (\<lambda>(key, k, xs, i, j). nat (j - i))") auto

declare scan_down.simps [simp del] scan_up.simps [simp del]

lemma scan_down_spec:
  "i \<le> j \<Longrightarrow> i \<le> scan_down key k xs i j \<and> scan_down key k xs i j \<le> j \<and>
     (\<forall>p. scan_down key k xs i j < p \<and> p \<le> j \<longrightarrow> key (xs ! nat p) < k) \<and>
     (i < scan_down key k xs i j \<longrightarrow> k \<le> key (xs ! nat (scan_down key k xs i j)))"
proof (induction key k xs i j rule: scan_down.induct)
  case (1 key k xs i j)
  show ?case
  proof (cases "i < j \<and> key (xs ! nat j) < k")
    case True
    have step: "scan_down key k xs i j = scan_down key k xs i (j - 1)"
      using True by (subst scan_down.simps) simp
    have ih: "i \<le> scan_down key k xs i (j - 1) \<and> scan_down key k xs i (j - 1) \<le> j - 1 \<and>
       (\<forall>p. scan_down key k xs i (j - 1) < p \<and> p \<le> j - 1 \<longrightarrow> key (xs ! nat p) < k) \<and>
       (i < scan_down key k xs i (j - 1) \<longrightarrow> k \<le> key (xs ! nat (scan_down key k xs i (j - 1))))"
      using 1 True by simp
    have "key (xs ! nat p) < k" if "scan_down key k xs i (j - 1) < p" "p \<le> j" for p
    proof (cases "p = j")
      case True
      then show ?thesis using \<open>i < j \<and> key (xs ! nat j) < k\<close> by simp
    next
      case False
      then show ?thesis using ih that by simp
    qed
    then show ?thesis using ih unfolding step by auto
  next
    case False
    then show ?thesis using "1.prems" by (subst (1 2 3 4 5) scan_down.simps) auto
  qed
qed

lemma scan_up_spec:
  "i \<le> j \<Longrightarrow> i \<le> scan_up key k xs i j \<and> scan_up key k xs i j \<le> j \<and>
     (\<forall>p. i \<le> p \<and> p < scan_up key k xs i j \<longrightarrow> k < key (xs ! nat p)) \<and>
     (scan_up key k xs i j < j \<longrightarrow> key (xs ! nat (scan_up key k xs i j)) \<le> k)"
proof (induction key k xs i j rule: scan_up.induct)
  case (1 key k xs i j)
  show ?case
  proof (cases "i < j \<and> k < key (xs ! nat i)")
    case True
    have step: "scan_up key k xs i j = scan_up key k xs (i + 1) j"
      using True by (subst scan_up.simps) simp
    have ih: "i + 1 \<le> scan_up key k xs (i + 1) j \<and> scan_up key k xs (i + 1) j \<le> j \<and>
       (\<forall>p. i + 1 \<le> p \<and> p < scan_up key k xs (i + 1) j \<longrightarrow> k < key (xs ! nat p)) \<and>
       (scan_up key k xs (i + 1) j < j \<longrightarrow> key (xs ! nat (scan_up key k xs (i + 1) j)) \<le> k)"
      using 1 True by simp
    have "k < key (xs ! nat p)" if "p < scan_up key k xs (i + 1) j" "i \<le> p" for p
    proof (cases "p = i")
      case True
      then show ?thesis using \<open>i < j \<and> k < key (xs ! nat i)\<close> by simp
    next
      case False
      then show ?thesis using ih that by simp
    qed
    then show ?thesis using ih unfolding step by auto
  next
    case False
    then show ?thesis using "1.prems" by (subst (1 2 3 4 5) scan_up.simps) auto
  qed
qed

text \<open>
  One round of the swapping loop \<open>while(i < j)\<close>. \<open>SVP_NNIE_Argswap\<close> exchanges the
  columns of two rows one by one, which on rows is \<open>swap_at\<close>.
\<close>

definition Argswap :: "'a list \<Rightarrow> int \<Rightarrow> int \<Rightarrow> 'a list" where
  "Argswap xs i j = swap_at xs (nat i) (nat j)"

definition qs_round :: "('a \<Rightarrow> int) \<Rightarrow> int \<Rightarrow> 'a list \<Rightarrow> int \<Rightarrow> int \<Rightarrow> 'a list \<times> int \<times> int" where
  "qs_round key k xs i j =
     (let j1 = scan_down key k xs i j;
          xs1 = (if i < j1 then Argswap xs i j1 else xs);
          i1 = (if i < j1 then i + 1 else i);
          i2 = scan_up key k xs1 i1 j1;
          xs2 = (if i2 < j1 then Argswap xs1 i2 j1 else xs1);
          j2 = (if i2 < j1 then j1 - 1 else j1)
      in (xs2, i2, j2))"

lemma qs_round_bounds:
  assumes "i < j" "qs_round key k xs i j = (xs2, i2, j2)"
  shows "i \<le> i2" "i2 \<le> j2" "j2 \<le> j" "j2 - i2 < j - i"
proof -
  define j1 where "j1 = scan_down key k xs i j"
  define xs1 where "xs1 = (if i < j1 then Argswap xs i j1 else xs)"
  define i1 where "i1 = (if i < j1 then i + 1 else i)"
  have r: "i2 = scan_up key k xs1 i1 j1" "j2 = (if i2 < j1 then j1 - 1 else j1)"
    using assms(2) by (auto simp: qs_round_def Let_def j1_def xs1_def i1_def)
  have d: "i \<le> j1" "j1 \<le> j"
    using scan_down_spec [of i j key k xs] assms(1) by (auto simp: j1_def)
  then have "i1 \<le> j1" by (simp add: i1_def)
  then have u: "i1 \<le> i2" "i2 \<le> j1"
    using scan_up_spec [of i1 j1 key k xs1] r by auto
  show "i \<le> i2" "i2 \<le> j2" "j2 \<le> j" "j2 - i2 < j - i"
    using d u r(2) assms(1) by (auto simp: i1_def split: if_splits)
qed

text \<open>
  The loop itself: the array and the final \<open>i\<close> (where the key row is), the only one of
  the two indices the caller reads.
\<close>

function qs_part :: "('a \<Rightarrow> int) \<Rightarrow> int \<Rightarrow> 'a list \<Rightarrow> int \<Rightarrow> int \<Rightarrow> 'a list \<times> int" where
  "qs_part key k xs i j =
     (if i < j then (case qs_round key k xs i j of (xs2, i2, j2) \<Rightarrow> qs_part key k xs2 i2 j2)
      else (xs, i))"
  by pat_completeness auto
termination
proof (relation "measure (\<lambda>(key, k, xs, i, j). nat (j - i))", goal_cases)
  case (2 key k xs i j xs2 y i2 j2)
  then have "qs_round key k xs i j = (xs2, i2, j2)" by simp
  with 2(1) have "j2 - i2 < j - i" by (rule qs_round_bounds(4))
  with 2(1) show ?case by simp
qed simp

declare qs_part.simps [simp del]

text \<open>
  The outer loop \<open>while(s32Top > -1)\<close>. \<open>s32Low <= u32MaxNum\<close> compares a signed with an
  unsigned value, so \<open>s32Low\<close> is converted first. \<open>SVP_NNIE_Yolo_NonRecursiveArgQuickSort\<close>
  is the same loop without that test.
\<close>

definition qs_push :: "int \<Rightarrow> int \<Rightarrow> int \<Rightarrow> (int \<times> int) list \<Rightarrow> (int \<times> int) list" where
  "qs_push low high i st =
     (let st1 = (if low < i - 1 then (low, i - 1) # st else st)
      in if i + 1 < high then (i + 1, high) # st1 else st1)"


lemma qs_part_stop: "\<not> i < j \<Longrightarrow> qs_part key k xs i j = (xs, i)"
  by (subst qs_part.simps) simp

lemma qs_part_step:
  "i < j \<Longrightarrow> qs_round key k xs i j = (xs2, i2, j2) \<Longrightarrow> qs_part key k xs i j = qs_part key k xs2 i2 j2"
  by (subst qs_part.simps) simp

lemma qs_part_bounds:
  "i \<le> j \<Longrightarrow> i \<le> snd (qs_part key k xs i j) \<and> snd (qs_part key k xs i j) \<le> j"
proof (induction key k xs i j rule: qs_part.induct)
  case (1 key k xs i j)
  show ?case
  proof (cases "i < j")
    case True
    obtain xs2 i2 j2 where r: "qs_round key k xs i j = (xs2, i2, j2)" by (cases "qs_round key k xs i j")
    note b = qs_round_bounds [OF True r]
    show ?thesis
      using "1.IH" [OF True r [symmetric] refl] b qs_part_step [OF True r] by simp
  qed (use "1.prems" in \<open>simp add: qs_part_stop\<close>)
qed

lemma qs_part_pivot:
  assumes "(ys, m) = qs_part key k xs low high"
  shows "m = low \<and> high < low \<or> low \<le> m \<and> m \<le> high"
proof (cases "low \<le> high")
  case True
  then show ?thesis using qs_part_bounds [of low high key k xs] assms by (metis snd_conv)
next
  case False
  then show ?thesis using assms qs_part_stop [of low high key k xs] by simp
qed

text \<open>The weight of the stack: every range counts for its length, and one for itself.\<close>

definition qs_weight :: "(int \<times> int) list \<Rightarrow> nat" where
  "qs_weight st = sum_list (map (\<lambda>(l, h). Suc (2 * nat (h - l + 1))) st)"

lemma qs_push_weight:
  assumes "i = low \<and> high < low \<or> low \<le> i \<and> i \<le> high"
  shows "qs_weight (qs_push low high i st) < qs_weight ((low, high) # st)"
  using assms by (auto simp: qs_push_def qs_weight_def Let_def)

function qs_loop :: "nat \<Rightarrow> ('a \<Rightarrow> int) \<Rightarrow> int \<Rightarrow> 'a list \<Rightarrow> (int \<times> int) list \<Rightarrow> 'a list option" where
  "qs_loop cap key maxn xs [] = Some xs"
| "qs_loop cap key maxn xs ((low, high) # st) =
     (let (ys, i) = qs_part key (key (xs ! nat low)) xs low high;
          st' = (if u32 low \<le> maxn then qs_push low high i st else st)
      in if length st' \<le> cap then qs_loop cap key maxn ys st' else None)"
  by pat_completeness auto
termination
proof (relation "measure (\<lambda>(cap, key, maxn, xs, st). qs_weight st)", goal_cases)
  case 1
  show ?case by simp
next
  case (2 cap key maxn xs low high st r ys i st')
  have "i = low \<and> high < low \<or> low \<le> i \<and> i \<le> high"
    using qs_part_pivot 2 by blast
  then have "qs_weight st' < qs_weight ((low, high) # st)"
    using qs_push_weight [of i low high st] 2 by (auto simp: qs_weight_def)
  then show ?case by simp
qed

definition NonRecursiveArgQuickSort ::
    "nat \<Rightarrow> ('a \<Rightarrow> int) \<Rightarrow> 'a list \<Rightarrow> int \<Rightarrow> int \<Rightarrow> int \<Rightarrow> 'a list option" where
  "NonRecursiveArgQuickSort cap key xs low high maxn =
     (if cap = 0 then None else qs_loop cap key maxn xs [(low, high)])"

function yolo_qs_loop :: "nat \<Rightarrow> ('a \<Rightarrow> int) \<Rightarrow> 'a list \<Rightarrow> (int \<times> int) list \<Rightarrow> 'a list option" where
  "yolo_qs_loop cap key xs [] = Some xs"
| "yolo_qs_loop cap key xs ((low, high) # st) =
     (let (ys, i) = qs_part key (key (xs ! nat low)) xs low high;
          st' = qs_push low high i st
      in if length st' \<le> cap then yolo_qs_loop cap key ys st' else None)"
  by pat_completeness auto
termination
proof (relation "measure (\<lambda>(cap, key, xs, st). qs_weight st)", goal_cases)
  case 1
  show ?case by simp
next
  case (2 cap key xs low high st r ys i st')
  have "i = low \<and> high < low \<or> low \<le> i \<and> i \<le> high"
    using qs_part_pivot 2 by blast
  then have "qs_weight st' < qs_weight ((low, high) # st)"
    using qs_push_weight [of i low high st] 2 by auto
  then show ?case by simp
qed

definition Yolo_NonRecursiveArgQuickSort ::
    "nat \<Rightarrow> ('a \<Rightarrow> int) \<Rightarrow> 'a list \<Rightarrow> int \<Rightarrow> int \<Rightarrow> 'a list option" where
  "Yolo_NonRecursiveArgQuickSort cap key xs low high =
     (if cap = 0 then None else yolo_qs_loop cap key xs [(low, high)])"

declare qs_loop.simps(2) [simp del] yolo_qs_loop.simps(2) [simp del]

section \<open>The partition\<close>

lemma nth_Argswap:
  "0 \<le> i \<Longrightarrow> i < int (length xs) \<Longrightarrow> 0 \<le> j \<Longrightarrow> j < int (length xs) \<Longrightarrow>
   0 \<le> p \<Longrightarrow> p < int (length xs) \<Longrightarrow>
   Argswap xs i j ! nat p = (if p = i then xs ! nat j else if p = j then xs ! nat i else xs ! nat p)"
  by (auto simp: Argswap_def nth_swap_at nat_less_iff)

lemma length_Argswap [simp]: "length (Argswap xs i j) = length xs"
  by (simp add: Argswap_def)

lemma range_perm_Argswap:
  "0 \<le> l \<Longrightarrow> l \<le> i \<Longrightarrow> i \<le> h \<Longrightarrow> l \<le> j \<Longrightarrow> j \<le> h \<Longrightarrow> h < int (length xs) \<Longrightarrow>
   range_perm l h xs (Argswap xs i j)"
  unfolding Argswap_def by (rule range_perm_swap) (auto simp: nat_less_iff)

text \<open>
  The loop invariant: left of \<open>i\<close> no row is below the key, right of \<open>j\<close> none above, and
  the key row itself sits at \<open>i\<close> whenever the loop test is evaluated.
\<close>

definition part_inv :: "('a \<Rightarrow> int) \<Rightarrow> int \<Rightarrow> int \<Rightarrow> int \<Rightarrow> 'a list \<Rightarrow> int \<Rightarrow> int \<Rightarrow> int \<Rightarrow> bool" where
  "part_inv key low high k xs i j pivot \<longleftrightarrow>
     0 \<le> low \<and> low \<le> i \<and> i \<le> j \<and> j \<le> high \<and> high < int (length xs) \<and>
     key (xs ! nat pivot) = k \<and>
     (\<forall>p. low \<le> p \<and> p < i \<longrightarrow> k \<le> key (xs ! nat p)) \<and>
     (\<forall>p. j < p \<and> p \<le> high \<longrightarrow> key (xs ! nat p) \<le> k)"

lemma qs_round_down:
  assumes inv: "part_inv key low high k xs i j i" and lt: "i < j"
    and j1: "j1 = scan_down key k xs i j"
    and xs1: "xs1 = (if i < j1 then Argswap xs i j1 else xs)"
    and i1: "i1 = (if i < j1 then i + 1 else i)"
  shows "part_inv key low high k xs1 i1 j1 j1 \<and> range_perm low high xs xs1"
proof -
  note I = inv [unfolded part_inv_def]
  have d: "i \<le> j1" "j1 \<le> j" "\<And>p. j1 < p \<Longrightarrow> p \<le> j \<Longrightarrow> key (xs ! nat p) < k"
    "i < j1 \<Longrightarrow> k \<le> key (xs ! nat j1)"
    using scan_down_spec [of i j key k xs] lt by (auto simp: j1)
  have right: "key (xs ! nat p) \<le> k" if "j1 < p" "p \<le> high" for p
    using d(3) [of p] I that by (cases "p \<le> j") auto
  show ?thesis
  proof (cases "i < j1")
    case True
    have n: "xs1 ! nat p = (if p = i then xs ! nat j1 else if p = j1 then xs ! nat i else xs ! nat p)"
      if "low \<le> p" "p \<le> high" for p
      using nth_Argswap [of i xs j1 p] True xs1 d I that by simp
    have "range_perm low high xs xs1"
      using range_perm_Argswap [of low i high j1 xs] True xs1 d I by simp
    moreover have "k \<le> key (xs1 ! nat p)" if "low \<le> p" "p < i + 1" for p
      using n [of p] d I that True by (cases "p = i") auto
    moreover have "key (xs1 ! nat p) \<le> k" if "j1 < p" "p \<le> high" for p
      using n [of p] right [of p] d I that True by auto
    moreover have "key (xs1 ! nat j1) = k"
      using n [of j1] d I True by simp
    ultimately show ?thesis
      using True d I by (auto simp: part_inv_def xs1 i1)
  next
    case False
    then have "j1 = i" using d by simp
    then show ?thesis using False I right by (auto simp: part_inv_def xs1 i1)
  qed
qed

lemma qs_round_up:
  assumes inv: "part_inv key low high k xs1 i1 j1 j1"
    and i2: "i2 = scan_up key k xs1 i1 j1"
    and xs2: "xs2 = (if i2 < j1 then Argswap xs1 i2 j1 else xs1)"
    and j2: "j2 = (if i2 < j1 then j1 - 1 else j1)"
  shows "part_inv key low high k xs2 i2 j2 i2 \<and> range_perm low high xs1 xs2"
proof -
  note I = inv [unfolded part_inv_def]
  have u: "i1 \<le> i2" "i2 \<le> j1" "\<And>p. i1 \<le> p \<Longrightarrow> p < i2 \<Longrightarrow> k < key (xs1 ! nat p)"
    "i2 < j1 \<Longrightarrow> key (xs1 ! nat i2) \<le> k"
    using scan_up_spec [of i1 j1 key k xs1] I by (auto simp: i2)
  have left: "k \<le> key (xs1 ! nat p)" if "low \<le> p" "p < i2" for p
    using u(3) [of p] I that by (cases "i1 \<le> p") auto
  show ?thesis
  proof (cases "i2 < j1")
    case True
    have n: "xs2 ! nat p = (if p = i2 then xs1 ! nat j1 else if p = j1 then xs1 ! nat i2 else xs1 ! nat p)"
      if "low \<le> p" "p \<le> high" for p
      using nth_Argswap [of i2 xs1 j1 p] True xs2 u I that by simp
    have "range_perm low high xs1 xs2"
      using range_perm_Argswap [of low i2 high j1 xs1] True xs2 u I by simp
    moreover have "k \<le> key (xs2 ! nat p)" if "low \<le> p" "p < i2" for p
      using n [of p] left [of p] u I that True by auto
    moreover have "key (xs2 ! nat p) \<le> k" if "j1 - 1 < p" "p \<le> high" for p
      using n [of p] u I that True by (cases "p = j1") auto
    moreover have "key (xs2 ! nat i2) = k"
      using n [of i2] u I True by simp
    ultimately show ?thesis
      using True u I by (auto simp: part_inv_def xs2 j2)
  next
    case False
    then have "i2 = j1" using u by simp
    then show ?thesis using False I left by (auto simp: part_inv_def xs2 j2)
  qed
qed

lemma qs_round_inv:
  assumes inv: "part_inv key low high k xs i j i" and lt: "i < j"
    and r: "qs_round key k xs i j = (xs2, i2, j2)"
  shows "part_inv key low high k xs2 i2 j2 i2 \<and> range_perm low high xs xs2"
  using qs_round_down [OF inv lt refl refl refl] qs_round_up [OF _ refl refl refl, of key low high k] r
  by (auto simp: qs_round_def Let_def intro: range_perm_trans)

lemma qs_part_inv:
  "part_inv key low high k xs i j i \<Longrightarrow> qs_part key k xs i j = (ys, m) \<Longrightarrow>
     part_inv key low high k ys m m m \<and> range_perm low high xs ys"
proof (induction key k xs i j rule: qs_part.induct)
  case (1 key k xs i j)
  show ?case
  proof (cases "i < j")
    case True
    obtain xs2 i2 j2 where r: "qs_round key k xs i j = (xs2, i2, j2)" by (cases "qs_round key k xs i j")
    note b = qs_round_inv [OF "1.prems"(1) True r]
    have "part_inv key low high k ys m m m \<and> range_perm low high xs2 ys"
      using "1.IH" [OF True r [symmetric] refl] b "1.prems"(2) qs_part_step [OF True r] by simp
    then show ?thesis using b by (blast intro: range_perm_trans)
  next
    case False
    then have "j = i" using "1.prems"(1) by (simp add: part_inv_def)
    then show ?thesis using "1.prems" False by (simp add: qs_part_stop)
  qed
qed

text \<open>
  What one pass over a range gives: the rows of the range are rearranged, and the row at
  the returned index separates the larger confidences from the smaller ones.
\<close>

lemma qs_part_correct:
  assumes "0 \<le> low" "low \<le> high" "high < int (length xs)"
    and "qs_part key (key (xs ! nat low)) xs low high = (ys, m)"
  shows "range_perm low high xs ys" "low \<le> m" "m \<le> high"
    "\<And>p. low \<le> p \<Longrightarrow> p < m \<Longrightarrow> key (ys ! nat m) \<le> key (ys ! nat p)"
    "\<And>p. m < p \<Longrightarrow> p \<le> high \<Longrightarrow> key (ys ! nat p) \<le> key (ys ! nat m)"
proof -
  have "part_inv key low high (key (xs ! nat low)) xs low high low"
    using assms(1-3) by (auto simp: part_inv_def)
  from qs_part_inv [OF this assms(4)]
  show "range_perm low high xs ys" "low \<le> m" "m \<le> high"
    "\<And>p. low \<le> p \<Longrightarrow> p < m \<Longrightarrow> key (ys ! nat m) \<le> key (ys ! nat p)"
    "\<And>p. m < p \<Longrightarrow> p \<le> high \<Longrightarrow> key (ys ! nat p) \<le> key (ys ! nat m)"
    by (auto simp: part_inv_def)
qed

section \<open>The stack loop\<close>

text \<open>
  Two ranges of the stack never share an index. \<open>dead\<close> collects the ranges the first
  variant gave up on; the invariant says that two rows are in order unless one range
  still on the stack, or given up, holds both.
\<close>

definition apart :: "int \<times> int \<Rightarrow> int \<times> int \<Rightarrow> bool" where
  "apart a b \<longleftrightarrow> snd a < fst b \<or> snd b < fst a"

lemma apart_sym: "apart a b \<Longrightarrow> apart b a"
  by (auto simp: apart_def)

definition covers :: "(int \<times> int) list \<Rightarrow> int \<Rightarrow> int \<Rightarrow> bool" where
  "covers rs p q \<longleftrightarrow> (\<exists>r \<in> set rs. fst r \<le> p \<and> q \<le> snd r)"

definition ranges_ok :: "int \<Rightarrow> (int \<times> int) list \<Rightarrow> bool" where
  "ranges_ok n rs \<longleftrightarrow> sorted_wrt apart rs \<and> (\<forall>r \<in> set rs. 0 \<le> fst r \<and> fst r < snd r \<and> snd r < n)"

definition ordered_but :: "('a \<Rightarrow> int) \<Rightarrow> int \<Rightarrow> 'a list \<Rightarrow> (int \<times> int) list \<Rightarrow> bool" where
  "ordered_but key n xs rs \<longleftrightarrow>
     (\<forall>p q. 0 \<le> p \<and> p < q \<and> q < n \<longrightarrow> covers rs p q \<or> key (xs ! nat q) \<le> key (xs ! nat p))"

lemma covers_Cons: "covers (r # rs) p q \<longleftrightarrow> (fst r \<le> p \<and> q \<le> snd r) \<or> covers rs p q"
  by (auto simp: covers_def)

lemma covers_append: "covers (rs @ ss) p q \<longleftrightarrow> covers rs p q \<or> covers ss p q"
  by (auto simp: covers_def)

lemma covers_Nil [simp]: "\<not> covers [] p q"
  by (simp add: covers_def)

lemma range_perm_below:
  assumes rp: "range_perm l h xs ys" and "0 \<le> l" "h < int (length xs)"
    and p: "l \<le> p" "p \<le> h"
  obtains q where "l \<le> q" "q \<le> h" "ys ! nat p = xs ! nat q"
proof -
  have "nat p < length xs" using assms by linarith
  moreover have "l \<le> int (nat p)" "int (nat p) \<le> h" using assms by auto
  ultimately obtain q where "l \<le> int q" "int q \<le> h" "ys ! nat p = xs ! q"
    using rp by (blast elim: range_perm_inside)
  then show ?thesis using that [of "int q"] by simp
qed

text \<open>One pass replaces its range by the two sides of the pivot and keeps the order.\<close>

lemma ordered_but_step:
  assumes ord: "ordered_but key n xs ((l, h) # rs)" and r: "0 \<le> l" "l \<le> h" "h < n"
    and ap: "\<forall>r \<in> set rs. apart (l, h) r \<and> fst r \<le> snd r" and len: "n \<le> int (length xs)"
    and part: "qs_part key (key (xs ! nat l)) xs l h = (ys, m)"
  shows "ordered_but key n ys ((l, m - 1) # (m + 1, h) # rs)"
  unfolding ordered_but_def
proof (intro allI impI, elim conjE)
  fix p q :: int
  assume p: "0 \<le> p" and pq: "p < q" and q: "q < n"
  note C = qs_part_correct [OF r(1,2) _ part]
  have hl: "h < int (length xs)" using r len by simp
  note rp = C(1) [OF hl] and lm = C(2) [OF hl] C(3) [OF hl] and lo = C(4) [OF hl] and hi = C(5) [OF hl]
  have out: "ys ! nat x = xs ! nat x" if "0 \<le> x" "x < n" "x < l \<or> h < x" for x
    using range_perm_outside [OF rp, of "nat x"] that len by auto
  have no: "\<not> covers rs a b" if "a < b" "l \<le> a \<and> a \<le> h \<or> l \<le> b \<and> b \<le> h" for a b
    using ap that by (fastforce simp: covers_def apart_def)
  have old: "covers rs a b \<or> key (xs ! nat b) \<le> key (xs ! nat a)" if "0 \<le> a" "a < b" "b < n" "a < l \<or> h < b" for a b
    using ord [unfolded ordered_but_def covers_Cons, rule_format, of a b] that by auto
  consider (both) "l \<le> p" "q \<le> h" | (left) "l \<le> p" "p \<le> h" "h < q"
    | (right) "p < l" "l \<le> q" "q \<le> h" | (none) "q < l \<or> h < p \<or> (p < l \<and> h < q)"
    using pq by linarith
  then show "covers ((l, m - 1) # (m + 1, h) # rs) p q \<or> key (ys ! nat q) \<le> key (ys ! nat p)"
  proof cases
    case both
    consider "q < m" | "m < p" | "p \<le> m" "m \<le> q" by linarith
    then show ?thesis
    proof cases
      case 3
      have "key (ys ! nat q) \<le> key (ys ! nat m)" using hi [of q] both 3 by (cases "q = m") auto
      moreover have "key (ys ! nat m) \<le> key (ys ! nat p)" using lo [of p] both 3 by (cases "p = m") auto
      ultimately show ?thesis by simp
    qed (use both in \<open>auto simp: covers_Cons\<close>)
  next
    case left
    obtain p' where p': "l \<le> p'" "p' \<le> h" "ys ! nat p = xs ! nat p'"
      using range_perm_below [OF rp r(1) hl left(1,2)] by blast
    have "key (xs ! nat q) \<le> key (xs ! nat p')"
      using old [of p' q] no [of p' q] p' left r(1) q by auto
    then show ?thesis using p' out [of q] left pq p q by auto
  next
    case right
    obtain q' where q': "l \<le> q'" "q' \<le> h" "ys ! nat q = xs ! nat q'"
      using range_perm_below [OF rp r(1) hl right(2,3)] by blast
    have "key (xs ! nat q') \<le> key (xs ! nat p)"
      using old [of p q'] no [of p q'] q' right p r(3) by auto
    then show ?thesis using q' out [of p] right pq p q by auto
  next
    case none
    have "ys ! nat p = xs ! nat p" "ys ! nat q = xs ! nat q"
      using out [of p] out [of q] none pq p q r(2) by auto
    moreover have "covers rs p q \<or> key (xs ! nat q) \<le> key (xs ! nat p)"
      using ord [unfolded ordered_but_def covers_Cons, rule_format, of p q] p pq q none by auto
    ultimately show ?thesis by (auto simp: covers_Cons)
  qed
qed

lemma ordered_but_mono:
  assumes "ordered_but key n xs rs" and "\<And>p q. p < q \<Longrightarrow> covers rs p q \<Longrightarrow> covers ss p q"
  shows "ordered_but key n xs ss"
  using assms unfolding ordered_but_def by blast

lemma covers_push:
  assumes "p < q" "covers ((l, m - 1) # (m + 1, h) # st @ dead) p q"
  shows "covers (qs_push l h m st @ dead) p q"
  using assms by (auto simp: qs_push_def Let_def covers_Cons covers_append)

lemma ranges_ok_Cons:
  "ranges_ok n ((l, h) # rs) \<longleftrightarrow>
     (\<forall>r \<in> set rs. apart (l, h) r) \<and> 0 \<le> l \<and> l < h \<and> h < n \<and> ranges_ok n rs"
  by (auto simp: ranges_ok_def)

lemma ranges_ok_push:
  assumes "ranges_ok n ((l, h) # st @ dead)" "l \<le> m" "m \<le> h"
  shows "ranges_ok n (qs_push l h m st @ dead)"
proof -
  have sub: "apart (l', h') r" if "l \<le> l'" "h' \<le> h" "r \<in> set (st @ dead)" for l' h' r
  proof -
    have "apart (l, h) r" using assms(1) that(3) unfolding ranges_ok_Cons by blast
    then show ?thesis using that(1,2) by (auto simp: apart_def)
  qed
  have "apart (m + 1, h) (l, m - 1)" by (simp add: apart_def)
  then show ?thesis
    using assms sub [of l "m - 1"] sub [of "m + 1" h]
    by (auto simp: qs_push_def Let_def ranges_ok_Cons)
qed

lemma ranges_ok_move:
  assumes "ranges_ok n (r # st @ dead)"
  shows "ranges_ok n (st @ r # dead)"
proof -
  have a: "\<forall>x \<in> set st. apart x r" "\<forall>y \<in> set dead. apart r y"
    using assms apart_sym by (auto simp: ranges_ok_def simp del: split_paired_All)
  have s: "sorted_wrt apart st" "sorted_wrt apart dead" "\<forall>x \<in> set st. \<forall>y \<in> set dead. apart x y"
    using assms by (simp_all add: ranges_ok_def sorted_wrt_append)
  have "sorted_wrt apart (st @ r # dead)"
    unfolding sorted_wrt_append using a s by simp
  then show ?thesis using assms by (simp add: ranges_ok_def)
qed

text \<open>
  The slots in use: ranges on the stack hold at least two indices each and share none, so
  half as many slots as rows are enough.
\<close>

definition stack_span :: "(int \<times> int) list \<Rightarrow> int" where
  "stack_span st = sum_list (map (\<lambda>r. snd r - fst r + 1) st)"

lemma stack_span_push:
  "l \<le> m \<Longrightarrow> m \<le> h \<Longrightarrow> stack_span (qs_push l h m st) \<le> stack_span ((l, h) # st)"
  by (simp add: stack_span_def qs_push_def Let_def)

lemma stack_span_length:
  "ranges_ok n (st @ dead) \<Longrightarrow> 2 * int (length st) \<le> stack_span st"
proof (induction st)
  case Nil
  then show ?case by (simp add: stack_span_def)
next
  case (Cons r st)
  then have "2 * int (length st) \<le> stack_span st" and "fst r < snd r"
    by (auto simp: ranges_ok_def)
  then show ?case by (simp add: stack_span_def)
qed

lemma qs_loop_correct:
  assumes "ranges_ok n (st @ dead)" "ordered_but key n xs (st @ dead)"
    and "\<forall>r \<in> set dead. maxn < u32 (fst r)"
    and "stack_span st \<le> 2 * int cap + 1" "n \<le> int (length xs)"
  shows "\<exists>ys dead'. qs_loop cap key maxn xs st = Some ys \<and> range_perm 0 (n - 1) xs ys \<and>
      ranges_ok n dead' \<and> ordered_but key n ys dead' \<and> (\<forall>r \<in> set dead'. maxn < u32 (fst r))"
  using assms
proof (induction cap key maxn xs st arbitrary: dead rule: qs_loop.induct)
  case (1 cap key maxn xs)
  then show ?case by (intro exI [of _ xs] exI [of _ dead]) simp
next
  case (2 cap key maxn xs l h st)
  obtain ys m where part: "qs_part key (key (xs ! nat l)) xs l h = (ys, m)"
    by (cases "qs_part key (key (xs ! nat l)) xs l h")
  have r: "0 \<le> l" "l \<le> h" "h < n" using "2.prems"(1) by (auto simp: ranges_ok_def)
  have ap: "\<forall>r \<in> set (st @ dead). apart (l, h) r \<and> fst r \<le> snd r"
    using "2.prems"(1) unfolding ranges_ok_def append_Cons by (metis less_imp_le sorted_wrt.simps(2) list.set_intros(2))
  have hl: "h < int (length xs)" using r "2.prems"(5) by simp
  note C = qs_part_correct [OF r(1,2) hl part]
  have rp: "range_perm 0 (n - 1) xs ys"
    unfolding range_perm_def
  proof (intro conjI allI impI)
    fix p assume p: "p < length xs" "0 \<le> int p \<and> int p \<le> n - 1"
    show "\<exists>q<length xs. 0 \<le> int q \<and> int q \<le> n - 1 \<and> ys ! p = xs ! q"
    proof (cases "l \<le> int p \<and> int p \<le> h")
      case True
      then obtain q where "q < length xs" "int q \<le> h" "ys ! p = xs ! q"
        using range_perm_inside [OF C(1) p(1)] by blast
      then show ?thesis using r by auto
    qed (use range_perm_outside [OF C(1) p(1)] p in auto)
  qed (use range_perm_length [OF C(1)] range_perm_mset [OF C(1)] range_perm_outside [OF C(1)] r in auto)
  have ord: "ordered_but key n ys ((l, m - 1) # (m + 1, h) # st @ dead)"
    by (rule ordered_but_step [OF _ r ap _ part]) (use "2.prems" in auto)
  have len: "n \<le> int (length ys)" using range_perm_length [OF rp] "2.prems"(5) by simp
  define st' where "st' = (if u32 l \<le> maxn then qs_push l h m st else st)"
  define dead1 where "dead1 = (if u32 l \<le> maxn then dead else (l, h) # dead)"
  have ok: "ranges_ok n (st' @ dead1)"
    using ranges_ok_push [of n l h st dead m] ranges_ok_move [of n "(l, h)" st dead] "2.prems"(1) C(2,3)
    by (simp add: st'_def dead1_def)
  have ord': "ordered_but key n ys (st' @ dead1)"
  proof (cases "u32 l \<le> maxn")
    case True
    then show ?thesis using ordered_but_mono [OF ord covers_push] by (simp add: st'_def dead1_def)
  next
    case False
    have "covers (st @ (l, h) # dead) p q" if "covers ((l, m - 1) # (m + 1, h) # st @ dead) p q" for p q
      using that C(2,3) by (auto simp: covers_Cons covers_append)
    then show ?thesis using ordered_but_mono [OF ord] False by (simp add: st'_def dead1_def)
  qed
  have span: "stack_span st' \<le> 2 * int cap + 1"
    using stack_span_push [OF C(2,3), of st] "2.prems"(4) r
    by (auto simp: st'_def stack_span_def)
  have fits: "length st' \<le> cap" using stack_span_length [OF ok] span by simp
  have step: "qs_loop cap key maxn xs ((l, h) # st) = qs_loop cap key maxn ys st'"
    using part fits by (subst qs_loop.simps) (simp add: st'_def)
  have "\<forall>r \<in> set dead1. maxn < u32 (fst r)" using "2.prems"(3) by (simp add: dead1_def)
  from "2.IH" [OF part [symmetric] refl st'_def fits ok ord' this span len]
  show ?case using step rp by (metis range_perm_trans)
qed

lemma ranges_ok_empty_init:
  "\<not> l < h \<Longrightarrow> cap \<noteq> 0 \<Longrightarrow> qs_loop cap key maxn xs [(l, h)] = Some xs"
  by (subst qs_loop.simps) (simp add: qs_part_stop qs_push_def Let_def)

lemma NonRecursiveArgQuickSort_correct:
  assumes "n \<le> length xs" "int n < 2147483648" "n \<le> 2 * cap + 1" "0 < cap"
  shows "\<exists>ys. NonRecursiveArgQuickSort cap key xs 0 (int n - 1) maxn = Some ys \<and>
     range_perm 0 (int n - 1) xs ys \<and>
     (\<forall>p q. p < q \<and> q < n \<and> int p \<le> maxn \<longrightarrow> key (ys ! q) \<le> key (ys ! p))"
proof (cases "1 < n")
  case True
  have ok: "ranges_ok (int n) ([(0, int n - 1)] @ [])" using True by (simp add: ranges_ok_def)
  have ord: "ordered_but key (int n) xs ([(0, int n - 1)] @ [])"
    by (auto simp: ordered_but_def covers_def)
  have span: "stack_span [(0, int n - 1)] \<le> 2 * int cap + 1" using assms by (simp add: stack_span_def)
  have dead0: "\<forall>r \<in> set []. maxn < u32 (fst r)" by simp
  obtain ys dead where run: "qs_loop cap key maxn xs [(0, int n - 1)] = Some ys"
    "range_perm 0 (int n - 1) xs ys" "ranges_ok (int n) dead" "ordered_but key (int n) ys dead"
    "\<forall>r \<in> set dead. maxn < u32 (fst r)"
    using qs_loop_correct [OF ok ord dead0 span] assms(1) by auto
  have "key (ys ! q) \<le> key (ys ! p)" if pq: "p < q" "q < n" "int p \<le> maxn" for p q
  proof -
    have "\<not> covers dead (int p) (int q)"
    proof
      assume "covers dead (int p) (int q)"
      then obtain r where r: "r \<in> set dead" "fst r \<le> int p" unfolding covers_def by blast
      have "0 \<le> fst r" using r(1) run(3) by (simp add: ranges_ok_def)
      then have "u32 (fst r) = fst r" using r(2) pq assms(2) by (intro u32_id) (simp add: in_u32_def)
      then show False using run(5) r pq(3) by fastforce
    qed
    then show ?thesis using run(4) [unfolded ordered_but_def, rule_format, of "int p" "int q"] pq by simp
  qed
  then show ?thesis using run assms by (auto simp: NonRecursiveArgQuickSort_def)
next
  case False
  then show ?thesis
    using assms by (auto simp: NonRecursiveArgQuickSort_def ranges_ok_empty_init)
qed

lemma yolo_qs_loop_eq: "yolo_qs_loop cap key xs st = qs_loop cap key 4294967295 xs st"
proof (induction cap key xs st rule: yolo_qs_loop.induct)
  case (1 cap key xs)
  show ?case by simp
next
  case (2 cap key xs l h st)
  have "u32 l \<le> 4294967295" using in_u32_u32 [of l] unfolding in_u32_def by linarith
  with 2 show ?case by (subst yolo_qs_loop.simps, subst qs_loop.simps) (auto split: prod.split simp: Let_def)
qed

lemma Yolo_sort_eq:
  "Yolo_NonRecursiveArgQuickSort cap key xs low high = NonRecursiveArgQuickSort cap key xs low high 4294967295"
  by (simp add: Yolo_NonRecursiveArgQuickSort_def NonRecursiveArgQuickSort_def yolo_qs_loop_eq)

section \<open>The sort as an interface\<close>

text \<open>
  What the post-processing relies on: given room, the sort returns; it permutes the first
  \<open>n\<close> rows and leaves the others; and a row at an index up to \<open>maxn\<close> is not below any
  later row. The clients (the RPN, the class stages, the YOLO decoders) use only this.
\<close>

locale prefix_sorter =
  fixes srt :: "int \<Rightarrow> nat \<Rightarrow> 'a list \<Rightarrow> 'a list option"
    and key :: "'a \<Rightarrow> int"
    and room :: "nat \<Rightarrow> bool"
  assumes srt_total: "n \<le> length xs \<Longrightarrow> room n \<Longrightarrow> \<exists>ys. srt maxn n xs = Some ys"
    and srt_perm: "n \<le> length xs \<Longrightarrow> room n \<Longrightarrow> srt maxn n xs = Some ys \<Longrightarrow> range_perm 0 (int n - 1) xs ys"
    and srt_prefix: "n \<le> length xs \<Longrightarrow> room n \<Longrightarrow> srt maxn n xs = Some ys \<Longrightarrow>
      p < q \<Longrightarrow> q < n \<Longrightarrow> int p \<le> maxn \<Longrightarrow> key (ys ! q) \<le> key (ys ! p)"
begin

lemma srt_length: "n \<le> length xs \<Longrightarrow> room n \<Longrightarrow> srt maxn n xs = Some ys \<Longrightarrow> length ys = length xs"
  by (meson srt_perm range_perm_length)

lemma srt_drop:
  assumes "n \<le> length xs" "room n" "srt maxn n xs = Some ys"
  shows "drop n ys = drop n xs"
proof (rule nth_equalityI)
  show "length (drop n ys) = length (drop n xs)" using srt_length [OF assms] by simp
  fix i assume "i < length (drop n ys)"
  then have i: "n + i < length xs" "i < length (drop n ys)" using srt_length [OF assms] by auto
  then have "ys ! (n + i) = xs ! (n + i)"
    by (intro range_perm_outside [OF srt_perm [OF assms]]) auto
  then show "drop n ys ! i = drop n xs ! i" using i srt_length [OF assms] assms(1) by (simp add: nth_append)
qed

lemma srt_mset_take:
  assumes "n \<le> length xs" "room n" "srt maxn n xs = Some ys"
  shows "mset (take n ys) = mset (take n xs)"
proof -
  have "mset (take n ys) + mset (drop n ys) = mset (take n xs) + mset (drop n xs)"
    using range_perm_mset [OF srt_perm [OF assms]] by (simp flip: mset_append)
  then show ?thesis using srt_drop [OF assms] by simp
qed

lemma srt_sorted:
  assumes "n \<le> length xs" "room n" "srt maxn n xs = Some ys" "k \<le> n" "int k \<le> maxn + 1"
  shows "sorted_wrt (\<ge>) (map key (take k ys))"
  unfolding sorted_wrt_map sorted_wrt_iff_nth_less
  using srt_prefix [OF assms(1-3)] assms(4,5) srt_length [OF assms(1-3)] by auto

lemma srt_top:
  assumes "n \<le> length xs" "room n" "srt maxn n xs = Some ys" "k \<le> n" "int k \<le> maxn + 1"
    and "x \<in> set (take k ys)" "y \<in> set (drop k (take n ys))"
  shows "key y \<le> key x"
proof -
  have len: "length ys = length xs" by (rule srt_length [OF assms(1-3)])
  obtain p where p: "p < k" "p < length ys" "x = ys ! p" using assms(6) by (auto simp: in_set_conv_nth)
  obtain q where q0: "q < n - k" "y = ys ! (k + q)" using assms(1,7) len by (auto simp: in_set_conv_nth)
  then have q: "k + q < n" "y = ys ! (k + q)" by simp_all
  show ?thesis using srt_prefix [OF assms(1-3), of p "k + q"] p q assms(5) by simp
qed

end

definition sort_rows :: "nat \<Rightarrow> ('a \<Rightarrow> int) \<Rightarrow> int \<Rightarrow> nat \<Rightarrow> 'a list \<Rightarrow> 'a list option" where
  "sort_rows cap key maxn n xs = NonRecursiveArgQuickSort cap key xs 0 (s32 (u32 (int n - 1))) maxn"

definition yolo_sort_rows :: "nat \<Rightarrow> ('a \<Rightarrow> int) \<Rightarrow> int \<Rightarrow> nat \<Rightarrow> 'a list \<Rightarrow> 'a list option" where
  "yolo_sort_rows cap key maxn n xs = Yolo_NonRecursiveArgQuickSort cap key xs 0 (s32 (u32 (int n - 1)))"

definition sort_room :: "nat \<Rightarrow> nat \<Rightarrow> bool" where
  "sort_room cap n \<longleftrightarrow> int n < 2147483648 \<and> n \<le> 2 * cap + 1 \<and> 0 < cap"

lemma s32_pred: "int n < 2147483648 \<Longrightarrow> s32 (u32 (int n - 1)) = int n - 1"
  by (cases "n = 0") (simp_all add: u32_def s32_def)

interpretation qs: prefix_sorter "sort_rows cap key" key "sort_room cap" for cap key
proof
  fix n maxn and xs ys :: "'a list" and p q
  assume n: "n \<le> length xs" and room: "sort_room cap n"
  note C = NonRecursiveArgQuickSort_correct [OF n, of cap key maxn]
  have e: "sort_rows cap key maxn n xs = NonRecursiveArgQuickSort cap key xs 0 (int n - 1) maxn"
    using room by (simp add: sort_rows_def sort_room_def s32_pred)
  show "\<exists>ys. sort_rows cap key maxn n xs = Some ys"
    using C room by (auto simp: e sort_room_def)
  assume s: "sort_rows cap key maxn n xs = Some ys"
  show "range_perm 0 (int n - 1) xs ys" using C room s by (auto simp: e sort_room_def)
  assume "p < q" "q < n" "int p \<le> maxn"
  then show "key (ys ! q) \<le> key (ys ! p)" using C room s by (auto simp: e sort_room_def)
qed

lemma yolo_sort_rows_eq: "yolo_sort_rows cap key maxn n xs = sort_rows cap key 4294967295 n xs"
  by (simp add: yolo_sort_rows_def sort_rows_def Yolo_sort_eq)

text \<open>A sorter that sorts all of its rows, whatever the limit.\<close>

locale full_sorter = prefix_sorter +
  assumes srt_all: "srt maxn n xs = srt maxn' n xs"
begin

lemma srt_sorted_all:
  assumes "n \<le> length xs" "room n" "srt maxn n xs = Some ys"
  shows "sorted_wrt (\<ge>) (map key (take n ys))"
proof -
  have "srt (int n) n xs = Some ys" using assms(3) srt_all by metis
  from srt_sorted [OF assms(1,2) this] show ?thesis by simp
qed

end

interpretation yqs: full_sorter "yolo_sort_rows cap key" key "sort_room cap" for cap key
proof
  fix n maxn and xs ys :: "'a list" and p q
  assume n: "n \<le> length xs" and room: "sort_room cap n"
  then show "\<exists>ys. yolo_sort_rows cap key maxn n xs = Some ys"
    by (simp add: yolo_sort_rows_eq qs.srt_total)
  assume s: "yolo_sort_rows cap key maxn n xs = Some ys"
  then have s': "sort_rows cap key 4294967295 n xs = Some ys" by (simp add: yolo_sort_rows_eq)
  show "range_perm 0 (int n - 1) xs ys" by (rule qs.srt_perm [OF n room s'])
  assume pq: "p < q" "q < n"
  then have "int p \<le> 4294967295" using room by (simp add: sort_room_def)
  with pq show "key (ys ! q) \<le> key (ys ! p)" by (rule qs.srt_prefix [OF n room s'])
qed (simp add: yolo_sort_rows_eq)

text \<open>
  C2. The prefix quick sort returns within a stack of half the rows; it permutes the first
  \<open>n\<close> rows, keeps the others, and no row at an index up to \<open>u32MaxNum\<close> is followed by one
  with a larger confidence.
\<close>

theorem sort_rows_correct:
  assumes "n \<le> length xs" "sort_room cap n"
  shows "\<exists>ys. sort_rows cap key maxn n xs = Some ys \<and> mset (take n ys) = mset (take n xs) \<and>
     drop n ys = drop n xs \<and>
     (\<forall>p q. p < q \<and> q < n \<and> int p \<le> maxn \<longrightarrow> key (ys ! q) \<le> key (ys ! p))"
proof -
  obtain ys where ys: "sort_rows cap key maxn n xs = Some ys" using qs.srt_total [OF assms] by blast
  then show ?thesis
    using qs.srt_mset_take [OF assms ys] qs.srt_drop [OF assms ys] qs.srt_prefix [OF assms ys] by blast
qed

lemma sort_rows_correct_witness:
  "\<exists>ys. sort_rows 3 (\<lambda>x. x) 5 6 [3, 1, 4, 1, 5, 9, 2 :: int] = Some ys \<and>
     mset (take 6 ys) = {#1, 1, 3, 4, 5, 9#} \<and> drop 6 ys = [2] \<and> ys ! 0 \<ge> ys ! 5"
proof -
  have "\<exists>ys. sort_rows 3 (\<lambda>x. x) 5 6 [3, 1, 4, 1, 5, 9, 2 :: int] = Some ys \<and>
     mset (take 6 ys) = mset (take 6 [3, 1, 4, 1, 5, 9, 2 :: int]) \<and>
     drop 6 ys = drop 6 [3, 1, 4, 1, 5, 9, 2 :: int] \<and>
     (\<forall>p q. p < q \<and> q < 6 \<and> int p \<le> 5 \<longrightarrow> ys ! q \<le> ys ! p)"
    by (rule sort_rows_correct) (simp_all add: sort_room_def)
  then obtain ys where ys: "sort_rows 3 (\<lambda>x. x) 5 6 [3, 1, 4, 1, 5, 9, 2 :: int] = Some ys"
    "mset (take 6 ys) = mset (take 6 [3, 1, 4, 1, 5, 9, 2 :: int])"
    "drop 6 ys = drop 6 [3, 1, 4, 1, 5, 9, 2 :: int]"
    "\<forall>p q. p < q \<and> q < 6 \<and> int p \<le> 5 \<longrightarrow> ys ! q \<le> ys ! p" by blast
  have "ys ! 0 \<ge> ys ! 5" using ys(4) by simp
  moreover have "mset (take 6 ys) = {#1, 1, 3, 4, 5, 9#}" unfolding ys(2) by (simp add: add_mset_commute)
  moreover have "drop 6 ys = [2]" unfolding ys(3) by simp
  ultimately show ?thesis using ys(1) by blast
qed

text \<open>
  The variant of the YOLO stages, which has no limit, sorts all \<open>n\<close> rows by decreasing
  confidence.
\<close>

lemma yolo_sort_rows_correct:
  assumes "n \<le> length xs" "sort_room cap n"
  shows "\<exists>ys. yolo_sort_rows cap key maxn n xs = Some ys \<and> mset (take n ys) = mset (take n xs) \<and>
     drop n ys = drop n xs \<and> sorted_wrt (\<ge>) (map key (take n ys))"
proof -
  obtain ys where ys: "yolo_sort_rows cap key maxn n xs = Some ys" using yqs.srt_total [OF assms] by blast
  then show ?thesis
    using yqs.srt_mset_take [OF assms ys] yqs.srt_drop [OF assms ys] yqs.srt_sorted_all [OF assms ys] by blast
qed

lemma yolo_sort_rows_correct_witness:
  "\<exists>ys. yolo_sort_rows 2 (\<lambda>x. x) 0 4 [3, 1, 4, 1 :: int] = Some ys \<and> sorted_wrt (\<ge>) (take 4 ys)"
  using yolo_sort_rows_correct [of 4 "[3, 1, 4, 1 :: int]" 2 "\<lambda>x. x" 0]
  by (auto simp: sort_room_def)

section \<open>The number of rounds\<close>

text \<open>The loop of the sort cut off after \<open>fuel\<close> rounds: \<open>None\<close> if it still has work then.\<close>

fun qs_rounds :: "nat \<Rightarrow> nat \<Rightarrow> ('a \<Rightarrow> int) \<Rightarrow> int \<Rightarrow> 'a list \<Rightarrow> (int \<times> int) list \<Rightarrow> 'a list option option" where
  "qs_rounds fuel cap key maxn xs [] = Some (Some xs)"
| "qs_rounds 0 cap key maxn xs (r # st) = None"
| "qs_rounds (Suc fuel) cap key maxn xs ((low, high) # st) =
     (let (ys, i) = qs_part key (key (xs ! nat low)) xs low high;
          st' = (if u32 low \<le> maxn then qs_push low high i st else st)
      in if length st' \<le> cap then qs_rounds fuel cap key maxn ys st' else Some None)"

lemma qs_rounds_enough:
  "qs_weight st \<le> fuel \<Longrightarrow> qs_rounds fuel cap key maxn xs st = Some (qs_loop cap key maxn xs st)"
proof (induction fuel cap key maxn xs st rule: qs_rounds.induct)
  case (2 cap key maxn xs r st)
  then show ?case by (cases r) (simp add: qs_weight_def)
next
  case (3 fuel cap key maxn xs low high st)
  obtain ys i where p: "qs_part key (key (xs ! nat low)) xs low high = (ys, i)" by (metis surj_pair)
  define st' where "st' = (if u32 low \<le> maxn then qs_push low high i st else st)"
  have "i = low \<and> high < low \<or> low \<le> i \<and> i \<le> high" by (rule qs_part_pivot [OF p [symmetric]])
  then have "qs_weight st' < qs_weight ((low, high) # st)"
    using qs_push_weight [of i low high st] by (auto simp: st'_def qs_weight_def)
  then have "qs_weight st' \<le> fuel" using "3.prems" by simp
  then show ?case using 3(1) [OF p [symmetric] refl, folded st'_def] by (simp add: p st'_def [symmetric] qs_loop.simps)
qed simp

text \<open>
  The sort of \<open>n\<close> rows, with its explicit stack, ends after at most \<open>2 n + 1\<close> rounds, whatever the
  rows, the prefix asked for and the room on the stack: cut off there, it has already returned, with
  the sorted rows or because the stack was full.
\<close>

lemma sort_rows_terminates:
  assumes "int n < 2147483648" "0 < cap"
  shows "qs_rounds (2 * n + 1) cap key maxn xs [(0, s32 (u32 (int n - 1)))] = Some (sort_rows cap key maxn n xs)"
proof -
  have "qs_weight [(0, int n - 1)] \<le> 2 * n + 1" by (simp add: qs_weight_def)
  from qs_rounds_enough [OF this, of cap key maxn xs] show ?thesis
    using assms by (simp add: s32_pred sort_rows_def NonRecursiveArgQuickSort_def)
qed

lemma sort_rows_terminates_witness:
  "qs_rounds 7 2 (\<lambda>x. x) 2 [3, 1, 2 :: int] [(0, 2)] = Some (sort_rows 2 (\<lambda>x. x) 2 3 [3, 1, 2])"
  using sort_rows_terminates [of 3 2 "\<lambda>x. x" 2 "[3, 1, 2 :: int]"] by (simp add: s32_pred [of 3, simplified])

end
