(* ===== verification/Nnie_Nms.thy ===== *)
theory Nnie_Nms
  imports Nnie_Sort
begin

text \<open>
  Proposals and their filtering in the NNIE post-processing (sample_svp_nnie_software.c):
  \<open>SVP_NNIE_Overlap\<close>, \<open>SVP_NNIE_FilterLowScoreBbox\<close> and \<open>SVP_NNIE_NonMaxSuppression\<close>.
  A row of the \<open>ps32Proposals\<close> array (\<open>SAMPLE_SVP_NNIE_PROPOSAL_WIDTH = 6\<close> words) is a
  record: the corners, the confidence in Q12 and the suppression flag.

  The suppression loops refine one greedy procedure over the sorted rows; what that
  procedure guarantees is proved once, in the locale \<open>suppression\<close>.
\<close>

record proposal =
  p_xmin :: int
  p_ymin :: int
  p_xmax :: int
  p_ymax :: int
  p_score :: int
  p_flag :: int

abbreviation quant_base :: int where
  "quant_base \<equiv> 4096"

section \<open>Overlap of two boxes\<close>

definition Overlap :: "int \<Rightarrow> int \<Rightarrow> int \<Rightarrow> int \<Rightarrow> int \<Rightarrow> int \<Rightarrow> int \<Rightarrow> int \<Rightarrow> int \<times> int" where
  "Overlap xmin1 ymin1 xmax1 ymax1 xmin2 ymin2 xmax2 ymax2 =
     (let xmin = max xmin1 xmin2;
          ymin = max ymin1 ymin2;
          xmax = min xmax1 xmax2;
          ymax = min ymax1 ymax2;
          w = s32 (xmax - xmin + 1);
          h = s32 (ymax - ymin + 1);
          w' = (if 0 \<le> w then w else 0);
          h' = (if 0 \<le> h then h else 0);
          inter = s32 (w' * h');
          area1 = s32 (s32 (xmax1 - xmin1 + 1) * s32 (ymax1 - ymin1 + 1));
          area2 = s32 (s32 (xmax2 - xmin2 + 1) * s32 (ymax2 - ymin2 + 1))
      in (s32 (area1 + area2 - inter), inter))"

text \<open>The pixels of a box, both corners included.\<close>

definition pixels :: "int \<Rightarrow> int \<Rightarrow> int \<Rightarrow> int \<Rightarrow> (int \<times> int) set" where
  "pixels xmin ymin xmax ymax = {xmin..xmax} \<times> {ymin..ymax}"

lemma card_pixels:
  "int (card (pixels a b c d)) = max 0 (c - a + 1) * max 0 (d - b + 1)"
  by (auto simp: pixels_def card_cartesian_product max_def)

lemma finite_pixels [simp]: "finite (pixels a b c d)"
  by (simp add: pixels_def)

lemma pixels_Int:
  "pixels a b c d \<inter> pixels a' b' c' d' = pixels (max a a') (max b b') (min c c') (min d d')"
  by (auto simp: pixels_def)

text \<open>A box inside an image of width \<open>w\<close> and height \<open>h\<close>; it may be empty (a side may have no pixel).\<close>

definition box_in :: "int \<Rightarrow> int \<Rightarrow> int \<Rightarrow> int \<Rightarrow> int \<Rightarrow> int \<Rightarrow> bool" where
  "box_in w h a b c d \<longleftrightarrow>
     0 \<le> a \<and> a \<le> c + 1 \<and> 0 \<le> c \<and> c < w \<and> 0 \<le> b \<and> b \<le> d + 1 \<and> 0 \<le> d \<and> d < h"

lemma box_in_pixels: "box_in w h a b c d \<Longrightarrow> pixels a b c d \<subseteq> {0..<w} \<times> {0..<h}"
  by (auto simp: box_in_def pixels_def)

lemma card_le_image:
  assumes "A \<subseteq> {0..<w} \<times> {0..<h}" "0 \<le> w" "0 \<le> (h::int)"
  shows "int (card A) \<le> (w::int) * h"
proof -
  have "card A \<le> card ({0..<w} \<times> {0..<h})" by (rule card_mono) (use assms in auto)
  also have "\<dots> = nat w * nat h" by (simp add: card_cartesian_product)
  finally show ?thesis using assms by (simp add: zle_int [symmetric])
qed

lemma s32_small: "0 \<le> x \<Longrightarrow> x < 2147483648 \<Longrightarrow> s32 x = x"
  by (simp add: s32_id in_s32_def)

lemma Overlap_pixels:
  assumes 1: "box_in w h a b c d" and 2: "box_in w h a' b' c' d'"
    and wh: "w * h \<le> 1073741824"
  shows "Overlap a b c d a' b' c' d' =
    (int (card (pixels a b c d \<union> pixels a' b' c' d')), int (card (pixels a b c d \<inter> pixels a' b' c' d')))"
proof -
  let ?A = "pixels a b c d" and ?B = "pixels a' b' c' d'"
  have w0: "0 \<le> w" "0 \<le> h" "1 \<le> w" "1 \<le> h" using 1 by (auto simp: box_in_def)
  have "w * 1 \<le> w * h" "1 * h \<le> w * h" by (rule mult_left_mono mult_right_mono; use w0 in simp)+
  then have wh1: "w \<le> 1073741824" "h \<le> 1073741824" using wh by simp_all
  have lim: "int (card S) \<le> 1073741824" if "S \<subseteq> {0..<w} \<times> {0..<h}" for S
    using card_le_image [OF that w0(1,2)] wh by simp
  have sub: "?A \<subseteq> {0..<w} \<times> {0..<h}" "?B \<subseteq> {0..<w} \<times> {0..<h}"
    using box_in_pixels [OF 1] box_in_pixels [OF 2] .
  have cA: "int (card ?A) = (c - a + 1) * (d - b + 1)" using 1 by (simp add: card_pixels box_in_def max_def)
  have cB: "int (card ?B) = (c' - a' + 1) * (d' - b' + 1)" using 2 by (simp add: card_pixels box_in_def max_def)
  let ?w = "min c c' - max a a' + 1" and ?h = "min d d' - max b b' + 1"
  have cI: "int (card (?A \<inter> ?B)) = (if 0 \<le> ?w then ?w else 0) * (if 0 \<le> ?h then ?h else 0)"
    unfolding pixels_Int card_pixels by (simp add: max_def)
  have cU: "int (card (?A \<union> ?B)) = int (card ?A) + int (card ?B) - int (card (?A \<inter> ?B))"
    using card_Un_Int [of ?A ?B] by simp
  have lims: "int (card ?A) \<le> 1073741824" "int (card ?B) \<le> 1073741824"
    "int (card (?A \<union> ?B)) \<le> 1073741824" "int (card (?A \<inter> ?B)) \<le> 1073741824"
    using lim [OF sub(1)] lim [OF sub(2)] lim [OF Un_least [OF sub]] lim [OF le_infI1 [OF sub(1), of ?B]]
    by simp_all
  have e: "s32 ?w = ?w" "s32 ?h = ?h" "s32 (c - a + 1) = c - a + 1" "s32 (d - b + 1) = d - b + 1"
    "s32 (c' - a' + 1) = c' - a' + 1" "s32 (d' - b' + 1) = d' - b' + 1"
    using 1 2 wh1 by (auto intro!: s32_id simp: box_in_def in_s32_def)
  have p: "s32 ((c - a + 1) * (d - b + 1)) = int (card ?A)"
    "s32 ((c' - a' + 1) * (d' - b' + 1)) = int (card ?B)"
    "s32 ((if 0 \<le> ?w then ?w else 0) * (if 0 \<le> ?h then ?h else 0)) = int (card (?A \<inter> ?B))"
    unfolding cA [symmetric] cB [symmetric] cI [symmetric] using lims by (auto intro!: s32_small)
  have "s32 (int (card ?A) + int (card ?B) - int (card (?A \<inter> ?B))) = int (card (?A \<union> ?B))"
    unfolding cU [symmetric] using lims by (intro s32_small) auto
  then show ?thesis by (simp only: Overlap_def Let_def e p)
qed

section \<open>Removing the low scores\<close>

text \<open>
  First pass: rows below the threshold are flagged. Second pass: the rows without flag are
  copied down over the array, in order; \<open>compact k i cnt\<close> is that loop with \<open>k\<close> rows
  left, at row \<open>i\<close>, with \<open>cnt\<close> rows kept so far.
\<close>

fun mark_low :: "int \<Rightarrow> nat \<Rightarrow> nat \<Rightarrow> proposal list \<Rightarrow> proposal list" where
  "mark_low thresh 0 i xs = xs"
| "mark_low thresh (Suc k) i xs =
     mark_low thresh k (Suc i)
       (if p_score (xs ! i) < s32 thresh then xs[i := (xs ! i)\<lparr>p_flag := 1\<rparr>] else xs)"

fun compact :: "nat \<Rightarrow> nat \<Rightarrow> nat \<Rightarrow> proposal list \<Rightarrow> proposal list \<times> nat" where
  "compact 0 i cnt xs = (xs, cnt)"
| "compact (Suc k) i cnt xs =
     (if p_flag (xs ! i) = 0 then compact k (Suc i) (Suc cnt) (xs[cnt := xs ! i])
      else compact k (Suc i) cnt xs)"

definition FilterLowScoreBbox :: "proposal list \<Rightarrow> nat \<Rightarrow> int \<Rightarrow> proposal list \<times> nat" where
  "FilterLowScoreBbox xs n thresh =
     (if 0 < thresh then compact n 0 0 (mark_low thresh n 0 xs) else (xs, n))"

definition low_flagged :: "int \<Rightarrow> proposal \<Rightarrow> proposal" where
  "low_flagged thresh p = (if p_score p < s32 thresh then p\<lparr>p_flag := 1\<rparr> else p)"

lemma mark_low_eq:
  "i + k \<le> length xs \<Longrightarrow>
   mark_low thresh k i xs = take i xs @ map (low_flagged thresh) (take k (drop i xs)) @ drop (i + k) xs"
proof (induction k arbitrary: i xs)
  case 0
  then show ?case by simp
next
  case (Suc k)
  define ys where "ys = xs[i := low_flagged thresh (xs ! i)]"
  have lt: "i < length xs" using Suc.prems by simp
  have "(if p_score (xs ! i) < s32 thresh then xs[i := (xs ! i)\<lparr>p_flag := 1\<rparr>] else xs) = ys"
    by (simp add: ys_def low_flagged_def)
  then have "mark_low thresh (Suc k) i xs = mark_low thresh k (Suc i) ys" by simp
  also have "\<dots> = take (Suc i) ys @ map (low_flagged thresh) (take k (drop (Suc i) ys)) @ drop (Suc i + k) ys"
    using Suc.prems by (intro Suc.IH) (simp add: ys_def)
  also have "take (Suc i) ys = take i xs @ [low_flagged thresh (xs ! i)]"
    using lt by (simp add: ys_def take_Suc_conv_app_nth)
  also have "drop (Suc i) ys = drop (Suc i) xs" by (simp add: ys_def)
  also have "drop (Suc i + k) ys = drop (Suc i + k) xs" by (simp add: ys_def)
  finally show ?case using lt by (simp add: Cons_nth_drop_Suc [symmetric])
qed

lemma compact_eq:
  assumes "cnt \<le> i" "i + k \<le> length xs"
  shows "compact k i cnt xs = (zs, c) \<Longrightarrow>
     c = cnt + length (filter (\<lambda>p. p_flag p = 0) (take k (drop i xs))) \<and>
     take c zs = take cnt xs @ filter (\<lambda>p. p_flag p = 0) (take k (drop i xs)) \<and>
     length zs = length xs \<and> drop (i + k) zs = drop (i + k) xs"
  using assms
proof (induction k arbitrary: i cnt xs)
  case 0
  then show ?case by auto
next
  case (Suc k)
  have lt: "i < length xs" and ck: "take (Suc k) (drop i xs) = xs ! i # take k (drop (Suc i) xs)"
    using Suc.prems by (simp_all add: Cons_nth_drop_Suc [symmetric])
  show ?case
  proof (cases "p_flag (xs ! i) = 0")
    case True
    define ys where "ys = xs[cnt := xs ! i]"
    have t: "take (Suc cnt) ys = take cnt xs @ [xs ! i]"
      using Suc.prems lt by (simp add: ys_def take_Suc_conv_app_nth)
    have d: "drop (Suc i) ys = drop (Suc i) xs" "drop (Suc i + k) ys = drop (Suc i + k) xs"
      using Suc.prems by (simp_all add: ys_def)
    have "compact k (Suc i) (Suc cnt) ys = (zs, c)" using Suc.prems(1) True by (simp add: ys_def)
    from Suc.IH [OF this] Suc.prems show ?thesis
      using True unfolding ck t d by (auto simp: ys_def)
  next
    case False
    then have "compact k (Suc i) cnt xs = (zs, c)" using Suc.prems(1) by simp
    from Suc.IH [OF this] Suc.prems show ?thesis using False unfolding ck by auto
  qed
qed

lemma FilterLowScoreBbox_kept:
  assumes "n \<le> length xs" "0 < thresh" "FilterLowScoreBbox xs n thresh = (zs, c)"
  shows "take c zs = filter (\<lambda>p. p_flag p = 0 \<and> s32 thresh \<le> p_score p) (take n xs)"
    "c = length (filter (\<lambda>p. p_flag p = 0 \<and> s32 thresh \<le> p_score p) (take n xs))"
    "length zs = length xs" "drop n zs = drop n xs"
proof -
  define ys where "ys = mark_low thresh n 0 xs"
  have ys: "ys = map (low_flagged thresh) (take n xs) @ drop n xs"
    using mark_low_eq [of 0 n xs thresh] assms(1) by (simp add: ys_def)
  have len: "length ys = length xs" "take n ys = map (low_flagged thresh) (take n xs)"
    "drop n ys = drop n xs"
    using assms(1) by (simp_all add: ys min_def)
  have f: "filter (\<lambda>p. p_flag p = 0) (map (low_flagged thresh) ps)
      = filter (\<lambda>p. p_flag p = 0 \<and> s32 thresh \<le> p_score p) ps" for ps
    by (induction ps) (auto simp: low_flagged_def)
  have "compact n 0 0 ys = (zs, c)" using assms(2,3) by (simp add: FilterLowScoreBbox_def ys_def)
  from compact_eq [OF _ _ this] assms(1) len
  show "take c zs = filter (\<lambda>p. p_flag p = 0 \<and> s32 thresh \<le> p_score p) (take n xs)"
    "c = length (filter (\<lambda>p. p_flag p = 0 \<and> s32 thresh \<le> p_score p) (take n xs))"
    "length zs = length xs" "drop n zs = drop n xs"
    by (auto simp: f)
qed

section \<open>Non-maximum suppression\<close>

subsection \<open>The greedy procedure\<close>

text \<open>
  One pass over rows sorted by confidence: a live row is kept and kills every later live
  row it hits. The pass stops acting after \<open>m\<close> rows have been kept.
\<close>

fun greedy :: "('a \<Rightarrow> bool) \<Rightarrow> ('a \<Rightarrow> 'a) \<Rightarrow> ('a \<Rightarrow> 'a \<Rightarrow> bool) \<Rightarrow> nat \<Rightarrow> 'a list \<Rightarrow> 'a list" where
  "greedy live kill hit m [] = []"
| "greedy live kill hit 0 (x # xs) = x # xs"
| "greedy live kill hit (Suc m) (x # xs) =
     (if live x then x # greedy live kill hit m (map (\<lambda>y. if live y \<and> hit x y then kill y else y) xs)
      else x # greedy live kill hit (Suc m) xs)"

lemma greedy_Cons:
  "greedy live kill hit m (x # xs) =
     x # (if m = 0 then xs
          else if live x then greedy live kill hit (m - 1) (map (\<lambda>y. if live y \<and> hit x y then kill y else y) xs)
          else greedy live kill hit m xs)"
  by (cases m) auto

lemma greedy_0 [simp]: "greedy live kill hit 0 xs = xs"
  by (cases xs) auto

lemma length_greedy [simp]: "length (greedy live kill hit m xs) = length xs"
  by (induction live kill hit m xs rule: greedy.induct) auto

locale suppression =
  fixes live :: "'a \<Rightarrow> bool" and kill :: "'a \<Rightarrow> 'a" and hit :: "'a \<Rightarrow> 'a \<Rightarrow> bool"
  assumes dead_kill: "\<not> live (kill x)"
begin

abbreviation strike :: "'a \<Rightarrow> 'a \<Rightarrow> 'a" where
  "strike x y \<equiv> (if live y \<and> hit x y then kill y else y)"

abbreviation run :: "nat \<Rightarrow> 'a list \<Rightarrow> 'a list" where
  "run \<equiv> greedy live kill hit"

text \<open>A row ends as it was, or live and killed.\<close>

lemma run_cases:
  "i < length xs \<Longrightarrow> run m xs ! i = xs ! i \<or> live (xs ! i) \<and> run m xs ! i = kill (xs ! i)"
proof (induction "length xs" arbitrary: xs m i)
  case 0
  then show ?case by simp
next
  case (Suc n)
  obtain x ys where xs: "xs = x # ys" "length ys = n" using Suc.hyps(2) by (cases xs) auto
  show ?case
  proof (cases "i = 0 \<or> m = 0")
    case True
    then show ?thesis by (auto simp: xs greedy_Cons)
  next
    case False
    then obtain j where j: "i = Suc j" "j < length ys" using Suc.prems xs by (cases i) auto
    show ?thesis
    proof (cases "live x")
      case True
      have "run (m - 1) (map (strike x) ys) ! j = strike x (ys ! j) \<or>
          live (strike x (ys ! j)) \<and> run (m - 1) (map (strike x) ys) ! j = kill (strike x (ys ! j))"
        using Suc.hyps(1) [of "map (strike x) ys" j "m - 1"] j xs by simp
      then show ?thesis
        using True False j dead_kill by (auto simp: xs greedy_Cons split: if_splits)
    next
      case False': False
      then show ?thesis using Suc.hyps(1) [of ys j m] j xs False by (simp add: greedy_Cons)
    qed
  qed
qed

lemma run_live:
  assumes "i < length xs" "live (run m xs ! i)"
  shows "run m xs ! i = xs ! i"
  using run_cases [OF assms(1), of m] assms(2) dead_kill by metis

text \<open>The number of rows kept among the first \<open>i\<close>.\<close>

definition kept :: "'a list \<Rightarrow> nat \<Rightarrow> nat" where
  "kept ys i = length (filter live (take i ys))"

text \<open>Two rows that end live do not hit each other, if the first was among the \<open>m\<close> kept.\<close>

lemma run_independent:
  "i < j \<Longrightarrow> j < length xs \<Longrightarrow> live (run m xs ! i) \<Longrightarrow> live (run m xs ! j) \<Longrightarrow>
     kept (run m xs) i < m \<Longrightarrow> \<not> hit (xs ! i) (xs ! j)"
proof (induction "length xs" arbitrary: xs m i j)
  case 0
  then show ?case by simp
next
  case (Suc n)
  obtain x ys where xs: "xs = x # ys" "length ys = n" using Suc.hyps(2) by (cases xs) auto
  obtain k where j: "j = Suc k" "k < length ys" using Suc.prems xs by (cases j) auto
  have m: "m \<noteq> 0" using Suc.prems by (auto simp: kept_def)
  show ?case
  proof (cases "live x")
    case True
    let ?zs = "map (strike x) ys"
    have r: "run m xs = x # run (m - 1) ?zs" using True m by (simp add: xs greedy_Cons)
    have lk: "live (run (m - 1) ?zs ! k)" using Suc.prems(4) j r by simp
    then have "run (m - 1) ?zs ! k = ?zs ! k" using j by (intro run_live) auto
    then have nk: "live (ys ! k) \<and> \<not> hit x (ys ! k)" and ek: "?zs ! k = ys ! k"
      using lk j dead_kill by (auto split: if_splits)
    show ?thesis
    proof (cases i)
      case 0
      then show ?thesis using nk j by (simp add: xs)
    next
      case (Suc l)
      have ll: "live (run (m - 1) ?zs ! l)" using Suc.prems(3) Suc r by simp
      have "l < length ys" using Suc.prems(1) j Suc by simp
      then have "run (m - 1) ?zs ! l = ?zs ! l" using ll by (intro run_live) auto
      then have el: "?zs ! l = ys ! l" using ll \<open>l < length ys\<close> dead_kill by (auto split: if_splits)
      have "kept (run (m - 1) ?zs) l < m - 1"
        using Suc.prems(5) m True by (simp add: r Suc kept_def)
      then have "\<not> hit (?zs ! l) (?zs ! k)"
        using Suc.hyps(1) [of ?zs l k "m - 1"] xs j Suc Suc.prems(1) ll lk by simp
      then show ?thesis using Suc j el ek by (simp add: xs)
    qed
  next
    case False
    have r: "run m xs = x # run m ys" using False m by (simp add: xs greedy_Cons)
    obtain l where l: "i = Suc l" using Suc.prems(3) r False by (cases i) auto
    have "kept (run m ys) l < m" using Suc.prems(5) False by (simp add: r l kept_def)
    then show ?thesis
      using Suc.hyps(1) [of ys l k m] xs j l Suc.prems r by simp
  qed
qed

lemma live_strike: "filter live (map (strike x) ys) = filter (\<lambda>y. \<not> hit x y) (filter live ys)"
  by (induction ys) (auto simp: dead_kill)

text \<open>The survivors are among the live rows, in their order, and do not hit each other.\<close>

lemma run_survivors:
  "sorted_wrt R (filter live xs) \<Longrightarrow>
     sorted_wrt R (filter live (run m xs)) \<and> set (filter live (run m xs)) \<subseteq> set (filter live xs) \<and>
     sorted_wrt (\<lambda>a b. \<not> hit a b) (take m (filter live (run m xs)))"
proof (induction "length xs" arbitrary: xs m)
  case 0
  then show ?case by simp
next
  case (Suc n)
  obtain x ys where xs: "xs = x # ys" "length ys = n" using Suc.hyps(2) by (cases xs) auto
  consider "m = 0" | "m \<noteq> 0" "live x" | "m \<noteq> 0" "\<not> live x" by blast
  then show ?case
  proof cases
    case 1
    then show ?thesis using Suc.prems by simp
  next
    case 2
    let ?zs = "map (strike x) ys"
    have r: "run m xs = x # run (m - 1) ?zs" using 2 by (simp add: xs greedy_Cons)
    have s0: "sorted_wrt R (filter live ys)" "\<forall>y \<in> set (filter live ys). R x y"
      using Suc.prems 2 by (simp_all add: xs)
    have s: "sorted_wrt R (filter live ?zs)" "\<forall>y \<in> set (filter live ys). R x y"
      unfolding live_strike using s0 by (simp_all only: sorted_wrt_filter)
    have ih: "sorted_wrt R (filter live (run (m - 1) ?zs))"
      "set (filter live (run (m - 1) ?zs)) \<subseteq> set (filter live ?zs)"
      "sorted_wrt (\<lambda>a b. \<not> hit a b) (take (m - 1) (filter live (run (m - 1) ?zs)))"
      using Suc.hyps(1) [of ?zs "m - 1"] s(1) xs by simp_all
    have sub: "set (filter live (run (m - 1) ?zs)) \<subseteq> {y \<in> set ys. live y \<and> \<not> hit x y}"
      using ih(2) unfolding live_strike by auto
    have t: "take m (filter live (run m xs)) = x # take (m - 1) (filter live (run (m - 1) ?zs))"
      using 2 unfolding r by (cases m) simp_all
    have "\<not> hit x b" if "b \<in> set (take (m - 1) (filter live (run (m - 1) ?zs)))" for b
      using sub in_set_takeD [OF that] by blast
    then have "sorted_wrt (\<lambda>a b. \<not> hit a b) (take m (filter live (run m xs)))"
      unfolding t using ih(3) by (simp only: sorted_wrt.simps) blast
    moreover have "sorted_wrt R (x # filter live (run (m - 1) ?zs))"
    proof -
      have "R x b" if "b \<in> set (filter live (run (m - 1) ?zs))" for b
        using subsetD [OF sub that] s(2) by simp
      then show ?thesis using ih(1) by (simp only: sorted_wrt.simps) blast
    qed
    then have "sorted_wrt R (filter live (run m xs))" using 2 unfolding r by simp
    moreover have "set (filter live (run m xs)) \<subseteq> set (filter live xs)"
    proof -
      have "filter live (run m xs) = x # filter live (run (m - 1) ?zs)" using 2 unfolding r by simp
      then show ?thesis using sub 2 by (auto simp: xs)
    qed
    ultimately show ?thesis by blast
  next
    case 3
    have "run m xs = x # run m ys" using 3 by (simp add: xs greedy_Cons)
    then show ?thesis using Suc.hyps(1) [of ys m] Suc.prems 3 xs by auto
  qed
qed

text \<open>No row is killed without a reason: one of the first \<open>m\<close> kept rows stands before it and hits it.\<close>

lemma run_justified:
  "j < length xs \<Longrightarrow> live (xs ! j) \<Longrightarrow> \<not> live (run m xs ! j) \<Longrightarrow>
     \<exists>i < j. live (run m xs ! i) \<and> kept (run m xs) i < m \<and> hit (xs ! i) (xs ! j)"
proof (induction "length xs" arbitrary: xs m j)
  case 0
  then show ?case by simp
next
  case (Suc n)
  obtain x ys where xs: "xs = x # ys" "length ys = n" using Suc.hyps(2) by (cases xs) auto
  have m: "m \<noteq> 0" using Suc.prems by (cases m) auto
  have head: "run m xs ! 0 = x" by (simp add: xs greedy_Cons)
  obtain k where j: "j = Suc k" "k < length ys"
    using Suc.prems xs head by (cases j) auto
  show ?case
  proof (cases "live x")
    case True
    let ?zs = "map (strike x) ys"
    have r: "run m xs = x # run (m - 1) ?zs" using True m by (simp add: xs greedy_Cons)
    show ?thesis
    proof (cases "hit x (ys ! k)")
      case True': True
      then show ?thesis using True head j m by (intro exI [of _ 0]) (simp add: xs kept_def)
    next
      case False
      then have ek: "?zs ! k = ys ! k" using j by simp
      have "\<exists>i < k. live (run (m - 1) ?zs ! i) \<and> kept (run (m - 1) ?zs) i < m - 1 \<and> hit (?zs ! i) (?zs ! k)"
        using Suc.hyps(1) [of ?zs k "m - 1"] xs j Suc.prems r ek by simp
      then obtain i where i: "i < k" "live (run (m - 1) ?zs ! i)" "kept (run (m - 1) ?zs) i < m - 1"
        "hit (?zs ! i) (?zs ! k)" by blast
      then have "run (m - 1) ?zs ! i = ?zs ! i" using j by (intro run_live) auto
      then have "?zs ! i = ys ! i" using i j dead_kill by (auto split: if_splits)
      moreover have "kept (run m xs) (Suc i) < m" using i(3) True by (simp add: r kept_def)
      ultimately show ?thesis using i ek j r by (intro exI [of _ "Suc i"]) (simp add: xs)
    qed
  next
    case False
    have r: "run m xs = x # run m ys" using False m by (simp add: xs greedy_Cons)
    have "\<exists>i < k. live (run m ys ! i) \<and> kept (run m ys) i < m \<and> hit (ys ! i) (ys ! k)"
      using Suc.hyps(1) [of ys k m] xs j Suc.prems r by simp
    then obtain i where "i < k" "live (run m ys ! i)" "kept (run m ys) i < m" "hit (ys ! i) (ys ! k)" by blast
    then show ?thesis using False j r by (intro exI [of _ "Suc i"]) (simp add: xs kept_def)
  qed
qed

text \<open>So the result is determined row by row, from the rows before it.\<close>

lemma run_exact:
  assumes "j < length xs"
  shows "live (run m xs ! j) \<longleftrightarrow> live (xs ! j) \<and>
     \<not> (\<exists>i < j. live (run m xs ! i) \<and> kept (run m xs) i < m \<and> hit (xs ! i) (xs ! j))"
  using run_justified [OF assms, of m] run_live [OF assms, of m] run_independent [of _ j xs m] assms by metis

end

subsection \<open>The loops of the code\<close>

text \<open>
  \<open>no_overlap a b\<close> is the early test \<open>bNoOverlap\<close>, \<open>nms_hit\<close> the whole
  condition under which one of two live rows is suppressed; the products are 32-bit.
\<close>

definition no_overlap :: "proposal \<Rightarrow> proposal \<Rightarrow> bool" where
  "no_overlap a b \<longleftrightarrow> p_xmin b > p_xmax a \<or> p_xmax b < p_xmin a \<or>
     p_ymin b > p_ymax a \<or> p_ymax b < p_ymin a"

definition nms_hit :: "int \<Rightarrow> proposal \<Rightarrow> proposal \<Rightarrow> bool" where
  "nms_hit thresh a b \<longleftrightarrow> \<not> no_overlap a b \<and>
     (let (total, inter) = Overlap (p_xmin a) (p_ymin a) (p_xmax a) (p_ymax a)
                                   (p_xmin b) (p_ymin b) (p_xmax b) (p_ymax b)
      in s32 (s32 thresh * total) < s32 (inter * quant_base))"

definition set_flag :: "proposal \<Rightarrow> proposal" where
  "set_flag p = p\<lparr>p_flag := 1\<rparr>"

text \<open>
  The body of the inner loop on the rows \<open>i\<close> and \<open>j\<close>: the corners of row \<open>i\<close> were
  read before the loop (\<open>a\<close>), the scores are read from the array. The row with the lower
  score is flagged.
\<close>

definition nms_step :: "int \<Rightarrow> proposal \<Rightarrow> nat \<Rightarrow> nat \<Rightarrow> proposal list \<Rightarrow> proposal list" where
  "nms_step thresh a i j xs =
     (if p_flag (xs ! j) = 0 \<and> nms_hit thresh a (xs ! j) then
        (if p_score (xs ! i) \<ge> p_score (xs ! j) then xs[j := set_flag (xs ! j)]
         else xs[i := set_flag (xs ! i)])
      else xs)"

text \<open>The inner loop with \<open>k\<close> rows to go, at row \<open>j\<close>.\<close>

fun nms_inner :: "int \<Rightarrow> proposal \<Rightarrow> nat \<Rightarrow> nat \<Rightarrow> nat \<Rightarrow> proposal list \<Rightarrow> proposal list" where
  "nms_inner thresh a i 0 j xs = xs"
| "nms_inner thresh a i (Suc k) j xs = nms_inner thresh a i k (Suc j) (nms_step thresh a i j xs)"

text \<open>The outer loop with \<open>k\<close> rows to go, at row \<open>i\<close>, \<open>num\<close> rows kept so far.\<close>

fun nms_outer :: "int \<Rightarrow> nat \<Rightarrow> nat \<Rightarrow> nat \<Rightarrow> nat \<Rightarrow> proposal list \<Rightarrow> proposal list" where
  "nms_outer thresh maxroi 0 i num xs = xs"
| "nms_outer thresh maxroi (Suc k) i num xs =
     (if num < maxroi then
        (if p_flag (xs ! i) = 0
         then nms_outer thresh maxroi k (Suc i) (Suc num) (nms_inner thresh (xs ! i) i k (Suc i) xs)
         else nms_outer thresh maxroi k (Suc i) num xs)
      else xs)"

definition NonMaxSuppression :: "proposal list \<Rightarrow> nat \<Rightarrow> int \<Rightarrow> nat \<Rightarrow> proposal list" where
  "NonMaxSuppression xs n thresh maxroi = nms_outer thresh maxroi n 0 0 xs"

text \<open>Only flags change.\<close>

definition same_box :: "proposal \<Rightarrow> proposal \<Rightarrow> bool" where
  "same_box p q \<longleftrightarrow> p_xmin q = p_xmin p \<and> p_ymin q = p_ymin p \<and> p_xmax q = p_xmax p \<and>
     p_ymax q = p_ymax p \<and> p_score q = p_score p \<and> (p_flag q = p_flag p \<or> p_flag q = 1)"

definition only_flags :: "proposal list \<Rightarrow> proposal list \<Rightarrow> bool" where
  "only_flags xs ys \<longleftrightarrow> list_all2 same_box xs ys"

lemma same_box_refl [simp]: "same_box p p"
  by (simp add: same_box_def)

lemma same_box_set_flag [simp]: "same_box p (set_flag p)"
  by (simp add: same_box_def set_flag_def)

lemma same_box_trans: "same_box p q \<Longrightarrow> same_box q r \<Longrightarrow> same_box p r"
  by (auto simp: same_box_def)

lemma only_flags_refl [simp]: "only_flags xs xs"
  by (simp add: only_flags_def list_all2_refl)

lemma only_flags_trans: "only_flags xs ys \<Longrightarrow> only_flags ys zs \<Longrightarrow> only_flags xs zs"
  unfolding only_flags_def by (rule list_all2_trans [of same_box same_box same_box]) (auto intro: same_box_trans)

lemma only_flags_update: "only_flags xs (xs[i := set_flag (xs ! i)])"
  by (cases "i < length xs")
     (auto simp: only_flags_def list_all2_conv_all_nth nth_list_update)

lemma only_flags_step: "only_flags xs (nms_step thresh a i j xs)"
  by (simp add: nms_step_def only_flags_update)

lemma only_flags_inner: "only_flags xs (nms_inner thresh a i k j xs)"
proof (induction k arbitrary: j xs)
  case 0
  then show ?case by simp
next
  case (Suc k)
  show ?case using only_flags_trans [OF only_flags_step Suc.IH] by simp
qed

lemma only_flags_outer: "only_flags xs (nms_outer thresh maxroi k i num xs)"
proof (induction k arbitrary: i num xs)
  case 0
  then show ?case by simp
next
  case (Suc k)
  show ?case by (auto intro: Suc.IH only_flags_trans [OF only_flags_inner])
qed

lemma only_flags_NonMaxSuppression: "only_flags xs (NonMaxSuppression xs n thresh maxroi)"
  by (simp add: NonMaxSuppression_def only_flags_outer)

lemma only_flags_length: "only_flags xs ys \<Longrightarrow> length ys = length xs"
  by (simp add: only_flags_def list_all2_lengthD)

lemma only_flags_nth: "only_flags xs ys \<Longrightarrow> i < length xs \<Longrightarrow> same_box (xs ! i) (ys ! i)"
  by (simp add: only_flags_def list_all2_nthD)

subsection \<open>On sorted rows the loops are the greedy procedure\<close>

abbreviation nms_live :: "proposal \<Rightarrow> bool" where
  "nms_live p \<equiv> p_flag p = 0"

abbreviation nms_strike :: "int \<Rightarrow> proposal \<Rightarrow> proposal \<Rightarrow> proposal" where
  "nms_strike thresh a y \<equiv> (if nms_live y \<and> nms_hit thresh a y then set_flag y else y)"

lemma set_flag_sel [simp]:
  "p_flag (set_flag p) = 1" "p_score (set_flag p) = p_score p"
  by (simp_all add: set_flag_def)

interpretation nms: suppression nms_live set_flag "nms_hit thresh" for thresh
  by unfold_locales simp

lemma nms_inner_eq:
  assumes "i < j" "j + k \<le> length xs"
    "\<forall>q. j \<le> q \<and> q < j + k \<longrightarrow> p_score (xs ! q) \<le> p_score (xs ! i)"
  shows "nms_inner thresh a i k j xs =
     take j xs @ map (nms_strike thresh a) (take k (drop j xs)) @ drop (j + k) xs"
  using assms
proof (induction k arbitrary: j xs)
  case 0
  then show ?case by simp
next
  case (Suc k)
  define ys where "ys = xs[j := nms_strike thresh a (xs ! j)]"
  have lt: "j < length xs" using Suc.prems by simp
  have le: "p_score (xs ! j) \<le> p_score (xs ! i)" using Suc.prems(3) by simp
  have "nms_step thresh a i j xs = ys"
    using le by (simp add: nms_step_def ys_def)
  then have "nms_inner thresh a i (Suc k) j xs = nms_inner thresh a i k (Suc j) ys" by simp
  also have "\<dots> = take (Suc j) ys @ map (nms_strike thresh a) (take k (drop (Suc j) ys)) @ drop (Suc j + k) ys"
  proof (rule Suc.IH)
    show "i < Suc j" "Suc j + k \<le> length ys" using Suc.prems by (simp_all add: ys_def)
    show "\<forall>q. Suc j \<le> q \<and> q < Suc j + k \<longrightarrow> p_score (ys ! q) \<le> p_score (ys ! i)"
      using Suc.prems by (simp add: ys_def)
  qed
  also have "take (Suc j) ys = take j xs @ [nms_strike thresh a (xs ! j)]"
    using lt by (simp add: ys_def take_Suc_conv_app_nth)
  also have "drop (Suc j) ys = drop (Suc j) xs" by (simp add: ys_def)
  also have "drop (Suc j + k) ys = drop (Suc j + k) xs" by (simp add: ys_def)
  finally show ?case using lt by (simp add: Cons_nth_drop_Suc [symmetric])
qed

definition score_sorted :: "proposal list \<Rightarrow> bool" where
  "score_sorted xs \<longleftrightarrow> sorted_wrt (\<lambda>p q. p_score q \<le> p_score p) xs"

lemma score_sorted_strike: "score_sorted xs \<Longrightarrow> score_sorted (map (nms_strike thresh a) xs)"
  by (auto simp: score_sorted_def sorted_wrt_map elim!: sorted_wrt_mono_rel [rotated])

lemma nms_outer_eq:
  assumes "i + k \<le> length xs" "score_sorted (take k (drop i xs))"
  shows "nms_outer thresh maxroi k i num xs =
     take i xs @ greedy nms_live set_flag (nms_hit thresh) (maxroi - num) (take k (drop i xs)) @ drop (i + k) xs"
  using assms
proof (induction k arbitrary: i num xs)
  case 0
  then show ?case by simp
next
  case (Suc k)
  let ?g = "greedy nms_live set_flag (nms_hit thresh)"
  have lt: "i < length xs" and ck: "take (Suc k) (drop i xs) = xs ! i # take k (drop (Suc i) xs)"
    using Suc.prems by (simp_all add: Cons_nth_drop_Suc [symmetric])
  have srt: "score_sorted (take k (drop (Suc i) xs))"
    and top: "\<forall>p \<in> set (take k (drop (Suc i) xs)). p_score p \<le> p_score (xs ! i)"
    using Suc.prems(2) unfolding ck by (simp_all add: score_sorted_def)
  have ti: "take (Suc i) xs = take i xs @ [xs ! i]" using lt by (simp add: take_Suc_conv_app_nth)
  have whole: "take i xs @ xs ! i # take k (drop (Suc i) xs) @ drop (i + Suc k) xs = xs"
  proof -
    have "take k (drop (Suc i) xs) @ drop (i + Suc k) xs = drop (Suc i) xs"
      using append_take_drop_id [of k "drop (Suc i) xs"] by (simp add: add.commute)
    then show ?thesis using lt by (simp add: id_take_nth_drop [symmetric])
  qed
  show ?case
  proof (cases "num < maxroi")
    case False
    then show ?thesis using whole by (simp add: ck)
  next
    case True
    show ?thesis
    proof (cases "p_flag (xs ! i) = 0")
      case live: True
      define ys where "ys = nms_inner thresh (xs ! i) i k (Suc i) xs"
      have ge: "\<forall>q. Suc i \<le> q \<and> q < Suc i + k \<longrightarrow> p_score (xs ! q) \<le> p_score (xs ! i)"
      proof (intro allI impI)
        fix q assume q: "Suc i \<le> q \<and> q < Suc i + k"
        define d where "d = q - Suc i"
        have "q = Suc i + d" "d < k" using q unfolding d_def by linarith+
        then have "take k (drop (Suc i) xs) ! d = xs ! q" "d < length (take k (drop (Suc i) xs))"
          using Suc.prems(1) by simp_all
        then have "xs ! q \<in> set (take k (drop (Suc i) xs))" by (metis nth_mem)
        then show "p_score (xs ! q) \<le> p_score (xs ! i)" using top by blast
      qed
      have ys: "ys = take (Suc i) xs @ map (nms_strike thresh (xs ! i)) (take k (drop (Suc i) xs)) @ drop (Suc i + k) xs"
        unfolding ys_def using Suc.prems(1) ge by (intro nms_inner_eq) auto
      have parts: "take (Suc i) ys = take (Suc i) xs" "drop (Suc i + k) ys = drop (Suc i + k) xs"
        "take k (drop (Suc i) ys) = map (nms_strike thresh (xs ! i)) (take k (drop (Suc i) xs))"
        "length ys = length xs"
        using Suc.prems(1) three_parts [of "take (Suc i) xs" "Suc i"
          "map (nms_strike thresh (xs ! i)) (take k (drop (Suc i) xs))" k "drop (Suc i + k) xs"]
        unfolding ys by simp_all
      have "nms_outer thresh maxroi (Suc k) i num xs = nms_outer thresh maxroi k (Suc i) (Suc num) ys"
        using True live by (simp add: ys_def)
      also have "\<dots> = take (Suc i) ys @ ?g (maxroi - Suc num) (take k (drop (Suc i) ys)) @ drop (Suc i + k) ys"
        using Suc.prems(1) score_sorted_strike [OF srt] parts by (intro Suc.IH) simp_all
      finally show ?thesis using True live unfolding parts ck by (simp add: ti greedy_Cons)
    next
      case False
      then have "nms_outer thresh maxroi (Suc k) i num xs = nms_outer thresh maxroi k (Suc i) num xs"
        using True by simp
      also have "\<dots> = take (Suc i) xs @ ?g (maxroi - num) (take k (drop (Suc i) xs)) @ drop (Suc i + k) xs"
        using Suc.prems(1) srt by (intro Suc.IH) simp_all
      finally show ?thesis using True False unfolding ck by (simp add: ti greedy_Cons)
    qed
  qed
qed

lemma NonMaxSuppression_eq:
  assumes "n \<le> length xs" "score_sorted (take n xs)"
  shows "NonMaxSuppression xs n thresh maxroi =
    greedy nms_live set_flag (nms_hit thresh) maxroi (take n xs) @ drop n xs"
  using nms_outer_eq [of 0 n xs thresh maxroi 0] assms by (simp add: NonMaxSuppression_def)

subsection \<open>What suppression means, and where the 32-bit products break it\<close>

definition p_pixels :: "proposal \<Rightarrow> (int \<times> int) set" where
  "p_pixels p = pixels (p_xmin p) (p_ymin p) (p_xmax p) (p_ymax p)"

definition p_in :: "int \<Rightarrow> int \<Rightarrow> proposal \<Rightarrow> bool" where
  "p_in w h p \<longleftrightarrow> box_in w h (p_xmin p) (p_ymin p) (p_xmax p) (p_ymax p)"

text \<open>The intersection over union of two rows exceeds the Q12 threshold.\<close>

definition iou_above :: "int \<Rightarrow> proposal \<Rightarrow> proposal \<Rightarrow> bool" where
  "iou_above thresh a b \<longleftrightarrow>
     thresh * int (card (p_pixels a \<union> p_pixels b)) < 4096 * int (card (p_pixels a \<inter> p_pixels b))"

lemma no_overlap_pixels:
  "no_overlap a b \<Longrightarrow> p_pixels a \<inter> p_pixels b = {}"
  by (auto simp: no_overlap_def p_pixels_def pixels_def)

lemma nms_hit_iou:
  assumes ab: "p_in w h a" "p_in w h b" and wh: "w * h < 524288"
    and thr: "0 \<le> thresh" "thresh \<le> 4096"
  shows "nms_hit thresh a b \<longleftrightarrow> iou_above thresh a b"
proof -
  let ?U = "int (card (p_pixels a \<union> p_pixels b))" and ?I = "int (card (p_pixels a \<inter> p_pixels b))"
  have w0: "0 \<le> w" "0 \<le> h" using ab by (auto simp: p_in_def box_in_def)
  have sub: "p_pixels a \<subseteq> {0..<w} \<times> {0..<h}" "p_pixels b \<subseteq> {0..<w} \<times> {0..<h}"
    using ab box_in_pixels by (auto simp: p_in_def p_pixels_def)
  have U: "?U < 524288" "?I < 524288"
    using card_le_image [OF Un_least [OF sub] w0] card_le_image [OF le_infI1 [OF sub(1), of "p_pixels b"] w0] wh
    by linarith+
  have "thresh * ?U \<le> 4096 * ?U" using thr by (intro mult_right_mono) auto
  then have s: "s32 (thresh * ?U) = thresh * ?U" "s32 (?I * 4096) = ?I * 4096" "s32 thresh = thresh"
    using U thr by (auto intro!: s32_small)
  have ov: "Overlap (p_xmin a) (p_ymin a) (p_xmax a) (p_ymax a) (p_xmin b) (p_ymin b) (p_xmax b) (p_ymax b) = (?U, ?I)"
    unfolding p_pixels_def using ab wh by (intro Overlap_pixels) (auto simp: p_in_def)
  have "\<not> iou_above thresh a b" if "p_pixels a \<inter> p_pixels b = {}"
    using that thr by (simp add: iou_above_def not_less)
  then show ?thesis
    using no_overlap_pixels [of a b] unfolding nms_hit_def ov
    by (auto simp: s iou_above_def mult.commute)
qed

text \<open>What the stages that suppress rely on.\<close>

lemma NonMaxSuppression_survivors:
  assumes n: "n \<le> length xs" and srt: "score_sorted (take n xs)"
    and inside: "\<forall>p \<in> set (take n xs). p_flag p = 0 \<longrightarrow> p_in w h p" and wh: "w * h < 524288"
    and thr: "0 \<le> thresh" "thresh \<le> 4096"
    and K: "K = filter nms_live (take n (NonMaxSuppression xs n thresh maxroi))"
  shows "score_sorted K" "set K \<subseteq> set (filter nms_live (take n xs))"
    "sorted_wrt (\<lambda>a b. \<not> iou_above thresh a b) (take maxroi K)"
proof -
  let ?zs = "take n xs"
  have K': "K = filter nms_live (greedy nms_live set_flag (nms_hit thresh) maxroi ?zs)"
    using n by (simp add: K NonMaxSuppression_eq [OF n srt])
  have s: "sorted_wrt (\<lambda>p q. p_score q \<le> p_score p) (filter nms_live ?zs)"
    using srt by (simp add: score_sorted_def sorted_wrt_filter)
  note R = nms.run_survivors [OF s, of thresh maxroi, folded K']
  show "score_sorted K" "set K \<subseteq> set (filter nms_live ?zs)" using R by (simp_all add: score_sorted_def)
  show "sorted_wrt (\<lambda>a b. \<not> iou_above thresh a b) (take maxroi K)"
  proof (rule sorted_wrt_mono_rel [of "take maxroi K" "\<lambda>a b. \<not> nms_hit thresh a b"])
    fix a b assume "a \<in> set (take maxroi K)" "b \<in> set (take maxroi K)" and h: "\<not> nms_hit thresh a b"
    then have "a \<in> set K" "b \<in> set K" by (auto dest: in_set_takeD)
    then have "p_in w h a" "p_in w h b" using R inside by auto
    then show "\<not> iou_above thresh a b" using nms_hit_iou [OF _ _ wh thr] h by blast
  qed (use R in simp)
qed

text \<open>
  C1. \<open>SVP_NNIE_NonMaxSuppression\<close> on rows sorted by confidence, all inside an image of fewer
  than 524288 pixels, with a Q12 threshold, keeps exactly what the greedy specification keeps:
  it changes flags only, touches nothing behind the \<open>n\<close> rows, and row \<open>j\<close> is left unflagged if and
  only if it came in unflagged and no better row that is left, and that is among the first
  \<open>maxroi\<close> of those left, overlaps it by more than the threshold (as exact intersection over
  union of pixel sets). As row \<open>j\<close> is decided by the rows before it, this determines the whole
  result, the effect of the limit \<open>maxroi\<close> included: rows behind the last one it admits suppress nothing.
\<close>

theorem NonMaxSuppression_correct:
  assumes n: "n \<le> length xs" and srt: "score_sorted (take n xs)"
    and inside: "\<forall>p \<in> set (take n xs). p_in w h p" and wh: "w * h < 524288"
    and thr: "0 \<le> thresh" "thresh \<le> 4096" and ys: "ys = NonMaxSuppression xs n thresh maxroi"
  shows "only_flags xs ys \<and> drop n ys = drop n xs \<and>
    (\<forall>j < n. p_flag (ys ! j) = 0 \<longleftrightarrow> p_flag (xs ! j) = 0 \<and>
       \<not> (\<exists>i < j. p_flag (ys ! i) = 0 \<and> length (filter nms_live (take i ys)) < maxroi \<and>
              iou_above thresh (ys ! i) (ys ! j)))"
proof -
  let ?zs = "take n xs" and ?r = "greedy nms_live set_flag (nms_hit thresh) maxroi (take n xs)"
  have of: "only_flags xs ys" by (simp add: ys only_flags_NonMaxSuppression)
  have eq: "ys = ?r @ drop n xs" using NonMaxSuppression_eq [OF n srt] by (simp add: ys)
  have len: "length ?zs = n" using n by simp
  have nth: "ys ! i = ?r ! i" if "i < n" for i using that n unfolding eq by (simp add: nth_append)
  have tk: "take i ys = take i ?r" if "i < n" for i using that n unfolding eq by simp
  have hit: "nms_hit thresh (?zs ! i) (?zs ! j) \<longleftrightarrow> iou_above thresh (ys ! i) (ys ! j)"
    if "i < n" "j < n" for i j
  proof -
    have "?zs ! i \<in> set ?zs" "?zs ! j \<in> set ?zs" using that len by (metis nth_mem)+
    then have "nms_hit thresh (?zs ! i) (?zs ! j) \<longleftrightarrow> iou_above thresh (xs ! i) (xs ! j)"
      using inside wh thr that by (subst nms_hit_iou [of w h]) auto
    also have "\<dots> \<longleftrightarrow> iou_above thresh (ys ! i) (ys ! j)"
      using only_flags_nth [OF of, of i] only_flags_nth [OF of, of j] that n
      by (simp add: iou_above_def p_pixels_def same_box_def)
    finally show ?thesis .
  qed
  have exact: "p_flag (ys ! j) = 0 \<longleftrightarrow> p_flag (xs ! j) = 0 \<and>
       \<not> (\<exists>i < j. p_flag (ys ! i) = 0 \<and> length (filter nms_live (take i ys)) < maxroi \<and>
              iou_above thresh (ys ! i) (ys ! j))" if j: "j < n" for j
  proof -
    have "nms_live (?r ! j) \<longleftrightarrow> nms_live (?zs ! j) \<and>
        \<not> (\<exists>i < j. nms_live (?r ! i) \<and> nms.kept ?r i < maxroi \<and> nms_hit thresh (?zs ! i) (?zs ! j))"
      by (rule nms.run_exact) (use j len in simp)
    moreover have "nms_live (?r ! i) \<longleftrightarrow> nms_live (ys ! i)"
        "nms.kept ?r i = length (filter nms_live (take i ys))"
        "nms_hit thresh (?zs ! i) (?zs ! j) \<longleftrightarrow> iou_above thresh (ys ! i) (ys ! j)" if "i < j" for i
      using nth [of i] tk [of i] hit [of i j] j that by (simp_all only: nms.kept_def order.strict_trans)
    moreover have "?zs ! j = xs ! j" using j by simp
    ultimately show ?thesis unfolding nth [OF j] by (metis (no_types, lifting))
  qed
  have "drop n ys = drop n xs" using n unfolding eq by simp
  with of exact show ?thesis by blast
qed

lemma NonMaxSuppression_correct_witness:
  "let xs = [\<lparr>p_xmin = 0, p_ymin = 0, p_xmax = 9, p_ymax = 9, p_score = 4000, p_flag = 0\<rparr>,
             \<lparr>p_xmin = 1, p_ymin = 0, p_xmax = 9, p_ymax = 9, p_score = 3000, p_flag = 0\<rparr>,
             \<lparr>p_xmin = 20, p_ymin = 20, p_xmax = 29, p_ymax = 29, p_score = 2000, p_flag = 0\<rparr>];
       ys = NonMaxSuppression xs 3 2867 2
   in map p_flag ys = [0, 1, 0] \<and> only_flags xs ys"
proof -
  let ?xs = "[\<lparr>p_xmin = 0, p_ymin = 0, p_xmax = 9, p_ymax = 9, p_score = 4000, p_flag = 0\<rparr>,
             \<lparr>p_xmin = 1, p_ymin = 0, p_xmax = 9, p_ymax = 9, p_score = 3000, p_flag = 0\<rparr>,
             \<lparr>p_xmin = 20, p_ymin = 20, p_xmax = 29, p_ymax = 29, p_score = 2000, p_flag = 0\<rparr>]"
  have "only_flags ?xs (NonMaxSuppression ?xs 3 2867 2)"
    using NonMaxSuppression_correct [of 3 ?xs 100 100 2867 "NonMaxSuppression ?xs 3 2867 2" 2]
    by (simp add: score_sorted_def p_in_def box_in_def)
  moreover have "map p_flag (NonMaxSuppression ?xs 3 2867 2) = [0, 1, 0]"
    by code_simp
  ultimately show ?thesis by (simp add: Let_def)
qed

text \<open>
  The bound on the image is needed: two identical boxes that fill a 1920 by 1080 frame, with
  the threshold 0.7 of the shipped configuration, both survive suppression, because
  \<open>2073600 * 4096\<close> and \<open>2867 * 2073600\<close> do not fit 32 bits.
\<close>

lemma NonMaxSuppression_full_hd_overflow:
  "let p = \<lparr>p_xmin = 0, p_ymin = 0, p_xmax = 1919, p_ymax = 1079, p_score = 4000, p_flag = 0\<rparr>
   in iou_above 2867 p p \<and> map p_flag (NonMaxSuppression [p, p] 2 2867 100) = [0, 0]"
proof -
  define p where "p = \<lparr>p_xmin = 0, p_ymin = 0, p_xmax = 1919, p_ymax = 1079, p_score = 4000, p_flag = 0\<rparr>"
  have "map p_flag (NonMaxSuppression [p, p] 2 2867 100) = [0, 0]"
    unfolding p_def by code_simp
  moreover have "iou_above 2867 p p"
    by (simp add: iou_above_def p_pixels_def card_pixels p_def)
  ultimately show ?thesis by (simp add: Let_def p_def)
qed

text \<open>
  \<open>SVP_NNIE_FilterLowScoreBbox\<close> leaves exactly the rows that were not flagged and reach the
  threshold, in their order, at the front of the array, counts them, and does not touch what
  lies beyond the \<open>n\<close> rows; with the threshold 0 it changes nothing.
\<close>

lemma FilterLowScoreBbox_correct:
  assumes "n \<le> length xs" "0 \<le> thresh" "FilterLowScoreBbox xs n thresh = (zs, c)"
  shows "if thresh = 0 then zs = xs \<and> c = n
    else (let ok = filter (\<lambda>p. p_flag p = 0 \<and> s32 thresh \<le> p_score p) (take n xs)
          in c = length ok \<and> take c zs = ok \<and> length zs = length xs \<and> drop n zs = drop n xs)"
proof (cases "thresh = 0")
  case True
  then show ?thesis using assms by (simp add: FilterLowScoreBbox_def)
next
  case False
  then have "0 < thresh" using assms(2) by simp
  with False show ?thesis
    using FilterLowScoreBbox_kept [OF assms(1) _ assms(3)] by (simp add: Let_def)
qed

lemma FilterLowScoreBbox_correct_witness:
  "let p = (\<lambda>s f. \<lparr>p_xmin = 0, p_ymin = 0, p_xmax = 9, p_ymax = 9, p_score = s, p_flag = f\<rparr>);
       xs = [p 10 0, p 200 0, p 300 1, p 150 0]
   in snd (FilterLowScoreBbox xs 4 100) = 2 \<and>
      take 2 (fst (FilterLowScoreBbox xs 4 100)) = [p 200 0, p 150 0]"
proof -
  define p where "p = (\<lambda>s f. \<lparr>p_xmin = 0, p_ymin = 0, p_xmax = 9, p_ymax = 9, p_score = s, p_flag = f :: int\<rparr>)"
  obtain zs c where r: "FilterLowScoreBbox [p 10 0, p 200 0, p 300 1, p 150 0] 4 100 = (zs, c)"
    by fastforce
  have "c = 2 \<and> take 2 zs = [p 200 0, p 150 0]"
    using FilterLowScoreBbox_correct [OF _ _ r]
    by (auto simp: p_def s32_def numeral_2_eq_2)
  then show ?thesis unfolding Let_def p_def [symmetric] r by simp
qed

end
