(* ===== verification/Nnie_Rpn.thy ===== *)
theory Nnie_Rpn
  imports Nnie_Math Nnie_Nms
begin

text \<open>
  The region proposal stage, \<open>SVP_NNIE_Rpn\<close> (sample_svp_nnie_software.c), step by step: the base
  anchor, its shapes, their scaled copies at every pixel of the feature map, the transposition of
  the two convolution blobs, the softmax of each score pair, the transformation and clipping of
  the boxes, and the filter, sort and suppression of \<open>Nnie_Nms\<close> and \<open>Nnie_Sort\<close>.

  The parameters of the function are the record \<open>rpn_cfg\<close>; the number of ratios and of scales is
  the length of their lists. A source blob is the function from the word index to the word read
  there. The parts of the memory pool are separate lists (that the pool has room for them, one
  behind the other, is proved in \<open>Nnie_Soft\<close>).
\<close>

section \<open>Data\<close>

record rpn_cfg =
  au32Ratios :: "int list"
  au32Scales :: "int list"
  u32OriImHeight :: int
  u32OriImWidth :: int
  conv0_height :: nat
  conv0_width :: nat
  conv1_height :: nat
  conv1_width :: nat
  conv1_channel :: nat
  u32ConvStride :: nat
  u32MaxRois :: nat
  u32MinSize :: int
  u32SpatialScale :: int
  u32NmsThresh :: int
  u32FilterThresh :: int
  u32NumBeforeNms :: nat

text \<open>Four coordinates, as floats and as integers.\<close>

record fbox =
  f_x1 :: cfloat
  f_y1 :: cfloat
  f_x2 :: cfloat
  f_y2 :: cfloat

record ibox =
  b_x1 :: int
  b_y1 :: int
  b_x2 :: int
  b_y2 :: int

text \<open>\<open>SAMPLE_SVP_NNIE_HALF\<close>, and an integer in Q12 as a float.\<close>

abbreviation half :: cfloat where
  "half \<equiv> Fin (1 / 2)"

definition q12 :: "int \<Rightarrow> cfloat" where
  "q12 x = fdiv F32 (of_s32 F32 x) (of_s32 F32 4096)"

section \<open>Anchors\<close>

text \<open>
  The base anchor has the corners 0, 0, \<open>u32MinSize - 1\<close>, \<open>u32MinSize - 1\<close>, as unsigned numbers:
  its side, and its centre, computed in double.
\<close>

definition base_side :: "rpn_cfg \<Rightarrow> cfloat" where
  "base_side cfg = of_s32 F32 (u32 (u32 (u32MinSize cfg - 1) - 0 + 1))"

definition base_centre :: "cfloat \<Rightarrow> cfloat" where
  "base_centre side = cvt F32 (fadd F64 (of_s32 F64 0) (fmul F64 (cvt F64 (fsub F32 side (Fin 1))) half))"

text \<open>Rounding to the nearest integer, as the code writes it.\<close>

definition round_side :: "cfloat \<Rightarrow> cfloat" where
  "round_side w = cvt F32 (fmul F64 (Fin 1)
     (of_s32 F64 (if fle (Fin 0) w then to_s32 (fadd F32 w half) else to_s32 (fsub F32 w half))))"

definition ratio_anchor :: "cfloat \<Rightarrow> cfloat \<Rightarrow> cfloat \<Rightarrow> int \<Rightarrow> fbox" where
  "ratio_anchor area xctr yctr r =
     (let ratio = q12 r;
          w = round_side (cvt F32 (fsqrt F64 (cvt F64 (fdiv F32 area ratio))));
          h = round_side (fmul F32 w ratio);
          dx = fmul F32 (fsub F32 w (Fin 1)) half;
          dy = fmul F32 (fsub F32 h (Fin 1)) half
      in \<lparr>f_x1 = fsub F32 xctr dx, f_y1 = fsub F32 yctr dy, f_x2 = fadd F32 xctr dx, f_y2 = fadd F32 yctr dy\<rparr>)"

definition ratio_anchors :: "rpn_cfg \<Rightarrow> fbox list" where
  "ratio_anchors cfg =
     (let side = base_side cfg; c = base_centre side
      in map (ratio_anchor (fmul F32 side side) c c) (au32Ratios cfg))"

definition scale_anchor :: "fbox \<Rightarrow> int \<Rightarrow> fbox" where
  "scale_anchor a s =
     (let w = fadd F32 (fsub F32 (f_x2 a) (f_x1 a)) (Fin 1);
          h = fadd F32 (fsub F32 (f_y2 a) (f_y1 a)) (Fin 1);
          xctr = fadd F32 (f_x1 a) (fmul F32 (fsub F32 w (Fin 1)) half);
          yctr = fadd F32 (f_y1 a) (fmul F32 (fsub F32 h (Fin 1)) half);
          dx = fmul F32 (fsub F32 (fmul F32 w (q12 s)) (Fin 1)) half;
          dy = fmul F32 (fsub F32 (fmul F32 h (q12 s)) (Fin 1)) half
      in \<lparr>f_x1 = fsub F32 xctr dx, f_y1 = fsub F32 yctr dy, f_x2 = fadd F32 xctr dx, f_y2 = fadd F32 yctr dy\<rparr>)"

definition scale_anchors :: "rpn_cfg \<Rightarrow> fbox list" where
  "scale_anchors cfg = concat (map (\<lambda>a. map (scale_anchor a) (au32Scales cfg)) (ratio_anchors cfg))"

definition place_anchor :: "int \<Rightarrow> nat \<Rightarrow> nat \<Rightarrow> fbox \<Rightarrow> ibox" where
  "place_anchor interval p q a =
     (let move = (\<lambda>k c. to_s32 (fadd F32 (of_s32 F32 (u32 (int k * interval))) c))
      in \<lparr>b_x1 = move q (f_x1 a), b_y1 = move p (f_y1 a), b_x2 = move q (f_x2 a), b_y2 = move p (f_y2 a)\<rparr>)"

definition rpn_anchors :: "rpn_cfg \<Rightarrow> ibox list" where
  "rpn_anchors cfg =
     (let interval = 4096 div u32SpatialScale cfg; shapes = scale_anchors cfg
      in concat (map (\<lambda>p. concat (map (\<lambda>q. map (place_anchor interval p q) shapes)
           [0..<conv0_width cfg])) [0..<conv0_height cfg]))"

definition NumAnchors :: "rpn_cfg \<Rightarrow> nat" where
  "NumAnchors cfg = length (au32Ratios cfg) * length (au32Scales cfg) * (conv0_height cfg * conv0_width cfg)"

section \<open>Transposing the blobs\<close>

text \<open>
  From channel, row, column to row, column, channel: channel \<open>c\<close> of the box blob is coordinate
  \<open>c mod 4\<close> of anchor \<open>c div 4\<close>; of the score blob, background scores come first.
\<close>

definition AnchorsPerPixel :: "rpn_cfg \<Rightarrow> nat" where
  "AnchorsPerPixel cfg = length (au32Ratios cfg) * length (au32Scales cfg)"

definition LineSize :: "rpn_cfg \<Rightarrow> nat" where
  "LineSize cfg = u32ConvStride cfg div 4"

definition MapSize :: "rpn_cfg \<Rightarrow> nat" where
  "MapSize cfg = conv1_height cfg * u32ConvStride cfg div 4"

text \<open>
  The areas of the deltas and of the scores are sized from the feature map of the score blob
  (\<open>pu32ConvHeight[0]\<close>, \<open>pu32ConvWidth[0]\<close>), the loops run over the one of the box blob
  (\<open>pu32ConvHeight[1]\<close> and so on), so every store is checked: \<open>None\<close> when it leaves its area.
\<close>

definition transpose_cell :: "rpn_cfg \<Rightarrow> (nat \<Rightarrow> int) \<Rightarrow> (nat \<Rightarrow> int) \<Rightarrow> nat \<Rightarrow> nat \<Rightarrow> nat
    \<Rightarrow> int list \<times> cfloat list \<Rightarrow> (int list \<times> cfloat list) option" where
  "transpose_cell cfg src0 src1 c h w = (\<lambda>(delta, score).
     let bbox = c * MapSize cfg + h * LineSize cfg + w;
         bg = (c div 4) * MapSize cfg + h * LineSize cfg + w;
         fg = AnchorsPerPixel cfg * MapSize cfg + bg;
         des = AnchorsPerPixel cfg * (h * conv1_width cfg + w) + c div 4
     in case store_at (4 * des + c mod 4) (src1 bbox) delta of
          None \<Rightarrow> None
        | Some delta' \<Rightarrow>
            (case store_at (2 * des) (q12 (src0 bg)) score of
               None \<Rightarrow> None
             | Some score' \<Rightarrow> map_option (Pair delta') (store_at (2 * des + 1) (q12 (src0 fg)) score')))"

definition rpn_transpose :: "rpn_cfg \<Rightarrow> (nat \<Rightarrow> int) \<Rightarrow> (nat \<Rightarrow> int)
    \<Rightarrow> int list \<times> cfloat list \<Rightarrow> (int list \<times> cfloat list) option" where
  "rpn_transpose cfg src0 src1 =
     fold_opt (\<lambda>c. fold_opt (\<lambda>h. fold_opt (\<lambda>w. transpose_cell cfg src0 src1 c h w)
       [0..<conv1_width cfg]) [0..<conv1_height cfg]) [0..<conv1_channel cfg]"

text \<open>Softmax of each pair of scores, in place.\<close>

definition softmax_pair :: "nat \<Rightarrow> cfloat list \<Rightarrow> cfloat list" where
  "softmax_pair i score =
     (let s = SoftMax [score ! (2 * i), score ! (2 * i + 1)]
      in score[2 * i := s ! 0, 2 * i + 1 := s ! 1])"

definition rpn_softmax :: "nat \<Rightarrow> cfloat list \<Rightarrow> cfloat list" where
  "rpn_softmax n = fold softmax_pair [0..<n]"

section \<open>From anchors to proposals\<close>

text \<open>One row: the anchor moved and scaled by its four deltas, and its foreground score in Q12.\<close>

definition bbox_transform :: "ibox \<Rightarrow> int \<Rightarrow> int \<Rightarrow> int \<Rightarrow> int \<Rightarrow> cfloat \<Rightarrow> proposal" where
  "bbox_transform a d0 d1 d2 d3 score =
     (let w = s32 (b_x2 a - b_x1 a + 1);
          h = s32 (b_y2 a - b_y1 a + 1);
          cx = s32 (b_x1 a + to_s32 (fmul F32 (of_s32 F32 w) half));
          cy = s32 (b_y1 a + to_s32 (fmul F32 (of_s32 F32 h) half));
          px = to_s32 (fadd F32 (fmul F32 (q12 d0) (of_s32 F32 w)) (of_s32 F32 cx));
          py = to_s32 (fadd F32 (fmul F32 (q12 d1) (of_s32 F32 h)) (of_s32 F32 cy));
          pw = to_s32 (fmul F32 (of_s32 F32 w) (QuickExp d2));
          ph = to_s32 (fmul F32 (of_s32 F32 h) (QuickExp d3))
      in \<lparr>p_xmin = to_s32 (fsub F32 (of_s32 F32 px) (fmul F32 half (of_s32 F32 pw))),
          p_ymin = to_s32 (fsub F32 (of_s32 F32 py) (fmul F32 half (of_s32 F32 ph))),
          p_xmax = to_s32 (fadd F32 (of_s32 F32 px) (fmul F32 half (of_s32 F32 pw))),
          p_ymax = to_s32 (fadd F32 (of_s32 F32 py) (fmul F32 half (of_s32 F32 ph))),
          p_score = to_s32 (fmul F32 score (of_s32 F32 4096)), p_flag = 0\<rparr>)"

definition rpn_rows :: "ibox list \<Rightarrow> int list \<Rightarrow> cfloat list \<Rightarrow> proposal list" where
  "rpn_rows anchors delta score =
     map (\<lambda>i. bbox_transform (anchors ! i) (delta ! (4 * i)) (delta ! (4 * i + 1)) (delta ! (4 * i + 2))
                (delta ! (4 * i + 3)) (score ! (2 * i + 1))) [0..<length anchors]"

definition clip_row :: "rpn_cfg \<Rightarrow> proposal \<Rightarrow> proposal" where
  "clip_row cfg p = p\<lparr>p_xmin := max (min (p_xmin p) (s32 (u32OriImWidth cfg) - 1)) 0,
     p_ymin := max (min (p_ymin p) (s32 (u32OriImHeight cfg) - 1)) 0,
     p_xmax := max (min (p_xmax p) (s32 (u32OriImWidth cfg) - 1)) 0,
     p_ymax := max (min (p_ymax p) (s32 (u32OriImHeight cfg) - 1)) 0\<rparr>"

definition flag_small :: "rpn_cfg \<Rightarrow> proposal \<Rightarrow> proposal" where
  "flag_small cfg p =
     (if s32 (p_xmax p - p_xmin p + 1) < s32 (u32MinSize cfg) \<or> s32 (p_ymax p - p_ymin p + 1) < s32 (u32MinSize cfg)
      then p\<lparr>p_flag := 1\<rparr> else p)"

section \<open>Selecting and writing the regions\<close>

definition roi_of :: "proposal \<Rightarrow> ibox" where
  "roi_of p = \<lparr>b_x1 = s32 (p_xmin p * 4096), b_y1 = s32 (p_ymin p * 4096),
     b_x2 = s32 (p_xmax p * 4096), b_y2 = s32 (p_ymax p * 4096)\<rparr>"

text \<open>The output loop over the remaining rows: it stops behind the row that fills the quota.\<close>

fun write_rois :: "nat \<Rightarrow> proposal list \<Rightarrow> ibox list \<Rightarrow> ibox list" where
  "write_rois maxrois [] out = out"
| "write_rois maxrois (p # ps) out =
     (let out' = (if p_flag p = 0 then out @ [roi_of p] else out)
      in if maxrois \<le> length out' then out' else write_rois maxrois ps out')"

definition rpn_select :: "nat \<Rightarrow> rpn_cfg \<Rightarrow> proposal list \<Rightarrow> ibox list option" where
  "rpn_select cap cfg rows =
     (let (ps, n) = FilterLowScoreBbox rows (length rows) (u32FilterThresh cfg)
      in case sort_rows cap p_score (int (u32NumBeforeNms cfg)) n ps of
           None \<Rightarrow> None
         | Some qs \<Rightarrow>
             let k = (if n < u32NumBeforeNms cfg then n else u32NumBeforeNms cfg);
                 rs = NonMaxSuppression qs k (u32NmsThresh cfg) (u32MaxRois cfg)
             in Some (write_rois (u32MaxRois cfg) (take k rs) []))"

text \<open>
  The whole function: \<open>cap\<close> stack slots, the score and the box blob, and what the delta and score
  areas of the pool held before. \<open>None\<close>: a store of the transposition leaves its area, or the sort
  its stack.
\<close>

definition Rpn :: "nat \<Rightarrow> rpn_cfg \<Rightarrow> (nat \<Rightarrow> int) \<Rightarrow> (nat \<Rightarrow> int) \<Rightarrow> int list \<Rightarrow> cfloat list \<Rightarrow> ibox list option" where
  "Rpn cap cfg src0 src1 delta0 score0 =
     (case rpn_transpose cfg src0 src1 (delta0, score0) of
        None \<Rightarrow> None
      | Some (delta, score) \<Rightarrow>
          let score' = rpn_softmax (NumAnchors cfg) score;
              rows = rpn_rows (rpn_anchors cfg) delta score'
          in rpn_select cap cfg (map (flag_small cfg) (map (clip_row cfg) rows)))"

section \<open>The transposition\<close>

text \<open>The areas of the pool have their sizes, and the two blobs have the same feature map.\<close>

definition rpn_areas :: "rpn_cfg \<Rightarrow> int list \<Rightarrow> cfloat list \<Rightarrow> bool" where
  "rpn_areas cfg delta score \<longleftrightarrow> length delta = 4 * NumAnchors cfg \<and> length score = 2 * NumAnchors cfg"

definition blobs_match :: "rpn_cfg \<Rightarrow> bool" where
  "blobs_match cfg \<longleftrightarrow> conv1_height cfg = conv0_height cfg \<and> conv1_width cfg = conv0_width cfg \<and>
     conv1_channel cfg = 4 * AnchorsPerPixel cfg"

lemma NumAnchors_eq: "NumAnchors cfg = AnchorsPerPixel cfg * (conv0_height cfg * conv0_width cfg)"
  by (simp add: NumAnchors_def AnchorsPerPixel_def)

text \<open>The same step and the same loops without the check.\<close>

definition cell_upd :: "rpn_cfg \<Rightarrow> (nat \<Rightarrow> int) \<Rightarrow> (nat \<Rightarrow> int) \<Rightarrow> nat \<Rightarrow> nat \<Rightarrow> nat
    \<Rightarrow> int list \<times> cfloat list \<Rightarrow> int list \<times> cfloat list" where
  "cell_upd cfg src0 src1 c h w = (\<lambda>(delta, score).
     let bbox = c * MapSize cfg + h * LineSize cfg + w;
         bg = (c div 4) * MapSize cfg + h * LineSize cfg + w;
         fg = AnchorsPerPixel cfg * MapSize cfg + bg;
         des = AnchorsPerPixel cfg * (h * conv1_width cfg + w) + c div 4
     in (delta[4 * des + c mod 4 := src1 bbox],
         score[2 * des := q12 (src0 bg), 2 * des + 1 := q12 (src0 fg)]))"

definition transposed :: "rpn_cfg \<Rightarrow> (nat \<Rightarrow> int) \<Rightarrow> (nat \<Rightarrow> int)
    \<Rightarrow> int list \<times> cfloat list \<Rightarrow> int list \<times> cfloat list" where
  "transposed cfg src0 src1 =
     fold (\<lambda>c. fold (\<lambda>h. fold (\<lambda>w. cell_upd cfg src0 src1 c h w)
       [0..<conv1_width cfg]) [0..<conv1_height cfg]) [0..<conv1_channel cfg]"

lemma cell_upd_length:
  "length (fst (cell_upd cfg src0 src1 c h w st)) = length (fst st) \<and>
   length (snd (cell_upd cfg src0 src1 c h w st)) = length (snd st)"
  by (cases st) (simp add: cell_upd_def Let_def)

definition cell_index :: "rpn_cfg \<Rightarrow> nat \<Rightarrow> nat \<Rightarrow> nat \<Rightarrow> nat" where
  "cell_index cfg a h w = AnchorsPerPixel cfg * (h * conv1_width cfg + w) + a"

lemma cell_upd_eq:
  "cell_upd cfg src0 src1 c h w st =
     ((fst st)[4 * cell_index cfg (c div 4) h w + c mod 4 := src1 (c * MapSize cfg + (h * LineSize cfg + w))],
      (snd st)[2 * cell_index cfg (c div 4) h w := q12 (src0 ((c div 4) * MapSize cfg + (h * LineSize cfg + w))),
        2 * cell_index cfg (c div 4) h w + 1 :=
          q12 (src0 ((AnchorsPerPixel cfg + c div 4) * MapSize cfg + (h * LineSize cfg + w)))])"
  by (cases st) (simp add: cell_upd_def cell_index_def Let_def add.assoc distrib_right)

lemma cell_index_inj:
  assumes "cell_index cfg a h w = cell_index cfg a' h' w'"
    and "a < AnchorsPerPixel cfg" "a' < AnchorsPerPixel cfg" "w < conv1_width cfg" "w' < conv1_width cfg"
  shows "a = a' \<and> h = h' \<and> w = w'"
proof -
  have 1: "h * conv1_width cfg + w = h' * conv1_width cfg + w' \<and> a = a'"
    using assms by (intro mixed_radix [of a "AnchorsPerPixel cfg"]) (simp_all add: cell_index_def)
  then have "conv1_width cfg * h + w = conv1_width cfg * h' + w'" by (simp add: mult.commute)
  from mixed_radix [OF assms(4,5) this] 1 show ?thesis by blast
qed

lemma cell_index_less:
  assumes "a < AnchorsPerPixel cfg" "h < conv1_height cfg" "w < conv1_width cfg"
  shows "cell_index cfg a h w < AnchorsPerPixel cfg * (conv1_height cfg * conv1_width cfg)"
proof -
  have "Suc (h * conv1_width cfg + w) \<le> Suc h * conv1_width cfg" using assms(3) by simp
  also have "\<dots> \<le> conv1_height cfg * conv1_width cfg" using assms(2) by (intro mult_le_mono1) simp
  finally have "AnchorsPerPixel cfg * Suc (h * conv1_width cfg + w) \<le>
      AnchorsPerPixel cfg * (conv1_height cfg * conv1_width cfg)" by (rule mult_le_mono2)
  then show ?thesis using assms(1) by (simp add: cell_index_def)
qed

lemma transposed_cell:
  assumes "\<And>st. I st \<Longrightarrow> P (cell_upd cfg src0 src1 c h w st)"
    and "\<And>c' h' w' st. c' < conv1_channel cfg \<Longrightarrow> h' < conv1_height cfg \<Longrightarrow> w' < conv1_width cfg \<Longrightarrow>
       I st \<Longrightarrow> P st \<Longrightarrow> P (cell_upd cfg src0 src1 c' h' w' st)"
    and "\<And>c' h' w' st. I st \<Longrightarrow> I (cell_upd cfg src0 src1 c' h' w' st)"
    and "I st" "c < conv1_channel cfg" "h < conv1_height cfg" "w < conv1_width cfg"
  shows "P (transposed cfg src0 src1 st)"
proof -
  let ?row = "\<lambda>c h. fold (\<lambda>w. cell_upd cfg src0 src1 c h w) [0..<conv1_width cfg]"
  let ?map = "\<lambda>c. fold (?row c) [0..<conv1_height cfg]"
  have I: "I st \<Longrightarrow> I (?row c h st)" "I st \<Longrightarrow> I (?map c st)" for c h st
    using assms(3) by (auto intro!: fold_preserve [of _ I])
  have row: "I st \<Longrightarrow> P (?row c h st)" for st
    by (rule fold_establish [of w _ I]) (use assms in auto)
  have row': "I st \<Longrightarrow> P st \<Longrightarrow> P (?row c' h' st)" if "c' < conv1_channel cfg" "h' < conv1_height cfg" for c' h' st
    using fold_preserve [of "[0..<conv1_width cfg]" "\<lambda>st. I st \<and> P st" "\<lambda>w. cell_upd cfg src0 src1 c' h' w" st]
      assms(2,3) that by auto
  have map: "I st \<Longrightarrow> P (?map c st)" for st
    by (rule fold_establish [of h _ I]) (use assms row row' I in auto)
  have map': "I st \<Longrightarrow> P st \<Longrightarrow> P (?map c' st)" if "c' < conv1_channel cfg" for c' st
    using fold_preserve [of "[0..<conv1_height cfg]" "\<lambda>st. I st \<and> P st" "?row c'" st]
      row' I that by auto
  show ?thesis unfolding transposed_def
    by (rule fold_establish [of c _ I]) (use assms map map' I in auto)
qed

lemma transposed_correct:
  assumes chn: "conv1_channel cfg = 4 * AnchorsPerPixel cfg"
    and len: "length delta0 = 4 * (AnchorsPerPixel cfg * (conv1_height cfg * conv1_width cfg))"
      "length score0 = 2 * (AnchorsPerPixel cfg * (conv1_height cfg * conv1_width cfg))"
    and r: "a < AnchorsPerPixel cfg" "k < 4" "h < conv1_height cfg" "w < conv1_width cfg"
  shows "let (delta, score) = transposed cfg src0 src1 (delta0, score0);
             i = AnchorsPerPixel cfg * (h * conv1_width cfg + w) + a;
             pixel = h * LineSize cfg + w
         in delta ! (4 * i + k) = src1 ((4 * a + k) * MapSize cfg + pixel) \<and>
            score ! (2 * i) = q12 (src0 (a * MapSize cfg + pixel)) \<and>
            score ! (2 * i + 1) = q12 (src0 ((AnchorsPerPixel cfg + a) * MapSize cfg + pixel))"
proof -
  let ?i = "cell_index cfg a h w" and ?c = "4 * a + k"
  let ?n = "AnchorsPerPixel cfg * (conv1_height cfg * conv1_width cfg)"
  define I where "I = (\<lambda>st :: int list \<times> cfloat list. length (fst st) = 4 * ?n \<and> length (snd st) = 2 * ?n)"
  define P where "P = (\<lambda>st :: int list \<times> cfloat list.
     fst st ! (4 * ?i + k) = src1 (?c * MapSize cfg + (h * LineSize cfg + w)) \<and>
     snd st ! (2 * ?i) = q12 (src0 (a * MapSize cfg + (h * LineSize cfg + w))) \<and>
     snd st ! (2 * ?i + 1) = q12 (src0 ((AnchorsPerPixel cfg + a) * MapSize cfg + (h * LineSize cfg + w))))"
  have i: "?i < ?n" using r by (intro cell_index_less)
  have c: "?c div 4 = a" "?c mod 4 = k" using r by simp_all
  have "P (transposed cfg src0 src1 (delta0, score0))"
  proof (rule transposed_cell [of I P cfg src0 src1 ?c h w])
    fix st assume "I st"
    then show "P (cell_upd cfg src0 src1 ?c h w st)" using i r(2)
      unfolding P_def I_def cell_upd_eq c by simp
  next
    fix c' h' w' st
    assume t: "c' < conv1_channel cfg" "h' < conv1_height cfg" "w' < conv1_width cfg" "I st" "P st"
    let ?j = "cell_index cfg (c' div 4) h' w'"
    have a': "c' div 4 < AnchorsPerPixel cfg" using t(1) chn by simp
    have j: "?j < ?n" using a' t by (intro cell_index_less)
    have same: "?j = ?i \<Longrightarrow> c' div 4 = a \<and> h' = h \<and> w' = w"
      by (rule cell_index_inj [OF _ a' r(1) t(3) r(4)])
    have d: "4 * ?j + c' mod 4 = 4 * ?i + k \<Longrightarrow> ?j = ?i \<and> c' = ?c"
      using mixed_radix [of "c' mod 4" 4 k ?j ?i] r(2) same by auto
    have len: "length (fst st) = 4 * ?n" "length (snd st) = 2 * ?n" using t(4) by (simp_all add: I_def)
    have "(fst st)[4 * ?j + c' mod 4 := src1 (c' * MapSize cfg + (h' * LineSize cfg + w'))] ! (4 * ?i + k) =
        src1 (?c * MapSize cfg + (h * LineSize cfg + w))"
    proof (cases "4 * ?j + c' mod 4 = 4 * ?i + k")
      case True
      then show ?thesis using d same len i r(2) by simp
    next
      case False
      then show ?thesis using t(5) by (simp add: P_def)
    qed
    moreover have "2 * ?j + 1 \<noteq> 2 * ?i" "2 * ?j \<noteq> 2 * ?i + 1" by presburger+
    ultimately show "P (cell_upd cfg src0 src1 c' h' w' st)"
      unfolding cell_upd_eq using same t(5) len i
      by (cases "?j = ?i") (simp_all add: P_def)
  next
    fix c' h' w' st assume "I st"
    then show "I (cell_upd cfg src0 src1 c' h' w' st)" by (simp add: I_def cell_upd_length)
  qed (use r chn len in \<open>simp_all add: I_def\<close>)
  then show ?thesis
    by (simp add: P_def Let_def case_prod_beta cell_index_def [symmetric])
qed

text \<open>On areas and blobs that match, no store leaves its area.\<close>

lemma transpose_cell_eq:
  "transpose_cell cfg src0 src1 c h w st =
     (let i = cell_index cfg (c div 4) h w
      in if 4 * i + c mod 4 < length (fst st) \<and> 2 * i + 1 < length (snd st)
         then Some (cell_upd cfg src0 src1 c h w st) else None)"
  by (cases st) (auto simp: transpose_cell_def cell_upd_def store_at_def cell_index_def Let_def)

lemma cell_in_areas:
  assumes "blobs_match cfg" "rpn_areas cfg (fst st) (snd st)"
    and "c < conv1_channel cfg" "h < conv1_height cfg" "w < conv1_width cfg"
  shows "transpose_cell cfg src0 src1 c h w st = Some (cell_upd cfg src0 src1 c h w st)"
    "rpn_areas cfg (fst (cell_upd cfg src0 src1 c h w st)) (snd (cell_upd cfg src0 src1 c h w st))"
proof -
  have "c div 4 < AnchorsPerPixel cfg" using assms(1,3) by (simp add: blobs_match_def)
  from cell_index_less [OF this assms(4,5)]
  have "cell_index cfg (c div 4) h w < NumAnchors cfg" using assms(1) by (simp add: NumAnchors_eq blobs_match_def)
  then show "transpose_cell cfg src0 src1 c h w st = Some (cell_upd cfg src0 src1 c h w st)"
    using assms(2) unfolding transpose_cell_eq Let_def by (simp add: rpn_areas_def)
  show "rpn_areas cfg (fst (cell_upd cfg src0 src1 c h w st)) (snd (cell_upd cfg src0 src1 c h w st))"
    using assms(2) by (simp add: rpn_areas_def cell_upd_length)
qed

lemma rpn_transpose_total:
  assumes m: "blobs_match cfg" and a: "rpn_areas cfg delta0 score0"
  shows "rpn_transpose cfg src0 src1 (delta0, score0) = Some (transposed cfg src0 src1 (delta0, score0))"
    "rpn_areas cfg (fst (transposed cfg src0 src1 (delta0, score0))) (snd (transposed cfg src0 src1 (delta0, score0)))"
proof -
  let ?I = "\<lambda>st. rpn_areas cfg (fst st) (snd st)"
  let ?g = "\<lambda>c h. fold (cell_upd cfg src0 src1 c h) [0..<conv1_width cfg]"
  let ?f = "\<lambda>c h. fold_opt (transpose_cell cfg src0 src1 c h) [0..<conv1_width cfg]"
  have row: "?f c h st = Some (?g c h st) \<and> ?I (?g c h st)"
    if "?I st" "c < conv1_channel cfg" "h < conv1_height cfg" for c h st
    by (rule fold_opt_total [where I = ?I]) (use cell_in_areas [OF m] that in auto)
  have plane: "fold_opt (?f c) [0..<conv1_height cfg] st = Some (fold (?g c) [0..<conv1_height cfg] st) \<and>
      ?I (fold (?g c) [0..<conv1_height cfg] st)" if "?I st" "c < conv1_channel cfg" for c st
    by (rule fold_opt_total [where I = ?I]) (use row that in auto)
  have "rpn_transpose cfg src0 src1 (delta0, score0) = Some (transposed cfg src0 src1 (delta0, score0)) \<and>
      ?I (transposed cfg src0 src1 (delta0, score0))"
    unfolding rpn_transpose_def transposed_def
    by (rule fold_opt_total [where I = ?I]) (use plane a in auto)
  then show "rpn_transpose cfg src0 src1 (delta0, score0) = Some (transposed cfg src0 src1 (delta0, score0))"
    "?I (transposed cfg src0 src1 (delta0, score0))" by blast+
qed

text \<open>
  The transposition of \<open>SVP_NNIE_Rpn\<close>, for two blobs of the same feature map and four box channels
  per anchor: no store leaves its area, and delta \<open>k\<close> of anchor \<open>a\<close> at row \<open>h\<close>, column \<open>w\<close> is the word
  of channel \<open>4a + k\<close> of the box blob at that pixel, and the two scores of the anchor are the words
  of its background and of its foreground channel there, whatever the areas held before.
\<close>

lemma rpn_transpose_correct:
  assumes m: "blobs_match cfg" and a: "rpn_areas cfg delta0 score0"
  shows "\<exists>delta score. rpn_transpose cfg src0 src1 (delta0, score0) = Some (delta, score) \<and> rpn_areas cfg delta score \<and>
     (\<forall>a < AnchorsPerPixel cfg. \<forall>h < conv1_height cfg. \<forall>w < conv1_width cfg.
        let i = cell_index cfg a h w; pixel = h * LineSize cfg + w
        in (\<forall>k < 4. delta ! (4 * i + k) = src1 ((4 * a + k) * MapSize cfg + pixel)) \<and>
           score ! (2 * i) = q12 (src0 (a * MapSize cfg + pixel)) \<and>
           score ! (2 * i + 1) = q12 (src0 ((AnchorsPerPixel cfg + a) * MapSize cfg + pixel)))"
proof -
  obtain delta score where t: "transposed cfg src0 src1 (delta0, score0) = (delta, score)" by fastforce
  have len: "length delta0 = 4 * (AnchorsPerPixel cfg * (conv1_height cfg * conv1_width cfg))"
    "length score0 = 2 * (AnchorsPerPixel cfg * (conv1_height cfg * conv1_width cfg))"
    and chn: "conv1_channel cfg = 4 * AnchorsPerPixel cfg"
    using m a by (simp_all add: blobs_match_def rpn_areas_def NumAnchors_eq)
  have cell: "let i = cell_index cfg a h w; pixel = h * LineSize cfg + w
      in (\<forall>k < 4. delta ! (4 * i + k) = src1 ((4 * a + k) * MapSize cfg + pixel)) \<and>
         score ! (2 * i) = q12 (src0 (a * MapSize cfg + pixel)) \<and>
         score ! (2 * i + 1) = q12 (src0 ((AnchorsPerPixel cfg + a) * MapSize cfg + pixel))"
    if "a < AnchorsPerPixel cfg" "h < conv1_height cfg" "w < conv1_width cfg" for a h w
    using transposed_correct [OF chn len that(1) _ that(2,3), of _ src0 src1] transposed_correct [OF chn len that(1) zero_less_numeral that(2,3), of src0 src1]
    unfolding t Let_def cell_index_def by auto
  show ?thesis
    by (intro exI [of _ delta] exI [of _ score] conjI allI impI cell)
       (use rpn_transpose_total [OF m a, of src0 src1] in \<open>simp_all add: t\<close>)
qed

text \<open>
  With a box blob of more lines, or with more than four channels per anchor, the loops leave the
  area of the deltas: nothing compares the two blobs.
\<close>

lemma transpose_cell_stays:
  "transpose_cell cfg src0 src1 c h w st = Some st' \<Longrightarrow> rpn_areas cfg (fst st) (snd st) \<Longrightarrow>
     rpn_areas cfg (fst st') (snd st') \<and> cell_index cfg (c div 4) h w < NumAnchors cfg"
  by (auto simp: transpose_cell_eq Let_def rpn_areas_def cell_upd_length split: if_splits)

lemma rpn_transpose_stays:
  assumes t: "rpn_transpose cfg src0 src1 (delta0, score0) = Some st" and a: "rpn_areas cfg delta0 score0"
    and r: "c < conv1_channel cfg" "h < conv1_height cfg" "w < conv1_width cfg"
  shows "cell_index cfg (c div 4) h w < NumAnchors cfg"
proof -
  let ?I = "\<lambda>st. rpn_areas cfg (fst st) (snd st)"
  let ?f = "\<lambda>c h. fold_opt (transpose_cell cfg src0 src1 c h) [0..<conv1_width cfg]"
  have row: "?I st' \<and> (\<forall>w \<in> set [0..<conv1_width cfg]. \<exists>u u'. ?I u \<and> transpose_cell cfg src0 src1 c h w u = Some u')"
    if "?f c h st = Some st'" "?I st" for c h st st'
    by (rule fold_opt_steps [where I = ?I, OF that]) (use transpose_cell_stays in blast)
  have plane: "?I st' \<and> (\<forall>h \<in> set [0..<conv1_height cfg]. \<exists>u u'. ?I u \<and> ?f c h u = Some u')"
    if "fold_opt (?f c) [0..<conv1_height cfg] st = Some st'" "?I st" for c st st'
    by (rule fold_opt_steps [where I = ?I, OF that]) (use row in blast)
  have "\<forall>c \<in> set [0..<conv1_channel cfg]. \<exists>u u'. ?I u \<and> fold_opt (?f c) [0..<conv1_height cfg] u = Some u'"
    by (rule conjunct2 [OF fold_opt_steps [where I = ?I, OF t [unfolded rpn_transpose_def]]]) (use plane a in auto)
  then have "\<exists>u u'. ?I u \<and> fold_opt (?f c) [0..<conv1_height cfg] u = Some u'" by (rule bspec) (use r in simp)
  then obtain u u' where "?I u" "fold_opt (?f c) [0..<conv1_height cfg] u = Some u'" by blast
  from conjunct2 [OF plane [OF this(2,1)]] have "\<exists>v v'. ?I v \<and> ?f c h v = Some v'" by (rule bspec) (use r in simp)
  then obtain v v' where "?I v" "?f c h v = Some v'" by blast
  from conjunct2 [OF row [OF this(2,1)]] have "\<exists>x x'. ?I x \<and> transpose_cell cfg src0 src1 c h w x = Some x'"
    by (rule bspec) (use r in simp)
  then show ?thesis using transpose_cell_stays by blast
qed

lemma rpn_transpose_leaves_area:
  assumes "rpn_areas cfg delta0 score0" "0 < conv1_channel cfg" "0 < conv1_width cfg"
    and "conv0_height cfg < conv1_height cfg" "conv0_width cfg \<le> conv1_width cfg"
  shows "Rpn cap cfg src0 src1 delta0 score0 = None"
proof (cases "rpn_transpose cfg src0 src1 (delta0, score0)")
  case None
  then show ?thesis by (simp add: Rpn_def)
next
  case (Some st)
  from rpn_transpose_stays [OF Some assms(1,2,4,3)]
  have "AnchorsPerPixel cfg * (conv0_height cfg * conv1_width cfg) < AnchorsPerPixel cfg * (conv0_height cfg * conv0_width cfg)"
    by (simp add: cell_index_def NumAnchors_eq)
  moreover have "AnchorsPerPixel cfg * (conv0_height cfg * conv0_width cfg) \<le> AnchorsPerPixel cfg * (conv0_height cfg * conv1_width cfg)"
    using assms(5) by simp
  ultimately show ?thesis by linarith
qed

definition small_cfg :: rpn_cfg where
  "small_cfg = \<lparr>au32Ratios = [4096], au32Scales = [4096], u32OriImHeight = 300, u32OriImWidth = 400,
     conv0_height = 2, conv0_width = 3, conv1_height = 2, conv1_width = 3, conv1_channel = 4,
     u32ConvStride = 16, u32MaxRois = 2, u32MinSize = 16, u32SpatialScale = 256, u32NmsThresh = 2867,
     u32FilterThresh = 16, u32NumBeforeNms = 5\<rparr>"

lemma small_cfg_shapes [simp]:
  "AnchorsPerPixel small_cfg = 1" "conv1_width small_cfg = 3" "conv1_height small_cfg = 2"
  "conv1_channel small_cfg = 4" "LineSize small_cfg = 4" "MapSize small_cfg = 8" "NumAnchors small_cfg = 6"
  "blobs_match small_cfg" "rpn_areas small_cfg (replicate 24 d) (replicate 12 s)"
  by (simp_all add: small_cfg_def AnchorsPerPixel_def LineSize_def MapSize_def NumAnchors_def blobs_match_def rpn_areas_def)

lemma rpn_transpose_correct_witness:
  "\<exists>delta score. rpn_transpose small_cfg int (\<lambda>i. 100 + int i) (replicate 24 0, replicate 12 (Fin 0)) = Some (delta, score) \<and>
     delta ! 23 = 130"
proof -
  let ?src1 = "\<lambda>i. 100 + int i"
  obtain delta score where t: "rpn_transpose small_cfg int ?src1 (replicate 24 0, replicate 12 (Fin 0)) = Some (delta, score)"
    and d: "\<forall>a < AnchorsPerPixel small_cfg. \<forall>h < conv1_height small_cfg. \<forall>w < conv1_width small_cfg.
        let i = cell_index small_cfg a h w; pixel = h * LineSize small_cfg + w
        in (\<forall>k < 4. delta ! (4 * i + k) = ?src1 ((4 * a + k) * MapSize small_cfg + pixel)) \<and>
           score ! (2 * i) = q12 (int (a * MapSize small_cfg + pixel)) \<and>
           score ! (2 * i + 1) = q12 (int ((AnchorsPerPixel small_cfg + a) * MapSize small_cfg + pixel))"
    using rpn_transpose_correct [OF small_cfg_shapes(8) small_cfg_shapes(9) [where d = 0 and s = "Fin 0"], of int ?src1] by blast
  have "(0 :: nat) < 1" "(1 :: nat) < 2" "(2 :: nat) < 3" "(3 :: nat) < 4" by simp_all
  then have "delta ! (4 * cell_index small_cfg 0 1 2 + 3) = 100 + int ((4 * 0 + 3) * 8 + (1 * 4 + 2))"
    using d unfolding small_cfg_shapes Let_def by blast
  then have "delta ! 23 = 130" by (simp add: cell_index_def)
  with t show ?thesis by blast
qed

lemma rpn_transpose_leaves_area_witness:
  "Rpn 3 (small_cfg\<lparr>conv1_height := 1000\<rparr>) (\<lambda>_. 0) (\<lambda>_. 0) (replicate 24 0) (replicate 12 (Fin 0)) = None"
  by (rule rpn_transpose_leaves_area) (simp_all add: small_cfg_def rpn_areas_def NumAnchors_def)

section \<open>Selection\<close>

lemma length_scale_anchors: "length (scale_anchors cfg) = AnchorsPerPixel cfg"
  by (simp add: scale_anchors_def ratio_anchors_def Let_def length_concat o_def sum_list_triv AnchorsPerPixel_def)

lemma length_rpn_anchors: "length (rpn_anchors cfg) = NumAnchors cfg"
  by (simp add: rpn_anchors_def Let_def length_concat o_def sum_list_triv length_scale_anchors
      NumAnchors_def AnchorsPerPixel_def)

lemma write_rois_eq:
  "length out < m \<Longrightarrow> write_rois m ps out = out @ map roi_of (take (m - length out) (filter nms_live ps))"
proof (induction ps arbitrary: out)
  case Nil
  then show ?case by simp
next
  case (Cons p ps)
  consider "p_flag p \<noteq> 0" | "p_flag p = 0" "Suc (length out) < m" | "p_flag p = 0" "m = Suc (length out)"
    using Cons.prems by linarith
  then show ?case
  proof cases
    case 2
    have "m - length out = Suc (m - Suc (length out))" using 2 by simp
    then show ?thesis using 2 Cons.IH [of "out @ [roi_of p]"] by (simp add: Let_def)
  qed (use Cons in \<open>simp_all add: Let_def\<close>)
qed

text \<open>A clipped row that is large enough is a box of the image.\<close>

definition good_row :: "rpn_cfg \<Rightarrow> proposal \<Rightarrow> bool" where
  "good_row cfg p \<longleftrightarrow> p_in (u32OriImWidth cfg) (u32OriImHeight cfg) p \<and>
     u32MinSize cfg \<le> p_xmax p - p_xmin p + 1 \<and> u32MinSize cfg \<le> p_ymax p - p_ymin p + 1"

definition cfg_ok :: "rpn_cfg \<Rightarrow> bool" where
  "cfg_ok cfg \<longleftrightarrow> 0 < u32OriImWidth cfg \<and> 0 < u32OriImHeight cfg \<and>
     u32OriImWidth cfg * u32OriImHeight cfg < 524288 \<and> 0 < u32MinSize cfg \<and> u32MinSize cfg < 2147483648 \<and>
     0 \<le> u32NmsThresh cfg \<and> u32NmsThresh cfg \<le> 4096 \<and>
     0 \<le> u32FilterThresh cfg \<and> u32FilterThresh cfg < 2147483648 \<and> 0 < u32SpatialScale cfg \<and> 0 < u32MaxRois cfg"

lemma image_side: "0 < a \<Longrightarrow> 0 < b \<Longrightarrow> a * b < n \<Longrightarrow> a < n \<and> b < (n :: int)"
proof -
  assume a: "0 < a" "0 < b" "a * b < n"
  have "a * 1 \<le> a * b" by (rule mult_left_mono) (use a in simp_all)
  moreover have "1 * b \<le> a * b" by (rule mult_right_mono) (use a in simp_all)
  ultimately show ?thesis using a by linarith
qed

lemma cfg_sides: "cfg_ok cfg \<Longrightarrow> u32OriImWidth cfg < 524288 \<and> u32OriImHeight cfg < 524288"
  unfolding cfg_ok_def using image_side by blast

lemma flag_small_good:
  assumes "cfg_ok cfg" "p_flag (flag_small cfg (clip_row cfg p)) = 0"
  shows "good_row cfg (flag_small cfg (clip_row cfg p))"
proof -
  let ?c = "clip_row cfg p" and ?W = "u32OriImWidth cfg" and ?H = "u32OriImHeight cfg"
  have W: "s32 ?W = ?W" "s32 ?H = ?H" "s32 (u32MinSize cfg) = u32MinSize cfg"
    using assms(1) cfg_sides [OF assms(1)] by (simp_all add: cfg_ok_def s32_id in_s32_def)
  have pos: "0 < ?W" "0 < ?H" using assms(1) by (simp_all add: cfg_ok_def)
  have c: "0 \<le> p_xmin ?c" "p_xmin ?c < ?W" "0 \<le> p_xmax ?c" "p_xmax ?c < ?W"
    "0 \<le> p_ymin ?c" "p_ymin ?c < ?H" "0 \<le> p_ymax ?c" "p_ymax ?c < ?H"
    using pos by (simp_all add: clip_row_def W)
  have s: "s32 (p_xmax ?c - p_xmin ?c + 1) = p_xmax ?c - p_xmin ?c + 1"
    "s32 (p_ymax ?c - p_ymin ?c + 1) = p_ymax ?c - p_ymin ?c + 1"
    using c cfg_sides [OF assms(1)] by (simp_all add: s32_id in_s32_def)
  have "\<not> (s32 (p_xmax ?c - p_xmin ?c + 1) < s32 (u32MinSize cfg) \<or>
      s32 (p_ymax ?c - p_ymin ?c + 1) < s32 (u32MinSize cfg))"
    using assms(2) by (auto simp: flag_small_def)
  then have "flag_small cfg ?c = ?c" "u32MinSize cfg \<le> p_xmax ?c - p_xmin ?c + 1"
    "u32MinSize cfg \<le> p_ymax ?c - p_ymin ?c + 1" by (simp_all add: flag_small_def s W)
  then show ?thesis using c assms(1) by (simp add: good_row_def p_in_def box_in_def cfg_ok_def)
qed

lemma roi_of_exact:
  assumes "cfg_ok cfg" "good_row cfg p"
  shows "roi_of p = \<lparr>b_x1 = p_xmin p * 4096, b_y1 = p_ymin p * 4096, b_x2 = p_xmax p * 4096, b_y2 = p_ymax p * 4096\<rparr>"
  using assms cfg_sides [OF assms(1)]
  by (simp add: roi_of_def good_row_def p_in_def box_in_def s32_small)

definition above_filter :: "rpn_cfg \<Rightarrow> proposal \<Rightarrow> bool" where
  "above_filter cfg p \<longleftrightarrow> u32FilterThresh cfg = 0 \<or> u32FilterThresh cfg \<le> p_score p"

text \<open>
  What the function selects from a list of candidates: the rows the filter lets through, the best
  \<open>u32NumBeforeNms\<close> of them in the order of their scores, and of those what a greedy suppression by
  intersection over union leaves, at most \<open>u32MaxRois\<close>.
\<close>

definition rpn_pass :: "rpn_cfg \<Rightarrow> proposal list \<Rightarrow> proposal list" where
  "rpn_pass cfg rows =
     (if u32FilterThresh cfg = 0 then rows
      else filter (\<lambda>p. p_flag p = 0 \<and> u32FilterThresh cfg \<le> p_score p) rows)"

definition rpn_ranked :: "rpn_cfg \<Rightarrow> proposal list \<Rightarrow> proposal list \<Rightarrow> bool" where
  "rpn_ranked cfg rows best \<longleftrightarrow> mset best = mset (rpn_pass cfg rows) \<and> score_sorted (take (u32NumBeforeNms cfg) best) \<and>
     (\<forall>p \<in> set (take (u32NumBeforeNms cfg) best). \<forall>q \<in> set (drop (u32NumBeforeNms cfg) best). p_score q \<le> p_score p)"

definition rpn_kept :: "rpn_cfg \<Rightarrow> proposal list \<Rightarrow> proposal list" where
  "rpn_kept cfg best =
     take (u32MaxRois cfg) (filter nms_live
       (greedy nms_live set_flag (iou_above (u32NmsThresh cfg)) (u32MaxRois cfg) (take (u32NumBeforeNms cfg) best)))"

lemma rpn_pass_filter:
  assumes "cfg_ok cfg" "FilterLowScoreBbox rows (length rows) (u32FilterThresh cfg) = (zs, n)"
  shows "n \<le> length zs" "n \<le> length rows" "take n zs = rpn_pass cfg rows"
proof -
  consider "u32FilterThresh cfg = 0" | "0 < u32FilterThresh cfg" using assms(1) unfolding cfg_ok_def by linarith
  then have "n \<le> length zs \<and> n \<le> length rows \<and> take n zs = rpn_pass cfg rows"
  proof cases
    case 1
    then show ?thesis using assms(2) by (auto simp: FilterLowScoreBbox_def rpn_pass_def)
  next
    case 2
    moreover have "s32 (u32FilterThresh cfg) = u32FilterThresh cfg" using assms(1) by (simp add: cfg_ok_def s32_id in_s32_def)
    ultimately show ?thesis using FilterLowScoreBbox_kept [OF _ 2 assms(2)] by (simp add: rpn_pass_def)
  qed
  then show "n \<le> length zs" "n \<le> length rows" "take n zs = rpn_pass cfg rows" by blast+
qed

text \<open>Two relations that agree on the live rows suppress alike.\<close>

lemma greedy_hit_cong:
  assumes "\<And>p q. p \<in> set xs \<Longrightarrow> q \<in> set xs \<Longrightarrow> live p \<Longrightarrow> live q \<Longrightarrow> hit p q = hit' p q" and "\<And>p. \<not> live (kill p)"
  shows "greedy live kill hit m xs = greedy live kill hit' m xs"
  using assms(1)
proof (induction "length xs" arbitrary: xs m)
  case 0
  then show ?case by simp
next
  case (Suc n)
  obtain x ys where xs: "xs = x # ys" "length ys = n" using Suc.hyps(2) by (cases xs) auto
  let ?strike = "\<lambda>hit y. if live y \<and> hit x y then kill y else y"
  have same: "live x \<Longrightarrow> map (?strike hit) ys = map (?strike hit') ys" using Suc.prems by (auto simp: xs)
  have 1: "greedy live kill hit (m - 1) (map (?strike hit) ys) = greedy live kill hit' (m - 1) (map (?strike hit) ys)"
    by (rule Suc.hyps(1)) (use Suc.prems xs assms(2) in \<open>auto split: if_splits\<close>)
  have 2: "greedy live kill hit m ys = greedy live kill hit' m ys"
    by (rule Suc.hyps(1)) (use Suc.prems xs in auto)
  show ?case
  proof (cases "live x")
    case True
    show ?thesis unfolding xs greedy_Cons 1 using same [OF True] by (simp only: True if_True)
  next
    case False
    then show ?thesis by (simp add: xs greedy_Cons 2)
  qed
qed

lemma rpn_select_exact:
  assumes ok: "cfg_ok cfg" and room: "sort_room cap (length rows)"
    and good: "\<forall>p \<in> set rows. p_flag p = 0 \<longrightarrow> good_row cfg p"
  shows "\<exists>best. rpn_ranked cfg rows best \<and> rpn_select cap cfg rows = Some (map roi_of (rpn_kept cfg best))"
proof -
  let ?N = "u32NumBeforeNms cfg" and ?m = "u32MaxRois cfg" and ?thr = "u32NmsThresh cfg"
  obtain zs n where f: "FilterLowScoreBbox rows (length rows) (u32FilterThresh cfg) = (zs, n)" by fastforce
  note n = rpn_pass_filter [OF ok f]
  have rn: "sort_room cap n" using room n(2) by (simp add: sort_room_def)
  obtain qs where qs: "sort_rows cap p_score (int ?N) n zs = Some qs" using qs.srt_total [OF n(1) rn] by blast
  define k where "k = (if n < ?N then n else ?N)"
  have k: "k \<le> n" "int k \<le> int ?N + 1" by (simp_all add: k_def)
  have len: "n \<le> length qs" "k \<le> length qs" using qs.srt_length [OF n(1) rn qs] n(1) k(1) by simp_all
  have best: "take ?N (take n qs) = take k qs" "drop ?N (take n qs) = drop k (take n qs)"
    using len by (auto simp: k_def)
  have srt: "score_sorted (take k qs)"
    using qs.srt_sorted [OF n(1) rn qs k] by (simp add: score_sorted_def sorted_wrt_map)
  have ms: "mset (take n qs) = mset (rpn_pass cfg rows)" using qs.srt_mset_take [OF n(1) rn qs] n(3) by simp
  then have ranked: "rpn_ranked cfg rows (take n qs)"
    unfolding rpn_ranked_def best using srt qs.srt_top [OF n(1) rn qs k] by blast
  have inside: "p_in (u32OriImWidth cfg) (u32OriImHeight cfg) p" if "p \<in> set (take k qs)" "p_flag p = 0" for p
  proof -
    have "p \<in> set (rpn_pass cfg rows)"
      using that(1) k(1) set_take_subset_set_take [of k n qs] mset_eq_setD [OF ms] by blast
    then show ?thesis using good that(2) by (auto simp: rpn_pass_def good_row_def split: if_splits)
  qed
  have "greedy nms_live set_flag (nms_hit ?thr) ?m (take k qs) = greedy nms_live set_flag (iou_above ?thr) ?m (take k qs)"
  proof (rule greedy_hit_cong)
    fix p q assume "p \<in> set (take k qs)" "q \<in> set (take k qs)" "nms_live p" "nms_live q"
    then show "nms_hit ?thr p q = iou_above ?thr p q"
      using ok by (intro nms_hit_iou [OF inside inside]) (simp_all add: cfg_ok_def)
  qed simp
  then have "take k (NonMaxSuppression qs k ?thr ?m) = greedy nms_live set_flag (iou_above ?thr) ?m (take k qs)"
    using len(2) by (simp add: NonMaxSuppression_eq [OF len(2) srt])
  moreover have "rpn_select cap cfg rows =
      Some (map roi_of (take ?m (filter nms_live (take k (NonMaxSuppression qs k ?thr ?m)))))"
    using ok by (simp add: rpn_select_def f qs Let_def k_def [symmetric] cfg_ok_def write_rois_eq)
  ultimately have "rpn_select cap cfg rows = Some (map roi_of (rpn_kept cfg (take n qs)))"
    unfolding rpn_kept_def best by simp
  with ranked show ?thesis by blast
qed

text \<open>What the rows kept are: the greedy procedure again, by the relation of the specification.\<close>

interpretation iou_nms: suppression nms_live set_flag "iou_above thresh" for thresh
  by unfold_locales simp

lemma rpn_kept_correct:
  assumes ok: "cfg_ok cfg" and t: "rpn_ranked cfg rows best"
    and good: "\<forall>p \<in> set rows. p_flag p = 0 \<longrightarrow> good_row cfg p"
  shows "length (rpn_kept cfg best) \<le> u32MaxRois cfg"
    "p \<in> set (rpn_kept cfg best) \<Longrightarrow> p \<in> set rows \<and> good_row cfg p \<and> above_filter cfg p"
    "score_sorted (rpn_kept cfg best)"
    "sorted_wrt (\<lambda>a b. \<not> iou_above (u32NmsThresh cfg) a b) (rpn_kept cfg best)"
proof -
  let ?m = "u32MaxRois cfg" and ?ts = "take (u32NumBeforeNms cfg) best"
  have "sorted_wrt (\<lambda>p q. p_score q \<le> p_score p) (filter nms_live ?ts)"
    using t by (simp add: rpn_ranked_def score_sorted_def sorted_wrt_filter)
  note S = iou_nms.run_survivors [OF this, of "u32NmsThresh cfg" ?m]
  show "length (rpn_kept cfg best) \<le> u32MaxRois cfg" by (simp add: rpn_kept_def)
  show "score_sorted (rpn_kept cfg best)" "sorted_wrt (\<lambda>a b. \<not> iou_above (u32NmsThresh cfg) a b) (rpn_kept cfg best)"
    using S by (simp_all add: rpn_kept_def score_sorted_def sorted_wrt_take)
  have "set best = set (rpn_pass cfg rows)" using t mset_eq_setD by (auto simp: rpn_ranked_def)
  then have sub: "set ?ts \<subseteq> set (rpn_pass cfg rows)" using set_take_subset by fast
  assume "p \<in> set (rpn_kept cfg best)"
  then have "p \<in> set (filter nms_live (greedy nms_live set_flag (iou_above (u32NmsThresh cfg)) ?m ?ts))"
    unfolding rpn_kept_def by (rule in_set_takeD)
  then have "p \<in> set (rpn_pass cfg rows)" "p_flag p = 0" using S sub by auto
  then show "p \<in> set rows \<and> good_row cfg p \<and> above_filter cfg p"
    using good by (auto simp: rpn_pass_def above_filter_def split: if_splits)
qed

section \<open>The candidates\<close>

text \<open>
  What the stage computes for anchor \<open>a\<close> at row \<open>h\<close>, column \<open>w\<close>, straight from the blobs: the anchor
  moved by the four words of its channels at that pixel, with the softmax of its two scores, clipped
  to the image and flagged if it is too small.
\<close>

definition rpn_candidate :: "rpn_cfg \<Rightarrow> (nat \<Rightarrow> int) \<Rightarrow> (nat \<Rightarrow> int) \<Rightarrow> nat \<Rightarrow> nat \<Rightarrow> nat \<Rightarrow> proposal" where
  "rpn_candidate cfg src0 src1 h w a =
     (let pixel = h * LineSize cfg + w;
          delta = (\<lambda>k. src1 ((4 * a + k) * MapSize cfg + pixel));
          bg = q12 (src0 (a * MapSize cfg + pixel));
          fg = q12 (src0 ((AnchorsPerPixel cfg + a) * MapSize cfg + pixel))
      in flag_small cfg (clip_row cfg
           (bbox_transform (place_anchor (4096 div u32SpatialScale cfg) h w (scale_anchors cfg ! a))
              (delta 0) (delta 1) (delta 2) (delta 3) (SoftMax [bg, fg] ! 1))))"

definition rpn_candidates :: "rpn_cfg \<Rightarrow> (nat \<Rightarrow> int) \<Rightarrow> (nat \<Rightarrow> int) \<Rightarrow> proposal list" where
  "rpn_candidates cfg src0 src1 =
     concat (map (\<lambda>h. concat (map (\<lambda>w. map (rpn_candidate cfg src0 src1 h w) [0..<AnchorsPerPixel cfg])
       [0..<conv0_width cfg])) [0..<conv0_height cfg])"

lemma grid_nth:
  assumes "\<And>h w. length (f h w) = A" "h < H" "w < W" "a < A"
  shows "concat (map (\<lambda>h. concat (map (f h) [0..<W])) [0..<H]) ! (A * (h * W + w) + a) = f h w ! a"
proof -
  have 1: "length (concat (map (f h) [0..<W])) = A * W" for h
    using length_concat_uniform [of "map (f h) [0..<W]" A] assms(1) by auto
  have "A * w + a < A * W"
  proof -
    have "A * w + a < A * Suc w" using assms(4) by simp
    also have "\<dots> \<le> A * W" using assms(3) by (intro mult_le_mono2) simp
    finally show ?thesis .
  qed
  then have "concat (map (\<lambda>h. concat (map (f h) [0..<W])) [0..<H]) ! (A * W * h + (A * w + a)) =
      concat (map (f h) [0..<W]) ! (A * w + a)"
    using 1 assms(2) concat_nth_uniform [of "map (\<lambda>h. concat (map (f h) [0..<W])) [0..<H]" "A * W" h "A * w + a"] by auto
  also have "\<dots> = f h w ! a"
    using assms concat_nth_uniform [of "map (f h) [0..<W]" A w a] by auto
  finally show ?thesis by (simp add: algebra_simps)
qed

lemma grid_length: "(\<And>h w. length (f h w) = A) \<Longrightarrow>
    length (concat (map (\<lambda>h. concat (map (f h) [0..<W])) [0..<H])) = A * (H * W)"
  by (simp add: length_concat o_def sum_list_triv)

lemma grid_index:
  assumes "i < A * (H * W :: nat)"
  obtains h w a where "h < H" "w < W" "a < A" "i = A * (h * W + w) + a"
proof -
  have pos: "0 < A" "0 < W" using assms by (auto intro: gr0I)
  show thesis
  proof (rule that)
    show "i div A div W < H" "i div A mod W < W" "i mod A < A"
      using assms pos by (simp_all add: less_mult_imp_div_less mult.commute)
    show "i = A * (i div A div W * W + i div A mod W) + i mod A" by simp
  qed
qed

lemma rpn_softmax_keeps: "length (rpn_softmax n score) = length score \<and> (\<forall>i \<ge> 2 * n. rpn_softmax n score ! i = score ! i)"
  unfolding rpn_softmax_def by (induction n) (auto simp: softmax_pair_def Let_def)

lemma rpn_softmax_nth:
  "j < n \<Longrightarrow> 2 * n \<le> length score \<Longrightarrow>
     rpn_softmax n score ! (2 * j + 1) = SoftMax [score ! (2 * j), score ! (2 * j + 1)] ! 1"
proof (induction n)
  case 0
  then show ?case by simp
next
  case (Suc n)
  have s: "rpn_softmax (Suc n) score = softmax_pair n (rpn_softmax n score)" by (simp add: rpn_softmax_def)
  note K = rpn_softmax_keeps [of n score]
  show ?case
  proof (cases "j = n")
    case True
    have "rpn_softmax n score ! (2 * n) = score ! (2 * n)" "rpn_softmax n score ! Suc (2 * n) = score ! Suc (2 * n)"
      "Suc (2 * n) < length (rpn_softmax n score)" using K Suc.prems by auto
    then show ?thesis unfolding s softmax_pair_def Let_def by (simp add: True)
  next
    case False
    then have "rpn_softmax n score ! (2 * j + 1) = SoftMax [score ! (2 * j), score ! (2 * j + 1)] ! 1"
      using Suc by simp
    moreover have "2 * j + 1 \<noteq> 2 * n" "2 * j + 1 \<noteq> 2 * n + 1" using False by presburger+
    ultimately show ?thesis unfolding s softmax_pair_def Let_def by simp
  qed
qed

lemma rpn_rows_candidates:
  assumes m: "blobs_match cfg" and a: "rpn_areas cfg delta0 score0"
    and t: "rpn_transpose cfg src0 src1 (delta0, score0) = Some (delta, score)"
  shows "map (flag_small cfg) (map (clip_row cfg) (rpn_rows (rpn_anchors cfg) delta (rpn_softmax (NumAnchors cfg) score))) =
    rpn_candidates cfg src0 src1" (is "?rows = _")
proof (rule nth_equalityI)
  let ?A = "AnchorsPerPixel cfg" and ?W = "conv0_width cfg" and ?H = "conv0_height cfg"
  from rpn_transpose_correct [OF m a, of src0 src1] have ar: "rpn_areas cfg delta score"
    and cell: "\<And>a h w. a < ?A \<Longrightarrow> h < ?H \<Longrightarrow> w < ?W \<Longrightarrow>
        let i = cell_index cfg a h w; pixel = h * LineSize cfg + w
        in (\<forall>k < 4. delta ! (4 * i + k) = src1 ((4 * a + k) * MapSize cfg + pixel)) \<and>
           score ! (2 * i) = q12 (src0 (a * MapSize cfg + pixel)) \<and>
           score ! (2 * i + 1) = q12 (src0 ((?A + a) * MapSize cfg + pixel))"
    using t m by (auto simp: blobs_match_def)
  have len: "length (rpn_candidates cfg src0 src1) = NumAnchors cfg"
    unfolding rpn_candidates_def NumAnchors_eq by (rule grid_length) simp
  then show "length ?rows = length (rpn_candidates cfg src0 src1)" by (simp add: rpn_rows_def length_rpn_anchors)
  fix i assume "i < length ?rows"
  then have i: "i < NumAnchors cfg" by (simp add: rpn_rows_def length_rpn_anchors)
  then obtain h w a where r: "h < ?H" "w < ?W" "a < ?A" "i = ?A * (h * ?W + w) + a"
    unfolding NumAnchors_eq by (rule grid_index)
  have c: "cell_index cfg a h w = i" using m by (simp add: cell_index_def r(4) blobs_match_def)
  have an: "rpn_anchors cfg ! i = place_anchor (4096 div u32SpatialScale cfg) h w (scale_anchors cfg ! a)"
    unfolding rpn_anchors_def Let_def r(4)
    by (subst grid_nth [OF _ r(1-3)]) (use r(3) in \<open>simp_all add: length_scale_anchors\<close>)
  have cand: "rpn_candidates cfg src0 src1 ! i = rpn_candidate cfg src0 src1 h w a"
    unfolding rpn_candidates_def r(4) by (subst grid_nth [OF _ r(1-3)]) (use r(3) in simp_all)
  have k4: "(0 :: nat) < 4" "(1 :: nat) < 4" "(2 :: nat) < 4" "(3 :: nat) < 4" by simp_all
  note d = cell [OF r(3,1,2), unfolded Let_def c]
  note ds = k4 [THEN mp [OF spec [OF conjunct1 [OF d]]]]
  have "rpn_softmax (NumAnchors cfg) score ! (2 * i + 1) = SoftMax [score ! (2 * i), score ! (2 * i + 1)] ! 1"
    using i ar by (intro rpn_softmax_nth) (simp_all add: rpn_areas_def)
  then show "?rows ! i = rpn_candidates cfg src0 src1 ! i"
    using i ds conjunct2 [OF d] an cand by (simp add: rpn_rows_def length_rpn_anchors rpn_candidate_def Let_def)
qed

lemma Rpn_exact:
  assumes ok: "cfg_ok cfg" and m: "blobs_match cfg" and a: "rpn_areas cfg delta0 score0"
    and room: "sort_room cap (NumAnchors cfg)"
  shows "\<exists>best. rpn_ranked cfg (rpn_candidates cfg src0 src1) best \<and>
    Rpn cap cfg src0 src1 delta0 score0 =
      Some (map (\<lambda>p. \<lparr>b_x1 = p_xmin p * 4096, b_y1 = p_ymin p * 4096, b_x2 = p_xmax p * 4096, b_y2 = p_ymax p * 4096\<rparr>) (rpn_kept cfg best)) \<and>
    length (rpn_kept cfg best) \<le> u32MaxRois cfg \<and>
    (\<forall>p \<in> set (rpn_kept cfg best). p \<in> set (rpn_candidates cfg src0 src1) \<and> good_row cfg p \<and> above_filter cfg p) \<and>
    score_sorted (rpn_kept cfg best) \<and> sorted_wrt (\<lambda>a b. \<not> iou_above (u32NmsThresh cfg) a b) (rpn_kept cfg best)"
proof -
  let ?rows = "rpn_candidates cfg src0 src1"
  obtain delta score where t: "rpn_transpose cfg src0 src1 (delta0, score0) = Some (delta, score)"
    using rpn_transpose_correct [OF m a, of src0 src1] by blast
  have R: "Rpn cap cfg src0 src1 delta0 score0 = rpn_select cap cfg ?rows"
    by (simp add: Rpn_def t Let_def rpn_rows_candidates [OF m a t, simplified])
  have good: "\<forall>p \<in> set ?rows. p_flag p = 0 \<longrightarrow> good_row cfg p"
    using flag_small_good [OF ok] by (auto simp: rpn_candidates_def rpn_candidate_def Let_def)
  have "length ?rows = NumAnchors cfg" unfolding rpn_candidates_def NumAnchors_eq by (rule grid_length) simp
  then have "sort_room cap (length ?rows)" using room by simp
  from rpn_select_exact [OF ok this good] obtain best
    where best: "rpn_ranked cfg ?rows best" "rpn_select cap cfg ?rows = Some (map roi_of (rpn_kept cfg best))" by blast
  note K = rpn_kept_correct [OF ok best(1) good]
  have "map roi_of (rpn_kept cfg best) = map (\<lambda>p. \<lparr>b_x1 = p_xmin p * 4096, b_y1 = p_ymin p * 4096,
      b_x2 = p_xmax p * 4096, b_y2 = p_ymax p * 4096\<rparr>) (rpn_kept cfg best)"
    using roi_of_exact [OF ok] K(2) by simp
  then show ?thesis using best R K by (intro exI [of _ best] conjI ballI) simp_all
qed

lemma Rpn_regions:
  assumes ok: "cfg_ok cfg" and m: "blobs_match cfg" and a: "rpn_areas cfg delta0 score0"
    and room: "sort_room cap (NumAnchors cfg)"
  shows "\<exists>ps. Rpn cap cfg src0 src1 delta0 score0 =
      Some (map (\<lambda>p. \<lparr>b_x1 = p_xmin p * 4096, b_y1 = p_ymin p * 4096, b_x2 = p_xmax p * 4096, b_y2 = p_ymax p * 4096\<rparr>) ps) \<and>
    length ps \<le> u32MaxRois cfg \<and>
    (\<forall>p \<in> set ps. p_in (u32OriImWidth cfg) (u32OriImHeight cfg) p \<and>
       u32MinSize cfg \<le> p_xmax p - p_xmin p + 1 \<and> u32MinSize cfg \<le> p_ymax p - p_ymin p + 1)"
proof -
  obtain best where "Rpn cap cfg src0 src1 delta0 score0 =
      Some (map (\<lambda>p. \<lparr>b_x1 = p_xmin p * 4096, b_y1 = p_ymin p * 4096, b_x2 = p_xmax p * 4096, b_y2 = p_ymax p * 4096\<rparr>) (rpn_kept cfg best))"
    "length (rpn_kept cfg best) \<le> u32MaxRois cfg" "\<forall>p \<in> set (rpn_kept cfg best). good_row cfg p"
    using Rpn_exact [OF assms, of src0 src1] by blast
  then show ?thesis by (intro exI [of _ "rpn_kept cfg best"] conjI) (auto simp: good_row_def)
qed

text \<open>
  C3. \<open>SVP_NNIE_Rpn\<close>, for a sane configuration (an image of fewer than 524288 pixels, a positive
  size threshold and scale), a score and a box blob of the same feature map and a stack of half the anchors,
  returns exactly the regions its specification selects from the candidates. A candidate is, for
  each anchor at each pixel, the anchor transformed by the four words of the box blob and scored by
  the softmax of the two words of the score blob, clipped and flagged if too small. Of the
  candidates that are large enough and reach the filter threshold (of all, if the threshold is 0, as
  in all samples) it ranks the \<open>u32NumBeforeNms\<close> best by score, suppresses greedily by intersection
  over union, and returns the first \<open>u32MaxRois\<close> left, scaled by exactly 4096; so each region is a box of
  the image at least \<open>u32MinSize\<close> wide and high whose candidate reaches the threshold, they come
  in the order of their scores, and no two overlap by more than the threshold. Candidates of equal
  score may be ranked in any order.
\<close>

theorem Rpn_correct:
  assumes ok: "cfg_ok cfg" and m: "blobs_match cfg" and a: "rpn_areas cfg delta0 score0"
    and room: "sort_room cap (NumAnchors cfg)"
  shows "\<exists>best. rpn_ranked cfg (rpn_candidates cfg src0 src1) best \<and>
    Rpn cap cfg src0 src1 delta0 score0 =
      Some (map (\<lambda>p. \<lparr>b_x1 = p_xmin p * 4096, b_y1 = p_ymin p * 4096, b_x2 = p_xmax p * 4096, b_y2 = p_ymax p * 4096\<rparr>) (rpn_kept cfg best)) \<and>
    length (rpn_kept cfg best) \<le> u32MaxRois cfg \<and>
    (\<forall>p \<in> set (rpn_kept cfg best). p \<in> set (rpn_candidates cfg src0 src1) \<and>
       p_in (u32OriImWidth cfg) (u32OriImHeight cfg) p \<and>
       u32MinSize cfg \<le> p_xmax p - p_xmin p + 1 \<and> u32MinSize cfg \<le> p_ymax p - p_ymin p + 1 \<and>
       (u32FilterThresh cfg = 0 \<or> u32FilterThresh cfg \<le> p_score p)) \<and>
    score_sorted (rpn_kept cfg best) \<and> sorted_wrt (\<lambda>a b. \<not> iou_above (u32NmsThresh cfg) a b) (rpn_kept cfg best)"
  using Rpn_exact [OF assms, of src0 src1] unfolding good_row_def above_filter_def by blast

lemma Rpn_correct_witness:
  "\<exists>best. rpn_ranked small_cfg (rpn_candidates small_cfg (\<lambda>i. 100 * int i) (\<lambda>i. 7)) best \<and>
     map_option length (Rpn 3 small_cfg (\<lambda>i. 100 * int i) (\<lambda>i. 7) (replicate 24 0) (replicate 12 (Fin 0))) =
       Some (length (rpn_kept small_cfg best)) \<and> length (rpn_kept small_cfg best) \<le> 2"
proof -
  have "cfg_ok small_cfg" by (simp add: small_cfg_def cfg_ok_def)
  moreover have "sort_room 3 (NumAnchors small_cfg)" by (simp add: sort_room_def)
  moreover have "u32MaxRois small_cfg = 2" by (simp add: small_cfg_def)
  ultimately show ?thesis
    using Rpn_correct [of small_cfg "replicate 24 0" "replicate 12 (Fin 0)" 3 "\<lambda>i. 100 * int i" "\<lambda>i. 7"] by auto
qed

end
