(* ===== verification/Nnie_Rcnn.thy ===== *)
theory Nnie_Rcnn
  imports Nnie_Rpn
begin

text \<open>
  The class stages behind the region proposals (sample_svp_nnie_software.c):
  \<open>SVP_NNIE_FasterRcnn_GetResult\<close>, its copy \<open>SVP_NNIE_Pvanet_GetResult\<close> and
  \<open>SVP_NNIE_Rfcn_GetResult\<close>, with the wrappers that first scale the regions back. For every class
  the regions are moved by the deltas of that class, clipped, sorted and suppressed, and those
  above the threshold of the class are appended to the result.

  The result arrays of scores and of boxes, which the code fills in step, are one list of rows; a
  write beyond it makes the result \<open>None\<close>, and so does a sort that overruns its stack. The class
  number is the length of the list of thresholds, the region number that of the list of regions.
\<close>

section \<open>Data\<close>

record det =
  d_score :: int
  d_box :: ibox

definition box_of :: "proposal \<Rightarrow> ibox" where
  "box_of p = \<lparr>b_x1 = p_xmin p, b_y1 = p_ymin p, b_x2 = p_xmax p, b_y2 = p_ymax p\<rparr>"

definition det_of :: "proposal \<Rightarrow> det" where
  "det_of p = \<lparr>d_score = p_score p, d_box = box_of p\<rparr>"

text \<open>The parameters of the three functions.\<close>

record rcnn_cfg =
  rc_conf :: "int list"
  rc_nms :: int
  rc_width :: int
  rc_height :: int
  rc_bbox_stride :: nat
  rc_score_stride :: nat

section \<open>One region for one class\<close>

text \<open>\<open>dbl\<close> is the format in which the corners are computed: float, or double for R-FCN.\<close>

definition class_transform :: "fmt \<Rightarrow> ibox \<Rightarrow> int \<Rightarrow> int \<Rightarrow> int \<Rightarrow> int \<Rightarrow> int \<Rightarrow> proposal" where
  "class_transform dbl r d0 d1 d2 d3 score =
     (let w = of_s32 F32 (s32 (b_x2 r - b_x1 r + 1));
          h = of_s32 F32 (s32 (b_y2 r - b_y1 r + 1));
          cx = cvt F32 (fadd dbl (of_s32 dbl (b_x1 r)) (fmul dbl half w));
          cy = cvt F32 (fadd dbl (of_s32 dbl (b_y1 r)) (fmul dbl half h));
          px = fadd F32 (fmul F32 (q12 d0) w) cx;
          py = fadd F32 (fmul F32 (q12 d1) h) cy;
          pw = fmul F32 w (QuickExp d2);
          ph = fmul F32 h (QuickExp d3)
      in \<lparr>p_xmin = to_s32 (fsub dbl px (fmul dbl half pw)), p_ymin = to_s32 (fsub dbl py (fmul dbl half ph)),
          p_xmax = to_s32 (fadd dbl px (fmul dbl half pw)), p_ymax = to_s32 (fadd dbl py (fmul dbl half ph)),
          p_score = to_s32 (fmul F32 (q12 score) (of_s32 F32 4096)), p_flag = 0\<rparr>)"

text \<open>The clipping expression: its second test compares with \<open>size\<close>, not with \<open>size - 1\<close>.\<close>

definition class_clip :: "int \<Rightarrow> int \<Rightarrow> int" where
  "class_clip sz x =
     (if (if s32 sz - 1 < x then s32 sz - 1 else x) > 0
      then s32 (if s32 sz < x then u32 (sz - 1) else u32 x) else 0)"

definition class_clip_row :: "rcnn_cfg \<Rightarrow> proposal \<Rightarrow> proposal" where
  "class_clip_row cfg p = p\<lparr>p_xmin := class_clip (rc_width cfg) (p_xmin p), p_ymin := class_clip (rc_height cfg) (p_ymin p),
     p_xmax := class_clip (rc_width cfg) (p_xmax p), p_ymax := class_clip (rc_height cfg) (p_ymax p)\<rparr>"

section \<open>One class\<close>

text \<open>The output loop over the remaining rows; \<open>n\<close> is the region number, \<open>off\<close> where the class starts.\<close>

fun collect :: "nat \<Rightarrow> int \<Rightarrow> nat \<Rightarrow> proposal list \<Rightarrow> nat \<Rightarrow> det list \<Rightarrow> (nat \<times> det list) option" where
  "collect n thresh off [] cnt dst = Some (cnt, dst)"
| "collect n thresh off (p # ps) cnt dst =
     (if p_flag p = 0 \<and> s32 thresh < p_score p then
        (if off + cnt < length dst then
           (if n \<le> Suc cnt then Some (Suc cnt, dst[off + cnt := det_of p])
            else collect n thresh off ps (Suc cnt) (dst[off + cnt := det_of p]))
         else None)
      else if n \<le> cnt then Some (cnt, dst)
      else collect n thresh off ps cnt dst)"

definition class_stage :: "nat \<Rightarrow> rcnn_cfg \<Rightarrow> int \<Rightarrow> proposal list \<Rightarrow> nat \<Rightarrow> det list \<Rightarrow> (nat \<times> det list) option" where
  "class_stage cap cfg thresh rows off dst =
     (let clipped = map (class_clip_row cfg) rows; n = length rows
      in case sort_rows cap p_score (int n) n clipped of
           None \<Rightarrow> None
         | Some ps \<Rightarrow> collect n thresh off (NonMaxSuppression ps n (rc_nms cfg) n) 0 dst)"

text \<open>The loop over the classes: \<open>rows j\<close> are the transformed regions of class \<open>j\<close>, before clipping.\<close>

fun class_loop :: "nat \<Rightarrow> rcnn_cfg \<Rightarrow> (nat \<Rightarrow> proposal list) \<Rightarrow> nat \<Rightarrow> int list \<Rightarrow> nat \<Rightarrow> det list
    \<Rightarrow> (nat list \<times> det list) option" where
  "class_loop cap cfg rows j [] off dst = Some ([], dst)"
| "class_loop cap cfg rows j (t # ts) off dst =
     (case class_stage cap cfg t (rows j) off dst of
        None \<Rightarrow> None
      | Some (cnt, dst') \<Rightarrow>
          (case class_loop cap cfg rows (Suc j) ts (off + cnt) dst' of
             None \<Rightarrow> None
           | Some (nums, dst'') \<Rightarrow> Some (cnt # nums, dst'')))"

section \<open>The three functions\<close>

text \<open>Word indices: row \<open>i\<close> of a blob starts at \<open>i * stride / 4\<close>.\<close>

definition rcnn_rows :: "rcnn_cfg \<Rightarrow> (nat \<Rightarrow> int) \<Rightarrow> (nat \<Rightarrow> int) \<Rightarrow> ibox list \<Rightarrow> nat \<Rightarrow> proposal list" where
  "rcnn_rows cfg fcbbox fcscore rois j =
     map (\<lambda>i. let b = rc_bbox_stride cfg div 4 * i + 4 * j
               in class_transform F32 (rois ! i) (fcbbox b) (fcbbox (b + 1)) (fcbbox (b + 2)) (fcbbox (b + 3))
                    (fcscore (i * (rc_score_stride cfg div 4) + j))) [0..<length rois]"

definition FasterRcnn_GetResult :: "nat \<Rightarrow> rcnn_cfg \<Rightarrow> (nat \<Rightarrow> int) \<Rightarrow> (nat \<Rightarrow> int) \<Rightarrow> ibox list \<Rightarrow> det list
    \<Rightarrow> (nat list \<times> det list) option" where
  "FasterRcnn_GetResult cap cfg fcbbox fcscore rois dst =
     class_loop cap cfg (rcnn_rows cfg fcbbox fcscore rois) 0 (rc_conf cfg) 0 dst"

definition Pvanet_GetResult :: "nat \<Rightarrow> rcnn_cfg \<Rightarrow> (nat \<Rightarrow> int) \<Rightarrow> (nat \<Rightarrow> int) \<Rightarrow> ibox list \<Rightarrow> det list
    \<Rightarrow> (nat list \<times> det list) option" where
  "Pvanet_GetResult cap cfg fcbbox fcscore rois dst =
     class_loop cap cfg (rcnn_rows cfg fcbbox fcscore rois) 0 (rc_conf cfg) 0 dst"

text \<open>R-FCN uses the same deltas for every class, words 4 to 7 of a row.\<close>

definition rfcn_rows :: "rcnn_cfg \<Rightarrow> (nat \<Rightarrow> int) \<Rightarrow> (nat \<Rightarrow> int) \<Rightarrow> ibox list \<Rightarrow> nat \<Rightarrow> proposal list" where
  "rfcn_rows cfg fcbbox fcscore rois j =
     map (\<lambda>i. let b = rc_bbox_stride cfg div 4 * i + 4
               in class_transform F64 (rois ! i) (fcbbox b) (fcbbox (b + 1)) (fcbbox (b + 2)) (fcbbox (b + 3))
                    (fcscore (rc_score_stride cfg div 4 * i + j))) [0..<length rois]"

definition Rfcn_GetResult :: "nat \<Rightarrow> rcnn_cfg \<Rightarrow> (nat \<Rightarrow> int) \<Rightarrow> (nat \<Rightarrow> int) \<Rightarrow> ibox list \<Rightarrow> det list
    \<Rightarrow> (nat list \<times> det list) option" where
  "Rfcn_GetResult cap cfg fcscore fcbbox rois dst =
     class_loop cap cfg (rfcn_rows cfg fcbbox fcscore rois) 0 (rc_conf cfg) 0 dst"

text \<open>The wrappers divide the regions by 4096 in place first.\<close>

definition unscale_roi :: "ibox \<Rightarrow> ibox" where
  "unscale_roi r = \<lparr>b_x1 = c_div (b_x1 r) 4096, b_y1 = c_div (b_y1 r) 4096,
     b_x2 = c_div (b_x2 r) 4096, b_y2 = c_div (b_y2 r) 4096\<rparr>"

definition NNIE_FasterRcnn_GetResult where
  "NNIE_FasterRcnn_GetResult cap cfg fcbbox fcscore rois dst =
     FasterRcnn_GetResult cap cfg fcbbox fcscore (map unscale_roi rois) dst"

definition NNIE_Pvanet_GetResult where
  "NNIE_Pvanet_GetResult cap cfg fcbbox fcscore rois dst =
     Pvanet_GetResult cap cfg fcbbox fcscore (map unscale_roi rois) dst"

definition NNIE_Rfcn_GetResult where
  "NNIE_Rfcn_GetResult cap cfg fcscore fcbbox rois dst =
     Rfcn_GetResult cap cfg fcscore fcbbox (map unscale_roi rois) dst"

section \<open>Rows\<close>

definition valid_roi :: "ibox \<Rightarrow> bool" where
  "valid_roi r \<longleftrightarrow> 0 \<le> b_x1 r \<and> b_x1 r \<le> b_x2 r \<and> b_x2 r < 2147483647 \<and>
     0 \<le> b_y1 r \<and> b_y1 r \<le> b_y2 r \<and> b_y2 r < 2147483647"

lemma side_Fin:
  assumes "1 \<le> n" "n \<le> 2147483647"
  shows "\<exists>y. of_s32 F32 n = Fin y \<and> 1 \<le> y \<and> y \<le> 2 ^ 31"
proof -
  have r: "repr F32 1" "repr F32 (2 ^ 31)" by (simp_all only: repr_numeral_1 repr_pow2)
  have b: "- fmax F32 \<le> 1" "(2 ^ 31 :: rat) \<le> fmax F32" using fmax_ge [of F32] by simp_all
  have "(1 :: rat) \<le> of_int n" "(of_int n :: rat) \<le> of_int 2147483647"
    using assms by (simp_all only: of_int_le_iff of_int_1_le_iff)
  then show ?thesis using rnd_between [OF r b, of "of_int n"] by (auto simp: of_s32_def)
qed

lemma q12_cases: "q12 d = Pinf \<or> q12 d = Ninf \<or> (\<exists>y. q12 d = Fin y)"
proof -
  have "\<exists>y. rnd F32 x = Fin y \<or> rnd F32 x = Pinf \<or> rnd F32 x = Ninf" for x by (cases "rnd F32 x") auto
  then show ?thesis unfolding q12_def of_s32_4096
    by (cases "of_s32 F32 d") (auto simp: inf_of_def of_s32_def)
qed

lemma centre_not_NaN:
  assumes "0 \<le> x" "x \<le> 2147483647" "0 \<le> w" "w \<le> 2 ^ 31"
  shows "\<exists>y. cvt F32 (fadd dbl (of_s32 dbl x) (fmul dbl half (Fin w))) = Fin y"
proof -
  have "(of_int x :: rat) \<le> of_int 2147483647" "(0::rat) \<le> of_int x"
    using assms by (simp_all only: of_int_le_iff of_int_0_le_iff)
  have r: "repr dbl 0" "repr dbl (2 ^ 32)" by (simp_all only: repr_0 repr_pow2)
  have b: "- fmax dbl \<le> 0" "(2 ^ 32 :: rat) \<le> fmax dbl" using fmax_ge [of dbl] by simp_all
  have "(of_int x :: rat) \<le> 2 ^ 32" "1 / 2 * w \<le> 2 ^ 32" "0 \<le> 1 / 2 * w"
    using \<open>of_int x \<le> of_int 2147483647\<close> assms(3,4) by simp_all
  then obtain u v where uv: "of_s32 dbl x = Fin u" "0 \<le> u" "u \<le> 2 ^ 32" "fmul dbl half (Fin w) = Fin v" "0 \<le> v" "v \<le> 2 ^ 32"
    using rnd_between [OF r b, of "of_int x"] rnd_between [OF r b, of "1 / 2 * w"] \<open>0 \<le> of_int x\<close>
    by (auto simp: of_s32_def)
  then have "\<bar>u + v\<bar> \<le> 2 ^ 63" by simp
  then obtain y where "rnd dbl (u + v) = Fin y" "\<bar>y\<bar> \<le> 2 ^ 63" using rnd_Fin_63 by blast
  then show ?thesis using rnd_Fin_63 [of y F32] by (auto simp only: uv fadd.simps cvt.simps)
qed

lemma spread_box:
  fixes a b d e :: int and dbl :: fmt
  assumes "0 \<le> a" "a \<le> b" "b < 2147483647"
  defines "w \<equiv> of_s32 F32 (s32 (b - a + 1))"
  defines "c \<equiv> fadd F32 (fmul F32 (q12 d) w) (cvt F32 (fadd dbl (of_s32 dbl a) (fmul dbl half w)))"
  shows "to_s32 (fsub dbl c (fmul dbl half (fmul F32 w (QuickExp e)))) \<le>
         to_s32 (fadd dbl c (fmul dbl half (fmul F32 w (QuickExp e))))"
proof (rule spread_le)
  have "s32 (b - a + 1) = b - a + 1" using assms by (simp add: s32_id in_s32_def)
  then obtain y where y: "w = Fin y" "1 \<le> y" "y \<le> 2 ^ 31"
    using side_Fin [of "b - a + 1"] assms by auto
  obtain z where z: "cvt F32 (fadd dbl (of_s32 dbl a) (fmul dbl half w)) = Fin z"
    using centre_not_NaN [of a y dbl] assms(1-3) y(2,3) unfolding y(1) by auto
  have "fmul F32 (q12 d) w \<noteq> NaN"
    using q12_cases [of d] y by (auto simp: inf_of_def)
  then show "c \<noteq> NaN" unfolding c_def z by (cases "fmul F32 (q12 d) w") auto
  have "at_least 0 (fmul F32 w (QuickExp e))"
    using QuickExp_at_least_0 [of e] y by (intro fmul_at_least_0) simp_all
  then show "at_least 0 (fmul dbl half (fmul F32 w (QuickExp e)))" by (rule half_at_least)
qed

lemma class_transform_ordered:
  assumes "valid_roi r"
  shows "p_xmin (class_transform dbl r d0 d1 d2 d3 s) \<le> p_xmax (class_transform dbl r d0 d1 d2 d3 s) \<and>
    p_ymin (class_transform dbl r d0 d1 d2 d3 s) \<le> p_ymax (class_transform dbl r d0 d1 d2 d3 s) \<and>
    p_flag (class_transform dbl r d0 d1 d2 d3 s) = 0"
  using assms spread_box [of "b_x1 r" "b_x2 r" dbl d0 d2] spread_box [of "b_y1 r" "b_y2 r" dbl d1 d3]
  by (simp add: class_transform_def Let_def valid_roi_def)

lemma class_clip_cases:
  assumes "0 < sz" "sz < 2147483648"
  shows "class_clip sz x = (if x \<le> 0 \<or> sz = 1 then 0 else if x \<le> sz then x else sz - 1)"
proof -
  have s: "s32 sz = sz" using assms by (simp add: s32_id in_s32_def)
  have "u32 (sz - 1) = sz - 1" "s32 (sz - 1) = sz - 1"
    using assms by (simp_all add: u32_id s32_id in_u32_def in_s32_def)
  moreover have "0 \<le> x \<Longrightarrow> x \<le> sz \<Longrightarrow> s32 (u32 x) = x"
    using assms by (simp add: u32_id s32_id in_u32_def in_s32_def)
  moreover have "s32 1 = 1" by (simp add: s32_def)
  ultimately show ?thesis using assms by (cases "sz = 1") (auto simp: class_clip_def s)
qed

lemma class_clip_bounds:
  assumes "0 < sz" "sz < 2147483648"
  shows "0 \<le> class_clip sz x" "class_clip sz x \<le> sz"
    "x \<le> y \<Longrightarrow> class_clip sz x \<le> class_clip sz y + 1"
  using assms by (auto simp: class_clip_cases)

section \<open>Classes\<close>

text \<open>What the result of one class is: rows above its threshold, best first, without overlaps.\<close>

definition class_ok :: "rcnn_cfg \<Rightarrow> int \<Rightarrow> proposal list \<Rightarrow> bool" where
  "class_ok cfg t K \<longleftrightarrow>
     (\<forall>p \<in> set K. p_in (rc_width cfg + 1) (rc_height cfg + 1) p \<and> s32 t < p_score p) \<and>
     score_sorted K \<and> sorted_wrt (\<lambda>a b. \<not> iou_above (rc_nms cfg) a b) K"

definition rcnn_ok :: "rcnn_cfg \<Rightarrow> bool" where
  "rcnn_ok cfg \<longleftrightarrow> 0 < rc_width cfg \<and> 0 < rc_height cfg \<and>
     (rc_width cfg + 1) * (rc_height cfg + 1) < 524288 \<and> 0 \<le> rc_nms cfg \<and> rc_nms cfg \<le> 4096"

definition ordered_row :: "proposal \<Rightarrow> bool" where
  "ordered_row p \<longleftrightarrow> p_xmin p \<le> p_xmax p \<and> p_ymin p \<le> p_ymax p"

lemma collect_eq:
  defines "keep \<equiv> \<lambda>t. filter (\<lambda>p. p_flag p = 0 \<and> s32 t < p_score p)"
  shows "cnt + length (keep t ps) \<le> n \<Longrightarrow> off + cnt + length (keep t ps) \<le> length dst \<Longrightarrow>
    collect n t off ps cnt dst = Some (cnt + length (keep t ps),
      take (off + cnt) dst @ map det_of (keep t ps) @ drop (off + cnt + length (keep t ps)) dst)"
proof (induction ps arbitrary: cnt dst)
  case Nil
  then show ?case by (simp add: keep_def)
next
  case (Cons p ps)
  show ?case
  proof (cases "p_flag p = 0 \<and> s32 t < p_score p")
    case True
    then have k: "keep t (p # ps) = p # keep t ps" by (simp add: keep_def)
    have lt: "off + cnt < length dst" using Cons.prems k by simp
    let ?dst = "dst[off + cnt := det_of p]"
    have d: "take (off + Suc cnt) ?dst = take (off + cnt) dst @ [det_of p]"
      using lt by (simp add: take_Suc_conv_app_nth)
    have e: "drop (off + Suc cnt + length (keep t ps)) ?dst = drop (off + cnt + length (keep t (p # ps))) dst"
      using k by (simp add: ac_simps)
    show ?thesis
    proof (cases "n \<le> Suc cnt")
      case True
      have "Suc (cnt + length (keep t ps)) \<le> n" using Cons.prems(1) k by simp
      with True have "length (keep t ps) = 0" by linarith
      then have nil: "keep t ps = []" by simp
      have "?dst = take (off + cnt) dst @ [det_of p] @ drop (Suc (off + cnt)) dst"
        using lt by (simp add: upd_conv_take_nth_drop)
      then show ?thesis using True \<open>p_flag p = 0 \<and> _\<close> lt by (simp add: k nil)
    next
      case False
      have "collect n t off ps (Suc cnt) ?dst = Some (Suc cnt + length (keep t ps),
          take (off + Suc cnt) ?dst @ map det_of (keep t ps) @ drop (off + Suc cnt + length (keep t ps)) ?dst)"
        using Cons.prems k by (intro Cons.IH) simp_all
      then show ?thesis using True False lt unfolding d e by (simp add: k)
    qed
  next
    case False
    then have k: "keep t (p # ps) = keep t ps" by (auto simp: keep_def)
    show ?thesis
    proof (cases "n \<le> cnt")
      case True
      with Cons.prems(1) have "length (keep t (p # ps)) = 0" by linarith
      then have "keep t (p # ps) = []" by simp
      then show ?thesis using True False by auto
    next
      case nc: False
      then show ?thesis using False Cons.IH [of cnt dst] Cons.prems unfolding k by auto
    qed
  qed
qed

lemma class_stage_correct:
  assumes ok: "rcnn_ok cfg" and room: "sort_room cap (length rows)"
    and rows: "\<forall>p \<in> set rows. ordered_row p" and dst: "off + length rows \<le> length dst"
  shows "\<exists>K. class_stage cap cfg t rows off dst =
      Some (length K, take off dst @ map det_of K @ drop (off + length K) dst) \<and>
    length K \<le> length rows \<and> class_ok cfg t K"
proof -
  let ?n = "length rows" and ?xs = "map (class_clip_row cfg) rows"
  let ?W = "rc_width cfg + 1" and ?H = "rc_height cfg + 1"
  have wh: "?W * ?H < 524288" "0 \<le> rc_nms cfg" "rc_nms cfg \<le> 4096" "0 < rc_width cfg" "0 < rc_height cfg"
    using ok by (simp_all add: rcnn_ok_def)
  then have lim: "rc_width cfg < 2147483648" "rc_height cfg < 2147483648"
    using image_side [of ?W ?H 524288] by simp_all
  have inx: "p_in ?W ?H p" if "p \<in> set ?xs" for p
    using that rows class_clip_bounds [OF wh(4) lim(1)] class_clip_bounds [OF wh(5) lim(2)]
    by (auto simp: class_clip_row_def p_in_def box_in_def ordered_row_def zle_add1_eq_le)
  obtain ps where ps: "sort_rows cap p_score (int ?n) ?n ?xs = Some ps"
    using qs.srt_total [of ?n ?xs cap] room by auto
  note S = qs.srt_length [OF _ room ps, simplified] qs.srt_mset_take [OF _ room ps, simplified]
  have srt: "score_sorted (take ?n ps)"
    using qs.srt_sorted [OF _ room ps, of ?n] by (simp add: score_sorted_def sorted_wrt_map)
  have mem: "set (take ?n ps) = set ?xs"
    using arg_cong [OF S(2), of set_mset] S(1) by simp
  define R where "R = NonMaxSuppression ps ?n (rc_nms cfg) ?n"
  define L where "L = filter nms_live (take ?n R)"
  have lenR: "length R = ?n"
    using only_flags_length [OF only_flags_NonMaxSuppression] S(1) by (simp add: R_def)
  have inside: "\<forall>p \<in> set (take ?n ps). p_flag p = 0 \<longrightarrow> p_in ?W ?H p" using mem inx by blast
  have "length L \<le> ?n" using lenR by (simp add: L_def) (metis length_filter_le)
  then have N': "score_sorted L" "set L \<subseteq> set (filter nms_live (take ?n ps))"
    "sorted_wrt (\<lambda>a b. \<not> iou_above (rc_nms cfg) a b) L"
    using NonMaxSuppression_survivors [OF _ srt inside wh(1-3) L_def [unfolded R_def]] S(1) by simp_all
  define K where "K = filter (\<lambda>p. p_flag p = 0 \<and> s32 t < p_score p) R"
  have K: "K = filter (\<lambda>p. s32 t < p_score p) L" using lenR by (simp add: K_def L_def conj_commute)
  have lenK: "length K \<le> ?n" using lenR unfolding K_def by (metis length_filter_le)
  have "class_ok cfg t K" unfolding class_ok_def K
    using N' inside by (auto simp: score_sorted_def sorted_wrt_filter)
  moreover have "class_stage cap cfg t rows off dst =
      Some (length K, take off dst @ map det_of K @ drop (off + length K) dst)"
    using collect_eq [of 0 t R ?n off dst] lenK dst
    by (simp add: class_stage_def Let_def ps R_def [symmetric] K_def [symmetric])
  ultimately show ?thesis using lenK by blast
qed

lemma class_loop_correct:
  assumes ok: "rcnn_ok cfg" and room: "sort_room cap n"
    and rows: "\<And>j. length (rows j) = n \<and> (\<forall>p \<in> set (rows j). ordered_row p)"
  shows "off + length ts * n \<le> length dst \<Longrightarrow>
    \<exists>Ks. class_loop cap cfg rows j ts off dst =
        Some (map length Ks, take off dst @ map det_of (concat Ks) @ drop (off + length (concat Ks)) dst) \<and>
      list_all2 (class_ok cfg) ts Ks \<and> length (concat Ks) \<le> length ts * n"
proof (induction ts arbitrary: j off dst)
  case Nil
  then show ?case by (intro exI [of _ "[]"]) simp
next
  case (Cons t ts)
  have "off + length (rows j) \<le> length dst" using Cons.prems rows by simp
  with class_stage_correct [OF ok, of cap "rows j" off dst t] rows room
  obtain K where K: "class_stage cap cfg t (rows j) off dst =
      Some (length K, take off dst @ map det_of K @ drop (off + length K) dst)"
    "length K \<le> n" "class_ok cfg t K" by auto
  define dst' where "dst' = take off dst @ map det_of K @ drop (off + length K) dst"
  have len: "length dst' = length dst" using Cons.prems K(2) by (simp add: dst'_def)
  have "off + length K + length ts * n \<le> length dst'" using Cons.prems K(2) len by simp
  from Cons.IH [OF this, of "Suc j"] obtain Ks where
    Ks: "class_loop cap cfg rows (Suc j) ts (off + length K) dst' =
        Some (map length Ks, take (off + length K) dst' @ map det_of (concat Ks) @
          drop (off + length K + length (concat Ks)) dst')"
      "list_all2 (class_ok cfg) ts Ks" "length (concat Ks) \<le> length ts * n" by blast
  have off: "length (take off dst) = off" using Cons.prems by simp
  have "take (off + length K) dst' = take off dst @ map det_of K" unfolding dst'_def using off by simp
  moreover have "drop (off + length K + length (concat Ks)) dst' = drop (off + length (concat (K # Ks))) dst"
    unfolding dst'_def using off by (simp add: ac_simps)
  ultimately have "class_loop cap cfg rows j (t # ts) off dst =
      Some (map length (K # Ks), take off dst @ map det_of (concat (K # Ks)) @ drop (off + length (concat (K # Ks))) dst)"
    using Ks(1) by (simp add: K(1) dst'_def [symmetric])
  then show ?case using K Ks by (intro exI [of _ "K # Ks"]) simp
qed

lemma rcnn_classes:
  assumes ok: "rcnn_ok cfg" and room: "sort_room cap (length rois)"
    and rois: "\<forall>r \<in> set rois. valid_roi r" and dst: "length (rc_conf cfg) * length rois \<le> length dst"
  shows "\<exists>Ks. FasterRcnn_GetResult cap cfg fcbbox fcscore rois dst =
        Some (map length Ks, map det_of (concat Ks) @ drop (length (concat Ks)) dst) \<and>
      list_all2 (class_ok cfg) (rc_conf cfg) Ks \<and>
      Pvanet_GetResult cap cfg fcbbox fcscore rois dst = FasterRcnn_GetResult cap cfg fcbbox fcscore rois dst"
proof -
  have "length (rcnn_rows cfg fcbbox fcscore rois j) = length rois \<and>
      (\<forall>p \<in> set (rcnn_rows cfg fcbbox fcscore rois j). ordered_row p)" for j
    using rois class_transform_ordered by (auto simp: rcnn_rows_def Let_def ordered_row_def)
  from class_loop_correct [OF ok room, of "rcnn_rows cfg fcbbox fcscore rois", OF this, where off = 0 and j = 0 and ts = "rc_conf cfg" and dst = dst] dst
  show ?thesis by (auto simp: FasterRcnn_GetResult_def Pvanet_GetResult_def)
qed

text \<open>
  C4. \<open>SVP_NNIE_FasterRcnn_GetResult\<close> and \<open>SVP_NNIE_Pvanet_GetResult\<close> on valid regions, with room
  for every region in every class: whatever the network put out, they return one block of rows per
  class, the blocks behind each other at the start of the result and nothing else changed, with
  the block lengths as the class counts; a block holds rows above the threshold of its class, best
  first, no two overlapping by more than the NMS threshold, with corners from 0 up to and including
  the image width and height.
\<close>

theorem FasterRcnn_GetResult_correct:
  assumes ok: "rcnn_ok cfg" and room: "sort_room cap (length rois)"
    and rois: "\<forall>r \<in> set rois. valid_roi r" and dst: "length (rc_conf cfg) * length rois \<le> length dst"
  shows "\<exists>Ks. FasterRcnn_GetResult cap cfg fcbbox fcscore rois dst =
        Some (map length Ks, map det_of (concat Ks) @ drop (length (concat Ks)) dst) \<and>
      list_all2 (class_ok cfg) (rc_conf cfg) Ks \<and>
      Pvanet_GetResult cap cfg fcbbox fcscore rois dst = FasterRcnn_GetResult cap cfg fcbbox fcscore rois dst"
  using assms by (rule rcnn_classes)

lemma rfcn_classes:
  assumes ok: "rcnn_ok cfg" and room: "sort_room cap (length rois)"
    and rois: "\<forall>r \<in> set rois. valid_roi r" and dst: "length (rc_conf cfg) * length rois \<le> length dst"
  shows "\<exists>Ks. Rfcn_GetResult cap cfg fcscore fcbbox rois dst =
        Some (map length Ks, map det_of (concat Ks) @ drop (length (concat Ks)) dst) \<and>
      list_all2 (class_ok cfg) (rc_conf cfg) Ks"
proof -
  have "length (rfcn_rows cfg fcbbox fcscore rois j) = length rois \<and>
      (\<forall>p \<in> set (rfcn_rows cfg fcbbox fcscore rois j). ordered_row p)" for j
    using rois class_transform_ordered by (auto simp: rfcn_rows_def Let_def ordered_row_def)
  from class_loop_correct [OF ok room, of "rfcn_rows cfg fcbbox fcscore rois", OF this, where off = 0 and j = 0 and ts = "rc_conf cfg" and dst = dst] dst
  show ?thesis by (auto simp: Rfcn_GetResult_def)
qed

text \<open>
  \<open>SVP_NNIE_Rfcn_GetResult\<close>, which takes the same deltas for every class and computes corners
  in double, guarantees the same.
\<close>

lemma Rfcn_GetResult_correct:
  assumes ok: "rcnn_ok cfg" and room: "sort_room cap (length rois)"
    and rois: "\<forall>r \<in> set rois. valid_roi r" and dst: "length (rc_conf cfg) * length rois \<le> length dst"
  shows "\<exists>Ks. Rfcn_GetResult cap cfg fcscore fcbbox rois dst =
        Some (map length Ks, map det_of (concat Ks) @ drop (length (concat Ks)) dst) \<and>
      list_all2 (class_ok cfg) (rc_conf cfg) Ks"
  using assms by (rule rfcn_classes)

definition two_rois :: "ibox list" where
  "two_rois = [\<lparr>b_x1 = 0, b_y1 = 0, b_x2 = 9, b_y2 = 9\<rparr>, \<lparr>b_x1 = 50, b_y1 = 40, b_x2 = 60, b_y2 = 60\<rparr>]"

definition three_classes :: rcnn_cfg where
  "three_classes = \<lparr>rc_conf = [100, 200, 300], rc_nms = 1229, rc_width = 400, rc_height = 300,
     rc_bbox_stride = 48, rc_score_stride = 16\<rparr>"

lemma three_classes_ok:
  "rcnn_ok three_classes" "sort_room 2 (length two_rois)" "\<forall>r \<in> set two_rois. valid_roi r"
  "length (rc_conf three_classes) * length two_rois = 6" "length (rc_conf three_classes) = 3"
  by (simp_all add: rcnn_ok_def three_classes_def two_rois_def sort_room_def valid_roi_def)

lemma FasterRcnn_GetResult_correct_witness:
  "\<exists>nums dst. FasterRcnn_GetResult 2 three_classes (\<lambda>i. 5) (\<lambda>i. int i) two_rois (replicate 6 \<lparr>d_score = 0, d_box = hd two_rois\<rparr>)
     = Some (nums, dst) \<and> length nums = 3"
  using FasterRcnn_GetResult_correct [OF three_classes_ok(1-3), of "replicate 6 \<lparr>d_score = 0, d_box = hd two_rois\<rparr>"
      "\<lambda>i. 5" "\<lambda>i. int i"] three_classes_ok(4,5)
  by (auto dest: list_all2_lengthD)

lemma Rfcn_GetResult_correct_witness:
  "\<exists>nums dst. Rfcn_GetResult 2 three_classes (\<lambda>i. int i) (\<lambda>i. 5) two_rois (replicate 6 \<lparr>d_score = 0, d_box = hd two_rois\<rparr>)
     = Some (nums, dst) \<and> length nums = 3"
  using Rfcn_GetResult_correct [OF three_classes_ok(1-3), of "replicate 6 \<lparr>d_score = 0, d_box = hd two_rois\<rparr>"
      "\<lambda>i. int i" "\<lambda>i. 5"] three_classes_ok(4,5)
  by (auto dest: list_all2_lengthD)

text \<open>
  The clipping is off by one: on an image of width 300 the column 300 is left in place although
  the last column is 299, and since 305 becomes 299, a box from 300 to 305 ends up inverted.
\<close>

lemma class_clip_off_by_one: "class_clip 300 300 = 300 \<and> class_clip 300 305 = 299 \<and> class_clip 300 299 = 299"
  by (simp add: class_clip_cases)

text \<open>The wrappers undo the scaling of the proposal stage.\<close>

lemma unscale_roi_of:
  assumes "0 \<le> p_xmin p" "p_xmax p < 524288" "0 \<le> p_ymin p" "p_ymax p < 524288"
    and "p_xmin p \<le> p_xmax p" "p_ymin p \<le> p_ymax p"
  shows "unscale_roi (roi_of p) = box_of p"
  using assms by (simp add: unscale_roi_def roi_of_def box_of_def s32_small c_div_pos)

end
