(* ===== verification/Nnie_Soft.thy ===== *)
theory Nnie_Soft
  imports Nnie_Model Nnie_Rcnn
begin

text \<open>
  The software parameters of the detection networks with region proposals and of the
  classification network (nnie/sample_nnie.c), and the sizes of their assist buffers
  (sample_svp_nnie_software.c): for every network the functions \<open>_SoftwareInit\<close>, which sets the
  parameters, allocates one block and cuts it into the buffers, \<open>_SoftwareDeinit\<close>, \<open>_Deinit\<close> and
  \<open>_ParamInit\<close>. The parameters of a stage are the record its model takes (\<open>rpn_cfg\<close> and so on).

  Sizes are \<open>HI_U32\<close>; a chain of unsigned products and sums is reduced once. A virtual address has
  32 bits; most of them are added to as \<open>HI_UL\<close> (32 bits), a few as \<open>HI_U64\<close>, as in the code. What
  the code clears with \<open>memset\<close> and flushes is not state of the model.
\<close>

section \<open>Shared parts\<close>

text \<open>
  A constant in Q12. The compiler folds these expressions; the rounding of the decimal does not
  reach the next integer for any of them.
\<close>

definition quant :: "rat \<Rightarrow> int" where
  "quant x = \<lfloor>x * 4096\<rfloor>"

text \<open>What all detection networks have: an assist buffer and three result blobs.\<close>

record soft_out =
  so_tmp :: svp_mem_info
  so_roi :: svp_blob
  so_score :: svp_blob
  so_num :: svp_blob

text \<open>
  Three consecutive result blobs at \<open>off\<close>: \<open>n\<close> boxes and scores, counted for \<open>c\<close> classes. \<open>roi\<close> and
  \<open>score\<close> are the sizes given to the first two.
\<close>

definition result_blob :: "int \<Rightarrow> int \<Rightarrow> int \<Rightarrow> int \<Rightarrow> svp_blob \<Rightarrow> svp_blob" where
  "result_blob p v off n b =
     b\<lparr>b_type := BLOB_S32, b_phy := u64 (p + off), b_vir := u32 (v + off), b_stride := ALIGN16 (u32 (n * 4)),
       b_num := 1, b_chn := 1, b_height := 1, b_width := u32 n\<rparr>"

definition set_results :: "int \<Rightarrow> int \<Rightarrow> int \<Rightarrow> int \<Rightarrow> int \<Rightarrow> int \<Rightarrow> int \<Rightarrow> 'a soft_out_scheme \<Rightarrow> 'a soft_out_scheme" where
  "set_results p v off n c roi score s =
     s\<lparr>so_roi := result_blob p v off (n * 4) (so_roi s),
       so_score := result_blob p v (off + roi) n (so_score s),
       so_num := result_blob p v (off + roi + score) c (so_num s)\<rparr>"

text \<open>\<open>strncmp\<close> over \<open>SVP_NNIE_NODE_NAME_LEN\<close> characters, and the search for a report node.\<close>

definition same_name :: "string \<Rightarrow> string \<Rightarrow> bool" where
  "same_name a b \<longleftrightarrow> take 32 a = take 32 b"

fun find_node :: "string \<Rightarrow> nnie_node list \<Rightarrow> nat \<Rightarrow> nat" where
  "find_node nm [] j = j"
| "find_node nm (n # ns) j = (if same_name (n_name n) nm then j else find_node nm ns (Suc j))"

section \<open>Networks with region proposals\<close>

record rcnn_soft = soft_out +
  fr_names :: "string list"
  fr_conv :: "int list"
  fr_rpn :: rpn_cfg
  fr_conf :: "int list"
  fr_valid_nms :: int
  fr_rpn_tmp :: svp_mem_info
  fr_rpn_bbox :: svp_blob

definition RpnTmpBufSize :: "int \<Rightarrow> int \<Rightarrow> int \<Rightarrow> int \<Rightarrow> int" where
  "RpnTmpBufSize ratios scales h w =
     (let anchors = u32 (ratios * scales * h * w);
          anchors_size = u32 (4 * 4 * anchors);
          bbox_delta = anchors_size;
          proposal = u32 (4 * 6 * anchors);
          ratio_anchors = u32 (4 * ratios * 4);
          scale_anchors = u32 (4 * ratios * scales * 4);
          score = u32 (4 * anchors * 2);
          stack = u32 (8 * anchors)
      in u32 (anchors_size + bbox_delta + proposal + ratio_anchors + scale_anchors + score + stack))"

definition FasterRcnn_GetResultTmpBufSize :: "int \<Rightarrow> int \<Rightarrow> int" where
  "FasterRcnn_GetResultTmpBufSize max_roi classes =
     (let score = u32 (4 * max_roi * classes); proposal = u32 (4 * max_roi * 6); stack = u32 (8 * max_roi)
      in u32 (score + proposal + stack))"

definition Pvanet_GetResultTmpBufSize :: "int \<Rightarrow> int \<Rightarrow> int" where
  "Pvanet_GetResultTmpBufSize max_roi classes =
     (let score = u32 (4 * max_roi * classes); proposal = u32 (4 * max_roi * 6); stack = u32 (8 * max_roi)
      in u32 (score + proposal + stack))"

definition Rfcn_GetResultTmpBuf :: "int \<Rightarrow> int \<Rightarrow> int" where
  "Rfcn_GetResultTmpBuf max_roi classes =
     (let score = u32 (4 * max_roi * classes); proposal = u32 (4 * max_roi * 6); bbox = u32 (4 * max_roi * 4);
          stack = u32 (8 * max_roi)
      in u32 (score + proposal + bbox + stack))"

text \<open>The report node \<open>i\<close> of the two that feed the proposals, looked up by its name.\<close>

definition report_node :: "nat \<Rightarrow> nnie_param \<Rightarrow> rcnn_soft \<Rightarrow> int \<times> rcnn_soft" where
  "report_node i pm s =
     (let ns = sg_dst (md_segs (pm_model pm) ! 0); j = find_node (fr_names s ! i) ns 0; r = fr_rpn s
      in if j = length ns then (-1, s)
         else let n = ns ! j; b = sd_dst (pm_data pm ! 0) ! j; s1 = s\<lparr>fr_conv := (fr_conv s)[i := b_vir b]\<rparr>
         in if i = 0
            then (0, s1\<lparr>fr_rpn := r\<lparr>conv0_height := nat (n_height n), conv0_width := nat (n_width n),
                    u32ConvStride := nat (b_stride b)\<rparr>\<rparr>)
            else (0, s1\<lparr>fr_rpn := r\<lparr>conv1_height := nat (n_height n), conv1_width := nat (n_width n),
                    conv1_channel := nat (n_chn n)\<rparr>\<rparr>))"

definition report_nodes :: "nnie_param \<Rightarrow> rcnn_soft \<Rightarrow> int \<times> rcnn_soft" where
  "report_nodes pm s =
     (let (ret, s1) = report_node 0 pm s in if ret \<noteq> 0 then (ret, s1) else report_node 1 pm s1)"

text \<open>The blob for the proposals, one line of four words each.\<close>

definition rpn_bbox_blob :: "int \<Rightarrow> svp_blob \<Rightarrow> svp_blob" where
  "rpn_bbox_blob max_roi b =
     b\<lparr>b_type := BLOB_S32, b_chn := 1, b_height := max_roi, b_width := 4, b_stride := ALIGN16 (u32 (4 * 4)), b_num := 1\<rparr>"

text \<open>
  The allocation, the same in the three networks: \<open>roi_num\<close> is \<open>pstCfg->u32MaxRoiNum\<close>, with which the
  sizes are computed; the result blobs use the number in the parameters.
\<close>

definition rcnn_alloc :: "mmz \<Rightarrow> (int \<Rightarrow> int \<Rightarrow> int) \<Rightarrow> int \<Rightarrow> rcnn_soft \<Rightarrow> mmz_trace \<Rightarrow> int \<times> rcnn_soft \<times> mmz_trace" where
  "rcnn_alloc mmz tmp_size roi_num s tr =
     (let r = fr_rpn s; c = int (length (fr_conf s)); m = int (u32MaxRois r);
          rpn = ALIGN16 (RpnTmpBufSize (int (length (au32Ratios r))) (int (length (au32Scales r)))
                  (int (conv0_height r)) (int (conv0_width r)));
          bb = fr_rpn_bbox s;
          bbox = u32 (b_num bb * b_height bb * b_stride bb);
          tmp = ALIGN16 (tmp_size roi_num c);
          roi = ALIGN16 (u32 (c * roi_num * 4 * 4));
          score = ALIGN16 (u32 (c * roi_num * 4));
          num = ALIGN16 (u32 (c * 4));
          tot = u32 (rpn + bbox + tmp + roi + score + num);
          ((ret, p, v), tr1) = MallocCached mmz tot tr
      in if ret \<noteq> 0 then (ret, s, tr1)
         else (ret, set_results p v (bbox + rpn + tmp) (c * m) c roi score
                 (s\<lparr>fr_rpn_tmp := \<lparr>m_phy = p, m_vir = v, m_size = rpn\<rparr>,
                    fr_rpn_bbox := bb\<lparr>b_phy := u64 (p + rpn), b_vir := u64 (v + rpn)\<rparr>,
                    so_tmp := \<lparr>m_phy = u64 (p + bbox + rpn), m_vir = u32 (v + bbox + rpn), m_size = tmp\<rparr>\<rparr>), tr1))"

text \<open>
  \<open>SoftwareInit\<close>; \<open>vgg\<close> tells which of the two Faster R-CNN networks runs. The lists of ratios and
  scales stand for the arrays with their counts, the list of thresholds for its array with the
  class number.
\<close>

definition first_src :: "nnie_param \<Rightarrow> svp_blob" where
  "first_src pm = sd_src (pm_data pm ! 0) ! 0"

definition FasterRcnn_SoftwareInit :: "mmz \<Rightarrow> bool \<Rightarrow> nnie_cfg \<Rightarrow> nnie_param \<Rightarrow> rcnn_soft \<Rightarrow> mmz_trace
    \<Rightarrow> int \<times> rcnn_soft \<times> mmz_trace" where
  "FasterRcnn_SoftwareInit mmz vgg cfg pm s tr =
     (let r = (fr_rpn s)\<lparr>
            u32MaxRois := nat (cf_max_roi cfg),
            au32Scales := (if vgg then [8 * 4096, 16 * 4096, 32 * 4096]
              else map quant [1.5, 2.1, 2.9, 4.1, 5.8, 8.0, 11.3, 15.8, 22.1]),
            au32Ratios := (if vgg then [quant 0.5, 1 * 4096, 2 * 4096] else [quant 2.44]),
            u32OriImHeight := b_height (first_src pm), u32OriImWidth := b_width (first_src pm),
            u32MinSize := 16, u32SpatialScale := quant 0.0625, u32NmsThresh := quant 0.7,
            u32FilterThresh := 0, u32NumBeforeNms := 6000\<rparr>;
          (ret, s1) = report_nodes pm (s\<lparr>fr_rpn := r, fr_conf := replicate (if vgg then 4 else 2) 1,
            fr_valid_nms := quant 0.3, fr_rpn_bbox := rpn_bbox_blob (cf_max_roi cfg) (fr_rpn_bbox s)\<rparr>)
      in if ret \<noteq> 0 then (ret, s1, tr)
         else rcnn_alloc mmz FasterRcnn_GetResultTmpBufSize (cf_max_roi cfg) s1 tr)"

definition Pvanet_SoftwareInit :: "mmz \<Rightarrow> nnie_cfg \<Rightarrow> nnie_param \<Rightarrow> rcnn_soft \<Rightarrow> mmz_trace
    \<Rightarrow> int \<times> rcnn_soft \<times> mmz_trace" where
  "Pvanet_SoftwareInit mmz cfg pm s tr =
     (let r = (fr_rpn s)\<lparr>
            au32Ratios := map quant [0.333, 0.5, 0.667, 1, 1.5, 2, 3],
            au32Scales := [2 * 4096, 3 * 4096, 5 * 4096, 9 * 4096, 16 * 4096, 32 * 4096],
            u32OriImHeight := b_height (first_src pm), u32OriImWidth := b_width (first_src pm),
            u32MinSize := 16, u32SpatialScale := quant 0.0625, u32NmsThresh := quant 0.7,
            u32FilterThresh := 0, u32NumBeforeNms := 12000, u32MaxRois := 200\<rparr>;
          (ret, s1) = report_nodes pm (s\<lparr>fr_rpn := r, fr_conf := replicate 21 1,
            fr_valid_nms := quant 0.3, fr_rpn_bbox := rpn_bbox_blob (cf_max_roi cfg) (fr_rpn_bbox s)\<rparr>)
      in if ret \<noteq> 0 then (ret, s1, tr)
         else rcnn_alloc mmz Pvanet_GetResultTmpBufSize (cf_max_roi cfg) s1 tr)"

text \<open>R-FCN sets its proposal blob after the search.\<close>

definition Rfcn_SoftwareInit :: "mmz \<Rightarrow> nnie_cfg \<Rightarrow> nnie_param \<Rightarrow> rcnn_soft \<Rightarrow> mmz_trace
    \<Rightarrow> int \<times> rcnn_soft \<times> mmz_trace" where
  "Rfcn_SoftwareInit mmz cfg pm s tr =
     (let r = (fr_rpn s)\<lparr>
            u32MaxRois := nat (cf_max_roi cfg),
            au32Scales := [8 * 4096, 16 * 4096, 32 * 4096], au32Ratios := [quant 0.5, 1 * 4096, 2 * 4096],
            u32OriImHeight := b_height (first_src pm), u32OriImWidth := b_width (first_src pm),
            u32MinSize := 16, u32SpatialScale := quant 0.0625, u32NmsThresh := quant 0.7,
            u32FilterThresh := 0, u32NumBeforeNms := 6000\<rparr>;
          (ret, s1) = report_nodes pm (s\<lparr>fr_rpn := r, fr_conf := replicate 21 1, fr_valid_nms := quant 0.3\<rparr>)
      in if ret \<noteq> 0 then (ret, s1, tr)
         else rcnn_alloc mmz Rfcn_GetResultTmpBuf (cf_max_roi cfg)
                (s1\<lparr>fr_rpn_bbox := rpn_bbox_blob (cf_max_roi cfg) (fr_rpn_bbox s1)\<rparr>) tr)"

text \<open>\<open>SoftwareDeinit\<close>, the same in the three.\<close>

definition rcnn_SoftwareDeinit :: "rcnn_soft \<Rightarrow> mmz_trace \<Rightarrow> int \<times> rcnn_soft \<times> mmz_trace" where
  "rcnn_SoftwareDeinit s tr =
     (let (m, tr1) = free_mem (fr_rpn_tmp s) tr in (0, s\<lparr>fr_rpn_tmp := m\<rparr>, tr1))"

section \<open>Classification network\<close>

record cnn_soft =
  cn_top :: int
  cn_get_top :: svp_blob
  cn_assist :: svp_mem_info

definition Cnn_SoftwareParaInit :: "mmz \<Rightarrow> nnie_cfg \<Rightarrow> nnie_param \<Rightarrow> cnn_soft \<Rightarrow> mmz_trace
    \<Rightarrow> int \<times> cnn_soft \<times> mmz_trace" where
  "Cnn_SoftwareParaInit mmz cfg pm s tr =
     (let classes = n_width (sg_dst (md_segs (pm_model pm) ! 0) ! 0);
          frame = u32 (cn_top s * 8);
          top = u32 (ALIGN16 frame * cf_max_input cfg);
          assist = u32 (classes * 8);
          ((ret, p, v), tr1) = MallocMem mmz (u32 (top + assist)) tr
      in if ret \<noteq> 0 then (ret, s, tr1)
         else (ret, s\<lparr>cn_get_top := (cn_get_top s)\<lparr>b_num := cf_max_input cfg, b_chn := 1, b_height := 1,
                        b_width := frame div 4, b_stride := ALIGN16 frame, b_phy := p, b_vir := v\<rparr>,
                      cn_assist := \<lparr>m_phy = u64 (p + top), m_vir = u64 (v + top), m_size = assist\<rparr>\<rparr>, tr1))"

definition Cnn_SoftwareDeinit :: "cnn_soft \<Rightarrow> mmz_trace \<Rightarrow> int \<times> cnn_soft \<times> mmz_trace" where
  "Cnn_SoftwareDeinit s tr =
     (let b = cn_get_top s
      in if b_phy b \<noteq> 0 \<and> b_vir b \<noteq> 0
         then let (p, v, tr1) = MMZ_FREE (b_phy b) (b_vir b) tr
              in (0, s\<lparr>cn_get_top := b\<lparr>b_phy := 0, b_vir := 0\<rparr>\<rparr>, tr1)
         else (0, s, tr))"

section \<open>Deinit and ParamInit\<close>

text \<open>
  These are alike in all networks: first the hardware parameters, then the software parameters,
  then the model, each if its pointer is not \<open>NULL\<close>; the value returned is that of the last.
\<close>

definition soft_Deinit :: "('s \<Rightarrow> mmz_trace \<Rightarrow> int \<times> 's \<times> mmz_trace) \<Rightarrow> nnie_param option \<Rightarrow> 's option
    \<Rightarrow> load_state option \<Rightarrow> mmz_trace \<Rightarrow> int \<times> nnie_param option \<times> 's option \<times> load_state option \<times> mmz_trace" where
  "soft_Deinit deinit pm s md tr =
     (let (r1, pm1, tr1) = (case pm of None \<Rightarrow> (0, None, tr)
            | Some x \<Rightarrow> (let (r, y, t) = ParamDeinit x tr in (r, Some y, t)));
          (r2, s2, tr2) = (case s of None \<Rightarrow> (r1, None, tr1)
            | Some x \<Rightarrow> (let (r, y, t) = deinit x tr1 in (r, Some y, t)));
          (r3, md3, tr3) = (case md of None \<Rightarrow> (r2, None, tr2)
            | Some x \<Rightarrow> (let (r, y) = UnloadModel (x\<lparr>ld_trace := tr2\<rparr>) in (r, Some y, ld_trace y)))
      in (r3, pm1, s2, md3, tr3))"

text \<open>\<open>hw\<close> is \<open>SAMPLE_COMM_SVP_NNIE_ParamInit\<close> for the configuration.\<close>

definition soft_ParamInit :: "(nnie_param \<Rightarrow> mmz_trace \<Rightarrow> (int \<times> nnie_param \<times> mmz_trace) option)
    \<Rightarrow> (nnie_param \<Rightarrow> 's \<Rightarrow> mmz_trace \<Rightarrow> int \<times> 's \<times> mmz_trace) \<Rightarrow> ('s \<Rightarrow> mmz_trace \<Rightarrow> int \<times> 's \<times> mmz_trace)
    \<Rightarrow> nnie_param \<Rightarrow> 's option \<Rightarrow> mmz_trace \<Rightarrow> (int \<times> nnie_param \<times> 's option \<times> mmz_trace) option" where
  "soft_ParamInit hw init deinit pm s tr =
     (let fail = (\<lambda>pm s tr. let (r, pm', s', _, tr') = soft_Deinit deinit (Some pm) s None tr
                  in (if r \<noteq> 0 then r else -1, the pm', s', tr'))
      in case hw pm tr of
           None \<Rightarrow> None
         | Some (r1, pm1, tr1) \<Rightarrow>
             if r1 \<noteq> 0 then Some (fail pm1 s tr1)
             else (case s of
                     None \<Rightarrow> Some (r1, pm1, None, tr1)
                   | Some x \<Rightarrow>
                       let (r2, y, tr2) = init pm1 x tr1
                       in if r2 \<noteq> 0 then Some (fail pm1 (Some y) tr2) else Some (r2, pm1, Some y, tr2)))"

definition FasterRcnn_ParamInit where
  "FasterRcnn_ParamInit mmz tsk steps vgg cfg =
     soft_ParamInit (ParamInit mmz tsk steps cfg) (FasterRcnn_SoftwareInit mmz vgg cfg) rcnn_SoftwareDeinit"

definition Pvanet_ParamInit where
  "Pvanet_ParamInit mmz tsk steps cfg =
     soft_ParamInit (ParamInit mmz tsk steps cfg) (Pvanet_SoftwareInit mmz cfg) rcnn_SoftwareDeinit"

definition Rfcn_ParamInit where
  "Rfcn_ParamInit mmz tsk steps cfg =
     soft_ParamInit (ParamInit mmz tsk steps cfg) (Rfcn_SoftwareInit mmz cfg) rcnn_SoftwareDeinit"

definition Cnn_ParamInit where
  "Cnn_ParamInit mmz tsk steps cfg =
     soft_ParamInit (ParamInit mmz tsk steps cfg) (Cnn_SoftwareParaInit mmz cfg) Cnn_SoftwareDeinit"

section \<open>Balance of the memory\<close>

lemma live_free_second:
  assumes "live tr = Some ((p1, v1, n1) # (p2, v2, n2) # bs)"
  shows "live (tr @ [Mmz_free p2 v2, Mmz_free p1 v1]) = Some bs"
  using assms by (auto simp: live_append)

text \<open>
  What \<open>soft_ParamInit\<close> relies on: \<open>handle\<close> gives the two addresses under which the software
  parameters own their block. A failed \<open>init\<close> has done nothing to the memory; a successful one
  has allocated one block and holds it; \<open>deinit\<close> frees what is held and forgets it.
\<close>

locale soft_params =
  fixes mmz :: mmz
    and init :: "nnie_param \<Rightarrow> 's \<Rightarrow> mmz_trace \<Rightarrow> int \<times> 's \<times> mmz_trace"
    and deinit :: "'s \<Rightarrow> mmz_trace \<Rightarrow> int \<times> 's \<times> mmz_trace"
    and handle :: "'s \<Rightarrow> int \<times> int"
  assumes init_fail: "init pm s tr = (r, s', tr') \<Longrightarrow> r \<noteq> 0 \<Longrightarrow> tr' = tr \<and> handle s' = handle s"
    and init_ok: "init pm s tr = (0, s', tr') \<Longrightarrow>
      \<exists>p v n. mmz tr n = (0, p, v) \<and> tr' = tr @ [Mmz_alloc p v n] \<and> handle s' = (p, v)"
    and deinit_held: "handle s = (p, v) \<Longrightarrow> p \<noteq> 0 \<Longrightarrow> v \<noteq> 0 \<Longrightarrow>
      \<exists>s'. deinit s tr = (0, s', tr @ [Mmz_free p v]) \<and> fst (handle s') = 0"
    and deinit_none: "fst (handle s) = 0 \<Longrightarrow> deinit s tr = (0, s, tr)"
begin

lemma deinit_none_any: "case s of None \<Rightarrow> True | Some x \<Rightarrow> fst (handle x) = 0 \<Longrightarrow>
    m_phy (pm_task pm) = 0 \<Longrightarrow> m_phy (pm_step pm) = 0 \<Longrightarrow>
    soft_Deinit deinit (Some pm) s None tr = (0, Some pm, s, None, tr)"
  by (simp add: soft_Deinit_def ParamDeinit_def free_mem_null deinit_none split: option.splits)

lemma soft_Deinit_model: "soft_Deinit deinit pm s (Some md) tr =
    (let (r, pm', s', _, tr') = soft_Deinit deinit pm s None tr; (r', y) = UnloadModel (md\<lparr>ld_trace := tr'\<rparr>)
     in (r', pm', s', Some y, ld_trace y))"
  by (simp add: soft_Deinit_def split: prod.split option.split)

lemma soft_ParamInit_balanced:
  assumes "mmz_sound mmz" "live tr = Some bs" "m_phy (pm_task pm) = 0" "m_phy (pm_step pm) = 0"
    and null: "case s of None \<Rightarrow> True | Some x \<Rightarrow> fst (handle x) = 0"
    and run: "soft_ParamInit (ParamInit mmz tsk steps cfg) init deinit pm s tr = Some (ret, pm', s', tr')"
  shows "if ret = 0
    then m_phy (pm_task pm') \<noteq> 0 \<and> (\<exists>new. live tr' = Some (new @ bs) \<and> length new = (if s = None then 1 else 2)) \<and>
      (\<exists>r pm2 s2 md tr2. soft_Deinit deinit (Some pm') s' None tr' = (r, pm2, s2, md, tr2) \<and> live tr2 = Some bs)
    else live tr' = Some bs \<and> m_phy (pm_task pm') = 0 \<and> soft_Deinit deinit (Some pm') s' None tr' = (0, Some pm', s', None, tr')"
proof -
  obtain r1 pm1 tr1 where hw: "ParamInit mmz tsk steps cfg pm tr = Some (r1, pm1, tr1)"
    using run by (auto simp: soft_ParamInit_def Let_def split: option.splits)
  note own = ParamInit_owned [OF assms(1-4) hw]
  let ?p = "m_phy (pm_task pm1)" and ?v = "m_vir (pm_task pm1)"
  show ?thesis
  proof (cases "r1 = 0")
    case False
    then show ?thesis
      using run own deinit_none_any [OF null, of pm1] by (simp add: soft_ParamInit_def hw Let_def)
  next
    case True
    then obtain n where l: "live tr1 = Some ((?p, ?v, n) # bs)" and nz: "?p \<noteq> 0" "?v \<noteq> 0"
      and st: "m_phy (pm_step pm1) = 0" using own by auto
    have pd: "ParamDeinit pm1 t = (0, pm1\<lparr>pm_task := (pm_task pm1)\<lparr>m_phy := 0, m_vir := 0\<rparr>\<rparr>, t @ [Mmz_free ?p ?v])" for t
      using nz st by (simp add: ParamDeinit_def free_mem_def MMZ_FREE_def)
    have l1: "live (tr1 @ [Mmz_free ?p ?v]) = Some bs" using l by (simp add: live_append)
    show ?thesis
    proof (cases s)
      case None
      then have "ret = 0" "pm' = pm1" "s' = None" "tr' = tr1" using run True by (auto simp: soft_ParamInit_def hw)
      then show ?thesis using None l l1 nz by (simp add: soft_Deinit_def pd)
    next
      case (Some x)
      obtain r2 y tr2 where i: "init pm1 x tr1 = (r2, y, tr2)" by (metis surj_pair)
      show ?thesis
      proof (cases "r2 = 0")
        case False
        then have "tr2 = tr1" "fst (handle y) = 0" using init_fail [OF i] null Some by auto
        then have "ret \<noteq> 0" "pm' = pm1\<lparr>pm_task := (pm_task pm1)\<lparr>m_phy := 0, m_vir := 0\<rparr>\<rparr>" "s' = Some y" "tr' = tr1 @ [Mmz_free ?p ?v]"
          using run True False Some i by (auto simp: soft_ParamInit_def hw soft_Deinit_def pd deinit_none)
        then show ?thesis using l1 st deinit_none_any [of s' pm'] \<open>fst (handle y) = 0\<close> by simp
      next
        case r2: True
        then obtain p v k where al: "mmz tr1 k = (0, p, v)" "tr2 = tr1 @ [Mmz_alloc p v k]" "handle y = (p, v)"
          using init_ok i by blast
        then have "0 < p" "0 < v" using assms(1) unfolding mmz_sound_def by blast+
        then obtain z where z: "deinit y t = (0, z t, t @ [Mmz_free p v])" for t
          using deinit_held [OF al(3)] by (metis less_irrefl)
        have l2: "live tr2 = Some ((p, v, k) # (?p, ?v, n) # bs)" using l by (simp add: al(2) live_append)
        have fin: "ret = 0" "pm' = pm1" "s' = Some y" "tr' = tr2"
          using run True Some i r2 by (auto simp: soft_ParamInit_def hw)
        show ?thesis using live_free_second [OF l2] Some l2 nz by (simp add: fin soft_Deinit_def pd z)
      qed
    qed
  qed
qed

end

lemma MallocCached_cases:
  assumes "MallocCached mmz n tr = ((ret, p, v), tr')"
  shows "mmz tr n = (ret, p, v) \<and> tr' = (if ret = 0 then tr @ [Mmz_alloc p v n] else tr)"
  using assms by (auto simp: MallocCached_def MmzAlloc_def Let_def split: prod.splits if_splits)

definition mem_handle :: "svp_mem_info \<Rightarrow> int \<times> int" where
  "mem_handle m = (m_phy m, m_vir m)"

definition rcnn_handle :: "rcnn_soft \<Rightarrow> int \<times> int" where
  "rcnn_handle s = mem_handle (fr_rpn_tmp s)"

lemma rcnn_alloc_fail: "rcnn_alloc mmz f n s tr = (r, s', tr') \<Longrightarrow> r \<noteq> 0 \<Longrightarrow> tr' = tr \<and> s' = s"
  by (auto simp: rcnn_alloc_def Let_def split: prod.splits if_splits dest!: MallocCached_cases)

lemma rcnn_alloc_ok:
  assumes "rcnn_alloc mmz f n s tr = (0, s', tr')"
  shows "\<exists>p v k. mmz tr k = (0, p, v) \<and> tr' = tr @ [Mmz_alloc p v k] \<and> rcnn_handle s' = (p, v)"
  using assms
  by (auto simp: rcnn_alloc_def Let_def rcnn_handle_def mem_handle_def set_results_def
      split: prod.splits if_splits dest!: MallocCached_cases)

lemma report_nodes_keep: "report_nodes pm s = (r, s') \<Longrightarrow> fr_rpn_tmp s' = fr_rpn_tmp s"
  by (auto simp: report_nodes_def report_node_def Let_def split: prod.splits if_splits)

lemma rcnn_deinit_held: "rcnn_handle s = (p, v) \<Longrightarrow> p \<noteq> 0 \<Longrightarrow> v \<noteq> 0 \<Longrightarrow>
    \<exists>s'. rcnn_SoftwareDeinit s tr = (0, s', tr @ [Mmz_free p v]) \<and> fst (rcnn_handle s') = 0"
  by (simp add: rcnn_SoftwareDeinit_def rcnn_handle_def mem_handle_def free_mem_def MMZ_FREE_def)

lemma rcnn_deinit_none: "fst (rcnn_handle s) = 0 \<Longrightarrow> rcnn_SoftwareDeinit s tr = (0, s, tr)"
  by (simp add: rcnn_SoftwareDeinit_def rcnn_handle_def mem_handle_def free_mem_null)

text \<open>Each of the three consists of a step that leaves the memory alone, and the allocation.\<close>

lemma rcnn_init_fail:
  assumes "(case nodes of (ret, s1) \<Rightarrow> if ret \<noteq> 0 then (ret, s1, tr) else rcnn_alloc mmz f n (g s1) tr) = (r, s', tr')"
    and "r \<noteq> (0 :: int)" and "fr_rpn_tmp (snd nodes) = fr_rpn_tmp s" and "\<And>s1. fr_rpn_tmp (g s1) = fr_rpn_tmp s1"
  shows "tr' = tr \<and> rcnn_handle s' = rcnn_handle s"
  using assms by (auto simp: rcnn_handle_def split: prod.splits if_splits dest!: rcnn_alloc_fail)

lemma rcnn_init_ok:
  assumes "(case nodes of (ret, s1) \<Rightarrow> if ret \<noteq> 0 then (ret, s1, tr) else rcnn_alloc mmz f n (g s1) tr) = (0 :: int, s', tr')"
  shows "\<exists>p v k. mmz tr k = (0, p, v) \<and> tr' = tr @ [Mmz_alloc p v k] \<and> rcnn_handle s' = (p, v)"
  using assms by (auto split: prod.splits if_splits dest!: rcnn_alloc_ok)

lemma report_nodes_handle: "fr_rpn_tmp (snd (report_nodes pm s)) = fr_rpn_tmp s"
  using report_nodes_keep by (metis prod.collapse)

interpretation frcnn: soft_params mmz "FasterRcnn_SoftwareInit mmz vgg cfg" rcnn_SoftwareDeinit rcnn_handle for mmz vgg cfg
proof
  fix pm s tr r s' tr'
  assume i: "FasterRcnn_SoftwareInit mmz vgg cfg pm s tr = (r, s', tr')"
  show "r \<noteq> 0 \<Longrightarrow> tr' = tr \<and> rcnn_handle s' = rcnn_handle s"
    by (rule rcnn_init_fail [where g = "\<lambda>s. s", OF i [unfolded FasterRcnn_SoftwareInit_def Let_def]])
      (simp_all add: report_nodes_handle)
next
  fix pm s tr s' tr'
  assume i: "FasterRcnn_SoftwareInit mmz vgg cfg pm s tr = (0, s', tr')"
  show "\<exists>p v n. mmz tr n = (0, p, v) \<and> tr' = tr @ [Mmz_alloc p v n] \<and> rcnn_handle s' = (p, v)"
    by (rule rcnn_init_ok [where g = "\<lambda>s. s", OF i [unfolded FasterRcnn_SoftwareInit_def Let_def]])
qed (rule rcnn_deinit_held rcnn_deinit_none; assumption)+

interpretation pvanet: soft_params mmz "Pvanet_SoftwareInit mmz cfg" rcnn_SoftwareDeinit rcnn_handle for mmz cfg
proof
  fix pm s tr r s' tr'
  assume i: "Pvanet_SoftwareInit mmz cfg pm s tr = (r, s', tr')"
  show "r \<noteq> 0 \<Longrightarrow> tr' = tr \<and> rcnn_handle s' = rcnn_handle s"
    by (rule rcnn_init_fail [where g = "\<lambda>s. s", OF i [unfolded Pvanet_SoftwareInit_def Let_def]])
      (simp_all add: report_nodes_handle)
next
  fix pm s tr s' tr'
  assume i: "Pvanet_SoftwareInit mmz cfg pm s tr = (0, s', tr')"
  show "\<exists>p v n. mmz tr n = (0, p, v) \<and> tr' = tr @ [Mmz_alloc p v n] \<and> rcnn_handle s' = (p, v)"
    by (rule rcnn_init_ok [where g = "\<lambda>s. s", OF i [unfolded Pvanet_SoftwareInit_def Let_def]])
qed (rule rcnn_deinit_held rcnn_deinit_none; assumption)+

interpretation rfcn: soft_params mmz "Rfcn_SoftwareInit mmz cfg" rcnn_SoftwareDeinit rcnn_handle for mmz cfg
proof
  fix pm s tr r s' tr'
  assume i: "Rfcn_SoftwareInit mmz cfg pm s tr = (r, s', tr')"
  show "r \<noteq> 0 \<Longrightarrow> tr' = tr \<and> rcnn_handle s' = rcnn_handle s"
    by (rule rcnn_init_fail [OF i [unfolded Rfcn_SoftwareInit_def Let_def]])
      (simp_all add: report_nodes_handle)
next
  fix pm s tr s' tr'
  assume i: "Rfcn_SoftwareInit mmz cfg pm s tr = (0, s', tr')"
  show "\<exists>p v n. mmz tr n = (0, p, v) \<and> tr' = tr @ [Mmz_alloc p v n] \<and> rcnn_handle s' = (p, v)"
    by (rule rcnn_init_ok [OF i [unfolded Rfcn_SoftwareInit_def Let_def]])
qed (rule rcnn_deinit_held rcnn_deinit_none; assumption)+

definition cnn_handle :: "cnn_soft \<Rightarrow> int \<times> int" where
  "cnn_handle s = (b_phy (cn_get_top s), b_vir (cn_get_top s))"

interpretation cnn: soft_params mmz "Cnn_SoftwareParaInit mmz cfg" Cnn_SoftwareDeinit cnn_handle for mmz cfg
proof
  fix pm s tr r s' tr'
  assume i: "Cnn_SoftwareParaInit mmz cfg pm s tr = (r, s', tr')"
  show "r \<noteq> 0 \<Longrightarrow> tr' = tr \<and> cnn_handle s' = cnn_handle s"
    using i by (auto simp: Cnn_SoftwareParaInit_def MallocMem_def Let_def
        split: prod.splits if_splits dest!: MallocCached_cases [unfolded MallocCached_def])
next
  fix pm s tr s' tr'
  assume i: "Cnn_SoftwareParaInit mmz cfg pm s tr = (0, s', tr')"
  show "\<exists>p v n. mmz tr n = (0, p, v) \<and> tr' = tr @ [Mmz_alloc p v n] \<and> cnn_handle s' = (p, v)"
    using i by (auto simp: Cnn_SoftwareParaInit_def MallocMem_def Let_def cnn_handle_def
        split: prod.splits if_splits dest!: MallocCached_cases [unfolded MallocCached_def])
next
  show "\<exists>s'. Cnn_SoftwareDeinit s tr = (0, s', tr @ [Mmz_free p v]) \<and> fst (cnn_handle s') = 0"
    if "cnn_handle s = (p, v)" "p \<noteq> 0" "v \<noteq> 0" for s p v tr
    using that by (simp add: Cnn_SoftwareDeinit_def cnn_handle_def MMZ_FREE_def)
qed (simp add: Cnn_SoftwareDeinit_def cnn_handle_def)

section \<open>Where the buffers lie\<close>

definition up16 :: "int \<Rightarrow> int" where
  "up16 x = (x + 15) div 16 * 16"

lemma up16_bounds: "x \<le> up16 x" "up16 x \<le> x + 15"
  unfolding up16_def by presburger+

lemma ALIGN16_eq: "0 \<le> x \<Longrightarrow> x + 15 < 4294967296 \<Longrightarrow> ALIGN16 (u32 x) = up16 x"
  using up16_bounds [of x] by (simp add: ALIGN16_def up16_def u32_id in_u32_def)

lemma ALIGN16_16: "ALIGN16 (u32 (4 * 4)) = 16" "ALIGN16 (u32 16) = 16" "ALIGN16 16 = 16"
  by (simp_all add: ALIGN16_def u32_def)

definition rpn_tmp_bytes :: "int \<Rightarrow> int \<Rightarrow> int \<Rightarrow> int \<Rightarrow> int" where
  "rpn_tmp_bytes ratios scales h w = 72 * (ratios * scales * h * w) + 16 * ratios + 16 * (ratios * scales)"

lemma u32_mult_u32: "u32 (a * u32 b) = u32 (a * b)" "u32 (u32 b * a) = u32 (b * a)"
  by (simp_all add: u32_def mod_mult_right_eq mod_mult_left_eq)

lemma u32_sum: "u32 (sum_list (map u32 xs)) = u32 (sum_list xs)"
proof (induction xs)
  case (Cons x xs)
  then show ?case by (simp add: u32_def) (metis mod_add_eq mod_add_left_eq mod_mod_trivial)
qed simp

lemma RpnTmpBufSize_eq: "RpnTmpBufSize ratios scales h w = u32 (rpn_tmp_bytes ratios scales h w)"
proof -
  let ?A = "ratios * scales * h * w"
  have "u32 (4 * u32 ?A * 2) = u32 (8 * ?A)" using u32_mult_u32(1) [of 8 ?A] by (simp add: mult.commute mult.left_commute)
  then have "RpnTmpBufSize ratios scales h w = u32 (sum_list (map u32
      [4 * 4 * ?A, 4 * 4 * ?A, 4 * 6 * ?A, 4 * ratios * 4, 4 * ratios * scales * 4, 8 * ?A, 8 * ?A]))"
    unfolding RpnTmpBufSize_def Let_def by (simp only: u32_mult_u32 list.map sum_list.Cons sum_list.Nil add.assoc add_0_right)
  also have "\<dots> = u32 (rpn_tmp_bytes ratios scales h w)"
    unfolding u32_sum by (rule arg_cong [of _ _ u32]) (simp add: rpn_tmp_bytes_def)
  finally show ?thesis .
qed

lemma GetResultTmpBufSize_eq:
  "FasterRcnn_GetResultTmpBufSize m c = u32 (4 * m * c + 32 * m)"
  "Pvanet_GetResultTmpBufSize m c = u32 (4 * m * c + 32 * m)"
  "Rfcn_GetResultTmpBuf m c = u32 (4 * m * c + 48 * m)"
proof -
  have "FasterRcnn_GetResultTmpBufSize m c = u32 (sum_list (map u32 [4 * m * c, 4 * m * 6, 8 * m]))"
    by (simp add: FasterRcnn_GetResultTmpBufSize_def Let_def add.assoc)
  then show f: "FasterRcnn_GetResultTmpBufSize m c = u32 (4 * m * c + 32 * m)" unfolding u32_sum by simp
  have "Rfcn_GetResultTmpBuf m c = u32 (sum_list (map u32 [4 * m * c, 4 * m * 6, 4 * m * 4, 8 * m]))"
    by (simp add: Rfcn_GetResultTmpBuf_def Let_def add.assoc)
  then show "Rfcn_GetResultTmpBuf m c = u32 (4 * m * c + 48 * m)" unfolding u32_sum by simp
  show "Pvanet_GetResultTmpBufSize m c = u32 (4 * m * c + 32 * m)"
    using f by (simp add: FasterRcnn_GetResultTmpBufSize_def Pvanet_GetResultTmpBufSize_def)
qed

text \<open>The extent of a buffer and of a blob, for one of the two kinds of address.\<close>

definition mem_ext :: "(svp_mem_info \<Rightarrow> int) \<Rightarrow> svp_mem_info \<Rightarrow> int \<times> int" where
  "mem_ext adr m = (adr m, m_size m)"

definition blob_ext :: "(svp_blob \<Rightarrow> int) \<Rightarrow> svp_blob \<Rightarrow> int \<times> int" where
  "blob_ext adr b = (adr b, b_num b * b_chn b * b_height b * b_stride b)"

definition out_exts :: "(svp_blob \<Rightarrow> int) \<Rightarrow> 'a soft_out_scheme \<Rightarrow> (int \<times> int) list" where
  "out_exts adr s = [blob_ext adr (so_roi s), blob_ext adr (so_score s), blob_ext adr (so_num s)]"

definition rcnn_exts :: "(svp_mem_info \<Rightarrow> int) \<Rightarrow> (svp_blob \<Rightarrow> int) \<Rightarrow> rcnn_soft \<Rightarrow> (int \<times> int) list" where
  "rcnn_exts madr badr s = [mem_ext madr (fr_rpn_tmp s), blob_ext badr (fr_rpn_bbox s), mem_ext madr (so_tmp s)] @ out_exts badr s"

lemma result_blob_ext:
  assumes "0 \<le> n" "4 * n + 15 < 4294967296"
  shows "blob_ext adr (result_blob p v off n b) = (adr (result_blob p v off n b), up16 (4 * n))"
  using ALIGN16_eq [of "n * 4"] assms by (simp add: blob_ext_def result_blob_def mult.commute)

lemma out_exts_set_results:
  assumes n: "0 \<le> n" "16 * n + 15 < 4294967296" and c: "0 \<le> c" "4 * c + 15 < 4294967296"
    and sz: "roi = up16 (16 * n)" "score = up16 (4 * n)"
    and p: "0 \<le> p" "0 \<le> off" "p + off + roi + score < 9223372036854775808" "0 \<le> v" "v + off + roi + score < 4294967296"
  shows "out_exts b_phy (set_results p v off n c roi score s) = [(p + off, roi), (p + off + roi, score), (p + off + roi + score, up16 (4 * c))]"
    "out_exts b_vir (set_results p v off n c roi score s) = [(v + off, roi), (v + off + roi, score), (v + off + roi + score, up16 (4 * c))]"
proof -
  have nn: "0 \<le> roi" "0 \<le> score" using up16_bounds(1) [of "16 * n"] up16_bounds(1) [of "4 * n"] n(1) unfolding sz by linarith+
  have u: "u64 (p + off) = p + off" "u64 (p + (off + roi)) = p + off + roi" "u64 (p + (off + roi + score)) = p + off + roi + score"
    "u32 (v + off) = v + off" "u32 (v + (off + roi)) = v + off + roi" "u32 (v + (off + roi + score)) = v + off + roi + score"
    using p nn by (auto simp: u32_id in_u32_def add.assoc intro!: u64_id)
  have r: "blob_ext adr (result_blob p v x (n * 4) b) = (adr (result_blob p v x (n * 4) b), roi)"
    "blob_ext adr (result_blob p v x n b) = (adr (result_blob p v x n b), score)"
    "blob_ext adr (result_blob p v x c b) = (adr (result_blob p v x c b), up16 (4 * c))" for adr x b
    using n c by (simp_all add: result_blob_ext sz)
  show "out_exts b_phy (set_results p v off n c roi score s) = [(p + off, roi), (p + off + roi, score), (p + off + roi + score, up16 (4 * c))]"
    "out_exts b_vir (set_results p v off n c roi score s) = [(v + off, roi), (v + off + roi, score), (v + off + roi + score, up16 (4 * c))]"
    unfolding out_exts_def by (simp_all add: set_results_def r) (simp_all add: result_blob_def u)
qed

text \<open>A bound for the sum of the sizes, rounding included, when nothing wraps.\<close>

definition rcnn_bytes :: "int \<Rightarrow> int \<Rightarrow> rcnn_soft \<Rightarrow> int" where
  "rcnn_bytes t k s =
     (let r = fr_rpn s; c = int (length (fr_conf s))
      in rpn_tmp_bytes (int (length (au32Ratios r))) (int (length (au32Scales r))) (int (conv0_height r)) (int (conv0_width r))
         + 16 * k + t + 20 * (c * k) + 4 * c + 96)"

lemma u32_small: "0 \<le> x \<Longrightarrow> x < 4294967296 \<Longrightarrow> u32 x = x"
  by (simp add: u32_id in_u32_def)

text \<open>The sizes that matter later: of the two assist buffers, of the scores and of the proposals.\<close>

definition rcnn_sized :: "int \<Rightarrow> int \<Rightarrow> rcnn_soft \<Rightarrow> bool" where
  "rcnn_sized t k s \<longleftrightarrow>
     m_size (fr_rpn_tmp s) = up16 (rpn_tmp_bytes (int (length (au32Ratios (fr_rpn s)))) (int (length (au32Scales (fr_rpn s))))
       (int (conv0_height (fr_rpn s))) (int (conv0_width (fr_rpn s)))) \<and>
     m_size (so_tmp s) = up16 t \<and> b_stride (so_score s) = up16 (4 * (int (length (fr_conf s)) * k)) \<and>
     b_stride (so_roi s) = up16 (16 * (int (length (fr_conf s)) * k)) \<and> b_height (fr_rpn_bbox s) = k \<and> b_stride (fr_rpn_bbox s) = 16"

lemma rcnn_alloc_layout:
  assumes run: "rcnn_alloc mmz f k s tr = (0, s', tr')" and mmz: "mmz_sound mmz" "live tr = Some bs"
    and bb: "fr_rpn_bbox s = rpn_bbox_blob k b0" and m: "int (u32MaxRois (fr_rpn s)) = k"
    and f: "f k (int (length (fr_conf s))) = u32 t" "0 \<le> t"
    and small: "rcnn_bytes t k s < 4294967296"
  shows "\<exists>p v n. live tr' = Some ((p, v, n) # bs) \<and> fits p (rcnn_exts m_phy b_phy s') (p + n) \<and>
    fits v (rcnn_exts m_vir b_vir s') (v + n) \<and> fr_rpn s' = fr_rpn s \<and> fr_conf s' = fr_conf s \<and>
    fr_valid_nms s' = fr_valid_nms s \<and> rcnn_sized t k s'"
proof -
  define r where "r = fr_rpn s"
  define c where "c = int (length (fr_conf s))"
  define t0 where "t0 = rpn_tmp_bytes (int (length (au32Ratios r))) (int (length (au32Scales r))) (int (conv0_height r)) (int (conv0_width r))"
  define rpn tmp roi score num where defs: "rpn = up16 t0" "tmp = up16 t" "roi = up16 (16 * (c * k))" "score = up16 (4 * (c * k))" "num = up16 (4 * c)"
  have k: "0 \<le> k" "0 \<le> c" using m by (simp_all add: c_def)
  have ck: "0 \<le> c * k" "0 \<le> t0" using k by (simp_all add: t0_def rpn_tmp_bytes_def)
  have sm: "t0 + 16 * k + t + 20 * (c * k) + 4 * c + 96 < 4294967296"
    using small by (simp add: rcnn_bytes_def Let_def t0_def r_def c_def)
  have A: "ALIGN16 (u32 x) = up16 x" if "0 \<le> x" "x \<le> t0 + 16 * k + t + 20 * (c * k) + 4 * c" for x
    using sm that by (intro ALIGN16_eq) linarith+
  have al: "ALIGN16 (RpnTmpBufSize (int (length (au32Ratios r))) (int (length (au32Scales r))) (int (conv0_height r)) (int (conv0_width r))) = rpn"
    "ALIGN16 (f k c) = tmp" "ALIGN16 (u32 (c * k * 4 * 4)) = roi" "ALIGN16 (u32 (c * k * 4)) = score" "ALIGN16 (u32 (c * 4)) = num"
    using A [of t0] A [of t] A [of "16 * (c * k)"] A [of "4 * (c * k)"] A [of "4 * c"] sm k ck f(2)
    by (simp_all add: RpnTmpBufSize_eq t0_def [symmetric] f(1) [folded c_def] defs ac_simps)
  have le: "t0 \<le> rpn" "rpn \<le> t0 + 15" "t \<le> tmp" "tmp \<le> t + 15" "16 * (c * k) \<le> roi" "roi \<le> 16 * (c * k) + 15"
    "4 * (c * k) \<le> score" "score \<le> 4 * (c * k) + 15" "4 * c \<le> num" "num \<le> 4 * c + 15"
    unfolding defs by (rule up16_bounds)+
  have bbox: "b_num (fr_rpn_bbox s) * b_height (fr_rpn_bbox s) * b_stride (fr_rpn_bbox s) = 16 * k"
    "b_num (fr_rpn_bbox s) * b_chn (fr_rpn_bbox s) * b_height (fr_rpn_bbox s) * b_stride (fr_rpn_bbox s) = 16 * k"
    by (simp_all add: bb rpn_bbox_blob_def ALIGN16_def u32_def)
  have uk: "u32 (16 * k) = 16 * k" using sm k ck f(2) by (intro u32_small) linarith+
  define tot where "tot = rpn + 16 * k + tmp + roi + score + num"
  have utot: "u32 tot = tot" using sm k ck f(2) le unfolding tot_def by (intro u32_small) linarith+
  obtain ret p v tr1 where mc: "MallocCached mmz tot tr = ((ret, p, v), tr1)" by (metis surj_pair)
  note mc' = MallocCached_cases [OF mc]
  define s1 where "s1 = s\<lparr>fr_rpn_tmp := \<lparr>m_phy = p, m_vir = v, m_size = rpn\<rparr>,
      fr_rpn_bbox := (fr_rpn_bbox s)\<lparr>b_phy := u64 (p + rpn), b_vir := u64 (v + rpn)\<rparr>,
      so_tmp := \<lparr>m_phy = u64 (p + 16 * k + rpn), m_vir = u32 (v + 16 * k + rpn), m_size = tmp\<rparr>\<rparr>"
  have res: "rcnn_alloc mmz f k s tr = (if ret \<noteq> 0 then (ret, s, tr1)
      else (ret, set_results p v (16 * k + rpn + tmp) (c * k) c roi score s1, tr1))"
    unfolding rcnn_alloc_def Let_def r_def [symmetric] c_def [symmetric] al bbox(1) uk s1_def
    using m mc utot by (simp add: tot_def r_def)
  then have ret: "ret = 0" "s' = set_results p v (16 * k + rpn + tmp) (c * k) c roi score s1" "tr' = tr1"
    using run by (auto split: if_splits)
  have bnd: "0 < p" "0 < v" "p + tot < 9223372036854775808" "v + tot < 4294967296"
    using mmz(1) mc' ret(1) unfolding mmz_sound_def by blast+
  have c4: "4 * c + 15 < 4294967296" "16 * (c * k) + 15 < 4294967296" using sm k ck f(2) by linarith+
  have q: "p + (16 * k + rpn + tmp) + roi + score < 9223372036854775808" "v + (16 * k + rpn + tmp) + roi + score < 4294967296"
    "0 \<le> 16 * k + rpn + tmp"
    using bnd k ck f(2) le unfolding tot_def by linarith+
  note room = ck(1) c4(2) k(2) c4(1) defs(3,4) less_imp_le [OF bnd(1)] q(3,1) less_imp_le [OF bnd(2)] q(2)
  have outs: "out_exts b_phy s' = [(p + (16 * k + rpn + tmp), roi), (p + (16 * k + rpn + tmp) + roi, score), (p + (16 * k + rpn + tmp) + roi + score, num)]"
    "out_exts b_vir s' = [(v + (16 * k + rpn + tmp), roi), (v + (16 * k + rpn + tmp) + roi, score), (v + (16 * k + rpn + tmp) + roi + score, num)]"
    unfolding ret(2) defs(5)
    by (rule out_exts_set_results [OF room])+
  have u: "u64 (p + rpn) = p + rpn" "u64 (v + rpn) = v + rpn" "u64 (p + 16 * k + rpn) = p + 16 * k + rpn" "u32 (v + 16 * k + rpn) = v + 16 * k + rpn"
    using bnd [unfolded tot_def] k ck f(2) le by - ((rule u64_id u32_small; linarith)+)
  have keep: "fr_rpn_tmp s' = fr_rpn_tmp s1" "fr_rpn_bbox s' = fr_rpn_bbox s1" "so_tmp s' = so_tmp s1"
    by (simp_all add: ret(2) set_results_def)
  have ext: "rcnn_exts m_phy b_phy s' = (p, rpn) # (p + rpn, 16 * k) # (p + 16 * k + rpn, tmp) # out_exts b_phy s'"
    "rcnn_exts m_vir b_vir s' = (v, rpn) # (v + rpn, 16 * k) # (v + 16 * k + rpn, tmp) # out_exts b_vir s'"
    using bbox(2) by (simp_all add: rcnn_exts_def keep s1_def mem_ext_def blob_ext_def u)
  have "fits p (rcnn_exts m_phy b_phy s') (p + tot)" "fits v (rcnn_exts m_vir b_vir s') (v + tot)"
    unfolding ext outs fits.simps tot_def using k ck f(2) le by (intro conjI; linarith)+
  moreover have "live tr' = Some ((p, v, tot) # bs)" using mmz(2) mc' ret(1,3) by (simp add: live_append)
  moreover have "rcnn_sized t k s'"
    using A [of "16 * (c * k)"] A [of "4 * (c * k)"] sm k ck f(2) bb
    by (simp add: rcnn_sized_def ret(2) s1_def set_results_def result_blob_def r_def [symmetric] c_def [symmetric]
        t0_def [symmetric] defs(1,2) rpn_bbox_blob_def ALIGN16_16 ac_simps)
  ultimately show ?thesis by (auto simp: ret(2) s1_def set_results_def)
qed

section \<open>The layout after initialisation\<close>

text \<open>The search for the report nodes changes the shapes of the convolutions only.\<close>

definition same_stage :: "rpn_cfg \<Rightarrow> rpn_cfg \<Rightarrow> bool" where
  "same_stage r r' \<longleftrightarrow> u32MaxRois r' = u32MaxRois r \<and> au32Ratios r' = au32Ratios r \<and> au32Scales r' = au32Scales r \<and>
     u32OriImWidth r' = u32OriImWidth r \<and> u32OriImHeight r' = u32OriImHeight r \<and> u32MinSize r' = u32MinSize r \<and>
     u32NmsThresh r' = u32NmsThresh r \<and> u32FilterThresh r' = u32FilterThresh r \<and> u32SpatialScale r' = u32SpatialScale r"

lemma report_nodes_same:
  "report_nodes pm s = (ret, s') \<Longrightarrow> same_stage (fr_rpn s) (fr_rpn s') \<and> fr_conf s' = fr_conf s \<and>
     fr_valid_nms s' = fr_valid_nms s \<and> fr_rpn_bbox s' = fr_rpn_bbox s"
  by (auto simp: report_nodes_def report_node_def same_stage_def Let_def split: prod.splits if_splits)

lemma quant_values:
  "quant 0.7 = 2867" "quant 0.3 = 1228" "quant 0.0625 = 256" "quant 0.5 = 2048" "quant (1 / 16) = 256"
  by (simp_all add: quant_def floor_eq_iff)

text \<open>What the three networks have in common when they are initialised for \<open>k\<close> regions.\<close>

definition rcnn_ready :: "int \<Rightarrow> nnie_param \<Rightarrow> rcnn_soft \<Rightarrow> bool" where
  "rcnn_ready k pm s \<longleftrightarrow> int (u32MaxRois (fr_rpn s)) = k \<and> u32OriImWidth (fr_rpn s) = b_width (first_src pm) \<and>
     u32OriImHeight (fr_rpn s) = b_height (first_src pm) \<and> u32MinSize (fr_rpn s) = 16 \<and>
     u32NmsThresh (fr_rpn s) = 2867 \<and> u32FilterThresh (fr_rpn s) = 0 \<and> u32SpatialScale (fr_rpn s) = 256 \<and> fr_valid_nms s = 1228 \<and>
     0 < length (au32Ratios (fr_rpn s)) \<and> 0 < length (au32Scales (fr_rpn s)) \<and> 0 < length (fr_conf s)"

text \<open>The buffers and result blobs lie in one new block, one behind the other.\<close>

definition laid_out :: "mmz_trace \<Rightarrow> (int \<times> int \<times> int) list \<Rightarrow> (int \<times> int) list \<Rightarrow> (int \<times> int) list \<Rightarrow> bool" where
  "laid_out tr bs phy vir \<longleftrightarrow> (\<exists>p v n. live tr = Some ((p, v, n) # bs) \<and> fits p phy (p + n) \<and> fits v vir (v + n))"

lemma nodes_alloc_ready:
  assumes n: "report_nodes pm s0 = (ret, s1)" and s0: "rcnn_ready k pm s0"
    and g: "s2 = s1\<lparr>fr_rpn_bbox := rpn_bbox_blob k b0\<rparr>"
    and al: "rcnn_alloc mmz f k s2 tr = (0, s', tr')" and mmz: "mmz_sound mmz" "live tr = Some bs"
    and f: "\<And>c. f k c = u32 (4 * k * c + e * k)" "0 \<le> e"
    and small: "rcnn_bytes (4 * k * int (length (fr_conf s')) + e * k) k s' < 4294967296"
  shows "laid_out tr' bs (rcnn_exts m_phy b_phy s') (rcnn_exts m_vir b_vir s') \<and> rcnn_ready k pm s' \<and>
    length (fr_conf s') = length (fr_conf s0) \<and> rcnn_sized (4 * k * int (length (fr_conf s')) + e * k) k s'"
proof -
  note S = report_nodes_same [OF n]
  have rd: "rcnn_ready k pm s2" using S s0 by (simp add: rcnn_ready_def same_stage_def g)
  have k: "0 \<le> k" using s0 by (simp add: rcnn_ready_def)
  have keep: "fr_rpn s' = fr_rpn s2" "fr_conf s' = fr_conf s2"
    using al by (auto simp: rcnn_alloc_def Let_def set_results_def split: prod.splits if_splits)
  have b: "rcnn_bytes (4 * k * int (length (fr_conf s2)) + e * k) k s2 < 4294967296"
    using small by (simp add: rcnn_bytes_def keep)
  have t: "0 \<le> 4 * k * int (length (fr_conf s2)) + e * k" using k f(2) by simp
  have bb: "fr_rpn_bbox s2 = rpn_bbox_blob k b0" and m: "int (u32MaxRois (fr_rpn s2)) = k"
    using rd by (simp_all add: g rcnn_ready_def)
  from rcnn_alloc_layout [OF al mmz bb m f(1) t b]
  have "laid_out tr' bs (rcnn_exts m_phy b_phy s') (rcnn_exts m_vir b_vir s') \<and> fr_valid_nms s' = fr_valid_nms s2 \<and>
      rcnn_sized (4 * k * int (length (fr_conf s2)) + e * k) k s'"
    unfolding laid_out_def by blast
  then show ?thesis using rd S keep by (simp add: rcnn_ready_def g)
qed

lemma bbox_update_same: "fr_rpn_bbox s = b \<Longrightarrow> s = s\<lparr>fr_rpn_bbox := b\<rparr>"
  by simp

lemma FasterRcnn_SoftwareInit_ready:
  assumes i: "FasterRcnn_SoftwareInit mmz vgg cfg pm s tr = (0, s', tr')" and mmz: "mmz_sound mmz" "live tr = Some bs"
    and k: "0 \<le> cf_max_roi cfg"
    and small: "rcnn_bytes (4 * cf_max_roi cfg * int (length (fr_conf s')) + 32 * cf_max_roi cfg) (cf_max_roi cfg) s' < 4294967296"
  shows "laid_out tr' bs (rcnn_exts m_phy b_phy s') (rcnn_exts m_vir b_vir s') \<and> rcnn_ready (cf_max_roi cfg) pm s' \<and>
    length (fr_conf s') = (if vgg then 4 else 2) \<and>
    rcnn_sized (4 * cf_max_roi cfg * int (length (fr_conf s')) + 32 * cf_max_roi cfg) (cf_max_roi cfg) s'"
proof -
  obtain s0 s1 ret where n: "report_nodes pm s0 = (ret, s1)"
    and s0: "rcnn_ready (cf_max_roi cfg) pm s0" "fr_rpn_bbox s0 = rpn_bbox_blob (cf_max_roi cfg) (fr_rpn_bbox s)"
      "length (fr_conf s0) = (if vgg then 4 else 2)"
    and al: "rcnn_alloc mmz FasterRcnn_GetResultTmpBufSize (cf_max_roi cfg) s1 tr = (0, s', tr')"
    using i k unfolding FasterRcnn_SoftwareInit_def Let_def
    by (auto simp: rcnn_ready_def quant_values split: prod.splits if_splits)
  have "s1 = s1\<lparr>fr_rpn_bbox := rpn_bbox_blob (cf_max_roi cfg) (fr_rpn_bbox s)\<rparr>"
    using report_nodes_same [OF n] s0(2) by (intro bbox_update_same) simp
  from nodes_alloc_ready [OF n s0(1) this al mmz GetResultTmpBufSize_eq(1) zero_le_numeral small] show ?thesis unfolding s0(3) .
qed

lemma Pvanet_SoftwareInit_ready:
  assumes i: "Pvanet_SoftwareInit mmz cfg pm s tr = (0, s', tr')" and mmz: "mmz_sound mmz" "live tr = Some bs"
    and k: "cf_max_roi cfg = 200"
    and small: "rcnn_bytes (4 * cf_max_roi cfg * int (length (fr_conf s')) + 32 * cf_max_roi cfg) (cf_max_roi cfg) s' < 4294967296"
  shows "laid_out tr' bs (rcnn_exts m_phy b_phy s') (rcnn_exts m_vir b_vir s') \<and> rcnn_ready (cf_max_roi cfg) pm s' \<and>
    length (fr_conf s') = 21 \<and>
    rcnn_sized (4 * cf_max_roi cfg * int (length (fr_conf s')) + 32 * cf_max_roi cfg) (cf_max_roi cfg) s'"
proof -
  obtain s0 s1 ret where n: "report_nodes pm s0 = (ret, s1)"
    and s0: "rcnn_ready (cf_max_roi cfg) pm s0" "fr_rpn_bbox s0 = rpn_bbox_blob (cf_max_roi cfg) (fr_rpn_bbox s)"
      "length (fr_conf s0) = 21"
    and al: "rcnn_alloc mmz Pvanet_GetResultTmpBufSize (cf_max_roi cfg) s1 tr = (0, s', tr')"
    using i k unfolding Pvanet_SoftwareInit_def Let_def
    by (auto simp: rcnn_ready_def quant_values split: prod.splits if_splits)
  have "s1 = s1\<lparr>fr_rpn_bbox := rpn_bbox_blob (cf_max_roi cfg) (fr_rpn_bbox s)\<rparr>"
    using report_nodes_same [OF n] s0(2) by (intro bbox_update_same) simp
  from nodes_alloc_ready [OF n s0(1) this al mmz GetResultTmpBufSize_eq(2) zero_le_numeral small] show ?thesis unfolding s0(3) .
qed

lemma Rfcn_SoftwareInit_ready:
  assumes i: "Rfcn_SoftwareInit mmz cfg pm s tr = (0, s', tr')" and mmz: "mmz_sound mmz" "live tr = Some bs"
    and k: "0 \<le> cf_max_roi cfg"
    and small: "rcnn_bytes (4 * cf_max_roi cfg * int (length (fr_conf s')) + 48 * cf_max_roi cfg) (cf_max_roi cfg) s' < 4294967296"
  shows "laid_out tr' bs (rcnn_exts m_phy b_phy s') (rcnn_exts m_vir b_vir s') \<and> rcnn_ready (cf_max_roi cfg) pm s' \<and>
    length (fr_conf s') = 21 \<and>
    rcnn_sized (4 * cf_max_roi cfg * int (length (fr_conf s')) + 48 * cf_max_roi cfg) (cf_max_roi cfg) s'"
proof -
  obtain s0 s1 ret where n: "report_nodes pm s0 = (ret, s1)" and s0: "rcnn_ready (cf_max_roi cfg) pm s0" "length (fr_conf s0) = 21"
    and al: "rcnn_alloc mmz Rfcn_GetResultTmpBuf (cf_max_roi cfg)
       (s1\<lparr>fr_rpn_bbox := rpn_bbox_blob (cf_max_roi cfg) (fr_rpn_bbox s1)\<rparr>) tr = (0, s', tr')"
    using i k unfolding Rfcn_SoftwareInit_def Let_def
    by (auto simp: rcnn_ready_def quant_values split: prod.splits if_splits)
  from nodes_alloc_ready [OF n s0(1) refl al mmz GetResultTmpBufSize_eq(3) zero_le_numeral small] show ?thesis unfolding s0(2) .
qed

section \<open>The stages run inside their buffers\<close>

text \<open>
  The parts of the two assist buffers, in bytes, as the functions cut them; the stack of the sort
  comes last and gets what is left. \<open>box\<close> is 4 in R-FCN, which copies the deltas, and 0 elsewhere.
\<close>

definition rpn_stack_at :: "rpn_cfg \<Rightarrow> nat" where
  "rpn_stack_at cfg =
     (let n = NumAnchors cfg; ratios = length (au32Ratios cfg); scales = length (au32Scales cfg)
      in 4 * (4 * n + 4 * n + 6 * n + ratios * 4 + scales * ratios * 4 + n * 2))"

definition class_stack_at :: "nat \<Rightarrow> nat \<Rightarrow> nat \<Rightarrow> nat" where
  "class_stack_at box max_roi classes = 4 * (max_roi * classes + max_roi * box + max_roi * 6)"

definition stack_slots :: "int \<Rightarrow> nat \<Rightarrow> nat" where
  "stack_slots sz start = nat ((sz - int start) div 8)"

lemma stack_slots_ge: "int start + 8 * int n \<le> sz \<Longrightarrow> n \<le> stack_slots sz start"
  unfolding stack_slots_def by linarith

text \<open>
  The wrapper of the proposal stage hands over the parameters and notes the number of regions as
  the height of the blob.
\<close>

definition rcnn_Rpn :: "rcnn_soft \<Rightarrow> (nat \<Rightarrow> int) \<Rightarrow> (nat \<Rightarrow> int) \<Rightarrow> int list \<Rightarrow> cfloat list \<Rightarrow> (rcnn_soft \<times> ibox list) option" where
  "rcnn_Rpn s src0 src1 delta0 score0 =
     map_option (\<lambda>rois. (s\<lparr>fr_rpn_bbox := (fr_rpn_bbox s)\<lparr>b_height := int (length rois)\<rparr>\<rparr>, rois))
       (Rpn (stack_slots (m_size (fr_rpn_tmp s)) (rpn_stack_at (fr_rpn s))) (fr_rpn s) src0 src1 delta0 score0)"

definition class_cfg :: "rcnn_soft \<Rightarrow> nat \<Rightarrow> nat \<Rightarrow> rcnn_cfg" where
  "class_cfg s bbox_stride score_stride =
     \<lparr>rc_conf = fr_conf s, rc_nms = fr_valid_nms s, rc_width = u32OriImWidth (fr_rpn s),
      rc_height = u32OriImHeight (fr_rpn s), rc_bbox_stride = bbox_stride, rc_score_stride = score_stride\<rparr>"

definition class_slots :: "nat \<Rightarrow> rcnn_soft \<Rightarrow> nat" where
  "class_slots box s = stack_slots (m_size (so_tmp s)) (class_stack_at box (u32MaxRois (fr_rpn s)) (length (fr_conf s)))"

text \<open>
  One frame: the proposals, then the network's second part on them (\<open>net\<close>: from the regions to the
  blobs of deltas and scores, and their strides), then the classes.
\<close>

type_synonym second_net = "ibox list \<Rightarrow> (nat \<Rightarrow> int) \<times> (nat \<Rightarrow> int) \<times> nat \<times> nat"

definition FasterRcnn_frame :: "second_net \<Rightarrow> rcnn_soft \<Rightarrow> (nat \<Rightarrow> int) \<Rightarrow> (nat \<Rightarrow> int) \<Rightarrow> int list \<Rightarrow> cfloat list \<Rightarrow> det list
    \<Rightarrow> (nat list \<times> det list) option" where
  "FasterRcnn_frame net s src0 src1 delta0 score0 dst =
     (case rcnn_Rpn s src0 src1 delta0 score0 of
        None \<Rightarrow> None
      | Some (s1, rois) \<Rightarrow>
          let (fcbbox, fcscore, bs, ss) = net rois
          in NNIE_FasterRcnn_GetResult (class_slots 0 s1) (class_cfg s1 bs ss) fcbbox fcscore rois dst)"

definition Rfcn_frame :: "second_net \<Rightarrow> rcnn_soft \<Rightarrow> (nat \<Rightarrow> int) \<Rightarrow> (nat \<Rightarrow> int) \<Rightarrow> int list \<Rightarrow> cfloat list \<Rightarrow> det list
    \<Rightarrow> (nat list \<times> det list) option" where
  "Rfcn_frame net s src0 src1 delta0 score0 dst =
     (case rcnn_Rpn s src0 src1 delta0 score0 of
        None \<Rightarrow> None
      | Some (s1, rois) \<Rightarrow>
          let (fcbbox, fcscore, bs, ss) = net rois
          in NNIE_Rfcn_GetResult (class_slots 4 s1) (class_cfg s1 bs ss) fcscore fcbbox rois dst)"

lemma class_slots_enough:
  assumes "rcnn_sized (4 * k * int (length (fr_conf s)) + e * k) k s" "rcnn_ready k pm s" "e = 32 + 4 * int box"
  shows "u32MaxRois (fr_rpn s) \<le> class_slots box s"
proof -
  let ?c = "int (length (fr_conf s))"
  have k: "int (u32MaxRois (fr_rpn s)) = k" using assms(2) by (simp add: rcnn_ready_def)
  have "int (class_stack_at box (u32MaxRois (fr_rpn s)) (length (fr_conf s))) + 8 * int (u32MaxRois (fr_rpn s)) = 4 * k * ?c + e * k"
    unfolding class_stack_at_def assms(3) by (simp add: k algebra_simps)
  also have "\<dots> \<le> m_size (so_tmp s)" using assms(1) up16_bounds(1) by (simp add: rcnn_sized_def)
  finally show ?thesis unfolding class_slots_def by (rule stack_slots_ge)
qed

lemma rpn_slots_enough:
  assumes "rcnn_sized t k s"
  shows "NumAnchors (fr_rpn s) \<le> stack_slots (m_size (fr_rpn_tmp s)) (rpn_stack_at (fr_rpn s))"
proof (rule stack_slots_ge)
  have "int (rpn_stack_at (fr_rpn s)) + 8 * int (NumAnchors (fr_rpn s)) =
      rpn_tmp_bytes (int (length (au32Ratios (fr_rpn s)))) (int (length (au32Scales (fr_rpn s))))
       (int (conv0_height (fr_rpn s))) (int (conv0_width (fr_rpn s)))"
    by (simp add: rpn_stack_at_def Let_def rpn_tmp_bytes_def NumAnchors_def algebra_simps)
  also have "\<dots> \<le> m_size (fr_rpn_tmp s)" using assms up16_bounds(1) by (simp add: rcnn_sized_def)
  finally show "int (rpn_stack_at (fr_rpn s)) + 8 * int (NumAnchors (fr_rpn s)) \<le> m_size (fr_rpn_tmp s)" .
qed

text \<open>The image, its border included, must be small enough for the 32-bit products of the suppression.\<close>

definition image_fits :: "nnie_param \<Rightarrow> bool" where
  "image_fits pm \<longleftrightarrow> 0 < b_width (first_src pm) \<and> 0 < b_height (first_src pm) \<and>
     (b_width (first_src pm) + 1) * (b_height (first_src pm) + 1) < 524288"

lemma rcnn_ready_ok:
  assumes "rcnn_ready k pm s" "image_fits pm" "0 < k"
  shows "cfg_ok (fr_rpn s)" "rcnn_ok (class_cfg s bs ss)"
proof -
  let ?w = "b_width (first_src pm)" and ?h = "b_height (first_src pm)"
  have "?w * ?h \<le> (?w + 1) * (?h + 1)" using assms(2) by (intro mult_mono) (simp_all add: image_fits_def)
  then show "cfg_ok (fr_rpn s)" "rcnn_ok (class_cfg s bs ss)"
    using assms by (auto simp: rcnn_ready_def image_fits_def cfg_ok_def rcnn_ok_def class_cfg_def)
qed

lemma rcnn_Rpn_ok:
  assumes rd: "rcnn_ready k pm s" "image_fits pm" "0 < k" and sz: "rcnn_sized t k s"
    and n: "0 < NumAnchors (fr_rpn s)" "NumAnchors (fr_rpn s) < 2147483648"
    and m: "blobs_match (fr_rpn s)" "rpn_areas (fr_rpn s) delta0 score0"
  shows "\<exists>rois. rcnn_Rpn s src0 src1 delta0 score0 = Some (s\<lparr>fr_rpn_bbox := (fr_rpn_bbox s)\<lparr>b_height := int (length rois)\<rparr>\<rparr>, rois) \<and>
    length rois \<le> u32MaxRois (fr_rpn s) \<and> (\<forall>r \<in> set (map unscale_roi rois). valid_roi r)"
proof -
  have ok: "cfg_ok (fr_rpn s)" by (rule rcnn_ready_ok(1) [OF rd])
  let ?cap = "stack_slots (m_size (fr_rpn_tmp s)) (rpn_stack_at (fr_rpn s))"
  have room: "sort_room ?cap (NumAnchors (fr_rpn s))"
    using rpn_slots_enough [OF sz] n by (simp add: sort_room_def)
  from Rpn_regions [OF ok m room, of src0 src1] obtain ps where
    ps: "Rpn ?cap (fr_rpn s) src0 src1 delta0 score0 = Some (map (\<lambda>p. \<lparr>b_x1 = p_xmin p * 4096, b_y1 = p_ymin p * 4096,
        b_x2 = p_xmax p * 4096, b_y2 = p_ymax p * 4096\<rparr>) ps)"
      "length ps \<le> u32MaxRois (fr_rpn s)"
      "\<forall>p \<in> set ps. p_in (u32OriImWidth (fr_rpn s)) (u32OriImHeight (fr_rpn s)) p \<and>
         u32MinSize (fr_rpn s) \<le> p_xmax p - p_xmin p + 1 \<and> u32MinSize (fr_rpn s) \<le> p_ymax p - p_ymin p + 1"
    by blast
  have "valid_roi (unscale_roi \<lparr>b_x1 = p_xmin p * 4096, b_y1 = p_ymin p * 4096, b_x2 = p_xmax p * 4096, b_y2 = p_ymax p * 4096\<rparr>)"
    if "p \<in> set ps" for p
  proof -
    have "p_in (u32OriImWidth (fr_rpn s)) (u32OriImHeight (fr_rpn s)) p" "16 \<le> p_xmax p - p_xmin p + 1" "16 \<le> p_ymax p - p_ymin p + 1"
      using ps(3) that rd(1) by (auto simp: rcnn_ready_def)
    then show ?thesis using cfg_sides [OF ok] by (simp add: valid_roi_def unscale_roi_def c_div_pos p_in_def box_in_def)
  qed
  then show ?thesis using ps(1,2) by (auto simp: rcnn_Rpn_def)
qed

lemma frame_classes:
  assumes rd: "rcnn_ready k pm s" "image_fits pm" "0 < k" and sz: "rcnn_sized (4 * k * int (length (fr_conf s)) + e * k) k s"
    and e: "e = 32 + 4 * int box"
    and small: "rcnn_bytes t k s < 4294967296" "0 \<le> t" and n: "0 < NumAnchors (fr_rpn s)"
    and m: "blobs_match (fr_rpn s)" "rpn_areas (fr_rpn s) delta0 score0"
    and dst: "b_stride (so_score s) \<le> 4 * int (length dst)"
  obtains rois where
    "rcnn_Rpn s src0 src1 delta0 score0 = Some (s\<lparr>fr_rpn_bbox := (fr_rpn_bbox s)\<lparr>b_height := int (length rois)\<rparr>\<rparr>, rois)"
    "sort_room (class_slots box s) (length (map unscale_roi rois))"
    "\<forall>r \<in> set (map unscale_roi rois). valid_roi r" "length (fr_conf s) * length (map unscale_roi rois) \<le> length dst"
proof -
  let ?c = "length (fr_conf s)"
  have A: "72 * int (NumAnchors (fr_rpn s)) + 16 * k < 4294967296"
  proof -
    let ?R = "int (length (au32Ratios (fr_rpn s)))" and ?S = "int (length (au32Scales (fr_rpn s)))"
    have "0 \<le> int ?c * k" "0 \<le> ?R * ?S" using rd(3) by simp_all
    moreover have "rpn_tmp_bytes ?R ?S (int (conv0_height (fr_rpn s))) (int (conv0_width (fr_rpn s))) =
        72 * int (NumAnchors (fr_rpn s)) + 16 * ?R + 16 * (?R * ?S)"
      by (simp add: rpn_tmp_bytes_def NumAnchors_def mult.assoc)
    ultimately show ?thesis using small unfolding rcnn_bytes_def Let_def by linarith
  qed
  then have A': "NumAnchors (fr_rpn s) < 2147483648" using rd(3) by linarith
  obtain rois where r: "rcnn_Rpn s src0 src1 delta0 score0 = Some (s\<lparr>fr_rpn_bbox := (fr_rpn_bbox s)\<lparr>b_height := int (length rois)\<rparr>\<rparr>, rois)"
    "length rois \<le> u32MaxRois (fr_rpn s)" "\<forall>r \<in> set (map unscale_roi rois). valid_roi r"
    using rcnn_Rpn_ok [OF rd sz n A' m] by blast
  have k: "int (u32MaxRois (fr_rpn s)) = k" using rd(1) by (simp add: rcnn_ready_def)
  have slots: "u32MaxRois (fr_rpn s) \<le> class_slots box s" by (rule class_slots_enough [OF sz rd(1) e])
  have "int ?c * int (length rois) \<le> int ?c * k" using r(2) k by (intro mult_left_mono) simp_all
  moreover have "4 * (int ?c * k) \<le> b_stride (so_score s)" using sz up16_bounds(1) by (simp add: rcnn_sized_def)
  ultimately have "int (?c * length rois) \<le> int (length dst)" using dst unfolding of_nat_mult by linarith
  then have "?c * length rois \<le> length dst" by (simp only: of_nat_le_iff)
  moreover have "sort_room (class_slots box s) (length rois)"
    using slots r(2) k A rd(3) by (simp add: sort_room_def)
  ultimately show thesis
    using r by (intro that [of rois]) simp_all
qed

lemma class_slots_upd [simp]: "class_slots box (s\<lparr>fr_rpn_bbox := b\<rparr>) = class_slots box s"
  by (simp add: class_slots_def)

lemma class_cfg_upd [simp]: "class_cfg (s\<lparr>fr_rpn_bbox := b\<rparr>) bs ss = class_cfg s bs ss"
  by (simp add: class_cfg_def)

lemma class_ok_strides: "class_ok (class_cfg s bs ss) = class_ok (class_cfg s 0 0)"
  by (simp add: fun_eq_iff class_ok_def class_cfg_def)

lemma FasterRcnn_frame_inside:
  assumes "rcnn_ready k pm s" "image_fits pm" "0 < k" "rcnn_sized (4 * k * int (length (fr_conf s)) + 32 * k) k s"
    and "rcnn_bytes t k s < 4294967296" "0 \<le> t" "0 < NumAnchors (fr_rpn s)"
    and "blobs_match (fr_rpn s)" "rpn_areas (fr_rpn s) delta0 score0" "b_stride (so_score s) \<le> 4 * int (length dst)"
  shows "\<exists>Ks. FasterRcnn_frame net s src0 src1 delta0 score0 dst =
      Some (map length Ks, map det_of (concat Ks) @ drop (length (concat Ks)) dst) \<and>
    list_all2 (class_ok (class_cfg s 0 0)) (fr_conf s) Ks"
proof -
  have e: "32 = 32 + 4 * int 0" by simp
  from frame_classes [OF assms(1-4) e assms(5-10), of src0 src1] obtain rois where
    r: "rcnn_Rpn s src0 src1 delta0 score0 = Some (s\<lparr>fr_rpn_bbox := (fr_rpn_bbox s)\<lparr>b_height := int (length rois)\<rparr>\<rparr>, rois)"
    and c: "sort_room (class_slots 0 s) (length (map unscale_roi rois))" "\<forall>r \<in> set (map unscale_roi rois). valid_roi r"
      "length (fr_conf s) * length (map unscale_roi rois) \<le> length dst" .
  obtain fb fs bs ss where net: "net rois = (fb, fs, bs, ss)" by (metis surj_pair)
  have conf: "rc_conf (class_cfg s bs ss) = fr_conf s" by (simp add: class_cfg_def)
  have f: "FasterRcnn_frame net s src0 src1 delta0 score0 dst =
      FasterRcnn_GetResult (class_slots 0 s) (class_cfg s bs ss) fb fs (map unscale_roi rois) dst"
    by (simp add: FasterRcnn_frame_def r net NNIE_FasterRcnn_GetResult_def)
  from rcnn_classes [OF rcnn_ready_ok(2) [OF assms(1-3)] c(1,2), of bs ss dst fb fs, unfolded conf, OF c(3)]
  show ?thesis unfolding f class_ok_strides [of s bs ss] by blast
qed

lemma Rfcn_frame_inside:
  assumes "rcnn_ready k pm s" "image_fits pm" "0 < k" "rcnn_sized (4 * k * int (length (fr_conf s)) + 48 * k) k s"
    and "rcnn_bytes t k s < 4294967296" "0 \<le> t" "0 < NumAnchors (fr_rpn s)"
    and "blobs_match (fr_rpn s)" "rpn_areas (fr_rpn s) delta0 score0" "b_stride (so_score s) \<le> 4 * int (length dst)"
  shows "\<exists>Ks. Rfcn_frame net s src0 src1 delta0 score0 dst =
      Some (map length Ks, map det_of (concat Ks) @ drop (length (concat Ks)) dst) \<and>
    list_all2 (class_ok (class_cfg s 0 0)) (fr_conf s) Ks"
proof -
  have e: "48 = 32 + 4 * int 4" by simp
  from frame_classes [OF assms(1-4) e assms(5-10), of src0 src1] obtain rois where
    r: "rcnn_Rpn s src0 src1 delta0 score0 = Some (s\<lparr>fr_rpn_bbox := (fr_rpn_bbox s)\<lparr>b_height := int (length rois)\<rparr>\<rparr>, rois)"
    and c: "sort_room (class_slots 4 s) (length (map unscale_roi rois))" "\<forall>r \<in> set (map unscale_roi rois). valid_roi r"
      "length (fr_conf s) * length (map unscale_roi rois) \<le> length dst" .
  obtain fb fs bs ss where net: "net rois = (fb, fs, bs, ss)" by (metis surj_pair)
  have conf: "rc_conf (class_cfg s bs ss) = fr_conf s" by (simp add: class_cfg_def)
  have f: "Rfcn_frame net s src0 src1 delta0 score0 dst =
      Rfcn_GetResult (class_slots 4 s) (class_cfg s bs ss) fs fb (map unscale_roi rois) dst"
    by (simp add: Rfcn_frame_def r net NNIE_Rfcn_GetResult_def)
  from rfcn_classes [OF rcnn_ready_ok(2) [OF assms(1-3)] c(1,2), of bs ss dst fs fb, unfolded conf, OF c(3)]
  show ?thesis unfolding f class_ok_strides [of s bs ss] by blast
qed

section \<open>A small network with proposals\<close>

definition rpn_node :: "string \<Rightarrow> int \<Rightarrow> nnie_node" where
  "rpn_node nm chn = \<lparr>n_name = nm, n_type = BLOB_S32, n_width = 3, n_height = 2, n_chn = chn\<rparr>"

definition rpn_model :: nnie_model where
  "rpn_model = \<lparr>md_tmp_size = 64,
     md_segs = [\<lparr>sg_type = NET_CNN, sg_src = [\<lparr>n_name = ''data'', n_type = BLOB_U8, n_width = 400, n_height = 300, n_chn = 3\<rparr>],
                sg_dst = [rpn_node ''cls'' 18, rpn_node ''box'' 36]\<rparr>]\<rparr>"

definition rpn_param :: nnie_param where
  "rpn_param = small_param\<lparr>pm_model := rpn_model,
     pm_data := [\<lparr>sd_src = [no_blob\<lparr>b_width := 400, b_height := 300\<rparr>],
                  sd_dst = [no_blob\<lparr>b_stride := 16, b_vir := 1000\<rparr>, no_blob\<lparr>b_stride := 16, b_vir := 2000\<rparr>]\<rparr>]\<rparr>"

definition rois10 :: nnie_cfg where
  "rois10 = \<lparr>cf_max_input = 1, cf_max_roi = 10, cf_step_addr = [0, 0], cf_core = [0]\<rparr>"

definition no_rpn :: rpn_cfg where
  "no_rpn = \<lparr>au32Ratios = [], au32Scales = [], u32OriImHeight = 0, u32OriImWidth = 0, conv0_height = 0, conv0_width = 0,
     conv1_height = 0, conv1_width = 0, conv1_channel = 0, u32ConvStride = 0, u32MaxRois = 0, u32MinSize = 0,
     u32SpatialScale = 0, u32NmsThresh = 0, u32FilterThresh = 0, u32NumBeforeNms = 0\<rparr>"

definition no_rcnn :: rcnn_soft where
  "no_rcnn = \<lparr>so_tmp = no_mem, so_roi = no_blob, so_score = no_blob, so_num = no_blob,
     fr_names = [''cls'', ''box''], fr_conv = [0, 0], fr_rpn = no_rpn, fr_conf = [], fr_valid_nms = 0,
     fr_rpn_tmp = no_mem, fr_rpn_bbox = no_blob\<rparr>"

definition rpn_shape :: "rcnn_soft \<Rightarrow> nat list" where
  "rpn_shape s = [length (au32Ratios (fr_rpn s)), length (au32Scales (fr_rpn s)), conv0_height (fr_rpn s), conv0_width (fr_rpn s), length (fr_conf s),
     conv1_height (fr_rpn s), conv1_width (fr_rpn s), conv1_channel (fr_rpn s)]"

definition ready_rpn :: rpn_cfg where
  "ready_rpn = no_rpn\<lparr>u32MaxRois := 10, au32Scales := [32768, 65536, 131072], au32Ratios := [2048, 4096, 8192],
     u32OriImHeight := 300, u32OriImWidth := 400, u32MinSize := 16, u32SpatialScale := 256, u32NmsThresh := 2867,
     u32FilterThresh := 0, u32NumBeforeNms := 6000\<rparr>"

definition ready_rcnn :: rcnn_soft where
  "ready_rcnn = no_rcnn\<lparr>fr_rpn := ready_rpn, fr_conf := replicate 4 1, fr_valid_nms := 1228, fr_rpn_bbox := rpn_bbox_blob 10 no_blob\<rparr>"

lemma small_frcnn:
  obtains s' tr' where "FasterRcnn_SoftwareInit bump_mmz True rois10 rpn_param no_rcnn [] = (0, s', tr')"
    "rpn_shape s' = [3, 3, 2, 3, 4, 2, 3, 36]" "b_stride (so_score s') = 160"
proof -
  let ?r = "\<lambda>(ret, s1). if ret \<noteq> 0 then (ret, s1, []) else rcnn_alloc bump_mmz FasterRcnn_GetResultTmpBufSize 10 s1 []"
  have k: "cf_max_roi rois10 = 10" by (simp add: rois10_def)
  have "FasterRcnn_SoftwareInit bump_mmz True rois10 rpn_param no_rcnn [] = ?r (report_nodes rpn_param ready_rcnn)"
    unfolding FasterRcnn_SoftwareInit_def Let_def if_True quant_values k
    by (simp add: ready_rcnn_def ready_rpn_def first_src_def rpn_param_def no_rcnn_def no_rpn_def)
  moreover have "(case ?r (report_nodes rpn_param ready_rcnn) of (r, s, tr) \<Rightarrow>
      r = 0 \<and> rpn_shape s = [3, 3, 2, 3, 4, 2, 3, 36] \<and> b_stride (so_score s) = 160)"
    by code_simp
  ultimately show thesis using that by (auto split: prod.splits)
qed

lemma small_frcnn_bytes: "rpn_shape s = [3, 3, 2, 3, 4, 2, 3, 36] \<Longrightarrow>
    rcnn_bytes (4 * 10 * int (length (fr_conf s)) + 32 * 10) 10 s < 4294967296 \<and> 0 < NumAnchors (fr_rpn s)"
  by (simp add: rpn_shape_def rcnn_bytes_def Let_def rpn_tmp_bytes_def NumAnchors_def)

lemma small_frcnn_blobs: "rpn_shape s = [3, 3, 2, 3, 4, 2, 3, 36] \<Longrightarrow>
    blobs_match (fr_rpn s) \<and> rpn_areas (fr_rpn s) (replicate 216 d) (replicate 108 f)"
  by (simp add: rpn_shape_def blobs_match_def rpn_areas_def AnchorsPerPixel_def NumAnchors_def)

text \<open>
  The software parameters of Faster R-CNN, PVANet and R-FCN are laid out without overlap. When
  the initialisation succeeds and the sizes do not wrap, one new block has been allocated, and in it
  lie, one behind the other, under both addresses: the assist buffer of the proposals, their blob,
  the assist buffer of the classes and the three result blobs, each with the size of its part. PVANet
  needs a configuration of 200 regions, the number it writes into its parameters.
\<close>

lemma rcnn_SoftwareInit_layout:
  assumes "(\<exists>vgg. init = FasterRcnn_SoftwareInit mmz vgg cfg) \<and> e = 32 \<or>
      init = Pvanet_SoftwareInit mmz cfg \<and> e = 32 \<and> cf_max_roi cfg = 200 \<or> init = Rfcn_SoftwareInit mmz cfg \<and> e = 48"
    and "init pm s tr = (0, s', tr')" and "mmz_sound mmz" "live tr = Some bs" and "0 \<le> cf_max_roi cfg"
    and "rcnn_bytes (4 * cf_max_roi cfg * int (length (fr_conf s')) + e * cf_max_roi cfg) (cf_max_roi cfg) s' < 4294967296"
  shows "laid_out tr' bs (rcnn_exts m_phy b_phy s') (rcnn_exts m_vir b_vir s') \<and>
    rcnn_sized (4 * cf_max_roi cfg * int (length (fr_conf s')) + e * cf_max_roi cfg) (cf_max_roi cfg) s'"
  using assms FasterRcnn_SoftwareInit_ready [of mmz _ cfg pm s tr s' tr' bs] Pvanet_SoftwareInit_ready [of mmz cfg pm s tr s' tr' bs]
    Rfcn_SoftwareInit_ready [of mmz cfg pm s tr s' tr' bs] by metis

lemma rcnn_SoftwareInit_layout_witness:
  "\<exists>s' tr'. FasterRcnn_SoftwareInit bump_mmz True rois10 rpn_param no_rcnn [] = (0, s', tr') \<and>
     laid_out tr' [] (rcnn_exts m_phy b_phy s') (rcnn_exts m_vir b_vir s')"
proof -
  obtain s' tr' where i: "FasterRcnn_SoftwareInit bump_mmz True rois10 rpn_param no_rcnn [] = (0, s', tr')"
    and sh: "rpn_shape s' = [3, 3, 2, 3, 4, 2, 3, 36]" by (rule small_frcnn)
  have "laid_out tr' [] (rcnn_exts m_phy b_phy s') (rcnn_exts m_vir b_vir s')"
    using rcnn_SoftwareInit_layout [of "FasterRcnn_SoftwareInit bump_mmz True rois10" bump_mmz rois10 32, OF _ i bump_mmz_sound]
      small_frcnn_bytes [OF sh] by (auto simp: live_def rois10_def)
  with i show ?thesis by blast
qed

text \<open>
  C16. A frame through Faster R-CNN: whatever the network computes, with the buffers of a successful
  initialisation, a score and a box blob of one feature map with four box channels per anchor (nothing in
  the code compares them, and \<open>rpn_transpose_leaves_area\<close> shows what happens otherwise) and the delta and
  score areas at their sizes, every store of the proposal stage's transposition stays in its area, the proposals
  and the classes stay inside their assist buffers (the sorting stacks
  included) and inside the result blobs, the regions handed from one stage to the other are ones the
  second can work with, and the results are, class by class, boxes inside the image (or on its
  border) that do not suppress one another. The image, its border included, must have less than 524288 pixels.
  What is read from the network's blobs is a function of the index and not bounded here.
\<close>

theorem FasterRcnn_frame_ok:
  assumes "FasterRcnn_SoftwareInit mmz vgg cfg pm s tr = (0, s', tr')" and "mmz_sound mmz" "live tr = Some bs"
    and "0 < cf_max_roi cfg" "image_fits pm" "0 < NumAnchors (fr_rpn s')"
    and "rcnn_bytes (4 * cf_max_roi cfg * int (length (fr_conf s')) + 32 * cf_max_roi cfg) (cf_max_roi cfg) s' < 4294967296"
    and "blobs_match (fr_rpn s')" "rpn_areas (fr_rpn s') delta0 score0" "b_stride (so_score s') \<le> 4 * int (length dst)"
  shows "\<exists>Ks. FasterRcnn_frame net s' src0 src1 delta0 score0 dst =
      Some (map length Ks, map det_of (concat Ks) @ drop (length (concat Ks)) dst) \<and>
    list_all2 (class_ok (class_cfg s' 0 0)) (fr_conf s') Ks"
proof -
  have "0 \<le> cf_max_roi cfg" using assms(4) by simp
  from FasterRcnn_SoftwareInit_ready [OF assms(1-3) this assms(7)]
  have "rcnn_ready (cf_max_roi cfg) pm s'"
    "rcnn_sized (4 * cf_max_roi cfg * int (length (fr_conf s')) + 32 * cf_max_roi cfg) (cf_max_roi cfg) s'" by blast+
  moreover have "0 \<le> 4 * cf_max_roi cfg * int (length (fr_conf s')) + 32 * cf_max_roi cfg" using assms(4) by simp
  ultimately show ?thesis using assms(4-10) by (intro FasterRcnn_frame_inside)
qed

theorem FasterRcnn_frame_ok_witness:
  "\<exists>s' tr' Ks. FasterRcnn_SoftwareInit bump_mmz True rois10 rpn_param no_rcnn [] = (0, s', tr') \<and>
     FasterRcnn_frame (\<lambda>_. (\<lambda>_. 0, \<lambda>_. 0, 16, 4)) s' (\<lambda>_. 0) (\<lambda>_. 0) (replicate 216 0) (replicate 108 (Fin 0))
         (replicate 40 \<lparr>d_score = 0, d_box = \<lparr>b_x1 = 0, b_y1 = 0, b_x2 = 0, b_y2 = 0\<rparr>\<rparr>) =
       Some (map length Ks, map det_of (concat Ks) @ drop (length (concat Ks)) (replicate 40 \<lparr>d_score = 0, d_box = \<lparr>b_x1 = 0, b_y1 = 0, b_x2 = 0, b_y2 = 0\<rparr>\<rparr>))"
proof -
  obtain s' tr' where i: "FasterRcnn_SoftwareInit bump_mmz True rois10 rpn_param no_rcnn [] = (0, s', tr')"
    and sh: "rpn_shape s' = [3, 3, 2, 3, 4, 2, 3, 36]" "b_stride (so_score s') = 160" by (rule small_frcnn)
  have "live [] = Some []" "0 < cf_max_roi rois10" "image_fits rpn_param"
    "rcnn_bytes (4 * cf_max_roi rois10 * int (length (fr_conf s')) + 32 * cf_max_roi rois10) (cf_max_roi rois10) s' < 4294967296"
    "b_stride (so_score s') \<le> 4 * int (length (replicate 40 \<lparr>d_score = 0, d_box = \<lparr>b_x1 = 0, b_y1 = 0, b_x2 = 0, b_y2 = 0\<rparr>\<rparr>))"
    using small_frcnn_bytes [OF sh(1)] sh(2) by (simp_all add: live_def rois10_def image_fits_def first_src_def rpn_param_def)
  from FasterRcnn_frame_ok [OF i bump_mmz_sound this(1-3) _ this(4) _ _ this(5)] i small_frcnn_bytes [OF sh(1)] small_frcnn_blobs [OF sh(1)]
  show ?thesis by blast
qed

text \<open>
  Whatever goes wrong on the way, the initialisation of Faster R-CNN, PVANet or R-FCN
  gives all memory back: it returns an error and every block it took is
  freed, the hardware parameters' too when only the software parameters failed; or it returns 0, holds
  one block for the hardware and one for the software parameters, and the deinitialisation frees both.
\<close>

lemma soft_ParamInit_releases:
  assumes "init = FasterRcnn_ParamInit mmz tsk steps vgg cfg \<or> init = Pvanet_ParamInit mmz tsk steps cfg \<or>
      init = Rfcn_ParamInit mmz tsk steps cfg"
    and "mmz_sound mmz" "live tr = Some bs" "m_phy (pm_task pm) = 0" "m_phy (pm_step pm) = 0"
    and "m_phy (fr_rpn_tmp s) = 0"
    and "init pm (Some s) tr = Some (ret, pm', s', tr')"
  shows "if ret = 0
    then (\<exists>new. live tr' = Some (new @ bs) \<and> length new = 2) \<and>
      (\<exists>r pm2 s2 md tr2. soft_Deinit rcnn_SoftwareDeinit (Some pm') s' None tr' = (r, pm2, s2, md, tr2) \<and> live tr2 = Some bs)
    else live tr' = Some bs"
proof -
  have null: "case Some s of None \<Rightarrow> True | Some x \<Rightarrow> fst (rcnn_handle x) = 0" using assms(6) by (simp add: rcnn_handle_def mem_handle_def)
  show ?thesis using assms(1,7)
      frcnn.soft_ParamInit_balanced [OF assms(2-5) null, of tsk steps cfg vgg cfg ret pm' s' tr']
      pvanet.soft_ParamInit_balanced [OF assms(2-5) null, of tsk steps cfg cfg ret pm' s' tr']
      rfcn.soft_ParamInit_balanced [OF assms(2-5) null, of tsk steps cfg cfg ret pm' s' tr']
    unfolding FasterRcnn_ParamInit_def Pvanet_ParamInit_def Rfcn_ParamInit_def by auto
qed

lemma rcnn_start: "(case FasterRcnn_ParamInit bump_mmz small_tsk (\<lambda>_ _. 0) True Nnie_Model.small_cfg small_param (Some no_rcnn) [] of
    None \<Rightarrow> False | Some (r, _, _, _) \<Rightarrow> r = -1)"
  by code_simp

lemma soft_ParamInit_releases_witness:
  "\<exists>pm' s' tr'. FasterRcnn_ParamInit bump_mmz small_tsk (\<lambda>_ _. 0) True Nnie_Model.small_cfg small_param (Some no_rcnn) [] =
     Some (-1, pm', s', tr') \<and> live tr' = Some []"
proof -
  obtain pm' s' tr' where r: "FasterRcnn_ParamInit bump_mmz small_tsk (\<lambda>_ _. 0) True Nnie_Model.small_cfg small_param (Some no_rcnn) [] =
      Some (-1, pm', s', tr')"
    using rcnn_start by (auto split: option.splits prod.splits)
  show ?thesis
    using soft_ParamInit_releases [where bs = "[]" and init = "FasterRcnn_ParamInit bump_mmz small_tsk (\<lambda>_ _. 0) True Nnie_Model.small_cfg", OF _ bump_mmz_sound _ _ _ _ r] r
    by (auto simp: live_def small_param_def no_mem_def no_rcnn_def)
qed

end
