(* ===== verification/Nnie_Ssd.thy ===== *)
theory Nnie_Ssd
  imports Nnie_Rcnn
begin

text \<open>
  The SSD post-processing (sample_svp_nnie_software.c): \<open>SVP_NNIE_Ssd_PriorBoxForward\<close>,
  \<open>SVP_NNIE_Ssd_SoftmaxForward\<close>, \<open>SVP_NNIE_Ssd_DetectionOutForward\<close> and the wrapper
  \<open>SAMPLE_SVP_NNIE_Ssd_GetResult\<close> that feeds one into the next.

  A blob of the network is a function from word indices to words. The output of the prior box
  stage is the list of the words it writes. The result arrays of scores and of boxes, filled in
  step, are one list of rows. The two row arrays of the assist memory lie behind each other;
  what the second one, \<open>ps32AfterTopK\<close>, holds on entry is a parameter, because the code can
  read it before writing it. \<open>None\<close> stands for an access beyond the modelled arrays, a sort
  that overruns its stack and a division by zero. The products of sizes do not wrap here.
\<close>

section \<open>Prior boxes\<close>

record prior_cfg =
  pb_width :: nat
  pb_height :: nat
  pb_im_width :: int
  pb_im_height :: int
  pb_min :: "nat \<Rightarrow> cfloat"
  pb_min_num :: nat
  pb_max :: "nat \<Rightarrow> cfloat"
  pb_max_num :: nat
  pb_flip :: bool
  pb_clip :: bool
  pb_ratio_num :: nat
  pb_ratio :: "nat \<Rightarrow> cfloat"
  pb_step_width :: cfloat
  pb_step_height :: cfloat
  pb_offset :: cfloat
  pb_var :: "nat \<Rightarrow> int"

definition aspect_ratios :: "prior_cfg \<Rightarrow> cfloat list" where
  "aspect_ratios cfg = Fin 1 # concat (map (\<lambda>i. pb_ratio cfg i #
     (if pb_flip cfg then [fdiv F32 (Fin 1) (pb_ratio cfg i)] else [])) [0..<pb_ratio_num cfg])"

definition NumPrior :: "prior_cfg \<Rightarrow> nat" where
  "NumPrior cfg = pb_min_num cfg * length (aspect_ratios cfg) + pb_max_num cfg"

definition prior_at :: "cfloat \<Rightarrow> cfloat \<Rightarrow> cfloat \<Rightarrow> cfloat \<Rightarrow> int list" where
  "prior_at cx cy w h =
     [to_s32 (fsub F32 cx (fmul F32 w half)), to_s32 (fsub F32 cy (fmul F32 h half)),
      to_s32 (fadd F32 cx (fmul F32 w half)), to_s32 (fadd F32 cy (fmul F32 h half))]"

text \<open>The second prior, and the rest; the square roots are computed in double.\<close>

definition max_side :: "prior_cfg \<Rightarrow> nat \<Rightarrow> cfloat" where
  "max_side cfg n = cvt F32 (fsqrt F64 (cvt F64 (fmul F32 (pb_min cfg n) (pb_max cfg n))))"

definition ratio_prior :: "cfloat \<Rightarrow> cfloat \<Rightarrow> cfloat \<Rightarrow> cfloat \<Rightarrow> int list" where
  "ratio_prior cx cy m r = prior_at cx cy
     (cvt F32 (fmul F64 (cvt F64 m) (fsqrt F64 (cvt F64 r))))
     (cvt F32 (fdiv F64 (cvt F64 m) (fsqrt F64 (cvt F64 r))))"

definition size_priors :: "prior_cfg \<Rightarrow> cfloat \<Rightarrow> cfloat \<Rightarrow> nat \<Rightarrow> int list" where
  "size_priors cfg cx cy n =
     prior_at cx cy (pb_min cfg n) (pb_min cfg n) @
     (if 0 < pb_max_num cfg then prior_at cx cy (max_side cfg n) (max_side cfg n) else []) @
     concat (map (ratio_prior cx cy (pb_min cfg n)) (tl (aspect_ratios cfg)))"

definition cell_priors :: "prior_cfg \<Rightarrow> nat \<Rightarrow> nat \<Rightarrow> int list" where
  "cell_priors cfg h w = concat (map (size_priors cfg
       (fmul F32 (fadd F32 (of_s32 F32 (int w)) (pb_offset cfg)) (pb_step_width cfg))
       (fmul F32 (fadd F32 (of_s32 F32 (int h)) (pb_offset cfg)) (pb_step_height cfg)))
     [0..<pb_min_num cfg])"

definition all_priors :: "prior_cfg \<Rightarrow> int list" where
  "all_priors cfg = concat (map (\<lambda>h. concat (map (cell_priors cfg h) [0..<pb_width cfg])) [0..<pb_height cfg])"

text \<open>
  The clipping loop takes the words in pairs, as many as there are supposed to be; what it touches
  beyond the words written so far is overwritten by the variances.
\<close>

definition clip_coord :: "int \<Rightarrow> int \<Rightarrow> int" where
  "clip_coord sz x = (let m = u32 (max x 0) in s32 (if m < u32 sz then m else u32 sz))"

definition clip_priors :: "prior_cfg \<Rightarrow> int list \<Rightarrow> int list" where
  "clip_priors cfg xs = map (\<lambda>i.
     if i div 2 < pb_width cfg * pb_height cfg * 4 * NumPrior cfg div 2
     then clip_coord (if even i then pb_im_width cfg else pb_im_height cfg) (xs ! i)
     else xs ! i) [0..<length xs]"

definition prior_vars :: "prior_cfg \<Rightarrow> int list" where
  "prior_vars cfg = concat (replicate (pb_height cfg * pb_width cfg * NumPrior cfg) (map (pb_var cfg) [0..<4]))"

definition PriorBoxForward :: "prior_cfg \<Rightarrow> int + int list" where
  "PriorBoxForward cfg =
     (if pb_flip cfg \<and> 2 < pb_ratio_num cfg then Inl HI_INVALID_VALUE
      else if \<not> pb_flip cfg \<and> 5 < pb_ratio_num cfg then Inl HI_INVALID_VALUE
      else Inr ((if pb_clip cfg then clip_priors cfg (all_priors cfg) else all_priors cfg) @ prior_vars cfg))"

section \<open>Softmax\<close>

text \<open>
  One blob: \<open>pos\<close> is the position of \<open>ps32InputData\<close> in it; after every \<open>skip\<close> rows the walk
  also steps over the padding \<open>left\<close> at the end of a line.
\<close>

fun softmax_walk :: "(cfloat \<Rightarrow> cfloat) \<Rightarrow> (int \<Rightarrow> int) \<Rightarrow> nat \<Rightarrow> nat \<Rightarrow> int \<Rightarrow> nat \<Rightarrow> nat \<Rightarrow> int \<Rightarrow> int list" where
  "softmax_walk cexp blob inner skip left i 0 pos = []"
| "softmax_walk cexp blob inner skip left i (Suc k) pos =
     SSD_SoftMax cexp (map (\<lambda>c. blob (pos + int c)) [0..<inner]) @
     softmax_walk cexp blob inner skip left (Suc i) k
       ((if (i + 1) mod skip = 0 then pos + left else pos) + int inner)"

record softmax_in =
  sm_chn :: nat
  sm_stride :: nat
  sm_width :: nat
  sm_blob :: "int \<Rightarrow> int"

definition softmax_blob :: "(cfloat \<Rightarrow> cfloat) \<Rightarrow> nat \<Rightarrow> softmax_in \<Rightarrow> int list option" where
  "softmax_blob cexp inner b =
     (if inner = 0 then None
      else let outer = sm_chn b div inner; skip = sm_width b div inner
           in if 0 < outer \<and> skip = 0 then None
              else Some (softmax_walk cexp (sm_blob b) inner skip (int (sm_stride b) - int (sm_width b)) 0 outer 0))"

fun SoftmaxForward :: "(cfloat \<Rightarrow> cfloat) \<Rightarrow> nat \<Rightarrow> softmax_in list \<Rightarrow> int list option" where
  "SoftmaxForward cexp inner [] = Some []"
| "SoftmaxForward cexp inner (b # bs) =
     (case softmax_blob cexp inner b of
        None \<Rightarrow> None
      | Some xs \<Rightarrow> map_option (\<lambda>ys. xs @ ys) (SoftmaxForward cexp inner bs))"

section \<open>Detection\<close>

record ssd_cfg =
  sd_conf :: int
  sd_classes :: nat
  sd_topk :: nat
  sd_keep :: nat
  sd_nms :: int
  sd_chn :: "nat list"

text \<open>The decoding of one box from its prior, variances and location prediction, four words each.\<close>

definition decode_centre :: "int \<Rightarrow> int \<Rightarrow> int \<Rightarrow> int \<Rightarrow> cfloat" where
  "decode_centre lo hi var loc =
     fadd F32 (fmul F32 (fmul F32 (q12 var) (q12 loc)) (of_s32 F32 (s32 (hi - lo))))
       (fmul F32 (of_s32 F32 (s32 (hi + lo))) half)"

definition decode_side :: "(cfloat \<Rightarrow> cfloat) \<Rightarrow> int \<Rightarrow> int \<Rightarrow> int \<Rightarrow> int \<Rightarrow> cfloat" where
  "decode_side cexp lo hi var loc =
     cvt F32 (fmul F64 (cexp (cvt F64 (fmul F32 (q12 var) (q12 loc)))) (cvt F64 (of_s32 F32 (s32 (hi - lo)))))"

definition decode_box :: "(cfloat \<Rightarrow> cfloat) \<Rightarrow> (nat \<Rightarrow> int) \<Rightarrow> (nat \<Rightarrow> int) \<Rightarrow> (nat \<Rightarrow> int) \<Rightarrow> ibox" where
  "decode_box cexp pri var loc =
     (let cx = decode_centre (pri 0) (pri 2) (var 0) (loc 0);
          cy = decode_centre (pri 1) (pri 3) (var 1) (loc 1);
          w = decode_side cexp (pri 0) (pri 2) (var 2) (loc 2);
          h = decode_side cexp (pri 1) (pri 3) (var 3) (loc 3)
      in \<lparr>b_x1 = to_s32 (fsub F32 cx (fmul F32 w half)), b_y1 = to_s32 (fsub F32 cy (fmul F32 h half)),
          b_x2 = to_s32 (fadd F32 cx (fmul F32 w half)), b_y2 = to_s32 (fadd F32 cy (fmul F32 h half))\<rparr>)"

definition ssd_boxes :: "(cfloat \<Rightarrow> cfloat) \<Rightarrow> ssd_cfg \<Rightarrow> (nat \<Rightarrow> nat \<Rightarrow> int) \<Rightarrow> (nat \<Rightarrow> nat \<Rightarrow> int) \<Rightarrow> ibox list" where
  "ssd_boxes cexp cfg locs priors =
     concat (map (\<lambda>i. let n = sd_chn cfg ! i div 4
        in map (\<lambda>j. decode_box cexp (\<lambda>c. priors i (4 * j + c)) (\<lambda>c. priors i (4 * n + (4 * j + c)))
             (\<lambda>c. locs i (4 * j + c))) [0..<n]) [0..<length (sd_chn cfg)])"

definition row_of :: "ibox \<Rightarrow> int \<Rightarrow> proposal" where
  "row_of b score = \<lparr>p_xmin = b_x1 b, p_ymin = b_y1 b, p_xmax = b_x2 b, p_ymax = b_y2 b, p_score = score, p_flag = 0\<rparr>"

definition ssd_rows :: "ssd_cfg \<Rightarrow> (nat \<Rightarrow> int) \<Rightarrow> ibox list \<Rightarrow> nat \<Rightarrow> proposal list" where
  "ssd_rows cfg conf boxes i =
     map (\<lambda>j. row_of (boxes ! j) (conf (j * sd_classes cfg + i))) [0..<length boxes]"

text \<open>Both output loops: the rows with property \<open>P\<close>, written from \<open>off\<close> on and counted.\<close>

fun put_rows :: "(proposal \<Rightarrow> bool) \<Rightarrow> proposal list \<Rightarrow> nat \<Rightarrow> nat \<Rightarrow> det list \<Rightarrow> (nat \<times> det list) option" where
  "put_rows P [] off cnt dst = Some (cnt, dst)"
| "put_rows P (p # ps) off cnt dst =
     (if P p then
        (if off + cnt < length dst then put_rows P ps off (Suc cnt) (dst[off + cnt := det_of p]) else None)
      else put_rows P ps off cnt dst)"

text \<open>Both loops over the classes: every class puts its rows where those before it ended.\<close>

fun class_blocks :: "('c \<Rightarrow> nat \<Rightarrow> det list \<Rightarrow> (nat \<times> det list) option) \<Rightarrow> 'c list \<Rightarrow> nat \<Rightarrow> det list
    \<Rightarrow> (nat list \<times> det list) option" where
  "class_blocks f [] off dst = Some ([], dst)"
| "class_blocks f (c # cs) off dst =
     (case f c off dst of
        None \<Rightarrow> None
      | Some (cnt, dst') \<Rightarrow>
          (case class_blocks f cs (off + cnt) dst' of
             None \<Rightarrow> None
           | Some (nums, dst'') \<Rightarrow> Some (cnt # nums, dst'')))"

text \<open>The output loop runs to \<open>u32TopK\<close> even when there are fewer rows, into \<open>stale\<close>.\<close>

definition ssd_class :: "nat \<Rightarrow> ssd_cfg \<Rightarrow> proposal list \<Rightarrow> proposal list \<Rightarrow> nat \<Rightarrow> det list \<Rightarrow> (nat \<times> det list) option" where
  "ssd_class cap cfg stale rows off dst =
     (let n = length rows; k = min n (sd_topk cfg)
      in case sort_rows cap p_score (int (sd_topk cfg)) n rows of
           None \<Rightarrow> None
         | Some ps \<Rightarrow>
             let mem = NonMaxSuppression ps k (sd_nms cfg) k @ stale
             in if sd_topk cfg \<le> length mem
                then put_rows (\<lambda>p. p_flag p = 0 \<and> s32 (sd_conf cfg) < p_score p) (take (sd_topk cfg) mem) off 0 dst
                else None)"

definition tagged :: "nat \<Rightarrow> det \<Rightarrow> proposal" where
  "tagged i d = (row_of (d_box d) (d_score d))\<lparr>p_flag := int i\<rparr>"

fun gather :: "nat \<Rightarrow> nat list \<Rightarrow> nat \<Rightarrow> det list \<Rightarrow> proposal list" where
  "gather i [] off dst = []"
| "gather i (c # cs) off dst = map (\<lambda>j. tagged i (dst ! (off + j))) [0..<c] @ gather (Suc i) cs (off + c) dst"

text \<open>The cut to \<open>u32KeepTopK\<close> rows over all classes but the background.\<close>

definition ssd_cut :: "nat \<Rightarrow> ssd_cfg \<Rightarrow> proposal list \<Rightarrow> nat list \<Rightarrow> det list \<Rightarrow> (nat list \<times> det list) option" where
  "ssd_cut cap cfg stale nums dst =
     (let rows = gather 1 (tl nums) (hd nums) dst; m = length rows
      in if m \<le> length stale then
           (case sort_rows cap p_score (int m) m (rows @ drop m stale) of
              None \<Rightarrow> None
            | Some ps \<Rightarrow>
                if sd_keep cfg \<le> length ps then
                  map_option (\<lambda>(ns, dst'). (hd nums # ns, dst'))
                    (class_blocks (\<lambda>i off. put_rows (\<lambda>p. u32 (p_flag p) = int i) (take (sd_keep cfg) ps) off 0)
                       [1..<sd_classes cfg] (hd nums) dst)
                else None)
         else None)"

definition ssd_select :: "nat \<Rightarrow> ssd_cfg \<Rightarrow> (nat \<Rightarrow> proposal list) \<Rightarrow> proposal list \<Rightarrow> det list \<Rightarrow> (nat list \<times> det list) option" where
  "ssd_select cap cfg rows stale dst =
     (case class_blocks (\<lambda>i. ssd_class cap cfg stale (rows i)) [0..<sd_classes cfg] 0 dst of
        None \<Rightarrow> None
      | Some (nums, dst') \<Rightarrow>
          if sd_keep cfg < sum_list nums then ssd_cut cap cfg stale nums dst' else Some (nums, dst'))"

definition DetectionOutForward :: "nat \<Rightarrow> (cfloat \<Rightarrow> cfloat) \<Rightarrow> ssd_cfg \<Rightarrow> (nat \<Rightarrow> nat \<Rightarrow> int) \<Rightarrow> (nat \<Rightarrow> nat \<Rightarrow> int)
    \<Rightarrow> (nat \<Rightarrow> int) \<Rightarrow> proposal list \<Rightarrow> det list \<Rightarrow> (nat list \<times> det list) option" where
  "DetectionOutForward cap cexp cfg locs priors conf stale dst =
     ssd_select cap cfg (ssd_rows cfg conf (ssd_boxes cexp cfg locs priors)) stale dst"

section \<open>The wrapper\<close>

text \<open>
  The six prior boxes are written one after the other into one buffer, each with the share
  computed for it; a failing one ends the function. \<open>blobs\<close> are the twelve report nodes: the even
  ones hold locations, the odd ones confidences.
\<close>

definition prior_share :: "prior_cfg \<Rightarrow> nat" where
  "prior_share cfg = pb_height cfg * pb_width cfg * 4 * 2 *
     (pb_max_num cfg + pb_min_num cfg + pb_ratio_num cfg * 2 * pb_min_num cfg)"

definition write_at :: "nat \<Rightarrow> int list \<Rightarrow> int list \<Rightarrow> int list option" where
  "write_at off xs buf =
     (if off + length xs \<le> length buf then Some (take off buf @ xs @ drop (off + length xs) buf) else None)"

fun prior_loop :: "prior_cfg list \<Rightarrow> nat \<Rightarrow> int list \<Rightarrow> (int + int list) option" where
  "prior_loop [] off buf = Some (Inr buf)"
| "prior_loop (c # cs) off buf =
     (case PriorBoxForward c of
        Inl err \<Rightarrow> Some (Inl err)
      | Inr xs \<Rightarrow>
          (case write_at off xs buf of
             None \<Rightarrow> None
           | Some buf' \<Rightarrow> prior_loop cs (off + prior_share c) buf'))"

definition prior_offset :: "prior_cfg list \<Rightarrow> nat \<Rightarrow> nat" where
  "prior_offset cs i = sum_list (map prior_share (take i cs))"

definition NNIE_Ssd_GetResult :: "nat \<Rightarrow> (cfloat \<Rightarrow> cfloat) \<Rightarrow> prior_cfg list \<Rightarrow> nat \<Rightarrow> softmax_in list \<Rightarrow> ssd_cfg
    \<Rightarrow> (nat \<Rightarrow> int \<Rightarrow> int) \<Rightarrow> int list \<Rightarrow> proposal list \<Rightarrow> det list \<Rightarrow> (int + nat list \<times> det list) option" where
  "NNIE_Ssd_GetResult cap cexp pcs inner sms cfg blobs buf stale dst =
     (case prior_loop pcs 0 buf of
        None \<Rightarrow> None
      | Some (Inl err) \<Rightarrow> Some (Inl err)
      | Some (Inr pri) \<Rightarrow>
          (case SoftmaxForward cexp inner (map (\<lambda>i. (sms ! i)\<lparr>sm_blob := blobs (2 * i + 1)\<rparr>) [0..<length sms]) of
             None \<Rightarrow> None
           | Some conf \<Rightarrow>
               map_option Inr (DetectionOutForward cap cexp cfg (\<lambda>i j. blobs (2 * i) (int j))
                 (\<lambda>i j. pri ! (prior_offset pcs i + j)) (\<lambda>j. conf ! j) stale dst)))"

section \<open>What the prior box stage writes\<close>

lemma length_prior_at [simp]: "length (prior_at cx cy w h) = 4"
  by (simp add: prior_at_def)

lemma length_aspect_ratios:
  "length (aspect_ratios cfg) = 1 + (if pb_flip cfg then 2 * pb_ratio_num cfg else pb_ratio_num cfg)"
  unfolding aspect_ratios_def
  by (simp only: list.size add.commute, subst length_concat_uniform [of _ "if pb_flip cfg then 2 else 1"]) auto

lemma length_size_priors:
  "length (size_priors cfg cx cy n) = 4 * (length (aspect_ratios cfg) + (if 0 < pb_max_num cfg then 1 else 0))"
proof -
  have "length (concat (map (ratio_prior cx cy (pb_min cfg n)) rs)) = 4 * length rs" for rs
    by (subst length_concat_uniform [of _ 4]) (auto simp: ratio_prior_def)
  then show ?thesis by (simp add: size_priors_def length_aspect_ratios)
qed

definition prior_sizes_ok :: "prior_cfg \<Rightarrow> bool" where
  "prior_sizes_ok cfg \<longleftrightarrow> pb_max_num cfg = 0 \<or> pb_max_num cfg = pb_min_num cfg"

lemma length_cell_priors: "prior_sizes_ok cfg \<Longrightarrow> length (cell_priors cfg h w) = 4 * NumPrior cfg"
  by (subst cell_priors_def, subst length_concat_uniform [of _ "4 * (length (aspect_ratios cfg) + (if 0 < pb_max_num cfg then 1 else 0))"])
    (auto simp: length_size_priors NumPrior_def prior_sizes_ok_def algebra_simps)

lemma length_line_priors:
  "prior_sizes_ok cfg \<Longrightarrow> length (concat (map (cell_priors cfg h) [0..<W])) = 4 * NumPrior cfg * W"
  by (subst length_concat_uniform [of _ "4 * NumPrior cfg"]) (auto simp: length_cell_priors)

lemma length_all_priors:
  "prior_sizes_ok cfg \<Longrightarrow> length (all_priors cfg) = 4 * NumPrior cfg * (pb_width cfg * pb_height cfg)"
  unfolding all_priors_def
  by (subst length_concat_uniform [of _ "4 * NumPrior cfg * pb_width cfg"]) (auto simp: length_line_priors)

lemma nth_all_priors:
  assumes ok: "prior_sizes_ok cfg" and "h < pb_height cfg" "w < pb_width cfg" "r < 4 * NumPrior cfg"
  shows "all_priors cfg ! (4 * NumPrior cfg * (h * pb_width cfg + w) + r) = cell_priors cfg h w ! r"
proof -
  let ?n = "4 * NumPrior cfg" and ?line = "\<lambda>h. concat (map (cell_priors cfg h) [0..<pb_width cfg])"
  have "?n * w + r < ?n * Suc w" using assms(4) by simp
  also have "\<dots> \<le> ?n * pb_width cfg" using assms(3) by (intro mult_le_mono2) simp
  finally have lt: "?n * w + r < ?n * pb_width cfg" .
  have "all_priors cfg ! ((?n * pb_width cfg) * h + (?n * w + r)) = map ?line [0..<pb_height cfg] ! h ! (?n * w + r)"
    unfolding all_priors_def using assms lt by (intro concat_nth_uniform) (auto simp: length_line_priors)
  also have "\<dots> = ?line h ! (?n * w + r)" using assms by simp
  also have "\<dots> = map (cell_priors cfg h) [0..<pb_width cfg] ! w ! r"
    using assms by (intro concat_nth_uniform) (auto simp: length_cell_priors)
  finally show ?thesis using assms by (simp add: algebra_simps)
qed

lemma length_prior_vars: "length (prior_vars cfg) = 4 * NumPrior cfg * (pb_width cfg * pb_height cfg)"
  unfolding prior_vars_def by (subst length_concat_uniform [of _ 4]) (auto simp: algebra_simps)

lemma nth_prior_vars:
  "b < NumPrior cfg * (pb_width cfg * pb_height cfg) \<Longrightarrow> c < 4 \<Longrightarrow> prior_vars cfg ! (4 * b + c) = pb_var cfg c"
  unfolding prior_vars_def by (subst concat_nth_uniform) (auto simp: algebra_simps)

lemma clip_coord_eq: "0 \<le> sz \<Longrightarrow> sz < 2147483648 \<Longrightarrow> in_s32 x \<Longrightarrow> clip_coord sz x = max 0 (min x sz)"
  by (auto simp: clip_coord_def Let_def u32_id s32_id in_s32_def in_u32_def max_def min_def)

lemma in_s32_to_s32: "in_s32 (to_s32 v)"
  by (cases v) (auto simp: in_s32_def)

definition clip_to :: "prior_cfg \<Rightarrow> nat \<Rightarrow> int \<Rightarrow> int" where
  "clip_to cfg c x = (if pb_clip cfg then max 0 (min x (if even c then pb_im_width cfg else pb_im_height cfg)) else x)"

lemma in_s32_all_priors: "x \<in> set (all_priors cfg) \<Longrightarrow> in_s32 x"
  by (auto simp: all_priors_def cell_priors_def size_priors_def ratio_prior_def prior_at_def in_s32_to_s32 split: if_splits)

definition image_ok :: "prior_cfg \<Rightarrow> bool" where
  "image_ok cfg \<longleftrightarrow> 0 \<le> pb_im_width cfg \<and> pb_im_width cfg < 2147483648 \<and>
     0 \<le> pb_im_height cfg \<and> pb_im_height cfg < 2147483648"

lemma prior_words:
  assumes ok: "prior_sizes_ok cfg" and im: "image_ok cfg"
  shows "(if pb_clip cfg then clip_priors cfg (all_priors cfg) else all_priors cfg) =
    map (\<lambda>i. clip_to cfg i (all_priors cfg ! i)) [0..<length (all_priors cfg)]"
proof (cases "pb_clip cfg")
  case True
  have "i div 2 < pb_width cfg * pb_height cfg * 4 * NumPrior cfg div 2" if "i < length (all_priors cfg)" for i
    using that length_all_priors [OF ok] by (simp add: ac_simps) 
  then show ?thesis using True im
    by (auto simp: clip_priors_def clip_to_def image_ok_def intro!: clip_coord_eq in_s32_all_priors nth_mem)
next
  case False
  then show ?thesis by (simp add: clip_to_def map_nth)
qed

definition PriorBox_fits :: "prior_cfg \<Rightarrow> bool" where
  "PriorBox_fits cfg \<longleftrightarrow> prior_sizes_ok cfg \<and> image_ok cfg \<and> (if pb_flip cfg then pb_ratio_num cfg \<le> 2 else pb_ratio_num cfg \<le> 5)"

text \<open>
  \<open>SVP_NNIE_Ssd_PriorBoxForward\<close>, with no maximal sizes or one for each minimal size: it
  refuses exactly the ratio counts its table cannot hold; otherwise word \<open>c\<close> of prior \<open>k\<close> of the
  cell in row \<open>h\<close> and column \<open>w\<close> lies where the detection stage looks for it and is the word of
  that cell, clipped into the image if asked for; behind all boxes come as many copies of the four
  variances; and the whole fits into the share of the buffer that
  \<open>SAMPLE_SVP_NNIE_Ssd_GetResultTmpBuf\<close> computes for it.
\<close>

lemma PriorBoxForward_layout:
  assumes ok: "prior_sizes_ok cfg" "image_ok cfg"
  defines "n \<equiv> NumPrior cfg" and "N \<equiv> NumPrior cfg * (pb_width cfg * pb_height cfg)"
  shows "PriorBoxForward cfg = Inl HI_INVALID_VALUE \<and> (if pb_flip cfg then 2 else 5) < pb_ratio_num cfg \<or>
    (\<exists>out. PriorBoxForward cfg = Inr out \<and> pb_ratio_num cfg \<le> (if pb_flip cfg then 2 else 5) \<and>
      length out = 8 * N \<and> length out \<le> prior_share cfg \<and>
      (\<forall>h < pb_height cfg. \<forall>w < pb_width cfg. \<forall>k < n. \<forall>c < 4.
         out ! (4 * (n * (h * pb_width cfg + w) + k) + c) = clip_to cfg c (cell_priors cfg h w ! (4 * k + c))) \<and>
      (\<forall>b < N. \<forall>c < 4. out ! (4 * N + (4 * b + c)) = pb_var cfg c))"
proof (cases "(if pb_flip cfg then 2 else 5) < pb_ratio_num cfg")
  case True
  then show ?thesis by (auto simp: PriorBoxForward_def split: if_splits)
next
  case False
  define boxes where "boxes = map (\<lambda>i. clip_to cfg i (all_priors cfg ! i)) [0..<length (all_priors cfg)]"
  have out: "PriorBoxForward cfg = Inr (boxes @ prior_vars cfg)"
    using False prior_words [OF ok] by (auto simp: PriorBoxForward_def boxes_def split: if_splits)
  have len: "length boxes = 4 * N" "length (prior_vars cfg) = 4 * N"
    using length_all_priors [OF ok(1)] length_prior_vars [of cfg] by (simp_all add: boxes_def N_def)
  have "N * 8 \<le> prior_share cfg"
  proof -
    have "n \<le> pb_max_num cfg + pb_min_num cfg + pb_ratio_num cfg * 2 * pb_min_num cfg"
      by (auto simp: n_def NumPrior_def length_aspect_ratios algebra_simps)
    then have "(8 * (pb_width cfg * pb_height cfg)) * n \<le> (8 * (pb_width cfg * pb_height cfg)) *
        (pb_max_num cfg + pb_min_num cfg + pb_ratio_num cfg * 2 * pb_min_num cfg)" by (rule mult_le_mono2)
    then show ?thesis by (simp add: prior_share_def N_def n_def ac_simps)
  qed
  moreover have "(boxes @ prior_vars cfg) ! (4 * (n * (h * pb_width cfg + w) + k) + c) =
      clip_to cfg c (cell_priors cfg h w ! (4 * k + c))"
    if "h < pb_height cfg" "w < pb_width cfg" "k < n" "c < 4" for h w k c
  proof -
    let ?i = "4 * n * (h * pb_width cfg + w) + (4 * k + c)"
    have r: "4 * k + c < 4 * n" using that by linarith
    have "h * pb_width cfg + w < Suc h * pb_width cfg" using that by simp
    also have "\<dots> \<le> pb_height cfg * pb_width cfg" using that by (intro mult_le_mono1) simp
    finally have "Suc (h * pb_width cfg + w) \<le> pb_height cfg * pb_width cfg" by simp
    then have "4 * n * Suc (h * pb_width cfg + w) \<le> 4 * n * (pb_height cfg * pb_width cfg)" by (rule mult_le_mono2)
    then have i: "?i < length boxes" using r by (simp add: len N_def n_def algebra_simps)
    then have "(boxes @ prior_vars cfg) ! ?i = clip_to cfg ?i (all_priors cfg ! ?i)"
      by (simp add: nth_append boxes_def)
    also have "\<dots> = clip_to cfg c (cell_priors cfg h w ! (4 * k + c))"
      using nth_all_priors [OF ok(1) that(1,2) r [unfolded n_def]] by (simp add: n_def clip_to_def)
    finally show ?thesis by (simp add: algebra_simps)
  qed
  moreover have "(boxes @ prior_vars cfg) ! (4 * N + (4 * b + c)) = pb_var cfg c" if "b < N" "c < 4" for b c
    using that nth_prior_vars [of b cfg c] by (simp add: nth_append len N_def)
  ultimately show ?thesis using out len False by (auto simp: mult.commute)
qed

text \<open>The third prior box of the SSD sample, on an image of 300 by 300.\<close>

definition small_prior :: prior_cfg where
  "small_prior = \<lparr>pb_width = 2, pb_height = 1, pb_im_width = 300, pb_im_height = 300, pb_min = (\<lambda>n. Fin 111), pb_min_num = 1,
     pb_max = (\<lambda>n. Fin 162), pb_max_num = 1, pb_flip = True, pb_clip = True, pb_ratio_num = 2,
     pb_ratio = (\<lambda>i. Fin (2 + of_nat i)), pb_step_width = Fin 32, pb_step_height = Fin 32, pb_offset = Fin (1/2),
     pb_var = (\<lambda>c. if c < 2 then 409 else 819)\<rparr>"

lemma small_prior_ok: "prior_sizes_ok small_prior" "image_ok small_prior" "NumPrior small_prior = 6" "pb_width small_prior = 2" "pb_height small_prior = 1"
  "pb_flip small_prior" "pb_ratio_num small_prior = 2" "pb_var small_prior 0 = 409"
  by (simp_all add: prior_sizes_ok_def image_ok_def small_prior_def NumPrior_def length_aspect_ratios)

lemma PriorBoxForward_layout_witness:
  "\<exists>out. PriorBoxForward small_prior = Inr out \<and> length out = 96 \<and> out ! 48 = 409"
proof -
  obtain out where "PriorBoxForward small_prior = Inr out" "length out = 96"
    "\<forall>b < 12. \<forall>c < 4. out ! (48 + (4 * b + c)) = pb_var small_prior c"
    using PriorBoxForward_layout [OF small_prior_ok(1,2)] by (auto simp: small_prior_ok(3-))
  from this(1,2) this(3) [rule_format, of 0 0] show ?thesis by (simp add: small_prior_ok)
qed

section \<open>The softmax walk finds its rows\<close>

lemma softmax_walk_eq:
  assumes "0 < skip" and pos: "pos = int (i div skip) * (int (skip * inner) + left) + int (i mod skip * inner)"
  shows "softmax_walk cexp blob inner skip left i k pos =
    concat (map (\<lambda>r. SSD_SoftMax cexp (map (\<lambda>c. blob (int (r div skip) * (int (skip * inner) + left)
      + int (r mod skip * inner) + int c)) [0..<inner])) [i..<i + k])"
  using pos
proof (induction k arbitrary: i pos)
  case 0
  then show ?case by simp
next
  case (Suc k)
  have "(if (i + 1) mod skip = 0 then pos + left else pos) + int inner =
      int (Suc i div skip) * (int (skip * inner) + left) + int (Suc i mod skip * inner)"
  proof (cases "Suc i mod skip = 0")
    case True
    then have "Suc (i mod skip) = skip" "Suc i div skip = Suc (i div skip)"
      using assms(1) by (auto simp: mod_Suc div_Suc split: if_splits)
    moreover from this(1) have "int (skip * inner) = int (i mod skip * inner) + int inner"
      by (metis mult_Suc add.commute of_nat_add)
    ultimately show ?thesis using True by (simp add: Suc.prems algebra_simps)
  next
    case False
    then have "Suc i mod skip = Suc (i mod skip)" "Suc i div skip = i div skip"
      using assms(1) by (auto simp: mod_Suc div_Suc)
    then show ?thesis using False by (simp add: Suc.prems algebra_simps)
  qed
  note IH = Suc.IH [OF this]
  have e: "[i..<i + Suc k] = i # [Suc i..<Suc i + k]" by (simp add: upt_conv_Cons)
  show ?case unfolding e softmax_walk.simps IH by (simp add: Suc.prems del: upt_Suc)
qed

definition softmax_ok :: "nat \<Rightarrow> softmax_in \<Rightarrow> bool" where
  "softmax_ok inner b \<longleftrightarrow> 0 < inner \<and> 0 < sm_width b \<and> sm_width b mod inner = 0"

definition softmax_rows :: "(cfloat \<Rightarrow> cfloat) \<Rightarrow> nat \<Rightarrow> softmax_in \<Rightarrow> int list" where
  "softmax_rows cexp inner b = concat (map (\<lambda>r. let s = sm_width b div inner in
     SSD_SoftMax cexp (map (\<lambda>c. sm_blob b (int (r div s * sm_stride b + r mod s * inner + c))) [0..<inner]))
     [0..<sm_chn b div inner])"

lemma softmax_blob_eq: "softmax_ok inner b \<Longrightarrow> softmax_blob cexp inner b = Some (softmax_rows cexp inner b)"
proof -
  assume ok: "softmax_ok inner b"
  define s where "s = sm_width b div inner"
  have w: "s * inner = sm_width b" using ok by (auto simp: s_def softmax_ok_def)
  then have s: "0 < s" using ok by (cases s) (auto simp: softmax_ok_def)
  show ?thesis
    using ok s by (simp add: softmax_blob_def Let_def softmax_ok_def s_def [symmetric]
        softmax_walk_eq [OF s] w softmax_rows_def)
qed

lemma softmax_forward:
  assumes "\<forall>b \<in> set bs. softmax_ok inner b"
  shows "SoftmaxForward cexp inner bs = Some (concat (map (softmax_rows cexp inner) bs))"
  using assms by (induction bs) (auto simp: softmax_blob_eq)

text \<open>
  \<open>SVP_NNIE_Ssd_SoftmaxForward\<close>, whose pointer walks through each blob and steps over the
  padding, equals the direct definition: row \<open>r\<close> of a blob is the softmax of the \<open>inner\<close> words
  at line \<open>r div s\<close>, place \<open>r mod s\<close>, where a line holds \<open>s\<close> rows and is a stride long.
\<close>

lemma SoftmaxForward_rows:
  assumes "\<forall>b \<in> set bs. softmax_ok inner b"
  shows "SoftmaxForward cexp inner bs = Some (concat (map (softmax_rows cexp inner) bs))"
  using assms by (rule softmax_forward)

lemma SoftmaxForward_rows_witness:
  "SoftmaxForward step_exp 2 [\<lparr>sm_chn = 8, sm_stride = 8, sm_width = 4, sm_blob = (\<lambda>i. i)\<rparr>] =
     Some (concat (map (SSD_SoftMax step_exp) [[0, 1], [2, 3], [8, 9], [10, 11]]))"
  using SoftmaxForward_rows [of "[\<lparr>sm_chn = 8, sm_stride = 8, sm_width = 4, sm_blob = (\<lambda>i. i)\<rparr>]" 2 step_exp]
  by (simp add: softmax_ok_def softmax_rows_def upt_conv_Cons)

section \<open>The output loops\<close>

lemma put_rows_eq:
  "off + cnt + length (filter P ps) \<le> length dst \<Longrightarrow> put_rows P ps off cnt dst = Some (cnt + length (filter P ps),
     take (off + cnt) dst @ map det_of (filter P ps) @ drop (off + cnt + length (filter P ps)) dst)"
proof (induction ps arbitrary: cnt dst)
  case Nil
  then show ?case by simp
next
  case (Cons p ps)
  show ?case
  proof (cases "P p")
    case True
    let ?dst = "dst[off + cnt := det_of p]"
    have lt: "off + cnt < length dst" using Cons.prems True by simp
    have "put_rows P ps off (Suc cnt) ?dst = Some (Suc cnt + length (filter P ps),
        take (off + Suc cnt) ?dst @ map det_of (filter P ps) @ drop (off + Suc cnt + length (filter P ps)) ?dst)"
      using Cons.prems True by (intro Cons.IH) simp
    moreover have "take (off + Suc cnt) ?dst = take (off + cnt) dst @ [det_of p]"
      using lt by (simp add: take_Suc_conv_app_nth)
    ultimately show ?thesis using True lt by simp
  next
    case False
    then show ?thesis using Cons by simp
  qed
qed

text \<open>Blocks written one behind the other.\<close>

lemma class_blocks_eq:
  assumes step: "\<And>c off dst. c \<in> set cs \<Longrightarrow> off + length (K c) \<le> length dst \<Longrightarrow>
      f c off dst = Some (length (K c), take off dst @ K c @ drop (off + length (K c)) dst)"
  shows "off + length (concat (map K cs)) \<le> length dst \<Longrightarrow> class_blocks f cs off dst =
    Some (map (\<lambda>c. length (K c)) cs, take off dst @ concat (map K cs) @ drop (off + length (concat (map K cs))) dst)"
  using step
proof (induction cs arbitrary: off dst)
  case Nil
  then show ?case by simp
next
  case (Cons c cs)
  define dst' where "dst' = take off dst @ K c @ drop (off + length (K c)) dst"
  have off: "length (take off dst) = off" using Cons.prems by simp
  have "class_blocks f cs (off + length (K c)) dst' = Some (map (\<lambda>c. length (K c)) cs,
      take (off + length (K c)) dst' @ concat (map K cs) @ drop (off + length (K c) + length (concat (map K cs))) dst')"
    using Cons.prems by (intro Cons.IH) (auto simp: dst'_def)
  moreover have "take (off + length (K c)) dst' = take off dst @ K c" unfolding dst'_def using off by simp
  moreover have "drop (off + length (K c) + length (concat (map K cs))) dst' =
      drop (off + length (concat (map K (c # cs)))) dst"
    unfolding dst'_def using off by (simp add: ac_simps)
  moreover have "f c off dst = Some (length (K c), dst')"
    using Cons.prems by (simp add: dst'_def)
  ultimately show ?case by simp
qed

section \<open>The rows of one class\<close>

text \<open>
  What a class contributes: of its rows the \<open>u32TopK\<close> best, suppressed greedily, above the threshold.
\<close>

definition top_of :: "nat \<Rightarrow> proposal list \<Rightarrow> proposal list \<Rightarrow> bool" where
  "top_of k rows T \<longleftrightarrow> (\<exists>R. mset (T @ R) = mset rows \<and> score_sorted T \<and> length T = min k (length rows) \<and>
     (\<forall>t \<in> set T. \<forall>r \<in> set R. p_score r \<le> p_score t))"

definition ssd_spec :: "ssd_cfg \<Rightarrow> proposal list \<Rightarrow> proposal list" where
  "ssd_spec cfg T = filter (\<lambda>p. p_flag p = 0 \<and> s32 (sd_conf cfg) < p_score p)
     (greedy nms_live set_flag (nms_hit (sd_nms cfg)) (length T) T)"

lemma sorted_top_of:
  assumes n: "n = length rows" and room: "sort_room cap n" and k: "k \<le> n"
    and ps: "sort_rows cap p_score (int k) n rows = Some ps"
  shows "top_of k rows (take k ps) \<and> score_sorted (take k ps) \<and> length ps = n"
proof -
  note L = qs.srt_length [OF _ room ps, simplified n]
  have "mset (take k ps) + mset (drop k ps) = mset rows"
    using qs.srt_mset_take [OF _ room ps] L n by (simp flip: mset_append)
  moreover have "score_sorted (take k ps)"
    using qs.srt_sorted [OF _ room ps, of k] k n by (simp add: score_sorted_def sorted_wrt_map)
  moreover have "p_score r \<le> p_score t" if "t \<in> set (take k ps)" "r \<in> set (drop k ps)" for t r
    using qs.srt_top [OF _ room ps, of k t r] that k n L by simp
  ultimately show ?thesis using k n L by (auto simp: top_of_def intro!: exI [of _ "drop k ps"])
qed

lemma ssd_class_eq:
  assumes room: "sort_room cap (length rows)" and k: "sd_topk cfg \<le> length rows"
  shows "\<exists>T. top_of (sd_topk cfg) rows T \<and> (\<forall>off dst. off + length (ssd_spec cfg T) \<le> length dst \<longrightarrow>
    ssd_class cap cfg stale rows off dst = Some (length (ssd_spec cfg T),
      take off dst @ map det_of (ssd_spec cfg T) @ drop (off + length (ssd_spec cfg T)) dst))"
proof -
  let ?n = "length rows" and ?k = "sd_topk cfg"
  obtain ps where ps: "sort_rows cap p_score (int ?k) ?n rows = Some ps"
    using qs.srt_total [of ?n rows cap] room by auto
  note T = sorted_top_of [OF refl room k ps]
  define R where "R = NonMaxSuppression ps ?k (sd_nms cfg) ?k"
  have R: "take ?k (R @ stale) = greedy nms_live set_flag (nms_hit (sd_nms cfg)) ?k (take ?k ps)" "length R = ?n"
    using T k NonMaxSuppression_eq [of ?k ps "sd_nms cfg" ?k] by (simp_all add: R_def)
  have "ssd_spec cfg (take ?k ps) = filter (\<lambda>p. p_flag p = 0 \<and> s32 (sd_conf cfg) < p_score p) (take ?k (R @ stale))"
    unfolding ssd_spec_def R(1) using T k by simp
  moreover have "ssd_class cap cfg stale rows off dst =
      put_rows (\<lambda>p. p_flag p = 0 \<and> s32 (sd_conf cfg) < p_score p) (take ?k (R @ stale)) off 0 dst" for off dst
    using k R(2) by (simp add: ssd_class_def Let_def ps min_absorb2 R_def [symmetric])
  ultimately show ?thesis
    using T put_rows_eq [where cnt = 0] by (intro exI [of _ "take ?k ps"]) simp
qed

text \<open>What that means: sorted rows of the class, above the threshold, no two hitting each other.\<close>

lemma ssd_spec_props:
  assumes T: "top_of k rows T" and live: "\<forall>p \<in> set rows. p_flag p = 0"
  shows "score_sorted (ssd_spec cfg T)" "set (ssd_spec cfg T) \<subseteq> set rows" "length (ssd_spec cfg T) \<le> k"
    "\<forall>p \<in> set (ssd_spec cfg T). s32 (sd_conf cfg) < p_score p"
    "sorted_wrt (\<lambda>a b. \<not> nms_hit (sd_nms cfg) a b) (ssd_spec cfg T)"
proof -
  obtain R where TR: "mset (T @ R) = mset rows" "score_sorted T" "length T = min k (length rows)"
    using T by (auto simp: top_of_def)
  then have T': "sorted_wrt (\<lambda>p q. p_score q \<le> p_score p) (filter nms_live T)" "set T \<subseteq> set rows" "length T \<le> k"
    using mset_eq_setD [OF TR(1)] by (auto simp: score_sorted_def sorted_wrt_filter)
  define G where "G = filter nms_live (greedy nms_live set_flag (nms_hit (sd_nms cfg)) (length T) T)"
  note R = nms.run_survivors [OF T'(1), of "sd_nms cfg" "length T", folded G_def]
  have lenG: "length G \<le> length T" unfolding G_def by (rule le_trans [OF length_filter_le]) simp
  have K: "ssd_spec cfg T = filter (\<lambda>p. s32 (sd_conf cfg) < p_score p) G"
    by (simp add: ssd_spec_def G_def conj_commute)
  show "score_sorted (ssd_spec cfg T)" using R by (simp add: K score_sorted_def sorted_wrt_filter)
  show "set (ssd_spec cfg T) \<subseteq> set rows" using R T'(2) by (auto simp: K)
  show "length (ssd_spec cfg T) \<le> k" unfolding K using lenG T'(3) by (meson length_filter_le le_trans)
  show "\<forall>p \<in> set (ssd_spec cfg T). s32 (sd_conf cfg) < p_score p" by (simp add: K)
  show "sorted_wrt (\<lambda>a b. \<not> nms_hit (sd_nms cfg) a b) (ssd_spec cfg T)"
    using R lenG by (simp add: K sorted_wrt_filter)
qed


section \<open>The detection stage\<close>

lemma ssd_detection:
  assumes "n = length (ssd_boxes cexp cfg locs priors)" and room: "sort_room cap n" and k: "sd_topk cfg \<le> n"
    and dst: "sd_classes cfg * sd_topk cfg \<le> length dst"
  shows "\<exists>Ks. length Ks = sd_classes cfg \<and>
    (\<forall>i < sd_classes cfg. let rows = ssd_rows cfg conf (ssd_boxes cexp cfg locs priors) i; K = Ks ! i in
       (\<exists>T. top_of (sd_topk cfg) rows T \<and> K = ssd_spec cfg T) \<and> score_sorted K \<and> length K \<le> sd_topk cfg \<and>
       (\<forall>p \<in> set K. p \<in> set rows \<and> s32 (sd_conf cfg) < p_score p) \<and>
       sorted_wrt (\<lambda>a b. \<not> nms_hit (sd_nms cfg) a b) K) \<and>
    (let dst' = map det_of (concat Ks) @ drop (length (concat Ks)) dst in
     DetectionOutForward cap cexp cfg locs priors conf stale dst =
       (if sd_keep cfg < length (concat Ks) then ssd_cut cap cfg stale (map length Ks) dst'
        else Some (map length Ks, dst')))"
proof -
  let ?rows = "ssd_rows cfg conf (ssd_boxes cexp cfg locs priors)" and ?cs = "[0..<sd_classes cfg]"
  have n: "length (?rows i) = n" "\<forall>p \<in> set (?rows i). p_flag p = 0" for i
    using assms(1) by (auto simp: ssd_rows_def row_of_def)
  have "\<forall>i. \<exists>T. top_of (sd_topk cfg) (?rows i) T \<and> (\<forall>off dst. off + length (ssd_spec cfg T) \<le> length dst \<longrightarrow>
      ssd_class cap cfg stale (?rows i) off dst = Some (length (ssd_spec cfg T),
        take off dst @ map det_of (ssd_spec cfg T) @ drop (off + length (ssd_spec cfg T)) dst))"
    using ssd_class_eq [of cap "?rows _" cfg stale] room k n(1) by simp
  then obtain T where T: "\<And>i. top_of (sd_topk cfg) (?rows i) (T i)"
    and step: "\<And>i off dst. off + length (ssd_spec cfg (T i)) \<le> length dst \<Longrightarrow>
      ssd_class cap cfg stale (?rows i) off dst = Some (length (ssd_spec cfg (T i)),
        take off dst @ map det_of (ssd_spec cfg (T i)) @ drop (off + length (ssd_spec cfg (T i))) dst)"
    by metis
  define K where "K i = ssd_spec cfg (T i)" for i
  note S = ssd_spec_props [where cfg = cfg, OF T n(2), folded K_def]
  have len: "length (concat (map K cs)) \<le> length cs * sd_topk cfg" for cs
    using S(3) by (induction cs) (auto simp: add_mono)
  have "class_blocks (\<lambda>i. ssd_class cap cfg stale (?rows i)) ?cs 0 dst =
      Some (map (\<lambda>i. length (map det_of (K i))) ?cs, take 0 dst @ concat (map (\<lambda>i. map det_of (K i)) ?cs) @
        drop (0 + length (concat (map (\<lambda>i. map det_of (K i)) ?cs))) dst)"
    using step dst len [of ?cs] by (intro class_blocks_eq) (auto simp: K_def length_concat comp_def)
  moreover have "concat (map (\<lambda>i. map det_of (K i)) ?cs) = map det_of (concat (map K ?cs))"
    by (simp add: map_concat comp_def)
  moreover have "sum_list (map length (map K ?cs)) = length (concat (map K ?cs))" by (simp add: length_concat)
  ultimately have "DetectionOutForward cap cexp cfg locs priors conf stale dst =
      (let dst' = map det_of (concat (map K ?cs)) @ drop (length (concat (map K ?cs))) dst in
       if sd_keep cfg < length (concat (map K ?cs)) then ssd_cut cap cfg stale (map length (map K ?cs)) dst'
       else Some (map length (map K ?cs), dst'))"
    by (simp add: DetectionOutForward_def ssd_select_def Let_def comp_def)
  then show ?thesis
    using T S by (intro exI [of _ "map K ?cs"]) (auto simp: Let_def K_def)
qed

text \<open>
  C9. \<open>SVP_NNIE_Ssd_DetectionOutForward\<close> when no class has more candidates than there are priors:
  each class contributes its \<open>u32TopK\<close> best boxes, suppressed greedily and cut at the threshold;
  they are sorted, no two hit each other and there are at most \<open>u32TopK\<close>. If all classes together
  have at most \<open>u32KeepTopK\<close>, these are the result, one class behind the other, with their numbers;
  otherwise the cut is applied to exactly them.
\<close>

theorem DetectionOutForward_classes:
  assumes "n = length (ssd_boxes cexp cfg locs priors)" and room: "sort_room cap n" and k: "sd_topk cfg \<le> n"
    and dst: "sd_classes cfg * sd_topk cfg \<le> length dst"
  shows "\<exists>Ks. length Ks = sd_classes cfg \<and>
    (\<forall>i < sd_classes cfg. let rows = ssd_rows cfg conf (ssd_boxes cexp cfg locs priors) i; K = Ks ! i in
       (\<exists>T. top_of (sd_topk cfg) rows T \<and> K = ssd_spec cfg T) \<and> score_sorted K \<and> length K \<le> sd_topk cfg \<and>
       (\<forall>p \<in> set K. p \<in> set rows \<and> s32 (sd_conf cfg) < p_score p) \<and>
       sorted_wrt (\<lambda>a b. \<not> nms_hit (sd_nms cfg) a b) K) \<and>
    (let dst' = map det_of (concat Ks) @ drop (length (concat Ks)) dst in
     DetectionOutForward cap cexp cfg locs priors conf stale dst =
       (if sd_keep cfg < length (concat Ks) then ssd_cut cap cfg stale (map length Ks) dst'
        else Some (map length Ks, dst')))"
  using assms by (rule ssd_detection)

section \<open>The cut\<close>

text \<open>The kept rows of the classes from \<open>i\<close> on, each marked with its class.\<close>

fun tag_from :: "nat \<Rightarrow> det list list \<Rightarrow> proposal list" where
  "tag_from i [] = []"
| "tag_from i (L # Ls) = map (tagged i) L @ tag_from (Suc i) Ls"

lemma length_tag_from: "length (tag_from i Ls) = length (concat Ls)"
  by (induction i Ls rule: tag_from.induct) auto

lemma flag_tag_from: "p \<in> set (tag_from i Ls) \<Longrightarrow> \<exists>j. p_flag p = int j \<and> i \<le> j \<and> j < i + length Ls"
  by (induction i Ls rule: tag_from.induct) (force simp: tagged_def)+

lemma det_of_tagged [simp]: "det_of (tagged i d) = d"
  by (cases d) (simp add: det_of_def tagged_def row_of_def box_of_def)

lemma gather_eq: "gather i (map length Ls) (length pre) (pre @ concat Ls @ rest) = tag_from i Ls"
proof (induction Ls arbitrary: i pre)
  case Nil
  then show ?case by simp
next
  case (Cons L Ls)
  have "map (\<lambda>j. tagged i ((pre @ concat (L # Ls) @ rest) ! (length pre + j))) [0..<length L] = map (tagged i) L"
    by (rule nth_equalityI) (auto simp: nth_append)
  then show ?case using Cons.IH [of "Suc i" "pre @ L"] by simp
qed

lemma length_partition:
  assumes "distinct is" "\<forall>p \<in> set S. \<exists>i \<in> set is. g p = i"
  shows "length (concat (map (\<lambda>i. filter (\<lambda>p. g p = i) S) is)) = length S"
  using assms(2)
proof (induction S)
  case Nil
  then show ?case by (induction "is") auto
next
  case (Cons p S)
  have "length (concat (map (\<lambda>i. filter (\<lambda>p. g p = i) (p # S)) is)) =
      (\<Sum>i\<leftarrow>is. (if i = g p then 1 else 0) + length (filter (\<lambda>p. g p = i) S))"
    by (auto simp: length_concat intro!: arg_cong [of _ _ sum_list] map_cong)
  also have "\<dots> = (\<Sum>i\<leftarrow>is. if i = g p then 1 else 0) + length (concat (map (\<lambda>i. filter (\<lambda>p. g p = i) S) is))"
    by (simp add: sum_list_addf length_concat comp_def)
  also have "(\<Sum>i\<leftarrow>is. if i = g p then 1 else (0::nat)) = 1"
    using assms(1) Cons.prems by (simp add: sum_list_distinct_conv_sum_set)
  finally show ?case using Cons by simp
qed

text \<open>
  C10. The cut to \<open>u32KeepTopK\<close> when the classes other than the background have at least that many
  rows and the second row array holds them all: of those rows, sorted by score, the first
  \<open>u32KeepTopK\<close> stay, each written back to its class behind the untouched background rows, the
  counts are those of what stayed, and nothing behind is touched.
\<close>

theorem ssd_cut_correct:
  fixes bg :: "det list" and Ks :: "det list list"
  assumes classes: "sd_classes cfg = Suc (length Ks)" "sd_classes cfg \<le> 4294967296"
    and m: "m = length (concat Ks)" "sd_keep cfg \<le> m" "m \<le> length stale" and room: "sort_room cap m"
  shows "\<exists>S Ls. mset S = mset (tag_from 1 Ks) \<and> score_sorted S \<and>
    Ls = map (\<lambda>i. map det_of (filter (\<lambda>p. p_flag p = int i) (take (sd_keep cfg) S))) [1..<sd_classes cfg] \<and>
    length (concat Ls) = sd_keep cfg \<and>
    ssd_cut cap cfg stale (map length (bg # Ks)) (bg @ concat Ks @ rest) =
      Some (map length (bg # Ls), bg @ concat Ls @ drop (sd_keep cfg) (concat Ks @ rest))"
proof -
  let ?rows = "tag_from 1 Ks" and ?mem = "tag_from 1 Ks @ drop m stale" and ?dst = "bg @ concat Ks @ rest"
  and ?k = "sd_keep cfg"
  have lens: "length ?rows = m" "m \<le> length ?mem" using m by (simp_all add: length_tag_from)
  obtain ps where ps: "sort_rows cap p_score (int m) m ?mem = Some ps"
    using qs.srt_total [OF lens(2) room] by auto
  define S where "S = take m ps"
  have S: "mset S = mset ?rows" "length ps = length ?mem"
    using qs.srt_mset_take [OF lens(2) room ps] qs.srt_length [OF lens(2) room ps] lens by (simp_all add: S_def)
  have srt: "score_sorted S"
    using qs.srt_sorted [OF lens(2) room ps, of m] by (simp add: S_def score_sorted_def sorted_wrt_map)
  have cut: "take ?k ps = take ?k S" "?k \<le> length ps" "length S = m"
    using m S lens by (simp_all add: S_def)
  have flags: "\<exists>j \<in> set [1..<sd_classes cfg]. p_flag p = int j" if "p \<in> set (take ?k S)" for p
  proof -
    have "p \<in> set ?rows" using that mset_eq_setD [OF S(1)] by (auto dest: in_set_takeD)
    from flag_tag_from [OF this] show ?thesis using classes(1) by auto
  qed
  define L where "L = (\<lambda>i. map det_of (filter (\<lambda>p. p_flag p = int i) (take ?k S)))"
  have test: "filter (\<lambda>p. u32 (p_flag p) = int i) (take ?k S) = filter (\<lambda>p. p_flag p = int i) (take ?k S)" for i
  proof (rule filter_cong [OF refl])
    fix p assume "p \<in> set (take ?k S)"
    from flags [OF this] have "u32 (p_flag p) = p_flag p" using classes(2) by (auto simp: u32_id in_u32_def)
    then show "(u32 (p_flag p) = int i) = (p_flag p = int i)" by simp
  qed
  have "length (concat (map (\<lambda>i. filter (\<lambda>p. nat (p_flag p) = i) (take ?k S)) [1..<sd_classes cfg])) = length (take ?k S)"
  proof (intro length_partition ballI)
    fix p assume "p \<in> set (take ?k S)"
    from flags [OF this] show "\<exists>i \<in> set [1..<sd_classes cfg]. nat (p_flag p) = i" by auto
  qed simp
  moreover have "filter (\<lambda>p. nat (p_flag p) = i) (take ?k S) = filter (\<lambda>p. p_flag p = int i) (take ?k S)" for i
    using flags by (intro filter_cong [OF refl]) fastforce
  ultimately have lenL: "length (concat (map L [1..<sd_classes cfg])) = ?k"
    using cut(3) m(2) by (simp add: L_def length_concat comp_def)
  have "class_blocks (\<lambda>i off. put_rows (\<lambda>p. u32 (p_flag p) = int i) (take ?k ps) off 0) [1..<sd_classes cfg] (length bg) ?dst =
      Some (map (\<lambda>i. length (L i)) [1..<sd_classes cfg], take (length bg) ?dst @ concat (map L [1..<sd_classes cfg]) @
        drop (length bg + length (concat (map L [1..<sd_classes cfg]))) ?dst)"
    using lenL m put_rows_eq [where cnt = 0] by (intro class_blocks_eq) (auto simp: cut(1) test L_def)
  moreover have "gather 1 (map length Ks) (length bg) ?dst = ?rows" by (rule gather_eq)
  ultimately have "ssd_cut cap cfg stale (map length (bg # Ks)) ?dst =
      Some (map length (bg # map L [1..<sd_classes cfg]),
        bg @ concat (map L [1..<sd_classes cfg]) @ drop ?k (concat Ks @ rest))"
    using lens m(3) cut(2) lenL by (simp add: ssd_cut_def Let_def ps [simplified] comp_def)
  then show ?thesis using S(1) srt lenL
    by (intro exI [of _ S] exI [of _ "map L [1..<sd_classes cfg]"]) (simp add: L_def)
qed


section \<open>Witnesses, and the memory that is read before it is written\<close>

text \<open>Three priors side by side; all of them background, the first one also the object.\<close>

definition three_boxes :: "ibox list" where
  "three_boxes = [\<lparr>b_x1 = 0, b_y1 = 0, b_x2 = 9, b_y2 = 9\<rparr>, \<lparr>b_x1 = 20, b_y1 = 0, b_x2 = 29, b_y2 = 9\<rparr>,
     \<lparr>b_x1 = 40, b_y1 = 0, b_x2 = 49, b_y2 = 9\<rparr>]"

definition two_classes :: ssd_cfg where
  "two_classes = \<lparr>sd_conf = 1, sd_classes = 2, sd_topk = 3, sd_keep = 2, sd_nms = 1228, sd_chn = [12]\<rparr>"

definition sample_scores :: "nat \<Rightarrow> int" where
  "sample_scores j = (if even j then 4000 else if j = 1 then 96 else 0)"

definition no_det :: det where
  "no_det = \<lparr>d_score = 0, d_box = \<lparr>b_x1 = 0, b_y1 = 0, b_x2 = 0, b_y2 = 0\<rparr>\<rparr>"

text \<open>A row left over from an earlier run, marked as of class 1.\<close>

definition ghost :: proposal where
  "ghost = tagged 1 \<lparr>d_score = 77, d_box = \<lparr>b_x1 = 5, b_y1 = 5, b_x2 = 6, b_y2 = 6\<rparr>\<rparr>"

lemma DetectionOutForward_classes_witness:
  "\<exists>nums dst. DetectionOutForward 2 step_exp (two_classes\<lparr>sd_keep := 100\<rparr>) (\<lambda>i j. 0) (\<lambda>i. int) sample_scores [] (replicate 6 no_det)
     = Some (nums, dst) \<and> length nums = 2 \<and> sum_list nums \<le> 6"
proof -
  let ?cfg = "two_classes\<lparr>sd_keep := 100\<rparr>"
  have n: "3 = length (ssd_boxes step_exp ?cfg (\<lambda>i j. 0) (\<lambda>i. int))"
    by (simp add: ssd_boxes_def two_classes_def Let_def)
  obtain Ks where Ks: "length Ks = 2" "length (Ks ! 0) \<le> 3" "length (Ks ! 1) \<le> 3"
    "DetectionOutForward 2 step_exp ?cfg (\<lambda>i j. 0) (\<lambda>i. int) sample_scores [] (replicate 6 no_det) =
       (if 100 < length (concat Ks) then ssd_cut 2 ?cfg [] (map length Ks) (map det_of (concat Ks) @ drop (length (concat Ks)) (replicate 6 no_det))
        else Some (map length Ks, map det_of (concat Ks) @ drop (length (concat Ks)) (replicate 6 no_det)))"
    using DetectionOutForward_classes [OF n, of 2 "replicate 6 no_det" sample_scores "[]"]
    by (auto simp: two_classes_def sort_room_def Let_def numeral_2_eq_2)
  obtain K0 K1 where "Ks = [K0, K1]" using Ks(1) by (auto simp: numeral_2_eq_2 length_Suc_conv)
  then show ?thesis using Ks(2-) by auto
qed

lemma ssd_cut_correct_witness:
  "\<exists>nums dst. ssd_cut 2 (two_classes\<lparr>sd_keep := 1\<rparr>) [ghost, ghost] [0, 2] [no_det, no_det, no_det] = Some (nums, dst) \<and> nums = [0, 1]"
  using ssd_cut_correct [of "two_classes\<lparr>sd_keep := 1\<rparr>" "[[no_det, no_det]]" 2 "[ghost, ghost]" 2 "[]" "[no_det]"]
  by (auto simp: two_classes_def sort_room_def upt_rec [of _ 2] numeral_2_eq_2)

text \<open>
  The decision to cut counts the background rows, the cut itself does not have them: with three
  background rows, one object and room for two results, the second row that is kept is one that
  this run never wrote. When the memory still holds a row of an earlier picture there, that row is
  reported as a second object; in cleared memory only the one object is.
\<close>

lemma ssd_cut_reads_stale_rows:
  "map_option (\<lambda>(nums, dst). (nums, map d_score (take 2 (drop 3 dst))))
     (ssd_select 3 two_classes (ssd_rows two_classes sample_scores three_boxes) (replicate 3 ghost) (replicate 6 no_det))
       = Some ([3, 2], [96, 77]) \<and>
   map_option (\<lambda>(nums, dst). (nums, map d_score (take 2 (drop 3 dst))))
     (ssd_select 3 two_classes (ssd_rows two_classes sample_scores three_boxes) (replicate 3 (row_of (hd three_boxes) 0)) (replicate 6 no_det))
       = Some ([3, 1], [96, 0])"
  by code_simp


end
