(* ===== verification/Nnie_Yolo.thy ===== *)
theory Nnie_Yolo
  imports Nnie_Ssd
begin

text \<open>
  The YOLO v2 and v3 post-processing (sample_svp_nnie_software.c): \<open>SVP_NNIE_Yolov2_Iou\<close>,
  \<open>SVP_NNIE_Yolov2_NonMaxSuppression\<close>, \<open>SVP_NNIE_Yolov2_GetResult\<close> and
  \<open>SVP_NNIE_Yolov3_GetResult\<close>, and the two nested loops all YOLO suppressions consist of.

  A blob is a function from word indices to words, the permuted copy and the boxes are lists, and
  the result arrays, filled in step, are one list of rows with the coordinates in the order
  \<open>xmin, ymin, xmax, ymax\<close>. \<open>None\<close> stands for a write beyond the results and a sort that
  overruns its stack.
\<close>

section \<open>The suppression loops\<close>

text \<open>
  \<open>strike_loop\<close> is the inner loop, over \<open>k\<close> rows from \<open>j\<close> on; \<open>suppress_loop\<close> the outer one, over
  \<open>k\<close> rows from \<open>i\<close> on, which runs while \<open>go\<close> holds of the number of rows kept so far.
\<close>

fun strike_loop :: "('a \<Rightarrow> bool) \<Rightarrow> ('a \<Rightarrow> 'a) \<Rightarrow> ('a \<Rightarrow> 'a \<Rightarrow> bool) \<Rightarrow> 'a \<Rightarrow> nat \<Rightarrow> nat \<Rightarrow> 'a list \<Rightarrow> 'a list" where
  "strike_loop live kill hit a 0 j xs = xs"
| "strike_loop live kill hit a (Suc k) j xs =
     strike_loop live kill hit a k (Suc j) (if live (xs ! j) \<and> hit a (xs ! j) then xs[j := kill (xs ! j)] else xs)"

fun suppress_loop :: "('a \<Rightarrow> bool) \<Rightarrow> ('a \<Rightarrow> 'a) \<Rightarrow> ('a \<Rightarrow> 'a \<Rightarrow> bool) \<Rightarrow> (nat \<Rightarrow> bool) \<Rightarrow> nat \<Rightarrow> nat \<Rightarrow> nat
    \<Rightarrow> 'a list \<Rightarrow> 'a list" where
  "suppress_loop live kill hit go 0 i num xs = xs"
| "suppress_loop live kill hit go (Suc k) i num xs =
     (if go num then
        (if live (xs ! i)
         then suppress_loop live kill hit go k (Suc i) (Suc num) (strike_loop live kill hit (xs ! i) k (Suc i) xs)
         else suppress_loop live kill hit go k (Suc i) num xs)
      else xs)"

lemma take_drop_Cons: "i < length xs \<Longrightarrow> take (Suc k) (drop i xs) = xs ! i # take k (drop (Suc i) xs)"
  by (simp add: Cons_nth_drop_Suc [symmetric])

lemma split_at: "i + k \<le> length xs \<Longrightarrow> take i xs @ take k (drop i xs) @ drop (i + k) xs = xs"
  by (metis append_take_drop_id drop_drop add.commute)

lemma strike_loop_eq:
  "j + k \<le> length xs \<Longrightarrow> strike_loop live kill hit a k j xs =
     take j xs @ map (\<lambda>y. if live y \<and> hit a y then kill y else y) (take k (drop j xs)) @ drop (j + k) xs"
proof (induction k arbitrary: j xs)
  case 0
  then show ?case by simp
next
  case (Suc k)
  let ?f = "\<lambda>y. if live y \<and> hit a y then kill y else y"
  let ?xs = "xs[j := ?f (xs ! j)]"
  have j: "j < length xs" using Suc.prems by simp
  have "(if live (xs ! j) \<and> hit a (xs ! j) then xs[j := kill (xs ! j)] else xs) = ?xs" by simp
  then have "strike_loop live kill hit a (Suc k) j xs =
      take (Suc j) ?xs @ map ?f (take k (drop (Suc j) ?xs)) @ drop (Suc j + k) ?xs"
    using Suc by simp
  also have "take (Suc j) ?xs = take j xs @ [?f (xs ! j)]" using j by (simp add: take_Suc_conv_app_nth)
  finally show ?case unfolding take_drop_Cons [OF j] by (simp add: drop_update_cancel)
qed

lemma suppress_loop_eq:
  "i + k \<le> length xs \<Longrightarrow> suppress_loop live kill hit (\<lambda>n. n < m) k i num xs =
     take i xs @ greedy live kill hit (m - num) (take k (drop i xs)) @ drop (i + k) xs"
proof (induction k arbitrary: i num xs)
  case 0
  then show ?case by simp
next
  case (Suc k)
  have i: "i < length xs" using Suc.prems by simp
  note ck = take_drop_Cons [OF i, of k]
  have ti: "take (Suc i) xs = take i xs @ [xs ! i]" using i by (simp add: take_Suc_conv_app_nth)
  consider "\<not> num < m" | "num < m" "live (xs ! i)" | "num < m" "\<not> live (xs ! i)" by blast
  then show ?case
  proof cases
    case 1
    then show ?thesis using split_at [OF Suc.prems] by simp
  next
    case 2
    let ?ys = "strike_loop live kill hit (xs ! i) k (Suc i) xs"
    have ys: "?ys = take (Suc i) xs @ map (\<lambda>y. if live y \<and> hit (xs ! i) y then kill y else y)
        (take k (drop (Suc i) xs)) @ drop (Suc i + k) xs"
      using Suc.prems by (intro strike_loop_eq) simp
    have parts: "take (Suc i) ?ys = take (Suc i) xs" "drop (Suc i + k) ?ys = drop (Suc i + k) xs"
      "take k (drop (Suc i) ?ys) = map (\<lambda>y. if live y \<and> hit (xs ! i) y then kill y else y) (take k (drop (Suc i) xs))"
      "length ?ys = length xs"
      unfolding ys using Suc.prems by simp_all
    have "suppress_loop live kill hit (\<lambda>n. n < m) (Suc k) i num xs =
        suppress_loop live kill hit (\<lambda>n. n < m) k (Suc i) (Suc num) ?ys" using 2 by simp
    also have "\<dots> = take (Suc i) ?ys @ greedy live kill hit (m - Suc num) (take k (drop (Suc i) ?ys)) @ drop (Suc i + k) ?ys"
      using Suc.prems parts(4) by (intro Suc.IH) simp
    finally show ?thesis unfolding parts ck using 2 by (simp add: ti greedy_Cons)
  next
    case 3
    then have "suppress_loop live kill hit (\<lambda>n. n < m) (Suc k) i num xs =
        take (Suc i) xs @ greedy live kill hit (m - num) (take k (drop (Suc i) xs)) @ drop (Suc i + k) xs"
      using Suc by simp
    then show ?thesis unfolding ck using 3 by (simp add: ti greedy_Cons)
  qed
qed

lemma suppress_loop_cong:
  "(\<And>n. n < num + k \<Longrightarrow> go n = go' n) \<Longrightarrow>
   suppress_loop live kill hit go k i num xs = suppress_loop live kill hit go' k i num xs"
proof (induction k arbitrary: i num xs)
  case 0
  then show ?case by simp
next
  case (Suc k)
  from Suc.prems have "go num = go' num" by simp
  moreover have "suppress_loop live kill hit go k (Suc i) n ys = suppress_loop live kill hit go' k (Suc i) n ys"
    if "n \<le> Suc num" for n ys using Suc.prems that by (intro Suc.IH) simp
  ultimately show ?case by simp
qed

section \<open>Boxes\<close>

record bbox =
  y_xmin :: cfloat
  y_xmax :: cfloat
  y_ymin :: cfloat
  y_ymax :: cfloat
  y_score :: int
  y_class :: nat
  y_mask :: int

definition Yolov2_Iou :: "bbox \<Rightarrow> bbox \<Rightarrow> cfloat" where
  "Yolov2_Iou a b =
     (let w = fsub F32 (fMIN (y_xmax a) (y_xmax b)) (fMAX (y_xmin a) (y_xmin b));
          h = fsub F32 (fMIN (y_ymax a) (y_ymax b)) (fMAX (y_ymin a) (y_ymin b))
      in if fle w (Fin 0) \<or> fle h (Fin 0) then Fin 0
         else (let inter = cvt F64 (fmul F32 w h);
                   a1 = cvt F64 (fmul F32 (fsub F32 (y_xmax a) (y_xmin a)) (fsub F32 (y_ymax a) (y_ymin a)));
                   a2 = cvt F64 (fmul F32 (fsub F32 (y_xmax b) (y_xmin b)) (fsub F32 (y_ymax b) (y_ymin b)))
               in fdiv F64 inter (fsub F64 (fadd F64 a1 a2) inter)))"

abbreviation y_live :: "bbox \<Rightarrow> bool" where
  "y_live b \<equiv> y_mask b = 0"

definition set_mask :: "bbox \<Rightarrow> bbox" where
  "set_mask b = b\<lparr>y_mask := 1\<rparr>"

definition yolo_hit :: "int \<Rightarrow> bbox \<Rightarrow> bbox \<Rightarrow> bool" where
  "yolo_hit thresh a b \<longleftrightarrow> fle (fdiv F64 (of_s32 F64 (u32 thresh)) (of_s32 F64 4096)) (Yolov2_Iou a b)"

definition Yolov2_NonMaxSuppression :: "bbox list \<Rightarrow> nat \<Rightarrow> int \<Rightarrow> nat \<Rightarrow> bbox list" where
  "Yolov2_NonMaxSuppression xs n thresh maxroi =
     suppress_loop y_live set_mask (yolo_hit thresh) (\<lambda>num. num < maxroi) n 0 0 xs"

section \<open>YOLO v2\<close>

record yolo_cfg =
  yc_classes :: nat
  yc_each :: nat
  yc_src_width :: nat
  yc_src_height :: nat
  yc_maxroi :: nat
  yc_nms :: int
  yc_conf :: int

record yolo_grid =
  yg_width :: nat
  yg_height :: nat
  yg_bias :: "nat \<Rightarrow> cfloat"

text \<open>
  The permutation: \<open>cstep\<close> and \<open>hstep\<close> are the distances of channels and of lines in the blob,
  \<open>per_cell\<close> the number of channels.
\<close>

definition yolo_permute :: "yolo_grid \<Rightarrow> nat \<Rightarrow> nat \<Rightarrow> nat \<Rightarrow> (nat \<Rightarrow> int) \<Rightarrow> cfloat list" where
  "yolo_permute g per_cell cstep hstep blob =
     concat (map (\<lambda>h. concat (map (\<lambda>w. map (\<lambda>c. q12 (blob (c * cstep + h * hstep + w))) [0..<per_cell])
       [0..<yg_width g])) [0..<yg_height g])"

definition of_nat32 :: "nat \<Rightarrow> cfloat" where
  "of_nat32 n = of_s32 F32 (int n)"

text \<open>The box around \<open>x, y\<close>; its score in Q12, and the test, which compares as unsigned.\<close>

definition bbox_at :: "cfloat \<Rightarrow> cfloat \<Rightarrow> cfloat \<Rightarrow> cfloat \<Rightarrow> int \<Rightarrow> nat \<Rightarrow> bbox" where
  "bbox_at x y w h score idx =
     \<lparr>y_xmin = fsub F32 x (fmul F32 w half), y_xmax = fadd F32 x (fmul F32 w half),
      y_ymin = fsub F32 y (fmul F32 h half), y_ymax = fadd F32 y (fmul F32 h half),
      y_score = score, y_class = idx + 1, y_mask = 0\<rparr>"

definition class_score :: "cfloat \<Rightarrow> cfloat \<Rightarrow> int" where
  "class_score mx obj = to_s32 (fmul F32 (fmul F32 mx obj) (of_s32 F32 4096))"

definition yolo2_box :: "(cfloat \<Rightarrow> cfloat) \<Rightarrow> yolo_cfg \<Rightarrow> yolo_grid \<Rightarrow> (nat \<Rightarrow> cfloat) \<Rightarrow> nat \<Rightarrow> nat \<Rightarrow> bbox list" where
  "yolo2_box cexp cfg g v n k =
     (let x = fdiv F32 (fadd F32 (of_nat32 (n mod yg_width g)) (SIGMOID cexp (v 0))) (of_nat32 (yg_width g));
          y = fdiv F32 (fadd F32 (of_nat32 (n div yg_width g)) (SIGMOID cexp (v 1))) (of_nat32 (yg_height g));
          w = cvt F32 (fdiv F64 (fmul F64 (cexp (cvt F64 (v 2))) (cvt F64 (yg_bias g (2 * k)))) (of_s32 F64 (int (yg_width g))));
          h = cvt F32 (fdiv F64 (fmul F64 (cexp (cvt F64 (v 3))) (cvt F64 (yg_bias g (2 * k + 1)))) (of_s32 F64 (int (yg_height g))));
          best = GetMaxVal (SoftMax (map (\<lambda>c. v (5 + c)) [0..<yc_classes cfg]));
          score = class_score (fst best) (SIGMOID cexp (v 4))
      in if u32 (yc_conf cfg) < u32 score then [bbox_at x y w h score (snd best)] else [])"

definition yolo2_boxes :: "(cfloat \<Rightarrow> cfloat) \<Rightarrow> yolo_cfg \<Rightarrow> yolo_grid \<Rightarrow> (nat \<Rightarrow> int) \<Rightarrow> bbox list" where
  "yolo2_boxes cexp cfg g blob =
     (let grid = yg_width g * yg_height g; para = 4 + 1 + yc_classes cfg;
          tmp = yolo_permute g (yc_each cfg * para) grid (yg_width g) blob
      in concat (map (\<lambda>n. concat (map (\<lambda>k. yolo2_box cexp cfg g (\<lambda>c. tmp ! ((n * yc_each cfg + k) * para + c)) n k)
           [0..<yc_each cfg])) [0..<grid]))"

text \<open>
  The output loop over the boxes, for those with property \<open>P\<close>, while fewer than \<open>maxn\<close> are written
  (past \<open>maxn\<close> the loop of v2 stops and that of v3 does nothing).
\<close>

fun put_boxes :: "(bbox \<Rightarrow> bool) \<Rightarrow> (bbox \<Rightarrow> det) \<Rightarrow> nat \<Rightarrow> bbox list \<Rightarrow> nat \<Rightarrow> nat \<Rightarrow> det list \<Rightarrow> (nat \<times> det list) option" where
  "put_boxes P conv maxn [] off cnt dst = Some (cnt, dst)"
| "put_boxes P conv maxn (b # bs) off cnt dst =
     (if P b \<and> cnt < maxn then
        (if off + cnt < length dst then put_boxes P conv maxn bs off (Suc cnt) (dst[off + cnt := conv b]) else None)
      else put_boxes P conv maxn bs off cnt dst)"

definition yolo2_det :: "yolo_cfg \<Rightarrow> bbox \<Rightarrow> det" where
  "yolo2_det cfg b =
     (let W = of_nat32 (yc_src_width cfg); H = of_nat32 (yc_src_height cfg)
      in \<lparr>d_score = y_score b, d_box =
           \<lparr>b_x1 = to_s32 (fMAX (fmul F32 (y_xmin b) W) (Fin 0)), b_y1 = to_s32 (fMAX (fmul F32 (y_ymin b) H) (Fin 0)),
            b_x2 = to_s32 (fMIN (fmul F32 (y_xmax b) W) W), b_y2 = to_s32 (fMIN (fmul F32 (y_ymax b) H) H)\<rparr>\<rparr>)"

definition Yolov2_GetResult :: "nat \<Rightarrow> (cfloat \<Rightarrow> cfloat) \<Rightarrow> yolo_cfg \<Rightarrow> yolo_grid \<Rightarrow> (nat \<Rightarrow> int) \<Rightarrow> det list
    \<Rightarrow> (nat list \<times> det list) option" where
  "Yolov2_GetResult cap cexp cfg g blob dst =
     (let bs = yolo2_boxes cexp cfg g blob; n = length bs
      in case (if 1 < n then yolo_sort_rows cap y_score 0 n bs else Some bs) of
           None \<Rightarrow> None
         | Some ps \<Rightarrow>
             let qs = Yolov2_NonMaxSuppression ps n (yc_nms cfg) (yc_maxroi cfg)
             in map_option (\<lambda>(nums, dst'). (0 # nums, dst'))
                  (class_blocks (\<lambda>i off. put_boxes (\<lambda>b. y_live b \<and> i = y_class b) (yolo2_det cfg)
                     (yc_maxroi cfg - off) qs off 0) [1..<yc_classes cfg + 1] 0 dst))"

section \<open>YOLO v3\<close>

text \<open>
  \<open>infer\<close> is the number of values per box, \<open>SAMPLE_SVP_NNIE_YOLOV3_EACH_BBOX_INFER_RESULT_NUM\<close>
  (85, or 9 in the other build), and the list of grids has one entry per blob (three, or two).
  The sigmoid is applied in place; the model is for \<open>yc_classes + 5 \<le> infer\<close>, where the boxes do not
  share values.
\<close>

definition yolo3_box :: "(cfloat \<Rightarrow> cfloat) \<Rightarrow> yolo_cfg \<Rightarrow> yolo_grid \<Rightarrow> (nat \<Rightarrow> cfloat) \<Rightarrow> nat \<Rightarrow> nat \<Rightarrow> bbox list" where
  "yolo3_box cexp cfg g v j k =
     (let x = fdiv F32 (fadd F32 (of_nat32 (j mod yg_width g)) (SIGMOID cexp (v 0))) (of_nat32 (yg_width g));
          y = fdiv F32 (fadd F32 (of_nat32 (j div yg_width g)) (SIGMOID cexp (v 1))) (of_nat32 (yg_height g));
          w = fdiv F32 (cvt F32 (fmul F64 (cexp (cvt F64 (v 2))) (cvt F64 (yg_bias g (2 * k))))) (of_nat32 (yc_src_width cfg));
          h = fdiv F32 (cvt F32 (fmul F64 (cexp (cvt F64 (v 3))) (cvt F64 (yg_bias g (2 * k + 1))))) (of_nat32 (yc_src_height cfg));
          sg = Sigmoid cexp (map (\<lambda>c. v (4 + c)) [0..<yc_classes cfg + 1]);
          best = GetMaxVal (tl sg);
          score = class_score (fst best) (hd sg)
      in if u32 (yc_conf cfg) < u32 score then [bbox_at x y w h score (snd best)] else [])"

record yolo3_blob = yolo_grid +
  yg_stride :: nat
  yg_data :: "nat \<Rightarrow> int"

definition yolo3_boxes :: "(cfloat \<Rightarrow> cfloat) \<Rightarrow> nat \<Rightarrow> yolo_cfg \<Rightarrow> yolo3_blob \<Rightarrow> bbox list" where
  "yolo3_boxes cexp infer cfg b =
     (let g = yolo_grid.truncate b;
          tmp = yolo_permute g (infer * yc_each cfg) (yg_height b * yg_stride b div 4) (yg_stride b div 4) (yg_data b)
      in concat (map (\<lambda>j. concat (map (\<lambda>k. yolo3_box cexp cfg g (\<lambda>c. tmp ! ((j * yc_each cfg + k) * infer + c)) j k)
           [0..<yc_each cfg])) [0..<yg_width b * yg_height b]))"

definition yolo3_det :: "yolo_cfg \<Rightarrow> bbox \<Rightarrow> det" where
  "yolo3_det cfg b =
     (let W = int (yc_src_width cfg); H = int (yc_src_height cfg);
          px = (\<lambda>v n. to_s32 (fmul F32 v (of_s32 F32 n)));
          lo = (\<lambda>x. if 0 < x then x else 0);
          hi = (\<lambda>x n. s32 (if u32 x < n then u32 x else n))
      in \<lparr>d_score = y_score b, d_box =
           \<lparr>b_x1 = lo (px (y_xmin b) W), b_y1 = lo (px (y_ymin b) H),
            b_x2 = hi (px (y_xmax b) W) W, b_y2 = hi (px (y_ymax b) H) H\<rparr>\<rparr>)"

text \<open>The limit handed to the suppression is the size of a box in words, not a number of regions.\<close>

definition bbox_words :: nat where
  "bbox_words = 28 div 4"

definition Yolov3_GetResult :: "nat \<Rightarrow> (cfloat \<Rightarrow> cfloat) \<Rightarrow> nat \<Rightarrow> yolo_cfg \<Rightarrow> yolo3_blob list \<Rightarrow> det list
    \<Rightarrow> (nat list \<times> det list) option" where
  "Yolov3_GetResult cap cexp infer cfg blobs dst =
     (let bs = concat (map (yolo3_boxes cexp infer cfg) blobs); n = length bs
      in case yolo_sort_rows cap y_score 0 n bs of
           None \<Rightarrow> None
         | Some ps \<Rightarrow>
             let qs = Yolov2_NonMaxSuppression ps n (yc_nms cfg) bbox_words
             in class_blocks (\<lambda>i off. put_boxes (\<lambda>b. y_live b \<and> i = y_class b) (yolo3_det cfg) (yc_maxroi cfg) qs off 0)
                  [1..<yc_classes cfg] 0 dst)"

section \<open>The permutation\<close>

lemma length_yolo_permute: "length (yolo_permute g per cstep hstep blob) = per * (yg_width g * yg_height g)"
proof -
  have "length (concat (map (\<lambda>w. map (\<lambda>c. q12 (blob (c * cstep + h * hstep + w))) [0..<per]) [0..<yg_width g])) =
      per * yg_width g" for h by (subst length_concat_uniform [of _ per]) auto
  then show ?thesis unfolding yolo_permute_def
    by (subst length_concat_uniform [of _ "per * yg_width g"]) auto
qed

lemma nth_yolo_permute:
  assumes "h < yg_height g" "w < yg_width g" "c < per"
  shows "yolo_permute g per cstep hstep blob ! (per * (h * yg_width g + w) + c) = q12 (blob (c * cstep + h * hstep + w))"
proof -
  let ?line = "\<lambda>h. concat (map (\<lambda>w. map (\<lambda>c. q12 (blob (c * cstep + h * hstep + w))) [0..<per]) [0..<yg_width g])"
  have line: "length (?line h) = per * yg_width g" for h by (subst length_concat_uniform [of _ per]) auto
  have "per * w + c < per * Suc w" using assms(3) by simp
  also have "\<dots> \<le> per * yg_width g" using assms(2) by (intro mult_le_mono2) simp
  finally have lt: "per * w + c < per * yg_width g" .
  have "yolo_permute g per cstep hstep blob ! ((per * yg_width g) * h + (per * w + c)) =
      map ?line [0..<yg_height g] ! h ! (per * w + c)"
    unfolding yolo_permute_def using assms lt by (intro concat_nth_uniform) (auto simp: line)
  also have "\<dots> = ?line h ! (per * w + c)" using assms by simp
  also have "\<dots> = map (\<lambda>w. map (\<lambda>c. q12 (blob (c * cstep + h * hstep + w))) [0..<per]) [0..<yg_width g] ! w ! c"
    using assms by (intro concat_nth_uniform) auto
  finally show ?thesis using assms by (simp add: algebra_simps)
qed

text \<open>
  The permutation of the YOLO stages: value \<open>c\<close> of box \<open>k\<close> of grid cell \<open>n\<close>, which the decoding
  reads at \<open>(n * each + k) * para + c\<close>, is the word of channel \<open>k * para + c\<close> of the blob at the line
  and column of the cell, read in Q12.
\<close>

lemma yolo_permute_cell:
  assumes "n < yg_width g * yg_height g" "k < each" "c < para"
  shows "yolo_permute g (each * para) cstep hstep blob ! ((n * each + k) * para + c) =
    q12 (blob ((k * para + c) * cstep + n div yg_width g * hstep + n mod yg_width g))"
proof -
  have w: "0 < yg_width g" using assms(1) by (cases "yg_width g") auto
  have h: "n div yg_width g < yg_height g" using assms(1) by (simp add: less_mult_imp_div_less mult.commute)
  have "k * para + c < Suc k * para" using assms(3) by simp
  also have "\<dots> \<le> each * para" using assms(2) by (intro mult_le_mono1) simp
  finally have "k * para + c < each * para" .
  from nth_yolo_permute [OF h mod_less_divisor [OF w, of n] this, of cstep hstep blob]
  have "yolo_permute g (each * para) cstep hstep blob ! (each * para * n + (k * para + c)) =
      q12 (blob ((k * para + c) * cstep + n div yg_width g * hstep + n mod yg_width g))"
    unfolding div_mult_mod_eq .
  then show ?thesis by (simp add: algebra_simps)
qed

definition two_cells :: yolo_grid where
  "two_cells = \<lparr>yg_width = 2, yg_height = 1, yg_bias = (\<lambda>i. Fin 1)\<rparr>"

lemma yolo_permute_cell_witness:
  "yolo_permute two_cells (2 * 3) 2 2 int ! ((1 * 2 + 1) * 3 + 2) = q12 11"
  using yolo_permute_cell [of 1 two_cells 1 2 2 3 2 2 int] by (simp add: two_cells_def)

section \<open>Suppression\<close>

lemma set_mask_sel [simp]:
  "y_mask (set_mask b) = 1" "y_score (set_mask b) = y_score b" "y_class (set_mask b) = y_class b"
  by (simp_all add: set_mask_def)

interpretation yolo: suppression y_live set_mask "yolo_hit thresh" for thresh
  by unfold_locales simp

text \<open>
  C11. \<open>SVP_NNIE_Yolov2_NonMaxSuppression\<close>, two nested loops over an array, implements the greedy
  suppression of the specification, on the first \<open>n\<close> boxes and nothing else.
\<close>

theorem Yolov2_NonMaxSuppression_refines:
  assumes "n \<le> length xs"
  shows "Yolov2_NonMaxSuppression xs n thresh maxroi =
    greedy y_live set_mask (yolo_hit thresh) maxroi (take n xs) @ drop n xs"
  using suppress_loop_eq [of 0 n xs y_live set_mask "yolo_hit thresh" maxroi 0] assms
  by (simp add: Yolov2_NonMaxSuppression_def)

definition unit_box :: "nat \<Rightarrow> bbox" where
  "unit_box i = \<lparr>y_xmin = Fin (of_nat i), y_xmax = Fin (of_nat i + 1), y_ymin = Fin 0, y_ymax = Fin 1,
     y_score = 100 - int i, y_class = 1, y_mask = 0\<rparr>"

lemma Yolov2_NonMaxSuppression_refines_witness:
  "Yolov2_NonMaxSuppression [unit_box 0, unit_box 5] 1 1228 7 = greedy y_live set_mask (yolo_hit 1228) 7 [unit_box 0] @ [unit_box 5]"
  using Yolov2_NonMaxSuppression_refines [of 1 "[unit_box 0, unit_box 5]" 1228 7] by simp

lemma yolo_suppress_all:
  "Yolov2_NonMaxSuppression xs (length xs) thresh m = greedy y_live set_mask (yolo_hit thresh) m xs"
  using suppress_loop_eq [of 0 "length xs" xs y_live set_mask "yolo_hit thresh" m 0]
  by (simp add: Yolov2_NonMaxSuppression_def)

definition yolo_sorted :: "bbox list \<Rightarrow> bool" where
  "yolo_sorted S \<longleftrightarrow> sorted_wrt (\<lambda>a b. y_score b \<le> y_score a) S"

text \<open>What stays of the sorted boxes \<open>S\<close>.\<close>

definition yolo_kept :: "int \<Rightarrow> nat \<Rightarrow> bbox list \<Rightarrow> bbox list" where
  "yolo_kept thresh m S = filter y_live (greedy y_live set_mask (yolo_hit thresh) m S)"

lemma yolo_kept_props:
  assumes "yolo_sorted S"
  shows "yolo_sorted (yolo_kept thresh m S)" "set (yolo_kept thresh m S) \<subseteq> set S"
    "sorted_wrt (\<lambda>a b. \<not> yolo_hit thresh a b) (take m (yolo_kept thresh m S))"
proof -
  have "sorted_wrt (\<lambda>a b. y_score b \<le> y_score a) (filter y_live S)"
    using assms by (simp add: yolo_sorted_def sorted_wrt_filter)
  note R = yolo.run_survivors [OF this, of thresh m]
  show "yolo_sorted (yolo_kept thresh m S)" "set (yolo_kept thresh m S) \<subseteq> set S"
    "sorted_wrt (\<lambda>a b. \<not> yolo_hit thresh a b) (take m (yolo_kept thresh m S))"
    using R by (auto simp: yolo_sorted_def yolo_kept_def)
qed

lemma sort_room_mono: "sort_room cap n \<Longrightarrow> m \<le> n \<Longrightarrow> sort_room cap m"
  by (simp add: sort_room_def)

lemma yolo_sort_all:
  assumes "sort_room cap (length bs)" "yolo_sort_rows cap y_score k (length bs) bs = Some ps"
  shows "mset ps = mset bs \<and> yolo_sorted ps \<and> length ps = length bs"
  using yqs.srt_mset_take [OF _ assms] yqs.srt_length [OF _ assms] yqs.srt_sorted_all [OF _ assms]
  by (simp add: yolo_sorted_def sorted_wrt_map)

section \<open>The output loops\<close>

lemma put_boxes_eq:
  fixes P :: "bbox \<Rightarrow> bool" and maxn :: nat
  defines "K \<equiv> \<lambda>cnt bs. take (maxn - cnt) (filter P bs)"
  shows "off + cnt + length (K cnt bs) \<le> length dst \<Longrightarrow> put_boxes P conv maxn bs off cnt dst =
    Some (cnt + length (K cnt bs), take (off + cnt) dst @ map conv (K cnt bs) @ drop (off + cnt + length (K cnt bs)) dst)"
proof (induction bs arbitrary: cnt dst)
  case Nil
  then show ?case by (simp add: K_def)
next
  case (Cons b bs)
  show ?case
  proof (cases "P b \<and> cnt < maxn")
    case True
    let ?dst = "dst[off + cnt := conv b]"
    have k: "K cnt (b # bs) = b # K (Suc cnt) bs"
      using True by (simp add: K_def take_Cons' Suc_diff_Suc)
    have lt: "off + cnt < length dst" using Cons.prems k by simp
    have "put_boxes P conv maxn bs off (Suc cnt) ?dst = Some (Suc cnt + length (K (Suc cnt) bs),
        take (off + Suc cnt) ?dst @ map conv (K (Suc cnt) bs) @ drop (off + Suc cnt + length (K (Suc cnt) bs)) ?dst)"
      using Cons.prems k by (intro Cons.IH) simp
    moreover have "take (off + Suc cnt) ?dst = take (off + cnt) dst @ [conv b]"
      using lt by (simp add: take_Suc_conv_app_nth)
    ultimately show ?thesis using True lt unfolding k by simp
  next
    case False
    then have k: "K cnt (b # bs) = K cnt bs" by (auto simp: K_def)
    show ?thesis using Cons False unfolding k by auto
  qed
qed

text \<open>Blocks under a limit for all of them together.\<close>

fun cut_blocks :: "nat \<Rightarrow> 'a list list \<Rightarrow> 'a list list" where
  "cut_blocks m [] = []"
| "cut_blocks m (K # Ks) = take m K # cut_blocks (m - length K) Ks"

lemma concat_cut_blocks: "concat (cut_blocks m Ks) = take m (concat Ks)"
  by (induction m Ks rule: cut_blocks.induct) simp_all

lemma length_cut_blocks [simp]: "length (cut_blocks m Ks) = length Ks"
  by (induction m Ks rule: cut_blocks.induct) simp_all

lemma class_blocks_cut:
  assumes step: "\<And>c off dst. off + length (take (m - off) (K c)) \<le> length dst \<Longrightarrow>
      f c off dst = Some (length (take (m - off) (K c)),
        take off dst @ take (m - off) (K c) @ drop (off + length (take (m - off) (K c))) dst)"
  defines "R \<equiv> \<lambda>off cs. cut_blocks (m - off) (map K cs)"
  shows "off + length (concat (R off cs)) \<le> length dst \<Longrightarrow> class_blocks f cs off dst =
    Some (map length (R off cs), take off dst @ concat (R off cs) @ drop (off + length (concat (R off cs))) dst)"
proof (induction cs arbitrary: off dst)
  case Nil
  then show ?case by (simp add: R_def)
next
  case (Cons c cs)
  define k where "k = take (m - off) (K c)"
  have r: "R off (c # cs) = k # R (off + length k) cs"
    by (cases "length (K c) \<le> m - off") (simp_all add: R_def k_def)
  define dst' where "dst' = take off dst @ k @ drop (off + length k) dst"
  have off: "length (take off dst) = off" using Cons.prems by (simp add: r)
  have len: "off + length k \<le> length dst" using Cons.prems by (simp add: r)
  have "class_blocks f cs (off + length k) dst' = Some (map length (R (off + length k) cs),
      take (off + length k) dst' @ concat (R (off + length k) cs) @
        drop (off + length k + length (concat (R (off + length k) cs))) dst')"
    using Cons.prems len by (intro Cons.IH) (simp add: dst'_def r)
  moreover have "take (off + length k) dst' = take off dst @ k" unfolding dst'_def using off by simp
  moreover have "drop (off + length k + length (concat (R (off + length k) cs))) dst' =
      drop (off + length (concat (R off (c # cs)))) dst"
    unfolding dst'_def r using off by (simp add: ac_simps)
  moreover have "f c off dst = Some (length k, dst')"
    using step [of off c dst] len by (simp add: k_def dst'_def)
  ultimately show ?case by (simp add: r)
qed


section \<open>Results\<close>

text \<open>A result in the image: no coordinate below the left and upper edges or beyond the others.\<close>

definition det_inside :: "nat \<Rightarrow> nat \<Rightarrow> det \<Rightarrow> bool" where
  "det_inside w h d \<longleftrightarrow> 0 \<le> b_x1 (d_box d) \<and> 0 \<le> b_y1 (d_box d) \<and>
     b_x2 (d_box d) \<le> int w \<and> b_y2 (d_box d) \<le> int h"

lemma to_s32_fMAX_0: "0 \<le> to_s32 (fMAX v (Fin 0))"
  by (cases v) (auto simp: fMAX_def trunc_def)

lemma to_s32_fMIN: "n \<le> 16777216 \<Longrightarrow> to_s32 (fMIN v (of_nat32 n)) \<le> int n"
proof -
  assume n: "n \<le> 16777216"
  then have f: "of_nat32 n = Fin (of_nat n)"
    using rnd_of_int [of "int n" F32] by (simp add: of_nat32_def of_s32_def)
  have t: "trunc (of_nat n) = int n" by (simp add: trunc_def)
  show ?thesis
  proof (cases v)
    case (Fin x)
    have "x < of_nat n \<Longrightarrow> trunc x \<le> int n" using trunc_mono [of x "of_nat n"] t by simp
    then show ?thesis using n t by (auto simp: fMIN_def f Fin)
  qed (use n t in \<open>auto simp: fMIN_def f\<close>)
qed

lemma yolo2_det_inside:
  "yc_src_width cfg \<le> 16777216 \<Longrightarrow> yc_src_height cfg \<le> 16777216 \<Longrightarrow>
     det_inside (yc_src_width cfg) (yc_src_height cfg) (yolo2_det cfg b)"
  by (simp add: det_inside_def yolo2_det_def Let_def to_s32_fMAX_0 to_s32_fMIN)

lemma yolo2_boxes_props:
  "length (yolo2_boxes cexp cfg g blob) \<le> yg_width g * yg_height g * yc_each cfg"
  "b \<in> set (yolo2_boxes cexp cfg g blob) \<Longrightarrow> u32 (yc_conf cfg) < u32 (y_score b)"
proof -
  have "length (yolo2_box cexp cfg g v n k) \<le> 1" for v n k
    by (simp add: yolo2_box_def Let_def)
  then have "length (concat (map (\<lambda>k. yolo2_box cexp cfg g (v k) n k) [0..<m])) \<le> m" for v n m
    using length_concat_le [of "map (\<lambda>k. yolo2_box cexp cfg g (v k) n k) [0..<m]" 1] by auto
  then have "length (concat (map (\<lambda>n. concat (map (\<lambda>k. yolo2_box cexp cfg g (v n k) n k) [0..<m])) [0..<N])) \<le> m * N" for v m N
    using length_concat_le [of "map (\<lambda>n. concat (map (\<lambda>k. yolo2_box cexp cfg g (v n k) n k) [0..<m])) [0..<N]" m] by auto
  then show "length (yolo2_boxes cexp cfg g blob) \<le> yg_width g * yg_height g * yc_each cfg"
    unfolding yolo2_boxes_def Let_def by (simp add: mult.commute [of _ "yc_each cfg"])
  show "b \<in> set (yolo2_boxes cexp cfg g blob) \<Longrightarrow> u32 (yc_conf cfg) < u32 (y_score b)"
    by (auto simp: yolo2_boxes_def yolo2_box_def Let_def bbox_at_def split: if_splits)
qed

lemma yolo2_result:
  assumes room: "sort_room cap (yg_width g * yg_height g * yc_each cfg)" and dst: "yc_maxroi cfg \<le> length dst"
    and im: "yc_src_width cfg \<le> 16777216" "yc_src_height cfg \<le> 16777216"
  shows "\<exists>S R Rs. mset S = mset (yolo2_boxes cexp cfg g blob) \<and> yolo_sorted S \<and>
    R = yolo_kept (yc_nms cfg) (yc_maxroi cfg) S \<and>
    Rs = cut_blocks (yc_maxroi cfg) (map (\<lambda>i. map (yolo2_det cfg) (filter (\<lambda>b. y_class b = i) R)) [1..<yc_classes cfg + 1]) \<and>
    Yolov2_GetResult cap cexp cfg g blob dst =
      Some (0 # map length Rs, concat Rs @ drop (length (concat Rs)) dst) \<and>
    length (concat Rs) \<le> yc_maxroi cfg \<and>
    sorted_wrt (\<lambda>a b. \<not> yolo_hit (yc_nms cfg) a b) (take (yc_maxroi cfg) R) \<and>
    (\<forall>d \<in> set (concat Rs). u32 (yc_conf cfg) < u32 (d_score d) \<and> det_inside (yc_src_width cfg) (yc_src_height cfg) d)"
proof -
  let ?bs = "yolo2_boxes cexp cfg g blob" and ?m = "yc_maxroi cfg"
  let ?srt = "if 1 < length ?bs then yolo_sort_rows cap y_score 0 (length ?bs) ?bs else Some ?bs"
  have r: "sort_room cap (length ?bs)" using room yolo2_boxes_props(1) by (rule sort_room_mono)
  have "\<exists>S. ?srt = Some S \<and> mset S = mset ?bs \<and> yolo_sorted S \<and> length S = length ?bs"
  proof (cases "1 < length ?bs")
    case True
    obtain ps where "yolo_sort_rows cap y_score 0 (length ?bs) ?bs = Some ps"
      using yqs.srt_total [of "length ?bs" ?bs cap] r by auto
    with yolo_sort_all [OF r this] True show ?thesis by auto
  next
    case False
    then have "length ?bs \<le> 1" by simp
    then have "yolo_sorted ?bs" by (cases ?bs) (auto simp: yolo_sorted_def)
    with False show ?thesis by simp
  qed
  then obtain S where S: "?srt = Some S" "mset S = mset ?bs" "yolo_sorted S" "length S = length ?bs" by blast
  define G where "G = greedy y_live set_mask (yolo_hit (yc_nms cfg)) ?m S"
  define R where "R = filter y_live G"
  have RS: "R = yolo_kept (yc_nms cfg) ?m S" by (simp add: R_def G_def yolo_kept_def)
  note P = yolo_kept_props [OF S(3), of "yc_nms cfg" ?m, folded RS]
  define K where "K = (\<lambda>i. map (yolo2_det cfg) (filter (\<lambda>b. y_class b = i) R))"
  define Rs where "Rs = cut_blocks ?m (map K [1..<yc_classes cfg + 1])"
  have len: "length (concat Rs) \<le> ?m" by (simp add: Rs_def concat_cut_blocks)
  have flt: "filter (\<lambda>b. y_live b \<and> i = y_class b) G = filter (\<lambda>b. y_class b = i) R" for i
    by (auto simp: R_def intro!: filter_cong)
  have step: "put_boxes (\<lambda>b. y_live b \<and> i = y_class b) (yolo2_det cfg) (?m - off) G off 0 dst =
      Some (length (take (?m - off) (K i)), take off dst @ take (?m - off) (K i) @ drop (off + length (take (?m - off) (K i))) dst)"
    if "off + length (take (?m - off) (K i)) \<le> length dst" for i off dst
    using put_boxes_eq [where cnt = 0 and maxn = "?m - off" and off = off and dst = dst and bs = G
        and P = "\<lambda>b. y_live b \<and> i = y_class b" and conv = "yolo2_det cfg"] that
    unfolding flt by (simp add: K_def take_map)
  have "class_blocks (\<lambda>i off. put_boxes (\<lambda>b. y_live b \<and> i = y_class b) (yolo2_det cfg) (?m - off) G off 0)
      [1..<yc_classes cfg + 1] 0 dst = Some (map length Rs, concat Rs @ drop (length (concat Rs)) dst)"
    using class_blocks_cut [OF step, where off = 0 and cs = "[1..<yc_classes cfg + 1]" and dst = dst] len dst by (simp add: Rs_def del: upt_Suc)
  then have res: "Yolov2_GetResult cap cexp cfg g blob dst = Some (0 # map length Rs, concat Rs @ drop (length (concat Rs)) dst)"
    using S(1,4) yolo_suppress_all [of S "yc_nms cfg" ?m]
    by (simp add: Yolov2_GetResult_def Let_def G_def del: upt_Suc split: if_splits)
  have "u32 (yc_conf cfg) < u32 (d_score d) \<and> det_inside (yc_src_width cfg) (yc_src_height cfg) d" if "d \<in> set (concat Rs)" for d
  proof -
    from that have "d \<in> set (concat (map K [1..<yc_classes cfg + 1]))"
      unfolding Rs_def concat_cut_blocks by (rule in_set_takeD)
    then obtain b where b: "b \<in> set R" "d = yolo2_det cfg b" by (auto simp: K_def)
    then have "b \<in> set ?bs" using P(2) mset_eq_setD [OF S(2)] by blast
    from yolo2_boxes_props(2) [OF this] show ?thesis
      using yolo2_det_inside [OF im, of b] by (simp add: b(2)) (simp add: yolo2_det_def Let_def)
  qed
  then show ?thesis using S(2,3) RS res len P(3)
    by (intro exI [of _ S] exI [of _ R] exI [of _ Rs]) (simp add: Rs_def K_def del: upt_Suc)
qed

text \<open>
  \<open>SVP_NNIE_Yolov2_GetResult\<close> with its buffers of the computed sizes and room for \<open>u32MaxRoiNum\<close>
  results: the boxes above the threshold, sorted by score and suppressed greedily, are listed class by
  class, cut to \<open>u32MaxRoiNum\<close> altogether, with the numbers per class (0 for the background); nothing else
  is written. So every result has a score above the threshold and lies in the image, whatever the network
  put out.
\<close>

lemma Yolov2_GetResult_correct:
  assumes room: "sort_room cap (yg_width g * yg_height g * yc_each cfg)" and dst: "yc_maxroi cfg \<le> length dst"
    and im: "yc_src_width cfg \<le> 16777216" "yc_src_height cfg \<le> 16777216"
  shows "\<exists>S R Rs. mset S = mset (yolo2_boxes cexp cfg g blob) \<and> yolo_sorted S \<and>
    R = yolo_kept (yc_nms cfg) (yc_maxroi cfg) S \<and>
    Rs = cut_blocks (yc_maxroi cfg) (map (\<lambda>i. map (yolo2_det cfg) (filter (\<lambda>b. y_class b = i) R)) [1..<yc_classes cfg + 1]) \<and>
    Yolov2_GetResult cap cexp cfg g blob dst =
      Some (0 # map length Rs, concat Rs @ drop (length (concat Rs)) dst) \<and>
    length (concat Rs) \<le> yc_maxroi cfg \<and>
    sorted_wrt (\<lambda>a b. \<not> yolo_hit (yc_nms cfg) a b) (take (yc_maxroi cfg) R) \<and>
    (\<forall>d \<in> set (concat Rs). u32 (yc_conf cfg) < u32 (d_score d) \<and> det_inside (yc_src_width cfg) (yc_src_height cfg) d)"
  using assms by (rule yolo2_result)


definition small_yolo :: yolo_cfg where
  "small_yolo = \<lparr>yc_classes = 2, yc_each = 2, yc_src_width = 416, yc_src_height = 300, yc_maxroi = 3, yc_nms = 1228, yc_conf = 100\<rparr>"

lemma small_yolo_sel:
  "yc_classes small_yolo = 2" "yc_maxroi small_yolo = 3" "sort_room 2 (yg_width two_cells * yg_height two_cells * yc_each small_yolo)"
  "yc_src_width small_yolo \<le> 16777216" "yc_src_height small_yolo \<le> 16777216"
  by (simp_all add: small_yolo_def two_cells_def sort_room_def)

lemma Yolov2_GetResult_correct_witness:
  "\<exists>nums dst. Yolov2_GetResult 2 step_exp small_yolo two_cells int (replicate 3 no_det) = Some (nums, dst) \<and>
     length nums = 3 \<and> sum_list nums \<le> 3"
proof -
  have "3 \<le> length (replicate 3 no_det)" by simp
  from Yolov2_GetResult_correct [OF small_yolo_sel(3) this [folded small_yolo_sel(2)] small_yolo_sel(4,5), of step_exp int]
  obtain S :: "bbox list" and R Rs where R:
    "Rs = cut_blocks (yc_maxroi small_yolo) (map (\<lambda>i. map (yolo2_det small_yolo) (filter (\<lambda>b. y_class b = i) R)) [1..<yc_classes small_yolo + 1])"
    "Yolov2_GetResult 2 step_exp small_yolo two_cells int (replicate 3 no_det) =
      Some (0 # map length Rs, concat Rs @ drop (length (concat Rs)) (replicate 3 no_det))"
    "length (concat Rs) \<le> yc_maxroi small_yolo"
    unfolding small_yolo_sel by blast
  have "length Rs = 2" unfolding R(1) by (simp add: small_yolo_sel)
  then show ?thesis using R(2,3) by (simp add: length_concat small_yolo_sel)
qed

lemma yolo3_det_inside:
  assumes "yc_src_width cfg \<le> 16777216" "yc_src_height cfg \<le> 16777216"
  shows "det_inside (yc_src_width cfg) (yc_src_height cfg) (yolo3_det cfg b)"
proof -
  have "s32 (if u32 x < int n then u32 x else int n) \<le> int n" if "n \<le> 16777216" for x n
    using that u32_nonneg [of x] by (auto simp: s32_small)
  then show ?thesis using assms by (simp add: det_inside_def yolo3_det_def Let_def)
qed

lemma yolo3_boxes_props:
  "length (yolo3_boxes cexp infer cfg b) \<le> yg_width b * yg_height b * yc_each cfg"
  "p \<in> set (yolo3_boxes cexp infer cfg b) \<Longrightarrow> u32 (yc_conf cfg) < u32 (y_score p)"
proof -
  have "length (yolo3_box cexp cfg g v n k) \<le> 1" for g v n k
    by (simp add: yolo3_box_def Let_def)
  then have "length (concat (map (\<lambda>k. yolo3_box cexp cfg g (v k) n k) [0..<m])) \<le> m" for g v n m
    using length_concat_le [of "map (\<lambda>k. yolo3_box cexp cfg g (v k) n k) [0..<m]" 1] by auto
  then have "length (concat (map (\<lambda>n. concat (map (\<lambda>k. yolo3_box cexp cfg g (v n k) n k) [0..<m])) [0..<N])) \<le> m * N" for g v m N
    using length_concat_le [of "map (\<lambda>n. concat (map (\<lambda>k. yolo3_box cexp cfg g (v n k) n k) [0..<m])) [0..<N]" m] by auto
  then show "length (yolo3_boxes cexp infer cfg b) \<le> yg_width b * yg_height b * yc_each cfg"
    unfolding yolo3_boxes_def Let_def by (simp add: mult.commute [of _ "yc_each cfg"])
  show "p \<in> set (yolo3_boxes cexp infer cfg b) \<Longrightarrow> u32 (yc_conf cfg) < u32 (y_score p)"
    by (auto simp: yolo3_boxes_def yolo3_box_def Let_def bbox_at_def split: if_splits)
qed

definition yolo3_total :: "yolo_cfg \<Rightarrow> yolo3_blob list \<Rightarrow> nat" where
  "yolo3_total cfg blobs = sum_list (map (\<lambda>b. yg_width b * yg_height b * yc_each cfg) blobs)"

lemma length_yolo3_all: "length (concat (map (yolo3_boxes cexp infer cfg) blobs)) \<le> yolo3_total cfg blobs"
  using yolo3_boxes_props(1) by (induction blobs) (auto simp: yolo3_total_def intro: add_mono)

lemma yolo3_result:
  assumes room: "sort_room cap (yolo3_total cfg blobs)" and dst: "(yc_classes cfg - 1) * yc_maxroi cfg \<le> length dst"
    and im: "yc_src_width cfg \<le> 16777216" "yc_src_height cfg \<le> 16777216"
  shows "\<exists>S R Rs. mset S = mset (concat (map (yolo3_boxes cexp infer cfg) blobs)) \<and> yolo_sorted S \<and>
    R = yolo_kept (yc_nms cfg) 7 S \<and>
    Rs = map (\<lambda>i. take (yc_maxroi cfg) (map (yolo3_det cfg) (filter (\<lambda>b. y_class b = i) R))) [1..<yc_classes cfg] \<and>
    Yolov3_GetResult cap cexp infer cfg blobs dst =
      Some (map length Rs, concat Rs @ drop (length (concat Rs)) dst) \<and>
    sorted_wrt (\<lambda>a b. \<not> yolo_hit (yc_nms cfg) a b) (take 7 R) \<and>
    (\<forall>d \<in> set (concat Rs). u32 (yc_conf cfg) < u32 (d_score d) \<and> det_inside (yc_src_width cfg) (yc_src_height cfg) d)"
proof -
  let ?bs = "concat (map (yolo3_boxes cexp infer cfg) blobs)" and ?m = "yc_maxroi cfg"
  have r: "sort_room cap (length ?bs)" using room length_yolo3_all by (rule sort_room_mono)
  obtain S where s: "yolo_sort_rows cap y_score 0 (length ?bs) ?bs = Some S"
    using yqs.srt_total [of "length ?bs" ?bs cap] r by auto
  have S: "mset S = mset ?bs" "yolo_sorted S" "length S = length ?bs" using yolo_sort_all [OF r s] by blast+
  define G where "G = greedy y_live set_mask (yolo_hit (yc_nms cfg)) 7 S"
  define R where "R = filter y_live G"
  have RS: "R = yolo_kept (yc_nms cfg) 7 S" by (simp add: R_def G_def yolo_kept_def)
  note P = yolo_kept_props [OF S(2), of "yc_nms cfg" 7, folded RS]
  define K where "K i = take ?m (map (yolo3_det cfg) (filter (\<lambda>b. y_class b = i) R))" for i
  have len: "length (concat (map K cs)) \<le> length cs * ?m" for cs
  proof -
    have "length x \<le> ?m" if "x \<in> set (map K cs)" for x using that by (auto simp: K_def)
    then show ?thesis using length_concat_le [of "map K cs" ?m] by (metis length_map mult.commute)
  qed
  have flt: "filter (\<lambda>b. y_live b \<and> i = y_class b) G = filter (\<lambda>b. y_class b = i) R" for i
    by (auto simp: R_def intro!: filter_cong)
  have step: "put_boxes (\<lambda>b. y_live b \<and> i = y_class b) (yolo3_det cfg) ?m G off 0 dst =
      Some (length (K i), take off dst @ K i @ drop (off + length (K i)) dst)"
    if "off + length (K i) \<le> length dst" for i off dst
    using put_boxes_eq [where cnt = 0 and maxn = ?m and off = off and dst = dst and bs = G
        and P = "\<lambda>b. y_live b \<and> i = y_class b" and conv = "yolo3_det cfg"] that
    unfolding flt by (simp add: K_def take_map)
  have "class_blocks (\<lambda>i off. put_boxes (\<lambda>b. y_live b \<and> i = y_class b) (yolo3_det cfg) ?m G off 0)
      [1..<yc_classes cfg] 0 dst = Some (map (\<lambda>i. length (K i)) [1..<yc_classes cfg],
        take 0 dst @ concat (map K [1..<yc_classes cfg]) @ drop (0 + length (concat (map K [1..<yc_classes cfg]))) dst)"
    using step dst len [of "[1..<yc_classes cfg]"] by (intro class_blocks_eq) auto
  then have res: "Yolov3_GetResult cap cexp infer cfg blobs dst = Some (map length (map K [1..<yc_classes cfg]),
      concat (map K [1..<yc_classes cfg]) @ drop (length (concat (map K [1..<yc_classes cfg]))) dst)"
    using s S(3) yolo_suppress_all [of S "yc_nms cfg" 7]
    by (simp add: Yolov3_GetResult_def Let_def G_def bbox_words_def comp_def)
  have "u32 (yc_conf cfg) < u32 (d_score d) \<and> det_inside (yc_src_width cfg) (yc_src_height cfg) d"
    if "d \<in> set (concat (map K [1..<yc_classes cfg]))" for d
  proof -
    from that obtain b where b: "b \<in> set R" "d = yolo3_det cfg b" by (auto simp: K_def dest!: in_set_takeD)
    then have "b \<in> set ?bs" using P(2) mset_eq_setD [OF S(1)] by blast
    then have "u32 (yc_conf cfg) < u32 (y_score b)" using yolo3_boxes_props(2) by auto
    then show ?thesis
      using yolo3_det_inside [OF im, of b] by (simp add: b(2)) (simp add: yolo3_det_def Let_def)
  qed
  then show ?thesis using S(1,2) RS res P(3)
    by (intro exI [of _ S] exI [of _ R] exI [of _ "map K [1..<yc_classes cfg]"]) (simp add: K_def)
qed

lemma yolo3_result_lengths:
  assumes "sort_room cap (yolo3_total cfg blobs)" "(yc_classes cfg - 1) * yc_maxroi cfg \<le> length dst"
    and "yc_src_width cfg \<le> 16777216" "yc_src_height cfg \<le> 16777216"
  shows "\<exists>Rs. Yolov3_GetResult cap cexp infer cfg blobs dst = Some (map length Rs, concat Rs @ drop (length (concat Rs)) dst) \<and>
    length Rs = yc_classes cfg - 1 \<and> (\<forall>R \<in> set Rs. length R \<le> yc_maxroi cfg) \<and>
    (\<forall>d \<in> set (concat Rs). u32 (yc_conf cfg) < u32 (d_score d) \<and> det_inside (yc_src_width cfg) (yc_src_height cfg) d)"
proof -
  obtain S R Rs where "Rs = map (\<lambda>i. take (yc_maxroi cfg) (map (yolo3_det cfg) (filter (\<lambda>b. y_class b = i) R))) [1..<yc_classes cfg]"
    and r: "Yolov3_GetResult cap cexp infer cfg blobs dst = Some (map length Rs, concat Rs @ drop (length (concat Rs)) dst)"
      "\<forall>d \<in> set (concat Rs). u32 (yc_conf cfg) < u32 (d_score d) \<and> det_inside (yc_src_width cfg) (yc_src_height cfg) d"
    using yolo3_result [OF assms, of cexp infer] by blast
  then have "length Rs = yc_classes cfg - 1" "\<forall>R \<in> set Rs. length R \<le> yc_maxroi cfg" by auto
  with r show ?thesis by blast
qed

text \<open>
  C12. \<open>SVP_NNIE_Yolov3_GetResult\<close> with its buffers of the computed sizes and room for \<open>u32MaxRoiNum\<close>
  results per class: the boxes of all blobs above the threshold, sorted by score and suppressed
  greedily until seven are kept (the size of a box in words is passed for the limit), are listed for the
  classes from 1 up to but not including the last, at most \<open>u32MaxRoiNum\<close> for each, with their numbers.
  Every result has a score above the threshold and lies in the image.
\<close>

theorem Yolov3_GetResult_correct:
  assumes room: "sort_room cap (yolo3_total cfg blobs)" and dst: "(yc_classes cfg - 1) * yc_maxroi cfg \<le> length dst"
    and im: "yc_src_width cfg \<le> 16777216" "yc_src_height cfg \<le> 16777216"
  shows "\<exists>S R Rs. mset S = mset (concat (map (yolo3_boxes cexp infer cfg) blobs)) \<and> yolo_sorted S \<and>
    R = yolo_kept (yc_nms cfg) 7 S \<and>
    Rs = map (\<lambda>i. take (yc_maxroi cfg) (map (yolo3_det cfg) (filter (\<lambda>b. y_class b = i) R))) [1..<yc_classes cfg] \<and>
    Yolov3_GetResult cap cexp infer cfg blobs dst =
      Some (map length Rs, concat Rs @ drop (length (concat Rs)) dst) \<and>
    sorted_wrt (\<lambda>a b. \<not> yolo_hit (yc_nms cfg) a b) (take 7 R) \<and>
    (\<forall>d \<in> set (concat Rs). u32 (yc_conf cfg) < u32 (d_score d) \<and> det_inside (yc_src_width cfg) (yc_src_height cfg) d)"
  using assms by (rule yolo3_result)

definition small_blob :: yolo3_blob where
  "small_blob = \<lparr>yg_width = 2, yg_height = 1, yg_bias = (\<lambda>i. Fin 1), yg_stride = 16, yg_data = int\<rparr>"

lemma Yolov3_GetResult_correct_witness:
  "\<exists>nums dst. Yolov3_GetResult 2 step_exp 7 small_yolo [small_blob] (replicate 3 no_det) = Some (nums, dst) \<and> length nums = 1"
  using Yolov3_GetResult_correct [of 2 small_yolo "[small_blob]" "replicate 3 no_det" step_exp 7]
  by (auto simp: small_yolo_def small_blob_def yolo3_total_def sort_room_def)

text \<open>
  The result loop stops before the last class: a detector for one class reports nothing, whatever
  the network sees.
\<close>

lemma Yolov3_one_class_reports_nothing:
  assumes "yc_classes cfg = 1" and room: "sort_room cap (yolo3_total cfg blobs)"
  shows "Yolov3_GetResult cap cexp infer cfg blobs dst = Some ([], dst)"
proof -
  let ?bs = "concat (map (yolo3_boxes cexp infer cfg) blobs)"
  have "sort_room cap (length ?bs)" using room length_yolo3_all by (rule sort_room_mono)
  then obtain S where "yolo_sort_rows cap y_score 0 (length ?bs) ?bs = Some S"
    using yqs.srt_total [of "length ?bs" ?bs cap] by auto
  then show ?thesis using assms(1) by (simp add: Yolov3_GetResult_def Let_def)
qed

text \<open>One cell, one class and values far above the threshold.\<close>

definition sure_cfg :: yolo_cfg where
  "sure_cfg = \<lparr>yc_classes = 1, yc_each = 1, yc_src_width = 416, yc_src_height = 416, yc_maxroi = 10, yc_nms = 1228, yc_conf = 1024\<rparr>"

definition sure_blob :: yolo3_blob where
  "sure_blob = \<lparr>yg_width = 1, yg_height = 1, yg_bias = (\<lambda>i. Fin 1), yg_stride = 4, yg_data = (\<lambda>i. 40960)\<rparr>"

lemma Yolov3_one_class_reports_nothing_witness:
  "Yolov3_GetResult 1 step_exp 6 sure_cfg [sure_blob] [no_det] = Some ([], [no_det])"
  by (rule Yolov3_one_class_reports_nothing) (simp_all add: sure_cfg_def sure_blob_def yolo3_total_def sort_room_def)

lemma unit_Iou:
  assumes "j \<le> 1000"
  shows "i < j \<Longrightarrow> Yolov2_Iou (unit_box i) (unit_box j) = Fin 0" "Yolov2_Iou (unit_box j) (unit_box j) = Fin 1"
proof -
  have r: "rnd f (of_int n) = Fin (of_int n)" if "\<bar>n\<bar> \<le> 2000" for f n using that by (intro rnd_of_int) simp
  have one: "rnd f 1 = Fin 1" for f using r [of 1 f] by simp
  have "rnd F32 (of_nat i + 1 - of_nat j) = Fin (of_nat i + 1 - of_nat j) \<and> of_nat i + 1 - of_nat j \<le> (0::rat)" if "i < j"
  proof -
    have "(of_nat (i + 1) :: rat) \<le> of_nat j" using that by (simp only: of_nat_le_iff)
    then show ?thesis using r [of "int i + 1 - int j" F32] that assms by simp
  qed
  then show "i < j \<Longrightarrow> Yolov2_Iou (unit_box i) (unit_box j) = Fin 0"
    by (simp add: Yolov2_Iou_def unit_box_def fMIN_def fMAX_def fsub_def Let_def)
  have two: "rnd f 2 = Fin 2" for f using r [of 2 f] by simp
  show "Yolov2_Iou (unit_box j) (unit_box j) = Fin 1"
    by (simp add: Yolov2_Iou_def unit_box_def fMIN_def fMAX_def fsub_def Let_def one two)
qed

lemma unit_hit:
  "i < j \<Longrightarrow> j \<le> 1000 \<Longrightarrow> \<not> yolo_hit 1228 (unit_box i) (unit_box j)"
  "j \<le> 1000 \<Longrightarrow> yolo_hit 1228 (unit_box j) (unit_box j)"
proof -
  have "fdiv F64 (of_s32 F64 (u32 1228)) (of_s32 F64 4096) = Fin (307 / 1024)"
    using rnd_of_int [of 1228 F64] rnd_of_int [of 4096 F64] rnd_dyadic [of 307 10 F64] by (simp add: of_s32_def u32_id in_u32_def)
  then show "i < j \<Longrightarrow> j \<le> 1000 \<Longrightarrow> \<not> yolo_hit 1228 (unit_box i) (unit_box j)"
    "j \<le> 1000 \<Longrightarrow> yolo_hit 1228 (unit_box j) (unit_box j)"
    by (simp_all add: yolo_hit_def unit_Iou)
qed

lemma mask_unit [simp]: "y_mask (unit_box i) = 0"
  by (simp add: unit_box_def)

definition nine_boxes :: "bbox list" where
  "nine_boxes = map unit_box [0, 2, 4, 6, 8, 10, 12, 14, 14]"

text \<open>
  Only the first seven kept boxes suppress others: of nine boxes side by side, the last two the
  same, the last stays; with the limit the comment promises (the operation of v2, whose limit is the
  number of results) it goes.
\<close>

lemma Yolov3_suppresses_by_seven_only:
  "map y_mask (Yolov2_NonMaxSuppression nine_boxes (length nine_boxes) 1228 bbox_words) = [0, 0, 0, 0, 0, 0, 0, 0, 0] \<and>
   map y_mask (Yolov2_NonMaxSuppression nine_boxes (length nine_boxes) 1228 10) = [0, 0, 0, 0, 0, 0, 0, 0, 1]"
  using yolo_suppress_all [of nine_boxes 1228 bbox_words] yolo_suppress_all [of nine_boxes 1228 10]
  by (simp add: nine_boxes_def bbox_words_def greedy_Cons unit_hit)


end
