(* ===== verification/Nnie_Yolov1.thy ===== *)
theory Nnie_Yolov1
  imports Nnie_Yolo
begin

text \<open>
  The YOLO v1 post-processing (sample_svp_nnie_software.c): \<open>SVP_NNIE_Yolov1_Iou\<close>,
  \<open>SVP_NNIE_Yolov1_Nms\<close>, \<open>SVP_NNIE_Yolov1_ConvertPosition\<close>, \<open>SVP_NNIE_Yolov1_Detection\<close> and
  \<open>SAMPLE_SVP_NNIE_Yolov1_GetResult\<close>.

  The suppression works on pairs of a box index and a score, a score of 0 meaning that the box is out.
  It also clears the scores it started from, which are not read again, so that write is left out.
\<close>

record fbox4 =
  g_x :: cfloat
  g_y :: cfloat
  g_w :: cfloat
  g_h :: cfloat

text \<open>The extent of the overlap along one axis, from centres and sides.\<close>

definition span :: "cfloat \<Rightarrow> cfloat \<Rightarrow> cfloat \<Rightarrow> cfloat \<Rightarrow> cfloat" where
  "span c1 s1 c2 s2 =
     fsub F32 (fMIN (fadd F32 c1 (fmul F32 half s1)) (fadd F32 c2 (fmul F32 half s2)))
              (fMAX (fsub F32 c1 (fmul F32 half s1)) (fsub F32 c2 (fmul F32 half s2)))"

definition Yolov1_Iou :: "fbox4 list \<Rightarrow> nat \<Rightarrow> nat \<Rightarrow> int" where
  "Yolov1_Iou bb i1 i2 =
     (let a = bb ! i1; b = bb ! i2;
          w = span (g_x a) (g_w a) (g_x b) (g_w b);
          h = span (g_y a) (g_h a) (g_y b) (g_h b);
          inter = (if flt w (Fin 0) \<or> flt h (Fin 0) then Fin 0 else fmul F32 w h);
          iou = fdiv F32 inter (fsub F32 (fadd F32 (fmul F32 (g_w a) (g_h a)) (fmul F32 (g_w b) (g_h b))) inter)
      in to_s32 (fmul F32 iou (of_s32 F32 4096)))"

record yscore =
  s_idx :: nat
  s_score :: int

abbreviation s_live :: "yscore \<Rightarrow> bool" where
  "s_live s \<equiv> s_score s \<noteq> 0"

definition s_kill :: "yscore \<Rightarrow> yscore" where
  "s_kill s = s\<lparr>s_score := 0\<rparr>"

definition yolo1_hit :: "fbox4 list \<Rightarrow> int \<Rightarrow> yscore \<Rightarrow> yscore \<Rightarrow> bool" where
  "yolo1_hit bb thresh a b \<longleftrightarrow> s32 thresh < Yolov1_Iou bb (s_idx a) (s_idx b)"

text \<open>Low scores are cleared, the pairs filled, sorted and suppressed; the outer loop has no limit.\<close>

definition yolo1_pairs :: "int \<Rightarrow> int list \<Rightarrow> yscore list" where
  "yolo1_pairs conf scores =
     map (\<lambda>i. \<lparr>s_idx = i, s_score = (if scores ! i < s32 conf then 0 else scores ! i)\<rparr>) [0..<length scores]"

definition Yolov1_Nms :: "nat \<Rightarrow> int list \<Rightarrow> fbox4 list \<Rightarrow> int \<Rightarrow> int \<Rightarrow> yscore list option" where
  "Yolov1_Nms cap scores bb conf thresh =
     (let n = length scores
      in case yolo_sort_rows cap s_score 0 n (yolo1_pairs conf scores) of
           None \<Rightarrow> None
         | Some ps \<Rightarrow> Some (suppress_loop s_live s_kill (yolo1_hit bb thresh) (\<lambda>_. True) n 0 0 ps))"

definition ConvertPosition :: "fbox4 \<Rightarrow> nat \<Rightarrow> nat \<Rightarrow> fbox" where
  "ConvertPosition b w h =
     (let x1 = fsub F32 (g_x b) (fmul F32 (g_w b) half);
          y1 = fsub F32 (g_y b) (fmul F32 (g_h b) half);
          x2 = fadd F32 (g_x b) (fmul F32 (g_w b) half);
          y2 = fadd F32 (g_y b) (fmul F32 (g_h b) half)
      in \<lparr>f_x1 = (if flt (Fin 0) x1 then x1 else Fin 0), f_y1 = (if flt (Fin 0) y1 then y1 else Fin 0),
          f_x2 = (if flt (of_nat32 w) x2 then of_nat32 w else x2),
          f_y2 = (if flt (of_nat32 h) y2 then of_nat32 h else y2)\<rparr>)"

definition yolo1_det :: "fbox4 list \<Rightarrow> nat \<Rightarrow> nat \<Rightarrow> yscore \<Rightarrow> det" where
  "yolo1_det bb w h s =
     (let r = ConvertPosition (bb ! s_idx s) w h
      in \<lparr>d_score = s_score s, d_box = \<lparr>b_x1 = to_s32 (f_x1 r), b_y1 = to_s32 (f_y1 r),
            b_x2 = to_s32 (f_x2 r), b_y2 = to_s32 (f_y2 r)\<rparr>\<rparr>)"

fun put_scores :: "(yscore \<Rightarrow> det) \<Rightarrow> yscore list \<Rightarrow> nat \<Rightarrow> nat \<Rightarrow> det list \<Rightarrow> (nat \<times> det list) option" where
  "put_scores conv [] off cnt dst = Some (cnt, dst)"
| "put_scores conv (s # ss) off cnt dst =
     (if s_score s \<noteq> 0 then
        (if off + cnt < length dst then put_scores conv ss off (Suc cnt) (dst[off + cnt := conv s]) else None)
      else put_scores conv ss off cnt dst)"

record yolo1_cfg =
  y1_classes :: nat
  y1_each :: nat
  y1_width :: nat
  y1_height :: nat
  y1_im_width :: nat
  y1_im_height :: nat
  y1_conf :: int
  y1_nms :: int

definition yolo1_class :: "nat \<Rightarrow> yolo1_cfg \<Rightarrow> (nat \<Rightarrow> int list) \<Rightarrow> fbox4 list \<Rightarrow> nat \<Rightarrow> nat \<Rightarrow> det list
    \<Rightarrow> (nat \<times> det list) option" where
  "yolo1_class cap cfg scores bb i off dst =
     (case Yolov1_Nms cap (scores i) bb (y1_conf cfg) (y1_nms cfg) of
        None \<Rightarrow> None
      | Some ss \<Rightarrow> put_scores (yolo1_det bb (y1_im_width cfg) (y1_im_height cfg)) ss off 0 dst)"

definition Yolov1_Detection :: "nat \<Rightarrow> yolo1_cfg \<Rightarrow> (nat \<Rightarrow> int list) \<Rightarrow> fbox4 list \<Rightarrow> det list
    \<Rightarrow> (nat list \<times> det list) option" where
  "Yolov1_Detection cap cfg scores bb dst =
     map_option (\<lambda>(nums, dst'). (0 # nums, dst'))
       (class_blocks (yolo1_class cap cfg scores bb) [0..<y1_classes cfg] 0 dst)"

text \<open>
  The blob holds the class probabilities of all cells, then the confidences of all boxes, then
  their positions. The score of box \<open>j\<close> of cell \<open>i\<close> for class \<open>k\<close> goes to row \<open>k\<close>.
\<close>

definition yolo1_scores :: "yolo1_cfg \<Rightarrow> (nat \<Rightarrow> int) \<Rightarrow> nat \<Rightarrow> int list" where
  "yolo1_scores cfg blob k =
     (let grid = y1_height cfg * y1_width cfg; off = grid * y1_classes cfg
      in concat (map (\<lambda>i. map (\<lambda>j. to_s32 (fmul F32
           (fmul F32 (q12 (blob (i * y1_classes cfg + k))) (q12 (blob (off + (i * y1_each cfg + j))))) (of_s32 F32 4096)))
         [0..<y1_each cfg]) [0..<grid]))"

definition yolo1_box :: "yolo1_cfg \<Rightarrow> nat \<Rightarrow> (nat \<Rightarrow> cfloat) \<Rightarrow> fbox4" where
  "yolo1_box cfg i v =
     (let W = of_nat32 (y1_im_width cfg); H = of_nat32 (y1_im_height cfg)
      in \<lparr>g_x = fmul F32 (fdiv F32 (fadd F32 (v 0) (of_nat32 (i mod y1_width cfg))) (of_nat32 (y1_width cfg))) W,
          g_y = fmul F32 (fdiv F32 (fadd F32 (v 1) (of_nat32 (i div y1_width cfg))) (of_nat32 (y1_height cfg))) H,
          g_w = fmul F32 (fmul F32 (v 2) (v 2)) W,
          g_h = fmul F32 (fmul F32 (v 3) (v 3)) H\<rparr>)"

definition yolo1_boxes :: "yolo1_cfg \<Rightarrow> (nat \<Rightarrow> int) \<Rightarrow> fbox4 list" where
  "yolo1_boxes cfg blob =
     (let grid = y1_height cfg * y1_width cfg; off = grid * y1_classes cfg + grid * y1_each cfg
      in concat (map (\<lambda>i. map (\<lambda>j. yolo1_box cfg i (\<lambda>c. q12 (blob (off + ((i * y1_each cfg + j) * 4 + c)))))
           [0..<y1_each cfg]) [0..<grid]))"

definition Yolov1_GetResult :: "nat \<Rightarrow> yolo1_cfg \<Rightarrow> (nat \<Rightarrow> int) \<Rightarrow> det list \<Rightarrow> (nat list \<times> det list) option" where
  "Yolov1_GetResult cap cfg blob dst = Yolov1_Detection cap cfg (yolo1_scores cfg blob) (yolo1_boxes cfg blob) dst"

section \<open>Suppression\<close>

lemma s_kill_sel [simp]: "s_score (s_kill s) = 0" "s_idx (s_kill s) = s_idx s"
  by (simp_all add: s_kill_def)

interpretation yolo1: suppression s_live s_kill "yolo1_hit bb thresh" for bb thresh
  by unfold_locales simp

definition scores_sorted :: "yscore list \<Rightarrow> bool" where
  "scores_sorted S \<longleftrightarrow> sorted_wrt (\<lambda>a b. s_score b \<le> s_score a) S"

text \<open>What stays of the sorted pairs \<open>S\<close> of one class.\<close>

definition yolo1_kept :: "fbox4 list \<Rightarrow> int \<Rightarrow> yscore list \<Rightarrow> yscore list" where
  "yolo1_kept bb thresh S = filter s_live (greedy s_live s_kill (yolo1_hit bb thresh) (length S) S)"

lemma yolo1_kept_props:
  assumes "scores_sorted S"
  shows "scores_sorted (yolo1_kept bb thresh S)" "set (yolo1_kept bb thresh S) \<subseteq> set (filter s_live S)"
    "sorted_wrt (\<lambda>a b. \<not> yolo1_hit bb thresh a b) (yolo1_kept bb thresh S)" "length (yolo1_kept bb thresh S) \<le> length S"
proof -
  have "sorted_wrt (\<lambda>a b. s_score b \<le> s_score a) (filter s_live S)"
    using assms by (simp add: scores_sorted_def sorted_wrt_filter)
  note R = yolo1.run_survivors [OF this, of bb thresh "length S"]
  show len: "length (yolo1_kept bb thresh S) \<le> length S"
    unfolding yolo1_kept_def by (rule le_trans [OF length_filter_le]) simp
  then show "scores_sorted (yolo1_kept bb thresh S)" "set (yolo1_kept bb thresh S) \<subseteq> set (filter s_live S)"
    "sorted_wrt (\<lambda>a b. \<not> yolo1_hit bb thresh a b) (yolo1_kept bb thresh S)"
    using R by (auto simp: scores_sorted_def yolo1_kept_def)
qed

lemma Yolov1_Nms_eq:
  assumes "sort_room cap (length scores)"
  shows "\<exists>S. mset S = mset (yolo1_pairs conf scores) \<and> scores_sorted S \<and>
    Yolov1_Nms cap scores bb conf thresh = Some (greedy s_live s_kill (yolo1_hit bb thresh) (length S) S)"
proof -
  let ?ps = "yolo1_pairs conf scores" and ?n = "length scores"
  have n: "?n \<le> length ?ps" by (simp add: yolo1_pairs_def)
  obtain S where S: "yolo_sort_rows cap s_score 0 ?n ?ps = Some S" using yqs.srt_total [OF n assms] by blast
  have len: "length S = ?n" using yqs.srt_length [OF n assms S] by (simp add: yolo1_pairs_def)
  have "suppress_loop s_live s_kill (yolo1_hit bb thresh) (\<lambda>_. True) ?n 0 0 S =
      suppress_loop s_live s_kill (yolo1_hit bb thresh) (\<lambda>k. k < ?n) ?n 0 0 S"
    by (rule suppress_loop_cong) simp
  also have "\<dots> = greedy s_live s_kill (yolo1_hit bb thresh) ?n S"
    using suppress_loop_eq [of 0 ?n S s_live s_kill "yolo1_hit bb thresh" ?n 0] len by simp
  finally have "Yolov1_Nms cap scores bb conf thresh = Some (greedy s_live s_kill (yolo1_hit bb thresh) (length S) S)"
    by (simp add: Yolov1_Nms_def Let_def S len)
  then show ?thesis
    using yqs.srt_mset_take [OF n assms S] yqs.srt_sorted_all [OF n assms S] len
    by (intro exI [of _ S]) (simp add: scores_sorted_def sorted_wrt_map yolo1_pairs_def)
qed

lemma put_scores_eq:
  "off + cnt + length (filter s_live ss) \<le> length dst \<Longrightarrow> put_scores conv ss off cnt dst = Some (cnt + length (filter s_live ss),
     take (off + cnt) dst @ map conv (filter s_live ss) @ drop (off + cnt + length (filter s_live ss)) dst)"
proof (induction ss arbitrary: cnt dst)
  case Nil
  then show ?case by simp
next
  case (Cons s ss)
  show ?case
  proof (cases "s_live s")
    case True
    let ?dst = "dst[off + cnt := conv s]"
    have lt: "off + cnt < length dst" using Cons.prems True by simp
    have "put_scores conv ss off (Suc cnt) ?dst = Some (Suc cnt + length (filter s_live ss),
        take (off + Suc cnt) ?dst @ map conv (filter s_live ss) @ drop (off + Suc cnt + length (filter s_live ss)) ?dst)"
      using Cons.prems True by (intro Cons.IH) simp
    moreover have "take (off + Suc cnt) ?dst = take (off + cnt) dst @ [conv s]"
      using lt by (simp add: take_Suc_conv_app_nth)
    ultimately show ?thesis using True lt by simp
  next
    case False
    then show ?thesis using Cons by simp
  qed
qed

section \<open>The result\<close>

lemma yolo1_det_inside:
  assumes w: "w \<le> 16777216" and h: "h \<le> 16777216"
  shows "det_inside w h (yolo1_det bb w h s)"
proof -
  have lo: "0 \<le> to_s32 (if flt (Fin 0) x then x else Fin 0)" for x
    using to_s32_fMAX_0 [of x] by (simp add: fMAX_def)
  have hi: "to_s32 (if flt (of_nat32 n) x then of_nat32 n else x) \<le> int n" if "n \<le> 16777216" for n x
  proof -
    have f: "of_nat32 n = Fin (of_nat n)"
      using rnd_of_int [of "int n" F32] that by (simp add: of_nat32_def of_s32_def)
    have t: "trunc (of_nat n) = int n" by (simp add: trunc_def)
    show ?thesis
    proof (cases x)
      case (Fin y)
      have "\<not> of_nat n < y \<Longrightarrow> trunc y \<le> int n" using trunc_mono [of y "of_nat n"] t by simp
      then show ?thesis using that t by (auto simp: f Fin)
    qed (use that t in \<open>auto simp: f\<close>)
  qed
  show ?thesis using lo hi [OF w] hi [OF h]
    by (simp add: det_inside_def yolo1_det_def ConvertPosition_def Let_def)
qed

lemma length_yolo1_scores: "length (yolo1_scores cfg blob k) = y1_height cfg * y1_width cfg * y1_each cfg"
  unfolding yolo1_scores_def Let_def by (subst length_concat_uniform [of _ "y1_each cfg"]) auto

lemma yolo1_result:
  fixes blob :: "nat \<Rightarrow> int"
  assumes room: "sort_room cap (y1_height cfg * y1_width cfg * y1_each cfg)"
    and dst: "y1_classes cfg * (y1_height cfg * y1_width cfg * y1_each cfg) \<le> length dst"
    and im: "y1_im_width cfg \<le> 16777216" "y1_im_height cfg \<le> 16777216"
  defines "bb \<equiv> yolo1_boxes cfg blob"
  shows "\<exists>S Ks. Ks = map (\<lambda>k. map (yolo1_det bb (y1_im_width cfg) (y1_im_height cfg)) (yolo1_kept bb (y1_nms cfg) (S k))) [0..<y1_classes cfg] \<and>
    (\<forall>k < y1_classes cfg. mset (S k) = mset (yolo1_pairs (y1_conf cfg) (yolo1_scores cfg blob k)) \<and> scores_sorted (S k) \<and>
       sorted_wrt (\<lambda>a b. \<not> yolo1_hit bb (y1_nms cfg) a b) (yolo1_kept bb (y1_nms cfg) (S k))) \<and>
    Yolov1_GetResult cap cfg blob dst = Some (0 # map length Ks, concat Ks @ drop (length (concat Ks)) dst) \<and>
    (\<forall>d \<in> set (concat Ks). s32 (y1_conf cfg) \<le> d_score d \<and> det_inside (y1_im_width cfg) (y1_im_height cfg) d)"
proof -
  let ?sc = "yolo1_scores cfg blob" and ?n = "y1_height cfg * y1_width cfg * y1_each cfg" and ?cs = "[0..<y1_classes cfg]"
  let ?det = "yolo1_det bb (y1_im_width cfg) (y1_im_height cfg)"
  have "\<forall>k. \<exists>S. mset S = mset (yolo1_pairs (y1_conf cfg) (?sc k)) \<and> scores_sorted S \<and>
      Yolov1_Nms cap (?sc k) bb (y1_conf cfg) (y1_nms cfg) = Some (greedy s_live s_kill (yolo1_hit bb (y1_nms cfg)) (length S) S)"
    using Yolov1_Nms_eq [of cap "?sc _"] room by (simp add: length_yolo1_scores)
  then obtain S where S: "\<And>k. mset (S k) = mset (yolo1_pairs (y1_conf cfg) (?sc k))" "\<And>k. scores_sorted (S k)"
    "\<And>k. Yolov1_Nms cap (?sc k) bb (y1_conf cfg) (y1_nms cfg) =
       Some (greedy s_live s_kill (yolo1_hit bb (y1_nms cfg)) (length (S k)) (S k))" by metis
  define K where "K k = map ?det (yolo1_kept bb (y1_nms cfg) (S k))" for k
  note P = yolo1_kept_props [OF S(2), where bb = bb and thresh = "y1_nms cfg"]
  have lenS: "length (S k) = ?n" for k
    using arg_cong [OF S(1) [of k], of size] by (simp add: yolo1_pairs_def length_yolo1_scores)
  have "length x \<le> ?n" if "x \<in> set (map K ?cs)" for x using that P(4) lenS by (auto simp: K_def)
  then have len: "length (concat (map K ?cs)) \<le> length dst"
    using length_concat_le [of "map K ?cs" ?n] dst by (simp add: mult.commute le_trans)
  have step: "yolo1_class cap cfg ?sc bb k off dst = Some (length (K k), take off dst @ K k @ drop (off + length (K k)) dst)"
    if "off + length (K k) \<le> length dst" for k off dst
    using that put_scores_eq [where cnt = 0] S(3) by (simp add: yolo1_class_def K_def yolo1_kept_def)
  have res: "Yolov1_GetResult cap cfg blob dst =
      Some (0 # map length (map K ?cs), concat (map K ?cs) @ drop (length (concat (map K ?cs))) dst)"
    using class_blocks_eq [where K = K and cs = ?cs and off = 0, OF step] len
    by (simp add: Yolov1_GetResult_def Yolov1_Detection_def bb_def comp_def)
  have "s32 (y1_conf cfg) \<le> d_score d \<and> det_inside (y1_im_width cfg) (y1_im_height cfg) d" if "d \<in> set (concat (map K ?cs))" for d
  proof -
    from that obtain k s where s: "s \<in> set (yolo1_kept bb (y1_nms cfg) (S k))" "d = ?det s" by (auto simp: K_def)
    then have "s \<in> set (yolo1_pairs (y1_conf cfg) (?sc k))" "s_live s"
      using P(2) [of k] mset_eq_setD [OF S(1) [of k]] by auto
    then have "s32 (y1_conf cfg) \<le> s_score s" by (auto simp: yolo1_pairs_def split: if_splits)
    then show ?thesis using yolo1_det_inside [OF im, of bb s] by (simp add: s(2)) (simp add: yolo1_det_def Let_def)
  qed
  then show ?thesis using S(1,2) P(3) res
    by (intro exI [of _ S] exI [of _ "map K ?cs"]) (simp add: K_def)
qed

text \<open>
  \<open>SAMPLE_SVP_NNIE_Yolov1_GetResult\<close> with its buffers of the computed sizes and room for every box in
  every class: each class contributes its boxes above the threshold, sorted by score and suppressed
  greedily, no two of them hitting each other; the classes follow one another behind an empty
  background class, with their numbers, and nothing else is written. Every result lies in the image and
  has a score that is not below the threshold.
\<close>

lemma Yolov1_GetResult_correct:
  fixes blob :: "nat \<Rightarrow> int"
  assumes room: "sort_room cap (y1_height cfg * y1_width cfg * y1_each cfg)"
    and dst: "y1_classes cfg * (y1_height cfg * y1_width cfg * y1_each cfg) \<le> length dst"
    and im: "y1_im_width cfg \<le> 16777216" "y1_im_height cfg \<le> 16777216"
  defines "bb \<equiv> yolo1_boxes cfg blob"
  shows "\<exists>S Ks. Ks = map (\<lambda>k. map (yolo1_det bb (y1_im_width cfg) (y1_im_height cfg)) (yolo1_kept bb (y1_nms cfg) (S k))) [0..<y1_classes cfg] \<and>
    (\<forall>k < y1_classes cfg. mset (S k) = mset (yolo1_pairs (y1_conf cfg) (yolo1_scores cfg blob k)) \<and> scores_sorted (S k) \<and>
       sorted_wrt (\<lambda>a b. \<not> yolo1_hit bb (y1_nms cfg) a b) (yolo1_kept bb (y1_nms cfg) (S k))) \<and>
    Yolov1_GetResult cap cfg blob dst = Some (0 # map length Ks, concat Ks @ drop (length (concat Ks)) dst) \<and>
    (\<forall>d \<in> set (concat Ks). s32 (y1_conf cfg) \<le> d_score d \<and> det_inside (y1_im_width cfg) (y1_im_height cfg) d)"
  unfolding bb_def by (rule yolo1_result [OF room dst im])

definition small_yolo1 :: yolo1_cfg where
  "small_yolo1 = \<lparr>y1_classes = 2, y1_each = 2, y1_width = 1, y1_height = 1, y1_im_width = 448, y1_im_height = 448,
     y1_conf = 800, y1_nms = 2048\<rparr>"

lemma Yolov1_GetResult_correct_witness:
  "\<exists>nums dst. Yolov1_GetResult 1 small_yolo1 int (replicate 4 no_det) = Some (nums, dst) \<and> length nums = 3"
  using Yolov1_GetResult_correct [of 1 small_yolo1 "replicate 4 no_det" int]
  by (auto simp: small_yolo1_def sort_room_def)

end
