(* ===== verification/Nnie_SoftDet.thy ===== *)
theory Nnie_SoftDet
  imports Nnie_Soft Nnie_Yolov1
begin

text \<open>
  The software parameters of SSD and of YOLO v1, v2 and v3 (nnie/sample_nnie.c), the sizes of their
  assist buffers (sample_svp_nnie_software.c), and what follows for the result stages when they run
  with these parameters in these buffers. The parameters of a stage are the record its model takes.

  The assist buffers of YOLO are not rounded up and their size is not kept. SSD expects twelve report
  nodes, YOLO v3 checks their number: three, or two in the build with \<open>ZQ_DETECT_YOLOV3\<close> (\<open>zq\<close>).
\<close>

section \<open>SSD\<close>

text \<open>
  The parameters that are not handed to a stage as they are: the shapes of the twelve convolutions
  and the strides of the six with confidences, the inner dimension and the sizes of the softmax,
  and the shape of its output.
\<close>

record ssd_soft = soft_out +
  ss_conv :: "(int \<times> int \<times> int) list"
  ss_stride :: "int list"
  ss_priors :: "prior_cfg list"
  ss_inner :: nat
  ss_chn :: "nat list"
  ss_softmax_out :: "nat \<times> nat \<times> nat"
  ss_det :: ssd_cfg
  ss_prior_tmp :: svp_mem_info
  ss_softmax_tmp :: svp_mem_info

definition Ssd_GetResultTmpBuf :: "nnie_param \<Rightarrow> ssd_soft \<Rightarrow> int \<times> ssd_soft" where
  "Ssd_GetResultTmpBuf pm s =
     (let dst_num = length (sg_dst (md_segs (pm_model pm) ! 0));
          prior = u32 (sum_list (map (\<lambda>c. u32 (int (prior_share c) * 4)) (take (dst_num div 2) (ss_priors s))));
          softmax = u32 (sum_list (map (\<lambda>c. u32 (int c * 4)) (ss_chn s)));
          n = u32 (sum_list (map (\<lambda>c. int (c div 4)) (sd_chn (ss_det s))));
          detection = u32 (u32 (n * 4 * 4) + u32 (n * 6 * 4 * 2) + u32 (n * 2 * 4))
      in (u32 (prior + softmax + detection),
          s\<lparr>ss_prior_tmp := (ss_prior_tmp s)\<lparr>m_size := prior\<rparr>,
            ss_softmax_tmp := (ss_softmax_tmp s)\<lparr>m_size := softmax\<rparr>,
            so_tmp := (so_tmp s)\<lparr>m_size := detection\<rparr>\<rparr>))"

text \<open>One of the six prior box layers: side of the grid, sizes, number and values of the ratios, step.\<close>

definition ssd_prior :: "int \<Rightarrow> int \<Rightarrow> nat \<times> rat \<times> rat \<times> nat \<times> rat list \<times> rat \<Rightarrow> prior_cfg" where
  "ssd_prior iw ih = (\<lambda>(side, mn, mx, n, ratios, step).
     \<lparr>pb_width = side, pb_height = side, pb_im_width = iw, pb_im_height = ih,
      pb_min = (\<lambda>i. Fin ([mn] ! i)), pb_min_num = 1, pb_max = (\<lambda>i. Fin ([mx] ! i)), pb_max_num = 1,
      pb_flip = True, pb_clip = False, pb_ratio_num = n, pb_ratio = (\<lambda>i. Fin (ratios ! i)),
      pb_step_width = Fin step, pb_step_height = Fin step, pb_offset = Fin 0.5,
      pb_var = (\<lambda>i. [quant 0.1, quant 0.1, quant 0.2, quant 0.2] ! i)\<rparr>)"

definition ssd_priors :: "int \<Rightarrow> int \<Rightarrow> prior_cfg list" where
  "ssd_priors iw ih = map (ssd_prior iw ih)
     [(38, 30, 60, 1, [2, 0], 8), (19, 60, 111, 2, [2, 3], 16), (10, 111, 162, 2, [2, 3], 32),
      (5, 162, 213, 2, [2, 3], 64), (3, 213, 264, 1, [2, 0], 100), (1, 264, 315, 1, [2, 0], 300)]"

definition ssd_params :: "nnie_param \<Rightarrow> ssd_soft \<Rightarrow> ssd_soft" where
  "ssd_params pm s =
     (let node = (\<lambda>i. sg_dst (md_segs (pm_model pm) ! 0) ! i)
      in s\<lparr>ss_conv := map (\<lambda>i. (n_chn (node i), n_height (node i), n_width (node i))) [0..<12],
           ss_stride := map (\<lambda>i. ALIGN16 (u32 (n_width (node (2 * i + 1)) * 4)) div 4) [0..<6],
           ss_priors := ssd_priors (b_width (first_src pm)) (b_height (first_src pm)),
           ss_inner := 21, ss_chn := [121296, 45486, 12600, 3150, 756, 84], ss_softmax_out := (1, 21, 8732),
           ss_det := \<lparr>sd_conf = quant 0.000245, sd_classes = 21, sd_topk = 400, sd_keep = 200, sd_nms = quant 0.3,
             sd_chn = [23104, 8664, 2400, 600, 144, 16]\<rparr>\<rparr>)"

definition Ssd_SoftwareInit :: "mmz \<Rightarrow> nnie_cfg \<Rightarrow> nnie_param \<Rightarrow> ssd_soft \<Rightarrow> mmz_trace \<Rightarrow> int \<times> ssd_soft \<times> mmz_trace" where
  "Ssd_SoftwareInit mmz cfg pm s tr =
     (let s1 = ssd_params pm s;
          c = int (sd_classes (ss_det s1)); n = int (sd_topk (ss_det s1));
          (tmp, s2) = Ssd_GetResultTmpBuf pm s1;
          roi = ALIGN16 (u32 (c * n * 4 * 4));
          score = ALIGN16 (u32 (c * n * 4));
          num = ALIGN16 (u32 (c * 4));
          tot = u32 (tmp + roi + score + num);
          ((ret, p, v), tr1) = MallocCached mmz tot tr
      in if ret \<noteq> 0 then (ret, s2, tr1)
         else let a = m_size (ss_prior_tmp s2); b = m_size (ss_softmax_tmp s2); d = m_size (so_tmp s2)
              in (ret, set_results p v (u32 (a + b + d)) (c * n) c roi score
                   (s2\<lparr>ss_prior_tmp := \<lparr>m_phy = p, m_vir = v, m_size = a\<rparr>,
                       ss_softmax_tmp := \<lparr>m_phy = u64 (p + a), m_vir = u32 (v + a), m_size = b\<rparr>,
                       so_tmp := \<lparr>m_phy = u64 (p + a + b), m_vir = u32 (v + a + b), m_size = d\<rparr>\<rparr>), tr1))"

definition Ssd_SoftwareDeinit :: "ssd_soft \<Rightarrow> mmz_trace \<Rightarrow> int \<times> ssd_soft \<times> mmz_trace" where
  "Ssd_SoftwareDeinit s tr =
     (let (m, tr1) = free_mem (ss_prior_tmp s) tr in (0, s\<lparr>ss_prior_tmp := m\<rparr>, tr1))"

section \<open>YOLO\<close>

record yolo1_soft = soft_out +
  y1 :: yolo1_cfg

record yolo2_soft = soft_out +
  y2 :: yolo_cfg
  y2_grid :: yolo_grid

record yolo3_soft = soft_out +
  y3 :: yolo_cfg
  y3_grids :: "yolo_grid list"

definition Yolov1_GetResultTmpBuf :: "yolo1_cfg \<Rightarrow> int" where
  "Yolov1_GetResultTmpBuf c =
     (let grid = u32 (int (y1_height c) * int (y1_width c)); classes = int (y1_classes c); each = int (y1_each c);
          boxes = u32 (grid * each);
          trans = u32 ((classes + each * (4 + 1)) * grid * 4);
          prob = u32 (classes * boxes * 4);
          score = u32 (boxes * 8);
          stack = u32 (boxes * 8)
      in u32 (trans + prob + score + stack))"

definition Yolov2_GetResultTmpBuf :: "yolo_cfg \<Rightarrow> yolo_grid \<Rightarrow> int" where
  "Yolov2_GetResultTmpBuf c g =
     (let grid = u32 (int (yg_height g) * int (yg_width g));
          para = u32 (int (yc_each c) * (4 + 1 + int (yc_classes c)));
          boxes = u32 (grid * int (yc_each c));
          trans = u32 (grid * para * 4);
          assist = u32 (boxes * 8);
          bbox = u32 (boxes * int (4 * bbox_words));
          bbox_tmp = u32 (grid * para * 4)
      in u32 (trans + assist + bbox + bbox_tmp))"

definition Yolov3_GetResultTmpBuf :: "nnie_param \<Rightarrow> yolo_cfg \<Rightarrow> yolo_grid list \<Rightarrow> int" where
  "Yolov3_GetResultTmpBuf pm c gs =
     (let ns = sg_dst (md_segs (pm_model pm) ! 0);
          blob = foldl (\<lambda>m n. max m (u32 (n_width n * 4 * n_height n * n_chn n))) 0 ns;
          boxes = u32 (sum_list (map (\<lambda>g. u32 (int (yg_width g) * int (yg_height g) * int (yc_each c))) (take (length ns) gs)));
          stack = u32 (boxes * 8);
          bbox = u32 (boxes * int (4 * bbox_words))
      in u32 (blob + stack + bbox))"

text \<open>
  The allocation, the same in the three: \<open>c\<close> classes with the background, \<open>n\<close> results for each.
\<close>

definition yolo_alloc :: "mmz \<Rightarrow> int \<Rightarrow> int \<Rightarrow> int \<Rightarrow> 'a soft_out_scheme \<Rightarrow> mmz_trace
    \<Rightarrow> int \<times> 'a soft_out_scheme \<times> mmz_trace" where
  "yolo_alloc mmz tmp c n s tr =
     (let roi = ALIGN16 (u32 (c * n * 4 * 4));
          score = ALIGN16 (u32 (c * n * 4));
          num = ALIGN16 (u32 (c * 4));
          tot = u32 (0 + roi + score + num + tmp);
          ((ret, p, v), tr1) = MallocCached mmz tot tr
      in if ret \<noteq> 0 then (ret, s, tr1)
         else (ret, set_results p v tmp (c * n) c roi score (s\<lparr>so_tmp := (so_tmp s)\<lparr>m_phy := p, m_vir := v\<rparr>\<rparr>), tr1))"

text \<open>The parameters of the three, for the size of the input image.\<close>

definition yolo1_params :: "nnie_param \<Rightarrow> yolo1_cfg" where
  "yolo1_params pm = \<lparr>y1_classes = 20, y1_each = 2, y1_width = 7, y1_height = 7, y1_im_width = nat (b_width (first_src pm)),
     y1_im_height = nat (b_height (first_src pm)), y1_conf = quant 0.2, y1_nms = quant 0.5\<rparr>"

definition yolo2_params :: "nnie_param \<Rightarrow> yolo_cfg" where
  "yolo2_params pm = \<lparr>yc_classes = 5, yc_each = 5, yc_src_width = nat (b_width (first_src pm)),
     yc_src_height = nat (b_height (first_src pm)), yc_maxroi = 10, yc_nms = quant 0.3, yc_conf = quant 0.25\<rparr>"

definition yolo2_bias :: "cfloat list" where
  "yolo2_bias = map (rnd F32) [1.08, 1.19, 3.42, 4.41, 6.63, 11.38, 9.42, 5.11, 16.62, 10.52]"

definition yolo2_cells :: yolo_grid where
  "yolo2_cells = \<lparr>yg_width = 13, yg_height = 13, yg_bias = (\<lambda>i. yolo2_bias ! i)\<rparr>"

definition yolo3_params :: "bool \<Rightarrow> nnie_param \<Rightarrow> yolo_cfg" where
  "yolo3_params zq pm = \<lparr>yc_classes = (if zq then 4 else 80), yc_each = 3, yc_src_width = nat (b_width (first_src pm)),
     yc_src_height = nat (b_height (first_src pm)), yc_maxroi = (if zq then 4 else 10),
     yc_nms = quant 0.3, yc_conf = quant 0.5\<rparr>"

definition yolo3_grids :: "bool \<Rightarrow> yolo_grid list" where
  "yolo3_grids zq = map (\<lambda>(side, bias). \<lparr>yg_width = side, yg_height = side, yg_bias = (\<lambda>i. Fin (bias ! i))\<rparr>)
     ([(13, [116, 90, 156, 198, 373, 326]), (26, [30, 61, 62, 45, 59, 119])] @
      (if zq then [] else [(52, [10, 13, 16, 30, 33, 23])]))"

definition Yolov1_SoftwareInit :: "mmz \<Rightarrow> nnie_cfg \<Rightarrow> nnie_param \<Rightarrow> yolo1_soft \<Rightarrow> mmz_trace \<Rightarrow> int \<times> yolo1_soft \<times> mmz_trace" where
  "Yolov1_SoftwareInit mmz cfg pm s tr =
     (let c = yolo1_params pm;
          boxes = u32 (int (y1_each c) * int (y1_height c) * int (y1_width c))
      in yolo_alloc mmz (Yolov1_GetResultTmpBuf c) (int (y1_classes c) + 1) boxes (s\<lparr>y1 := c\<rparr>) tr)"

definition Yolov2_SoftwareInit :: "mmz \<Rightarrow> nnie_cfg \<Rightarrow> nnie_param \<Rightarrow> yolo2_soft \<Rightarrow> mmz_trace \<Rightarrow> int \<times> yolo2_soft \<times> mmz_trace" where
  "Yolov2_SoftwareInit mmz cfg pm s tr =
     (let c = yolo2_params pm; g = yolo2_cells;
          boxes = u32 (int (yc_each c) * int (yg_height g) * int (yg_width g))
      in yolo_alloc mmz (Yolov2_GetResultTmpBuf c g) (int (yc_classes c) + 1) boxes (s\<lparr>y2 := c, y2_grid := g\<rparr>) tr)"

definition Yolov3_SoftwareInit :: "bool \<Rightarrow> mmz \<Rightarrow> nnie_cfg \<Rightarrow> nnie_param \<Rightarrow> yolo3_soft \<Rightarrow> mmz_trace
    \<Rightarrow> int \<times> yolo3_soft \<times> mmz_trace" where
  "Yolov3_SoftwareInit zq mmz cfg pm s tr =
     (let c = yolo3_params zq pm; s1 = s\<lparr>y3 := c, y3_grids := yolo3_grids zq\<rparr>
      in if length (sg_dst (md_segs (pm_model pm) ! 0)) \<noteq> (if zq then 2 else 3) then (-1, s1, tr)
         else yolo_alloc mmz (Yolov3_GetResultTmpBuf pm c (yolo3_grids zq)) (int (yc_classes c) + 1) (int (yc_maxroi c)) s1 tr)"

text \<open>\<open>SoftwareDeinit\<close>, the same in the three.\<close>

definition yolo_SoftwareDeinit :: "'a soft_out_scheme \<Rightarrow> mmz_trace \<Rightarrow> int \<times> 'a soft_out_scheme \<times> mmz_trace" where
  "yolo_SoftwareDeinit s tr =
     (let m = so_tmp s; gone = (\<lambda>b :: svp_blob. b\<lparr>b_phy := 0, b_vir := 0\<rparr>)
      in if m_phy m \<noteq> 0 \<and> m_vir m \<noteq> 0
         then let (p, v, tr1) = MMZ_FREE (m_phy m) (m_vir m) tr
              in (0, s\<lparr>so_tmp := m\<lparr>m_phy := 0, m_vir := 0\<rparr>, so_roi := gone (so_roi s), so_score := gone (so_score s),
                       so_num := gone (so_num s)\<rparr>, tr1)
         else (0, s, tr))"

section \<open>ParamInit\<close>

definition Ssd_ParamInit where
  "Ssd_ParamInit mmz tsk steps cfg =
     soft_ParamInit (ParamInit mmz tsk steps cfg) (Ssd_SoftwareInit mmz cfg) Ssd_SoftwareDeinit"

definition Yolov1_ParamInit where
  "Yolov1_ParamInit mmz tsk steps cfg =
     soft_ParamInit (ParamInit mmz tsk steps cfg) (Yolov1_SoftwareInit mmz cfg) yolo_SoftwareDeinit"

definition Yolov2_ParamInit where
  "Yolov2_ParamInit mmz tsk steps cfg =
     soft_ParamInit (ParamInit mmz tsk steps cfg) (Yolov2_SoftwareInit mmz cfg) yolo_SoftwareDeinit"

definition Yolov3_ParamInit where
  "Yolov3_ParamInit zq mmz tsk steps cfg =
     soft_ParamInit (ParamInit mmz tsk steps cfg) (Yolov3_SoftwareInit zq mmz cfg) yolo_SoftwareDeinit"

section \<open>Balance of the memory\<close>

definition ssd_handle :: "ssd_soft \<Rightarrow> int \<times> int" where
  "ssd_handle s = mem_handle (ss_prior_tmp s)"

definition yolo_handle :: "'a soft_out_scheme \<Rightarrow> int \<times> int" where
  "yolo_handle s = mem_handle (so_tmp s)"

lemma yolo_alloc_fail: "yolo_alloc mmz tmp c n s tr = (r, s', tr') \<Longrightarrow> r \<noteq> 0 \<Longrightarrow> tr' = tr \<and> s' = s"
  by (auto simp: yolo_alloc_def Let_def split: prod.splits if_splits dest!: MallocCached_cases)

lemma yolo_alloc_ok: "yolo_alloc mmz tmp c n s tr = (0, s', tr') \<Longrightarrow>
    \<exists>p v k. mmz tr k = (0, p, v) \<and> tr' = tr @ [Mmz_alloc p v k] \<and> yolo_handle s' = (p, v)"
  by (auto simp: yolo_alloc_def Let_def yolo_handle_def mem_handle_def set_results_def
      split: prod.splits if_splits dest!: MallocCached_cases)

lemma yolo_deinit_held: "yolo_handle s = (p, v) \<Longrightarrow> p \<noteq> 0 \<Longrightarrow> v \<noteq> 0 \<Longrightarrow>
    \<exists>s'. yolo_SoftwareDeinit s tr = (0, s', tr @ [Mmz_free p v]) \<and> fst (yolo_handle s') = 0"
  by (simp add: yolo_SoftwareDeinit_def yolo_handle_def mem_handle_def MMZ_FREE_def)

lemma yolo_deinit_none: "fst (yolo_handle s) = 0 \<Longrightarrow> yolo_SoftwareDeinit s tr = (0, s, tr)"
  by (simp add: yolo_SoftwareDeinit_def yolo_handle_def mem_handle_def)

lemma ssd_params_tmp [simp]: "ss_prior_tmp (ssd_params pm s) = ss_prior_tmp s"
  by (simp add: ssd_params_def Let_def)

interpretation ssd: soft_params mmz "Ssd_SoftwareInit mmz cfg" Ssd_SoftwareDeinit ssd_handle for mmz cfg
proof
  fix pm s tr r s' tr'
  assume i: "Ssd_SoftwareInit mmz cfg pm s tr = (r, s', tr')"
  show "r \<noteq> 0 \<Longrightarrow> tr' = tr \<and> ssd_handle s' = ssd_handle s"
    using i by (auto simp: Ssd_SoftwareInit_def Ssd_GetResultTmpBuf_def Let_def ssd_handle_def mem_handle_def
        split: prod.splits if_splits dest!: MallocCached_cases)
next
  fix pm s tr s' tr'
  assume i: "Ssd_SoftwareInit mmz cfg pm s tr = (0, s', tr')"
  show "\<exists>p v n. mmz tr n = (0, p, v) \<and> tr' = tr @ [Mmz_alloc p v n] \<and> ssd_handle s' = (p, v)"
    using i by (auto simp: Ssd_SoftwareInit_def Ssd_GetResultTmpBuf_def Let_def ssd_handle_def mem_handle_def set_results_def
        split: prod.splits if_splits dest!: MallocCached_cases)
next
  show "\<exists>s'. Ssd_SoftwareDeinit s tr = (0, s', tr @ [Mmz_free p v]) \<and> fst (ssd_handle s') = 0"
    if "ssd_handle s = (p, v)" "p \<noteq> 0" "v \<noteq> 0" for s p v tr
    using that by (simp add: Ssd_SoftwareDeinit_def ssd_handle_def mem_handle_def free_mem_def MMZ_FREE_def)
qed (simp add: Ssd_SoftwareDeinit_def ssd_handle_def mem_handle_def free_mem_null)

interpretation yolo1: soft_params mmz "Yolov1_SoftwareInit mmz cfg" yolo_SoftwareDeinit yolo_handle for mmz cfg
proof
  show "tr' = tr \<and> yolo_handle s' = yolo_handle s"
    if "Yolov1_SoftwareInit mmz cfg pm s tr = (r, s', tr')" "r \<noteq> 0" for pm s tr r s' tr'
    using yolo_alloc_fail [OF that [unfolded Yolov1_SoftwareInit_def Let_def]] by (simp add: yolo_handle_def)
  show "\<exists>p v n. mmz tr n = (0, p, v) \<and> tr' = tr @ [Mmz_alloc p v n] \<and> yolo_handle s' = (p, v)"
    if "Yolov1_SoftwareInit mmz cfg pm s tr = (0, s', tr')" for pm s tr s' tr'
    by (rule yolo_alloc_ok [OF that [unfolded Yolov1_SoftwareInit_def Let_def]])
qed (rule yolo_deinit_held yolo_deinit_none; assumption)+

interpretation yolo2: soft_params mmz "Yolov2_SoftwareInit mmz cfg" yolo_SoftwareDeinit yolo_handle for mmz cfg
proof
  show "tr' = tr \<and> yolo_handle s' = yolo_handle s"
    if "Yolov2_SoftwareInit mmz cfg pm s tr = (r, s', tr')" "r \<noteq> 0" for pm s tr r s' tr'
    using yolo_alloc_fail [OF that [unfolded Yolov2_SoftwareInit_def Let_def]] by (simp add: yolo_handle_def)
  show "\<exists>p v n. mmz tr n = (0, p, v) \<and> tr' = tr @ [Mmz_alloc p v n] \<and> yolo_handle s' = (p, v)"
    if "Yolov2_SoftwareInit mmz cfg pm s tr = (0, s', tr')" for pm s tr s' tr'
    by (rule yolo_alloc_ok [OF that [unfolded Yolov2_SoftwareInit_def Let_def]])
qed (rule yolo_deinit_held yolo_deinit_none; assumption)+

lemma Yolov3_SoftwareInit_cases:
  assumes "Yolov3_SoftwareInit zq mmz cfg pm s tr = (r, s', tr')"
  obtains "r = -1" "tr' = tr" "so_tmp s' = so_tmp s"
  | "length (sg_dst (md_segs (pm_model pm) ! 0)) = (if zq then 2 else 3)"
      "yolo_alloc mmz (Yolov3_GetResultTmpBuf pm (yolo3_params zq pm) (yolo3_grids zq)) (int (yc_classes (yolo3_params zq pm)) + 1)
         (int (yc_maxroi (yolo3_params zq pm))) (s\<lparr>y3 := yolo3_params zq pm, y3_grids := yolo3_grids zq\<rparr>) tr = (r, s', tr')"
  using assms unfolding Yolov3_SoftwareInit_def Let_def by (auto split: if_splits)

interpretation yolo3: soft_params mmz "Yolov3_SoftwareInit zq mmz cfg" yolo_SoftwareDeinit yolo_handle for mmz zq cfg
proof
  show "tr' = tr \<and> yolo_handle s' = yolo_handle s"
    if i: "Yolov3_SoftwareInit zq mmz cfg pm s tr = (r, s', tr')" and r: "r \<noteq> 0" for pm s tr r s' tr'
    by (rule Yolov3_SoftwareInit_cases [OF i]) (auto simp: yolo_handle_def r dest: yolo_alloc_fail)
  show "\<exists>p v n. mmz tr n = (0, p, v) \<and> tr' = tr @ [Mmz_alloc p v n] \<and> yolo_handle s' = (p, v)"
    if "Yolov3_SoftwareInit zq mmz cfg pm s tr = (0, s', tr')" for pm s tr s' tr'
    by (rule Yolov3_SoftwareInit_cases [OF that]) (auto dest: yolo_alloc_ok)
qed (rule yolo_deinit_held yolo_deinit_none; assumption)+

section \<open>The layout after initialisation\<close>

lemma ssd_det_sel:
  "sd_classes (ss_det (ssd_params pm s)) = 21" "sd_topk (ss_det (ssd_params pm s)) = 400" "sd_keep (ss_det (ssd_params pm s)) = 200"
  "sd_chn (ss_det (ssd_params pm s)) = [23104, 8664, 2400, 600, 144, 16]" "ss_inner (ssd_params pm s) = 21"
  "ss_chn (ssd_params pm s) = [121296, 45486, 12600, 3150, 756, 84]"
  "ss_priors (ssd_params pm s) = ssd_priors (b_width (first_src pm)) (b_height (first_src pm))"
  by (simp_all add: ssd_params_def Let_def)

text \<open>The sizes of the SSD buffers for its twelve report nodes.\<close>

lemma Ssd_GetResultTmpBuf_eq:
  assumes "length (sg_dst (md_segs (pm_model pm) ! 0)) = 12"
  shows "Ssd_GetResultTmpBuf pm (ssd_params pm s) = (1641616, (ssd_params pm s)
    \<lparr>ss_prior_tmp := (ss_prior_tmp s)\<lparr>m_size := 279424\<rparr>,
     ss_softmax_tmp := (ss_softmax_tmp (ssd_params pm s))\<lparr>m_size := 733488\<rparr>,
     so_tmp := (so_tmp (ssd_params pm s))\<lparr>m_size := 628704\<rparr>\<rparr>)"
  unfolding Ssd_GetResultTmpBuf_def Let_def assms ssd_det_sel
  by (simp add: ssd_priors_def ssd_prior_def prior_share_def u32_def)

definition ssd_exts :: "(svp_mem_info \<Rightarrow> int) \<Rightarrow> (svp_blob \<Rightarrow> int) \<Rightarrow> ssd_soft \<Rightarrow> (int \<times> int) list" where
  "ssd_exts madr badr s = [mem_ext madr (ss_prior_tmp s), mem_ext madr (ss_softmax_tmp s), mem_ext madr (so_tmp s)] @ out_exts badr s"

definition yolo_exts :: "int \<Rightarrow> (svp_mem_info \<Rightarrow> int) \<Rightarrow> (svp_blob \<Rightarrow> int) \<Rightarrow> 'a soft_out_scheme \<Rightarrow> (int \<times> int) list" where
  "yolo_exts tmp madr badr s = (madr (so_tmp s), tmp) # out_exts badr s"

lemma Ssd_SoftwareInit_layout:
  assumes run: "Ssd_SoftwareInit mmz cfg pm s tr = (0, s', tr')" and mmz: "mmz_sound mmz" "live tr = Some bs"
    and n: "length (sg_dst (md_segs (pm_model pm) ! 0)) = 12"
  shows "laid_out tr' bs (ssd_exts m_phy b_phy s') (ssd_exts m_vir b_vir s') \<and>
    m_size (ss_prior_tmp s') = 279424 \<and> m_size (ss_softmax_tmp s') = 733488 \<and> m_size (so_tmp s') = 628704 \<and>
    b_stride (so_score s') = 33600 \<and> ss_det s' = ss_det (ssd_params pm s) \<and> ss_priors s' = ss_priors (ssd_params pm s) \<and>
    ss_chn s' = ss_chn (ssd_params pm s) \<and> ss_inner s' = 21 \<and> ss_stride s' = ss_stride (ssd_params pm s) \<and>
    ss_conv s' = ss_conv (ssd_params pm s)"
proof -
  obtain ret p v tr1 where mc: "MallocCached mmz 1809712 tr = ((ret, p, v), tr1)" by (metis surj_pair)
  note mc' = MallocCached_cases [OF mc]
  have al: "ALIGN16 (u32 134400) = 134400" "ALIGN16 (u32 33600) = 33600" "ALIGN16 (u32 84) = 96"
    "u32 1809712 = 1809712" "u32 1641616 = 1641616"
    by (simp_all add: ALIGN16_def u32_def)
  have ret: "ret = 0" "tr' = tr1" "s' = set_results p v 1641616 (21 * 400) 21 134400 33600 ((ssd_params pm s)
    \<lparr>ss_prior_tmp := \<lparr>m_phy = p, m_vir = v, m_size = 279424\<rparr>,
     ss_softmax_tmp := \<lparr>m_phy = u64 (p + 279424), m_vir = u32 (v + 279424), m_size = 733488\<rparr>,
     so_tmp := \<lparr>m_phy = u64 (p + 279424 + 733488), m_vir = u32 (v + 279424 + 733488), m_size = 628704\<rparr>\<rparr>)"
    using run mc unfolding Ssd_SoftwareInit_def Let_def ssd_det_sel Ssd_GetResultTmpBuf_eq [OF n]
    by (simp_all add: al split: if_splits)
  have bnd: "0 < p" "0 < v" "p + 1809712 < 9223372036854775808" "v + 1809712 < 4294967296"
    using mmz(1) mc' ret(1) unfolding mmz_sound_def by blast+
  have u: "u64 (p + 279424) = p + 279424" "u32 (v + 279424) = v + 279424"
    "u64 (1012912 + p) = 1012912 + p" "u32 (1012912 + v) = 1012912 + v"
    "u64 (p + 1012912) = p + 1012912" "u32 (v + 1012912) = v + 1012912"
    using bnd by (simp_all add: u64_id u32_small)
  have outs: "out_exts b_phy s' = [(p + 1641616, 134400), (p + 1641616 + 134400, 33600), (p + 1641616 + 134400 + 33600, up16 (4 * 21))]"
    "out_exts b_vir s' = [(v + 1641616, 134400), (v + 1641616 + 134400, 33600), (v + 1641616 + 134400 + 33600, up16 (4 * 21))]"
    unfolding ret(3) by (rule out_exts_set_results; use bnd in \<open>simp add: up16_def\<close>)+
  have "fits p (ssd_exts m_phy b_phy s') (p + 1809712)" "fits v (ssd_exts m_vir b_vir s') (v + 1809712)"
    unfolding ssd_exts_def outs by (simp_all add: ret(3) set_results_def mem_ext_def u up16_def)
  moreover have "live tr' = Some ((p, v, 1809712) # bs)" using mmz(2) mc' ret(1,2) by (simp add: live_append)
  moreover have "b_stride (so_score s') = 33600"
    by (simp add: ret(3) set_results_def result_blob_def ALIGN16_def u32_def)
  ultimately show ?thesis unfolding laid_out_def by (auto simp: ret(3) set_results_def ssd_det_sel)
qed

lemma yolo_alloc_layout:
  assumes run: "yolo_alloc mmz tmp c n s tr = (0, s', tr')" and mmz: "mmz_sound mmz" "live tr = Some bs"
    and small: "0 \<le> tmp" "0 \<le> c" "0 \<le> n" "tmp + 20 * (c * n) + 4 * c + 48 < 4294967296"
  shows "laid_out tr' bs (yolo_exts tmp m_phy b_phy s') (yolo_exts tmp m_vir b_vir s') \<and>
    b_stride (so_score s') = up16 (4 * (c * n)) \<and> soft_out.more s' = soft_out.more s"
proof -
  have cn: "0 \<le> c * n" using small by simp
  define roi score num where defs: "roi = up16 (16 * (c * n))" "score = up16 (4 * (c * n))" "num = up16 (4 * c)"
  have al: "ALIGN16 (u32 (c * n * 4 * 4)) = roi" "ALIGN16 (u32 (c * n * 4)) = score" "ALIGN16 (u32 (c * 4)) = num"
    using ALIGN16_eq [of "16 * (c * n)"] ALIGN16_eq [of "4 * (c * n)"] ALIGN16_eq [of "4 * c"] small cn
    by (simp_all add: defs ac_simps)
  have le: "16 * (c * n) \<le> roi" "roi \<le> 16 * (c * n) + 15" "4 * (c * n) \<le> score" "score \<le> 4 * (c * n) + 15"
    "4 * c \<le> num" "num \<le> 4 * c + 15"
    unfolding defs by (rule up16_bounds)+
  have nn: "0 \<le> roi" "0 \<le> score" using cn le by linarith+
  define tot where "tot = 0 + roi + score + num + tmp"
  have ut: "u32 tot = tot" using small cn le unfolding tot_def by (intro u32_small) linarith+
  obtain ret p v tr1 where mc: "MallocCached mmz tot tr = ((ret, p, v), tr1)" by (metis surj_pair)
  note mc' = MallocCached_cases [OF mc]
  have ret: "ret = 0" "tr' = tr1" "s' = set_results p v tmp (c * n) c roi score (s\<lparr>so_tmp := (so_tmp s)\<lparr>m_phy := p, m_vir := v\<rparr>\<rparr>)"
    using run mc unfolding yolo_alloc_def Let_def al tot_def [symmetric] ut by (auto split: if_splits)
  have bnd: "0 < p" "0 < v" "p + tot < 9223372036854775808" "v + tot < 4294967296"
    using mmz(1) mc' ret(1) unfolding mmz_sound_def by blast+
  have outs: "out_exts b_phy s' = [(p + tmp, roi), (p + tmp + roi, score), (p + tmp + roi + score, num)]"
    "out_exts b_vir s' = [(v + tmp, roi), (v + tmp + roi, score), (v + tmp + roi + score, num)]"
    unfolding ret(3) defs(3)
    by (rule out_exts_set_results [OF cn _ small(2) _ defs(1,2)]; use bnd small cn le in \<open>unfold tot_def; linarith\<close>)+
  have "fits p (yolo_exts tmp m_phy b_phy s') (p + tot)" "fits v (yolo_exts tmp m_vir b_vir s') (v + tot)"
    unfolding yolo_exts_def outs fits.simps tot_def using small nn le
    by (simp_all add: ret(3) set_results_def)
  moreover have "live tr' = Some ((p, v, tot) # bs)" using mmz(2) mc' ret(1,2) by (simp add: live_append)
  moreover have "b_stride (so_score s') = score" by (simp add: ret(3) set_results_def result_blob_def al)
  ultimately show ?thesis unfolding laid_out_def defs(2) by (auto simp: ret(3) set_results_def)
qed

section \<open>A frame through SSD\<close>

text \<open>
  The stack of the sort is the last part of the assist buffer of the detection stage. \<open>blobs\<close> are the
  report nodes, \<open>buf\<close> is the buffer of the prior boxes in words, \<open>stale\<close> what the second row array holds.
\<close>

definition ssd_stack_at :: "ssd_cfg \<Rightarrow> nat" where
  "ssd_stack_at cfg = (let n = sum_list (map (\<lambda>c. c div 4) (sd_chn cfg)) in 4 * (n * 4 + 6 * n + n * 6))"

definition ssd_softmax_in :: "ssd_soft \<Rightarrow> nat \<Rightarrow> softmax_in" where
  "ssd_softmax_in s i =
     \<lparr>sm_chn = ss_chn s ! i, sm_stride = nat (ss_stride s ! i), sm_width = nat (snd (snd (ss_conv s ! (2 * i + 1)))),
      sm_blob = (\<lambda>_. 0)\<rparr>"

definition Ssd_frame :: "(cfloat \<Rightarrow> cfloat) \<Rightarrow> ssd_soft \<Rightarrow> (nat \<Rightarrow> int \<Rightarrow> int) \<Rightarrow> int list \<Rightarrow> proposal list \<Rightarrow> det list
    \<Rightarrow> (int + nat list \<times> det list) option" where
  "Ssd_frame cexp s blobs buf stale dst =
     NNIE_Ssd_GetResult (stack_slots (m_size (so_tmp s)) (ssd_stack_at (ss_det s))) cexp (ss_priors s) (ss_inner s)
       (map (ssd_softmax_in s) [0..<6]) (ss_det s) blobs buf stale dst"

lemma PriorBoxForward_fits:
  assumes "prior_sizes_ok cfg" "pb_ratio_num cfg \<le> 2"
  obtains xs where "PriorBoxForward cfg = Inr xs" "length xs \<le> prior_share cfg"
proof -
  let ?xs = "(if pb_clip cfg then clip_priors cfg (all_priors cfg) else all_priors cfg) @ prior_vars cfg"
  let ?k = "pb_max_num cfg + pb_min_num cfg + pb_ratio_num cfg * 2 * pb_min_num cfg"
  have "NumPrior cfg \<le> ?k" by (auto simp: NumPrior_def length_aspect_ratios algebra_simps)
  then have "(8 * (pb_width cfg * pb_height cfg)) * NumPrior cfg \<le> (8 * (pb_width cfg * pb_height cfg)) * ?k" by (rule mult_le_mono2)
  moreover have "length ?xs = 8 * NumPrior cfg * (pb_width cfg * pb_height cfg)"
    using length_all_priors [OF assms(1)] length_prior_vars [of cfg] by (simp add: clip_priors_def)
  ultimately have "length ?xs \<le> prior_share cfg" by (simp add: prior_share_def ac_simps)
  moreover have "PriorBoxForward cfg = Inr ?xs" using assms(2) by (simp add: PriorBoxForward_def)
  ultimately show thesis by (rule that [rotated])
qed

lemma prior_loop_total:
  assumes "\<forall>c \<in> set cs. prior_sizes_ok c \<and> pb_ratio_num c \<le> 2"
  shows "off + sum_list (map prior_share cs) \<le> length buf \<Longrightarrow> \<exists>buf'. prior_loop cs off buf = Some (Inr buf')"
  using assms
proof (induction cs arbitrary: off buf)
  case (Cons c cs)
  then obtain xs where xs: "PriorBoxForward c = Inr xs" "length xs \<le> prior_share c" using PriorBoxForward_fits [of c] by auto
  define buf' where "buf' = take off buf @ xs @ drop (off + length xs) buf"
  have "length buf' = length buf" "write_at off xs buf = Some buf'"
    using Cons.prems(1) xs(2) by (simp_all add: buf'_def write_at_def)
  then show ?case using Cons.IH [of "off + prior_share c" buf'] Cons.prems by (simp add: xs(1))
qed simp

lemma ssd_priors_ok: "\<forall>c \<in> set (ssd_priors iw ih). prior_sizes_ok c \<and> pb_ratio_num c \<le> 2"
  "sum_list (map prior_share (ssd_priors iw ih)) = 69856"
  by (simp_all add: ssd_priors_def ssd_prior_def prior_sizes_ok_def prior_share_def)

lemma length_partition_le:
  assumes "distinct is"
  shows "length (concat (map (\<lambda>i. filter (\<lambda>p. g p = i) S) is)) \<le> length S"
proof (induction S)
  case Nil
  then show ?case by (induction "is") auto
next
  case (Cons p S)
  have "length (concat (map (\<lambda>i. filter (\<lambda>p. g p = i) (p # S)) is)) =
      (\<Sum>i\<leftarrow>is. (if i = g p then 1 else 0) + length (filter (\<lambda>p. g p = i) S))"
    by (auto simp: length_concat intro!: arg_cong [of _ _ sum_list] map_cong)
  also have "\<dots> = (\<Sum>i\<leftarrow>is. if i = g p then 1 else 0) + length (concat (map (\<lambda>i. filter (\<lambda>p. g p = i) S) is))"
    by (simp add: sum_list_addf length_concat comp_def)
  also have "(\<Sum>i\<leftarrow>is. if i = g p then 1 else (0::nat)) \<le> 1"
    using assms by (simp add: sum_list_distinct_conv_sum_set)
  finally show ?case using Cons by simp
qed

lemma length_gather: "length (gather i cs off dst) = sum_list cs"
  by (induction cs arbitrary: i off) auto

text \<open>The cut needs no more than that the second row array holds the rows: it cannot leave the results.\<close>

lemma ssd_cut_total:
  assumes m: "sum_list (tl nums) \<le> length stale" "sd_keep cfg \<le> length stale" and room: "sort_room cap (sum_list (tl nums))"
    and dst: "hd nums + sd_keep cfg \<le> length dst"
  obtains ns dst' where "ssd_cut cap cfg stale nums dst = Some (hd nums # ns, dst')" "length ns = sd_classes cfg - 1"
    "sum_list ns \<le> sd_keep cfg" "length dst' = length dst"
proof -
  let ?rows = "gather 1 (tl nums) (hd nums) dst" and ?m = "sum_list (tl nums)" and ?k = "sd_keep cfg"
  have len: "?m \<le> length (?rows @ drop ?m stale)" using m by (simp add: length_gather)
  obtain ps where ps: "sort_rows cap p_score (int ?m) ?m (?rows @ drop ?m stale) = Some ps"
    using qs.srt_total [OF len room] by auto
  have lps: "?k \<le> length ps" using qs.srt_length [OF len room ps] m by (simp add: length_gather)
  define K where "K = (\<lambda>i. map det_of (filter (\<lambda>p. u32 (p_flag p) = int i) (take ?k ps)))"
  have "length (concat (map (\<lambda>i. filter (\<lambda>p. u32 (p_flag p) = i) (take ?k ps)) (map int [1..<sd_classes cfg]))) \<le> length (take ?k ps)"
    by (rule length_partition_le) (simp add: distinct_map inj_on_def)
  then have lenK: "length (concat (map K [1..<sd_classes cfg])) \<le> ?k"
    by (simp add: K_def length_concat comp_def)
  have "class_blocks (\<lambda>i off. put_rows (\<lambda>p. u32 (p_flag p) = int i) (take ?k ps) off 0) [1..<sd_classes cfg] (hd nums) dst =
      Some (map (\<lambda>i. length (K i)) [1..<sd_classes cfg], take (hd nums) dst @ concat (map K [1..<sd_classes cfg]) @
        drop (hd nums + length (concat (map K [1..<sd_classes cfg]))) dst)"
    using lenK dst put_rows_eq [where cnt = 0] by (intro class_blocks_eq) (auto simp: K_def)
  then have "ssd_cut cap cfg stale nums dst = Some (hd nums # map (\<lambda>i. length (K i)) [1..<sd_classes cfg],
      take (hd nums) dst @ concat (map K [1..<sd_classes cfg]) @ drop (hd nums + length (concat (map K [1..<sd_classes cfg]))) dst)"
    using m lps by (simp add: ssd_cut_def Let_def length_gather ps del: One_nat_def)
  then show thesis by (rule that) (use lenK dst in \<open>auto simp: length_concat comp_def\<close>)
qed

lemma DetectionOutForward_total:
  assumes "n = length (ssd_boxes cexp cfg locs priors)" "sort_room cap n" "sd_topk cfg \<le> n" "0 < sd_classes cfg"
    and dst: "sd_classes cfg * sd_topk cfg \<le> length dst" "sd_topk cfg + sd_keep cfg \<le> length dst"
    and stale: "(sd_classes cfg - 1) * sd_topk cfg \<le> n" "sd_keep cfg \<le> n" "n \<le> length stale"
  shows "\<exists>nums dst'. DetectionOutForward cap cexp cfg locs priors conf stale dst = Some (nums, dst') \<and>
    length nums = sd_classes cfg \<and> hd nums \<le> sd_topk cfg \<and> sum_list (tl nums) \<le> sd_keep cfg \<and> length dst' = length dst"
proof -
  from ssd_detection [OF assms(1-3) dst(1), of conf stale] obtain Ks where
    K: "length Ks = sd_classes cfg" "\<And>i. i < sd_classes cfg \<Longrightarrow> length (Ks ! i) \<le> sd_topk cfg"
    and run: "DetectionOutForward cap cexp cfg locs priors conf stale dst =
      (let dst' = map det_of (concat Ks) @ drop (length (concat Ks)) dst in
       if sd_keep cfg < length (concat Ks) then ssd_cut cap cfg stale (map length Ks) dst' else Some (map length Ks, dst'))"
    unfolding Let_def by blast
  obtain B Ls where Ks: "Ks = B # Ls" using K(1) assms(4) by (cases Ks) auto
  have B: "length B \<le> sd_topk cfg" using K(2) [of 0] assms(4) by (simp add: Ks)
  have le: "length x \<le> sd_topk cfg" if "x \<in> set Ks" for x using that K by (metis in_set_conv_nth)
  have lc: "length (concat Ks) \<le> sd_classes cfg * sd_topk cfg" "length (concat Ls) \<le> (sd_classes cfg - 1) * sd_topk cfg"
    using length_concat_le [of Ks "sd_topk cfg"] length_concat_le [of Ls "sd_topk cfg"] le
    unfolding K(1) [symmetric] by (simp_all add: Ks mult.commute)
  let ?dst = "map det_of (concat Ks) @ drop (length (concat Ks)) dst"
  have ld: "length ?dst = length dst" using lc dst(1) by simp
  have tl: "sum_list (tl (map length Ks)) = length (concat Ls)" by (simp add: Ks length_concat)
  show ?thesis
  proof (cases "sd_keep cfg < length (concat Ks)")
    case True
    have room: "sort_room cap (length (concat Ls))" using assms(2) lc(2) stale by (auto simp: sort_room_def)
    obtain ns dst' where "ssd_cut cap cfg stale (map length Ks) ?dst = Some (hd (map length Ks) # ns, dst')"
      "length ns = sd_classes cfg - 1" "sum_list ns \<le> sd_keep cfg" "length dst' = length ?dst"
      using lc(2) stale room dst(2) B ld by (auto intro: ssd_cut_total [of "map length Ks" stale cfg cap ?dst, unfolded tl] simp: Ks)
    then show ?thesis using True run ld B assms(4) by (simp add: Ks)
  next
    case False
    then show ?thesis using run ld B K(1) by (simp add: Ks length_concat)
  qed
qed

lemma length_ssd_boxes: "length (ssd_boxes cexp cfg locs priors) = sum_list (map (\<lambda>c. c div 4) (sd_chn cfg))"
proof -
  have "length (ssd_boxes cexp cfg locs priors) = sum_list (map (\<lambda>i. sd_chn cfg ! i div 4) [0..<length (sd_chn cfg)])"
    by (simp add: ssd_boxes_def length_concat comp_def Let_def)
  also have "\<dots> = sum_list (map (\<lambda>c. c div 4) (map (\<lambda>i. sd_chn cfg ! i) [0..<length (sd_chn cfg)]))" by (simp only: map_map comp_def)
  finally show ?thesis by (simp only: map_nth)
qed

definition ssd_nodes_ok :: "nnie_param \<Rightarrow> bool" where
  "ssd_nodes_ok pm \<longleftrightarrow> (let ns = sg_dst (md_segs (pm_model pm) ! 0) in length ns = 12 \<and>
     (\<forall>i < 6. 0 < n_width (ns ! (2 * i + 1)) \<and> n_width (ns ! (2 * i + 1)) mod 21 = 0))"

lemma Ssd_frame_inside:
  assumes run: "Ssd_SoftwareInit mmz cfg pm s tr = (0, s', tr')" and mmz: "mmz_sound mmz" "live tr = Some bs"
    and nodes: "ssd_nodes_ok pm"
    and bufs: "m_size (ss_prior_tmp s') \<le> 4 * int (length buf)" "length stale = 8732" "b_stride (so_score s') \<le> 4 * int (length dst)"
  shows "\<exists>nums dst'. Ssd_frame cexp s' blobs buf stale dst = Some (Inr (nums, dst')) \<and>
    length nums = 21 \<and> hd nums \<le> 400 \<and> sum_list (tl nums) \<le> 200 \<and> length dst' = length dst"
proof -
  have n12: "length (sg_dst (md_segs (pm_model pm) ! 0)) = 12" using nodes by (simp add: ssd_nodes_ok_def Let_def)
  note L = Ssd_SoftwareInit_layout [OF run mmz n12]
  have keep: "ss_det s' = ss_det (ssd_params pm s)" "ss_inner s' = 21" "ss_conv s' = ss_conv (ssd_params pm s)" using L by blast+
  have sizes: "m_size (ss_prior_tmp s') = 279424" "m_size (so_tmp s') = 628704" "b_stride (so_score s') = 33600"
    "ss_priors s' = ssd_priors (b_width (first_src pm)) (b_height (first_src pm))" using L by (simp_all add: ssd_det_sel)
  have "0 + sum_list (map prior_share (ss_priors s')) \<le> length buf"
    using bufs(1) unfolding sizes ssd_priors_ok(2) by simp
  from prior_loop_total [OF _ this] ssd_priors_ok(1) obtain pri where pri: "prior_loop (ss_priors s') 0 buf = Some (Inr pri)"
    unfolding sizes by blast
  have ok: "softmax_ok 21 ((map (ssd_softmax_in s') [0..<6] ! i)\<lparr>sm_blob := f i\<rparr>)" if "i < 6" for i and f :: "nat \<Rightarrow> int \<Rightarrow> int"
  proof -
    let ?w = "n_width (sg_dst (md_segs (pm_model pm) ! 0) ! (2 * i + 1))"
    have "0 < ?w" "?w mod 21 = 0" using nodes that by (simp_all add: ssd_nodes_ok_def Let_def)
    moreover have "snd (snd (ss_conv s' ! (2 * i + 1))) = ?w" using that by (simp add: keep(3) ssd_params_def Let_def)
    moreover from calculation have "nat ?w mod 21 = 0" using nat_mod_distrib [of ?w 21] by simp
    ultimately show ?thesis using that by (simp add: softmax_ok_def ssd_softmax_in_def)
  qed
  obtain conf where conf: "SoftmaxForward cexp 21 (map (\<lambda>i. (map (ssd_softmax_in s') [0..<6] ! i)\<lparr>sm_blob := blobs (2 * i + 1)\<rparr>)
      [0..<length (map (ssd_softmax_in s') [0..<6])]) = Some conf"
    using softmax_forward [of _ 21 cexp] ok [of _ "\<lambda>i. blobs (2 * i + 1)"] by fastforce
  have n: "length (ssd_boxes cexp (ss_det s') locs priors) = 8732" for locs priors
    by (simp add: length_ssd_boxes keep(1) ssd_det_sel)
  have cap: "stack_slots (m_size (so_tmp s')) (ssd_stack_at (ss_det s')) = 8732"
    by (simp add: stack_slots_def ssd_stack_at_def Let_def keep(1) ssd_det_sel sizes)
  have dst: "8400 \<le> length dst" using bufs(3) by (simp add: sizes)
  note T = DetectionOutForward_total [OF n [symmetric], of 8732 dst stale]
  from T [of "\<lambda>i j. blobs (2 * i) (int j)" "\<lambda>i j. pri ! (prior_offset (ss_priors s') i + j)" "\<lambda>j. conf ! j"]
  obtain nums dst' where "DetectionOutForward 8732 cexp (ss_det s') (\<lambda>i j. blobs (2 * i) (int j))
      (\<lambda>i j. pri ! (prior_offset (ss_priors s') i + j)) (\<lambda>j. conf ! j) stale dst = Some (nums, dst')"
    "length nums = 21" "hd nums \<le> 400" "sum_list (tl nums) \<le> 200" "length dst' = length dst"
    using bufs(2) dst by (auto simp: keep(1) ssd_det_sel sort_room_def)
  then show ?thesis
    unfolding Ssd_frame_def NNIE_Ssd_GetResult_def pri keep(2) cap option.case sum.case conf by simp
qed

section \<open>A frame through YOLO\<close>

text \<open>
  Where the stack of the sort starts in the assist buffers of v1 and v3, where it is the last part;
  in v2 it comes second and has a slot for every box.
\<close>

definition yolo1_stack_at :: "yolo1_cfg \<Rightarrow> nat" where
  "yolo1_stack_at c =
     (let grid = y1_height c * y1_width c
      in 4 * (grid * (y1_each c * 5 + y1_classes c) + grid * y1_each c * y1_classes c) + 8 * (grid * y1_each c))"

definition Yolov1_frame :: "yolo1_soft \<Rightarrow> (nat \<Rightarrow> int) \<Rightarrow> det list \<Rightarrow> (nat list \<times> det list) option" where
  "Yolov1_frame s blob dst =
     Yolov1_GetResult (stack_slots (Yolov1_GetResultTmpBuf (y1 s)) (yolo1_stack_at (y1 s))) (y1 s) blob dst"

definition Yolov2_frame :: "(cfloat \<Rightarrow> cfloat) \<Rightarrow> yolo2_soft \<Rightarrow> (nat \<Rightarrow> int) \<Rightarrow> det list \<Rightarrow> (nat list \<times> det list) option" where
  "Yolov2_frame cexp s blob dst =
     Yolov2_GetResult (yg_width (y2_grid s) * yg_height (y2_grid s) * yc_each (y2 s)) cexp (y2 s) (y2_grid s) blob dst"

definition yolo3_infer :: "bool \<Rightarrow> nat" where
  "yolo3_infer zq = (if zq then 9 else 85)"

definition yolo3_stack_at :: "bool \<Rightarrow> yolo_cfg \<Rightarrow> yolo_grid list \<Rightarrow> nat" where
  "yolo3_stack_at zq c gs =
     foldl (\<lambda>m g. max m (yg_width g * yg_height g * 4 * yolo3_infer zq * yc_each c)) 0 gs +
     4 * bbox_words * sum_list (map (\<lambda>g. yg_width g * yg_height g * yc_each c) gs)"

text \<open>The blobs of a frame: the grids with the strides and the contents of the report nodes.\<close>

definition yolo3_blobs :: "yolo_grid list \<Rightarrow> nat list \<Rightarrow> (nat \<Rightarrow> nat \<Rightarrow> int) \<Rightarrow> yolo3_blob list" where
  "yolo3_blobs gs strides blobs =
     map (\<lambda>i. let g = gs ! i in \<lparr>yg_width = yg_width g, yg_height = yg_height g, yg_bias = yg_bias g,
       yg_stride = strides ! i, yg_data = blobs i\<rparr>) [0..<length gs]"

definition Yolov3_frame :: "bool \<Rightarrow> (cfloat \<Rightarrow> cfloat) \<Rightarrow> nnie_param \<Rightarrow> yolo3_soft \<Rightarrow> nat list \<Rightarrow> (nat \<Rightarrow> nat \<Rightarrow> int) \<Rightarrow> det list
    \<Rightarrow> (nat list \<times> det list) option" where
  "Yolov3_frame zq cexp pm s strides blobs dst =
     Yolov3_GetResult (stack_slots (Yolov3_GetResultTmpBuf pm (y3 s) (y3_grids s)) (yolo3_stack_at zq (y3 s) (y3_grids s)))
       cexp (yolo3_infer zq) (y3 s) (yolo3_blobs (y3_grids s) strides blobs) dst"

lemma yolo1_tmp: "Yolov1_GetResultTmpBuf (yolo1_params pm) = 15288" "yolo1_stack_at (yolo1_params pm) = 14504"
  by (simp_all add: Yolov1_GetResultTmpBuf_def yolo1_stack_at_def yolo1_params_def u32_def)

lemma yolo2_tmp: "Yolov2_GetResultTmpBuf (yolo2_params pm) yolo2_cells = 98020"
  by (simp add: Yolov2_GetResultTmpBuf_def yolo2_params_def yolo2_cells_def bbox_words_def u32_def)

text \<open>The report nodes of v3 have the shapes its grids stand for.\<close>

definition yolo3_nodes_ok :: "bool \<Rightarrow> nnie_param \<Rightarrow> bool" where
  "yolo3_nodes_ok zq pm \<longleftrightarrow> map (\<lambda>n. (n_width n, n_height n, n_chn n)) (sg_dst (md_segs (pm_model pm) ! 0)) =
     map (\<lambda>g. (int (yg_width g), int (yg_height g), 3 * int (yolo3_infer zq))) (yolo3_grids zq)"

lemma yolo3_stack: "yolo3_stack_at zq (yolo3_params zq pm) (yolo3_grids zq) = (if zq then 143988 else 3056196)"
  by (simp add: yolo3_stack_at_def yolo3_params_def yolo3_grids_def yolo3_infer_def bbox_words_def)

lemma yolo3_tmp:
  assumes "yolo3_nodes_ok zq pm"
  shows "Yolov3_GetResultTmpBuf pm (yolo3_params zq pm) (yolo3_grids zq) = (if zq then 164268 else 3141372)"
proof (cases zq)
  case True
  obtain a b where "sg_dst (md_segs (pm_model pm) ! 0) = [a, b]" "n_width a = 13" "n_height a = 13" "n_chn a = 27"
    "n_width b = 26" "n_height b = 26" "n_chn b = 27"
    using assms True by (auto simp: yolo3_nodes_ok_def yolo3_grids_def yolo3_infer_def map_eq_Cons_conv)
  then show ?thesis using True
    by (simp add: Yolov3_GetResultTmpBuf_def yolo3_params_def yolo3_grids_def bbox_words_def u32_def)
next
  case False
  obtain a b c where "sg_dst (md_segs (pm_model pm) ! 0) = [a, b, c]" "n_width a = 13" "n_height a = 13" "n_chn a = 255"
    "n_width b = 26" "n_height b = 26" "n_chn b = 255" "n_width c = 52" "n_height c = 52" "n_chn c = 255"
    using assms False by (auto simp: yolo3_nodes_ok_def yolo3_grids_def yolo3_infer_def map_eq_Cons_conv)
  then show ?thesis using False
    by (simp add: Yolov3_GetResultTmpBuf_def yolo3_params_def yolo3_grids_def bbox_words_def u32_def)
qed

lemma yolo3_total_blobs: "yolo3_total (yolo3_params zq pm) (yolo3_blobs (yolo3_grids zq) strides blobs) = (if zq then 2535 else 10647)"
  by (simp add: yolo3_total_def yolo3_blobs_def yolo3_params_def yolo3_grids_def upt_conv_Cons Let_def)

lemma quant_thresholds: "quant 0.2 = 819" "quant 0.25 = 1024"
  by (simp_all add: quant_def floor_eq_iff)

lemma yolo_alloc_keep:
  assumes "yolo_alloc mmz tmp c n s tr = (0, s', tr')"
  obtains t a b d where "s' = s\<lparr>so_tmp := t, so_roi := a, so_score := b, so_num := d\<rparr>"
  using assms by (auto simp: yolo_alloc_def Let_def set_results_def split: prod.splits if_splits)

text \<open>An image the single precision coordinates can address.\<close>

definition small_image :: "nnie_param \<Rightarrow> bool" where
  "small_image pm \<longleftrightarrow> b_width (first_src pm) \<le> 16777216 \<and> b_height (first_src pm) \<le> 16777216"

lemma Yolov1_frame_inside:
  assumes run: "Yolov1_SoftwareInit mmz cfg pm s tr = (0, s', tr')" and mmz: "mmz_sound mmz" "live tr = Some bs"
    and im: "small_image pm" and dst: "b_stride (so_score s') \<le> 4 * int (length dst)"
  shows "laid_out tr' bs (yolo_exts 15288 m_phy b_phy s') (yolo_exts 15288 m_vir b_vir s') \<and>
    (\<exists>Ks. Yolov1_frame s' blob dst = Some (0 # map length Ks, concat Ks @ drop (length (concat Ks)) dst) \<and> length Ks = 20 \<and>
      (\<forall>d \<in> set (concat Ks). 819 \<le> d_score d \<and> det_inside (nat (b_width (first_src pm))) (nat (b_height (first_src pm))) d))"
proof -
  let ?c = "yolo1_params pm"
  have sel: "y1_classes ?c = 20" "y1_height ?c * y1_width ?c * y1_each ?c = 98" "y1_conf ?c = 819" "y1_im_width ?c = nat (b_width (first_src pm))"
    "y1_im_height ?c = nat (b_height (first_src pm))" "u32 (int (y1_each ?c) * int (y1_height ?c) * int (y1_width ?c)) = 98"
    by (simp_all add: yolo1_params_def quant_thresholds [simplified] u32_def)
  from run have al: "yolo_alloc mmz 15288 21 98 (s\<lparr>y1 := ?c\<rparr>) tr = (0, s', tr')"
    by (simp add: Yolov1_SoftwareInit_def Let_def yolo1_tmp sel)
  note L = yolo_alloc_layout [OF al mmz, simplified]
  have y: "y1 s' = ?c" by (rule yolo_alloc_keep [OF al]) simp
  have "length dst \<ge> 2058" using L dst by (simp add: up16_def)
  then have d: "y1_classes ?c * (y1_height ?c * y1_width ?c * y1_each ?c) \<le> length dst" unfolding sel(1,2) by simp
  have r: "sort_room 98 (y1_height ?c * y1_width ?c * y1_each ?c)" unfolding sel(2) by (simp add: sort_room_def)
  have w: "y1_im_width ?c \<le> 16777216" "y1_im_height ?c \<le> 16777216" using im by (simp_all add: sel small_image_def nat_le_iff)
  have f: "Yolov1_frame s' blob dst = Yolov1_GetResult 98 ?c blob dst"
    by (simp add: Yolov1_frame_def y yolo1_tmp stack_slots_def)
  obtain Ks where "Yolov1_GetResult 98 ?c blob dst = Some (0 # map length Ks, concat Ks @ drop (length (concat Ks)) dst)" "length Ks = 20"
    "\<forall>d \<in> set (concat Ks). s32 (y1_conf ?c) \<le> d_score d \<and> det_inside (y1_im_width ?c) (y1_im_height ?c) d"
    using yolo1_result [OF r d w, of blob] unfolding sel(1) by (metis (no_types, lifting) length_map length_upt minus_nat.diff_0)
  moreover have "s32 (y1_conf ?c) = 819" by (simp add: sel s32_def)
  ultimately show ?thesis using L f by (auto simp: sel(4,5))
qed

lemma Yolov2_frame_inside:
  assumes run: "Yolov2_SoftwareInit mmz cfg pm s tr = (0, s', tr')" and mmz: "mmz_sound mmz" "live tr = Some bs"
    and im: "small_image pm" and dst: "b_stride (so_score s') \<le> 4 * int (length dst)"
  shows "laid_out tr' bs (yolo_exts 98020 m_phy b_phy s') (yolo_exts 98020 m_vir b_vir s') \<and>
    (\<exists>Rs. Yolov2_frame cexp s' blob dst = Some (0 # map length Rs, concat Rs @ drop (length (concat Rs)) dst) \<and> length (concat Rs) \<le> 10 \<and>
      (\<forall>d \<in> set (concat Rs). 1024 < u32 (d_score d) \<and> det_inside (nat (b_width (first_src pm))) (nat (b_height (first_src pm))) d))"
proof -
  let ?c = "yolo2_params pm"
  have sel: "yc_classes ?c = 5" "yg_width yolo2_cells * yg_height yolo2_cells * yc_each ?c = 845" "yc_conf ?c = 1024"
    "yc_src_width ?c = nat (b_width (first_src pm))" "yc_src_height ?c = nat (b_height (first_src pm))" "yc_maxroi ?c = 10"
    "u32 (int (yc_each ?c) * int (yg_height yolo2_cells) * int (yg_width yolo2_cells)) = 845"
    by (simp_all add: yolo2_params_def yolo2_cells_def quant_thresholds [simplified] u32_def)
  from run have al: "yolo_alloc mmz 98020 6 845 (s\<lparr>y2 := ?c, y2_grid := yolo2_cells\<rparr>) tr = (0, s', tr')"
    by (simp add: Yolov2_SoftwareInit_def Let_def yolo2_tmp sel)
  note L = yolo_alloc_layout [OF al mmz, simplified]
  have y: "y2 s' = ?c" "y2_grid s' = yolo2_cells" by (rule yolo_alloc_keep [OF al]; simp)+
  have d: "yc_maxroi ?c \<le> length dst" using L dst by (simp add: up16_def sel)
  have r: "sort_room 845 (yg_width yolo2_cells * yg_height yolo2_cells * yc_each ?c)" unfolding sel(2) by (simp add: sort_room_def)
  have w: "yc_src_width ?c \<le> 16777216" "yc_src_height ?c \<le> 16777216" using im by (simp_all add: sel small_image_def nat_le_iff)
  have f: "Yolov2_frame cexp s' blob dst = Yolov2_GetResult 845 cexp ?c yolo2_cells blob dst"
    by (simp add: Yolov2_frame_def y sel)
  obtain Rs where "Yolov2_GetResult 845 cexp ?c yolo2_cells blob dst = Some (0 # map length Rs, concat Rs @ drop (length (concat Rs)) dst)"
    "length (concat Rs) \<le> yc_maxroi ?c"
    "\<forall>d \<in> set (concat Rs). u32 (yc_conf ?c) < u32 (d_score d) \<and> det_inside (yc_src_width ?c) (yc_src_height ?c) d"
    using yolo2_result [OF r d w, of cexp blob] by blast
  moreover have "u32 (yc_conf ?c) = 1024" by (simp add: sel u32_def)
  ultimately show ?thesis using L f by (auto simp: sel(4-6))
qed

lemma Yolov3_frame_inside:
  assumes run: "Yolov3_SoftwareInit zq mmz cfg pm s tr = (0, s', tr')" and mmz: "mmz_sound mmz" "live tr = Some bs"
    and nodes: "yolo3_nodes_ok zq pm" and im: "small_image pm" and dst: "b_stride (so_score s') \<le> 4 * int (length dst)"
  shows "laid_out tr' bs (yolo_exts (if zq then 164268 else 3141372) m_phy b_phy s') (yolo_exts (if zq then 164268 else 3141372) m_vir b_vir s') \<and>
    (\<exists>Rs. Yolov3_frame zq cexp pm s' strides blobs dst = Some (map length Rs, concat Rs @ drop (length (concat Rs)) dst) \<and>
      length Rs = (if zq then 3 else 79) \<and> (\<forall>R \<in> set Rs. length R \<le> (if zq then 4 else 10)) \<and>
      (\<forall>d \<in> set (concat Rs). 2048 < u32 (d_score d) \<and> det_inside (nat (b_width (first_src pm))) (nat (b_height (first_src pm))) d))"
proof -
  let ?c = "yolo3_params zq pm" and ?b = "yolo3_blobs (yolo3_grids zq) strides blobs"
  have sel: "yc_classes ?c = (if zq then 4 else 80)" "yc_conf ?c = 2048" "yc_maxroi ?c = (if zq then 4 else 10)"
    "yc_src_width ?c = nat (b_width (first_src pm))" "yc_src_height ?c = nat (b_height (first_src pm))"
    using quant_values(4) by (simp_all add: yolo3_params_def)
  have al: "yolo_alloc mmz (if zq then 164268 else 3141372) (if zq then 5 else 81) (if zq then 4 else 10)
      (s\<lparr>y3 := ?c, y3_grids := yolo3_grids zq\<rparr>) tr = (0, s', tr')"
    by (rule Yolov3_SoftwareInit_cases [OF run]) (auto simp: yolo3_tmp [OF nodes] sel)
  note L = yolo_alloc_layout [OF al mmz]
  have L': "laid_out tr' bs (yolo_exts (if zq then 164268 else 3141372) m_phy b_phy s') (yolo_exts (if zq then 164268 else 3141372) m_vir b_vir s')"
    "b_stride (so_score s') = (if zq then 80 else 3248)"
    using L by (cases zq; simp add: up16_def)+
  have y: "y3 s' = ?c" "y3_grids s' = yolo3_grids zq" by (rule yolo_alloc_keep [OF al]; simp)+
  have d: "(yc_classes ?c - 1) * yc_maxroi ?c \<le> length dst" using L'(2) dst by (auto simp: sel split: if_splits)
  let ?cap = "if zq then 2535 else 10647 :: nat"
  have r: "sort_room ?cap (yolo3_total ?c ?b)" unfolding yolo3_total_blobs by (simp add: sort_room_def)
  have w: "yc_src_width ?c \<le> 16777216" "yc_src_height ?c \<le> 16777216" using im by (simp_all add: sel small_image_def nat_le_iff)
  have f: "Yolov3_frame zq cexp pm s' strides blobs dst = Yolov3_GetResult ?cap cexp (yolo3_infer zq) ?c ?b dst"
    by (simp add: Yolov3_frame_def y yolo3_tmp [OF nodes] yolo3_stack stack_slots_def)
  obtain Rs where "Yolov3_GetResult ?cap cexp (yolo3_infer zq) ?c ?b dst = Some (map length Rs, concat Rs @ drop (length (concat Rs)) dst)"
    "length Rs = yc_classes ?c - 1" "\<forall>R \<in> set Rs. length R \<le> yc_maxroi ?c"
    "\<forall>d \<in> set (concat Rs). u32 (yc_conf ?c) < u32 (d_score d) \<and> det_inside (yc_src_width ?c) (yc_src_height ?c) d"
    using yolo3_result_lengths [OF r d w] by metis
  moreover have "u32 (yc_conf ?c) = 2048" by (simp add: sel u32_def)
  ultimately show ?thesis using L'(1) f by (auto simp: sel)
qed

text \<open>
  A frame through SSD, whatever the network computes: after a successful initialisation for its twelve
  report nodes, the three assist buffers and the three result blobs lie one behind the other in one new
  block, and \<open>SAMPLE_SVP_NNIE_Ssd_GetResult\<close> with them returns results: none of its four stages writes
  outside its buffer, overruns its stack or divides by zero. It counts every one of the 21 classes, at
  most 400 rows of background and at most 200 of all others. The confidence nodes must have lines of
  whole rows of 21 classes, the second row array 8732 rows.
\<close>

lemma Ssd_frame_ok:
  assumes "Ssd_SoftwareInit mmz cfg pm s tr = (0, s', tr')" and "mmz_sound mmz" "live tr = Some bs" and "ssd_nodes_ok pm"
    and "m_size (ss_prior_tmp s') \<le> 4 * int (length buf)" "length stale = 8732" "b_stride (so_score s') \<le> 4 * int (length dst)"
  shows "laid_out tr' bs (ssd_exts m_phy b_phy s') (ssd_exts m_vir b_vir s') \<and>
    (\<exists>nums dst'. Ssd_frame cexp s' blobs buf stale dst = Some (Inr (nums, dst')) \<and>
      length nums = 21 \<and> hd nums \<le> 400 \<and> sum_list (tl nums) \<le> 200 \<and> length dst' = length dst)"
  using Ssd_frame_inside [OF assms] Ssd_SoftwareInit_layout [OF assms(1-3)] assms(4) by (simp add: ssd_nodes_ok_def Let_def)

definition ssd_param :: nnie_param where
  "ssd_param = small_param\<lparr>pm_model := \<lparr>md_tmp_size = 64,
     md_segs = [\<lparr>sg_type = NET_CNN, sg_src = [\<lparr>n_name = ''data'', n_type = BLOB_U8, n_width = 300, n_height = 300, n_chn = 3\<rparr>],
       sg_dst = map (\<lambda>i. \<lparr>n_name = '''', n_type = BLOB_S32, n_width = (if even i then 16 else 84), n_height = 38, n_chn = 38\<rparr>) [0..<12]\<rparr>]\<rparr>,
     pm_data := [\<lparr>sd_src = [no_blob\<lparr>b_width := 300, b_height := 300\<rparr>], sd_dst = replicate 12 no_blob\<rparr>]\<rparr>"

definition no_ssd :: ssd_soft where
  "no_ssd = \<lparr>so_tmp = no_mem, so_roi = no_blob, so_score = no_blob, so_num = no_blob, ss_conv = [], ss_stride = [],
     ss_priors = [], ss_inner = 0, ss_chn = [], ss_softmax_out = (0, 0, 0),
     ss_det = \<lparr>sd_conf = 0, sd_classes = 0, sd_topk = 0, sd_keep = 0, sd_nms = 0, sd_chn = []\<rparr>,
     ss_prior_tmp = no_mem, ss_softmax_tmp = no_mem\<rparr>"

lemma ssd_param_ok: "ssd_nodes_ok ssd_param"
  by (simp add: ssd_nodes_ok_def ssd_param_def Let_def nth_append)

lemma Ssd_SoftwareInit_bump: "length (sg_dst (md_segs (pm_model pm) ! 0)) = 12 \<Longrightarrow> fst (Ssd_SoftwareInit bump_mmz cfg pm s []) = 0"
  unfolding Ssd_SoftwareInit_def Let_def Ssd_GetResultTmpBuf_eq ssd_det_sel
  by (simp add: MallocCached_def MmzAlloc_def bump_mmz_def ALIGN16_def u32_def)

lemma Ssd_frame_ok_witness:
  "\<exists>s' tr' nums dst'. Ssd_SoftwareInit bump_mmz rois10 ssd_param no_ssd [] = (0, s', tr') \<and>
     laid_out tr' [] (ssd_exts m_phy b_phy s') (ssd_exts m_vir b_vir s') \<and>
     Ssd_frame step_exp s' (\<lambda>_ _. 0) (replicate 69856 0) (replicate 8732 ghost) (replicate 8400 no_det) = Some (Inr (nums, dst')) \<and>
     length nums = 21"
proof -
  have n: "length (sg_dst (md_segs (pm_model ssd_param) ! 0)) = 12" using ssd_param_ok by (simp add: ssd_nodes_ok_def Let_def)
  obtain s' tr' where i: "Ssd_SoftwareInit bump_mmz rois10 ssd_param no_ssd [] = (0, s', tr')"
    using Ssd_SoftwareInit_bump [OF n, of rois10 no_ssd] by (metis surj_pair fst_conv)
  have l: "live [] = Some []" by (simp add: live_def)
  note L = Ssd_SoftwareInit_layout [OF i bump_mmz_sound l n]
  from Ssd_frame_ok [OF i bump_mmz_sound l ssd_param_ok, of "replicate 69856 0" "replicate 8732 ghost" "replicate 8400 no_det"] L i
  show ?thesis by (simp only: length_replicate) force
qed

text \<open>
  C17. A frame through YOLO v3, in both builds, whatever the network computes: after a successful
  initialisation, with report nodes of the shapes of its grids, the assist buffer (sized by the
  nodes) and the result blobs lie one behind the other in one new block; the result stage, which
  cuts the buffer by the grids, returns, all its parts and its stack fit, and what it writes are,
  for all classes but the last, at most \<open>u32MaxRoiNum\<close> boxes each, in the image and with a score above one half.
\<close>

theorem Yolov3_frame_ok:
  assumes "Yolov3_SoftwareInit zq mmz cfg pm s tr = (0, s', tr')" and "mmz_sound mmz" "live tr = Some bs"
    and "yolo3_nodes_ok zq pm" and "small_image pm" and "b_stride (so_score s') \<le> 4 * int (length dst)"
  shows "\<exists>tmp. tmp = Yolov3_GetResultTmpBuf pm (y3 s') (y3_grids s') \<and>
    laid_out tr' bs (yolo_exts tmp m_phy b_phy s') (yolo_exts tmp m_vir b_vir s') \<and>
    int (yolo3_stack_at zq (y3 s') (y3_grids s')) + 8 * int (yolo3_total (y3 s') (yolo3_blobs (y3_grids s') strides blobs)) = tmp \<and>
    (\<exists>Rs. Yolov3_frame zq cexp pm s' strides blobs dst = Some (map length Rs, concat Rs @ drop (length (concat Rs)) dst) \<and>
      length Rs = yc_classes (y3 s') - 1 \<and> (\<forall>R \<in> set Rs. length R \<le> yc_maxroi (y3 s')) \<and>
      (\<forall>d \<in> set (concat Rs). 2048 < u32 (d_score d) \<and> det_inside (nat (b_width (first_src pm))) (nat (b_height (first_src pm))) d))"
proof -
  have y: "y3 s' = yolo3_params zq pm" "y3_grids s' = yolo3_grids zq"
    using assms(1) by (auto elim!: Yolov3_SoftwareInit_cases yolo_alloc_keep)
  have c: "yc_classes (yolo3_params zq pm) - 1 = (if zq then 3 else 79)" "yc_maxroi (yolo3_params zq pm) = (if zq then 4 else 10)"
    by (simp_all add: yolo3_params_def)
  show ?thesis using Yolov3_frame_inside [OF assms]
    unfolding y yolo3_tmp [OF assms(4)] yolo3_stack yolo3_total_blobs c by simp
qed

definition zq_param :: nnie_param where
  "zq_param = small_param\<lparr>pm_model := \<lparr>md_tmp_size = 64,
     md_segs = [\<lparr>sg_type = NET_CNN, sg_src = [\<lparr>n_name = ''data'', n_type = BLOB_U8, n_width = 416, n_height = 416, n_chn = 3\<rparr>],
       sg_dst = [\<lparr>n_name = '''', n_type = BLOB_S32, n_width = 13, n_height = 13, n_chn = 27\<rparr>,
                 \<lparr>n_name = '''', n_type = BLOB_S32, n_width = 26, n_height = 26, n_chn = 27\<rparr>]\<rparr>]\<rparr>,
     pm_data := [\<lparr>sd_src = [no_blob\<lparr>b_type := BLOB_U8, b_num := 1, b_chn := 3, b_width := 416, b_height := 416, b_stride := 416\<rparr>], sd_dst = replicate 2 no_blob\<rparr>]\<rparr>"

definition no_yolo3 :: yolo3_soft where
  "no_yolo3 = \<lparr>so_tmp = no_mem, so_roi = no_blob, so_score = no_blob, so_num = no_blob, y3 = small_yolo, y3_grids = []\<rparr>"

lemma zq_param_ok: "yolo3_nodes_ok True zq_param" "small_image zq_param"
  by (simp_all add: yolo3_nodes_ok_def zq_param_def yolo3_grids_def yolo3_infer_def small_image_def first_src_def)

lemma zq_start: "fst (Yolov3_SoftwareInit True bump_mmz rois10 zq_param no_yolo3 []) = 0"
  unfolding Yolov3_SoftwareInit_def Let_def yolo3_tmp [OF zq_param_ok(1)]
  by (simp add: yolo_alloc_def Let_def MallocCached_def MmzAlloc_def bump_mmz_def ALIGN16_def u32_def yolo3_params_def zq_param_def)

theorem Yolov3_frame_ok_witness:
  "\<exists>s' tr' Rs. Yolov3_SoftwareInit True bump_mmz rois10 zq_param no_yolo3 [] = (0, s', tr') \<and>
     Yolov3_frame True step_exp zq_param s' [64, 112] (\<lambda>_ _. 0) (replicate 20 no_det) =
       Some (map length Rs, concat Rs @ drop (length (concat Rs)) (replicate 20 no_det))"
proof -
  obtain s' tr' where i: "Yolov3_SoftwareInit True bump_mmz rois10 zq_param no_yolo3 [] = (0, s', tr')"
    using zq_start by (metis surj_pair fst_conv)
  have l: "live [] = Some []" by (simp add: live_def)
  have c: "yc_classes (yolo3_params True zq_param) = 4" "yc_maxroi (yolo3_params True zq_param) = 4" by (simp_all add: yolo3_params_def)
  have "yolo_alloc bump_mmz 164268 5 4 (no_yolo3\<lparr>y3 := yolo3_params True zq_param, y3_grids := yolo3_grids True\<rparr>) [] = (0, s', tr')"
    by (rule Yolov3_SoftwareInit_cases [OF i]) (simp_all add: yolo3_tmp [OF zq_param_ok(1)] c)
  from yolo_alloc_layout [OF this bump_mmz_sound l] have "b_stride (so_score s') \<le> 4 * int (length (replicate 20 no_det))"
    by (simp add: up16_def)
  from Yolov3_frame_ok [OF i bump_mmz_sound l zq_param_ok this] i show ?thesis by blast
qed

end
