(* ===== verification/Nnie_Detect.thy ===== *)
theory Nnie_Detect
  imports Nnie_SoftDet
begin

text \<open>
  The way of a frame through the NNIE (nnie/sample_nnie.c): filling the source blob, from a file
  (\<open>SAMPLE_SVP_NNIE_FillSrcData\<close>) or from memory (\<open>_FillSrcData_ptr\<close>), running a segment and
  waiting for it (\<open>SAMPLE_SVP_NNIE_Forward\<close>, \<open>_ForwardWithBbox\<close>), taking the results out of the result
  blobs (\<open>SAMPLE_SVP_NNIE_Detection_Result\<close>), and the three functions with which the detection service uses
  YOLO v3: \<open>NNIE_LOAD_MODEL_yolov3\<close>, \<open>NNIE_process_yolov3\<close> and \<open>deinit_yolov3\<close>.

  The NNIE library is a parameter: the code its call returns, the codes its query returns one after
  the other, and, where results matter, the contents it leaves in the destination blobs. The cache
  flushes and the run are events in the order of the code; time measurements are off in this build.
\<close>

section \<open>Running a segment\<close>

definition HI_ERR_SVP_NNIE_QUERY_TIMEOUT :: int where
  "HI_ERR_SVP_NNIE_QUERY_TIMEOUT = s32 (0x80000000 + 0x20000000 + 51 * 2 ^ 16 + 4 * 2 ^ 13 + 0x41)"

datatype fw_event =
    Fw_flush int int int
  | Fw_run nat "svp_blob list option" "svp_blob list" "svp_blob list"
  | Fw_query int

text \<open>
  The flushes of the destination blobs. \<open>steps a j\<close> is the word \<open>j\<close> of the step buffer at \<open>a\<close>; the
  number of steps is not reset between blobs.
\<close>

definition blob_steps :: "(int \<Rightarrow> nat \<Rightarrow> int) \<Rightarrow> svp_blob \<Rightarrow> int \<Rightarrow> int" where
  "blob_steps steps b acc = fold (\<lambda>j acc. u32 (acc + steps (b_step b) j)) [0..<nat (b_num b)] acc"

fun flush_dsts :: "(int \<Rightarrow> nat \<Rightarrow> int) \<Rightarrow> svp_blob list \<Rightarrow> int \<Rightarrow> fw_event list" where
  "flush_dsts steps [] tot = []"
| "flush_dsts steps (b # bs) tot =
     (if b_type b = BLOB_SEQ_S32
      then let tot' = blob_steps steps b tot
           in Fw_flush (b_phy b) (b_vir b) (u32 (tot' * b_stride b)) # flush_dsts steps bs tot'
      else Fw_flush (b_phy b) (b_vir b) (u32 (b_num b * b_chn b * b_height b * b_stride b)) # flush_dsts steps bs tot)"

text \<open>Every source gets the first destination blob of the other segment that has its name.\<close>

fun wire_srcs :: "nnie_node list \<Rightarrow> svp_blob list \<Rightarrow> nnie_node list \<Rightarrow> nat \<Rightarrow> svp_blob list \<Rightarrow> int \<times> svp_blob list" where
  "wire_srcs outs dsts [] i srcs = (0, srcs)"
| "wire_srcs outs dsts (n # ns) i srcs =
     (let j = find_node (n_name n) outs 0
      in if j = length outs then (-1, srcs) else wire_srcs outs dsts ns (Suc i) (srcs[i := dsts ! j]))"

text \<open>The wait: \<open>query k\<close> is what the \<open>k\<close>-th query returns, \<open>tmo\<close> the code of a timeout. The loop has no bound.\<close>

partial_function (option) wait_query :: "int \<Rightarrow> (nat \<Rightarrow> int) \<Rightarrow> nat \<Rightarrow> (int \<times> nat) option" where
  "wait_query tmo query k =
     (if query k = tmo then wait_query tmo query (Suc k) else Some (query k, k))"

text \<open>
  Both functions, with the control block \<open>c\<close> of the processed segment; \<open>run\<close> is what the library's
  call returns for its arguments. \<open>None\<close> is a wait that does not end.
\<close>

definition forward_seg :: "(svp_blob list option \<Rightarrow> svp_blob list \<Rightarrow> svp_blob list \<Rightarrow> int) \<Rightarrow> (nat \<Rightarrow> int) \<Rightarrow> (int \<Rightarrow> nat \<Rightarrow> int)
    \<Rightarrow> forward_ctrl \<Rightarrow> svp_blob list option \<Rightarrow> nat \<Rightarrow> nat \<Rightarrow> bool \<Rightarrow> nnie_param \<Rightarrow> (int \<times> nnie_param \<times> fw_event list) option" where
  "forward_seg run query steps c bbox inp proc instant pm =
     (let d = pm_data pm ! proc;
          flush = flush_dsts steps (take (nat (fw_dst_num c)) (sd_dst d)) 0;
          tr0 = Fw_flush (m_phy (fw_tsk c)) (m_vir (fw_tsk c)) (m_size (fw_tsk c)) # flush;
          (ret, srcs) = (if inp \<noteq> proc
            then wire_srcs (sg_dst (md_segs (pm_model pm) ! inp)) (sd_dst (pm_data pm ! inp))
                   (sg_src (md_segs (pm_model pm) ! proc)) 0 (sd_src d)
            else (0, sd_src d));
          pm1 = pm\<lparr>pm_data := (pm_data pm)[proc := d\<lparr>sd_src := srcs\<rparr>]\<rparr>
      in if ret \<noteq> 0 then Some (ret, pm1, tr0)
         else let r = run bbox srcs (sd_dst d); tr1 = tr0 @ [Fw_run proc bbox srcs (sd_dst d)]
         in if r \<noteq> 0 then Some (r, pm1, tr1)
            else if instant
            then (case wait_query HI_ERR_SVP_NNIE_QUERY_TIMEOUT query 0 of
                    None \<Rightarrow> None
                  | Some (q, k) \<Rightarrow> Some (q, pm1, tr1 @ map (\<lambda>j. Fw_query (query j)) [0..<Suc k] @ flush))
            else Some (0, pm1, tr1 @ flush))"

definition NNIE_Forward :: "(svp_blob list option \<Rightarrow> svp_blob list \<Rightarrow> svp_blob list \<Rightarrow> int) \<Rightarrow> (nat \<Rightarrow> int) \<Rightarrow> (int \<Rightarrow> nat \<Rightarrow> int)
    \<Rightarrow> nat \<Rightarrow> nat \<Rightarrow> bool \<Rightarrow> nnie_param \<Rightarrow> (int \<times> nnie_param \<times> fw_event list) option" where
  "NNIE_Forward run query steps inp proc instant pm =
     forward_seg run query steps (pm_ctrl pm ! proc) None inp proc instant pm"

definition NNIE_ForwardWithBbox :: "(svp_blob list option \<Rightarrow> svp_blob list \<Rightarrow> svp_blob list \<Rightarrow> int) \<Rightarrow> (nat \<Rightarrow> int) \<Rightarrow> (int \<Rightarrow> nat \<Rightarrow> int)
    \<Rightarrow> svp_blob list \<Rightarrow> nat \<Rightarrow> nat \<Rightarrow> bool \<Rightarrow> nnie_param \<Rightarrow> (int \<times> nnie_param \<times> fw_event list) option" where
  "NNIE_ForwardWithBbox run query steps bbox inp proc instant pm =
     forward_seg run query steps (pm_bbox_ctrl pm ! proc) (Some bbox) inp proc instant pm"

section \<open>Filling the source\<close>

definition var_size :: "blob_type \<Rightarrow> nat" where
  "var_size t = (if t = BLOB_U8 \<or> t = BLOB_YVU420SP \<or> t = BLOB_YVU422SP then 1 else 4)"

text \<open>The number of lines the loops copy, and the bytes flushed afterwards.\<close>

definition fill_lines :: "(int \<Rightarrow> nat \<Rightarrow> int) \<Rightarrow> svp_blob \<Rightarrow> nat" where
  "fill_lines steps b =
     (if b_type b = BLOB_SEQ_S32 then sum_list (map (\<lambda>j. nat (steps (b_step b) j)) [0..<nat (b_num b)])
      else if b_type b = BLOB_YVU420SP then nat (b_num b) * nat (u32 (b_chn b * b_height b) div 2)
      else if b_type b = BLOB_YVU422SP then nat (b_num b) * nat (u32 (b_height b * 2))
      else nat (b_num b) * (nat (b_chn b) * nat (b_height b)))"

definition fill_flush :: "(int \<Rightarrow> nat \<Rightarrow> int) \<Rightarrow> svp_blob \<Rightarrow> fw_event" where
  "fill_flush steps b = Fw_flush (b_phy b) (b_vir b)
     (if b_type b = BLOB_SEQ_S32 then u32 (blob_steps steps b 0 * b_stride b)
      else u32 (b_num b * b_chn b * b_height b * b_stride b))"

text \<open>
  The copying of lines of \<open>n\<close> bytes, one stride apart. A line is stored as far as there are bytes left
  of it; \<open>fread\<close> of an element of no bytes returns 0. The result: whether all lines were read, and
  the stores.
\<close>

fun read_lines :: "nat \<Rightarrow> nat \<Rightarrow> int \<Rightarrow> int \<Rightarrow> int list \<Rightarrow> bool \<times> (int \<times> int list) list" where
  "read_lines 0 n adr stride bytes = (True, [])"
| "read_lines (Suc k) n adr stride bytes =
     (if n = 0 \<or> length bytes < n then (False, [(adr, take n bytes)])
      else let (ok, ws) = read_lines k n (u32 (adr + stride)) stride (drop n bytes)
           in (ok, (adr, take n bytes) # ws))"

text \<open>
  From a file: \<open>pic\<close> is the contents, \<open>Some None\<close> for a file that does not open; without a file name
  (\<open>None\<close>) the code works on a null stream, which is undefined. The result: the return value, the
  stores and flushes, and the files left open.
\<close>

definition FillSrcData :: "(int \<Rightarrow> nat \<Rightarrow> int) \<Rightarrow> int list option option \<Rightarrow> svp_blob
    \<Rightarrow> (int \<times> (int \<times> int list) list \<times> fw_event list \<times> int) option" where
  "FillSrcData steps pic b =
     (case pic of
        None \<Rightarrow> None
      | Some None \<Rightarrow> Some (HI_INVALID_VALUE, [], [], 0)
      | Some (Some bytes) \<Rightarrow>
          let opened = 0 + 1;
              (ok, ws) = read_lines (fill_lines steps b) (nat (u32 (b_width b * int (var_size (b_type b))))) (b_vir b) (b_stride b) bytes
          in if ok then Some (0, ws, [fill_flush steps b], opened - 1) else Some (-1, ws, [], opened - 1))"

text \<open>From memory; \<open>None\<close> if the loops read behind the buffer.\<close>

fun copy_lines :: "nat \<Rightarrow> nat \<Rightarrow> int \<Rightarrow> int \<Rightarrow> int list \<Rightarrow> (int \<times> int list) list option" where
  "copy_lines 0 n adr stride bytes = Some []"
| "copy_lines (Suc k) n adr stride bytes =
     (if length bytes < n then None
      else map_option ((#) (adr, take n bytes)) (copy_lines k n (u32 (adr + stride)) stride (drop n bytes)))"

definition FillSrcData_ptr :: "(int \<Rightarrow> nat \<Rightarrow> int) \<Rightarrow> int list \<Rightarrow> svp_blob \<Rightarrow> (int \<times> (int \<times> int list) list \<times> fw_event list) option" where
  "FillSrcData_ptr steps bytes b =
     map_option (\<lambda>ws. (0, ws, [fill_flush steps b]))
       (copy_lines (fill_lines steps b) (nat (u32 (b_width b * int (var_size (b_type b))))) (b_vir b) (b_stride b) bytes)"

section \<open>Taking the results\<close>

text \<open>
  \<open>DETECT_RET_BUF\<close>, one entry of each of its arrays. \<open>class_ret\<close> is an array of \<open>char\<close>, unsigned on the ARM
  target: a class number is stored modulo 256.
\<close>

record ret_item =
  r_class :: nat
  r_score :: cfloat
  r_box :: ibox

definition MAX_RET_COUNT :: nat where
  "MAX_RET_COUNT = 4"

text \<open>
  The loop over the \<open>k\<close> rows of a class from \<open>off\<close> on, and the loop over the classes. \<open>buf\<close> is the
  result buffer as far as it is filled; the flag tells that it is full, which ends the function.
  \<open>None\<close> is a read behind the result blobs. The current class changes only when the first row counts.
\<close>

fun result_rows :: "cfloat \<Rightarrow> nat \<Rightarrow> det list \<Rightarrow> nat \<Rightarrow> nat \<Rightarrow> ret_item list \<Rightarrow> (ret_item list \<times> bool) option" where
  "result_rows thresh cur dst off 0 buf = Some (buf, False)"
| "result_rows thresh cur dst off (Suc k) buf =
     (if length dst \<le> off then None
      else let d = dst ! off; f = q12 (d_score d)
      in if flt f thresh then Some (buf, False)
         else let buf' = buf @ [\<lparr>r_class = cur mod 256, r_score = f, r_box = d_box d\<rparr>]
              in if MAX_RET_COUNT \<le> length buf' then Some (buf', True)
                 else result_rows thresh cur dst (Suc off) k buf')"

fun result_classes :: "cfloat \<Rightarrow> det list \<Rightarrow> nat list \<Rightarrow> nat \<Rightarrow> nat \<Rightarrow> nat \<Rightarrow> ret_item list \<Rightarrow> ret_item list option" where
  "result_classes thresh dst [] i bias cur buf = Some buf"
| "result_classes thresh dst (n # ns) i bias cur buf =
     (if length dst \<le> bias then None
      else let cur' = (if fle thresh (q12 (d_score (dst ! bias))) \<and> n \<noteq> 0 then i else cur)
      in case result_rows thresh cur' dst bias n buf of
           None \<Rightarrow> None
         | Some (buf', full) \<Rightarrow>
             if full then Some buf' else result_classes thresh dst ns (Suc i) (bias + n) cur' buf')"

definition Detection_Result :: "cfloat \<Rightarrow> nat list \<Rightarrow> det list \<Rightarrow> ret_item list option" where
  "Detection_Result thresh nums dst = result_classes thresh dst (tl nums) 1 (hd nums) 0 []"

section \<open>The detection service's functions\<close>

text \<open>
  A failed initialisation is only printed: the function returns nothing. \<open>hw\<close> and the rest are as in
  \<open>Yolov3_ParamInit\<close>.
\<close>

definition NNIE_LOAD_MODEL_yolov3 :: "bool \<Rightarrow> mmz \<Rightarrow> (nnie_cfg \<Rightarrow> nnie_model \<Rightarrow> int \<times> int list) \<Rightarrow> (int \<Rightarrow> nat \<Rightarrow> int) \<Rightarrow> load_env
    \<Rightarrow> nnie_cfg \<Rightarrow> load_state \<Rightarrow> nnie_param \<Rightarrow> yolo3_soft \<Rightarrow> (load_state \<times> nnie_param \<times> yolo3_soft option) option" where
  "NNIE_LOAD_MODEL_yolov3 zq mmz tsk steps e cfg md pm s =
     (let (ret, md1) = LoadModel mmz e md
      in if ret \<noteq> 0 then Some (md1, pm, Some s)
         else map_option (\<lambda>(_, pm1, s1, tr1). (md1\<lparr>ld_trace := tr1\<rparr>, pm1, s1))
                (Yolov3_ParamInit zq mmz tsk steps cfg pm (Some s) (ld_trace md1)))"

definition deinit_yolov3 :: "nnie_param \<Rightarrow> yolo3_soft \<Rightarrow> load_state \<Rightarrow> int \<times> nnie_param option \<times> yolo3_soft option \<times> load_state option \<times> mmz_trace" where
  "deinit_yolov3 pm s md = soft_Deinit yolo_SoftwareDeinit (Some pm) (Some s) (Some md) (ld_trace md)"

text \<open>
  One frame: \<open>data\<close> is the image, \<open>net\<close> the library's effect, from the stores into the source to the
  contents of the destination blobs, \<open>dst\<close> the result rows before, \<open>buf\<close> the caller's buffer. The
  function returns nothing, so a failure leaves the buffer as it was. The first and the last counts are
  those the initialisation cleared.
\<close>

definition NNIE_process_yolov3 :: "bool \<Rightarrow> (cfloat \<Rightarrow> cfloat) \<Rightarrow> (svp_blob list option \<Rightarrow> svp_blob list \<Rightarrow> svp_blob list \<Rightarrow> int)
    \<Rightarrow> (nat \<Rightarrow> int) \<Rightarrow> (int \<Rightarrow> nat \<Rightarrow> int) \<Rightarrow> ((int \<times> int list) list \<Rightarrow> nat \<Rightarrow> nat \<Rightarrow> int) \<Rightarrow> int list \<Rightarrow> nnie_param \<Rightarrow> yolo3_soft
    \<Rightarrow> det list \<Rightarrow> ret_item list \<Rightarrow> bool \<Rightarrow> (ret_item list \<times> det list) option" where
  "NNIE_process_yolov3 zq cexp run query steps net data pm s dst buf test_mode =
     (case FillSrcData_ptr steps data (first_src pm) of
        None \<Rightarrow> None
      | Some (_, ws, _) \<Rightarrow>
          (case NNIE_Forward run query steps 0 0 True pm of
             None \<Rightarrow> None
           | Some (ret, pm1, _) \<Rightarrow>
               if ret \<noteq> 0 \<or> \<not> test_mode then Some (buf, dst)
               else (case Yolov3_frame zq cexp pm1 s (map (\<lambda>b. nat (b_stride b)) (sd_dst (pm_data pm1 ! 0))) (net ws) dst of
                       None \<Rightarrow> None
                     | Some (nums, dst') \<Rightarrow>
                         map_option (\<lambda>buf'. (buf', dst')) (Detection_Result (rnd F32 0.1) (0 # nums @ [0]) dst'))))"

section \<open>What the results are\<close>

text \<open>
  The specification of the taking: of every class but the first the rows up to the first below the
  threshold, in the order of the classes, and of all these the first four. \<open>parts\<close> cuts the rows into
  the blocks of the classes.
\<close>

definition item :: "nat \<Rightarrow> det \<Rightarrow> ret_item" where
  "item c d = \<lparr>r_class = c mod 256, r_score = q12 (d_score d), r_box = d_box d\<rparr>"

definition best_rows :: "cfloat \<Rightarrow> det list \<Rightarrow> det list" where
  "best_rows thresh ds = takeWhile (\<lambda>d. \<not> flt (q12 (d_score d)) thresh) ds"

fun parts :: "nat list \<Rightarrow> 'a list \<Rightarrow> 'a list list" where
  "parts [] xs = []"
| "parts (n # ns) xs = take n xs # parts ns (drop n xs)"

fun class_items :: "cfloat \<Rightarrow> nat \<Rightarrow> det list list \<Rightarrow> ret_item list" where
  "class_items thresh i [] = []"
| "class_items thresh i (b # bs) = map (item i) (best_rows thresh b) @ class_items thresh (Suc i) bs"

lemma parts_concat: "parts (map length Rs) (concat Rs @ xs) = Rs"
  by (induction Rs) simp_all

lemma not_flt_fle: "a \<noteq> NaN \<Longrightarrow> b \<noteq> NaN \<Longrightarrow> (\<not> flt a b) = fle b a"
  by (cases a; cases b) auto

lemma q12_not_NaN: "q12 d \<noteq> NaN"
  using q12_cases [of d] by auto

lemma result_rows_spec:
  assumes "length buf < 4" "off + k \<le> length dst"
  shows "result_rows th c dst off k buf =
    (let all = buf @ map (item c) (best_rows th (take k (drop off dst))) in Some (take 4 all, 4 \<le> length all))"
  using assms
proof (induction k arbitrary: off buf)
  case 0
  then show ?case by (simp add: best_rows_def)
next
  case (Suc k)
  have s: "take (Suc k) (drop off dst) = dst ! off # take k (drop (Suc off) dst)"
    using Suc.prems by (simp add: Cons_nth_drop_Suc [symmetric])
  show ?case
  proof (cases "length buf = 3")
    case True
    then show ?thesis using Suc.prems
      by (simp add: s best_rows_def item_def MAX_RET_COUNT_def Let_def)
  next
    case False
    then show ?thesis using Suc.prems Suc.IH [of "buf @ [item c (dst ! off)]" "Suc off"]
      by (simp add: s best_rows_def MAX_RET_COUNT_def Let_def item_def)
  qed
qed

lemma result_classes_spec:
  assumes "th \<noteq> NaN" "length buf < 4" "bias + sum_list ns < length dst"
  shows "result_classes th dst ns i bias cur buf = Some (take 4 (buf @ class_items th i (parts ns (drop bias dst))))"
  using assms(2,3)
proof (induction ns arbitrary: i bias cur buf)
  case Nil
  then show ?case by simp
next
  case (Cons n ns)
  define cur' where "cur' = (if fle th (q12 (d_score (dst ! bias))) \<and> n \<noteq> 0 then i else cur)"
  let ?m = "best_rows th (take n (drop bias dst))"
  have cl: "map (item cur') ?m = map (item i) ?m"
  proof (cases "?m")
    case (Cons d ds)
    then have "n \<noteq> 0" by (cases n) (auto simp: best_rows_def)
    moreover have "take n (drop bias dst) = dst ! bias # take (n - 1) (drop (Suc bias) dst)"
      using Cons.prems \<open>n \<noteq> 0\<close> by (cases n) (simp_all add: Cons_nth_drop_Suc [symmetric])
    ultimately have "\<not> flt (q12 (d_score (dst ! bias))) th" using Cons by (auto simp: best_rows_def split: if_splits)
    then have "cur' = i" using \<open>n \<noteq> 0\<close> not_flt_fle [OF q12_not_NaN assms(1)] by (simp add: cur'_def)
    then show ?thesis by simp
  qed simp
  have r: "result_rows th cur' dst bias n buf = Some (take 4 (buf @ map (item i) ?m), 4 \<le> length buf + length ?m)"
    using result_rows_spec [of buf bias n dst th cur'] Cons.prems by (simp add: cl Let_def)
  have e: "result_classes th dst (n # ns) i bias cur buf =
      (if 4 \<le> length buf + length ?m then Some (take 4 (buf @ map (item i) ?m))
       else result_classes th dst ns (Suc i) (bias + n) cur' (take 4 (buf @ map (item i) ?m)))"
    using Cons.prems unfolding result_classes.simps cur'_def [symmetric] Let_def r by simp
  show ?case
    using Cons.prems Cons.IH [of "buf @ map (item i) ?m" "bias + n" "Suc i" cur'] unfolding e
    by (auto simp: drop_drop add.commute)
qed

lemma Detection_Result_items:
  assumes "thresh \<noteq> NaN" "nums \<noteq> []" "sum_list nums < length dst"
  shows "Detection_Result thresh nums dst = Some (take 4 (class_items thresh 1 (tl (parts nums dst))))"
proof -
  obtain n ns where n: "nums = n # ns" using assms(2) by (cases nums) auto
  show ?thesis using result_classes_spec [OF assms(1), of "[]" n ns dst 1 0] assms(3) unfolding n Detection_Result_def by simp
qed

text \<open>
  C19. For every threshold that is a number, \<open>SAMPLE_SVP_NNIE_Detection_Result\<close> computes what the
  specification says: of every class but the background the rows up to the first below the threshold,
  each with its class (as the \<open>char\<close> that holds it: the class itself up to 255), score and box, class by class, and of these the first four, although it tracks the
  class in a variable it sets only when the first row of a class counts, and leaves in the middle of
  its loops when the buffer is full. There must be a row behind the counted ones, because it reads the first row of a class that has none.
\<close>

theorem Detection_Result_correct:
  assumes "thresh \<noteq> NaN" "nums \<noteq> []" "sum_list nums < length dst"
  shows "Detection_Result thresh nums dst = Some (take MAX_RET_COUNT (class_items thresh 1 (tl (parts nums dst))))"
  using Detection_Result_items [OF assms] by (simp add: MAX_RET_COUNT_def)


definition row :: "int \<Rightarrow> int \<Rightarrow> det" where
  "row sc x = \<lparr>d_score = sc, d_box = \<lparr>b_x1 = x, b_y1 = 0, b_x2 = x + 10, b_y2 = 10\<rparr>\<rparr>"

lemma row_scores: "q12 3000 = Fin (375 / 512)" "q12 1000 = Fin (125 / 512)" "q12 4000 = Fin (125 / 128)" "q12 0 = Fin 0"
  unfolding q12_def by code_simp+

theorem Detection_Result_correct_witness:
  "Detection_Result (Fin (1 / 2)) [0, 2, 0, 1] [row 3000 1, row 1000 2, row 4000 3, row 0 0] =
     Some [item 1 (row 3000 1), item 3 (row 4000 3)]"
proof -
  have "class_items (Fin (1 / 2)) 1 (tl (parts [0, 2, 0, 1] [row 3000 1, row 1000 2, row 4000 3, row 0 0])) =
      [item 1 (row 3000 1), item 3 (row 4000 3)]"
    by (simp add: best_rows_def row_def row_scores numeral_2_eq_2 numeral_3_eq_3)
  then show ?thesis using Detection_Result_correct [of "Fin (1 / 2)" "[0, 2, 0, 1]" "[row 3000 1, row 1000 2, row 4000 3, row 0 0]"]
    by (simp add: MAX_RET_COUNT_def)
qed

section \<open>What a run does\<close>

text \<open>
  The specification: \<open>wired\<close> are the sources a run gets, \<open>None\<close> if one of them has no destination of its
  name; \<open>flushes\<close> is what is flushed before it.
\<close>

definition named_dst :: "nnie_node list \<Rightarrow> svp_blob list \<Rightarrow> nnie_node \<Rightarrow> svp_blob option" where
  "named_dst outs dsts n = (let j = find_node (n_name n) outs 0 in if j = length outs then None else Some (dsts ! j))"

definition overwrite :: "nat \<Rightarrow> 'a list \<Rightarrow> 'a list \<Rightarrow> 'a list" where
  "overwrite i bs xs = map (\<lambda>j. if i \<le> j \<and> j < i + length bs then bs ! (j - i) else xs ! j) [0..<length xs]"

definition wired :: "nnie_param \<Rightarrow> nat \<Rightarrow> nat \<Rightarrow> svp_blob list option" where
  "wired pm inp proc =
     (if inp = proc then Some (sd_src (pm_data pm ! proc))
      else map_option (\<lambda>bs. overwrite 0 bs (sd_src (pm_data pm ! proc)))
             (those (map (named_dst (sg_dst (md_segs (pm_model pm) ! inp)) (sd_dst (pm_data pm ! inp)))
                (sg_src (md_segs (pm_model pm) ! proc)))))"

definition dst_flushes :: "(int \<Rightarrow> nat \<Rightarrow> int) \<Rightarrow> forward_ctrl \<Rightarrow> nat \<Rightarrow> nnie_param \<Rightarrow> fw_event list" where
  "dst_flushes steps c proc pm = flush_dsts steps (take (nat (fw_dst_num c)) (sd_dst (pm_data pm ! proc))) 0"

definition tsk_flush :: "forward_ctrl \<Rightarrow> fw_event" where
  "tsk_flush c = Fw_flush (m_phy (fw_tsk c)) (m_vir (fw_tsk c)) (m_size (fw_tsk c))"

definition with_srcs :: "nnie_param \<Rightarrow> nat \<Rightarrow> svp_blob list \<Rightarrow> nnie_param" where
  "with_srcs pm proc srcs = pm\<lparr>pm_data := (pm_data pm)[proc := (pm_data pm ! proc)\<lparr>sd_src := srcs\<rparr>]\<rparr>"

lemma overwrite_Nil [simp]: "overwrite i [] xs = xs"
  by (rule nth_equalityI) (auto simp: overwrite_def)

lemma overwrite_Cons: "overwrite i (b # bs) xs = overwrite (Suc i) bs (xs[i := b])"
  by (rule nth_equalityI) (auto simp: overwrite_def nth_Cons' nth_list_update)

lemma wire_srcs_named:
  "case those (map (named_dst outs dsts) ns) of
     None \<Rightarrow> fst (wire_srcs outs dsts ns i srcs) = -1
   | Some bs \<Rightarrow> wire_srcs outs dsts ns i srcs = (0, overwrite i bs srcs)"
proof (induction ns arbitrary: i srcs)
  case Nil
  then show ?case by simp
next
  case (Cons n ns)
  show ?case using Cons.IH [of "Suc i" "srcs[i := dsts ! find_node (n_name n) outs 0]"]
    by (auto simp: named_dst_def Let_def overwrite_Cons split: option.splits)
qed

text \<open>The wait returns the first answer that is no timeout, and only then.\<close>

lemma wait_query_first:
  assumes "query (i + n) \<noteq> tmo" and "\<And>j. j < n \<Longrightarrow> query (i + j) = tmo"
  shows "wait_query tmo query i = Some (query (i + n), i + n)"
  using assms
proof (induction n arbitrary: i)
  case 0
  then show ?case by (simp add: wait_query.simps)
next
  case (Suc n)
  have "query i = tmo" using Suc.prems(2) [of 0] by simp
  moreover have "wait_query tmo query (Suc i) = Some (query (i + Suc n), i + Suc n)"
    using Suc.IH [of "Suc i"] Suc.prems(1) Suc.prems(2) [of "Suc _"] by simp
  ultimately show ?case by (subst wait_query.simps) simp
qed

lemma wait_query_Some:
  assumes "wait_query tmo query i = Some (q, k)"
  shows "q = query k \<and> q \<noteq> tmo"
proof -
  have "fst (q, k) = query (snd (q, k)) \<and> fst (q, k) \<noteq> tmo"
  proof (rule wait_query.raw_induct [where P = "\<lambda>tmo query i r. fst r = query (snd r) \<and> fst r \<noteq> tmo", OF _ assms])
    fix wq :: "int \<Rightarrow> (nat \<Rightarrow> int) \<Rightarrow> nat \<Rightarrow> (int \<times> nat) option" and tmo query i r
    assume ih: "\<And>tmo query k y. wq tmo query k = Some y \<Longrightarrow> fst y = query (snd y) \<and> fst y \<noteq> tmo"
      and "(if query i = tmo then wq tmo query (Suc i) else Some (query i, i)) = Some r"
    then show "fst r = query (snd r) \<and> fst r \<noteq> tmo"
      using ih [of tmo query "Suc i" r] by (simp split: if_splits) (auto simp del: split_paired_All)
  qed
  then show ?thesis by simp
qed

lemma wait_query_None: "wait_query tmo query 0 = None \<longleftrightarrow> (\<forall>k. query k = tmo)"
proof
  assume n: "wait_query tmo query 0 = None"
  let ?P = "\<lambda>k. query k \<noteq> tmo"
  show "\<forall>k. query k = tmo"
  proof (rule ccontr)
    assume "\<not> ?thesis"
    then obtain k where k: "?P k" by blast
    have "wait_query tmo query 0 = Some (query (0 + (LEAST k. ?P k)), 0 + (LEAST k. ?P k))"
    proof (rule wait_query_first)
      show "?P (0 + (LEAST k. ?P k))" unfolding add_0 by (rule LeastI [of ?P, OF k])
    next
      fix j assume "j < (LEAST k. ?P k)"
      then show "query (0 + j) = tmo" using not_less_Least [of j ?P] by (simp only: add_0 not_not)
    qed
    then show False using n by simp
  qed
next
  assume t: "\<forall>k. query k = tmo"
  show "wait_query tmo query 0 = None"
  proof (cases "wait_query tmo query 0")
    case (Some r)
    then have "wait_query tmo query 0 = Some (fst r, snd r)" by simp
    from wait_query_Some [OF this] have "query (snd r) \<noteq> tmo" by (elim conjE) (erule subst)
    then show ?thesis using t [rule_format, of "snd r"] by (rule notE)
  qed
qed

abbreviation run_start :: "(int \<Rightarrow> nat \<Rightarrow> int) \<Rightarrow> forward_ctrl \<Rightarrow> nat \<Rightarrow> nnie_param \<Rightarrow> fw_event list" where
  "run_start steps c proc pm \<equiv> tsk_flush c # dst_flushes steps c proc pm"

lemma forward_seg_unwired:
  assumes "wired pm inp proc = None"
  shows "\<exists>pm'. forward_seg run query steps c bbox inp proc instant pm = Some (-1, pm', run_start steps c proc pm)"
proof -
  have "inp \<noteq> proc" using assms by (auto simp: wired_def)
  moreover have "fst (wire_srcs (sg_dst (md_segs (pm_model pm) ! inp)) (sd_dst (pm_data pm ! inp))
      (sg_src (md_segs (pm_model pm) ! proc)) 0 (sd_src (pm_data pm ! proc))) = -1"
    using assms wire_srcs_named [of "sg_dst (md_segs (pm_model pm) ! inp)" "sd_dst (pm_data pm ! inp)"
      "sg_src (md_segs (pm_model pm) ! proc)" 0 "sd_src (pm_data pm ! proc)"] \<open>inp \<noteq> proc\<close>
    by (simp add: wired_def)
  ultimately show ?thesis
    by (simp add: forward_seg_def Let_def split_beta dst_flushes_def tsk_flush_def)
qed

lemma forward_seg_wired:
  assumes "wired pm inp proc = Some srcs"
  shows "forward_seg run query steps c bbox inp proc instant pm =
    (let dst = sd_dst (pm_data pm ! proc); tr = run_start steps c proc pm @ [Fw_run proc bbox srcs dst]
     in if run bbox srcs dst \<noteq> 0 then Some (run bbox srcs dst, with_srcs pm proc srcs, tr)
        else if instant
        then map_option (\<lambda>(q, k). (q, with_srcs pm proc srcs, tr @ map (\<lambda>j. Fw_query (query j)) [0..<Suc k] @ dst_flushes steps c proc pm))
               (wait_query HI_ERR_SVP_NNIE_QUERY_TIMEOUT query 0)
        else Some (0, with_srcs pm proc srcs, tr @ dst_flushes steps c proc pm))"
proof -
  have "(if inp \<noteq> proc then wire_srcs (sg_dst (md_segs (pm_model pm) ! inp)) (sd_dst (pm_data pm ! inp))
      (sg_src (md_segs (pm_model pm) ! proc)) 0 (sd_src (pm_data pm ! proc)) else (0, sd_src (pm_data pm ! proc))) = (0, srcs)"
    using assms wire_srcs_named [of "sg_dst (md_segs (pm_model pm) ! inp)" "sd_dst (pm_data pm ! inp)"
      "sg_src (md_segs (pm_model pm) ! proc)" 0 "sd_src (pm_data pm ! proc)"]
    by (auto simp: wired_def split: option.splits if_splits)
  then show ?thesis
    unfolding forward_seg_def Let_def dst_flushes_def tsk_flush_def with_srcs_def
    by (simp split: option.split)
qed

text \<open>
  C20. \<open>SAMPLE_SVP_NNIE_Forward\<close>, waiting for the end: with the first answer of the query that is no
  timeout the function returns. It flushes the task buffer and the destinations first. If a source has no destination
  of its name, it returns a failure without a run. Otherwise it runs the segment with the named
  sources; if that fails it returns the code, and nothing else happens; if not, it queries up to that
  answer, then flushes the destinations again, and returns the answer, even if it is an error.
\<close>

theorem NNIE_Forward_correct:
  assumes "query k \<noteq> HI_ERR_SVP_NNIE_QUERY_TIMEOUT" and "\<And>j. j < k \<Longrightarrow> query j = HI_ERR_SVP_NNIE_QUERY_TIMEOUT"
  shows "\<exists>ret pm' tr. NNIE_Forward run query steps inp proc True pm = Some (ret, pm', run_start steps (pm_ctrl pm ! proc) proc pm @ tr) \<and>
    (case wired pm inp proc of
       None \<Rightarrow> ret = -1 \<and> tr = []
     | Some srcs \<Rightarrow> pm' = with_srcs pm proc srcs \<and>
         (let dst = sd_dst (pm_data pm ! proc); r = run None srcs dst
          in if r \<noteq> 0 then ret = r \<and> tr = [Fw_run proc None srcs dst]
             else ret = query k \<and> tr = Fw_run proc None srcs dst # replicate k (Fw_query HI_ERR_SVP_NNIE_QUERY_TIMEOUT) @
               Fw_query (query k) # dst_flushes steps (pm_ctrl pm ! proc) proc pm))"
proof (cases "wired pm inp proc")
  case None
  then show ?thesis using forward_seg_unwired [OF None] by (simp add: NNIE_Forward_def)
next
  case (Some srcs)
  have w: "wait_query HI_ERR_SVP_NNIE_QUERY_TIMEOUT query 0 = Some (query k, k)" using wait_query_first [of query 0 k HI_ERR_SVP_NNIE_QUERY_TIMEOUT] assms by simp
  have "map (\<lambda>j. Fw_query (query j)) [0..<k] = replicate k (Fw_query HI_ERR_SVP_NNIE_QUERY_TIMEOUT)"
    using assms(2) by (intro nth_equalityI) simp_all
  then show ?thesis using Some by (simp add: NNIE_Forward_def forward_seg_wired [OF Some] w Let_def)
qed

text \<open>
  \<open>SAMPLE_SVP_NNIE_Forward\<close> does not return in exactly one case: all sources are found, the run is started, and every query times out. There is no bound on the wait.
\<close>

lemma NNIE_Forward_hangs:
  "NNIE_Forward run query steps inp proc True pm = None \<longleftrightarrow>
    (\<exists>srcs. wired pm inp proc = Some srcs \<and> run None srcs (sd_dst (pm_data pm ! proc)) = 0) \<and>
    (\<forall>k. query k = HI_ERR_SVP_NNIE_QUERY_TIMEOUT)"
proof (cases "wired pm inp proc")
  case None
  then show ?thesis using forward_seg_unwired [OF None, of run query steps "pm_ctrl pm ! proc" None True] by (auto simp: NNIE_Forward_def)
next
  case (Some srcs)
  then show ?thesis by (simp add: NNIE_Forward_def forward_seg_wired [OF Some] Let_def wait_query_None)
qed

definition two_param :: nnie_param where
  "two_param = zq_param\<lparr>
     pm_model := \<lparr>md_tmp_size = 64, md_segs =
       [\<lparr>sg_type = NET_CNN, sg_src = [], sg_dst = map (\<lambda>nm. \<lparr>n_name = nm, n_type = BLOB_S32, n_width = 8, n_height = 1, n_chn = 1\<rparr>) [''conv'', ''roi'']\<rparr>,
        \<lparr>sg_type = NET_CNN, sg_src = [\<lparr>n_name = ''roi'', n_type = BLOB_S32, n_width = 8, n_height = 1, n_chn = 1\<rparr>], sg_dst = []\<rparr>]\<rparr>,
     pm_data := [\<lparr>sd_src = [], sd_dst = [no_blob, no_blob\<lparr>b_num := 7\<rparr>]\<rparr>, \<lparr>sd_src = [no_blob], sd_dst = []\<rparr>],
     pm_ctrl := [no_ctrl, no_ctrl]\<rparr>"

theorem NNIE_Forward_correct_witness:
  "\<exists>pm' tr. NNIE_Forward (\<lambda>_ srcs _. b_num (hd srcs) - 7) (\<lambda>j. if j = 2 then 0 else HI_ERR_SVP_NNIE_QUERY_TIMEOUT) (\<lambda>_ _. 0) 0 1 True two_param =
     Some (0, pm', run_start (\<lambda>_ _. 0) no_ctrl 1 two_param @ tr) \<and>
     tr = [Fw_run 1 None [no_blob\<lparr>b_num := 7\<rparr>] [], Fw_query HI_ERR_SVP_NNIE_QUERY_TIMEOUT, Fw_query HI_ERR_SVP_NNIE_QUERY_TIMEOUT, Fw_query 0]"
proof -
  let ?q = "\<lambda>j::nat. if j = 2 then 0 else HI_ERR_SVP_NNIE_QUERY_TIMEOUT"
  have q: "?q 2 \<noteq> HI_ERR_SVP_NNIE_QUERY_TIMEOUT" "\<And>j. j < 2 \<Longrightarrow> ?q j = HI_ERR_SVP_NNIE_QUERY_TIMEOUT"
    by (simp_all add: HI_ERR_SVP_NNIE_QUERY_TIMEOUT_def s32_def)
  have w: "wired two_param 0 1 = Some [no_blob\<lparr>b_num := 7\<rparr>]"
    by (simp add: wired_def two_param_def named_dst_def same_name_def Let_def overwrite_def)
  have d: "dst_flushes (\<lambda>_ _. 0) no_ctrl 1 two_param = []" "pm_ctrl two_param ! 1 = no_ctrl" "sd_dst (pm_data two_param ! 1) = []"
    by (simp_all add: dst_flushes_def two_param_def no_ctrl_def)
  show ?thesis
    using NNIE_Forward_correct [where query = ?q and k = 2 and run = "\<lambda>_ srcs _. b_num (hd srcs) - 7" and steps = "\<lambda>_ _. 0" and inp = 0 and proc = 1 and pm = two_param, OF q]
    unfolding w d by (auto simp: numeral_2_eq_2 simp del: One_nat_def)
qed

section \<open>A frame of the detection service\<close>

lemma copy_lines_total: "k * n \<le> length bytes \<Longrightarrow> \<exists>ws. copy_lines k n adr stride bytes = Some ws"
  by (induction k arbitrary: adr bytes) (simp_all add: le_diff_conv2)

lemma class_items_cases:
  "x \<in> set (class_items th i bs) \<Longrightarrow> \<exists>k < length bs. \<exists>d \<in> set (bs ! k). x = item (i + k) d \<and> \<not> flt (q12 (d_score d)) th"
proof (induction bs arbitrary: i)
  case Nil
  then show ?case by simp
next
  case (Cons b bs)
  from Cons.prems consider d where "d \<in> set (best_rows th b)" "x = item i d" | "x \<in> set (class_items th (Suc i) bs)" by auto
  then show ?case
  proof cases
    case (1 d)
    then have "d \<in> set b" "\<not> flt (q12 (d_score d)) th" unfolding best_rows_def by (auto dest: set_takeWhileD)
    then show ?thesis using 1(2) by (intro exI [of _ 0]) auto
  next
    case 2
    then obtain k d where "k < length bs" "d \<in> set (bs ! k)" "x = item (Suc i + k) d" "\<not> flt (q12 (d_score d)) th"
      using Cons.IH by blast
    then show ?thesis by (intro exI [of _ "Suc k"]) auto
  qed
qed

lemma with_srcs_same [simp]: "with_srcs pm proc (sd_src (pm_data pm ! proc)) = pm"
  by (simp add: with_srcs_def)

lemma sum_list_lengths: "\<forall>R \<in> set Rs. length R \<le> m \<Longrightarrow> sum_list (map length Rs) \<le> length Rs * m"
  by (induction Rs) auto

text \<open>What a caller may rely on of a result.\<close>

definition good_item :: "nnie_param \<Rightarrow> ret_item \<Rightarrow> bool" where
  "good_item pm r \<longleftrightarrow> (\<exists>d. r = item (r_class r) d \<and> 2048 < u32 (d_score d) \<and> \<not> flt (r_score r) (rnd F32 0.1) \<and>
     det_inside (nat (b_width (first_src pm))) (nat (b_height (first_src pm))) d)"

lemma yolo3_zq_stride:
  assumes run: "Yolov3_SoftwareInit True mmz cfg pm s tr = (0, s', tr')" and mmz: "mmz_sound mmz" "live tr = Some bs"
    and nodes: "yolo3_nodes_ok True pm"
  shows "b_stride (so_score s') = 80"
proof -
  have c: "yc_classes (yolo3_params True pm) = 4" "yc_maxroi (yolo3_params True pm) = 4" by (simp_all add: yolo3_params_def)
  have "yolo_alloc mmz 164268 5 4 (s\<lparr>y3 := yolo3_params True pm, y3_grids := yolo3_grids True\<rparr>) tr = (0, s', tr')"
    by (rule Yolov3_SoftwareInit_cases [OF run]) (simp_all add: yolo3_tmp [OF nodes] c)
  from yolo_alloc_layout [OF this mmz] show ?thesis by (simp add: up16_def)
qed

lemma yolov3_results:
  assumes run: "Yolov3_SoftwareInit True mmz cfg pm s tr = (0, s', tr')" and mmz: "mmz_sound mmz" "live tr = Some bs"
    and nodes: "yolo3_nodes_ok True pm" and im: "small_image pm" and dst: "b_stride (so_score s') \<le> 4 * int (length dst)"
  shows "\<exists>nums dst' buf. Yolov3_frame True cexp pm s' strides blobs dst = Some (nums, dst') \<and> length dst' = length dst \<and>
    Detection_Result (rnd F32 0.1) (0 # nums @ [0]) dst' = Some buf \<and> length buf \<le> 4 \<and>
    (\<forall>r \<in> set buf. 1 \<le> r_class r \<and> r_class r \<le> 3 \<and> good_item pm r)"
proof -
  obtain Rs where R: "Yolov3_frame True cexp pm s' strides blobs dst = Some (map length Rs, concat Rs @ drop (length (concat Rs)) dst)"
    "length Rs = 3" "\<forall>R \<in> set Rs. length R \<le> 4"
    "\<forall>d \<in> set (concat Rs). 2048 < u32 (d_score d) \<and> det_inside (nat (b_width (first_src pm))) (nat (b_height (first_src pm))) d"
    using Yolov3_frame_inside [OF assms, of cexp strides blobs] by auto
  let ?dst = "concat Rs @ drop (length (concat Rs)) dst" and ?nums = "0 # map length Rs @ [0]"
  have L: "length dst > 12" using dst yolo3_zq_stride [OF run mmz nodes] by simp
  have n: "sum_list (map length Rs) \<le> 12" using sum_list_lengths [OF R(3)] R(2) by simp
  have l: "length ?dst = length dst" using n L by (simp add: length_concat)
  have t: "rnd F32 0.1 \<noteq> NaN" by simp
  have "Detection_Result (rnd F32 0.1) ?nums ?dst = Some (take 4 (class_items (rnd F32 0.1) 1 (Rs @ [[]])))"
    using Detection_Result_items [OF t, of ?nums ?dst] n L l by (simp add: parts_concat [of "Rs @ [[]]", simplified])
  moreover have "\<forall>r \<in> set (take 4 (class_items (rnd F32 0.1) 1 (Rs @ [[]]))). 1 \<le> r_class r \<and> r_class r \<le> 3 \<and> good_item pm r"
  proof
    fix r assume "r \<in> set (take 4 (class_items (rnd F32 0.1) 1 (Rs @ [[]])))"
    then obtain k d where k: "k < length (Rs @ [[]])" "d \<in> set ((Rs @ [[]]) ! k)" and r: "r = item (1 + k) d" and f: "\<not> flt (q12 (d_score d)) (rnd F32 0.1)"
      using class_items_cases by (meson in_set_takeD)
    then have "k < 3" using R(2) by (cases "k = 3") (auto simp: nth_append)
    then have "d \<in> set (concat Rs)" using k(2) R(2) by (auto simp: nth_append)
    then show "1 \<le> r_class r \<and> r_class r \<le> 3 \<and> good_item pm r"
      using R(4) r f \<open>k < 3\<close> by (auto simp: good_item_def item_def)
  qed
  ultimately show ?thesis using R(1) l by (intro exI [of _ "map length Rs"] exI [of _ ?dst]) auto
qed


text \<open>
  C18. A frame through the detection service's YOLO v3, from the image in memory to the results, after
  a successful initialisation and whatever the network computes: with enough bytes in the image and a
  query that ends, \<open>NNIE_process_yolov3\<close> returns. If the run or the query failed, the caller's buffer and the
  result rows are untouched. Otherwise the buffer holds at most four results, each of class 1, 2 or 3 (class
  4 is never reported), with a box in the image and a score above one half, as unsigned numbers.
\<close>

theorem NNIE_process_yolov3_ok:
  assumes "Yolov3_SoftwareInit True mmz cfg pm s tr = (0, s', tr')" and "mmz_sound mmz" "live tr = Some bs"
    and "yolo3_nodes_ok True pm" and "small_image pm" and "b_stride (so_score s') \<le> 4 * int (length dst)"
    and data: "fill_lines steps (first_src pm) * nat (u32 (b_width (first_src pm) * int (var_size (b_type (first_src pm))))) \<le> length data"
    and q: "query k \<noteq> HI_ERR_SVP_NNIE_QUERY_TIMEOUT" "\<And>j. j < k \<Longrightarrow> query j = HI_ERR_SVP_NNIE_QUERY_TIMEOUT"
  shows "\<exists>buf' dst'. NNIE_process_yolov3 True cexp run query steps net data pm s' dst buf True = Some (buf', dst') \<and>
    length dst' = length dst \<and>
    (if run None (sd_src (pm_data pm ! 0)) (sd_dst (pm_data pm ! 0)) \<noteq> 0 \<or> query k \<noteq> 0 then buf' = buf \<and> dst' = dst
     else length buf' \<le> 4 \<and> (\<forall>r \<in> set buf'. 1 \<le> r_class r \<and> r_class r \<le> 3 \<and> good_item pm r))"
proof -
  obtain ws where f: "FillSrcData_ptr steps data (first_src pm) = Some (0, ws, [fill_flush steps (first_src pm)])"
    using copy_lines_total [OF data] by (auto simp: FillSrcData_ptr_def)
  have w: "wired pm 0 0 = Some (sd_src (pm_data pm ! 0))" by (simp add: wired_def)
  have a: "wait_query HI_ERR_SVP_NNIE_QUERY_TIMEOUT query 0 = Some (query k, k)" using wait_query_first [of query 0 k HI_ERR_SVP_NNIE_QUERY_TIMEOUT] q by simp
  let ?r = "run None (sd_src (pm_data pm ! 0)) (sd_dst (pm_data pm ! 0))"
  obtain ev where n: "NNIE_Forward run query steps 0 0 True pm = Some (if ?r \<noteq> 0 then ?r else query k, pm, ev)"
    by (cases "?r = 0") (auto simp: NNIE_Forward_def forward_seg_wired [OF w] a Let_def)
  obtain nums dst' out where y: "Yolov3_frame True cexp pm s' (map (\<lambda>b. nat (b_stride b)) (sd_dst (pm_data pm ! 0))) (net ws) dst = Some (nums, dst')"
    "length dst' = length dst" "Detection_Result (rnd F32 0.1) (0 # nums @ [0]) dst' = Some out" "length out \<le> 4"
    "\<forall>r \<in> set out. 1 \<le> r_class r \<and> r_class r \<le> 3 \<and> good_item pm r"
    using yolov3_results [OF assms(1-6)] by blast
  have p: "NNIE_process_yolov3 True cexp run query steps net data pm s' dst buf True =
      Some (if ?r \<noteq> 0 \<or> query k \<noteq> 0 then (buf, dst) else (out, dst'))"
    unfolding NNIE_process_yolov3_def f option.case prod.case n using y(1,3) by (cases "?r = 0") simp_all
  show ?thesis unfolding p using y(2,4,5) by (cases "?r = 0"; cases "query k = 0") simp_all
qed

theorem NNIE_process_yolov3_ok_witness:
  "\<exists>s' tr' buf' dst'. Yolov3_SoftwareInit True bump_mmz rois10 zq_param no_yolo3 [] = (0, s', tr') \<and>
     NNIE_process_yolov3 True step_exp (\<lambda>_ _ _. 0) (\<lambda>_. 0) (\<lambda>_ _. 0) (\<lambda>_ _ _. 0) (replicate 519168 0) zq_param s' (replicate 20 no_det) [] True =
       Some (buf', dst') \<and> length buf' \<le> 4"
proof -
  obtain s' tr' where i: "Yolov3_SoftwareInit True bump_mmz rois10 zq_param no_yolo3 [] = (0, s', tr')"
    using zq_start by (metis surj_pair fst_conv)
  have l: "live [] = Some []" by (simp add: live_def)
  have b: "b_stride (so_score s') \<le> 4 * int (length (replicate 20 no_det))"
    using yolo3_zq_stride [OF i bump_mmz_sound l zq_param_ok(1)] by simp
  have d: "fill_lines (\<lambda>_ _. 0) (first_src zq_param) * nat (u32 (b_width (first_src zq_param) * int (var_size (b_type (first_src zq_param))))) \<le>
      length (replicate 519168 (0::int))"
    by (simp add: first_src_def zq_param_def fill_lines_def var_size_def u32_def)
  have q: "(\<lambda>_::nat. 0) 0 \<noteq> HI_ERR_SVP_NNIE_QUERY_TIMEOUT" by (simp add: HI_ERR_SVP_NNIE_QUERY_TIMEOUT_def s32_def)
  show ?thesis
    using NNIE_process_yolov3_ok [where run = "\<lambda>_ _ _. 0" and query = "\<lambda>_. 0" and k = 0 and cexp = step_exp and net = "\<lambda>_ _ _. 0" and buf = "[]",
      OF i bump_mmz_sound l zq_param_ok b d q] i by auto
qed

section \<open>Loading and leaving\<close>

lemma LoadModel_block:
  assumes "mmz_sound mmz" "live (ld_trace s) = Some bs" "LoadModel mmz e s = (0, s')"
  shows "live (ld_trace s') = Some ((m_phy (ld_buf s'), m_vir (ld_buf s'), u32 (le_ftell e)) # bs) \<and>
    m_phy (ld_buf s') \<noteq> 0 \<and> m_vir (ld_buf s') \<noteq> 0"
proof -
  obtain r p v where al: "mmz (ld_trace s) (u32 (le_ftell e)) = (r, p, v)" by (metis prod_cases3)
  have nz: "r = 0 \<Longrightarrow> p \<noteq> 0 \<and> v \<noteq> 0" using assms(1) al unfolding mmz_sound_def by fastforce
  show ?thesis using assms(2,3) nz
    by (auto simp: LoadModel_def load_fail_0_def load_fail_1_def MallocMem_def MmzAlloc_def al Let_def live_append
        MMZ_FREE_def HI_INVALID_VALUE_def split: if_splits)
qed

text \<open>Leaving when nothing but the model is held, and when three blocks are.\<close>

lemma deinit_yolov3_model:
  assumes "soft_Deinit yolo_SoftwareDeinit (Some pm) (Some s) None (ld_trace md) = (r, pm2, s2, md2, tr2)" and "live tr2 = Some (b @ bs)"
    and "if b = [] then m_phy (ld_buf md) = 0 else (\<exists>n. b = [(m_phy (ld_buf md), m_vir (ld_buf md), n)]) \<and> m_phy (ld_buf md) \<noteq> 0 \<and> m_vir (ld_buf md) \<noteq> 0"
  shows "\<exists>r pm' s' md' tr'. deinit_yolov3 pm s md = (r, pm', s', md', tr') \<and> live tr' = Some bs"
  using assms by (auto simp: deinit_yolov3_def yolo3.soft_Deinit_model UnloadModel_def free_mem_def MMZ_FREE_def live_append split: if_splits)

text \<open>
  \<open>NNIE_LOAD_MODEL_yolov3\<close> tells nobody how it went, and \<open>deinit_yolov3\<close> is right after every outcome:
  no file stays open, and leaving frees exactly the blocks that were taken. These are none if the
  model could not be loaded, three if all went well (model, hardware and software parameters),
  and one, the model's, if only the parameters could not be initialised: then the task buffer has
  a null address, and without \<open>deinit_yolov3\<close> the model is leaked.
\<close>

lemma NNIE_LOAD_MODEL_yolov3_memory:
  assumes "mmz_sound mmz" "live (ld_trace md) = Some bs" "m_phy (ld_buf md) = 0"
    and "m_phy (pm_task pm) = 0" "m_phy (pm_step pm) = 0" "m_phy (so_tmp s) = 0"
    and run: "NNIE_LOAD_MODEL_yolov3 zq mmz tsk steps e cfg md pm s = Some (md', pm', Some s')"
  shows "ld_open md' = ld_open md \<and>
    (\<exists>new. live (ld_trace md') = Some (new @ bs) \<and>
      length new = (if fst (LoadModel mmz e md) \<noteq> 0 then 0 else if m_phy (pm_task pm') = 0 then 1 else 3)) \<and>
    (\<exists>r pm2 s2 md2 tr2. deinit_yolov3 pm' s' md' = (r, pm2, s2, md2, tr2) \<and> live tr2 = Some bs)"
proof -
  obtain ret md1 where l: "LoadModel mmz e md = (ret, md1)" by fastforce
  note own = LoadModel_owned [OF assms(1-3) l]
  have null: "case Some s of None \<Rightarrow> True | Some x \<Rightarrow> fst (yolo_handle x) = 0" using assms(6) by (simp add: yolo_handle_def mem_handle_def)
  show ?thesis
  proof (cases "ret = 0")
    case False
    then have e: "md' = md1" "pm' = pm" "s' = s" using run by (simp_all add: NNIE_LOAD_MODEL_yolov3_def l)
    have d: "soft_Deinit yolo_SoftwareDeinit (Some pm) (Some s) None (ld_trace md1) = (0, Some pm, Some s, None, ld_trace md1)"
      by (rule yolo3.deinit_none_any [OF null assms(4,5)])
    show ?thesis unfolding e using own False deinit_yolov3_model [OF d, of "[]" bs] by (simp add: l)
  next
    case True
    let ?b = "(m_phy (ld_buf md1), m_vir (ld_buf md1), u32 (le_ftell e))"
    note blk = LoadModel_block [OF assms(1,2) l [unfolded True]]
    obtain r tr1 where p: "soft_ParamInit (ParamInit mmz tsk steps cfg) (Yolov3_SoftwareInit zq mmz cfg) yolo_SoftwareDeinit pm (Some s) (ld_trace md1) =
        Some (r, pm', Some s', tr1)" and md': "md' = md1\<lparr>ld_trace := tr1\<rparr>"
      using run True by (auto simp: NNIE_LOAD_MODEL_yolov3_def l Yolov3_ParamInit_def)
    have lb: "live (ld_trace md1) = Some (?b # bs)" using blk by simp
    note bal = yolo3.soft_ParamInit_balanced [OF assms(1) lb assms(4,5) null p]
    show ?thesis
    proof (cases "r = 0")
      case True
      then obtain new r2 pm2 s2 m2 tr2 where b: "live tr1 = Some (new @ ?b # bs)" "length new = 2" "m_phy (pm_task pm') \<noteq> 0"
        and d: "soft_Deinit yolo_SoftwareDeinit (Some pm') (Some s') None tr1 = (r2, pm2, s2, m2, tr2)" "live tr2 = Some ([?b] @ bs)"
        using bal by auto
      have d': "soft_Deinit yolo_SoftwareDeinit (Some pm') (Some s') None (ld_trace md') = (r2, pm2, s2, m2, tr2)" using d(1) by (simp add: md')
      have "live (ld_trace md') = Some ((new @ [?b]) @ bs)" "length (new @ [?b]) = 3" using b by (simp_all add: md')
      then show ?thesis using own b(3) \<open>ret = 0\<close> deinit_yolov3_model [OF d' d(2)] blk by (simp add: l md' del: append_assoc)
    next
      case False
      then have b: "live tr1 = Some ([?b] @ bs)" "m_phy (pm_task pm') = 0"
        and d: "soft_Deinit yolo_SoftwareDeinit (Some pm') (Some s') None (ld_trace md') = (0, Some pm', Some s', None, tr1)"
        using bal by (simp_all add: md')
      show ?thesis using own b \<open>ret = 0\<close> deinit_yolov3_model [OF d b(1)] blk by (simp add: l md')
    qed
  qed
qed


lemma NNIE_LOAD_MODEL_yolov3_memory_witness:
  "\<exists>md' pm' s'. NNIE_LOAD_MODEL_yolov3 True bump_mmz small_tsk (\<lambda>_ _. 0)
       \<lparr>le_fopen = True, le_fseek_end = 0, le_ftell = 1000, le_fseek_set = 0, le_fread = 1, le_load = 0\<rparr>
       Nnie_Model.small_cfg \<lparr>ld_buf = no_mem, ld_open = 0, ld_trace = []\<rparr> small_param no_yolo3 = Some (md', pm', Some s') \<and>
     (\<exists>b. live (ld_trace md') = Some [b])"
proof -
  let ?e = "\<lparr>le_fopen = True, le_fseek_end = 0, le_ftell = 1000, le_fseek_set = 0, le_fread = 1, le_load = 0\<rparr>"
  let ?md = "\<lparr>ld_buf = no_mem, ld_open = 0, ld_trace = []\<rparr>"
  let ?r = "NNIE_LOAD_MODEL_yolov3 True bump_mmz small_tsk (\<lambda>_ _. 0) ?e Nnie_Model.small_cfg ?md small_param no_yolo3"
  have "case ?r of Some (md', pm', Some s') \<Rightarrow> m_phy (pm_task pm') = 0 | _ \<Rightarrow> False" by code_simp
  then obtain md' pm' s' where r: "?r = Some (md', pm', Some s')" and t: "m_phy (pm_task pm') = 0"
    by (auto split: option.splits)
  have l: "fst (LoadModel bump_mmz ?e ?md) = 0" by code_simp
  have "\<exists>new. live (ld_trace md') = Some (new @ []) \<and> length new = 1"
    using NNIE_LOAD_MODEL_yolov3_memory [OF bump_mmz_sound _ _ _ _ _ r, of "[]"] t l
    by (simp add: live_def no_mem_def small_param_def no_yolo3_def)
  then have "\<exists>b. live (ld_trace md') = Some [b]" by (auto simp: length_Suc_conv)
  with r show ?thesis by blast
qed

section \<open>Filling writes the blob and nothing else\<close>

abbreviation line_bytes :: "svp_blob \<Rightarrow> nat" where
  "line_bytes b \<equiv> nat (u32 (b_width b * int (var_size (b_type b))))"

lemma copy_lines_at:
  assumes "k * n \<le> length bytes" "0 \<le> adr" "0 \<le> stride" "adr + int k * stride < 4294967296"
  shows "copy_lines k n adr stride bytes = Some (map (\<lambda>i. (adr + int i * stride, take n (drop (i * n) bytes))) [0..<k])"
  using assms
proof (induction k arbitrary: adr bytes)
  case 0
  then show ?case by simp
next
  case (Suc k)
  have le: "0 \<le> int k * stride" using Suc.prems(3) by simp
  have s: "adr + stride + int k * stride < 4294967296" using Suc.prems(4) by (simp add: algebra_simps)
  then have u: "u32 (adr + stride) = adr + stride" using Suc.prems(2,3) le s by (intro u32_id) (unfold in_u32_def, linarith)
  have "map (\<lambda>i. (adr + int i * stride, take n (drop (i * n) bytes))) [0..<Suc k] =
      (adr, take n bytes) # map (\<lambda>i. (adr + stride + int i * stride, take n (drop (i * n) (drop n bytes)))) [0..<k]"
    unfolding upt_conv_Cons [OF zero_less_Suc] map_Suc_upt [symmetric] by (simp add: algebra_simps comp_def del: upt_Suc)
  then show ?case using Suc.prems Suc.IH [of "drop n bytes" "adr + stride"] s u by (simp del: upt_Suc)
qed

lemma copy_lines_short: "length bytes < k * n \<Longrightarrow> copy_lines k n adr stride bytes = None"
  by (induction k arbitrary: adr bytes) (auto simp: not_less)

lemma read_lines_copy: "0 < n \<Longrightarrow> copy_lines k n adr stride bytes = Some ws \<Longrightarrow> read_lines k n adr stride bytes = (True, ws)"
  by (induction k arbitrary: adr bytes ws) (fastforce split: if_splits)+

lemma read_lines_fail: "0 < n \<Longrightarrow> copy_lines k n adr stride bytes = None \<Longrightarrow> \<exists>ws. read_lines k n adr stride bytes = (False, ws)"
proof (induction k arbitrary: adr bytes)
  case (Suc k)
  show ?case
  proof (cases "length bytes < n")
    case False
    then obtain ws where "read_lines k n (u32 (adr + stride)) stride (drop n bytes) = (False, ws)"
      using Suc by fastforce
    then show ?thesis using False Suc.prems(1) by simp
  qed simp
qed simp

lemma read_lines_inside:
  assumes "int n \<le> stride" "0 \<le> adr" "adr + int k * stride < 4294967296"
  shows "list_all (\<lambda>(a, l). adr \<le> a \<and> a + int (length l) \<le> adr + int k * stride) (snd (read_lines k n adr stride bytes))"
  using assms
proof (induction k arbitrary: adr bytes)
  case 0
  then show ?case by simp
next
  case (Suc k)
  have le: "0 \<le> int k * stride" using Suc.prems(1) by simp
  have s: "adr + stride + int k * stride < 4294967296" using Suc.prems(3) by (simp add: algebra_simps)
  have u: "u32 (adr + stride) = adr + stride" using Suc.prems(1,2) le s by (intro u32_id) (unfold in_u32_def, linarith)
  have first: "adr + int (length (take n bytes)) \<le> adr + int (Suc k) * stride"
  proof -
    have "int (length (take n bytes)) \<le> stride" using Suc.prems(1) by simp
    moreover have "int (Suc k) * stride = stride + int k * stride" by (simp add: algebra_simps)
    ultimately show ?thesis using le by linarith
  qed
  have "list_all (\<lambda>(a, l). adr + stride \<le> a \<and> a + int (length l) \<le> adr + stride + int k * stride) (snd (read_lines k n (adr + stride) stride (drop n bytes)))"
    using Suc.IH [of "adr + stride" "drop n bytes"] Suc.prems(1,2) s by simp
  then have "list_all (\<lambda>(a, l). adr \<le> a \<and> a + int (length l) \<le> adr + int (Suc k) * stride) (snd (read_lines k n (adr + stride) stride (drop n bytes)))"
    by (rule list.pred_mono_strong) (use Suc.prems(1) in \<open>auto simp: algebra_simps\<close>)
  then show ?case using first by (auto simp: u Let_def min_def split: prod.split)
qed

text \<open>
  Filling a source blob from a file, with lines that fit the stride and a blob inside the address
  space: every path closes the file and stores only into the lines of the blob. If the file has enough
  bytes, line \<open>i\<close> of the blob gets the \<open>i\<close>-th piece of the file, all of it is flushed, and filling from memory
  with the same bytes does the same; otherwise the function fails, flushes nothing,
  and filling from memory would read behind the buffer.
\<close>

lemma FillSrcData_inside:
  assumes "0 < line_bytes b" "int (line_bytes b) \<le> b_stride b" "0 \<le> b_vir b"
    and "b_vir b + int (fill_lines steps b) * b_stride b < 4294967296"
  shows "\<exists>ret ws fl. FillSrcData steps (Some (Some bytes)) b = Some (ret, ws, fl, 0) \<and>
    list_all (\<lambda>(a, l). b_vir b \<le> a \<and> a + int (length l) \<le> b_vir b + int (fill_lines steps b) * b_stride b) ws \<and>
    (if fill_lines steps b * line_bytes b \<le> length bytes
     then ret = 0 \<and> fl = [fill_flush steps b] \<and> FillSrcData_ptr steps bytes b = Some (0, ws, fl) \<and>
       ws = map (\<lambda>i. (b_vir b + int i * b_stride b, take (line_bytes b) (drop (i * line_bytes b) bytes))) [0..<fill_lines steps b]
     else ret = -1 \<and> fl = [] \<and> FillSrcData_ptr steps bytes b = None)"
proof -
  let ?k = "fill_lines steps b" and ?n = "line_bytes b"
  note ins = read_lines_inside [OF assms(2-4), of bytes]
  show ?thesis
  proof (cases "?k * ?n \<le> length bytes")
    case True
    have "0 \<le> b_stride b" using assms(1,2) by linarith
    note c = copy_lines_at [OF True assms(3) this assms(4)]
    show ?thesis using ins True read_lines_copy [OF assms(1) c] by (simp add: FillSrcData_def FillSrcData_ptr_def c)
  next
    case False
    then have c: "copy_lines ?k ?n (b_vir b) (b_stride b) bytes = None" by (simp add: copy_lines_short)
    obtain ws where "read_lines ?k ?n (b_vir b) (b_stride b) bytes = (False, ws)" using read_lines_fail [OF assms(1) c] by blast
    then show ?thesis using ins False by (simp add: FillSrcData_def FillSrcData_ptr_def c)
  qed
qed

lemma FillSrcData_inside_witness:
  "\<exists>ws. FillSrcData (\<lambda>_ _. 0) (Some (Some [1, 2, 3, 4, 5, 6, 7]))
      (no_blob\<lparr>b_type := BLOB_YVU420SP, b_vir := 4096, b_num := 1, b_chn := 3, b_height := 2, b_width := 2, b_stride := 16\<rparr>) =
    Some (0, ws, [Fw_flush 0 4096 96], 0) \<and> ws = [(4096, [1, 2]), (4112, [3, 4]), (4128, [5, 6])]"
proof -
  let ?b = "no_blob\<lparr>b_type := BLOB_YVU420SP, b_vir := 4096, b_num := 1, b_chn := 3, b_height := 2, b_width := 2, b_stride := 16\<rparr>"
  have n: "line_bytes ?b = 2" "fill_lines (\<lambda>_ _. 0) ?b = 3"
    by (simp_all add: var_size_def fill_lines_def u32_def)
  have f: "fill_flush (\<lambda>_ _. 0) ?b = Fw_flush 0 4096 96" by (simp add: fill_flush_def u32_def no_blob_def)
  show ?thesis
    using FillSrcData_inside [where steps = "\<lambda>_ _. 0" and b = ?b and bytes = "[1, 2, 3, 4, 5, 6, 7]"] unfolding n f
    by (simp add: upt_conv_Cons numeral_3_eq_3 numeral_2_eq_2)
qed

end
