(* ===== verification/Ive_Common.thy ===== *)
theory Ive_Common
  imports Nnie_Detect
begin

text \<open>
  Images, files, blobs and copies of the intelligent video engine (common/sdk2v0/sample_comm_ive.c):
  \<open>SAMPLE_COMM_IVE_CalcStride\<close>, \<open>_CreateImage\<close>, \<open>_CreateImageByCached\<close>, \<open>_CreateMemInfo\<close>, \<open>_CreateData\<close>,
  \<open>_ReadFile\<close>, \<open>_WriteFile\<close>, \<open>_BlobToRect\<close>, \<open>_DmaImage\<close>, \<open>_CheckIveMpiInit\<close>, \<open>_IveMpiExit\<close> and \<open>SAMPLE_COMM_VGS_FillRect\<close>.

  The image types are those of \<open>Svp_Mem\<close>, which have the same names and numbers. A file is its contents and a
  position; what \<open>fseek\<close> returns and how many bytes the file still takes are parameters. A null argument is \<open>None\<close>.
\<close>

section \<open>Starting and leaving\<close>

datatype ive_sys_call = Ive_sys_exit | Ive_sys_init

definition IVE_MPI_Init :: "(ive_sys_call list \<Rightarrow> int) \<Rightarrow> ive_sys_call list \<Rightarrow> int \<times> ive_sys_call list" where
  "IVE_MPI_Init mpi tr = (let tr1 = tr @ [Ive_sys_exit, Ive_sys_init] in (mpi tr1, tr1))"

text \<open>\<open>None\<close>: the process has exited.\<close>

definition CheckIveMpiInit :: "(ive_sys_call list \<Rightarrow> int) \<Rightarrow> bool \<times> ive_sys_call list \<Rightarrow> (bool \<times> ive_sys_call list) option" where
  "CheckIveMpiInit mpi s =
     (case s of (started, tr) \<Rightarrow>
        if started then Some s
        else let (ret, tr1) = IVE_MPI_Init mpi tr in if ret \<noteq> 0 then None else Some (True, tr1))"

definition IveMpiExit :: "(ive_sys_call list \<Rightarrow> int) \<Rightarrow> bool \<times> ive_sys_call list \<Rightarrow> int \<times> bool \<times> ive_sys_call list" where
  "IveMpiExit mpi s =
     (let tr1 = snd s @ [Ive_sys_exit] in (if mpi tr1 \<noteq> 0 then -1 else 0, False, tr1))"

section \<open>Images and buffers\<close>

definition CalcStride :: "int \<Rightarrow> int \<Rightarrow> int" where
  "CalcStride w a = u32 (w + (a - w mod a) mod a) mod 65536"

definition ive_image :: "svp_image \<Rightarrow> svp_image_type \<Rightarrow> int \<Rightarrow> int \<Rightarrow> svp_image" where
  "ive_image img ty w h = set_stride 0 (CalcStride w 16) (img\<lparr>im_type := ty, im_width := w, im_height := h\<rparr>)"

definition IveCreateImage ::
    "mmz \<Rightarrow> svp_image option \<Rightarrow> svp_image_type \<Rightarrow> int \<Rightarrow> int \<Rightarrow> mmz_trace \<Rightarrow> int \<times> svp_image option \<times> mmz_trace" where
  "IveCreateImage mmz pimg ty w h tr =
     (case pimg of
        None \<Rightarrow> (-1, None, tr)
      | Some img \<Rightarrow>
        let s0 = CalcStride w 16; img0 = ive_image img ty w h;
            (ret, i, tr1) = (case ty of
              U8C1 \<Rightarrow> image_alloc mmz (u32 (s0 * h)) 0 img0 tr
            | S8C1 \<Rightarrow> image_alloc mmz (u32 (s0 * h)) 0 img0 tr
            | YUV420SP \<Rightarrow> on_ok (\<lambda>i. next_plane 1 (u32 (s0 * h)) (set_stride 1 s0 i))
                (image_alloc mmz (u32 (s0 * h * 3) div 2) 0 img0 tr)
            | YUV422SP \<Rightarrow> on_ok (\<lambda>i. next_plane 1 (u32 (s0 * h)) (set_stride 1 s0 i))
                (image_alloc mmz (u32 (s0 * h * 2)) 0 img0 tr)
            | S16C1 \<Rightarrow> image_alloc mmz (u32 (s0 * h * 2)) 0 img0 tr
            | U16C1 \<Rightarrow> image_alloc mmz (u32 (s0 * h * 2)) 0 img0 tr
            | U8C3_PACKAGE \<Rightarrow> on_ok (\<lambda>i. set_stride 2 s0 (set_stride 1 s0 (next_plane 2 1 (next_plane 1 1 i))))
                (image_alloc mmz (u32 (s0 * h * 3)) 0 img0 tr)
            | S32C1 \<Rightarrow> image_alloc mmz (u32 (s0 * h * 4)) 0 img0 tr
            | U32C1 \<Rightarrow> image_alloc mmz (u32 (s0 * h * 4)) 0 img0 tr
            | S64C1 \<Rightarrow> image_alloc mmz (u32 (s0 * h * 8)) 0 img0 tr
            | U64C1 \<Rightarrow> image_alloc mmz (u32 (s0 * h * 8)) 0 img0 tr
            | _ \<Rightarrow> (0, img0, tr))
        in (ret, Some i, tr1))"

text \<open>The cached allocator has the same interface.\<close>

definition IveCreateImageByCached ::
    "mmz \<Rightarrow> svp_image option \<Rightarrow> svp_image_type \<Rightarrow> int \<Rightarrow> int \<Rightarrow> mmz_trace \<Rightarrow> int \<times> svp_image option \<times> mmz_trace" where
  "IveCreateImageByCached mmz pimg ty w h tr =
     (case pimg of
        None \<Rightarrow> (-1, None, tr)
      | Some img \<Rightarrow>
        let s0 = CalcStride w 16; img0 = ive_image img ty w h;
            (ret, i, tr1) = (case ty of
              U8C1 \<Rightarrow> image_alloc mmz (u32 (s0 * h)) 0 img0 tr
            | S8C1 \<Rightarrow> image_alloc mmz (u32 (s0 * h)) 0 img0 tr
            | S16C1 \<Rightarrow> image_alloc mmz (u32 (s0 * h * 2)) 0 img0 tr
            | U16C1 \<Rightarrow> image_alloc mmz (u32 (s0 * h * 2)) 0 img0 tr
            | S32C1 \<Rightarrow> image_alloc mmz (u32 (s0 * h * 4)) 0 img0 tr
            | U32C1 \<Rightarrow> image_alloc mmz (u32 (s0 * h * 4)) 0 img0 tr
            | S64C1 \<Rightarrow> image_alloc mmz (u32 (s0 * h * 8)) 0 img0 tr
            | U64C1 \<Rightarrow> image_alloc mmz (u32 (s0 * h * 8)) 0 img0 tr
            | _ \<Rightarrow> (0, img0, tr))
        in (ret, Some i, tr1))"

definition IveCreateMemInfo ::
    "mmz \<Rightarrow> svp_mem_info option \<Rightarrow> int \<Rightarrow> mmz_trace \<Rightarrow> int \<times> svp_mem_info option \<times> mmz_trace" where
  "IveCreateMemInfo mmz pmem n tr =
     (case pmem of
        None \<Rightarrow> (-1, None, tr)
      | Some mem \<Rightarrow>
        let ((ret, p, v), tr1) = MmzAlloc mmz n tr
        in if ret \<noteq> 0 then (-1, Some (mem\<lparr>m_size := n\<rparr>), tr1)
           else (0, Some (mem\<lparr>m_size := n, m_phy := p, m_vir := v\<rparr>), tr1))"

record ive_data =
  d_phy :: int
  d_vir :: int
  d_stride :: int
  d_width :: int
  d_height :: int

definition IveCreateData ::
    "mmz \<Rightarrow> ive_data option \<Rightarrow> int \<Rightarrow> int \<Rightarrow> mmz_trace \<Rightarrow> int \<times> ive_data option \<times> mmz_trace" where
  "IveCreateData mmz pdat w h tr =
     (case pdat of
        None \<Rightarrow> (-1, None, tr)
      | Some dat \<Rightarrow>
        let dat1 = dat\<lparr>d_width := w, d_height := h, d_stride := CalcStride w 16\<rparr>;
            ((ret, p, v), tr1) = MmzAlloc mmz (u32 (d_stride dat1 * d_height dat1)) tr
        in if ret \<noteq> 0 then (-1, Some dat1, tr1)
           else (0, Some (dat1\<lparr>d_phy := p, d_vir := v\<rparr>), tr1))"

section \<open>Files\<close>

text \<open>
  Lines to be read or written: their number, the bytes of a line, the address of the first and the bytes from line
  to line. After a short read nothing is left of the file.
\<close>

type_synonym line_block = "nat \<times> nat \<times> int \<times> int"

fun read_blocks :: "line_block list \<Rightarrow> int list \<Rightarrow> bool \<times> (int \<times> int list) list \<times> int list" where
  "read_blocks [] bytes = (True, [], bytes)"
| "read_blocks ((k, n, a, s) # bs) bytes =
     (let (ok, ws) = read_lines k n a s bytes
      in if \<not> ok then (False, ws, if n = 0 then bytes else [])
         else let (ok', ws', rest) = read_blocks bs (drop (k * n) bytes) in (ok', ws @ ws', rest))"

definition ive_addr :: "svp_image \<Rightarrow> nat \<Rightarrow> int" where
  "ive_addr img k = u32 (im_vir img ! k)"

text \<open>The height and the width are cut to 16 bits.\<close>

definition ive_rows :: "svp_image \<Rightarrow> nat" where
  "ive_rows img = nat (im_height img mod 65536)"

definition ive_cols :: "svp_image \<Rightarrow> nat" where
  "ive_cols img = nat (im_width img mod 65536)"

definition read_layout :: "svp_image \<Rightarrow> line_block list" where
  "read_layout img =
     (let h = ive_rows img; w = ive_cols img; s = (\<lambda>k. im_stride img ! k)
      in case im_type img of
        U8C1 \<Rightarrow> [(h, w, ive_addr img 0, s 0)]
      | YUV420SP \<Rightarrow> [(h, w, ive_addr img 0, s 0), (h div 2, w, ive_addr img 1, s 1)]
      | YUV422SP \<Rightarrow> [(h, w, ive_addr img 0, s 0), (h, w, ive_addr img 1, s 1)]
      | U8C3_PACKAGE \<Rightarrow> [(h, w * 3, ive_addr img 0, u32 (s 0 * 3))]
      | U8C3_PLANAR \<Rightarrow> [(h, w, ive_addr img 0, s 0), (h, w, ive_addr img 1, s 1), (h, w, ive_addr img 2, s 2)]
      | S16C1 \<Rightarrow> [(h, w * 2, ive_addr img 0, u32 (s 0 * 2))]
      | U16C1 \<Rightarrow> [(h, w * 2, ive_addr img 0, u32 (s 0 * 2))]
      | _ \<Rightarrow> [])"

text \<open>
  The contents and the position. At the end of the file reading goes back to its start. \<open>seek\<close> is what
  \<open>fseek\<close> returns; when it fails, the character read to find the end is lost.
\<close>

type_synonym cfile = "int list \<times> nat"

definition IveReadFile :: "int \<Rightarrow> svp_image \<Rightarrow> cfile \<Rightarrow> int \<times> (int \<times> int list) list \<times> cfile" where
  "IveReadFile seek img f =
     (case f of (bytes, pos) \<Rightarrow>
        if seek \<noteq> 0 then (seek, [], (bytes, if length bytes \<le> pos then pos else pos + 1))
        else let pos1 = (if length bytes \<le> pos then 0 else pos);
                 (ok, ws, rest) = read_blocks (read_layout img) (drop pos1 bytes)
             in (if ok then 0 else -1, ws, (bytes, length bytes - length rest)))"

text \<open>The bytes of the memory at an address.\<close>

definition mem_bytes :: "(int \<Rightarrow> int) \<Rightarrow> int \<Rightarrow> nat \<Rightarrow> int list" where
  "mem_bytes mem a n = map (\<lambda>j. mem (u32 (a + int j))) [0..<n]"

text \<open>
  Writing a line: \<open>fwrite\<close> returns the number of elements. With elements of \<open>width\<close> bytes (\<open>strict\<close>) it returns
  0 for a line of no bytes, and the code takes that for a failure. \<open>cap\<close> is the number of bytes the file takes.
\<close>

fun write_lines :: "nat \<Rightarrow> (int \<Rightarrow> int) \<Rightarrow> bool \<Rightarrow> nat \<Rightarrow> nat \<Rightarrow> int \<Rightarrow> int \<Rightarrow> int list \<Rightarrow> bool \<times> int list" where
  "write_lines cap mem strict 0 n a s out = (True, out)"
| "write_lines cap mem strict (Suc k) n a s out =
     (if strict \<and> n = 0 then (False, out)
      else if cap < length out + n then (False, out @ take (cap - length out) (mem_bytes mem a n))
      else write_lines cap mem strict k n (u32 (a + s)) s (out @ mem_bytes mem a n))"

fun write_blocks :: "nat \<Rightarrow> (int \<Rightarrow> int) \<Rightarrow> (bool \<times> line_block) list \<Rightarrow> int list \<Rightarrow> bool \<times> int list" where
  "write_blocks cap mem [] out = (True, out)"
| "write_blocks cap mem ((strict, k, n, a, s) # bs) out =
     (let (ok, out1) = write_lines cap mem strict k n a s out
      in if \<not> ok then (False, out1) else write_blocks cap mem bs out1)"

definition write_layout :: "svp_image \<Rightarrow> (bool \<times> line_block) list" where
  "write_layout img =
     (let h = ive_rows img; w = ive_cols img; s = (\<lambda>k. im_stride img ! k)
      in case im_type img of
        U8C1 \<Rightarrow> [(True, h, w, ive_addr img 0, s 0)]
      | S8C1 \<Rightarrow> [(True, h, w, ive_addr img 0, s 0)]
      | YUV420SP \<Rightarrow> [(False, h, w, ive_addr img 0, s 0), (False, h div 2, w, ive_addr img 1, s 1)]
      | YUV422SP \<Rightarrow> [(False, h, w, ive_addr img 0, s 0), (False, h, w, ive_addr img 1, s 1)]
      | S16C1 \<Rightarrow> [(True, h, w * 2, ive_addr img 0, u32 (s 0 * 2))]
      | U16C1 \<Rightarrow> [(True, h, w * 2, ive_addr img 0, u32 (s 0 * 2))]
      | U32C1 \<Rightarrow> [(False, h, w * 4, ive_addr img 0, u32 (s 0 * 4))]
      | _ \<Rightarrow> [])"

definition IveWriteFile :: "nat \<Rightarrow> (int \<Rightarrow> int) \<Rightarrow> svp_image \<Rightarrow> int list \<Rightarrow> int \<times> int list" where
  "IveWriteFile cap mem img out =
     (let (ok, out1) = write_blocks cap mem (write_layout img) out in (if ok then 0 else -1, out1))"

section \<open>Blobs to rectangles\<close>

record ive_region =
  rg_area :: int
  rg_left :: int
  rg_right :: int
  rg_top :: int
  rg_bottom :: int

record ive_ccblob =
  cb_thr :: int
  cb_num :: int
  cb_regions :: "ive_region list"

definition IVE_RECT_NUM :: nat where
  "IVE_RECT_NUM = 64"

definition above :: "int \<Rightarrow> ive_region list \<Rightarrow> ive_region list" where
  "above thr rs = filter (\<lambda>r. thr < rg_area r) rs"

text \<open>
  The threshold is raised in 16 bits until few enough regions are above it. The loop has no bound: \<open>None\<close> is a
  loop that does not end.
\<close>

partial_function (option) raise_thr :: "int \<Rightarrow> int \<Rightarrow> ive_region list \<Rightarrow> int \<Rightarrow> int option" where
  "raise_thr mx step rs thr =
     (let thr' = (thr + step) mod 65536
      in if mx < int (length (above thr' rs)) then raise_thr mx step rs thr' else Some thr')"

definition blob_thr :: "ive_ccblob \<Rightarrow> int \<Rightarrow> int \<Rightarrow> int option" where
  "blob_thr b mx step = (if mx < cb_num b then raise_thr mx step (cb_regions b) (cb_thr b) else Some 0)"

text \<open>The conversion of a float to \<open>HI_U32\<close>; outside of the range the processor saturates.\<close>

fun to_u32 :: "cfloat \<Rightarrow> int" where
  "to_u32 (Fin x) = max 0 (min 4294967295 (trunc x))"
| "to_u32 Pinf = 4294967295" | "to_u32 Ninf = 0" | "to_u32 NaN = 0"

text \<open>A coordinate scaled from the source to the destination, made even.\<close>

definition scale_even :: "int \<Rightarrow> int \<Rightarrow> int \<Rightarrow> int" where
  "scale_even src dst x =
     (let t = to_u32 (fmul F32 (fdiv F32 (of_s32 F32 x) (of_s32 F32 src)) (of_s32 F32 dst)) in s32 (t - t mod 2))"

definition region_rect :: "int \<Rightarrow> int \<Rightarrow> int \<Rightarrow> int \<Rightarrow> ive_region \<Rightarrow> (int \<times> int) list" where
  "region_rect sw sh dw dh r =
     [(scale_even sw dw (rg_left r), scale_even sh dh (rg_top r)),
      (scale_even sw dw (rg_right r), scale_even sh dh (rg_top r)),
      (scale_even sw dw (rg_right r), scale_even sh dh (rg_bottom r)),
      (scale_even sw dw (rg_left r), scale_even sh dh (rg_bottom r))]"

text \<open>The comparison of every two corners.\<close>

definition rect_valid :: "(int \<times> int) list \<Rightarrow> bool" where
  "rect_valid ps = list_all (\<lambda>j. list_all (\<lambda>k. ps ! j \<noteq> ps ! k) [j + 1..<4]) [0..<3]"

text \<open>
  The loop that fills the array: a rectangle is written before it is checked, so the array must have
  a free entry even for one that is dropped. \<open>None\<close>: written behind the array.
\<close>

fun fill_rects :: "(ive_region \<Rightarrow> (int \<times> int) list) \<Rightarrow> int \<Rightarrow> ive_region list \<Rightarrow> (int \<times> int) list list \<Rightarrow> (int \<times> int) list list option" where
  "fill_rects f thr [] acc = Some acc"
| "fill_rects f thr (r # rs) acc =
     (if thr < rg_area r
      then if length acc < IVE_RECT_NUM
           then fill_rects f thr rs (if rect_valid (f r) then acc @ [f r] else acc)
           else None
      else fill_rects f thr rs acc)"

definition BlobToRect :: "ive_ccblob \<Rightarrow> int \<Rightarrow> int \<Rightarrow> int \<Rightarrow> int \<Rightarrow> int \<Rightarrow> int \<Rightarrow> (int \<times> int) list list option" where
  "BlobToRect b mx step sw sh dw dh =
     Option.bind (blob_thr b mx step) (\<lambda>thr. fill_rects (region_rect sw sh dw dh) thr (cb_regions b) [])"

section \<open>Drawing the rectangles\<close>

text \<open>The count \<open>u16Num\<close> is the length of the list.\<close>

definition VGS_FillRect :: "(vgs_call list \<Rightarrow> int) \<Rightarrow> (int \<times> int) list list \<Rightarrow> vgs_call list \<Rightarrow> int \<times> vgs_call list" where
  "VGS_FillRect vgs rects tr =
     (if length rects = 0 then (0, tr)
      else let tr1 = tr @ [Vgs_begin]; ret = vgs tr1
      in if ret \<noteq> 0 then (ret, tr1)
      else let (ret, tr2) = cover_rects vgs rects tr1
      in if ret \<noteq> 0 then (ret, tr2)
      else let tr3 = tr2 @ [Vgs_end]; ret = vgs tr3
      in if ret \<noteq> 0 then (ret, tr3 @ [Vgs_cancel]) else (ret, tr3))"

section \<open>Copying a frame\<close>

definition HI_ERR_IVE_QUERY_TIMEOUT :: int where
  "HI_ERR_IVE_QUERY_TIMEOUT = s32 (0x80000000 + 0x20000000 + 29 * 2 ^ 16 + 4 * 2 ^ 13 + 0x41)"

text \<open>Address, width, height and stride of the luminance plane of a frame.\<close>

record frame_info =
  fr_phy :: "int list"
  fr_vir :: "int list"
  fr_stride :: "int list"
  fr_width :: int
  fr_height :: int

text \<open>\<open>dma\<close> is what \<open>HI_MPI_IVE_DMA\<close> returns for its arguments; \<open>None\<close> is a wait that does not end.\<close>

definition DmaImage :: "(int \<times> int \<times> int \<times> int \<Rightarrow> int \<times> int \<times> int \<times> int \<Rightarrow> bool \<Rightarrow> int) \<Rightarrow> (nat \<Rightarrow> int) \<Rightarrow>
    frame_info \<Rightarrow> svp_image \<Rightarrow> bool \<Rightarrow> int option" where
  "DmaImage dma query fr dst instant =
     (let ret = dma (fr_phy fr ! 0, fr_width fr, fr_height fr, fr_stride fr ! 0)
                  (im_phy dst ! 0, im_width dst, im_height dst, im_stride dst ! 0) instant
      in if ret \<noteq> 0 then Some ret
         else if instant then map_option fst (wait_query HI_ERR_IVE_QUERY_TIMEOUT query 0)
         else Some 0)"

section \<open>Images are those of the SVP helper\<close>

lemma CalcStride_Align: "0 \<le> w \<Longrightarrow> w \<le> 65520 \<Longrightarrow> CalcStride w 16 = Svp_Align w 16"
proof -
  assume w: "0 \<le> w" "w \<le> 65520"
  have "0 \<le> Svp_Align w 16 \<and> Svp_Align w 16 \<le> 65520"
  proof -
    have "0 \<le> Svp_Align w 16" "Svp_Align w 16 < w + 16" "16 dvd Svp_Align w 16" using Svp_Align_ge [of w 16] w by auto
    then show ?thesis using w by (auto elim!: dvdE)
  qed
  then show ?thesis by (simp add: CalcStride_def Svp_Align_def)
qed

definition ive_no_memory :: "svp_image_type \<Rightarrow> bool" where
  "ive_no_memory ty \<longleftrightarrow> ty \<in> {YUV420P, YUV422P, S8C2_PACKAGE, S8C2_PLANAR, U8C3_PLANAR, IMAGE_TYPE_BUTT}"

lemma strides_after_planes:
  "set_stride 2 s (set_stride 1 s (next_plane 2 1 (next_plane 1 1 i))) = next_plane 2 1 (next_plane 1 1 (set_stride 2 s (set_stride 1 s i)))"
  by (cases i) (simp add: plane_defs)

text \<open>
  For widths up to 65520, \<open>SAMPLE_COMM_IVE_CreateImage\<close> does for eleven image types what
  \<open>SAMPLE_COMM_SVP_CreateImage\<close> does with offset 0: the same allocation, planes and strides.
  For the other five types, and for a number that is no type, it reports success without any memory. (A wider
  image gets a stride that is cut to 16 bits.)
\<close>

lemma IveCreateImage_as_svp:
  assumes "0 \<le> w" "w \<le> 65520"
  shows "IveCreateImage mmz (Some img) ty w h tr =
    (if ive_no_memory ty then (0, Some (ive_image img ty w h), tr)
     else (case CreateImage mmz img ty w h 0 tr of (ret, i, tr') \<Rightarrow> (ret, Some i, tr')))"
proof -
  have h: "u32 (u32 x div 2) = u32 x div 2" for x by (intro u32_id) (auto simp: in_u32_def u32_def)
  show ?thesis
    by (cases ty) (simp_all add: IveCreateImage_def CreateImage_def Let_def ive_no_memory_def ive_image_def CalcStride_Align [OF assms] h
        strides_after_planes [unfolded One_nat_def] split: prod.split)
qed

lemma stride_cut_off: "CalcStride 65521 16 = 0"
  by (simp add: CalcStride_def u32_def)

section \<open>What is written is read back\<close>

text \<open>Storing the pieces of a list of stores, oldest first.\<close>

definition store :: "int \<times> int list \<Rightarrow> (int \<Rightarrow> int) \<Rightarrow> int \<Rightarrow> int" where
  "store w mem a = (if fst w \<le> a \<and> a < fst w + int (length (snd w)) then snd w ! nat (a - fst w) else mem a)"

definition store_all :: "(int \<times> int list) list \<Rightarrow> (int \<Rightarrow> int) \<Rightarrow> int \<Rightarrow> int" where
  "store_all ws mem = fold store ws mem"

definition extents :: "(int \<times> int list) list \<Rightarrow> (int \<times> int) list" where
  "extents ws = map (\<lambda>(a, l). (a, int (length l))) ws"

lemma fits_weaken: "fits lo es hi \<Longrightarrow> lo' \<le> lo \<Longrightarrow> fits lo' es hi"
  by (cases es) auto

lemma fits_le: "fits lo es hi \<Longrightarrow> lo \<le> hi"
  by (induction lo es hi rule: fits.induct) auto

lemma fits_append: "fits lo xs mid \<Longrightarrow> fits mid ys hi \<Longrightarrow> fits lo (xs @ ys) hi"
  by (induction lo xs mid rule: fits.induct) (auto intro: fits_weaken)

lemma extents_append [simp]: "extents (xs @ ys) = extents xs @ extents ys"
  by (simp add: extents_def)

lemma store_all_before: "fits lo (extents ws) hi \<Longrightarrow> a < lo \<Longrightarrow> store_all ws mem a = mem a"
proof (induction ws arbitrary: lo mem)
  case Nil
  then show ?case by (simp add: store_all_def)
next
  case (Cons w ws)
  then have f: "fits (fst w + int (length (snd w))) (extents ws) hi" "lo \<le> fst w" by (auto simp: extents_def split: prod.splits)
  then have a: "a < fst w + int (length (snd w))" "\<not> fst w \<le> a" using Cons.prems(2) by simp_all
  have "store_all (w # ws) mem a = store_all ws (store w mem) a" by (simp add: store_all_def)
  also have "\<dots> = store w mem a" using Cons.IH [OF f(1)] a by simp
  also have "\<dots> = mem a" using a by (simp add: store_def)
  finally show ?case .
qed

text \<open>Stores that do not overlap leave what they stored.\<close>

lemma store_all_at:
  assumes "fits lo (extents ws) hi" "(a, l) \<in> set ws" "0 \<le> lo" "hi \<le> 4294967296"
  shows "mem_bytes (store_all ws mem) a (length l) = l"
  using assms
proof (induction ws arbitrary: lo mem)
  case (Cons w ws)
  then have f: "fits (fst w + int (length (snd w))) (extents ws) hi" "lo \<le> fst w" by (auto simp: extents_def split: prod.splits)
  have nn: "0 \<le> fst w + int (length (snd w))" "fst w + int (length (snd w)) \<le> hi"
    using f Cons.prems(3) fits_le by auto
  have sw: "store_all (w # ws) mem = store_all ws (store w mem)" by (simp add: store_all_def)
  show ?case
  proof (cases "w = (a, l)")
    case True
    have "store_all ws (store w mem) (u32 (a + int j)) = l ! j" if "j < length l" for j
    proof -
      have j: "a \<le> a + int j" "a + int j < a + int (length l)" using that by simp_all
      then have "u32 (a + int j) = a + int j" using True f(2) nn Cons.prems(3,4) by (intro u32_id) (simp add: in_u32_def)
      moreover have "store_all ws (store w mem) (a + int j) = store w mem (a + int j)"
        by (rule store_all_before [OF f(1)]) (use True j in simp)
      ultimately show ?thesis using True j by (simp add: store_def)
    qed
    then show ?thesis unfolding sw mem_bytes_def by (intro nth_equalityI) simp_all
  next
    case False
    then have "(a, l) \<in> set ws" using Cons.prems(2) by auto
    then show ?thesis unfolding sw using Cons.IH [OF f(1) _ nn(1) Cons.prems(4)] by blast
  qed
qed simp

lemma mem_bytes_u32 [simp]: "mem_bytes mem (u32 a) n = mem_bytes mem a n"
  by (simp add: mem_bytes_def)

lemma length_mem_bytes [simp]: "length (mem_bytes mem a n) = n"
  by (simp add: mem_bytes_def)

definition block_bytes :: "(int \<Rightarrow> int) \<Rightarrow> line_block \<Rightarrow> int list" where
  "block_bytes mem b = (case b of (k, n, a, s) \<Rightarrow> concat (map (\<lambda>i. mem_bytes mem (a + int i * s) n) [0..<k]))"

lemma block_bytes_Suc: "block_bytes mem (Suc k, n, a, s) = mem_bytes mem a n @ block_bytes mem (k, n, u32 (a + s), s)"
proof -
  have "mem_bytes mem (a + int (Suc i) * s) n = mem_bytes mem (u32 (a + s) + int i * s) n" for i
  proof -
    have "a + int (Suc i) * s = (a + s) + int i * s" by (simp add: algebra_simps)
    then show ?thesis by (metis mem_bytes_u32 u32_add(1))
  qed
  then show ?thesis
    unfolding block_bytes_def prod.case upt_conv_Cons [OF zero_less_Suc] map_Suc_upt [symmetric]
    by (simp add: comp_def del: upt_Suc of_nat_Suc)
qed

lemma block_bytes_0 [simp]: "block_bytes mem (0, n, a, s) = []"
  by (simp add: block_bytes_def)

lemma length_block_bytes [simp]: "length (block_bytes mem (k, n, a, s)) = k * n"
  by (induction k arbitrary: a) (simp_all add: block_bytes_Suc)

lemma write_lines_out:
  "write_lines cap mem strict k n a s out = (True, out') \<Longrightarrow> out' = out @ block_bytes mem (k, n, a, s)"
proof (induction k arbitrary: a out)
  case (Suc k)
  then have "write_lines cap mem strict k n (u32 (a + s)) s (out @ mem_bytes mem a n) = (True, out')"
    by (auto split: if_splits)
  from Suc.IH [OF this] show ?case by (simp add: block_bytes_Suc)
qed simp

lemma write_lines_ok:
  "length out + k * n \<le> cap \<Longrightarrow> (strict \<longrightarrow> 0 < n) \<Longrightarrow> write_lines cap mem strict k n a s out = (True, out @ block_bytes mem (k, n, a, s))"
proof (induction k arbitrary: a out)
  case (Suc k)
  then show ?case using Suc.IH [of "out @ mem_bytes mem a n" "u32 (a + s)"] by (auto simp: block_bytes_Suc)
qed simp

definition blocks_bytes :: "(int \<Rightarrow> int) \<Rightarrow> line_block list \<Rightarrow> int list" where
  "blocks_bytes mem bs = concat (map (block_bytes mem) bs)"

lemma write_blocks_out:
  "write_blocks cap mem bs out = (True, out') \<Longrightarrow> out' = out @ blocks_bytes mem (map snd bs)"
proof (induction bs arbitrary: out)
  case (Cons b bs)
  obtain st k n a s where b: "b = (st, k, n, a, s)" by (metis prod_cases5)
  obtain ok out1 where w: "write_lines cap mem st k n a s out = (ok, out1)" by fastforce
  show ?case using Cons.prems Cons.IH [of out1] write_lines_out [of cap mem st k n a s out out1]
    by (auto simp: b w blocks_bytes_def split: if_splits)
qed (simp add: blocks_bytes_def)

lemma write_blocks_ok:
  "length out + length (blocks_bytes mem (map snd bs)) \<le> cap \<Longrightarrow> list_all (\<lambda>(st, k, n, a, s). 0 < n) bs \<Longrightarrow>
   write_blocks cap mem bs out = (True, out @ blocks_bytes mem (map snd bs))"
proof (induction bs arbitrary: out)
  case (Cons b bs)
  obtain st k n a s where b: "b = (st, k, n, a, s)" by (metis prod_cases5)
  show ?case using Cons.prems Cons.IH [of "out @ block_bytes mem (k, n, a, s)"] write_lines_ok [of out k n cap st mem a s]
    by (simp add: b blocks_bytes_def)
qed (simp add: blocks_bytes_def)

lemma write_blocks_cap: "write_blocks cap mem bs out = (True, out') \<Longrightarrow> length out \<le> cap \<Longrightarrow> length out' \<le> cap"
proof -
  have l: "write_lines cap mem st k n a s out = (True, out') \<Longrightarrow> length out \<le> cap \<Longrightarrow> length out' \<le> cap" for st k n a s out out'
    by (induction k arbitrary: a out) (auto split: if_splits)
  show "write_blocks cap mem bs out = (True, out') \<Longrightarrow> length out \<le> cap \<Longrightarrow> length out' \<le> cap"
  proof (induction bs arbitrary: out)
    case (Cons b bs)
    obtain st k n a s where b: "b = (st, k, n, a, s)" by (metis prod_cases5)
    obtain ok out1 where w: "write_lines cap mem st k n a s out = (ok, out1)" by fastforce
    show ?case using Cons.prems Cons.IH [of out1] l [of st k n a s out out1] by (auto simp: b w split: if_splits)
  qed simp
qed

text \<open>Blocks of lines one after the other in the memory.\<close>

fun blocks_ok :: "int \<Rightarrow> line_block list \<Rightarrow> int \<Rightarrow> bool" where
  "blocks_ok lo [] hi \<longleftrightarrow> lo \<le> hi"
| "blocks_ok lo ((k, n, a, s) # bs) hi \<longleftrightarrow> lo \<le> a \<and> 0 < n \<and> int n \<le> s \<and> blocks_ok (a + int k * s) bs hi"

lemma blocks_ok_le: "blocks_ok lo bs hi \<Longrightarrow> lo \<le> hi"
proof (induction lo bs hi rule: blocks_ok.induct)
  case (2 lo k n a s bs hi)
  then have "0 \<le> int k * s" "lo \<le> a" "a + int k * s \<le> hi" by auto
  then show ?case by linarith
qed simp

lemma lines_fit:
  "int n \<le> s \<Longrightarrow> fits a (map (\<lambda>i. (a + int i * s, int n)) [0..<k]) (a + int k * s)"
proof (induction k arbitrary: a)
  case (Suc k)
  have "fits (a + s) (map (\<lambda>i. (a + s + int i * s, int n)) [0..<k]) (a + s + int k * s)" using Suc by simp
  then have "fits (a + int n) (map (\<lambda>i. (a + s + int i * s, int n)) [0..<k]) (a + int (Suc k) * s)"
    using Suc.prems by (auto intro: fits_weaken simp: algebra_simps)
  then show ?case
    unfolding upt_conv_Cons [OF zero_less_Suc] map_Suc_upt [symmetric] by (simp add: algebra_simps comp_def del: upt_Suc)
qed simp

lemma pieces_concat: "length bytes = k * n \<Longrightarrow> concat (map (\<lambda>i. take n (drop (i * n) bytes)) [0..<k]) = bytes"
proof (induction k arbitrary: bytes)
  case (Suc k)
  have "concat (map (\<lambda>i. take n (drop (i * n) (drop n bytes))) [0..<k]) = drop n bytes" using Suc.prems by (intro Suc.IH) simp
  then have "concat (map (\<lambda>i. take n (drop (n + i * n) bytes)) [0..<k]) = drop n bytes" by (simp add: add.commute)
  then show ?case
    unfolding upt_conv_Cons [OF zero_less_Suc] map_Suc_upt [symmetric] by (simp add: comp_def del: upt_Suc)
qed simp

lemma read_blocks_ok:
  assumes "blocks_ok lo bs hi" "0 \<le> lo" "hi < 4294967296" "length bytes = sum_list (map (\<lambda>(k, n, a, s). k * n) bs)"
  shows "\<exists>ws. read_blocks bs bytes = (True, ws, []) \<and> fits lo (extents ws) hi \<and>
    (\<forall>mem. (\<forall>(a, l) \<in> set ws. mem_bytes mem a (length l) = l) \<longrightarrow> blocks_bytes mem bs = bytes)"
  using assms
proof (induction lo bs hi arbitrary: bytes rule: blocks_ok.induct)
  case (1 lo hi)
  then show ?case by (simp add: blocks_bytes_def extents_def)
next
  case (2 lo k n a s bs hi)
  let ?ws = "map (\<lambda>i. (a + int i * s, take n (drop (i * n) bytes))) [0..<k]"
  have len: "k * n \<le> length bytes" using "2.prems"(4) by simp
  have p: "lo \<le> a" "0 < n" "int n \<le> s" "blocks_ok (a + int k * s) bs hi" using "2.prems"(1) by simp_all
  have ks: "0 \<le> int k * s" using p by simp
  have hi: "a + int k * s < 4294967296" using blocks_ok_le [OF p(4)] "2.prems"(3) by simp
  have c: "copy_lines k n a s bytes = Some ?ws" using p "2.prems"(2) hi by (intro copy_lines_at len) simp_all
  obtain ws where r: "read_blocks bs (drop (k * n) bytes) = (True, ws, [])" "fits (a + int k * s) (extents ws) hi"
    "\<And>mem. \<forall>(a, l) \<in> set ws. mem_bytes mem a (length l) = l \<Longrightarrow> blocks_bytes mem bs = drop (k * n) bytes"
    using "2.IH" [of "drop (k * n) bytes"] p(1,4) ks "2.prems" by auto
  have e: "extents ?ws = map (\<lambda>i. (a + int i * s, int n)) [0..<k]"
  proof -
    have "n \<le> length bytes - i * n" if "i < k" for i
    proof -
      have "(i + 1) * n \<le> k * n" using that by (intro mult_le_mono1) simp
      then show ?thesis using len by (simp add: algebra_simps)
    qed
    then show ?thesis by (auto simp: extents_def)
  qed
  have f: "fits lo (extents (?ws @ ws)) hi"
    using fits_append [OF lines_fit [OF p(3)] r(2)] p(1) e by (auto intro: fits_weaken)
  have "blocks_bytes mem ((k, n, a, s) # bs) = bytes" if m: "\<forall>(a, l) \<in> set (?ws @ ws). mem_bytes mem a (length l) = l" for mem
  proof -
    have "mem_bytes mem (a + int i * s) n = take n (drop (i * n) (take (k * n) bytes))" if "i < k" for i
    proof -
      have "(i + 1) * n \<le> k * n" using that by (intro mult_le_mono1) simp
      then have l: "length (take n (drop (i * n) bytes)) = n" "take n (drop (i * n) (take (k * n) bytes)) = take n (drop (i * n) bytes)"
        using len by (auto simp: algebra_simps drop_take)
      have "(a + int i * s, take n (drop (i * n) bytes)) \<in> set (?ws @ ws)" using that by auto
      from bspec [OF m this] show ?thesis unfolding prod.case l(1) l(2) .
    qed
    then have "block_bytes mem (k, n, a, s) = concat (map (\<lambda>i. take n (drop (i * n) (take (k * n) bytes))) [0..<k])"
      unfolding block_bytes_def prod.case by (intro arg_cong [where f = concat] map_cong) simp_all
    also have "\<dots> = take (k * n) bytes" using len by (intro pieces_concat) simp
    finally show ?thesis using r(3) [of mem] m by (simp add: blocks_bytes_def)
  qed
  then show ?case using f read_lines_copy [OF p(2) c] r(1) by auto
qed

text \<open>The types that can be written and read.\<close>

definition ive_file_type :: "svp_image_type \<Rightarrow> bool" where
  "ive_file_type ty \<longleftrightarrow> ty \<in> {U8C1, YUV420SP, YUV422SP, S16C1, U16C1}"

lemma write_layout_read: "ive_file_type (im_type i) \<Longrightarrow> map snd (write_layout i) = read_layout i"
  by (auto simp: ive_file_type_def write_layout_def read_layout_def Let_def)

lemma write_layout_pos: "0 < ive_cols i \<Longrightarrow> list_all (\<lambda>(st, k, n, a, s). 0 < n) (write_layout i)"
  by (cases "im_type i") (simp_all add: write_layout_def Let_def)

lemma layout_size:
  assumes "im_type i = im_type j" "im_width i = im_width j" "im_height i = im_height j"
  shows "map (\<lambda>(k, n, a, s). k * n) (read_layout i) = map (\<lambda>(k, n, a, s). k * n) (read_layout j)"
  by (cases "im_type j") (simp_all add: read_layout_def Let_def ive_rows_def ive_cols_def assms)

lemma length_blocks_bytes: "length (blocks_bytes mem bs) = sum_list (map (\<lambda>(k, n, a, s). k * n) bs)"
proof (induction bs)
  case (Cons b bs)
  obtain k n a s where "b = (k, n, a, s)" by (metis prod_cases4)
  then show ?case using Cons by (simp add: blocks_bytes_def)
qed (simp add: blocks_bytes_def)

lemma created_blocks:
  assumes c: "IveCreateImage mmz (Some img) ty w h tr = (0, Some j, tr')" and ty: "ive_file_type ty" and sh: "img_shape img"
    and snd: "mmz_sound mmz" and w: "0 < w" "w \<le> 65520" and h: "0 < h" "h < 65536" and small: "3 * (Svp_Align w 16 * h) < 4294967296"
  shows "\<exists>p v n. tr' = tr @ [Mmz_alloc p v n] \<and> 0 < v \<and> v + n < 4294967296 \<and> blocks_ok v (read_layout j) (v + n) \<and>
    im_type j = ty \<and> im_width j = w \<and> im_height j = h"
proof -
  define s0 where "s0 = Svp_Align w 16"
  define A where "A = s0 * h"
  have s: "CalcStride w 16 = s0" using CalcStride_Align w by (simp add: s0_def)
  have s0: "w \<le> s0" "s0 < w + 16" using Svp_Align_ge [of w 16] w by (simp_all add: s0_def)
  have A: "0 \<le> A" "3 * A < 4294967296" using s0 w h small by (simp_all add: A_def s0_def)
  have u: "u32 A = A" "u32 (A * 3) = A * 3" "u32 (A * 2) = A * 2" "u32 (s0 * 2) = s0 * 2" "w mod 65536 = w" "h mod 65536 = h"
    using A s0 w h by (auto intro!: u32_id simp: in_u32_def)
  have u64v: "u64 v = v" "u32 v = v" if "0 < v" "v < 4294967296" for v using that by (simp_all add: u64_id u32_id in_u32_def)
  obtain a b c' where l: "im_vir img = [a, b, c']" using sh length_3_cases by (fastforce simp: img_shape_def)
  obtain a2 b2 c2 where l2: "im_stride img = [a2, b2, c2]" using sh length_3_cases by (fastforce simp: img_shape_def)
  have nat: "int (nat w) = w" "int (nat h) = h" "0 < nat w" using w h by simp_all
  have half: "int (nat h div 2) * s0 \<le> A div 2"
  proof -
    have "2 * (int (nat h div 2) * s0) = (2 * int (nat h div 2)) * s0" by simp
    also have "\<dots> \<le> h * s0" using s0 w h by (intro mult_right_mono) auto
    finally show ?thesis by (simp add: A_def mult.commute)
  qed
  note d = IveCreateImage_def ive_image_def Let_def set_stride_def next_plane_def on_ok_zero image_alloc_zero read_layout_def ive_rows_def ive_cols_def
    ive_addr_def s u l l2 A_def [symmetric]
  have z: "0 < v \<and> v + n < 4294967296" if "mmz tr n = (0, p, v)" for p v n using snd that unfolding mmz_sound_def by blast
  consider "ty = U8C1" | "ty = YUV420SP" | "ty = YUV422SP" | "ty = S16C1 \<or> ty = U16C1" using ty by (auto simp: ive_file_type_def)
  then show ?thesis
  proof cases
    case 1
    obtain p v where pv: "mmz tr A = (0, p, v)" "tr' = tr @ [Mmz_alloc p v A]" using c by (auto simp: d 1 split: prod.splits)
    have v: "0 < v" "v + A < 4294967296" "v < 4294967296" using z [OF pv(1)] A by auto
    have "im_type j = ty \<and> im_width j = w \<and> im_height j = h \<and> read_layout j = [(nat h, nat w, v, s0)]"
      using c pv(1) by (auto simp: d 1 u64v [OF v(1,3)] split: prod.splits)
    moreover have "blocks_ok v [(nat h, nat w, v, s0)] (v + A)" using nat s0 A w h by (simp add: A_def mult.commute)
    ultimately show ?thesis using pv v by auto
  next
    case 2
    obtain p v where pv: "mmz tr (A * 3 div 2) = (0, p, v)" "tr' = tr @ [Mmz_alloc p v (A * 3 div 2)]" using c by (auto simp: d 2 split: prod.splits)
    have v: "0 < v" "v + A * 3 div 2 < 4294967296" "v < 4294967296" using z [OF pv(1)] A by auto
    have v2: "0 < v + A" "v + A < 4294967296" using v A by auto
    have "im_type j = ty \<and> im_width j = w \<and> im_height j = h \<and>
        read_layout j = [(nat h, nat w, v, s0), (nat h div 2, nat w, v + A, s0)]"
      using c pv(1) by (auto simp: d 2 u64v [OF v(1,3)] u64v [OF v2] split: prod.splits)
    moreover have "blocks_ok v [(nat h, nat w, v, s0), (nat h div 2, nat w, v + A, s0)] (v + A * 3 div 2)"
      using nat s0 A w h half by (simp add: A_def mult.commute)
    ultimately show ?thesis using pv v by auto
  next
    case 3
    obtain p v where pv: "mmz tr (A * 2) = (0, p, v)" "tr' = tr @ [Mmz_alloc p v (A * 2)]" using c by (auto simp: d 3 split: prod.splits)
    have v: "0 < v" "v + A * 2 < 4294967296" "v < 4294967296" using z [OF pv(1)] A by auto
    have v2: "0 < v + A" "v + A < 4294967296" using v A by auto
    have "im_type j = ty \<and> im_width j = w \<and> im_height j = h \<and>
        read_layout j = [(nat h, nat w, v, s0), (nat h, nat w, v + A, s0)]"
      using c pv(1) by (auto simp: d 3 u64v [OF v(1,3)] u64v [OF v2] split: prod.splits)
    moreover have "blocks_ok v [(nat h, nat w, v, s0), (nat h, nat w, v + A, s0)] (v + A * 2)"
      using nat s0 A w h by (simp add: A_def mult.commute)
    ultimately show ?thesis using pv v by auto
  next
    case 4
    obtain p v where pv: "mmz tr (A * 2) = (0, p, v)" "tr' = tr @ [Mmz_alloc p v (A * 2)]" using c 4 by (auto simp: d split: prod.splits)
    have v: "0 < v" "v + A * 2 < 4294967296" "v < 4294967296" using z [OF pv(1)] A by auto
    have "im_type j = ty \<and> im_width j = w \<and> im_height j = h \<and> read_layout j = [(nat h, nat w * 2, v, s0 * 2)]"
      using c pv(1) 4 by (auto simp: d u64v [OF v(1,3)] split: prod.splits)
    moreover have "blocks_ok v [(nat h, nat w * 2, v, s0 * 2)] (v + A * 2)" using nat s0 A w h by (simp add: A_def algebra_simps)
    ultimately show ?thesis using pv v by auto
  qed
qed

lemma layout_total: "ive_file_type (im_type i) \<Longrightarrow> write_blocks cap mem (write_layout i) [] = (True, file) \<Longrightarrow>
   length file = sum_list (map (\<lambda>(k, n, a, s). k * n) (read_layout i)) \<and> length file \<le> cap"
  using write_blocks_out [of cap mem "write_layout i" "[]" "file"] write_blocks_cap [of cap mem "write_layout i" "[]" "file"]
  by (simp add: write_layout_read length_blocks_bytes)

lemma layout_nonempty:
  assumes "ive_file_type (im_type i)" "0 < ive_rows i" "0 < ive_cols i"
  shows "0 < sum_list (map (\<lambda>(k, n, a, s). k * n) (read_layout i))"
  using assms by (auto simp: ive_file_type_def read_layout_def Let_def)

text \<open>
  C22. What \<open>SAMPLE_COMM_IVE_WriteFile\<close> wrote of an image can be read back with \<open>SAMPLE_COMM_IVE_ReadFile\<close> into any image of the same
  type and size that \<open>SAMPLE_COMM_IVE_CreateImage\<close> created, from the start of the file or, as the function goes back to it,
  from its end: the whole file is read, every store is inside the block of the image and none overlaps another, and writing the
  image again gives the same file. This holds for the five types that both functions know, for 8-bit, YUV and 16-bit images.
\<close>

theorem ive_file_roundtrip:
  assumes "IveCreateImage mmz (Some img) ty w h tr = (0, Some j, tr')" "ive_file_type ty" "img_shape img" "mmz_sound mmz"
    and "0 < w" "w \<le> 65520" "0 < h" "h < 65536" "3 * (Svp_Align w 16 * h) < 4294967296"
    and "im_type i = ty" "im_width i = w" "im_height i = h" "IveWriteFile cap mem i [] = (0, file)" "pos = 0 \<or> pos = length file"
  shows "\<exists>p v n ws. tr' = tr @ [Mmz_alloc p v n] \<and> IveReadFile 0 j (file, pos) = (0, ws, file, length file) \<and>
    fits v (extents ws) (v + n) \<and> IveWriteFile cap (store_all ws mem') j [] = (0, file)"
proof -
  obtain p v n where j: "tr' = tr @ [Mmz_alloc p v n]" "0 < v" "v + n < 4294967296" "blocks_ok v (read_layout j) (v + n)"
    "im_type j = ty" "im_width j = w" "im_height j = h"
    using created_blocks [OF assms(1-9)] by blast
  have wr: "write_blocks cap mem (write_layout i) [] = (True, file)"
    using assms(13) by (auto simp: IveWriteFile_def split: prod.splits if_splits)
  have len: "length file = sum_list (map (\<lambda>(k, n, a, s). k * n) (read_layout j))" "length file \<le> cap"
    using layout_total [OF _ wr] layout_size [of i j] assms(2,10-12) j by simp_all
  have rc: "0 < ive_rows j" "0 < ive_cols j" using j assms(5-8) by (simp_all add: ive_rows_def ive_cols_def)
  then have ne: "0 < length file" using layout_nonempty [of j] assms(2) j len(1) by simp
  obtain ws where ws: "read_blocks (read_layout j) file = (True, ws, [])" "fits v (extents ws) (v + n)"
    "\<And>mem. \<forall>(a, l) \<in> set ws. mem_bytes mem a (length l) = l \<Longrightarrow> blocks_bytes mem (read_layout j) = file"
    using read_blocks_ok [OF j(4) _ j(3) len(1)] j(2) by auto
  have "\<forall>(a, l) \<in> set ws. mem_bytes (store_all ws mem') a (length l) = l"
    using store_all_at [OF ws(2)] j(2,3) by auto
  then have b: "blocks_bytes (store_all ws mem') (read_layout j) = file" by (rule ws(3))
  have "write_blocks cap (store_all ws mem') (write_layout j) [] = (True, file)"
    using write_blocks_ok [of "[]" "store_all ws mem'" "write_layout j" cap] write_layout_pos [OF rc(2)] write_layout_read [of j] assms(2) j(5) b len(2)
    by simp
  then have "IveWriteFile cap (store_all ws mem') j [] = (0, file)" by (simp add: IveWriteFile_def)
  moreover have "IveReadFile 0 j (file, pos) = (0, ws, file, length file)"
    using assms(14) ne ws(1) by (auto simp: IveReadFile_def)
  ultimately show ?thesis using j(1) ws(2) by blast
qed

theorem ive_file_roundtrip_witness:
  "\<exists>j tr' ws. IveCreateImage bump_mmz (Some zero_image) U16C1 2 2 [] = (0, Some j, tr') \<and>
     IveWriteFile 100 (\<lambda>a. a mod 256) (zero_image\<lparr>im_type := U16C1, im_width := 2, im_height := 2, im_stride := [16, 0, 0]\<rparr>) [] =
       (0, [0, 1, 2, 3, 32, 33, 34, 35]) \<and>
     IveReadFile 0 j ([0, 1, 2, 3, 32, 33, 34, 35], 8) = (0, ws, [0, 1, 2, 3, 32, 33, 34, 35], 8) \<and>
     IveWriteFile 100 (store_all ws (\<lambda>a. 7)) j [] = (0, [0, 1, 2, 3, 32, 33, 34, 35])"
proof -
  let ?i = "zero_image\<lparr>im_type := U16C1, im_width := 2, im_height := 2, im_stride := [16, 0, 0]\<rparr>"
  obtain j tr' where c: "IveCreateImage bump_mmz (Some zero_image) U16C1 2 2 [] = (0, Some j, tr')"
    by (simp add: IveCreateImage_def Let_def image_alloc_def MmzAlloc_def bump_mmz_def CalcStride_def u32_def)
  have w: "IveWriteFile 100 (\<lambda>a. a mod 256) ?i [] = (0, [0, 1, 2, 3, 32, 33, 34, 35])"
    by code_simp
  show ?thesis
    using ive_file_roundtrip [OF c _ _ bump_mmz_sound, of ?i 100 "\<lambda>a. a mod 256" "[0, 1, 2, 3, 32, 33, 34, 35]" 8 "\<lambda>a. 7"] w c
    by (auto simp: ive_file_type_def img_shape_def zero_image_def Svp_Align_def u32_def)
qed

text \<open>The types one of the two functions does not know: success, and nothing written or read.\<close>

lemma ive_file_nothing:
  "im_type i \<in> {U8C3_PACKAGE, U8C3_PLANAR, S32C1, S64C1, U64C1, YUV420P} \<Longrightarrow> IveWriteFile cap mem i out = (0, out)"
  "im_type i \<in> {S8C1, U32C1, S32C1, S64C1, U64C1, YUV420P} \<Longrightarrow> pos < length file \<Longrightarrow> IveReadFile 0 i (file, pos) = (0, [], file, pos)"
  by (auto simp: IveWriteFile_def IveReadFile_def write_layout_def read_layout_def Let_def)

section \<open>The threshold of a blob\<close>

abbreviation thr_at :: "int \<Rightarrow> int \<Rightarrow> nat \<Rightarrow> int" where
  "thr_at thr step n \<equiv> (thr + int n * step) mod 65536"

lemma thr_at_Suc: "thr_at ((thr + step) mod 65536) step n = thr_at thr step (Suc n)"
proof -
  have "((thr + step) mod 65536 + int n * step) mod 65536 = (thr + step + int n * step) mod 65536" by (rule mod_add_left_eq)
  also have "thr + step + int n * step = thr + int (Suc n) * step" by (simp add: algebra_simps)
  finally show ?thesis .
qed

definition too_many :: "int \<Rightarrow> ive_region list \<Rightarrow> int \<Rightarrow> bool" where
  "too_many mx rs thr \<longleftrightarrow> mx < int (length (above thr rs))"

lemma raise_thr_step:
  "raise_thr mx step rs thr =
     (if too_many mx rs (thr_at thr step 1) then raise_thr mx step rs (thr_at thr step 1) else Some (thr_at thr step 1))"
  by (subst raise_thr.simps) (simp add: too_many_def Let_def)

lemma raise_thr_first:
  assumes "\<not> too_many mx rs (thr_at thr step (Suc n))" "\<And>j. j < n \<Longrightarrow> too_many mx rs (thr_at thr step (Suc j))"
  shows "raise_thr mx step rs thr = Some (thr_at thr step (Suc n))"
  using assms
proof (induction n arbitrary: thr)
  case 0
  then show ?case by (subst raise_thr_step) simp
next
  case (Suc n)
  let ?t = "(thr + step) mod 65536"
  have "raise_thr mx step rs ?t = Some (thr_at ?t step (Suc n))"
  proof (rule Suc.IH)
    show "\<not> too_many mx rs (thr_at ?t step (Suc n))" unfolding thr_at_Suc by (rule Suc.prems(1))
  next
    fix j assume "j < n"
    then show "too_many mx rs (thr_at ?t step (Suc j))" unfolding thr_at_Suc by (intro Suc.prems(2)) simp
  qed
  moreover have "too_many mx rs ?t" using Suc.prems(2) [of 0] by simp
  ultimately show ?case unfolding thr_at_Suc by (subst raise_thr_step) simp
qed

lemma raise_thr_Some:
  assumes "raise_thr mx step rs thr = Some t"
  shows "\<exists>n. t = thr_at thr step (Suc n) \<and> \<not> too_many mx rs t"
proof (rule raise_thr.raw_induct [where P = "\<lambda>mx step rs thr t. \<exists>n. t = thr_at thr step (Suc n) \<and> \<not> too_many mx rs t", OF _ assms])
  fix f :: "int \<Rightarrow> int \<Rightarrow> ive_region list \<Rightarrow> int \<Rightarrow> int option" and mx step rs thr t
  assume ih: "\<And>mx step rs thr y. f mx step rs thr = Some y \<Longrightarrow> \<exists>n. y = thr_at thr step (Suc n) \<and> \<not> too_many mx rs y"
    and r: "(let thr' = (thr + step) mod 65536 in if mx < int (length (above thr' rs)) then f mx step rs thr' else Some thr') = Some t"
  show "\<exists>n. t = thr_at thr step (Suc n) \<and> \<not> too_many mx rs t"
  proof (cases "too_many mx rs ((thr + step) mod 65536)")
    case True
    then have "f mx step rs ((thr + step) mod 65536) = Some t" using r by (simp add: Let_def too_many_def)
    from ih [OF this] obtain n where "t = thr_at ((thr + step) mod 65536) step (Suc n)" "\<not> too_many mx rs t" by blast
    then show ?thesis unfolding thr_at_Suc by blast
  next
    case False
    then have t: "t = (thr + step) mod 65536" using r by (simp add: Let_def too_many_def)
    show ?thesis by (rule exI [of _ 0]) (use False t in simp)
  qed
qed

text \<open>It is the first one that leaves few enough.\<close>

lemma raise_thr_least:
  assumes "raise_thr mx step rs thr = Some t"
  shows "\<exists>n. t = thr_at thr step (Suc n) \<and> \<not> too_many mx rs t \<and> (\<forall>j < n. too_many mx rs (thr_at thr step (Suc j)))"
proof -
  let ?P = "\<lambda>n. \<not> too_many mx rs (thr_at thr step (Suc n))"
  obtain n where n: "?P n" using raise_thr_Some [OF assms] by blast
  have less: "j < (LEAST n. ?P n) \<Longrightarrow> too_many mx rs (thr_at thr step (Suc j))" for j using not_less_Least [of j ?P] by blast
  have "raise_thr mx step rs thr = Some (thr_at thr step (Suc (LEAST n. ?P n)))"
    by (rule raise_thr_first [OF LeastI [of ?P, OF n] less])
  then show ?thesis using LeastI [of ?P, OF n] less assms by auto
qed

lemma raise_thr_None: "raise_thr mx step rs thr = None \<longleftrightarrow> (\<forall>n. too_many mx rs (thr_at thr step (Suc n)))"
proof
  assume none: "raise_thr mx step rs thr = None"
  show "\<forall>n. too_many mx rs (thr_at thr step (Suc n))"
  proof (rule ccontr)
    let ?P = "\<lambda>n. \<not> too_many mx rs (thr_at thr step (Suc n))"
    assume "\<not> ?thesis"
    then obtain n where n: "?P n" by blast
    have "raise_thr mx step rs thr = Some (thr_at thr step (Suc (LEAST n. ?P n)))"
      by (rule raise_thr_first [OF LeastI [of ?P, OF n]]) (use not_less_Least [of _ ?P] in blast)
    then show False using none by simp
  qed
next
  assume "\<forall>n. too_many mx rs (thr_at thr step (Suc n))"
  then show "raise_thr mx step rs thr = None" using raise_thr_Some [of mx step rs thr] by (cases "raise_thr mx step rs thr") auto
qed

lemma length_above_mono: "t \<le> t' \<Longrightarrow> length (above t' rs) \<le> length (above t rs)"
  unfolding above_def by (induction rs) auto

text \<open>Going up in steps from below, the last threshold before the wrap-around is within a step of the top.\<close>

lemma thr_near_top:
  assumes "0 < step" "step < 65536" "0 \<le> thr" "thr < 65536"
  shows "\<exists>n. 65535 - step < thr_at thr step (Suc n)"
proof -
  have up: "\<exists>n. t + int n * step < 65536 \<and> 65535 - step < t + int n * step" if "0 \<le> t" "t < 65536" for t
  proof -
    define q where "q = (65535 - t) div step"
    define r where "r = (65535 - t) mod step"
    have d: "q * step + r = 65535 - t" by (simp add: q_def r_def)
    have m: "0 \<le> r" "r < step" using assms(1) by (simp_all add: r_def)
    have "0 \<le> q" using that assms(1) by (simp add: q_def pos_imp_zdiv_nonneg_iff)
    then have "int (nat q) = q" by simp
    then show ?thesis using d m by (intro exI [of _ "nat q"]) simp
  qed
  let ?t = "(thr + step) mod 65536"
  obtain n where n: "?t + int n * step < 65536" "65535 - step < ?t + int n * step" using up [of ?t] by auto
  have "0 \<le> int n * step" using assms(1) by simp
  then have "thr_at ?t step n = ?t + int n * step" using n by (intro mod_pos_pos_trivial) simp_all
  then have e: "thr_at thr step (Suc n) = ?t + int n * step" unfolding thr_at_Suc .
  show ?thesis by (rule exI [of _ n], unfold e, rule n(2))
qed

text \<open>
  C24. \<open>SAMPLE_COMM_IVE_BlobToRect\<close> returns from raising the threshold if and only if some threshold that the steps reach, in 16 bits and
  going on after a wrap-around, leaves few enough regions. In particular it returns when no more regions than wanted are larger
  than 65535 less a step, and never with a step of 0 that does not start at such a threshold.
\<close>

theorem blob_thr_terminates:
  assumes "mx < cb_num b"
  shows "(blob_thr b mx step \<noteq> None \<longleftrightarrow> (\<exists>n. int (length (above (thr_at (cb_thr b) step (Suc n)) (cb_regions b))) \<le> mx)) \<and>
    (0 < step \<and> step < 65536 \<and> 0 \<le> cb_thr b \<and> cb_thr b < 65536 \<and> int (length (above (65535 - step) (cb_regions b))) \<le> mx \<longrightarrow>
      blob_thr b mx step \<noteq> None) \<and>
    (mx < int (length (above (cb_thr b mod 65536) (cb_regions b))) \<longrightarrow> blob_thr b mx 0 = None)"
proof -
  have iff: "blob_thr b mx step \<noteq> None \<longleftrightarrow> (\<exists>n. int (length (above (thr_at (cb_thr b) step (Suc n)) (cb_regions b))) \<le> mx)" for step
    using assms by (auto simp: blob_thr_def raise_thr_None too_many_def not_less simp del: of_nat_Suc not_None_eq)
  have "blob_thr b mx step \<noteq> None" if p: "0 < step" "step < 65536" "0 \<le> cb_thr b" "cb_thr b < 65536"
    "int (length (above (65535 - step) (cb_regions b))) \<le> mx"
  proof -
    obtain n where n: "65535 - step < thr_at (cb_thr b) step (Suc n)" using thr_near_top [OF p(1-4)] by blast
    then have "length (above (thr_at (cb_thr b) step (Suc n)) (cb_regions b)) \<le> length (above (65535 - step) (cb_regions b))"
      by (intro length_above_mono) simp
    then show ?thesis unfolding iff using p(5) by (intro exI [of _ n]) linarith
  qed
  moreover have "blob_thr b mx 0 = None" if "mx < int (length (above (cb_thr b mod 65536) (cb_regions b)))"
    using iff [of 0] that by auto
  ultimately show ?thesis using iff by blast
qed

theorem blob_thr_terminates_witness:
  "blob_thr \<lparr>cb_thr = 4, cb_num = 2, cb_regions = [\<lparr>rg_area = 20, rg_left = 0, rg_right = 8, rg_top = 0, rg_bottom = 8\<rparr>,
       \<lparr>rg_area = 9, rg_left = 0, rg_right = 4, rg_top = 0, rg_bottom = 4\<rparr>]\<rparr> 1 50 \<noteq> None \<and>
   blob_thr \<lparr>cb_thr = 4, cb_num = 2, cb_regions = [\<lparr>rg_area = 20, rg_left = 0, rg_right = 8, rg_top = 0, rg_bottom = 8\<rparr>,
       \<lparr>rg_area = 9, rg_left = 0, rg_right = 4, rg_top = 0, rg_bottom = 4\<rparr>]\<rparr> 1 0 = None"
proof -
  let ?b = "\<lparr>cb_thr = 4, cb_num = 2, cb_regions = [\<lparr>rg_area = 20, rg_left = 0, rg_right = 8, rg_top = 0, rg_bottom = 8\<rparr>,
       \<lparr>rg_area = 9, rg_left = 0, rg_right = 4, rg_top = 0, rg_bottom = 4\<rparr>]\<rparr>"
  have "1 < cb_num ?b" by simp
  note t = blob_thr_terminates [OF this, of 50, THEN conjunct2]
  have "length (above (65535 - 50) (cb_regions ?b)) = 0" "length (above (cb_thr ?b mod 65536) (cb_regions ?b)) = 2"
    by (simp_all add: above_def)
  with t show ?thesis by (simp del: not_None_eq)
qed

section \<open>The rectangles\<close>

lemma rect_valid_iff: "rect_valid (region_rect sw sh dw dh r) \<longleftrightarrow>
    scale_even sw dw (rg_left r) \<noteq> scale_even sw dw (rg_right r) \<and> scale_even sh dh (rg_top r) \<noteq> scale_even sh dh (rg_bottom r)"
  by (auto simp: rect_valid_def region_rect_def upt_conv_Cons numeral_3_eq_3 numeral_2_eq_2 eval_nat_numeral)

lemma fill_rects_above:
  "length acc + length (above thr rs) \<le> IVE_RECT_NUM \<Longrightarrow> fill_rects f thr rs acc = Some (acc @ filter rect_valid (map f (above thr rs)))"
  by (induction rs arbitrary: acc) (auto simp: above_def split: if_splits)

lemma to_u32_bounds:
  assumes "in_range a b v" "0 \<le> a" "b \<le> 4294967295"
  shows "a \<le> to_u32 v \<and> to_u32 v \<le> b"
proof -
  obtain x where x: "v = Fin x" "of_int a \<le> x" "x \<le> of_int b" using assms(1) by (auto simp: in_range_def)
  from trunc_bounds [OF x(2,3)] assms(2,3) show ?thesis by (simp add: x(1))
qed

lemma scale_even_range:
  assumes "0 \<le> x" "x \<le> src" "0 < src" "src \<le> 16777216" "0 \<le> dst" "dst \<le> 16777216"
  shows "0 \<le> scale_even src dst x" "scale_even src dst x \<le> dst" "even (scale_even src dst x)"
proof -
  have f: "of_s32 F32 n = Fin (of_int n)" if "0 \<le> n" "n \<le> 16777216" for n unfolding of_s32_def using that by (intro rnd_of_int) simp
  have "in_range 0 1 (fdiv F32 (Fin (of_int x)) (Fin (of_int src)))"
    using assms by (auto intro!: rnd_in_range)
  then obtain y where y: "fdiv F32 (Fin (of_int x)) (Fin (of_int src)) = Fin y" "0 \<le> y" "y \<le> 1" by (auto simp: in_range_def)
  have d: "(0::rat) \<le> of_int dst" using assms(5) by simp
  have "y * of_int dst \<le> 1 * of_int dst" using y(3) d by (rule mult_right_mono)
  then have "in_range 0 dst (rnd F32 (y * of_int dst))" using y d assms(5,6) by (intro rnd_in_range) simp_all
  then have "in_range 0 dst (fmul F32 (fdiv F32 (of_s32 F32 x) (of_s32 F32 src)) (of_s32 F32 dst))"
    using f [of x] f [of src] f [of dst] y assms by simp
  from to_u32_bounds [OF this] assms(6) obtain t where t: "to_u32 (fmul F32 (fdiv F32 (of_s32 F32 x) (of_s32 F32 src)) (of_s32 F32 dst)) = t" "0 \<le> t" "t \<le> dst"
    by auto
  have "0 \<le> t - t mod 2" "t - t mod 2 \<le> t" using t(2) by presburger+
  then have "s32 (t - t mod 2) = t - t mod 2" using t assms(6) by (intro s32_id) (simp add: in_s32_def)
  then have e: "scale_even src dst x = t - t mod 2" unfolding scale_even_def t(1) Let_def .
  show "0 \<le> scale_even src dst x" "scale_even src dst x \<le> dst" "even (scale_even src dst x)"
    unfolding e using t \<open>0 \<le> t - t mod 2\<close> by (simp_all add: minus_mod_eq_mult_div)
qed

definition inside_source :: "int \<Rightarrow> int \<Rightarrow> ive_region \<Rightarrow> bool" where
  "inside_source sw sh r \<longleftrightarrow> 0 \<le> rg_left r \<and> rg_left r \<le> sw \<and> 0 \<le> rg_right r \<and> rg_right r \<le> sw \<and>
     0 \<le> rg_top r \<and> rg_top r \<le> sh \<and> 0 \<le> rg_bottom r \<and> rg_bottom r \<le> sh"

definition even_inside :: "int \<Rightarrow> int \<Rightarrow> (int \<times> int) list \<Rightarrow> bool" where
  "even_inside dw dh = list_all (\<lambda>(x, y). 0 \<le> x \<and> x \<le> dw \<and> even x \<and> 0 \<le> y \<and> y \<le> dh \<and> even y)"

text \<open>
  C23. When at most 64 rectangles are wanted, the number of regions is the number of those with an area, and raising the threshold
  returns, \<open>SAMPLE_COMM_IVE_BlobToRect\<close> stays in its array and gives, in order, the rectangles of the regions above the threshold that do
  not collapse when they are scaled, at most as many as wanted; every corner is even and inside of the destination.
  If few enough regions were found the threshold is 0; otherwise it is the first one reached that leaves few enough.
\<close>

theorem BlobToRect_correct:
  assumes "mx \<le> 64" "int (length (above 0 (cb_regions b))) = cb_num b" "list_all (inside_source sw sh) (cb_regions b)"
    and "0 < sw" "sw \<le> 16777216" "0 < sh" "sh \<le> 16777216" "0 \<le> dw" "dw \<le> 16777216" "0 \<le> dh" "dh \<le> 16777216"
    and "blob_thr b mx step = Some thr"
  shows "\<exists>rects. BlobToRect b mx step sw sh dw dh = Some rects \<and>
    rects = map (region_rect sw sh dw dh) (filter (\<lambda>r. scale_even sw dw (rg_left r) \<noteq> scale_even sw dw (rg_right r) \<and>
      scale_even sh dh (rg_top r) \<noteq> scale_even sh dh (rg_bottom r)) (above thr (cb_regions b))) \<and>
    int (length rects) \<le> mx \<and> list_all (even_inside dw dh) rects \<and>
    (if cb_num b \<le> mx then thr = 0
     else \<exists>n. thr = thr_at (cb_thr b) step (Suc n) \<and>
            (\<forall>j < n. mx < int (length (above (thr_at (cb_thr b) step (Suc j)) (cb_regions b)))))"
proof -
  have few: "int (length (above thr (cb_regions b))) \<le> mx \<and>
      (if cb_num b \<le> mx then thr = 0
       else \<exists>n. thr = thr_at (cb_thr b) step (Suc n) \<and>
              (\<forall>j < n. mx < int (length (above (thr_at (cb_thr b) step (Suc j)) (cb_regions b)))))"
    using assms(2,12) raise_thr_least [of mx step "cb_regions b" "cb_thr b" thr]
    by (auto simp: blob_thr_def too_many_def not_less simp del: of_nat_Suc split: if_splits)
  let ?rects = "filter rect_valid (map (region_rect sw sh dw dh) (above thr (cb_regions b)))"
  have len: "int (length ?rects) \<le> int (length (above thr (cb_regions b)))" by (simp add: filter_map)
  have "BlobToRect b mx step sw sh dw dh = Some ?rects"
    using few assms(1,12) fill_rects_above [of "[]" thr "cb_regions b" "region_rect sw sh dw dh"] by (simp add: BlobToRect_def IVE_RECT_NUM_def)
  moreover have "list_all (even_inside dw dh) ?rects"
  proof -
    have "even_inside dw dh (region_rect sw sh dw dh r)" if "inside_source sw sh r" for r
      using that assms(4-11) by (simp add: even_inside_def region_rect_def inside_source_def scale_even_range)
    then show ?thesis using assms(3) by (auto simp: list_all_iff above_def)
  qed
  moreover have "?rects = map (region_rect sw sh dw dh) (filter (\<lambda>r. scale_even sw dw (rg_left r) \<noteq> scale_even sw dw (rg_right r) \<and>
      scale_even sh dh (rg_top r) \<noteq> scale_even sh dh (rg_bottom r)) (above thr (cb_regions b)))"
    by (simp add: filter_map comp_def rect_valid_iff)
  ultimately show ?thesis using few len by (intro exI [of _ ?rects]) linarith
qed

theorem BlobToRect_correct_witness:
  "\<exists>rects. BlobToRect \<lparr>cb_thr = 4, cb_num = 2, cb_regions = [\<lparr>rg_area = 20, rg_left = 0, rg_right = 8, rg_top = 0, rg_bottom = 8\<rparr>,
       \<lparr>rg_area = 9, rg_left = 0, rg_right = 4, rg_top = 0, rg_bottom = 4\<rparr>]\<rparr> 1 5 352 288 1920 1080 = Some rects \<and>
     length rects \<le> 1 \<and> list_all (even_inside 1920 1080) rects"
proof -
  let ?b = "\<lparr>cb_thr = 4, cb_num = 2, cb_regions = [\<lparr>rg_area = 20, rg_left = 0, rg_right = 8, rg_top = 0, rg_bottom = 8\<rparr>,
       \<lparr>rg_area = 9, rg_left = 0, rg_right = 4, rg_top = 0, rg_bottom = 4\<rparr>]\<rparr>"
  have "blob_thr ?b 1 5 = Some 9"
    by (simp add: blob_thr_def above_def raise_thr.simps)
  then show ?thesis
    using BlobToRect_correct [of 1 ?b 352 288 1920 1080 5 9] by (auto simp: above_def inside_source_def)
qed

text \<open>The drawing job is that of \<open>Nnie_Model\<close>, with one class.\<close>

lemma VGS_FillRect_one_class: "VGS_FillRect vgs rects tr = FillRect vgs (int (length rects)) [rects] tr"
  by (simp add: VGS_FillRect_def FillRect_def Let_def split: prod.split)

text \<open>A copy waits only if it was started and asked to.\<close>

lemma DmaImage_None:
  "DmaImage dma query fr dst instant = None \<longleftrightarrow>
     instant \<and> dma (fr_phy fr ! 0, fr_width fr, fr_height fr, fr_stride fr ! 0)
        (im_phy dst ! 0, im_width dst, im_height dst, im_stride dst ! 0) instant = 0 \<and> (\<forall>k. query k = HI_ERR_IVE_QUERY_TIMEOUT)"
  using wait_query_None [of HI_ERR_IVE_QUERY_TIMEOUT query] by (simp add: DmaImage_def Let_def)

lemma CheckIveMpiInit_once:
  assumes "CheckIveMpiInit mpi (False, tr) = Some s"
  shows "s = (True, tr @ [Ive_sys_exit, Ive_sys_init]) \<and> CheckIveMpiInit mpi s = Some s \<and>
    fst (snd (IveMpiExit mpi s)) = False"
  using assms by (auto simp: CheckIveMpiInit_def IVE_MPI_Init_def IveMpiExit_def Let_def split: if_splits)

end
