(* ===== verification/Vi_Raw.thy ===== *)
theory Vi_Raw
  imports Ive_Common Media_Types
begin

text \<open>
  Sensor frames and files (common/sdk2v0/sample_comm_vi.c): unpacking the pixels of 10, 12 and 14 bits
  (\<open>SAMPLE_COMM_VI_ConvertBitPixel\<close>), saving and dumping raw frames (\<open>_SaveUncompressRaw\<close>, \<open>_SaveCompressedRaw\<close>, \<open>_SaveRaw\<close>,
  \<open>_DumpRaw\<close>), and loading a planar picture into a frame (\<open>SAMPLE_VI_GetFrameBlkInfo\<close>, \<open>SAMPLE_VI_ReadOneFrame\<close>, \<open>SAMPLE_VI_PlanToSemi\<close>,
  \<open>SAMPLE_COMM_VI_Load_UserPic\<close>), and the release of frames.

  Memory is a function from addresses to bytes; \<open>fwrite\<close> succeeds, as the code does not look at its result.
\<close>

section \<open>Pixel formats\<close>

definition BitWidth2PixelFormat :: "int \<Rightarrow> pixel_format \<Rightarrow> int \<times> pixel_format" where
  "BitWidth2PixelFormat n f =
     (if n = 8 then (0, RGB_BAYER_8BPP) else if n = 10 then (0, RGB_BAYER_10BPP) else if n = 12 then (0, RGB_BAYER_12BPP)
      else if n = 14 then (0, RGB_BAYER_14BPP) else if n = 16 then (0, RGB_BAYER_16BPP) else (-1, f))"

definition PixelFormat2BitWidth :: "pixel_format \<Rightarrow> int" where
  "PixelFormat2BitWidth f =
     (case f of RGB_BAYER_8BPP \<Rightarrow> 8 | RGB_BAYER_10BPP \<Rightarrow> 10 | RGB_BAYER_12BPP \<Rightarrow> 12 | RGB_BAYER_14BPP \<Rightarrow> 14
      | RGB_BAYER_16BPP \<Rightarrow> 16 | _ \<Rightarrow> 0)"

section \<open>Unpacking pixels\<close>

text \<open>A number from its digits, least significant first, and the digits of a number.\<close>

fun undigits :: "int \<Rightarrow> int list \<Rightarrow> int" where
  "undigits B [] = 0"
| "undigits B (x # xs) = x + B * undigits B xs"

definition digits :: "int \<Rightarrow> nat \<Rightarrow> int \<Rightarrow> int list" where
  "digits B n v = map (\<lambda>i. v div B ^ i mod B) [0..<n]"

text \<open>A group: \<open>cnt\<close> pixels of \<open>pw\<close> bits in \<open>nb\<close> bytes.\<close>

definition group_pixels :: "nat \<Rightarrow> nat \<Rightarrow> nat \<Rightarrow> (int \<Rightarrow> int) \<Rightarrow> int \<Rightarrow> int list" where
  "group_pixels pw cnt nb mem a = digits (2 ^ pw) cnt (undigits 256 (mem_bytes mem a nb))"

definition groups :: "nat \<Rightarrow> nat \<Rightarrow> nat \<Rightarrow> (int \<Rightarrow> int) \<Rightarrow> int \<Rightarrow> nat \<Rightarrow> int list" where
  "groups pw cnt nb mem a k = concat (map (\<lambda>i. group_pixels pw cnt nb mem (a + int nb * int i)) [0..<k])"

definition ConvertBitPixel :: "(int \<Rightarrow> int) \<Rightarrow> int \<Rightarrow> nat \<Rightarrow> int \<Rightarrow> int \<times> int list" where
  "ConvertBitPixel mem a n w =
     (let done = (\<lambda>ps. (int (length ps), ps))
      in if w = 10 then done (groups 10 4 5 mem a (n div 4))
         else if w = 12 then done (groups 12 2 3 mem a (n div 2))
         else if w = 14 then done (groups 14 4 7 mem a (n div 4))
         else (-1, []))"

section \<open>Saving raw frames\<close>

record raw_frame =
  rf_fmt :: pixel_format
  rf_phy :: int
  rf_stride :: int
  rf_width :: nat
  rf_height :: nat
  rf_compressed :: bool

definition u16_bytes :: "int \<Rightarrow> int list" where
  "u16_bytes x = [x mod 256, x div 256 mod 256]"

text \<open>
  The lines of a frame from an address on. For packed pixels a buffer of one line is filled and written; what is not
  filled stays in it.
\<close>

fun raw_rows :: "(int \<Rightarrow> int) \<Rightarrow> nat \<Rightarrow> int \<Rightarrow> int \<Rightarrow> nat \<Rightarrow> int \<Rightarrow> int list \<Rightarrow> int list" where
  "raw_rows mem w nbit stride 0 a buf = []"
| "raw_rows mem w nbit stride (Suc h) a buf =
     (if nbit = 8 then mem_bytes mem a w @ raw_rows mem w nbit stride h (u32 (a + stride)) buf
      else if nbit = 16 then mem_bytes mem a (2 * w) @ raw_rows mem w nbit stride h (u32 (a + stride)) buf
      else let ps = snd (ConvertBitPixel mem a w nbit); buf' = ps @ drop (length ps) buf
           in concat (map u16_bytes buf') @ raw_rows mem w nbit stride h (u32 (a + stride)) buf')"

text \<open>
  What the services return: the address the frame is mapped to, whether there is memory for the line and what is in it.
  The result: the code, the bytes written, the mappings left.
\<close>

record save_env =
  sv_map :: "int option"
  sv_malloc :: bool
  sv_junk :: "int list"

definition SaveUncompressRaw :: "(int \<Rightarrow> int) \<Rightarrow> save_env \<Rightarrow> raw_frame \<Rightarrow> int \<Rightarrow> int \<times> int list \<times> int" where
  "SaveUncompressRaw mem e fr nbit =
     (if snd (BitWidth2PixelFormat nbit PIXEL_FORMAT_BUTT) \<noteq> rf_fmt fr then (-1, [], 0)
      else case sv_map e of
        None \<Rightarrow> (-1, [], 0)
      | Some a \<Rightarrow>
          let maps = 0 + 1
          in if nbit \<noteq> 8 \<and> nbit \<noteq> 16 \<and> \<not> sv_malloc e then (-1, [], maps - 1)
             else (0, raw_rows mem (rf_width fr) nbit (rf_stride fr) (rf_height fr) a (sv_junk e), maps - 1))"

fun compressed_rows :: "(int \<Rightarrow> int) \<Rightarrow> int \<Rightarrow> nat \<Rightarrow> int \<Rightarrow> int list" where
  "compressed_rows mem stride 0 a = []"
| "compressed_rows mem stride (Suc h) a =
     mem_bytes mem a (nat ((undigits 256 (mem_bytes mem a 2) + 1) * 16)) @ compressed_rows mem stride h (u32 (a + stride))"

definition SaveCompressedRaw :: "(int \<Rightarrow> int) \<Rightarrow> save_env \<Rightarrow> raw_frame \<Rightarrow> int \<Rightarrow> int \<times> int list \<times> int" where
  "SaveCompressedRaw mem e fr nbit =
     (if snd (BitWidth2PixelFormat nbit PIXEL_FORMAT_BUTT) \<noteq> rf_fmt fr then (-1, [], 0)
      else case sv_map e of
        None \<Rightarrow> (-1, [], 0)
      | Some a \<Rightarrow> let maps = 0 + 1 in (0, compressed_rows mem (rf_stride fr) (rf_height fr) a, maps - 1))"

definition SaveRaw :: "(int \<Rightarrow> int) \<Rightarrow> save_env \<Rightarrow> raw_frame \<Rightarrow> int \<Rightarrow> int \<times> int list \<times> int" where
  "SaveRaw mem e fr nbit = (if rf_compressed fr then SaveCompressedRaw mem e fr nbit else SaveUncompressRaw mem e fr nbit)"

text \<open>
  The dump thread. The \<open>k\<close>-th frame, the memory at that time, what getting and releasing return, and whether the stop signal
  was given before it: parameters. The result: the bytes of the file, the files left open, the frames not given back.
\<close>

record dump_env =
  de_get :: "nat \<Rightarrow> int \<times> raw_frame"
  de_rel :: "nat \<Rightarrow> int"
  de_mem :: "nat \<Rightarrow> int \<Rightarrow> int"
  de_save :: "nat \<Rightarrow> save_env"
  de_stop :: "nat \<Rightarrow> bool"
  de_open :: bool
  de_cmp :: "int list option"

fun dump_loop :: "dump_env \<Rightarrow> int \<Rightarrow> nat \<Rightarrow> nat \<Rightarrow> int list \<Rightarrow> int list \<times> int" where
  "dump_loop e nbit 0 k out = (out, 0)"
| "dump_loop e nbit (Suc cnt) k out =
     (if de_stop e k then (out, 0)
      else let (ret, fr) = de_get e k
      in if ret \<noteq> 0 then (out, 0)
      else let (ret, bytes, maps) = SaveRaw (de_mem e k) (de_save e k) fr nbit
      in if ret \<noteq> 0 then (out @ bytes, 1)
      else if de_rel e k \<noteq> 0 then (out @ bytes, 1)
      else dump_loop e nbit cnt (Suc k) (out @ bytes))"

definition DumpRaw :: "dump_env \<Rightarrow> int \<Rightarrow> int list \<times> int \<times> int" where
  "DumpRaw e cnt =
     (if cnt < 1 then ([], 0, 0)
      else let (ret, fr) = de_get e 0
      in if ret \<noteq> 0 then ([], 0, 0)
      else if de_rel e 0 \<noteq> 0 then ([], 0, 1)
      else let nbit = PixelFormat2BitWidth (rf_fmt fr)
      in if \<not> de_open e then ([], 0, 0)
      else let files = 0 + 1
      in if rf_compressed fr \<and> de_cmp e = None then ([], files - 1, 0)
      else let out = (if rf_compressed fr then the (de_cmp e) else []);
               (out', held) = dump_loop e nbit (nat cnt) 1 out
      in (out', files - 1, held))"

section \<open>Packing is undone\<close>

lemma digits_Suc: "0 < B \<Longrightarrow> digits B (Suc n) v = v mod B # digits B n (v div B)"
  unfolding digits_def upt_conv_Cons [OF zero_less_Suc] map_Suc_upt [symmetric]
  by (simp add: comp_def zdiv_zmult2_eq del: upt_Suc)

lemma digits_undigits:
  assumes "0 < B" "list_all (\<lambda>x. 0 \<le> x \<and> x < B) xs"
  shows "digits B (length xs) (undigits B xs) = xs"
  using assms(2)
proof (induction xs)
  case (Cons x xs)
  then have "(x + B * undigits B xs) mod B = x" "(x + B * undigits B xs) div B = undigits B xs"
    using assms(1) by simp_all
  then show ?case using Cons by (simp add: digits_Suc [OF assms(1)])
qed (simp add: digits_def)

lemma undigits_digits: "0 < B \<Longrightarrow> undigits B (digits B n v) = v mod B ^ n"
proof (induction n arbitrary: v)
  case (Suc n)
  then show ?case by (simp add: digits_Suc zmod_zmult2_eq)
qed (simp add: digits_def)

lemma undigits_range:
  assumes "0 < B" "list_all (\<lambda>x. 0 \<le> x \<and> x < B) xs"
  shows "0 \<le> undigits B xs" "undigits B xs < B ^ length xs"
proof -
  have "0 \<le> undigits B xs \<and> undigits B xs < B ^ length xs"
    using assms(2)
  proof (induction xs)
    case (Cons x xs)
    then have u: "0 \<le> undigits B xs" "undigits B xs + 1 \<le> B ^ length xs" "0 \<le> x" "x < B" by simp_all
    have "x + B * undigits B xs < B * (undigits B xs + 1)" using u by (simp add: algebra_simps)
    also have "\<dots> \<le> B * B ^ length xs" using u(2) assms(1) by (intro mult_left_mono) simp_all
    finally show ?case using u assms(1) by simp
  qed simp
  then show "0 \<le> undigits B xs" "undigits B xs < B ^ length xs" by simp_all
qed

lemma length_digits [simp]: "length (digits B n v) = n"
  by (simp add: digits_def)

lemma digits_range: "0 < B \<Longrightarrow> list_all (\<lambda>x. 0 \<le> x \<and> x < B) (digits B n v)"
  by (simp add: digits_def list_all_iff)

text \<open>
  The packing of the sensor: the pixels of a group are the digits of a number whose bytes are stored,
  least significant first. A line is packed group by group.
\<close>

definition pack_group :: "nat \<Rightarrow> nat \<Rightarrow> int list \<Rightarrow> int list" where
  "pack_group pw nb ps = digits 256 nb (undigits (2 ^ pw) ps)"

definition pack :: "nat \<Rightarrow> nat \<Rightarrow> int list list \<Rightarrow> int list" where
  "pack pw nb gs = concat (map (pack_group pw nb) gs)"

text \<open>The bits fit the bytes exactly: 4 times 10 in 5, 2 times 12 in 3, 4 times 14 in 7.\<close>

definition packing :: "int \<Rightarrow> nat \<times> nat \<times> nat" where
  "packing w = (if w = 10 then (10, 4, 5) else if w = 12 then (12, 2, 3) else (14, 4, 7))"

definition pixel_group :: "nat \<Rightarrow> nat \<Rightarrow> int list \<Rightarrow> bool" where
  "pixel_group pw cnt ps \<longleftrightarrow> length ps = cnt \<and> list_all (\<lambda>p. 0 \<le> p \<and> p < 2 ^ pw) ps"

lemma unpack_pack:
  assumes "pixel_group pw cnt ps" "(2 ^ pw) ^ cnt = (256 :: int) ^ nb"
  shows "digits (2 ^ pw) cnt (undigits 256 (pack_group pw nb ps)) = ps"
proof -
  have p: "length ps = cnt" "list_all (\<lambda>p. 0 \<le> p \<and> p < 2 ^ pw) ps" using assms(1) by (simp_all add: pixel_group_def)
  have "undigits 256 (pack_group pw nb ps) = undigits (2 ^ pw) ps mod 256 ^ nb" unfolding pack_group_def by (rule undigits_digits) simp
  also have "\<dots> = undigits (2 ^ pw) ps"
    using undigits_range [of "2 ^ pw" ps] p assms(2) by (intro mod_pos_pos_trivial) simp_all
  finally show ?thesis using digits_undigits [of "2 ^ pw" ps] p by simp
qed

lemma mem_bytes_append: "mem_bytes mem a (m + n) = mem_bytes mem a m @ mem_bytes mem (a + int m) n"
proof -
  have u: "[0..<m + n] = [0..<m] @ map (\<lambda>j. j + m) [0..<n]"
    unfolding map_add_upt using upt_add_eq_append [of 0 m n] by (simp only: le0 add.commute)
  show ?thesis unfolding mem_bytes_def u map_append map_map comp_def by (simp add: ac_simps)
qed

lemma groups_Suc: "groups pw cnt nb mem a (Suc k) = group_pixels pw cnt nb mem a @ groups pw cnt nb mem (a + int nb) k"
proof -
  have e: "a + int nb * int (Suc i) = (a + int nb) + int nb * int i" for i by (simp add: algebra_simps)
  show ?thesis
    unfolding groups_def upt_conv_Cons [OF zero_less_Suc] map_Suc_upt [symmetric]
    by (simp add: comp_def e del: upt_Suc of_nat_Suc)
qed

lemma groups_packed:
  assumes "mem_bytes mem a (nb * length gs) = pack pw nb gs" "list_all (pixel_group pw cnt) gs" "(2 ^ pw) ^ cnt = (256 :: int) ^ nb"
  shows "groups pw cnt nb mem a (length gs) = concat gs"
  using assms(1,2)
proof (induction gs arbitrary: a)
  case (Cons g gs)
  have len: "length (pack_group pw nb g) = nb" by (simp add: pack_group_def)
  have "mem_bytes mem a nb @ mem_bytes mem (a + int nb) (nb * length gs) = pack_group pw nb g @ pack pw nb gs"
    using Cons.prems(1) by (simp add: pack_def mem_bytes_append [symmetric])
  then have m: "mem_bytes mem a nb = pack_group pw nb g" "mem_bytes mem (a + int nb) (nb * length gs) = pack pw nb gs"
    using len by simp_all
  have "groups pw cnt nb mem a (length (g # gs)) = group_pixels pw cnt nb mem a @ groups pw cnt nb mem (a + int nb) (length gs)"
    by (simp add: groups_Suc)
  then show ?case
    using Cons.IH [OF m(2)] Cons.prems(2) unpack_pack [of pw cnt g nb] assms(3) m(1) by (simp add: group_pixels_def)
qed (simp add: groups_def)

lemma packing_exact: "w \<in> {10, 12, 14} \<Longrightarrow> packing w = (pw, cnt, nb) \<Longrightarrow> (2 ^ pw) ^ cnt = (256 :: int) ^ nb \<and> 0 < cnt"
  by (auto simp: packing_def split: if_splits)

lemma ConvertBitPixel_groups:
  assumes "w \<in> {10, 12, 14}" "packing w = (pw, cnt, nb)"
  shows "ConvertBitPixel mem a n w = (int (length (groups pw cnt nb mem a (n div cnt))), groups pw cnt nb mem a (n div cnt))"
  using assms by (auto simp: packing_def ConvertBitPixel_def Let_def)

lemma pack_unpack:
  assumes "(2 ^ pw) ^ cnt = (256 :: int) ^ nb" "list_all (\<lambda>b. 0 \<le> b \<and> b < 256) bs" "length bs = nb"
  shows "pack_group pw nb (digits (2 ^ pw) cnt (undigits 256 bs)) = bs"
proof -
  have "undigits (2 ^ pw) (digits (2 ^ pw) cnt (undigits 256 bs)) = undigits 256 bs mod (2 ^ pw) ^ cnt"
    by (rule undigits_digits) simp
  also have "\<dots> = undigits 256 bs" unfolding assms(1) using undigits_range [of 256 bs] assms(2,3) by simp
  finally show ?thesis using digits_undigits [of 256 bs] assms(2,3) by (simp add: pack_group_def)
qed

text \<open>
  C25. \<open>SAMPLE_COMM_VI_ConvertBitPixel\<close> undoes the packing of the sensor for 10, 12 and 14 bits, and the packing undoes it:
  of a line of packed pixels it gives exactly the pixels of the complete groups, returns their number, and packing
  them again gives the bytes of the line.
\<close>

theorem ConvertBitPixel_roundtrip:
  assumes "w \<in> {10, 12, 14}" "packing w = (pw, cnt, nb)" "r < cnt"
  shows "(list_all (pixel_group pw cnt) gs \<and> mem_bytes mem a (nb * length gs) = pack pw nb gs \<longrightarrow>
      ConvertBitPixel mem a (cnt * length gs + r) w = (int (cnt * length gs), concat gs)) \<and>
    (list_all (\<lambda>b. 0 \<le> b \<and> b < 256) (mem_bytes mem a (nb * k)) \<longrightarrow>
      (\<exists>gs. ConvertBitPixel mem a (cnt * k + r) w = (int (cnt * k), concat gs) \<and> list_all (pixel_group pw cnt) gs \<and>
        length gs = k \<and> pack pw nb gs = mem_bytes mem a (nb * k)))"
proof (intro conjI)
  note ex = packing_exact [OF assms(1,2)]
  have d: "(cnt * m + r) div cnt = m" for m using assms(3) by simp
  have len: "length (concat gs) = cnt * length gs" if "list_all (pixel_group pw cnt) gs" for gs
    using that by (intro length_concat_uniform) (auto simp: list_all_iff pixel_group_def)
  show "list_all (pixel_group pw cnt) gs \<and> mem_bytes mem a (nb * length gs) = pack pw nb gs \<longrightarrow>
      ConvertBitPixel mem a (cnt * length gs + r) w = (int (cnt * length gs), concat gs)"
    using groups_packed [of mem a nb gs pw cnt] ex len unfolding ConvertBitPixel_groups [OF assms(1,2)] d by auto
  have "\<exists>gs. groups pw cnt nb mem a k = concat gs \<and> list_all (pixel_group pw cnt) gs \<and> length gs = k \<and> pack pw nb gs = mem_bytes mem a (nb * k)"
    if "list_all (\<lambda>b. 0 \<le> b \<and> b < 256) (mem_bytes mem a (nb * k))"
    using that
  proof (induction k arbitrary: a)
    case 0
    then show ?case by (intro exI [of _ "[]"]) (simp add: groups_def pack_def mem_bytes_def)
  next
    case (Suc k)
    have m: "mem_bytes mem a (nb * Suc k) = mem_bytes mem a nb @ mem_bytes mem (a + int nb) (nb * k)"
      unfolding mult_Suc_right by (rule mem_bytes_append)
    obtain gs where gs: "groups pw cnt nb mem (a + int nb) k = concat gs" "list_all (pixel_group pw cnt) gs" "length gs = k"
      "pack pw nb gs = mem_bytes mem (a + int nb) (nb * k)"
      using Suc.IH [of "a + int nb"] Suc.prems unfolding m by auto
    let ?g = "group_pixels pw cnt nb mem a"
    have "pixel_group pw cnt ?g" using digits_range [of "2 ^ pw"] by (simp add: pixel_group_def group_pixels_def)
    moreover have "pack_group pw nb ?g = mem_bytes mem a nb"
      unfolding group_pixels_def using Suc.prems ex unfolding m by (intro pack_unpack) simp_all
    ultimately show ?case using gs by (intro exI [of _ "?g # gs"]) (simp add: groups_Suc m [unfolded mult_Suc_right] pack_def)
  qed
  then show "list_all (\<lambda>b. 0 \<le> b \<and> b < 256) (mem_bytes mem a (nb * k)) \<longrightarrow>
      (\<exists>gs. ConvertBitPixel mem a (cnt * k + r) w = (int (cnt * k), concat gs) \<and> list_all (pixel_group pw cnt) gs \<and>
        length gs = k \<and> pack pw nb gs = mem_bytes mem a (nb * k))"
    using len unfolding ConvertBitPixel_groups [OF assms(1,2)] d by metis
qed

theorem ConvertBitPixel_roundtrip_witness:
  "ConvertBitPixel (\<lambda>a. [1, 8, 48, 0, 1] ! nat a) 0 5 10 = (4, [1, 2, 3, 4]) \<and> pack 10 5 [[1, 2, 3, 4]] = [1, 8, 48, 0, 1]"
proof -
  let ?mem = "\<lambda>a. [1, 8, 48, 0, 1 :: int] ! nat a"
  have p: "pack 10 5 [[1, 2, 3, 4]] = [1, 8, 48, 0, 1]" by code_simp
  have m: "mem_bytes ?mem 0 (5 * length [[1, 2, 3, 4 :: int]]) = [1, 8, 48, 0, 1]" by code_simp
  have g: "list_all (pixel_group 10 4) [[1, 2, 3, 4]]" by (simp add: pixel_group_def)
  have "ConvertBitPixel ?mem 0 (4 * length [[1, 2, 3, 4 :: int]] + 1) 10 = (int (4 * length [[1, 2, 3, 4 :: int]]), concat [[1, 2, 3, 4]])"
    using ConvertBitPixel_roundtrip [of 10 10 4 5 1 "[[1, 2, 3, 4]]" ?mem 0 1] g p m by (simp add: packing_def)
  then show ?thesis using p by (simp add: numeral_eq_Suc)
qed

section \<open>A saved frame\<close>

text \<open>The bytes of a pixel in the file, and of a line of pixels.\<close>

definition file_line :: "int list list \<Rightarrow> int list" where
  "file_line gs = concat (map u16_bytes (concat gs))"

lemma raw_rows_packed:
  assumes "w \<in> {10, 12, 14}" "packing w = (pw, cnt, nb)" "length buf = cnt * k"
    and "list_all (\<lambda>gs. length gs = k \<and> list_all (pixel_group pw cnt) gs) lines"
    and "\<And>y. y < length lines \<Longrightarrow> mem_bytes mem (a + int y * stride) (nb * k) = pack pw nb (lines ! y)"
  shows "raw_rows mem (cnt * k) w stride (length lines) a buf = concat (map file_line lines)"
  using assms(3-5)
proof (induction lines arbitrary: a buf)
  case (Cons gs lines)
  note ex = packing_exact [OF assms(1,2)]
  have g: "length gs = k" "list_all (pixel_group pw cnt) gs" using Cons.prems(2) by simp_all
  have m: "mem_bytes mem a (nb * length gs) = pack pw nb gs" using Cons.prems(3) [of 0] g(1) by simp
  have len: "length (concat gs) = cnt * k"
    using g by (subst length_concat_uniform [of gs cnt]) (auto simp: list_all_iff pixel_group_def)
  have "snd (ConvertBitPixel mem a (cnt * k) w) = concat gs"
    using groups_packed [OF m g(2)] ex g(1) unfolding ConvertBitPixel_groups [OF assms(1,2)] by simp
  moreover have "raw_rows mem (cnt * k) w stride (length lines) (u32 (a + stride)) (concat gs) = concat (map file_line lines)"
  proof (rule Cons.IH)
    show "length (concat gs) = cnt * k" by (rule len)
    show "list_all (\<lambda>gs. length gs = k \<and> list_all (pixel_group pw cnt) gs) lines" using Cons.prems(2) by simp
    fix y assume y: "y < length lines"
    have "a + int (Suc y) * stride = a + stride + int y * stride" by (simp add: algebra_simps)
    then have "mem_bytes mem (u32 (a + stride) + int y * stride) (nb * k) = mem_bytes mem (a + int (Suc y) * stride) (nb * k)"
      by (metis mem_bytes_u32 u32_add(1))
    then show "mem_bytes mem (u32 (a + stride) + int y * stride) (nb * k) = pack pw nb (lines ! y)"
      using Cons.prems(3) [of "Suc y"] y by simp
  qed
  moreover have "w \<noteq> 8" "w \<noteq> 16" using assms(1) by auto
  ultimately show ?case using Cons.prems(1) len by (simp add: file_line_def [of gs] Let_def)
qed simp

text \<open>
  C26. A packed raw frame of complete groups is saved as its pixels, line by line, two bytes each, whatever was
  in the line buffer before; on every path, errors included, the frame is unmapped again.
\<close>

theorem SaveUncompressRaw_pixels:
  assumes "w \<in> {10, 12, 14}" "packing w = (pw, cnt, nb)" "rf_width fr = cnt * k" "rf_height fr = length lines" "length (sv_junk e) = rf_width fr"
    and "list_all (\<lambda>gs. length gs = k \<and> list_all (pixel_group pw cnt) gs) lines"
    and "sv_map e = None \<or> sv_map e = Some a" "list_all (\<lambda>y. mem_bytes mem (a + int y * rf_stride fr) (nb * k) = pack pw nb (lines ! y)) [0..<length lines]"
  shows "SaveUncompressRaw mem e fr w =
    (if PixelFormat2BitWidth (rf_fmt fr) = w \<and> sv_map e \<noteq> None \<and> sv_malloc e then (0, concat (map file_line lines), 0) else (-1, [], 0))"
proof -
  have f: "snd (BitWidth2PixelFormat w PIXEL_FORMAT_BUTT) = rf_fmt fr \<longleftrightarrow> PixelFormat2BitWidth (rf_fmt fr) = w"
    using assms(1) by (cases "rf_fmt fr") (auto simp: BitWidth2PixelFormat_def PixelFormat2BitWidth_def)
  have "raw_rows mem (cnt * k) w (rf_stride fr) (length lines) a (sv_junk e) = concat (map file_line lines)"
    using raw_rows_packed [OF assms(1,2), of "sv_junk e" k lines mem a "rf_stride fr"] assms(3,5,6,8) by (simp add: list_all_iff)
  then show ?thesis using assms(1,3,4,7) f by (auto simp: SaveUncompressRaw_def)
qed

theorem SaveUncompressRaw_pixels_witness:
  "SaveUncompressRaw (\<lambda>a. [1, 8, 48, 0, 1] ! nat (a mod 16)) \<lparr>sv_map = Some 0, sv_malloc = True, sv_junk = [9, 9, 9, 9]\<rparr>
      \<lparr>rf_fmt = RGB_BAYER_10BPP, rf_phy = 4096, rf_stride = 16, rf_width = 4, rf_height = 2, rf_compressed = False\<rparr> 10 =
    (0, [1, 0, 2, 0, 3, 0, 4, 0, 1, 0, 2, 0, 3, 0, 4, 0], 0)"
proof -
  let ?mem = "\<lambda>a. [1, 8, 48, 0, 1 :: int] ! nat (a mod 16)"
  let ?e = "\<lparr>sv_map = Some 0, sv_malloc = True, sv_junk = [9, 9, 9, 9]\<rparr>"
  let ?fr = "\<lparr>rf_fmt = RGB_BAYER_10BPP, rf_phy = 4096, rf_stride = 16, rf_width = 4, rf_height = 2, rf_compressed = False\<rparr>"
  have p: "pack 10 5 [[1, 2, 3, 4]] = [1, 8, 48, 0, 1]" by code_simp
  have m: "mem_bytes ?mem 0 5 = [1, 8, 48, 0, 1]" "mem_bytes ?mem 16 5 = [1, 8, 48, 0, 1]" by code_simp+
  have l: "file_line [[1, 2, 3, 4]] = [1, 0, 2, 0, 3, 0, 4, 0]" by code_simp
  have g: "pixel_group 10 4 [1, 2, 3, 4]" by (simp add: pixel_group_def)
  have w: "(10 :: int) \<in> {10, 12, 14}" "packing 10 = (10, 4, 5)" by (simp_all add: packing_def)
  show ?thesis
    using SaveUncompressRaw_pixels [OF w, of ?fr 1 "[[[1, 2, 3, 4]], [[1, 2, 3, 4]]]" ?e 0 ?mem] p m l g
    by (simp add: PixelFormat2BitWidth_def upt_conv_Cons)
qed

text \<open>
  Of a line whose width is not a multiple of the group, the last pixels are never converted: the file gets what was
  in the buffer.
\<close>

lemma raw_rows_stale:
  assumes "length buf = 6"
  shows "drop 8 (raw_rows mem 6 10 stride 1 a buf) = concat (map u16_bytes (drop 4 buf))"
proof -
  have l: "length (groups 10 4 5 mem a 1) = 4" by (simp add: groups_def group_pixels_def)
  have c: "snd (ConvertBitPixel mem a 6 10) = groups 10 4 5 mem a 1" by (simp add: ConvertBitPixel_def Let_def)
  have u: "length (concat (map u16_bytes xs)) = 2 * length xs" for xs by (induction xs) (simp_all add: u16_bytes_def)
  have "raw_rows mem 6 10 stride 1 a buf = concat (map u16_bytes (groups 10 4 5 mem a 1)) @ concat (map u16_bytes (drop 4 buf))"
    using l c by (simp add: Let_def)
  then show ?thesis using l u [of "groups 10 4 5 mem a 1"] by simp
qed

section \<open>The dump\<close>

lemma SaveRaw_unmaps: "SaveRaw mem e fr nbit = (ret, bytes, maps) \<Longrightarrow> maps = 0 \<and> (ret \<noteq> 0 \<longrightarrow> bytes = [])"
  by (auto simp: SaveRaw_def SaveUncompressRaw_def SaveCompressedRaw_def Let_def split: if_splits option.splits)

text \<open>
  The file is closed on every path. At most one frame is not given back: the one that could not be saved, or whose release failed.
\<close>

lemma dump_loop_held:
  "dump_loop e nbit cnt k out = (out', held) \<Longrightarrow> held = 0 \<or>
     held = 1 \<and> (\<exists>j. k \<le> j \<and> j < k + cnt \<and> (de_rel e j \<noteq> 0 \<or> fst (SaveRaw (de_mem e j) (de_save e j) (snd (de_get e j)) nbit) \<noteq> 0))"
proof (induction cnt arbitrary: k out)
  case (Suc cnt)
  obtain ret fr where g: "de_get e k = (ret, fr)" by fastforce
  obtain r bytes maps where s: "SaveRaw (de_mem e k) (de_save e k) fr nbit = (r, bytes, maps)" by (metis prod_cases3)
  show ?case
  proof (cases "de_stop e k \<or> ret \<noteq> 0 \<or> r \<noteq> 0 \<or> de_rel e k \<noteq> 0")
    case True
    then show ?thesis using Suc.prems by (auto simp: g s intro!: exI [of _ k] split: if_splits)
  next
    case False
    then have "dump_loop e nbit cnt (Suc k) (out @ bytes) = (out', held)" using Suc.prems by (simp add: g s)
    from Suc.IH [OF this] show ?thesis by (auto intro: Suc_leD)
  qed
qed simp

lemma DumpRaw_closes: "DumpRaw e cnt = (out, files, held) \<Longrightarrow> files = 0 \<and> (held = 0 \<or> held = 1)"
  using dump_loop_held by (fastforce simp: DumpRaw_def Let_def split: prod.splits if_splits)

end
