(* ===== verification/Vi_Frame.thy ===== *)
theory Vi_Frame
  imports Vi_Raw
begin

text \<open>
  Frames for pictures of the user (common/sdk2v0/sample_comm_vi.c): taking blocks of video memory
  (\<open>SAMPLE_VI_GetFrameBlkInfo\<close>, \<open>SAMPLE_VI_GetRawStride\<close>), giving them back (\<open>SAMPLE_VI_COMM_ReleaseFrameBlkInfo\<close>), reading a planar
  file and making it semi-planar (\<open>SAMPLE_VI_ReadOneFrame\<close>, \<open>SAMPLE_VI_PlanToSemi\<close>, \<open>SAMPLE_COMM_VI_Load_UserPic\<close>).

  What the video buffer library returns is a parameter. Calls that take or give back something are events.
\<close>

section \<open>Blocks\<close>

definition ALIGN_UP :: "int \<Rightarrow> int \<Rightarrow> int" where
  "ALIGN_UP x a = u32 (u32 (x + (a - 1)) div a * a)"

definition line_stride :: "int \<Rightarrow> int \<Rightarrow> int" where
  "line_stride w pw = u32 (u32 (w * pw + 127) div 128 * 128) div 8"

definition GetRawStride :: "pixel_format \<Rightarrow> int \<Rightarrow> int \<Rightarrow> int" where
  "GetRawStride f w align =
     (if f = RGB_BAYER_16BPP then ALIGN_UP (u32 (w * 2)) 16
      else if f = RGB_BAYER_12BPP then
        (if align = 1 then line_stride w 12
         else if u32 (w * 12) mod 8 = 0 then u32 (w * 12) div 8 else u32 (w * 12) div 8 + 8)
      else if f = RGB_BAYER_10BPP then
        (if align = 1 then line_stride w 10
         else if u32 (w * 10) mod 8 = 0 then u32 (w * 10) div 8 else u32 (w * 10) div 8 + 8)
      else if f = RGB_BAYER_8BPP then line_stride w 8
      else 0)"

record frame_cfg =
  fc_width :: int
  fc_height :: int
  fc_align :: int
  fc_fmt :: pixel_format

text \<open>The stride, the size of the block, of the luminance and of one chrominance.\<close>

definition frame_layout :: "frame_cfg \<Rightarrow> int \<times> int \<times> int \<times> int" where
  "frame_layout c =
     (let w = fc_width c; h = fc_height c; st = ALIGN_UP (u32 (w * 8 + 7) div 8) 32
      in case fc_fmt c of
        YVU_SEMIPLANAR_422 \<Rightarrow> (st, u32 (st * h * 2), u32 (st * h), u32 (st * h) div 2)
      | YVU_SEMIPLANAR_420 \<Rightarrow> (st, u32 (st * h * 3) div 2, u32 (st * h), u32 (st * h) div 4)
      | YUV_400 \<Rightarrow> (st, u32 (st * h), u32 (st * h), 0)
      | f \<Rightarrow> (let rs = GetRawStride f w (fc_align c) in (rs, u32 (rs * h), 0, 0)))"

datatype vb_event =
    Ev_pool int int | Ev_block int | Ev_map int int | Ev_release int | Ev_unmap int int | Ev_destroy int

text \<open>The pool, the handle of the \<open>i\<close>-th block, its physical address (0 for an error) and where it is mapped.\<close>

record vb_env =
  ve_pool :: "int option"
  ve_block :: "nat \<Rightarrow> int option"
  ve_phy :: "nat \<Rightarrow> int"
  ve_map :: "nat \<Rightarrow> int option"

record vi_frame =
  vf_blk :: int
  vf_size :: int
  vf_pool :: int
  vf_phy :: "int list"
  vf_vir :: "int list"
  vf_stride :: "int list"
  vf_width :: int
  vf_height :: int
  vf_fmt :: pixel_format

definition fill_frame :: "frame_cfg \<Rightarrow> int \<Rightarrow> int \<Rightarrow> int \<Rightarrow> int \<Rightarrow> vi_frame" where
  "fill_frame c pool blk p v =
     (let (st, sz, luma, chrm) = frame_layout c
      in \<lparr>vf_blk = blk, vf_size = sz, vf_pool = pool, vf_phy = [p, u64 (p + luma), u64 (u64 (p + luma) + chrm)],
          vf_vir = [v, u64 (v + luma), u64 (u64 (v + luma) + chrm)], vf_stride = [st, st, st], vf_width = fc_width c,
          vf_height = fc_height c, vf_fmt = fc_fmt c\<rparr>)"

fun get_blocks :: "vb_env \<Rightarrow> frame_cfg \<Rightarrow> int \<Rightarrow> nat \<Rightarrow> nat \<Rightarrow> vi_frame list \<Rightarrow> vb_event list \<Rightarrow> int \<times> vi_frame list \<times> vb_event list" where
  "get_blocks e c pool 0 i fs tr = (0, fs, tr)"
| "get_blocks e c pool (Suc n) i fs tr =
     (case ve_block e i of
        None \<Rightarrow> (-1, fs, tr)
      | Some blk \<Rightarrow>
        let sz = fst (snd (frame_layout c)); tr1 = tr @ [Ev_block blk]
        in if ve_phy e i = 0 then (-1, fs, tr1)
           else case ve_map e i of
             None \<Rightarrow> (-1, fs, tr1)
           | Some v \<Rightarrow>
               get_blocks e c pool n (Suc i) (fs @ [fill_frame c pool blk (ve_phy e i) v]) (tr1 @ [Ev_map v sz]))"

definition GetFrameBlkInfo :: "vb_env \<Rightarrow> frame_cfg \<Rightarrow> nat \<Rightarrow> vb_event list \<Rightarrow> int \<times> vi_frame list \<times> vb_event list" where
  "GetFrameBlkInfo e c n tr =
     (case ve_pool e of
        None \<Rightarrow> (-1, [], tr)
      | Some pool \<Rightarrow> get_blocks e c pool n 0 [] (tr @ [Ev_pool pool (fst (snd (frame_layout c)))]))"

definition ReleaseFrameBlkInfo :: "vi_frame list \<Rightarrow> vb_event list \<Rightarrow> vb_event list" where
  "ReleaseFrameBlkInfo fs tr =
     tr @ concat (map (\<lambda>f. [Ev_release (vf_blk f), Ev_unmap (vf_vir f ! 0) (vf_size f)]) fs) @ [Ev_destroy (vf_pool (fs ! 0))]"

section \<open>Reading a planar picture\<close>

text \<open>The lines of a plane; the result of \<open>fread\<close> is not looked at. The stores, and what is left of the file.\<close>

fun read_rows :: "nat \<Rightarrow> nat \<Rightarrow> int \<Rightarrow> int \<Rightarrow> int list \<Rightarrow> (int \<times> int list) list \<times> int list" where
  "read_rows 0 n a s bytes = ([], bytes)"
| "read_rows (Suc k) n a s bytes =
     (let (ws, rest) = read_rows k n (u32 (a + s)) s (drop n bytes) in ((a, take n bytes) # ws, rest))"

definition ReadOneFrame_400 :: "int \<Rightarrow> nat \<Rightarrow> nat \<Rightarrow> int \<Rightarrow> int list \<Rightarrow> (int \<times> int list) list \<times> int list" where
  "ReadOneFrame_400 pY w h s bytes = read_rows h w pY s bytes"

definition ReadOneFrame :: "int \<Rightarrow> int \<Rightarrow> int \<Rightarrow> nat \<Rightarrow> nat \<Rightarrow> int \<Rightarrow> int \<Rightarrow> int list \<Rightarrow> (int \<times> int list) list \<times> int list" where
  "ReadOneFrame pY pU pV w h s s2 bytes =
     (let (ws1, r1) = read_rows h w pY s bytes;
          (ws2, r2) = read_rows (h div 2) (w div 2) pU s2 r1;
          (ws3, r3) = read_rows (h div 2) (w div 2) pV s2 r2
      in (ws1 @ ws2 @ ws3, r3))"

definition ReadOneFrame_422 :: "int \<Rightarrow> int \<Rightarrow> int \<Rightarrow> nat \<Rightarrow> nat \<Rightarrow> int \<Rightarrow> int \<Rightarrow> int list \<Rightarrow> (int \<times> int list) list \<times> int list" where
  "ReadOneFrame_422 pY pU pV w h s s2 bytes =
     (let (ws1, r1) = read_rows h w pY s bytes;
          (ws2, r2) = read_rows h (w div 2) pU s2 r1;
          (ws3, r3) = read_rows h (w div 2) pV s2 r2
      in (ws1 @ ws2 @ ws3, r3))"

text \<open>The loop of \<open>SAMPLE_VI_PlanToSemi\<close>: a byte of V, a byte of U. The bytes stored, and what is left of the two copies.\<close>

fun semi_loop :: "nat \<Rightarrow> int list \<Rightarrow> int list \<Rightarrow> int list \<times> int list \<times> int list" where
  "semi_loop 0 tv tu = ([], tv, tu)"
| "semi_loop (Suc k) tv tu = (let (out, tv', tu') = semi_loop k (tl tv) (tl tu) in (hd tv # hd tu # out, tv', tu'))"

definition semi_stores :: "nat \<Rightarrow> (int \<Rightarrow> int) \<Rightarrow> int \<Rightarrow> int \<Rightarrow> (int \<times> int list) list" where
  "semi_stores sz mem pU pV =
     (let tu = mem_bytes mem pU sz; tv = mem_bytes mem pV sz;
          (out1, tv1, tu1) = semi_loop (sz div 2) tv tu;
          (out2, tv2, tu2) = semi_loop (sz div 2) tv1 tu1
      in [(pU, out1), (pV, out2)])"

text \<open>The two copies are not checked: \<open>None\<close> is a copy to a null pointer.\<close>

definition PlanToSemi :: "bool \<Rightarrow> (int \<Rightarrow> int) \<Rightarrow> int \<Rightarrow> int \<Rightarrow> int \<Rightarrow> int \<Rightarrow> (int \<times> int list) list option" where
  "PlanToSemi mallocs mem pU us pV h =
     (if mallocs then Some (semi_stores (nat (s32 ((us div 2) * (h div 2)))) mem pU pV) else None)"

definition PlanToSemi_422 :: "bool \<Rightarrow> (int \<Rightarrow> int) \<Rightarrow> int \<Rightarrow> int \<Rightarrow> int \<Rightarrow> int \<Rightarrow> (int \<times> int list) list option" where
  "PlanToSemi_422 mallocs mem pU us pV h =
     (if mallocs then Some (semi_stores (nat (s32 ((us div 2) * h))) mem pU pV) else None)"

text \<open>The memory afterwards.\<close>

definition ReadYuvFile :: "bool \<Rightarrow> (int \<Rightarrow> int) \<Rightarrow> vi_frame \<Rightarrow> int list \<Rightarrow> (int \<Rightarrow> int) option" where
  "ReadYuvFile mallocs mem f bytes =
     (let a = (\<lambda>k. u32 (vf_vir f ! k)); w = nat (vf_width f); h = nat (vf_height f); s = vf_stride f ! 0; s1 = vf_stride f ! 1
      in if vf_fmt f = YVU_SEMIPLANAR_422
         then let mem1 = store_all (fst (ReadOneFrame_422 (a 0) (a 1) (a 2) w h s (s1 div 2) bytes)) mem
              in map_option (\<lambda>ws. store_all ws mem1) (PlanToSemi_422 mallocs mem1 (a 1) s1 (a 2) (vf_height f))
         else if vf_fmt f = YVU_SEMIPLANAR_420
         then let mem1 = store_all (fst (ReadOneFrame (a 0) (a 1) (a 2) w h s (s1 div 2) bytes)) mem
              in map_option (\<lambda>ws. store_all ws mem1) (PlanToSemi mallocs mem1 (a 1) s1 (a 2) (vf_height f))
         else Some (store_all (fst (ReadOneFrame_400 (a 0) w h s bytes)) mem))"

text \<open>
  The file is \<open>None\<close> when it does not open. The result: the code, the frame taken if there is one, the memory, the events.
\<close>

definition Load_UserPic :: "vb_env \<Rightarrow> bool \<Rightarrow> int list option \<Rightarrow> int \<Rightarrow> int \<Rightarrow> pixel_format \<Rightarrow> (int \<Rightarrow> int) \<Rightarrow> vb_event list \<Rightarrow>
    (int \<times> vi_frame list \<times> (int \<Rightarrow> int) \<times> vb_event list) option" where
  "Load_UserPic e mallocs file w h f mem tr =
     (let (ret, fs, tr1) = GetFrameBlkInfo e \<lparr>fc_width = w, fc_height = h, fc_align = 0, fc_fmt = f\<rparr> 1 tr
      in if ret \<noteq> 0 then Some (ret, fs, mem, tr1)
         else case file of
           None \<Rightarrow> Some (ret, fs, mem, ReleaseFrameBlkInfo fs tr1)
         | Some bytes \<Rightarrow> map_option (\<lambda>mem'. (0, fs, mem', tr1)) (ReadYuvFile mallocs mem (fs ! 0) bytes))"

definition Release_UserPic :: "vi_frame list \<Rightarrow> vb_event list \<Rightarrow> vb_event list" where
  "Release_UserPic fs tr = ReleaseFrameBlkInfo (take 1 fs) tr"

section \<open>The frame holds the picture\<close>

lemma read_rows_lines:
  "0 < n \<Longrightarrow> k * n \<le> length bytes \<Longrightarrow> read_lines k n a s bytes = (True, fst (read_rows k n a s bytes)) \<and> snd (read_rows k n a s bytes) = drop (k * n) bytes"
proof (induction k arbitrary: a bytes)
  case (Suc k)
  have "k * n \<le> length (drop n bytes)" using Suc.prems(2) by simp
  from Suc.IH [OF Suc.prems(1) this, of "u32 (a + s)"] show ?case
    using Suc.prems by (auto simp: add.commute split: prod.split)
qed simp

text \<open>Three planes read one after the other are blocks of lines.\<close>

lemma read_three:
  assumes "0 < n1" "0 < n2" "0 < n3" "k1 * n1 + k2 * n2 + k3 * n3 \<le> length bytes"
    and "read_rows k1 n1 a1 s1 bytes = (ws1, r1)" "read_rows k2 n2 a2 s2 r1 = (ws2, r2)" "read_rows k3 n3 a3 s3 r2 = (ws3, r3)"
  shows "read_blocks [(k1, n1, a1, s1), (k2, n2, a2, s2), (k3, n3, a3, s3)] bytes = (True, ws1 @ ws2 @ ws3, r3)"
proof -
  have b1: "read_lines k1 n1 a1 s1 bytes = (True, ws1)" "r1 = drop (k1 * n1) bytes"
    using read_rows_lines [OF assms(1), of k1 bytes a1 s1] assms(4,5) by simp_all
  have b2: "read_lines k2 n2 a2 s2 r1 = (True, ws2)" "r2 = drop (k2 * n2) r1"
    using read_rows_lines [OF assms(2), of k2 r1 a2 s2] assms(4,6) b1(2) by simp_all
  have b3: "read_lines k3 n3 a3 s3 r2 = (True, ws3)" "r3 = drop (k3 * n3) r2"
    using read_rows_lines [OF assms(3), of k3 r2 a3 s3] assms(4,7) b1(2) b2(2) by simp_all
  show ?thesis by (simp add: b1(1) b1(2) [symmetric] b2(1) b2(2) [symmetric] b3(1) b3(2) [symmetric])
qed

lemma semi_loop_out:
  "k \<le> length tv \<Longrightarrow> k \<le> length tu \<Longrightarrow>
     semi_loop k tv tu = (concat (map (\<lambda>i. [tv ! i, tu ! i]) [0..<k]), drop k tv, drop k tu)"
proof (induction k arbitrary: tv tu)
  case (Suc k)
  obtain v tv' u tu' where t: "tv = v # tv'" "tu = u # tu'" using Suc.prems by (cases tv; cases tu) auto
  show ?case
    using Suc.IH [of tv' tu'] Suc.prems unfolding t upt_conv_Cons [OF zero_less_Suc] map_Suc_upt [symmetric]
    by (simp add: comp_def del: upt_Suc)
qed simp

lemma pairs_nth:
  assumes "i < k"
  shows "concat (map (\<lambda>i. [f i, g i]) [0..<k]) ! (2 * i) = f i" "concat (map (\<lambda>i. [f i, g i]) [0..<k]) ! (2 * i + 1) = g i"
proof -
  have "concat (map (\<lambda>i. [f i, g i]) [0..<k]) ! (2 * i + r) = map (\<lambda>i. [f i, g i]) [0..<k] ! i ! r" if "r < 2" for r
    using assms that by (intro concat_nth_uniform) auto
  from this [of 0] this [of 1] assms show "concat (map (\<lambda>i. [f i, g i]) [0..<k]) ! (2 * i) = f i" "concat (map (\<lambda>i. [f i, g i]) [0..<k]) ! (2 * i + 1) = g i"
    by simp_all
qed

text \<open>The two stores of the interleaving are one run of pairs, when the second plane follows the first and the size is even.\<close>

lemma semi_stores_pairs:
  assumes "even sz" "pV = pU + int sz" "0 \<le> pU" "pU + 2 * int sz \<le> 4294967296" "i < sz"
  shows "store_all (semi_stores sz mem pU pV) mem (pU + 2 * int i) = mem (pV + int i)"
    and "store_all (semi_stores sz mem pU pV) mem (pU + 2 * int i + 1) = mem (pU + int i)"
    and "a < pU \<Longrightarrow> store_all (semi_stores sz mem pU pV) mem a = mem a"
proof -
  define tu where "tu = mem_bytes mem pU sz"
  define tv where "tv = mem_bytes mem pV sz"
  have l: "length tu = sz" "length tv = sz" by (simp_all add: tu_def tv_def)
  define o1 where "o1 = concat (map (\<lambda>i. [tv ! i, tu ! i]) [0..<sz div 2])"
  define o2 where "o2 = concat (map (\<lambda>i. [tv ! (sz div 2 + i), tu ! (sz div 2 + i)]) [0..<sz div 2])"
  have st: "semi_stores sz mem pU pV = [(pU, o1), (pV, o2)]"
    unfolding semi_stores_def Let_def tu_def [symmetric] tv_def [symmetric] o1_def o2_def
    using l by (simp add: semi_loop_out add.commute)
  have two: "sz div 2 + sz div 2 = sz" using assms(1) by (auto elim!: evenE)
  have lo: "length o1 = sz" "length o2 = sz" using two by (simp_all add: o1_def o2_def length_concat comp_def sum_list_triv)
  have mem: "tv ! i = mem (pV + int i)" "tu ! i = mem (pU + int i)"
    using assms by (simp_all add: tv_def tu_def mem_bytes_def u32_id in_u32_def)
  have "o1 ! (2 * i) = tv ! i \<and> o1 ! (2 * i + 1) = tu ! i" if "i < sz div 2"
    unfolding o1_def using pairs_nth [OF that, of "\<lambda>i. tv ! i" "\<lambda>i. tu ! i"] by simp
  moreover have "o2 ! (2 * (i - sz div 2)) = tv ! i \<and> o2 ! (2 * (i - sz div 2) + 1) = tu ! i" if "sz div 2 \<le> i"
    unfolding o2_def using pairs_nth [of "i - sz div 2" "sz div 2" "\<lambda>j. tv ! (sz div 2 + j)" "\<lambda>j. tu ! (sz div 2 + j)"] that assms(5) two by simp
  moreover have at: "store_all (semi_stores sz mem pU pV) mem (pU + int j) = (if j < sz then o1 ! j else o2 ! (j - sz))" if "j < 2 * sz" for j
    using that unfolding st by (auto simp: store_all_def store_def lo assms(2) nat_diff_distrib')
  moreover have "2 * i < sz \<longleftrightarrow> i < sz div 2" "2 * i + 1 < sz \<longleftrightarrow> i < sz div 2" "2 * (i - sz div 2) = 2 * i - sz"
    "sz div 2 \<le> i \<Longrightarrow> 2 * (i - sz div 2) + 1 = 2 * i + 1 - sz"
    using two by linarith+
  ultimately show "store_all (semi_stores sz mem pU pV) mem (pU + 2 * int i) = mem (pV + int i)"
    and "store_all (semi_stores sz mem pU pV) mem (pU + 2 * int i + 1) = mem (pU + int i)"
    using at [of "2 * i"] at [of "2 * i + 1"] assms(5) unfolding mem [symmetric] by (auto simp: not_less ac_simps split: if_splits)
  show "a < pU \<Longrightarrow> store_all (semi_stores sz mem pU pV) mem a = mem a"
    unfolding st using assms(2) by (simp add: store_all_def store_def)
qed

lemma block_bytes_nth:
  assumes "y < k" "x < n"
  shows "block_bytes mem (k, n, a, s) ! (n * y + x) = mem (u32 (a + int y * s + int x))"
proof -
  have "concat (map (\<lambda>i. mem_bytes mem (a + int i * s) n) [0..<k]) ! (n * y + x) = map (\<lambda>i. mem_bytes mem (a + int i * s) n) [0..<k] ! y ! x"
    using assms by (intro concat_nth_uniform) auto
  then show ?thesis using assms by (simp add: block_bytes_def mem_bytes_def)
qed

lemma semi_stores_before: "a < pU \<Longrightarrow> pU \<le> pV \<Longrightarrow> store_all (semi_stores sz mem pU pV) mem a = mem a"
  by (simp add: semi_stores_def Let_def store_all_def store_def split: prod.split)

text \<open>A planar picture read into three planes and then made semi-planar; \<open>hh\<close> is the number of chrominance lines.\<close>

lemma planar_to_semi:
  fixes w h hh :: nat and s v0 :: int
  defines "wc \<equiv> w div 2" and "s2 \<equiv> s div 2" and "v1 \<equiv> v0 + int h * s"
  defines "v2 \<equiv> v1 + s2 * int hh"
  assumes "2 \<le> w" "int w \<le> s" "4 dvd s" "0 \<le> v0" "v2 + s2 * int hh < 4294967296" "length bytes = w * h + 2 * (wc * hh)"
    and r: "read_blocks [(h, w, v0, s), (hh, wc, v1, s2), (hh, wc, v2, s2)] bytes = (ok, ws, rest)"
    and mem1: "mem1 = store_all ws mem" and mem2: "mem2 = store_all (semi_stores (nat (s2 * int hh)) mem1 v1 v2) mem1"
  shows "y < h \<Longrightarrow> x < w \<Longrightarrow> mem2 (v0 + int y * s + int x) = bytes ! (w * y + x)"
    and "y < hh \<Longrightarrow> x < wc \<Longrightarrow> mem2 (v1 + int y * s + 2 * int x) = bytes ! (w * h + wc * hh + (wc * y + x)) \<and>
      mem2 (v1 + int y * s + 2 * int x + 1) = bytes ! (w * h + (wc * y + x))"
proof -
  have s: "0 < s" "s = 2 * s2" "int wc \<le> s2" "0 < wc" "0 < s2" "even s2"
    using assms(5-7) by (auto simp: s2_def wc_def elim!: dvdE)
  have nn: "0 \<le> int h * s" "0 \<le> s2 * int hh" using s by simp_all
  define bs where "bs = [(h, w, v0, s), (hh, wc, v1, s2), (hh, wc, v2, s2)]"
  have ok: "blocks_ok v0 bs (v2 + s2 * int hh)"
    using assms(5,6) s nn by (simp add: bs_def v1_def v2_def mult.commute)
  have "length bytes = sum_list (map (\<lambda>(k, n, a, s). k * n) bs)" using assms(10) by (simp add: bs_def mult.commute)
  from read_blocks_ok [OF ok assms(8,9) this] obtain ws' where ws': "read_blocks bs bytes = (True, ws', [])" "fits v0 (extents ws') (v2 + s2 * int hh)"
    "\<And>mem. \<forall>(a, l) \<in> set ws'. mem_bytes mem a (length l) = l \<Longrightarrow> blocks_bytes mem bs = bytes" by blast
  have w: "ws' = ws" using ws'(1) r by (simp add: bs_def)
  have "\<forall>(a, l) \<in> set ws. mem_bytes mem1 a (length l) = l"
    using store_all_at [OF ws'(2), of _ _ mem] assms(8,9) unfolding mem1 w by auto
  then have "blocks_bytes mem1 bs = bytes" using ws'(3) unfolding w by blast
  then have b: "bytes = block_bytes mem1 (h, w, v0, s) @ block_bytes mem1 (hh, wc, v1, s2) @ block_bytes mem1 (hh, wc, v2, s2)"
    by (simp add: bs_def blocks_bytes_def)
  note nth = block_bytes_nth [of _ _ _ _ mem1]
  have in_row: "wc * y + x < wc * hh" if "y < hh" "x < wc" for x y
  proof -
    have "wc * (y + 1) \<le> wc * hh" using that by (intro mult_le_mono2) simp
    then show ?thesis using that by simp
  qed
  have in_row1: "w * y + x < w * h" if "y < h" "x < w" for x y
  proof -
    have "w * (y + 1) \<le> w * h" using that by (intro mult_le_mono2) simp
    then show ?thesis using that by simp
  qed
  have b1: "bytes ! (w * y + x) = mem1 (u32 (v0 + int y * s + int x))" if "y < h" "x < w" for x y
    using in_row1 [OF that] nth [OF that, of v0 s] by (subst b) (simp add: nth_append mult.commute)
  have b2: "bytes ! (w * h + (wc * y + x)) = mem1 (u32 (v1 + int y * s2 + int x))" if "y < hh" "x < wc" for x y
    using in_row [OF that] nth [OF that, of v1 s2] by (subst b) (simp add: nth_append mult.commute)
  have b3: "bytes ! (w * h + wc * hh + (wc * y + x)) = mem1 (u32 (v2 + int y * s2 + int x))" if "y < hh" "x < wc" for x y
    using in_row [OF that] nth [OF that, of v2 s2] by (subst b) (simp add: nth_append mult.commute)
  define sz where "sz = nat (s2 * int hh)"
  have sz: "int sz = s2 * int hh" "even sz" using nn(2) s(6) by (simp_all add: sz_def even_nat_iff)
  have v1: "0 \<le> v1" "v1 + 2 * int sz < 4294967296" using assms(8,9) nn sz(1) by (simp_all add: v1_def v2_def)
  note semi = semi_stores_pairs [OF sz(2), of v2 v1]
  have v12: "v2 = v1 + int sz" by (simp add: v2_def sz(1))
  show "mem2 (v0 + int y * s + int x) = bytes ! (w * y + x)" if "y < h" "x < w"
  proof -
    have "int y * s + int x < int h * s"
    proof -
      have "(int y + 1) * s \<le> int h * s" using that s by (intro mult_right_mono) auto
      then show ?thesis using that assms(6) by (simp add: algebra_simps)
    qed
    moreover have "0 \<le> int y * s" using s by simp
    ultimately have a: "v0 + int y * s + int x < v1" "u32 (v0 + int y * s + int x) = v0 + int y * s + int x"
      using assms(8) v1 sz(1) nn(2) by (auto simp: v1_def intro!: u32_id simp: in_u32_def)
    have "mem2 (v0 + int y * s + int x) = mem1 (v0 + int y * s + int x)"
      unfolding mem2 by (rule semi_stores_before [OF a(1)]) (simp add: v12)
    then show ?thesis using b1 [OF that] a(2) by simp
  qed
  show "mem2 (v1 + int y * s + 2 * int x) = bytes ! (w * h + wc * hh + (wc * y + x)) \<and>
      mem2 (v1 + int y * s + 2 * int x + 1) = bytes ! (w * h + (wc * y + x))" if "y < hh" "x < wc"
  proof -
    define i where "i = y * nat s2 + x"
    have i: "int i = int y * s2 + int x" using s by (simp add: i_def)
    have "(int y + 1) * s2 \<le> int hh * s2" using that s by (intro mult_right_mono) auto
    then have le: "int i < int sz" using that s sz(1) by (simp add: i algebra_simps)
    then have lt: "i < sz" by simp
    have u: "u32 (v1 + int y * s2 + int x) = v1 + int i" "u32 (v2 + int y * s2 + int x) = v2 + int i"
      using v1 le mult_nonneg_nonneg [of "int y" s2] s(5) by (auto simp: i v12 add.assoc intro!: u32_id simp: in_u32_def)
    have e: "v1 + int y * s + 2 * int x = v1 + 2 * int i" using s(2) by (simp add: i algebra_simps)
    show ?thesis
      using semi(1,2) [OF v12 v1(1) _ lt] v1(2) b2 [OF that] b3 [OF that] unfolding mem2 e u sz_def [symmetric] by simp
  qed
qed

text \<open>The stride of a frame and its planes, as long as the sizes fit 32 bits.\<close>

lemma ALIGN_UP_32:
  assumes "0 \<le> w" "w < 536870880"
  shows "w \<le> ALIGN_UP (u32 (w * 8 + 7) div 8) 32" "ALIGN_UP (u32 (w * 8 + 7) div 8) 32 < w + 32" "32 dvd ALIGN_UP (u32 (w * 8 + 7) div 8) 32"
proof -
  have u: "u32 (w * 8 + 7) div 8 = w" "u32 (w + 31) = w + 31" using assms by (simp_all add: u32_id in_u32_def)
  have m: "(w + 31) div 32 * 32 + (w + 31) mod 32 = w + 31" "0 \<le> (w + 31) mod 32" "(w + 31) mod 32 < 32" by simp_all
  have a: "ALIGN_UP w 32 = (w + 31) div 32 * 32" using assms m u(2) by (simp add: ALIGN_UP_def u32_id in_u32_def)
  show "w \<le> ALIGN_UP (u32 (w * 8 + 7) div 8) 32" "ALIGN_UP (u32 (w * 8 + 7) div 8) 32 < w + 32" "32 dvd ALIGN_UP (u32 (w * 8 + 7) div 8) 32"
    unfolding u(1) a using m by simp_all
qed

definition chroma_rows :: "pixel_format \<Rightarrow> int \<Rightarrow> int" where
  "chroma_rows f h = (if f = YVU_SEMIPLANAR_422 then h else h div 2)"

definition semi_format :: "pixel_format \<Rightarrow> bool" where
  "semi_format f \<longleftrightarrow> f = YVU_SEMIPLANAR_422 \<or> f = YVU_SEMIPLANAR_420"

lemma width_bound:
  assumes "2 * ((w + 32) * h) < 2147483648" "2 \<le> h" "0 \<le> w"
  shows "w < (536870880 :: int)"
proof -
  define q where "q = (w + 32) * h"
  have "(w + 32) * 2 \<le> q" unfolding q_def using assms by (intro mult_left_mono) simp_all
  moreover have "2 * q < 2147483648" using assms(1) by (simp only: q_def)
  ultimately have "w * 2 + 64 < 1073741824" by simp
  then show ?thesis by simp
qed

lemma semi_frame:
  assumes "semi_format (fc_fmt c)" "st = ALIGN_UP (u32 (fc_width c * 8 + 7) div 8) 32"
    and "2 \<le> fc_width c" "0 < fc_height c" "even (fc_height c)" "2 * ((fc_width c + 32) * fc_height c) < 2147483648"
    and "0 < v" "v + fst (snd (frame_layout c)) < 4294967296"
  shows "vf_stride (fill_frame c pool blk p v) = [st, st, st]"
    and "vf_vir (fill_frame c pool blk p v) = [v, v + st * fc_height c, v + st * fc_height c + (st div 2) * chroma_rows (fc_fmt c) (fc_height c)]"
    and "fst (snd (frame_layout c)) = st * fc_height c + 2 * ((st div 2) * chroma_rows (fc_fmt c) (fc_height c))"
proof -
  let ?w = "fc_width c" and ?h = "fc_height c"
  have "2 \<le> ?h" using assms(4,5) by (auto elim!: evenE)
  then have w: "0 \<le> ?w" "?w < 536870880" using width_bound [of ?w ?h] assms(3,6) by simp_all
  note al = ALIGN_UP_32 [OF w, folded assms(2)]
  define q where "q = (?w + 32) * ?h"
  have q32: "2 * q < 2147483648" using assms(6) by (simp only: q_def)
  have sh: "st * ?h \<le> q" "0 \<le> st * ?h" using al w assms(3,4) unfolding q_def by (auto intro!: mult_right_mono)
  have u: "u32 (st * ?h) = st * ?h" "u32 (st * ?h * 2) = st * ?h * 2" "u32 (st * ?h * 3) = st * ?h * 3"
    using sh q32 by (intro u32_id; unfold in_u32_def; linarith)+
  obtain k m where k: "st = 2 * k" "?h = 2 * m" using al(3) assms(5) by (auto elim!: evenE dvdE)
  show "vf_stride (fill_frame c pool blk p v) = [st, st, st]"
    using assms(1) by (auto simp: fill_frame_def frame_layout_def semi_format_def assms(2) Let_def)
  show size: "fst (snd (frame_layout c)) = st * fc_height c + 2 * ((st div 2) * chroma_rows (fc_fmt c) (fc_height c))"
    using assms(1) u k by (auto simp: frame_layout_def semi_format_def assms(2) [symmetric] Let_def chroma_rows_def)
  have q: "0 \<le> (st div 2) * chroma_rows (fc_fmt c) ?h" using sh k assms(4) al(1) w by (auto simp: chroma_rows_def)
  show "vf_vir (fill_frame c pool blk p v) = [v, v + st * fc_height c, v + st * fc_height c + (st div 2) * chroma_rows (fc_fmt c) (fc_height c)]"
    using assms(1,7,8) u k q sh size by (auto simp: fill_frame_def frame_layout_def semi_format_def assms(2) [symmetric] Let_def chroma_rows_def u64_id)
qed

text \<open>The sizes of the planes do not leave the integers of 32 bits.\<close>

lemma chroma_size_s32:
  fixes w h st s2 :: int
  assumes "2 * ((w + 32) * h) < 2147483648" "st \<le> w + 32" "st = 2 * s2" "0 < s2" "0 < h" "int hc \<le> h"
  shows "s32 (s2 * int hc) = s2 * int hc"
proof -
  define q where "q = (w + 32) * h"
  have "st * h \<le> q" unfolding q_def using assms(2,5) by (intro mult_right_mono) simp_all
  moreover have "s2 * int hc \<le> s2 * h" using assms(4,6) by (intro mult_left_mono) auto
  moreover have "2 * q < 2147483648" using assms(1) by (simp only: q_def)
  moreover have "st * h = 2 * (s2 * h)" by (simp add: assms(3))
  ultimately have "s2 * int hc < 2147483648" by linarith
  moreover have "0 \<le> s2 * int hc" using assms(4) by simp
  ultimately show ?thesis by (intro s32_id) (simp add: in_s32_def)
qed

text \<open>The reading of a semi-planar frame, from the three planes of the file.\<close>

lemma ReadYuvFile_semi:
  assumes "semi_format f" "vf_width fr = w" "vf_height fr = h" "vf_fmt fr = f" "vf_stride fr = [st, st, st]"
    and a: "u32 (vf_vir fr ! 0) = v" "u32 (vf_vir fr ! 1) = v1" "u32 (vf_vir fr ! 2) = v2"
    and "s2 = st div 2" "wc = nat w div 2" "hc = (if f = YVU_SEMIPLANAR_422 then nat h else nat h div 2)"
    and hc: "int hc = (if f = YVU_SEMIPLANAR_422 then h else h div 2)" and size: "s32 (s2 * int hc) = s2 * int hc"
    and rr: "read_rows (nat h) (nat w) v st bytes = (ws1, r1)" "read_rows hc wc v1 s2 r1 = (ws2, r2)" "read_rows hc wc v2 s2 r2 = (ws3, r3)"
    and "mem1 = store_all (ws1 @ ws2 @ ws3) mem"
  shows "ReadYuvFile True mem fr bytes = Some (store_all (semi_stores (nat (s2 * int hc)) mem1 v1 v2) mem1)"
proof -
  note d = assms(2-5,9) assms(10) [symmetric] assms(17) [symmetric]
  note unf = ReadYuvFile_def Let_def a [unfolded One_nat_def] nth_Cons_0 One_nat_def nth_Cons_Suc fst_conv if_True if_False option.map simp_thms
      pixel_format.distinct
  consider "f = YVU_SEMIPLANAR_422" | "f = YVU_SEMIPLANAR_420" using assms(1) by (auto simp: semi_format_def)
  then show ?thesis
  proof cases
    case 1
    then have "hc = nat h" "int hc = h" using assms(11) hc by simp_all
    then have "ReadOneFrame_422 v v1 v2 (nat w) (nat h) st (st div 2) bytes = (ws1 @ ws2 @ ws3, r3)"
      "PlanToSemi_422 True mem1 v1 st v2 h = Some (semi_stores (nat (s2 * int hc)) mem1 v1 v2)"
      using rr size by (simp_all add: ReadOneFrame_422_def PlanToSemi_422_def d)
    then show ?thesis by (simp only: unf d(1-4,7) 1)
  next
    case 2
    then have "nat h div 2 = hc" "h div 2 = int hc" using assms(11) hc by simp_all
    then have "ReadOneFrame v v1 v2 (nat w) (nat h) st (st div 2) bytes = (ws1 @ ws2 @ ws3, r3)"
      "PlanToSemi True mem1 v1 st v2 h = Some (semi_stores (nat (s2 * int hc)) mem1 v1 v2)"
      using rr size by (simp_all add: ReadOneFrame_def PlanToSemi_def d)
    then show ?thesis by (simp only: unf d(1-4,7) 2)
  qed
qed

text \<open>
  C27. \<open>SAMPLE_COMM_VI_Load_UserPic\<close> turns a planar picture of even height into a semi-planar frame, in 4:2:0 and in 4:2:2: when all services
  succeed, the file (all of Y, then of U, then of V, without padding) is in the frame with every luminance
  pixel in its place and every line of chrominance as pairs of V and U, and the block, the mapping and the pool it holds
  are given back by \<open>SAMPLE_COMM_VI_Release_UserPic\<close>.
\<close>

theorem Load_UserPic_semi_planar:
  assumes "semi_format f" "2 \<le> w" "0 < h" "even h" "2 * ((w + 32) * h) < 2147483648" "ve_pool e = Some pool" "ve_block e 0 = Some blk"
    and "ve_phy e 0 \<noteq> 0" "ve_map e 0 = Some v" "0 < v" "sz = fst (snd (frame_layout \<lparr>fc_width = w, fc_height = h, fc_align = 0, fc_fmt = f\<rparr>))"
    and "v + sz < 4294967296" "hc = nat (chroma_rows f h)" "wc = nat w div 2" "length bytes = nat w * nat h + 2 * (wc * hc)"
  shows "\<exists>fr mem' st v1. Load_UserPic e True (Some bytes) w h f mem [] = Some (0, [fr], mem', [Ev_pool pool sz, Ev_block blk, Ev_map v sz]) \<and>
    vf_stride fr = [st, st, st] \<and> vf_vir fr ! 0 = v \<and> vf_vir fr ! 1 = v1 \<and> v1 = v + h * st \<and> w \<le> st \<and>
    (\<forall>y x. y < nat h \<longrightarrow> x < nat w \<longrightarrow> mem' (v + int y * st + int x) = bytes ! (nat w * y + x)) \<and>
    (\<forall>y x. y < hc \<longrightarrow> x < wc \<longrightarrow> mem' (v1 + int y * st + 2 * int x) = bytes ! (nat w * nat h + wc * hc + (wc * y + x)) \<and>
       mem' (v1 + int y * st + 2 * int x + 1) = bytes ! (nat w * nat h + (wc * y + x))) \<and>
    Release_UserPic [fr] [] = [Ev_release blk, Ev_unmap v sz, Ev_destroy pool]"
proof -
  let ?c = "\<lparr>fc_width = w, fc_height = h, fc_align = 0, fc_fmt = f\<rparr>"
  define st where "st = ALIGN_UP (u32 (w * 8 + 7) div 8) 32"
  define fr where "fr = fill_frame ?c pool blk (ve_phy e 0) v"
  have "2 \<le> h" using assms(3,4) by (auto elim!: evenE)
  then have w: "0 \<le> w" "w < 536870880" using width_bound [of w h] assms(2,5) by simp_all
  note al = ALIGN_UP_32 [OF w, folded st_def]
  have fr: "vf_stride fr = [st, st, st]" "vf_vir fr = [v, v + st * h, v + st * h + (st div 2) * chroma_rows f h]"
    "sz = st * h + 2 * ((st div 2) * chroma_rows f h)"
    unfolding fr_def assms(11) using semi_frame(1,2) [where c = ?c and st = st and v = v and pool = pool and blk = blk and p = "ve_phy e 0"]
      semi_frame(3) [where c = ?c and st = st and v = v] assms(1-5,10-12) st_def by simp_all
  have fr2: "vf_width fr = w" "vf_height fr = h" "vf_fmt fr = f" "vf_blk fr = blk" "vf_pool fr = pool" "vf_size fr = sz"
    by (simp_all add: fr_def fill_frame_def assms(11) Let_def split: prod.split)
  define s2 where "s2 = st div 2"
  define v1 where "v1 = v + st * h"
  define v2 where "v2 = v1 + s2 * int hc"
  have two: "int 2 \<le> w" using assms(2) by simp
  obtain k where k: "st = 32 * k" using al(3) by (auto elim: dvdE)
  have s2: "st = 2 * s2" "0 < s2" "w div 2 \<le> s2" using k al(1) assms(2) by (simp_all add: s2_def)
  have hc: "int hc = chroma_rows f h" "int hc = (if f = YVU_SEMIPLANAR_422 then h else h div 2)" "0 < hc"
    using assms(3,13) \<open>2 \<le> h\<close> by (auto simp: chroma_rows_def)
  have le: "0 \<le> st * h" "0 \<le> s2 * int hc" using s2 assms(3) by simp_all
  have sz: "sz = st * h + 2 * (s2 * int hc)" using fr(3) hc(1) s2_def by simp
  have end32: "v2 + s2 * int hc < 4294967296" using assms(12) sz by (simp add: v2_def v1_def)
  have a: "u32 (vf_vir fr ! 0) = v" "u32 (vf_vir fr ! 1) = v1" "u32 (vf_vir fr ! 2) = v2"
    using assms(10) le end32 by (simp_all add: fr(2) hc(1) [symmetric] s2_def [symmetric] v1_def v2_def u32_id in_u32_def numeral_2_eq_2)
  have wc: "0 < wc" "0 < nat w" using assms(2,14) by auto
  obtain ws1 r1 ws2 r2 ws3 r3 where rr: "read_rows (nat h) (nat w) v st bytes = (ws1, r1)" "read_rows hc wc v1 s2 r1 = (ws2, r2)"
    "read_rows hc wc v2 s2 r2 = (ws3, r3)" by (metis prod.exhaust)
  have rb: "read_blocks [(nat h, nat w, v, st), (hc, wc, v1, s2), (hc, wc, v2, s2)] bytes = (True, ws1 @ ws2 @ ws3, r3)"
    by (rule read_three [OF wc(2) wc(1) wc(1) _ rr]) (use assms(15) in \<open>simp add: mult.commute\<close>)
  define mem1 where "mem1 = store_all (ws1 @ ws2 @ ws3) mem"
  define mem2 where "mem2 = store_all (semi_stores (nat (s2 * int hc)) mem1 v1 v2) mem1"
  have half: "v1 = v + int (nat h) * st" "v2 = v1 + st div 2 * int hc" "4 dvd st"
    using assms(3) k by (simp_all add: v1_def v2_def s2_def mult.commute)
  have w2: "2 \<le> nat w" "int (nat w) \<le> st" using assms(2) al(1) by simp_all
  note pic = planar_to_semi [where w = "nat w" and s = st and ?v0.0 = v and hh = hc and h = "nat h" and bytes = bytes and ok = True
        and ws = "ws1 @ ws2 @ ws3" and rest = r3 and ?mem1.0 = mem1 and mem = mem and ?mem2.0 = mem2,
      folded assms(14), folded half(1) s2_def, folded v2_def]
  have pics: "\<forall>y x. y < nat h \<longrightarrow> x < nat w \<longrightarrow> mem2 (v + int y * st + int x) = bytes ! (nat w * y + x)"
    "\<forall>y x. y < hc \<longrightarrow> x < wc \<longrightarrow> mem2 (v1 + int y * st + 2 * int x) = bytes ! (nat w * nat h + wc * hc + (wc * y + x)) \<and>
       mem2 (v1 + int y * st + 2 * int x + 1) = bytes ! (nat w * nat h + (wc * y + x))"
    using pic [OF w2(1) w2(2) half(3) _ end32 assms(15) rb mem1_def mem2_def] assms(10) by simp_all
  have hc': "hc = (if f = YVU_SEMIPLANAR_422 then nat h else nat h div 2)" using hc(2) assms(3) by (auto simp: nat_div_distrib)
  have yuv: "ReadYuvFile True mem fr bytes = Some mem2" unfolding mem2_def
  proof (rule ReadYuvFile_semi [OF assms(1) fr2(1-3) fr(1) a s2_def assms(14) hc' hc(2) _ rr mem1_def])
    show "s32 (s2 * int hc) = s2 * int hc"
      using assms(3,5) al(2) s2(1,2) hc(2) by (intro chroma_size_s32 [where w = w and h = h and st = st]) auto
  qed
  have get: "GetFrameBlkInfo e ?c 1 [] = (0, [fr], [Ev_pool pool sz, Ev_block blk, Ev_map v sz])"
    using assms(6-9,11) by (simp add: GetFrameBlkInfo_def fr_def Let_def)
  have load: "Load_UserPic e True (Some bytes) w h f mem [] = Some (0, [fr], mem2, [Ev_pool pool sz, Ev_block blk, Ev_map v sz])"
    unfolding Load_UserPic_def get by (simp add: yuv)
  have rel: "Release_UserPic [fr] [] = [Ev_release blk, Ev_unmap v sz, Ev_destroy pool]"
    by (simp add: Release_UserPic_def ReleaseFrameBlkInfo_def fr(2) fr2)
  show ?thesis
    by (intro exI [of _ fr] exI [of _ mem2] exI [of _ st] exI [of _ v1] conjI load rel pics al(1))
      (simp_all add: fr v1_def hc(1) mult.commute)
qed

lemma Load_UserPic_semi_planar_witness:
  "\<exists>fr mem' st v1. Load_UserPic \<lparr>ve_pool = Some 3, ve_block = (\<lambda>_. Some 5), ve_phy = (\<lambda>_. 4096), ve_map = (\<lambda>_. Some 65536)\<rparr> True
      (Some [1, 2, 3, 4, 50, 60]) 2 2 YVU_SEMIPLANAR_420 (\<lambda>_. 0) [] = Some (0, [fr], mem', [Ev_pool 3 96, Ev_block 5, Ev_map 65536 96]) \<and>
    vf_vir fr ! 1 = v1 \<and> vf_stride fr = [st, st, st] \<and> mem' (65536 + st + 1) = 4 \<and> mem' v1 = 60 \<and> mem' (v1 + 1) = 50"
proof -
  let ?e = "\<lparr>ve_pool = Some 3, ve_block = (\<lambda>_. Some 5), ve_phy = (\<lambda>_. 4096), ve_map = (\<lambda>_. Some 65536)\<rparr>"
  have sz: "96 = fst (snd (frame_layout \<lparr>fc_width = 2, fc_height = 2, fc_align = 0, fc_fmt = YVU_SEMIPLANAR_420\<rparr>))"
    by code_simp
  have "\<exists>fr mem' st v1. Load_UserPic ?e True (Some [1, 2, 3, 4, 50, 60]) 2 2 YVU_SEMIPLANAR_420 (\<lambda>_. 0) [] =
      Some (0, [fr], mem', [Ev_pool 3 96, Ev_block 5, Ev_map 65536 96]) \<and>
    vf_stride fr = [st, st, st] \<and> vf_vir fr ! 0 = 65536 \<and> vf_vir fr ! 1 = v1 \<and> v1 = 65536 + 2 * st \<and> 2 \<le> st \<and>
    (\<forall>y x. y < nat 2 \<longrightarrow> x < nat 2 \<longrightarrow> mem' (65536 + int y * st + int x) = [1, 2, 3, 4, 50, 60] ! (nat 2 * y + x)) \<and>
    (\<forall>y x. y < 1 \<longrightarrow> x < 1 \<longrightarrow> mem' (v1 + int y * st + 2 * int x) = [1, 2, 3, 4, 50, 60] ! (nat 2 * nat 2 + 1 * 1 + (1 * y + x)) \<and>
       mem' (v1 + int y * st + 2 * int x + 1) = [1, 2, 3, 4, 50, 60] ! (nat 2 * nat 2 + (1 * y + x))) \<and>
    Release_UserPic [fr] [] = [Ev_release 5, Ev_unmap 65536 96, Ev_destroy 3]"
    by (rule Load_UserPic_semi_planar [where sz = 96]) (simp_all add: semi_format_def sz [symmetric] chroma_rows_def)
  then obtain fr mem' st v1 where l: "Load_UserPic ?e True (Some [1, 2, 3, 4, 50, 60]) 2 2 YVU_SEMIPLANAR_420 (\<lambda>_. 0) [] =
      Some (0, [fr], mem', [Ev_pool 3 96, Ev_block 5, Ev_map 65536 96])" and r: "vf_stride fr = [st, st, st]" "vf_vir fr ! 1 = v1"
    and y: "mem' (65536 + int 1 * st + int 1) = [1, 2, 3, 4, 50, 60] ! (nat 2 * 1 + 1)"
    and c: "mem' (v1 + int 0 * st + 2 * int 0) = [1, 2, 3, 4, 50, 60] ! (nat 2 * nat 2 + 1 * 1 + (1 * 0 + 0))"
      "mem' (v1 + int 0 * st + 2 * int 0 + 1) = [1, 2, 3, 4, 50, 60] ! (nat 2 * nat 2 + (1 * 0 + 0))"
    by (metis nat_numeral one_less_numeral_iff semiring_norm(76) less_one)
  show ?thesis
    by (intro exI [of _ fr] exI [of _ mem'] exI [of _ st] exI [of _ v1] conjI l r) (use y c in \<open>simp_all add: eval_nat_numeral\<close>)
qed

text \<open>Without the file the frame is given back, and yet the call succeeds.\<close>

lemma Load_UserPic_no_file:
  assumes "GetFrameBlkInfo e \<lparr>fc_width = w, fc_height = h, fc_align = 0, fc_fmt = f\<rparr> 1 tr = (0, fs, tr1)"
  shows "Load_UserPic e m None w h f mem tr = Some (0, fs, mem, ReleaseFrameBlkInfo fs tr1)"
  using assms by (simp add: Load_UserPic_def)

text \<open>A failure in the middle keeps the pool and the blocks taken before.\<close>

lemma GetFrameBlkInfo_leaks:
  assumes "ve_pool e = Some pool" "ve_block e 0 = Some b0" "ve_phy e 0 \<noteq> 0" "ve_map e 0 = Some v0" "ve_block e 1 = None" "2 \<le> n"
  shows "\<exists>fs. GetFrameBlkInfo e c n tr = (-1, fs, tr @ [Ev_pool pool (fst (snd (frame_layout c))), Ev_block b0, Ev_map v0 (fst (snd (frame_layout c)))])"
proof -
  obtain m where "n = Suc (Suc m)" using assms(6) by (cases n; cases "n - 1") auto
  then show ?thesis using assms by (simp add: GetFrameBlkInfo_def Let_def)
qed

end
