(* ===== verification/Venc_Stream.thy ===== *)
theory Venc_Stream
  imports Vi_Frame
begin

text \<open>
  Streams of the encoder (common/sdk2v0/sample_comm_venc.c): the thumbnail inside of a JPEG file
  (\<open>FileTrans_GetThmFromJpg\<close>, \<open>SAMPLE_COMM_VENC_Getdcfinfo\<close>), packets written to a file, also from a circular buffer
  (\<open>SAMPLE_COMM_VENC_SaveStream\<close>, \<open>_SaveStream_PhyAddr\<close>), and the reading of planar pictures.

  A file is its list of bytes. The scan works on characters, which are unsigned on the ARM processors this runs on.
\<close>

section \<open>The scan for the thumbnail\<close>

text \<open>
  Eight characters of a window, the place of the next one in it, the start and the end found so far, and whether a start was found. \<open>p\<close> is the
  position in the file after the character \<open>c\<close>. The second component says that the scan stops.
\<close>

record thm_scan =
  ts_buf :: "int list"
  ts_pos :: nat
  ts_start :: int
  ts_end :: int
  ts_found :: bool

definition pair_at :: "int list \<Rightarrow> nat \<Rightarrow> int \<Rightarrow> bool" where
  "pair_at buf k d \<longleftrightarrow> 0 < k \<and> buf ! (k - 1) = 255 \<and> buf ! k = d"

definition window_next :: "int list \<Rightarrow> nat \<Rightarrow> int list \<times> nat" where
  "window_next buf k =
     (let k1 = k + 1
      in if k1 = 7 then (buf, if buf ! (k1 - 1) \<noteq> 255 then 0 else k1)
         else if 7 < k1 then (if buf ! (k1 - 1) = 255 then (buf[0 := 255], 1) else (buf, 0))
         else (buf, k1))"

definition thm_step :: "int \<Rightarrow> int \<Rightarrow> thm_scan \<Rightarrow> thm_scan \<times> bool" where
  "thm_step c p s =
     (let k = ts_pos s; buf = (ts_buf s)[k := c];
          s1 = (if pair_at buf k 216 then s\<lparr>ts_start := max 0 (p - 2), ts_found := True\<rparr> else s);
          s2 = (if pair_at buf k 217 then s1\<lparr>ts_end := p\<rparr> else s1)
      in if pair_at buf k 217 \<and> ts_found s2 then (s2\<lparr>ts_buf := buf\<rparr>, True)
         else let (buf', k') = window_next buf k in (s2\<lparr>ts_buf := buf', ts_pos := k'\<rparr>, False))"

text \<open>At the end of the file one more character is read: \<open>getc\<close> gives \<open>EOF\<close>, stored as 255, and the position stays.\<close>

fun thm_loop :: "int list \<Rightarrow> int \<Rightarrow> thm_scan \<Rightarrow> thm_scan" where
  "thm_loop [] p s = fst (thm_step 255 p s)"
| "thm_loop (c # cs) p s = (let (s1, stop) = thm_step c (p + 1) s in if stop then s1 else thm_loop cs (p + 1) s1)"

definition thm_start :: thm_scan where
  "thm_start = \<lparr>ts_buf = replicate 8 0, ts_pos = 0, ts_start = 0, ts_end = 0, ts_found = False\<rparr>"

definition MAX_THM_SIZE :: int where
  "MAX_THM_SIZE = 64 * 1024"

text \<open>The result and the bytes that \<open>DstBuf\<close> gets. The file is \<open>None\<close> when it cannot be opened; \<open>mem\<close>: the allocation succeeds.\<close>

definition GetThmFromJpg :: "int list option \<Rightarrow> bool \<Rightarrow> int \<times> int list option" where
  "GetThmFromJpg jpg mem =
     (case jpg of
        None \<Rightarrow> (-1, None)
      | Some bytes \<Rightarrow>
        let s = thm_loop bytes 0 thm_start; n = ts_end s - ts_start s
        in if n \<le> 0 then (-1, None)
           else if MAX_THM_SIZE < n then (-1, None)
           else if int (length bytes) \<le> n then (-1, None)
           else if \<not> mem then (-1, None)
           else let got = take (nat n) (drop (nat (ts_start s)) bytes)
             in if int (length got) \<noteq> n then (-1, None) else (0, Some got))"

text \<open>
  The loop that writes the thumbnail: what \<open>fwrite\<close> is asked for, as an offset into \<open>DstBuf\<close> and a length. \<open>fw\<close> is what it
  returns; every call asks for the whole length.
\<close>

function write_thm :: "(nat \<Rightarrow> int) \<Rightarrow> int \<Rightarrow> nat \<Rightarrow> int \<Rightarrow> (int \<times> int) list" where
  "write_thm fw n k written =
     (if written < n \<and> 0 < fw k then (written, n) # write_thm fw n (Suc k) (written + fw k)
      else if written < n then [(written, n)] else [])"
  by pat_completeness auto
termination by (relation "measure (\<lambda>(fw, n, k, written). nat (n - written))") auto

text \<open>The result, the writes, and whether \<open>DstBuf\<close> stays allocated. \<open>jpg\<close> and \<open>dst\<close>: the source file, and whether the target opens.\<close>

definition Getdcfinfo :: "int list option \<Rightarrow> bool \<Rightarrow> bool \<Rightarrow> (nat \<Rightarrow> int) \<Rightarrow> int \<times> (int \<times> int) list \<times> bool" where
  "Getdcfinfo jpg mem dst fw =
     (case GetThmFromJpg jpg mem of
        (r, None) \<Rightarrow> (-1, [], False)
      | (r, Some thm) \<Rightarrow>
        if r \<noteq> 0 \<or> length thm = 0 then (-1, [], True)
        else if \<not> dst then (-1, [], True)
        else (0, write_thm fw (int (length thm)) 0 0, False))"

section \<open>Packets\<close>

record venc_pack =
  pk_phy :: int
  pk_vir :: int
  pk_len :: int
  pk_off :: int

text \<open>What is written to the file.\<close>

definition SaveStream :: "(int \<Rightarrow> int) \<Rightarrow> venc_pack list \<Rightarrow> int list" where
  "SaveStream mem ps = concat (map (\<lambda>p. mem_bytes mem (u32 (pk_vir p + pk_off p)) (nat (u32 (pk_len p - pk_off p)))) ps)"

text \<open>
  The stream buffers are start and size. The first buffer that contains the packet; \<open>None\<close>: none does, and the
  code goes on with the entry behind the last one.
\<close>

fun find_tile :: "int \<Rightarrow> (int \<times> int) list \<Rightarrow> (int \<times> int) option" where
  "find_tile a [] = None"
| "find_tile a ((b, n) # ts) = (if b < a \<and> a \<le> u64 (b + n) then Some (b, n) else find_tile a ts)"

definition save_pack :: "(int \<Rightarrow> int) \<Rightarrow> (int \<times> int) list \<Rightarrow> venc_pack \<Rightarrow> int list option" where
  "save_pack mem ts p =
     (case find_tile (pk_phy p) ts of
        None \<Rightarrow> None
      | Some (b, n) \<Rightarrow>
        let a = pk_phy p; top = u64 (b + n)
        in if top \<le> u64 (a + pk_len p)
           then if top \<le> u64 (a + pk_off p)
             then Some (mem_bytes mem (u64 (b + u64 (u64 (a + pk_off p) - top))) (nat (u32 (pk_len p - pk_off p))))
             else let left = u32 (top - a)
               in Some (mem_bytes mem (u64 (a + pk_off p)) (nat (u32 (left - pk_off p))) @ mem_bytes mem b (nat (u32 (pk_len p - left))))
           else Some (mem_bytes mem (u64 (a + pk_off p)) (nat (u32 (pk_len p - pk_off p)))))"

fun SaveStream_PhyAddr :: "(int \<Rightarrow> int) \<Rightarrow> (int \<times> int) list \<Rightarrow> venc_pack list \<Rightarrow> int list option" where
  "SaveStream_PhyAddr mem ts [] = Some []"
| "SaveStream_PhyAddr mem ts (p # ps) =
     (case save_pack mem ts p of
        None \<Rightarrow> None
      | Some bs \<Rightarrow> (case SaveStream_PhyAddr mem ts ps of None \<Rightarrow> None | Some rest \<Rightarrow> Some (bs @ rest)))"

section \<open>The thumbnail found\<close>

text \<open>A marker: the bytes \<open>0xFF d\<close> at \<open>i\<close>. The thumbnail is the first end of an image that comes after some start, with the last start before it.\<close>

definition marker :: "int \<Rightarrow> int list \<Rightarrow> nat \<Rightarrow> bool" where
  "marker d bytes i \<longleftrightarrow> Suc i < length bytes \<and> bytes ! i = 255 \<and> bytes ! Suc i = d"

definition thumb_at :: "int list \<Rightarrow> nat \<Rightarrow> nat \<Rightarrow> bool" where
  "thumb_at bytes s e \<longleftrightarrow> marker 216 bytes s \<and> s < e \<and> marker 217 bytes e \<and>
     list_all (\<lambda>i. \<not> marker 216 bytes i) [Suc s..<e] \<and> list_all (\<lambda>i. \<not> marker 217 bytes i) [s..<e] \<and>
     list_all (\<lambda>i. marker 217 bytes i \<longrightarrow> list_all (\<lambda>j. \<not> marker 216 bytes j) [0..<i]) [0..<s]"

lemma marker_snoc:
  "marker d (pre @ [c]) i \<longleftrightarrow> marker d pre i \<or> Suc i = length pre \<and> last pre = 255 \<and> c = d"
proof (cases "Suc i = length pre")
  case True
  then have "pre ! i = last pre" "i < length pre" by (metis diff_Suc_1 last_conv_nth length_0_conv nat.distinct(1), linarith)
  then show ?thesis using True by (auto simp: marker_def nth_append)
qed (auto simp: marker_def nth_append)

lemma marker_append: "marker d pre i \<Longrightarrow> marker d (pre @ suf) i"
  by (auto simp: marker_def nth_append)

lemma marker_take: "i + 1 < n \<Longrightarrow> marker d (take n bytes) i = marker d bytes i"
  by (auto simp: marker_def)

text \<open>The window: it holds the last character read, unless that character starts no marker.\<close>

definition window_ok :: "int list \<Rightarrow> thm_scan \<Rightarrow> bool" where
  "window_ok pre s \<longleftrightarrow> length (ts_buf s) = 8 \<and> ts_pos s < 8 \<and>
     (if ts_pos s = 0 then pre = [] \<or> last pre \<noteq> 255 else pre \<noteq> [] \<and> ts_buf s ! (ts_pos s - 1) = last pre)"

text \<open>What has been found in the part of the file read so far, which does not hold a thumbnail yet.\<close>

definition found_ok :: "int list \<Rightarrow> thm_scan \<Rightarrow> bool" where
  "found_ok pre s \<longleftrightarrow>
     (ts_found s \<longleftrightarrow> (\<exists>i. marker 216 pre i)) \<and>
     (ts_found s \<longrightarrow> (\<exists>i. ts_start s = int i \<and> marker 216 pre i \<and> (\<forall>j>i. \<not> marker 216 pre j))) \<and>
     (\<not> ts_found s \<longrightarrow> ts_start s = 0) \<and>
     (\<forall>i j. marker 217 pre i \<longrightarrow> j < i \<longrightarrow> \<not> marker 216 pre j)"

lemma pair_at_window:
  assumes "window_ok pre s"
  shows "pair_at ((ts_buf s)[ts_pos s := c]) (ts_pos s) d \<longleftrightarrow> pre \<noteq> [] \<and> last pre = 255 \<and> c = d"
  using assms by (auto simp: pair_at_def window_ok_def nth_list_update split: if_splits)

lemma window_next_ok:
  assumes "window_ok pre s" "window_next ((ts_buf s)[ts_pos s := c]) (ts_pos s) = (buf', k')"
  shows "window_ok (pre @ [c]) (t\<lparr>ts_buf := buf', ts_pos := k'\<rparr>)"
proof -
  have l: "length (ts_buf s) = 8" "ts_pos s < 8" using assms(1) by (auto simp: window_ok_def)
  show ?thesis
  proof (cases "ts_pos s < 6")
    case True
    then show ?thesis using assms(2) l by (auto simp: window_ok_def window_next_def Let_def)
  next
    case False
    then have "ts_pos s = 6 \<or> ts_pos s = 7" using l by linarith
    then show ?thesis using assms(2) l by (auto simp: window_ok_def window_next_def Let_def split: if_splits)
  qed
qed

lemma thm_step_continue:
  assumes "window_ok pre s" "found_ok pre s" "thm_step c (int (Suc (length pre))) s = (s', False)"
  shows "window_ok (pre @ [c]) s' \<and> found_ok (pre @ [c]) s'"
proof -
  obtain buf' k' where w: "window_next ((ts_buf s)[ts_pos s := c]) (ts_pos s) = (buf', k')" by (metis surj_pair)
  note p = pair_at_window [OF assms(1), of c]
  let ?n = "length pre"
  have s': "s' = (let s1 = (if pre \<noteq> [] \<and> last pre = 255 \<and> c = 216 then s\<lparr>ts_start := int ?n - 1, ts_found := True\<rparr> else s);
        s2 = (if pre \<noteq> [] \<and> last pre = 255 \<and> c = 217 then s1\<lparr>ts_end := int ?n + 1\<rparr> else s1) in s2\<lparr>ts_buf := buf', ts_pos := k'\<rparr>)"
    and stop: "\<not> (pre \<noteq> [] \<and> last pre = 255 \<and> c = 217 \<and> ts_found s)"
    using assms(3) w p by (auto simp: thm_step_def Let_def split: if_splits)
  have "window_ok (pre @ [c]) s'" using window_next_ok [OF assms(1) w] by (simp only: s' Let_def)
  moreover have "found_ok (pre @ [c]) s'"
  proof (cases "pre \<noteq> [] \<and> last pre = 255 \<and> c = 216")
    case True
    have m: "marker 216 (pre @ [c]) i \<longleftrightarrow> marker 216 pre i \<or> i = ?n - 1" "marker 217 (pre @ [c]) i = marker 217 pre i" for i
      using True by (auto simp: marker_snoc)
    have l: "marker d pre i \<Longrightarrow> i < ?n - 1" for d i by (auto simp: marker_def)
    have st: "ts_start s' = int (?n - 1)" "ts_found s'" using True by (auto simp: s' Let_def of_nat_diff Suc_leI)
    show ?thesis using assms(2) l st unfolding found_ok_def m by (auto dest: l)
  next
    case False
    have m: "marker 216 (pre @ [c]) i = marker 216 pre i" for i using False by (auto simp: marker_snoc)
    have st: "ts_start s' = ts_start s" "ts_found s' = ts_found s" using False by (auto simp: s' Let_def)
    have e: "marker 217 (pre @ [c]) i \<Longrightarrow> j < i \<Longrightarrow> \<not> marker 216 pre j" for i j
      using assms(2) stop by (cases "marker 217 pre i") (auto simp: found_ok_def marker_snoc)
    show ?thesis using assms(2) e unfolding found_ok_def m st by blast
  qed
  ultimately show ?thesis by simp
qed

lemma thm_step_stop:
  assumes "window_ok pre s" "thm_step c p s = (s', stop)"
  shows "stop \<longleftrightarrow> pre \<noteq> [] \<and> last pre = 255 \<and> c = 217 \<and> ts_found s" "stop \<Longrightarrow> ts_start s' = ts_start s \<and> ts_end s' = p"
  using assms(2) pair_at_window [OF assms(1), of c] by (auto simp: thm_step_def Let_def split: if_splits prod.splits)

lemma last_marker:
  assumes "marker d (pre @ suf) e" "length pre = Suc e"
  shows "pre \<noteq> [] \<and> last pre = 255 \<and> suf \<noteq> [] \<and> hd suf = d"
proof -
  have "pre \<noteq> []" "last pre = pre ! e" using assms(2) by (metis length_0_conv nat.distinct(1), metis diff_Suc_1 last_conv_nth length_0_conv nat.distinct(1))
  then show ?thesis using assms by (cases suf) (auto simp: marker_def nth_append)
qed

lemma thm_loop_finds:
  assumes "window_ok pre s" "found_ok pre s" "thumb_at (pre @ suf) st e" "length pre \<le> Suc e"
  shows "ts_start (thm_loop suf (int (length pre)) s) = int st \<and> ts_end (thm_loop suf (int (length pre)) s) = int e + 2"
  using assms
proof (induction suf arbitrary: pre s)
  case Nil
  then have "Suc e < length pre" by (simp add: thumb_at_def marker_def)
  then show ?case using Nil.prems(4) by simp
next
  case (Cons c suf)
  obtain s' stop where 1: "thm_step c (int (Suc (length pre))) s = (s', stop)" by (metis surj_pair)
  note t = Cons.prems(3) [unfolded thumb_at_def list_all_iff]
  note stop = thm_step_stop [OF Cons.prems(1) 1]
  have found: "marker 216 pre st \<and> ts_found s" if "length pre = Suc e"
    using t that Cons.prems(2) by (auto simp: marker_def nth_append found_ok_def)
  show ?case
  proof (cases stop)
    case False
    then have n: "length pre \<noteq> Suc e" using stop(1) found last_marker [of 217 pre "c # suf" e] t by auto
    have k: "window_ok (pre @ [c]) s' \<and> found_ok (pre @ [c]) s'"
      using thm_step_continue [OF Cons.prems(1,2)] 1 False by simp
    have "thm_loop (c # suf) (int (length pre)) s = thm_loop suf (int (length (pre @ [c]))) s'"
      using 1 False by (simp add: algebra_simps)
    then show ?thesis using Cons.IH [of "pre @ [c]" s'] k Cons.prems(3,4) n by simp
  next
    case True
    have c: "pre \<noteq> []" "last pre = 255" "c = 217" "ts_found s" using stop(1) True by simp_all
    obtain j where j: "ts_start s = int j" "marker 216 pre j" "\<forall>i>j. \<not> marker 216 pre i"
      using Cons.prems(2) c(4) by (auto simp: found_ok_def)
    define i where "i = length pre - 1"
    have i: "length pre = Suc i" "pre ! i = 255" using c(1,2) by (auto simp: i_def last_conv_nth)
    have m: "marker 217 (pre @ c # suf) i" using i c(3) by (simp add: marker_def nth_append)
    have ji: "j < i" using j(2) i by (auto simp: marker_def less_Suc_eq)
    have all: "marker 216 (pre @ c # suf) j" using marker_append [OF j(2)] .
    have "i = e"
    proof (rule ccontr)
      assume "i \<noteq> e"
      then have "i < e" using Cons.prems(4) i by simp
      then show False using t m ji all by (cases "st \<le> i") auto
    qed
    moreover have "j = st"
    proof (rule ccontr)
      assume "j \<noteq> st"
      moreover have "marker 216 pre st" using found i \<open>i = e\<close> by simp
      ultimately have "st < j" using j(3) by (meson linorder_neqE_nat)
      then show False using t all ji \<open>i = e\<close> by auto
    qed
    ultimately show ?thesis using 1 True stop(2) j(1) i by (simp add: add.commute)
  qed
qed

text \<open>
  C32. When a JPEG file holds an image inside (a start marker, an end marker after it and none of the two between them; the first such pair), then
  exactly its bytes, markers included, are taken, unless they are the whole file or more than 64 KB. The window of eight
  characters, which is thrown away when it is full, loses no marker.
\<close>

theorem GetThmFromJpg_correct:
  assumes "thumb_at bytes s e"
  shows "GetThmFromJpg (Some bytes) True =
    (if e + 2 - s \<le> 65536 \<and> e + 2 - s < length bytes then (0, Some (take (e + 2 - s) (drop s bytes))) else (-1, None))"
proof -
  have w: "window_ok [] thm_start" "found_ok [] thm_start" by (simp_all add: window_ok_def found_ok_def thm_start_def marker_def)
  have f: "ts_start (thm_loop bytes 0 thm_start) = int s" "ts_end (thm_loop bytes 0 thm_start) = int e + 2"
    using thm_loop_finds [OF w, of bytes s e] assms by simp_all
  have e: "s < e" "Suc e < length bytes" using assms by (auto simp: thumb_at_def marker_def)
  define m where "m = e + 2 - s"
  have n: "int e + 2 - int s = int m" "0 < m" "m \<le> length bytes - s" using e by (simp_all add: m_def)
  show ?thesis
    using n(2,3) unfolding GetThmFromJpg_def Let_def option.case f n(1) MAX_THM_SIZE_def m_def [symmetric] by auto
qed

lemma GetThmFromJpg_correct_witness:
  "GetThmFromJpg (Some [255, 216, 255, 225, 255, 216, 7, 255, 217, 9, 255, 217]) True = (0, Some [255, 216, 7, 255, 217])"
proof -
  have "thumb_at [255, 216, 255, 225, 255, 216, 7, 255, 217, 9, 255, 217] 4 7" by code_simp
  from GetThmFromJpg_correct [OF this] show ?thesis by simp
qed

text \<open>Without any start marker the bytes before the last end marker are taken for a thumbnail.\<close>

lemma thumbnail_without_start: "GetThmFromJpg (Some [1, 2, 255, 217, 3]) True = (0, Some [1, 2, 255, 217])"
  by code_simp

text \<open>After a short write the rest is asked for with the full length again, which reads behind the buffer; and a target that does not open leaves the buffer.\<close>

lemma short_write_reads_behind: "Getdcfinfo (Some [255, 216, 7, 255, 217, 3]) True True (\<lambda>k. if k = 0 then 2 else 3) = (0, [(0, 5), (2, 5)], False)"
  by code_simp

lemma target_leaks_buffer: "Getdcfinfo (Some [255, 216, 7, 255, 217, 3]) True False fw = (-1, [], True)"
proof -
  have "GetThmFromJpg (Some [255, 216, 7, 255, 217, 3]) True = (0, Some [255, 216, 7, 255, 217])" by code_simp
  then show ?thesis by (simp add: Getdcfinfo_def)
qed

section \<open>A packet in the circular buffer\<close>

lemma mem_bytes_map: "0 \<le> a \<Longrightarrow> a + int n \<le> 4294967296 \<Longrightarrow> mem_bytes mem a n = map (\<lambda>k. mem (a + int k)) [0..<n]"
  by (auto simp: mem_bytes_def u32_id in_u32_def)

text \<open>Places in a ring of \<open>n\<close> from \<open>b\<close> on: before its end, behind it, and over it.\<close>

lemma ring_below:
  "0 \<le> x \<Longrightarrow> x + int m \<le> n \<Longrightarrow> map (\<lambda>k. mem (b + (x + int k) mod n)) [0..<m] = map (\<lambda>k. mem (b + x + int k)) [0..<m]"
proof (intro map_cong refl)
  fix k assume "0 \<le> x" "x + int m \<le> n" "k \<in> set [0..<m]"
  then have "(x + int k) mod n = x + int k" by (intro mod_pos_pos_trivial) auto
  then show "mem (b + (x + int k) mod n) = mem (b + x + int k)" by (simp add: add.assoc)
qed

lemma ring_behind:
  "n \<le> x \<Longrightarrow> x + int m \<le> 2 * n \<Longrightarrow> map (\<lambda>k. mem (b + (x + int k) mod n)) [0..<m] = map (\<lambda>k. mem (b + (x - n) + int k)) [0..<m]"
  using ring_below [of "x - n" m n mem b] by (simp add: mod_diff_left_eq [symmetric] diff_add_eq minus_mod_self2)

lemma ring_over:
  assumes "0 \<le> x" "x + int r = n" "int q \<le> n"
  shows "map (\<lambda>k. mem (b + (x + int k) mod n)) [0..<r + q] = map (\<lambda>k. mem (b + x + int k)) [0..<r] @ map (\<lambda>k. mem (b + int k)) [0..<q]"
proof -
  have "[0..<r + q] = [0..<r] @ map (\<lambda>k. k + r) [0..<q]"
    unfolding map_add_upt using upt_add_eq_append [of 0 r q] by (simp only: le0 add.commute)
  moreover have "map (\<lambda>k. mem (b + (x + int (k + r)) mod n)) [0..<q] = map (\<lambda>k. mem (b + int k)) [0..<q]"
  proof -
    have "x + int (k + r) = n + int k" for k using assms(2) by simp
    then show ?thesis using ring_behind [of n n q mem b] assms(3) by (simp del: of_nat_add)
  qed
  ultimately show ?thesis
    using ring_below [of x r n mem b] assms(1,2) by (simp only: map_append map_map comp_def order_refl)
qed

text \<open>
  C33. When a packet of the encoder lies in one of the stream buffers, what is written for it is its bytes behind the offset, taken
  from the buffer as a ring: byte \<open>k\<close> is at the packet's place plus the offset plus \<open>k\<close>, modulo the size of the buffer, whether the end of the
  buffer comes before, in or behind the part with the data.
\<close>

theorem save_pack_ring:
  assumes "find_tile (pk_phy p) ts = Some (b, n)" "0 \<le> b" "0 < n" "b + n < 4294967296"
    and "b < pk_phy p" "pk_phy p \<le> b + n" "0 \<le> pk_off p" "pk_off p \<le> pk_len p" "pk_len p \<le> n"
  shows "save_pack mem ts p = Some (map (\<lambda>k. mem (b + (pk_phy p - b + pk_off p + int k) mod n)) [0..<nat (pk_len p - pk_off p)])"
proof -
  define a where "a = pk_phy p"
  define f where "f = pk_off p"
  define l where "l = pk_len p"
  define x where "x = a - b + f"
  define m where "m = nat (l - f)"
  note A = assms(2-) [folded a_def f_def l_def]
  note u = u64_id u32_id in_u32_def
  note sp = save_pack_def a_def [symmetric] f_def [symmetric] l_def [symmetric] assms(1) [folded a_def] option.case prod.case Let_def
  have e: "u64 (b + n) = b + n" "u64 (a + l) = a + l" "u64 (a + f) = a + f" "u32 (l - f) = l - f" "b + x = a + f" "int m = l - f"
    using A by (auto simp: u x_def m_def)
  consider (behind) "b + n \<le> a + f" | (over) "a + f < b + n" "b + n \<le> a + l" | (below) "a + l < b + n" by linarith
  then have "save_pack mem ts p = Some (map (\<lambda>k. mem (b + (x + int k) mod n)) [0..<m])"
  proof cases
    case behind
    then have t: "b + n \<le> a + l" "u64 (a + f - (b + n)) = a + f - (b + n)" "u64 (b + (a + f - (b + n))) = b + (x - n)" "n \<le> x" "x + int m \<le> 2 * n"
      using A e(6) by (auto simp: u x_def)
    then show ?thesis
      using behind mem_bytes_map [of "b + (x - n)" m mem] A t(4,5) e(6) unfolding sp e t ring_behind [OF t(4,5)] by (simp add: m_def [symmetric])
  next
    case over
    define r where "r = nat (b + n - a - f)"
    define q where "q = nat (l - (b + n - a))"
    have t: "u32 (b + n - a) = b + n - a" "u32 (b + n - a - f) = b + n - a - f" "u32 (l - (b + n - a)) = l - (b + n - a)"
      "m = r + q" "0 \<le> x" "x + int r = n" "int q \<le> n" "a + f + int r = b + n"
      using A over by (auto simp: u x_def m_def r_def q_def)
    show ?thesis
      using over mem_bytes_map [of "b + x" r mem] mem_bytes_map [of b q mem] A t(5-8)
      unfolding sp e t(1-4) by (simp add: ring_over e(5) r_def [symmetric] q_def [symmetric])
  next
    case below
    then have t: "0 \<le> x" "x + int m \<le> n" "\<not> b + n \<le> a + l" "0 \<le> a + f" "a + f + int m \<le> 4294967296" using A e(6) by (auto simp: x_def)
    show ?thesis
      using mem_bytes_map [OF t(4,5), of mem] t(3) unfolding sp e ring_below [OF t(1,2)] by (simp add: m_def [symmetric])
  qed
  then show ?thesis by (simp add: a_def f_def l_def x_def m_def)
qed

lemma save_pack_ring_witness:
  "save_pack (\<lambda>x. x) [(1000, 100)] \<lparr>pk_phy = 1096, pk_vir = 0, pk_len = 8, pk_off = 2\<rparr> = Some [1098, 1099, 1000, 1001, 1002, 1003]"
  using save_pack_ring [of "\<lparr>pk_phy = 1096, pk_vir = 0, pk_len = 8, pk_off = 2\<rparr>" "[(1000, 100)]" 1000 100 "\<lambda>x. x"]
  by (simp add: u64_id upt_rec)

text \<open>A packet at the very start of the buffer is not found in it.\<close>

lemma pack_at_start_not_found: "save_pack mem [(1000, 100)] \<lparr>pk_phy = 1000, pk_vir = 0, pk_len = 8, pk_off = 0\<rparr> = None"
  by (simp add: save_pack_def)

text \<open>All packets one after the other.\<close>

lemma SaveStream_PhyAddr_concat:
  assumes "list_all (\<lambda>p. save_pack mem ts p = Some (f p)) ps"
  shows "SaveStream_PhyAddr mem ts ps = Some (concat (map f ps))"
  using assms by (induction ps) simp_all

end
