(* ===== verification/Vdec_Stream.thy ===== *)
theory Vdec_Stream
  imports AIPC_Prelude Media_Types
begin

text \<open>
  The thread that feeds a decoder from a file (common/sdk2v0/sample_comm_vdec.c, \<open>SAMPLE_COMM_VDEC_SendStream\<close>): it reads the
  file in buffers, cuts a picture off the front of each, sends it until the decoder takes it, and goes on behind it.

  The file and the buffer are lists of bytes. What the decoder answers, and what another thread has
  written into \<open>eThreadCtrl\<close>, are functions of the events so far; every reading of \<open>eThreadCtrl\<close> is an event.
\<close>

section \<open>Where a picture ends\<close>

text \<open>The first index from \<open>i\<close> below \<open>n\<close> where \<open>P\<close> holds, or where the loop stops.\<close>

definition seek :: "(nat \<Rightarrow> bool) \<Rightarrow> nat \<Rightarrow> nat \<Rightarrow> nat" where
  "seek P i n = (case find P [i..<n] of None \<Rightarrow> max i n | Some j \<Rightarrow> j)"

definition start_code :: "int list \<Rightarrow> nat \<Rightarrow> bool" where
  "start_code b i \<longleftrightarrow> b ! i = 0 \<and> b ! (i + 1) = 0 \<and> b ! (i + 2) = 1"

definition top_bit :: "int \<Rightarrow> bool" where
  "top_bit x \<longleftrightarrow> x div 128 mod 2 = 1"

text \<open>H.264: the first slice of a picture; the begin of the next access unit.\<close>

definition h264_start :: "int list \<Rightarrow> nat \<Rightarrow> bool" where
  "h264_start b i \<longleftrightarrow>
     (let t = b ! (i + 3) mod 32
      in start_code b i \<and> ((t = 5 \<or> t = 1) \<and> top_bit (b ! (i + 4)) \<or> t = 20 \<and> top_bit (b ! (i + 7))))"

definition h264_next :: "int list \<Rightarrow> nat \<Rightarrow> bool" where
  "h264_next b i \<longleftrightarrow>
     (let t = b ! (i + 3) mod 32
      in start_code b i \<and> (t = 15 \<or> t = 7 \<or> t = 8 \<or> t = 6 \<or> (t = 5 \<or> t = 1) \<and> top_bit (b ! (i + 4)) \<or> t = 20 \<and> top_bit (b ! (i + 7))))"

definition h265_start :: "int list \<Rightarrow> nat \<Rightarrow> bool" where
  "h265_start b i \<longleftrightarrow> (let t = b ! (i + 3) div 2 mod 64 in start_code b i \<and> t \<le> 21 \<and> top_bit (b ! (i + 5)))"

definition h265_next :: "int list \<Rightarrow> nat \<Rightarrow> bool" where
  "h265_next b i \<longleftrightarrow>
     (let t = b ! (i + 3) div 2 mod 64
      in start_code b i \<and> (t = 32 \<or> t = 33 \<or> t = 34 \<or> t = 39 \<or> t = 40 \<or> t \<le> 21 \<and> top_bit (b ! (i + 5))))"

text \<open>
  The length sent, for \<open>L\<close> bytes read: the searches stop \<open>m\<close> bytes before the end, and the second begins \<open>m\<close> bytes behind what
  the first has found.
\<close>

definition cut_video :: "(int list \<Rightarrow> nat \<Rightarrow> bool) \<Rightarrow> (int list \<Rightarrow> nat \<Rightarrow> bool) \<Rightarrow> nat \<Rightarrow> int list \<Rightarrow> nat \<Rightarrow> nat" where
  "cut_video start next m b L =
     (let n = L - m; i = seek (start b) 0 n; found = (i < n);
          i2 = seek (next b) (if found then i + m else i) n;
          len = (if 0 < i2 then i2 else L)
      in if i2 < n then len else i2 + m)"

text \<open>Application segments behind the start of a JPEG picture are skipped by their length.\<close>

function skip_app :: "int list \<Rightarrow> nat \<Rightarrow> nat \<Rightarrow> nat" where
  "skip_app b L i =
     (if i + 3 < L \<and> b ! i = 255 \<and> b ! (i + 1) div 16 mod 16 = 14
      then skip_app b L (i + 1 + nat (b ! (i + 2) * 256 + b ! (i + 3)) + 1) else i)"
  by pat_completeness auto
termination by (relation "measure (\<lambda>(b, L, i). L - i)") auto

declare skip_app.simps [simp del]

definition jpeg_start :: "int list \<Rightarrow> nat \<Rightarrow> bool" where
  "jpeg_start b i \<longleftrightarrow> b ! i = 255 \<and> b ! (i + 1) = 216"

definition jpeg_end :: "int list \<Rightarrow> nat \<Rightarrow> bool" where
  "jpeg_end b i \<longleftrightarrow> b ! i = 255 \<and> b ! (i + 1) = 217"

text \<open>The start and the length sent.\<close>

definition cut_jpeg :: "int list \<Rightarrow> nat \<Rightarrow> nat \<times> nat" where
  "cut_jpeg b L =
     (let i = seek (jpeg_start b) 0 (L - 1); found = (i < L - 1);
          i1 = skip_app b L (if found then i + 2 else i)
      in (if found then i else 0, seek (jpeg_end b) i1 (L - 1) + 2))"

section \<open>The thread\<close>

datatype thread_ctrl = THREAD_CTRL_START | THREAD_CTRL_PAUSE | THREAD_CTRL_STOP

text \<open>What is sent: the bytes (\<open>None\<close>: behind the buffer), their time stamp, and the flags.\<close>

record vdec_strm =
  vs_data :: "int list option"
  vs_pts :: int
  vs_frame_end :: bool
  vs_stream_end :: bool

datatype vdec_event = Ev_ctrl | Ev_sent vdec_strm int | Ev_sleep | Ev_open | Ev_malloc | Ev_free | Ev_close

record vdec_env =
  ve_ctrl :: "vdec_event list \<Rightarrow> thread_ctrl"
  ve_send :: "vdec_event list \<Rightarrow> int"

record vdec_par =
  vd_type :: payload_type
  vd_frames :: bool
  vd_bufsize :: nat
  vd_pts :: int
  vd_pts_inc :: int
  vd_circle :: bool

record send_state =
  sd_used :: int
  sd_pos :: nat
  sd_buf :: "int list"
  sd_pts :: int
  sd_tr :: "vdec_event list"

definition vdec_cut :: "vdec_par \<Rightarrow> int list \<Rightarrow> nat \<Rightarrow> nat \<times> nat \<times> bool" where
  "vdec_cut p b L =
     (if vd_frames p \<and> vd_type p = PT_H264 then (0, cut_video h264_start h264_next 8 b L, False)
      else if vd_frames p \<and> vd_type p = PT_H265 then (0, cut_video h265_start h265_next 6 b L, False)
      else if vd_type p = PT_MJPEG \<or> vd_type p = PT_JPEG then (let (s, n) = cut_jpeg b L in (s, n, False))
      else (0, L, L \<noteq> 0 \<and> L < vd_bufsize p))"

definition end_of_stream :: vdec_strm where
  "end_of_stream = \<lparr>vs_data = Some [], vs_pts = 0, vs_frame_end = False, vs_stream_end = True\<rparr>"

definition send_once :: "vdec_env \<Rightarrow> vdec_strm \<Rightarrow> vdec_event list \<Rightarrow> int \<times> vdec_event list" where
  "send_once e x tr = (let r = ve_send e tr in (r, tr @ [Ev_sent x r]))"

text \<open>Sending again until the decoder takes it or the thread is to pause or stop. \<open>None\<close>: the fuel is used up.\<close>

fun send_again :: "vdec_env \<Rightarrow> vdec_strm \<Rightarrow> nat \<Rightarrow> vdec_event list \<Rightarrow> vdec_event list option" where
  "send_again e x 0 tr = None"
| "send_again e x (Suc k) tr =
     (let (r, tr1) = send_once e x tr
      in if r \<noteq> 0 then (let c = ve_ctrl e tr1; tr2 = tr1 @ [Ev_ctrl]
             in if c = THREAD_CTRL_START then send_again e x k (tr2 @ [Ev_sleep]) else Some tr2)
         else Some tr1)"

text \<open>Seeking to \<open>s32UsedBytes\<close> and reading a buffer; a negative position leaves the file where it is.\<close>

definition read_buffer :: "int list \<Rightarrow> nat \<Rightarrow> send_state \<Rightarrow> nat \<times> send_state" where
  "read_buffer file_bytes n s =
     (let pos = (if 0 \<le> sd_used s then nat (sd_used s) else sd_pos s); got = take n (drop pos file_bytes)
      in (length got, s\<lparr>sd_pos := pos + length got, sd_buf := got @ drop (length got) (sd_buf s)\<rparr>))"

definition slice :: "int list \<Rightarrow> nat \<Rightarrow> nat \<Rightarrow> int list option" where
  "slice b s n = (if s + n \<le> length b then Some (take n (drop s b)) else None)"

definition cut_stream :: "vdec_par \<Rightarrow> send_state \<Rightarrow> nat \<Rightarrow> vdec_strm" where
  "cut_stream p s L =
     (let (st, n, eos) = vdec_cut p (sd_buf s) L
      in \<lparr>vs_data = slice (sd_buf s) st n, vs_pts = sd_pts s, vs_frame_end = vd_frames p, vs_stream_end = eos\<rparr>)"

definition advance :: "vdec_par \<Rightarrow> send_state \<Rightarrow> nat \<Rightarrow> vdec_event list \<Rightarrow> send_state" where
  "advance p s L tr =
     (let (st, n, eos) = vdec_cut p (sd_buf s) L
      in s\<lparr>sd_used := s32 (sd_used s + int n + int st), sd_pts := u64 (sd_pts s + vd_pts_inc p), sd_tr := tr @ [Ev_sleep]\<rparr>)"

text \<open>The loop, and whether it has ended within its fuel.\<close>

fun send_loop :: "vdec_env \<Rightarrow> vdec_par \<Rightarrow> int list \<Rightarrow> nat \<Rightarrow> send_state \<Rightarrow> bool \<times> send_state" where
  "send_loop e p bytes 0 s = (False, s)"
| "send_loop e p bytes (Suc k) s =
     (let c1 = ve_ctrl e (sd_tr s); tr1 = sd_tr s @ [Ev_ctrl]
      in if c1 = THREAD_CTRL_STOP then (True, s\<lparr>sd_tr := tr1\<rparr>)
         else let c2 = ve_ctrl e tr1; tr2 = tr1 @ [Ev_ctrl]
      in if c2 = THREAD_CTRL_PAUSE then send_loop e p bytes k (s\<lparr>sd_tr := tr2 @ [Ev_sleep]\<rparr>)
         else let (L, s1) = read_buffer bytes (vd_bufsize p) (s\<lparr>sd_tr := tr2\<rparr>)
      in if L = 0 \<and> \<not> vd_circle p then (True, s1)
         else let (L, s2) = (if L = 0 then read_buffer bytes (vd_bufsize p)
                  (s1\<lparr>sd_used := 0, sd_tr := snd (send_once e end_of_stream (sd_tr s1))\<rparr>) else (L, s1))
      in case send_again e (cut_stream p s2 L) k (sd_tr s2) of
           None \<Rightarrow> (False, s2)
         | Some tr \<Rightarrow> send_loop e p bytes k (advance p s2 L tr))"

text \<open>The result (\<open>None\<close>: not ended) and the events. The file is \<open>None\<close> when it does not open; \<open>junk\<close> is what the buffer holds first.\<close>

definition VDEC_SendStream :: "vdec_env \<Rightarrow> vdec_par \<Rightarrow> int list option \<Rightarrow> int list option \<Rightarrow> nat \<Rightarrow> int option \<times> vdec_event list" where
  "VDEC_SendStream e p file_bytes junk k =
     (case file_bytes of
        None \<Rightarrow> (Some (-1), [])
      | Some bytes \<Rightarrow>
        (case junk of
           None \<Rightarrow> (Some (-1), [Ev_open, Ev_close])
         | Some b \<Rightarrow>
           let (ended, s) = send_loop e p bytes k
             \<lparr>sd_used = 0, sd_pos = 0, sd_buf = b, sd_pts = vd_pts p, sd_tr = [Ev_open, Ev_malloc]\<rparr>
           in if \<not> ended then (None, sd_tr s)
              else (Some 0, snd (send_once e end_of_stream (sd_tr s)) @ [Ev_free, Ev_close])))"

section \<open>Searching\<close>

lemma seek_found: "i \<le> j \<Longrightarrow> j < n \<Longrightarrow> P j \<Longrightarrow> (\<And>k. i \<le> k \<Longrightarrow> k < j \<Longrightarrow> \<not> P k) \<Longrightarrow> seek P i n = j"
proof -
  assume a: "i \<le> j" "j < n" "P j" and b: "\<And>k. i \<le> k \<Longrightarrow> k < j \<Longrightarrow> \<not> P k"
  have "find P [i..<n] = Some j"
    unfolding find_Some_iff using a b by (intro exI [of _ "j - i"]) auto
  then show ?thesis by (simp add: seek_def)
qed

lemma seek_none: "(\<And>k. i \<le> k \<Longrightarrow> k < n \<Longrightarrow> \<not> P k) \<Longrightarrow> seek P i n = max i n"
proof -
  assume "\<And>k. i \<le> k \<Longrightarrow> k < n \<Longrightarrow> \<not> P k"
  then have "find P [i..<n] = None" by (auto simp: find_None_iff)
  then show ?thesis by (simp add: seek_def)
qed

section \<open>A file in pieces\<close>

text \<open>The sends that the decoder has taken, and how many it has refused since.\<close>

fun accepted :: "vdec_event list \<Rightarrow> vdec_strm list" where
  "accepted [] = []"
| "accepted (Ev_sent x r # tr) = (if r = 0 then x # accepted tr else accepted tr)"
| "accepted (ev # tr) = accepted tr"

fun refusals :: "vdec_event list \<Rightarrow> nat \<Rightarrow> nat" where
  "refusals [] k = k"
| "refusals (Ev_sent x r # tr) k = refusals tr (if r = 0 then 0 else Suc k)"
| "refusals (ev # tr) k = refusals tr k"

text \<open>A decoder that takes a picture after at most \<open>m\<close> refusals, while nobody asks the thread to pause or stop.\<close>

definition patient :: "vdec_env \<Rightarrow> nat \<Rightarrow> bool" where
  "patient e m \<longleftrightarrow> (\<forall>tr. m \<le> refusals tr 0 \<longrightarrow> ve_send e tr = 0) \<and> (\<forall>tr. ve_ctrl e tr = THREAD_CTRL_START)"

lemma accepted_append [simp]: "accepted (a @ b) = accepted a @ accepted b"
  by (induction a rule: accepted.induct) auto

lemma refusals_append [simp]: "refusals (a @ b) k = refusals b (refusals a k)"
  by (induction a k rule: refusals.induct) auto

lemma send_again_taken:
  "patient e m \<Longrightarrow> m - refusals tr 0 < k \<Longrightarrow>
   \<exists>tr'. send_again e x k tr = Some tr' \<and> accepted tr' = accepted tr @ [x] \<and> refusals tr' 0 = 0"
proof (induction k arbitrary: tr)
  case (Suc k)
  show ?case
  proof (cases "ve_send e tr = 0")
    case False
    define tr2 where "tr2 = tr @ [Ev_sent x (ve_send e tr), Ev_ctrl, Ev_sleep]"
    have c: "ve_ctrl e t = THREAD_CTRL_START" for t using Suc.prems(1) by (simp add: patient_def)
    have "refusals tr 0 < m" using Suc.prems(1) False unfolding patient_def by (meson linorder_not_le)
    moreover have "refusals tr2 0 = Suc (refusals tr 0)" using False by (simp add: tr2_def)
    ultimately have "m - refusals tr2 0 < k" using Suc.prems(2) by simp
    from Suc.IH [OF Suc.prems(1) this] show ?thesis using False by (simp add: send_once_def Let_def c tr2_def)
  qed (simp add: send_once_def Let_def)
qed simp

text \<open>Pieces of a file, each fine in front of the rest; and what is sent for them: one stream each, with equal steps of the time stamp.\<close>

fun pieces_ok :: "(int list \<Rightarrow> int list \<Rightarrow> bool) \<Rightarrow> int list list \<Rightarrow> bool" where
  "pieces_ok ok [] = True"
| "pieces_ok ok (q # qs) = (ok q (concat qs) \<and> pieces_ok ok qs)"

fun stamped :: "vdec_par \<Rightarrow> (int list \<Rightarrow> bool) \<Rightarrow> int \<Rightarrow> int list list \<Rightarrow> vdec_strm list" where
  "stamped p eos t [] = []"
| "stamped p eos t (q # qs) =
     \<lparr>vs_data = Some q, vs_pts = t, vs_frame_end = vd_frames p, vs_stream_end = eos q\<rparr> # stamped p eos (u64 (t + vd_pts_inc p)) qs"

text \<open>
  \<open>ok q rest\<close>: when \<open>q\<close> and then \<open>rest\<close> lie ahead in the file, the cut is \<open>q\<close>, whatever the buffer holds behind what was
  read. Then a file made of such pieces is sent piece by piece.
\<close>

locale splitter =
  fixes p :: vdec_par
    and ok :: "int list \<Rightarrow> int list \<Rightarrow> bool"
    and eos :: "int list \<Rightarrow> bool"
  assumes piece: "ok q rest \<Longrightarrow> q \<noteq> [] \<and> length q \<le> vd_bufsize p"
    and cut: "ok q rest \<Longrightarrow> b = take (vd_bufsize p) (q @ rest) \<Longrightarrow> vdec_cut p (b @ stale) (length b) = (0, length q, eos q)"
begin

lemma sends_all:
  assumes "patient e m" "\<not> vd_circle p"
  shows "pieces_ok ok qs \<Longrightarrow> sd_used s = int (length pre) \<Longrightarrow> length (sd_buf s) = vd_bufsize p \<Longrightarrow> refusals (sd_tr s) 0 = 0 \<Longrightarrow>
    int (length (pre @ concat qs)) < 2147483648 \<Longrightarrow> length qs + m + 1 < k \<Longrightarrow>
    \<exists>s'. send_loop e p (pre @ concat qs) k s = (True, s') \<and> accepted (sd_tr s') = accepted (sd_tr s) @ stamped p eos (sd_pts s) qs"
proof (induction qs arbitrary: pre s k)
  case Nil
  then obtain k' where k: "k = Suc k'" by (metis less_nat_zero_code not0_implies_Suc)
  have c: "ve_ctrl e t = THREAD_CTRL_START" for t using assms(1) by (simp add: patient_def)
  show ?case using Nil.prems(2) assms(2) by (simp add: k c Let_def read_buffer_def)
next
  case (Cons q qs)
  then obtain k' where k: "k = Suc k'" by (metis less_nat_zero_code not0_implies_Suc)
  have c: "ve_ctrl e t = THREAD_CTRL_START" for t using assms(1) by (simp add: patient_def)
  have ok: "ok q (concat qs)" using Cons.prems(1) by simp
  define tr where "tr = sd_tr s @ [Ev_ctrl, Ev_ctrl]"
  define b where "b = take (vd_bufsize p) (q @ concat qs)"
  define s2 where "s2 = s\<lparr>sd_tr := tr, sd_pos := length pre + length b, sd_buf := b @ drop (length b) (sd_buf s)\<rparr>"
  have rd: "read_buffer (pre @ concat (q # qs)) (vd_bufsize p) (s\<lparr>sd_tr := tr\<rparr>) = (length b, s2)"
    using Cons.prems(2) by (simp add: read_buffer_def s2_def b_def)
  have q: "q \<noteq> []" "length q \<le> vd_bufsize p" using piece [OF ok] by simp_all
  then have b: "b \<noteq> []" "length q \<le> length b" "take (length q) b = q" by (auto simp: b_def)
  have ct: "vdec_cut p (sd_buf s2) (length b) = (0, length q, eos q)" using cut [OF ok b_def] by (simp add: s2_def)
  have x: "cut_stream p s2 (length b) = \<lparr>vs_data = Some q, vs_pts = sd_pts s, vs_frame_end = vd_frames p, vs_stream_end = eos q\<rparr>"
    unfolding cut_stream_def ct using b by (simp add: slice_def s2_def)
  have rf: "m - refusals (sd_tr s2) 0 < k'" using Cons.prems(4,6) by (simp add: s2_def tr_def k)
  obtain tr' where t: "send_again e (cut_stream p s2 (length b)) k' (sd_tr s2) = Some tr'"
    "accepted tr' = accepted (sd_tr s2) @ [cut_stream p s2 (length b)]" "refusals tr' 0 = 0"
    using send_again_taken [OF assms(1) rf] by blast
  define s3 where "s3 = advance p s2 (length b) tr'"
  have u: "sd_used s3 = int (length (pre @ q))"
    using Cons.prems(2,5) unfolding s3_def advance_def ct by (simp add: s2_def s32_id in_s32_def)
  have s3: "length (sd_buf s3) = vd_bufsize p" "refusals (sd_tr s3) 0 = 0" "sd_pts s3 = u64 (sd_pts s + vd_pts_inc p)"
    "accepted (sd_tr s3) = accepted (sd_tr s) @ [cut_stream p s2 (length b)]"
    using Cons.prems(3) t(2,3) unfolding s3_def advance_def ct by (auto simp: s2_def b_def tr_def)
  have step: "send_loop e p (pre @ concat (q # qs)) k s = send_loop e p ((pre @ q) @ concat qs) k' s3"
    using b(1) rd t(1) by (simp add: k c Let_def tr_def s3_def)
  show ?case
    using Cons.IH [of s3 "pre @ q" k', OF _ u s3(1,2)] Cons.prems(1,5,6) s3(3,4) unfolding step by (simp add: k x)
qed

text \<open>The whole thread: every piece is sent once, in order, then the end of the stream, and the file and the buffer are given back.\<close>

lemma thread_sends:
  assumes "patient e m" "\<not> vd_circle p" "pieces_ok ok qs" "length junk = vd_bufsize p" "int (length (concat qs)) < 2147483648"
    and "length qs + m + 1 < k"
  shows "\<exists>tr r. VDEC_SendStream e p (Some (concat qs)) (Some junk) k = (Some 0, tr @ [Ev_sent end_of_stream r, Ev_free, Ev_close]) \<and>
    accepted tr = stamped p eos (vd_pts p) qs"
proof -
  define s where "s = \<lparr>sd_used = 0, sd_pos = 0, sd_buf = junk, sd_pts = vd_pts p, sd_tr = [Ev_open, Ev_malloc]\<rparr>"
  obtain s' where "send_loop e p ([] @ concat qs) k s = (True, s')" "accepted (sd_tr s') = accepted (sd_tr s) @ stamped p eos (sd_pts s) qs"
    using sends_all [OF assms(1,2,3), of s "[]" k] assms(4-) by (auto simp: s_def)
  then show ?thesis by (auto simp: VDEC_SendStream_def s_def [symmetric] send_once_def Let_def) (simp add: s_def)
qed

end

section \<open>Pictures of a JPEG stream\<close>

text \<open>Segments \<open>0xFF 0xEn\<close> with their length, then anything without an end marker, which does not begin like a segment.\<close>

definition app_seg :: "int \<times> int list \<Rightarrow> int list" where
  "app_seg sg = [255, fst sg, (int (length (snd sg)) + 2) div 256, (int (length (snd sg)) + 2) mod 256] @ snd sg"

type_synonym jpeg_pic = "(int \<times> int list) list \<times> int list"

definition jpeg_bytes :: "jpeg_pic \<Rightarrow> int list" where
  "jpeg_bytes j = [255, 216] @ concat (map app_seg (fst j)) @ snd j @ [255, 217]"

definition jpeg_good :: "jpeg_pic \<Rightarrow> bool" where
  "jpeg_good j \<longleftrightarrow>
     list_all (\<lambda>sg. fst sg div 16 mod 16 = 14 \<and> int (length (snd sg)) + 2 < 65536) (fst j) \<and>
     (let b = snd j @ [255, 217]
      in (b ! 0 \<noteq> 255 \<or> b ! 1 div 16 mod 16 \<noteq> 14) \<and> list_all (\<lambda>i. \<not> jpeg_end b i) [0..<length (snd j)])"

definition jpeg_ok :: "vdec_par \<Rightarrow> int list \<Rightarrow> int list \<Rightarrow> bool" where
  "jpeg_ok p q rest \<longleftrightarrow> (vd_type p = PT_MJPEG \<or> vd_type p = PT_JPEG) \<and> length q \<le> vd_bufsize p \<and> (\<exists>j. jpeg_good j \<and> q = jpeg_bytes j)"

lemma skip_segments:
  assumes "list_all (\<lambda>sg. fst sg div 16 mod 16 = 14 \<and> int (length (snd sg)) + 2 < 65536) sgs"
    and "2 \<le> length tail" "tail ! 0 \<noteq> 255 \<or> tail ! 1 div 16 mod 16 \<noteq> 14" "length (pre @ concat (map app_seg sgs)) + 2 \<le> L"
  shows "skip_app (pre @ concat (map app_seg sgs) @ tail) L (length pre) = length (pre @ concat (map app_seg sgs))"
  using assms(1,4)
proof (induction sgs arbitrary: pre)
  case Nil
  then show ?case using assms(2,3) by (subst skip_app.simps) (auto simp: nth_append)
next
  case (Cons sg sgs)
  obtain m d where sg: "sg = (m, d)" by (cases sg)
  let ?n = "int (length d) + 2"
  let ?b = "pre @ concat (map app_seg (sg # sgs)) @ tail"
  have at: "?b ! length pre = 255" "?b ! (length pre + 1) = m" "?b ! (length pre + 2) = ?n div 256" "?b ! (length pre + 3) = ?n mod 256"
    by (simp_all add: sg app_seg_def nth_append)
  have n: "nat (?n div 256 * 256 + ?n mod 256) = length d + 2" by simp
  have "length pre + 3 < L" using Cons.prems(2) by (simp add: sg app_seg_def)
  then have "skip_app ?b L (length pre) = skip_app ?b L (length pre + 1 + (length d + 2) + 1)"
    using Cons.prems(1) by (subst skip_app.simps) (simp only: at n, simp add: sg)
  also have "length pre + 1 + (length d + 2) + 1 = length (pre @ app_seg sg)" by (simp add: sg app_seg_def)
  finally show ?case using Cons.IH [of "pre @ app_seg sg"] Cons.prems by simp
qed

lemma cut_jpeg_picture:
  assumes "jpeg_good j" "length (jpeg_bytes j) \<le> L"
  shows "cut_jpeg (jpeg_bytes j @ rest) L = (0, length (jpeg_bytes j))"
proof -
  let ?b = "jpeg_bytes j @ rest"
  let ?m = "2 + length (concat (map app_seg (fst j)))"
  let ?t = "snd j @ [255, 217] @ rest"
  have len: "length (jpeg_bytes j) = ?m + length (snd j) + 2" by (simp add: jpeg_bytes_def)
  have 0: "seek (jpeg_start ?b) 0 (L - 1) = 0"
    using assms(2) len by (intro seek_found) (auto simp: jpeg_start_def jpeg_bytes_def)
  have e: "?b = [255, 216] @ concat (map app_seg (fst j)) @ ?t" by (simp add: jpeg_bytes_def)
  have head: "?t ! 0 = (snd j @ [255, 217]) ! 0" "?t ! 1 = (snd j @ [255, 217]) ! 1"
    by (cases "snd j"; cases "tl (snd j)"; simp add: nth_append)+
  have "skip_app ([255, 216] @ concat (map app_seg (fst j)) @ ?t) L (length [255, 216::int]) = length ([255, 216] @ concat (map app_seg (fst j)))"
    using assms len head by (intro skip_segments) (auto simp: jpeg_good_def Let_def)
  then have 1: "skip_app ?b L 2 = ?m" unfolding e by (simp add: numeral_2_eq_2)
  have at: "?b ! (?m + k) = (snd j @ [255, 217]) ! k" if "k < length (snd j) + 2" for k
    using that by (auto simp: jpeg_bytes_def nth_append less_Suc_eq)
  have 2: "seek (jpeg_end ?b) ?m (L - 1) = ?m + length (snd j)"
  proof (rule seek_found)
    show "jpeg_end ?b (?m + length (snd j))"
      using at [of "length (snd j)"] at [of "length (snd j) + 1"] by (simp add: jpeg_end_def add.assoc nth_append)
  next
    fix k assume k: "?m \<le> k" "k < ?m + length (snd j)"
    define i where "i = k - ?m"
    have i: "k = ?m + i" "i < length (snd j)" using k by (simp_all add: i_def)
    have "jpeg_end ?b k = jpeg_end (snd j @ [255, 217]) i"
      unfolding i(1) using i(2) at [of i] at [of "i + 1"] by (simp add: jpeg_end_def add.assoc)
    then show "\<not> jpeg_end ?b k" using assms(1) i(2) by (simp add: jpeg_good_def Let_def list_all_iff)
  qed (use assms(2) len in auto)
  have L: "0 < L - 1" using assms(2) len by simp
  show ?thesis unfolding cut_jpeg_def Let_def 0 if_P [OF L] add_0 1 2 using len by simp
qed

interpretation jpeg: splitter p "jpeg_ok p" "\<lambda>_. False" for p
proof
  fix q rest b stale
  assume ok: "jpeg_ok p q rest" and b: "b = take (vd_bufsize p) (q @ rest)"
  obtain j where j: "jpeg_good j" "q = jpeg_bytes j" using ok by (auto simp: jpeg_ok_def)
  have "length q \<le> length b" "b = q @ take (vd_bufsize p - length q) rest" using ok b by (auto simp: jpeg_ok_def)
  then have "cut_jpeg (b @ stale) (length b) = (0, length q)" using cut_jpeg_picture [OF j(1)] j(2) by simp
  then show "vdec_cut p (b @ stale) (length b) = (0, length q, False)" using ok by (auto simp: vdec_cut_def jpeg_ok_def)
qed (auto simp: jpeg_ok_def jpeg_bytes_def)

section \<open>Pictures of a video stream\<close>

text \<open>\<open>start\<close> and \<open>next\<close> look at \<open>m\<close> bytes only.\<close>

definition local_test :: "nat \<Rightarrow> (int list \<Rightarrow> nat \<Rightarrow> bool) \<Rightarrow> bool" where
  "local_test m P \<longleftrightarrow> (\<forall>b c i. (\<forall>j<m. b ! (i + j) = c ! (i + j)) \<longrightarrow> P b i = P c i)"

lemma local_tests [simp]:
  "local_test 8 h264_start" "local_test 8 h264_next" "local_test 6 h265_start" "local_test 6 h265_next"
proof -
  have *: "b ! i = c ! i \<and> b ! (i + 1) = c ! (i + 1) \<and> b ! (i + 2) = c ! (i + 2) \<and> b ! (i + 3) = c ! (i + 3) \<and> b ! (i + 4) = c ! (i + 4) \<and>
      b ! (i + 5) = c ! (i + 5)" if "\<forall>j<m. b ! (i + j) = c ! (i + j)" "6 \<le> m" for b c :: "int list" and i m
    using that(1) [rule_format, of 0] that(1) [rule_format, of 1] that(1) [rule_format, of 2] that(1) [rule_format, of 3]
      that(1) [rule_format, of 4] that(1) [rule_format, of 5] that(2) by simp
  show "local_test 8 h264_start" unfolding local_test_def
  proof (intro allI impI)
    fix b c :: "int list" and i
    assume a: "\<forall>j<8. b ! (i + j) = c ! (i + j)"
    show "h264_start b i = h264_start c i" using * [OF a] a [rule_format, of 7] unfolding h264_start_def start_code_def by simp
  qed
  show "local_test 8 h264_next" unfolding local_test_def
  proof (intro allI impI)
    fix b c :: "int list" and i
    assume a: "\<forall>j<8. b ! (i + j) = c ! (i + j)"
    show "h264_next b i = h264_next c i" using * [OF a] a [rule_format, of 7] unfolding h264_next_def start_code_def by simp
  qed
  show "local_test 6 h265_start" unfolding local_test_def
  proof (intro allI impI)
    fix b c :: "int list" and i
    assume a: "\<forall>j<6. b ! (i + j) = c ! (i + j)"
    show "h265_start b i = h265_start c i" using * [OF a] unfolding h265_start_def start_code_def by simp
  qed
  show "local_test 6 h265_next" unfolding local_test_def
  proof (intro allI impI)
    fix b c :: "int list" and i
    assume a: "\<forall>j<6. b ! (i + j) = c ! (i + j)"
    show "h265_next b i = h265_next c i" using * [OF a] unfolding h265_next_def start_code_def by simp
  qed
qed

text \<open>
  A picture in front of the rest of the file: its first slice is at least \<open>m\<close> bytes before its end (\<open>2 m\<close> when the file ends
  with it), no access unit begins behind that slice, and one begins right after it, early enough to be seen in the buffer.
\<close>

definition unit_ok :: "(int list \<Rightarrow> nat \<Rightarrow> bool) \<Rightarrow> (int list \<Rightarrow> nat \<Rightarrow> bool) \<Rightarrow> nat \<Rightarrow> nat \<Rightarrow> int list \<Rightarrow> int list \<Rightarrow> bool" where
  "unit_ok start next m N q rest \<longleftrightarrow>
     (let b = q @ rest; f = seek (start b) 0 (length q); t = length q - (if rest = [] then m else 0)
      in f + m \<le> t \<and> start b f \<and> list_all (\<lambda>i. \<not> next b i) [f + m..<t] \<and>
         (if rest = [] then length q \<le> N else next b (length q) \<and> length q + m < N \<and> m < length rest))"

lemma seek_least: "seek P 0 n < n \<Longrightarrow> k < seek P 0 n \<Longrightarrow> \<not> P k"
  by (auto simp: seek_def find_Some_iff find_None_iff split: option.splits)

lemma seek_cong: "(\<And>k. i \<le> k \<Longrightarrow> k < n \<Longrightarrow> P k = Q k) \<Longrightarrow> seek P i n = seek Q i n"
  unfolding seek_def by (rule arg_cong [of _ _ "case_option _ _"], rule find_cong) auto

lemma cut_video_unit:
  assumes "unit_ok start next m N q rest" "0 < m" "local_test m start" "local_test m next" "b = take N (q @ rest)"
  shows "cut_video start next m (b @ stale) (length b) = length q"
proof -
  define f where "f = seek (start (q @ rest)) 0 (length q)"
  define t where "t = length q - (if rest = [] then m else 0)"
  define n where "n = length b - m"
  note u = assms(1) [unfolded unit_ok_def Let_def, folded f_def t_def]
  have same: "P (b @ stale) i = P (q @ rest) i" if "local_test m P" "i < n" for P i
  proof -
    have "\<forall>j<m. (b @ stale) ! (i + j) = (q @ rest) ! (i + j)" using that(2) unfolding assms(5) n_def by (auto simp: nth_append)
    then show ?thesis using that(1) unfolding local_test_def by blast
  qed
  have n: "t \<le> n" "f < t" "length q \<le> length b" "rest \<noteq> [] \<Longrightarrow> length q < n" "rest = [] \<Longrightarrow> n = t \<and> n + m = length q"
    using u assms(2) unfolding n_def assms(5) t_def by (auto split: if_splits)
  have "f < length q" using n(2) by (simp add: t_def split: if_splits)
  then have least: "\<not> start (q @ rest) k" if "k < f" for k using seek_least [of "start (q @ rest)" "length q" k] that by (simp add: f_def)
  have 1: "seek (start (b @ stale)) 0 n = f"
    using n(1,2) u least by (intro seek_found) (auto simp: same [OF assms(3)])
  have 2: "seek (next (b @ stale)) (f + m) n = (if rest = [] then n else length q)"
  proof (cases "rest = []")
    case True
    have "seek (next (b @ stale)) (f + m) n = max (f + m) n"
      using u n(5) True by (intro seek_none) (auto simp: same [OF assms(4)] list_all_iff)
    then show ?thesis using True u n(5) by simp
  next
    case False
    then show ?thesis
      using u n(4) by (intro trans [OF seek_found [of _ "length q"]]) (auto simp: same [OF assms(4)] list_all_iff t_def)
  qed
  have "f < n" using n(1,2) by simp
  then show ?thesis
    unfolding cut_video_def Let_def n_def [symmetric] 1 if_P [OF \<open>f < n\<close>] 2 using n(4,5) u assms(2) \<open>f < length q\<close> by (auto split: if_splits)
qed

definition h264_ok :: "vdec_par \<Rightarrow> int list \<Rightarrow> int list \<Rightarrow> bool" where
  "h264_ok p q rest \<longleftrightarrow> vd_frames p \<and> vd_type p = PT_H264 \<and> unit_ok h264_start h264_next 8 (vd_bufsize p) q rest"

definition h265_ok :: "vdec_par \<Rightarrow> int list \<Rightarrow> int list \<Rightarrow> bool" where
  "h265_ok p q rest \<longleftrightarrow> vd_frames p \<and> vd_type p = PT_H265 \<and> unit_ok h265_start h265_next 6 (vd_bufsize p) q rest"

lemma unit_ok_piece: "unit_ok start next m N q rest \<Longrightarrow> 0 < m \<Longrightarrow> q \<noteq> [] \<and> length q \<le> N"
  by (auto simp: unit_ok_def Let_def split: if_splits)

interpretation h264: splitter p "h264_ok p" "\<lambda>_. False" for p
proof
  fix q rest b stale
  assume "h264_ok p q rest" "b = take (vd_bufsize p) (q @ rest)"
  then show "vdec_cut p (b @ stale) (length b) = (0, length q, False)"
    using cut_video_unit [of h264_start h264_next 8 "vd_bufsize p" q rest b stale] by (simp add: h264_ok_def vdec_cut_def)
qed (auto simp: h264_ok_def dest: unit_ok_piece)

interpretation h265: splitter p "h265_ok p" "\<lambda>_. False" for p
proof
  fix q rest b stale
  assume "h265_ok p q rest" "b = take (vd_bufsize p) (q @ rest)"
  then show "vdec_cut p (b @ stale) (length b) = (0, length q, False)"
    using cut_video_unit [of h265_start h265_next 6 "vd_bufsize p" q rest b stale] by (simp add: h265_ok_def vdec_cut_def)
qed (auto simp: h265_ok_def dest: unit_ok_piece)

text \<open>Other streams, and video that is not sent by pictures, go in full buffers; a short one is marked as the end.\<close>

definition raw_mode :: "vdec_par \<Rightarrow> bool" where
  "raw_mode p \<longleftrightarrow> vd_type p = PT_OTHER \<or> \<not> vd_frames p \<and> (vd_type p = PT_H264 \<or> vd_type p = PT_H265)"

definition raw_ok :: "vdec_par \<Rightarrow> int list \<Rightarrow> int list \<Rightarrow> bool" where
  "raw_ok p q rest \<longleftrightarrow> raw_mode p \<and>
     q \<noteq> [] \<and> (length q = vd_bufsize p \<or> rest = [] \<and> length q < vd_bufsize p)"

interpretation raw: splitter p "raw_ok p" "\<lambda>q. length q < vd_bufsize p" for p
  by unfold_locales (auto simp: raw_ok_def raw_mode_def vdec_cut_def)

section \<open>What the decoder gets\<close>

text \<open>
  C35. A file of JPEG pictures one after the other, each not larger than the buffer, reaches the decoder picture by picture: whatever thumbnails
  the application segments hold, each picture is sent whole and taken once, in order, with equal steps of the time stamp, although the decoder
  may refuse each of them \<open>m\<close> times; then the end of the stream is sent, and the buffer and the file are given back. The thread returns.
\<close>

theorem VDEC_SendStream_jpeg:
  assumes "patient e m" "\<not> vd_circle p" "vd_type p = PT_MJPEG \<or> vd_type p = PT_JPEG"
    and "list_all (\<lambda>j. jpeg_good j \<and> length (jpeg_bytes j) \<le> vd_bufsize p) js" "length junk = vd_bufsize p"
    and "length (concat (map jpeg_bytes js)) < 2147483648" "length js + m + 1 < k"
  shows "\<exists>tr r. VDEC_SendStream e p (Some (concat (map jpeg_bytes js))) (Some junk) k = (Some 0, tr @ [Ev_sent end_of_stream r, Ev_free, Ev_close]) \<and>
    accepted tr = stamped p (\<lambda>_. False) (vd_pts p) (map jpeg_bytes js)"
proof -
  have "pieces_ok (jpeg_ok p) (map jpeg_bytes js)" using assms(3,4) by (induction js) (auto simp: jpeg_ok_def)
  from jpeg.thread_sends [OF assms(1,2) this assms(5)] show ?thesis using assms(6,7) by simp
qed

definition shy_decoder :: vdec_env where
  "shy_decoder = \<lparr>ve_ctrl = \<lambda>_. THREAD_CTRL_START, ve_send = \<lambda>tr. if refusals tr 0 = 0 then 1 else 0\<rparr>"

lemma shy_patient: "patient shy_decoder 1"
  by (simp add: patient_def shy_decoder_def)

lemma VDEC_SendStream_jpeg_witness:
  "\<exists>tr r. VDEC_SendStream shy_decoder \<lparr>vd_type = PT_MJPEG, vd_frames = True, vd_bufsize = 16, vd_pts = 5, vd_pts_inc = 40, vd_circle = False\<rparr>
      (Some [255, 216, 255, 225, 0, 6, 255, 216, 255, 217, 7, 255, 217, 255, 216, 255, 217]) (Some (replicate 16 0)) 9 =
      (Some 0, tr @ [Ev_sent end_of_stream r, Ev_free, Ev_close]) \<and>
    map vs_data (accepted tr) = [Some [255, 216, 255, 225, 0, 6, 255, 216, 255, 217, 7, 255, 217], Some [255, 216, 255, 217]] \<and>
    map vs_pts (accepted tr) = [5, 45]"
proof -
  let ?p = "\<lparr>vd_type = PT_MJPEG, vd_frames = True, vd_bufsize = 16, vd_pts = 5, vd_pts_inc = 40, vd_circle = False\<rparr>"
  let ?js = "[([(225, [255, 216, 255, 217])], [7]), ([], [])] :: jpeg_pic list"
  have b: "map jpeg_bytes ?js = [[255, 216, 255, 225, 0, 6, 255, 216, 255, 217, 7, 255, 217], [255, 216, 255, 217]]" by code_simp
  have g: "list_all (\<lambda>j. jpeg_good j \<and> length (jpeg_bytes j) \<le> vd_bufsize ?p) ?js" by code_simp
  have s: "map vs_data (stamped ?p (\<lambda>_. False) 5 (map jpeg_bytes ?js)) = map Some (map jpeg_bytes ?js)"
    "map vs_pts (stamped ?p (\<lambda>_. False) 5 (map jpeg_bytes ?js)) = [5, 45]"
    unfolding b by (simp_all add: u64_def)
  have "concat (map jpeg_bytes ?js) = [255, 216, 255, 225, 0, 6, 255, 216, 255, 217, 7, 255, 217, 255, 216, 255, 217]" unfolding b by simp
  then show ?thesis
    using VDEC_SendStream_jpeg [OF shy_patient, of ?p ?js "replicate 16 0" 9] g s unfolding b by auto
qed

text \<open>
  C34. The same for video and for raw streams. For H.264 and H.265 sent by pictures: when the file is made of pictures whose first slice does
  not lie in their last bytes and is not followed by another access unit inside of them, and each fits into the buffer together with the
  begin of the next, the decoder gets every picture once, in order. For any other stream, and for H.264 and H.265 not sent by pictures, the
  pieces are full buffers, the last one maybe shorter, and the decoder gets these once, in order, a short one marked as the end of the stream.
  The time stamps go up from the first one in steps of \<open>u64PtsIncrease\<close> modulo \<open>2 ^ 64\<close>, whatever the step.
\<close>

theorem VDEC_SendStream_video:
  assumes "patient e m" "\<not> vd_circle p" "pieces_ok (h264_ok p) qs \<or> pieces_ok (h265_ok p) qs \<or> pieces_ok (raw_ok p) qs"
    and "length junk = vd_bufsize p" "int (length (concat qs)) < 2147483648" "length qs + m + 1 < k"
  shows "\<exists>tr r. VDEC_SendStream e p (Some (concat qs)) (Some junk) k = (Some 0, tr @ [Ev_sent end_of_stream r, Ev_free, Ev_close]) \<and>
    accepted tr = stamped p (\<lambda>q. raw_mode p \<and> length q < vd_bufsize p) (vd_pts p) qs"
proof -
  have "\<not> raw_mode p \<or> qs = []" if "pieces_ok (h264_ok p) qs \<or> pieces_ok (h265_ok p) qs"
    using that by (cases qs) (auto simp: h264_ok_def h265_ok_def raw_mode_def)
  then have video: "stamped p (\<lambda>_. False) t qs = stamped p (\<lambda>q. raw_mode p \<and> length q < vd_bufsize p) t qs"
    if "pieces_ok (h264_ok p) qs \<or> pieces_ok (h265_ok p) qs" for t using that by auto
  have "raw_mode p \<or> qs = []" if "pieces_ok (raw_ok p) qs" using that by (cases qs) (auto simp: raw_ok_def)
  then have raw: "stamped p (\<lambda>q. length q < vd_bufsize p) t qs = stamped p (\<lambda>q. raw_mode p \<and> length q < vd_bufsize p) t qs"
    if "pieces_ok (raw_ok p) qs" for t using that by auto
  consider "pieces_ok (h264_ok p) qs" | "pieces_ok (h265_ok p) qs" | "pieces_ok (raw_ok p) qs" using assms(3) by blast
  then show ?thesis
  proof cases
    case 1
    from h264.thread_sends [OF assms(1,2) 1 assms(4-)] show ?thesis unfolding video [OF disjI1 [OF 1]] .
  next
    case 2
    from h265.thread_sends [OF assms(1,2) 2 assms(4-)] show ?thesis unfolding video [OF disjI2 [OF 2]] .
  next
    case 3
    from raw.thread_sends [OF assms(1,2) 3 assms(4-)] show ?thesis unfolding raw [OF 3] .
  qed
qed

definition two_pictures :: "int list list" where
  "two_pictures = [[0, 0, 1, 103, 1, 0, 0, 1, 101, 136, 2, 3, 4, 5, 6, 7, 8, 9], [0, 0, 1, 65, 136, 1, 2, 3, 4, 5, 6, 7, 8, 9, 10, 11, 12]]"

definition video_par :: vdec_par where
  "video_par = \<lparr>vd_type = PT_H264, vd_frames = True, vd_bufsize = 32, vd_pts = 0, vd_pts_inc = 1, vd_circle = False\<rparr>"

definition raw_par :: vdec_par where
  "raw_par = \<lparr>vd_type = PT_OTHER, vd_frames = False, vd_bufsize = 4, vd_pts = 18446744073709551615, vd_pts_inc = 1, vd_circle = False\<rparr>"

lemma VDEC_SendStream_video_witness:
  "(\<exists>tr r. VDEC_SendStream shy_decoder video_par (Some (concat two_pictures)) (Some (replicate 32 0)) 9 =
      (Some 0, tr @ [Ev_sent end_of_stream r, Ev_free, Ev_close]) \<and> map vs_data (accepted tr) = map Some two_pictures) \<and>
   (\<exists>tr r. VDEC_SendStream shy_decoder raw_par (Some [1, 2, 3, 4, 5, 6]) (Some (replicate 4 0)) 9 =
      (Some 0, tr @ [Ev_sent end_of_stream r, Ev_free, Ev_close]) \<and> map vs_data (accepted tr) = [Some [1, 2, 3, 4], Some [5, 6]] \<and>
      map vs_pts (accepted tr) = [18446744073709551615, 0])"
proof
  have 1: "\<not> vd_circle video_par" "length (replicate 32 (0::int)) = vd_bufsize video_par" by (simp_all add: video_par_def)
  have "pieces_ok (h264_ok video_par) two_pictures" by code_simp
  then have 2: "pieces_ok (h264_ok video_par) two_pictures \<or> pieces_ok (h265_ok video_par) two_pictures \<or>
      pieces_ok (raw_ok video_par) two_pictures" ..
  have 3: "int (length (concat two_pictures)) < 2147483648" "length two_pictures + 1 + 1 < 9" by (simp_all add: two_pictures_def)
  have "map vs_data (stamped video_par e t two_pictures) = map Some two_pictures" for e t by (simp add: two_pictures_def)
  then show "\<exists>tr r. VDEC_SendStream shy_decoder video_par (Some (concat two_pictures)) (Some (replicate 32 0)) 9 =
      (Some 0, tr @ [Ev_sent end_of_stream r, Ev_free, Ev_close]) \<and> map vs_data (accepted tr) = map Some two_pictures"
    using VDEC_SendStream_video [OF shy_patient 1(1) 2 1(2) 3] by metis
next
  have 1: "\<not> vd_circle raw_par" "length (replicate 4 (0::int)) = vd_bufsize raw_par" by (simp_all add: raw_par_def)
  have 2: "pieces_ok (h264_ok raw_par) [[1, 2, 3, 4], [5, 6]] \<or> pieces_ok (h265_ok raw_par) [[1, 2, 3, 4], [5, 6]] \<or>
      pieces_ok (raw_ok raw_par) [[1, 2, 3, 4], [5, 6]]" by (simp add: raw_ok_def raw_mode_def raw_par_def)
  have "map vs_data (stamped raw_par e (vd_pts raw_par) [[1, 2, 3, 4], [5, 6]]) = [Some [1, 2, 3, 4], Some [5, 6]]"
    "map vs_pts (stamped raw_par e (vd_pts raw_par) [[1, 2, 3, 4], [5, 6]]) = [18446744073709551615, 0]" for e
    by (simp_all add: raw_par_def u64_def)
  then show "\<exists>tr r. VDEC_SendStream shy_decoder raw_par (Some [1, 2, 3, 4, 5, 6]) (Some (replicate 4 0)) 9 =
      (Some 0, tr @ [Ev_sent end_of_stream r, Ev_free, Ev_close]) \<and> map vs_data (accepted tr) = [Some [1, 2, 3, 4], Some [5, 6]] \<and>
      map vs_pts (accepted tr) = [18446744073709551615, 0]"
    using VDEC_SendStream_video [OF shy_patient 1(1) 2 1(2), of 9] by auto
qed

section \<open>Cuts that leave the buffer\<close>

text \<open>A first slice in the last bytes read makes the cut longer than what was read.\<close>

lemma video_cut_too_long:
  "cut_video h264_start h264_next 8 [9, 9, 9, 9, 9, 9, 9, 9, 9, 9, 0, 0, 1, 101, 136, 9, 9, 9, 9, 9] 20 = 26"
  by code_simp

text \<open>So does a JPEG picture without its end, and an application segment that says it is long.\<close>

lemma jpeg_cut_too_long: "cut_jpeg [255, 216, 1, 2, 3, 4] 6 = (0, 7)" "cut_jpeg [255, 216, 255, 224, 0, 50, 1, 2] 8 = (0, 56)"
  by (simp_all add: cut_jpeg_def seek_def jpeg_start_def jpeg_end_def upt_rec skip_app.simps)

text \<open>Bytes in front of the picture are counted twice: two bytes behind it are sent with it, and one more is lost.\<close>

lemma jpeg_cut_counts_twice: "cut_jpeg [1, 255, 216, 7, 255, 217, 8, 9, 10] 9 = (1, 6)"
  by code_simp

end
