(* ===== verification/Media_Buffer.thy ===== *)
theory Media_Buffer
  imports Vi_Frame Vi_Tables
begin

text \<open>
  Sizes of the buffers that the media units work in (sdk2v0/include/hi_buffer.h): pictures, raw pictures of the sensor, decoded
  pictures and their motion vectors, and what the encoder needs. All arithmetic is on 32 bits.
\<close>

section \<open>Pictures\<close>

datatype bit_width = DATA_BITWIDTH_8 | DATA_BITWIDTH_10 | DATA_BITWIDTH_12 | DATA_BITWIDTH_14 | DATA_BITWIDTH_16 | DATA_BITWIDTH_BUTT

definition HI_MAXINUM_LIMIT :: int where
  "HI_MAXINUM_LIMIT = 100000"

definition buffer_align :: "int \<Rightarrow> int" where
  "buffer_align a = (if a = 0 then 32 else if 1024 < a then 1024 else ALIGN_UP a 32)"

definition width_bits :: "bit_width \<Rightarrow> int" where
  "width_bits b = (case b of DATA_BITWIDTH_8 \<Rightarrow> 8 | DATA_BITWIDTH_16 \<Rightarrow> 16 | _ \<Rightarrow> 0)"

record vb_cal =
  bc_size :: int
  bc_head_stride :: int
  bc_head_ysize :: int
  bc_head_size :: int
  bc_main_stride :: int
  bc_ysize :: int
  bc_main_size :: int

text \<open>
  The planes of a format, for one plane of \<open>y\<close> bytes; three planes for every format that is not named.
  The uncompressed case names one format more than the compressed one.
\<close>

definition planes :: "pixel_format \<Rightarrow> int \<Rightarrow> int" where
  "planes f y =
     (if f = YVU_SEMIPLANAR_420 \<or> f = YUV_SEMIPLANAR_420 then u32 (y * 3) div 2
      else if f = YVU_SEMIPLANAR_422 \<or> f = YUV_SEMIPLANAR_422 then u32 (y * 2)
      else if f = YUV_400 \<or> f = PIXEL_FORMAT_S16C1 then u32 y
      else u32 (y * 3))"

definition cmp_planes :: "pixel_format \<Rightarrow> int \<Rightarrow> int" where
  "cmp_planes f y =
     (if f = YVU_SEMIPLANAR_420 \<or> f = YUV_SEMIPLANAR_420 then u32 (y * 3) div 2
      else if f = YVU_SEMIPLANAR_422 \<or> f = YUV_SEMIPLANAR_422 then u32 (y * 2)
      else if f = YUV_400 then u32 y
      else u32 (y * 3))"

text \<open>Sizes beyond the limit set the result to 0, but the function goes on and overwrites it.\<close>

definition COMMON_GetPicBufferConfig :: "int \<Rightarrow> int \<Rightarrow> pixel_format \<Rightarrow> bit_width \<Rightarrow> compress_mode \<Rightarrow> int \<Rightarrow> vb_cal" where
  "COMMON_GetPicBufferConfig w h f bw cm al =
     (let a = buffer_align al; bits = width_bits bw; ah = ALIGN_UP h 2
      in if cm = COMPRESS_MODE_NONE
         then let st = ALIGN_UP (u32 (u32 (w * bits) + 7) div 8) a; y = u32 (st * ah); m = planes f y
           in \<lparr>bc_size = m, bc_head_stride = 0, bc_head_ysize = 0, bc_head_size = 0, bc_main_stride = st, bc_ysize = y, bc_main_size = m\<rparr>
         else let hs = (if w \<le> 4096 then 16 else if w \<le> 8192 then 32 else 64)
           in if bits = 8
              then let st = ALIGN_UP w a; hy = u32 (hs * ah); y = u32 (st * ah); hd = ALIGN_UP (cmp_planes f hy) a; m = cmp_planes f y
                in \<lparr>bc_size = u32 (hd + m), bc_head_stride = hs, bc_head_ysize = hy, bc_head_size = hd, bc_main_stride = st, bc_ysize = y,
                    bc_main_size = m\<rparr>
              else \<lparr>bc_size = ALIGN_UP 0 a, bc_head_stride = 0, bc_head_ysize = 0, bc_head_size = ALIGN_UP 0 a, bc_main_stride = 0,
                    bc_ysize = 0, bc_main_size = 0\<rparr>)"

definition COMMON_GetPicBufferSize :: "int \<Rightarrow> int \<Rightarrow> pixel_format \<Rightarrow> bit_width \<Rightarrow> compress_mode \<Rightarrow> int \<Rightarrow> int" where
  "COMMON_GetPicBufferSize w h f bw cm al = bc_size (COMMON_GetPicBufferConfig w h f bw cm al)"

definition bayer_bits :: "pixel_format \<Rightarrow> int" where
  "bayer_bits f =
     (case f of RGB_BAYER_8BPP \<Rightarrow> 8 | RGB_BAYER_10BPP \<Rightarrow> 10 | RGB_BAYER_12BPP \<Rightarrow> 12 | RGB_BAYER_14BPP \<Rightarrow> 14 | RGB_BAYER_16BPP \<Rightarrow> 16 | _ \<Rightarrow> 0)"

text \<open>\<open>unsigned long\<close> has 32 bits here.\<close>

definition VI_GetRawBufferSizeEx :: "int \<Rightarrow> int \<Rightarrow> pixel_format \<Rightarrow> compress_mode \<Rightarrow> int \<Rightarrow> int \<Rightarrow> int" where
  "VI_GetRawBufferSizeEx w h f cm ratio al =
     (if HI_MAXINUM_LIMIT < w \<or> HI_MAXINUM_LIMIT < h then 0
      else let r = (if cm = COMPRESS_MODE_FRAME then (if ratio = 0 then 2000 else ratio) else 1600); a = buffer_align al; bits = bayer_bits f
      in case cm of
           COMPRESS_MODE_NONE \<Rightarrow> u32 (ALIGN_UP (ALIGN_UP (u32 (w * bits)) 8 div 8) a * h)
         | COMPRESS_MODE_LINE \<Rightarrow>
             (let t = ALIGN_UP (u32 (u32 (16 + u32 (u32 (w * bits) * 1000) div r) + 8192 + 127) div 128) 2
              in u32 (ALIGN_UP (u32 (t * 16)) a * h))
         | COMPRESS_MODE_FRAME \<Rightarrow> ALIGN_UP (u32 (u32 (u32 (h * w) * bits) * 1000) div u32 (r * 8)) a
         | _ \<Rightarrow> 0)"

definition VI_GetRawBufferSize :: "int \<Rightarrow> int \<Rightarrow> pixel_format \<Rightarrow> compress_mode \<Rightarrow> int \<Rightarrow> int" where
  "VI_GetRawBufferSize w h f cm al = VI_GetRawBufferSizeEx w h f cm 0 al"

section \<open>Decoder and encoder\<close>

definition VDEC_GetPicBufferSize :: "payload_type \<Rightarrow> int \<Rightarrow> int \<Rightarrow> int" where
  "VDEC_GetPicBufferSize t w h =
     (if HI_MAXINUM_LIMIT < w \<or> HI_MAXINUM_LIMIT < h then 0
      else case t of
        PT_H264 \<Rightarrow> u32 (u32 (ALIGN_UP w 64 * ALIGN_UP h 64) * 3) div 2
      | PT_H265 \<Rightarrow> u32 (u32 (ALIGN_UP w 64 * ALIGN_UP h 64) * 3) div 2
      | PT_OTHER \<Rightarrow> 0
      | _ \<Rightarrow> u32 (u32 (ALIGN_UP w 64 * ALIGN_UP h 16) * 3) div 2)"

definition VDEC_GetTmvBufferSize :: "payload_type \<Rightarrow> int \<Rightarrow> int \<Rightarrow> int" where
  "VDEC_GetTmvBufferSize t w h =
     (if HI_MAXINUM_LIMIT < w \<or> HI_MAXINUM_LIMIT < h then 0
      else case t of
        PT_H264 \<Rightarrow> ALIGN_UP (u32 (u32 (64 * (ALIGN_UP w 16 div 16)) * (ALIGN_UP h 16 div 16))) 128
      | PT_H265 \<Rightarrow> ALIGN_UP (u32 (u32 (16 * (ALIGN_UP w 64 div 16)) * (ALIGN_UP h 64 div 16))) 128
      | _ \<Rightarrow> 0)"

definition VENC_GetRefPicInfoBufferSize :: "payload_type \<Rightarrow> int \<Rightarrow> int \<Rightarrow> int" where
  "VENC_GetRefPicInfoBufferSize t w h =
     (if HI_MAXINUM_LIMIT < w \<or> HI_MAXINUM_LIMIT < h then 0
      else case t of
        PT_H265 \<Rightarrow>
          (let aw = ALIGN_UP w 64 div 64; ah = ALIGN_UP h 64 div 64;
               tmv = u32 (u32 (aw * ah) * 256); pme = u32 (u32 (aw * 16) * u32 (ah * 16));
               info = u32 (u32 (ALIGN_UP w 1024 div 1024 * ah) * 32)
           in u32 (tmv + pme + info))
      | PT_H264 \<Rightarrow>
          (let tmv = u32 (u32 (ALIGN_UP w 16 div 16 * (ALIGN_UP h 16 div 16)) * 32);
               pme = u32 (u32 (ALIGN_UP w 64 div 64 * 16) * u32 (ALIGN_UP h 64 div 64 * 16));
               info = u32 (u32 (ALIGN_UP w 4096 div 4096 * (ALIGN_UP h 16 div 16)) * 32)
           in u32 (tmv + pme + info))
      | _ \<Rightarrow> 0)"

definition VENC_GetRefBufferSize :: "payload_type \<Rightarrow> int \<Rightarrow> int \<Rightarrow> bit_width \<Rightarrow> int" where
  "VENC_GetRefBufferSize t w h bw =
     (if HI_MAXINUM_LIMIT < w \<or> HI_MAXINUM_LIMIT < h \<or> bw \<noteq> DATA_BITWIDTH_8 then 0
      else case t of
        PT_H265 \<Rightarrow>
          (let hdr = u32 (u32 (ALIGN_UP w 128 div 64 * 32) * (ALIGN_UP h 64 div 64));
               y = u32 (u32 (ALIGN_UP w 64 * ALIGN_UP h 16) * 8) div 8
           in u32 (hdr + hdr + y + y div 2))
      | PT_H264 \<Rightarrow>
          (let hdr = u32 (u32 (ALIGN_UP w 512 div 256 * 16) * (ALIGN_UP h 16 div 16));
               y = u32 (ALIGN_UP w 64 * ALIGN_UP h 16)
           in u32 (hdr + hdr + y + y div 2))
      | _ \<Rightarrow> 0)"

definition DIV_UP :: "int \<Rightarrow> int \<Rightarrow> int" where
  "DIV_UP x a = u32 (x + (a - 1)) div a"

definition VENC_GetQpmapSizeStride :: "int \<Rightarrow> int" where
  "VENC_GetQpmapSizeStride w = (if HI_MAXINUM_LIMIT < w then 0 else u32 (DIV_UP w 512 * 32))"

definition VENC_GetQpmapSize :: "int \<Rightarrow> int \<Rightarrow> int" where
  "VENC_GetQpmapSize w h =
     (if HI_MAXINUM_LIMIT < w \<or> HI_MAXINUM_LIMIT < h then 0 else u32 (VENC_GetQpmapSizeStride w * DIV_UP h 16))"

definition VENC_GetSkipWeightSizeStride :: "payload_type \<Rightarrow> int \<Rightarrow> int" where
  "VENC_GetSkipWeightSizeStride t w =
     (if HI_MAXINUM_LIMIT < w then 0
      else case t of PT_H265 \<Rightarrow> u32 (DIV_UP w 2048 * 16) | PT_H264 \<Rightarrow> u32 (DIV_UP w 512 * 16) | _ \<Rightarrow> 0)"

definition VENC_GetSkipWeightSize :: "payload_type \<Rightarrow> int \<Rightarrow> int \<Rightarrow> int" where
  "VENC_GetSkipWeightSize t w h =
     (if HI_MAXINUM_LIMIT < w \<or> HI_MAXINUM_LIMIT < h then 0
      else u32 (VENC_GetSkipWeightSizeStride t w * (case t of PT_H265 \<Rightarrow> DIV_UP h 64 | PT_H264 \<Rightarrow> DIV_UP h 16 | _ \<Rightarrow> 0)))"

section \<open>What fits\<close>

lemma ALIGN_UP_bounds:
  assumes "0 < a" "0 \<le> x" "x + a \<le> 4294967296"
  shows "x \<le> ALIGN_UP x a" "ALIGN_UP x a < x + a" "a dvd ALIGN_UP x a"
proof -
  have u: "u32 (x + (a - 1)) = x + (a - 1)" using assms by (simp add: u32_id in_u32_def)
  have m: "(x + (a - 1)) div a * a + (x + (a - 1)) mod a = x + (a - 1)" by simp
  have r: "0 \<le> (x + (a - 1)) mod a" "(x + (a - 1)) mod a < a" using assms(1) by simp_all
  have e: "ALIGN_UP x a = (x + (a - 1)) div a * a" unfolding ALIGN_UP_def u using assms m r by (intro u32_id) (unfold in_u32_def, linarith)
  show "x \<le> ALIGN_UP x a" "ALIGN_UP x a < x + a" unfolding e using m r by linarith+
  show "a dvd ALIGN_UP x a" unfolding e by simp
qed

lemma buffer_align_range: "0 \<le> al \<Longrightarrow> 32 \<le> buffer_align al \<and> buffer_align al \<le> 1024 \<and> 32 dvd buffer_align al"
proof -
  assume "0 \<le> al"
  then have "ALIGN_UP al 32 \<le> 1024" if "al \<le> 1024"
  proof -
    have "ALIGN_UP al 32 < 1056" "32 dvd ALIGN_UP al 32" using ALIGN_UP_bounds [of 32 al] that \<open>0 \<le> al\<close> by auto
    then show ?thesis by (auto elim!: dvdE)
  qed
  moreover have "32 \<le> ALIGN_UP al 32" if "al \<noteq> 0" "al \<le> 1024"
    using ALIGN_UP_bounds [of 32 al] that \<open>0 \<le> al\<close> by (auto elim!: dvdE)
  ultimately show ?thesis using ALIGN_UP_bounds [of 32 al] \<open>0 \<le> al\<close> by (auto simp: buffer_align_def)
qed

text \<open>The bytes of a picture of \<open>h\<close> lines, each \<open>st\<close> bytes behind the one before, in all its planes.\<close>

definition picture_bytes :: "pixel_format \<Rightarrow> int \<Rightarrow> int \<Rightarrow> int" where
  "picture_bytes f st h =
     (if f \<in> {YVU_SEMIPLANAR_420, YUV_SEMIPLANAR_420} then st * h + st * ((h + 1) div 2)
      else if f \<in> {YVU_SEMIPLANAR_422, YUV_SEMIPLANAR_422} then 2 * (st * h) else st * h)"

lemma planes_hold:
  assumes "f \<in> {YVU_SEMIPLANAR_420, YVU_SEMIPLANAR_422, YUV_SEMIPLANAR_420, YUV_SEMIPLANAR_422, YUV_400}" "0 \<le> st" "0 \<le> h" "st * ALIGN_UP h 2 * 3 < 4294967296" "h + 2 \<le> 4294967296"
  shows "picture_bytes f st h \<le> planes f (st * ALIGN_UP h 2)"
proof -
  have a: "h \<le> ALIGN_UP h 2" "ALIGN_UP h 2 < h + 2" "2 dvd ALIGN_UP h 2" using ALIGN_UP_bounds [of 2 h] assms(3,5) by simp_all
  then obtain k where k: "ALIGN_UP h 2 = 2 * k" by (auto elim!: dvdE)
  then have h: "(h + 1) div 2 = k" using a by simp
  define q where "q = st * k"
  have q: "st * (2 * k) = 2 * q" "0 \<le> q" using k a assms by (simp_all add: q_def)
  have u: "u32 (6 * q) = 6 * q" "u32 (4 * q) = 4 * q" "u32 (2 * q) = 2 * q"
    using assms(4) q(2) unfolding k q(1) by (simp_all add: u32_id in_u32_def)
  have "st * h \<le> 2 * q" using mult_left_mono [OF a(1) assms(2)] by (simp add: k q_def)
  then show ?thesis using assms(1) unfolding k planes_def picture_bytes_def q(1) by (auto simp: u h q_def [symmetric] mult.commute [of h st])
qed

text \<open>
  C36. Every buffer that the program asks for pictures, up to 16384 pixels wide and high, holds them: lines that are not shorter than the
  picture and start at multiples of the alignment, all planes of the format; the decoder's pictures 4:2:0 with lines of
  64 bytes, and no product wraps.
\<close>

theorem picture_buffers_hold:
  assumes "0 \<le> w" "w \<le> 16384" "0 \<le> h" "h \<le> 16384" "0 \<le> al"
    and "f \<in> {YVU_SEMIPLANAR_420, YVU_SEMIPLANAR_422, YUV_SEMIPLANAR_420, YUV_SEMIPLANAR_422, YUV_400}" "t \<noteq> PT_OTHER"
    and "c = COMMON_GetPicBufferConfig w h f DATA_BITWIDTH_8 COMPRESS_MODE_NONE al"
  shows "w \<le> bc_main_stride c \<and> buffer_align al dvd bc_main_stride c \<and> picture_bytes f (bc_main_stride c) h \<le> bc_size c \<and>
    w \<le> ALIGN_UP w 64 \<and> picture_bytes YVU_SEMIPLANAR_420 (ALIGN_UP w 64) h \<le> VDEC_GetPicBufferSize t w h"
proof -
  have al: "32 \<le> buffer_align al" "buffer_align al \<le> 1024" using buffer_align_range [OF assms(5)] by simp_all
  define st where "st = ALIGN_UP w (buffer_align al)"
  define ah where "ah = ALIGN_UP h 2"
  have st: "w \<le> st" "st < w + 1024" "buffer_align al dvd st" using ALIGN_UP_bounds [of "buffer_align al" w] al assms(1,2) by (simp_all add: st_def)
  have ah: "h \<le> ah" "ah < h + 2" using ALIGN_UP_bounds [of 2 h] assms(3,4) by (simp_all add: ah_def)
  have "st * ah \<le> 17408 * 16386" using st ah assms by (intro mult_mono) auto
  moreover have "0 \<le> st * ah" using st ah assms by simp
  ultimately have p: "st * ah * 3 < 4294967296" "0 \<le> st * ah" by simp_all
  have w8: "u32 (w * 8 + 7) div 8 = w" "u32 (w * 8) = w * 8" using assms(1,2) u32_id [of "w * 8"] u32_id [of "w * 8 + 7"] by (simp_all add: in_u32_def)
  have c: "bc_main_stride c = st" "bc_size c = planes f (st * ah)"
    using p unfolding assms(8) COMMON_GetPicBufferConfig_def by (simp_all add: Let_def width_bits_def w8 st_def [symmetric] ah_def [symmetric] u32_id in_u32_def)
  have 1: "picture_bytes f st h \<le> planes f (st * ah)"
    using planes_hold [OF assms(6), of st h] st ah p assms(1,3,4) by (simp add: ah_def)
  define vw where "vw = ALIGN_UP w 64"
  have vw: "w \<le> vw" "vw < w + 64" using ALIGN_UP_bounds [of 64 w] assms(1,2) by (simp_all add: vw_def)
  have 2: "picture_bytes YVU_SEMIPLANAR_420 vw h \<le> u32 (u32 (vw * vh) * 3) div 2" if vh: "h \<le> vh" "vh < h + 64" "2 dvd vh" for vh
  proof -
    obtain k where k: "vh = 2 * k" using vh(3) by (auto elim!: dvdE)
    have "vw * vh \<le> 16448 * 16448" using vw vh assms by (intro mult_mono) auto
    then have u: "u32 (u32 (vw * vh) * 3) div 2 = vw * vh + vw * k" using vw vh assms by (simp add: u32_id in_u32_def k)
    have "vw * h \<le> vw * vh" "vw * ((h + 1) div 2) \<le> vw * k" using vw vh assms(1) k by (auto intro!: mult_left_mono)
    then show ?thesis unfolding u by (simp add: picture_bytes_def)
  qed
  have "ALIGN_UP h 64 < h + 64" "h \<le> ALIGN_UP h 64" "64 dvd ALIGN_UP h 64" "ALIGN_UP h 16 < h + 16" "h \<le> ALIGN_UP h 16" "16 dvd ALIGN_UP h 16"
    using ALIGN_UP_bounds [of 64 h] ALIGN_UP_bounds [of 16 h] assms(3,4) by simp_all
  then have d: "2 dvd ALIGN_UP h 64" "2 dvd ALIGN_UP h 16" "ALIGN_UP h 64 < h + 64" "h \<le> ALIGN_UP h 64" "ALIGN_UP h 16 < h + 64" "h \<le> ALIGN_UP h 16"
    using dvd_trans [of 2 64 "ALIGN_UP h 64"] dvd_trans [of 2 16 "ALIGN_UP h 16"] by simp_all
  have 3: "picture_bytes YVU_SEMIPLANAR_420 vw h \<le> u32 (u32 (vw * ALIGN_UP h 64) * 3) div 2"
    "picture_bytes YVU_SEMIPLANAR_420 vw h \<le> u32 (u32 (vw * ALIGN_UP h 16) * 3) div 2"
    by (rule 2; use d in blast)+
  have "picture_bytes YVU_SEMIPLANAR_420 vw h \<le> VDEC_GetPicBufferSize t w h"
    using 3 assms(2,4,7) by (cases t) (simp_all add: VDEC_GetPicBufferSize_def HI_MAXINUM_LIMIT_def vw_def)
  then show ?thesis using st 1 vw by (simp add: c vw_def)
qed

lemma picture_buffers_hold_witness:
  "bc_main_stride (COMMON_GetPicBufferConfig 1000 701 YVU_SEMIPLANAR_420 DATA_BITWIDTH_8 COMPRESS_MODE_NONE 0) = 1024 \<and>
   1024 * 701 + 1024 * 351 \<le> bc_size (COMMON_GetPicBufferConfig 1000 701 YVU_SEMIPLANAR_420 DATA_BITWIDTH_8 COMPRESS_MODE_NONE 0) \<and>
   1024 * 701 + 1024 * 351 \<le> VDEC_GetPicBufferSize PT_JPEG 1000 701"
proof -
  have "bc_main_stride (COMMON_GetPicBufferConfig 1000 701 YVU_SEMIPLANAR_420 DATA_BITWIDTH_8 COMPRESS_MODE_NONE 0) = 1024" "ALIGN_UP 1000 64 = 1024"
    by code_simp+
  then show ?thesis
    using picture_buffers_hold [of 1000 701 0 YVU_SEMIPLANAR_420 PT_JPEG, OF _ _ _ _ _ _ _ refl] by (simp add: picture_bytes_def)
qed

text \<open>The limit is not enforced for plain pictures, and does not keep the products from wrapping.\<close>

lemma limit_overwritten: "COMMON_GetPicBufferSize 100032 2 YUV_400 DATA_BITWIDTH_8 COMPRESS_MODE_NONE 0 = 200064"
  by code_simp

lemma limit_too_high: "VDEC_GetPicBufferSize PT_H264 100000 100000 < 100000 * 100000"
  by code_simp

end
