(* ===== verification/Vdec_Pool.thy ===== *)
theory Vdec_Pool
  imports Media_Buffer "HOL-Library.Multiset"
begin

text \<open>
  The pools of video blocks of the decoders (common/sdk2v0/sample_comm_vdec.c): \<open>SAMPLE_COMM_VDEC_InitVBPool\<close> counts the blocks that the
  channels need and either configures the pools of the decoder module, one for each size, or creates pools per
  channel; \<open>SAMPLE_COMM_VDEC_ExitVBPool\<close> gives them back.

  The video buffer library is a parameter; its calls are events.
\<close>

section \<open>What the channels need\<close>

datatype vdec_mode = VIDEO_DEC_MODE_IPB | VIDEO_DEC_MODE_IP | VIDEO_DEC_MODE_I

text \<open>Video and picture attributes share their memory in the code; only those of the channel's type are used.\<close>

record vdec_attr =
  va_type :: payload_type
  va_frames :: bool
  va_w :: int
  va_h :: int
  va_bufs :: int
  va_display :: int
  va_dec :: vdec_mode
  va_refs :: int
  va_fmt :: pixel_format
  va_alpha :: int

text \<open>The sizes of a picture and of its motion vectors; 0: none needed.\<close>

definition buf_sizes :: "vdec_attr \<Rightarrow> int \<times> int" where
  "buf_sizes a =
     (let pic = VDEC_GetPicBufferSize (va_type a) (va_w a) (va_h a); tmv = VDEC_GetTmvBufferSize (va_type a) (va_w a) (va_h a)
      in case va_type a of
        PT_H265 \<Rightarrow> (pic, tmv)
      | PT_H264 \<Rightarrow> (pic, if va_dec a = VIDEO_DEC_MODE_IPB then tmv else 0)
      | _ \<Rightarrow> (pic, 0))"

text \<open>A need: the size of a block, how many, and whether a pool has been found for it.\<close>

type_synonym need = "int \<times> int \<times> bool"

definition pic_needs :: "vdec_attr list \<Rightarrow> need list" where
  "pic_needs as = map (\<lambda>a. (fst (buf_sizes a), va_bufs a, False)) as"

definition tmv_needs :: "vdec_attr list \<Rightarrow> need list" where
  "tmv_needs as = map (\<lambda>a. (snd (buf_sizes a), u32 (va_refs a + 1), False)) as"

text \<open>One round over the channels: the first that has no pool yet opens one, and those with the same size join it.\<close>

fun pool_round :: "(int \<times> int) option \<Rightarrow> need list \<Rightarrow> (int \<times> int) option \<times> need list" where
  "pool_round p [] = (p, [])"
| "pool_round p ((s, n, done) # ns) =
     (let (p1, d1) = (if p = None \<and> s \<noteq> 0 \<and> \<not> done then (Some (s, n), True) else (p, done));
          (p2, d2) = (case p1 of Some (s', c) \<Rightarrow> if \<not> d1 \<and> s' = s then (Some (s', u32 (c + n)), True) else (p1, d1) | None \<Rightarrow> (p1, d1));
          (q, ms) = pool_round p2 ns
      in (q, (s, n, d2) # ms))"

text \<open>The configurations from index \<open>j\<close> on; \<open>pos\<close> is the last index used.\<close>

fun pool_loop :: "nat list \<Rightarrow> (int \<times> int) list \<Rightarrow> nat \<Rightarrow> need list \<Rightarrow> (int \<times> int) list \<times> nat \<times> need list" where
  "pool_loop [] cfg pos ns = (cfg, pos, ns)"
| "pool_loop (j # js) cfg pos ns =
     (case pool_round None ns of
        (None, ms) \<Rightarrow> pool_loop js cfg pos ms
      | (Some p, ms) \<Rightarrow> pool_loop js (cfg[j := p]) j ms)"

definition VB_MAX_COMM_POOLS :: nat where
  "VB_MAX_COMM_POOLS = 16"

text \<open>The pools and their number.\<close>

definition vdec_pools :: "vdec_attr list \<Rightarrow> (int \<times> int) list \<times> nat" where
  "vdec_pools as =
     (let (cfg, pos, _) = pool_loop [0..<VB_MAX_COMM_POOLS] (replicate VB_MAX_COMM_POOLS (0, 0)) 0 (pic_needs as);
          (cfg', pos', _) = pool_loop [pos + 1..<VB_MAX_COMM_POOLS] cfg pos (tmv_needs as)
      in (cfg', pos' + 1))"

section \<open>Taking and giving back\<close>

datatype vb_source = VB_SOURCE_COMMON | VB_SOURCE_MODULE | VB_SOURCE_PRIVATE | VB_SOURCE_USER

datatype pool_event = Exit_mod | Config_mod "(int \<times> int) list" nat | Init_mod | Create_pool int int | Created int | Destroy_pool int

text \<open>What the library answers, given the events so far; \<open>None\<close> is an invalid pool.\<close>

record pool_env =
  pe_ret :: "pool_event list \<Rightarrow> int"
  pe_pool :: "pool_event list \<Rightarrow> int option"

text \<open>\<open>g_ahPicVbPool\<close>, \<open>g_ahTmvVbPool\<close> and the events.\<close>

record pool_state =
  ps_pic :: "nat \<Rightarrow> int option"
  ps_tmv :: "nat \<Rightarrow> int option"
  ps_tr :: "pool_event list"

definition create_pool :: "pool_env \<Rightarrow> int \<Rightarrow> int \<Rightarrow> pool_state \<Rightarrow> int option \<times> pool_state" where
  "create_pool e sz n s =
     (let tr = ps_tr s @ [Create_pool sz n]; h = pe_pool e tr
      in (h, s\<lparr>ps_tr := tr @ (case h of None \<Rightarrow> [] | Some x \<Rightarrow> [Created x])\<rparr>))"

definition create_pic :: "pool_env \<Rightarrow> nat \<Rightarrow> vdec_attr \<Rightarrow> pool_state \<Rightarrow> bool \<times> pool_state" where
  "create_pic e i a s =
     (if fst (buf_sizes a) \<noteq> 0 \<and> va_bufs a \<noteq> 0
      then let (h, s1) = create_pool e (fst (buf_sizes a)) (va_bufs a) s in (h \<noteq> None, s1\<lparr>ps_pic := (ps_pic s1)(i := h)\<rparr>)
      else (True, s))"

definition create_tmv :: "pool_env \<Rightarrow> nat \<Rightarrow> vdec_attr \<Rightarrow> pool_state \<Rightarrow> bool \<times> pool_state" where
  "create_tmv e i a s =
     (if snd (buf_sizes a) \<noteq> 0
      then let (h, s1) = create_pool e (snd (buf_sizes a)) (u32 (va_refs a + 1)) s in (h \<noteq> None, s1\<lparr>ps_tmv := (ps_tmv s1)(i := h)\<rparr>)
      else (True, s))"

definition destroy_pools :: "nat \<Rightarrow> pool_state \<Rightarrow> pool_state" where
  "destroy_pools i s =
     (let s1 = (case ps_pic s i of None \<Rightarrow> s | Some h \<Rightarrow> s\<lparr>ps_pic := (ps_pic s)(i := None), ps_tr := ps_tr s @ [Destroy_pool h]\<rparr>)
      in case ps_tmv s1 i of None \<Rightarrow> s1 | Some h \<Rightarrow> s1\<lparr>ps_tmv := (ps_tmv s1)(i := None), ps_tr := ps_tr s1 @ [Destroy_pool h]\<rparr>)"

text \<open>From the channel given down to the first.\<close>

fun destroy_down :: "nat \<Rightarrow> pool_state \<Rightarrow> pool_state" where
  "destroy_down 0 s = s"
| "destroy_down (Suc i) s = destroy_down i (destroy_pools i s)"

fun create_all :: "pool_env \<Rightarrow> nat \<Rightarrow> vdec_attr list \<Rightarrow> pool_state \<Rightarrow> int \<times> pool_state" where
  "create_all e i [] s = (0, s)"
| "create_all e i (a # as) s =
     (let (ok, s1) = create_pic e i a s
      in if \<not> ok then (-1, destroy_down (Suc i) s1)
         else let (ok2, s2) = create_tmv e i a s1
      in if \<not> ok2 then (-1, destroy_down (Suc i) s2) else create_all e (Suc i) as s2)"

definition pool_call :: "pool_env \<Rightarrow> pool_event \<Rightarrow> pool_state \<Rightarrow> int \<times> pool_state" where
  "pool_call e c s = (let tr = ps_tr s @ [c] in (pe_ret e tr, s\<lparr>ps_tr := tr\<rparr>))"

definition InitVBPool :: "pool_env \<Rightarrow> vb_source \<Rightarrow> vdec_attr list \<Rightarrow> pool_state \<Rightarrow> int \<times> pool_state" where
  "InitVBPool e src as s =
     (case src of
        VB_SOURCE_MODULE \<Rightarrow>
          (let s1 = snd (pool_call e Exit_mod s); (r2, s2) = pool_call e (Config_mod (fst (vdec_pools as)) (snd (vdec_pools as))) s1
           in if r2 \<noteq> 0 then (r2, s2)
              else let (r3, s3) = pool_call e Init_mod s2 in if r3 \<noteq> 0 then (-1, snd (pool_call e Exit_mod s3)) else (0, s3))
      | VB_SOURCE_USER \<Rightarrow> create_all e 0 as s
      | _ \<Rightarrow> (0, s))"

definition VB_MAX_POOLS :: nat where
  "VB_MAX_POOLS = 512"

definition ExitVBPool :: "pool_env \<Rightarrow> vb_source \<Rightarrow> pool_state \<Rightarrow> pool_state" where
  "ExitVBPool e src s =
     (case src of
        VB_SOURCE_MODULE \<Rightarrow> snd (pool_call e Exit_mod s)
      | VB_SOURCE_USER \<Rightarrow> destroy_down VB_MAX_POOLS s
      | _ \<Rightarrow> s)"

section \<open>One pool for each size\<close>

text \<open>The reference: the sizes that are needed, in the order they first come, each with the sum of its counts.\<close>

function group_sizes :: "(int \<times> int) list \<Rightarrow> (int \<times> int) list" where
  "group_sizes [] = []"
| "group_sizes ((s, n) # xs) =
     (if s = 0 then group_sizes xs
      else (s, n + sum_list (map snd (filter (\<lambda>x. fst x = s) xs))) # group_sizes (filter (\<lambda>x. fst x \<noteq> s) xs))"
  by pat_completeness auto
termination by (relation "measure length") (auto intro: le_imp_less_Suc)

definition todo :: "need list \<Rightarrow> (int \<times> int) list" where
  "todo ns = map (\<lambda>(s, n, d). (s, n)) (filter (\<lambda>(s, n, d). \<not> d) ns)"

definition mark :: "int \<Rightarrow> need list \<Rightarrow> need list" where
  "mark s ns = map (\<lambda>(t, n, d). (t, n, d \<or> t = s)) ns"

definition counts_ok :: "need list \<Rightarrow> bool" where
  "counts_ok ns \<longleftrightarrow> list_all (\<lambda>(s, n, d). 0 \<le> n) ns \<and> sum_list (map (\<lambda>(s, n, d). n) ns) < 4294967296"

lemma todo_simps [simp]: "todo [] = []" "todo ((s, n, d) # ns) = (if d then todo ns else (s, n) # todo ns)"
  by (simp_all add: todo_def)

lemma mark_simps [simp]: "mark s [] = []" "mark s ((t, n, d) # ns) = (t, n, d \<or> t = s) # mark s ns"
  by (simp_all add: mark_def)

lemma todo_mark: "todo (mark s ns) = filter (\<lambda>x. fst x \<noteq> s) (todo ns)"
  by (induction ns) auto

lemma counts_nonneg:
  fixes ns :: "need list"
  shows "list_all (\<lambda>(s, n, d). 0 \<le> n) ns \<Longrightarrow> 0 \<le> sum_list (map (\<lambda>(s, n, d). n) ns)"
  by (induction ns) auto

lemma counts_mark: "counts_ok ns \<Longrightarrow> counts_ok (mark s ns)"
proof -
  have "map (\<lambda>(s, n, d). n) (mark s ns) = map (\<lambda>(s, n, d). n) ns" "list_all (\<lambda>(s, n, d). 0 \<le> n) (mark s ns) = list_all (\<lambda>(s, n, d). 0 \<le> n) ns"
    by (induction ns) auto
  then show "counts_ok ns \<Longrightarrow> counts_ok (mark s ns)" by (simp add: counts_ok_def)
qed

lemma todo_sum: "list_all (\<lambda>(s, n, d). 0 \<le> n) ns \<Longrightarrow> 0 \<le> sum_list (map snd (filter P (todo ns))) \<and>
    sum_list (map snd (filter P (todo ns))) \<le> sum_list (map (\<lambda>(s, n, d). n) ns)"
proof (induction ns)
  case (Cons x ns)
  then show ?case by (cases x) (auto simp: counts_nonneg)
qed simp

lemma pool_round_join:
  assumes "list_all (\<lambda>(s, n, d). 0 \<le> n) ns" "0 \<le> c" "c + sum_list (map (\<lambda>(s, n, d). n) ns) < 4294967296"
  shows "pool_round (Some (s, c)) ns = (Some (s, c + sum_list (map snd (filter (\<lambda>x. fst x = s) (todo ns)))), mark s ns)"
  using assms
proof (induction ns arbitrary: c)
  case (Cons x ns)
  obtain t n d where x: "x = (t, n, d)" by (cases x)
  have nn: "0 \<le> n" "0 \<le> sum_list (map (\<lambda>(s, n, d). n) ns)" using Cons.prems(1) counts_nonneg [of ns] by (auto simp: x)
  have u: "u32 (c + n) = c + n" using Cons.prems nn by (intro u32_id) (auto simp: x in_u32_def)
  show ?case using Cons.IH [of c] Cons.IH [of "c + n"] Cons.prems nn by (auto simp: x u)
qed simp

lemma group_sizes_head: "group_sizes xs = (s, c) # g \<Longrightarrow> s \<noteq> 0"
  by (induction xs rule: group_sizes.induct) (auto split: if_splits)

lemma pool_round_first:
  assumes "counts_ok ns"
  shows "pool_round None ns = (case group_sizes (todo ns) of [] \<Rightarrow> (None, ns) | (s, c) # g \<Rightarrow> (Some (s, c), mark s ns))"
  using assms
proof (induction ns)
  case (Cons x ns)
  obtain s n d where x: "x = (s, n, d)" by (cases x)
  have c: "counts_ok ns" "0 \<le> n" "list_all (\<lambda>(s, n, d). 0 \<le> n) ns" "n + sum_list (map (\<lambda>(s, n, d). n) ns) < 4294967296"
    using Cons.prems counts_nonneg [of ns] by (auto simp: counts_ok_def x)
  show ?case
  proof (cases "s \<noteq> 0 \<and> \<not> d")
    case True
    then show ?thesis using pool_round_join [OF c(3,2,4), of s] by (simp add: x)
  next
    case False
    have "s \<noteq> t" if "group_sizes (todo ns) = (t, k) # g" "\<not> d" for t k g using group_sizes_head [OF that(1)] False that(2) by auto
    then show ?thesis using False Cons.IH [OF c(1)] by (auto simp: x split: list.splits)
  qed
qed simp

lemma group_sizes_filter: "group_sizes xs = (s, c) # g \<Longrightarrow> g = group_sizes (filter (\<lambda>x. fst x \<noteq> s) xs)"
  by (induction xs rule: group_sizes.induct) (auto split: if_splits)

lemma pool_loop_groups:
  assumes "counts_ok ns" "length (group_sizes (todo ns)) \<le> m - j" "length cfg = m"
  shows "\<exists>ms. pool_loop [j..<m] cfg pos ns =
    (take j cfg @ group_sizes (todo ns) @ drop (j + length (group_sizes (todo ns))) cfg,
     if group_sizes (todo ns) = [] then pos else j + length (group_sizes (todo ns)) - 1, ms)"
  using assms
proof (induction "m - j" arbitrary: j cfg pos ns)
  case 0
  then show ?case by simp
next
  case (Suc k)
  then have up: "[j..<m] = j # [Suc j..<m]" by (simp add: upt_conv_Cons)
  show ?case
  proof (cases "group_sizes (todo ns)")
    case Nil
    then show ?thesis using Suc.hyps(1) [of "Suc j" ns cfg pos] Suc.prems Suc.hyps(2) pool_round_first [OF Suc.prems(1)]
      by (simp add: up)
  next
    case (Cons p g)
    obtain s c where p: "p = (s, c)" by (cases p)
    have g: "group_sizes (todo (mark s ns)) = g" using group_sizes_filter [of "todo ns" s c g] Cons p by (simp add: todo_mark)
    have j: "j < m" using Suc.hyps(2) by simp
    have k: "k = m - Suc j" "length g \<le> m - Suc j" using Suc.hyps(2) Suc.prems(2) Cons by simp_all
    obtain ms where "pool_loop [Suc j..<m] (cfg[j := p]) j (mark s ns) =
        (take (Suc j) (cfg[j := p]) @ g @ drop (Suc j + length g) (cfg[j := p]), if g = [] then j else Suc j + length g - 1, ms)"
      using Suc.hyps(1) [of "Suc j" "mark s ns" "cfg[j := p]" j, unfolded g, OF k(1) counts_mark [OF Suc.prems(1)] k(2)] Suc.prems(3) by auto
    then show ?thesis using Cons j Suc.prems(3) pool_round_first [OF Suc.prems(1)] by (auto simp: up p take_Suc_conv_app_nth)
  qed
qed

text \<open>
  C37. The decoder module is configured with one pool for each size of picture, then one for each size of motion vectors, each with as many
  blocks as the channels of that size need together, in the order of the channels, as long as there are no more than sixteen sizes.
\<close>

theorem vdec_pools_correct:
  assumes "group_sizes (todo (pic_needs as)) = P" "group_sizes (todo (tmv_needs as)) = T" "P \<noteq> []" "length P + length T \<le> 16"
    and "counts_ok (pic_needs as)" "counts_ok (tmv_needs as)"
  shows "vdec_pools as = (P @ T @ replicate (16 - (length P + length T)) (0, 0), length P + length T)"
proof -
  obtain ms where 1: "pool_loop [0..<16] (replicate 16 (0, 0)) 0 (pic_needs as) = (P @ replicate (16 - length P) (0, 0), length P - 1, ms)"
    using pool_loop_groups [OF assms(5), of 16 0 "replicate 16 (0, 0)" 0] assms(1,3,4) by auto
  have p: "length P - 1 + 1 = length P" using assms(3) by (cases P) auto
  have lt: "length T \<le> 16 - length P" "length (P @ replicate (16 - length P) (0::int, 0::int)) = 16"
    "16 - length P - length T = 16 - (length P + length T)" using assms(4) by simp_all
  obtain ns where "pool_loop [length P..<16] (P @ replicate (16 - length P) (0, 0)) (length P - 1) (tmv_needs as) =
      (P @ T @ replicate (16 - (length P + length T)) (0, 0), if T = [] then length P - 1 else length P + length T - 1, ns)"
    using pool_loop_groups [OF assms(6), of 16 "length P" "P @ replicate (16 - length P) (0, 0)" "length P - 1", unfolded assms(2)] lt by auto
  then show ?thesis using 1 p assms(3) by (auto simp: vdec_pools_def VB_MAX_COMM_POOLS_def)
qed

definition h264_chn :: vdec_attr where
  "h264_chn = \<lparr>va_type = PT_H264, va_frames = True, va_w = 1920, va_h = 1080, va_bufs = 5, va_display = 2, va_dec = VIDEO_DEC_MODE_IPB,
     va_refs = 2, va_fmt = YVU_SEMIPLANAR_420, va_alpha = 0\<rparr>"

lemma vdec_pools_correct_witness:
  "vdec_pools [h264_chn, h264_chn\<lparr>va_type := PT_JPEG, va_h := 720\<rparr>, h264_chn\<lparr>va_bufs := 3\<rparr>] = ([(3133440, 8), (2073600, 5)] @ [(522240, 6)] @ replicate 13 (0, 0), 3)"
proof -
  let ?as = "[h264_chn, h264_chn\<lparr>va_type := PT_JPEG, va_h := 720\<rparr>, h264_chn\<lparr>va_bufs := 3\<rparr>]"
  have n: "pic_needs ?as = [(3133440, 5, False), (2073600, 5, False), (3133440, 3, False)]"
    "tmv_needs ?as = [(522240, 3, False), (0, 3, False), (522240, 3, False)]" by code_simp+
  show ?thesis
    using vdec_pools_correct [of ?as "[(3133440, 8), (2073600, 5)]" "[(522240, 6)]"] unfolding n by (simp add: counts_ok_def)
qed

section \<open>Pools created are destroyed\<close>

fun created :: "pool_event list \<Rightarrow> int list" where
  "created [] = []"
| "created (Created h # tr) = h # created tr"
| "created (ev # tr) = created tr"

fun destroyed :: "pool_event list \<Rightarrow> int list" where
  "destroyed [] = []"
| "destroyed (Destroy_pool h # tr) = h # destroyed tr"
| "destroyed (ev # tr) = destroyed tr"

lemma created_append [simp]: "created (a @ b) = created a @ created b"
  by (induction a rule: created.induct) auto

lemma destroyed_append [simp]: "destroyed (a @ b) = destroyed a @ destroyed b"
  by (induction a rule: destroyed.induct) auto

definition opt_list :: "'a option \<Rightarrow> 'a list" where
  "opt_list x = (case x of None \<Rightarrow> [] | Some h \<Rightarrow> [h])"

lemma opt_list_simps [simp]: "opt_list None = []" "opt_list (Some h) = [h]"
  by (simp_all add: opt_list_def)

text \<open>What the arrays hold for the first \<open>n\<close> channels.\<close>

fun kept :: "pool_state \<Rightarrow> nat \<Rightarrow> int list" where
  "kept s 0 = []"
| "kept s (Suc n) = kept s n @ opt_list (ps_pic s n) @ opt_list (ps_tmv s n)"

definition pools_ok :: "nat \<Rightarrow> pool_state \<Rightarrow> bool" where
  "pools_ok n s \<longleftrightarrow> mset (created (ps_tr s)) = mset (destroyed (ps_tr s)) + mset (kept s n) \<and> (\<forall>i\<ge>n. ps_pic s i = None \<and> ps_tmv s i = None)"

lemma kept_cong: "(\<And>i. i < n \<Longrightarrow> ps_pic s i = ps_pic t i \<and> ps_tmv s i = ps_tmv t i) \<Longrightarrow> kept s n = kept t n"
  by (induction n) auto

lemma kept_after: "(\<And>i. n \<le> i \<Longrightarrow> ps_pic s i = None \<and> ps_tmv s i = None) \<Longrightarrow> kept s (n + k) = kept s n"
  by (induction k) auto

lemma pools_ok_mono: "pools_ok n s \<Longrightarrow> n \<le> m \<Longrightarrow> pools_ok m s"
  using kept_after [of n s "m - n"] by (auto simp: pools_ok_def)

lemma destroy_pools_ok: "pools_ok (Suc n) s \<Longrightarrow> pools_ok n (destroy_pools n s)"
proof -
  assume a: "pools_ok (Suc n) s"
  have k: "kept (destroy_pools n s) n = kept s n"
    by (rule kept_cong) (auto simp: destroy_pools_def Let_def split: option.splits)
  have e: "i \<noteq> n \<Longrightarrow> ps_pic (destroy_pools n s) i = ps_pic s i \<and> ps_tmv (destroy_pools n s) i = ps_tmv s i"
    "ps_pic (destroy_pools n s) n = None" "ps_tmv (destroy_pools n s) n = None" for i
    by (auto simp: destroy_pools_def Let_def split: option.splits)
  have "created (ps_tr (destroy_pools n s)) = created (ps_tr s)"
    "destroyed (ps_tr (destroy_pools n s)) = destroyed (ps_tr s) @ opt_list (ps_pic s n) @ opt_list (ps_tmv s n)"
    by (auto simp: destroy_pools_def Let_def split: option.splits)
  then show ?thesis using a e unfolding pools_ok_def k by (auto simp: le_Suc_eq) (metis le_antisym not_less_eq_eq)+
qed

lemma destroy_down_ok: "pools_ok n s \<Longrightarrow> pools_ok 0 (destroy_down n s)"
  by (induction n arbitrary: s) (auto dest: destroy_pools_ok)

lemma create_pool_eq:
  assumes "create_pool e sz k s = (h, s1)"
  shows "ps_pic s1 = ps_pic s" "ps_tmv s1 = ps_tmv s" "created (ps_tr s1) = created (ps_tr s) @ opt_list h"
    "destroyed (ps_tr s1) = destroyed (ps_tr s)"
  using assms by (auto simp: create_pool_def Let_def split: option.splits)

lemma create_pic_ok:
  assumes "pools_ok n s" "create_pic e n a s = (ok, s1)"
  shows "pools_ok (Suc n) s1" "ps_tmv s1 n = None" "destroyed (ps_tr s1) = destroyed (ps_tr s)"
proof -
  have none: "ps_pic s n = None" "ps_tmv s n = None" using assms(1) by (auto simp: pools_ok_def)
  have "pools_ok (Suc n) s1 \<and> ps_tmv s1 n = None \<and> destroyed (ps_tr s1) = destroyed (ps_tr s)"
  proof (cases "fst (buf_sizes a) \<noteq> 0 \<and> va_bufs a \<noteq> 0")
    case True
    obtain h t where h: "create_pool e (fst (buf_sizes a)) (va_bufs a) s = (h, t)" by (metis surj_pair)
    note c = create_pool_eq [OF h]
    have s1: "s1 = t\<lparr>ps_pic := (ps_pic t)(n := h)\<rparr>" using assms(2) True by (simp add: create_pic_def h)
    have "kept s1 n = kept s n" by (rule kept_cong) (simp add: s1 c)
    then show ?thesis using assms(1) none unfolding pools_ok_def by (simp add: s1 c)
  next
    case False
    then have "s1 = s" using assms(2) by (auto simp: create_pic_def split: if_splits)
    then show ?thesis using pools_ok_mono [OF assms(1), of "Suc n"] none by simp
  qed
  then show "pools_ok (Suc n) s1" "ps_tmv s1 n = None" "destroyed (ps_tr s1) = destroyed (ps_tr s)" by simp_all
qed

lemma create_tmv_ok:
  assumes "pools_ok (Suc n) s" "ps_tmv s n = None" "create_tmv e n a s = (ok, s1)"
  shows "pools_ok (Suc n) s1" "destroyed (ps_tr s1) = destroyed (ps_tr s)"
proof -
  have "pools_ok (Suc n) s1 \<and> destroyed (ps_tr s1) = destroyed (ps_tr s)"
  proof (cases "snd (buf_sizes a) \<noteq> 0")
    case True
    obtain h t where h: "create_pool e (snd (buf_sizes a)) (u32 (va_refs a + 1)) s = (h, t)" by (metis surj_pair)
    note c = create_pool_eq [OF h]
    have s1: "s1 = t\<lparr>ps_tmv := (ps_tmv t)(n := h)\<rparr>" using assms(3) True by (simp add: create_tmv_def h)
    have "kept s1 n = kept s n" by (rule kept_cong) (simp add: s1 c)
    then show ?thesis using assms(1,2) unfolding pools_ok_def by (simp add: s1 c)
  next
    case False
    then have "s1 = s" using assms(3) by (auto simp: create_tmv_def split: if_splits)
    then show ?thesis using assms(1) by simp
  qed
  then show "pools_ok (Suc n) s1" "destroyed (ps_tr s1) = destroyed (ps_tr s)" by simp_all
qed

lemma create_all_ok:
  "pools_ok n s \<Longrightarrow> create_all e n as s = (r, s1) \<Longrightarrow>
   if r = 0 then pools_ok (n + length as) s1 \<and> destroyed (ps_tr s1) = destroyed (ps_tr s) else pools_ok 0 s1"
proof (induction as arbitrary: n s)
  case (Cons a as)
  obtain ok t where 1: "create_pic e n a s = (ok, t)" by (metis surj_pair)
  obtain ok2 u where 2: "create_tmv e n a t = (ok2, u)" by (metis surj_pair)
  note t = create_pic_ok [OF Cons.prems(1) 1]
  note u = create_tmv_ok [OF t(1,2) 2]
  show ?case
  proof (cases "ok \<and> ok2")
    case True
    then have "create_all e (Suc n) as u = (r, s1)" using Cons.prems(2) 1 2 by simp
    from Cons.IH [OF u(1) this] show ?thesis using t(3) u(2) by (auto split: if_splits)
  next
    case False
    then have "r = -1" "s1 = destroy_down (Suc n) t \<or> s1 = destroy_down (Suc n) u"
      using Cons.prems(2) 1 2 by (auto simp: Let_def simp del: destroy_down.simps split: if_splits)
    then show ?thesis using destroy_down_ok [OF t(1)] destroy_down_ok [OF u(1)] by (auto simp del: destroy_down.simps)
  qed
qed simp

text \<open>
  C38. Pools of the user: when a pool cannot be created, every pool that was created is destroyed, once, and none is kept; otherwise the arrays
  hold exactly the pools created, and \<open>SAMPLE_COMM_VDEC_ExitVBPool\<close> destroys each of them once.
\<close>

theorem user_pools_given_back:
  assumes "InitVBPool e VB_SOURCE_USER as s = (r, s1)" "length as \<le> 16" "ps_tr s = []" "ps_pic s = (\<lambda>_. None)" "ps_tmv s = (\<lambda>_. None)"
  shows "(if r \<noteq> 0 then mset (destroyed (ps_tr s1)) = mset (created (ps_tr s1)) \<and> ps_pic s1 = (\<lambda>_. None) \<and> ps_tmv s1 = (\<lambda>_. None)
     else mset (created (ps_tr s1)) = mset (kept s1 (length as)) \<and> destroyed (ps_tr s1) = []) \<and>
    mset (destroyed (ps_tr (ExitVBPool e VB_SOURCE_USER s1))) = mset (created (ps_tr (ExitVBPool e VB_SOURCE_USER s1))) \<and>
    ps_pic (ExitVBPool e VB_SOURCE_USER s1) = (\<lambda>_. None) \<and> ps_tmv (ExitVBPool e VB_SOURCE_USER s1) = (\<lambda>_. None)"
proof -
  have i: "pools_ok 0 s" using assms(3-5) by (simp add: pools_ok_def)
  have c: "create_all e 0 as s = (r, s1)" using assms(1) by (simp add: InitVBPool_def)
  note k = create_all_ok [OF i c]
  have n: "pools_ok 512 s1" using k assms(2) pools_ok_mono [of "length as" s1 512] pools_ok_mono [of 0 s1 512] by (auto split: if_splits)
  have x: "pools_ok 0 (ExitVBPool e VB_SOURCE_USER s1)"
    unfolding ExitVBPool_def vb_source.case VB_MAX_POOLS_def by (rule destroy_down_ok [OF n])
  show ?thesis using k x assms(3) by (auto simp: pools_ok_def fun_eq_iff split: if_splits)
qed

definition third_pool_fails :: pool_env where
  "third_pool_fails = \<lparr>pe_ret = \<lambda>_. 0, pe_pool = \<lambda>tr. if length tr = 5 then None else Some (int (length tr))\<rparr>"

definition no_pools :: pool_state where
  "no_pools = \<lparr>ps_pic = \<lambda>_. None, ps_tmv = \<lambda>_. None, ps_tr = []\<rparr>"

lemma user_pools_given_back_witness:
  "fst (InitVBPool third_pool_fails VB_SOURCE_USER [h264_chn, h264_chn] no_pools) = -1 \<and>
   ps_pic (snd (InitVBPool third_pool_fails VB_SOURCE_USER [h264_chn, h264_chn] no_pools)) = (\<lambda>_. None) \<and>
   mset (destroyed (ps_tr (snd (InitVBPool third_pool_fails VB_SOURCE_USER [h264_chn, h264_chn] no_pools)))) = {#1, 3#}"
proof -
  let ?x = "InitVBPool third_pool_fails VB_SOURCE_USER [h264_chn, h264_chn] no_pools"
  have 1: "fst ?x = -1" "created (ps_tr (snd ?x)) = [1, 3]" by code_simp+
  have 2: "?x = (fst ?x, snd ?x)" "length [h264_chn, h264_chn] \<le> 16" "ps_tr no_pools = []" "ps_pic no_pools = (\<lambda>_. None)" "ps_tmv no_pools = (\<lambda>_. None)"
    by (simp_all add: no_pools_def)
  show ?thesis using user_pools_given_back [OF 2] 1 by simp
qed

end
