(* ===== verification/Vdec_Save.thy ===== *)
theory Vdec_Save
  imports Media_Buffer
begin

text \<open>
  Decoded pictures saved to files (common/sdk2v0/sample_comm_vdec.c): semi-planar pictures made planar
  (\<open>SAMPLE_COMM_VDEC_SaveYUVFile_Linear8Bit\<close>), pictures in RGB (\<open>_SaveRGBFile\<close>), and the thread that takes pictures from a decoder
  and saves them (\<open>_GetPic\<close>).

  A file is the list of the bytes written. Mappings, files and frames that are held are counted.
\<close>

section \<open>Saving a picture\<close>

record vdec_frame =
  df_fmt :: pixel_format
  df_w :: int
  df_h :: int
  df_phy0 :: int
  df_phy1 :: int
  df_stride0 :: int
  df_stride1 :: int
  df_plain :: bool

text \<open>The size of the luminance and of all, and the lines of the chrominance. \<open>None\<close>: the format is not supported.\<close>

definition yuv_sizes :: "vdec_frame \<Rightarrow> (int \<times> int \<times> int) option" where
  "yuv_sizes f =
     (let y = u32 (df_phy1 f - df_phy0 f); z = u32 (df_stride0 f * ALIGN_UP (df_h f) 16)
      in case df_fmt f of
        YVU_SEMIPLANAR_420 \<Rightarrow> Some (y, u32 (y * 3) div 2, df_h f div 2)
      | YVU_SEMIPLANAR_422 \<Rightarrow> Some (y, u32 (y * 2), df_h f)
      | YUV_400 \<Rightarrow> Some (z, z, 0)
      | _ \<Rightarrow> None)"

definition luma_lines :: "(int \<Rightarrow> int) \<Rightarrow> vdec_frame \<Rightarrow> int \<Rightarrow> int list" where
  "luma_lines mem f y = concat (map (\<lambda>h. mem_bytes mem (y + int h * df_stride0 f) (nat (df_w f))) [0..<nat (df_h f)])"

text \<open>Every second byte from an offset on: 1 for U, 0 for V.\<close>

definition chroma_lines :: "(int \<Rightarrow> int) \<Rightarrow> vdec_frame \<Rightarrow> int \<Rightarrow> int \<Rightarrow> int \<Rightarrow> int list" where
  "chroma_lines mem f c off rows =
     concat (map (\<lambda>h. map (\<lambda>w. mem (u32 (c + int h * df_stride1 f + off + 2 * int w))) [0..<nat (df_w f div 2)]) [0..<nat rows])"

text \<open>\<open>mmap\<close>: where the picture is mapped. The bytes written, and the mappings held afterwards.\<close>

definition SaveYUVFile :: "(int \<Rightarrow> int) \<Rightarrow> int option \<Rightarrow> bool \<Rightarrow> vdec_frame \<Rightarrow> int list \<times> nat" where
  "SaveYUVFile mem mmap malloc f =
     (case yuv_sizes f of
        None \<Rightarrow> ([], 0)
      | Some (ysz, sz, rows) \<Rightarrow>
        (case mmap of
           None \<Rightarrow> ([], 0)
         | Some y \<Rightarrow>
           let c = u32 (y + ysz); ls = luma_lines mem f y
           in if df_fmt f = YUV_400 then (ls, 0)
              else if \<not> malloc then (ls, 1)
              else (ls @ chroma_lines mem f c 1 rows @ chroma_lines mem f c 0 rows, 0)))"

definition rgb_bytes :: "pixel_format \<Rightarrow> int option" where
  "rgb_bytes f =
     (case f of
        ARGB_8888 \<Rightarrow> Some 4 | ABGR_8888 \<Rightarrow> Some 4 | ARGB_1555 \<Rightarrow> Some 2 | ABGR_1555 \<Rightarrow> Some 2
      | RGB_888 \<Rightarrow> Some 3 | BGR_888 \<Rightarrow> Some 3 | RGB_565 \<Rightarrow> Some 2 | BGR_565 \<Rightarrow> Some 2 | _ \<Rightarrow> None)"

definition rgb_map_size :: "int \<Rightarrow> int \<Rightarrow> int \<Rightarrow> int" where
  "rgb_map_size k w h = u32 (ALIGN_UP (u32 (w * k)) 16 * ALIGN_UP h 16)"

definition SaveRGBFile :: "(int \<Rightarrow> int) \<Rightarrow> int option \<Rightarrow> vdec_frame \<Rightarrow> int list" where
  "SaveRGBFile mem mmap f =
     (case rgb_bytes (df_fmt f) of
        None \<Rightarrow> []
      | Some k \<Rightarrow>
        (case mmap of
           None \<Rightarrow> []
         | Some a \<Rightarrow>
           let wb = u32 (df_w f * k); st = ALIGN_UP wb 16
           in concat (map (\<lambda>h. mem_bytes mem (a + int h * st) (nat wb)) [0..<nat (df_h f)])))"

section \<open>The thread that saves\<close>

text \<open>The ending of the file's name; \<open>None\<close>: the format is not known and the thread returns.\<close>

fun save_postfix :: "pixel_format \<Rightarrow> string option" where
  "save_postfix RGB_565 = Some ''rgb565''"
| "save_postfix BGR_565 = Some ''bgr565''"
| "save_postfix RGB_888 = Some ''rgb888''"
| "save_postfix BGR_888 = Some ''bgr888''"
| "save_postfix ARGB_8888 = Some ''argb8888''"
| "save_postfix ABGR_8888 = Some ''abgr8888''"
| "save_postfix ARGB_1555 = Some ''argb1555''"
| "save_postfix ABGR_1555 = Some ''abgr1555''"
| "save_postfix YVU_SEMIPLANAR_420 = Some ''yuv''"
| "save_postfix YUV_400 = Some ''yuv''"
| "save_postfix _ = None"

text \<open>What the \<open>k\<close>-th round of the loop sees: whether it is to stop, the frame it gets, and what opens, maps and is allocated.\<close>

record pic_env =
  ge_stop :: "nat \<Rightarrow> bool"
  ge_frame :: "nat \<Rightarrow> vdec_frame option"
  ge_open :: "nat \<Rightarrow> bool"
  ge_map :: "nat \<Rightarrow> int option"
  ge_malloc :: "nat \<Rightarrow> bool"
  ge_mem :: "nat \<Rightarrow> int \<Rightarrow> int"

text \<open>The files saved, the result (\<open>None\<close>: the loop has not ended), and the frames, files and mappings held.\<close>

record pic_state =
  gs_saved :: "int list list"
  gs_ret :: "int option"
  gs_frames :: nat
  gs_files :: nat
  gs_maps :: nat

definition save_frame :: "pic_env \<Rightarrow> nat \<Rightarrow> vdec_frame \<Rightarrow> pic_state \<Rightarrow> pic_state" where
  "save_frame e k f s =
     (let s = s\<lparr>gs_frames := gs_frames s + 1\<rparr>
      in if save_postfix (df_fmt f) = None then s\<lparr>gs_ret := Some (-1)\<rparr>
         else if \<not> ge_open e k then s\<lparr>gs_ret := Some (-1)\<rparr>
         else let s = s\<lparr>gs_files := gs_files s + 1\<rparr>
      in if df_fmt f \<noteq> YVU_SEMIPLANAR_420 \<and> df_fmt f \<noteq> YUV_400
         then s\<lparr>gs_saved := gs_saved s @ [SaveRGBFile (ge_mem e k) (ge_map e k) f], gs_frames := gs_frames s - 1, gs_files := gs_files s - 1\<rparr>
         else if df_plain f
         then let (bs, m) = SaveYUVFile (ge_mem e k) (ge_map e k) (ge_malloc e k) f
           in s\<lparr>gs_saved := gs_saved s @ [bs], gs_frames := gs_frames s - 1, gs_files := gs_files s - 1, gs_maps := gs_maps s + m\<rparr>
         else s\<lparr>gs_frames := gs_frames s - 1, gs_ret := Some 0\<rparr>)"

fun get_pic_loop :: "pic_env \<Rightarrow> nat \<Rightarrow> nat \<Rightarrow> pic_state \<Rightarrow> pic_state" where
  "get_pic_loop e 0 k s = s"
| "get_pic_loop e (Suc n) k s =
     (if ge_stop e k then s\<lparr>gs_ret := Some 0\<rparr>
      else case ge_frame e k of
        None \<Rightarrow> get_pic_loop e n (Suc k) s
      | Some f \<Rightarrow> let s1 = save_frame e k f s in if gs_ret s1 \<noteq> None then s1 else get_pic_loop e n (Suc k) s1)"

text \<open>The type of the channel is \<open>None\<close> when its attributes cannot be read.\<close>

definition VDEC_GetPic :: "pic_env \<Rightarrow> payload_type option \<Rightarrow> nat \<Rightarrow> pic_state" where
  "VDEC_GetPic e t n =
     (let s = \<lparr>gs_saved = [], gs_ret = None, gs_frames = 0, gs_files = 0, gs_maps = 0\<rparr>
      in case t of
        None \<Rightarrow> s\<lparr>gs_ret := Some (-1)\<rparr>
      | Some ty \<Rightarrow> if ty \<noteq> PT_JPEG then s\<lparr>gs_ret := Some (-1)\<rparr> else get_pic_loop e n 0 s)"

section \<open>A picture comes back\<close>

lemma concat_rows:
  "concat (map (\<lambda>y. map (\<lambda>x. bytes ! (off + (n * y + x))) [0..<n]) [0..<k]) = take (k * n) (drop off bytes)" if "off + k * n \<le> length bytes" for bytes :: "int list"
  using that
proof (induction k)
  case (Suc k)
  have "map (\<lambda>x. bytes ! (off + (n * k + x))) [0..<n] = take n (drop (off + k * n) bytes)"
    using Suc.prems by (intro nth_equalityI) (auto simp: algebra_simps)
  moreover have "take (Suc k * n) (drop off bytes) = take (k * n) (drop off bytes) @ take n (drop (off + k * n) bytes)"
  proof -
    have "Suc k * n = k * n + n" by simp
    then show ?thesis by (simp only: take_add drop_drop add.commute [of "k * n" off])
  qed
  moreover have "off + k * n \<le> length bytes" using Suc.prems by simp
  ultimately show ?case using Suc.IH by simp
qed simp

text \<open>The bytes of a line lie inside of its plane.\<close>

lemma plane_row:
  assumes "0 < s" "0 \<le> n" "n \<le> s" "y < h"
  shows "0 \<le> int y * s \<and> int y * s + n \<le> int h * s"
proof -
  have "(int y + 1) * s \<le> int h * s" using assms by (intro mult_right_mono) auto
  then show ?thesis using assms by (simp add: algebra_simps)
qed

lemma three_planes:
  assumes "length bytes = n + 2 * m"
  shows "take n bytes @ take m (drop n bytes) @ take m (drop (n + m) bytes) = bytes"
proof -
  have "take m (drop n bytes) @ drop m (drop n bytes) = drop n bytes" by (simp only: append_take_drop_id)
  moreover have "drop m (drop n bytes) = take m (drop (n + m) bytes)" using assms by (simp add: add.commute)
  ultimately show ?thesis by (metis append_take_drop_id)
qed

text \<open>A semi-planar picture that lies in memory, \<open>w\<close> times \<open>2 hh\<close> with lines of \<open>s\<close> bytes, comes out as planes.\<close>

lemma luma_saved:
  assumes "0 \<le> v" "0 < s" "int w \<le> s" "v + int h * s < 4294967296" "df_w f = int w" "df_h f = int h" "df_stride0 f = s" "w * h \<le> length bytes"
    and Y: "\<And>x y. y < h \<Longrightarrow> x < w \<Longrightarrow> mem (v + int y * s + int x) = bytes ! (w * y + x)"
  shows "luma_lines mem f v = take (w * h) bytes"
proof -
  have "u32 (v + int y * s + int x) = v + int y * s + int x" if "y < h" "x < w" for x y
    using plane_row [of s "int w" y h] that assms(1-4) by (intro u32_id) (simp add: in_u32_def)
  then have "luma_lines mem f v = concat (map (\<lambda>y. map (\<lambda>x. bytes ! (0 + (w * y + x))) [0..<w]) [0..<h])"
    unfolding luma_lines_def by (auto simp: assms(5-7) mem_bytes_def Y intro!: arg_cong [of _ _ concat] map_cong)
  then show ?thesis using concat_rows [of 0 h w bytes] assms(8) by (simp add: mult.commute)
qed

lemma chroma_saved:
  assumes "0 \<le> c" "0 < s" "2 * int wc \<le> s" "c + int hh * s < 4294967296" "df_w f div 2 = int wc" "df_stride1 f = s" "off + hh * wc \<le> length bytes" "d = 0 \<or> d = 1"
    and C: "\<And>x y. y < hh \<Longrightarrow> x < wc \<Longrightarrow> mem (c + int y * s + 2 * int x + d) = bytes ! (off + (wc * y + x))"
  shows "chroma_lines mem f c d (int hh) = take (hh * wc) (drop off bytes)"
proof -
  have u: "u32 (c + int y * s + d + 2 * int x) = c + int y * s + 2 * int x + d" if "y < hh" "x < wc" for x y
    using plane_row [of s "2 * int wc" y hh] that assms(1-4,8) by (subst u32_id) (auto simp: in_u32_def)
  have "chroma_lines mem f c d (int hh) = concat (map (\<lambda>y. map (\<lambda>x. bytes ! (off + (wc * y + x))) [0..<wc]) [0..<hh])"
    unfolding chroma_lines_def by (auto simp: assms(5,6) u C intro!: arg_cong [of _ _ concat] map_cong)
  then show ?thesis using concat_rows [of off hh wc bytes] assms(7) by simp
qed

lemma picture_saved:
  assumes "0 \<le> v" "2 \<le> w" "int w \<le> s" "h = 2 * hh" "wc = w div 2" "c = v + int h * s" "c + int hh * s < 4294967296" "length bytes = w * h + 2 * (hh * wc)"
    and "df_fmt f = YVU_SEMIPLANAR_420" "df_w f = int w" "df_h f = int h" "df_phy1 f = df_phy0 f + int h * s" "df_stride0 f = s" "df_stride1 f = s"
    and Y: "\<And>x y. y < h \<Longrightarrow> x < w \<Longrightarrow> mem (v + int y * s + int x) = bytes ! (w * y + x)"
    and C: "\<And>x y. y < hh \<Longrightarrow> x < wc \<Longrightarrow> mem (c + int y * s + 2 * int x) = bytes ! (w * h + hh * wc + (wc * y + x)) \<and>
      mem (c + int y * s + 2 * int x + 1) = bytes ! (w * h + (wc * y + x))"
  shows "SaveYUVFile mem (Some v) True f = (bytes, 0)"
proof -
  have s: "0 < s" "0 \<le> int hh * s" "0 \<le> int h * s" "2 * int wc \<le> s" "int w div 2 = int wc" using assms(2,3,5) by auto
  have top: "v + int h * s < 4294967296" using assms(6,7) s(2) by linarith
  have L: "luma_lines mem f v = take (w * h) bytes"
    using assms(1,3,8,10,11,13) s(1) top by (intro luma_saved [where s = s] Y) simp_all
  have U: "chroma_lines mem f c 1 (int hh) = take (hh * wc) (drop (w * h) bytes)"
    "chroma_lines mem f c 0 (int hh) = take (hh * wc) (drop (w * h + hh * wc) bytes)"
    using assms(1,6,7,8,10,14) s C by (intro chroma_saved [where s = s]; simp)+
  have "u32 (int h * s) = int h * s" "u32 (int h * s + v) = v + int h * s"
    using assms(1) s(3) top by (simp_all add: u32_id in_u32_def)
  then have "u32 (u32 (df_phy1 f - df_phy0 f) + v) = c" "int h div 2 = int hh" using assms(4,6,12) by simp_all
  then have "SaveYUVFile mem (Some v) True f = (luma_lines mem f v @ chroma_lines mem f c 1 (int hh) @ chroma_lines mem f c 0 (int hh), 0)"
    by (simp add: SaveYUVFile_def yuv_sizes_def assms(9,11) add.commute Let_def)
  then show ?thesis unfolding L U three_planes [OF assms(8)] .
qed

text \<open>
  C39. A planar picture in 4:2:0 that is read into a frame and made semi-planar comes out of
  \<open>SAMPLE_COMM_VDEC_SaveYUVFile_Linear8Bit\<close> as the file it was: all of Y, then of U, then of V, without the padding of the lines; and the
  mapping is given back.
\<close>

theorem SaveYUVFile_roundtrip:
  assumes "2 \<le> w" "int w \<le> s" "4 dvd s" "even h" "0 \<le> v" "v1 = v + int h * s" "v2 = v1 + s div 2 * int (h div 2)"
    and "v2 + s div 2 * int (h div 2) < 4294967296" "s div 2 * int (h div 2) < 2147483648" "length bytes = w * h + 2 * ((w div 2) * (h div 2))"
    and "ReadOneFrame v v1 v2 w h s (s div 2) bytes = (ws, rest)" "mem1 = store_all ws mem"
    and "PlanToSemi True mem1 v1 s v2 (int h) = Some ss" "mem2 = store_all ss mem1"
    and "f = \<lparr>df_fmt = YVU_SEMIPLANAR_420, df_w = int w, df_h = int h, df_phy0 = p, df_phy1 = p + int h * s, df_stride0 = s, df_stride1 = s, df_plain = True\<rparr>"
  shows "SaveYUVFile mem2 (Some v) True f = (bytes, 0)"
proof -
  define hh where "hh = h div 2"
  define wc where "wc = w div 2"
  have s: "0 < s" "0 < wc" "0 < w" using assms(1,2) by (auto simp: wc_def)
  have nn: "0 \<le> int h * s" "0 \<le> s div 2 * int hh" using s by simp_all
  obtain ws1 r1 ws2 r2 ws3 where rr: "read_rows h w v s bytes = (ws1, r1)" "read_rows hh wc v1 (s div 2) r1 = (ws2, r2)"
    "read_rows hh wc v2 (s div 2) r2 = (ws3, rest)" "ws = ws1 @ ws2 @ ws3"
    using assms(11) by (auto simp: ReadOneFrame_def hh_def wc_def split: prod.splits)
  have "h * w + hh * wc + hh * wc \<le> length bytes" using assms(10) by (simp add: hh_def wc_def mult.commute)
  note rb = read_three [OF s(3) s(2) s(2) this rr(1-3), folded rr(4)]
  have sz: "s32 (s div 2 * (int h div 2)) = s div 2 * int hh"
    using assms(9) nn(2) by (simp add: hh_def zdiv_int s32_id in_s32_def)
  then have m2: "mem2 = store_all (semi_stores (nat (s div 2 * int hh)) mem1 v1 v2) mem1"
    using assms(13,14) by (simp add: PlanToSemi_def)
  note pic = planar_to_semi [where w = w and s = s and ?v0.0 = v and hh = hh and h = h and bytes = bytes and ok = True and ws = ws and rest = rest
      and ?mem1.0 = mem1 and mem = mem and ?mem2.0 = mem2, folded wc_def, folded assms(6), folded assms(7) [folded hh_def]]
  have Y: "mem2 (v + int y * s + int x) = bytes ! (w * y + x)" if "y < h" "x < w" for x y
    using pic(1) [OF assms(1,2,3,5) _ _ rb assms(12) m2 that] assms(8,10) by (simp add: hh_def wc_def)
  have C: "mem2 (v1 + int y * s + 2 * int x) = bytes ! (w * h + wc * hh + (wc * y + x)) \<and> mem2 (v1 + int y * s + 2 * int x + 1) = bytes ! (w * h + (wc * y + x))"
    if "y < hh" "x < wc" for x y
    using pic(2) [OF assms(1,2,3,5) _ _ rb assms(12) m2 that] assms(8,10) by (simp add: hh_def wc_def)
  have e: "h = 2 * hh" "v1 + int hh * s < 4294967296"
    using assms(3,4,7,8) by (auto simp: hh_def algebra_simps elim!: dvdE)
  show ?thesis
  proof (rule picture_saved [OF assms(5,1,2) e(1) wc_def assms(6) e(2), where bytes = bytes])
    show "length bytes = w * h + 2 * (hh * wc)" using assms(10) by (simp add: hh_def wc_def mult.commute)
  qed (use Y C in \<open>simp_all add: assms(15) mult.commute [of hh]\<close>)
qed

lemma SaveYUVFile_roundtrip_witness:
  "SaveYUVFile (store_all (the (PlanToSemi True (store_all (fst (ReadOneFrame 0 8 10 4 2 4 2 [1..12])) (\<lambda>_. 0)) 8 4 10 2))
       (store_all (fst (ReadOneFrame 0 8 10 4 2 4 2 [1..12])) (\<lambda>_. 0))) (Some 0) True
     \<lparr>df_fmt = YVU_SEMIPLANAR_420, df_w = 4, df_h = 2, df_phy0 = 64, df_phy1 = 72, df_stride0 = 4, df_stride1 = 4, df_plain = True\<rparr> = ([1..12], 0)"
proof -
  have p: "PlanToSemi True mem 8 4 10 2 = Some (the (PlanToSemi True mem 8 4 10 2))" for mem by (simp add: PlanToSemi_def)
  have l: "length [1..12::int] = 12" by (simp add: upto.simps)
  show ?thesis
    by (rule SaveYUVFile_roundtrip [where w = 4 and h = 2 and s = 4 and v = 0 and ?v1.0 = 8 and ?v2.0 = 10 and bytes = "[1..12]" and p = 64
          and rest = "snd (ReadOneFrame 0 8 10 4 2 4 2 [1..12])", OF _ _ _ _ _ _ _ _ _ _ _ refl _ refl])
      (simp_all add: l p [symmetric])
qed

section \<open>What is kept\<close>

text \<open>When the buffer of a line cannot be allocated, the mapping is kept.\<close>

lemma save_keeps_mapping:
  "yuv_sizes f = Some (a, b, r) \<Longrightarrow> df_fmt f \<noteq> YUV_400 \<Longrightarrow> SaveYUVFile mem (Some y) False f = (luma_lines mem f y, 1)"
  by (simp add: SaveYUVFile_def Let_def)

lemma SaveYUVFile_maps: "snd (SaveYUVFile mem mm ok f) = 0" if "ok \<or> df_fmt f = YUV_400"
  using that by (auto simp: SaveYUVFile_def Let_def split: option.splits prod.splits)

text \<open>The map of an RGB picture is larger than the buffer the decoder's pool has for it.\<close>

lemma rgb_map_beyond_buffer: "VDEC_GetPicBufferSize PT_JPEG 1920 1080 < rgb_map_size 4 1920 1080"
  by code_simp

lemma save_frame_counts:
  "gs_ret s = None \<Longrightarrow> gs_frames s = 0 \<Longrightarrow> gs_files s = 0 \<Longrightarrow> s1 = save_frame e k f s \<Longrightarrow>
     gs_frames s1 = (if gs_ret s1 = Some (-1) then 1 else 0) \<and> gs_files s1 = (if gs_ret s1 = Some 0 then 1 else 0)"
  by (auto simp: save_frame_def Let_def split: prod.splits)

lemma save_frame_results: "gs_ret s = None \<Longrightarrow> gs_ret (save_frame e k f s) \<in> {None, Some 0, Some (-1)}"
  by (auto simp: save_frame_def Let_def split: prod.splits)

lemma get_pic_loop_counts:
  "gs_ret s = None \<Longrightarrow> gs_frames s = 0 \<Longrightarrow> gs_files s = 0 \<Longrightarrow>
     gs_frames (get_pic_loop e n k s) = (if gs_ret (get_pic_loop e n k s) = Some (-1) then 1 else 0) \<and> gs_files (get_pic_loop e n k s) \<le> 1"
proof (induction n arbitrary: k s)
  case (Suc n)
  show ?case
  proof (cases "ge_stop e k \<or> ge_frame e k = None")
    case True
    then show ?thesis using Suc by (auto)
  next
    case False
    then obtain f where f: "ge_frame e k = Some f" "\<not> ge_stop e k" by auto
    define s1 where "s1 = save_frame e k f s"
    note c = save_frame_counts [OF Suc.prems s1_def]
    show ?thesis
      using Suc.IH [of s1 "Suc k"] f c by (cases "gs_ret s1") (auto simp: s1_def [symmetric] Let_def)
  qed
qed simp

text \<open>
  The thread keeps a frame exactly when it ends with a failure of the loop: a frame whose format it does not know, or whose file does not open,
  is not released; at most one file stays open.
\<close>

lemma VDEC_GetPic_frames:
  "gs_frames (VDEC_GetPic e t n) = (if t = Some PT_JPEG \<and> gs_ret (VDEC_GetPic e t n) = Some (-1) then 1 else 0) \<and> gs_files (VDEC_GetPic e t n) \<le> 1"
  using get_pic_loop_counts by (auto simp: VDEC_GetPic_def Let_def split: option.splits)

text \<open>A picture of a kind that is not saved ends the thread with success, its file open.\<close>

lemma get_pic_leaves_file:
  "\<not> ge_stop e 0 \<Longrightarrow> ge_frame e 0 = Some f \<Longrightarrow> df_fmt f = YUV_400 \<Longrightarrow> \<not> df_plain f \<Longrightarrow> ge_open e 0 \<Longrightarrow>
     gs_ret (VDEC_GetPic e (Some PT_JPEG) (Suc n)) = Some 0 \<and> gs_files (VDEC_GetPic e (Some PT_JPEG) (Suc n)) = 1"
  by (simp add: VDEC_GetPic_def save_frame_def)

end
