(* ===== verification/Http_Form.thy ===== *)
theory Http_Form
  imports AIPC_Prelude "HOL-Library.Monad_Syntax"
begin

text \<open>
  The form an HTTP client posts to enrol a person (src/http_cmd/src/http-server-lib.c): a name, a number and a picture, each a part of a
  multipart body (\<open>formdata_paser\<close>), handed to a callback (\<open>handle_request\<close>).

  The HTTP server that reads the request is a parameter: it gives the target, and the memory from the begin of the body on with the length of
  the body. A string function that runs off this memory, a null string and a wrong release are \<open>None\<close>. Positions are below
  2147483648, as is the memory.
\<close>

section \<open>Strings of C\<close>

definition NUL :: char where "NUL = CHR 0x00"

definition crlf :: string where "crlf = [CHR 0x0D, CHR 0x0A]"

fun str_len :: "string \<Rightarrow> nat option" where
  "str_len [] = None"
| "str_len (c # s) = (if c = NUL then Some 0 else map_option Suc (str_len s))"

fun str_match :: "string \<Rightarrow> string \<Rightarrow> bool option" where
  "str_match [] s = Some True"
| "str_match (x # n) [] = None"
| "str_match (x # n) (c # s) = (if x = c then str_match n s else Some False)"

text \<open>\<open>strstr\<close>: the place of a string in another one, which ends at its null character.\<close>

fun str_str :: "string \<Rightarrow> string \<Rightarrow> nat option option" where
  "str_str n [] = (if n = [] then Some (Some 0) else None)"
| "str_str n (c # s) =
     (case str_match n (c # s) of
        None \<Rightarrow> None
      | Some True \<Rightarrow> Some (Some 0)
      | Some False \<Rightarrow> if c = NUL then Some None else map_option (map_option Suc) (str_str n s))"

section \<open>Memory\<close>

text \<open>
  The strings allocated so far, each with whether it is still allocated; \<open>http_image\<close>: blocks with name and number, and the request, place and
  size of the picture; what the callback has seen.
\<close>

record http_state =
  hs_blocks :: "(string \<times> bool) list"
  hs_name :: "nat option"
  hs_id :: "nat option"
  hs_pic :: "(nat \<times> nat \<times> int) option"
  hs_req :: nat
  hs_calls :: "(string option \<times> string option \<times> string option) list"

definition block :: "http_state \<Rightarrow> nat \<Rightarrow> string" where
  "block s k = fst (hs_blocks s ! k)"

definition is_live :: "http_state \<Rightarrow> nat \<Rightarrow> bool" where
  "is_live s k \<longleftrightarrow> k < length (hs_blocks s) \<and> snd (hs_blocks s ! k)"

text \<open>\<open>e\<close>: whether the allocation of the next block succeeds; the code writes to the block without asking.\<close>

definition new_block :: "(nat \<Rightarrow> bool) \<Rightarrow> string \<Rightarrow> http_state \<Rightarrow> (nat \<times> http_state) option" where
  "new_block e t s =
     (if e (length (hs_blocks s)) then Some (length (hs_blocks s), s\<lparr>hs_blocks := hs_blocks s @ [(t, True)]\<rparr>) else None)"

definition free_block :: "nat \<Rightarrow> http_state \<Rightarrow> http_state option" where
  "free_block k s = (if is_live s k then Some (s\<lparr>hs_blocks := (hs_blocks s)[k := (block s k, False)]\<rparr>) else None)"

section \<open>The parser\<close>

definition request_target_is :: "string \<Rightarrow> string \<Rightarrow> bool" where
  "request_target_is url target \<longleftrightarrow> length target = length url \<and> take (length target) url = target"

text \<open>The boundary may lie behind null characters: the search goes on behind each.\<close>

function get_file_end_boundary :: "string \<Rightarrow> int \<Rightarrow> string \<Rightarrow> nat \<Rightarrow> nat option option" where
  "get_file_end_boundary buf len b k =
     (if int k < len then
        case str_str b (drop k buf) of
          None \<Rightarrow> None
        | Some (Some j) \<Rightarrow> Some (Some (k + j))
        | Some None \<Rightarrow>
          (case str_len (drop k buf) of
             None \<Rightarrow> None
           | Some n \<Rightarrow> get_file_end_boundary buf len b (k + n + 1))
      else Some None)"
  by pat_completeness auto
termination by (relation "measure (\<lambda>(buf, len, b, k). nat (len - int k))") auto

declare get_file_end_boundary.simps [simp del]

text \<open>A copy of the line that begins here; no block: the line has no end, or is not the begin of a form.\<close>

definition get_boundary :: "(nat \<Rightarrow> bool) \<Rightarrow> string \<Rightarrow> bool \<Rightarrow> http_state \<Rightarrow> (nat option \<times> http_state) option" where
  "get_boundary e str start s =
     (if start \<and> str = [] then None
      else if start \<and> hd str \<noteq> CHR ''-'' then Some (None, s)
      else do {
        f \<leftarrow> str_str crlf str;
        case f of
          None \<Rightarrow> Some (None, s)
        | Some k \<Rightarrow>
          if start \<and> 60 < k then Some (None, s)
          else do {
            (b, s1) \<leftarrow> new_block e (take k str) s;
            Some (Some b, s1)
          }
      })"

datatype form_key = FORMDATA_KEY_NAME | FORMDATA_KEY_ID | FORMDATA_KEY_FILE

definition key_mark :: "form_key \<Rightarrow> string" where
  "key_mark k =
     (case k of
        FORMDATA_KEY_NAME \<Rightarrow> [CHR 0x22] @ ''Name'' @ [CHR 0x22]
      | FORMDATA_KEY_ID \<Rightarrow> [CHR 0x22] @ ''ID'' @ [CHR 0x22]
      | FORMDATA_KEY_FILE \<Rightarrow> ''filename'')"

definition has_mark :: "string \<Rightarrow> form_key \<Rightarrow> bool" where
  "has_mark field k = (case str_str (key_mark k) (field @ [NUL]) of Some (Some _) \<Rightarrow> True | _ \<Rightarrow> False)"

definition field_key :: "string \<Rightarrow> form_key option" where
  "field_key field = find (has_mark field) [FORMDATA_KEY_NAME, FORMDATA_KEY_ID, FORMDATA_KEY_FILE]"

text \<open>The value of a part, behind an empty line: its block and the place behind its line. A value without an end of line is a null string.\<close>

definition take_value :: "(nat \<Rightarrow> bool) \<Rightarrow> string \<Rightarrow> nat \<Rightarrow> http_state \<Rightarrow> (nat \<times> nat \<times> http_state) option" where
  "take_value e mem pos s =
     do {
       (v, s1) \<leftarrow> get_boundary e (drop (pos + 2) mem) False s;
       b \<leftarrow> v;
       Some (b, pos + length (block s1 b) + 2 + 2, s1)
     }"

definition take_file :: "(nat \<Rightarrow> bool) \<Rightarrow> string \<Rightarrow> int \<Rightarrow> string \<Rightarrow> nat \<Rightarrow> http_state \<Rightarrow> (nat \<times> http_state) option" where
  "take_file e mem len boundary pos s =
     do {
       (v, s1) \<leftarrow> get_boundary e (drop pos mem) False s;
       case v of
         None \<Rightarrow> Some (pos, s1)
       | Some b \<Rightarrow>
         do {
           let pic = pos + length (block s1 b) + 2 + 2;
           s2 \<leftarrow> free_block b s1;
           f \<leftarrow> get_file_end_boundary (drop pic mem) (u32 (len - int pic)) boundary 0;
           case f of
             None \<Rightarrow> Some (pic, s2)
           | Some k \<Rightarrow> Some (pic + k, s2\<lparr>hs_pic := Some (hs_req s2, pic, u32 (int k - 2))\<rparr>)
         }
     }"

definition take_field :: "(nat \<Rightarrow> bool) \<Rightarrow> string \<Rightarrow> int \<Rightarrow> string \<Rightarrow> string \<Rightarrow> nat \<Rightarrow> http_state \<Rightarrow> (nat \<times> http_state) option" where
  "take_field e mem len boundary field pos s =
     (case field_key field of
        None \<Rightarrow> Some (pos, s)
      | Some FORMDATA_KEY_NAME \<Rightarrow> do { (b, pos1, s1) \<leftarrow> take_value e mem pos s; Some (pos1, s1\<lparr>hs_name := Some b\<rparr>) }
      | Some FORMDATA_KEY_ID \<Rightarrow> do { (b, pos1, s1) \<leftarrow> take_value e mem pos s; Some (pos1, s1\<lparr>hs_id := Some b\<rparr>) }
      | Some FORMDATA_KEY_FILE \<Rightarrow> take_file e mem len boundary pos s)"

definition MAX_FORMDATA_KEY_NUM :: nat where
  "MAX_FORMDATA_KEY_NUM = 3"

text \<open>\<open>b\<close>: the block of the boundary. Only the ends of the loop release it.\<close>

fun field_loop :: "(nat \<Rightarrow> bool) \<Rightarrow> string \<Rightarrow> int \<Rightarrow> nat \<Rightarrow> nat \<Rightarrow> nat \<Rightarrow> http_state \<Rightarrow> (int \<times> http_state) option" where
  "field_loop e mem len b 0 pos s = do { s1 \<leftarrow> free_block b s; Some (-1, s1) }"
| "field_loop e mem len b (Suc n) pos s =
     do {
       (f, s1) \<leftarrow> get_boundary e (drop pos mem) False s;
       case f of
         None \<Rightarrow> Some (-1, s1)
       | Some fb \<Rightarrow>
         do {
           let boundary = block s1 b;
           (pos1, s2) \<leftarrow> take_field e mem len boundary (block s1 fb) (pos + length (block s1 fb) + 2) s1;
           s3 \<leftarrow> free_block fb s2;
           if len \<le> int pos1 then Some (-1, s3)
           else do {
             t \<leftarrow> str_str boundary (drop pos1 mem);
             if t = Some 0 then
               (if pos1 + length boundary + 1 < length mem
                then if mem ! (pos1 + length boundary + 1) = CHR ''-'' then do { s4 \<leftarrow> free_block b s3; Some (0, s4) }
                  else field_loop e mem len b n (pos1 + length boundary + 2) s3
                else None)
             else field_loop e mem len b n pos1 s3
           }
         }
     }"

definition formdata_paser :: "(nat \<Rightarrow> bool) \<Rightarrow> string \<Rightarrow> int \<Rightarrow> http_state \<Rightarrow> (int \<times> http_state) option" where
  "formdata_paser e mem len s =
     do {
       (f, s1) \<leftarrow> get_boundary e mem True s;
       case f of
         None \<Rightarrow> Some (-1, s1)
       | Some b \<Rightarrow> field_loop e mem len b MAX_FORMDATA_KEY_NUM (length (block s1 b) + 2) s1
     }"

section \<open>The request\<close>

text \<open>What a pointer of \<open>http_image\<close> shows the callback; \<open>None\<close>: nothing that is still there.\<close>

definition seen_string :: "http_state \<Rightarrow> nat option \<Rightarrow> string option" where
  "seen_string s p = (case p of None \<Rightarrow> None | Some k \<Rightarrow> if is_live s k then Some (block s k) else None)"

definition seen_picture :: "string \<Rightarrow> http_state \<Rightarrow> string option" where
  "seen_picture mem s =
     (case hs_pic s of
        None \<Rightarrow> None
      | Some (r, pos, n) \<Rightarrow> if r = hs_req s \<and> int pos + n \<le> int (length mem) then Some (take (nat n) (drop pos mem)) else None)"

definition free_pointer :: "nat option \<Rightarrow> http_state \<Rightarrow> http_state option" where
  "free_pointer p s = (case p of None \<Rightarrow> Some s | Some k \<Rightarrow> free_block k s)"

text \<open>\<open>cb\<close>: a callback is registered. The answer, and the state.\<close>

definition handle_request :: "(nat \<Rightarrow> bool) \<Rightarrow> bool \<Rightarrow> string \<Rightarrow> string \<Rightarrow> int \<Rightarrow> http_state \<Rightarrow> (string \<times> http_state) option" where
  "handle_request e cb url mem len s =
     (let s = s\<lparr>hs_req := Suc (hs_req s)\<rparr>
      in if request_target_is url ''/image'' then
           do {
             (r, s1) \<leftarrow> formdata_paser e mem len s;
             if r \<noteq> 0 \<or> \<not> cb then Some (''OK'', s1)
             else do {
               let s2 = s1\<lparr>hs_calls := hs_calls s1 @ [(seen_string s1 (hs_name s1), seen_string s1 (hs_id s1), seen_picture mem s1)]\<rparr>;
               s3 \<leftarrow> free_pointer (hs_name s2) s2;
               s4 \<leftarrow> free_pointer (hs_id s3) s3;
               Some (''OK'', s4)
             }
           }
         else Some (''No support'', s))"

section \<open>Searching\<close>

text \<open>A string occurs at a place.\<close>

definition occurs :: "string \<Rightarrow> string \<Rightarrow> nat \<Rightarrow> bool" where
  "occurs n s k \<longleftrightarrow> take (length n) (drop k s) = n"

lemma str_match_enough: "length n \<le> length s \<Longrightarrow> str_match n s = Some (take (length n) s = n)"
  by (induction n s rule: str_match.induct) auto

lemma occurs_Suc [simp]: "occurs n (c # s) (Suc k) = occurs n s k"
  by (simp add: occurs_def)

lemma occurs_append: "length n + k \<le> length s \<Longrightarrow> occurs n (s @ r) k = occurs n s k"
  by (simp add: occurs_def)

lemma str_str_found:
  "k + length n \<le> length s \<Longrightarrow> occurs n s k \<Longrightarrow> NUL \<notin> set (take k s) \<Longrightarrow> (\<And>j. j < k \<Longrightarrow> \<not> occurs n s j) \<Longrightarrow> str_str n s = Some (Some k)"
proof (induction k arbitrary: s)
  case 0
  then show ?case by (cases s) (simp_all add: str_match_enough occurs_def)
next
  case (Suc k)
  then obtain c r where s: "s = c # r" by (cases s) auto
  have "\<not> occurs n s 0" using Suc.prems(4) by blast
  then have "str_match n s = Some False" using Suc.prems(1) by (simp add: str_match_enough occurs_def)
  moreover have "\<not> occurs n r j" if "j < k" for j using Suc.prems(4) [of "Suc j"] that by (simp add: s)
  ultimately show ?case using Suc.IH [of r] Suc.prems by (auto simp: s)
qed

lemma str_str_null:
  "k + length n \<le> length s \<Longrightarrow> k < length s \<Longrightarrow> s ! k = NUL \<Longrightarrow> NUL \<notin> set (take k s) \<Longrightarrow> (\<And>j. j \<le> k \<Longrightarrow> \<not> occurs n s j) \<Longrightarrow> str_str n s = Some None"
proof (induction k arbitrary: s)
  case 0
  then have "\<not> occurs n s 0" by blast
  with 0 show ?case by (cases s) (simp_all add: str_match_enough occurs_def)
next
  case (Suc k)
  then obtain c r where s: "s = c # r" by (cases s) auto
  have "\<not> occurs n s 0" using Suc.prems(5) by blast
  then have "str_match n s = Some False" using Suc.prems(1) by (simp add: str_match_enough occurs_def)
  moreover have "\<not> occurs n r j" if "j \<le> k" for j using Suc.prems(5) [of "Suc j"] that by (simp add: s)
  ultimately show ?case using Suc.IH [of r] Suc.prems by (auto simp: s)
qed

lemma str_len_first: "k < length s \<Longrightarrow> s ! k = NUL \<Longrightarrow> NUL \<notin> set (take k s) \<Longrightarrow> str_len s = Some k"
proof (induction k arbitrary: s)
  case 0
  then show ?case by (cases s) auto
next
  case (Suc k)
  then show ?case by (cases s) auto
qed

text \<open>The runs between null characters together: the first place at all, if it lies before the end.\<close>

lemma first_null: "NUL \<in> set s \<Longrightarrow> \<exists>n < length s. s ! n = NUL \<and> NUL \<notin> set (take n s)"
proof (induction s)
  case (Cons c s)
  then show ?case
  proof (cases "c = NUL")
    case False
    then obtain n where "n < length s" "s ! n = NUL" "NUL \<notin> set (take n s)" using Cons by auto
    then show ?thesis using False by (intro exI [of _ "Suc n"]) auto
  qed (auto intro: exI [of _ 0])
qed simp

lemma file_end_first:
  "i \<le> k \<Longrightarrow> int k < len \<Longrightarrow> k + length b \<le> length buf \<Longrightarrow> occurs b buf k \<Longrightarrow> (\<And>j. j < k \<Longrightarrow> \<not> occurs b buf j) \<Longrightarrow>
   get_file_end_boundary buf len b i = Some (Some k)"
proof (induction buf len b i rule: get_file_end_boundary.induct)
  case (1 buf len b i)
  have occ: "occurs b (drop i buf) j = occurs b buf (i + j)" for j by (simp add: occurs_def add.commute)
  have i: "int i < len" using 1(2,3) by simp
  show ?case
  proof (cases "NUL \<in> set (take (k - i) (drop i buf))")
    case False
    have "str_str b (drop i buf) = Some (Some (k - i))"
      using 1(2,4) by (intro str_str_found False) (simp_all add: occ 1(5,6))
    then show ?thesis using 1(2) i by (subst get_file_end_boundary.simps) simp
  next
    case True
    from first_null [OF True] obtain n where n: "n < k - i" "drop i buf ! n = NUL" "NUL \<notin> set (take n (drop i buf))" by auto
    have len: "n < length (drop i buf)" "n + length b \<le> length (drop i buf)" using n(1) 1(4) by simp_all
    have s: "str_str b (drop i buf) = Some None"
      using n len 1(2) by (intro str_str_null [of n]) (simp_all add: occ 1(6))
    have l: "str_len (drop i buf) = Some n" using n len by (intro str_len_first)
    have "get_file_end_boundary buf len b (i + n + 1) = Some (Some k)"
      using n(1) 1(2) by (intro 1(1) [OF i s refl l] 1(3-6)) simp_all
    then show ?thesis using i s l by (subst get_file_end_boundary.simps) simp
  qed
qed

text \<open>A line: without a carriage return or a null character.\<close>

definition line :: "string \<Rightarrow> bool" where
  "line t \<longleftrightarrow> CHR 0x0D \<notin> set t \<and> NUL \<notin> set t"

lemma find_line: "line t \<Longrightarrow> str_str crlf (t @ crlf @ r) = Some (Some (length t))"
proof (rule str_str_found)
  fix j
  assume t: "line t" and j: "j < length t"
  then have "(t @ crlf @ r) ! j \<noteq> CHR 0x0D" by (auto simp: line_def nth_append dest: nth_mem)
  moreover have "occurs crlf (t @ crlf @ r) j \<Longrightarrow> (t @ crlf @ r) ! j = CHR 0x0D"
    using j by (auto simp: occurs_def crlf_def Cons_nth_drop_Suc [symmetric] drop_append take_Suc_conv_app_nth nth_append)
  ultimately show "\<not> occurs crlf (t @ crlf @ r) j" by blast
qed (auto simp: line_def occurs_def)

section \<open>A form\<close>

text \<open>A part: its first line, and the value; for a picture also its second line, the type.\<close>

datatype form_part = Name_part string string | ID_part string string | File_part string string string

fun part_bytes :: "form_part \<Rightarrow> string" where
  "part_bytes (Name_part h v) = h @ crlf @ crlf @ v @ crlf"
| "part_bytes (ID_part h v) = h @ crlf @ crlf @ v @ crlf"
| "part_bytes (File_part h ct pic) = h @ crlf @ ct @ crlf @ crlf @ pic @ crlf"

text \<open>What follows the first boundary.\<close>

fun form_rest :: "string \<Rightarrow> form_part list \<Rightarrow> string" where
  "form_rest b [] = ''--'' @ crlf"
| "form_rest b (p # ps) = crlf @ part_bytes p @ b @ form_rest b ps"

fun part_ok :: "string \<Rightarrow> form_part \<Rightarrow> bool" where
  "part_ok b (Name_part h v) \<longleftrightarrow> line h \<and> line v \<and> field_key h = Some FORMDATA_KEY_NAME"
| "part_ok b (ID_part h v) \<longleftrightarrow> line h \<and> line v \<and> field_key h = Some FORMDATA_KEY_ID"
| "part_ok b (File_part h ct pic) \<longleftrightarrow>
     line h \<and> line ct \<and> field_key h = Some FORMDATA_KEY_FILE \<and> list_all (\<lambda>j. \<not> occurs b (pic @ crlf @ b) j) [0..<length pic + 2]"

definition boundary_ok :: "string \<Rightarrow> bool" where
  "boundary_ok b \<longleftrightarrow> line b \<and> length b \<le> 60 \<and> b \<noteq> [] \<and> hd b = CHR ''-''"

text \<open>The state behind a part that begins at \<open>pos\<close>, and behind all.\<close>

fun after_part :: "nat \<Rightarrow> form_part \<Rightarrow> http_state \<Rightarrow> http_state" where
  "after_part pos (Name_part h v) s =
     s\<lparr>hs_blocks := hs_blocks s @ [(h, False), (v, True)], hs_name := Some (length (hs_blocks s) + 1)\<rparr>"
| "after_part pos (ID_part h v) s =
     s\<lparr>hs_blocks := hs_blocks s @ [(h, False), (v, True)], hs_id := Some (length (hs_blocks s) + 1)\<rparr>"
| "after_part pos (File_part h ct pic) s =
     s\<lparr>hs_blocks := hs_blocks s @ [(h, False), (ct, False)], hs_pic := Some (hs_req s, pos + length h + length ct + 6, int (length pic))\<rparr>"

fun after_parts :: "string \<Rightarrow> nat \<Rightarrow> form_part list \<Rightarrow> http_state \<Rightarrow> http_state" where
  "after_parts b pos [] s = s"
| "after_parts b pos (p # ps) s = after_parts b (pos + length (part_bytes p) + length b + 2) ps (after_part pos p s)"

lemma new_line:
  "line h \<Longrightarrow> e = (\<lambda>_. True) \<Longrightarrow> get_boundary e (h @ crlf @ r) False s = Some (Some (length (hs_blocks s)), s\<lparr>hs_blocks := hs_blocks s @ [(h, True)]\<rparr>)"
  by (simp add: get_boundary_def find_line new_block_def)

lemma crlf_length [simp]: "length crlf = 2"
  by (simp add: crlf_def)

lemma block_append [simp]:
  "k < length (hs_blocks s) \<Longrightarrow> block (s\<lparr>hs_blocks := hs_blocks s @ xs\<rparr>) k = block s k"
  "block (s\<lparr>hs_blocks := hs_blocks s @ x # xs\<rparr>) (length (hs_blocks s)) = fst x"
  by (simp_all add: block_def nth_append)

lemma take_value_line:
  assumes "line v" "e = (\<lambda>_. True)" "mem = pre @ crlf @ v @ crlf @ r"
  shows "take_value e mem (length pre) s =
    Some (length (hs_blocks s), length pre + length v + 4, s\<lparr>hs_blocks := hs_blocks s @ [(v, True)]\<rparr>)"
  using assms by (simp add: take_value_def new_line)

lemma take_file_picture:
  assumes "line ct" "e = (\<lambda>_. True)" "mem = pre @ ct @ crlf @ crlf @ pic @ crlf @ b @ r" "list_all (\<lambda>j. \<not> occurs b (pic @ crlf @ b) j) [0..<length pic + 2]"
    and "int (length (pre @ ct @ crlf @ crlf @ pic @ crlf)) < len" "len < 4294967296"
  shows "take_file e mem len b (length pre) s =
    Some (length (pre @ ct @ crlf @ crlf @ pic @ crlf), s\<lparr>hs_blocks := hs_blocks s @ [(ct, False)],
      hs_pic := Some (hs_req s, length pre + length ct + 4, int (length pic))\<rparr>)"
proof -
  let ?p = "length pre + length ct + 4"
  have d: "drop ?p mem = pic @ crlf @ b @ r" by (simp add: assms(3))
  have u: "u32 (len - int ?p) = len - int ?p" using assms(5,6) by (intro u32_id) (simp add: in_u32_def)
  have u2: "u32 (len - (4 + (int (length pre) + int (length ct)))) = len - (int (length pre) + int (length ct) + 4)"
    using u by (simp add: add.commute)
  have "get_file_end_boundary (pic @ crlf @ b @ r) (len - int ?p) b 0 = Some (Some (length pic + 2))"
  proof (rule file_end_first)
    fix j assume j: "j < length pic + 2"
    then have "j \<in> set [0..<length pic + 2]" by (simp del: upt_Suc)
    with assms(4) have "\<not> occurs b (pic @ crlf @ b) j" unfolding list_all_iff by blast
    then show "\<not> occurs b (pic @ crlf @ b @ r) j" using j occurs_append [of b j "pic @ crlf @ b" r] by simp
  qed (use assms(5) in \<open>auto simp: occurs_def\<close>)
  moreover have "u32 (int (length pic)) = int (length pic)" using assms(5,6) by (intro u32_id) (simp add: in_u32_def)
  ultimately show ?thesis
    using assms(1-3) d u2 by (simp add: take_file_def new_line free_block_def is_live_def block_def nth_append)
qed

lemma blocks_live: "hs_blocks s = bs @ x # cs \<Longrightarrow> k = length bs \<Longrightarrow> is_live s k = snd x \<and> block s k = fst x"
  by (simp add: is_live_def block_def nth_append)

lemma free_at:
  "hs_blocks s = bs @ (t, True) # cs \<Longrightarrow> k = length bs \<Longrightarrow> free_block k s = Some (s\<lparr>hs_blocks := bs @ (t, False) # cs\<rparr>)"
  by (simp add: free_block_def is_live_def block_def nth_append list_update_append)

lemma take_field_part:
  assumes "part_ok b p" "e = (\<lambda>_. True)" "mem = pre @ part_bytes p @ b @ r" "int (length pre + length (part_bytes p)) < len" "len < 4294967296"
  shows "\<exists>h s1 s2. get_boundary e (drop (length pre) mem) False s = Some (Some (length (hs_blocks s)), s1) \<and>
    hs_blocks s1 = hs_blocks s @ [(h, True)] \<and> (\<forall>k < length (hs_blocks s). block s1 k = block s k) \<and>
    take_field e mem len b h (length pre + length h + 2) s1 = Some (length pre + length (part_bytes p), s2) \<and>
    free_block (length (hs_blocks s)) s2 = Some (after_part (length pre) p s)"
proof (cases p)
  case (Name_part h v)
  let ?s1 = "s\<lparr>hs_blocks := hs_blocks s @ [(h, True)]\<rparr>"
  have "get_boundary e (drop (length pre) mem) False s = Some (Some (length (hs_blocks s)), ?s1)"
    using assms(1,2) by (simp add: assms(3) Name_part new_line)
  moreover have "take_value e mem (length (pre @ h @ crlf)) ?s1 =
    Some (length (hs_blocks s) + 1, length (pre @ h @ crlf) + length v + 4, ?s1\<lparr>hs_blocks := hs_blocks s @ [(h, True), (v, True)]\<rparr>)"
    using assms(1) by (subst take_value_line [where v = v and r = "b @ r"]) (simp_all add: assms(2,3) Name_part)
  ultimately show ?thesis
    using assms(1) by (intro exI [of _ h] exI [of _ ?s1] exI) (auto simp: Name_part take_field_def free_at algebra_simps intro!: free_at)
next
  case (ID_part h v)
  let ?s1 = "s\<lparr>hs_blocks := hs_blocks s @ [(h, True)]\<rparr>"
  have "get_boundary e (drop (length pre) mem) False s = Some (Some (length (hs_blocks s)), ?s1)"
    using assms(1,2) by (simp add: assms(3) ID_part new_line)
  moreover have "take_value e mem (length (pre @ h @ crlf)) ?s1 =
    Some (length (hs_blocks s) + 1, length (pre @ h @ crlf) + length v + 4, ?s1\<lparr>hs_blocks := hs_blocks s @ [(h, True), (v, True)]\<rparr>)"
    using assms(1) by (subst take_value_line [where v = v and r = "b @ r"]) (simp_all add: assms(2,3) ID_part)
  ultimately show ?thesis
    using assms(1) by (intro exI [of _ h] exI [of _ ?s1] exI) (auto simp: ID_part take_field_def free_at algebra_simps intro!: free_at)
next
  case (File_part h ct pic)
  let ?s1 = "s\<lparr>hs_blocks := hs_blocks s @ [(h, True)]\<rparr>"
  have "get_boundary e (drop (length pre) mem) False s = Some (Some (length (hs_blocks s)), ?s1)"
    using assms(1,2) by (simp add: assms(3) File_part new_line)
  moreover have "take_file e mem len b (length (pre @ h @ crlf)) ?s1 =
    Some (length ((pre @ h @ crlf) @ ct @ crlf @ crlf @ pic @ crlf), ?s1\<lparr>hs_blocks := hs_blocks s @ [(h, True), (ct, False)],
      hs_pic := Some (hs_req s, length (pre @ h @ crlf) + length ct + 4, int (length pic))\<rparr>)"
    using assms(1,4,5) by (subst take_file_picture [where ct = ct and pic = pic and r = r]) (simp_all add: assms(2,3) File_part)
  ultimately show ?thesis
    using assms(1) by (intro exI [of _ h] exI [of _ ?s1] exI) (auto simp: File_part take_field_def free_at algebra_simps intro!: free_at)
qed

lemma part_step:
  assumes "part_ok b p" "e = (\<lambda>_. True)" "mem = pre @ part_bytes p @ b @ form_rest b ps @ rest" "int (length pre + length (part_bytes p)) < len" "len < 4294967296"
    and "hs_blocks s ! bid = (b, True)" "bid < length (hs_blocks s)" "length (form_rest b ps) \<noteq> 0"
  shows "field_loop e mem len bid (Suc n) (length pre) s =
    (if form_rest b ps ! 1 = CHR ''-'' then do { s4 \<leftarrow> free_block bid (after_part (length pre) p s); Some (0, s4) }
     else field_loop e mem len bid n (length pre + length (part_bytes p) + length b + 2) (after_part (length pre) p s))"
proof -
  let ?pos = "length pre + length (part_bytes p)"
  obtain h s1 s2 where f: "get_boundary e (drop (length pre) mem) False s = Some (Some (length (hs_blocks s)), s1)"
    "hs_blocks s1 = hs_blocks s @ [(h, True)]" "\<forall>k < length (hs_blocks s). block s1 k = block s k"
    "take_field e mem len b h (length pre + length h + 2) s1 = Some (?pos, s2)"
    "free_block (length (hs_blocks s)) s2 = Some (after_part (length pre) p s)"
    using take_field_part [OF assms(1,2,3,4,5), where s = s] by blast
  have b: "block s1 bid = b" "block s1 (length (hs_blocks s)) = h" using f(2,3) assms(6,7) by (simp_all add: block_def)
  have r: "1 < length (form_rest b ps)" by (cases ps) (simp_all add: crlf_def)
  have d: "drop ?pos mem = b @ form_rest b ps @ rest" by (simp add: assms(3))
  have t: "str_str b (drop ?pos mem) = Some (Some 0)" unfolding d by (intro str_str_found) (simp_all add: occurs_def)
  have n: "mem ! (?pos + length b + 1) = form_rest b ps ! 1" "?pos + length b + 1 < length mem"
    using r by (simp_all add: assms(3) nth_append)
  show ?thesis
    using f(1,4,5) b t n assms(4) by simp
qed

lemma after_part_blocks:
  "\<exists>new. hs_blocks (after_part pos p s) = hs_blocks s @ new"
  by (cases p) simp_all

lemma parts_loop:
  "list_all (part_ok b) (p # ps) \<Longrightarrow> e = (\<lambda>_. True) \<Longrightarrow> mem = pre @ part_bytes p @ b @ form_rest b ps @ rest \<Longrightarrow> length ps < n \<Longrightarrow>
   int (length pre + length (part_bytes p @ b @ form_rest b ps)) = len \<Longrightarrow> len < 4294967296 \<Longrightarrow>
   hs_blocks s ! bid = (b, True) \<Longrightarrow> bid < length (hs_blocks s) \<Longrightarrow>
   field_loop e mem len bid n (length pre) s = do { s4 \<leftarrow> free_block bid (after_parts b (length pre) (p # ps) s); Some (0, s4) }"
proof (induction ps arbitrary: p pre s n)
  case Nil
  then obtain m where n: "n = Suc m" by (cases n) auto
  show ?case unfolding n
    using Nil by (subst part_step [of b p e mem pre "[]" rest]) (simp_all add: crlf_def)
next
  case (Cons q qs)
  obtain m where n: "n = Suc m" using Cons.prems(4) by (cases n) auto
  let ?pre = "pre @ part_bytes p @ b @ crlf"
  obtain new where new: "hs_blocks (after_part (length pre) p s) = hs_blocks s @ new" using after_part_blocks by blast
  have 1: "form_rest b (q # qs) ! 1 \<noteq> CHR ''-''" by (simp add: crlf_def)
  have "field_loop e mem len bid n (length pre) s =
      field_loop e mem len bid m (length pre + length (part_bytes p) + length b + 2) (after_part (length pre) p s)"
    unfolding n using Cons.prems 1 by (subst part_step [of b p e mem pre "q # qs" rest]) simp_all
  also have "\<dots> = field_loop e mem len bid m (length ?pre) (after_part (length pre) p s)" by (simp add: add.assoc)
  also have "\<dots> = do { s4 \<leftarrow> free_block bid (after_parts b (length ?pre) (q # qs) (after_part (length pre) p s)); Some (0, s4) }"
    using Cons.prems n by (intro Cons.IH) (simp_all add: new nth_append)
  finally show ?case by (simp add: add.assoc)
qed

section \<open>A request with a form\<close>

text \<open>The state that the parser leaves: the new blocks are \<open>xs\<close>, of which only the name and the number are still allocated.\<close>

definition parsed :: "http_state \<Rightarrow> string \<Rightarrow> string \<Rightarrow> string \<Rightarrow> string \<Rightarrow> http_state \<Rightarrow> bool" where
  "parsed s mem name num pic s1 \<longleftrightarrow>
     hs_calls s1 = hs_calls s \<and> seen_picture mem s1 = Some pic \<and>
     (\<exists>xs i j. hs_blocks s1 = hs_blocks s @ xs \<and> hs_name s1 = Some (length (hs_blocks s) + i) \<and> hs_id s1 = Some (length (hs_blocks s) + j) \<and>
        i < length xs \<and> j < length xs \<and> i \<noteq> j \<and> xs ! i = (name, True) \<and> xs ! j = (num, True) \<and>
        list_all (\<lambda>k. k = i \<or> k = j \<or> \<not> snd (xs ! k)) [0..<length xs])"

lemma parsedI:
  "hs_calls s1 = hs_calls s \<Longrightarrow> seen_picture mem s1 = Some pic \<Longrightarrow> hs_blocks s1 = hs_blocks s @ xs \<Longrightarrow>
   hs_name s1 = Some (length (hs_blocks s) + i) \<Longrightarrow> hs_id s1 = Some (length (hs_blocks s) + j) \<Longrightarrow> i < length xs \<Longrightarrow> j < length xs \<Longrightarrow> i \<noteq> j \<Longrightarrow>
   xs ! i = (name, True) \<Longrightarrow> xs ! j = (num, True) \<Longrightarrow> list_all (\<lambda>k. k = i \<or> k = j \<or> \<not> snd (xs ! k)) [0..<length xs] \<Longrightarrow>
   parsed s mem name num pic s1"
  unfolding parsed_def by blast

lemma request_of_parsed:
  assumes "formdata_paser e mem len (s\<lparr>hs_req := Suc (hs_req s)\<rparr>) = Some (0, s1)" "parsed (s\<lparr>hs_req := Suc (hs_req s)\<rparr>) mem name num pic s1"
  shows "\<exists>s'. handle_request e True ''/image'' mem len s = Some (''OK'', s') \<and> hs_calls s' = hs_calls s @ [(Some name, Some num, Some pic)] \<and>
    (\<forall>k. is_live s' k = is_live s k)"
proof -
  obtain xs i j where x: "hs_blocks s1 = hs_blocks s @ xs" "hs_name s1 = Some (length (hs_blocks s) + i)" "hs_id s1 = Some (length (hs_blocks s) + j)"
    "i < length xs" "j < length xs" "i \<noteq> j" "xs ! i = (name, True)" "xs ! j = (num, True)"
    "\<And>k. k < length xs \<Longrightarrow> k = i \<or> k = j \<or> \<not> snd (xs ! k)"
    and c: "hs_calls s1 = hs_calls s" "seen_picture mem s1 = Some pic"
    using assms(2) by (auto simp: parsed_def list_all_iff)
  have seen: "seen_string s1 (hs_name s1) = Some name" "seen_string s1 (hs_id s1) = Some num"
    using x(1-8) by (simp_all add: seen_string_def is_live_def block_def nth_append)
  have live: "is_live (s1\<lparr>hs_calls := cs, hs_blocks := (hs_blocks s @ xs)[length (hs_blocks s) + i := (name, False), length (hs_blocks s) + j := (num, False)]\<rparr>) k
      = is_live s k" for k cs
  proof (cases "k < length (hs_blocks s)")
    case False
    then obtain m where "k = length (hs_blocks s) + m" by (metis le_Suc_ex not_less)
    then show ?thesis using x(4-6) x(9) [of m] by (auto simp: is_live_def nth_append list_update_append nth_list_update)
  qed (simp add: is_live_def nth_append list_update_append)
  have t: "request_target_is ''/image'' ''/image''" by (simp add: request_target_is_def)
  show ?thesis
    using assms(1) x(1-8) c seen live t
    by (simp add: handle_request_def free_pointer_def free_block_def is_live_def block_def nth_append list_update_append nth_list_update)
qed

lemma any_order:
  assumes "length ps = 3" "a \<in> set ps" "b \<in> set ps" "c \<in> set ps" "a \<noteq> b" "b \<noteq> c" "a \<noteq> c"
  shows "ps = [a, b, c] \<or> ps = [a, c, b] \<or> ps = [b, a, c] \<or> ps = [b, c, a] \<or> ps = [c, a, b] \<or> ps = [c, b, a]"
proof -
  obtain x y z where "ps = [x, y, z]" using assms(1) by (auto simp: numeral_3_eq_3 length_Suc_conv)
  then show ?thesis using assms(2-) by auto
qed

lemma form_parsed:
  assumes "boundary_ok b" "list_all (part_ok b) ps" "length ps = 3"
    and "Name_part hn name \<in> set ps" "ID_part hi num \<in> set ps" "File_part hf ct pic \<in> set ps"
    and "mem = b @ form_rest b ps @ rest" "len = int (length (b @ form_rest b ps))" "len < 4294967296"
  shows "\<exists>s1. formdata_paser (\<lambda>_. True) mem len s = Some (0, s1) \<and> parsed s mem name num pic s1"
proof -
  let ?k = "length (hs_blocks s)"
  define s0 where "s0 = s\<lparr>hs_blocks := hs_blocks s @ [(b, True)]\<rparr>"
  obtain p qs where ps: "ps = p # qs" "length qs = 2" using assms(3) by (cases ps) auto
  have mem: "mem = b @ crlf @ part_bytes p @ b @ form_rest b qs @ rest" by (simp add: assms(7) ps)
  have "str_str crlf mem = Some (Some (length b))" unfolding mem using assms(1) by (intro find_line) (simp add: boundary_ok_def)
  moreover have "mem \<noteq> []" "hd mem = CHR ''-''" using assms(1) by (auto simp: boundary_ok_def mem)
  ultimately have g: "get_boundary (\<lambda>_. True) mem True s = Some (Some ?k, s0)"
    using assms(1) by (simp add: get_boundary_def boundary_ok_def new_block_def s0_def mem)
  have "field_loop (\<lambda>_. True) mem len ?k 3 (length (b @ crlf)) s0 =
      do { s4 \<leftarrow> free_block ?k (after_parts b (length (b @ crlf)) (p # qs) s0); Some (0, s4) }"
    using assms(2,8,9) ps by (intro parts_loop [where rest = rest]) (simp_all add: mem s0_def)
  then have f: "formdata_paser (\<lambda>_. True) mem len s =
      do { s4 \<leftarrow> free_block ?k (after_parts b (length b + 2) ps s0); Some (0, s4) }"
    using g by (simp add: formdata_paser_def MAX_FORMDATA_KEY_NUM_def ps) (simp add: block_def s0_def)
  from any_order [OF assms(3-6)]
  have "ps = [Name_part hn name, ID_part hi num, File_part hf ct pic] \<or> ps = [Name_part hn name, File_part hf ct pic, ID_part hi num] \<or>
    ps = [ID_part hi num, Name_part hn name, File_part hf ct pic] \<or> ps = [ID_part hi num, File_part hf ct pic, Name_part hn name] \<or>
    ps = [File_part hf ct pic, Name_part hn name, ID_part hi num] \<or> ps = [File_part hf ct pic, ID_part hi num, Name_part hn name]" by simp
  then show ?thesis
  proof (elim disjE)
    note [simp] = free_at [where bs = "hs_blocks s"] s0_def seen_picture_def assms(7)
    show ?thesis if "ps = [Name_part hn name, ID_part hi num, File_part hf ct pic]" unfolding f using that parsedI [where i = 2 and j = 4] by simp
    show ?thesis if "ps = [Name_part hn name, File_part hf ct pic, ID_part hi num]" unfolding f using that parsedI [where i = 2 and j = 6] by simp
    show ?thesis if "ps = [ID_part hi num, Name_part hn name, File_part hf ct pic]" unfolding f using that parsedI [where i = 4 and j = 2] by simp
    show ?thesis if "ps = [ID_part hi num, File_part hf ct pic, Name_part hn name]" unfolding f using that parsedI [where i = 6 and j = 2] by simp
    show ?thesis if "ps = [File_part hf ct pic, Name_part hn name, ID_part hi num]" unfolding f using that parsedI [where i = 4 and j = 6] by simp
    show ?thesis if "ps = [File_part hf ct pic, ID_part hi num, Name_part hn name]" unfolding f using that parsedI [where i = 6 and j = 4] by simp
  qed
qed

text \<open>
  C40. A request with a name, a number and a picture, in any order, is handed to the callback exactly once, with exactly these, whatever bytes the
  picture has (as long as the boundary is not among them), whatever an earlier request has left and whatever lies behind the body; the answer is OK, and
  everything that was allocated for it is released.
\<close>

theorem http_image_request:
  assumes "boundary_ok b" "list_all (part_ok b) ps" "length ps = 3"
    and "Name_part hn name \<in> set ps" "ID_part hi num \<in> set ps" "File_part hf ct pic \<in> set ps"
    and "mem = b @ form_rest b ps @ rest" "len = int (length (b @ form_rest b ps))" "len < 4294967296"
  shows "\<exists>s'. handle_request (\<lambda>_. True) True ''/image'' mem len s = Some (''OK'', s') \<and>
    hs_calls s' = hs_calls s @ [(Some name, Some num, Some pic)] \<and> (\<forall>k. is_live s' k = is_live s k)"
  using form_parsed [OF assms, of "s\<lparr>hs_req := Suc (hs_req s)\<rparr>"] request_of_parsed by blast

text \<open>A form; its picture has a null character, an end of line and a dash.\<close>

definition quoted :: "string \<Rightarrow> string" where
  "quoted t = [CHR 0x22] @ t @ [CHR 0x22]"

definition some_parts :: "form_part list" where
  "some_parts =
     [File_part (''name=x; filename='' @ quoted ''a'') ''Type: i'' [CHR 0xFF, NUL, CHR 0x0D, CHR 0x0A, CHR ''-''],
      ID_part (''name='' @ quoted ''ID'') ''17'', Name_part (''name='' @ quoted ''Name'') ''Li'']"

definition no_requests :: http_state where
  "no_requests = \<lparr>hs_blocks = [], hs_name = None, hs_id = None, hs_pic = None, hs_req = 0, hs_calls = []\<rparr>"

lemma http_image_request_witness:
  "\<exists>s'. handle_request (\<lambda>_. True) True ''/image'' (''--b'' @ form_rest ''--b'' some_parts @ ''old'') 98 no_requests = Some (''OK'', s') \<and>
    hs_calls s' = [(Some ''Li'', Some ''17'', Some [CHR 0xFF, NUL, CHR 0x0D, CHR 0x0A, CHR ''-''])] \<and> (\<forall>k. is_live s' k = is_live no_requests k)"
proof -
  have "list_all (part_ok ''--b'') some_parts" "boundary_ok ''--b''" "length (''--b'' @ form_rest ''--b'' some_parts) = 98" by code_simp+
  then show ?thesis
    using http_image_request [of "''--b''" some_parts "''name='' @ quoted ''Name''" "''Li''" "''name='' @ quoted ''ID''" "''17''"
        "''name=x; filename='' @ quoted ''a''" "''Type: i''" "[CHR 0xFF, NUL, CHR 0x0D, CHR 0x0A, CHR ''-'']" _ "''old''" _ no_requests, OF _ _ _ _ _ _ refl refl]
    by (simp add: some_parts_def) (simp add: no_requests_def)
qed

section \<open>Requests that go wrong\<close>

definition form_of :: "form_part list \<Rightarrow> string" where
  "form_of ps = ''--b'' @ form_rest ''--b'' ps"

definition request :: "string \<Rightarrow> http_state \<Rightarrow> (string \<times> http_state) option" where
  "request body s = handle_request (\<lambda>_. True) True ''/image'' (body @ [NUL]) (int (length body)) s"

text \<open>The pointers are not cleared: a second request without a name releases the name of the first one again.\<close>

lemma released_again: "(case request (form_of some_parts) no_requests of Some (r, s) \<Rightarrow> request (form_of (take 2 some_parts)) s | None \<Rightarrow> Some ([], no_requests)) = None"
  by code_simp

text \<open>A name at the end of the body, without an end of line, is a null string.\<close>

lemma name_without_end: "request (''--b'' @ crlf @ quoted ''Name'' @ crlf @ crlf @ ''Li'') no_requests = None"
  by code_simp

text \<open>A form that ends early: the boundary stays allocated. The answer is OK all the same.\<close>

lemma failure_leaks:
  "map_option (\<lambda>(r, s). (r, filter (is_live s) [0..<length (hs_blocks s)])) (request (''--b'' @ crlf @ ''x'' @ crlf) no_requests) = Some (''OK'', [0])"
  by code_simp

text \<open>A boundary right behind the head of a picture: its size is minus two.\<close>

lemma picture_size_wraps:
  "map_option (\<lambda>(r, s). hs_pic s)
     (request (''--b'' @ crlf @ ''filename'' @ crlf @ ''t'' @ crlf @ crlf @ ''--b--'') no_requests) = Some (Some (1, 20, 4294967294))"
  by code_simp

text \<open>The end of a picture is found behind the end of the body, in what an earlier request has left there.\<close>

lemma end_behind_body: "get_file_end_boundary (''picture'' @ crlf @ ''--b'' @ [NUL]) 7 ''--b'' 0 = Some (Some 9)"
  by code_simp

end
