(* ===== verification/Spec2Isabelle.thy ===== *)
theory Spec2Isabelle
  imports Nnie_TopN Watchdog Svp_Gen Vo_Display Vi_Isp Venc_Stream Vdec_Stream Vdec_Pool Vdec_Save Http_Form
begin

text \<open>
  Verification development of the C part of an AI camera firmware for the Hi3516: the software that
  works around the neural network unit (NNIE) and turns what it computes into detections, the
  memory and the images it uses, the media code around it (raw frames, user pictures, the media system, the display, the streams of the codecs), and the
  watchdog driver that keeps the device alive.

  \<^bold>\<open>The program.\<close> A detection service loads a network file into media memory
  (\<open>SAMPLE_COMM_SVP_NNIE_LoadModel\<close>), lays out one block with the buffers of all segments
  (\<open>SAMPLE_COMM_SVP_NNIE_ParamInit\<close>) and a second one for the post-processing (\<open>_SoftwareInit\<close> of each
  network). For each frame it fills the source blob, runs the segment and waits
  (\<open>SAMPLE_SVP_NNIE_Forward\<close>), and calls the post-processing of the network
  (\<open>SAMPLE_SVP_NNIE_<net>_GetResult\<close>), which works in fixed assist memory on numbers in 20.12 fixed point and
  single precision: decoding of boxes, softmax, sorting with an explicit stack, suppression of
  overlapping boxes, selection per class. The results are copied to the caller.
  Around the service, the media code starts the system and the display, binds the units to each other, and moves pictures between
  files, sensor formats and frames. An HTTP server takes forms with pictures. The watchdog driver (\<open>src/wdt/hi_wdt.c\<close>) owns the timer's registers, feeds it from a daemon while no
  process has opened the device, and resets the machine when an owner stops feeding.

  \<^bold>\<open>The theories.\<close> Paths are below \<open>src/hihopesdk/hardware/hi3516/src\<close>.
  \<^item> \<open>AIPC_Prelude\<close>: the wrap-around of 32-bit integers (\<open>s32\<close>, \<open>u32\<close> on \<open>int\<close>), swaps, stores checked against
    an array (\<open>store_at\<close>), loops that may fail (\<open>fold_opt\<close>), the theorem collections.
  \<^item> \<open>C_Float\<close>: IEEE 754 single and double precision on rationals: rounding, the operations, conversions.
  \<^item> \<open>Nnie_Sort\<close>, \<open>Nnie_Nms\<close>, \<open>Nnie_Math\<close>: the shared parts of \<open>nnie/sample_svp_nnie_software.c\<close>: both quick
    sorts, the low-score filter and the suppression of proposals, exponential, softmax and sigmoid.
    The sort is an interface (locale) between the stages and the two quick sorts; so is the suppression.
  \<^item> \<open>Nnie_Rpn\<close>: \<open>SVP_NNIE_Rpn\<close>, against the candidates computed straight from the blobs (\<open>rpn_candidates\<close>) and what is
    selected of them (\<open>rpn_ranked\<close>, \<open>rpn_kept\<close>). \<open>Nnie_Rcnn\<close>: the class stages of Faster R-CNN, PVANet and R-FCN.
    \<open>Nnie_TopN\<close>: the best classes of a classification network. \<open>Nnie_Ssd\<close>, \<open>Nnie_Yolo\<close> (v2 and v3), \<open>Nnie_Yolov1\<close>: the other networks.
  \<^item> \<open>Svp_Mem\<close>, \<open>Svp_Gen\<close>: \<open>common/sdk2v0/sample_comm_svp.c\<close>: media memory, buffers and images; \<open>live\<close> reads the
    allocated blocks off a trace of allocations and releases; then test pictures as the list of their
    stores, compared with the layout of an image (\<open>image_bytes\<close>).
  \<^item> \<open>Ive_Common\<close>: \<open>common/sdk2v0/sample_comm_ive.c\<close>: images and their files, rectangles of blobs, copies by DMA.
  \<^item> \<open>Vi_Raw\<close>, \<open>Vi_Frame\<close>: \<open>common/sdk2v0/sample_comm_vi.c\<close>: packed pixels of the sensor and the frames saved from it; user
    pictures, from planar files to semi-planar frames.
    \<open>Vi_Tables\<close>: what the sensors are (resolution, bits, attributes of receiver, device, pipe, channel and image processor).
    \<open>Vi_Start\<close>: configurations of an input, receiver (MIPI), modes, devices, pipes, channels; \<open>Vi_Isp\<close>: the image processor
    (also \<open>sample_comm_isp.c\<close>) and the whole input (\<open>SAMPLE_COMM_VI_StartVi\<close>, \<open>_StopVi\<close>).
  \<^item> \<open>Media_Buffer\<close>: \<open>src/hihopesdk/sdk2v0/include/hi_buffer.h\<close>: the sizes of all video buffers, in 32 bits.
  \<^item> \<open>Venc_Stream\<close>: \<open>common/sdk2v0/sample_comm_venc.c\<close>: the thumbnail inside of a JPEG file, packets written to files.
  \<^item> \<open>Vdec_Stream\<close>, \<open>Vdec_Pool\<close>, \<open>Vdec_Save\<close>: \<open>common/sdk2v0/sample_comm_vdec.c\<close>: the thread that cuts a file into pictures and
    sends them (what a splitting must satisfy is the locale \<open>splitter\<close>, with JPEG, H.264, H.265 and raw buffers), the pools of the
    decoders, the decoded pictures saved to files.
  \<^item> \<open>Media_Types\<close>: types that the media theories share. \<open>Media_Ops\<close>: \<open>mpp/sdk2v0/sample_comm_sys.c\<close>: the calls to the media
    services, what they take and give back, the locale \<open>paired\<close> of a start and its stop and \<open>paired_family\<close> of starts in a
    row that unwind; the system, bindings, registers. \<open>Vo_Tables\<close>, \<open>Vo_Display\<close>:
    \<open>mpp/sdk2v0/sample_comm_vo.c\<close>: timings, devices, layers, windows and HDMI.
  \<^item> \<open>Nnie_Model\<close>: \<open>common/sdk2v0/sample_comm_nnie.c\<close>: loading, parameters, blobs, drawing.
  \<^item> \<open>Nnie_Soft\<close>, \<open>Nnie_SoftDet\<close>: the parameters of all networks (\<open>nnie/sample_nnie.c\<close>), the sizes of their
    buffers, and the stages of a frame run one after the other with these parameters in these buffers.
    The networks share \<open>_ParamInit\<close> and \<open>_Deinit\<close>: the locale \<open>soft_params\<close> says what these rely on.
  \<^item> \<open>Nnie_Detect\<close>: filling a source, running a segment, taking results, and the three functions of the
    detection service (\<open>NNIE_LOAD_MODEL_yolov3\<close>, \<open>NNIE_process_yolov3\<close>, \<open>deinit_yolov3\<close>).
  \<^item> \<open>Http_Form\<close>: \<open>src/http_cmd/src/http-server-lib.c\<close>: the form by which a person is enrolled, parsed in the memory of the request.
  \<^item> \<open>Watchdog\<close>: \<open>src/wdt/hi_wdt.c\<close>.

  \<^bold>\<open>How state and operations are modelled.\<close> Each C function is a function on explicit state. Arrays
  with rows (proposals, boxes, results) are lists of records; an array index that leaves the array is
  \<open>None\<close>, and so is a division by zero, a loop that does not end and the reading of a null stream. Machine
  integers are \<open>int\<close> with the wrap-around written out at every operation that can reach it. Calls into the NNIE, VGS,
  media memory and OSAL services, and \<open>exp\<close> of the C library, are parameters: functions from the history of calls or
  from the arguments to the value returned. What they must satisfy is named where it is assumed:
  \<open>mmz_sound\<close> says that a successful allocation returns addresses that are not null and do not wrap. Register
  accesses, allocations, drawing calls, cache flushes and runs are events of a trace in program order.
  A media operation (\<open>mop\<close>) is a function from the calls so far and the resources held to its result and the new state; a call carries the attributes the code passes with it; what a call that
  succeeds takes and gives back is \<open>gains\<close> and \<open>drops\<close>, what an operation takes, may leave behind and gives back is \<open>takes\<close> and \<open>frees\<close>.

  \<^bold>\<open>What the lemmas show.\<close> For each stage: which rows it returns (functional), that the
  optimised loops compute their specification (the greedy suppression, the sorted prefix, the
  permuted blobs), and that it stays in its memory. For the memory: layouts without
  overlap, no leak and no double release on any error path, and the type of each blob. For the
  frames: whatever the network computes, all stages of Faster R-CNN, SSD and YOLO run inside the buffers that the
  initialisation has sized, and the results are boxes of the image. For the pictures: round trips between memory, files and
  the packing of the sensor, and stores inside of the images. For the display: windows without overlap, and a stop that gives back what
  a start took. For the input: the tables of one sensor agree with each other, a start that fails leaves no device open, and a
  stop gives back exactly what the start took. For the codecs: a file is sent picture by picture, in order and each once; the pools are one
  for each size, and none is lost; a picture saved is the file it came from. For the form: what was
  posted is what the callback gets, and nothing stays allocated. For the watchdog: an
  invariant of all reachable states, the unwinding of the initialisation (of all but the register mapping, which the
  driver never releases) and the timing of the daemon. Where the code
  does something else than it means to, a lemma says so.

  \<^bold>\<open>Bounds and fuel.\<close> The quick sort's loop runs on its stack and ends by a measure; \<open>sort_rows_terminates\<close>
  bounds its rounds by \<open>2 n + 1\<close>, and a stack of \<open>n\<close> entries, which the buffers contain, is enough. The products
  of the suppression need boxes below 524288 pixels. The proposal stage needs a score and a box blob of the same
  feature map, four box channels for each anchor (\<open>blobs_match\<close>): it sizes its areas by the one and loops over the other
  (\<open>rpn_transpose_leaves_area\<close>). Coordinates need images up to 16777216 pixels wide or
  high, the integers of single precision. The wait for the network has no bound in the code; it is a partial function, and
  \<open>NNIE_Forward_hangs\<close> says when it does not return.

  \<^bold>\<open>Not modelled.\<close> The sample pipelines and the printing of results to files, which only run the modelled
  operations in sequence; the starts of the channels of VPSS, VENC and VDEC, the threads that poll the encoder and those that dump frames, the calibration of fixed pattern noise, and the pipelines of the IVE samples that run them; the copies for SDK
  1.0 and for Hi3559A; the C++ application; vendored libraries. Weak memory
  and timing below the OSAL lock are not modelled; the watchdog's race is on interleaved steps.
\<close>

end
